(* ===== verification/Ipc_Base.thy ===== *)
theory Ipc_Base
  imports Main "HOL-Library.Word" "HOL-Library.Monad_Syntax"
begin

text \<open>
  The prelude of the development: the machine types of the 32-bit ARM build, byte blocks
  with bounds-checked access, little-endian codecs, and the contract of a frame queue that
  the buffer modules of \<open>src/FileSystem/avicodelib\<close> implement.

  A C operation is modelled as a function into \<open>'a option\<close>: \<open>None\<close> is an access
  outside every live object (or a loop that does not return), which C leaves undefined.
  The return codes of the source stay integers inside \<open>Some\<close>.
\<close>

unbundle bit_operations_syntax

section \<open>Machine types\<close>

type_synonym byte = "8 word"
type_synonym u32 = "32 word"

lemma unat_of_nat_u32 [simp]: "n < 2 ^ 32 \<Longrightarrow> unat (of_nat n :: u32) = n"
  by (simp add: unat_of_nat)

text \<open>A C \<open>int\<close> is the signed reading of a 32-bit word.\<close>

lemma sint_small: "unat (w :: u32) < 2 ^ 31 \<Longrightarrow> sint w = int (unat w)"
proof -
  assume a: "unat w < 2 ^ 31"
  then have "uint w < 2 ^ 31"
    by (metis of_nat_less_iff of_nat_numeral of_nat_power uint_nat)
  then have "signed_take_bit 31 (uint w) = uint w"
    by (intro signed_take_bit_int_eq_self) (simp_all add: order_trans [OF _ uint_ge_0])
  then show ?thesis by (simp add: sint_uint)
qed

named_theorems mem_simps \<open>laws of bounds-checked block access\<close>
named_theorems codec_simps \<open>lengths and round trips of the byte codecs\<close>

text \<open>Return codes of \<open>src/include/devfile.h\<close>.\<close>

definition ERROR :: int where "ERROR = - 1"
definition NOENOUGHMEMORY :: int where "NOENOUGHMEMORY = - 6"
definition FILEERROR :: int where "FILEERROR = - 7"
definition ALLRIGHT :: int where "ALLRIGHT = 100"

lemmas rel_codes = ERROR_def NOENOUGHMEMORY_def FILEERROR_def ALLRIGHT_def

section \<open>Byte blocks\<close>

text \<open>A read or a write of a block succeeds when it lies inside the block.\<close>

definition mem_read :: "'a list \<Rightarrow> nat \<Rightarrow> nat \<Rightarrow> 'a list option" where
  "mem_read m off n = (if off + n \<le> length m then Some (take n (drop off m)) else None)"

definition mem_write :: "'a list \<Rightarrow> nat \<Rightarrow> 'a list \<Rightarrow> 'a list option" where
  "mem_write m off bs =
     (if off + length bs \<le> length m
      then Some (take off m @ bs @ drop (off + length bs) m) else None)"

lemma mem_read_Some [mem_simps]:
  "off + n \<le> length m \<Longrightarrow> mem_read m off n = Some (take n (drop off m))"
  by (simp add: mem_read_def)

lemma mem_read_SomeD: "mem_read m off n = Some d \<Longrightarrow> off + n \<le> length m \<and> d = take n (drop off m)"
  by (simp add: mem_read_def split: if_splits)

lemma mem_read_length: "mem_read m off n = Some d \<Longrightarrow> length d = n"
  by (auto simp: mem_read_def split: if_splits)

lemma mem_write_Some [mem_simps]:
  "off + length bs \<le> length m \<Longrightarrow>
    mem_write m off bs = Some (take off m @ bs @ drop (off + length bs) m)"
  by (simp add: mem_write_def)

lemma mem_write_ex: "off + length bs \<le> length m \<Longrightarrow> \<exists>m'. mem_write m off bs = Some m'"
  by (simp add: mem_write_def)

lemma mem_write_length: "mem_write m off bs = Some m' \<Longrightarrow> length m' = length m"
  by (auto simp: mem_write_def split: if_splits)

lemma mem_write_nth:
  assumes "mem_write m off bs = Some m'" and "j < length m"
  shows "m' ! j = (if off \<le> j \<and> j < off + length bs then bs ! (j - off) else m ! j)"
proof -
  from assms(1) have b: "off + length bs \<le> length m"
    and m': "m' = take off m @ bs @ drop (off + length bs) m"
    by (auto simp: mem_write_def split: if_splits)
  show ?thesis
    using assms(2) b unfolding m' by (auto simp: nth_append min_def)
qed

lemma mem_read_after_write:
  assumes "mem_write m off bs = Some m'"
  shows "mem_read m' off (length bs) = Some bs"
proof -
  from assms have b: "off + length bs \<le> length m"
    and m': "m' = take off m @ bs @ drop (off + length bs) m"
    by (auto simp: mem_write_def split: if_splits)
  show ?thesis using b unfolding m' by (simp add: mem_read_def)
qed

lemma mem_read_write_disjoint:
  assumes "mem_write m off bs = Some m'" and "p + n \<le> off \<or> off + length bs \<le> p"
  shows "mem_read m' p n = mem_read m p n"
proof (cases "p + n \<le> length m")
  case True
  have len: "length m' = length m" using assms(1) by (rule mem_write_length)
  have "take n (drop p m') = take n (drop p m)"
  proof (rule nth_equalityI)
    show "length (take n (drop p m')) = length (take n (drop p m))" using len by simp
  next
    fix i assume "i < length (take n (drop p m'))"
    then have "i < n" and "p + i < length m" using len True by auto
    then show "take n (drop p m') ! i = take n (drop p m) ! i"
      using mem_write_nth [OF assms(1), of "p + i"] assms(2) len by auto
  qed
  with True len show ?thesis by (simp add: mem_read_def)
next
  case False
  then show ?thesis using mem_write_length [OF assms(1)] by (simp add: mem_read_def)
qed

text \<open>Two writes, the second where the first ends, are one write.\<close>

lemma mem_write_append:
  assumes "off + length a + length b \<le> length m"
  shows "\<exists>m1 m2. mem_write m off a = Some m1 \<and> mem_write m1 (off + length a) b = Some m2 \<and>
    mem_write m off (a @ b) = Some m2"
  using assms by (simp add: mem_write_def ac_simps)

section \<open>Ring views\<close>

text \<open>
  The elements of a ring of \<open>S\<close> places, \<open>n\<close> of them from place \<open>p\<close> on: the abstraction
  that both the byte ring of \<open>buf_array.c\<close> and the slot ring of \<open>bufmanage.c\<close> use.
\<close>

definition ring_view :: "nat \<Rightarrow> (nat \<Rightarrow> 'a) \<Rightarrow> nat \<Rightarrow> nat \<Rightarrow> 'a list" where
  "ring_view S g p n = map (\<lambda>i. g ((p + i) mod S)) [0..<n]"

lemma ring_view_0 [simp]: "ring_view S g p 0 = []"
  by (simp add: ring_view_def)

lemma length_ring_view [simp]: "length (ring_view S g p n) = n"
  by (simp add: ring_view_def)

lemma ring_view_nth: "i < n \<Longrightarrow> ring_view S g p n ! i = g ((p + i) mod S)"
  by (simp add: ring_view_def)

lemma ring_view_cong:
  "(\<And>i. i < n \<Longrightarrow> g ((p + i) mod S) = h ((p + i) mod S)) \<Longrightarrow> ring_view S g p n = ring_view S h p n"
  by (simp add: ring_view_def)

lemma ring_view_mod: "ring_view S g (p mod S) n = ring_view S g p n"
  by (simp add: ring_view_def mod_add_left_eq)

lemma ring_view_append:
  "ring_view S g p (m + n) = ring_view S g p m @ ring_view S g (p + m) n"
proof (rule nth_equalityI)
  fix i assume "i < length (ring_view S g p (m + n))"
  then show "ring_view S g p (m + n) ! i = (ring_view S g p m @ ring_view S g (p + m) n) ! i"
    by (auto simp: nth_append ring_view_nth)
qed simp

lemma ring_view_snoc:
  "ring_view S g p (Suc n) = ring_view S g p n @ [g ((p + n) mod S)]"
  by (simp add: ring_view_def)

lemma ring_view_Suc:
  "ring_view S g p (Suc n) = g (p mod S) # ring_view S g (p + 1) n"
  using ring_view_append [of S g p 1 n] by (simp add: ring_view_snoc)

lemma ring_view_take: "m \<le> n \<Longrightarrow> take m (ring_view S g p n) = ring_view S g p m"
  by (simp add: ring_view_def take_map)

lemma ring_view_drop: "m \<le> n \<Longrightarrow> drop m (ring_view S g p n) = ring_view S g (p + m) (n - m)"
  using ring_view_append [of S g p m "n - m"] by simp

text \<open>Distinct offsets below the ring size are distinct places.\<close>

lemma ring_place_inj:
  assumes "(p + i) mod S = (p + j) mod S" and "i < S" and "j < S"
  shows "i = (j::nat)"
proof -
  have le: "a = b" if "(p + a) mod S = (p + b) mod S" "a \<le> b" "b < S" for a b
  proof -
    have "S dvd (p + b) - (p + a)"
      using that(1,2) by (subst mod_eq_dvd_iff_nat [symmetric]) auto
    then have "S dvd b - a" by simp
    moreover have "b - a < S" using that(3) by simp
    ultimately have "b - a = 0" by (meson dvd_imp_le not_le zero_less_iff_neq_zero)
    with that(2) show "a = b" by simp
  qed
  show ?thesis using le [of i j] le [of j i] assms by (cases "i \<le> j") auto
qed

text \<open>
  A block used as a ring is written in two pieces, up to its end and then from its start,
  and read in the same way.
\<close>

lemma ring_write_view:
  assumes S: "length m = S" "0 < S" and p: "p = (q + n) mod S" and fit: "n + length d \<le> S"
    and l: "l = min (length d) (S - p)"
    and w1: "mem_write m p (take l d) = Some m1" and w2: "mem_write m1 0 (drop l d) = Some m2"
  shows "ring_view S ((!) m2) q (n + length d) = ring_view S ((!) m) q n @ d"
proof -
  have pS: "p < S" using p S(2) by simp
  have len1: "length m1 = S" using mem_write_length [OF w1] S(1) by simp
  have ll: "l \<le> length d" using l by simp
  have nth2: "m2 ! j = (if j < length d - l then d ! (l + j)
      else if p \<le> j \<and> j < p + l then d ! (j - p) else m ! j)" if "j < S" for j
    using that mem_write_nth [OF w1, of j] mem_write_nth [OF w2, of j] S(1) len1 ll
    by (auto split: if_splits)
  have new: "m2 ! ((q + n + i) mod S) = d ! i" if i: "i < length d" for i
  proof (cases "i < l")
    case True
    then have "p + i < S" using l pS by auto
    moreover have "(q + n + i) mod S = (p + i) mod S" using p by (simp add: mod_add_left_eq)
    ultimately have "(q + n + i) mod S = p + i" by simp
    then show ?thesis using nth2 [of "p + i"] True l fit i pS by auto
  next
    case False
    then have pl: "p + l = S" using i l pS by auto
    have "(q + n + i) mod S = (p + i) mod S" using p by (simp add: mod_add_left_eq)
    also have "p + i = (i - l) + S" using pl False by auto
    also have "((i - l) + S) mod S = i - l" using i fit pl by simp
    finally show ?thesis using nth2 [of "i - l"] False i fit pl by auto
  qed
  have old: "m2 ! ((q + i) mod S) = m ! ((q + i) mod S)" if i: "i < n" for i
  proof -
    let ?j = "(q + i) mod S"
    have jS: "?j < S" using S(2) by simp
    have no: False if k: "k < length d" "?j = (p + k) mod S" for k
    proof -
      have "(q + i) mod S = (q + (n + k)) mod S"
        using k(2) p by (simp add: mod_add_left_eq add.assoc)
      then have "i = n + k" by (rule ring_place_inj) (use i k(1) fit in auto)
      with i show False by simp
    qed
    have "\<not> ?j < length d - l"
    proof
      assume h: "?j < length d - l"
      then have pl: "p + l = S" using l pS by auto
      then have "(p + (l + ?j)) mod S = ?j" using jS by (simp add: add.assoc [symmetric])
      moreover have "l + ?j < length d" using h by linarith
      ultimately show False using no [of "l + ?j"] by simp
    qed
    moreover have "\<not> (p \<le> ?j \<and> ?j < p + l)"
    proof
      assume h: "p \<le> ?j \<and> ?j < p + l"
      then have "(p + (?j - p)) mod S = ?j" using jS by simp
      moreover have "?j - p < length d" using h ll by linarith
      ultimately show False using no [of "?j - p"] by simp
    qed
    ultimately show ?thesis using nth2 [OF jS] by auto
  qed
  show ?thesis
  proof (rule nth_equalityI)
    fix i assume "i < length (ring_view S ((!) m2) q (n + length d))"
    then show "ring_view S ((!) m2) q (n + length d) ! i = (ring_view S ((!) m) q n @ d) ! i"
      using new [of "i - n"] by (cases "i < n") (auto simp: ring_view_nth nth_append old)
  qed simp
qed

lemma ring_read_view:
  assumes S: "length m = S" "0 < S" and p: "p = q mod S" and fit: "n \<le> S"
    and l: "l = min n (S - p)"
  shows "take l (drop p m) @ take (n - l) m = ring_view S ((!) m) q n"
proof (rule nth_equalityI)
  have pS: "p < S" using p S(2) by simp
  show "length (take l (drop p m) @ take (n - l) m) = length (ring_view S ((!) m) q n)"
    using S(1) l fit pS by auto
  fix i assume "i < length (take l (drop p m) @ take (n - l) m)"
  then have i: "i < n" using S(1) l fit pS by auto
  have qi: "(q + i) mod S = (p + i) mod S" using p by (simp add: mod_add_left_eq)
  show "(take l (drop p m) @ take (n - l) m) ! i = ring_view S ((!) m) q n ! i"
  proof (cases "i < l")
    case True
    then show ?thesis using i qi l S(1) pS by (auto simp: nth_append ring_view_nth)
  next
    case False
    then have pl: "p + l = S" using i l pS by auto
    then have "(p + i) mod S = i - l" using False i fit
      by (subst le_mod_geq) auto
    then show ?thesis using False i qi l S(1) pS pl by (auto simp: nth_append ring_view_nth)
  qed
qed

section \<open>Little-endian codecs\<close>

text \<open>
  The structs of the program are copied with \<open>memcpy\<close> and \<open>write\<close>: their fields are
  little-endian words (ARM, \<open>unsigned long\<close> of 32 bits, \<open>long long\<close> of 64 bits).
\<close>

primrec le_encode :: "nat \<Rightarrow> 'a::len word \<Rightarrow> byte list" where
  "le_encode 0 x = []"
| "le_encode (Suc n) x = ucast x # le_encode n (drop_bit 8 x)"

primrec le_decode :: "byte list \<Rightarrow> 'a::len word" where
  "le_decode [] = 0"
| "le_decode (b # bs) = ucast b OR push_bit 8 (le_decode bs)"

lemma length_le_encode [simp]: "length (le_encode n x) = n"
  by (induction n arbitrary: x) simp_all

lemma le_decode_encode: "le_decode (le_encode n x) = take_bit (8 * n) x"
proof (induction n arbitrary: x)
  case 0
  then show ?case by simp
next
  case (Suc n)
  show ?case
    by (rule bit_word_eqI) (auto simp: Suc.IH bit_simps)
qed

lemma le_decode_encode_full [codec_simps]:
  "8 * n \<ge> LENGTH('a) \<Longrightarrow> le_decode (le_encode n (x :: 'a::len word)) = x"
  by (simp add: le_decode_encode take_bit_word_eq_self)

lemma bit_le_decodeD: "bit (le_decode bs :: 'a::len word) i \<Longrightarrow> i < 8 * length bs"
proof (induction bs arbitrary: i)
  case (Cons b bs)
  have "i < 8 \<or> 8 \<le> i \<and> bit (le_decode bs :: 'a word) (i - 8)"
    using Cons.prems by (auto simp: bit_simps dest: bit_imp_le_length)
  then show ?case using Cons.IH [of "i - 8"] by auto
qed simp

lemma le_encode_decode [codec_simps]:
  "length bs = n \<Longrightarrow> 8 * n \<le> LENGTH('a) \<Longrightarrow> le_encode n (le_decode bs :: 'a::len word) = bs"
proof (induction bs arbitrary: n)
  case Nil
  then show ?case by simp
next
  case (Cons b bs)
  from Cons.prems obtain m where n: "n = Suc m" and m: "length bs = m" by auto
  let ?w = "ucast b OR push_bit 8 (le_decode bs) :: 'a word"
  have "drop_bit 8 ?w = le_decode bs"
    using Cons.prems(2) n m
    by (intro bit_word_eqI) (auto simp: bit_simps dest: bit_imp_le_length bit_le_decodeD)
  moreover have "(ucast ?w :: byte) = b"
    using Cons.prems(2) n by (intro bit_word_eqI) (auto simp: bit_simps)
  ultimately show ?case using Cons.IH [OF m] Cons.prems(2) n by simp
qed

abbreviation u32_bytes :: "u32 \<Rightarrow> byte list" where
  "u32_bytes \<equiv> le_encode 4"

abbreviation bytes_u32 :: "byte list \<Rightarrow> u32" where
  "bytes_u32 \<equiv> le_decode"

end
