(* ===== verification/Frame_Queue.thy ===== *)
theory Frame_Queue
  imports Ipc_Base
begin

text \<open>
  The frame header \<open>BUF_FRAMEHEADER\<close> of \<open>MacBaseData.h\<close> with its memory image, and the
  contract that every frame buffer of the program promises to its producers and consumers:
  a locale over an insert and a remove operation, with the FIFO lemmas proved once.
  The slot ring of \<open>bufmanage.c\<close>, the encoder and network rings of \<open>fic8120ctrl.c\<close> and
  the sender ring of \<open>NetModule.c\<close> interpret it in their own theories.
\<close>

unbundle bit_operations_syntax

section \<open>Frame headers\<close>

record frame_header =
  fh_type :: u32
  fh_iLength :: u32
  fh_iFrameType :: u32
  fh_ulTimeSec :: u32
  fh_ulTimeUsec :: u32
  fh_standard :: u32
  fh_size :: u32
  fh_index :: u32
  fh_frame_num :: u32

text \<open>\<open>sizeof(BUF_FRAMEHEADER)\<close> on the 32-bit build: nine \<open>unsigned long\<close> fields.\<close>

abbreviation sizeof_BUF_FRAMEHEADER :: nat where
  "sizeof_BUF_FRAMEHEADER \<equiv> 36"

definition enc_frame_header :: "frame_header \<Rightarrow> byte list" where
  "enc_frame_header h =
     u32_bytes (fh_type h) @ u32_bytes (fh_iLength h) @ u32_bytes (fh_iFrameType h) @
     u32_bytes (fh_ulTimeSec h) @ u32_bytes (fh_ulTimeUsec h) @ u32_bytes (fh_standard h) @
     u32_bytes (fh_size h) @ u32_bytes (fh_index h) @ u32_bytes (fh_frame_num h)"

definition word_at :: "byte list \<Rightarrow> nat \<Rightarrow> u32" where
  "word_at bs i = bytes_u32 (take 4 (drop (4 * i) bs))"

definition dec_frame_header :: "byte list \<Rightarrow> frame_header" where
  "dec_frame_header bs =
     \<lparr>fh_type = word_at bs 0, fh_iLength = word_at bs 1, fh_iFrameType = word_at bs 2,
      fh_ulTimeSec = word_at bs 3, fh_ulTimeUsec = word_at bs 4, fh_standard = word_at bs 5,
      fh_size = word_at bs 6, fh_index = word_at bs 7, fh_frame_num = word_at bs 8\<rparr>"

lemma length_enc_frame_header [simp]: "length (enc_frame_header h) = 36"
  by (simp add: enc_frame_header_def)

lemma dec_enc_frame_header [codec_simps]: "dec_frame_header (enc_frame_header h) = h"
  by (simp add: dec_frame_header_def enc_frame_header_def word_at_def codec_simps)

section \<open>The frame queue contract\<close>

type_synonym frame = "frame_header \<times> byte list"

text \<open>
  \<open>put\<close> and \<open>get\<close> answer \<open>None\<close> when the call is refused; \<open>rep s q\<close> says that state \<open>s\<close>
  holds the queue \<open>q\<close>, oldest first; \<open>ok q x\<close> says that a queue holding \<open>q\<close> accepts \<open>x\<close>,
  \<open>ready q\<close> that it hands out its front (some consumers are held back until enough frames wait).
\<close>

datatype 'x queue_op = Put 'x | Get

primrec run_queue :: "('s \<Rightarrow> 'x \<Rightarrow> 's option) \<Rightarrow> ('s \<Rightarrow> ('x \<times> 's) option) \<Rightarrow>
    'x queue_op list \<Rightarrow> 's \<Rightarrow> ('x list \<times> 's) option" where
  "run_queue put get [] s = Some ([], s)"
| "run_queue put get (c # cs) s =
     (case c of
        Put x \<Rightarrow> (case put s x of None \<Rightarrow> None | Some s' \<Rightarrow> run_queue put get cs s')
      | Get \<Rightarrow> (case get s of None \<Rightarrow> None
          | Some (x, s') \<Rightarrow> map_option (\<lambda>(out, t). (x # out, t)) (run_queue put get cs s')))"

text \<open>The abstract queue: a list, its front first.\<close>

definition list_put :: "('x list \<Rightarrow> 'x \<Rightarrow> bool) \<Rightarrow> 'x list \<Rightarrow> 'x \<Rightarrow> 'x list option" where
  "list_put ok q x = (if ok q x then Some (q @ [x]) else None)"

definition list_get :: "('x list \<Rightarrow> bool) \<Rightarrow> 'x list \<Rightarrow> ('x \<times> 'x list) option" where
  "list_get ready q = (case q of [] \<Rightarrow> None | x # xs \<Rightarrow> if ready q then Some (x, xs) else None)"

lemma list_put_Some_iff: "list_put ok q x = Some q' \<longleftrightarrow> ok q x \<and> q' = q @ [x]"
  by (auto simp: list_put_def)

lemma list_get_Some_iff: "list_get ready q = Some (x, q') \<longleftrightarrow> q = x # q' \<and> ready q"
  by (auto simp: list_get_def split: list.splits)

text \<open>A list queue hands out what was put, in order: inputs are outputs followed by the rest.\<close>

primrec puts :: "'x queue_op list \<Rightarrow> 'x list" where
  "puts [] = []"
| "puts (c # cs) = (case c of Put x \<Rightarrow> x # puts cs | Get \<Rightarrow> puts cs)"

lemma list_queue_order:
  "run_queue (list_put ok) (list_get ready) cs q = Some (out, q') \<Longrightarrow> q @ puts cs = out @ q'"
proof (induction cs arbitrary: q out)
  case (Cons c cs)
  then show ?case
    by (fastforce simp: list_put_Some_iff list_get_Some_iff split: queue_op.splits option.splits)
qed simp

locale frame_queue =
  fixes put :: "'s \<Rightarrow> 'x \<Rightarrow> 's option"
    and get :: "'s \<Rightarrow> ('x \<times> 's) option"
    and rep :: "'s \<Rightarrow> 'x list \<Rightarrow> bool"
    and ok :: "'x list \<Rightarrow> 'x \<Rightarrow> bool"
    and ready :: "'x list \<Rightarrow> bool"
  assumes put_ok: "rep s q \<Longrightarrow> ok q x \<Longrightarrow> \<exists>s'. put s x = Some s' \<and> rep s' (q @ [x])"
    and get_ok: "rep s (x # q) \<Longrightarrow> ready (x # q) \<Longrightarrow> \<exists>s'. get s = Some (x, s') \<and> rep s' q"
begin

text \<open>Every run the list queue accepts, the implementation accepts with the same outputs.\<close>

lemma simulates:
  assumes "rep s q" and "run_queue (list_put ok) (list_get ready) cs q = Some (out, q')"
  shows "\<exists>s'. run_queue put get cs s = Some (out, s') \<and> rep s' q'"
  using assms
proof (induction cs arbitrary: s q out)
  case Nil
  then show ?case by simp
next
  case (Cons c cs)
  show ?case
  proof (cases c)
    case (Put x)
    with Cons.prems have "ok q x" and run: "run_queue (list_put ok) (list_get ready) cs (q @ [x]) = Some (out, q')"
      by (auto simp: list_put_Some_iff split: option.splits)
    with put_ok Cons.prems(1) obtain s' where "put s x = Some s'" "rep s' (q @ [x])" by blast
    with Cons.IH run Put show ?thesis by fastforce
  next
    case Get
    with Cons.prems obtain x q1 out1 where q: "q = x # q1" "ready q" and out: "out = x # out1"
      and run: "run_queue (list_put ok) (list_get ready) cs q1 = Some (out1, q')"
      by (auto simp: list_get_Some_iff split: option.splits)
    with get_ok Cons.prems(1) obtain s' where "get s = Some (x, s')" "rep s' q1" by blast
    with Cons.IH [OF _ run] Get out show ?thesis by fastforce
  qed
qed

lemma fifo_order:
  assumes "rep s []" and "run_queue (list_put ok) (list_get ready) cs [] = Some (out, [])"
  shows "\<exists>s'. run_queue put get cs s = Some (puts cs, s') \<and> rep s' []"
  using simulates [OF assms] list_queue_order [OF assms(2)] by simp

end

end
