(* ===== verification/Cycle_Buffer.thy ===== *)
theory Cycle_Buffer
  imports Ipc_Base
begin

text \<open>
  The byte ring \<open>CYCLE_BUFFER\<close> of \<open>src/FileSystem/avicodelib/buf_array.c\<close>: a power-of-two
  block with free-running 32-bit positions, and the item counters kept beside it. The locks
  are not part of the state: every operation is one atomic step, as its callers run it.
\<close>

unbundle bit_operations_syntax

section \<open>State\<close>

record cycle_buffer =
  cb_buf :: "byte list"
  cb_size :: u32
  cb_in :: u32
  cb_out :: u32
  cb_item_num :: int
  cb_save_num :: int
  cb_total_write :: int
  cb_total_read :: int
  cb_max_write_buf :: u32

text \<open>\<open>MAX_FRAME_BUF_SIZE\<close> of the header files.\<close>

definition MAX_FRAME_BUF_SIZE :: u32 where
  "MAX_FRAME_BUF_SIZE = 512 * 1024"

section \<open>Operations\<close>

text \<open>
  \<open>init_cycle_buffer\<close>: \<open>None\<close> is the NULL it returns, for a size with two bits set or a failed
  \<open>malloc\<close> (the two flags are the answers of the two calls).
\<close>

definition init_cycle_buffer :: "bool \<Rightarrow> bool \<Rightarrow> u32 \<Rightarrow> cycle_buffer option" where
  "init_cycle_buffer malloc_fifo malloc_buf sz =
     (if sz AND (sz - 1) \<noteq> 0 then None
      else if \<not> malloc_fifo then None
      else if \<not> malloc_buf then None
      else Some \<lparr>cb_buf = replicate (unat sz) 0, cb_size = sz, cb_in = 0, cb_out = 0,
             cb_item_num = 0, cb_save_num = 10, cb_total_write = 0, cb_total_read = 0,
             cb_max_write_buf = MAX_FRAME_BUF_SIZE\<rparr>)"

definition filo_set_save_num :: "cycle_buffer \<Rightarrow> int \<Rightarrow> cycle_buffer" where
  "filo_set_save_num b num = b\<lparr>cb_save_num := num * 2\<rparr>"

text \<open>The item count, recomputed from the two counters after every put and get.\<close>

definition count_items :: "cycle_buffer \<Rightarrow> cycle_buffer" where
  "count_items b =
     (if cb_total_write b \<ge> cb_total_read b
      then b\<lparr>cb_item_num := cb_total_write b - cb_total_read b\<rparr>
      else b\<lparr>cb_item_num := cb_total_write b + 1000000 - cb_total_read b\<rparr>)"

text \<open>
  \<open>fifo_get\<close>: the return value, the bytes it copies to the caller's block, and the new ring.
  \<open>-1\<close> is the unsigned word \<open>0xFFFFFFFF\<close> that the function returns.
\<close>

definition fifo_get :: "cycle_buffer \<Rightarrow> u32 \<Rightarrow> (u32 \<times> byte list \<times> cycle_buffer) option" where
  "fifo_get b len0 =
     (if cb_item_num b < 1 then Some (- 1, [], b)
      else if len0 = 0 then Some (len0, [], b)
      else let len = min len0 (cb_in b - cb_out b);
               pos = cb_out b AND (cb_size b - 1);
               l = min len (cb_size b - pos)
           in if len \<ge> cb_max_write_buf b \<or> l \<ge> cb_max_write_buf b then Some (- 1, [], b)
           else do {
             d1 \<leftarrow> mem_read (cb_buf b) (unat pos) (unat l);
             d2 \<leftarrow> mem_read (cb_buf b) 0 (unat (len - l));
             let tr = cb_total_read b + 1;
             let tr' = (if tr \<ge> 1000000 then 0 else tr);
             Some (len, d1 @ d2,
                   count_items (b\<lparr>cb_out := cb_out b + len, cb_total_read := tr'\<rparr>))
           })"

text \<open>\<open>src\<close> is the object \<open>buf\<close> points into, from \<open>buf\<close> to its end.\<close>

definition fifo_put :: "cycle_buffer \<Rightarrow> byte list \<Rightarrow> u32 \<Rightarrow> (u32 \<times> cycle_buffer) option" where
  "fifo_put b src len0 =
     (if len0 = 0 then Some (len0, b)
      else let len = min len0 (cb_size b - cb_in b + cb_out b);
               pos = cb_in b AND (cb_size b - 1);
               l = min len (cb_size b - pos)
           in do {
             s1 \<leftarrow> mem_read src 0 (unat l);
             m1 \<leftarrow> mem_write (cb_buf b) (unat pos) s1;
             s2 \<leftarrow> mem_read src (unat l) (unat (len - l));
             m2 \<leftarrow> mem_write m1 0 s2;
             let tw = cb_total_write b + 1;
             let tw' = (if tw \<ge> 1000000 then 0 else tw);
             Some (len, count_items (b\<lparr>cb_buf := m2, cb_in := cb_in b + len,
                                       cb_total_write := tw'\<rparr>))
           })"

definition fifo_reset :: "cycle_buffer \<Rightarrow> cycle_buffer" where
  "fifo_reset b = b\<lparr>cb_item_num := 0, cb_in := 0, cb_out := 0,
                    cb_total_read := 0, cb_total_write := 0\<rparr>"

definition fifo_len :: "cycle_buffer \<Rightarrow> u32" where
  "fifo_len b = cb_in b - cb_out b"

definition fifo_num :: "cycle_buffer \<Rightarrow> int" where
  "fifo_num b = cb_item_num b"

text \<open>
  The two admission tests compare an unsigned length with \<open>(int)size - k\<close>: the usual
  conversions make the right side unsigned, so it wraps when the ring is smaller than \<open>k\<close>.
\<close>

definition fifo_enable_insert :: "cycle_buffer \<Rightarrow> int" where
  "fifo_enable_insert b = (if fifo_len b > cb_size b - 600 * 1024 then 0 else 1)"

definition fifo_enable_get :: "cycle_buffer \<Rightarrow> int" where
  "fifo_enable_get b =
     (if cb_item_num b \<le> cb_save_num b
      then if fifo_enable_insert b = 0 \<and> cb_item_num b \<ge> 2 then 1 else 0
      else if cb_item_num b < 2 then 0 else 1)"

definition fifo_enable_insert_length :: "cycle_buffer \<Rightarrow> u32 \<Rightarrow> int" where
  "fifo_enable_insert_length b sz =
     (if fifo_len b + sz > cb_size b - 10 * 1024 then 0 else 1)"

section \<open>Powers of two and masks\<close>

lemma and_pred_zero_pow2_nat:
  "(n::nat) AND (n - 1) = 0 \<Longrightarrow> 0 < n \<Longrightarrow> \<exists>k. n = 2 ^ k"
proof (induction n rule: less_induct)
  case (less n)
  have rec: "n AND (n - 1) = of_bool (odd n \<and> odd (n - 1)) + 2 * ((n div 2) AND ((n - 1) div 2))"
    by (rule and_rec)
  show ?case
  proof (cases "even n")
    case True
    then obtain m where n: "n = 2 * m" by (elim evenE)
    with less.prems(2) have "0 < m" "(n - 1) div 2 = m - 1" by auto
    with rec less.prems n have "m AND (m - 1) = 0" by simp
    with less.IH [of m] n \<open>0 < m\<close> obtain k where "m = 2 ^ k" by auto
    with n have "n = 2 ^ Suc k" by simp
    then show ?thesis ..
  next
    case False
    then obtain m where n: "n = 2 * m + 1" by (elim oddE)
    with rec less.prems(1) have "m = 0" by simp
    with n have "n = 2 ^ 0" by simp
    then show ?thesis ..
  qed
qed

lemma and_pred_zero_pow2:
  assumes "w AND (w - 1) = 0" and "w \<noteq> (0 :: 'a::len word)"
  shows "\<exists>k. unat w = 2 ^ k"
proof (rule and_pred_zero_pow2_nat)
  have "unat (w - 1) = unat w - 1" using assms(2) by (metis unat_minus_one)
  with assms(1) show "unat w AND (unat w - 1) = 0"
    by (metis unat_0 unsigned_and_eq)
  show "0 < unat w" using assms(2) by (simp add: unat_gt_0)
qed

lemma unat_and_pow2_pred:
  assumes "unat (S :: u32) = 2 ^ k"
  shows "unat (x AND (S - 1)) = unat x mod unat S"
proof -
  have "S \<noteq> 0" using assms by (metis power_not_zero unat_0 zero_neq_numeral)
  then have "unat (S - 1) = mask k" using assms by (metis unat_minus_one mask_eq_exp_minus_1)
  then show ?thesis using assms by (simp add: unsigned_and_eq take_bit_eq_mask [symmetric] take_bit_eq_mod)
qed

lemma pow2_dvd_word: "unat (S :: u32) = 2 ^ k \<Longrightarrow> unat S dvd 2 ^ 32"
proof -
  assume a: "unat S = 2 ^ k"
  then have "(2::nat) ^ k < 2 ^ 32" using unsigned_less [of S, where ?'a = nat] by simp
  then have "k < 32" by (rule power_less_imp_less_exp [rotated]) simp
  with a show ?thesis using le_imp_power_dvd [of k 32 "2 :: nat"] by simp
qed

lemma unat_plus_mod:
  assumes "unat (S :: u32) = 2 ^ k"
  shows "unat (x + y :: u32) mod unat S = (unat x + unat y) mod unat S"
  using pow2_dvd_word [OF assms] by (simp add: unat_word_ariths mod_mod_cancel)

section \<open>Well-formed rings and their contents\<close>

definition cb_ok :: "cycle_buffer \<Rightarrow> bool" where
  "cb_ok b \<longleftrightarrow>
     cb_size b AND (cb_size b - 1) = 0 \<and> cb_size b \<noteq> 0 \<and>
     length (cb_buf b) = unat (cb_size b) \<and> cb_in b - cb_out b \<le> cb_size b \<and>
     0 \<le> cb_total_write b \<and> cb_total_write b < 1000000 \<and>
     0 \<le> cb_total_read b \<and> cb_total_read b < 1000000 \<and>
     cb_item_num b = (cb_total_write b - cb_total_read b) mod 1000000"

definition cb_contents :: "cycle_buffer \<Rightarrow> byte list" where
  "cb_contents b = ring_view (unat (cb_size b)) ((!) (cb_buf b)) (unat (cb_out b)) (unat (fifo_len b))"

definition cb_free :: "cycle_buffer \<Rightarrow> nat" where
  "cb_free b = unat (cb_size b) - unat (fifo_len b)"

lemma length_cb_contents [simp]: "length (cb_contents b) = unat (fifo_len b)"
  by (simp add: cb_contents_def)

lemma cb_okD:
  assumes "cb_ok b"
  shows "\<exists>k. unat (cb_size b) = 2 ^ k" "length (cb_buf b) = unat (cb_size b)"
    "fifo_len b \<le> cb_size b" "0 < unat (cb_size b)"
  using assms and_pred_zero_pow2 [of "cb_size b"] by (auto simp: cb_ok_def fifo_len_def unat_gt_0)

lemma unat_cb_free: "cb_ok b \<Longrightarrow> unat (cb_size b - cb_in b + cb_out b) = cb_free b"
proof -
  assume ok: "cb_ok b"
  have "cb_size b - cb_in b + cb_out b = cb_size b - fifo_len b" by (simp add: fifo_len_def)
  then show ?thesis using cb_okD(3) [OF ok] by (metis cb_free_def unat_sub)
qed

lemma count_items_fields [simp]:
  "cb_buf (count_items b) = cb_buf b" "cb_size (count_items b) = cb_size b"
  "cb_in (count_items b) = cb_in b" "cb_out (count_items b) = cb_out b"
  "cb_save_num (count_items b) = cb_save_num b"
  "cb_total_write (count_items b) = cb_total_write b"
  "cb_total_read (count_items b) = cb_total_read b"
  "cb_max_write_buf (count_items b) = cb_max_write_buf b"
  by (auto simp: count_items_def)

lemma count_items_num:
  assumes "0 \<le> cb_total_write b" "cb_total_write b < 1000000"
    and "0 \<le> cb_total_read b" "cb_total_read b < 1000000"
  shows "cb_item_num (count_items b) = (cb_total_write b - cb_total_read b) mod 1000000"
proof (cases "cb_total_read b \<le> cb_total_write b")
  case True
  then show ?thesis using assms by (simp add: count_items_def)
next
  case False
  then have "(cb_total_write b - cb_total_read b) mod 1000000
      = (cb_total_write b - cb_total_read b + 1000000) mod 1000000" by simp
  also have "\<dots> = cb_total_write b - cb_total_read b + 1000000"
    using assms False by (intro mod_pos_pos_trivial) auto
  finally show ?thesis using False by (simp add: count_items_def)
qed

text \<open>The wrapping step of the two counters is successor modulo a million.\<close>

lemma counter_step:
  assumes "0 \<le> c" "c < (1000000 :: int)"
  shows "(if c + 1 \<ge> 1000000 then 0 else c + 1) = (c + 1) mod 1000000"
  using assms by (cases "c + 1 = 1000000") auto

lemma min_word_unat: "unat (min a b) = min (unat a) (unat (b :: 'a::len word))"
  by (simp add: min_def word_le_nat_alt)

lemma ring_piece:
  assumes "cb_ok b"
  shows "unat (x AND (cb_size b - 1)) = unat x mod unat (cb_size b)"
    and "unat (cb_size b - (x AND (cb_size b - 1))) = unat (cb_size b) - unat x mod unat (cb_size b)"
proof -
  obtain k where k: "unat (cb_size b) = 2 ^ k" using cb_okD(1) [OF assms] by blast
  show *: "unat (x AND (cb_size b - 1)) = unat x mod unat (cb_size b)"
    using unat_and_pow2_pred [OF k] .
  have "unat x mod unat (cb_size b) < unat (cb_size b)" using cb_okD(4) [OF assms] by simp
  with * have "x AND (cb_size b - 1) \<le> cb_size b" by (simp add: word_le_nat_alt)
  with * show "unat (cb_size b - (x AND (cb_size b - 1))) = unat (cb_size b) - unat x mod unat (cb_size b)"
    by (simp add: unat_sub)
qed

lemma init_cycle_buffer_ok:
  assumes "init_cycle_buffer f1 f2 sz = Some b" and "sz \<noteq> 0"
  shows "cb_ok b \<and> cb_contents b = [] \<and> cb_item_num b = 0 \<and> cb_free b = unat sz \<and>
    cb_size b = sz \<and> cb_save_num b = 10 \<and> cb_max_write_buf b = MAX_FRAME_BUF_SIZE"
  using assms by (auto simp: init_cycle_buffer_def cb_ok_def cb_contents_def fifo_len_def cb_free_def
      split: if_splits)

lemma fifo_reset_ok: "cb_ok b \<Longrightarrow> cb_ok (fifo_reset b) \<and> cb_contents (fifo_reset b) = []"
  by (auto simp: fifo_reset_def cb_ok_def cb_contents_def fifo_len_def)

lemma fifo_put_spec:
  assumes ok: "cb_ok b" and len0: "len0 \<noteq> 0" and src: "min (unat len0) (cb_free b) \<le> length src"
  shows "\<exists>b'. fifo_put b src len0 = Some (min len0 (cb_size b - fifo_len b), b') \<and> cb_ok b' \<and>
     cb_contents b' = cb_contents b @ take (min (unat len0) (cb_free b)) src \<and>
     cb_item_num b' = (cb_item_num b + 1) mod 1000000 \<and>
     cb_size b' = cb_size b \<and> cb_save_num b' = cb_save_num b \<and>
     cb_max_write_buf b' = cb_max_write_buf b"
proof -
  obtain k where k: "unat (cb_size b) = 2 ^ k" using cb_okD(1) [OF ok] by blast
  define S where "S = unat (cb_size b)"
  define len where "len = min len0 (cb_size b - cb_in b + cb_out b)"
  define pos where "pos = cb_in b AND (cb_size b - 1)"
  define l where "l = min len (cb_size b - pos)"
  define d where "d = take (unat len) src"
  have len_alt: "len = min len0 (cb_size b - fifo_len b)"
    by (simp add: len_def fifo_len_def algebra_simps)
  have ulen: "unat len = min (unat len0) (cb_free b)"
    by (simp add: len_def min_word_unat unat_cb_free [OF ok])
  have upos: "unat pos = unat (cb_in b) mod S" and ul: "unat l = min (unat len) (S - unat pos)"
    using ring_piece [OF ok, of "cb_in b"] by (simp_all add: pos_def l_def S_def min_word_unat)
  have ld: "length d = unat len" using src ulen by (simp add: d_def)
  have pS: "unat pos < S" using upos cb_okD(4) [OF ok] by (simp add: S_def)
  have place: "unat pos = (unat (cb_out b) + unat (fifo_len b)) mod S"
  proof -
    have "unat (cb_in b) mod S = unat (cb_out b + (cb_in b - cb_out b)) mod S" by simp
    also have "\<dots> = (unat (cb_out b) + unat (fifo_len b)) mod S"
      unfolding S_def fifo_len_def by (rule unat_plus_mod [OF k])
    finally show ?thesis using upos by simp
  qed
  have lle: "unat l \<le> unat len" and srclen: "unat len \<le> length src" using ul src ulen by linarith+
  have s1: "mem_read src 0 (unat l) = Some (take (unat l) d)"
    using lle srclen by (simp add: mem_read_def d_def min_absorb1)
  have s2: "mem_read src (unat l) (unat (len - l)) = Some (drop (unat l) d)"
  proof -
    have "l \<le> len" by (simp add: l_def)
    then have "unat (len - l) = unat len - unat l" by (rule unat_sub)
    with lle srclen show ?thesis by (simp add: mem_read_def d_def drop_take)
  qed
  have lm: "length (cb_buf b) = S" using cb_okD(2) [OF ok] by (simp add: S_def)
  have ltake: "length (take (unat l) d) = unat l" using ld lle by simp
  have fits1: "unat pos + length (take (unat l) d) \<le> length (cb_buf b)"
    using ul pS unfolding lm ltake by linarith
  obtain m1 where w1: "mem_write (cb_buf b) (unat pos) (take (unat l) d) = Some m1"
    using mem_write_ex [of "unat pos" "take (unat l) d" "cb_buf b"] fits1 by blast
  have fit: "unat (fifo_len b) + length d \<le> S"
    using cb_okD(3) [OF ok] ld ulen by (simp add: cb_free_def S_def word_le_nat_alt)
  have fits2: "0 + length (drop (unat l) d) \<le> length m1"
    using fit mem_write_length [OF w1] lm by simp
  obtain m2 where w2: "mem_write m1 0 (drop (unat l) d) = Some m2"
    using mem_write_ex [of 0 "drop (unat l) d" m1] fits2 by blast
  define tw where "tw = (if cb_total_write b + 1 \<ge> 1000000 then 0 else cb_total_write b + 1)"
  define b' where "b' = count_items (b\<lparr>cb_buf := m2, cb_in := cb_in b + len, cb_total_write := tw\<rparr>)"
  have run: "fifo_put b src len0 = Some (len, b')"
    using len0 s1 w1 s2 w2
    by (simp add: fifo_put_def len_def [symmetric] pos_def [symmetric] l_def [symmetric]
        tw_def b'_def Let_def)
  have lm2: "length m2 = S" using mem_write_length [OF w1] mem_write_length [OF w2] lm by simp
  have flen: "fifo_len b' = fifo_len b + len" by (simp add: b'_def fifo_len_def)
  have uflen: "unat (fifo_len b + len) = unat (fifo_len b) + unat len"
  proof -
    have "S < 2 ^ 32" using unsigned_less [of "cb_size b", where ?'a = nat] by (simp add: S_def)
    with fit ld have "unat (fifo_len b) + unat len < 2 ^ 32" by simp
    then show ?thesis by (simp add: unat_word_ariths)
  qed
  have tw: "tw = (cb_total_write b + 1) mod 1000000" "0 \<le> tw" "tw < 1000000"
    using ok counter_step [of "cb_total_write b"] by (auto simp: tw_def cb_ok_def)
  have num: "cb_item_num b' = (tw - cb_total_read b) mod 1000000"
    using ok tw by (simp add: b'_def count_items_num cb_ok_def)
  also have "\<dots> = (cb_item_num b + 1) mod 1000000"
    using ok by (simp add: cb_ok_def tw(1) mod_simps algebra_simps)
  finally have num2: "cb_item_num b' = (cb_item_num b + 1) mod 1000000" .
  have cont: "cb_contents b' = cb_contents b @ d"
    using ring_write_view [OF lm _ place fit _ w1 w2] ul ld pS
    unfolding cb_contents_def flen uflen
    by (simp add: b'_def S_def)
  have "fifo_len b' \<le> cb_size b" using fit ld unfolding flen word_le_nat_alt uflen S_def by simp
  then have "cb_in b' - cb_out b' \<le> cb_size b" by (simp add: fifo_len_def)
  then have "cb_ok b'" using ok lm2 tw num by (simp add: cb_ok_def b'_def S_def)
  moreover have "cb_size b' = cb_size b" "cb_save_num b' = cb_save_num b"
    "cb_max_write_buf b' = cb_max_write_buf b" by (simp_all add: b'_def)
  ultimately show ?thesis using run cont num2
    unfolding len_alt [symmetric] ulen [symmetric] d_def [symmetric] by blast
qed

lemma fifo_get_spec:
  assumes ok: "cb_ok b" and num: "1 \<le> cb_item_num b" and len0: "len0 \<noteq> 0"
    and len: "len = min len0 (fifo_len b)" and small: "len < cb_max_write_buf b"
  shows "\<exists>b'. fifo_get b len0 = Some (len, take (unat len) (cb_contents b), b') \<and> cb_ok b' \<and>
     cb_contents b' = drop (unat len) (cb_contents b) \<and>
     cb_item_num b' = cb_item_num b - 1 \<and>
     cb_size b' = cb_size b \<and> cb_save_num b' = cb_save_num b \<and>
     cb_max_write_buf b' = cb_max_write_buf b"
proof -
  obtain k where k: "unat (cb_size b) = 2 ^ k" using cb_okD(1) [OF ok] by blast
  define S where "S = unat (cb_size b)"
  define pos where "pos = cb_out b AND (cb_size b - 1)"
  define l where "l = min len (cb_size b - pos)"
  have len': "len = min len0 (cb_in b - cb_out b)" using len by (simp add: fifo_len_def)
  have ulen: "unat len \<le> unat (fifo_len b)" by (simp add: len min_word_unat)
  have upos: "unat pos = unat (cb_out b) mod S" and ul: "unat l = min (unat len) (S - unat pos)"
    using ring_piece [OF ok, of "cb_out b"] by (simp_all add: pos_def l_def S_def min_word_unat)
  have pS: "unat pos < S" using upos cb_okD(4) [OF ok] by (simp add: S_def)
  have lm: "length (cb_buf b) = S" using cb_okD(2) [OF ok] by (simp add: S_def)
  have fit: "unat len \<le> S" using ulen cb_okD(3) [OF ok] by (simp add: S_def word_le_nat_alt)
  have "l \<le> len" by (simp add: l_def)
  then have ud: "unat (len - l) = unat len - unat l" by (rule unat_sub)
  have r1: "mem_read (cb_buf b) (unat pos) (unat l) = Some (take (unat l) (drop (unat pos) (cb_buf b)))"
    using lm ul pS by (simp add: mem_read_def)
  have r2: "mem_read (cb_buf b) 0 (unat (len - l)) = Some (take (unat len - unat l) (cb_buf b))"
    using lm fit ud by (simp add: mem_read_def)
  have data: "take (unat l) (drop (unat pos) (cb_buf b)) @ take (unat len - unat l) (cb_buf b)
      = take (unat len) (cb_contents b)"
    using ring_read_view [OF lm _ upos fit ul] pS ulen
    by (simp add: cb_contents_def ring_view_take S_def)
  have small2: "\<not> (cb_max_write_buf b \<le> len \<or> cb_max_write_buf b \<le> l)"
    using small \<open>l \<le> len\<close> by auto
  define tr where "tr = (if cb_total_read b + 1 \<ge> 1000000 then 0 else cb_total_read b + 1)"
  define b' where "b' = count_items (b\<lparr>cb_out := cb_out b + len, cb_total_read := tr\<rparr>)"
  have run: "fifo_get b len0 = Some (len, take (unat len) (cb_contents b), b')"
    using len0 num small2 r1 r2 data
    by (simp add: fifo_get_def len' [symmetric] pos_def [symmetric] l_def [symmetric]
        tr_def b'_def Let_def not_less)
  have flen: "fifo_len b' = fifo_len b - len" by (simp add: b'_def fifo_len_def algebra_simps)
  have lle: "len \<le> fifo_len b" by (simp add: len)
  have uflen: "unat (fifo_len b - len) = unat (fifo_len b) - unat len" using lle by (rule unat_sub)
  have cont: "cb_contents b' = drop (unat len) (cb_contents b)"
  proof -
    have "cb_contents b' = ring_view S ((!) (cb_buf b)) (unat (cb_out b + len)) (unat (fifo_len b) - unat len)"
      unfolding cb_contents_def flen uflen by (simp add: b'_def S_def)
    also have "\<dots> = ring_view S ((!) (cb_buf b)) (unat (cb_out b) + unat len) (unat (fifo_len b) - unat len)"
      using unat_plus_mod [OF k, of "cb_out b" len] ring_view_mod by (metis S_def)
    also have "\<dots> = drop (unat len) (cb_contents b)"
      by (simp add: cb_contents_def ring_view_drop ulen S_def)
    finally show ?thesis .
  qed
  have tr: "tr = (cb_total_read b + 1) mod 1000000" "0 \<le> tr" "tr < 1000000"
    using ok counter_step [of "cb_total_read b"] by (auto simp: tr_def cb_ok_def)
  have num1: "cb_item_num b' = (cb_total_write b - tr) mod 1000000"
    using ok tr by (simp add: b'_def count_items_num cb_ok_def)
  also have "\<dots> = (cb_item_num b - 1) mod 1000000"
    using ok by (simp add: cb_ok_def tr(1) mod_simps algebra_simps)
  also have "\<dots> = cb_item_num b - 1" using ok num by (simp add: cb_ok_def)
  finally have num2: "cb_item_num b' = cb_item_num b - 1" .
  have "cb_in b' - cb_out b' \<le> cb_size b"
    using cb_okD(3) [OF ok] flen uflen by (simp add: fifo_len_def [symmetric] word_le_nat_alt)
  then have "cb_ok b'"
    using ok tr num1 by (simp add: cb_ok_def b'_def)
  with run cont num2 show ?thesis by (simp add: b'_def)
qed

section \<open>Exact transfers\<close>

text \<open>The two specifications for a length the ring can serve in full.\<close>

lemma fifo_put_exact:
  assumes ok: "cb_ok b" and n: "0 < n" "n \<le> length src"
    and room: "length (cb_contents b) + n \<le> unat (cb_size b)"
  shows "\<exists>b'. fifo_put b src (of_nat n) = Some (of_nat n, b') \<and> cb_ok b' \<and>
     cb_contents b' = cb_contents b @ take n src \<and> cb_item_num b' = (cb_item_num b + 1) mod 1000000 \<and>
     cb_size b' = cb_size b \<and> cb_save_num b' = cb_save_num b \<and>
     cb_max_write_buf b' = cb_max_write_buf b"
proof -
  have "unat (cb_size b) < 2 ^ 32" using unsigned_less [of "cb_size b", where ?'a = nat] by simp
  then have un: "unat (of_nat n :: u32) = n" using room by simp
  then have nz: "(of_nat n :: u32) \<noteq> 0" using n(1) by (metis unat_0 less_irrefl)
  have fr: "n \<le> cb_free b" using room by (simp add: cb_free_def)
  have "unat (cb_size b - fifo_len b) = cb_free b"
    using unat_sub [OF cb_okD(3) [OF ok]] by (simp add: cb_free_def)
  then have "(of_nat n :: u32) \<le> cb_size b - fifo_len b" using fr un by (simp add: word_le_nat_alt)
  then have m: "min (of_nat n) (cb_size b - fifo_len b) = (of_nat n :: u32)" by simp
  show ?thesis
    using fifo_put_spec [OF ok nz, of src] fr n(2) unfolding m un by (simp add: min_absorb1)
qed

lemma fifo_get_exact:
  assumes ok: "cb_ok b" and num: "1 \<le> cb_item_num b" and n: "0 < n" "n \<le> length (cb_contents b)"
    and small: "n < unat (cb_max_write_buf b)"
  shows "\<exists>b'. fifo_get b (of_nat n) = Some (of_nat n, take n (cb_contents b), b') \<and> cb_ok b' \<and>
     cb_contents b' = drop n (cb_contents b) \<and> cb_item_num b' = cb_item_num b - 1 \<and>
     cb_size b' = cb_size b \<and> cb_save_num b' = cb_save_num b \<and>
     cb_max_write_buf b' = cb_max_write_buf b"
proof -
  have "unat (cb_max_write_buf b) < 2 ^ 32"
    using unsigned_less [of "cb_max_write_buf b", where ?'a = nat] by simp
  then have un: "unat (of_nat n :: u32) = n" using small by simp
  then have nz: "(of_nat n :: u32) \<noteq> 0" using n(1) by (metis unat_0 less_irrefl)
  have "(of_nat n :: u32) \<le> fifo_len b" using un n(2) by (simp add: word_le_nat_alt)
  then have m: "of_nat n = min (of_nat n) (fifo_len b)" by simp
  have "of_nat n < cb_max_write_buf b" using un small by (simp add: word_less_nat_alt)
  from fifo_get_spec [OF ok num nz m this] show ?thesis by (simp add: un)
qed

section \<open>Properties\<close>

lemma fifo_put_safe:
  assumes ok: "cb_ok b" and src: "unat len \<le> length src"
  shows "\<exists>r b'. fifo_put b src len = Some (r, b') \<and> cb_ok b' \<and> cb_size b' = cb_size b"
proof (cases "len = 0")
  case True
  then show ?thesis using ok by (simp add: fifo_put_def)
next
  case False
  then show ?thesis using fifo_put_spec [OF ok False, of src] src by (auto simp: min_le_iff_disj)
qed

lemma fifo_get_safe:
  assumes ok: "cb_ok b"
  shows "\<exists>r d b'. fifo_get b len = Some (r, d, b') \<and> cb_ok b' \<and> cb_size b' = cb_size b \<and>
    length d \<le> unat len"
proof -
  let ?l = "min len (fifo_len b)"
  consider (err) "cb_item_num b < 1 \<or> len = 0" | (big) "\<not> ?l < cb_max_write_buf b"
      "\<not> (cb_item_num b < 1 \<or> len = 0)"
    | (ok) "1 \<le> cb_item_num b" "len \<noteq> 0" "?l < cb_max_write_buf b" by fastforce
  then show ?thesis
  proof cases
    case err
    then show ?thesis using ok by (auto simp: fifo_get_def)
  next
    case big
    then show ?thesis using ok by (auto simp: fifo_get_def Let_def fifo_len_def not_less)
  next
    case ok
    then show ?thesis using fifo_get_spec [OF assms ok(1,2) refl ok(3)] by (auto simp: min_word_unat)
  qed
qed

text \<open>C18: \<open>fifo_put\<close> appends as much of the source as there is room for, in order, and
  returns that number: the ring's byte sequence grows by a prefix of the source, wherever the
  two free-running 32-bit positions are (also across their wrap-around), and the item counter
  steps once modulo a million.\<close>
theorem fifo_put_appends:
  assumes "cb_ok b" and "len \<noteq> 0" and "min (unat len) (cb_free b) \<le> length src"
  shows "\<exists>b'. fifo_put b src len = Some (min len (cb_size b - fifo_len b), b') \<and> cb_ok b' \<and>
     cb_contents b' = cb_contents b @ take (min (unat len) (cb_free b)) src \<and>
     cb_item_num b' = (cb_item_num b + 1) mod 1000000"
  using fifo_put_spec [OF assms] by blast

definition wrapped_ring :: cycle_buffer where
  "wrapped_ring = \<lparr>cb_buf = [1, 2, 3, 4, 5, 6, 7, 8], cb_size = 8, cb_in = 2, cb_out = - 2,
     cb_item_num = 1, cb_save_num = 0, cb_total_write = 0, cb_total_read = 999999,
     cb_max_write_buf = MAX_FRAME_BUF_SIZE\<rparr>"

lemma wrapped_ring_ok: "cb_ok wrapped_ring \<and> cb_contents wrapped_ring = [7, 8, 1, 2] \<and>
    cb_free wrapped_ring = 4 \<and> cb_item_num wrapped_ring = 1 \<and>
    cb_max_write_buf wrapped_ring = MAX_FRAME_BUF_SIZE"
  by (simp add: wrapped_ring_def cb_ok_def cb_contents_def fifo_len_def ring_view_def cb_free_def
      upt_rec)

lemma fifo_put_appends_witness:
  "\<exists>b'. fifo_put wrapped_ring [9, 10, 11, 12, 13] 5 = Some (4, b') \<and> cb_ok b' \<and>
     cb_contents b' = [7, 8, 1, 2, 9, 10, 11, 12] \<and> cb_item_num b' = 2"
proof -
  have "min 5 (cb_size wrapped_ring - fifo_len wrapped_ring) = 4"
    by (simp add: wrapped_ring_def fifo_len_def)
  then show ?thesis
    using fifo_put_appends [of wrapped_ring 5 "[9, 10, 11, 12, 13]"] wrapped_ring_ok by simp
qed

text \<open>C19: \<open>fifo_get\<close> on a ring with an item takes the oldest bytes, as many as asked for or
  all there are, returns their number and leaves the rest.\<close>
theorem fifo_get_takes:
  assumes "cb_ok b" and "1 \<le> cb_item_num b" and "len0 \<noteq> 0"
    and "len = min len0 (fifo_len b)" and "len < cb_max_write_buf b"
  shows "\<exists>b'. fifo_get b len0 = Some (len, take (unat len) (cb_contents b), b') \<and> cb_ok b' \<and>
     cb_contents b' = drop (unat len) (cb_contents b) \<and> cb_item_num b' = cb_item_num b - 1"
  using fifo_get_spec [OF assms] by blast

lemma fifo_get_takes_witness:
  "\<exists>b'. fifo_get wrapped_ring 3 = Some (3, [7, 8, 1], b') \<and> cb_ok b' \<and> cb_contents b' = [2]"
proof -
  have "3 = min 3 (fifo_len wrapped_ring)" by (simp add: wrapped_ring_def fifo_len_def)
  then show ?thesis
    using fifo_get_takes [of wrapped_ring 3 3] wrapped_ring_ok
    by (auto simp: MAX_FRAME_BUF_SIZE_def)
qed

text \<open>C31: no sequence of calls breaks the ring: on a well-formed ring every put whose source
  block is as long as the length it passes, every get, every reset and a change of the save
  number stay inside the ring's block and leave a well-formed ring of the same size, on the
  error returns too; a ring that \<open>init_cycle_buffer\<close> hands out for a non-zero size is
  well-formed and empty.\<close>
theorem cycle_buffer_memory_safe:
  assumes "cb_ok b" and "unat len \<le> length src"
  shows "(\<exists>r b'. fifo_put b src len = Some (r, b') \<and> cb_ok b' \<and> cb_size b' = cb_size b) \<and>
    (\<exists>r d b'. fifo_get b n = Some (r, d, b') \<and> cb_ok b' \<and> cb_size b' = cb_size b \<and> length d \<le> unat n) \<and>
    cb_ok (fifo_reset b) \<and> cb_contents (fifo_reset b) = [] \<and> cb_ok (filo_set_save_num b k) \<and>
    (\<forall>f1 f2 sz b0. init_cycle_buffer f1 f2 sz = Some b0 \<and> sz \<noteq> 0 \<longrightarrow> cb_ok b0 \<and> cb_contents b0 = [])"
proof -
  have "cb_ok (filo_set_save_num b k)" using assms(1) by (simp add: filo_set_save_num_def cb_ok_def)
  moreover have "\<forall>f1 f2 sz b0. init_cycle_buffer f1 f2 sz = Some b0 \<and> sz \<noteq> 0 \<longrightarrow>
      cb_ok b0 \<and> cb_contents b0 = []"
    using init_cycle_buffer_ok by blast
  ultimately show ?thesis
    using fifo_put_safe [OF assms] fifo_get_safe [OF assms(1), of n] fifo_reset_ok [OF assms(1)] by blast
qed

lemma cycle_buffer_memory_safe_witness:
  "\<exists>r b'. fifo_put wrapped_ring [1, 2] 2 = Some (r, b') \<and> cb_ok b'"
proof -
  have "\<exists>r b'. fifo_put wrapped_ring [1, 2] 2 = Some (r, b') \<and> cb_ok b' \<and>
      cb_size b' = cb_size wrapped_ring"
    using cycle_buffer_memory_safe [of wrapped_ring 2 "[1, 2]" 0 0] wrapped_ring_ok by simp
  then show ?thesis by blast
qed

text \<open>The admission test \<open>fifo_enable_insert\<close> never closes on a ring smaller than 600 KiB:
  the bound \<open>(int)size - 600*1024\<close> is converted to unsigned before the comparison, so even a
  full ring answers 1.\<close>
theorem fifo_enable_insert_small_ring:
  assumes "cb_ok b" and "0 < cb_size b" and "cb_size b < 600 * 1024"
  shows "fifo_enable_insert b = 1"
proof -
  define k where "k = unat (cb_size b)"
  have k: "k < 600 * 1024" using assms(3) by (simp add: k_def word_less_nat_alt)
  have "unat (fifo_len b) \<le> k" using cb_okD(3) [OF assms(1)] by (simp add: k_def word_le_nat_alt)
  moreover have "unat (cb_size b - 600 * 1024) = 2 ^ 32 + k - 600 * 1024"
    using k by (simp add: unat_sub_if' k_def word_le_nat_alt)
  ultimately show ?thesis using k by (simp add: fifo_enable_insert_def word_less_nat_alt)
qed

lemma fifo_enable_insert_small_ring_witness:
  "fifo_enable_insert wrapped_ring = 1 \<and> cb_size wrapped_ring = 8"
  using fifo_enable_insert_small_ring [of wrapped_ring] wrapped_ring_ok
  by (simp add: wrapped_ring_def)

end
