(* ===== verification/Frame_Fifo.thy ===== *)
theory Frame_Fifo
  imports Frame_Queue Cycle_Buffer
begin

text \<open>
  The two frame queues that \<open>src/FileSystem/avicodelib/fic8120ctrl.c\<close> keeps in byte rings:
  the recording ring \<open>cycle_enc_buf\<close> and the network ring \<open>cycle_net_buf\<close>. A frame is its
  36-byte header followed by its payload, put and taken as two ring items; any failure
  between the two resets the ring. Both interpret \<open>frame_queue\<close>.
\<close>

unbundle bit_operations_syntax

section \<open>Two-item records in a byte ring\<close>

text \<open>
  The critical section of the inserting functions: the header item, then the payload item,
  the ring reset when either is short. The result is the function's return value.
\<close>

definition put_record :: "cycle_buffer \<Rightarrow> byte list \<Rightarrow> byte list \<Rightarrow> u32 \<Rightarrow> (int \<times> cycle_buffer) option" where
  "put_record b hdr buf len = do {
     (ret, b1) \<leftarrow> fifo_put b hdr (of_nat (length hdr));
     if ret \<noteq> of_nat (length hdr) then Some (- 1, fifo_reset b1)
     else do {
       (ret2, b2) \<leftarrow> fifo_put b1 buf len;
       if ret2 \<noteq> len then Some (- 1, fifo_reset b2) else Some (1, b2)
     }
   }"

text \<open>
  The critical section of the fetching functions. \<open>hdr\<close> and \<open>buf\<close> are the caller's blocks; the
  payload length is the second word of the fetched header.
\<close>

definition get_record :: "cycle_buffer \<Rightarrow> byte list \<Rightarrow> byte list \<Rightarrow>
    (int \<times> byte list \<times> byte list \<times> cycle_buffer) option" where
  "get_record b hdr buf = do {
     (ret, d1, b1) \<leftarrow> fifo_get b 36;
     hdr' \<leftarrow> mem_write hdr 0 d1;
     if ret \<noteq> 36 then Some (- 1, hdr', buf, fifo_reset b1)
     else do {
       let len = word_at hdr' 1;
       (ret2, d2, b2) \<leftarrow> fifo_get b1 len;
       buf' \<leftarrow> mem_write buf 0 d2;
       if ret2 \<noteq> len then Some (- 1, hdr', buf', fifo_reset b2)
       else Some (1, hdr', buf', b2)
     }
   }"

section \<open>The recording ring\<close>

text \<open>The static counters of the \<open>preview_frame_rate_show_*\<close> functions.\<close>

record rate_stat =
  rs_count :: int
  rs_oldTime :: int

text \<open>
  \<open>lim\<close> is the period factor of the function (5 or 10); \<open>now\<close> is the second the clock shows
  and \<open>chans\<close> the answer of \<open>get_dvr_max_chan(1)\<close>. The rate itself is only printed.
\<close>

definition preview_rate :: "int \<Rightarrow> int \<Rightarrow> int \<Rightarrow> rate_stat \<Rightarrow> rate_stat" where
  "preview_rate lim now chans st =
     (let st1 = (if rs_count st = 0 then st\<lparr>rs_oldTime := now\<rparr> else st);
          st2 = st1\<lparr>rs_count := rs_count st1 + 1\<rparr>
      in if rs_count st2 > chans * 25 * lim then st2\<lparr>rs_count := 0\<rparr> else st2)"

definition preview_frame_rate_show_audio :: "int \<Rightarrow> int \<Rightarrow> rate_stat \<Rightarrow> rate_stat" where
  "preview_frame_rate_show_audio = preview_rate 5"

definition preview_frame_rate_show_video :: "int \<Rightarrow> int \<Rightarrow> rate_stat \<Rightarrow> rate_stat" where
  "preview_frame_rate_show_video = preview_rate 10"

definition preview_frame_rate_show_net_video :: "int \<Rightarrow> int \<Rightarrow> rate_stat \<Rightarrow> rate_stat" where
  "preview_frame_rate_show_net_video = preview_rate 10"

record rec_state =
  cycle_enc_buf :: cycle_buffer
  video_stat :: rate_stat
  audio_stat :: rate_stat

definition VIDEO_FRAME :: u32 where "VIDEO_FRAME = 1"
definition AUDIO_FRAME :: u32 where "AUDIO_FRAME = 2"

definition insert_enc_buf :: "int \<Rightarrow> int \<Rightarrow> rec_state \<Rightarrow> frame_header \<Rightarrow> byte list \<Rightarrow>
    (int \<times> rec_state) option" where
  "insert_enc_buf now chans st h buf =
     (if fh_iLength h \<ge> MAX_FRAME_BUF_SIZE - 10 * 1024 then Some (- 1, st)
      else do {
        (ret, b) \<leftarrow> put_record (cycle_enc_buf st) (enc_frame_header h) buf (fh_iLength h);
        let st1 = st\<lparr>cycle_enc_buf := b\<rparr>;
        if ret \<noteq> 1 then Some (ret, st1)
        else do {
          let st2 = (if fh_type h = VIDEO_FRAME
                     then st1\<lparr>video_stat := preview_frame_rate_show_video now chans (video_stat st1)\<rparr>
                     else st1);
          let st3 = (if fh_type h = AUDIO_FRAME
                     then st2\<lparr>audio_stat := preview_frame_rate_show_audio now chans (audio_stat st2)\<rparr>
                     else st2);
          Some (1, st3)
        }
      })"

definition get_enc_buf :: "rec_state \<Rightarrow> byte list \<Rightarrow> byte list \<Rightarrow>
    (int \<times> byte list \<times> byte list \<times> rec_state) option" where
  "get_enc_buf st hdr buf = do {
     (ret, hdr', buf', b) \<leftarrow> get_record (cycle_enc_buf st) hdr buf;
     Some (ret, hdr', buf', st\<lparr>cycle_enc_buf := b\<rparr>)
   }"

definition is_enable_insert_rec_data :: "rec_state \<Rightarrow> int" where
  "is_enable_insert_rec_data st = fifo_enable_insert (cycle_enc_buf st)"

definition is_enable_get_rec_data :: "rec_state \<Rightarrow> int" where
  "is_enable_get_rec_data st = fifo_enable_get (cycle_enc_buf st)"

definition set_cycle_save_num :: "rec_state \<Rightarrow> int \<Rightarrow> rec_state" where
  "set_cycle_save_num st num =
     (if num \<le> 0 then st
      else st\<lparr>cycle_enc_buf := filo_set_save_num (cycle_enc_buf st) num\<rparr>)"

section \<open>The network ring\<close>

record net_state =
  cycle_net_buf :: cycle_buffer
  net_video_stat :: rate_stat

definition is_enable_insert_net_data :: "net_state \<Rightarrow> int" where
  "is_enable_insert_net_data st =
     (if fifo_num (cycle_net_buf st) > 30 then 0 else fifo_enable_insert (cycle_net_buf st))"

definition get_net_data_num :: "net_state \<Rightarrow> int" where
  "get_net_data_num st = fifo_num (cycle_net_buf st)"

definition is_enable_get_net_data :: "net_state \<Rightarrow> int" where
  "is_enable_get_net_data st = fifo_enable_get (cycle_net_buf st)"

definition reset_net_cycle_buf :: "net_state \<Rightarrow> net_state" where
  "reset_net_cycle_buf st = st\<lparr>cycle_net_buf := fifo_reset (cycle_net_buf st)\<rparr>"

definition insert_net_buf :: "int \<Rightarrow> int \<Rightarrow> net_state \<Rightarrow> frame_header \<Rightarrow> byte list \<Rightarrow>
    (int \<times> net_state) option" where
  "insert_net_buf now chans st h buf =
     (if fh_iLength h \<ge> MAX_FRAME_BUF_SIZE - 10 * 1024 then Some (- 1, st)
      else if is_enable_insert_net_data st \<le> 0 then Some (- 1, st)
      else do {
        (ret, b) \<leftarrow> put_record (cycle_net_buf st) (enc_frame_header h) buf (fh_iLength h);
        let st1 = st\<lparr>cycle_net_buf := b\<rparr>;
        if ret \<noteq> 1 then Some (ret, st1)
        else Some (1, if fh_type h = VIDEO_FRAME
             then st1\<lparr>net_video_stat := preview_frame_rate_show_net_video now chans (net_video_stat st1)\<rparr>
             else st1)
      })"

definition get_net_buf :: "net_state \<Rightarrow> byte list \<Rightarrow> byte list \<Rightarrow>
    (int \<times> byte list \<times> byte list \<times> net_state) option" where
  "get_net_buf st hdr buf =
     (if is_enable_get_net_data st \<le> 0 then Some (- 1, hdr, buf, st)
      else do {
        (ret, hdr', buf', b) \<leftarrow> get_record (cycle_net_buf st) hdr buf;
        Some (ret, hdr', buf', st\<lparr>cycle_net_buf := b\<rparr>)
      })"

section \<open>Rings that hold whole records\<close>

text \<open>
  \<open>ring_holds H b recs\<close>: the ring holds exactly the records \<open>recs\<close>, each a header of \<open>H\<close> bytes
  and a payload that is neither empty nor too large to fetch, two items each.
\<close>

definition rec_bytes :: "(byte list \<times> byte list) list \<Rightarrow> byte list" where
  "rec_bytes recs = concat (map (\<lambda>(h, d). h @ d) recs)"

definition rec_fit :: "nat \<Rightarrow> byte list \<times> byte list \<Rightarrow> bool" where
  "rec_fit H r \<longleftrightarrow> length (fst r) = H \<and> snd r \<noteq> [] \<and> length (snd r) < 512 * 1024"

definition ring_holds :: "nat \<Rightarrow> cycle_buffer \<Rightarrow> (byte list \<times> byte list) list \<Rightarrow> bool" where
  "ring_holds H b recs \<longleftrightarrow>
     cb_ok b \<and> cb_contents b = rec_bytes recs \<and> cb_item_num b = 2 * int (length recs) \<and>
     list_all (rec_fit H) recs \<and> unat (cb_size b) \<le> 2 ^ 20 \<and>
     cb_max_write_buf b = MAX_FRAME_BUF_SIZE"

lemma rec_bytes_simps [simp]:
  "rec_bytes [] = []" "rec_bytes ((h, d) # rs) = h @ d @ rec_bytes rs"
  "rec_bytes (rs @ rs') = rec_bytes rs @ rec_bytes rs'"
  by (simp_all add: rec_bytes_def)

lemma rec_bytes_length:
  "list_all (rec_fit H) recs \<Longrightarrow> length recs * (H + 1) \<le> length (rec_bytes recs)"
proof (induction recs)
  case (Cons r rs)
  obtain h d where r: "r = (h, d)" by force
  with Cons.prems have "length h = H" "d \<noteq> []" by (auto simp: rec_fit_def)
  then have "H + 1 \<le> length (h @ d)" by (cases d) auto
  with Cons r show ?case by simp
qed simp

lemma ring_holdsD:
  assumes "ring_holds H b recs"
  shows "cb_ok b" "cb_contents b = rec_bytes recs" "cb_item_num b = 2 * int (length recs)"
    "list_all (rec_fit H) recs" "cb_max_write_buf b = MAX_FRAME_BUF_SIZE"
    "unat (cb_size b) \<le> 2 ^ 20" "length (rec_bytes recs) \<le> unat (cb_size b)"
proof -
  show "length (rec_bytes recs) \<le> unat (cb_size b)"
    using assms cb_okD(3) [of b] length_cb_contents [of b]
    by (simp add: ring_holds_def word_le_nat_alt)
qed (use assms in \<open>simp_all add: ring_holds_def\<close>)

text \<open>A record takes nine bytes or more, so the item counter never wraps.\<close>

lemma item_bound:
  assumes "ring_holds H b recs" and "8 \<le> H"
  shows "2 * int (length recs) + 2 < 1000000"
proof -
  note D = ring_holdsD [OF assms(1)]
  have "length recs * 9 \<le> length recs * (H + 1)" using assms(2) by simp
  also have "\<dots> \<le> length (rec_bytes recs)" using D(4) by (rule rec_bytes_length)
  also have "\<dots> \<le> 2 ^ 20" using D(6,7) by linarith
  finally show ?thesis by simp
qed

lemma put_record_ok:
  assumes holds: "ring_holds H b recs" and H: "8 \<le> H" and fit: "rec_fit H (h, d)"
    and room: "length (rec_bytes recs) + H + length d \<le> unat (cb_size b)"
  shows "\<exists>b'. put_record b h (d @ rest) (of_nat (length d)) = Some (1, b') \<and>
     ring_holds H b' (recs @ [(h, d)]) \<and> cb_size b' = cb_size b \<and> cb_save_num b' = cb_save_num b"
proof -
  note D = ring_holdsD [OF holds]
  from fit have lh: "length h = H" and dn: "d \<noteq> []" by (simp_all add: rec_fit_def)
  obtain b1 where b1: "fifo_put b h (of_nat H) = Some (of_nat H, b1)" "cb_ok b1"
    "cb_contents b1 = cb_contents b @ h" "cb_item_num b1 = (cb_item_num b + 1) mod 1000000"
    "cb_size b1 = cb_size b" "cb_save_num b1 = cb_save_num b"
    "cb_max_write_buf b1 = cb_max_write_buf b"
    using fifo_put_exact [OF D(1), of H h] H room D(2) lh by auto
  have room1: "length (cb_contents b1) + length d \<le> unat (cb_size b1)"
    using room D(2) lh b1(3,5) by (simp del: length_cb_contents)
  have "0 < length d" using dn by simp
  with room1 obtain b2 where b2: "fifo_put b1 (d @ rest) (of_nat (length d)) = Some (of_nat (length d), b2)"
    "cb_ok b2" "cb_contents b2 = cb_contents b1 @ d" "cb_item_num b2 = (cb_item_num b1 + 1) mod 1000000"
    "cb_size b2 = cb_size b1" "cb_save_num b2 = cb_save_num b1"
    "cb_max_write_buf b2 = cb_max_write_buf b1"
    using fifo_put_exact [OF b1(2), of "length d" "d @ rest"] by auto
  have run: "put_record b h (d @ rest) (of_nat (length d)) = Some (1, b2)"
    using b1(1) b2(1) lh by (simp add: put_record_def)
  have "cb_item_num b2 = 2 * int (length (recs @ [(h, d)]))"
    using b1(4) b2(4) D(3) item_bound [OF holds H] by (simp add: mod_simps)
  then have "ring_holds H b2 (recs @ [(h, d)])"
    using b1 b2 D fit by (simp add: ring_holds_def)
  with run b1 b2 show ?thesis by auto
qed

text \<open>Fetching the two items of the first record.\<close>

lemma get_header_item:
  assumes holds: "ring_holds H b ((h, d) # recs)" and H: "8 \<le> H" "H < 512 * 1024"
  shows "\<exists>b1. fifo_get b (of_nat H) = Some (of_nat H, h, b1) \<and> cb_ok b1 \<and>
     cb_contents b1 = d @ rec_bytes recs \<and> cb_item_num b1 = 2 * int (length recs) + 1 \<and>
     cb_size b1 = cb_size b \<and> cb_save_num b1 = cb_save_num b \<and>
     cb_max_write_buf b1 = MAX_FRAME_BUF_SIZE"
proof -
  note D = ring_holdsD [OF holds]
  from D(4) have lh: "length h = H" by (simp add: rec_fit_def)
  have "1 \<le> cb_item_num b" "0 < H" "H \<le> length (cb_contents b)"
    using D(2,3) H(1) lh by (simp_all del: length_cb_contents)
  moreover have "H < unat (cb_max_write_buf b)" using H(2) D(5) by (simp add: MAX_FRAME_BUF_SIZE_def)
  ultimately show ?thesis
    using fifo_get_exact [OF D(1), of H] D(2,3,5) lh by auto
qed

lemma get_payload_item:
  assumes "cb_ok b1" "cb_contents b1 = d @ rec_bytes recs" "cb_item_num b1 = 2 * int (length recs) + 1"
    and "cb_max_write_buf b1 = MAX_FRAME_BUF_SIZE" "unat (cb_size b1) \<le> 2 ^ 20"
    and fit: "rec_fit H (h, d)" and recs: "list_all (rec_fit H) recs"
  shows "\<exists>b2. fifo_get b1 (of_nat (length d)) = Some (of_nat (length d), d, b2) \<and>
     ring_holds H b2 recs \<and> cb_size b2 = cb_size b1 \<and> cb_save_num b2 = cb_save_num b1"
proof -
  have "1 \<le> cb_item_num b1" "0 < length d" "length d \<le> length (cb_contents b1)"
    "length d < unat (cb_max_write_buf b1)"
    using assms by (auto simp: rec_fit_def MAX_FRAME_BUF_SIZE_def simp del: length_cb_contents)
  from fifo_get_exact [OF assms(1) this] show ?thesis
    using assms by (auto simp: ring_holds_def)
qed

lemma get_record_ok:
  assumes holds: "ring_holds 36 b ((h, d) # recs)" and lab: "word_at h 1 = of_nat (length d)"
    and blocks: "length hdr = 36" "length d \<le> length buf"
  shows "\<exists>b'. get_record b hdr buf = Some (1, h, d @ drop (length d) buf, b') \<and>
     ring_holds 36 b' recs \<and> cb_size b' = cb_size b \<and> cb_save_num b' = cb_save_num b"
proof -
  note D = ring_holdsD [OF holds]
  from D(4) have fit: "rec_fit 36 (h, d)" and rf: "list_all (rec_fit 36) recs" and lh: "length h = 36"
    by (simp_all add: rec_fit_def)
  obtain b1 where b1: "fifo_get b (of_nat 36) = Some (of_nat 36, h, b1)" "cb_ok b1"
     "cb_contents b1 = d @ rec_bytes recs" "cb_item_num b1 = 2 * int (length recs) + 1"
     "cb_size b1 = cb_size b" "cb_save_num b1 = cb_save_num b" "cb_max_write_buf b1 = MAX_FRAME_BUF_SIZE"
    using get_header_item [OF holds] by auto
  obtain b2 where b2: "fifo_get b1 (of_nat (length d)) = Some (of_nat (length d), d, b2)"
     "ring_holds 36 b2 recs" "cb_size b2 = cb_size b1" "cb_save_num b2 = cb_save_num b1"
    using get_payload_item [OF b1(2,3,4,7) _ fit rf] D(6) b1(5) by auto
  have w1: "mem_write hdr 0 h = Some h" using blocks(1) lh by (simp add: mem_write_def)
  have w2: "mem_write buf 0 d = Some (d @ drop (length d) buf)" using blocks(2) by (simp add: mem_write_def)
  show ?thesis
    using b1 b2 w1 w2 lab by (simp add: get_record_def)
qed

section \<open>A record that does not fit\<close>

lemma fifo_put_short:
  assumes ok: "cb_ok b" and n: "cb_free b < n" "n < 2 ^ 32" and src: "cb_free b \<le> length src"
  shows "\<exists>b'. fifo_put b src (of_nat n) = Some (of_nat (cb_free b), b') \<and> cb_ok b' \<and>
     cb_size b' = cb_size b \<and> cb_max_write_buf b' = cb_max_write_buf b"
proof -
  have un: "unat (of_nat n :: u32) = n" using n(2) by simp
  then have nz: "(of_nat n :: u32) \<noteq> 0" using n(1) by (metis unat_0 not_less_zero)
  have uf: "unat (cb_size b - fifo_len b) = cb_free b"
    using unat_sub [OF cb_okD(3) [OF ok]] by (simp add: cb_free_def)
  then have f: "of_nat (cb_free b) = cb_size b - fifo_len b" by (simp flip: uf)
  have "cb_size b - fifo_len b \<le> of_nat n" using uf un n(1) by (simp add: word_le_nat_alt)
  then have "min (of_nat n) (cb_size b - fifo_len b) = of_nat (cb_free b)" using f by simp
  with fifo_put_spec [OF ok nz, of src] src n(1) un show ?thesis by auto
qed

lemma reset_holds:
  "cb_ok b \<Longrightarrow> unat (cb_size b) \<le> 2 ^ 20 \<Longrightarrow> cb_max_write_buf b = MAX_FRAME_BUF_SIZE \<Longrightarrow>
    ring_holds H (fifo_reset b) []"
  using fifo_reset_ok [of b] by (simp add: ring_holds_def) (simp add: fifo_reset_def)

lemma put_record_full:
  assumes holds: "ring_holds H b recs" and H: "0 < H" "H < 2 ^ 32" and h: "length h = H" and d: "d \<noteq> []"
    and full: "unat (cb_size b) < length (rec_bytes recs) + H + length d" and ld: "length d < 2 ^ 32"
  shows "\<exists>b'. put_record b h d (of_nat (length d)) = Some (- 1, b') \<and> ring_holds H b' [] \<and>
     cb_size b' = cb_size b"
proof -
  note D = ring_holdsD [OF holds]
  have lc: "length (rec_bytes recs) = unat (fifo_len b)" using D(2) length_cb_contents [of b] by simp
  have fr: "cb_free b = unat (cb_size b) - length (rec_bytes recs)"
    by (simp add: cb_free_def lc)
  show ?thesis
  proof (cases "cb_free b < H")
    case True
    obtain b1 where b1: "fifo_put b h (of_nat H) = Some (of_nat (cb_free b), b1)" "cb_ok b1"
      "cb_size b1 = cb_size b" "cb_max_write_buf b1 = cb_max_write_buf b"
      using fifo_put_short [OF D(1) True H(2), of h] h True by auto
    have "(of_nat (cb_free b) :: u32) \<noteq> of_nat H"
      using True H(2) by (metis unat_of_nat_u32 less_trans less_irrefl)
    then have "put_record b h d (of_nat (length d)) = Some (- 1, fifo_reset b1)"
      using b1(1) h by (simp add: put_record_def)
    then show ?thesis using reset_holds [of b1 H] b1 D by (auto simp: fifo_reset_def)
  next
    case False
    then have room: "length (cb_contents b) + H \<le> unat (cb_size b)"
      using fr H D(2) by simp
    obtain b1 where b1: "fifo_put b h (of_nat H) = Some (of_nat H, b1)" "cb_ok b1"
      "cb_contents b1 = cb_contents b @ h" "cb_size b1 = cb_size b"
      "cb_max_write_buf b1 = cb_max_write_buf b"
      using fifo_put_exact [OF D(1) H(1) _ room, of h] h by auto
    have "length (cb_contents b1) = length (rec_bytes recs) + H" using b1(3) D(2) h by simp
    then have fr1: "cb_free b1 = unat (cb_size b) - (length (rec_bytes recs) + H)"
      by (simp add: cb_free_def b1(4))
    then have sh: "cb_free b1 < length d" using full d by (cases d) auto
    obtain b2 where b2: "fifo_put b1 d (of_nat (length d)) = Some (of_nat (cb_free b1), b2)" "cb_ok b2"
        "cb_size b2 = cb_size b1" "cb_max_write_buf b2 = cb_max_write_buf b1"
      using fifo_put_short [OF b1(2) sh ld less_imp_le [OF sh]] by auto
    have "(of_nat (cb_free b1) :: u32) \<noteq> of_nat (length d)"
      using sh ld by (metis unat_of_nat_u32 less_trans less_irrefl)
    then have "put_record b h d (of_nat (length d)) = Some (- 1, fifo_reset b2)"
      using b1(1) b2(1) h by (simp add: put_record_def)
    then show ?thesis using reset_holds [of b2 H] b1 b2 D by (auto simp: fifo_reset_def)
  qed
qed

section \<open>Frames as records\<close>

definition frame_ok :: "frame \<Rightarrow> bool" where
  "frame_ok x = (fh_iLength (fst x) = of_nat (length (snd x)) \<and> snd x \<noteq> [] \<and>
     length (snd x) < 502 * 1024)"

definition frame_rec :: "frame \<Rightarrow> byte list \<times> byte list" where
  "frame_rec x = (enc_frame_header (fst x), snd x)"

definition frame_bytes :: "frame \<Rightarrow> nat" where
  "frame_bytes x = 36 + length (snd x)"

definition queue_bytes :: "frame list \<Rightarrow> nat" where
  "queue_bytes q = sum_list (map frame_bytes q)"

lemma queue_bytes_simps [simp]:
  "queue_bytes [] = 0" "queue_bytes (x # q) = frame_bytes x + queue_bytes q"
  "queue_bytes (q @ q') = queue_bytes q + queue_bytes q'"
  by (simp_all add: queue_bytes_def)

definition frames_rep :: "u32 \<Rightarrow> int \<Rightarrow> cycle_buffer \<Rightarrow> frame list \<Rightarrow> bool" where
  "frames_rep S sn b q \<longleftrightarrow> ring_holds 36 b (map frame_rec q) \<and> cb_size b = S \<and>
     cb_save_num b = sn \<and> list_all frame_ok q"

lemma length_frames [simp]: "length (rec_bytes (map frame_rec q)) = queue_bytes q"
  by (induction q) (simp_all add: frame_rec_def frame_bytes_def)

lemma frame_ok_fit: "frame_ok x \<Longrightarrow> rec_fit 36 (frame_rec x)"
  by (simp add: frame_ok_def rec_fit_def frame_rec_def)

lemma frame_ok_guard: "frame_ok x \<Longrightarrow> fh_iLength (fst x) < MAX_FRAME_BUF_SIZE - 10 * 1024"
proof -
  assume "frame_ok x"
  then have "unat (fh_iLength (fst x)) < 502 * 1024" by (simp add: frame_ok_def)
  then show ?thesis by (simp add: word_less_nat_alt MAX_FRAME_BUF_SIZE_def)
qed

lemma frame_len_back: "frame_ok x \<Longrightarrow> unat (fh_iLength (fst x)) = length (snd x)"
  by (simp add: frame_ok_def)

lemma header_length_word [codec_simps]: "word_at (enc_frame_header h) (Suc 0) = fh_iLength h"
  by (simp add: enc_frame_header_def word_at_def codec_simps)

lemma frames_rep_put:
  assumes "frames_rep S sn b q" and "frame_ok x" and "queue_bytes q + frame_bytes x \<le> unat S"
  shows "\<exists>b'. put_record b (enc_frame_header (fst x)) (snd x) (fh_iLength (fst x)) = Some (1, b') \<and>
     frames_rep S sn b' (q @ [x])"
  using put_record_ok [of 36 b "map frame_rec q" "enc_frame_header (fst x)" "snd x" "[]"]
    frame_ok_fit [OF assms(2)] assms
  by (auto simp: frames_rep_def frame_rec_def frame_bytes_def frame_ok_def)

lemma frames_rep_put_full:
  assumes "frames_rep S sn b q" and "frame_ok x" and "unat S < queue_bytes q + frame_bytes x"
  shows "\<exists>b'. put_record b (enc_frame_header (fst x)) (snd x) (fh_iLength (fst x)) = Some (- 1, b') \<and>
     cb_contents b' = [] \<and> cb_item_num b' = 0"
  using put_record_full [of 36 b "map frame_rec q" "enc_frame_header (fst x)" "snd x"] assms
  by (auto simp: frames_rep_def frame_rec_def frame_bytes_def frame_ok_def ring_holds_def)

lemma frames_rep_get:
  assumes "frames_rep S sn b (x # q)" and "length hdr = 36" and "512 * 1024 \<le> length buf"
  shows "\<exists>b' buf'. get_record b hdr buf = Some (1, enc_frame_header (fst x), buf', b') \<and>
     take (length (snd x)) buf' = snd x \<and> frames_rep S sn b' q"
  using get_record_ok [of b "enc_frame_header (fst x)" "snd x" "map frame_rec q" hdr buf] assms
  by (auto simp: frames_rep_def frame_rec_def codec_simps frame_ok_def)

lemma frames_rep_fill: "frames_rep S sn b q \<Longrightarrow> unat (fifo_len b) = queue_bytes q"
  using ring_holdsD(2) [of 36 b "map frame_rec q"] length_cb_contents [of b]
  by (simp add: frames_rep_def)

lemma frames_rep_num: "frames_rep S sn b q \<Longrightarrow> cb_item_num b = 2 * int (length q)"
  by (simp add: frames_rep_def ring_holds_def)

section \<open>The recording ring as a frame queue\<close>

text \<open>The calls of a producer and a consumer that own blocks of \<open>MAX_FRAME_BUF_SIZE\<close> bytes.\<close>

definition enc_put :: "int \<Rightarrow> int \<Rightarrow> rec_state \<Rightarrow> frame \<Rightarrow> rec_state option" where
  "enc_put now chans st x = do {
     (r, st') \<leftarrow> insert_enc_buf now chans st (fst x) (snd x);
     if r = 1 then Some st' else None
   }"

definition frame_of_blocks :: "byte list \<Rightarrow> byte list \<Rightarrow> frame" where
  "frame_of_blocks hdr buf =
     (dec_frame_header hdr, take (unat (fh_iLength (dec_frame_header hdr))) buf)"

definition frame_block :: "byte list" where
  "frame_block = replicate (unat MAX_FRAME_BUF_SIZE) 0"

definition enc_get :: "rec_state \<Rightarrow> (frame \<times> rec_state) option" where
  "enc_get st = do {
     (r, hdr, buf, st') \<leftarrow> get_enc_buf st (replicate 36 0) frame_block;
     if r = 1 then Some (frame_of_blocks hdr buf, st') else None
   }"

definition enc_rep :: "u32 \<Rightarrow> rec_state \<Rightarrow> frame list \<Rightarrow> bool" where
  "enc_rep S st q \<longleftrightarrow> frames_rep S (cb_save_num (cycle_enc_buf st)) (cycle_enc_buf st) q"

definition enc_ok :: "u32 \<Rightarrow> frame list \<Rightarrow> frame \<Rightarrow> bool" where
  "enc_ok S q x = (frame_ok x \<and> queue_bytes q + frame_bytes x \<le> unat S)"

lemma length_frame_block: "length frame_block = 512 * 1024"
  by (simp add: frame_block_def MAX_FRAME_BUF_SIZE_def)

lemma frame_of_blocks_put:
  "frame_ok x \<Longrightarrow> take (length (snd x)) buf = snd x \<Longrightarrow>
    frame_of_blocks (enc_frame_header (fst x)) buf = x"
  by (simp add: frame_of_blocks_def codec_simps frame_len_back)

lemma insert_enc_buf_ok:
  assumes "enc_rep S st q" and "enc_ok S q x"
  shows "\<exists>st'. insert_enc_buf now chans st (fst x) (snd x) = Some (1, st') \<and> enc_rep S st' (q @ [x])"
proof -
  define sn where "sn = cb_save_num (cycle_enc_buf st)"
  from assms have "frames_rep S sn (cycle_enc_buf st) q" "frame_ok x"
      "queue_bytes q + frame_bytes x \<le> unat S"
    by (simp_all add: enc_rep_def enc_ok_def sn_def)
  from frames_rep_put [OF this] frame_ok_guard [OF this(2)] show ?thesis
    by (auto simp: insert_enc_buf_def enc_rep_def Let_def not_le frames_rep_def)
qed

lemma get_enc_buf_ok:
  assumes "enc_rep S st (x # q)" and "length hdr = 36" and "512 * 1024 \<le> length buf"
  shows "\<exists>buf' st'. get_enc_buf st hdr buf = Some (1, enc_frame_header (fst x), buf', st') \<and>
     take (length (snd x)) buf' = snd x \<and> enc_rep S st' q"
  using frames_rep_get [of S _ "cycle_enc_buf st" x q hdr buf] assms
  by (auto simp: enc_rep_def get_enc_buf_def frames_rep_def)

lemma enc_put_ok:
  "enc_rep S st q \<Longrightarrow> enc_ok S q x \<Longrightarrow>
    \<exists>st'. enc_put now chans st x = Some st' \<and> enc_rep S st' (q @ [x])"
  using insert_enc_buf_ok [of S st q x now chans] by (auto simp: enc_put_def)

lemma enc_get_ok:
  assumes "enc_rep S st (x # q)"
  shows "\<exists>st'. enc_get st = Some (x, st') \<and> enc_rep S st' q"
proof -
  have "frame_ok x" using assms by (simp add: enc_rep_def frames_rep_def)
  then show ?thesis
    using get_enc_buf_ok [OF assms, of "replicate 36 0" frame_block] frame_of_blocks_put [of x]
    by (auto simp: enc_get_def length_frame_block)
qed

interpretation enc: frame_queue "enc_put now chans" enc_get "enc_rep S" "enc_ok S" "\<lambda>q. q \<noteq> []"
  by unfold_locales (rule enc_put_ok, assumption+, rule enc_get_ok)

section \<open>The network ring as a frame queue\<close>

text \<open>
  The network consumer is held back until more than \<open>save_num\<close> items wait, and the producer is
  refused above 30 items.
\<close>

definition net_put :: "int \<Rightarrow> int \<Rightarrow> net_state \<Rightarrow> frame \<Rightarrow> net_state option" where
  "net_put now chans st x = do {
     (r, st') \<leftarrow> insert_net_buf now chans st (fst x) (snd x);
     if r = 1 then Some st' else None
   }"

definition net_get :: "net_state \<Rightarrow> (frame \<times> net_state) option" where
  "net_get st = do {
     (r, hdr, buf, st') \<leftarrow> get_net_buf st (replicate 36 0) frame_block;
     if r = 1 then Some (frame_of_blocks hdr buf, st') else None
   }"

definition net_rep :: "u32 \<Rightarrow> int \<Rightarrow> net_state \<Rightarrow> frame list \<Rightarrow> bool" where
  "net_rep S sn st q \<longleftrightarrow> frames_rep S sn (cycle_net_buf st) q"

definition net_ok :: "u32 \<Rightarrow> frame list \<Rightarrow> frame \<Rightarrow> bool" where
  "net_ok S q x = (enc_ok S q x \<and> length q \<le> 15 \<and> of_nat (queue_bytes q) \<le> S - 600 * 1024)"

definition net_ready :: "int \<Rightarrow> frame list \<Rightarrow> bool" where
  "net_ready sn q = (q \<noteq> [] \<and> 2 * int (length q) > sn)"

lemma net_put_ok:
  assumes "net_rep S sn st q" and "net_ok S q x"
  shows "\<exists>st'. net_put now chans st x = Some st' \<and> net_rep S sn st' (q @ [x])"
proof -
  from assms have rep: "frames_rep S sn (cycle_net_buf st) q" and fo: "frame_ok x"
      and room: "queue_bytes q + frame_bytes x \<le> unat S"
      and few: "length q \<le> 15" and gate: "of_nat (queue_bytes q) \<le> S - 600 * 1024"
    by (simp_all add: net_rep_def net_ok_def enc_ok_def)
  have "fifo_len (cycle_net_buf st) = of_nat (queue_bytes q)"
    using frames_rep_fill [OF rep] by (metis word_unat_eq_iff unat_of_nat_u32 unsigned_less len_num1 of_nat_unat ucast_id)
  then have "fifo_enable_insert (cycle_net_buf st) = 1"
    using gate rep by (simp add: fifo_enable_insert_def frames_rep_def)
  then have "is_enable_insert_net_data st = 1"
    using few frames_rep_num [OF rep] by (simp add: is_enable_insert_net_data_def fifo_num_def)
  with frames_rep_put [OF rep fo room] frame_ok_guard [OF fo] show ?thesis
    by (auto simp: net_put_def insert_net_buf_def net_rep_def Let_def not_le)
qed

lemma net_get_ok:
  assumes "net_rep S sn st (x # q)" and "net_ready sn (x # q)"
  shows "\<exists>st'. net_get st = Some (x, st') \<and> net_rep S sn st' q"
proof -
  have rep: "frames_rep S sn (cycle_net_buf st) (x # q)" using assms(1) by (simp add: net_rep_def)
  then have fo: "frame_ok x" by (simp add: frames_rep_def)
  have "is_enable_get_net_data st = 1"
    using frames_rep_num [OF rep] rep assms(2)
    by (simp add: is_enable_get_net_data_def fifo_enable_get_def frames_rep_def net_ready_def)
  then show ?thesis
    using frames_rep_get [OF rep, of "replicate 36 0" frame_block] frame_of_blocks_put [OF fo]
    by (auto simp: net_get_def get_net_buf_def net_rep_def length_frame_block)
qed

interpretation net: frame_queue "net_put now chans" net_get "net_rep S sn" "net_ok S" "net_ready sn"
  by unfold_locales (rule net_put_ok, assumption+, rule net_get_ok, assumption+)

section \<open>Properties\<close>

lemma enc_rep_init:
  assumes "init_cycle_buffer f1 f2 S = Some (cycle_enc_buf st)" and "S \<noteq> 0" and "unat S \<le> 2 ^ 20"
  shows "enc_rep S st []"
  using init_cycle_buffer_ok [OF assms(1,2)] assms(3)
  by (simp add: enc_rep_def frames_rep_def ring_holds_def)

lemma net_rep_init:
  assumes "init_cycle_buffer f1 f2 S = Some b" and "S \<noteq> 0" and "unat S \<le> 2 ^ 20"
    and "cycle_net_buf st = filo_set_save_num b 2"
  shows "net_rep S 4 st []"
proof -
  have "cb_contents (filo_set_save_num b 2) = cb_contents b"
    by (simp add: filo_set_save_num_def cb_contents_def fifo_len_def)
  then show ?thesis
    using init_cycle_buffer_ok [OF assms(1,2)] assms(3,4)
    by (auto simp: net_rep_def frames_rep_def ring_holds_def) (auto simp: filo_set_save_num_def cb_ok_def)
qed

definition sample_header :: "u32 \<Rightarrow> frame_header" where
  "sample_header n = \<lparr>fh_type = VIDEO_FRAME, fh_iLength = n, fh_iFrameType = 1, fh_ulTimeSec = 0,
     fh_ulTimeUsec = 0, fh_standard = 0, fh_size = 0, fh_index = 0, fh_frame_num = 0\<rparr>"

definition fresh_ring :: "u32 \<Rightarrow> cycle_buffer" where
  "fresh_ring S = \<lparr>cb_buf = replicate (unat S) 0, cb_size = S, cb_in = 0, cb_out = 0,
     cb_item_num = 0, cb_save_num = 10, cb_total_write = 0, cb_total_read = 0,
     cb_max_write_buf = MAX_FRAME_BUF_SIZE\<rparr>"

definition fresh_rec :: "u32 \<Rightarrow> rec_state" where
  "fresh_rec S = \<lparr>cycle_enc_buf = fresh_ring S,
     video_stat = \<lparr>rs_count = 0, rs_oldTime = 0\<rparr>, audio_stat = \<lparr>rs_count = 0, rs_oldTime = 0\<rparr>\<rparr>"

definition fresh_net :: "u32 \<Rightarrow> net_state" where
  "fresh_net S = \<lparr>cycle_net_buf = filo_set_save_num (fresh_ring S) 2, net_video_stat = \<lparr>rs_count = 0, rs_oldTime = 0\<rparr>\<rparr>"

lemma init_fresh:
  "S AND (S - 1) = 0 \<Longrightarrow> init_cycle_buffer True True S = Some (fresh_ring S)"
  by (simp add: init_cycle_buffer_def fresh_ring_def)





text \<open>An overflowing \<open>insert_enc_buf\<close> loses everything. When the ring lacks room for the
  frame, the call returns -1 and the ring is reset: every frame that was waiting is gone, and
  the frame itself too.\<close>
theorem insert_enc_buf_overflow:
  assumes "enc_rep S st q" and "frame_ok (h, d)" and "unat S < queue_bytes q + frame_bytes (h, d)"
  shows "\<exists>st'. insert_enc_buf now chans st h d = Some (- 1, st') \<and>
    cb_contents (cycle_enc_buf st') = [] \<and> cb_item_num (cycle_enc_buf st') = 0"
proof -
  from assms(1) have "frames_rep S (cb_save_num (cycle_enc_buf st)) (cycle_enc_buf st) q"
    by (simp add: enc_rep_def)
  from frames_rep_put_full [OF this assms(2,3)] frame_ok_guard [OF assms(2)] show ?thesis
    by (auto simp: insert_enc_buf_def Let_def not_le)
qed

lemma insert_enc_buf_overflow_witness:
  "\<exists>st'. insert_enc_buf 0 4 (fresh_rec 32) (sample_header 2) [7, 8] = Some (- 1, st') \<and>
    cb_item_num (cycle_enc_buf st') = 0"
proof -
  have "enc_rep 32 (fresh_rec 32) []"
    by (rule enc_rep_init [of True True]) (simp_all add: init_cycle_buffer_def fresh_rec_def fresh_ring_def)
  then show ?thesis
    using insert_enc_buf_overflow [of 32 "fresh_rec 32" "[]" "sample_header 2" "[7, 8]" 0 4]
    by (auto simp: frame_ok_def sample_header_def frame_bytes_def)
qed

text \<open>The recorder's gate is sound. With the 1 MiB recording ring, when
  \<open>is_enable_insert_rec_data\<close> answers 1 every frame that \<open>insert_enc_buf\<close> accepts by its size
  is inserted and nothing is lost: 600 KiB of room is more than the largest frame.\<close>
theorem rec_gate_sufficient:
  assumes "enc_rep (1024 * 1024) st q" and "is_enable_insert_rec_data st = 1" and "frame_ok (h, d)"
  shows "\<exists>st'. insert_enc_buf now chans st h d = Some (1, st') \<and>
    enc_rep (1024 * 1024) st' (q @ [(h, d)])"
proof -
  have rep: "frames_rep (1024 * 1024) (cb_save_num (cycle_enc_buf st)) (cycle_enc_buf st) q"
    using assms(1) by (simp add: enc_rep_def)
  have "fifo_len (cycle_enc_buf st) \<le> 424 * 1024"
    using assms(2) rep
    by (simp add: is_enable_insert_rec_data_def fifo_enable_insert_def frames_rep_def
        not_less split: if_splits)
  then have "unat (fifo_len (cycle_enc_buf st)) \<le> 424 * 1024" by (simp add: word_le_nat_alt)
  then have "queue_bytes q \<le> 424 * 1024" using frames_rep_fill [OF rep] by simp
  then have "enc_ok (1024 * 1024) q (h, d)"
    using assms(3) by (simp add: enc_ok_def frame_bytes_def frame_ok_def)
  from insert_enc_buf_ok [OF assms(1) this] show ?thesis by simp
qed

lemma rec_gate_sufficient_witness:
  "\<exists>st'. insert_enc_buf 0 4 (fresh_rec (1024 * 1024)) (sample_header 2) [7, 8] = Some (1, st')"
proof -
  have "enc_rep (1024 * 1024) (fresh_rec (1024 * 1024)) []"
    by (rule enc_rep_init [of True True]) (simp_all add: init_cycle_buffer_def fresh_rec_def fresh_ring_def)
  then show ?thesis
    using rec_gate_sufficient [of "fresh_rec (1024 * 1024)" "[]" "sample_header 2" "[7, 8]" 0 4]
    by (auto simp: frame_ok_def sample_header_def is_enable_insert_rec_data_def
        fifo_enable_insert_def fifo_len_def fresh_rec_def fresh_ring_def)
qed

text \<open>A frame with \<open>iLength\<close> 0 is accepted by \<open>insert_enc_buf\<close> (one item, the header), but
  when it is the only frame in the ring \<open>get_enc_buf\<close> fails on it: after the header no item
  is left, the second \<open>fifo_get\<close> answers -1, which is not the length 0, and the ring is reset.\<close>
theorem zero_length_frame_lost:
  assumes "enc_rep S st []" and "36 \<le> unat S" and "fh_iLength h = 0" and "length hdr = 36"
  shows "\<exists>st' hdr' st''. insert_enc_buf now chans st h [] = Some (1, st') \<and>
    get_enc_buf st' hdr buf = Some (- 1, hdr', buf, st'') \<and> dec_frame_header hdr' = h \<and>
    cb_contents (cycle_enc_buf st'') = []"
proof -
  let ?b = "cycle_enc_buf st" and ?e = "enc_frame_header h"
  from assms(1) have holds: "ring_holds 36 ?b []" and S: "cb_size ?b = S"
    by (simp_all add: enc_rep_def frames_rep_def)
  note D = ring_holdsD [OF holds]
  obtain b1 where b1: "fifo_put ?b ?e (of_nat 36) = Some (of_nat 36, b1)" "cb_ok b1"
    "cb_contents b1 = ?e" "cb_item_num b1 = 1" "cb_max_write_buf b1 = MAX_FRAME_BUF_SIZE"
    using fifo_put_exact [OF D(1), of 36 ?e] D(2,3,5) S assms(2) by auto
  have "36 < unat (cb_max_write_buf b1)" "36 \<le> length (cb_contents b1)"
    using b1(5) b1(3) by (simp_all add: MAX_FRAME_BUF_SIZE_def del: length_cb_contents)
  then obtain b2 where b2: "fifo_get b1 (of_nat 36) = Some (of_nat 36, ?e, b2)" "cb_ok b2"
      "cb_item_num b2 = 0"
    using fifo_get_exact [OF b1(2), of 36] b1(3,4) by auto
  have put: "put_record ?b ?e [] (fh_iLength h) = Some (1, b1)"
    using b1(1) assms(3) by (simp add: put_record_def fifo_put_def [of b1])
  have w: "mem_write hdr 0 ?e = Some ?e" "mem_write buf 0 [] = Some buf"
    using assms(4) by (simp_all add: mem_write_def)
  have get: "get_record b1 hdr buf = Some (- 1, ?e, buf, fifo_reset b2)"
    using b2 w assms(3) by (simp add: get_record_def codec_simps fifo_get_def [of b2])
  show ?thesis
    using put get fifo_reset_ok [OF b2(2)] assms(3)
    by (auto simp: insert_enc_buf_def get_enc_buf_def MAX_FRAME_BUF_SIZE_def codec_simps Let_def)
qed

lemma zero_length_frame_lost_witness:
  "\<exists>st' hdr' st''. insert_enc_buf 0 4 (fresh_rec 64) (sample_header 0) [] = Some (1, st') \<and>
    get_enc_buf st' (replicate 36 0) [] = Some (- 1, hdr', [], st'')"
proof -
  have "enc_rep 64 (fresh_rec 64) []"
    by (rule enc_rep_init [of True True]) (simp_all add: init_cycle_buffer_def fresh_rec_def fresh_ring_def)
  then show ?thesis
    using zero_length_frame_lost [of 64 "fresh_rec 64" "sample_header 0" "replicate 36 0" 0 4 "[]"]
    by (force simp: sample_header_def)
qed

text \<open>The network gate does not protect its 512 KiB ring. With at most 15 frames waiting,
  \<open>is_enable_insert_net_data\<close> answers 1 whatever room is left (its byte test compares with a
  wrapped bound), and an insertion that does not fit then wipes the waiting frames.\<close>
theorem net_gate_unsound:
  assumes "net_rep (512 * 1024) sn st q" and "length q \<le> 15" and "frame_ok (h, d)"
    and "512 * 1024 < queue_bytes q + frame_bytes (h, d)"
  shows "is_enable_insert_net_data st = 1 \<and>
    (\<exists>st'. insert_net_buf now chans st h d = Some (- 1, st') \<and>
      cb_contents (cycle_net_buf st') = [] \<and> get_net_data_num st' = 0)"
proof -
  have rep: "frames_rep (512 * 1024) sn (cycle_net_buf st) q" using assms(1) by (simp add: net_rep_def)
  then have ok: "cb_ok (cycle_net_buf st)" and S: "cb_size (cycle_net_buf st) = 512 * 1024"
    by (simp_all add: frames_rep_def ring_holds_def)
  define k where "k = fifo_len (cycle_net_buf st)"
  have "k \<le> 512 * 1024" using cb_okD(3) [OF ok] S by (simp add: k_def)
  also have "(512 * 1024 :: u32) \<le> 512 * 1024 - 600 * 1024" by simp
  finally have "fifo_enable_insert (cycle_net_buf st) = 1"
    using S by (simp add: fifo_enable_insert_def k_def not_less)
  then have gate: "is_enable_insert_net_data st = 1"
    using frames_rep_num [OF rep] assms(2) by (simp add: is_enable_insert_net_data_def fifo_num_def)
  have "unat (512 * 1024 :: u32) < queue_bytes q + frame_bytes (h, d)" using assms(4) by simp
  from frames_rep_put_full [OF rep assms(3) this] gate frame_ok_guard [OF assms(3)] show ?thesis
    by (auto simp: insert_net_buf_def get_net_data_num_def fifo_num_def Let_def not_le)
qed

lemma net_gate_unsound_witness:
  "\<exists>st. is_enable_insert_net_data st = 1 \<and>
    (\<exists>st'. insert_net_buf 0 4 st (sample_header 300000) (replicate 300000 7) = Some (- 1, st'))"
proof -
  let ?x = "(sample_header 300000, replicate 300000 7)"
  have fo: "frame_ok ?x" by (simp add: frame_ok_def sample_header_def)
  have "net_rep (512 * 1024) 4 (fresh_net (512 * 1024)) []"
    by (rule net_rep_init [OF init_fresh]) (simp_all add: fresh_net_def)
  moreover have "net_ok (512 * 1024) [] ?x"
    using fo by (simp add: net_ok_def enc_ok_def frame_bytes_def)
  ultimately obtain st where "net_rep (512 * 1024) 4 st [?x]" using net_put_ok [of "512 * 1024" 4] by fastforce
  from net_gate_unsound [OF this _ fo, of 0 4] show ?thesis
    by (auto simp: frame_bytes_def)
qed

end
