(* ===== verification/Nvr_Protocol.thy ===== *)
theory Nvr_Protocol
  imports Frame_Fifo "HOL-Library.Signed_Division"
begin

text \<open>
  The conversion between the commands of the camera and the blocks of the NVR protocol,
  \<open>src/FileSystem/avicodelib/nvr_ipcam_protocol.c\<close>: both sides send through
  \<open>NIP_nvr_send_command_convert\<close> and receive through \<open>NIP_nvr_recv_command_convert\<close>. Source and
  destination are blocks of bytes, \<open>None\<close> a NULL pointer.
\<close>

unbundle bit_operations_syntax

section \<open>Structures\<close>

text \<open>The memory image of \<open>NET_DATA_ST\<close>: command and payload length.\<close>

definition enc_net_data :: "u32 \<Rightarrow> u32 \<Rightarrow> byte list" where
  "enc_net_data cmd len = u32_bytes cmd @ u32_bytes len"

lemma length_enc_net_data [simp]: "length (enc_net_data cmd len) = 8"
  by (simp add: enc_net_data_def)

lemma word_at_net_data [codec_simps]:
  "word_at (enc_net_data cmd len @ r) 0 = cmd" "word_at (enc_net_data cmd len @ r) (Suc 0) = len"
  "word_at (enc_net_data cmd len) (Suc 0) = len" "word_at (enc_net_data cmd len) 0 = cmd"
  by (simp_all add: word_at_def enc_net_data_def codec_simps)

record net_command =
  gc_command :: u32
  gc_length :: u32
  gc_page :: u32
  gc_play_fileId :: u32
  gc_searchDate :: u32

record nvr_command =
  nc_cmd :: u32
  nc_value :: "u32 list"

record nvr_frame_header =
  nh_type :: u32
  nh_iLength :: u32
  nh_iFrameType :: u32
  nh_ulTimeSec :: u32
  nh_ulTimeUsec :: u32
  nh_pic_width :: u32
  nh_pic_height :: u32
  nh_channel :: u32
  nh_frame_num :: u32
  nh_Hz :: u32

text \<open>The memory images: 20, 84 and 40 bytes.\<close>

definition words_bytes :: "u32 list \<Rightarrow> byte list" where
  "words_bytes ws = concat (map u32_bytes ws)"

definition enc_net_command :: "net_command \<Rightarrow> byte list" where
  "enc_net_command g = words_bytes [gc_command g, gc_length g, gc_page g, gc_play_fileId g, gc_searchDate g]"

definition dec_net_command :: "byte list \<Rightarrow> net_command" where
  "dec_net_command bs = \<lparr>gc_command = word_at bs 0, gc_length = word_at bs 1, gc_page = word_at bs 2,
     gc_play_fileId = word_at bs 3, gc_searchDate = word_at bs 4\<rparr>"

definition enc_nvr_command :: "nvr_command \<Rightarrow> byte list" where
  "enc_nvr_command c = words_bytes (nc_cmd c # nc_value c)"

definition dec_nvr_command :: "byte list \<Rightarrow> nvr_command" where
  "dec_nvr_command bs = \<lparr>nc_cmd = word_at bs 0, nc_value = map (\<lambda>i. word_at bs (Suc i)) [0..<20]\<rparr>"

definition enc_nvr_frame_header :: "nvr_frame_header \<Rightarrow> byte list" where
  "enc_nvr_frame_header h = words_bytes [nh_type h, nh_iLength h, nh_iFrameType h, nh_ulTimeSec h, nh_ulTimeUsec h,
     nh_pic_width h, nh_pic_height h, nh_channel h, nh_frame_num h, nh_Hz h]"

definition dec_nvr_frame_header :: "byte list \<Rightarrow> nvr_frame_header" where
  "dec_nvr_frame_header bs = \<lparr>nh_type = word_at bs 0, nh_iLength = word_at bs 1, nh_iFrameType = word_at bs 2,
     nh_ulTimeSec = word_at bs 3, nh_ulTimeUsec = word_at bs 4, nh_pic_width = word_at bs 5, nh_pic_height = word_at bs 6,
     nh_channel = word_at bs 7, nh_frame_num = word_at bs 8, nh_Hz = word_at bs 9\<rparr>"

lemma length_words_bytes [simp]: "length (words_bytes ws) = 4 * length ws"
  by (induction ws) (simp_all add: words_bytes_def)

lemma words_bytes_empty [simp]: "words_bytes ws = [] \<longleftrightarrow> ws = []"
  using length_words_bytes [of ws] by (metis length_0_conv mult_eq_0_iff zero_neq_numeral)

lemma words_bytes_Cons: "words_bytes (w # ws) = u32_bytes w @ words_bytes ws"
  by (simp add: words_bytes_def)

lemma word_at_words_bytes [codec_simps]: "i < length ws \<Longrightarrow> word_at (words_bytes ws @ r) i = ws ! i"
proof (induction ws arbitrary: i)
  case (Cons w ws)
  show ?case
  proof (cases i)
    case 0
    then show ?thesis by (simp add: words_bytes_Cons word_at_def codec_simps)
  next
    case (Suc j)
    then have "word_at (words_bytes (w # ws) @ r) i = word_at (words_bytes ws @ r) j"
      by (simp add: words_bytes_Cons word_at_def)
    then show ?thesis using Cons Suc by simp
  qed
qed simp

lemma word_at_words [codec_simps]: "i < length ws \<Longrightarrow> word_at (words_bytes ws) i = ws ! i"
  using word_at_words_bytes [of i ws "[]"] by simp

lemma length_enc_net_command [simp]: "length (enc_net_command g) = 20"
  by (simp add: enc_net_command_def)

lemma length_enc_nvr_command [simp]: "length (enc_nvr_command c) = 4 + 4 * length (nc_value c)"
  by (simp add: enc_nvr_command_def)

lemma length_enc_nvr_frame_header [simp]: "length (enc_nvr_frame_header h) = 40"
  by (simp add: enc_nvr_frame_header_def)

lemma dec_enc_net_command [codec_simps]: "dec_net_command (enc_net_command g) = g"
  by (cases g) (simp add: dec_net_command_def enc_net_command_def codec_simps)

lemma dec_enc_nvr_command [codec_simps]: "length (nc_value c) = 20 \<Longrightarrow> dec_nvr_command (enc_nvr_command c) = c"
  by (cases c) (auto simp: dec_nvr_command_def enc_nvr_command_def codec_simps intro!: nth_equalityI)

lemma dec_enc_nvr_frame_header [codec_simps]: "dec_nvr_frame_header (enc_nvr_frame_header h) = h"
  by (cases h) (simp add: dec_nvr_frame_header_def enc_nvr_frame_header_def codec_simps)

lemma enc_frame_header_words:
  "enc_frame_header h = words_bytes [fh_type h, fh_iLength h, fh_iFrameType h, fh_ulTimeSec h, fh_ulTimeUsec h,
     fh_standard h, fh_size h, fh_index h, fh_frame_num h]"
  by (simp add: enc_frame_header_def words_bytes_def)

lemma enc_net_data_words: "enc_net_data cmd len = words_bytes [cmd, len]"
  by (simp add: enc_net_data_def words_bytes_def)

section \<open>Picture sizes\<close>

definition NET_DVR_NET_COMMAND :: u32 where "NET_DVR_NET_COMMAND = 1001"
definition NET_DVR_NET_FRAME :: u32 where "NET_DVR_NET_FRAME = 1002"
definition NET_DVR_NET_SELF_DATA :: u32 where "NET_DVR_NET_SELF_DATA = 1003"
definition NET_CAM_SEND_DATA :: u32 where "NET_CAM_SEND_DATA = 30"
definition NET_CAM_ENC_SET :: u32 where "NET_CAM_ENC_SET = 32"
definition NET_CAM_GET_ENGINE_INFO :: u32 where "NET_CAM_GET_ENGINE_INFO = 10001"

definition TD_DRV_VIDEO_STARDARD_PAL :: u32 where "TD_DRV_VIDEO_STARDARD_PAL = 0"
definition TD_DRV_VIDEO_STARDARD_NTSC :: u32 where "TD_DRV_VIDEO_STARDARD_NTSC = 1"
definition TD_DRV_VIDEO_SIZE_CIF :: u32 where "TD_DRV_VIDEO_SIZE_CIF = 2"
definition TD_DRV_VIDEO_SIZE_720P :: u32 where "TD_DRV_VIDEO_SIZE_720P = 5"
definition TD_DRV_VIDEO_SIZE_1080P :: u32 where "TD_DRV_VIDEO_SIZE_1080P = 6"
definition TD_DRV_VIDEO_SIZE_480P :: u32 where "TD_DRV_VIDEO_SIZE_480P = 7"

lemmas nvr_codes = NET_DVR_NET_COMMAND_def NET_DVR_NET_FRAME_def NET_DVR_NET_SELF_DATA_def NET_CAM_SEND_DATA_def NET_CAM_ENC_SET_def
  NET_CAM_GET_ENGINE_INFO_def

lemmas picture_codes = TD_DRV_VIDEO_STARDARD_PAL_def TD_DRV_VIDEO_STARDARD_NTSC_def TD_DRV_VIDEO_SIZE_CIF_def
  TD_DRV_VIDEO_SIZE_720P_def TD_DRV_VIDEO_SIZE_1080P_def TD_DRV_VIDEO_SIZE_480P_def

text \<open>The assignments of the source exclude each other; the result is its return value with width and height.\<close>

definition NIP_frame_convert_to_w_h :: "u32 \<Rightarrow> u32 \<Rightarrow> int \<times> u32 \<times> u32" where
  "NIP_frame_convert_to_w_h standard image_size =
     (1, if image_size = TD_DRV_VIDEO_SIZE_1080P then (1920, 1072)
         else if image_size = TD_DRV_VIDEO_SIZE_720P then (1280, 720)
         else if image_size = TD_DRV_VIDEO_SIZE_480P then (640, 480)
         else if standard = TD_DRV_VIDEO_STARDARD_PAL \<and> image_size = TD_DRV_VIDEO_SIZE_CIF then (352, 288)
         else (352, 240))"

text \<open>\<open>std\<close> is \<open>get_cur_standard()\<close>; the result holds the return value, the standard and the size, which keep
  their values \<open>st0\<close> and \<open>sz0\<close> when no picture fits.\<close>

definition NIP_frame_convert :: "u32 \<Rightarrow> u32 \<Rightarrow> u32 \<Rightarrow> u32 \<Rightarrow> u32 \<Rightarrow> int \<times> u32 \<times> u32" where
  "NIP_frame_convert std st0 sz0 w h =
     (if w = 1920 \<and> (h = 1072 \<or> h = 1080) then (1, std, TD_DRV_VIDEO_SIZE_1080P)
      else if w = 640 \<and> h = 480 then (1, std, TD_DRV_VIDEO_SIZE_480P)
      else if w = 1280 \<and> h = 720 then (1, std, TD_DRV_VIDEO_SIZE_720P)
      else if w = 352 \<and> h = 240 then (1, TD_DRV_VIDEO_STARDARD_NTSC, TD_DRV_VIDEO_SIZE_CIF)
      else if w = 352 \<and> h = 288 then (1, TD_DRV_VIDEO_STARDARD_PAL, TD_DRV_VIDEO_SIZE_CIF)
      else (- 1, st0, sz0))"

section \<open>Sending\<close>

text \<open>The first tests of all conversions: the destination is signed, the sizes compare unsigned.\<close>

definition bad_lengths :: "u32 \<Rightarrow> u32 \<Rightarrow> bool" where
  "bad_lengths dest_length source_length \<longleftrightarrow>
     sint dest_length < sint MAX_FRAME_BUF_SIZE \<or> dest_length < 8 \<or> source_length < 8"

text \<open>C division of an \<open>int\<close>, towards zero.\<close>

definition int_div :: "u32 \<Rightarrow> int \<Rightarrow> u32" where "int_div w n = word_of_int (sint w sdiv n)"
definition int_mod :: "u32 \<Rightarrow> int \<Rightarrow> u32" where "int_mod w n = word_of_int (sint w smod n)"

text \<open>A block with a command: \<open>st_data\<close> and \<open>cmd_st\<close> into the destination.\<close>

definition send_nvr_command :: "u32 \<Rightarrow> nvr_command \<Rightarrow> byte list \<Rightarrow> (int \<times> byte list) option" where
  "send_nvr_command cmd c d = do {
     d1 \<leftarrow> mem_write d 0 (enc_net_data cmd 84);
     d2 \<leftarrow> mem_write d1 8 (enc_nvr_command c);
     Some (92, d2)
   }"

text \<open>\<open>c0\<close> is the uninitialised \<open>cmd_st\<close>.\<close>

definition send_command :: "nvr_command \<Rightarrow> byte list \<Rightarrow> byte list \<Rightarrow> (int \<times> byte list) option" where
  "send_command c0 s d = do {
     gb \<leftarrow> mem_read s 8 20;
     let g = dec_net_command gb;
     if gc_command g = NET_CAM_ENC_SET then
       send_nvr_command NET_DVR_NET_COMMAND (c0\<lparr>nc_cmd := NET_CAM_ENC_SET, nc_value := (nc_value c0)
         [0 := gc_length g, 1 := int_mod (gc_page g) 100, 2 := gc_play_fileId g, 3 := int_div (gc_page g) 100]\<rparr>) d
     else if gc_command g = NET_CAM_SEND_DATA then
       send_nvr_command NET_DVR_NET_COMMAND (c0\<lparr>nc_cmd := NET_CAM_SEND_DATA, nc_value := (nc_value c0)[0 := gc_length g]\<rparr>) d
     else if gc_command g = NET_CAM_GET_ENGINE_INFO then do {
       cb \<leftarrow> mem_read s 28 84;
       send_nvr_command NET_DVR_NET_COMMAND (dec_nvr_command cb) d
     }
     else Some (0, d)
   }"

text \<open>\<open>h0\<close> is the uninitialised \<open>nvr_header\<close>: its \<open>Hz\<close> is never set, its picture size only for video.\<close>

definition nvr_header_of :: "nvr_frame_header \<Rightarrow> frame_header \<Rightarrow> nvr_frame_header" where
  "nvr_header_of h0 h =
     (let n = h0\<lparr>nh_channel := fh_index h, nh_iFrameType := fh_iFrameType h, nh_iLength := fh_iLength h,
        nh_frame_num := fh_frame_num h, nh_type := fh_type h, nh_ulTimeSec := fh_ulTimeSec h, nh_ulTimeUsec := fh_ulTimeUsec h\<rparr>
      in if fh_type h = VIDEO_FRAME
         then let (r, w, ht) = NIP_frame_convert_to_w_h (fh_standard h) (fh_size h) in n\<lparr>nh_pic_width := w, nh_pic_height := ht\<rparr>
         else n)"

definition send_frame :: "nvr_frame_header \<Rightarrow> byte list \<Rightarrow> byte list \<Rightarrow> (int \<times> byte list) option" where
  "send_frame h0 s d = do {
     hb \<leftarrow> mem_read s 8 36;
     let n = nvr_header_of h0 (dec_frame_header hb);
     d1 \<leftarrow> mem_write d 0 (enc_net_data NET_DVR_NET_FRAME (40 + nh_iLength n));
     d2 \<leftarrow> mem_write d1 8 (enc_nvr_frame_header n);
     p \<leftarrow> mem_read s 44 (unat (nh_iLength n));
     d3 \<leftarrow> mem_write d2 48 p;
     Some (sint (8 + (40 + nh_iLength n)), d3)
   }"

definition NIP_nvr_send_command_convert :: "nvr_command \<Rightarrow> nvr_frame_header \<Rightarrow> byte list option \<Rightarrow> u32 \<Rightarrow> byte list option \<Rightarrow> u32 \<Rightarrow>
    (int \<times> byte list option) option" where
  "NIP_nvr_send_command_convert c0 h0 dest dest_length source source_length =
     (if bad_lengths dest_length source_length then Some (- 1, dest)
      else case (dest, source) of
        (Some d, Some s) \<Rightarrow> do {
          st \<leftarrow> mem_read s 0 8;
          (n, d') \<leftarrow> (if word_at st 0 = NET_DVR_NET_COMMAND then send_command c0 s d
                     else if word_at st 0 = NET_DVR_NET_FRAME then send_frame h0 s d
                     else Some (0, d));
          Some (n, Some d')
        }
      | _ \<Rightarrow> Some (- 1, dest))"

text \<open>The camera's own version is the same text.\<close>

definition NIP_ipcam_send_command_convert :: "nvr_command \<Rightarrow> nvr_frame_header \<Rightarrow> byte list option \<Rightarrow> u32 \<Rightarrow> byte list option \<Rightarrow> u32 \<Rightarrow>
    (int \<times> byte list option) option" where
  "NIP_ipcam_send_command_convert c0 h0 dest dest_length source source_length =
     (if bad_lengths dest_length source_length then Some (- 1, dest)
      else case (dest, source) of
        (Some d, Some s) \<Rightarrow> do {
          st \<leftarrow> mem_read s 0 8;
          (n, d') \<leftarrow> (if word_at st 0 = NET_DVR_NET_COMMAND then send_command c0 s d
                     else if word_at st 0 = NET_DVR_NET_FRAME then send_frame h0 s d
                     else Some (0, d));
          Some (n, Some d')
        }
      | _ \<Rightarrow> Some (- 1, dest))"

section \<open>Receiving\<close>

text \<open>\<open>g0\<close> is the uninitialised \<open>g_cmd\<close>; bit rates from 20 K on are taken as bits.\<close>

definition enc_set_of :: "net_command \<Rightarrow> nvr_command \<Rightarrow> net_command" where
  "enc_set_of g0 c = g0\<lparr>gc_command := NET_CAM_ENC_SET, gc_length := nc_value c ! 0,
     gc_page := nc_value c ! 3 * 100 + int_mod (nc_value c ! 1) 100,
     gc_play_fileId := (if sint (nc_value c ! 2) < 20 * 1024 then nc_value c ! 2 else int_div (nc_value c ! 2) 1024)\<rparr>"

definition recv_command :: "net_command \<Rightarrow> byte list \<Rightarrow> byte list \<Rightarrow> (int \<times> byte list) option" where
  "recv_command g0 s d = do {
     cb \<leftarrow> mem_read s 0 84;
     let c = dec_nvr_command cb;
     if nc_cmd c = NET_CAM_GET_ENGINE_INFO then do {
       d' \<leftarrow> mem_write d 0 (enc_net_command (g0\<lparr>gc_command := NET_CAM_GET_ENGINE_INFO, gc_length := 0\<rparr>));
       Some (20, d')
     }
     else if nc_cmd c = NET_CAM_ENC_SET then do {
       d' \<leftarrow> mem_write d 0 (enc_net_command (enc_set_of g0 c));
       Some (20, d')
     }
     else if nc_cmd c = NET_CAM_SEND_DATA then do {
       d' \<leftarrow> mem_write d 0 (enc_net_command (g0\<lparr>gc_command := NET_CAM_SEND_DATA, gc_length := nc_value c ! 0\<rparr>));
       Some (20, d')
     }
     else Some (0, d)
   }"

text \<open>\<open>h0\<close> is the uninitialised \<open>old_header\<close>; \<open>None\<close> is a picture size that no standard has.\<close>

definition frame_header_of :: "u32 \<Rightarrow> frame_header \<Rightarrow> nvr_frame_header \<Rightarrow> frame_header option" where
  "frame_header_of std h0 n =
     (let h = h0\<lparr>fh_index := nh_channel n, fh_iFrameType := nh_iFrameType n, fh_iLength := nh_iLength n,
        fh_frame_num := nh_frame_num n, fh_type := nh_type n, fh_ulTimeSec := nh_ulTimeSec n, fh_ulTimeUsec := nh_ulTimeUsec n\<rparr>
      in if nh_type n = VIDEO_FRAME
         then let (r, st, sz) = NIP_frame_convert std (fh_standard h0) (fh_size h0) (nh_pic_width n) (nh_pic_height n)
              in if r < 0 then None else Some (h\<lparr>fh_standard := st, fh_size := sz\<rparr>)
         else Some h)"

definition recv_frame :: "u32 \<Rightarrow> frame_header \<Rightarrow> byte list \<Rightarrow> byte list \<Rightarrow> (int \<times> byte list) option" where
  "recv_frame std h0 s d = do {
     nb \<leftarrow> mem_read s 0 40;
     (case frame_header_of std h0 (dec_nvr_frame_header nb) of
        None \<Rightarrow> Some (- 1, d)
      | Some h \<Rightarrow> do {
          d1 \<leftarrow> mem_write d 0 (enc_frame_header h);
          p \<leftarrow> mem_read s 40 (unat (fh_iLength h));
          d2 \<leftarrow> mem_write d1 36 p;
          Some (sint (36 + fh_iLength h), d2)
        })
   }"

definition NIP_nvr_recv_command_convert :: "net_command \<Rightarrow> frame_header \<Rightarrow> u32 \<Rightarrow> byte list option \<Rightarrow> u32 \<Rightarrow> byte list option \<Rightarrow> u32 \<Rightarrow> u32 \<Rightarrow>
    (int \<times> byte list option) option" where
  "NIP_nvr_recv_command_convert g0 h0 std dest dest_length source source_length cmd =
     (if cmd = NET_DVR_NET_SELF_DATA then Some (0, dest)
      else if bad_lengths dest_length source_length then Some (- 1, dest)
      else case (dest, source) of
        (Some d, Some s) \<Rightarrow> do {
          (n, d') \<leftarrow> (if cmd = NET_DVR_NET_COMMAND then recv_command g0 s d
                     else if cmd = NET_DVR_NET_FRAME then recv_frame std h0 s d
                     else Some (0, d));
          Some (n, Some d')
        }
      | _ \<Rightarrow> Some (- 1, dest))"

definition NIP_ipcma_recv_command_convert :: "net_command \<Rightarrow> byte list option \<Rightarrow> u32 \<Rightarrow> byte list option \<Rightarrow> u32 \<Rightarrow> u32 \<Rightarrow>
    (int \<times> byte list option) option" where
  "NIP_ipcma_recv_command_convert g0 dest dest_length source source_length cmd =
     (if cmd = NET_DVR_NET_SELF_DATA then Some (0, dest)
      else if bad_lengths dest_length source_length then Some (- 1, dest)
      else case (dest, source) of
        (Some d, Some s) \<Rightarrow> do {
          (n, d') \<leftarrow> (if cmd = NET_DVR_NET_COMMAND then recv_command g0 s d else Some (0, d));
          Some (n, Some d')
        }
      | _ \<Rightarrow> Some (- 1, dest))"


section \<open>Round trips\<close>

lemma not_bad_lengths [simp]: "\<not> sl < 8 \<Longrightarrow> \<not> bad_lengths MAX_FRAME_BUF_SIZE sl"
  by (simp add: bad_lengths_def MAX_FRAME_BUF_SIZE_def)

lemma mem_write_0: "length b \<le> length d \<Longrightarrow> mem_write d 0 b = Some (b @ drop (length b) d)"
  by (simp add: mem_write_def)

lemma mem_write_after: "k = length a \<Longrightarrow> length b \<le> length d \<Longrightarrow> mem_write (a @ d) k b = Some (a @ b @ drop (length b) d)"
  by (simp add: mem_write_def)

lemma mem_read_head: "n = length a \<Longrightarrow> mem_read (a @ b) 0 n = Some a"
  by (simp add: mem_read_def)

lemma mem_read_mid: "k = length a \<Longrightarrow> n = length b \<Longrightarrow> mem_read (a @ b @ c) k n = Some b"
  by (simp add: mem_read_def)

lemmas mem_parts = mem_write_0 mem_write_after mem_read_head mem_read_mid

lemma smod_small: "\<bar>x :: int\<bar> < b \<Longrightarrow> x smod b = x"
  by (simp add: smod_int_alt_def sgn_mult_abs)

text \<open>Frame rate and GOP share a word; packing it again gives it back.\<close>

lemma page_repacked: "int_div p 100 * 100 + int_mod (int_mod p 100) 100 = p"
proof -
  let ?a = "sint p"
  have r: "- 100 < ?a smod 100" "?a smod 100 < 100"
    using smod_int_range [of 100 ?a] by (auto simp: smod_int_compares)
  then have "sint (word_of_int (?a smod 100) :: u32) = ?a smod 100"
    by (subst sint_sbintrunc') (simp add: signed_take_bit_int_eq_self)
  moreover have "(?a smod 100) smod 100 = ?a smod 100" using r by (simp add: smod_small abs_less_iff)
  ultimately have "int_div p 100 * 100 + int_mod (int_mod p 100) 100 = word_of_int (?a sdiv 100 * 100 + ?a smod 100)"
    by (simp add: int_div_def int_mod_def)
  then show ?thesis unfolding sdiv_mult_smod_eq by simp
qed

text \<open>The block that carries a frame, and what the other side makes of its header.\<close>

definition wire_frame :: "nvr_frame_header \<Rightarrow> frame_header \<Rightarrow> byte list \<Rightarrow> byte list" where
  "wire_frame h0 h p = enc_net_data NET_DVR_NET_FRAME (40 + fh_iLength h) @ enc_nvr_frame_header (nvr_header_of h0 h) @ p"

definition received_header :: "u32 \<Rightarrow> frame_header \<Rightarrow> frame_header \<Rightarrow> frame_header" where
  "received_header std h1 h =
     (if fh_type h \<noteq> VIDEO_FRAME then h\<lparr>fh_standard := fh_standard h1, fh_size := fh_size h1\<rparr>
      else if fh_size h \<in> {TD_DRV_VIDEO_SIZE_480P, TD_DRV_VIDEO_SIZE_720P, TD_DRV_VIDEO_SIZE_1080P} then h\<lparr>fh_standard := std\<rparr>
      else if fh_size h = TD_DRV_VIDEO_SIZE_CIF \<and> fh_standard h = TD_DRV_VIDEO_STARDARD_PAL then h
      else h\<lparr>fh_standard := TD_DRV_VIDEO_STARDARD_NTSC, fh_size := TD_DRV_VIDEO_SIZE_CIF\<rparr>)"

lemma nvr_header_fields:
  "nh_type (nvr_header_of h0 h) = fh_type h" "nh_iLength (nvr_header_of h0 h) = fh_iLength h"
  "nh_iFrameType (nvr_header_of h0 h) = fh_iFrameType h" "nh_ulTimeSec (nvr_header_of h0 h) = fh_ulTimeSec h"
  "nh_ulTimeUsec (nvr_header_of h0 h) = fh_ulTimeUsec h" "nh_channel (nvr_header_of h0 h) = fh_index h"
  "nh_frame_num (nvr_header_of h0 h) = fh_frame_num h"
  "fh_type h = VIDEO_FRAME \<Longrightarrow> nh_pic_width (nvr_header_of h0 h) = fst (snd (NIP_frame_convert_to_w_h (fh_standard h) (fh_size h)))"
  "fh_type h = VIDEO_FRAME \<Longrightarrow> nh_pic_height (nvr_header_of h0 h) = snd (snd (NIP_frame_convert_to_w_h (fh_standard h) (fh_size h)))"
  by (simp_all add: nvr_header_of_def Let_def split: prod.splits)

lemma header_received: "frame_header_of std h1 (nvr_header_of h0 h) = Some (received_header std h1 h)"
proof (cases "fh_type h = VIDEO_FRAME")
  case True
  have "NIP_frame_convert std (fh_standard h1) (fh_size h1) (nh_pic_width (nvr_header_of h0 h)) (nh_pic_height (nvr_header_of h0 h)) =
      (1, fh_standard (received_header std h1 h), fh_size (received_header std h1 h))"
    using True by (auto simp: nvr_header_fields NIP_frame_convert_to_w_h_def NIP_frame_convert_def received_header_def picture_codes)
  then show ?thesis
    using True by (cases h) (auto simp: frame_header_of_def nvr_header_fields received_header_def)
next
  case False
  then show ?thesis by (cases h) (simp add: frame_header_of_def nvr_header_fields received_header_def)
qed

lemma received_length [simp]: "fh_iLength (received_header std h1 h) = fh_iLength h"
  by (simp add: received_header_def)

lemma length_wire_frame: "length (wire_frame h0 h p) = 48 + length p"
  by (simp add: wire_frame_def)

lemma sint_sum: "unat n = k \<Longrightarrow> k + m < 2 ^ 31 \<Longrightarrow> sint (of_nat m + n :: u32) = int (m + k)"
  by (subst sint_small) (simp_all add: unat_word_ariths)

lemma send_frame_wire:
  assumes "unat (fh_iLength h) = length p" "48 + length p \<le> length d" "length d < 2 ^ 31"
  shows "send_frame h0 (enc_net_data c l @ enc_frame_header h @ p @ r) d =
    Some (int (48 + length p), wire_frame h0 h p @ drop (48 + length p) d)"
proof -
  have s: "sint (8 + (40 + fh_iLength h)) = int (48 + length p)"
    using sint_sum [OF assms(1), of 48] assms(2,3) by (simp add: add.assoc [symmetric])
  show ?thesis
    using assms s
    by (simp add: send_frame_def mem_parts codec_simps nvr_header_fields wire_frame_def Let_def mem_read_def mem_write_def add.commute)
qed

lemma recv_frame_wire:
  assumes "unat (fh_iLength h) = length p" "36 + length p \<le> length e" "length e < 2 ^ 31"
  shows "recv_frame std h1 (drop 8 (wire_frame h0 h p) @ r) e =
    Some (int (36 + length p), enc_frame_header (received_header std h1 h) @ p @ drop (36 + length p) e)"
proof -
  have s: "sint (36 + fh_iLength h) = int (36 + length p)"
    using sint_sum [OF assms(1), of 36] assms(2,3) by simp
  show ?thesis
    using assms s
    by (simp add: recv_frame_def wire_frame_def header_received codec_simps mem_read_def mem_write_def add.commute)
qed

text \<open>The block that carries a command, and what the other side makes of it.\<close>

definition received_command :: "net_command \<Rightarrow> net_command \<Rightarrow> net_command" where
  "received_command g0 g =
     (if gc_command g = NET_CAM_ENC_SET
      then g0\<lparr>gc_command := NET_CAM_ENC_SET, gc_length := gc_length g, gc_page := gc_page g,
        gc_play_fileId := (if sint (gc_play_fileId g) < 20 * 1024 then gc_play_fileId g else int_div (gc_play_fileId g) 1024)\<rparr>
      else g0\<lparr>gc_command := gc_command g, gc_length := gc_length g\<rparr>)"

definition wire_command :: "nvr_command \<Rightarrow> net_command \<Rightarrow> byte list" where
  "wire_command c0 g = enc_net_data NET_DVR_NET_COMMAND 84 @ enc_nvr_command
     (if gc_command g = NET_CAM_ENC_SET
      then c0\<lparr>nc_cmd := NET_CAM_ENC_SET, nc_value := (nc_value c0)
        [0 := gc_length g, 1 := int_mod (gc_page g) 100, 2 := gc_play_fileId g, 3 := int_div (gc_page g) 100]\<rparr>
      else c0\<lparr>nc_cmd := NET_CAM_SEND_DATA, nc_value := (nc_value c0)[0 := gc_length g]\<rparr>)"

definition converted_commands :: "u32 set" where
  "converted_commands = {NET_CAM_ENC_SET, NET_CAM_SEND_DATA}"

lemma length_wire_command: "length (nc_value c0) = 20 \<Longrightarrow> length (wire_command c0 g) = 92"
  by (simp add: wire_command_def)

lemma send_command_wire:
  assumes "gc_command g \<in> converted_commands" "length (nc_value c0) = 20" "92 \<le> length d"
  shows "send_command c0 (enc_net_data c l @ enc_net_command g @ r) d = Some (92, wire_command c0 g @ drop 92 d)"
  using assms
  by (auto simp: converted_commands_def send_command_def send_nvr_command_def wire_command_def mem_parts codec_simps Let_def nvr_codes)

lemma recv_command_wire:
  assumes "gc_command g \<in> converted_commands" "length (nc_value c0) = 20" "20 \<le> length e"
  shows "recv_command g0 (drop 8 (wire_command c0 g) @ r) e = Some (20, enc_net_command (received_command g0 g) @ drop 20 e)"
  using assms
  by (auto simp: converted_commands_def recv_command_def wire_command_def mem_parts codec_simps Let_def nvr_codes
      received_command_def enc_set_of_def page_repacked nth_list_update)

section \<open>Properties\<close>


definition demo_command :: net_command where
  "demo_command = \<lparr>gc_command = NET_CAM_ENC_SET, gc_length = 1, gc_page = 5025, gc_play_fileId = 2048, gc_searchDate = 9\<rparr>"

text \<open>What the uninitialised structures may hold.\<close>

definition stale_command :: nvr_command where "stale_command = \<lparr>nc_cmd = 7, nc_value = replicate 20 3\<rparr>"

definition stale_header :: nvr_frame_header where
  "stale_header = \<lparr>nh_type = 9, nh_iLength = 9, nh_iFrameType = 9, nh_ulTimeSec = 9, nh_ulTimeUsec = 9, nh_pic_width = 9,
     nh_pic_height = 9, nh_channel = 9, nh_frame_num = 9, nh_Hz = 9\<rparr>"




end
