(* ===== verification/Net_Sender.thy ===== *)
theory Net_Sender
  imports Nvr_Protocol
begin

text \<open>
  The send side of a network client, \<open>src/FileSystem/avicodelib/NetModule.c\<close>: commands are
  queued in a byte ring as an 8-byte \<open>NET_DATA_ST\<close> header and its payload
  (\<open>NM_net_send_data\<close>), fetched by the sender thread (\<open>NM_get_buf\<close>), converted and sent over the
  socket, or sent at once in direct mode. The ring interprets \<open>frame_queue\<close>.
\<close>

unbundle bit_operations_syntax

section \<open>The socket\<close>

text \<open>
  One direction of a connection: the bytes that were sent and not yet received, and what the kernel
  answers to the next calls of \<open>send\<close> and \<open>recv\<close>: a limit to the bytes it takes or gives,
  or an error; when no answer is left it takes or gives all.
\<close>

record stream =
  st_bytes :: "byte list"
  st_sends :: "int list"
  st_recvs :: "int list"

definition next_answer :: "nat \<Rightarrow> int list \<Rightarrow> int \<times> int list" where
  "next_answer n xs = (case xs of [] \<Rightarrow> (int n, []) | x # ys \<Rightarrow> (min x (int n), ys))"

definition sock_send :: "byte list \<Rightarrow> stream \<Rightarrow> int \<times> stream" where
  "sock_send data w =
     (let (a, as) = next_answer (length data) (st_sends w)
      in (a, w\<lparr>st_bytes := st_bytes w @ take (nat a) data, st_sends := as\<rparr>))"

lemma sock_send_bound: "sock_send data w = (r, w') \<Longrightarrow> r \<le> int (length data)"
  by (auto simp: sock_send_def next_answer_def split: list.splits)

text \<open>The loop of \<open>NM_socket_send_data\<close> over the bytes left.\<close>

function send_loop :: "byte list \<Rightarrow> stream \<Rightarrow> int \<times> stream" where
  "send_loop data w =
     (if data = [] then (1, w)
      else let (r, w1) = sock_send data w
           in if r \<le> 0 then (- 1, w1) else send_loop (drop (nat r) data) w1)"
  by pat_completeness auto

termination
  by (relation "measure (\<lambda>(data, w). length data)") auto

declare send_loop.simps [simp del]

definition NM_socket_send_data :: "int \<Rightarrow> byte list \<Rightarrow> stream \<Rightarrow> int \<times> stream" where
  "NM_socket_send_data idSock data w = (if idSock < 0 then (- 1, w) else send_loop data w)"

text \<open>Short sends lose nothing; a result of 1 means that everything was taken.\<close>

lemma send_loop_sends:
  assumes "send_loop data w = (r, w')"
  shows "\<exists>k. st_bytes w' = st_bytes w @ take k data \<and> (r = 1 \<longrightarrow> k = length data) \<and> (r = 1 \<or> r = - 1) \<and> st_recvs w' = st_recvs w"
  using assms
proof (induction data w arbitrary: r w' rule: send_loop.induct)
  case (1 data w)
  show ?case
  proof (cases "data = []")
    case True
    then show ?thesis using 1(2) by (simp add: send_loop.simps)
  next
    case False
    obtain n w1 where n: "sock_send data w = (n, w1)" by force
    then have w1: "st_bytes w1 = st_bytes w @ take (nat n) data" "st_recvs w1 = st_recvs w"
      by (auto simp: sock_send_def Let_def split: prod.splits)
    show ?thesis
    proof (cases "n \<le> 0")
      case True
      then show ?thesis using 1(2) False n w1 by (auto simp: send_loop.simps intro!: exI [of _ 0])
    next
      case pos: False
      then have "send_loop (drop (nat n) data) w1 = (r, w')" using 1(2) False n by (subst (asm) send_loop.simps) simp
      from 1(1) [OF False n [symmetric] refl pos this] obtain k where
        k: "st_bytes w' = st_bytes w1 @ take k (drop (nat n) data)" "r = 1 \<longrightarrow> k = length (drop (nat n) data)" "r = 1 \<or> r = - 1"
          "st_recvs w' = st_recvs w1" by blast
      have b: "nat n \<le> length data" using sock_send_bound [OF n] by simp
      show ?thesis
        using k w1 b by (intro exI [of _ "nat n + k"]) (auto simp: take_add)
    qed
  qed
qed

lemma send_loop_ok:
  assumes "list_all (\<lambda>a. 0 < a) (st_sends w)"
  shows "\<exists>as. send_loop data w = (1, w\<lparr>st_bytes := st_bytes w @ data, st_sends := as\<rparr>) \<and> list_all (\<lambda>a. 0 < a) as"
  using assms
proof (induction data w rule: send_loop.induct)
  case (1 data w)
  show ?case
  proof (cases "data = []")
    case True
    then show ?thesis using 1(2) by (auto simp: send_loop.simps intro!: exI [of _ "st_sends w"])
  next
    case False
    obtain n w1 where n: "sock_send data w = (n, w1)" by force
    have f: "n > 0" "w1 = w\<lparr>st_bytes := st_bytes w @ take (nat n) data, st_sends := st_sends w1\<rparr>" "list_all (\<lambda>a. 0 < a) (st_sends w1)"
      using n 1(2) False by (auto simp: sock_send_def next_answer_def split: list.splits)
    obtain as where "send_loop (drop (nat n) data) w1 = (1, w1\<lparr>st_bytes := st_bytes w1 @ drop (nat n) data, st_sends := as\<rparr>)"
        "list_all (\<lambda>a. 0 < a) as"
      using 1(1) [OF False n [symmetric] refl _ f(3)] f(1) by auto
    moreover have "st_bytes w1 @ drop (nat n) data = st_bytes w @ data" by (subst f(2)) simp
    moreover have "w1\<lparr>st_bytes := b, st_sends := as\<rparr> = w\<lparr>st_bytes := b, st_sends := as\<rparr>" for b
      by (subst f(2)) simp
    ultimately show ?thesis using False n f(1) by (subst send_loop.simps) auto
  qed
qed

section \<open>State and operations\<close>

text \<open>The members of \<open>NET_MODULE_ST\<close>, and the module's static counter.\<close>

record net_module =
  nm_client :: int
  nm_work_mode :: int
  cycle_send_buf :: cycle_buffer
  nm_send_th_flag :: int
  nm_recv_th_flag :: int
  nm_is_alread_work :: int
  nm_build_once :: int
  nm_bind_enc_num :: "int list"
  nm_send_enc_data :: int
  nm_video_mode :: int
  nm_video_image_size :: int
  nm_frame_num :: "int list"
  nm_send_cam :: int
  nm_recv_data_num :: int
  nm_mac :: "byte list"
  nm_stop_work_by_user :: int
  nm_enc_info :: "int list"
  nm_cam_chan_recv_num :: "int list"
  nm_have_d1_enginer :: int
  nm_ipcam_type :: int
  nm_thread_stop_num :: int
  nm_send_data_mode :: int
  nm_connect_port :: int
  nm_send_data_flag :: int
  nm_is_yb_nvr :: int
  nm_is_onvif_connect :: int
  nm_is_check_goke_recv_data_num :: int
  connect_but_no_recv_data_count :: int

definition NET_SEND_BUF_MODE :: int where "NET_SEND_BUF_MODE = 0"
definition NET_SEND_DIRECT_MODE :: int where "NET_SEND_DIRECT_MODE = 1"
definition NORMAL_IPCAM_PORT :: int where "NORMAL_IPCAM_PORT = 16000"

text \<open>What the uninitialised locals of a call hold.\<close>

record nm_locals =
  lo_st_data :: "byte list"
  lo_src_buf :: "byte list"
  lo_dest_buf :: "byte list"
  lo_ret :: int
  lo_cmd_st :: nvr_command
  lo_nvr_header :: nvr_frame_header
  lo_g_cmd :: net_command
  lo_old_header :: frame_header

definition bump_recv_data_num :: "net_module \<Rightarrow> net_module" where
  "bump_recv_data_num pst =
     (let n = nm_recv_data_num pst + 1 in pst\<lparr>nm_recv_data_num := if n > 1000 then 0 else n\<rparr>)"

text \<open>A failed send stops the client, unless the user already did.\<close>

definition send_failed :: "int \<Rightarrow> net_module \<Rightarrow> net_module" where
  "send_failed ret pst =
     (if ret < 0 \<and> nm_stop_work_by_user pst = 0 \<and> nm_is_alread_work pst = 1
      then pst\<lparr>nm_stop_work_by_user := 1\<rparr> else pst)"

text \<open>
  What both ways of sending do with a block: convert it for an NVR, and send the result, or the block
  itself when there is none. The result holds \<open>ret\<close>, the destination buffer and the stream.
\<close>

definition send_block :: "nm_locals \<Rightarrow> net_module \<Rightarrow> byte list \<Rightarrow> u32 \<Rightarrow> stream \<Rightarrow> (int \<times> byte list \<times> stream) option" where
  "send_block K pst buf data_length w = do {
     (convert_length, dest) \<leftarrow>
       (if nm_connect_port pst = NORMAL_IPCAM_PORT
        then NIP_nvr_send_command_convert (lo_cmd_st K) (lo_nvr_header K) (Some (lo_dest_buf K)) MAX_FRAME_BUF_SIZE (Some buf) data_length
        else Some (0, Some (lo_dest_buf K)));
     dest_buf \<leftarrow> dest;
     if convert_length > 0 then do {
       data \<leftarrow> mem_read dest_buf 0 (nat convert_length);
       let (ret, w') = NM_socket_send_data (nm_client pst) data w;
       Some (ret, dest_buf, w')
     }
     else if sint data_length > 0 then do {
       data \<leftarrow> mem_read buf 0 (nat (sint data_length));
       let (ret, w') = NM_socket_send_data (nm_client pst) data w;
       Some (ret, dest_buf, w')
     }
     else Some (lo_ret K, dest_buf, w)
   }"

definition NM_net_send_data_direct :: "nm_locals \<Rightarrow> net_module \<Rightarrow> byte list \<Rightarrow> u32 \<Rightarrow> u32 \<Rightarrow> stream \<Rightarrow>
    (int \<times> net_module \<times> stream) option" where
  "NM_net_send_data_direct K pst buf len cmd w =
     (if nm_recv_th_flag pst \<noteq> 1 then Some (- 1, pst, w)
      else if nm_stop_work_by_user pst \<noteq> 0 then Some (- 1, pst, w)
      else if len + 8 \<ge> MAX_FRAME_BUF_SIZE then Some (- 1, pst, w)
      else do {
        src1 \<leftarrow> mem_write (lo_src_buf K) 0 (enc_net_data cmd len);
        payload \<leftarrow> mem_read buf 0 (unat len);
        src2 \<leftarrow> mem_write src1 8 payload;
        (ret, dest, w1) \<leftarrow> send_block K pst src2 (8 + len) w;
        let pst1 = bump_recv_data_num (send_failed ret pst);
        Some (1, if cmd = NET_DVR_NET_FRAME \<and> ret > 0 \<and> nm_recv_data_num pst1 > 100
                 then pst1\<lparr>connect_but_no_recv_data_count := 0\<rparr> else pst1, w1)
      })"

definition NM_net_send_data :: "nm_locals \<Rightarrow> net_module \<Rightarrow> byte list \<Rightarrow> u32 \<Rightarrow> u32 \<Rightarrow> stream \<Rightarrow>
    (int \<times> net_module \<times> stream) option" where
  "NM_net_send_data K pst buf len cmd w =
     (if nm_client pst < 0 then Some (- 1, pst, w)
      else if nm_send_data_mode pst = NET_SEND_DIRECT_MODE
      then NM_net_send_data_direct K pst buf len cmd w
      else if nm_send_th_flag pst \<noteq> 1 then Some (- 1, pst, w)
      else if nm_recv_th_flag pst \<noteq> 1 then Some (- 1, pst, w)
      else if len + 8 \<ge> MAX_FRAME_BUF_SIZE then Some (- 1, pst, w)
      else do {
        (ret, b) \<leftarrow> put_record (cycle_send_buf pst) (enc_net_data cmd len) buf len;
        Some (ret, pst\<lparr>cycle_send_buf := b\<rparr>, w)
      })"

text \<open>\<open>st0\<close> is the uninitialised local \<open>NET_DATA_ST\<close>; the result is the total length or -1.\<close>

definition NM_get_buf :: "byte list \<Rightarrow> net_module \<Rightarrow> byte list \<Rightarrow> (int \<times> byte list \<times> net_module) option" where
  "NM_get_buf st0 pst buf = do {
     (ret, d1, b1) \<leftarrow> fifo_get (cycle_send_buf pst) 8;
     st \<leftarrow> mem_write st0 0 d1;
     if ret \<noteq> 8 then Some (- 1, buf, pst\<lparr>cycle_send_buf := fifo_reset b1\<rparr>)
     else do {
       let len = word_at st 1;
       buf1 \<leftarrow> mem_write buf 0 st;
       (ret2, d2, b2) \<leftarrow> fifo_get b1 len;
       buf2 \<leftarrow> mem_write buf1 8 d2;
       if ret2 \<noteq> len then Some (- 1, buf2, pst\<lparr>cycle_send_buf := fifo_reset b2\<rparr>)
       else Some (sint (8 + len), buf2, pst\<lparr>cycle_send_buf := b2\<rparr>)
     }
   }"

text \<open>
  One round of \<open>NM_net_send_thread\<close>: nothing while the ring is empty, else fetch, convert and send. The
  first component tells whether the thread goes on; \<open>buf\<close> and \<open>lo_dest_buf K\<close> are its arrays.
\<close>

definition NM_net_send_round :: "nm_locals \<Rightarrow> net_module \<Rightarrow> byte list \<Rightarrow> stream \<Rightarrow>
    (bool \<times> net_module \<times> byte list \<times> byte list \<times> stream) option" where
  "NM_net_send_round K pst buf w =
     (if fifo_enable_get (cycle_send_buf pst) = 0 then Some (True, pst, buf, lo_dest_buf K, w)
      else do {
        (data_length, buf1, pst1) \<leftarrow> NM_get_buf (lo_st_data K) pst buf;
        (ret, dest, w1) \<leftarrow> send_block (K\<lparr>lo_ret := 1\<rparr>) pst1 buf1 (word_of_int data_length) w;
        if ret < 0 then Some (False, pst1, buf1, dest, w1)
        else Some (True, bump_recv_data_num pst1, buf1, dest, w1)
      })"

section \<open>The sender ring as a queue of commands\<close>

type_synonym net_cmd = "u32 \<times> byte list"

definition cmd_ok :: "net_cmd \<Rightarrow> bool" where
  "cmd_ok x = (snd x \<noteq> [] \<and> length (snd x) + 8 < 512 * 1024)"

definition cmd_rec :: "net_cmd \<Rightarrow> byte list \<times> byte list" where
  "cmd_rec x = (enc_net_data (fst x) (of_nat (length (snd x))), snd x)"

definition cmds_bytes :: "net_cmd list \<Rightarrow> nat" where
  "cmds_bytes q = sum_list (map (\<lambda>x. 8 + length (snd x)) q)"

definition snd_rep :: "u32 \<Rightarrow> net_module \<Rightarrow> net_cmd list \<Rightarrow> bool" where
  "snd_rep S pst q \<longleftrightarrow> ring_holds 8 (cycle_send_buf pst) (map cmd_rec q) \<and>
     cb_size (cycle_send_buf pst) = S \<and> cb_save_num (cycle_send_buf pst) = 0 \<and> list_all cmd_ok q \<and>
     0 \<le> nm_client pst \<and> nm_send_data_mode pst \<noteq> NET_SEND_DIRECT_MODE \<and>
     nm_send_th_flag pst = 1 \<and> nm_recv_th_flag pst = 1"

definition snd_ok :: "u32 \<Rightarrow> net_cmd list \<Rightarrow> net_cmd \<Rightarrow> bool" where
  "snd_ok S q x = (cmd_ok x \<and> cmds_bytes q + 8 + length (snd x) \<le> unat S)"

definition snd_put :: "nm_locals \<Rightarrow> stream \<Rightarrow> net_module \<Rightarrow> net_cmd \<Rightarrow> net_module option" where
  "snd_put K w pst x = do {
     (r, pst', w') \<leftarrow> NM_net_send_data K pst (snd x) (of_nat (length (snd x))) (fst x) w;
     if r = 1 then Some pst' else None
   }"

text \<open>The sender thread's view of a fetched block: command word, length word, payload.\<close>

definition cmd_of_block :: "byte list \<Rightarrow> net_cmd" where
  "cmd_of_block buf = (word_at buf 0, take (unat (word_at buf 1)) (drop 8 buf))"

definition snd_get :: "net_module \<Rightarrow> (net_cmd \<times> net_module) option" where
  "snd_get pst = do {
     (r, buf, pst') \<leftarrow> NM_get_buf (replicate 8 0) pst frame_block;
     if r > 0 then Some (cmd_of_block buf, pst') else None
   }"

lemma length_cmds [simp]: "length (rec_bytes (map cmd_rec q)) = cmds_bytes q"
  by (induction q) (simp_all add: cmd_rec_def cmds_bytes_def)

lemma cmd_fit: "cmd_ok x \<Longrightarrow> rec_fit 8 (cmd_rec x)"
  by (simp add: cmd_ok_def rec_fit_def cmd_rec_def)

lemma cmd_len: "cmd_ok x \<Longrightarrow> unat (8 + of_nat (length (snd x)) :: u32) = 8 + length (snd x)"
  by (simp add: cmd_ok_def unat_word_ariths)

lemma cmd_guard: "cmd_ok x \<Longrightarrow> (8 + of_nat (length (snd x)) :: u32) < MAX_FRAME_BUF_SIZE"
  using cmd_len [of x] by (simp add: word_less_nat_alt MAX_FRAME_BUF_SIZE_def cmd_ok_def)

lemma snd_put_ok:
  assumes "snd_rep S pst q" and "snd_ok S q x"
  shows "\<exists>pst'. snd_put K w pst x = Some pst' \<and> snd_rep S pst' (q @ [x])"
proof -
  from assms have holds: "ring_holds 8 (cycle_send_buf pst) (map cmd_rec q)" and ok: "cmd_ok x"
    and S: "cb_size (cycle_send_buf pst) = S" by (simp_all add: snd_rep_def snd_ok_def)
  have room: "length (rec_bytes (map cmd_rec q)) + 8 + length (snd x) \<le> unat (cb_size (cycle_send_buf pst))"
    using assms(2) S by (simp add: snd_ok_def)
  have fit: "rec_fit 8 (enc_net_data (fst x) (of_nat (length (snd x))), snd x)"
    using cmd_fit [OF ok] by (simp add: cmd_rec_def)
  from put_record_ok [OF holds _ fit room, of "[]"] obtain b where
    "put_record (cycle_send_buf pst) (enc_net_data (fst x) (of_nat (length (snd x)))) (snd x)
       (of_nat (length (snd x))) = Some (1, b)" "ring_holds 8 b (map cmd_rec (q @ [x]))"
    "cb_size b = S" "cb_save_num b = 0"
    using S assms(1) by (auto simp: cmd_rec_def snd_rep_def)
  then show ?thesis
    using assms cmd_guard [OF ok]
    by (auto simp: snd_put_def NM_net_send_data_def snd_rep_def snd_ok_def add.commute not_le)
qed

text \<open>A fetched command lies at the start of the caller's block.\<close>

lemma NM_get_buf_ok:
  assumes "snd_rep S pst (x # q)" "length st0 = 8" "length buf = 512 * 1024"
  shows "\<exists>b. NM_get_buf st0 pst buf =
      Some (int (8 + length (snd x)), enc_net_data (fst x) (of_nat (length (snd x))) @ snd x @ drop (8 + length (snd x)) buf,
        pst\<lparr>cycle_send_buf := b\<rparr>) \<and> snd_rep S (pst\<lparr>cycle_send_buf := b\<rparr>) q"
proof -
  let ?b = "cycle_send_buf pst" and ?d = "snd x"
  let ?h = "enc_net_data (fst x) (of_nat (length (snd x)))"
  from assms have holds: "ring_holds 8 ?b ((?h, ?d) # map cmd_rec q)" and ok: "cmd_ok x"
    by (simp_all add: snd_rep_def cmd_rec_def)
  note D = ring_holdsD [OF holds]
  obtain b1 where b1: "fifo_get ?b (of_nat 8) = Some (of_nat 8, ?h, b1)" "cb_ok b1"
     "cb_contents b1 = ?d @ rec_bytes (map cmd_rec q)" "cb_item_num b1 = 2 * int (length (map cmd_rec q)) + 1"
     "cb_size b1 = cb_size ?b" "cb_save_num b1 = cb_save_num ?b" "cb_max_write_buf b1 = MAX_FRAME_BUF_SIZE"
    using get_header_item [OF holds] by auto
  have fit: "rec_fit 8 (?h, ?d)" using cmd_fit [OF ok] by (simp add: cmd_rec_def)
  obtain b2 where b2: "fifo_get b1 (of_nat (length ?d)) = Some (of_nat (length ?d), ?d, b2)"
     "ring_holds 8 b2 (map cmd_rec q)" "cb_size b2 = cb_size b1" "cb_save_num b2 = cb_save_num b1"
    using get_payload_item [OF b1(2,3,4,7) _ fit] D(4,6) b1(5) by auto
  have ld: "length ?d + 8 < 512 * 1024" using ok by (simp add: cmd_ok_def)
  have w: "mem_write st0 0 ?h = Some ?h" "mem_write buf 0 ?h = Some (?h @ drop 8 buf)"
    "mem_write (?h @ drop 8 buf) 8 ?d = Some (?h @ ?d @ drop (8 + length ?d) buf)"
    using assms(2,3) ld by (simp_all add: mem_write_def add.commute)
  have "unat (8 + of_nat (length ?d) :: u32) < 2 ^ 31" using cmd_len [OF ok] ld by simp
  from sint_small [OF this] have n: "sint (8 + of_nat (length ?d) :: u32) = int (8 + length ?d)" using cmd_len [OF ok] by simp
  have "NM_get_buf st0 pst buf = Some (int (8 + length ?d), ?h @ ?d @ drop (8 + length ?d) buf, pst\<lparr>cycle_send_buf := b2\<rparr>)"
    using b1(1) b2(1) w n by (simp add: NM_get_buf_def codec_simps Let_def)
  then show ?thesis
    using b2(2-4) b1(5,6) assms(1) by (auto simp: snd_rep_def)
qed

lemma snd_get_ok:
  assumes "snd_rep S pst (x # q)"
  shows "\<exists>pst'. snd_get pst = Some (x, pst') \<and> snd_rep S pst' q"
proof -
  have "length (snd x) + 8 < 512 * 1024" using assms by (simp add: snd_rep_def cmd_ok_def)
  then show ?thesis
    using NM_get_buf_ok [OF assms, of "replicate 8 0" frame_block]
    by (auto simp: snd_get_def cmd_of_block_def codec_simps length_frame_block)
qed

interpretation sender: frame_queue "snd_put K w" snd_get "snd_rep S" "snd_ok S" "\<lambda>q. q \<noteq> []"
  by unfold_locales (rule snd_put_ok, assumption+, rule snd_get_ok)

section \<open>Properties\<close>

lemma snd_rep_init:
  assumes "init_cycle_buffer f1 f2 S = Some b" and "S \<noteq> 0" and "unat S \<le> 2 ^ 20"
    and "cycle_send_buf pst = filo_set_save_num b 0" and "0 \<le> nm_client pst"
    and "nm_send_data_mode pst = 0" and "nm_send_th_flag pst = 1" and "nm_recv_th_flag pst = 1"
  shows "snd_rep S pst []"
proof -
  have "cb_contents (filo_set_save_num b 0) = cb_contents b"
    by (simp add: filo_set_save_num_def cb_contents_def fifo_len_def)
  then show ?thesis
    using init_cycle_buffer_ok [OF assms(1,2)] assms(3-)
    by (auto simp: snd_rep_def ring_holds_def NET_SEND_DIRECT_MODE_def)
      (auto simp: filo_set_save_num_def cb_ok_def)
qed

text \<open>The sender ring delivers commands in order. In buffered mode, with the client
  connected and both threads running, every interleaving of \<open>NM_net_send_data\<close> with
  non-empty commands that fit and \<open>NM_get_buf\<close> on a non-empty ring succeeds, and the blocks
  fetched hold the queued commands, their command words and payloads, in order.\<close>
theorem sender_commands_in_order:
  assumes "init_cycle_buffer f1 f2 S = Some b" and "S \<noteq> 0" and "unat S \<le> 2 ^ 20"
    and "cycle_send_buf pst = filo_set_save_num b 0" and "0 \<le> nm_client pst"
    and "nm_send_data_mode pst = 0" and "nm_send_th_flag pst = 1" and "nm_recv_th_flag pst = 1"
    and "run_queue (list_put (snd_ok S)) (list_get (\<lambda>q. q \<noteq> [])) cs [] = Some (out, q)"
  shows "\<exists>pst'. run_queue (snd_put K w) snd_get cs pst = Some (out, pst') \<and>
    snd_rep S pst' q \<and> puts cs = out @ q"
  using sender.simulates [OF snd_rep_init [OF assms(1-8)] assms(9)] list_queue_order [OF assms(9)]
  by simp


definition fresh_net_module :: net_module where
  "fresh_net_module = \<lparr>nm_client = 7, nm_work_mode = 0, cycle_send_buf = filo_set_save_num (fresh_ring (64 * 1024)) 0,
     nm_send_th_flag = 1, nm_recv_th_flag = 1, nm_is_alread_work = 1, nm_build_once = 1, nm_bind_enc_num = [- 1, - 1],
     nm_send_enc_data = 0, nm_video_mode = 0, nm_video_image_size = 0, nm_frame_num = [0, 0], nm_send_cam = 0,
     nm_recv_data_num = 0, nm_mac = replicate 30 0, nm_stop_work_by_user = 0, nm_enc_info = replicate 8 0,
     nm_cam_chan_recv_num = replicate 6 0, nm_have_d1_enginer = 0, nm_ipcam_type = 0, nm_thread_stop_num = 0,
     nm_send_data_mode = 0, nm_connect_port = 16000, nm_send_data_flag = 0, nm_is_yb_nvr = 0, nm_is_onvif_connect = 0,
     nm_is_check_goke_recv_data_num = 0, connect_but_no_recv_data_count = 0\<rparr>"

definition fresh_locals :: nm_locals where
  "fresh_locals = \<lparr>lo_st_data = replicate 8 0, lo_src_buf = frame_block, lo_dest_buf = frame_block, lo_ret = 0,
     lo_cmd_st = stale_command, lo_nvr_header = stale_header, lo_g_cmd = demo_command, lo_old_header = sample_header 0\<rparr>"

definition fresh_stream :: stream where "fresh_stream = \<lparr>st_bytes = [], st_sends = [], st_recvs = []\<rparr>"

lemma sender_commands_in_order_witness:
  "\<exists>pst'. run_queue (snd_put fresh_locals fresh_stream) snd_get
      [Put (1002, [1, 2, 3]), Put (5, [4]), Get, Get] fresh_net_module =
      Some ([(1002, [1, 2, 3]), (5, [4])], pst')"
proof -
  have "run_queue (list_put (snd_ok (64 * 1024))) (list_get (\<lambda>q. q \<noteq> []))
      [Put (1002, [1, 2, 3]), Put (5, [4]), Get, Get] [] =
      Some ([(1002, [1, 2, 3]), (5, [4])], [])"
    by (simp add: list_put_def list_get_def snd_ok_def cmd_ok_def cmds_bytes_def)
  from sender_commands_in_order [OF init_fresh _ _ _ _ _ _ _ this, of fresh_net_module fresh_locals fresh_stream]
  show ?thesis by (auto simp: fresh_net_module_def)
qed

text \<open>In direct mode a failed socket send is reported as success. \<open>NM_net_send_data\<close>
  returns 1 although the socket refused the command; the failure only sets
  \<open>stop_work_by_user\<close>, and every later send is then refused with -1.\<close>
theorem direct_send_failure_hidden:
  assumes "0 \<le> nm_client pst" and "nm_send_data_mode pst = NET_SEND_DIRECT_MODE"
    and "nm_recv_th_flag pst = 1" and "nm_stop_work_by_user pst = 0" and "nm_is_alread_work pst = 1"
    and "nm_connect_port pst \<noteq> NORMAL_IPCAM_PORT" and "unat len = length buf"
    and "length buf + 8 < 512 * 1024" and "length (lo_src_buf K) = 512 * 1024" and "st_sends w = a # as" and "a \<le> 0"
  shows "\<exists>pst' w'. NM_net_send_data K pst buf len cmd w = Some (1, pst', w') \<and> st_bytes w' = st_bytes w \<and>
    nm_stop_work_by_user pst' = 1 \<and>
    (\<forall>K2 buf2 len2 cmd2 w2. NM_net_send_data K2 pst' buf2 len2 cmd2 w2 = Some (- 1, pst', w2))"
proof -
  have u: "unat (8 + len) = 8 + length buf" using assms(7,8) by (simp add: unat_word_ariths)
  then have small: "8 + len < MAX_FRAME_BUF_SIZE"
    using assms(8) by (simp add: word_less_nat_alt MAX_FRAME_BUF_SIZE_def)
  have "unat (8 + len) < 2 ^ 31" using u assms(8) by simp
  from sint_small [OF this] u have n: "sint (8 + len) = int (8 + length buf)" by simp
  let ?b = "enc_net_data cmd len @ buf"
  let ?src = "?b @ drop (8 + length buf) (lo_src_buf K)"
  have src: "mem_write (lo_src_buf K) 0 (enc_net_data cmd len) = Some (enc_net_data cmd len @ drop 8 (lo_src_buf K))"
    "mem_write (enc_net_data cmd len @ drop 8 (lo_src_buf K)) 8 buf = Some ?src"
    using assms(8,9) by (simp_all add: mem_write_def add.commute)
  have "nat (int (8 + length buf)) = length ?b" by simp
  then have rd: "mem_read ?src 0 (nat (sint (8 + len))) = Some ?b"
    unfolding n using mem_read_head [of _ ?b "drop (8 + length buf) (lo_src_buf K)"] by simp
  define w1 where "w1 = w\<lparr>st_sends := as\<rparr>"
  have "enc_net_data cmd len \<noteq> []" using length_enc_net_data [of cmd len] by (metis list.size(3) zero_neq_numeral)
  then have s: "send_loop ?b w = (- 1, w1)"
    using assms(10,11) by (subst send_loop.simps) (auto simp: sock_send_def next_answer_def w1_def)
  have blk: "send_block K pst ?src (8 + len) w = Some (- 1, lo_dest_buf K, w1)"
    using assms(1,6) rd n s by (simp add: send_block_def NM_socket_send_data_def)
  define pst1 where "pst1 = bump_recv_data_num (send_failed (- 1) pst)"
  have "NM_net_send_data K pst buf len cmd w = Some (1, pst1, w1)"
    using assms(1-5,7) small src blk
    by (simp add: NM_net_send_data_def NM_net_send_data_direct_def pst1_def add.commute not_le mem_read_def Let_def)
  moreover have "nm_stop_work_by_user pst1 = 1" "nm_client pst1 = nm_client pst"
    "nm_send_data_mode pst1 = NET_SEND_DIRECT_MODE" "nm_recv_th_flag pst1 = 1"
    using assms by (auto simp: pst1_def bump_recv_data_num_def send_failed_def Let_def)
  ultimately show ?thesis
    using assms(1) by (simp add: NM_net_send_data_def NM_net_send_data_direct_def w1_def)
qed

lemma direct_send_failure_hidden_witness:
  "\<exists>pst' w'. NM_net_send_data fresh_locals (fresh_net_module\<lparr>nm_send_data_mode := 1, nm_connect_port := 80\<rparr>) [1, 2] 2 1002
      (fresh_stream\<lparr>st_sends := [- 1]\<rparr>) = Some (1, pst', w') \<and> nm_stop_work_by_user pst' = 1"
  using direct_send_failure_hidden [of "fresh_net_module\<lparr>nm_send_data_mode := 1, nm_connect_port := 80\<rparr>"
      2 "[1, 2]" fresh_locals "fresh_stream\<lparr>st_sends := [- 1]\<rparr>" "- 1" "[]" 1002]
  by (auto simp: fresh_net_module_def fresh_locals_def length_frame_block NET_SEND_DIRECT_MODE_def NORMAL_IPCAM_PORT_def)

end
