(* ===== verification/Net_Link.thy ===== *)
theory Net_Link
  imports Net_Sender
begin

text \<open>
  The receive side of a network client, \<open>src/FileSystem/avicodelib/NetModule.c\<close>: reading a command from the
  socket, converting it from the NVR protocol and handing it to the server's callback. With the sender it
  makes a connection, whose contract is the locale \<open>command_link\<close>.
\<close>

unbundle bit_operations_syntax

section \<open>Reading from the socket\<close>

definition sock_recv :: "nat \<Rightarrow> stream \<Rightarrow> int \<times> byte list \<times> stream" where
  "sock_recv n w =
     (let (a, as) = next_answer n (st_recvs w)
      in if a \<le> 0 then (a, [], w\<lparr>st_recvs := as\<rparr>)
         else let d = take (nat a) (st_bytes w)
              in (int (length d), d, w\<lparr>st_bytes := drop (nat a) (st_bytes w), st_recvs := as\<rparr>))"

lemma sock_recv_bound: "sock_recv n w = (r, d, w') \<Longrightarrow> r \<le> int n \<and> (0 < r \<longrightarrow> length d = nat r)"
  by (auto simp: sock_recv_def next_answer_def split: list.splits if_splits)

text \<open>The loop of \<open>NM_socket_read_data\<close>: \<open>n\<close> bytes are missing, the next goes to place \<open>off\<close> of the buffer.\<close>

function read_loop :: "nat \<Rightarrow> nat \<Rightarrow> byte list \<Rightarrow> stream \<Rightarrow> (int \<times> byte list \<times> stream) option" where
  "read_loop n off buf w =
     (if n = 0 then Some (1, buf, w)
      else let (r, d, w1) = sock_recv n w
           in if r \<le> 0 then Some (- 1, buf, w1)
              else case mem_write buf off d of None \<Rightarrow> None
                | Some buf1 \<Rightarrow> read_loop (n - nat r) (off + nat r) buf1 w1)"
  by pat_completeness auto

termination
  by (relation "measure (\<lambda>(n, off, buf, w). n)") auto

declare read_loop.simps [simp del]

definition NM_socket_read_data :: "int \<Rightarrow> byte list \<Rightarrow> int \<Rightarrow> stream \<Rightarrow> (int \<times> byte list \<times> stream) option" where
  "NM_socket_read_data idSock buf ulLen w = (if idSock < 0 then Some (- 1, buf, w) else read_loop (nat ulLen) 0 buf w)"

text \<open>What is asked for arrives, however the kernel splits it.\<close>

lemma read_loop_ok:
  assumes "list_all (\<lambda>a. 0 < a) (st_recvs w)" "st_bytes w = d @ rest" "length d = n" "off + n \<le> length buf"
  shows "\<exists>as. read_loop n off buf w = Some (1, take off buf @ d @ drop (off + n) buf, w\<lparr>st_bytes := rest, st_recvs := as\<rparr>) \<and>
    list_all (\<lambda>a. 0 < a) as"
  using assms
proof (induction n off buf w arbitrary: d rule: read_loop.induct)
  case (1 n off buf w)
  show ?case
  proof (cases "n = 0")
    case True
    then show ?thesis using 1(2-) by (cases w) (auto simp: read_loop.simps intro!: exI [of _ "st_recvs w"])
  next
    case False
    obtain a as where a: "next_answer n (st_recvs w) = (a, as)" by force
    have a': "0 < a" "nat a \<le> n" "list_all (\<lambda>a. 0 < a) as"
      using a 1(2) False by (auto simp: next_answer_def split: list.splits)
    let ?w1 = "w\<lparr>st_bytes := drop (nat a) d @ rest, st_recvs := as\<rparr>"
    have r: "sock_recv n w = (a, take (nat a) d, ?w1)"
      using a a' 1(3,4) by (simp add: sock_recv_def)
    let ?buf1 = "take off buf @ take (nat a) d @ drop (off + nat a) buf"
    have m: "mem_write buf off (take (nat a) d) = Some ?buf1" using a' 1(4,5) by (simp add: mem_write_def)
    obtain as' where "read_loop (n - nat a) (off + nat a) ?buf1 ?w1 =
        Some (1, take (off + nat a) ?buf1 @ drop (nat a) d @ drop (off + nat a + (n - nat a)) ?buf1,
          ?w1\<lparr>st_bytes := rest, st_recvs := as'\<rparr>)" "list_all (\<lambda>a. 0 < a) as'"
      using 1(1) [OF False r [symmetric] refl refl _ m, of "drop (nat a) d"] a' 1(4,5) by auto
    moreover have "take (off + nat a) ?buf1 @ drop (nat a) d @ drop (off + nat a + (n - nat a)) ?buf1 = take off buf @ d @ drop (off + n) buf"
    proof -
      let ?x = "take off buf @ take (nat a) d" and ?y = "drop (off + nat a) buf"
      have x: "length ?x = off + nat a" using a' 1(4,5) by simp
      have "take (off + nat a) (?x @ ?y) = ?x" using x by (simp only: take_append take_all) simp
      moreover have "drop (off + nat a + (n - nat a)) (?x @ ?y) = drop (off + n) buf"
        using x a' by (simp only: drop_append drop_all) (simp add: add.commute)
      ultimately show ?thesis by (simp only: append_assoc append_take_drop_id) (metis append_assoc append_take_drop_id)
    qed
    ultimately show ?thesis
      using False a' r m by (subst read_loop.simps) auto
  qed
qed

section \<open>Receiving a command\<close>

text \<open>The counters: commands received, and frames per channel, by the word at the place of \<open>index\<close> in \<open>dest_buf\<close>.\<close>

definition count_channel :: "byte list \<Rightarrow> net_module \<Rightarrow> net_module" where
  "count_channel dest pst =
     (let i = unat (word_at dest 7)
      in if i < 6
         then let n = nm_cam_chan_recv_num pst ! i + 1
              in pst\<lparr>nm_cam_chan_recv_num := (nm_cam_chan_recv_num pst)[i := if n > 1000 then 0 else n]\<rparr>
         else pst)"

text \<open>
  \<open>lo_src_buf K\<close> and \<open>lo_dest_buf K\<close> are the arrays of the function, \<open>std\<close> is \<open>get_cur_standard()\<close>. The third
  component is what the callback \<open>net_get_data\<close> is given, bytes and command.
\<close>

definition NM_command_recv_data :: "nm_locals \<Rightarrow> u32 \<Rightarrow> net_module \<Rightarrow> stream \<Rightarrow>
    (int \<times> net_module \<times> (byte list \<times> u32) option \<times> stream) option" where
  "NM_command_recv_data K std pst w = do {
     (ret, st_data, w1) \<leftarrow> NM_socket_read_data (nm_client pst) (lo_st_data K) 8 w;
     if ret < 0 then Some (- 1, pst, None, w1)
     else do {
       let data_length = sint (word_at st_data 1);
       if data_length > sint MAX_FRAME_BUF_SIZE \<or> data_length \<le> 0 then Some (- 1, pst, None, w1)
       else do {
         (ret2, buf, w2) \<leftarrow> NM_socket_read_data (nm_client pst) (lo_src_buf K) data_length w1;
         if ret2 < 0 then Some (- 1, pst, None, w2)
         else do {
           (convert_length, dest) \<leftarrow>
             (if nm_connect_port pst = NORMAL_IPCAM_PORT
              then NIP_nvr_recv_command_convert (lo_g_cmd K) (lo_old_header K) std (Some (lo_dest_buf K)) MAX_FRAME_BUF_SIZE
                     (Some buf) (word_at st_data 1) (word_at st_data 0)
              else Some (0, Some (lo_dest_buf K)));
           dest_buf \<leftarrow> dest;
           if convert_length < 0 then Some (1, pst, None, w2)
           else do {
             let pst1 = bump_recv_data_num pst;
             let pst2 = pst1\<lparr>nm_is_check_goke_recv_data_num := nm_is_check_goke_recv_data_num pst1 + 1\<rparr>;
             data \<leftarrow> (if convert_length > 0 then mem_read dest_buf 0 (nat convert_length) else mem_read buf 0 (nat data_length));
             Some (1, count_channel dest_buf pst2, Some (data, word_at st_data 0), w2)
           }
         }
       }
     }
   }"

text \<open>
  The version on the heap: both buffers are allocated 1000 bytes longer than the command, yet the
  conversion is told that \<open>dest_buf\<close> has the full size. \<open>alloc1\<close> and \<open>alloc2\<close> are the answers of \<open>malloc\<close>.
\<close>

definition NM_command_recv_data2 :: "nm_locals \<Rightarrow> u32 \<Rightarrow> (nat \<Rightarrow> byte list option) \<Rightarrow> (nat \<Rightarrow> byte list option) \<Rightarrow> net_module \<Rightarrow> stream \<Rightarrow>
    (int \<times> net_module \<times> (byte list \<times> u32) option \<times> stream) option" where
  "NM_command_recv_data2 K std alloc1 alloc2 pst w = do {
     (ret, st_data, w1) \<leftarrow> NM_socket_read_data (nm_client pst) (lo_st_data K) 8 w;
     if ret < 0 then Some (- 1, pst, None, w1)
     else do {
       let data_length = sint (word_at st_data 1);
       if data_length > sint MAX_FRAME_BUF_SIZE \<or> data_length \<le> 0 then Some (- 1, pst, None, w1)
       else case alloc1 (nat data_length + 1000) of
         None \<Rightarrow> Some (- 1, pst, None, w1)
       | Some buf0 \<Rightarrow> do {
         (ret2, buf, w2) \<leftarrow> NM_socket_read_data (nm_client pst) buf0 data_length w1;
         if ret2 < 0 then Some (- 1, pst, None, w2)
         else case alloc2 (nat data_length + 1000) of
           None \<Rightarrow> Some (- 1, pst, None, w2)
         | Some dest0 \<Rightarrow> do {
           (convert_length, dest) \<leftarrow>
             (if nm_connect_port pst = NORMAL_IPCAM_PORT
              then NIP_nvr_recv_command_convert (lo_g_cmd K) (lo_old_header K) std (Some dest0) MAX_FRAME_BUF_SIZE
                     (Some buf) (word_at st_data 1) (word_at st_data 0)
              else Some (0, Some dest0));
           dest_buf \<leftarrow> dest;
           if convert_length < 0 then Some (1, pst, None, w2)
           else do {
             data \<leftarrow> (if convert_length > 0 then mem_read dest_buf 0 (nat convert_length) else mem_read buf 0 (nat data_length));
             Some (1, count_channel dest_buf (bump_recv_data_num pst), Some (data, word_at st_data 0), w2)
           }
         }
       }
     }
   }"

section \<open>The contract of a connection\<close>

text \<open>
  A connection is a queue of commands behind which the sender thread puts them on the wire and the
  receiver takes them off it. Locals \<open>k\<close> of the steps are arbitrary as far as they are \<open>sound\<close>;
  \<open>arrives x y\<close> tells what the receiver may make of a command.
\<close>

datatype ('x, 'k) link_op = Command 'x | Transmit 'k | Receive 'k

primrec run_link :: "('s \<Rightarrow> 'x \<Rightarrow> 's option) \<Rightarrow> ('k \<Rightarrow> 's \<Rightarrow> 'w \<Rightarrow> ('s \<times> 'w) option) \<Rightarrow> ('k \<Rightarrow> 'w \<Rightarrow> ('y \<times> 'w) option) \<Rightarrow>
    ('x, 'k) link_op list \<Rightarrow> 's \<Rightarrow> 'w \<Rightarrow> ('y list \<times> 's \<times> 'w) option" where
  "run_link put transmit receive [] s w = Some ([], s, w)"
| "run_link put transmit receive (c # cs) s w =
     (case c of
        Command x \<Rightarrow> put s x \<bind> (\<lambda>s'. run_link put transmit receive cs s' w)
      | Transmit k \<Rightarrow> transmit k s w \<bind> (\<lambda>(s', w'). run_link put transmit receive cs s' w')
      | Receive k \<Rightarrow> receive k w \<bind> (\<lambda>(y, w'). map_option (apfst ((#) y)) (run_link put transmit receive cs s w')))"

text \<open>The same over two lists, the commands queued and the commands on the wire.\<close>

primrec run_lists :: "('x list \<Rightarrow> 'x \<Rightarrow> bool) \<Rightarrow> ('k \<Rightarrow> bool) \<Rightarrow> ('x, 'k) link_op list \<Rightarrow> 'x list \<Rightarrow> 'x list \<Rightarrow>
    ('x list \<times> 'x list \<times> 'x list) option" where
  "run_lists ok sound [] q p = Some ([], q, p)"
| "run_lists ok sound (c # cs) q p =
     (case c of
        Command x \<Rightarrow> if ok q x then run_lists ok sound cs (q @ [x]) p else None
      | Transmit k \<Rightarrow> (case q of [] \<Rightarrow> None | x # q' \<Rightarrow> if sound k then run_lists ok sound cs q' (p @ [x]) else None)
      | Receive k \<Rightarrow> (case p of [] \<Rightarrow> None
          | x # p' \<Rightarrow> if sound k then map_option (apfst ((#) x)) (run_lists ok sound cs q p') else None))"

primrec commands :: "('x, 'k) link_op list \<Rightarrow> 'x list" where
  "commands [] = []"
| "commands (c # cs) = (case c of Command x \<Rightarrow> x # commands cs | _ \<Rightarrow> commands cs)"

text \<open>Nothing is lost, repeated or overtaken between the two lists.\<close>

lemma run_lists_order: "run_lists ok sound cs q p = Some (out, q', p') \<Longrightarrow> p @ q @ commands cs = out @ p' @ q'"
  by (induction cs arbitrary: q p out) (auto split: link_op.splits if_splits list.splits, fastforce+)

locale command_link = frame_queue put get rep ok ready
  for put :: "'s \<Rightarrow> 'x \<Rightarrow> 's option" and get :: "'s \<Rightarrow> ('x \<times> 's) option" and rep :: "'s \<Rightarrow> 'x list \<Rightarrow> bool"
    and ok :: "'x list \<Rightarrow> 'x \<Rightarrow> bool" and ready :: "'x list \<Rightarrow> bool" +
  fixes transmit :: "'k \<Rightarrow> 's \<Rightarrow> 'w \<Rightarrow> ('s \<times> 'w) option"
    and receive :: "'k \<Rightarrow> 'w \<Rightarrow> ('y \<times> 'w) option"
    and wire :: "'w \<Rightarrow> 'x list \<Rightarrow> bool"
    and sound :: "'k \<Rightarrow> bool"
    and arrives :: "'x \<Rightarrow> 'y \<Rightarrow> bool"
  assumes transmit_ok: "sound k \<Longrightarrow> rep s (x # q) \<Longrightarrow> wire w p \<Longrightarrow>
      \<exists>s' w'. transmit k s w = Some (s', w') \<and> rep s' q \<and> wire w' (p @ [x])"
    and receive_ok: "sound k \<Longrightarrow> wire w (x # p) \<Longrightarrow> \<exists>y w'. receive k w = Some (y, w') \<and> arrives x y \<and> wire w' p"
begin

text \<open>Every run that the lists accept, the connection accepts, and what arrives is what the lists give.\<close>

lemma delivers:
  assumes "rep s q" "wire w p" "run_lists ok sound cs q p = Some (out, q', p')"
  shows "\<exists>ys s' w'. run_link put transmit receive cs s w = Some (ys, s', w') \<and> list_all2 arrives out ys \<and> rep s' q' \<and> wire w' p'"
  using assms
proof (induction cs arbitrary: s w q p out)
  case Nil
  then show ?case by simp
next
  case (Cons c cs)
  show ?case
  proof (cases c)
    case (Command x)
    then have x: "ok q x" "run_lists ok sound cs (q @ [x]) p = Some (out, q', p')" using Cons.prems(3) by (auto split: if_splits)
    obtain s1 where "put s x = Some s1" "rep s1 (q @ [x])" using put_ok [OF Cons.prems(1) x(1)] by blast
    then show ?thesis using Cons.IH [OF _ Cons.prems(2) x(2)] Command by auto
  next
    case (Transmit k)
    then obtain x q1 where q: "q = x # q1" "sound k" "run_lists ok sound cs q1 (p @ [x]) = Some (out, q', p')"
      using Cons.prems(3) by (auto split: list.splits if_splits)
    obtain s1 w1 where "transmit k s w = Some (s1, w1)" "rep s1 q1" "wire w1 (p @ [x])"
      using transmit_ok [OF q(2) _ Cons.prems(2)] Cons.prems(1) q(1) by blast
    then show ?thesis using Cons.IH [OF _ _ q(3)] Transmit by auto
  next
    case (Receive k)
    then obtain x p1 out1 where p: "p = x # p1" "sound k" "run_lists ok sound cs q p1 = Some (out1, q', p')" "out = x # out1"
      using Cons.prems(3) by (auto split: list.splits if_splits)
    obtain y w1 where y: "receive k w = Some (y, w1)" "arrives x y" "wire w1 p1"
      using receive_ok [OF p(2)] Cons.prems(2) p(1) by blast
    obtain ys s' w' where "run_link put transmit receive cs s w1 = Some (ys, s', w')" "list_all2 arrives out1 ys" "rep s' q'" "wire w' p'"
      using Cons.IH [OF Cons.prems(1) y(3) p(3)] by blast
    then show ?thesis using y p(4) Receive by auto
  qed
qed

lemma delivers_in_order:
  assumes "rep s []" "wire w []" "run_lists ok sound cs [] [] = Some (out, q', p')"
  shows "\<exists>ys s' w'. run_link put transmit receive cs s w = Some (ys, s', w') \<and> list_all2 arrives out ys \<and> rep s' q' \<and> wire w' p' \<and>
    commands cs = out @ p' @ q'"
  using delivers [OF assms] run_lists_order [OF assms(3)] by simp

end

end
