(* ===== verification/Net_Connection.thy ===== *)
theory Net_Connection
  imports Net_Link
begin

text \<open>
  A connection between two network clients of \<open>src/FileSystem/avicodelib/NetModule.c\<close>: commands go from the sender's
  ring through its thread, the conversion of \<open>nvr_ipcam_protocol.c\<close> and the socket to the receiver's callback. The
  functions of the code interpret \<open>command_link\<close>.
\<close>

section \<open>What a connection carries\<close>

lemma words_of_bytes: "length bs = 4 * n \<Longrightarrow> words_bytes (map (word_at bs) [0..<n]) = bs"
proof (induction n arbitrary: bs)
  case 0
  then show ?case by (simp add: words_bytes_def)
next
  case (Suc n)
  have "map (word_at bs) [0..<Suc n] = word_at bs 0 # map (word_at (drop 4 bs)) [0..<n]"
    by (simp add: map_upt_Suc word_at_def add.commute del: upt_Suc)
  moreover have "u32_bytes (word_at bs 0) = take 4 bs" using Suc.prems by (simp add: word_at_def codec_simps)
  ultimately show ?case using Suc.IH [of "drop 4 bs"] Suc.prems by (simp add: words_bytes_Cons)
qed

lemma enc_dec_net_command: "length bs = 20 \<Longrightarrow> enc_net_command (dec_net_command bs) = bs"
  using words_of_bytes [of bs 5] by (simp add: enc_net_command_def dec_net_command_def upt_rec eval_nat_numeral)

lemma enc_dec_frame_header: "length bs = 36 \<Longrightarrow> enc_frame_header (dec_frame_header bs) = bs"
  using words_of_bytes [of bs 9] by (simp add: enc_frame_header_words dec_frame_header_def upt_rec eval_nat_numeral)

lemma word_at_take: "4 * i + 4 \<le> n \<Longrightarrow> word_at (take n bs) i = word_at bs i"
  by (simp add: word_at_def drop_take min_def)

text \<open>
  The commands that get through. On the port of the NVRs a command shorter than eight bytes is dropped by the
  receiver, a request for engine information changes its form, and a frame must hold what its header says.
\<close>

definition frame_len :: "byte list \<Rightarrow> nat" where "frame_len p = unat (word_at p 1)"

definition sendable :: "int \<Rightarrow> net_cmd \<Rightarrow> bool" where
  "sendable port x \<longleftrightarrow> port \<noteq> NORMAL_IPCAM_PORT \<or>
     (if fst x = NET_DVR_NET_COMMAND then 20 \<le> length (snd x) \<and> word_at (snd x) 0 \<noteq> NET_CAM_GET_ENGINE_INFO
      else if fst x = NET_DVR_NET_FRAME then 36 + frame_len (snd x) \<le> length (snd x) \<and> 48 + frame_len (snd x) \<le> 512 * 1024
      else fst x = NET_DVR_NET_SELF_DATA \<or> 8 \<le> length (snd x))"

definition converted :: "int \<Rightarrow> net_cmd \<Rightarrow> bool" where
  "converted port x \<longleftrightarrow> port = NORMAL_IPCAM_PORT \<and> fst x = NET_DVR_NET_COMMAND \<and> word_at (snd x) 0 \<in> converted_commands"

definition reframed :: "int \<Rightarrow> net_cmd \<Rightarrow> bool" where
  "reframed port x \<longleftrightarrow> port = NORMAL_IPCAM_PORT \<and> fst x = NET_DVR_NET_FRAME"

definition command_of :: "byte list \<Rightarrow> net_command" where "command_of p = dec_net_command (take 20 p)"
definition header_of :: "byte list \<Rightarrow> frame_header" where "header_of p = dec_frame_header (take 36 p)"
definition payload_of :: "byte list \<Rightarrow> byte list" where "payload_of p = take (frame_len p) (drop 36 p)"

text \<open>The block on the wire, for some uninitialised locals of the sender.\<close>

definition carries :: "int \<Rightarrow> net_cmd \<Rightarrow> byte list \<Rightarrow> bool" where
  "carries port x b \<longleftrightarrow>
     (if converted port x then \<exists>c0. length (nc_value c0) = 20 \<and> b = wire_command c0 (command_of (snd x))
      else if reframed port x then \<exists>h0. b = wire_frame h0 (header_of (snd x)) (payload_of (snd x))
      else b = enc_net_data (fst x) (of_nat (length (snd x))) @ snd x)"

text \<open>What the callback is given, for some uninitialised locals of the receiver.\<close>

definition arrives :: "int \<Rightarrow> net_cmd \<Rightarrow> byte list \<times> u32 \<Rightarrow> bool" where
  "arrives port x y \<longleftrightarrow> snd y = fst x \<and>
     (if converted port x then \<exists>g0. fst y = enc_net_command (received_command g0 (command_of (snd x)))
      else if reframed port x then \<exists>std h1. fst y = enc_frame_header (received_header std h1 (header_of (snd x))) @ payload_of (snd x)
      else fst y = snd x)"

lemma command_parts:
  "20 \<le> length p \<Longrightarrow> p = enc_net_command (command_of p) @ drop 20 p" "gc_command (command_of p) = word_at p 0"
proof -
  show "20 \<le> length p \<Longrightarrow> p = enc_net_command (command_of p) @ drop 20 p" by (simp add: command_of_def enc_dec_net_command)
  show "gc_command (command_of p) = word_at p 0" by (simp add: command_of_def dec_net_command_def word_at_take)
qed

lemma frame_parts:
  assumes "36 + frame_len p \<le> length p"
  shows "p = enc_frame_header (header_of p) @ payload_of p @ drop (36 + frame_len p) p"
    "unat (fh_iLength (header_of p)) = length (payload_of p)" "length (payload_of p) = frame_len p"
proof -
  have "take (frame_len p) (drop 36 p) @ drop (36 + frame_len p) p = drop 36 p"
    by (metis append_take_drop_id drop_drop add.commute)
  then show "p = enc_frame_header (header_of p) @ payload_of p @ drop (36 + frame_len p) p"
    using assms by (simp add: header_of_def payload_of_def enc_dec_frame_header)
  show "length (payload_of p) = frame_len p" using assms by (simp add: payload_of_def)
  then show "unat (fh_iLength (header_of p)) = length (payload_of p)"
    by (simp add: header_of_def dec_frame_header_def word_at_take frame_len_def)
qed

section \<open>The sender's round\<close>

definition locals_sound :: "nm_locals \<Rightarrow> bool" where
  "locals_sound K \<longleftrightarrow> length (lo_st_data K) = 8 \<and> length (lo_src_buf K) = 512 * 1024 \<and> length (lo_dest_buf K) = 512 * 1024 \<and>
     length (nc_value (lo_cmd_st K)) = 20"

text \<open>A whole block goes out, or the socket is at fault.\<close>

lemma NM_socket_send_all:
  assumes "0 \<le> client" "list_all (\<lambda>a. 0 < a) (st_sends w)"
  shows "\<exists>as. NM_socket_send_data client data w = (1, w\<lparr>st_bytes := st_bytes w @ data, st_sends := as\<rparr>) \<and> list_all (\<lambda>a. 0 < a) as"
  using send_loop_ok [OF assms(2)] assms(1) by (simp add: NM_socket_send_data_def)

lemma block_length:
  assumes "length p + 8 < 512 * 1024"
  shows "sint (of_nat (8 + length p) :: u32) = int (8 + length p)" "\<not> (of_nat (8 + length p) :: u32) < 8"
proof -
  have u: "unat (of_nat (8 + length p) :: u32) = 8 + length p" using assms by (intro unat_of_nat_u32) simp
  then show "sint (of_nat (8 + length p) :: u32) = int (8 + length p)" using assms by (subst sint_small) simp_all
  show "\<not> (of_nat (8 + length p) :: u32) < 8" using u by (simp add: word_less_nat_alt)
qed

lemma send_block_raw:
  assumes "0 \<le> nm_client pst" "list_all (\<lambda>a. 0 < a) (st_sends w)" "length p + 8 < 512 * 1024"
    and "nm_connect_port pst = NORMAL_IPCAM_PORT \<longrightarrow>
      NIP_nvr_send_command_convert (lo_cmd_st K) (lo_nvr_header K) (Some (lo_dest_buf K)) MAX_FRAME_BUF_SIZE
        (Some (enc_net_data c l @ p @ r)) (of_nat (8 + length p)) = Some (0, Some (lo_dest_buf K))"
  shows "\<exists>as. send_block K pst (enc_net_data c l @ p @ r) (of_nat (8 + length p)) w =
      Some (1, lo_dest_buf K, w\<lparr>st_bytes := st_bytes w @ enc_net_data c l @ p, st_sends := as\<rparr>) \<and> list_all (\<lambda>a. 0 < a) as"
proof -
  have "mem_read (enc_net_data c l @ p @ r) 0 (8 + length p) = Some (enc_net_data c l @ p)"
    using mem_read_head [of _ "enc_net_data c l @ p" r] by simp
  moreover have "nat (sint (of_nat (8 + length p) :: u32)) = 8 + length p" "sint (of_nat (8 + length p) :: u32) > 0"
    using block_length [OF assms(3)] by (simp_all only: nat_int)
  ultimately show ?thesis
    using NM_socket_send_all [OF assms(1,2), of "enc_net_data c l @ p"] assms(4)
    by (auto simp: send_block_def simp del: of_nat_add)
qed

lemma send_block_converted:
  assumes "0 \<le> nm_client pst" "list_all (\<lambda>a. 0 < a) (st_sends w)" "nm_connect_port pst = NORMAL_IPCAM_PORT" "b \<noteq> []"
    and "NIP_nvr_send_command_convert (lo_cmd_st K) (lo_nvr_header K) (Some (lo_dest_buf K)) MAX_FRAME_BUF_SIZE (Some s) n =
      Some (int (length b), Some (b @ d))"
  shows "\<exists>as. send_block K pst s n w = Some (1, b @ d, w\<lparr>st_bytes := st_bytes w @ b, st_sends := as\<rparr>) \<and> list_all (\<lambda>a. 0 < a) as"
  using NM_socket_send_all [OF assms(1,2), of b] assms(3-5) mem_read_head [of _ b d]
  by (auto simp: send_block_def)

lemma send_block_ok:
  assumes "0 \<le> nm_client pst" "list_all (\<lambda>a. 0 < a) (st_sends w)" "nm_connect_port pst = port" "locals_sound K"
    and x: "sendable port x" "cmd_ok x" and r: "8 + length (snd x) + length r = 512 * 1024"
  shows "\<exists>b d as. send_block K pst (enc_net_data (fst x) (of_nat (length (snd x))) @ snd x @ r) (of_nat (8 + length (snd x))) w =
      Some (1, d, w\<lparr>st_bytes := st_bytes w @ b, st_sends := as\<rparr>) \<and> list_all (\<lambda>a. 0 < a) as \<and> carries port x b"
proof -
  let ?n = "of_nat (8 + length (snd x)) :: u32" and ?h = "enc_net_data (fst x) (of_nat (length (snd x)))"
  have l: "length (snd x) + 8 < 512 * 1024" using x(2) by (simp add: cmd_ok_def)
  note n = block_length(2) [OF l]
  have K: "length (lo_dest_buf K) = 512 * 1024" "length (nc_value (lo_cmd_st K)) = 20" using assms(4) by (simp_all add: locals_sound_def)
  have conv: "NIP_nvr_send_command_convert c0 h0 (Some dst) MAX_FRAME_BUF_SIZE (Some (?h @ snd x @ r)) ?n =
      do { (k, d') \<leftarrow> (if fst x = NET_DVR_NET_COMMAND then send_command c0 (?h @ snd x @ r) dst
                      else if fst x = NET_DVR_NET_FRAME then send_frame h0 (?h @ snd x @ r) dst else Some (0, dst)); Some (k, Some d') }" for c0 h0 dst
    using n by (simp add: NIP_nvr_send_command_convert_def mem_parts codec_simps)
  consider "converted port x" | "reframed port x" "\<not> converted port x" | "\<not> converted port x" "\<not> reframed port x" by blast
  then show ?thesis
  proof cases
    case 1
    let ?g = "command_of (snd x)"
    have p: "nm_connect_port pst = NORMAL_IPCAM_PORT" "fst x = NET_DVR_NET_COMMAND" "gc_command ?g \<in> converted_commands" "20 \<le> length (snd x)"
      using 1 x(1) assms(3) command_parts(2) [of "snd x"] by (auto simp: converted_def sendable_def)
    have s: "?h @ snd x @ r = ?h @ enc_net_command ?g @ drop 20 (snd x) @ r"
      using command_parts(1) [OF p(4)] by (metis append_assoc)
    have "send_command (lo_cmd_st K) (?h @ snd x @ r) (lo_dest_buf K) = Some (92, wire_command (lo_cmd_st K) ?g @ drop 92 (lo_dest_buf K))"
      unfolding s using send_command_wire [OF p(3) K(2)] K(1) by simp
    then have "NIP_nvr_send_command_convert (lo_cmd_st K) (lo_nvr_header K) (Some (lo_dest_buf K)) MAX_FRAME_BUF_SIZE (Some (?h @ snd x @ r)) ?n =
        Some (int (length (wire_command (lo_cmd_st K) ?g)), Some (wire_command (lo_cmd_st K) ?g @ drop 92 (lo_dest_buf K)))"
      using p(2) length_wire_command [OF K(2)] unfolding conv by simp
    moreover have "wire_command (lo_cmd_st K) ?g \<noteq> []" using length_wire_command [OF K(2), of ?g] by auto
    ultimately show ?thesis
      using send_block_converted [OF assms(1,2) p(1)] 1 K(2) by (fastforce simp: carries_def)
  next
    case 2
    let ?f = "header_of (snd x)" and ?p = "payload_of (snd x)"
    have p: "nm_connect_port pst = NORMAL_IPCAM_PORT" "fst x = NET_DVR_NET_FRAME" "fst x \<noteq> NET_DVR_NET_COMMAND"
        "36 + frame_len (snd x) \<le> length (snd x)" "48 + frame_len (snd x) \<le> 512 * 1024"
      using 2 x(1) assms(3) by (auto simp: reframed_def sendable_def nvr_codes)
    note f = frame_parts [OF p(4)]
    have "send_frame (lo_nvr_header K) (?h @ (enc_frame_header ?f @ ?p @ drop (36 + frame_len (snd x)) (snd x)) @ r) (lo_dest_buf K) =
        Some (int (48 + length ?p), wire_frame (lo_nvr_header K) ?f ?p @ drop (48 + length ?p) (lo_dest_buf K))"
      using send_frame_wire [OF f(2), of "lo_dest_buf K" _ "fst x" _ "drop (36 + frame_len (snd x)) (snd x) @ r"] K(1) p(5) f(3) by simp
    then have "NIP_nvr_send_command_convert (lo_cmd_st K) (lo_nvr_header K) (Some (lo_dest_buf K)) MAX_FRAME_BUF_SIZE (Some (?h @ snd x @ r)) ?n =
        Some (int (length (wire_frame (lo_nvr_header K) ?f ?p)), Some (wire_frame (lo_nvr_header K) ?f ?p @ drop (48 + length ?p) (lo_dest_buf K)))"
      using p(2,3) unfolding conv length_wire_frame f(1) [symmetric] by simp
    moreover have "wire_frame (lo_nvr_header K) ?f ?p \<noteq> []" using length_wire_frame [of "lo_nvr_header K" ?f ?p] by auto
    ultimately show ?thesis
      using send_block_converted [OF assms(1,2) p(1)] 2 by (fastforce simp: carries_def)
  next
    case 3
    have "NIP_nvr_send_command_convert (lo_cmd_st K) (lo_nvr_header K) (Some (lo_dest_buf K)) MAX_FRAME_BUF_SIZE (Some (?h @ snd x @ r)) ?n =
        Some (0, Some (lo_dest_buf K))" if port: "port = NORMAL_IPCAM_PORT"
    proof (cases "fst x = NET_DVR_NET_COMMAND")
      case True
      then have p: "20 \<le> length (snd x)" "word_at (snd x) 0 \<notin> converted_commands" "word_at (snd x) 0 \<noteq> NET_CAM_GET_ENGINE_INFO"
        using x(1) 3 port by (auto simp: sendable_def converted_def)
      have "mem_read (?h @ snd x @ r) 8 20 = Some (take 20 (snd x))" using p(1) by (simp add: mem_read_def)
      then have "send_command c0 (?h @ snd x @ r) d = Some (0, d)" for c0 d
        using p(2,3) command_parts(2) [of "snd x"] by (simp add: send_command_def Let_def command_of_def converted_commands_def)
      then show ?thesis using True unfolding conv by simp
    next
      case False
      then show ?thesis using 3 port unfolding conv by (simp add: reframed_def)
    qed
    then show ?thesis
      using send_block_raw [OF assms(1,2) l, of K "fst x" "of_nat (length (snd x))" r] 3 assms(3) by (fastforce simp: carries_def)
  qed
qed

text \<open>A round on a ring that holds a command puts it on the wire.\<close>

definition link_rep :: "u32 \<Rightarrow> int \<Rightarrow> net_module \<Rightarrow> net_cmd list \<Rightarrow> bool" where
  "link_rep S port pst q \<longleftrightarrow> snd_rep S pst q \<and> nm_connect_port pst = port \<and> list_all (sendable port) q"

definition link_ok :: "u32 \<Rightarrow> int \<Rightarrow> net_cmd list \<Rightarrow> net_cmd \<Rightarrow> bool" where
  "link_ok S port q x \<longleftrightarrow> snd_ok S q x \<and> sendable port x"

lemma snd_rep_bump [simp]: "snd_rep S (bump_recv_data_num pst) q = snd_rep S pst q" "nm_connect_port (bump_recv_data_num pst) = nm_connect_port pst"
  by (simp_all add: snd_rep_def bump_recv_data_num_def Let_def)

lemma gate_open: "snd_rep S pst (x # q) \<Longrightarrow> fifo_enable_get (cycle_send_buf pst) = 1"
  by (auto simp: snd_rep_def fifo_enable_get_def dest!: ring_holdsD(3))

lemma round_transmits:
  assumes "link_rep S port pst (x # q)" "locals_sound K" "list_all (\<lambda>a. 0 < a) (st_sends w)" "length buf = 512 * 1024"
  shows "\<exists>pst' buf' d b as. NM_net_send_round K pst buf w = Some (True, pst', buf', d, w\<lparr>st_bytes := st_bytes w @ b, st_sends := as\<rparr>) \<and>
    link_rep S port pst' q \<and> carries port x b \<and> list_all (\<lambda>a. 0 < a) as"
proof -
  have rep: "snd_rep S pst (x # q)" and port: "nm_connect_port pst = port" "sendable port x" "list_all (sendable port) q"
    using assms(1) by (simp_all add: link_rep_def)
  have x: "cmd_ok x" "0 \<le> nm_client pst" using rep by (simp_all add: snd_rep_def)
  let ?r = "drop (8 + length (snd x)) buf" and ?K = "K\<lparr>lo_ret := 1\<rparr>"
  obtain b1 where get: "NM_get_buf (lo_st_data K) pst buf = Some (int (8 + length (snd x)),
      enc_net_data (fst x) (of_nat (length (snd x))) @ snd x @ ?r, pst\<lparr>cycle_send_buf := b1\<rparr>)"
      "snd_rep S (pst\<lparr>cycle_send_buf := b1\<rparr>) q"
    using NM_get_buf_ok [OF rep _ assms(4), of "lo_st_data K"] assms(2) by (auto simp: locals_sound_def)
  have l: "8 + length (snd x) + length ?r = 512 * 1024" using x(1) assms(4) by (simp add: cmd_ok_def)
  obtain b d as where send: "send_block ?K (pst\<lparr>cycle_send_buf := b1\<rparr>) (enc_net_data (fst x) (of_nat (length (snd x))) @ snd x @ ?r)
      (of_nat (8 + length (snd x))) w = Some (1, d, w\<lparr>st_bytes := st_bytes w @ b, st_sends := as\<rparr>)"
      "list_all (\<lambda>a. 0 < a) as" "carries port x b"
    using send_block_ok [of "pst\<lparr>cycle_send_buf := b1\<rparr>" w port ?K x ?r] x port assms(2,3) l by (auto simp: locals_sound_def)
  have "NM_net_send_round K pst buf w =
      Some (True, bump_recv_data_num (pst\<lparr>cycle_send_buf := b1\<rparr>), enc_net_data (fst x) (of_nat (length (snd x))) @ snd x @ ?r, d,
        w\<lparr>st_bytes := st_bytes w @ b, st_sends := as\<rparr>)"
    using get(1) send(1) gate_open [OF rep] by (simp add: NM_net_send_round_def)
  moreover have "link_rep S port (bump_recv_data_num (pst\<lparr>cycle_send_buf := b1\<rparr>)) q"
    using get(2) port by (simp add: link_rep_def)
  ultimately show ?thesis using send(2,3) by blast
qed

section \<open>The receiver's step\<close>

lemma carries_block:
  assumes "carries port x b" "sendable port x" "cmd_ok x"
  shows "\<exists>p. b = enc_net_data (fst x) (of_nat (length p)) @ p \<and> 0 < length p \<and> length p \<le> 512 * 1024"
proof -
  consider "converted port x" | "reframed port x" "\<not> converted port x" | "\<not> converted port x" "\<not> reframed port x" by blast
  then show ?thesis
  proof cases
    case 1
    then obtain c0 where "length (nc_value c0) = 20" "b = wire_command c0 (command_of (snd x))" "fst x = NET_DVR_NET_COMMAND"
      using assms(1) by (auto simp: carries_def converted_def)
    then show ?thesis
      using length_wire_command [of c0 "command_of (snd x)"]
      by (intro exI [of _ "drop 8 (wire_command c0 (command_of (snd x)))"]) (simp add: wire_command_def)
  next
    case 2
    then obtain h0 where b: "b = wire_frame h0 (header_of (snd x)) (payload_of (snd x))" "fst x = NET_DVR_NET_FRAME" "fst x \<noteq> NET_DVR_NET_COMMAND"
      using assms(1) by (auto simp: carries_def reframed_def nvr_codes)
    have l: "36 + frame_len (snd x) \<le> length (snd x)" "48 + frame_len (snd x) \<le> 512 * 1024"
      using 2 assms(2) b(2,3) by (auto simp: sendable_def reframed_def)
    note f = frame_parts [OF l(1)]
    have "40 + fh_iLength (header_of (snd x)) = of_nat (40 + length (payload_of (snd x)))"
      using arg_cong [OF f(2), of "of_nat :: nat \<Rightarrow> u32"] by simp
    then show ?thesis
      using b l f(3) by (intro exI [of _ "enc_nvr_frame_header (nvr_header_of h0 (header_of (snd x))) @ payload_of (snd x)"])
        (simp add: wire_frame_def)
  next
    case 3
    then show ?thesis using assms by (auto simp: carries_def cmd_ok_def)
  qed
qed

text \<open>Reading a whole block off the wire.\<close>

lemma NM_socket_read_all:
  assumes "0 \<le> client" "list_all (\<lambda>a. 0 < a) (st_recvs w)" "st_bytes w = d @ rest" "length d \<le> length buf"
  shows "\<exists>as. NM_socket_read_data client buf (int (length d)) w = Some (1, d @ drop (length d) buf, w\<lparr>st_bytes := rest, st_recvs := as\<rparr>) \<and>
    list_all (\<lambda>a. 0 < a) as"
  using read_loop_ok [OF assms(2,3) refl, of 0 buf] assms(1,4) by (simp add: NM_socket_read_data_def)

text \<open>What the conversion makes of the payload of a block that carries a command.\<close>

lemma block_converted:
  assumes "carries NORMAL_IPCAM_PORT x b" "sendable NORMAL_IPCAM_PORT x" "cmd_ok x" "locals_sound K"
    and "b = enc_net_data (fst x) l @ p"  "\<not> pl < 8 \<or> fst x = NET_DVR_NET_SELF_DATA" "length p + length r = 512 * 1024"
  shows "\<exists>n d y. NIP_nvr_recv_command_convert (lo_g_cmd K) (lo_old_header K) std (Some (lo_dest_buf K)) MAX_FRAME_BUF_SIZE (Some (p @ r)) pl (fst x) =
      Some (int n, Some d) \<and> (if 0 < n then mem_read d 0 n else Some p) = Some y \<and> arrives NORMAL_IPCAM_PORT x (y, fst x)"
proof -
  have K: "length (lo_dest_buf K) = 512 * 1024" using assms(4) by (simp add: locals_sound_def)
  let ?conv = "NIP_nvr_recv_command_convert (lo_g_cmd K) (lo_old_header K) std (Some (lo_dest_buf K)) MAX_FRAME_BUF_SIZE (Some (p @ r)) pl (fst x)"
  consider "converted NORMAL_IPCAM_PORT x" | "reframed NORMAL_IPCAM_PORT x" "\<not> converted NORMAL_IPCAM_PORT x"
    | "\<not> converted NORMAL_IPCAM_PORT x" "\<not> reframed NORMAL_IPCAM_PORT x" by blast
  then show ?thesis
  proof cases
    case 1
    let ?g = "command_of (snd x)"
    obtain c0 where c: "length (nc_value c0) = 20" "b = wire_command c0 ?g" "fst x = NET_DVR_NET_COMMAND" "gc_command ?g \<in> converted_commands"
      using assms(1) 1 command_parts(2) [of "snd x"] by (auto simp: carries_def converted_def)
    have "p = drop 8 (wire_command c0 ?g)" using assms(5) c(2) by (metis append_eq_conv_conj length_enc_net_data)
    then have "?conv = Some (20, Some (enc_net_command (received_command (lo_g_cmd K) ?g) @ drop 20 (lo_dest_buf K)))"
      using recv_command_wire [OF c(4,1), of "lo_dest_buf K" "lo_g_cmd K" r] K c(3) assms(6)
      by (simp add: NIP_nvr_recv_command_convert_def nvr_codes)
    then show ?thesis
      using 1 by (intro exI [of _ 20] exI conjI) (auto simp: mem_parts arrives_def)
  next
    case 2
    let ?f = "header_of (snd x)" and ?p = "payload_of (snd x)"
    obtain h0 where c: "b = wire_frame h0 ?f ?p" "fst x = NET_DVR_NET_FRAME" "fst x \<noteq> NET_DVR_NET_COMMAND"
      using assms(1) 2 by (auto simp: carries_def reframed_def nvr_codes)
    have l: "36 + frame_len (snd x) \<le> length (snd x)" "48 + frame_len (snd x) \<le> 512 * 1024"
      using 2 assms(2) c(2,3) by (auto simp: sendable_def reframed_def)
    note f = frame_parts [OF l(1)]
    have "p = drop 8 (wire_frame h0 ?f ?p)" using assms(5) c(1) by (metis append_eq_conv_conj length_enc_net_data)
    then have "?conv = Some (int (36 + length ?p), Some (enc_frame_header (received_header std (lo_old_header K) ?f) @ ?p @ drop (36 + length ?p) (lo_dest_buf K)))"
      using recv_frame_wire [OF f(2), of "lo_dest_buf K" std "lo_old_header K" h0 r] K c(2) assms(6) l(2) f(3)
      by (simp add: NIP_nvr_recv_command_convert_def nvr_codes)
    moreover have "mem_read (enc_frame_header (received_header std (lo_old_header K) ?f) @ ?p @ drop (36 + length ?p) (lo_dest_buf K)) 0 (36 + length ?p) =
        Some (enc_frame_header (received_header std (lo_old_header K) ?f) @ ?p)"
      using mem_read_head [of "36 + length ?p" "enc_frame_header (received_header std (lo_old_header K) ?f) @ ?p"] by simp
    ultimately show ?thesis
      using 2 by (intro exI [of _ "36 + length ?p"] exI conjI) (auto simp: arrives_def)
  next
    case 3
    then have p: "p = snd x" using assms(1,5) by (auto simp: carries_def dest: append_eq_conv_conj [THEN iffD1])
    have "recv_command (lo_g_cmd K) (p @ r) (lo_dest_buf K) = Some (0, lo_dest_buf K)" if "fst x = NET_DVR_NET_COMMAND"
    proof -
      have q: "20 \<le> length p" "word_at p 0 \<notin> converted_commands" "word_at p 0 \<noteq> NET_CAM_GET_ENGINE_INFO"
        using that 3 assms(2) p by (auto simp: sendable_def converted_def)
      have "mem_read (p @ r) 0 84 = Some (take 84 (p @ r))" using assms(7) by (simp add: mem_read_def)
      moreover have "word_at (take 84 (p @ r)) 0 = word_at p 0" using q(1) by (simp add: word_at_take) (simp add: word_at_def)
      ultimately show ?thesis using q(2,3) by (simp add: recv_command_def dec_nvr_command_def converted_commands_def Let_def)
    qed
    then have "?conv = Some (0, Some (lo_dest_buf K))"
      using assms(6) 3 by (auto simp: NIP_nvr_recv_command_convert_def reframed_def)
    then show ?thesis using 3 p by (intro exI [of _ 0] exI conjI) (auto simp: arrives_def)
  qed
qed

lemma count_fields [simp]:
  "nm_client (count_channel d pst) = nm_client pst" "nm_connect_port (count_channel d pst) = nm_connect_port pst"
  "nm_client (bump_recv_data_num pst) = nm_client pst" "nm_connect_port (bump_recv_data_num pst) = nm_connect_port pst"
  by (simp_all add: count_channel_def bump_recv_data_num_def Let_def)

lemma command_received:
  assumes "carries port x b" "sendable port x" "cmd_ok x" "locals_sound K" "0 \<le> nm_client r" "nm_connect_port r = port"
    and "list_all (\<lambda>a. 0 < a) (st_recvs w)" "st_bytes w = b @ rest"
  shows "\<exists>r' y as. NM_command_recv_data K std r w = Some (1, r', Some y, w\<lparr>st_bytes := rest, st_recvs := as\<rparr>) \<and> arrives port x y \<and>
    nm_client r' = nm_client r \<and> nm_connect_port r' = port \<and> list_all (\<lambda>a. 0 < a) as"
proof -
  obtain p where p: "b = enc_net_data (fst x) (of_nat (length p)) @ p" "0 < length p" "length p \<le> 512 * 1024"
    using carries_block [OF assms(1-3)] by blast
  have K: "length (lo_st_data K) = 8" "length (lo_src_buf K) = 512 * 1024" "length (lo_dest_buf K) = 512 * 1024"
    using assms(4) by (simp_all add: locals_sound_def)
  let ?h = "enc_net_data (fst x) (of_nat (length p))" and ?r = "drop (length p) (lo_src_buf K)"
  obtain a1 where a1: "NM_socket_read_data (nm_client r) (lo_st_data K) 8 w = Some (1, ?h, w\<lparr>st_bytes := p @ rest, st_recvs := a1\<rparr>)"
      "list_all (\<lambda>a. 0 < a) a1"
    using NM_socket_read_all [OF assms(5,7), of ?h "p @ rest" "lo_st_data K"] assms(8) p(1) K(1) by auto
  let ?w1 = "w\<lparr>st_bytes := p @ rest, st_recvs := a1\<rparr>"
  obtain a2 where a2: "NM_socket_read_data (nm_client r) (lo_src_buf K) (int (length p)) ?w1 =
      Some (1, p @ ?r, w\<lparr>st_bytes := rest, st_recvs := a2\<rparr>)" "list_all (\<lambda>a. 0 < a) a2"
    using NM_socket_read_all [OF assms(5), of ?w1 p rest "lo_src_buf K"] a1(2) p(3) K(2) by auto
  have u: "unat (of_nat (length p) :: u32) = length p" using p(3) by (intro unat_of_nat_u32) simp
  have n: "sint (of_nat (length p) :: u32) = int (length p)" using u p(3) by (subst sint_small) simp_all
  have m: "sint MAX_FRAME_BUF_SIZE = 512 * 1024" by (simp add: MAX_FRAME_BUF_SIZE_def)
  have pl: "\<not> (of_nat (length p) :: u32) < 8 \<or> fst x = NET_DVR_NET_SELF_DATA" if "port = NORMAL_IPCAM_PORT"
  proof (cases "converted port x \<or> reframed port x")
    case True
    then consider "\<exists>c0. length (nc_value c0) = 20 \<and> b = wire_command c0 (command_of (snd x))"
      | "\<exists>h0. b = wire_frame h0 (header_of (snd x)) (payload_of (snd x))"
      using assms(1) by (auto simp: carries_def split: if_splits)
    then have "16 \<le> length b" by cases (auto simp: length_wire_command length_wire_frame)
    then have "8 \<le> length p" using p(1) by simp
    then show ?thesis using u by (simp add: word_less_nat_alt)
  next
    case False
    then have "p = snd x" using assms(1) p(1) by (auto simp: carries_def dest: append_eq_conv_conj [THEN iffD1])
    then show ?thesis using assms(2) that u False by (auto simp: sendable_def reframed_def word_less_nat_alt split: if_splits)
  qed
  define k where "k = (if port = NORMAL_IPCAM_PORT
    then NIP_nvr_recv_command_convert (lo_g_cmd K) (lo_old_header K) std (Some (lo_dest_buf K)) MAX_FRAME_BUF_SIZE (Some (p @ ?r)) (of_nat (length p)) (fst x)
    else Some (0, Some (lo_dest_buf K)))"
  obtain n d y where y: "k = Some (int n, Some d)" "(if 0 < n then mem_read d 0 n else Some p) = Some y" "arrives port x (y, fst x)"
  proof (cases "port = NORMAL_IPCAM_PORT")
    case True
    have "length p + length ?r = 512 * 1024" using K(2) p(3) by simp
    from block_converted [OF _ _ assms(3,4) p(1) _ this, of "of_nat (length p)" std] that show ?thesis
      using True assms(1,2) pl unfolding k_def by auto
  next
    case False
    then have "p = snd x" "\<not> converted port x" "\<not> reframed port x"
      using assms(1) p(1) by (auto simp: carries_def converted_def reframed_def dest: append_eq_conv_conj [THEN iffD1])
    then show ?thesis using that [of 0 "lo_dest_buf K" p] False by (simp add: k_def arrives_def)
  qed
  have data: "(if 0 < n then mem_read d 0 n else mem_read (p @ ?r) 0 (length p)) = Some y"
    using y(2) by (auto simp: mem_read_head split: if_splits)
  let ?r1 = "bump_recv_data_num r"
  let ?r' = "count_channel d (?r1\<lparr>nm_is_check_goke_recv_data_num := nm_is_check_goke_recv_data_num ?r1 + 1\<rparr>)"
  have "NM_command_recv_data K std r w = Some (1, ?r', Some (y, fst x), w\<lparr>st_bytes := rest, st_recvs := a2\<rparr>)"
    using a1(1) a2(1) n m p(2,3) y(1) data assms(6)
    unfolding k_def by (auto simp: NM_command_recv_data_def codec_simps Let_def split: if_splits)
  then show ?thesis using y(3) a2(2) assms(6) by auto
qed

section \<open>The connection as a queue\<close>

text \<open>The state behind the sender's ring: the stream and the receiver. A step has its locals and \<open>get_cur_standard()\<close>.\<close>

definition link_transmit :: "nm_locals \<times> u32 \<Rightarrow> net_module \<Rightarrow> stream \<times> net_module \<Rightarrow> (net_module \<times> stream \<times> net_module) option" where
  "link_transmit k pst wr = do {
     (go, pst', buf, dest, w') \<leftarrow> NM_net_send_round (fst k) pst (lo_src_buf (fst k)) (fst wr);
     if go then Some (pst', w', snd wr) else None
   }"

definition link_receive :: "nm_locals \<times> u32 \<Rightarrow> stream \<times> net_module \<Rightarrow> ((byte list \<times> u32) \<times> stream \<times> net_module) option" where
  "link_receive k wr = do {
     (ret, r', given, w') \<leftarrow> NM_command_recv_data (fst k) (snd k) (snd wr) (fst wr);
     y \<leftarrow> given;
     Some (y, w', r')
   }"

definition link_wire :: "int \<Rightarrow> stream \<times> net_module \<Rightarrow> net_cmd list \<Rightarrow> bool" where
  "link_wire port wr p \<longleftrightarrow> list_all (\<lambda>a. 0 < a) (st_sends (fst wr)) \<and> list_all (\<lambda>a. 0 < a) (st_recvs (fst wr)) \<and>
     0 \<le> nm_client (snd wr) \<and> nm_connect_port (snd wr) = port \<and> list_all (\<lambda>x. sendable port x \<and> cmd_ok x) p \<and>
     (\<exists>bs. st_bytes (fst wr) = concat bs \<and> list_all2 (carries port) p bs)"

lemma snd_put_port: "snd_put K w pst x = Some pst' \<Longrightarrow> snd_rep S pst q \<Longrightarrow> nm_connect_port pst' = nm_connect_port pst"
  by (auto simp: snd_put_def NM_net_send_data_def snd_rep_def Let_def split: bind_splits if_splits)

lemma snd_get_port: "snd_get pst = Some (x, pst') \<Longrightarrow> nm_connect_port pst' = nm_connect_port pst"
  by (auto simp: snd_get_def NM_get_buf_def Let_def split: bind_splits if_splits)

interpretation link: command_link "snd_put K w" snd_get "link_rep S port" "link_ok S port" "\<lambda>q. q \<noteq> []"
  link_transmit link_receive "link_wire port" "\<lambda>k. locals_sound (fst k)" "arrives port"
proof
  fix s q x
  assume "link_rep S port s q" "link_ok S port q x"
  then show "\<exists>s'. snd_put K w s x = Some s' \<and> link_rep S port s' (q @ [x])"
    using snd_put_ok [of S s q x K w] snd_put_port [of K w s x _ S q] by (fastforce simp: link_rep_def link_ok_def)
next
  fix s x q
  assume "link_rep S port s (x # q)"
  then show "\<exists>s'. snd_get s = Some (x, s') \<and> link_rep S port s' q"
    using snd_get_ok [of S s x q] snd_get_port [of s x] by (fastforce simp: link_rep_def)
next
  fix k :: "nm_locals \<times> u32" and s x q wr p
  assume k: "locals_sound (fst k)" and rep: "link_rep S port s (x # q)" and wire: "link_wire port wr p"
  have len: "length (lo_src_buf (fst k)) = 512 * 1024" using k by (simp add: locals_sound_def)
  obtain bs where bs: "st_bytes (fst wr) = concat bs" "list_all2 (carries port) p bs" and a: "list_all (\<lambda>a. 0 < a) (st_sends (fst wr))"
    using wire by (auto simp: link_wire_def)
  from round_transmits [OF rep k a len] obtain s' buf' d b as where
    r: "NM_net_send_round (fst k) s (lo_src_buf (fst k)) (fst wr) =
      Some (True, s', buf', d, (fst wr)\<lparr>st_bytes := st_bytes (fst wr) @ b, st_sends := as\<rparr>)"
      "link_rep S port s' q" "carries port x b" "list_all (\<lambda>a. 0 < a) as" by blast
  have "list_all2 (carries port) (p @ [x]) (bs @ [b])" using bs(2) r(3) by (simp add: list_all2_appendI)
  moreover have "st_bytes (fst wr) @ b = concat (bs @ [b])" using bs(1) by simp
  moreover have "sendable port x" "cmd_ok x" using rep by (simp_all add: link_rep_def snd_rep_def)
  moreover have W: "list_all (\<lambda>a. 0 < a) (st_recvs (fst wr))" "0 \<le> nm_client (snd wr)" "nm_connect_port (snd wr) = port"
      "list_all (\<lambda>x. sendable port x \<and> cmd_ok x) p"
    using wire by (simp_all add: link_wire_def)
  ultimately have "link_wire port ((fst wr)\<lparr>st_bytes := st_bytes (fst wr) @ b, st_sends := as\<rparr>, snd wr) (p @ [x])"
    using W r(4) unfolding link_wire_def by (intro conjI exI [of _ "bs @ [b]"]) simp_all
  then show "\<exists>s' w'. link_transmit k s wr = Some (s', w') \<and> link_rep S port s' q \<and> link_wire port w' (p @ [x])"
    using r(1,2) by (auto simp: link_transmit_def)
next
  fix k :: "nm_locals \<times> u32" and wr x p
  assume k: "locals_sound (fst k)" and wire: "link_wire port wr (x # p)"
  obtain b bs where bs: "st_bytes (fst wr) = b @ concat bs" "carries port x b" "list_all2 (carries port) p bs"
    using wire by (auto simp: link_wire_def list_all2_Cons1)
  have x: "sendable port x" "cmd_ok x" "0 \<le> nm_client (snd wr)" "nm_connect_port (snd wr) = port" "list_all (\<lambda>a. 0 < a) (st_recvs (fst wr))"
    using wire by (simp_all add: link_wire_def)
  from command_received [OF bs(2) x(1,2) k x(3-5) bs(1), of "snd k"] obtain r' y as where
    r: "NM_command_recv_data (fst k) (snd k) (snd wr) (fst wr) = Some (1, r', Some y, (fst wr)\<lparr>st_bytes := concat bs, st_recvs := as\<rparr>)"
      "arrives port x y" "nm_client r' = nm_client (snd wr)" "nm_connect_port r' = port" "list_all (\<lambda>a. 0 < a) as" by blast
  have "link_wire port ((fst wr)\<lparr>st_bytes := concat bs, st_recvs := as\<rparr>, r') p"
    using wire bs(3) r(3-5) by (auto simp: link_wire_def)
  then show "\<exists>y w'. link_receive k wr = Some (y, w') \<and> arrives port x y \<and> link_wire port w' p"
    using r(1,2) by (auto simp: link_receive_def)
qed

section \<open>Properties\<close>

text \<open>C4: A connection delivers every command once and in order. With empty rings and an empty wire, any interleaving
  of \<open>NM_net_send_data\<close>, rounds of the sender thread and \<open>NM_command_recv_data\<close> that has something to send and
  to receive runs to its end, however the kernel cuts the transfers and whatever the uninitialised arrays hold; the
  callback is given the commands in the order they were sent, unchanged on an ordinary port and as the NVR protocol
  carries them on port 16000, and what it was not given yet is on the wire or in the ring.\<close>

theorem connection_delivers_in_order:
  assumes "init_cycle_buffer f1 f2 S = Some b" and "S \<noteq> 0" and "unat S \<le> 2 ^ 20"
    and "cycle_send_buf pst = filo_set_save_num b 0" and "0 \<le> nm_client pst"
    and "nm_send_data_mode pst = 0" and "nm_send_th_flag pst = 1" and "nm_recv_th_flag pst = 1"
    and "nm_connect_port pst = port" and "0 \<le> nm_client r" and "nm_connect_port r = port" and "st_bytes w = []"
    and "list_all (\<lambda>a. 0 < a) (st_sends w)" and "list_all (\<lambda>a. 0 < a) (st_recvs w)"
    and "run_lists (link_ok S port) (\<lambda>k. locals_sound (fst k)) ops [] [] = Some (out, q', p')"
  shows "\<exists>ys pst' w' r'. run_link (snd_put K w0) link_transmit link_receive ops pst (w, r) = Some (ys, pst', w', r') \<and>
    list_all2 (arrives port) out ys \<and> commands ops = out @ p' @ q' \<and> link_rep S port pst' q' \<and> link_wire port (w', r') p'"
proof -
  have "link_rep S port pst []" using snd_rep_init [OF assms(1-8)] assms(9) by (simp add: link_rep_def)
  moreover have "link_wire port (w, r) []" using assms(10-14) by (simp add: link_wire_def)
  ultimately show ?thesis using link.delivers_in_order [OF _ _ assms(15), of pst "(w, r)" K w0] by auto
qed

definition demo_frame :: net_cmd where
  "demo_frame = (NET_DVR_NET_FRAME, enc_frame_header (sample_header 3\<lparr>fh_size := 5\<rparr>) @ [1, 2, 3])"

definition demo_setting :: net_cmd where "demo_setting = (NET_DVR_NET_COMMAND, enc_net_command demo_command)"

lemma demo_sendable: "sendable 16000 demo_frame" "sendable 16000 demo_setting" "cmd_ok demo_frame" "cmd_ok demo_setting"
  by (simp_all add: sendable_def demo_frame_def demo_setting_def frame_len_def enc_frame_header_words enc_net_command_def codec_simps
      NORMAL_IPCAM_PORT_def nvr_codes sample_header_def demo_command_def cmd_ok_def)

lemma fresh_locals_sound: "locals_sound fresh_locals"
  by (simp add: locals_sound_def fresh_locals_def length_frame_block stale_command_def)

lemma connection_delivers_in_order_witness:
  "\<exists>y1 y2 pst' w' r'. run_link (snd_put fresh_locals fresh_stream) link_transmit link_receive
      [Command demo_frame, Command demo_setting, Transmit (fresh_locals, 1), Transmit (fresh_locals, 1), Receive (fresh_locals, 1), Receive (fresh_locals, 0)]
      fresh_net_module (fresh_stream\<lparr>st_sends := [5, 7], st_recvs := [1, 3, 9, 2]\<rparr>, fresh_net_module) = Some ([y1, y2], pst', w', r') \<and>
    snd y1 = NET_DVR_NET_FRAME \<and> (\<exists>h. fst y1 = enc_frame_header h @ [1, 2, 3]) \<and> snd y2 = NET_DVR_NET_COMMAND"
proof -
  let ?ops = "[Command demo_frame, Command demo_setting, Transmit (fresh_locals, 1), Transmit (fresh_locals, 1), Receive (fresh_locals, 1),
    Receive (fresh_locals, 0)] :: (net_cmd, nm_locals \<times> u32) link_op list"
  have run: "run_lists (link_ok (64 * 1024) 16000) (\<lambda>k. locals_sound (fst k)) ?ops [] [] = Some ([demo_frame, demo_setting], [], [])"
    using demo_sendable fresh_locals_sound
    by (simp add: link_ok_def snd_ok_def cmds_bytes_def demo_frame_def demo_setting_def)
  have r: "converted 16000 demo_frame = False" "reframed 16000 demo_frame" "payload_of (snd demo_frame) = [1, 2, 3]"
    by (simp_all add: converted_def reframed_def demo_frame_def payload_of_def frame_len_def enc_frame_header_words codec_simps
        NORMAL_IPCAM_PORT_def nvr_codes sample_header_def)
  show ?thesis
    using connection_delivers_in_order [OF init_fresh _ _ _ _ _ _ _ _ _ _ _ _ _ run, of fresh_net_module fresh_net_module
        "fresh_stream\<lparr>st_sends := [5, 7], st_recvs := [1, 3, 9, 2]\<rparr>" fresh_locals fresh_stream] r
    by (auto simp: fresh_net_module_def fresh_stream_def arrives_def list_all2_Cons1 demo_setting_def) (auto simp: demo_frame_def)
qed



end
