(* ===== verification/Net_Lifecycle.thy ===== *)
theory Net_Lifecycle
  imports Net_Connection
begin

text \<open>
  The life of a network client, \<open>src/FileSystem/avicodelib/NetModule.c\<close>: its creation and reset, the threads
  that serve a connection, and the checking thread that takes the connection down. The threads are the steps of a
  relation; a call that waits (a mutex, \<open>pthread_join\<close>) has no step until it can go on.
\<close>

section \<open>Creating and resetting a client\<close>

text \<open>
  \<open>bind_enc_num\<close> has two elements, and six are written: the others are the four \<open>int\<close>s that follow it in the
  structure, \<open>send_enc_data\<close>, \<open>video_mode\<close>, \<open>video_image_size\<close> and \<open>frame_num[0]\<close>.
\<close>

definition clear_bindings :: "net_module \<Rightarrow> net_module" where
  "clear_bindings pst = pst\<lparr>nm_bind_enc_num := [- 1, - 1], nm_send_enc_data := - 1, nm_video_mode := - 1, nm_video_image_size := - 1,
     nm_frame_num := (nm_frame_num pst)[0 := - 1]\<rparr>"

definition BUILD_MODE_ALLWAY :: int where "BUILD_MODE_ALLWAY = 0"
definition BUILD_MODE_ONCE :: int where "BUILD_MODE_ONCE = 1"

text \<open>\<open>m\<close>, \<open>f1\<close> and \<open>f2\<close> are the answers of \<open>malloc\<close>; \<open>count\<close> is the module's static counter.\<close>

definition NM_ini_st :: "bool \<Rightarrow> bool \<Rightarrow> bool \<Rightarrow> int \<Rightarrow> int \<Rightarrow> int \<Rightarrow> u32 \<Rightarrow> net_module option" where
  "NM_ini_st m f1 f2 count work_mode send_mode buf_size =
     (if \<not> m then None
      else do {
        b \<leftarrow> init_cycle_buffer f1 f2 (if send_mode = NET_SEND_BUF_MODE then buf_size else 16384);
        Some (clear_bindings \<lparr>nm_client = 0, nm_work_mode = 0, cycle_send_buf = filo_set_save_num b 0, nm_send_th_flag = 0,
          nm_recv_th_flag = 0, nm_is_alread_work = 0, nm_build_once = work_mode, nm_bind_enc_num = [0, 0], nm_send_enc_data = 0,
          nm_video_mode = 0, nm_video_image_size = 0, nm_frame_num = [0, 0], nm_send_cam = 0, nm_recv_data_num = 0,
          nm_mac = replicate 30 0, nm_stop_work_by_user = 0, nm_enc_info = replicate 8 0, nm_cam_chan_recv_num = replicate 6 0,
          nm_have_d1_enginer = 0, nm_ipcam_type = 0, nm_thread_stop_num = 0, nm_send_data_mode = send_mode, nm_connect_port = 0,
          nm_send_data_flag = 0, nm_is_yb_nvr = 0, nm_is_onvif_connect = 0, nm_is_check_goke_recv_data_num = 0,
          connect_but_no_recv_data_count = count\<rparr>)
      })"

text \<open>\<open>NM_reset\<close>, up to the statement that frees the slot for the listener, and from there on.\<close>

definition reset_front :: "net_module \<Rightarrow> net_module" where
  "reset_front pst = (clear_bindings (pst\<lparr>cycle_send_buf := fifo_reset (filo_set_save_num (cycle_send_buf pst) 0)\<rparr>))
     \<lparr>nm_mac := (nm_mac pst)[0 := 0], nm_is_alread_work := 0\<rparr>"

definition reset_back :: "net_module \<Rightarrow> net_module" where
  "reset_back pst = pst\<lparr>nm_recv_data_num := 0, nm_stop_work_by_user := 0,
     nm_enc_info := replicate 8 0, nm_cam_chan_recv_num := replicate 6 0, nm_have_d1_enginer := 0, nm_ipcam_type := 0, nm_thread_stop_num := 0,
     nm_send_cam := 0, nm_is_yb_nvr := 0, nm_is_onvif_connect := 0, nm_client := - 1, nm_is_check_goke_recv_data_num := 0,
     nm_send_data_flag := 0\<rparr>"

definition NM_reset :: "net_module option \<Rightarrow> int \<times> net_module option" where
  "NM_reset pst = (case pst of None \<Rightarrow> (- 1, None) | Some p \<Rightarrow> (1, Some (reset_back (reset_front p))))"

text \<open>\<open>None\<close> is the module freed.\<close>

definition NM_destroy_st :: "net_module option \<Rightarrow> int \<times> net_module option" where
  "NM_destroy_st pst =
     (1, case pst of None \<Rightarrow> None
         | Some p \<Rightarrow> if nm_build_once p = BUILD_MODE_ALLWAY then None else snd (NM_reset (Some p)))"

text \<open>\<open>frame_num\<close> is the static variable of the function, one for all clients.\<close>

definition NM_net_get_status :: "net_module option \<Rightarrow> int \<Rightarrow> int \<times> int" where
  "NM_net_get_status pst frame_num =
     (case pst of None \<Rightarrow> (0, frame_num)
      | Some p \<Rightarrow> if nm_client p > 0 \<and> frame_num \<noteq> nm_recv_data_num p then (1, nm_recv_data_num p) else (0, frame_num))"

text \<open>
  The rounds of \<open>NM_net_check_thread\<close>, one per second: \<open>count\<close> seconds without a change of the counter. The result
  is the new count, or \<open>None\<close> when the connection is given up.
\<close>

definition check_second :: "net_module \<Rightarrow> int \<Rightarrow> int \<Rightarrow> int option \<times> int" where
  "check_second pst frame_num count =
     (let (st, fn) = NM_net_get_status (Some pst) frame_num
      in if st = 1 then (Some 0, fn) else if count + 1 > 30 then (None, fn) else (Some (count + 1), fn))"

definition check_goes_on :: "net_module \<Rightarrow> bool" where
  "check_goes_on pst \<longleftrightarrow> nm_recv_th_flag pst = 1 \<and>
     (nm_send_th_flag pst = 1 \<or> nm_send_data_mode pst = NET_SEND_DIRECT_MODE) \<and> nm_stop_work_by_user pst = 0"

text \<open>The end of \<open>NM_net_recv_thread\<close> (it also restarts the camera when ten connections in a row gave nothing).\<close>

definition recv_thread_end :: "net_module \<Rightarrow> net_module" where
  "recv_thread_end pst =
     (let n = (if nm_is_check_goke_recv_data_num pst = 0
               then if connect_but_no_recv_data_count pst + 1 > 10 then 0 else connect_but_no_recv_data_count pst + 1
               else 0);
          p = pst\<lparr>connect_but_no_recv_data_count := n\<rparr>
      in if nm_stop_work_by_user p = 0 then p\<lparr>nm_stop_work_by_user := 1\<rparr> else p)"

section \<open>Threads\<close>

datatype thread = NoThread | Active | Ended

text \<open>The places of \<open>NM_destroy_work_thread\<close>; \<open>DReset\<close> and \<open>DReset2\<close> are the two parts of the reset.\<close>

datatype destroy_pc = DLock | DSend | DJoinSend | DRecv | DJoinRecv | DClose | DReset | DReset2 | DUnlock | DOut

datatype check_pc = CWatch | CDestroy destroy_pc

text \<open>
  The listener or the caller of \<open>NM_connect\<close>: \<open>NM_create_work_thread\<close> creates the sender, the receiver and the checker, then
  sets \<open>is_alread_work\<close>; a thread that cannot be created leads to \<open>NM_destroy_work_thread\<close> and \<open>connect_error\<close>.
\<close>

datatype connect_pc = AIdle | ASender | AReceiver | AChecker | AWork | AReturn | ADestroy destroy_pc | AError

datatype caller = Connector | Checker nat

text \<open>
  \<open>via_connect\<close> tells that the connection comes from \<open>NM_connect\<close>, which holds \<open>control_mutex\<close>; \<open>NM_connect_by_accept\<close> takes
  no lock. A checker that has finished is \<open>None\<close> in the list.
\<close>

record net_sys =
  pst :: net_module
  sender_th :: thread
  receiver_th :: thread
  checkers :: "check_pc option list"
  connect :: connect_pc
  via_connect :: bool
  control_mutex :: "caller option"
  open_fds :: "int set"
  freed :: bool

text \<open>One step of \<open>NM_destroy_work_thread\<close>; \<open>None\<close> where it waits.\<close>

fun destroy_step :: "caller \<Rightarrow> destroy_pc \<Rightarrow> net_sys \<Rightarrow> (destroy_pc \<times> net_sys) option" where
  "destroy_step who DLock s = (if control_mutex s = None then Some (DSend, s\<lparr>control_mutex := Some who\<rparr>) else None)"
| "destroy_step who DSend s =
     (if nm_send_data_mode (pst s) = NET_SEND_BUF_MODE \<and> nm_send_th_flag (pst s) = 1
      then Some (DJoinSend, s\<lparr>pst := (pst s)\<lparr>nm_send_th_flag := 0\<rparr>\<rparr>) else Some (DRecv, s))"
| "destroy_step who DJoinSend s = (if sender_th s = Active then None else Some (DRecv, s\<lparr>sender_th := NoThread\<rparr>))"
| "destroy_step who DRecv s =
     (if nm_recv_th_flag (pst s) = 1 then Some (DJoinRecv, s\<lparr>pst := (pst s)\<lparr>nm_recv_th_flag := 0\<rparr>\<rparr>) else Some (DClose, s))"
| "destroy_step who DJoinRecv s = (if receiver_th s = Active then None else Some (DClose, s\<lparr>receiver_th := NoThread\<rparr>))"
| "destroy_step who DClose s =
     (if nm_client (pst s) \<ge> 0
      then Some (DReset, s\<lparr>open_fds := open_fds s - {nm_client (pst s)}, pst := (pst s)\<lparr>nm_client := - 1\<rparr>\<rparr>)
      else Some (DUnlock, s))"
| "destroy_step who DReset s =
     (if nm_build_once (pst s) = BUILD_MODE_ALLWAY then Some (DUnlock, s\<lparr>freed := True\<rparr>)
      else Some (DReset2, s\<lparr>pst := reset_front (pst s)\<rparr>))"
| "destroy_step who DReset2 s = Some (DUnlock, s\<lparr>pst := reset_back (pst s)\<rparr>)"
| "destroy_step who DUnlock s = Some (DOut, s\<lparr>control_mutex := None\<rparr>)"
| "destroy_step who DOut s = None"

text \<open>One step of \<open>NM_create_work_thread\<close> and what follows it; \<open>ok\<close> is the answer of \<open>pthread_create\<close>.\<close>

fun connect_step :: "bool \<Rightarrow> connect_pc \<Rightarrow> net_sys \<Rightarrow> (connect_pc \<times> net_sys) option" where
  "connect_step ok AIdle s = None"
| "connect_step ok ASender s =
     (if nm_send_data_mode (pst s) \<noteq> NET_SEND_BUF_MODE then Some (AReceiver, s)
      else if ok then Some (AReceiver, s\<lparr>pst := (pst s)\<lparr>nm_send_th_flag := 1\<rparr>, sender_th := Active\<rparr>)
      else Some (ADestroy DLock, s\<lparr>pst := (pst s)\<lparr>nm_send_th_flag := 0\<rparr>\<rparr>))"
| "connect_step ok AReceiver s =
     (if ok then Some (AChecker, s\<lparr>pst := (pst s)\<lparr>nm_recv_th_flag := 1\<rparr>, receiver_th := Active\<rparr>)
      else Some (ADestroy DLock, s\<lparr>pst := (pst s)\<lparr>nm_recv_th_flag := 0\<rparr>\<rparr>))"
| "connect_step ok AChecker s =
     (if ok then Some (AWork, s\<lparr>checkers := checkers s @ [Some CWatch]\<rparr>) else Some (ADestroy DLock, s))"
| "connect_step ok AWork s = Some (AReturn, s\<lparr>pst := (pst s)\<lparr>nm_is_alread_work := 1\<rparr>\<rparr>)"
| "connect_step ok AReturn s = Some (AIdle, if via_connect s then s\<lparr>control_mutex := None\<rparr> else s)"
| "connect_step ok (ADestroy d) s =
     (if d = DOut then Some (AError, s) else map_option (\<lambda>(d', s'). (ADestroy d', s')) (destroy_step Connector d s))"
| "connect_step ok AError s =
     (let s1 = (if nm_client (pst s) \<ge> 0
                then s\<lparr>open_fds := open_fds s - {nm_client (pst s)}, pst := (pst s)\<lparr>nm_client := - 1\<rparr>\<rparr> else s)
      in Some (AIdle, if via_connect s then s1\<lparr>control_mutex := None\<rparr> else s1\<lparr>pst := reset_back (reset_front (pst s1))\<rparr>))"

text \<open>
  The steps. The listener accepts a connection when \<open>is_alread_work\<close> is 0; \<open>free\<close> tells what else it and the callers of
  \<open>NM_connect\<close> wait for (the code: nothing). An accepted connection whose socket options fail leaves its descriptor open;
  \<open>NM_connect\<close> without a socket closes the descriptor of before, and a second \<open>NM_connect\<close> that of the working connection.
  A caller of \<open>NM_disconnect\<close> runs \<open>NM_destroy_work_thread\<close> as a checker does at its end, and is kept in the same list.
  \<open>idle\<close> is the checker's thirty seconds without a change of the counter.
\<close>

inductive net_step :: "(net_sys \<Rightarrow> bool) \<Rightarrow> net_sys \<Rightarrow> net_sys \<Rightarrow> bool" for free where
  accept: "connect s = AIdle \<Longrightarrow> nm_is_alread_work (pst s) = 0 \<Longrightarrow> free s \<Longrightarrow> 0 < fd \<Longrightarrow> fd \<notin> open_fds s \<Longrightarrow>
     net_step free s (s\<lparr>pst := (pst s)\<lparr>nm_client := fd\<rparr>, open_fds := insert fd (open_fds s), connect := ASender, via_connect := False\<rparr>)"
| accept_fails: "connect s = AIdle \<Longrightarrow> nm_is_alread_work (pst s) = 0 \<Longrightarrow> free s \<Longrightarrow> 0 < fd \<Longrightarrow> fd \<notin> open_fds s \<Longrightarrow>
     net_step free s (s\<lparr>pst := reset_back (reset_front (pst s)), open_fds := insert fd (open_fds s)\<rparr>)"
| connect: "connect s = AIdle \<Longrightarrow> control_mutex s = None \<Longrightarrow> nm_is_alread_work (pst s) \<noteq> 1 \<Longrightarrow> free s \<Longrightarrow> 0 < fd \<Longrightarrow> fd \<notin> open_fds s \<Longrightarrow>
     net_step free s (s\<lparr>pst := (pst s)\<lparr>nm_client := fd, nm_thread_stop_num := 0\<rparr>, open_fds := insert fd (open_fds s), connect := ASender,
       via_connect := True, control_mutex := Some Connector\<rparr>)"
| connect_fails: "connect s = AIdle \<Longrightarrow> control_mutex s = None \<Longrightarrow> nm_is_alread_work (pst s) \<noteq> 1 \<Longrightarrow> free s \<Longrightarrow>
     fds = (if has_socket then open_fds s else open_fds s - {nm_client (pst s)}) \<Longrightarrow>
     net_step free s (s\<lparr>pst := (pst s)\<lparr>nm_client := - 1\<rparr>, open_fds := fds\<rparr>)"
| connect_refused: "connect s = AIdle \<Longrightarrow> control_mutex s = None \<Longrightarrow> nm_is_alread_work (pst s) = 1 \<Longrightarrow> free s \<Longrightarrow>
     net_step free s (if nm_client (pst s) \<ge> 0
       then s\<lparr>open_fds := open_fds s - {nm_client (pst s)}, pst := (pst s)\<lparr>nm_client := - 1\<rparr>\<rparr> else s)"
| disconnect: "free s \<Longrightarrow> net_step free s (s\<lparr>checkers := checkers s @ [Some (CDestroy DLock)]\<rparr>)"
| create: "connect s = a \<Longrightarrow> connect_step ok a s = Some (a', s') \<Longrightarrow> net_step free s (s'\<lparr>connect := a'\<rparr>)"
| sender_ends: "sender_th s = Active \<Longrightarrow> net_step free s (s\<lparr>sender_th := Ended\<rparr>)"
| receiver_ends: "receiver_th s = Active \<Longrightarrow> net_step free s (s\<lparr>receiver_th := Ended, pst := recv_thread_end (pst s)\<rparr>)"
| check_stops: "i < length (checkers s) \<Longrightarrow> checkers s ! i = Some CWatch \<Longrightarrow> \<not> check_goes_on (pst s) \<or> idle \<Longrightarrow>
     net_step free s (s\<lparr>checkers := (checkers s)[i := Some (CDestroy DLock)]\<rparr>)"
| destroy: "i < length (checkers s) \<Longrightarrow> checkers s ! i = Some (CDestroy d) \<Longrightarrow> destroy_step (Checker i) d s = Some (d', s') \<Longrightarrow>
     net_step free s (s'\<lparr>checkers := (checkers s)[i := if d' = DOut then None else Some (CDestroy d')]\<rparr>)"

inductive_cases net_stepE: "net_step free s t"

inductive net_run :: "(net_sys \<Rightarrow> bool) \<Rightarrow> net_sys \<Rightarrow> net_sys \<Rightarrow> bool" for free where
  here: "net_run free s s"
| further: "net_run free s t \<Longrightarrow> net_step free t u \<Longrightarrow> net_run free s u"

lemma net_run_trans: "net_run free t u \<Longrightarrow> net_run free s t \<Longrightarrow> net_run free s u"
  by (induction rule: net_run.induct) (auto intro: net_run.intros)

text \<open>A closed set of states is never left.\<close>

lemma net_run_invariant:
  assumes "net_run free s t" "P s" "\<And>s t. P s \<Longrightarrow> net_step free s t \<Longrightarrow> P t"
  shows "P t"
  using assms by (induction rule: net_run.induct) auto

fun net_path :: "(net_sys \<Rightarrow> bool) \<Rightarrow> net_sys \<Rightarrow> net_sys list \<Rightarrow> bool" where
  "net_path free s [] = True"
| "net_path free s (t # ts) = (net_step free s t \<and> net_path free t ts)"

section \<open>A connection comes down\<close>

text \<open>A slot that the listener can use again.\<close>

definition slot_free :: "net_sys \<Rightarrow> bool" where
  "slot_free s \<longleftrightarrow> connect s = AIdle \<and> nm_is_alread_work (pst s) = 0 \<and> nm_client (pst s) = - 1 \<and> nm_stop_work_by_user (pst s) = 0 \<and>
     nm_recv_th_flag (pst s) = 0 \<and> (nm_send_data_mode (pst s) = NET_SEND_BUF_MODE \<longrightarrow> nm_send_th_flag (pst s) = 0) \<and>
     sender_th s = NoThread \<and> receiver_th s = NoThread \<and> control_mutex s = None \<and> set (checkers s) \<subseteq> {None} \<and> \<not> freed s"

text \<open>Where a connection may be while its checker \<open>i\<close> has come to \<open>c\<close>.\<close>

definition up :: "net_sys \<Rightarrow> bool" where
  "up s \<longleftrightarrow> nm_client (pst s) \<ge> 0 \<and> nm_is_alread_work (pst s) = 1"

definition sending :: "net_sys \<Rightarrow> bool" where
  "sending s \<longleftrightarrow> (if nm_send_data_mode (pst s) = NET_SEND_BUF_MODE then nm_send_th_flag (pst s) = 1 \<and> sender_th s \<noteq> NoThread else sender_th s = NoThread)"

definition silent :: "net_sys \<Rightarrow> bool" where
  "silent s \<longleftrightarrow> (nm_send_data_mode (pst s) = NET_SEND_BUF_MODE \<longrightarrow> nm_send_th_flag (pst s) = 0) \<and> sender_th s = NoThread"

definition receiving :: "net_sys \<Rightarrow> bool" where
  "receiving s \<longleftrightarrow> nm_recv_th_flag (pst s) = 1 \<and> receiver_th s \<noteq> NoThread"

definition deaf :: "net_sys \<Rightarrow> bool" where
  "deaf s \<longleftrightarrow> nm_recv_th_flag (pst s) = 0 \<and> receiver_th s = NoThread"

fun phase :: "nat \<Rightarrow> check_pc option \<Rightarrow> net_sys \<Rightarrow> bool" where
  "phase i (Some CWatch) s = (control_mutex s = None \<and> up s \<and> sending s \<and> receiving s)"
| "phase i (Some (CDestroy DLock)) s = (control_mutex s = None \<and> up s \<and> sending s \<and> receiving s)"
| "phase i (Some (CDestroy DSend)) s = (control_mutex s = Some (Checker i) \<and> up s \<and> sending s \<and> receiving s)"
| "phase i (Some (CDestroy DJoinSend)) s = (control_mutex s = Some (Checker i) \<and> up s \<and> nm_send_th_flag (pst s) = 0 \<and>
     sender_th s \<noteq> NoThread \<and> receiving s)"
| "phase i (Some (CDestroy DRecv)) s = (control_mutex s = Some (Checker i) \<and> up s \<and> silent s \<and> receiving s)"
| "phase i (Some (CDestroy DJoinRecv)) s = (control_mutex s = Some (Checker i) \<and> up s \<and> silent s \<and> nm_recv_th_flag (pst s) = 0 \<and>
     receiver_th s \<noteq> NoThread)"
| "phase i (Some (CDestroy DClose)) s = (control_mutex s = Some (Checker i) \<and> up s \<and> silent s \<and> deaf s)"
| "phase i (Some (CDestroy DReset)) s = (control_mutex s = Some (Checker i) \<and> nm_client (pst s) = - 1 \<and> silent s \<and> deaf s)"
| "phase i (Some (CDestroy DReset2)) s = (control_mutex s = Some (Checker i) \<and> nm_client (pst s) = - 1 \<and> nm_is_alread_work (pst s) = 0 \<and> silent s \<and> deaf s)"
| "phase i (Some (CDestroy DUnlock)) s = (control_mutex s = Some (Checker i) \<and> nm_is_alread_work (pst s) = 0 \<and> nm_client (pst s) = - 1 \<and>
     nm_stop_work_by_user (pst s) = 0 \<and> silent s \<and> deaf s)"
| "phase i (Some (CDestroy DOut)) s = False"
| "phase i None s = slot_free s"

definition closing :: "nat \<Rightarrow> net_sys \<Rightarrow> bool" where
  "closing i s \<longleftrightarrow> connect s = AIdle \<and> nm_build_once (pst s) = BUILD_MODE_ONCE \<and> \<not> freed s \<and> i < length (checkers s) \<and>
     (\<forall>j < length (checkers s). j \<noteq> i \<longrightarrow> checkers s ! j = None) \<and> phase i (checkers s ! i) s"

fun steps_left :: "check_pc option \<Rightarrow> nat" where
  "steps_left None = 0"
| "steps_left (Some CWatch) = 10"
| "steps_left (Some (CDestroy d)) =
     (case d of DLock \<Rightarrow> 9 | DSend \<Rightarrow> 8 | DJoinSend \<Rightarrow> 7 | DRecv \<Rightarrow> 6 | DJoinRecv \<Rightarrow> 5 | DClose \<Rightarrow> 4 | DReset \<Rightarrow> 3 | DReset2 \<Rightarrow> 2 | DUnlock \<Rightarrow> 1 | DOut \<Rightarrow> 0)"

definition left :: "nat \<Rightarrow> net_sys \<Rightarrow> nat" where
  "left i s = steps_left (checkers s ! i) + (if sender_th s = Active then 1 else 0) + (if receiver_th s = Active then 1 else 0)"

lemmas phase_defs = up_def sending_def silent_def receiving_def deaf_def

lemma recv_thread_end_keeps [simp]:
  "nm_client (recv_thread_end p) = nm_client p" "nm_is_alread_work (recv_thread_end p) = nm_is_alread_work p"
  "nm_send_th_flag (recv_thread_end p) = nm_send_th_flag p" "nm_recv_th_flag (recv_thread_end p) = nm_recv_th_flag p"
  "nm_send_data_mode (recv_thread_end p) = nm_send_data_mode p" "nm_build_once (recv_thread_end p) = nm_build_once p"
  by (simp_all add: recv_thread_end_def Let_def)

lemma reset_fields [simp]:
  "nm_client (reset_front p) = nm_client p" "nm_is_alread_work (reset_front p) = 0" "nm_send_th_flag (reset_front p) = nm_send_th_flag p"
  "nm_recv_th_flag (reset_front p) = nm_recv_th_flag p" "nm_send_data_mode (reset_front p) = nm_send_data_mode p"
  "nm_build_once (reset_front p) = nm_build_once p"
  "nm_client (reset_back p) = - 1" "nm_is_alread_work (reset_back p) = nm_is_alread_work p" "nm_send_th_flag (reset_back p) = nm_send_th_flag p"
  "nm_recv_th_flag (reset_back p) = nm_recv_th_flag p" "nm_send_data_mode (reset_back p) = nm_send_data_mode p"
  "nm_build_once (reset_back p) = nm_build_once p" "nm_stop_work_by_user (reset_back p) = 0"
  by (simp_all add: reset_front_def reset_back_def clear_bindings_def)

lemma phase_receiver_ends:
  "phase i c s \<Longrightarrow> receiver_th s = Active \<Longrightarrow> phase i c (s\<lparr>receiver_th := Ended, pst := recv_thread_end (pst s)\<rparr>)"
  by (induction i c s rule: phase.induct) (auto simp: phase_defs slot_free_def split: if_splits)

lemma phase_sender_ends: "phase i c s \<Longrightarrow> sender_th s = Active \<Longrightarrow> phase i c (s\<lparr>sender_th := Ended\<rparr>)"
  by (induction i c s rule: phase.induct) (auto simp: phase_defs slot_free_def split: if_splits)

lemma phase_checkers [simp]: "c \<noteq> None \<Longrightarrow> phase i c (s\<lparr>checkers := cs\<rparr>) = phase i c s"
  by (induction i c s rule: phase.induct) (auto simp: phase_defs)

text \<open>The checker's own step: the next phase, and one step less.\<close>

lemma destroy_step_keeps:
  assumes "destroy_step who d s = Some (d', s')" "nm_build_once (pst s) = BUILD_MODE_ONCE"
  shows "nm_build_once (pst s') = nm_build_once (pst s)" "connect s' = connect s" "freed s' = freed s" "checkers s' = checkers s"
  using assms by (cases d; auto simp: BUILD_MODE_ALLWAY_def BUILD_MODE_ONCE_def split: if_splits)+

lemma phase_destroy_left:
  assumes "destroy_step who d s = Some (d', s')"
  shows "steps_left (Some (CDestroy d')) + (if sender_th s' = Active then 1 else 0) + (if receiver_th s' = Active then 1 else 0) <
      steps_left (Some (CDestroy d)) + (if sender_th s = Active then 1 else 0) + (if receiver_th s = Active then 1 else (0::nat))"
  using assms by (cases d; simp split: if_splits; auto)

lemma phase_destroy_step:
  assumes "phase i (Some (CDestroy d)) s" "destroy_step (Checker i) d s = Some (d', s')" "nm_build_once (pst s) = BUILD_MODE_ONCE" "d' \<noteq> DOut"
  shows "phase i (Some (CDestroy d')) s'"
  using assms by (cases d; simp add: phase_defs BUILD_MODE_ALLWAY_def BUILD_MODE_ONCE_def split: if_splits; auto simp: phase_defs)

lemma phase_destroy_out:
  assumes "phase i (Some (CDestroy d)) s" "destroy_step (Checker i) d s = Some (DOut, s')" "connect s = AIdle" "\<not> freed s" "set cs \<subseteq> {None}"
  shows "slot_free (s'\<lparr>checkers := cs\<rparr>)"
  using assms by (cases d; simp add: phase_defs slot_free_def split: if_splits; auto simp: phase_defs slot_free_def)

text \<open>While no other connection is asked for, every step brings the slot closer to being free.\<close>

lemma closing_step:
  assumes "net_step (\<lambda>_. False) s t" "closing i s"
  shows "closing i t \<and> left i t < left i s"
  using assms(1)
proof cases
  case (create a ok a' s')
  then show ?thesis using assms(2) by (simp add: closing_def)
next
  case sender_ends
  then show ?thesis using assms(2) phase_sender_ends by (auto simp: closing_def left_def)
next
  case receiver_ends
  then show ?thesis using assms(2) phase_receiver_ends by (auto simp: closing_def left_def)
next
  case (check_stops k idle)
  then have k: "k = i" using assms(2) by (auto simp: closing_def)
  then show ?thesis using check_stops assms(2) by (auto simp: closing_def left_def phase_defs)
next
  case (destroy k d d' s')
  then have k: "k = i" using assms(2) by (auto simp: closing_def)
  then have c: "checkers s ! i = Some (CDestroy d)" "i < length (checkers s)" "connect s = AIdle" "nm_build_once (pst s) = BUILD_MODE_ONCE"
      "\<not> freed s" "\<And>j. j < length (checkers s) \<Longrightarrow> j \<noteq> i \<Longrightarrow> checkers s ! j = None" "phase i (Some (CDestroy d)) s"
    using assms(2) destroy by (auto simp: closing_def)
  note D = destroy(4) [unfolded k]
  note keep = destroy_step_keeps [OF D c(4)]
  have t: "t = s'\<lparr>checkers := (checkers s)[i := if d' = DOut then None else Some (CDestroy d')]\<rparr>" using destroy k by simp
  have l: "left i t < left i s" using phase_destroy_left [OF D] c(1,2) by (auto simp: t left_def)
  have "phase i (checkers t ! i) t"
  proof (cases "d' = DOut")
    case True
    have "set ((checkers s)[i := None]) \<subseteq> {None}"
      using c(2,6) by (auto simp: set_conv_nth nth_list_update)
    then show ?thesis using phase_destroy_out [OF c(7) D [unfolded True] c(3,5)] True c(2) by (simp add: t)
  next
    case False
    then show ?thesis using phase_destroy_step [OF c(7) D c(4)] c(2) by (simp add: t)
  qed
  then have "closing i t" using keep c by (auto simp: closing_def t nth_list_update)
  then show ?thesis using l by simp
qed (simp_all add: assms)

lemma closing_progress:
  assumes "closing i s"
  shows "(\<exists>t. net_step (\<lambda>_. False) s t) \<or> slot_free s"
proof (cases "sender_th s = Active \<or> receiver_th s = Active")
  case True
  then show ?thesis using net_step.sender_ends net_step.receiver_ends by blast
next
  case False
  have i: "i < length (checkers s)" using assms by (simp add: closing_def)
  show ?thesis
  proof (cases "checkers s ! i")
    case None
    then show ?thesis using assms by (simp add: closing_def)
  next
    case (Some c)
    show ?thesis
    proof (cases c)
      case CWatch
      then show ?thesis using net_step.check_stops [OF i, of True "\<lambda>_. False"] Some by auto
    next
      case (CDestroy d)
      have "\<exists>d' s'. destroy_step (Checker i) d s = Some (d', s')"
        using assms Some CDestroy False by (cases d) (auto simp: closing_def)
      then show ?thesis using net_step.destroy [OF i] Some CDestroy by blast
    qed
  qed
qed

lemma closing_path: "net_path (\<lambda>_. False) s ts \<Longrightarrow> closing i s \<Longrightarrow> closing i (last (s # ts)) \<and> length ts + left i (last (s # ts)) \<le> left i s"
proof (induction ts arbitrary: s)
  case (Cons t ts)
  then have "closing i t" "left i t < left i s" using closing_step by auto
  then show ?case using Cons.IH [of t] Cons.prems(1) by auto
qed simp

lemma steps_left_bound: "steps_left c \<le> 10"
  by (cases c rule: steps_left.cases) (auto split: destroy_pc.splits)

lemma left_bound: "left i s \<le> 12"
  using steps_left_bound [of "checkers s ! i"] by (simp add: left_def)

text \<open>The other descriptors of the program are not touched.\<close>

definition other_fds :: "net_sys \<Rightarrow> int set" where
  "other_fds s = (if nm_client (pst s) \<ge> 0 then open_fds s - {nm_client (pst s)} else open_fds s)"

lemma other_fds_destroy: "destroy_step who d s = Some (d', s') \<Longrightarrow> (d = DReset2 \<Longrightarrow> nm_client (pst s) = - 1) \<Longrightarrow> other_fds s' = other_fds s"
  by (cases d) (auto simp: other_fds_def split: if_splits)

lemma other_fds_step:
  assumes "net_step (\<lambda>_. False) s t" "closing i s"
  shows "other_fds t = other_fds s"
  using assms(1)
proof cases
  case (create a ok a' s')
  then show ?thesis using assms(2) by (simp add: closing_def)
next
  case (destroy k d d' s')
  then have "phase i (Some (CDestroy d)) s" using assms(2) by (auto simp: closing_def)
  then have "d = DReset2 \<Longrightarrow> nm_client (pst s) = - 1" by auto
  then have "other_fds s' = other_fds s" by (rule other_fds_destroy [OF destroy(4)])
  moreover have "other_fds t = other_fds s'" unfolding destroy(1) by (simp add: other_fds_def)
  ultimately show ?thesis by simp
qed (simp_all add: other_fds_def)

lemma other_fds_path: "net_path (\<lambda>_. False) s ts \<Longrightarrow> closing i s \<Longrightarrow> other_fds (last (s # ts)) = other_fds s"
proof (induction ts arbitrary: s)
  case (Cons t ts)
  then show ?case using other_fds_step closing_step by auto
qed simp

section \<open>A connection comes up\<close>

text \<open>A connection served by its threads, the checker \<open>i\<close> watching.\<close>

definition serving :: "nat \<Rightarrow> net_sys \<Rightarrow> bool" where
  "serving i s \<longleftrightarrow> closing i s \<and> checkers s ! i = Some CWatch"

text \<open>A client as \<open>NM_ini_st\<close> leaves it.\<close>

definition client_sys :: "net_module \<Rightarrow> net_sys" where
  "client_sys p = \<lparr>pst = p, sender_th = NoThread, receiver_th = NoThread, checkers = [], connect = AIdle, via_connect = False,
     control_mutex = None, open_fds = {}, freed = False\<rparr>"

text \<open>Schedules, for runs that are written out.\<close>

datatype net_event = Accept int | Create bool | SenderEnds | ReceiverEnds | CheckStops nat | Destroy nat

fun exec :: "net_event \<Rightarrow> net_sys \<Rightarrow> net_sys option" where
  "exec (Accept fd) s =
     (if connect s = AIdle \<and> nm_is_alread_work (pst s) = 0 \<and> 0 < fd \<and> fd \<notin> open_fds s
      then Some (s\<lparr>pst := (pst s)\<lparr>nm_client := fd\<rparr>, open_fds := insert fd (open_fds s), connect := ASender, via_connect := False\<rparr>) else None)"
| "exec (Create ok) s = map_option (\<lambda>(a', s'). s'\<lparr>connect := a'\<rparr>) (connect_step ok (connect s) s)"
| "exec SenderEnds s = (if sender_th s = Active then Some (s\<lparr>sender_th := Ended\<rparr>) else None)"
| "exec ReceiverEnds s = (if receiver_th s = Active then Some (s\<lparr>receiver_th := Ended, pst := recv_thread_end (pst s)\<rparr>) else None)"
| "exec (CheckStops i) s =
     (if i < length (checkers s) \<and> checkers s ! i = Some CWatch then Some (s\<lparr>checkers := (checkers s)[i := Some (CDestroy DLock)]\<rparr>) else None)"
| "exec (Destroy i) s =
     (if i < length (checkers s)
      then case checkers s ! i of
        Some (CDestroy d) \<Rightarrow> map_option (\<lambda>(d', s'). s'\<lparr>checkers := (checkers s)[i := if d' = DOut then None else Some (CDestroy d')]\<rparr>)
          (destroy_step (Checker i) d s)
      | _ \<Rightarrow> None
      else None)"

fun exec_all :: "net_event list \<Rightarrow> net_sys \<Rightarrow> net_sys option" where
  "exec_all [] s = Some s"
| "exec_all (e # es) s = exec e s \<bind> exec_all es"

lemma exec_sound: "exec e s = Some t \<Longrightarrow> net_step (\<lambda>_. True) s t"
proof (cases e)
  case (Destroy i)
  assume "exec e s = Some t"
  then obtain d d' s' where d: "i < length (checkers s)" "checkers s ! i = Some (CDestroy d)" "destroy_step (Checker i) d s = Some (d', s')"
      "t = s'\<lparr>checkers := (checkers s)[i := if d' = DOut then None else Some (CDestroy d')]\<rparr>"
    using Destroy by (auto split: if_splits option.splits check_pc.splits)
  show ?thesis unfolding d(4) by (rule net_step.destroy [OF d(1-3)])
qed (auto intro: net_step.intros net_step.check_stops [of _ _ True] split: if_splits)

lemma exec_all_run: "exec_all es s = Some t \<Longrightarrow> net_run (\<lambda>_. True) s t"
proof (induction es arbitrary: s)
  case (Cons e es)
  then obtain u where u: "exec e s = Some u" "exec_all es u = Some t" by (auto split: bind_splits)
  show ?case by (rule net_run_trans [OF Cons.IH [OF u(2)] net_run.further [OF net_run.here exec_sound [OF u(1)]]])
qed (auto intro: net_run.here)

lemmas run_simps = exec_all.simps exec.simps

text \<open>The steps that bring a connection up in direct mode.\<close>

definition bring_up :: "int \<Rightarrow> net_event list" where
  "bring_up fd = [Accept fd, Create True, Create True, Create True, Create True, Create True]"

lemma bring_up_serves:
  assumes "connect s = AIdle" "nm_is_alread_work (pst s) = 0" "sender_th s = NoThread" "control_mutex s = None" "\<not> freed s"
    and "nm_build_once (pst s) = BUILD_MODE_ONCE" "nm_send_data_mode (pst s) = NET_SEND_DIRECT_MODE" "set (checkers s) \<subseteq> {None}"
    and "0 < fd" "fd \<notin> open_fds s"
  shows "\<exists>t. exec_all (bring_up fd) s = Some t \<and> serving (length (checkers s)) t \<and> nm_client (pst t) = fd \<and> open_fds t = insert fd (open_fds s)"
proof -
  have none: "checkers s ! j = None" if "j < length (checkers s)" for j using assms(8) nth_mem [OF that] by blast
  show ?thesis
    using assms none
    by (auto simp: bring_up_def serving_def closing_def phase_defs nth_append NET_SEND_DIRECT_MODE_def NET_SEND_BUF_MODE_def)
qed

section \<open>Properties\<close>


text \<open>A client of the camera: direct mode, used again after each connection.\<close>

definition demo_client :: net_module where
  "demo_client = fresh_net_module\<lparr>nm_client := - 1, nm_send_th_flag := 0, nm_recv_th_flag := 0, nm_is_alread_work := 0,
     nm_send_data_mode := NET_SEND_DIRECT_MODE\<rparr>"


text \<open>States that nobody leaves: the slot is taken, but there is no connection and no thread. A caller of \<open>NM_disconnect\<close>
  finds nothing to take down.\<close>

definition idle_destroys :: "check_pc option set" where
  "idle_destroys = insert None ((\<lambda>d. Some (CDestroy d)) ` {DLock, DSend, DRecv, DClose, DUnlock})"

definition slot_lost :: "net_sys \<Rightarrow> bool" where
  "slot_lost s \<longleftrightarrow> connect s = AIdle \<and> nm_is_alread_work (pst s) = 1 \<and> nm_client (pst s) = - 1 \<and> nm_recv_th_flag (pst s) = 0 \<and>
     nm_send_data_mode (pst s) = NET_SEND_DIRECT_MODE \<and> sender_th s = NoThread \<and> receiver_th s = NoThread \<and>
     set (checkers s) \<subseteq> idle_destroys"

lemma idle_destroys_iff [simp]:
  "None \<in> idle_destroys" "Some CWatch \<notin> idle_destroys"
  "Some (CDestroy d) \<in> idle_destroys \<longleftrightarrow> d \<in> {DLock, DSend, DRecv, DClose, DUnlock}"
  by (auto simp: idle_destroys_def)

lemma slot_lost_destroy:
  assumes "slot_lost s" "d \<in> {DLock, DSend, DRecv, DClose, DUnlock}" "destroy_step who d s = Some (d', s')"
  shows "slot_lost s' \<and> open_fds s' = open_fds s \<and> (d' = DOut \<or> d' \<in> {DLock, DSend, DRecv, DClose, DUnlock})"
  using assms by (cases d) (simp_all add: slot_lost_def NET_SEND_DIRECT_MODE_def NET_SEND_BUF_MODE_def split: if_splits, auto)

lemma slot_lost_step:
  assumes "net_step free s t" "slot_lost s"
  shows "slot_lost t \<and> open_fds t = open_fds s"
  using assms(1)
proof cases
  case (destroy i d d' s')
  have c: "set (checkers s) \<subseteq> idle_destroys" using assms(2) by (simp add: slot_lost_def)
  moreover have "Some (CDestroy d) \<in> set (checkers s)" using destroy by (metis nth_mem)
  ultimately have "d \<in> {DLock, DSend, DRecv, DClose, DUnlock}" by (metis idle_destroys_iff(3) subsetD)
  note k = slot_lost_destroy [OF assms(2) this destroy(4)]
  have "set ((checkers s)[i := if d' = DOut then None else Some (CDestroy d')]) \<subseteq> idle_destroys"
    using k c by (intro subset_trans [OF set_update_subset_insert]) auto
  then show ?thesis using k by (simp add: destroy slot_lost_def)
next
  case (check_stops i idle)
  then have "Some CWatch \<in> set (checkers s)" by (metis nth_mem)
  then show ?thesis using assms(2) by (auto simp: slot_lost_def)
qed (use assms(2) in \<open>simp_all add: slot_lost_def\<close>)

lemma slot_lost_stays:
  assumes "slot_lost s"
  shows "{t. net_run free s t} \<subseteq> {t. slot_lost t \<and> open_fds t = open_fds s}"
proof (intro subsetI CollectI)
  fix t assume "t \<in> {t. net_run free s t}"
  then have "net_run free s t" by simp
  then show "slot_lost t \<and> open_fds t = open_fds s"
    by (rule net_run_invariant) (use assms slot_lost_step in auto)
qed

text \<open>The steps of checker \<open>i\<close> in direct mode: all of them, to the middle of the reset, and the rest.\<close>

definition check_down :: "nat \<Rightarrow> net_event list" where
  "check_down i = [CheckStops i, Destroy i, Destroy i, Destroy i, Destroy i, Destroy i, Destroy i]"

lemmas schedule_simps = bring_up_def check_down_def client_sys_def NM_ini_st_def clear_bindings_def recv_thread_end_def reset_front_def reset_back_def
  NET_SEND_DIRECT_MODE_def NET_SEND_BUF_MODE_def BUILD_MODE_ONCE_def BUILD_MODE_ALLWAY_def Let_def

text \<open>C38: A connection that ends at once loses its client for ever. \<open>NM_create_work_thread\<close> sets \<open>is_alread_work\<close> after it has
  started the checker. When the peer hangs up before that, the checker takes the connection down first, and the slot
  stays marked as working: from then on, whatever is called, the listener never takes it again.\<close>

theorem early_end_loses_slot:
  assumes "NM_ini_st m f1 f2 count BUILD_MODE_ONCE NET_SEND_DIRECT_MODE n = Some p"
  shows "\<exists>t. net_run (\<lambda>_. True) (client_sys p) t \<and> open_fds t = {} \<and> {u. net_run (\<lambda>_. True) t u} \<subseteq> {u. slot_lost u}"
proof -
  obtain t where t: "exec_all ([Accept 5, Create True, Create True, Create True, ReceiverEnds] @ check_down 0 @
      [Destroy 0, Destroy 0, Create True, Create True]) (client_sys p) = Some t" "slot_lost t" "open_fds t = {}"
    using assms by (auto simp: schedule_simps slot_lost_def split: bind_splits if_splits)
  show ?thesis
    using exec_all_run [OF t(1)] slot_lost_stays [OF t(2)] t(3) by blast
qed

lemma early_end_loses_slot_witness:
  "\<exists>p t. NM_ini_st True True True 0 BUILD_MODE_ONCE NET_SEND_DIRECT_MODE 131072 = Some p \<and>
    net_run (\<lambda>_. True) (client_sys p) t \<and> {u. net_run (\<lambda>_. True) t u} \<subseteq> {u. slot_lost u}"
proof -
  obtain p where "NM_ini_st True True True 0 BUILD_MODE_ONCE NET_SEND_DIRECT_MODE 131072 = Some p"
    by (simp add: NM_ini_st_def init_cycle_buffer_def NET_SEND_DIRECT_MODE_def NET_SEND_BUF_MODE_def)
  with early_end_loses_slot [OF this] show ?thesis by blast
qed

text \<open>A connection accepted during a reset loses its descriptor. The listener waits for \<open>is_alread_work = 0\<close>, which \<open>NM_reset\<close>
  sets before it clears \<open>client\<close>; a connection accepted in between gets its threads and loses its descriptor to the
  reset. When it ends, its checker finds no client, closes nothing and resets nothing: the descriptor stays open and
  the slot is lost.\<close>

theorem accept_during_reset_leaks:
  assumes "NM_ini_st m f1 f2 count BUILD_MODE_ONCE NET_SEND_DIRECT_MODE n = Some p"
  shows "\<exists>t. net_run (\<lambda>_. True) (client_sys p) t \<and> open_fds t = {6} \<and> {u. net_run (\<lambda>_. True) t u} \<subseteq> {u. slot_lost u \<and> 6 \<in> open_fds u}"
proof -
  have "\<exists>t. exec_all (bring_up 5 @ [ReceiverEnds] @ check_down 0 @ bring_up 6 @ [Destroy 0, Destroy 0] @
      [ReceiverEnds] @ check_down 1) (client_sys p) = Some t \<and> slot_lost t \<and> open_fds t = {6}"
    using assms by (auto simp: schedule_simps slot_lost_def split: bind_splits if_splits)
  then obtain t where t: "exec_all (bring_up 5 @ [ReceiverEnds] @ check_down 0 @ bring_up 6 @ [Destroy 0, Destroy 0] @
      [ReceiverEnds] @ check_down 1) (client_sys p) = Some t" "slot_lost t" "open_fds t = {6}" by blast
  show ?thesis
    using exec_all_run [OF t(1)] slot_lost_stays [OF t(2)] t(3) by blast
qed

lemma accept_during_reset_leaks_witness:
  "\<exists>p t. NM_ini_st True True True 0 BUILD_MODE_ONCE NET_SEND_DIRECT_MODE 131072 = Some p \<and>
    net_run (\<lambda>_. True) (client_sys p) t \<and> open_fds t = {6}"
proof -
  obtain p where "NM_ini_st True True True 0 BUILD_MODE_ONCE NET_SEND_DIRECT_MODE 131072 = Some p"
    by (simp add: NM_ini_st_def init_cycle_buffer_def NET_SEND_DIRECT_MODE_def NET_SEND_BUF_MODE_def)
  with accept_during_reset_leaks [OF this] show ?thesis by blast
qed

text \<open>A thread that cannot be created blocks \<open>NM_connect\<close> for ever. \<open>NM_connect\<close> holds \<open>control_mutex\<close> when
  \<open>NM_create_work_thread\<close> fails, and \<open>NM_destroy_work_thread\<close> takes the same mutex: whatever the other threads do, the
  caller stays where it is and the mutex is never given back.\<close>

theorem NM_connect_deadlock:
  assumes "connect s = AIdle" "control_mutex s = None" "nm_is_alread_work (pst s) = 0" "set (checkers s) \<subseteq> {None}" "0 < fd" "fd \<notin> open_fds s"
    and "nm_send_data_mode (pst s) = NET_SEND_DIRECT_MODE"
  shows "\<exists>t. net_run (\<lambda>_. True) s t \<and>
    {u. net_run (\<lambda>_. True) t u} \<subseteq> {u. connect u = ADestroy DLock \<and> control_mutex u = Some Connector \<and> fd \<in> open_fds u}"
proof -
  define stuck :: "net_sys \<Rightarrow> bool" where "stuck u \<longleftrightarrow> connect u = ADestroy DLock \<and> control_mutex u = Some Connector \<and> fd \<in> open_fds u \<and>
    set (checkers u) \<subseteq> {None, Some CWatch, Some (CDestroy DLock)}" for u
  have stays: "stuck u'" if "net_step (\<lambda>_. True) u u'" "stuck u" for u u'
    using that(1)
  proof cases
    case (check_stops i idle)
    then show ?thesis using that(2) set_update_subset_insert [of "checkers u" i] by (fastforce simp: stuck_def)
  next
    case (destroy i d d' s')
    then have "Some (CDestroy d) \<in> set (checkers u)" by (metis nth_mem)
    then have "d = DLock" using that(2) by (auto simp: stuck_def)
    then show ?thesis using destroy that(2) by (simp add: stuck_def)
  qed (use that(2) in \<open>auto simp: stuck_def\<close>)
  let ?s1 = "s\<lparr>pst := (pst s)\<lparr>nm_client := fd, nm_thread_stop_num := 0\<rparr>, open_fds := insert fd (open_fds s), connect := ASender,
       via_connect := True, control_mutex := Some Connector\<rparr>"
  have 1: "net_step (\<lambda>_. True) s ?s1" using assms by (intro net_step.connect) auto
  have 2: "net_step (\<lambda>_. True) ?s1 (?s1\<lparr>connect := AReceiver\<rparr>)"
    using net_step.create [of ?s1 ASender False AReceiver ?s1] assms(7) by (simp add: NET_SEND_DIRECT_MODE_def NET_SEND_BUF_MODE_def)
  let ?t = "?s1\<lparr>pst := (pst ?s1)\<lparr>nm_recv_th_flag := 0\<rparr>, connect := ADestroy DLock\<rparr>"
  have 3: "net_step (\<lambda>_. True) (?s1\<lparr>connect := AReceiver\<rparr>) ?t"
    using net_step.create [of "?s1\<lparr>connect := AReceiver\<rparr>" AReceiver False] by simp
  have "stuck ?t" using assms(4) by (auto simp: stuck_def)
  then have "{u. net_run (\<lambda>_. True) ?t u} \<subseteq> {u. stuck u}" using net_run_invariant [of _ ?t _ stuck] stays by blast
  moreover have "net_run (\<lambda>_. True) s ?t"
    by (rule net_run.further [OF net_run.further [OF net_run.further [OF net_run.here 1] 2] 3])
  ultimately show ?thesis by (intro exI [of _ ?t]) (auto simp: stuck_def)
qed

lemma NM_connect_deadlock_witness:
  "\<exists>t. net_run (\<lambda>_. True) (client_sys demo_client) t \<and>
    {u. net_run (\<lambda>_. True) t u} \<subseteq> {u. connect u = ADestroy DLock \<and> control_mutex u = Some Connector \<and> 5 \<in> open_fds u}"
  by (rule NM_connect_deadlock) (simp_all add: client_sys_def demo_client_def)

text \<open>Every connection starts with an empty ring. After \<open>NM_reset\<close>, whatever the ring held, a client in buffered mode
  whose threads are started again represents the empty queue, so the contract of the connection holds from the
  start.\<close>

theorem reset_client_starts_empty:
  assumes "cb_ok (cycle_send_buf p)" "unat (cb_size (cycle_send_buf p)) \<le> 2 ^ 20" "cb_max_write_buf (cycle_send_buf p) = MAX_FRAME_BUF_SIZE"
    and "nm_send_data_mode p = NET_SEND_BUF_MODE" "0 < fd" "NM_reset (Some p) = (r, Some p')"
  shows "r = 1 \<and> nm_client p' = - 1 \<and> nm_is_alread_work p' = 0 \<and>
    link_rep (cb_size (cycle_send_buf p)) (nm_connect_port p) (p'\<lparr>nm_client := fd, nm_send_th_flag := 1, nm_recv_th_flag := 1\<rparr>) []"
proof -
  have p: "p' = reset_back (reset_front p)" "r = 1" using assms(6) by (simp_all add: NM_reset_def)
  have b: "cycle_send_buf p' = fifo_reset (filo_set_save_num (cycle_send_buf p) 0)" "nm_connect_port p' = nm_connect_port p"
    by (simp_all add: p reset_back_def reset_front_def clear_bindings_def)
  have "cb_ok (filo_set_save_num (cycle_send_buf p) 0)" using assms(1) by (simp add: filo_set_save_num_def cb_ok_def)
  from fifo_reset_ok [OF this] have "ring_holds 8 (cycle_send_buf p') (map cmd_rec [])"
    using assms(2,3) by (simp add: b ring_holds_def) (simp add: fifo_reset_def filo_set_save_num_def)
  moreover have "cb_size (cycle_send_buf p') = cb_size (cycle_send_buf p)" "cb_save_num (cycle_send_buf p') = 0"
    by (simp_all add: b fifo_reset_def filo_set_save_num_def)
  ultimately show ?thesis
    using assms(4,5) by (auto simp: p(2) link_rep_def snd_rep_def b(2)) (auto simp: p NET_SEND_BUF_MODE_def NET_SEND_DIRECT_MODE_def)
qed

lemma reset_client_starts_empty_witness:
  "\<exists>p'. NM_reset (Some (fresh_net_module\<lparr>cycle_send_buf := wrapped_ring\<rparr>)) = (1, Some p') \<and>
    link_rep (cb_size wrapped_ring) 16000 (p'\<lparr>nm_client := 5, nm_send_th_flag := 1, nm_recv_th_flag := 1\<rparr>) []"
  using reset_client_starts_empty [of "fresh_net_module\<lparr>cycle_send_buf := wrapped_ring\<rparr>" 5 1 _]
  by (auto simp: NM_reset_def fresh_net_module_def wrapped_ring_def cb_ok_def NET_SEND_BUF_MODE_def MAX_FRAME_BUF_SIZE_def)

end
