(* ===== verification/Aes_EnDe.thy ===== *)
theory Aes_EnDe
  imports Ipc_Base
begin

text \<open>
  The block cipher of \<open>src/FileSystem/avicodelib/AES_EnDe.c\<close>. The globals are a record, the
  \<open>unsigned char\<close> arrays are byte lists of their declared lengths, \<open>g_state[4][4]\<close> is the list of
  its rows. The mutex makes \<open>AES_Encrypt\<close> and \<open>AES_Decrypt\<close> one step each.
\<close>

unbundle bit_operations_syntax

section \<open>Tables\<close>

definition sbox :: "int list" where
  "sbox = [
     0x63, 0x7c, 0x77, 0x7b, 0xf2, 0x6b, 0x6f, 0xc5, 0x30, 0x01, 0x67, 0x2b, 0xfe, 0xd7, 0xab, 0x76,
     0xca, 0x82, 0xc9, 0x7d, 0xfa, 0x59, 0x47, 0xf0, 0xad, 0xd4, 0xa2, 0xaf, 0x9c, 0xa4, 0x72, 0xc0,
     0xb7, 0xfd, 0x93, 0x26, 0x36, 0x3f, 0xf7, 0xcc, 0x34, 0xa5, 0xe5, 0xf1, 0x71, 0xd8, 0x31, 0x15,
     0x04, 0xc7, 0x23, 0xc3, 0x18, 0x96, 0x05, 0x9a, 0x07, 0x12, 0x80, 0xe2, 0xeb, 0x27, 0xb2, 0x75,
     0x09, 0x83, 0x2c, 0x1a, 0x1b, 0x6e, 0x5a, 0xa0, 0x52, 0x3b, 0xd6, 0xb3, 0x29, 0xe3, 0x2f, 0x84,
     0x53, 0xd1, 0x00, 0xed, 0x20, 0xfc, 0xb1, 0x5b, 0x6a, 0xcb, 0xbe, 0x39, 0x4a, 0x4c, 0x58, 0xcf,
     0xd0, 0xef, 0xaa, 0xfb, 0x43, 0x4d, 0x33, 0x85, 0x45, 0xf9, 0x02, 0x7f, 0x50, 0x3c, 0x9f, 0xa8,
     0x51, 0xa3, 0x40, 0x8f, 0x92, 0x9d, 0x38, 0xf5, 0xbc, 0xb6, 0xda, 0x21, 0x10, 0xff, 0xf3, 0xd2,
     0xcd, 0x0c, 0x13, 0xec, 0x5f, 0x97, 0x44, 0x17, 0xc4, 0xa7, 0x7e, 0x3d, 0x64, 0x5d, 0x19, 0x73,
     0x60, 0x81, 0x4f, 0xdc, 0x22, 0x2a, 0x90, 0x88, 0x46, 0xee, 0xb8, 0x14, 0xde, 0x5e, 0x0b, 0xdb,
     0xe0, 0x32, 0x3a, 0x0a, 0x49, 0x06, 0x24, 0x5c, 0xc2, 0xd3, 0xac, 0x62, 0x91, 0x95, 0xe4, 0x79,
     0xe7, 0xc8, 0x37, 0x6d, 0x8d, 0xd5, 0x4e, 0xa9, 0x6c, 0x56, 0xf4, 0xea, 0x65, 0x7a, 0xae, 0x08,
     0xba, 0x78, 0x25, 0x2e, 0x1c, 0xa6, 0xb4, 0xc6, 0xe8, 0xdd, 0x74, 0x1f, 0x4b, 0xbd, 0x8b, 0x8a,
     0x70, 0x3e, 0xb5, 0x66, 0x48, 0x03, 0xf6, 0x0e, 0x61, 0x35, 0x57, 0xb9, 0x86, 0xc1, 0x1d, 0x9e,
     0xe1, 0xf8, 0x98, 0x11, 0x69, 0xd9, 0x8e, 0x94, 0x9b, 0x1e, 0x87, 0xe9, 0xce, 0x55, 0x28, 0xdf,
     0x8c, 0xa1, 0x89, 0x0d, 0xbf, 0xe6, 0x42, 0x68, 0x41, 0x99, 0x2d, 0x0f, 0xb0, 0x54, 0xbb, 0x16]"

definition rsbox :: "int list" where
  "rsbox = [
     0x52, 0x09, 0x6a, 0xd5, 0x30, 0x36, 0xa5, 0x38, 0xbf, 0x40, 0xa3, 0x9e, 0x81, 0xf3, 0xd7, 0xfb,
     0x7c, 0xe3, 0x39, 0x82, 0x9b, 0x2f, 0xff, 0x87, 0x34, 0x8e, 0x43, 0x44, 0xc4, 0xde, 0xe9, 0xcb,
     0x54, 0x7b, 0x94, 0x32, 0xa6, 0xc2, 0x23, 0x3d, 0xee, 0x4c, 0x95, 0x0b, 0x42, 0xfa, 0xc3, 0x4e,
     0x08, 0x2e, 0xa1, 0x66, 0x28, 0xd9, 0x24, 0xb2, 0x76, 0x5b, 0xa2, 0x49, 0x6d, 0x8b, 0xd1, 0x25,
     0x72, 0xf8, 0xf6, 0x64, 0x86, 0x68, 0x98, 0x16, 0xd4, 0xa4, 0x5c, 0xcc, 0x5d, 0x65, 0xb6, 0x92,
     0x6c, 0x70, 0x48, 0x50, 0xfd, 0xed, 0xb9, 0xda, 0x5e, 0x15, 0x46, 0x57, 0xa7, 0x8d, 0x9d, 0x84,
     0x90, 0xd8, 0xab, 0x00, 0x8c, 0xbc, 0xd3, 0x0a, 0xf7, 0xe4, 0x58, 0x05, 0xb8, 0xb3, 0x45, 0x06,
     0xd0, 0x2c, 0x1e, 0x8f, 0xca, 0x3f, 0x0f, 0x02, 0xc1, 0xaf, 0xbd, 0x03, 0x01, 0x13, 0x8a, 0x6b,
     0x3a, 0x91, 0x11, 0x41, 0x4f, 0x67, 0xdc, 0xea, 0x97, 0xf2, 0xcf, 0xce, 0xf0, 0xb4, 0xe6, 0x73,
     0x96, 0xac, 0x74, 0x22, 0xe7, 0xad, 0x35, 0x85, 0xe2, 0xf9, 0x37, 0xe8, 0x1c, 0x75, 0xdf, 0x6e,
     0x47, 0xf1, 0x1a, 0x71, 0x1d, 0x29, 0xc5, 0x89, 0x6f, 0xb7, 0x62, 0x0e, 0xaa, 0x18, 0xbe, 0x1b,
     0xfc, 0x56, 0x3e, 0x4b, 0xc6, 0xd2, 0x79, 0x20, 0x9a, 0xdb, 0xc0, 0xfe, 0x78, 0xcd, 0x5a, 0xf4,
     0x1f, 0xdd, 0xa8, 0x33, 0x88, 0x07, 0xc7, 0x31, 0xb1, 0x12, 0x10, 0x59, 0x27, 0x80, 0xec, 0x5f,
     0x60, 0x51, 0x7f, 0xa9, 0x19, 0xb5, 0x4a, 0x0d, 0x2d, 0xe5, 0x7a, 0x9f, 0x93, 0xc9, 0x9c, 0xef,
     0xa0, 0xe0, 0x3b, 0x4d, 0xae, 0x2a, 0xf5, 0xb0, 0xc8, 0xeb, 0xbb, 0x3c, 0x83, 0x53, 0x99, 0x61,
     0x17, 0x2b, 0x04, 0x7e, 0xba, 0x77, 0xd6, 0x26, 0xe1, 0x69, 0x14, 0x63, 0x55, 0x21, 0x0c, 0x7d]"

definition Rcon_x :: "int list" where
  "Rcon_x = [
     0x8d, 0x01, 0x02, 0x04, 0x08, 0x10, 0x20, 0x40, 0x80, 0x1b, 0x36, 0x6c, 0xd8, 0xab, 0x4d, 0x9a,
     0x2f, 0x5e, 0xbc, 0x63, 0xc6, 0x97, 0x35, 0x6a, 0xd4, 0xb3, 0x7d, 0xfa, 0xef, 0xc5, 0x91, 0x39,
     0x72, 0xe4, 0xd3, 0xbd, 0x61, 0xc2, 0x9f, 0x25, 0x4a, 0x94, 0x33, 0x66, 0xcc, 0x83, 0x1d, 0x3a,
     0x74, 0xe8, 0xcb, 0x8d, 0x01, 0x02, 0x04, 0x08, 0x10, 0x20, 0x40, 0x80, 0x1b, 0x36, 0x6c, 0xd8,
     0xab, 0x4d, 0x9a, 0x2f, 0x5e, 0xbc, 0x63, 0xc6, 0x97, 0x35, 0x6a, 0xd4, 0xb3, 0x7d, 0xfa, 0xef,
     0xc5, 0x91, 0x39, 0x72, 0xe4, 0xd3, 0xbd, 0x61, 0xc2, 0x9f, 0x25, 0x4a, 0x94, 0x33, 0x66, 0xcc,
     0x83, 0x1d, 0x3a, 0x74, 0xe8, 0xcb, 0x8d, 0x01, 0x02, 0x04, 0x08, 0x10, 0x20, 0x40, 0x80, 0x1b,
     0x36, 0x6c, 0xd8, 0xab, 0x4d, 0x9a, 0x2f, 0x5e, 0xbc, 0x63, 0xc6, 0x97, 0x35, 0x6a, 0xd4, 0xb3,
     0x7d, 0xfa, 0xef, 0xc5, 0x91, 0x39, 0x72, 0xe4, 0xd3, 0xbd, 0x61, 0xc2, 0x9f, 0x25, 0x4a, 0x94,
     0x33, 0x66, 0xcc, 0x83, 0x1d, 0x3a, 0x74, 0xe8, 0xcb, 0x8d, 0x01, 0x02, 0x04, 0x08, 0x10, 0x20,
     0x40, 0x80, 0x1b, 0x36, 0x6c, 0xd8, 0xab, 0x4d, 0x9a, 0x2f, 0x5e, 0xbc, 0x63, 0xc6, 0x97, 0x35,
     0x6a, 0xd4, 0xb3, 0x7d, 0xfa, 0xef, 0xc5, 0x91, 0x39, 0x72, 0xe4, 0xd3, 0xbd, 0x61, 0xc2, 0x9f,
     0x25, 0x4a, 0x94, 0x33, 0x66, 0xcc, 0x83, 0x1d, 0x3a, 0x74, 0xe8, 0xcb, 0x8d, 0x01, 0x02, 0x04,
     0x08, 0x10, 0x20, 0x40, 0x80, 0x1b, 0x36, 0x6c, 0xd8, 0xab, 0x4d, 0x9a, 0x2f, 0x5e, 0xbc, 0x63,
     0xc6, 0x97, 0x35, 0x6a, 0xd4, 0xb3, 0x7d, 0xfa, 0xef, 0xc5, 0x91, 0x39, 0x72, 0xe4, 0xd3, 0xbd,
     0x61, 0xc2, 0x9f, 0x25, 0x4a, 0x94, 0x33, 0x66, 0xcc, 0x83, 0x1d, 0x3a, 0x74, 0xe8, 0xcb]"

definition getSBoxValue :: "int \<Rightarrow> int" where
  "getSBoxValue num = sbox ! nat num"

definition getSBoxInvert :: "int \<Rightarrow> int" where
  "getSBoxInvert num = rsbox ! nat num"

section \<open>State\<close>

record aes =
  g_Nr :: nat
  g_Nk :: nat
  g_in :: "byte list"
  g_out :: "byte list"
  g_state :: "byte list"
  g_RoundKey :: "byte list"
  g_Key :: "byte list"

text \<open>The lengths of the arrays.\<close>

definition aes_ok :: "aes \<Rightarrow> bool" where
  "aes_ok a \<longleftrightarrow> length (g_in a) = 16 \<and> length (g_out a) = 16 \<and> length (g_state a) = 16 \<and>
     length (g_RoundKey a) = 240 \<and> length (g_Key a) = 32"

text \<open>\<open>g_state[r][c]\<close>, its assignment, and a state given cell by cell.\<close>

definition cell :: "byte list \<Rightarrow> nat \<Rightarrow> nat \<Rightarrow> byte" where
  "cell s r c = s ! (4 * r + c)"

definition put :: "byte list \<Rightarrow> nat \<Rightarrow> nat \<Rightarrow> byte \<Rightarrow> byte list" where
  "put s r c v = s[4 * r + c := v]"

definition grid :: "(nat \<Rightarrow> nat \<Rightarrow> byte) \<Rightarrow> byte list" where
  "grid f = map (\<lambda>k. f (k div 4) (k mod 4)) [0..<16]"

section \<open>Key expansion\<close>

text \<open>\<open>SubWord\<close> and \<open>RotWord\<close>, written out in the source.\<close>

definition sub_word :: "byte list \<Rightarrow> byte list" where
  "sub_word w = map (\<lambda>b. word_of_int (getSBoxValue (uint b))) w"

definition rot_word :: "byte list \<Rightarrow> byte list" where
  "rot_word w = [w ! 1, w ! 2, w ! 3, w ! 0]"

text \<open>One round of the \<open>while\<close> loop, for word \<open>i\<close>, up to the store.\<close>

definition expand_temp :: "nat \<Rightarrow> byte list \<Rightarrow> nat \<Rightarrow> byte list" where
  "expand_temp nk temp i =
     (if i mod nk = 0
      then let t = sub_word (rot_word temp)
           in t[0 := t ! 0 XOR word_of_int (Rcon_x ! (i div nk))]
      else if nk > 6 \<and> i mod nk = 4 then sub_word temp else temp)"

definition xor_words :: "byte list \<Rightarrow> byte list \<Rightarrow> byte list" where
  "xor_words v w = map2 (\<lambda>a b. a XOR b) v w"

fun expand_loop :: "nat \<Rightarrow> nat \<Rightarrow> nat \<Rightarrow> byte list \<Rightarrow> byte list option" where
  "expand_loop n nk i rk =
     (case n of 0 \<Rightarrow> Some rk
      | Suc m \<Rightarrow> do {
          temp \<leftarrow> mem_read rk ((i - 1) * 4) 4;
          old \<leftarrow> mem_read rk ((i - nk) * 4) 4;
          rk1 \<leftarrow> mem_write rk (i * 4) (xor_words old (expand_temp nk temp i));
          expand_loop m nk (i + 1) rk1
        })"

declare expand_loop.simps [simp del]

definition KeyExpansion :: "aes \<Rightarrow> aes option" where
  "KeyExpansion a = do {
     key \<leftarrow> mem_read (g_Key a) 0 (4 * g_Nk a);
     rk0 \<leftarrow> mem_write (g_RoundKey a) 0 key;
     rk \<leftarrow> expand_loop (4 * (g_Nr a + 1) - g_Nk a) (g_Nk a) (g_Nk a) rk0;
     Some (a\<lparr>g_RoundKey := rk\<rparr>)
   }"

section \<open>Rounds\<close>

definition AddRoundKey :: "byte list \<Rightarrow> nat \<Rightarrow> byte list \<Rightarrow> byte list" where
  "AddRoundKey rk round s = grid (\<lambda>j i. cell s j i XOR rk ! (round * 4 * 4 + i * 4 + j))"

text \<open>The macro \<open>xtime\<close> works on \<open>int\<close>: nothing is cut off before the value is stored.\<close>

definition xtime :: "int \<Rightarrow> int" where
  "xtime x = (push_bit 1 x) XOR ((drop_bit 7 x AND 1) * 0x1b)"

definition SubBytes :: "byte list \<Rightarrow> byte list" where
  "SubBytes s = grid (\<lambda>i j. word_of_int (getSBoxValue (uint (cell s i j))))"

definition InvSubBytes :: "byte list \<Rightarrow> byte list" where
  "InvSubBytes s = grid (\<lambda>i j. word_of_int (getSBoxInvert (uint (cell s i j))))"

definition ShiftRows :: "byte list \<Rightarrow> byte list" where
  "ShiftRows s0 =
     (let temp = cell s0 1 0;
          s = put s0 1 0 (cell s0 1 1); s = put s 1 1 (cell s 1 2); s = put s 1 2 (cell s 1 3);
          s = put s 1 3 temp;
          temp = cell s 2 0; s = put s 2 0 (cell s 2 2); s = put s 2 2 temp;
          temp = cell s 2 1; s = put s 2 1 (cell s 2 3); s = put s 2 3 temp;
          temp = cell s 3 0; s = put s 3 0 (cell s 3 3); s = put s 3 3 (cell s 3 2);
          s = put s 3 2 (cell s 3 1)
      in put s 3 1 temp)"

definition InvShiftRows :: "byte list \<Rightarrow> byte list" where
  "InvShiftRows s0 =
     (let temp = cell s0 1 3;
          s = put s0 1 3 (cell s0 1 2); s = put s 1 2 (cell s 1 1); s = put s 1 1 (cell s 1 0);
          s = put s 1 0 temp;
          temp = cell s 2 0; s = put s 2 0 (cell s 2 2); s = put s 2 2 temp;
          temp = cell s 2 1; s = put s 2 1 (cell s 2 3); s = put s 2 3 temp;
          temp = cell s 3 0; s = put s 3 0 (cell s 3 1); s = put s 3 1 (cell s 3 2);
          s = put s 3 2 (cell s 3 3)
      in put s 3 3 temp)"

text \<open>\<open>Tm = xtime(Tm)\<close> cuts the product to a byte.\<close>

definition xt :: "byte \<Rightarrow> byte" where
  "xt b = word_of_int (xtime (uint b))"

definition mix_column :: "nat \<Rightarrow> byte list \<Rightarrow> byte list" where
  "mix_column i s0 =
     (let t = cell s0 0 i;
          Tmp = cell s0 0 i XOR cell s0 1 i XOR cell s0 2 i XOR cell s0 3 i;
          Tm = xt (cell s0 0 i XOR cell s0 1 i); s = put s0 0 i (cell s0 0 i XOR (Tm XOR Tmp));
          Tm = xt (cell s 1 i XOR cell s 2 i); s = put s 1 i (cell s 1 i XOR (Tm XOR Tmp));
          Tm = xt (cell s 2 i XOR cell s 3 i); s = put s 2 i (cell s 2 i XOR (Tm XOR Tmp));
          Tm = xt (cell s 3 i XOR t)
      in put s 3 i (cell s 3 i XOR (Tm XOR Tmp)))"

definition MixColumns :: "byte list \<Rightarrow> byte list" where
  "MixColumns s = fold mix_column [0..<4] s"

definition Multiply :: "int \<Rightarrow> int \<Rightarrow> int" where
  "Multiply x y =
     ((y AND 1) * x) XOR ((drop_bit 1 y AND 1) * xtime x) XOR ((drop_bit 2 y AND 1) * xtime (xtime x)) XOR
     ((drop_bit 3 y AND 1) * xtime (xtime (xtime x))) XOR
     ((drop_bit 4 y AND 1) * xtime (xtime (xtime (xtime x))))"

definition inv_mix_column :: "nat \<Rightarrow> byte list \<Rightarrow> byte list" where
  "inv_mix_column i s =
     (let a = uint (cell s 0 i); b = uint (cell s 1 i); c = uint (cell s 2 i); d = uint (cell s 3 i);
          s = put s 0 i (word_of_int (Multiply a 0x0e XOR Multiply b 0x0b XOR Multiply c 0x0d XOR Multiply d 0x09));
          s = put s 1 i (word_of_int (Multiply a 0x09 XOR Multiply b 0x0e XOR Multiply c 0x0b XOR Multiply d 0x0d));
          s = put s 2 i (word_of_int (Multiply a 0x0d XOR Multiply b 0x09 XOR Multiply c 0x0e XOR Multiply d 0x0b))
      in put s 3 i (word_of_int (Multiply a 0x0b XOR Multiply b 0x0d XOR Multiply c 0x09 XOR Multiply d 0x0e)))"

definition InvMixColumns :: "byte list \<Rightarrow> byte list" where
  "InvMixColumns s = fold inv_mix_column [0..<4] s"

text \<open>Blocks are read into and written from the state column by column.\<close>

definition block_in :: "byte list \<Rightarrow> byte list" where
  "block_in b = grid (\<lambda>j i. b ! (i * 4 + j))"

definition block_out :: "byte list \<Rightarrow> byte list" where
  "block_out s = map (\<lambda>k. cell s (k mod 4) (k div 4)) [0..<16]"

definition enc_round :: "byte list \<Rightarrow> nat \<Rightarrow> byte list \<Rightarrow> byte list" where
  "enc_round rk round s = AddRoundKey rk round (MixColumns (ShiftRows (SubBytes s)))"

definition dec_round :: "byte list \<Rightarrow> nat \<Rightarrow> byte list \<Rightarrow> byte list" where
  "dec_round rk round s = InvMixColumns (AddRoundKey rk round (InvSubBytes (InvShiftRows s)))"

definition Cipher :: "aes \<Rightarrow> aes" where
  "Cipher a =
     (let rk = g_RoundKey a;
          s = AddRoundKey rk 0 (block_in (g_in a));
          s = fold (enc_round rk) [1..<g_Nr a] s;
          s = AddRoundKey rk (g_Nr a) (ShiftRows (SubBytes s))
      in a\<lparr>g_state := s, g_out := block_out s\<rparr>)"

definition InvCipher :: "aes \<Rightarrow> aes" where
  "InvCipher a =
     (let rk = g_RoundKey a;
          s = AddRoundKey rk (g_Nr a) (block_in (g_in a));
          s = fold (dec_round rk) (rev [1..<g_Nr a]) s;
          s = AddRoundKey rk 0 (InvSubBytes (InvShiftRows s))
      in a\<lparr>g_state := s, g_out := block_out s\<rparr>)"

section \<open>The interface\<close>

definition AES_ER_WRONG_NUM_ROUNDS :: int where "AES_ER_WRONG_NUM_ROUNDS = - 1"
definition AES_ER_INVALID_PARAMETER :: int where "AES_ER_INVALID_PARAMETER = - 2"

text \<open>
  The part both functions begin with: the checks are done, \<open>key\<close> and \<open>text\<close> are the callers'
  objects. Key and text are cut or padded with zeros to 32 bytes, and the copy loop stores
  \<open>4 * g_Nk\<close> bytes of each, one at a time, into \<open>g_Key\<close> and \<open>g_in\<close>.
\<close>

definition padded :: "byte list \<Rightarrow> int \<Rightarrow> byte list option" where
  "padded b n = do {
     d \<leftarrow> mem_read b 0 (nat (if n > 32 then 32 else n));
     mem_write (replicate 32 0) 0 d
   }"

definition load_key_and_text :: "int \<Rightarrow> byte list \<Rightarrow> int \<Rightarrow> byte list \<Rightarrow> int \<Rightarrow> aes \<Rightarrow> aes option" where
  "load_key_and_text nNumRounds intext nSize_in sKey nSize_skey a = do {
     let nk = nat nNumRounds div 32;
     tmpIn \<leftarrow> padded intext nSize_in;
     tmpKey \<leftarrow> padded sKey nSize_skey;
     key \<leftarrow> mem_write (g_Key a) 0 (take (4 * nk) tmpKey);
     inp \<leftarrow> mem_write (g_in a) 0 (take (4 * nk) tmpIn);
     Some (a\<lparr>g_Nk := nk, g_Nr := nk + 6, g_Key := key, g_in := inp\<rparr>)
   }"

definition AES_Encrypt :: "int \<Rightarrow> byte list \<Rightarrow> int \<Rightarrow> byte list option \<Rightarrow> int \<Rightarrow> byte list option \<Rightarrow> aes \<Rightarrow>
    (int \<times> byte list option \<times> aes) option" where
  "AES_Encrypt nNumRounds in_PlainText nSize_in sKey nSize_skey out_Encry a =
     (if nNumRounds \<noteq> 128 \<and> nNumRounds \<noteq> 192 \<and> nNumRounds \<noteq> 256
      then Some (AES_ER_WRONG_NUM_ROUNDS, out_Encry, a)
      else case (sKey, out_Encry) of
        (Some key, Some out) \<Rightarrow>
          if nSize_in < 0 \<or> nSize_skey < 0 then Some (AES_ER_INVALID_PARAMETER, out_Encry, a)
          else do {
            a1 \<leftarrow> load_key_and_text nNumRounds in_PlainText nSize_in key nSize_skey a;
            a2 \<leftarrow> KeyExpansion a1;
            let a3 = Cipher a2;
            out1 \<leftarrow> mem_write out 0 (take 16 (g_out a3));
            Some (16, Some out1, a3)
          }
      | _ \<Rightarrow> Some (AES_ER_INVALID_PARAMETER, out_Encry, a))"

definition AES_Decrypt :: "int \<Rightarrow> byte list \<Rightarrow> int \<Rightarrow> byte list option \<Rightarrow> int \<Rightarrow> byte list option \<Rightarrow> aes \<Rightarrow>
    (int \<times> byte list option \<times> aes) option" where
  "AES_Decrypt nNumRounds in_EncryText nSize_in sKey nSize_skey out_Plain a =
     (if nNumRounds \<noteq> 128 \<and> nNumRounds \<noteq> 192 \<and> nNumRounds \<noteq> 256
      then Some (AES_ER_WRONG_NUM_ROUNDS, out_Plain, a)
      else case (sKey, out_Plain) of
        (Some key, Some out) \<Rightarrow>
          if nSize_in < 0 \<or> nSize_skey < 0 then Some (AES_ER_INVALID_PARAMETER, out_Plain, a)
          else do {
            a1 \<leftarrow> load_key_and_text nNumRounds in_EncryText nSize_in key nSize_skey a;
            a2 \<leftarrow> KeyExpansion a1;
            let a3 = InvCipher a2;
            out1 \<leftarrow> mem_write out 0 (take 16 (g_out a3));
            Some (16, Some out1, a3)
          }
      | _ \<Rightarrow> Some (AES_ER_INVALID_PARAMETER, out_Plain, a))"

section \<open>Cells\<close>

lemma length_grid [simp]: "length (grid f) = 16"
  by (simp add: grid_def)

lemma length_put [simp]: "length (put s r c v) = length s"
  by (simp add: put_def)

lemma cell_grid [simp]: "r < 4 \<Longrightarrow> c < 4 \<Longrightarrow> cell (grid f) r c = f r c"
  by (simp add: cell_def grid_def)

lemma cell_put [simp]:
  assumes "length s = 16" and "r < 4" and "c < 4" and "r' < 4" and "c' < 4"
  shows "cell (put s r c v) r' c' = (if r' = r \<and> c' = c then v else cell s r' c')"
proof -
  have "(4 * r + c) div 4 = r" "(4 * r + c) mod 4 = c" "(4 * r' + c') div 4 = r'" "(4 * r' + c') mod 4 = c'"
    using assms by simp_all
  then have "4 * r + c = 4 * r' + c' \<longleftrightarrow> r' = r \<and> c' = c" by metis
  moreover have "4 * r' + c' < 16" using assms by simp
  ultimately show ?thesis using assms(1) by (simp add: cell_def put_def nth_list_update conj_commute)
qed

lemma cells_eqI:
  assumes "length s = 16" and "length t = 16"
    and "\<And>r c. r < 4 \<Longrightarrow> c < 4 \<Longrightarrow> cell s r c = cell t r c"
  shows "s = t"
proof (rule nth_equalityI)
  show "length s = length t" using assms by simp
next
  fix k assume "k < length s"
  then have "k div 4 < 4" and "k mod 4 < 4" using assms by auto
  from assms(3) [OF this] show "s ! k = t ! k" by (simp add: cell_def)
qed

lemma less_4_cases: "(r :: nat) < 4 \<Longrightarrow> r = 0 \<or> r = 1 \<or> r = 2 \<or> r = 3"
  by auto

lemma cells_eqI4:
  assumes "length s = 16" and "length t = 16"
    and "\<And>r. r < 4 \<Longrightarrow> cell s r 0 = cell t r 0 \<and> cell s r 1 = cell t r 1 \<and> cell s r 2 = cell t r 2 \<and> cell s r 3 = cell t r 3"
  shows "s = t"
proof (rule cells_eqI [OF assms(1,2)])
  fix r c :: nat assume "r < 4" and "c < 4"
  then show "cell s r c = cell t r c"
    using assms(3) [OF \<open>r < 4\<close>] less_4_cases [OF \<open>c < 4\<close>] by auto
qed

lemma grid_cong: "(\<And>r c. r < 4 \<Longrightarrow> c < 4 \<Longrightarrow> f r c = g r c) \<Longrightarrow> grid f = grid g"
  by (rule cells_eqI) simp_all

section \<open>The steps as grids\<close>

lemma ShiftRows_grid: "length s = 16 \<Longrightarrow> ShiftRows s = grid (\<lambda>r c. cell s r ((c + r) mod 4))"
  by (rule cells_eqI4) (auto dest!: less_4_cases simp: ShiftRows_def Let_def numeral_2_eq_2 [symmetric])

lemma InvShiftRows_grid: "length s = 16 \<Longrightarrow> InvShiftRows s = grid (\<lambda>r c. cell s r ((c + 4 - r) mod 4))"
  by (rule cells_eqI4) (auto dest!: less_4_cases simp: InvShiftRows_def Let_def numeral_2_eq_2 [symmetric])

lemma InvShift_Shift: "length s = 16 \<Longrightarrow> InvShiftRows (ShiftRows s) = s"
  by (rule cells_eqI4) (auto dest!: less_4_cases simp: ShiftRows_grid InvShiftRows_grid numeral_2_eq_2 [symmetric])

lemma sbox_inverse: "list_all (\<lambda>x. getSBoxInvert (getSBoxValue x) = x \<and> 0 \<le> getSBoxValue x \<and> getSBoxValue x < 256) [0..255]"
  by code_simp

lemma uint_byte: "uint (b :: byte) \<in> {0..255}"
  using uint_lt2p [of b] by simp

lemma sbox_inverse_byte:
  "word_of_int (getSBoxInvert (uint (word_of_int (getSBoxValue (uint b)) :: byte))) = (b :: byte)"
proof -
  have "uint b \<in> set [0..255]" using uint_byte by simp
  then have "getSBoxInvert (getSBoxValue (uint b)) = uint b"
    and "0 \<le> getSBoxValue (uint b)" and "getSBoxValue (uint b) < 256"
    using sbox_inverse by (auto simp: list_all_iff)
  then show ?thesis by (simp add: uint_word_of_int)
qed

lemma InvSub_Sub: "length s = 16 \<Longrightarrow> InvSubBytes (SubBytes s) = s"
  by (rule cells_eqI) (simp_all add: InvSubBytes_def SubBytes_def sbox_inverse_byte)

lemma xor_cancel_left [simp]: "(a :: byte) XOR (a XOR b) = b"
  by (simp flip: xor.assoc)

lemma AddRoundKey_twice: "length s = 16 \<Longrightarrow> AddRoundKey rk n (AddRoundKey rk n s) = s"
  by (rule cells_eqI) (simp_all add: AddRoundKey_def xor.assoc)

section \<open>The column mix\<close>

lemma wi_push: "(word_of_int (push_bit n x) :: byte) = push_bit n (word_of_int x)"
  by (rule bit_word_eqI) (auto simp: bit_simps)

lemma bit7: "drop_bit 7 x AND 1 = of_bool (bit (word_of_int x :: byte) 7)" for x :: int
  by (simp add: and_one_eq mod_2_eq_odd even_drop_bit_iff_not_bit bit_word_of_int_iff)

lemma wi_xtime: "(word_of_int (xtime x) :: byte) =
    push_bit 1 (word_of_int x) XOR (if bit (word_of_int x :: byte) 7 then 0x1b else 0)"
  unfolding xtime_def bit7 by (simp add: wi_push flip: word_wi_log_defs(4))

lemma xt_word: "xt b = push_bit 1 b XOR (if bit b 7 then 0x1b else 0)"
  by (simp add: xt_def wi_xtime)

lemma xt_of_xtime: "word_of_int (xtime x) = xt (word_of_int x)"
  by (simp add: wi_xtime xt_word)

lemma xt_xor: "xt (a XOR b) = xt a XOR xt b"
  by (auto simp: xt_word push_bit_xor bit_xor_iff ac_simps)

text \<open>The multiples the macro makes.\<close>

lemma Multiply_word:
  "word_of_int (Multiply (uint b) 0x09) = b XOR xt (xt (xt b))"
  "word_of_int (Multiply (uint b) 0x0b) = b XOR xt b XOR xt (xt (xt b))"
  "word_of_int (Multiply (uint b) 0x0d) = b XOR xt (xt b) XOR xt (xt (xt b))"
  "word_of_int (Multiply (uint b) 0x0e) = xt b XOR xt (xt b) XOR xt (xt (xt b))"
  by (simp_all add: Multiply_def xt_of_xtime flip: word_wi_log_defs(4))

section \<open>The reference\<close>

definition fips_S :: "byte \<Rightarrow> byte" where
  "fips_S b = word_of_int (getSBoxValue (uint b))"

definition gf_double :: "byte \<Rightarrow> byte" where
  "gf_double b = push_bit 1 b XOR (if bit b 7 then 0x1b else 0)"

fun gf_mul :: "nat \<Rightarrow> byte \<Rightarrow> byte" where
  "gf_mul n b = (if n = 0 then 0 else (if odd n then b else 0) XOR gf_mul (n div 2) (gf_double b))"

declare gf_mul.simps [simp del]

definition fips_sub :: "(nat \<Rightarrow> nat \<Rightarrow> byte) \<Rightarrow> nat \<Rightarrow> nat \<Rightarrow> byte" where
  "fips_sub f r c = fips_S (f r c)"

definition fips_shift :: "(nat \<Rightarrow> nat \<Rightarrow> byte) \<Rightarrow> nat \<Rightarrow> nat \<Rightarrow> byte" where
  "fips_shift f r c = f r ((c + r) mod 4)"

definition fips_mix :: "(nat \<Rightarrow> nat \<Rightarrow> byte) \<Rightarrow> nat \<Rightarrow> nat \<Rightarrow> byte" where
  "fips_mix f r c = gf_mul 2 (f r c) XOR gf_mul 3 (f ((r + 1) mod 4) c) XOR
     f ((r + 2) mod 4) c XOR f ((r + 3) mod 4) c"

definition fips_inv_mix :: "(nat \<Rightarrow> nat \<Rightarrow> byte) \<Rightarrow> nat \<Rightarrow> nat \<Rightarrow> byte" where
  "fips_inv_mix f r c = gf_mul 14 (f r c) XOR gf_mul 11 (f ((r + 1) mod 4) c) XOR
     gf_mul 13 (f ((r + 2) mod 4) c) XOR gf_mul 9 (f ((r + 3) mod 4) c)"

definition fips_add :: "(nat \<Rightarrow> byte list) \<Rightarrow> nat \<Rightarrow> (nat \<Rightarrow> nat \<Rightarrow> byte) \<Rightarrow> nat \<Rightarrow> nat \<Rightarrow> byte" where
  "fips_add w n f r c = f r c XOR w (4 * n + c) ! r"

definition fips_round :: "(nat \<Rightarrow> byte list) \<Rightarrow> nat \<Rightarrow> (nat \<Rightarrow> nat \<Rightarrow> byte) \<Rightarrow> nat \<Rightarrow> nat \<Rightarrow> byte" where
  "fips_round w n f = fips_add w n (fips_mix (fips_shift (fips_sub f)))"

definition fips_cipher :: "nat \<Rightarrow> (nat \<Rightarrow> byte list) \<Rightarrow> byte list \<Rightarrow> byte list" where
  "fips_cipher nr w b =
     (let s = fips_add w 0 (\<lambda>r c. b ! (4 * c + r));
          s = fold (fips_round w) [1..<nr] s;
          s = fips_add w nr (fips_shift (fips_sub s))
      in map (\<lambda>k. s (k mod 4) (k div 4)) [0..<16])"

lemma xt_gf_double: "xt = gf_double"
  by (rule ext) (simp add: gf_double_def xt_word)

lemma gf_mul_simps:
  "gf_mul 2 b = xt b" "gf_mul 3 b = b XOR xt b"
  "gf_mul 9 b = b XOR xt (xt (xt b))" "gf_mul 11 b = b XOR xt b XOR xt (xt (xt b))"
  "gf_mul 13 b = b XOR xt (xt b) XOR xt (xt (xt b))"
  "gf_mul 14 b = xt b XOR xt (xt b) XOR xt (xt (xt b))"
  by (simp_all add: gf_mul.simps xt_gf_double)

lemma length_mix_column [simp]: "length (mix_column i s) = length s"
  by (simp add: mix_column_def Let_def)
lemma length_inv_mix_column [simp]: "length (inv_mix_column i s) = length s"
  by (simp add: inv_mix_column_def Let_def)

lemma nat_folds: "Suc (Suc 0) = 2" "Suc 2 = 3"
  by simp_all

lemma cell_mix_column:
  assumes "length s = 16" "i < 4" "r < 4" "c < 4"
  shows "cell (mix_column i s) r c = (if c = i then fips_mix (cell s) r c else cell s r c)"
  using assms(1,2,4) less_4_cases [OF assms(3)]
  by (elim disjE) (simp_all add: mix_column_def Let_def fips_mix_def gf_mul_simps xt_xor ac_simps
    nat_folds)

lemma cell_inv_mix_column:
  assumes "length s = 16" "i < 4" "r < 4" "c < 4"
  shows "cell (inv_mix_column i s) r c = (if c = i then fips_inv_mix (cell s) r c else cell s r c)"
  using assms(1,2,4) less_4_cases [OF assms(3)]
  by (elim disjE) (simp_all add: inv_mix_column_def Let_def fips_inv_mix_def gf_mul_simps Multiply_word
    ac_simps nat_folds flip: word_wi_log_defs(4))

lemma fips_inv_mix_mix:
  assumes "r < 4"
  shows "fips_inv_mix (fips_mix f) r c = f r c"
  using less_4_cases [OF assms]
  by (elim disjE) (simp_all add: fips_inv_mix_def fips_mix_def gf_mul_simps xt_xor ac_simps
    nat_folds)

lemma upt_4: "[0..<4] = [0, 1, 2, 3 :: nat]"
  by (simp add: upt_rec)

lemma fips_mix_col: "r < 4 \<Longrightarrow> (\<And>r. r < 4 \<Longrightarrow> f r c = g r c) \<Longrightarrow> fips_mix f r c = fips_mix g r c"
  by (simp add: fips_mix_def)

lemma fips_inv_mix_col: "r < 4 \<Longrightarrow> (\<And>r. r < 4 \<Longrightarrow> f r c = g r c) \<Longrightarrow> fips_inv_mix f r c = fips_inv_mix g r c"
  by (simp add: fips_inv_mix_def)

text \<open>A column step on every column.\<close>

lemma fold_columns:
  assumes len: "\<And>i s. length (step i s) = length s"
    and cell: "\<And>i s r c. length s = 16 \<Longrightarrow> i < 4 \<Longrightarrow> r < 4 \<Longrightarrow> c < 4 \<Longrightarrow>
      cell (step i s) r c = (if c = i then h (cell s) r c else cell s r c)"
    and col: "\<And>f g r c. r < 4 \<Longrightarrow> (\<And>r. r < 4 \<Longrightarrow> f r c = g r c) \<Longrightarrow> h f r c = h g r c"
    and s: "length s = 16"
  shows "fold step [0..<4] s = grid (h (cell s))"
proof (rule cells_eqI)
  show "length (fold step [0..<4] s) = 16" using s by (simp add: upt_4 len)
next
  fix r c :: nat assume r: "r < 4" and c: "c < 4"
  have eq: "h (cell (step i t)) r c = h (cell t) r c" if "length t = 16" "i < 4" "c < 4" "i \<noteq> c" for i t c
    using r that by (intro col) (simp_all add: cell)
  show "cell (fold step [0..<4] s) r c = cell (grid (h (cell s))) r c"
    using less_4_cases [OF c] r c s by (elim disjE) (simp_all add: upt_4 len cell eq)
qed simp

lemma MixColumns_grid: "length s = 16 \<Longrightarrow> MixColumns s = grid (fips_mix (cell s))"
  unfolding MixColumns_def
  by (rule fold_columns) (rule length_mix_column, erule (3) cell_mix_column, erule fips_mix_col, blast)

lemma InvMixColumns_grid: "length s = 16 \<Longrightarrow> InvMixColumns s = grid (fips_inv_mix (cell s))"
  unfolding InvMixColumns_def
  by (rule fold_columns) (rule length_inv_mix_column, erule (3) cell_inv_mix_column, erule fips_inv_mix_col, blast)

lemma length_steps [simp]:
  "length (AddRoundKey rk n s) = 16" "length (SubBytes s) = 16" "length (InvSubBytes s) = 16"
  "length (block_in b) = 16" "length (block_out s) = 16"
  by (simp_all add: AddRoundKey_def SubBytes_def InvSubBytes_def block_in_def block_out_def)

lemma length_steps16 [simp]:
  assumes "length s = 16"
  shows "length (ShiftRows s) = 16" "length (InvShiftRows s) = 16" "length (MixColumns s) = 16"
    "length (InvMixColumns s) = 16"
  using assms by (simp_all add: ShiftRows_grid InvShiftRows_grid MixColumns_grid InvMixColumns_grid)

lemma InvMix_Mix: "length s = 16 \<Longrightarrow> InvMixColumns (MixColumns s) = s"
proof (rule cells_eqI)
  fix r c :: nat assume s: "length s = 16" and r: "r < 4" and c: "c < 4"
  have "cell (InvMixColumns (MixColumns s)) r c = fips_inv_mix (cell (MixColumns s)) r c"
    using s r c by (simp add: InvMixColumns_grid)
  also have "\<dots> = fips_inv_mix (fips_mix (cell s)) r c"
    using s r c by (intro fips_inv_mix_col) (simp_all add: MixColumns_grid)
  finally show "cell (InvMixColumns (MixColumns s)) r c = cell s r c"
    using r by (simp add: fips_inv_mix_mix)
qed simp_all

lemma block_in_out: "length s = 16 \<Longrightarrow> block_in (block_out s) = s"
  by (rule cells_eqI) (simp_all add: block_in_def block_out_def)

lemma block_out_in: "length b = 16 \<Longrightarrow> block_out (block_in b) = b"
proof (rule nth_equalityI)
  fix i assume b: "length b = 16" and i: "i < length (block_out (block_in b))"
  have "i div 4 * 4 + i mod 4 = i" by (rule div_mult_mod_eq)
  then show "block_out (block_in b) ! i = b ! i"
    using b i by (simp add: block_in_def block_out_def)
qed simp_all

lemma enc_round_length [simp]: "length (enc_round rk n s) = 16"
  by (simp add: enc_round_def)

lemma fold_enc_length [simp]: "length s = 16 \<Longrightarrow> length (fold (enc_round rk) ns s) = 16"
  by (induction ns arbitrary: s) simp_all

lemma dec_enc_round:
  assumes "length s = 16"
  shows "dec_round rk n (ShiftRows (SubBytes (enc_round rk n s))) = ShiftRows (SubBytes s)"
  using assms
  by (simp add: dec_round_def enc_round_def InvShift_Shift InvSub_Sub AddRoundKey_twice InvMix_Mix)

lemma dec_enc_rounds:
  assumes "length s = 16"
  shows "fold (dec_round rk) (rev ns) (ShiftRows (SubBytes (fold (enc_round rk) ns s))) =
    ShiftRows (SubBytes s)"
  using assms by (induction ns arbitrary: s) (simp_all add: dec_enc_round)

lemma Inv_Cipher:
  assumes "length (g_in a) = 16"
  shows "g_out (InvCipher (a\<lparr>g_in := g_out (Cipher a)\<rparr>)) = g_in a"
  using assms
  by (simp add: InvCipher_def Cipher_def Let_def block_in_out block_out_in AddRoundKey_twice
    dec_enc_rounds InvShift_Shift InvSub_Sub)

section \<open>The reference cipher\<close>

lemma grid_steps:
  "SubBytes (grid f) = grid (fips_sub f)"
  "ShiftRows (grid f) = grid (fips_shift f)"
  "MixColumns (grid f) = grid (fips_mix f)"
  by (rule cells_eqI; simp add: SubBytes_def fips_sub_def fips_S_def ShiftRows_grid fips_shift_def
     MixColumns_grid fips_mix_def)+

definition key_words :: "byte list \<Rightarrow> nat \<Rightarrow> byte list" where
  "key_words rk i = take 4 (drop (4 * i) rk)"

lemma grid_add:
  assumes "16 * n + 16 \<le> length rk" and "\<And>c. c < 4 \<Longrightarrow> key_words rk (4 * n + c) = w (4 * n + c)"
  shows "AddRoundKey rk n (grid f) = grid (fips_add w n f)"
proof (rule cells_eqI)
  fix r c :: nat assume r: "r < 4" and c: "c < 4"
  have e: "4 * (4 * n + c) + r = n * 4 * 4 + c * 4 + r" by simp
  have "w (4 * n + c) ! r = rk ! (4 * (4 * n + c) + r)"
    using assms(1) r c by (simp add: assms(2) [OF c, symmetric] key_words_def)
  then have "rk ! (n * 4 * 4 + c * 4 + r) = w (4 * n + c) ! r" by (simp only: e)
  then show "cell (AddRoundKey rk n (grid f)) r c = cell (grid (fips_add w n f)) r c"
    using r c by (simp add: AddRoundKey_def fips_add_def)
qed simp_all

text \<open>The round keys up to round \<open>nr\<close> are the words \<open>w\<close>.\<close>

definition round_keys :: "nat \<Rightarrow> byte list \<Rightarrow> (nat \<Rightarrow> byte list) \<Rightarrow> bool" where
  "round_keys nr rk w \<longleftrightarrow> 16 * nr + 16 \<le> length rk \<and> (\<forall>i < 4 * (nr + 1). key_words rk i = w i)"

lemma round_keys_add:
  "round_keys nr rk w \<Longrightarrow> n \<le> nr \<Longrightarrow> AddRoundKey rk n (grid f) = grid (fips_add w n f)"
  by (rule grid_add) (auto simp: round_keys_def)

lemma enc_rounds_grid:
  assumes "round_keys nr rk w" and "\<And>n. n \<in> set ns \<Longrightarrow> n \<le> nr"
  shows "fold (enc_round rk) ns (grid f) = grid (fold (fips_round w) ns f)"
  using assms(2)
  by (induction ns arbitrary: f)
    (simp_all add: enc_round_def fips_round_def grid_steps round_keys_add [OF assms(1)])

lemma Cipher_fips:
  assumes "round_keys (g_Nr a) (g_RoundKey a) w"
  shows "g_out (Cipher a) = fips_cipher (g_Nr a) w (g_in a)"
proof -
  have "block_in (g_in a) = grid (\<lambda>r c. g_in a ! (4 * c + r))"
    by (simp add: block_in_def mult.commute)
  moreover have "fold (enc_round (g_RoundKey a)) [1..<g_Nr a] (grid f) =
      grid (fold (fips_round w) [1..<g_Nr a] f)" for f
    by (rule enc_rounds_grid [OF assms]) auto
  ultimately show ?thesis
    by (simp add: Cipher_def Let_def fips_cipher_def round_keys_add [OF assms] grid_steps block_out_def)
qed

lemma AddRoundKey_cong:
  assumes "round_keys nr rk w" and "round_keys nr rk' w" and "n \<le> nr"
  shows "AddRoundKey rk n s = AddRoundKey rk' n s"
proof -
  have "AddRoundKey k n s = AddRoundKey k n (grid (cell s))" for k
    by (rule cells_eqI) (simp_all add: AddRoundKey_def)
  then show ?thesis
    using round_keys_add [OF assms(1,3)] round_keys_add [OF assms(2,3)] by metis
qed

lemma InvCipher_cong:
  assumes "round_keys (g_Nr a) (g_RoundKey a) w" and "round_keys (g_Nr a) (g_RoundKey b) w"
    and "g_Nr b = g_Nr a" and "g_in b = g_in a"
  shows "g_out (InvCipher b) = g_out (InvCipher a)"
proof -
  have "AddRoundKey (g_RoundKey b) n s = AddRoundKey (g_RoundKey a) n s" if "n \<le> g_Nr a" for n s
    using assms(1,2) that by (rule AddRoundKey_cong [symmetric])
  moreover from this have "fold (dec_round (g_RoundKey b)) (rev [1..<g_Nr a]) s =
      fold (dec_round (g_RoundKey a)) (rev [1..<g_Nr a]) s" for s
    by (intro fold_cong) (auto simp: dec_round_def fun_eq_iff)
  ultimately show ?thesis
    using assms(3,4) by (simp add: InvCipher_def Let_def)
qed

section \<open>The key schedule\<close>

function key_word :: "nat \<Rightarrow> byte list \<Rightarrow> nat \<Rightarrow> byte list" where
  "key_word nk key i =
     (if i < nk \<or> nk = 0 then take 4 (drop (4 * i) key)
      else let t = key_word nk key (i - 1) in
        map2 (\<lambda>a b. a XOR b) (key_word nk key (i - nk))
          (if i mod nk = 0
           then map2 (\<lambda>a b. a XOR b) (map fips_S (rotate1 t)) [(gf_double ^^ (i div nk - 1)) 1, 0, 0, 0]
           else if nk > 6 \<and> i mod nk = 4 then map fips_S t else t))"
  by pat_completeness auto
termination by (relation "measure (\<lambda>(nk, key, i). i)") auto

declare key_word.simps [simp del]

lemma Rcon_powers:
  "list_all (\<lambda>n. (word_of_int (Rcon_x ! n) :: byte) = (gf_double ^^ (n - 1)) 1) [1..<11]"
  by code_simp

lemma length_key_word: "0 < nk \<Longrightarrow> length key = 4 * nk \<Longrightarrow> length (key_word nk key i) = 4"
proof (induction nk key i rule: key_word.induct)
  case (1 nk key i)
  show ?case
  proof (cases "i < nk")
    case True
    then show ?thesis using 1 by (simp add: key_word.simps)
  next
    case False
    with 1 have "length (key_word nk key (i - 1)) = 4" "length (key_word nk key (i - nk)) = 4" by auto
    then show ?thesis using False "1.prems" by (subst key_word.simps) (simp add: Let_def)
  qed
qed

lemma expand_temp_spec:
  assumes "length t = 4" and "0 < i" and "i div nk \<le> 10" and "0 < nk" and "nk \<le> i"
  shows "expand_temp nk t i =
     (if i mod nk = 0
      then map2 (\<lambda>a b. a XOR b) (map fips_S (rotate1 t)) [(gf_double ^^ (i div nk - 1)) 1, 0, 0, 0]
      else if nk > 6 \<and> i mod nk = 4 then map fips_S t else t)"
proof -
  obtain a b c d where t: "t = [a, b, c, d]"
    using assms(1) by (auto simp: length_Suc_conv numeral_eq_Suc)
  have "i div nk \<in> set [1..<11]"
    using assms by (simp add: Suc_le_eq div_greater_zero_iff)
  then have "(word_of_int (Rcon_x ! (i div nk)) :: byte) = (gf_double ^^ (i div nk - 1)) 1"
    using Rcon_powers unfolding list_all_iff by blast
  then show ?thesis
    by (simp add: expand_temp_def t sub_word_def rot_word_def fips_S_def)
qed

text \<open>The words below \<open>i\<close> are those of the schedule.\<close>

definition sched_upto :: "nat \<Rightarrow> byte list \<Rightarrow> nat \<Rightarrow> byte list \<Rightarrow> bool" where
  "sched_upto nk key i rk \<longleftrightarrow> (\<forall>k < i. key_words rk k = key_word nk key k)"

lemma expand_loop_spec:
  assumes "0 < nk" and "length key = 4 * nk" and "nk \<le> i" and "4 * (i + n) \<le> length rk"
    and "(i + n - 1) div nk \<le> 10" and "sched_upto nk key i rk"
  shows "\<exists>rk'. expand_loop n nk i rk = Some rk' \<and> length rk' = length rk \<and> sched_upto nk key (i + n) rk'"
  using assms(3-6)
proof (induction n arbitrary: i rk)
  case 0
  then show ?case by (simp add: expand_loop.simps)
next
  case (Suc m)
  have i: "0 < i" "i - 1 < i" "i - nk < i" using assms(1) Suc.prems(1) by auto
  have rd: "mem_read rk (k * 4) 4 = Some (key_word nk key k)" if "k < i" for k
    using that Suc.prems(2,4) by (simp add: mem_read_def sched_upto_def key_words_def mult.commute)
  have d: "i div nk \<le> 10"
    using Suc.prems(3) div_le_mono [of i "i + Suc m - 1" nk] by linarith
  define w where "w = xor_words (key_word nk key (i - nk)) (expand_temp nk (key_word nk key (i - 1)) i)"
  have w: "w = key_word nk key i"
    unfolding w_def
    using assms(1) Suc.prems(1) i(1) d
    by (subst (3) key_word.simps)
      (simp add: expand_temp_spec length_key_word [OF assms(1,2)] Let_def xor_words_def)
  have lw: "length w = 4" using w length_key_word [OF assms(1,2)] by simp
  then obtain rk1 where wr: "mem_write rk (i * 4) w = Some rk1"
    using mem_write_ex [of "i * 4" w rk] Suc.prems(2) by auto
  have l1: "length rk1 = length rk" using wr by (rule mem_write_length)
  have "key_words rk1 k = key_word nk key k" if "k < Suc i" for k
  proof (cases "k = i")
    case True
    then show ?thesis
      using mem_read_after_write [OF wr] w lw Suc.prems(2) l1
      by (simp add: mem_read_def key_words_def mult.commute)
  next
    case False
    then show ?thesis
      using mem_read_write_disjoint [OF wr, of "k * 4" 4] rd [of k] that l1 Suc.prems(2)
      by (simp add: mem_read_def key_words_def mult.commute)
  qed
  then have "sched_upto nk key (i + 1) rk1" by (simp add: sched_upto_def)
  from Suc.IH [OF _ _ _ this] obtain rk' where
    "expand_loop m nk (i + 1) rk1 = Some rk'" "length rk' = length rk1" "sched_upto nk key (i + Suc m) rk'"
    using Suc.prems l1 by auto
  then show ?case
    using rd [OF i(2)] rd [OF i(3)] wr l1
    by (subst expand_loop.simps) (simp add: w_def)
qed


lemma KeyExpansion_schedule:
  assumes "aes_ok a" and "g_Nk a \<in> {4, 6, 8}" and "g_Nr a = g_Nk a + 6"
  shows "\<exists>rk. KeyExpansion a = Some (a\<lparr>g_RoundKey := rk\<rparr>) \<and> length rk = 240 \<and>
    sched_upto (g_Nk a) (take (4 * g_Nk a) (g_Key a)) (4 * (g_Nr a + 1)) rk"
proof -
  let ?nk = "g_Nk a" and ?key = "take (4 * g_Nk a) (g_Key a)"
  have nk: "0 < ?nk" "?nk \<le> 8" and len: "length ?key = 4 * ?nk" "length (g_RoundKey a) = 240"
    using assms by (auto simp: aes_ok_def)
  have rd: "mem_read (g_Key a) 0 (4 * ?nk) = Some ?key"
    using assms nk by (simp add: mem_read_def aes_ok_def)
  obtain rk0 where wr: "mem_write (g_RoundKey a) 0 ?key = Some rk0"
    using mem_write_ex [of 0 ?key "g_RoundKey a"] nk len by auto
  have rk0: "length rk0 = 240" "take (4 * ?nk) rk0 = ?key"
    using mem_write_length [OF wr] mem_read_after_write [OF wr] len nk by (simp_all add: mem_read_def)
  have "key_words rk0 k = key_word ?nk ?key k" if "k < ?nk" for k
  proof -
    have "take 4 (drop (4 * k) (take (4 * ?nk) rk0)) = take 4 (drop (4 * k) rk0)"
      using that by (simp add: take_drop min_def)
    then show ?thesis using that by (simp add: key_words_def key_word.simps rk0(2) min_def)
  qed
  then have "sched_upto ?nk ?key ?nk rk0" by (simp add: sched_upto_def)
  define n where "n = 4 * (g_Nr a + 1) - ?nk"
  have n: "?nk + n = 4 * (g_Nr a + 1)" using assms(3) by (simp add: n_def)
  have "4 * (?nk + n) \<le> length rk0" "(?nk + n - 1) div ?nk \<le> 10"
    using assms(2,3) n rk0(1) by auto
  then obtain rk where "expand_loop n ?nk ?nk rk0 = Some rk" "length rk = length rk0"
      "sched_upto ?nk ?key (?nk + n) rk"
    using expand_loop_spec [OF nk(1) len(1) le_refl _ _ \<open>sched_upto ?nk ?key ?nk rk0\<close>] by blast
  then show ?thesis
    using rd wr rk0(1) n by (intro exI [of _ rk]) (simp add: KeyExpansion_def n_def)
qed


section \<open>The interface functions\<close>

definition pad16 :: "int \<Rightarrow> byte list \<Rightarrow> byte list" where
  "pad16 n b = take 16 (take (nat n) b @ replicate 16 0)"

lemma length_pad16 [simp]: "length (pad16 n b) = 16"
  by (simp add: pad16_def min_def)

lemma padded_Some:
  assumes "0 \<le> n" and "nat n \<le> length b"
  shows "\<exists>p. padded b n = Some p \<and> length p = 32 \<and> take 16 p = pad16 n b"
proof -
  define k where "k = nat (if n > 32 then 32 else n)"
  have k: "k \<le> 32" "k \<le> length b" using assms by (auto simp: k_def)
  then have "padded b n = Some (take k b @ replicate (32 - k) 0)"
    by (simp add: padded_def mem_read_def mem_write_def min_def flip: k_def)
  moreover have "take 16 (take k b @ replicate (32 - k) 0) = pad16 n b"
    using assms k by (auto simp: pad16_def k_def min_def)
  ultimately show ?thesis using k by (simp add: min_def)
qed

definition keyed :: "int \<Rightarrow> int \<Rightarrow> byte list \<Rightarrow> int \<Rightarrow> byte list \<Rightarrow> aes \<Rightarrow> bool" where
  "keyed bits n text k key a \<longleftrightarrow> aes_ok a \<and> g_Nk a = nat bits div 32 \<and> g_Nr a = g_Nk a + 6 \<and>
     g_in a = pad16 n text \<and> round_keys (g_Nr a) (g_RoundKey a) (key_word (g_Nk a) (pad16 k key))"

text \<open>The globals when the program starts.\<close>

definition aes_start :: aes where
  "aes_start = \<lparr>g_Nr = 0, g_Nk = 0, g_in = replicate 16 0, g_out = replicate 16 0,
     g_state = replicate 16 0, g_RoundKey = replicate 240 0, g_Key = replicate 32 0\<rparr>"

lemma aes_ok_start: "aes_ok aes_start"
  by (simp add: aes_ok_def aes_start_def)

lemma load_and_expand_128:
  assumes "aes_ok a" and "0 \<le> n" and "nat n \<le> length text" and "0 \<le> k" and "nat k \<le> length key"
  shows "\<exists>a1 a2. load_key_and_text 128 text n key k a = Some a1 \<and> KeyExpansion a1 = Some a2 \<and>
    keyed 128 n text k key a2"
proof -
  obtain p q where p: "padded text n = Some p" "length p = 32" "take 16 p = pad16 n text"
    and q: "padded key k = Some q" "length q = 32" "take 16 q = pad16 k key"
    using padded_Some assms by metis
  have "length (g_Key a) = 32" "length (g_in a) = 16" using assms(1) by (simp_all add: aes_ok_def)
  then obtain a1 where ld: "load_key_and_text 128 text n key k a = Some a1"
    and a1: "aes_ok a1" "g_Nk a1 = 4" "g_Nr a1 = 10" "g_in a1 = pad16 n text"
      "take 16 (g_Key a1) = pad16 k key"
    using assms(1) p q by (simp add: load_key_and_text_def mem_write_def aes_ok_def)
  obtain rk where rk: "KeyExpansion a1 = Some (a1\<lparr>g_RoundKey := rk\<rparr>)" "length rk = 240"
      "sched_upto 4 (pad16 k key) 44 rk"
    using KeyExpansion_schedule [OF a1(1)] a1 by auto
  have "keyed 128 n text k key (a1\<lparr>g_RoundKey := rk\<rparr>)"
    using a1 rk(2,3) by (simp add: keyed_def aes_ok_def round_keys_def sched_upto_def)
  with ld rk(1) show ?thesis by blast
qed

lemma length_Cipher: "length (g_out (Cipher a)) = 16"
  by (simp add: Cipher_def Let_def)

lemma aes_ok_ciphers: "aes_ok a \<Longrightarrow> aes_ok (Cipher a)" "aes_ok a \<Longrightarrow> aes_ok (InvCipher a)"
  by (simp_all add: aes_ok_def Cipher_def InvCipher_def Let_def)

lemma AES_Encrypt_128:
  assumes "aes_ok a" and "0 \<le> n" and "nat n \<le> length text" and "0 \<le> k" and "nat k \<le> length key"
    and "16 \<le> length out"
  shows "\<exists>a'. AES_Encrypt 128 text n (Some key) k (Some out) a =
      Some (16, Some (fips_cipher 10 (key_word 4 (pad16 k key)) (pad16 n text) @ drop 16 out), a') \<and> aes_ok a'"
proof -
  obtain a1 a2 where s: "load_key_and_text 128 text n key k a = Some a1" "KeyExpansion a1 = Some a2"
    and k: "keyed 128 n text k key a2"
    using load_and_expand_128 [OF assms(1-5)] by blast
  have "g_out (Cipher a2) = fips_cipher 10 (key_word 4 (pad16 k key)) (pad16 n text)"
    using k Cipher_fips [of a2] by (auto simp: keyed_def)
  then show ?thesis
    using s k assms aes_ok_ciphers(1) [of a2]
    by (simp add: AES_Encrypt_def mem_write_def keyed_def fips_cipher_def Let_def)
qed

text \<open>C28: With 128 bits, valid sizes and room for 16 bytes of output, \<open>AES_Encrypt\<close> always
  returns 16 and the output is the FIPS-197 encryption of the text under the key, both padded
  with zeros to 16 bytes: the unrolled rows, the column mix and the in-place key expansion
  compute the reference cipher under the recursive key schedule.\<close>

theorem AES_Encrypt_is_AES128:
  assumes "aes_ok a" and "0 \<le> n" and "nat n \<le> length text" and "0 \<le> k" and "nat k \<le> length key"
    and "16 \<le> length out"
  shows "\<exists>a'. AES_Encrypt 128 text n (Some key) k (Some out) a =
      Some (16, Some (fips_cipher 10 (key_word 4 (pad16 k key)) (pad16 n text) @ drop 16 out), a') \<and> aes_ok a'"
  using assms by (rule AES_Encrypt_128)

lemma AES_Encrypt_is_AES128_witness:
  "\<exists>a'. AES_Encrypt 128 [1, 2, 3] 3 (Some [7]) 1 (Some (replicate 32 0)) aes_start =
     Some (16, Some (fips_cipher 10 (key_word 4 (pad16 1 [7])) (pad16 3 [1, 2, 3]) @
       drop 16 (replicate 32 0)), a') \<and> aes_ok a'"
  by (rule AES_Encrypt_is_AES128) (simp_all add: aes_ok_start)

text \<open>C29: In any two states of the module, \<open>AES_Decrypt\<close> with 128 bits on what
  \<open>AES_Encrypt\<close> wrote gives back the text, cut or padded to 16 bytes.\<close>

theorem AES_Decrypt_AES_Encrypt:
  assumes "aes_ok a" and "0 \<le> n" and "nat n \<le> length text" and "0 \<le> k" and "nat k \<le> length key"
    and "16 \<le> length out" and "16 \<le> length out2" and "aes_ok b"
  shows "\<exists>enc a' b'. AES_Encrypt 128 text n (Some key) k (Some out) a = Some (16, Some enc, a') \<and>
    AES_Decrypt 128 enc 16 (Some key) k (Some out2) b = Some (16, Some (pad16 n text @ drop 16 out2), b')"
proof -
  obtain a1 a2 where s: "load_key_and_text 128 text n key k a = Some a1" "KeyExpansion a1 = Some a2"
    and ka: "keyed 128 n text k key a2"
    using load_and_expand_128 [OF assms(1-5)] by blast
  have lo: "length (g_out (Cipher a2)) = 16" by (rule length_Cipher)
  define enc where "enc = g_out (Cipher a2) @ drop 16 out"
  have encr: "AES_Encrypt 128 text n (Some key) k (Some out) a = Some (16, Some enc, Cipher a2)"
    using s assms(2,4,6) lo by (simp add: AES_Encrypt_def mem_write_def Let_def enc_def)
  have "nat 16 \<le> length enc" using lo by (simp add: enc_def)
  then obtain b1 b2 where t: "load_key_and_text 128 enc 16 key k b = Some b1" "KeyExpansion b1 = Some b2"
    and kb: "keyed 128 16 enc k key b2"
    using load_and_expand_128 [OF assms(8) _ _ assms(4,5), of 16 enc] by auto
  have bi: "g_in b2 = g_out (Cipher a2)"
    using kb lo by (simp add: keyed_def pad16_def enc_def)
  have "g_out (InvCipher b2) = g_out (InvCipher (a2\<lparr>g_in := g_out (Cipher a2)\<rparr>))"
    using ka kb bi by (intro InvCipher_cong [where w = "key_word 4 (pad16 k key)"]) (auto simp: keyed_def)
  also have "\<dots> = pad16 n text"
    using ka Inv_Cipher [of a2] by (simp add: keyed_def)
  finally have "AES_Decrypt 128 enc 16 (Some key) k (Some out2) b =
      Some (16, Some (pad16 n text @ drop 16 out2), InvCipher b2)"
    using t assms(4,7) by (simp add: AES_Decrypt_def mem_write_def Let_def)
  with encr show ?thesis by blast
qed

lemma AES_Decrypt_AES_Encrypt_witness:
  "\<exists>enc a' b'. AES_Encrypt 128 [1, 2, 3] 3 (Some [7]) 1 (Some (replicate 32 0)) aes_start =
     Some (16, Some enc, a') \<and>
   AES_Decrypt 128 enc 16 (Some [7]) 1 (Some (replicate 32 0)) aes_start =
     Some (16, Some (pad16 3 [1, 2, 3] @ drop 16 (replicate 32 0)), b')"
  by (rule AES_Decrypt_AES_Encrypt) (simp_all add: aes_ok_start)

text \<open>With 192 or 256 bits the copy loop stores 24 or 32 bytes into \<open>g_in[16]\<close>: both
  functions write outside the array on every call that passes their checks.\<close>

theorem AES_Encrypt_192_256_leaves_g_in:
  assumes "aes_ok a" and "bits \<in> {192, 256}" and "0 \<le> n" and "0 \<le> k"
  shows "AES_Encrypt bits text n (Some key) k (Some out) a = None \<and>
    AES_Decrypt bits text n (Some key) k (Some out) a = None"
proof -
  have "load_key_and_text bits text n key k a = None"
  proof (cases "padded text n = None \<or> padded key k = None")
    case True
    then show ?thesis by (auto simp: load_key_and_text_def Let_def bind_eq_None_conv)
  next
    case False
    then obtain p q where "padded text n = Some p" "padded key k = Some q" by auto
    moreover from this have "length p = 32" "length q = 32"
      by (auto simp: padded_def bind_eq_Some_conv dest!: mem_write_length)
    ultimately show ?thesis
      using assms by (auto simp: load_key_and_text_def Let_def mem_write_def aes_ok_def)
  qed
  then show ?thesis
    using assms by (auto simp: AES_Encrypt_def AES_Decrypt_def)
qed

lemma AES_Encrypt_192_256_leaves_g_in_witness:
  "AES_Encrypt 256 [1, 2, 3] 3 (Some [7]) 1 (Some (replicate 32 0)) aes_start = None \<and>
   AES_Decrypt 256 [1, 2, 3] 3 (Some [7]) 1 (Some (replicate 32 0)) aes_start = None"
  by (rule AES_Encrypt_192_256_leaves_g_in) (simp_all add: aes_ok_start)

text \<open>Whatever the round keys and the number of rounds, \<open>InvCipher\<close> on the output of
  \<open>Cipher\<close> gives the input block back.\<close>

theorem InvCipher_inverts_Cipher:
  assumes "length (g_in a) = 16"
  shows "g_out (InvCipher (a\<lparr>g_in := g_out (Cipher a)\<rparr>)) = g_in a"
  using assms by (rule Inv_Cipher)

lemma InvCipher_inverts_Cipher_witness:
  "g_out (InvCipher ((aes_start\<lparr>g_Nr := 14\<rparr>)\<lparr>g_in := g_out (Cipher (aes_start\<lparr>g_Nr := 14\<rparr>))\<rparr>)) = replicate 16 0"
  using InvCipher_inverts_Cipher [of "aes_start\<lparr>g_Nr := 14\<rparr>"] by (simp add: aes_start_def)

lemma expand_loop_length: "expand_loop n nk i rk = Some rk' \<Longrightarrow> length rk' = length rk"
proof (induction n arbitrary: i rk)
  case 0
  then show ?case by (simp add: expand_loop.simps)
next
  case (Suc n)
  then show ?case
    by (subst (asm) expand_loop.simps) (auto simp: bind_eq_Some_conv dest!: mem_write_length Suc.IH)
qed

lemma KeyExpansion_ok: "KeyExpansion a = Some a' \<Longrightarrow> aes_ok a \<Longrightarrow> aes_ok a'"
  by (auto simp: KeyExpansion_def bind_eq_Some_conv aes_ok_def dest!: expand_loop_length mem_write_length)

lemma load_ok: "load_key_and_text bits text n key k a = Some a' \<Longrightarrow> aes_ok a \<Longrightarrow> aes_ok a'"
  by (auto simp: load_key_and_text_def Let_def bind_eq_Some_conv aes_ok_def dest!: mem_write_length)



section \<open>The substitution table\<close>

text \<open>Multiplication in the field on integers, and the affine map of the standard.\<close>

fun gf_loop :: "nat \<Rightarrow> int \<Rightarrow> int \<Rightarrow> int" where
  "gf_loop 0 x y = 0"
| "gf_loop (Suc n) x y = (if bit x 0 then y else 0) XOR
     gf_loop n (drop_bit 1 x) (if bit y 7 then push_bit 1 y XOR 0x11b else push_bit 1 y)"

definition rot8 :: "nat \<Rightarrow> int \<Rightarrow> int" where
  "rot8 n x = take_bit 8 (push_bit n x) OR drop_bit (8 - n) x"

definition fips_affine :: "int \<Rightarrow> int" where
  "fips_affine x = x XOR rot8 1 x XOR rot8 2 x XOR rot8 3 x XOR rot8 4 x XOR 0x63"

definition fips_affine_inv :: "int \<Rightarrow> int" where
  "fips_affine_inv x = rot8 1 x XOR rot8 3 x XOR rot8 6 x XOR 0x05"

definition sbox_entry :: "int \<times> int \<Rightarrow> bool" where
  "sbox_entry p = (case p of (x, v) \<Rightarrow> let y = fips_affine_inv v in 0 \<le> y \<and> y < 256 \<and>
     (if x = 0 then y = 0 else gf_loop 8 x y = 1) \<and> v = fips_affine y)"

lemma sbox_entries: "list_all sbox_entry (zip [0..255] sbox)"
  by code_simp

text \<open>Every entry of the S-box table is the affine image of the inverse of its index in
  GF(2^8) (of 0 for index 0), as FIPS-197 defines it.\<close>

theorem sbox_is_affine_inverse:
  assumes "0 \<le> x" and "x < 256"
  shows "\<exists>y. 0 \<le> y \<and> y < 256 \<and> (if x = 0 then y = 0 else gf_loop 8 x y = 1) \<and>
    getSBoxValue x = fips_affine y"
proof -
  have "length sbox = 256" by (simp add: sbox_def)
  then have "(x, getSBoxValue x) \<in> set (zip [0..255] sbox)"
    using assms by (auto simp: getSBoxValue_def set_zip intro!: exI [of _ "nat x"])
  then have "sbox_entry (x, getSBoxValue x)" using sbox_entries unfolding list_all_iff by blast
  then show ?thesis unfolding sbox_entry_def Let_def prod.case by blast
qed

lemma sbox_is_affine_inverse_witness:
  "\<exists>y. 0 \<le> y \<and> y < 256 \<and> (if (0x53 :: int) = 0 then y = 0 else gf_loop 8 0x53 y = 1) \<and>
    getSBoxValue 0x53 = fips_affine y"
  by (rule sbox_is_affine_inverse) simp_all

end
