(* ===== verification/Buf_List.thy ===== *)
theory Buf_List
  imports Frame_Fifo
begin

text \<open>
  The slot ring \<open>BUFLIST\<close> of \<open>src/FileSystem/avicodelib/bufmanage.c\<close>: one block cut into
  \<open>max_count\<close> slots of \<open>max_length\<close> bytes, each holding a frame header and its payload,
  with a top and a bottom index and an item count. It interprets \<open>frame_queue\<close> for the
  frames that fit a slot together with their header; the size test of \<open>insert_data\<close> lets
  larger ones through.
\<close>

unbundle bit_operations_syntax

section \<open>State\<close>

text \<open>The members of \<open>GST_DRV_BUF_INFO\<close> that this file fills in; the arrays have 16 entries.\<close>

record drv_buf_info =
  bi_iBufDataType :: u32
  bi_iChannelMask :: u32
  bi_iBufLen :: "u32 list"
  bi_iFrameType :: "u32 list"
  bi_tv_sec :: u32
  bi_tv_usec :: u32
  bi_iFrameCountNumber :: "u32 list"

text \<open>\<open>bl_buf_addr\<close> is the block (\<open>None\<close> for NULL), \<open>bl_subbuf_addr\<close> the slot offsets in it.\<close>

record buf_list =
  bl_top :: int
  bl_bottom :: int
  bl_item_count :: int
  bl_inter_critical :: int
  bl_max_length :: int
  bl_max_count :: int
  bl_buf_addr :: "byte list option"
  bl_subbuf_addr :: "nat list"
  bl_bufinfo :: drv_buf_info

definition MAX_BUF_NUM :: int where "MAX_BUF_NUM = 1000"

text \<open>\<open>sizeof(FRAMEHEADERINFO)\<close> is 36.\<close>

definition BUF_MAX_SIZE :: int where "BUF_MAX_SIZE = 128 * 1024 + 36"
definition NET_BUF_MAX_SIZE :: int where "NET_BUF_MAX_SIZE = 128 * 4 * 1024 + 36"
definition OLD_MAX_FRAME_BUF_SIZE :: u32 where "OLD_MAX_FRAME_BUF_SIZE = 256 * 1024"

text \<open>An element of a C array, and its update: outside the array both are undefined.\<close>

definition arr_get :: "'a list \<Rightarrow> nat \<Rightarrow> 'a option" where
  "arr_get xs i = (if i < length xs then Some (xs ! i) else None)"

definition arr_set :: "'a list \<Rightarrow> nat \<Rightarrow> 'a \<Rightarrow> 'a list option" where
  "arr_set xs i v = (if i < length xs then Some (xs[i := v]) else None)"

section \<open>Operations\<close>

text \<open>
  \<open>malloc\<close> hands out the block when it succeeds: its bytes, of the length asked for. A product
  of the two sizes beyond \<open>int\<close> is undefined.
\<close>

definition init_buf_list :: "(nat \<Rightarrow> byte list option) \<Rightarrow> buf_list \<Rightarrow> int \<Rightarrow> int \<Rightarrow> (int \<times> buf_list) option" where
  "init_buf_list malloc bl buf_max_size buf_max_count =
     (let bl1 = bl\<lparr>bl_top := 0, bl_bottom := 0, bl_item_count := 0, bl_buf_addr := None,
                   bl_inter_critical := 0\<rparr>;
          sz = (if buf_max_size \<le> 0 then BUF_MAX_SIZE else buf_max_size);
          cnt = (if buf_max_count \<le> 0 then MAX_BUF_NUM else buf_max_count)
      in if cnt > MAX_BUF_NUM then Some (- 1, bl1)
      else if sz * cnt \<ge> 2 ^ 31 then None
      else case malloc (nat (sz * cnt)) of
             None \<Rightarrow> Some (- 1, bl1)
           | Some m \<Rightarrow>
               Some (1, bl1\<lparr>bl_buf_addr := Some m,
                            bl_subbuf_addr := map (\<lambda>i. nat sz * i) [0..<nat cnt],
                            bl_max_length := sz, bl_max_count := cnt\<rparr>))"

definition destroy_buf_list :: "buf_list \<Rightarrow> int \<times> buf_list" where
  "destroy_buf_list bl =
     (1, bl\<lparr>bl_top := 0, bl_bottom := 0, bl_item_count := 0, bl_inter_critical := 0,
            bl_buf_addr := None\<rparr>)"

text \<open>\<open>pdata\<close> is the object the caller's pointer designates, from the pointer to its end.\<close>

definition insert_data :: "frame_header \<Rightarrow> byte list \<Rightarrow> buf_list \<Rightarrow> (int \<times> buf_list) option" where
  "insert_data h pdata bl =
     (if bl_item_count bl \<ge> bl_max_count bl then Some (- 1, bl)
      else if fh_iLength h > word_of_int (bl_max_length bl) \<or> fh_iLength h \<le> 0 then Some (- 1, bl)
      else do {
        buf \<leftarrow> arr_get (bl_subbuf_addr bl) (nat (bl_top bl));
        m \<leftarrow> bl_buf_addr bl;
        m1 \<leftarrow> mem_write m buf (enc_frame_header h);
        d \<leftarrow> mem_read pdata 0 (unat (fh_iLength h));
        m2 \<leftarrow> mem_write m1 (buf + 36) d;
        let top = bl_top bl + 1;
        Some (1, bl\<lparr>bl_buf_addr := Some m2, bl_item_count := bl_item_count bl + 1,
                    bl_top := if top \<ge> bl_max_count bl then 0 else top,
                    bl_inter_critical := 0\<rparr>)
      })"

text \<open>\<open>h0\<close> and \<open>pdata\<close> are the caller's header object and block before the call.\<close>

definition get_one_buf :: "frame_header \<Rightarrow> byte list \<Rightarrow> buf_list \<Rightarrow>
    (int \<times> frame_header \<times> byte list \<times> buf_list) option" where
  "get_one_buf h0 pdata bl =
     (if bl_item_count bl \<le> 0 then Some (- 1, h0, pdata, bl)
      else do {
        buf \<leftarrow> arr_get (bl_subbuf_addr bl) (nat (bl_bottom bl));
        m \<leftarrow> bl_buf_addr bl;
        hb \<leftarrow> mem_read m buf 36;
        let h = dec_frame_header hb;
        d \<leftarrow> mem_read m (buf + 36) (unat (fh_iLength h));
        pdata' \<leftarrow> mem_write pdata 0 d;
        let bot = bl_bottom bl + 1;
        Some (1, h, pdata', bl\<lparr>bl_item_count := bl_item_count bl - 1,
                    bl_bottom := if bot \<ge> bl_max_count bl then 0 else bot,
                    bl_inter_critical := 0\<rparr>)
      })"

text \<open>
  The fields are unsigned, so the tests \<open>index < 0\<close> and \<open>iLength <= 0\<close> are never true and
  true for zero; \<open>chans\<close> is \<open>get_dvr_max_chan(1)\<close>.
\<close>

definition CheckFrameHeader2 :: "u32 \<Rightarrow> frame_header \<Rightarrow> int" where
  "CheckFrameHeader2 chans h =
     (if fh_type h \<noteq> VIDEO_FRAME \<and> fh_type h \<noteq> AUDIO_FRAME then ERROR
      else if fh_index h \<ge> chans then ERROR
      else if fh_iLength h > MAX_FRAME_BUF_SIZE - 10 * 1024 \<or> fh_iLength h \<le> 0 then ERROR
      else ALLRIGHT)"

text \<open>A shift by 32 or more is undefined.\<close>

definition set_bit :: "u32 \<Rightarrow> nat \<Rightarrow> u32 option" where
  "set_bit iCam iBitSite = (if iBitSite < 32 then Some (iCam OR push_bit iBitSite 1) else None)"

definition get_bit :: "u32 \<Rightarrow> nat \<Rightarrow> u32 option" where
  "get_bit iCam iBitSite =
     (if iBitSite < 32 then Some (signed_drop_bit iBitSite iCam AND 1) else None)"

text \<open>The six assignments to \<open>list->bufinfo\<close> in both information functions.\<close>

definition fill_bufinfo :: "frame_header \<Rightarrow> drv_buf_info \<Rightarrow> drv_buf_info option" where
  "fill_bufinfo h bi = do {
     let i = unat (fh_index h);
     ft \<leftarrow> arr_set (bi_iFrameType bi) i (fh_iFrameType h);
     mask \<leftarrow> set_bit 0 i;
     bl \<leftarrow> arr_set (bi_iBufLen bi) i (fh_iLength h);
     cn \<leftarrow> arr_set (bi_iFrameCountNumber bi) i (fh_frame_num h);
     Some (bi\<lparr>bi_iFrameType := ft, bi_iChannelMask := mask, bi_tv_sec := fh_ulTimeSec h,
              bi_tv_usec := fh_ulTimeUsec h, bi_iBufLen := bl, bi_iFrameCountNumber := cn,
              bi_iBufDataType := fh_type h\<rparr>)
   }"

text \<open>
  The information functions answer whether the returned pointer is not NULL. \<open>get_enc_buf_info\<close>
  ignores the result of \<open>get_enc_buf\<close>: \<open>hdr0\<close> is the uninitialised local header.
\<close>

definition get_enc_buf_info :: "u32 \<Rightarrow> byte list \<Rightarrow> rec_state \<Rightarrow> buf_list \<Rightarrow> byte list \<Rightarrow>
    (bool \<times> byte list \<times> rec_state \<times> buf_list) option" where
  "get_enc_buf_info chans hdr0 st bl pdata =
     (if is_enable_get_rec_data st = 0 then Some (False, pdata, st, bl)
      else do {
        (ret, hdr, pdata', st') \<leftarrow> get_enc_buf st hdr0 pdata;
        let h = dec_frame_header hdr;
        if CheckFrameHeader2 chans h = ERROR then Some (False, pdata', st', bl)
        else do {
          bi \<leftarrow> fill_bufinfo h (bl_bufinfo bl);
          Some (True, pdata', st', bl\<lparr>bl_bufinfo := bi\<rparr>)
        }
      })"

definition get_buf_info :: "frame_header \<Rightarrow> buf_list \<Rightarrow> byte list \<Rightarrow> (bool \<times> byte list \<times> buf_list) option" where
  "get_buf_info h0 bl pdata =
     (if bl_item_count bl \<le> 0 then Some (False, pdata, bl)
      else do {
        (ret, h, pdata', bl') \<leftarrow> get_one_buf h0 pdata bl;
        bi \<leftarrow> fill_bufinfo h (bl_bufinfo bl');
        Some (True, pdata', bl'\<lparr>bl_bufinfo := bi\<rparr>)
      })"

text \<open>
  \<open>list_to_list\<close> moves one frame of \<open>src\<close> into the network ring; \<open>big\<close> says that
  \<open>Net_cam_get_support_512K_buf_flag()\<close> is not 0, \<open>temp\<close> is the static block.
\<close>

definition list_to_list :: "int \<Rightarrow> int \<Rightarrow> bool \<Rightarrow> frame_header \<Rightarrow> byte list \<Rightarrow> buf_list \<Rightarrow> net_state \<Rightarrow>
    (int \<times> byte list \<times> buf_list \<times> net_state) option" where
  "list_to_list now chans big h0 temp src net = do {
     (ret, h, temp', src') \<leftarrow> get_one_buf h0 temp src;
     if ret < 0 then Some (ret, temp', src', net)
     else if \<not> big \<and> fh_iLength h > OLD_MAX_FRAME_BUF_SIZE - 5 * 1024 then Some (- 1, temp', src', net)
     else if big \<and> fh_iLength h > MAX_FRAME_BUF_SIZE - 5 * 1024 then Some (- 1, temp', src', net)
     else do {
       (ret2, net') \<leftarrow> insert_net_buf now chans net h temp';
       Some (if ret2 < 0 then ret2 else ALLRIGHT, temp', src', net')
     }
   }"

definition get_enable_insert_data_num :: "buf_list \<Rightarrow> int" where
  "get_enable_insert_data_num bl =
     (if bl_item_count bl < bl_max_count bl then bl_max_count bl - bl_item_count bl else - 1)"

definition enable_insert_data :: "buf_list \<Rightarrow> int" where
  "enable_insert_data bl = (if bl_item_count bl < bl_max_count bl then 1 else - 1)"

definition enable_get_data :: "buf_list \<Rightarrow> int" where
  "enable_get_data bl = (if bl_item_count bl > 0 then 1 else - 1)"

definition clear_buf :: "buf_list \<Rightarrow> int \<times> buf_list" where
  "clear_buf bl = (1, bl\<lparr>bl_top := 0, bl_bottom := 0, bl_item_count := 0, bl_inter_critical := 0\<rparr>)"

section \<open>Slots and the frames in them\<close>

definition slot_bytes :: "byte list \<Rightarrow> nat \<Rightarrow> nat \<Rightarrow> byte list" where
  "slot_bytes m ml i = take ml (drop (ml * i) m)"

definition slot_frame :: "byte list \<Rightarrow> nat \<Rightarrow> nat \<Rightarrow> frame" where
  "slot_frame m ml i = frame_of_blocks (take 36 (slot_bytes m ml i)) (drop 36 (slot_bytes m ml i))"

text \<open>A frame that fits a slot together with its header.\<close>

definition slot_ok :: "nat \<Rightarrow> frame \<Rightarrow> bool" where
  "slot_ok ml x = (unat (fh_iLength (fst x)) = length (snd x) \<and> snd x \<noteq> [] \<and> 36 + length (snd x) \<le> ml)"

definition bl_ok :: "buf_list \<Rightarrow> bool" where
  "bl_ok bl \<longleftrightarrow>
     (case bl_buf_addr bl of None \<Rightarrow> False
      | Some m \<Rightarrow> length m = nat (bl_max_length bl) * nat (bl_max_count bl)) \<and>
     bl_subbuf_addr bl = map (\<lambda>i. nat (bl_max_length bl) * i) [0..<nat (bl_max_count bl)] \<and>
     0 < bl_max_count bl \<and> 0 < bl_max_length bl \<and> bl_max_length bl < 2 ^ 31 \<and>
     0 \<le> bl_top bl \<and> bl_top bl < bl_max_count bl \<and> 0 \<le> bl_bottom bl \<and> bl_bottom bl < bl_max_count bl \<and>
     0 \<le> bl_item_count bl \<and> bl_item_count bl \<le> bl_max_count bl \<and>
     bl_top bl = (bl_bottom bl + bl_item_count bl) mod bl_max_count bl"

definition bl_rep :: "nat \<Rightarrow> nat \<Rightarrow> buf_list \<Rightarrow> frame list \<Rightarrow> bool" where
  "bl_rep ml mc bl q \<longleftrightarrow> bl_ok bl \<and> bl_max_length bl = int ml \<and> bl_max_count bl = int mc \<and>
     bl_item_count bl = int (length q) \<and> list_all (slot_ok ml) q \<and>
     ring_view mc (slot_frame (the (bl_buf_addr bl)) ml) (nat (bl_bottom bl)) (length q) = q"

definition bl_accepts :: "nat \<Rightarrow> nat \<Rightarrow> frame list \<Rightarrow> frame \<Rightarrow> bool" where
  "bl_accepts ml mc q x = (slot_ok ml x \<and> length q < mc)"

definition bl_put :: "buf_list \<Rightarrow> frame \<Rightarrow> buf_list option" where
  "bl_put bl x = do { (r, bl') \<leftarrow> insert_data (fst x) (snd x) bl; if r = 1 then Some bl' else None }"

text \<open>A consumer with a block of \<open>n\<close> bytes.\<close>

definition bl_get :: "nat \<Rightarrow> buf_list \<Rightarrow> (frame \<times> buf_list) option" where
  "bl_get n bl = do {
     (r, h, buf, bl') \<leftarrow> get_one_buf (dec_frame_header (replicate 36 0)) (replicate n 0) bl;
     if r = 1 then Some ((h, take (unat (fh_iLength h)) buf), bl') else None
   }"

lemma slot_inside: "i < mc \<Longrightarrow> ml * i + ml \<le> ml * (mc :: nat)"
proof -
  assume "i < mc"
  then have "ml * (i + 1) \<le> ml * mc" by (intro mult_le_mono2) simp
  then show ?thesis by simp
qed

lemma slots_disjoint: "i \<noteq> j \<Longrightarrow> ml * i + ml \<le> ml * j \<or> ml * j + ml \<le> ml * (i :: nat)"
  using slot_inside [of i j ml] slot_inside [of j i ml] by fastforce

text \<open>Writing a frame that fits into slot \<open>j\<close> gives exactly that slot the frame.\<close>

lemma slot_write:
  assumes m: "length m = ml * mc" and j: "j < mc" and fit: "slot_ok ml (h, d)"
  shows "\<exists>m1 m2. mem_write m (ml * j) (enc_frame_header h) = Some m1 \<and>
    mem_write m1 (ml * j + 36) d = Some m2 \<and> length m2 = length m \<and>
    slot_frame m2 ml j = (h, d) \<and> (\<forall>i. i \<noteq> j \<longrightarrow> slot_frame m2 ml i = slot_frame m ml i)"
proof -
  let ?e = "enc_frame_header h"
  have sz: "36 + length d \<le> ml" using fit by (simp add: slot_ok_def)
  have in_m: "ml * j + ml \<le> length m" using slot_inside [OF j, of ml] m by simp
  obtain m1 m2 where w1: "mem_write m (ml * j) ?e = Some m1"
    and w2: "mem_write m1 (ml * j + 36) d = Some m2" and w: "mem_write m (ml * j) (?e @ d) = Some m2"
    using mem_write_append [of "ml * j" ?e d m] in_m sz by auto
  have l2: "length m2 = length m" using mem_write_length [OF w] .
  have "m2 = take (ml * j) m @ (?e @ d) @ drop (ml * j + length (?e @ d)) m"
    using w by (auto simp: mem_write_def split: if_splits)
  then have "drop (ml * j) m2 = (?e @ d) @ drop (ml * j + length (?e @ d)) m"
    using in_m by (simp add: min_absorb2)
  then have sb: "slot_bytes m2 ml j = ?e @ d @ take (ml - 36 - length d) (drop (ml * j + length (?e @ d)) m)"
    using sz by (simp add: slot_bytes_def)
  then have own: "slot_frame m2 ml j = (h, d)"
    using fit by (simp add: slot_frame_def frame_of_blocks_def codec_simps slot_ok_def)
  have "slot_frame m2 ml i = slot_frame m ml i" if ij: "i \<noteq> j" for i
  proof -
    have "slot_bytes m2 ml i = slot_bytes m ml i"
    proof (rule nth_equalityI)
      show "length (slot_bytes m2 ml i) = length (slot_bytes m ml i)" using l2 by (simp add: slot_bytes_def)
      fix k assume "k < length (slot_bytes m2 ml i)"
      then have k: "k < ml" "ml * i + k < length m" using l2 by (auto simp: slot_bytes_def)
      have "m2 ! (ml * i + k) = m ! (ml * i + k)"
        using mem_write_nth [OF w k(2)] slots_disjoint [OF ij, of ml] k(1) sz by auto
      then show "slot_bytes m2 ml i ! k = slot_bytes m ml i ! k" using k l2 by (simp add: slot_bytes_def)
    qed
    then show ?thesis by (simp add: slot_frame_def)
  qed
  with w1 w2 l2 own show ?thesis by blast
qed

lemma bl_okD:
  assumes "bl_ok bl"
  obtains m where "bl_buf_addr bl = Some m" "length m = nat (bl_max_length bl) * nat (bl_max_count bl)"
  using assms by (auto simp: bl_ok_def split: option.splits)

lemma bl_slot_addr:
  "bl_ok bl \<Longrightarrow> 0 \<le> i \<Longrightarrow> i < bl_max_count bl \<Longrightarrow>
    arr_get (bl_subbuf_addr bl) (nat i) = Some (nat (bl_max_length bl) * nat i)"
  by (auto simp: bl_ok_def arr_get_def)

text \<open>The wrap of the two indices is a step modulo the slot count.\<close>

lemma index_step:
  "0 \<le> t \<Longrightarrow> t < c \<Longrightarrow> (if t + 1 \<ge> c then 0 else t + 1) = (t + 1) mod (c :: int)"
  by (cases "t + 1 = c") auto

lemma insert_data_ok:
  assumes rep: "bl_rep ml mc bl q" and acc: "bl_accepts ml mc q (h, d)"
  shows "\<exists>bl'. insert_data h d bl = Some (1, bl') \<and> bl_rep ml mc bl' (q @ [(h, d)])"
proof -
  from rep have ok: "bl_ok bl" and ml: "bl_max_length bl = int ml" and mc: "bl_max_count bl = int mc"
    and cnt: "bl_item_count bl = int (length q)" by (simp_all add: bl_rep_def)
  from acc have fit: "slot_ok ml (h, d)" and room: "length q < mc" by (simp_all add: bl_accepts_def)
  have l: "unat (fh_iLength h) = length d" "d \<noteq> []" "36 + length d \<le> ml"
    using fit by (simp_all add: slot_ok_def)
  obtain m where m: "bl_buf_addr bl = Some m" "length m = ml * mc" using ok ml mc by (auto elim: bl_okD)
  define j where "j = nat (bl_top bl)"
  have top: "0 \<le> bl_top bl" "bl_top bl < bl_max_count bl" using ok by (simp_all add: bl_ok_def)
  then have j: "j < mc" using mc by (auto simp: j_def)
  obtain m1 m2 where w: "mem_write m (ml * j) (enc_frame_header h) = Some m1"
    "mem_write m1 (ml * j + 36) d = Some m2" "length m2 = length m" "slot_frame m2 ml j = (h, d)"
    "\<forall>i. i \<noteq> j \<longrightarrow> slot_frame m2 ml i = slot_frame m ml i"
    using slot_write [OF m(2) j fit] by blast
  define bl' where "bl' = bl\<lparr>bl_buf_addr := Some m2, bl_item_count := bl_item_count bl + 1,
      bl_top := (if bl_top bl + 1 \<ge> bl_max_count bl then 0 else bl_top bl + 1), bl_inter_critical := 0\<rparr>"
  have nz: "\<not> fh_iLength h \<le> 0" using l(1,2) by (auto simp: word_le_nat_alt)
  have "ml < 2 ^ 31" using ok ml by (simp add: bl_ok_def)
  then have "unat (word_of_int (int ml) :: u32) = ml" by simp
  then have small: "\<not> fh_iLength h > word_of_int (bl_max_length bl)"
    using l ml by (simp add: word_less_nat_alt)
  have run: "insert_data h d bl = Some (1, bl')"
    using bl_slot_addr [OF ok top] nz small room cnt mc ml w(1,2) m(1) l(1)
    by (simp add: insert_data_def j_def [symmetric] mem_read_def bl'_def)
  have topn: "int j = (bl_bottom bl + int (length q)) mod int mc"
    using ok top(1) mc cnt by (simp add: bl_ok_def j_def)
  have bot: "0 \<le> bl_bottom bl" using ok by (simp add: bl_ok_def)
  then have jmod: "j = (nat (bl_bottom bl) + length q) mod mc"
    using topn by (metis nat_int nat_mod_distrib nat_add_distrib of_nat_0_le_iff add_nonneg_nonneg)
  have "bl_ok bl'"
    using ok w(3) m(1) mc cnt room index_step [OF top]
    by (auto simp: bl_ok_def bl'_def mod_simps algebra_simps)
  moreover have "ring_view mc (slot_frame m2 ml) (nat (bl_bottom bl)) (length q)
      = ring_view mc (slot_frame m ml) (nat (bl_bottom bl)) (length q)"
  proof (rule ring_view_cong)
    fix i assume i: "i < length q"
    have "(nat (bl_bottom bl) + i) mod mc \<noteq> j"
      using ring_place_inj [of "nat (bl_bottom bl)" i mc "length q"] i room unfolding jmod by auto
    then show "slot_frame m2 ml ((nat (bl_bottom bl) + i) mod mc)
        = slot_frame m ml ((nat (bl_bottom bl) + i) mod mc)" using w(5) by blast
  qed
  ultimately have "bl_rep ml mc bl' (q @ [(h, d)])"
    using rep fit w(4) m(1) ml mc cnt
    by (simp add: bl_rep_def bl'_def ring_view_snoc jmod [symmetric])
  with run show ?thesis by blast
qed

lemma slot_read:
  assumes "length m = ml * mc" and "j < mc" and "slot_frame m ml j = (h, d)" and "slot_ok ml (h, d)"
  shows "\<exists>hb. mem_read m (ml * j) 36 = Some hb \<and> dec_frame_header hb = h \<and>
    mem_read m (ml * j + 36) (length d) = Some d"
proof -
  have sz: "36 + length d \<le> ml" "unat (fh_iLength h) = length d" using assms(4) by (simp_all add: slot_ok_def)
  have in_m: "ml * j + ml \<le> length m" using slot_inside [OF assms(2), of ml] assms(1) by simp
  have h: "dec_frame_header (take 36 (drop (ml * j) m)) = h"
    and d: "take (length d) (drop 36 (take ml (drop (ml * j) m))) = d"
    using assms(3) sz by (auto simp: slot_frame_def frame_of_blocks_def slot_bytes_def)
  have "take (length d) (drop (ml * j + 36) m) = d"
    using d sz(1) by (simp add: drop_take add.commute)
  then show ?thesis using in_m sz(1) h by (simp add: mem_read_def)
qed

lemma get_one_buf_ok:
  assumes rep: "bl_rep ml mc bl ((h, d) # q)" and buf: "length d \<le> length pdata"
  shows "\<exists>bl'. get_one_buf h0 pdata bl = Some (1, h, d @ drop (length d) pdata, bl') \<and> bl_rep ml mc bl' q"
proof -
  from rep have ok: "bl_ok bl" and ml: "bl_max_length bl = int ml" and mc: "bl_max_count bl = int mc"
    and cnt: "bl_item_count bl = int (length q) + 1" and fit: "slot_ok ml (h, d)"
    and qs: "list_all (slot_ok ml) q" by (simp_all add: bl_rep_def)
  obtain m where m: "bl_buf_addr bl = Some m" "length m = ml * mc" using ok ml mc by (auto elim: bl_okD)
  have bot: "0 \<le> bl_bottom bl" "bl_bottom bl < bl_max_count bl" using ok by (simp_all add: bl_ok_def)
  define j where "j = nat (bl_bottom bl)"
  have j: "j < mc" using bot mc by (auto simp: j_def)
  have view: "ring_view mc (slot_frame m ml) j (Suc (length q)) = (h, d) # q"
    using rep m(1) by (simp add: bl_rep_def j_def)
  then have now: "slot_frame m ml j = (h, d)" and rest: "ring_view mc (slot_frame m ml) (j + 1) (length q) = q"
    using j by (simp_all add: ring_view_Suc)
  obtain hb where hb: "mem_read m (ml * j) 36 = Some hb" "dec_frame_header hb = h"
    "mem_read m (ml * j + 36) (length d) = Some d"
    using slot_read [OF m(2) j now fit] by blast
  have ld: "unat (fh_iLength h) = length d" using fit by (simp add: slot_ok_def)
  define bl' where "bl' = bl\<lparr>bl_item_count := bl_item_count bl - 1,
      bl_bottom := (if bl_bottom bl + 1 \<ge> bl_max_count bl then 0 else bl_bottom bl + 1),
      bl_inter_critical := 0\<rparr>"
  have run: "get_one_buf h0 pdata bl = Some (1, h, d @ drop (length d) pdata, bl')"
    using bl_slot_addr [OF ok bot] hb m(1) ml cnt ld buf
    by (simp add: get_one_buf_def j_def [symmetric] mem_write_def bl'_def)
  have bot': "nat (bl_bottom bl') = (j + 1) mod mc"
  proof -
    have "bl_bottom bl' = (bl_bottom bl + 1) mod int mc"
      using index_step [OF bot] mc by (simp add: bl'_def)
    also have "\<dots> = int ((j + 1) mod mc)" using bot(1) by (simp add: j_def zmod_int add.commute)
    finally show ?thesis by simp
  qed
  have "bl_ok bl'"
    using ok cnt mc m(1) index_step [OF bot]
    by (auto simp: bl_ok_def bl'_def mod_simps algebra_simps)
  then have "bl_rep ml mc bl' q"
    using rest qs ml mc cnt m(1) bot'
    by (simp add: bl_rep_def ring_view_mod) (simp add: bl'_def)
  with run show ?thesis by blast
qed

lemma bl_put_ok:
  "bl_rep ml mc bl q \<Longrightarrow> bl_accepts ml mc q x \<Longrightarrow> \<exists>bl'. bl_put bl x = Some bl' \<and> bl_rep ml mc bl' (q @ [x])"
  using insert_data_ok [of ml mc bl q "fst x" "snd x"] by (auto simp: bl_put_def)

lemma bl_get_ok:
  assumes "bl_rep ml mc bl (x # q)"
  shows "\<exists>bl'. bl_get ml bl = Some (x, bl') \<and> bl_rep ml mc bl' q"
proof -
  have "slot_ok ml x" using assms by (simp add: bl_rep_def)
  then show ?thesis
    using get_one_buf_ok [of ml mc bl "fst x" "snd x" q "replicate ml 0" "dec_frame_header (replicate 36 0)"] assms
    by (auto simp: bl_get_def slot_ok_def)
qed

interpretation slots: frame_queue bl_put "bl_get ml" "bl_rep ml mc" "bl_accepts ml mc" "\<lambda>q. q \<noteq> []"
  by unfold_locales (rule bl_put_ok, assumption+, rule bl_get_ok)

section \<open>Properties\<close>

lemma init_buf_list_ok:
  assumes "init_buf_list malloc bl sz cnt = Some (1, bl')" and "\<And>n b. malloc n = Some b \<Longrightarrow> length b = n"
    and "0 < sz" and "0 < cnt"
  shows "bl_rep (nat sz) (nat cnt) bl' []"
proof -
  have lim: "sz * cnt < 2 ^ 31" and bl': "\<exists>m. malloc (nat (sz * cnt)) = Some m \<and>
      bl' = bl\<lparr>bl_top := 0, bl_bottom := 0, bl_item_count := 0, bl_buf_addr := Some m,
        bl_inter_critical := 0, bl_subbuf_addr := map (\<lambda>i. nat sz * i) [0..<nat cnt],
        bl_max_length := sz, bl_max_count := cnt\<rparr>"
    using assms(1,3,4)
    by (auto simp: init_buf_list_def Let_def not_le split: if_splits option.splits)
  then obtain m where m: "malloc (nat (sz * cnt)) = Some m"
      "bl' = bl\<lparr>bl_top := 0, bl_bottom := 0, bl_item_count := 0, bl_buf_addr := Some m,
        bl_inter_critical := 0, bl_subbuf_addr := map (\<lambda>i. nat sz * i) [0..<nat cnt],
        bl_max_length := sz, bl_max_count := cnt\<rparr>" by blast
  have "sz * 1 \<le> sz * cnt" using assms(3,4) by (intro mult_left_mono) auto
  then have "sz < 2 ^ 31" using lim by simp
  moreover have "length m = nat sz * nat cnt" using assms(2) [OF m(1)] assms(3) by (simp add: nat_mult_distrib)
  ultimately show ?thesis using assms(3,4) m(2) by (simp add: bl_rep_def bl_ok_def)
qed

text \<open>C25: \<open>BUFLIST\<close> is a FIFO of frames. After a successful \<open>init_buf_list\<close>, every interleaving
  of \<open>insert_data\<close> with frames whose header and payload fit a slot while a slot is free, and
  \<open>get_one_buf\<close> while a frame waits, succeeds and returns the frames unchanged and in order,
  the two indices wrapping around the slots.\<close>
theorem buf_list_frames_in_order:
  assumes "init_buf_list malloc bl0 sz cnt = Some (1, bl)" and "\<And>n b. malloc n = Some b \<Longrightarrow> length b = n"
    and "0 < sz" and "0 < cnt"
    and "run_queue (list_put (bl_accepts (nat sz) (nat cnt))) (list_get (\<lambda>q. q \<noteq> [])) cs [] = Some (out, q)"
  shows "\<exists>bl'. run_queue bl_put (bl_get (nat sz)) cs bl = Some (out, bl') \<and>
    bl_rep (nat sz) (nat cnt) bl' q \<and> puts cs = out @ q"
  using slots.simulates [OF init_buf_list_ok [OF assms(1-4)] assms(5)] list_queue_order [OF assms(5)]
  by simp

definition empty_list :: buf_list where
  "empty_list = \<lparr>bl_top = 0, bl_bottom = 0, bl_item_count = 0, bl_inter_critical = 0,
     bl_max_length = 0, bl_max_count = 0, bl_buf_addr = None, bl_subbuf_addr = [],
     bl_bufinfo = \<lparr>bi_iBufDataType = 0, bi_iChannelMask = 0, bi_iBufLen = replicate 16 0,
       bi_iFrameType = replicate 16 0, bi_tv_sec = 0, bi_tv_usec = 0,
       bi_iFrameCountNumber = replicate 16 0\<rparr>\<rparr>"

definition sample_list :: buf_list where
  "sample_list = empty_list\<lparr>bl_buf_addr := Some (replicate 80 0), bl_subbuf_addr := [0, 40],
     bl_max_length := 40, bl_max_count := 2\<rparr>"

lemma sample_list_init:
  "init_buf_list (\<lambda>n. Some (replicate n 0)) empty_list 40 2 = Some (1, sample_list)"
  by (simp add: init_buf_list_def empty_list_def sample_list_def MAX_BUF_NUM_def upt_rec Let_def)

lemma sample_list_rep: "bl_rep 40 2 sample_list []"
  using init_buf_list_ok [OF sample_list_init] by simp

lemma buf_list_frames_in_order_witness:
  "\<exists>bl'. run_queue bl_put (bl_get 40)
      [Put (sample_header 2, [7, 8]), Put (sample_header 1, [9]), Get, Put (sample_header 4, [1, 2, 3, 4]), Get]
      sample_list = Some ([(sample_header 2, [7, 8]), (sample_header 1, [9])], bl')"
proof -
  have "run_queue (list_put (bl_accepts (nat 40) (nat 2))) (list_get (\<lambda>q. q \<noteq> []))
      [Put (sample_header 2, [7, 8]), Put (sample_header 1, [9]), Get, Put (sample_header 4, [1, 2, 3, 4]), Get] [] =
      Some ([(sample_header 2, [7, 8]), (sample_header 1, [9])], [(sample_header 4, [1, 2, 3, 4])])"
    by (simp add: list_put_def list_get_def bl_accepts_def slot_ok_def sample_header_def)
  from buf_list_frames_in_order [OF sample_list_init _ _ _ this] show ?thesis by auto
qed

text \<open>\<open>insert_data\<close> overruns its block. It compares the payload length with the slot size
  and then writes the 36-byte header in front of it: in the last slot every accepted payload
  longer than \<open>max_length - 36\<close> is written past the end of the allocated block.\<close>
theorem insert_data_overruns_block:
  assumes "bl_ok bl" and "bl_item_count bl < bl_max_count bl" and "bl_top bl = bl_max_count bl - 1"
    and "int (unat (fh_iLength h)) \<le> bl_max_length bl" and "bl_max_length bl < int (unat (fh_iLength h)) + 36"
    and "36 \<le> bl_max_length bl" and "unat (fh_iLength h) \<le> length pdata" and "fh_iLength h \<noteq> 0"
  shows "insert_data h pdata bl = None \<and>
    \<not> fh_iLength h > word_of_int (bl_max_length bl)"
proof -
  obtain m where m: "bl_buf_addr bl = Some m" "length m = nat (bl_max_length bl) * nat (bl_max_count bl)"
    using bl_okD [OF assms(1)] by blast
  define ml mc where "ml = nat (bl_max_length bl)" and "mc = nat (bl_max_count bl)"
  have z: "bl_max_length bl = int ml" "bl_max_count bl = int mc" "0 < mc" "ml < 2 ^ 31"
    using assms(1) by (auto simp: bl_ok_def ml_def mc_def)
  then have top: "0 \<le> bl_top bl" "bl_top bl < bl_max_count bl" "nat (bl_top bl) = mc - 1"
    using assms(3) by auto
  have addr: "arr_get (bl_subbuf_addr bl) (nat (bl_top bl)) = Some (ml * (mc - 1))"
    using bl_slot_addr [OF assms(1) top(1,2)] by (simp add: ml_def top(3))
  have lm: "length m = ml * (mc - 1) + ml" using m(2) z(3) by (cases mc) (simp_all add: ml_def mc_def)
  obtain m1 where w1: "mem_write m (ml * (mc - 1)) (enc_frame_header h) = Some m1"
    using mem_write_ex [of "ml * (mc - 1)" "enc_frame_header h" m] lm assms(6) z(1) by auto
  have l1: "length m1 = length m" using mem_write_length [OF w1] .
  have lh: "ml < unat (fh_iLength h) + 36" using assms(5) z(1) by linarith
  have over: "mem_write m1 (ml * (mc - 1) + 36) (take (unat (fh_iLength h)) pdata) = None"
    using l1 lm lh assms(7) by (simp add: mem_write_def)
  have "unat (word_of_int (int ml) :: u32) = ml" using z(4) by simp
  moreover have "unat (fh_iLength h) \<le> ml" using assms(4) z(1) by linarith
  ultimately have acc: "\<not> fh_iLength h > word_of_int (bl_max_length bl)"
    using z(1) by (simp add: word_less_nat_alt)
  have "insert_data h pdata bl = None"
    using assms(2,7,8) acc addr m(1) w1 over by (simp add: insert_data_def mem_read_def)
  with acc show ?thesis by blast
qed

lemma insert_data_overruns_block_witness:
  "insert_data (sample_header 5) [1, 2, 3, 4, 5] (sample_list\<lparr>bl_top := 1, bl_bottom := 1\<rparr>) = None"
proof -
  have "bl_ok (sample_list\<lparr>bl_top := 1, bl_bottom := 1\<rparr>)"
    by (simp add: sample_list_def empty_list_def bl_ok_def upt_rec)
  then show ?thesis
    using insert_data_overruns_block [of "sample_list\<lparr>bl_top := 1, bl_bottom := 1\<rparr>" "sample_header 5" "[1, 2, 3, 4, 5]"]
    by (simp add: sample_header_def sample_list_def empty_list_def)
qed

text \<open>The channel mask helpers agree: \<open>set_bit\<close> sets exactly the bit it names (so
  \<open>get_bit\<close> reads 1 there and the old bit everywhere else), for all 32 positions, the sign
  bit of the \<open>int\<close> included.\<close>
theorem get_bit_set_bit:
  assumes "n < 32" and "k < 32"
  shows "\<exists>c'. set_bit c n = Some c' \<and> get_bit c' k = (if k = n then Some 1 else get_bit c k) \<and>
    get_bit c k = Some (if bit c k then 1 else 0)"
proof -
  have gb: "get_bit w k = Some (if bit w k then 1 else 0)" for w
  proof -
    have "signed_drop_bit k w AND 1 = (if bit w k then 1 else 0)"
      using assms(2) by (auto intro!: bit_word_eqI simp: bit_simps)
    then show ?thesis using assms(2) by (simp add: get_bit_def)
  qed
  have "bit (c OR push_bit n 1) k \<longleftrightarrow> bit c k \<or> k = n" using assms by (auto simp: bit_simps)
  then show ?thesis using assms(1) gb by (simp add: set_bit_def)
qed

lemma get_bit_set_bit_witness: "\<exists>c'. set_bit 4 31 = Some c' \<and> get_bit c' 31 = Some 1"
  using get_bit_set_bit [of 31 31 4] by auto

end
