(* ===== verification/Net_Session.thy ===== *)
theory Net_Session
  imports Net_Link Aes_EnDe Buf_List
begin

text \<open>
  The sessions of the view server, \<open>src/FileSystem/avicodelib/netserver.c\<close>: its clients are the slots of the
  arrays of \<open>NETSOCKET\<close>, a connection is accepted into a free slot, logs in with a name and a password, and is
  cleared when it ends or is kicked. Each function is one step: the mutexes make it so.
\<close>

unbundle bit_operations_syntax

section \<open>State\<close>

definition MAXCLIENT :: nat where "MAXCLIENT = 17"
definition MAX_CONNECT_NUM :: nat where "MAX_CONNECT_NUM = MAXCLIENT + 1"

definition SOCKET_SEND_ERROR :: int where "SOCKET_SEND_ERROR = - 103"
definition SOCKET_ERROR :: int where "SOCKET_ERROR = - 106"
definition SOCKET_READ_ERROR :: int where "SOCKET_READ_ERROR = - 107"

definition SUPER_USER :: u32 where "SUPER_USER = 2"
definition NORMAL_USER :: u32 where "NORMAL_USER = 3"
definition RIGHT_USER_PASS :: u32 where "RIGHT_USER_PASS = 1"
definition BAD_USER_PASS :: u32 where "BAD_USER_PASS = - 2"
definition USER_TOO_MUCH :: u32 where "USER_TOO_MUCH = 10"
definition GET_LOCAL_VIEW :: u32 where "GET_LOCAL_VIEW = 11"
definition H264_CODE :: u32 where "H264_CODE = 0x10001000"
definition MAC_MODEL :: u32 where "MAC_MODEL = 3100"

lemmas server_codes = MAXCLIENT_def MAX_CONNECT_NUM_def SOCKET_SEND_ERROR_def SOCKET_ERROR_def SOCKET_READ_ERROR_def SUPER_USER_def
  NORMAL_USER_def RIGHT_USER_PASS_def BAD_USER_PASS_def USER_TOO_MUCH_def GET_LOCAL_VIEW_def

text \<open>\<open>NETSOCKET\<close>: the arrays have 17 elements; \<open>client_addr\<close> and the descriptor sets hold nothing the code decides by.\<close>

record net_socket =
  listenfd :: int
  maxfd :: int
  clientfd :: "int list"
  client_flag :: "int list"
  client_send_data :: "int list"
  send_flag :: "int list"
  close_socket_flag :: "int list"
  client_num :: int
  cur_client_idx :: nat
  net_play_mode :: u32
  net_trans_mode :: u32
  bit_stream :: u32
  frame_rate :: u32
  rec_list_info :: "byte list"
  play_rec_record_info :: "byte list"
  play_cam :: u32
  user_name :: "byte list list"
  user_password :: "byte list list"
  info_cmd_to_send :: "u32 list"
  super_user_id :: int
  client_use_cam :: "u32 list"
  socket_send_num :: "int list"
  socket_recv_num :: "int list"
  close_all_socket :: int
  have_check_passwd :: "int list"
  is_super_user :: "int list"

text \<open>What the server asks of the rest of the program: the functions behind \<open>g_pstcommand\<close>, the encoder, the shell.\<close>

datatype call =
    Net_dvr_set_enc u32 u32
  | FTC_StopPlay
  | FTC_AudioPlayCam u32
  | FTC_ReclistPlay "byte list"
  | FTC_SetTimeToPlay u32 u32 u32 u32
  | FTC_GetRecordlist u32 u32 u32
  | Change_net_frame_rate u32 u32
  | Instant_keyframe_net u32
  | Command_drv "byte list"
  | Menu_parameter_set "byte list"
  | Menu_net_key u32
  | Menu_gui_msg_set "byte list"
  | Hisi_write_audio_buf "byte list"

text \<open>
  The server with the module's globals, the connections by descriptor (what the peer sent and was not read
  yet, and what was sent to it), the descriptors that are open, the files, and the calls made so far.
\<close>

record server = net_socket +
  g_net_mode :: u32
  g_search_time :: u32
  g_cmd :: net_command
  gui_msg :: "byte list"
  dvr_mac_para :: "byte list"
  net_addr :: "(int \<times> int) list"
  net_listen_audio_chan :: u32
  net_speak_audio_chan :: u32
  g_net_audio_open :: u32
  g_enable_net_local_view_flag :: u32
  g_enable_net_file_view_flag :: u32
  net_local_cam :: u32
  net_key_board :: "u32 \<times> byte \<times> u32"
  g_othreinfolist :: buf_list
  cipher :: aes
  conn_in :: "int \<Rightarrow> stream"
  conn_out :: "int \<Rightarrow> stream"
  open_fds :: "int set"
  files :: "byte list \<Rightarrow> byte list option"
  calls :: "call list"

text \<open>The answers of the rest of the program during one command, and what its uninitialised arrays hold.\<close>

record host =
  ho_play_status :: "int list"
  ho_hex_id :: u32
  ho_net_frame_rate :: int
  ho_time_t :: u32
  ho_record_list :: int
  ho_record_items :: "byte list"
  ho_reclist_play :: int
  ho_time_to_play :: int
  ho_mac_para :: "byte list"
  ho_gui_msg :: "(byte list \<times> u32) option"
  ho_gui_msg_set :: bool
  ho_max_chan :: u32
  ho_use_audio :: int
  ho_malloc :: "nat \<Rightarrow> byte list option"
  ho_fopen :: bool
  ho_fwrite :: nat
  ho_tempbuf :: "byte list"
  ho_audio_buf :: "byte list"

text \<open>The next answer of \<open>GST_FTC_get_play_status\<close>; no file is played when none is left.\<close>

definition play_status :: "int list \<Rightarrow> int \<times> int list" where
  "play_status xs = (case xs of [] \<Rightarrow> (0, []) | x # ys \<Rightarrow> (x, ys))"

definition do_call :: "call \<Rightarrow> server \<Rightarrow> server" where
  "do_call c s = s\<lparr>calls := calls s @ [c]\<rparr>"

section \<open>Sockets\<close>

definition socket_read_data :: "int \<Rightarrow> byte list \<Rightarrow> int \<Rightarrow> server \<Rightarrow> (int \<times> byte list \<times> server) option" where
  "socket_read_data fd buf ulLen s =
     (if fd \<le> 0 then Some (SOCKET_ERROR, buf, s)
      else do {
        (r, buf', w) \<leftarrow> read_loop (nat ulLen) 0 buf (conn_in s fd);
        Some (if r < 0 then SOCKET_READ_ERROR else 1, buf', s\<lparr>conn_in := (conn_in s)(fd := w)\<rparr>)
      })"

definition socket_send_data :: "int \<Rightarrow> byte list \<Rightarrow> server \<Rightarrow> int \<times> server" where
  "socket_send_data fd data s =
     (if fd \<le> 0 then (SOCKET_ERROR, s)
      else let (r, w) = send_loop data (conn_out s fd)
           in (if r < 0 then SOCKET_SEND_ERROR else 1, s\<lparr>conn_out := (conn_out s)(fd := w)\<rparr>))"

text \<open>The wait for a socket that is being closed ends only by its time limit, since closing is one step.\<close>

definition safe_socket_send_data :: "nat \<Rightarrow> byte list \<Rightarrow> server \<Rightarrow> int \<times> server" where
  "safe_socket_send_data idx data s =
     (if close_socket_flag s ! idx = 1 then (- 1, s) else socket_send_data (clientfd s ! idx) data s)"

definition get_max_fd :: "server \<Rightarrow> int" where
  "get_max_fd s =
     (let m = fold (\<lambda>fd m. if fd > 0 then max fd m else m) (clientfd s) 0 in if listenfd s > m then listenfd s else m)"

section \<open>Viewing on and off\<close>

text \<open>The functions of \<open>fic8120ctrl.c\<close> that the server calls for this.\<close>

definition start_stop_net_view :: "u32 \<Rightarrow> server \<Rightarrow> server" where
  "start_stop_net_view flag s =
     (let s1 = s\<lparr>net_local_cam := 1\<rparr>
      in if flag = 1
         then do_call (if g_net_mode s = TD_DRV_VIDEO_SIZE_CIF then Net_dvr_set_enc 2 1 else Net_dvr_set_enc 1 1)
                (s1\<lparr>g_enable_net_local_view_flag := 1\<rparr>)
         else do_call (Net_dvr_set_enc 2 0) (s1\<lparr>g_enable_net_local_view_flag := 0\<rparr>))"

definition start_stop_net_file_view :: "u32 \<Rightarrow> server \<Rightarrow> server" where
  "start_stop_net_file_view flag s = s\<lparr>g_enable_net_file_view_flag := (if flag = 1 then 1 else 0)\<rparr>"

definition open_net_audio :: "u32 \<Rightarrow> server \<Rightarrow> server" where
  "open_net_audio flag s = s\<lparr>g_net_audio_open := flag\<rparr>"

section \<open>Accepting and clearing\<close>

text \<open>The search of both accepting functions: the first slot whose flag is 0, or 17.\<close>

definition free_slot :: "server \<Rightarrow> nat" where
  "free_slot s = length (takeWhile (\<lambda>f. f \<noteq> 0) (take MAXCLIENT (client_flag s)))"

text \<open>
  A descriptor into slot \<open>i\<close>. \<open>MAX_CONNECT_NUM\<close> is one more than the arrays hold; in the structure, the element
  behind \<open>clientfd\<close> is \<open>client_flag[0]\<close>, behind \<open>client_flag\<close> is \<open>client_send_data[0]\<close>, and behind
  \<open>client_addr\<close> are the four words from \<open>net_play_mode\<close> on. \<open>addr\<close> are the words of the peer's address.
\<close>

definition take_slot :: "nat \<Rightarrow> int \<Rightarrow> u32 list \<Rightarrow> server \<Rightarrow> server" where
  "take_slot i fd addr s =
     (let s1 = (if i < MAXCLIENT
                then s\<lparr>clientfd := (clientfd s)[i := fd], client_flag := (client_flag s)[i := 1]\<rparr>
                else s\<lparr>client_flag := (client_flag s)[0 := fd], client_send_data := (client_send_data s)[0 := 1],
                       net_play_mode := addr ! 0, net_trans_mode := addr ! 1, bit_stream := addr ! 2, frame_rate := addr ! 3\<rparr>);
          s2 = (if client_num s1 = 0 then s1\<lparr>net_play_mode := 0\<rparr> else s1);
          n = client_num s2 + 1;
          s3 = s2\<lparr>client_num := if n > int MAXCLIENT then int MAXCLIENT else n\<rparr>
      in s3\<lparr>maxfd := get_max_fd s3\<rparr>)"

text \<open>The connection that is turned away: \<open>USER_TOO_MUCH\<close> and the descriptor closed.\<close>

definition turn_away :: "int \<Rightarrow> server \<Rightarrow> server" where
  "turn_away fd s =
     (let (r, s1) = socket_send_data fd
        (enc_net_command \<lparr>gc_command = USER_TOO_MUCH, gc_length = 0, gc_page = 0, gc_play_fileId = 0, gc_searchDate = 0\<rparr>) s
      in s1\<lparr>open_fds := open_fds s1 - {fd}\<rparr>)"

text \<open>The accepting branch of \<open>net_server_process\<close>, and the function for sockets that come in another way.\<close>

definition accept_client :: "int \<Rightarrow> u32 list \<Rightarrow> server \<Rightarrow> server" where
  "accept_client fd addr s =
     (let i = free_slot s; s1 = s\<lparr>open_fds := insert fd (open_fds s)\<rparr>
      in if i \<ge> MAX_CONNECT_NUM then turn_away fd s1 else take_slot i fd addr s1)"

text \<open>\<open>accept\<close> has failed: its -1 is stored all the same.\<close>

definition accept_fails :: "server \<Rightarrow> server" where
  "accept_fails s =
     (let i = free_slot s
      in if i \<ge> MAX_CONNECT_NUM then s
         else if i < MAXCLIENT then s\<lparr>clientfd := (clientfd s)[i := - 1]\<rparr> else s\<lparr>client_flag := (client_flag s)[0 := - 1]\<rparr>)"

definition net_server_get_client_socket :: "int \<Rightarrow> u32 list \<Rightarrow> server \<Rightarrow> int \<times> server" where
  "net_server_get_client_socket client_socket dest_addr s =
     (let i = free_slot s
      in if i \<ge> MAX_CONNECT_NUM then (- 1, turn_away client_socket s) else (1, take_slot i client_socket dest_addr s))"

definition clear_view :: "nat \<Rightarrow> server \<Rightarrow> server" where
  "clear_view idx s =
     (if net_play_mode s = GET_LOCAL_VIEW
      then if super_user_id s = - 1
           then if client_num s \<le> 1 then (start_stop_net_view 0 s)\<lparr>net_play_mode := 0\<rparr> else s
           else if super_user_id s = int idx then (start_stop_net_view 0 s)\<lparr>net_play_mode := 0\<rparr> else s
      else s)"

definition clear_play :: "host \<Rightarrow> nat \<Rightarrow> server \<Rightarrow> server" where
  "clear_play h idx s =
     (if int idx = super_user_id s \<or> client_num s = 1
      then let s1 = (if fst (play_status (ho_play_status h)) = 1 then do_call FTC_StopPlay s else s);
               s2 = (start_stop_net_file_view 0 s1)\<lparr>net_play_mode := 0\<rparr>;
               s3 = do_call (FTC_AudioPlayCam 0) (open_net_audio 0 s2)
           in s3\<lparr>g_othreinfolist := snd (clear_buf (g_othreinfolist s3))\<rparr>
      else s)"

definition clear_slot :: "nat \<Rightarrow> server \<Rightarrow> server" where
  "clear_slot idx s = s\<lparr>clientfd := (clientfd s)[idx := - 1], client_flag := (client_flag s)[idx := 0],
     client_send_data := (client_send_data s)[idx := 0], info_cmd_to_send := (info_cmd_to_send s)[idx := 0],
     send_flag := (send_flag s)[idx := 0], close_socket_flag := (close_socket_flag s)[idx := 0]\<rparr>"

definition clear_client :: "host \<Rightarrow> nat \<Rightarrow> server \<Rightarrow> server" where
  "clear_client h idx s =
     (if clientfd s ! idx = - 1 then s
      else let s1 = clear_play h idx (clear_view idx s);
               fd = clientfd s1 ! idx;
               s2 = (if fd > 0
                     then s1\<lparr>open_fds := open_fds s1 - {fd}, client_num := client_num s1 - 1,
                             super_user_id := (if super_user_id s1 = int idx then - 1 else super_user_id s1)\<rparr>
                     else s1);
               s3 = (clear_slot idx s2)\<lparr>have_check_passwd := (have_check_passwd s2)[idx := 0],
                      is_super_user := (is_super_user s2)[idx := 0]\<rparr>;
               s4 = s3\<lparr>maxfd := get_max_fd s3\<rparr>
           in if client_num s4 \<le> 0
              then s4\<lparr>client_num := 0, super_user_id := - 1, g_net_mode := TD_DRV_VIDEO_SIZE_CIF\<rparr> else s4)"

section \<open>Audio sockets and kicking\<close>

definition audio_socket_inarray :: "int \<Rightarrow> server \<Rightarrow> int \<times> server" where
  "audio_socket_inarray fdsock s =
     (let i = length (takeWhile (\<lambda>(f, flag). flag \<noteq> 0) (net_addr s))
      in if i < length (net_addr s) then (1, s\<lparr>net_addr := (net_addr s)[i := (fdsock, 1)]\<rparr>)
         else (- 1, if fdsock > 0 then s\<lparr>open_fds := open_fds s - {fdsock}\<rparr> else s))"

text \<open>The slot is given up but for the login, which it keeps.\<close>

definition set_audio_socket_mode :: "nat \<Rightarrow> server \<Rightarrow> server" where
  "set_audio_socket_mode idx s =
     (let fdsock = clientfd s ! idx;
          s1 = (if fdsock > 0
                then s\<lparr>client_num := client_num s - 1, super_user_id := (if super_user_id s = int idx then - 1 else super_user_id s)\<rparr>
                else s);
          s2 = clear_slot idx s1;
          s3 = s2\<lparr>maxfd := get_max_fd s2\<rparr>
      in snd (audio_socket_inarray fdsock s3))"

definition kick_normal_client :: "host \<Rightarrow> server \<Rightarrow> server" where
  "kick_normal_client h s =
     fold (\<lambda>i s. if int i \<noteq> super_user_id s \<and> clientfd s ! i \<ge> 0 then clear_client h i s else s) [0..<MAXCLIENT]
       ((start_stop_net_file_view 0 s)\<lparr>net_play_mode := 0\<rparr>)"

definition kick_all_client :: "host \<Rightarrow> server \<Rightarrow> server" where
  "kick_all_client h s =
     (if super_user_id s \<noteq> - 1 then clear_client h (nat (super_user_id s)) s
      else fold (\<lambda>i s. if clientfd s ! i > 0 then clear_client h i s else s) [0..<MAXCLIENT]
             ((start_stop_net_view 0 (start_stop_net_file_view 0 s))\<lparr>net_play_mode := 0\<rparr>))"

definition is_have_client :: "server \<Rightarrow> int" where
  "is_have_client s = (if client_num s > 0 then 1 else - 1)"

section \<open>Login\<close>

text \<open>The C string at the start of a block.\<close>

definition b_str :: "byte list \<Rightarrow> byte list option" where
  "b_str b = (if 0 \<in> set b then Some (takeWhile (\<lambda>c. c \<noteq> 0) b) else None)"

text \<open>\<open>strcpy\<close> into an array of \<open>n\<close> bytes, as the string that it then holds.\<close>

definition strcpy_into :: "nat \<Rightarrow> byte list \<Rightarrow> byte list option" where
  "strcpy_into n b = do { t \<leftarrow> b_str b; if length t < n then Some t else None }"

text \<open>\<open>"szyat!@"\<close>, and the enciphered password, cut to what fits the ten bytes of the message.\<close>

definition sAESKey :: "byte list" where "sAESKey = [115, 122, 121, 97, 116, 33, 64]"

definition enciphered :: "byte list \<Rightarrow> aes \<Rightarrow> (byte list \<times> aes) option" where
  "enciphered password a = do {
     (r, out, a') \<leftarrow> AES_Encrypt 128 (password @ replicate (64 - length password) 0) (int (length password))
        (Some (sAESKey @ replicate 25 0)) 7 (Some (replicate 32 0)) a;
     aes_pass \<leftarrow> out;
     t \<leftarrow> b_str (aes_pass[9 := 0]);
     Some (t, a')
   }"

text \<open>The loop over the four users: the number of the first one that name and password fit, or 4.\<close>

fun find_user :: "byte list \<Rightarrow> byte list \<Rightarrow> (byte list \<times> byte list) list \<Rightarrow> nat \<Rightarrow> aes \<Rightarrow> (nat \<times> aes) option" where
  "find_user user pass [] i a = Some (i, a)"
| "find_user user pass ((n, p) # us) i a = do {
     name \<leftarrow> b_str n;
     if name = [] then find_user user pass us (i + 1) a
     else do {
       password \<leftarrow> strcpy_into 64 p;
       (aes_pass, a') \<leftarrow> enciphered password a;
       if user = name \<and> (pass = password \<or> pass = aes_pass) then Some (i, a') else find_user user pass us (i + 1) a'
     }
   }"

definition users :: "server \<Rightarrow> (byte list \<times> byte list) list" where
  "users s = zip (user_name s) (user_password s)"

text \<open>What the user found means for slot \<open>idx\<close>; only the first four slots are searched for another super user.\<close>

definition admit :: "nat \<Rightarrow> nat \<Rightarrow> net_command \<Rightarrow> server \<Rightarrow> net_command \<times> server" where
  "admit i idx cmd s =
     (if i = 0 then
        if \<exists>j \<in> {..<4}. clientfd s ! j > 0 \<and> is_super_user s ! j = 1
        then (cmd\<lparr>gc_length := BAD_USER_PASS, gc_page := SUPER_USER\<rparr>, s)
        else (cmd\<lparr>gc_length := RIGHT_USER_PASS, gc_page := SUPER_USER\<rparr>,
              s\<lparr>have_check_passwd := (have_check_passwd s)[idx := 1], is_super_user := (is_super_user s)[idx := 1]\<rparr>)
      else if i < 4 then
        let (c1, v1) = (if super_user_id s \<noteq> - 1 then (cmd\<lparr>gc_length := BAD_USER_PASS, gc_page := SUPER_USER\<rparr>, 0)
                        else (cmd\<lparr>gc_length := RIGHT_USER_PASS, gc_page := NORMAL_USER\<rparr>, 1));
            (c2, v2) = (if client_num s \<ge> int MAX_CONNECT_NUM - 1 then (c1\<lparr>gc_command := USER_TOO_MUCH\<rparr>, 0) else (c1, v1))
        in (c2, s\<lparr>have_check_passwd := (have_check_passwd s)[idx := v2]\<rparr>)
      else (cmd\<lparr>gc_length := BAD_USER_PASS, gc_page := NORMAL_USER\<rparr>, s\<lparr>have_check_passwd := (have_check_passwd s)[idx := 0]\<rparr>))"

text \<open>The answer to user \<open>i\<close>.\<close>

definition answer_login :: "host \<Rightarrow> net_command \<Rightarrow> nat \<Rightarrow> nat \<Rightarrow> server \<Rightarrow> int \<times> server" where
  "answer_login h cmd idx i s =
     (let (c, s1) = admit i idx cmd s;
          reply = c\<lparr>gc_play_fileId := H264_CODE, gc_searchDate := ho_max_chan h + MAC_MODEL\<rparr>;
          (ret, s2) = safe_socket_send_data idx (enc_net_command reply) (s1\<lparr>cur_client_idx := idx\<rparr>)
      in if ret \<le> 0 then (SOCKET_SEND_ERROR, clear_client h idx s2) else (1, s2))"

definition op_user_info :: "host \<Rightarrow> net_command \<Rightarrow> nat \<Rightarrow> server \<Rightarrow> (int \<times> server) option" where
  "op_user_info h cmd idx s = do {
     (r, tempbuf, s1) \<leftarrow> socket_read_data (clientfd s ! idx) (ho_tempbuf h) (sint (gc_length cmd)) s;
     if r < 0 then Some (- 1, s1)
     else do {
       user \<leftarrow> strcpy_into 10 tempbuf;
       pass \<leftarrow> strcpy_into 10 (drop 10 tempbuf);
       (i, a) \<leftarrow> find_user user pass (users s1) 0 (cipher s1);
       Some (answer_login h cmd idx i (s1\<lparr>cipher := a\<rparr>))
     }
   }"

text \<open>The table of users, from strings; each field has ten bytes.\<close>

definition get_admin_info :: "(byte list \<times> byte list) list \<Rightarrow> server \<Rightarrow> server option" where
  "get_admin_info us s =
     (if \<forall>(n, p) \<in> set us. length n < 10 \<and> length p < 10
      then Some (s\<lparr>user_name := map (\<lambda>(n, p). n @ replicate (10 - length n) 0) us,
                   user_password := map (\<lambda>(n, p). p @ replicate (10 - length p) 0) us\<rparr>)
      else None)"

section \<open>A server to try things on\<close>

text \<open>No connection yet; \<open>b\<close> is what the peers will send.\<close>

definition demo_server :: "(int \<Rightarrow> byte list) \<Rightarrow> server" where
  "demo_server b = \<lparr>listenfd = 0, maxfd = 0, clientfd = replicate MAXCLIENT 0, client_flag = replicate MAXCLIENT 0,
     client_send_data = replicate MAXCLIENT 0, send_flag = replicate MAXCLIENT 0, close_socket_flag = replicate MAXCLIENT 0,
     client_num = 0, cur_client_idx = 0, net_play_mode = 0, net_trans_mode = 0, bit_stream = 0, frame_rate = 0, rec_list_info = [],
     play_rec_record_info = replicate 92 0, play_cam = 0, user_name = [97 # replicate 9 0, replicate 10 0, replicate 10 0, replicate 10 0],
     user_password = [98 # replicate 9 0, replicate 10 0, replicate 10 0, replicate 10 0], info_cmd_to_send = replicate MAXCLIENT 0,
     super_user_id = - 1, client_use_cam = replicate MAXCLIENT 0, socket_send_num = replicate MAXCLIENT 0,
     socket_recv_num = replicate MAXCLIENT 0, close_all_socket = 0, have_check_passwd = replicate MAXCLIENT 0,
     is_super_user = replicate MAXCLIENT 0, g_net_mode = 0, g_search_time = 0,
     g_cmd = \<lparr>gc_command = 0, gc_length = 0, gc_page = 0, gc_play_fileId = 0, gc_searchDate = 0\<rparr>, gui_msg = [], dvr_mac_para = replicate 772 0,
     net_addr = replicate MAXCLIENT (0, 0), net_listen_audio_chan = 0, net_speak_audio_chan = 0, g_net_audio_open = 0,
     g_enable_net_local_view_flag = 0, g_enable_net_file_view_flag = 0, net_local_cam = 0, net_key_board = (0, 0, 0),
     g_othreinfolist = empty_list, cipher = aes_start, conn_in = (\<lambda>fd. \<lparr>st_bytes = b fd, st_sends = [], st_recvs = []\<rparr>),
     conn_out = (\<lambda>fd. \<lparr>st_bytes = [], st_sends = [], st_recvs = []\<rparr>), open_fds = {}, files = (\<lambda>_. None), calls = []\<rparr>"

definition demo_host :: host where
  "demo_host = \<lparr>ho_play_status = [], ho_hex_id = 0, ho_net_frame_rate = 1, ho_time_t = 0, ho_record_list = 0, ho_record_items = [],
     ho_reclist_play = 1, ho_time_to_play = 1, ho_mac_para = replicate 772 0, ho_gui_msg = None, ho_gui_msg_set = False, ho_max_chan = 1,
     ho_use_audio = 0, ho_malloc = (\<lambda>n. Some (replicate n 0)), ho_fopen = True, ho_fwrite = 0, ho_tempbuf = replicate 30 0,
     ho_audio_buf = replicate 2048 0\<rparr>"

end
