(* ===== verification/Net_Command.thy ===== *)
theory Net_Command
  imports Net_Session
begin

text \<open>
  The commands of the view server, \<open>process_command\<close> of \<open>src/FileSystem/avicodelib/netserver.c\<close> and the functions
  it dispatches to. A command is read from the socket of its slot; a negative result makes the server
  loop clear the slot.
\<close>

unbundle bit_operations_syntax

section \<open>Codes\<close>

text \<open>The commands that the server handles, by their numbers in the enumeration of \<open>netserver.h\<close>.\<close>

datatype server_command =
    COMMAND_GET_FILELIST | COMMAND_OPEN_NET_PLAY_FILE | COMMAND_STOP_NET_PLAY_FILE | Get_local_view | STOP_LOCAL_VIEW
  | STOP_NET_CONNECT | SET_NET_PARAMETER | NET_KEYBOARD | Other_info | SEND_USER_NAME_PASS | CREATE_NET_KEY_FRAME
  | GET_SYSTEM_FILE_FROM_PC | EXECUTE_SHELL_FILE | TIME_FILE_PLAY | COMMAND_SEND_MAC_PARA | COMMAND_SET_MAC_PARA
  | COMMAND_SET_MAC_KEY | COMMAND_SEND_AUDIO_DATA | COMMAND_SEND_GUI_MSG | COMMAND_SET_GUI_MSG | COMMAND_SET_AUDIO_SOCKET
  | COMMAND_AUDIO_SET | NET_CAM_NET_MODE | NET_CAM_IS_SUPPORT_YUN_SERVER | Not_handled

definition server_command :: "u32 \<Rightarrow> server_command" where
  "server_command w = (case map_of
     [(0, COMMAND_GET_FILELIST), (1, COMMAND_OPEN_NET_PLAY_FILE), (4, COMMAND_STOP_NET_PLAY_FILE), (11, Get_local_view), (12, STOP_LOCAL_VIEW),
      (14, STOP_NET_CONNECT), (15, SET_NET_PARAMETER), (16, NET_KEYBOARD), (17, Other_info), (18, SEND_USER_NAME_PASS),
      (19, CREATE_NET_KEY_FRAME), (20, GET_SYSTEM_FILE_FROM_PC), (21, EXECUTE_SHELL_FILE), (22, TIME_FILE_PLAY),
      (23, COMMAND_SEND_MAC_PARA), (24, COMMAND_SET_MAC_PARA), (25, COMMAND_SET_MAC_KEY), (26, COMMAND_SEND_AUDIO_DATA),
      (27, COMMAND_SEND_GUI_MSG), (28, COMMAND_SET_GUI_MSG), (38, COMMAND_SET_AUDIO_SOCKET), (39, COMMAND_AUDIO_SET),
      (44, NET_CAM_NET_MODE), (50, NET_CAM_IS_SUPPORT_YUN_SERVER)] w of None \<Rightarrow> Not_handled | Some c \<Rightarrow> c)"

definition OTHER_INFO :: u32 where "OTHER_INFO = 17"
definition NET_FILE_PLAYING :: u32 where "NET_FILE_PLAYING = 7"
definition NET_FILE_OPEN_ERROR :: u32 where "NET_FILE_OPEN_ERROR = 8"
definition NET_FILE_OPEN_SUCCESS :: u32 where "NET_FILE_OPEN_SUCCESS = 9"

text \<open>The kinds of \<open>OTHER_INFO\<close> from \<open>MACHINE_INFO\<close> to \<open>SEND_MAX_VIDEO_SIZE\<close>.\<close>

definition DISK_FILE_LIST :: u32 where "DISK_FILE_LIST = 4"
definition PLAY_FILE_RESULT :: u32 where "PLAY_FILE_RESULT = 5"
definition SEND_MAC_PARA :: u32 where "SEND_MAC_PARA = 6"
definition SEND_GUI_MSG :: u32 where "SEND_GUI_MSG = 9"

definition RECORDPLAY :: u32 where "RECORDPLAY = 0"
definition GUI_MSG_MAX_NUM :: nat where "GUI_MSG_MAX_NUM = 102400"

text \<open>\<open>SEACHER_LIST_MAX_NUM * sizeof(GST_FILESHOWINFO)\<close> and \<open>sizeof(NET_MAC_SET_PARA)\<close>.\<close>

definition REC_LIST_SIZE :: u32 where "REC_LIST_SIZE = 300 * 92"
definition MAC_PARA_SIZE :: u32 where "MAC_PARA_SIZE = 772"

section \<open>Requests for information\<close>

text \<open>The sender thread answers what is noted here.\<close>

definition op_other_info :: "net_command \<Rightarrow> nat \<Rightarrow> server \<Rightarrow> server" where
  "op_other_info cmd idx s =
     (if gc_length cmd \<in> {1, 2, 3, 4, 5, 6, 9, 10}
      then s\<lparr>info_cmd_to_send := (info_cmd_to_send s)[idx := gc_length cmd]\<rparr> else s)"

definition get_filelist :: "host \<Rightarrow> net_command \<Rightarrow> nat \<Rightarrow> server \<Rightarrow> int \<times> server" where
  "get_filelist h cmd idx s =
     (if have_check_passwd s ! idx = 0 then (SOCKET_SEND_ERROR, s)
      else let date = ho_time_t h;
               s1 = do_call (FTC_GetRecordlist date (date + 3600 * 24) (gc_page cmd))
                      (s\<lparr>g_search_time := date, rec_list_info := ho_record_items h\<rparr>);
               n = ho_record_list h;
               c = cmd\<lparr>gc_searchDate := date, gc_page := (if n < 0 then 0 else word_of_int n), gc_play_fileId := REC_LIST_SIZE,
                      gc_length := DISK_FILE_LIST, gc_command := OTHER_INFO\<rparr>
           in (1, op_other_info c idx (s1\<lparr>g_cmd := c\<rparr>)))"

definition send_mac_para :: "host \<Rightarrow> net_command \<Rightarrow> nat \<Rightarrow> server \<Rightarrow> int \<times> server" where
  "send_mac_para h cmd idx s =
     (let c = cmd\<lparr>gc_play_fileId := MAC_PARA_SIZE, gc_length := SEND_MAC_PARA, gc_command := OTHER_INFO\<rparr>
      in (1, op_other_info c idx (s\<lparr>dvr_mac_para := ho_mac_para h, g_cmd := c\<rparr>)))"

definition send_gui_message :: "host \<Rightarrow> net_command \<Rightarrow> nat \<Rightarrow> server \<Rightarrow> (int \<times> server) option" where
  "send_gui_message h cmd idx s =
     (case ho_gui_msg h of
        None \<Rightarrow> Some (1, s)
      | Some (msg, len) \<Rightarrow> do {
          gui \<leftarrow> mem_write (gui_msg s) 0 msg;
          let s1 = s\<lparr>gui_msg := gui\<rparr>;
          let c = cmd\<lparr>gc_play_fileId := len, gc_length := SEND_GUI_MSG, gc_command := OTHER_INFO\<rparr>;
          Some (if 0 < sint len \<and> sint len \<le> int GUI_MSG_MAX_NUM then (1, op_other_info c idx (s1\<lparr>g_cmd := c\<rparr>))
                else (SOCKET_SEND_ERROR, s1))
        })"

section \<open>Viewing\<close>

definition local_view :: "net_command \<Rightarrow> nat \<Rightarrow> server \<Rightarrow> int \<times> server" where
  "local_view cmd idx s =
     (if have_check_passwd s ! idx = 0 then (SOCKET_SEND_ERROR, s)
      else let s1 = s\<lparr>net_play_mode := GET_LOCAL_VIEW, client_send_data := (client_send_data s)[idx := 1],
                     client_use_cam := (client_use_cam s)[idx := gc_play_fileId cmd]\<rparr>
           in (1, if super_user_id s = int idx
                  then open_net_audio (gc_page cmd) (start_stop_net_view 1 (s1\<lparr>play_cam := gc_play_fileId cmd\<rparr>))
                  else start_stop_net_view 1 (s1\<lparr>play_cam := - 1\<rparr>)))"

definition stop_local_view :: "nat \<Rightarrow> server \<Rightarrow> server" where
  "stop_local_view idx s =
     (let s1 = s\<lparr>net_play_mode := 0, client_send_data := (client_send_data s)[idx := 0]\<rparr>
      in if client_num s \<le> 1 then open_net_audio 0 (start_stop_net_view 0 s1) else s1)"

text \<open>The transfer mode the client asks for is replaced by \<open>INTERNATE_MODE\<close>.\<close>

definition set_net_parameter_cmd :: "host \<Rightarrow> net_command \<Rightarrow> server \<Rightarrow> int \<times> server" where
  "set_net_parameter_cmd h cmd s =
     (let s1 = do_call (Change_net_frame_rate (gc_length cmd) (gc_page cmd))
                 (s\<lparr>bit_stream := gc_length cmd, frame_rate := gc_page cmd, net_trans_mode := 0\<rparr>)
      in (if ho_net_frame_rate h < 0 then SOCKET_SEND_ERROR else 1, s1))"

section \<open>Playing files\<close>

definition open_net_play_file :: "host \<Rightarrow> net_command \<Rightarrow> nat \<Rightarrow> server \<Rightarrow> (int \<times> server) option" where
  "open_net_play_file h cmd idx s = do {
     (r, info, s1) \<leftarrow> socket_read_data (clientfd s ! idx) (play_rec_record_info s) (sint (gc_length cmd)) s;
     let s2 = s1\<lparr>play_rec_record_info := info\<rparr>;
     if r < 0 then Some (SOCKET_READ_ERROR, s2)
     else
       let (c, s3) =
         (if fst (play_status (ho_play_status h)) = 1 then (cmd\<lparr>gc_command := NET_FILE_OPEN_ERROR, gc_length := 0x11\<rparr>, s2)
          else let p = do_call (FTC_ReclistPlay info) s2
               in if ho_reclist_play h < 0 then (cmd\<lparr>gc_command := NET_FILE_OPEN_ERROR, gc_length := 0\<rparr>, p)
                  else (cmd\<lparr>gc_command := NET_FILE_OPEN_SUCCESS\<rparr>,
                        if gc_searchDate cmd = 0xff then do_call (FTC_AudioPlayCam 1) p else p));
         (ret, s4) = safe_socket_send_data idx (enc_net_command c) s3
       in Some (if ret \<le> 0 then (SOCKET_SEND_ERROR, s4)
                else (1, if gc_command c = NET_FILE_OPEN_SUCCESS
                         then start_stop_net_file_view 1
                                (s4\<lparr>net_play_mode := NET_FILE_PLAYING, client_send_data := (client_send_data s4)[idx := 1]\<rparr>)
                         else s4))
   }"

text \<open>The wait of at most thirty rounds for a file to be played; the answers that are left.\<close>

primrec wait_playing :: "nat \<Rightarrow> int list \<Rightarrow> int list" where
  "wait_playing 0 xs = xs"
| "wait_playing (Suc n) xs = (let (x, ys) = play_status xs in if x = 0 then wait_playing n ys else ys)"

definition stop_net_play_file :: "host \<Rightarrow> nat \<Rightarrow> server \<Rightarrow> server" where
  "stop_net_play_file h idx s =
     (let s1 = (if fst (play_status (wait_playing 30 (ho_play_status h))) = 1
                then do_call FTC_StopPlay (do_call (FTC_AudioPlayCam 0) s) else s)
      in start_stop_net_file_view 0 (s1\<lparr>net_play_mode := 0, client_send_data := (client_send_data s1)[idx := 0]\<rparr>))"

text \<open>The first of sixteen cameras, and the sound of it.\<close>

primrec play_sound :: "u32 \<Rightarrow> nat \<Rightarrow> nat \<Rightarrow> server \<Rightarrow> server option" where
  "play_sound cam num 0 s = Some s"
| "play_sound cam num (Suc n) s = do {
     b \<leftarrow> get_bit cam num;
     if b = 1 then do { c \<leftarrow> set_bit 0 num; Some (do_call (FTC_AudioPlayCam c) s) }
     else play_sound cam (num + 1) n s
   }"

text \<open>\<open>len0\<close> is the uninitialised \<open>cmd.length\<close>, which is sent on when the file is opened.\<close>

definition net_play_file :: "host \<Rightarrow> u32 \<Rightarrow> net_command \<Rightarrow> nat \<Rightarrow> server \<Rightarrow> (int \<times> server) option" where
  "net_play_file h len0 cmd idx s = do {
     let startTime = g_search_time s + gc_searchDate cmd;
     let endTime = (if gc_length cmd = 0 then 0 else g_search_time s + gc_length cmd);
     let play_mode = (if int_mod (gc_page cmd) 10 = 1 then RECORDPLAY + 10 else RECORDPLAY);
     (command, len, s1) \<leftarrow>
       (if fst (play_status (ho_play_status h)) = 1 \<and> g_enable_net_file_view_flag s = 0
        then Some (NET_FILE_OPEN_ERROR, 0x11, s)
        else
          let s0 = do_call (FTC_SetTimeToPlay startTime endTime (gc_play_fileId cmd) play_mode) (start_stop_net_file_view 1 s)
          in if ho_time_to_play h < 0 then Some (NET_FILE_OPEN_ERROR, 0, start_stop_net_file_view 0 s0)
             else do {
               s1 \<leftarrow> (if int_div (gc_page cmd) 10 = 1 then play_sound (gc_play_fileId cmd) 0 16 s0
                     else Some (do_call (FTC_AudioPlayCam 0) s0));
               Some (NET_FILE_OPEN_SUCCESS, len0, s1)
             });
     let c = (g_cmd s1)\<lparr>gc_command := OTHER_INFO, gc_length := PLAY_FILE_RESULT, gc_page := command, gc_play_fileId := len\<rparr>;
     Some (1, op_other_info c idx (s1\<lparr>g_cmd := c\<rparr>))
   }"

section \<open>Files, commands, settings and sound\<close>

text \<open>A file from the peer: its name, a second command with its length, its bytes. Nothing is asked of the user.\<close>

definition get_update_soft :: "host \<Rightarrow> net_command \<Rightarrow> nat \<Rightarrow> server \<Rightarrow> (int \<times> server) option" where
  "get_update_soft h cmd idx s = do {
     (r1, file_name, s1) \<leftarrow> socket_read_data (clientfd s ! idx) (replicate 256 0) (sint (gc_length cmd)) s;
     if r1 < 0 then Some (- 1, s1)
     else do {
       (r2, cb, s2) \<leftarrow> socket_read_data (clientfd s1 ! idx) (enc_net_command cmd) 20 s1;
       let len = sint (gc_length (dec_net_command cb));
       if r2 < 0 then Some (- 1, s2)
       else if len > 5 * 1024 * 1024 \<or> len \<le> 0 then Some (- 1, s2)
       else case ho_malloc h (nat len) of
         None \<Rightarrow> Some (- 1, s2)
       | Some file_buf \<Rightarrow> do {
           (r3, content, s3) \<leftarrow> socket_read_data (clientfd s2 ! idx) file_buf len s2;
           if r3 < 0 then Some (- 1, s3)
           else do {
             name \<leftarrow> b_str file_name;
             if \<not> ho_fopen h then Some (- 1, s3)
             else
               let n = min (ho_fwrite h) (nat len);
                   s4 = s3\<lparr>files := (files s3)(name \<mapsto> take n content)\<rparr>
               in Some (if n \<noteq> nat len then - 1 else 1, s4)
           }
         }
     }
   }"

definition execute_shell_file :: "net_command \<Rightarrow> nat \<Rightarrow> server \<Rightarrow> (int \<times> server) option" where
  "execute_shell_file cmd idx s = do {
     (r, file_name, s1) \<leftarrow> socket_read_data (clientfd s ! idx) (replicate 256 0) (sint (gc_length cmd)) s;
     if r < 0 then Some (- 1, s1)
     else do { name \<leftarrow> b_str file_name; Some (1, do_call (Command_drv name) s1) }
   }"

definition net_set_dvr_mac_para :: "net_command \<Rightarrow> nat \<Rightarrow> server \<Rightarrow> (int \<times> server) option" where
  "net_set_dvr_mac_para cmd idx s = do {
     (r, para, s1) \<leftarrow> socket_read_data (clientfd s ! idx) (dvr_mac_para s) (sint (gc_length cmd)) s;
     let s2 = s1\<lparr>dvr_mac_para := para\<rparr>;
     Some (if r < 0 then (- 1, s2) else (1, do_call (Menu_parameter_set para) s2))
   }"

text \<open>\<open>PRESS_REC_KEY\<close> and \<open>PRESS_ESC_KEY\<close>.\<close>

definition net_press_dvr_key :: "net_command \<Rightarrow> server \<Rightarrow> server" where
  "net_press_dvr_key cmd s =
     (if gc_length cmd = 7 then do_call (Menu_net_key 2) s else if gc_length cmd = 8 then do_call (Menu_net_key 1) s else s)"

definition net_set_gui_msg :: "host \<Rightarrow> net_command \<Rightarrow> nat \<Rightarrow> server \<Rightarrow> (int \<times> server) option" where
  "net_set_gui_msg h cmd idx s = do {
     (r, gui, s1) \<leftarrow> socket_read_data (clientfd s ! idx) (gui_msg s) (sint (gc_length cmd)) s;
     let s2 = s1\<lparr>gui_msg := gui\<rparr>;
     Some (if r < 0 then (- 1, s2) else (1, if ho_gui_msg_set h then do_call (Menu_gui_msg_set gui) s2 else s2))
   }"

text \<open>Sound in pieces of 168 bytes, \<open>n\<close> of them from place \<open>i\<close>; the last one is read in full too.\<close>

primrec play_pieces :: "byte list \<Rightarrow> nat \<Rightarrow> nat \<Rightarrow> server \<Rightarrow> server option" where
  "play_pieces buf i 0 s = Some s"
| "play_pieces buf i (Suc n) s = do { p \<leftarrow> mem_read buf i 168; play_pieces buf (i + 168) n (do_call (Hisi_write_audio_buf p) s) }"

definition net_send_audio_data :: "host \<Rightarrow> net_command \<Rightarrow> nat \<Rightarrow> server \<Rightarrow> (int \<times> server) option" where
  "net_send_audio_data h cmd idx s =
     (if sint (gc_length cmd) \<ge> 2048 then Some (- 1, s)
      else do {
        (r, audio_buf, s1) \<leftarrow> socket_read_data (clientfd s ! idx) (ho_audio_buf h) (sint (gc_length cmd)) s;
        if r < 0 then Some (- 1, s1)
        else if ho_use_audio h \<noteq> 0 then Some (1, s1)
        else if sint (gc_length cmd) > 168
        then do { s2 \<leftarrow> play_pieces audio_buf 0 ((nat (sint (gc_length cmd)) + 167) div 168) s1; Some (1, s2) }
        else Some (1, do_call (Hisi_write_audio_buf (take (nat (sint (gc_length cmd))) audio_buf)) s1)
      })"

definition net_audio_set_fuc :: "net_command \<Rightarrow> server \<Rightarrow> server" where
  "net_audio_set_fuc cmd s =
     (if gc_page cmd = 1 then (open_net_audio 1 s)\<lparr>net_listen_audio_chan := gc_length cmd\<rparr>
      else if gc_page cmd = 0 then s\<lparr>net_speak_audio_chan := gc_length cmd\<rparr> else s)"

definition op_keyboard_led_info :: "net_command \<Rightarrow> server \<Rightarrow> server" where
  "op_keyboard_led_info cmd s = s\<lparr>net_key_board := (gc_length cmd, ucast (gc_page cmd), gc_play_fileId cmd)\<rparr>"

section \<open>The dispatcher\<close>

text \<open>The results that count as failures are those the cases of the source test for.\<close>

definition if_failed :: "(int \<Rightarrow> bool) \<Rightarrow> (int \<times> server) option \<Rightarrow> (int \<times> server) option" where
  "if_failed bad r = map_option (\<lambda>(ret, s). (if bad ret then SOCKET_SEND_ERROR else 1, s)) r"

definition run_command :: "host \<Rightarrow> u32 \<Rightarrow> net_command \<Rightarrow> nat \<Rightarrow> server \<Rightarrow> (int \<times> server) option" where
  "run_command h len0 cmd idx s = (case server_command (gc_command cmd) of
     NET_CAM_IS_SUPPORT_YUN_SERVER \<Rightarrow>
       if_failed (\<lambda>r. r \<le> 0) (Some (safe_socket_send_data idx (enc_net_command (cmd\<lparr>gc_page := 1, gc_play_fileId := ho_hex_id h\<rparr>)) s))
   | Get_local_view \<Rightarrow> Some (local_view cmd idx s)
   | STOP_LOCAL_VIEW \<Rightarrow> Some (1, stop_local_view idx s)
   | STOP_NET_CONNECT \<Rightarrow> Some (1, open_net_audio 0 (clear_client h idx s))
   | SET_NET_PARAMETER \<Rightarrow> Some (set_net_parameter_cmd h cmd s)
   | COMMAND_GET_FILELIST \<Rightarrow> Some (get_filelist h cmd idx s)
   | COMMAND_OPEN_NET_PLAY_FILE \<Rightarrow> open_net_play_file h cmd idx s
   | COMMAND_STOP_NET_PLAY_FILE \<Rightarrow> Some (1, stop_net_play_file h idx s)
   | NET_KEYBOARD \<Rightarrow> Some (1, op_keyboard_led_info cmd s)
   | Other_info \<Rightarrow> Some (1, op_other_info cmd idx s)
   | SEND_USER_NAME_PASS \<Rightarrow> if_failed (\<lambda>r. r \<le> 0) (op_user_info h cmd idx s)
   | CREATE_NET_KEY_FRAME \<Rightarrow> Some (1, do_call (Instant_keyframe_net 0xffff) s)
   | GET_SYSTEM_FILE_FROM_PC \<Rightarrow> if_failed (\<lambda>r. r \<le> 0) (get_update_soft h cmd idx s)
   | EXECUTE_SHELL_FILE \<Rightarrow> if_failed (\<lambda>r. r < 0) (execute_shell_file cmd idx s)
   | TIME_FILE_PLAY \<Rightarrow> if_failed (\<lambda>r. r < 0) (net_play_file h len0 cmd idx s)
   | COMMAND_SEND_MAC_PARA \<Rightarrow> Some (send_mac_para h cmd idx s)
   | COMMAND_SET_MAC_PARA \<Rightarrow> if_failed (\<lambda>r. r < 0) (net_set_dvr_mac_para cmd idx s)
   | COMMAND_SET_MAC_KEY \<Rightarrow> Some (1, net_press_dvr_key cmd s)
   | COMMAND_SEND_AUDIO_DATA \<Rightarrow> if_failed (\<lambda>r. False) (net_send_audio_data h cmd idx s)
   | COMMAND_SEND_GUI_MSG \<Rightarrow> send_gui_message h cmd idx s
   | COMMAND_SET_GUI_MSG \<Rightarrow> if_failed (\<lambda>r. False) (net_set_gui_msg h cmd idx s)
   | COMMAND_SET_AUDIO_SOCKET \<Rightarrow> Some (1, set_audio_socket_mode idx s)
   | COMMAND_AUDIO_SET \<Rightarrow> Some (1, net_audio_set_fuc cmd s)
   | NET_CAM_NET_MODE \<Rightarrow> Some (1, s\<lparr>g_net_mode := (if gc_length cmd = 0 then 0 else TD_DRV_VIDEO_SIZE_CIF)\<rparr>)
   | Not_handled \<Rightarrow> Some (1, s))"

definition process_command :: "host \<Rightarrow> u32 \<Rightarrow> nat \<Rightarrow> server \<Rightarrow> (int \<times> server) option" where
  "process_command h len0 idx s =
     (if clientfd s ! idx = - 1 then Some (SOCKET_READ_ERROR, s)
      else do {
        (r, cb, s1) \<leftarrow> socket_read_data (clientfd s ! idx) (replicate 20 0) 20 s;
        if r < 0 then Some (SOCKET_READ_ERROR, s1)
        else run_command h len0 (dec_net_command cb) idx (s1\<lparr>socket_recv_num := (socket_recv_num s1)[idx := socket_recv_num s1 ! idx + 1]\<rparr>)
      })"

section \<open>The server loop\<close>

text \<open>What the loop does for a slot whose socket is ready, and after \<open>close_all_socket\<close> was set.\<close>

definition serve_slot :: "host \<Rightarrow> u32 \<Rightarrow> nat \<Rightarrow> server \<Rightarrow> server option" where
  "serve_slot h len0 i s = do {
     (ret, s1) \<leftarrow> process_command h len0 i s;
     Some (if ret < 0 then clear_client h i s1 else s1)
   }"

definition clear_all :: "host \<Rightarrow> server \<Rightarrow> server" where
  "clear_all h s = fold (clear_client h) [0..<MAXCLIENT] s"

text \<open>
  The loop over the slots; \<open>ready\<close> are the descriptors for which \<open>select\<close> has data. The loop goes to slot 17, which is
  the element behind \<open>clientfd\<close>, \<open>client_flag[0]\<close>: \<open>None\<close> if that number were a ready descriptor.
\<close>

primrec serve_slots :: "(nat \<Rightarrow> host \<times> u32) \<Rightarrow> int set \<Rightarrow> nat list \<Rightarrow> server \<Rightarrow> server option" where
  "serve_slots env ready [] s = Some s"
| "serve_slots env ready (i # is) s =
     (if i < MAXCLIENT then
        if clientfd s ! i \<noteq> - 1 \<and> clientfd s ! i \<in> ready
        then serve_slot (fst (env i)) (snd (env i)) i s \<bind> serve_slots env ready is
        else serve_slots env ready is s
      else if client_flag s ! 0 \<noteq> - 1 \<and> client_flag s ! 0 \<in> ready then None
      else serve_slots env ready is s)"

text \<open>One round of \<open>net_server_process\<close>; \<open>incoming\<close> is a connection that waits, with the answer of \<open>accept\<close>.\<close>

definition server_round :: "(nat \<Rightarrow> host \<times> u32) \<Rightarrow> (int option \<times> u32 list) option \<Rightarrow> int set \<Rightarrow> server \<Rightarrow> server option" where
  "server_round env incoming ready s = do {
     let s1 = (case incoming of None \<Rightarrow> s | Some (None, _) \<Rightarrow> accept_fails s | Some (Some fd, addr) \<Rightarrow> accept_client fd addr s);
     s2 \<leftarrow> serve_slots env ready [0..<MAX_CONNECT_NUM] s1;
     Some (if close_all_socket s2 = 9999 then (clear_all (fst (env 0)) s2)\<lparr>close_all_socket := 0\<rparr> else s2)
   }"

end
