(* ===== verification/Net_Login.thy ===== *)
theory Net_Login
  imports Net_Command
begin

text \<open>
  What a login does: the message that \<open>op_user_info\<close> of \<open>src/FileSystem/avicodelib/netserver.c\<close> reads, the passwords it
  takes, and the slots it lets in.
\<close>

unbundle bit_operations_syntax

section \<open>What a read takes\<close>

lemma sock_recv_takes:
  assumes "sock_recv n w = (r, d, w')" "0 < r"
  shows "d = take (nat r) (st_bytes w) \<and> nat r \<le> length (st_bytes w) \<and> nat r \<le> n \<and> st_bytes w' = drop (nat r) (st_bytes w)"
  using assms by (auto simp: sock_recv_def next_answer_def min_def split: list.splits if_splits)

lemma read_loop_result: "read_loop n off buf w = Some (r, buf', w') \<Longrightarrow> (r = 1 \<or> r = - 1) \<and> length buf' = length buf"
proof (induction n off buf w rule: read_loop.induct)
  case (1 n off buf w)
  show ?case
  proof (cases "n = 0")
    case True
    then show ?thesis using 1(2) by (simp add: read_loop.simps)
  next
    case False
    obtain k d w1 where s: "sock_recv n w = (k, d, w1)" by (cases "sock_recv n w") auto
    show ?thesis
    proof (cases "k \<le> 0")
      case True
      then show ?thesis using 1(2) False s by (subst (asm) read_loop.simps) auto
    next
      case pos: False
      then obtain b1 where b1: "mem_write buf off d = Some b1" "read_loop (n - nat k) (off + nat k) b1 w1 = Some (r, buf', w')"
        using 1(2) False s by (subst (asm) read_loop.simps) (auto split: option.splits)
      show ?thesis using 1(1) [OF False s [symmetric] refl refl pos b1(1,2)] mem_write_length [OF b1(1)] by simp
    qed
  qed
qed

lemma read_loop_took:
  "read_loop n off buf w = Some (1, buf', w') \<Longrightarrow> off \<le> length buf \<Longrightarrow>
    n \<le> length (st_bytes w) \<and> off + n \<le> length buf \<and> buf' = take off buf @ take n (st_bytes w) @ drop (off + n) buf \<and>
    st_bytes w' = drop n (st_bytes w)"
proof (induction n off buf w rule: read_loop.induct)
  case (1 n off buf w)
  show ?case
  proof (cases "n = 0")
    case True
    then show ?thesis using 1(2,3) by (simp add: read_loop.simps)
  next
    case False
    obtain k d w1 where s: "sock_recv n w = (k, d, w1)" by (cases "sock_recv n w") auto
    have pos: "\<not> k \<le> 0" using 1(2) False s by (subst (asm) read_loop.simps) (auto split: if_splits)
    then obtain b1 where b1: "mem_write buf off d = Some b1" "read_loop (n - nat k) (off + nat k) b1 w1 = Some (1, buf', w')"
      using 1(2) False s by (subst (asm) read_loop.simps) (auto split: option.splits)
    have k: "d = take (nat k) (st_bytes w)" "nat k \<le> length (st_bytes w)" "nat k \<le> n" "st_bytes w1 = drop (nat k) (st_bytes w)"
      using sock_recv_takes [OF s] pos by auto
    have m: "off + nat k \<le> length buf" "b1 = take off buf @ d @ drop (off + nat k) buf"
      using b1(1) k by (auto simp: mem_write_def split: if_splits)
    then have "off + nat k \<le> length b1" using k by simp
    note IH = 1(1) [OF False s [symmetric] refl refl pos b1 this]
    have 1: "take (off + nat k) b1 = take off buf @ d" "length b1 = length buf" using m k by simp_all
    have 2: "drop (off + nat k + (n - nat k)) b1 = drop (off + n) buf"
      using m k 1(2) by (simp add: add.commute)
    have 3: "d @ take (n - nat k) (drop (nat k) (st_bytes w)) = take n (st_bytes w)"
      using k(1,3) by (metis le_add_diff_inverse take_add)
    have "buf' = take (off + nat k) b1 @ take (n - nat k) (st_bytes w1) @ drop (off + nat k + (n - nat k)) b1" using IH by blast
    then have "buf' = take off buf @ (d @ take (n - nat k) (drop (nat k) (st_bytes w))) @ drop (off + n) buf"
      unfolding 1(1) 2 k(4) by simp
    moreover have "n \<le> length (st_bytes w)" "off + n \<le> length buf" "st_bytes w' = drop n (st_bytes w)"
      using IH k 1(2) by auto
    ultimately show ?thesis unfolding 3 by blast
  qed
qed

lemma read_loop_overruns:
  "list_all (\<lambda>a. 0 < a) (st_recvs w) \<Longrightarrow> n \<le> length (st_bytes w) \<Longrightarrow> off \<le> length buf \<Longrightarrow> length buf < off + n \<Longrightarrow>
    read_loop n off buf w = None"
proof (induction n off buf w rule: read_loop.induct)
  case (1 n off buf w)
  have n: "n \<noteq> 0" using 1(4,5) by simp
  obtain k d w1 where s: "sock_recv n w = (k, d, w1)" by (cases "sock_recv n w") auto
  have pos: "\<not> k \<le> 0" "list_all (\<lambda>a. 0 < a) (st_recvs w1)"
    using s 1(2,3) n by (auto simp: sock_recv_def next_answer_def min_def split: list.splits if_splits)
  have k: "d = take (nat k) (st_bytes w)" "nat k \<le> length (st_bytes w)" "nat k \<le> n" "st_bytes w1 = drop (nat k) (st_bytes w)"
    using sock_recv_takes [OF s] pos(1) by auto
  show ?case
  proof (cases "mem_write buf off d")
    case None
    then show ?thesis using n s pos by (subst read_loop.simps) simp
  next
    case (Some b1)
    then have "off + nat k \<le> length buf" "length b1 = length buf"
      using k mem_write_length [OF Some] by (auto simp: mem_write_def split: if_splits)
    then have "read_loop (n - nat k) (off + nat k) b1 w1 = None"
      using 1(1) [OF n s [symmetric] refl refl pos(1) Some pos(2)] 1(3-5) k by simp
    then show ?thesis using n s pos Some by (subst read_loop.simps) simp
  qed
qed

lemma socket_read_took:
  assumes "socket_read_data fd buf n s = Some (r, buf', s')" "0 \<le> r"
  shows "0 < fd \<and> nat n \<le> length (st_bytes (conn_in s fd)) \<and> nat n \<le> length buf \<and>
    buf' = take (nat n) (st_bytes (conn_in s fd)) @ drop (nat n) buf \<and>
    (\<exists>w. s' = s\<lparr>conn_in := (conn_in s)(fd := w)\<rparr> \<and> st_bytes w = drop (nat n) (st_bytes (conn_in s fd)))"
proof -
  have fd: "0 < fd" using assms by (auto simp: socket_read_data_def SOCKET_ERROR_def split: if_splits)
  then obtain k w where k: "read_loop (nat n) 0 buf (conn_in s fd) = Some (k, buf', w)" "r = (if k < 0 then SOCKET_READ_ERROR else 1)"
      "s' = s\<lparr>conn_in := (conn_in s)(fd := w)\<rparr>"
    using assms(1) by (auto simp: socket_read_data_def bind_eq_Some_conv split: if_splits)
  have "k = 1" using read_loop_result [OF k(1)] k(2) assms(2) by (auto simp: SOCKET_READ_ERROR_def)
  then show ?thesis using read_loop_took [of "nat n" 0 buf "conn_in s fd" buf' w] k fd by auto
qed

lemma socket_read_result:
  assumes "socket_read_data fd buf n s = Some (r, buf', s')"
  shows "\<exists>f. s' = s\<lparr>conn_in := f\<rparr>" "length buf' = length buf"
proof -
  show "\<exists>f. s' = s\<lparr>conn_in := f\<rparr>"
    using assms by (cases s) (auto simp: socket_read_data_def bind_eq_Some_conv split: if_splits)
  show "length buf' = length buf"
    using assms by (auto simp: socket_read_data_def bind_eq_Some_conv dest: read_loop_result split: if_splits)
qed

lemma socket_read_all:
  assumes "0 < fd" "list_all (\<lambda>a. 0 < a) (st_recvs (conn_in s fd))" "st_bytes (conn_in s fd) = d @ rest" "length d = nat n" "nat n \<le> length buf"
  shows "\<exists>w. socket_read_data fd buf n s = Some (1, d @ drop (nat n) buf, s\<lparr>conn_in := (conn_in s)(fd := w)\<rparr>) \<and>
    st_bytes w = rest \<and> list_all (\<lambda>a. 0 < a) (st_recvs w)"
proof -
  obtain as where "read_loop (nat n) 0 buf (conn_in s fd) = Some (1, take 0 buf @ d @ drop (0 + nat n) buf, (conn_in s fd)\<lparr>st_bytes := rest, st_recvs := as\<rparr>)"
      "list_all (\<lambda>a. 0 < a) as"
    using read_loop_ok [OF assms(2,3,4), of 0 buf] assms(5) by auto
  then show ?thesis using assms(1) by (intro exI [of _ "(conn_in s fd)\<lparr>st_bytes := rest, st_recvs := as\<rparr>"]) (simp add: socket_read_data_def)
qed

section \<open>Strings and passwords\<close>

text \<open>A string in an array of ten bytes, and what the protocol takes for a password.\<close>

definition field :: "byte list \<Rightarrow> byte list" where
  "field t = t @ replicate (10 - length t) 0"

definition short_string :: "byte list \<Rightarrow> bool" where
  "short_string t \<longleftrightarrow> length t < 10 \<and> 0 \<notin> set t"

definition network_password :: "byte list \<Rightarrow> byte list" where
  "network_password p = takeWhile (\<lambda>c. c \<noteq> 0) (take 9 (fips_cipher 10 (key_word 4 (pad16 7 sAESKey)) (pad16 (int (length p)) p)))"

definition fits :: "byte list \<Rightarrow> byte list \<Rightarrow> byte list \<times> byte list \<Rightarrow> bool" where
  "fits user pass = (\<lambda>(n, p). n \<noteq> [] \<and> user = n \<and> (pass = p \<or> pass = network_password p))"

lemma fits_pair: "fits user pass (n, p) \<longleftrightarrow> n \<noteq> [] \<and> user = n \<and> (pass = p \<or> pass = network_password p)"
  by (simp add: fits_def)

text \<open>The users of the server, as strings; the table has four places.\<close>

definition has_users :: "server \<Rightarrow> (byte list \<times> byte list) list \<Rightarrow> bool" where
  "has_users s us \<longleftrightarrow> user_name s = map (field \<circ> fst) us \<and> user_password s = map (field \<circ> snd) us \<and> length us = 4 \<and>
     (\<forall>(n, p) \<in> set us. short_string n \<and> short_string p)"

lemma takeWhile_prefix: "0 \<notin> set t \<Longrightarrow> takeWhile (\<lambda>c. c \<noteq> 0) (t @ 0 # r) = t"
  by (induction t) auto

lemma field_ends: "short_string t \<Longrightarrow> \<exists>k. field t = t @ 0 # replicate k 0"
  by (intro exI [of _ "9 - length t"]) (auto simp: field_def short_string_def Suc_diff_le simp flip: replicate_Suc)

lemma b_str_field: "short_string t \<Longrightarrow> b_str (field t) = Some t"
  using field_ends [of t] by (auto simp: b_str_def short_string_def takeWhile_prefix)

lemma strcpy_field: "short_string t \<Longrightarrow> 10 \<le> n \<Longrightarrow> strcpy_into n (field t) = Some t"
  by (simp add: strcpy_into_def b_str_field) (simp add: short_string_def)

lemma strcpy_10: "20 \<le> length b \<Longrightarrow> strcpy_into 10 b = (if 0 \<in> set (take 10 b) then Some (takeWhile (\<lambda>c. c \<noteq> 0) (take 10 b)) else None)"
proof -
  assume "20 \<le> length b"
  then have l: "length (take 10 b) = 10" by simp
  have tw: "takeWhile (\<lambda>c. c \<noteq> 0) b = (if 0 \<in> set (take 10 b) then takeWhile (\<lambda>c. c \<noteq> 0) (take 10 b)
      else take 10 b @ takeWhile (\<lambda>c. c \<noteq> 0) (drop 10 b))"
    using takeWhile_append1 [of 0 "take 10 b" "\<lambda>c. c \<noteq> 0" "drop 10 b"] takeWhile_append2 [of "take 10 b" "\<lambda>c. c \<noteq> 0" "drop 10 b"]
    by (auto split: if_splits)
  show ?thesis
  proof (cases "0 \<in> set (take 10 b)")
    case True
    then have "0 \<in> set b" by (meson in_set_takeD)
    moreover have "length (takeWhile (\<lambda>c. c \<noteq> 0) (take 10 b)) < 10"
    proof -
      have "takeWhile (\<lambda>c. c \<noteq> 0) (take 10 b) \<noteq> take 10 b" using True by (metis (full_types) set_takeWhileD)
      then show ?thesis using l length_takeWhile_le [of "\<lambda>c. c \<noteq> 0" "take 10 b"] takeWhile_eq_take [of "\<lambda>c. c \<noteq> 0" "take 10 b"]
        by (metis le_neq_implies_less take_all_iff order_refl)
    qed
    ultimately show ?thesis using tw True by (simp add: strcpy_into_def b_str_def)
  next
    case False
    then show ?thesis using tw l by (simp add: strcpy_into_def b_str_def)
  qed
qed

lemma pad16_prefix: "int (length t) = n \<Longrightarrow> pad16 n (t @ r) = pad16 n t"
  by (auto simp: pad16_def)

lemma length_fips_cipher: "length (fips_cipher nr w b) = 16"
  by (simp add: fips_cipher_def)

lemma enciphered_runs:
  assumes "aes_ok a" "length p < 64"
  shows "\<exists>a'. enciphered p a = Some (network_password p, a') \<and> aes_ok a'"
proof -
  let ?c = "fips_cipher 10 (key_word 4 (pad16 7 sAESKey)) (pad16 (int (length p)) p)"
  have "pad16 7 (sAESKey @ replicate 25 0) = pad16 7 sAESKey" by (rule pad16_prefix) (simp add: sAESKey_def)
  moreover have "pad16 (int (length p)) (p @ replicate (64 - length p) 0) = pad16 (int (length p)) p" by (rule pad16_prefix) simp
  ultimately obtain a' where a: "AES_Encrypt 128 (p @ replicate (64 - length p) 0) (int (length p)) (Some (sAESKey @ replicate 25 0)) 7
      (Some (replicate 32 0)) a = Some (16, Some (?c @ replicate 16 0), a')" "aes_ok a'"
    using AES_Encrypt_128 [OF assms(1), of "int (length p)" "p @ replicate (64 - length p) 0" 7 "sAESKey @ replicate 25 0" "replicate 32 0"] assms(2)
    by (auto simp: sAESKey_def)
  have "(?c @ replicate 16 0)[9 := 0] = take 9 ?c @ 0 # drop 10 (?c @ replicate 16 0)"
    by (simp add: upd_conv_take_nth_drop length_fips_cipher)
  then have "b_str ((?c @ replicate 16 0)[9 := 0]) = Some (network_password p)"
    by (simp add: b_str_def network_password_def takeWhile_tail)
  then show ?thesis using a by (simp add: enciphered_def)
qed

lemma find_user_first:
  assumes "aes_ok a" "\<forall>(n, p) \<in> set us. short_string n \<and> short_string p"
  shows "\<exists>a'. find_user user pass (map (\<lambda>(n, p). (field n, field p)) us) i a = Some (i + length (takeWhile (\<lambda>u. \<not> fits user pass u) us), a') \<and> aes_ok a'"
  using assms
proof (induction us arbitrary: i a)
  case (Cons u us)
  obtain n p where u: "u = (n, p)" "short_string n" "short_string p" using Cons.prems by (cases u) auto
  have IH: "\<exists>a'. find_user user pass (map (\<lambda>(n, p). (field n, field p)) us) j b = Some (j + length (takeWhile (\<lambda>u. \<not> fits user pass u) us), a') \<and> aes_ok a'"
    if "aes_ok b" for j b by (rule Cons.IH [OF that]) (use Cons.prems(2) in simp)
  show ?case
  proof (cases "n = []")
    case True
    then show ?thesis using IH [OF Cons.prems(1), of "i + 1"] u b_str_field [OF u(2)] by (auto simp: fits_pair)
  next
    case False
    obtain b where b: "enciphered p a = Some (network_password p, b)" "aes_ok b"
      using enciphered_runs [OF Cons.prems(1), of p] u(3) by (auto simp: short_string_def)
    have "strcpy_into 64 (field p) = Some p" using strcpy_field [OF u(3)] by simp
    then show ?thesis
      using IH [OF b(2), of "i + 1"] u(1) b_str_field [OF u(2)] b False by (auto simp: fits_pair)
  qed
qed simp

lemma users_of: "has_users s us \<Longrightarrow> users s = map (\<lambda>(n, p). (field n, field p)) us"
  by (simp add: has_users_def users_def zip_map_map) (simp add: zip_same_conv_map case_prod_beta comp_def)

section \<open>The slots\<close>

text \<open>The invariant of the slots, as long as no eighteenth connection comes.\<close>

definition slots_ok :: "server \<Rightarrow> bool" where
  "slots_ok s \<longleftrightarrow> length (clientfd s) = MAXCLIENT \<and> length (client_flag s) = MAXCLIENT \<and> length (client_send_data s) = MAXCLIENT \<and>
     length (close_socket_flag s) = MAXCLIENT \<and> length (have_check_passwd s) = MAXCLIENT \<and> length (is_super_user s) = MAXCLIENT \<and>
     (\<forall>i < MAXCLIENT. client_flag s ! i = 1 \<and> clientfd s ! i > 0 \<and> clientfd s ! i \<in> open_fds s \<or> client_flag s ! i = 0 \<and> clientfd s ! i = - 1) \<and>
     (\<forall>i < MAXCLIENT. \<forall>j < MAXCLIENT. clientfd s ! i > 0 \<longrightarrow> clientfd s ! i = clientfd s ! j \<longrightarrow> i = j) \<and>
     (\<forall>i < MAXCLIENT. close_socket_flag s ! i = 0) \<and>
     client_num s = int (card {i. i < MAXCLIENT \<and> clientfd s ! i > 0}) \<and> super_user_id s = - 1"

section \<open>The login message\<close>

text \<open>
  The name and the password that \<open>op_user_info\<close> finds in \<open>tempbuf\<close> when the bytes \<open>b\<close> wait at the socket: what a short message does
  not cover is what the stack held.
\<close>

definition login_len :: "net_command \<Rightarrow> nat" where "login_len cmd = nat (sint (gc_length cmd))"

definition login_text :: "host \<Rightarrow> net_command \<Rightarrow> byte list \<Rightarrow> byte list" where
  "login_text h cmd b = take (login_len cmd) b @ drop (login_len cmd) (ho_tempbuf h)"

definition user_of :: "byte list \<Rightarrow> byte list" where "user_of t = takeWhile (\<lambda>c. c \<noteq> 0) (take 10 t)"
definition pass_of :: "byte list \<Rightarrow> byte list" where "pass_of t = takeWhile (\<lambda>c. c \<noteq> 0) (take 10 (drop 10 t))"

definition ended :: "byte list \<Rightarrow> bool" where
  "ended t \<longleftrightarrow> 0 \<in> set (take 10 t) \<and> 0 \<in> set (take 10 (drop 10 t))"

text \<open>The first user of the table that the text names, by its place; 4 when there is none.\<close>

definition the_user :: "(byte list \<times> byte list) list \<Rightarrow> byte list \<Rightarrow> nat" where
  "the_user us t = length (takeWhile (\<lambda>u. \<not> fits (user_of t) (pass_of t) u) us)"

lemma strcpy_login:
  assumes "length t = 30"
  shows "strcpy_into 10 t = (if 0 \<in> set (take 10 t) then Some (user_of t) else None)"
    "strcpy_into 10 (drop 10 t) = (if 0 \<in> set (take 10 (drop 10 t)) then Some (pass_of t) else None)"
  using strcpy_10 [of t] strcpy_10 [of "drop 10 t"] assms by (simp_all add: user_of_def pass_of_def)

lemma user_found:
  assumes "has_users s us" "aes_ok (cipher s)"
  shows "\<exists>a. find_user (user_of t) (pass_of t) (users s) 0 (cipher s) = Some (the_user us t, a) \<and> aes_ok a"
  using find_user_first [OF assms(2), of us "user_of t" "pass_of t" 0] assms(1) users_of [OF assms(1)]
  by (auto simp: has_users_def the_user_def)

lemma the_user_bound: "has_users s us \<Longrightarrow> the_user us t \<le> 4"
  by (metis has_users_def length_takeWhile_le the_user_def)

lemma op_user_info_read:
  assumes "op_user_info h cmd idx s = Some (r, s')" "length (ho_tempbuf h) = 30" "has_users s us" "aes_ok (cipher s)" "clientfd s ! idx = fd"
  shows "(\<exists>f. r = - 1 \<and> s' = s\<lparr>conn_in := f\<rparr>) \<or>
    (0 < fd \<and> login_len cmd \<le> 30 \<and> login_len cmd \<le> length (st_bytes (conn_in s fd)) \<and> ended (login_text h cmd (st_bytes (conn_in s fd))) \<and>
     (\<exists>w a. st_bytes w = drop (login_len cmd) (st_bytes (conn_in s fd)) \<and> aes_ok a \<and>
       (r, s') = answer_login h cmd idx (the_user us (login_text h cmd (st_bytes (conn_in s fd)))) (s\<lparr>conn_in := (conn_in s)(fd := w), cipher := a\<rparr>)))"
proof -
  obtain r1 t s1 where rd: "socket_read_data fd (ho_tempbuf h) (sint (gc_length cmd)) s = Some (r1, t, s1)"
    using assms(1,5) by (auto simp: op_user_info_def bind_eq_Some_conv)
  show ?thesis
  proof (cases "r1 < 0")
    case True
    then have "r = - 1" "s' = s1" using assms(1,5) rd by (simp_all add: op_user_info_def)
    then show ?thesis using socket_read_result(1) [OF rd] by auto
  next
    case False
    then have "0 \<le> r1" by simp
    from socket_read_took [OF rd this] obtain w where w: "0 < fd" "login_len cmd \<le> length (st_bytes (conn_in s fd))" "login_len cmd \<le> 30"
        "t = login_text h cmd (st_bytes (conn_in s fd))" "s1 = s\<lparr>conn_in := (conn_in s)(fd := w)\<rparr>" "st_bytes w = drop (login_len cmd) (st_bytes (conn_in s fd))"
      using assms(2) by (auto simp: login_len_def login_text_def)
    have t: "length t = 30" using socket_read_result(2) [OF rd] assms(2) by simp
    obtain a where a: "find_user (user_of t) (pass_of t) (users s1) 0 (cipher s1) = Some (the_user us t, a)" "aes_ok a"
      using user_found [of s1 us t] assms(3,4) by (auto simp: w(5) has_users_def)
    have e: "ended t" using assms(1,5) rd False by (auto simp: op_user_info_def strcpy_login [OF t] ended_def split: if_splits)
    then have "(r, s') = answer_login h cmd idx (the_user us t) (s1\<lparr>cipher := a\<rparr>)"
      using assms(1,5) rd False a(1) by (simp add: op_user_info_def strcpy_login [OF t] ended_def)
    moreover have "s1\<lparr>cipher := a\<rparr> = s\<lparr>conn_in := (conn_in s)(fd := w), cipher := a\<rparr>" by (simp add: w(5))
    ultimately show ?thesis using w e a(2) unfolding w(4) by metis
  qed
qed

lemma op_user_info_runs:
  assumes "0 < fd" "clientfd s ! idx = fd" "list_all (\<lambda>a. 0 < a) (st_recvs (conn_in s fd))" "login_len cmd \<le> length (st_bytes (conn_in s fd))"
    and "login_len cmd \<le> 30" "length (ho_tempbuf h) = 30" "has_users s us" "aes_ok (cipher s)"
  shows "op_user_info h cmd idx s = None \<longleftrightarrow> \<not> ended (login_text h cmd (st_bytes (conn_in s fd)))"
    "op_user_info h cmd idx s \<noteq> Some (- 1, s')"
proof -
  let ?b = "st_bytes (conn_in s fd)"
  obtain w where w: "socket_read_data fd (ho_tempbuf h) (sint (gc_length cmd)) s =
      Some (1, login_text h cmd ?b, s\<lparr>conn_in := (conn_in s)(fd := w)\<rparr>)"
    using socket_read_all [OF assms(1,3), of "take (login_len cmd) ?b" "drop (login_len cmd) ?b" "sint (gc_length cmd)" "ho_tempbuf h"] assms(4-6)
    by (auto simp: login_len_def login_text_def)
  let ?t = "login_text h cmd ?b" and ?s = "s\<lparr>conn_in := (conn_in s)(fd := w)\<rparr>"
  have t: "length ?t = 30" using assms(4-6) by (simp add: login_text_def)
  obtain a where a: "find_user (user_of ?t) (pass_of ?t) (users ?s) 0 (cipher ?s) = Some (the_user us ?t, a)"
    using user_found [of ?s us ?t] assms(7,8) by (auto simp: has_users_def)
  show "op_user_info h cmd idx s = None \<longleftrightarrow> \<not> ended ?t"
    using w a assms(2) by (auto simp: op_user_info_def strcpy_login [OF t] ended_def Let_def split: prod.splits)
  show "op_user_info h cmd idx s \<noteq> Some (- 1, s')"
    using w a assms(2)
    by (auto simp: op_user_info_def strcpy_login [OF t] answer_login_def Let_def SOCKET_SEND_ERROR_def split: prod.splits if_splits)
qed

section \<open>Letting in\<close>

text \<open>Who is let in: the first user may be logged in once among the first four slots, the others while a slot is left.\<close>

definition granted :: "server \<Rightarrow> nat \<Rightarrow> bool" where
  "granted s k \<longleftrightarrow> (if k = 0 then \<not> (\<exists>j<4. clientfd s ! j > 0 \<and> is_super_user s ! j = 1) else k < 4 \<and> client_num s < int MAXCLIENT)"

lemma admit_grants:
  assumes "super_user_id s = - 1" "k \<le> 4" "admit k idx cmd s = (c, s')"
  shows "gc_length c = (if k = 0 \<and> granted s 0 \<or> 0 < k \<and> k < 4 then RIGHT_USER_PASS else BAD_USER_PASS)"
    "gc_command c = (if 0 < k \<and> k < 4 \<and> \<not> granted s k then USER_TOO_MUCH else gc_command cmd)"
    "s' = s\<lparr>have_check_passwd := (have_check_passwd s)[idx := if granted s k then 1 else if k = 0 then have_check_passwd s ! idx else 0],
       is_super_user := (is_super_user s)[idx := if k = 0 \<and> granted s k then 1 else is_super_user s ! idx]\<rparr>"
  using assms by (auto simp: admit_def granted_def Let_def Bex_def lessThan_iff MAX_CONNECT_NUM_def split: if_splits)

lemma send_all:
  assumes "0 < fd" "clientfd s ! idx = fd" "close_socket_flag s ! idx = 0" "list_all (\<lambda>a. 0 < a) (st_sends (conn_out s fd))"
  shows "\<exists>w. safe_socket_send_data idx data s = (1, s\<lparr>conn_out := (conn_out s)(fd := w)\<rparr>) \<and> st_bytes w = st_bytes (conn_out s fd) @ data"
proof -
  obtain as where "send_loop data (conn_out s fd) = (1, (conn_out s fd)\<lparr>st_bytes := st_bytes (conn_out s fd) @ data, st_sends := as\<rparr>)"
    using send_loop_ok [OF assms(4)] by blast
  then show ?thesis using assms(1-3)
    by (intro exI [of _ "(conn_out s fd)\<lparr>st_bytes := st_bytes (conn_out s fd) @ data, st_sends := as\<rparr>"])
      (simp add: safe_socket_send_data_def socket_send_data_def)
qed

lemma login_runs:
  assumes "slots_ok s" "has_users s us" "aes_ok (cipher s)" "idx < MAXCLIENT" "clientfd s ! idx = fd" "0 < fd"
    and "list_all (\<lambda>a. 0 < a) (st_recvs (conn_in s fd))" "list_all (\<lambda>a. 0 < a) (st_sends (conn_out s fd))"
    and "login_len cmd \<le> length (st_bytes (conn_in s fd))" "login_len cmd \<le> 30" "length (ho_tempbuf h) = 30"
    and "t = login_text h cmd (st_bytes (conn_in s fd))" "ended t" "k = the_user us t"
  shows "\<exists>s' reply. op_user_info h cmd idx s = Some (1, s') \<and> st_bytes (conn_in s' fd) = drop (login_len cmd) (st_bytes (conn_in s fd)) \<and>
    st_bytes (conn_out s' fd) = st_bytes (conn_out s fd) @ enc_net_command reply \<and>
    gc_length reply = (if k = 0 \<and> granted s 0 \<or> 0 < k \<and> k < 4 then RIGHT_USER_PASS else BAD_USER_PASS) \<and>
    gc_command reply = (if 0 < k \<and> k < 4 \<and> \<not> granted s k then USER_TOO_MUCH else gc_command cmd) \<and>
    clientfd s' = clientfd s \<and>
    have_check_passwd s' = (have_check_passwd s)[idx := if granted s k then 1 else if k = 0 then have_check_passwd s ! idx else 0] \<and>
    is_super_user s' = (is_super_user s)[idx := if k = 0 \<and> granted s k then 1 else is_super_user s ! idx]"
proof -
  have s: "super_user_id s = - 1" "close_socket_flag s ! idx = 0" using assms(1,4) by (simp_all add: slots_ok_def)
  note runs = op_user_info_runs [OF assms(6,5,7,9-11,2,3)]
  obtain r s' where op: "op_user_info h cmd idx s = Some (r, s')" using runs(1) assms(12,13) by (cases "op_user_info h cmd idx s") auto
  moreover have "r \<noteq> - 1" using runs(2) op by blast
  ultimately obtain w a where w: "st_bytes w = drop (login_len cmd) (st_bytes (conn_in s fd))"
      and ans: "(r, s') = answer_login h cmd idx k (s\<lparr>conn_in := (conn_in s)(fd := w), cipher := a\<rparr>)"
    using op_user_info_read [OF _ assms(11,2,3,5)] unfolding assms(12,14) by blast
  let ?s1 = "s\<lparr>conn_in := (conn_in s)(fd := w), cipher := a\<rparr>"
  obtain c s2 where ad: "admit k idx cmd ?s1 = (c, s2)" by force
  have "super_user_id ?s1 = - 1" "granted ?s1 = granted s" using s by (auto simp: granted_def fun_eq_iff)
  note adm = admit_grants [OF this(1) the_user_bound [OF assms(2), of t, folded assms(14)] ad, unfolded this(2)]
  let ?reply = "c\<lparr>gc_play_fileId := H264_CODE, gc_searchDate := ho_max_chan h + MAC_MODEL\<rparr>"
  have s2: "clientfd s2 = clientfd s" "close_socket_flag s2 = close_socket_flag s" "conn_out s2 = conn_out s" "conn_in s2 = (conn_in s)(fd := w)"
    by (simp_all add: adm(3))
  obtain v where v: "safe_socket_send_data idx (enc_net_command ?reply) (s2\<lparr>cur_client_idx := idx\<rparr>) =
      (1, (s2\<lparr>cur_client_idx := idx\<rparr>)\<lparr>conn_out := (conn_out s)(fd := v)\<rparr>)" "st_bytes v = st_bytes (conn_out s fd) @ enc_net_command ?reply"
    using send_all [OF assms(6), of "s2\<lparr>cur_client_idx := idx\<rparr>" idx] s2 s assms(5,8) by auto
  have "r = 1" "s' = (s2\<lparr>cur_client_idx := idx\<rparr>)\<lparr>conn_out := (conn_out s)(fd := v)\<rparr>"
    using ans ad v by (simp_all add: answer_login_def)
  moreover have "have_check_passwd s2 = (have_check_passwd s)[idx := if granted s k then 1 else if k = 0 then have_check_passwd s ! idx else 0]"
      "is_super_user s2 = (is_super_user s)[idx := if k = 0 \<and> granted s k then 1 else is_super_user s ! idx]"
    by (auto simp: adm(3))
  ultimately show ?thesis
    by (intro exI [of _ "(s2\<lparr>cur_client_idx := idx\<rparr>)\<lparr>conn_out := (conn_out s)(fd := v)\<rparr>"] exI [of _ ?reply])
      (simp add: op w s2 adm(1,2) v(2))
qed

text \<open>A command that has come whole is run.\<close>

lemma command_runs:
  assumes "clientfd s ! i = fd" "0 < fd" "list_all (\<lambda>a. 0 < a) (st_recvs (conn_in s fd))" "st_bytes (conn_in s fd) = enc_net_command cmd @ rest"
  shows "\<exists>w. st_bytes w = rest \<and> list_all (\<lambda>a. 0 < a) (st_recvs w) \<and> process_command h l i s = run_command h l cmd i
    (s\<lparr>conn_in := (conn_in s)(fd := w), socket_recv_num := (socket_recv_num s)[i := socket_recv_num s ! i + 1]\<rparr>)"
proof -
  obtain w where w: "socket_read_data fd (replicate 20 0) 20 s = Some (1, enc_net_command cmd @ drop (nat 20) (replicate 20 0), s\<lparr>conn_in := (conn_in s)(fd := w)\<rparr>)"
      "st_bytes w = rest" "list_all (\<lambda>a. 0 < a) (st_recvs w)"
    using socket_read_all [OF assms(2-4), of 20 "replicate 20 0"] by auto
  show ?thesis using w assms(1,2) by (intro exI [of _ w]) (simp add: process_command_def dec_enc_net_command)
qed

lemma login_served:
  assumes "slots_ok s" "has_users s us" "aes_ok (cipher s)" "idx < MAXCLIENT" "clientfd s ! idx = fd" "0 < fd"
    and "list_all (\<lambda>a. 0 < a) (st_recvs (conn_in s fd))" "list_all (\<lambda>a. 0 < a) (st_sends (conn_out s fd))"
    and "st_bytes (conn_in s fd) = enc_net_command cmd @ msg @ rest" "server_command (gc_command cmd) = SEND_USER_NAME_PASS"
    and "length msg = login_len cmd" "login_len cmd \<le> 30" "length (ho_tempbuf h) = 30"
    and "t = msg @ drop (length msg) (ho_tempbuf h)" "ended t" "k = the_user us t"
  shows "\<exists>s' reply. serve_slot h l idx s = Some s' \<and> st_bytes (conn_in s' fd) = rest \<and>
    st_bytes (conn_out s' fd) = st_bytes (conn_out s fd) @ enc_net_command reply \<and>
    gc_length reply = (if k = 0 \<and> granted s 0 \<or> 0 < k \<and> k < 4 then RIGHT_USER_PASS else BAD_USER_PASS) \<and>
    gc_command reply = (if 0 < k \<and> k < 4 \<and> \<not> granted s k then USER_TOO_MUCH else gc_command cmd) \<and>
    have_check_passwd s' = (have_check_passwd s)[idx := if granted s k then 1 else if k = 0 then have_check_passwd s ! idx else 0] \<and>
    is_super_user s' = (is_super_user s)[idx := if k = 0 \<and> granted s k then 1 else is_super_user s ! idx]"
proof -
  obtain w where w: "st_bytes w = msg @ rest" "list_all (\<lambda>a. 0 < a) (st_recvs w)" and run: "process_command h l idx s = run_command h l cmd idx
      (s\<lparr>conn_in := (conn_in s)(fd := w), socket_recv_num := (socket_recv_num s)[idx := socket_recv_num s ! idx + 1]\<rparr>)"
    using command_runs [OF assms(5-7,9)] by blast
  let ?s = "s\<lparr>conn_in := (conn_in s)(fd := w), socket_recv_num := (socket_recv_num s)[idx := socket_recv_num s ! idx + 1]\<rparr>"
  have s: "slots_ok ?s" "has_users ?s us" "aes_ok (cipher ?s)" "clientfd ?s ! idx = fd" "list_all (\<lambda>a. 0 < a) (st_recvs (conn_in ?s fd))"
      "list_all (\<lambda>a. 0 < a) (st_sends (conn_out ?s fd))" "granted ?s = granted s"
    using assms(1-3,5,8) w(2) by (simp_all add: slots_ok_def has_users_def granted_def fun_eq_iff)
  have t: "login_len cmd \<le> length (st_bytes (conn_in ?s fd))" "t = login_text h cmd (st_bytes (conn_in ?s fd))"
    using w(1) assms(11,14) by (simp_all add: login_text_def)
  obtain s' reply where o: "op_user_info h cmd idx ?s = Some (1, s')" and rest:
      "st_bytes (conn_in s' fd) = drop (login_len cmd) (st_bytes (conn_in ?s fd))"
      "st_bytes (conn_out s' fd) = st_bytes (conn_out ?s fd) @ enc_net_command reply"
      "gc_length reply = (if k = 0 \<and> granted s 0 \<or> 0 < k \<and> k < 4 then RIGHT_USER_PASS else BAD_USER_PASS)"
      "gc_command reply = (if 0 < k \<and> k < 4 \<and> \<not> granted s k then USER_TOO_MUCH else gc_command cmd)"
      "have_check_passwd s' = (have_check_passwd ?s)[idx := if granted s k then 1 else if k = 0 then have_check_passwd ?s ! idx else 0]"
      "is_super_user s' = (is_super_user ?s)[idx := if k = 0 \<and> granted s k then 1 else is_super_user ?s ! idx]"
    using login_runs [OF s(1-3) assms(4) s(4) assms(6) s(5,6) t(1) assms(12,13) t(2) assms(15,16)] unfolding s(7) by blast
  have "serve_slot h l idx s = Some s'" using run o assms(10) by (simp add: serve_slot_def run_command_def if_failed_def)
  moreover have "drop (login_len cmd) (st_bytes (conn_in ?s fd)) = rest" using w(1) assms(11) by simp
  ultimately show ?thesis using rest by (intro exI [of _ s'] exI [of _ reply]) simp
qed

section \<open>Properties\<close>

text \<open>C14: The outcome of a login. When the command and a message of at most 30 bytes have come, and name and password end within their
  ten bytes, one reply is sent, nothing else is read, and the slot is decided: the first user that the text names, with its password or the
  first nine bytes of the enciphered password, is let in when \<open>granted\<close> says so, and nobody else is. A user who is not found, or
  finds the server full, loses the login he had; the first user keeps it when he is refused. What a short message does not
  cover of the text is what the stack held.\<close>

theorem login_outcome:
  assumes "slots_ok s" "has_users s us" "aes_ok (cipher s)" "idx < MAXCLIENT" "clientfd s ! idx = fd" "0 < fd"
    and "list_all (\<lambda>a. 0 < a) (st_recvs (conn_in s fd))" "list_all (\<lambda>a. 0 < a) (st_sends (conn_out s fd))"
    and "st_bytes (conn_in s fd) = enc_net_command cmd @ msg @ rest" "server_command (gc_command cmd) = SEND_USER_NAME_PASS"
    and "length msg = login_len cmd" "login_len cmd \<le> 30" "length (ho_tempbuf h) = 30"
    and "t = msg @ drop (length msg) (ho_tempbuf h)" "ended t" "k = the_user us t"
  shows "\<exists>s' reply. serve_slot h l idx s = Some s' \<and> st_bytes (conn_in s' fd) = rest \<and>
    st_bytes (conn_out s' fd) = st_bytes (conn_out s fd) @ enc_net_command reply \<and>
    gc_length reply = (if k = 0 \<and> granted s 0 \<or> 0 < k \<and> k < 4 then RIGHT_USER_PASS else BAD_USER_PASS) \<and>
    gc_command reply = (if 0 < k \<and> k < 4 \<and> \<not> granted s k then USER_TOO_MUCH else gc_command cmd) \<and>
    have_check_passwd s' = (have_check_passwd s)[idx := if granted s k then 1 else if k = 0 then have_check_passwd s ! idx else 0] \<and>
    is_super_user s' = (is_super_user s)[idx := if k = 0 \<and> granted s k then 1 else is_super_user s ! idx]"
  by (rule login_served [OF assms])

text \<open>A connection that was accepted sends the name and the password of the first user.\<close>

definition demo_users :: "(byte list \<times> byte list) list" where
  "demo_users = [([97], [98]), ([], []), ([], []), ([], [])]"

definition demo_login :: net_command where
  "demo_login = \<lparr>gc_command = 18, gc_length = 20, gc_page = 0, gc_play_fileId = 0, gc_searchDate = 0\<rparr>"

definition demo_session :: "byte list \<Rightarrow> server" where
  "demo_session b = (demo_server (\<lambda>fd. b))\<lparr>clientfd := 5 # replicate 16 (- 1), client_flag := 1 # replicate 16 0, client_num := 1, open_fds := {5}\<rparr>"

lemma nth_Cons_replicate: "i < Suc n \<Longrightarrow> (x # replicate n y) ! i = (if i = 0 then x else y)"
  by (cases i) simp_all

lemma demo_session_ok: "slots_ok (demo_session b)" "has_users (demo_session b) demo_users" "aes_ok (cipher (demo_session b))"
proof -
  have "{i. i < 17 \<and> 0 < (5 # replicate 16 (- 1) :: int list) ! i} = {0}" by (auto simp: nth_Cons_replicate split: if_splits)
  then show "slots_ok (demo_session b)"
    by (auto simp: slots_ok_def demo_session_def demo_server_def MAXCLIENT_def nth_Cons_replicate)
  show "has_users (demo_session b) demo_users"
    by (simp add: has_users_def demo_session_def demo_server_def demo_users_def field_def short_string_def)
  show "aes_ok (cipher (demo_session b))" by (simp add: demo_session_def demo_server_def aes_ok_start)
qed

lemma demo_text: "ended (97 # replicate 9 0 @ 98 # replicate 19 0)" "the_user demo_users (97 # replicate 9 0 @ 98 # replicate 19 0) = 0"
proof -
  let ?t = "97 # replicate 9 0 @ 98 # replicate 19 0 :: byte list"
  show "ended ?t" by code_simp
  have "user_of ?t = [97]" "pass_of ?t = [98]" by code_simp+
  then show "the_user demo_users ?t = 0" by (simp add: the_user_def demo_users_def fits_pair)
qed

theorem login_outcome_witness:
  "\<exists>s' reply. serve_slot demo_host 0 0 (demo_session (enc_net_command demo_login @ 97 # replicate 9 0 @ 98 # replicate 9 0)) = Some s' \<and>
    st_bytes (conn_in s' 5) = [] \<and> st_bytes (conn_out s' 5) = enc_net_command reply \<and> gc_length reply = RIGHT_USER_PASS \<and>
    have_check_passwd s' = 1 # replicate 16 0"
proof -
  let ?s = "demo_session (enc_net_command demo_login @ 97 # replicate 9 0 @ 98 # replicate 9 0)"
  let ?m = "97 # replicate 9 0 @ 98 # replicate 9 0"
  have g: "granted ?s 0" by (auto simp: granted_def demo_session_def demo_server_def MAXCLIENT_def)
  have t: "?m @ drop (length ?m) (ho_tempbuf demo_host) = 97 # replicate 9 0 @ 98 # replicate 19 0"
    by (simp add: demo_host_def flip: replicate_add)
  have p: "have_check_passwd ?s = replicate 17 0" "clientfd ?s ! 0 = 5" "conn_in ?s 5 = \<lparr>st_bytes = enc_net_command demo_login @ ?m @ [], st_sends = [], st_recvs = []\<rparr>"
      "conn_out ?s 5 = \<lparr>st_bytes = [], st_sends = [], st_recvs = []\<rparr>"
    by (simp_all add: demo_session_def demo_server_def MAXCLIENT_def)
  obtain s' reply where "serve_slot demo_host 0 0 ?s = Some s'" "st_bytes (conn_in s' 5) = []"
      "st_bytes (conn_out s' 5) = st_bytes (conn_out ?s 5) @ enc_net_command reply" "gc_length reply = RIGHT_USER_PASS"
      "have_check_passwd s' = (have_check_passwd ?s)[0 := 1]"
    using login_outcome [OF demo_session_ok, where idx = 0 and fd = 5 and cmd = demo_login and msg = ?m and rest = "[]" and h = demo_host
      and k = 0 and l = 0, OF _ p(2)] demo_text g t p(3,4)
    by (auto simp: MAXCLIENT_def demo_login_def server_command_def login_len_def demo_host_def)
  then show ?thesis using p by (auto simp: numeral_eq_Suc)
qed

text \<open>C34: The login message may be written past its array. The length in the header is the peer's: with more than 30 bytes
  the message leaves \<open>tempbuf\<close>, and a name or password without a zero in its ten bytes leaves \<open>user\<close> or \<open>pass\<close>; in every
  other case the function returns.\<close>

theorem login_message_bounds:
  assumes "has_users s us" "aes_ok (cipher s)" "clientfd s ! idx = fd" "0 < fd" "list_all (\<lambda>a. 0 < a) (st_recvs (conn_in s fd))"
    and "login_len cmd \<le> length (st_bytes (conn_in s fd))" "length (ho_tempbuf h) = 30"
  shows "op_user_info h cmd idx s = None \<longleftrightarrow> 30 < login_len cmd \<or> \<not> ended (login_text h cmd (st_bytes (conn_in s fd)))"
proof (cases "30 < login_len cmd")
  case True
  then have "read_loop (login_len cmd) 0 (ho_tempbuf h) (conn_in s fd) = None"
    using read_loop_overruns [OF assms(5), of "login_len cmd" 0] assms(6,7) by simp
  then show ?thesis using True assms(3,4) by (simp add: op_user_info_def socket_read_data_def login_len_def)
next
  case False
  then show ?thesis using op_user_info_runs(1) [OF assms(4,3,5,6) _ assms(7,1,2)] by simp
qed

theorem login_message_bounds_witness:
  "op_user_info demo_host (demo_login\<lparr>gc_length := 31\<rparr>) 0 (demo_session (replicate 31 1)) = None"
  using login_message_bounds [OF demo_session_ok(2,3), of "replicate 31 1" 0 5 "demo_login\<lparr>gc_length := 31\<rparr>" demo_host]
  by (simp add: demo_session_def demo_server_def demo_login_def login_len_def demo_host_def)

end
