(* ===== verification/Net_Viewers.thy ===== *)
theory Net_Viewers
  imports Net_Command
begin

text \<open>
  The sender thread of the view server: what \<open>net_send_thread\<close> of \<open>src/FileSystem/avicodelib/fic8120ctrl.c\<close> does in a
  round, with the functions of \<open>netserver.c\<close> it calls. They send the answers that the commands noted, the next frame of
  the network ring to every viewer, and the end of a played file.
\<close>

unbundle bit_operations_syntax

section \<open>State\<close>

definition COMMAND_GET_FRAME :: u32 where "COMMAND_GET_FRAME = 2"
definition PLAY_STOP :: u32 where "PLAY_STOP = 5"
definition LED_INFO :: u32 where "LED_INFO = 3"
definition MAC_DISK_INFO :: u32 where "MAC_DISK_INFO = 2"
definition SEND_MAX_VIDEO_SIZE :: u32 where "SEND_MAX_VIDEO_SIZE = 10"
definition TD_DRV_VIDEO_SIZE_D1 :: u32 where "TD_DRV_VIDEO_SIZE_D1 = 0"

definition IMG_SIZE :: nat where "IMG_SIZE = nat NET_BUF_MAX_SIZE"

text \<open>
  The server, the network ring with the static frame information, the two static blocks of \<open>send_img_data\<close> of
  \<open>NET_BUF_MAX_SIZE\<close> bytes, and the static \<open>play_count\<close>.
\<close>

record sender =
  sd_server :: server
  sd_net :: net_state
  sd_info :: drv_buf_info
  sd_data :: "byte list"
  sd_data1 :: "byte list"
  sd_play_count :: int

text \<open>The answers of the rest of the program during a round, and the uninitialised locals: a command, a frame header.\<close>

record sender_host =
  sh_host :: host
  sh_change_pos :: int
  sh_standard :: u32
  sh_size :: u32
  sh_chans :: nat
  sh_max_video :: u32
  sh_disks :: "u32 list list"
  sh_cmd :: net_command
  sh_header :: "byte list"

section \<open>Answers to requests\<close>

text \<open>How the replies end: the request is struck out when the answer was sent.\<close>

definition answered :: "nat \<Rightarrow> byte list \<Rightarrow> server \<Rightarrow> int \<times> server" where
  "answered idx d s =
     (let (ret, s1) = safe_socket_send_data idx d (s\<lparr>cur_client_idx := idx\<rparr>)
      in if ret \<le> 0 then (SOCKET_SEND_ERROR, s1) else (1, s1\<lparr>info_cmd_to_send := (info_cmd_to_send s1)[idx := 0]\<rparr>))"

text \<open>Two of them clear the slot when it could not be sent.\<close>

definition answered_or_cleared :: "host \<Rightarrow> nat \<Rightarrow> byte list \<Rightarrow> server \<Rightarrow> int \<times> server" where
  "answered_or_cleared h idx d s = (let (ret, s1) = answered idx d s in (ret, if ret < 0 then clear_client h idx s1 else s1))"

text \<open>The six words of each disk go through an array of eight.\<close>

definition send_disk_info :: "sender_host \<Rightarrow> nat \<Rightarrow> server \<Rightarrow> (int \<times> server) option" where
  "send_disk_info x idx s =
     (let n = length (sh_disks x);
          cmd = (sh_cmd x)\<lparr>gc_command := OTHER_INFO, gc_length := MAC_DISK_INFO, gc_page := of_nat n\<rparr>
      in if n > 8 then None
         else Some (answered_or_cleared (sh_host x) idx (enc_net_command cmd @ concat (map words_bytes (sh_disks x))) s))"

definition send_led_info :: "sender_host \<Rightarrow> nat \<Rightarrow> server \<Rightarrow> int \<times> server" where
  "send_led_info x idx s =
     (case net_key_board s of (led1, key, led2) \<Rightarrow>
        answered_or_cleared (sh_host x) idx
          (enc_net_command ((sh_cmd x)\<lparr>gc_command := OTHER_INFO, gc_length := LED_INFO, gc_page := led1, gc_play_fileId := led2\<rparr>)) s)"

definition send_file_list :: "nat \<Rightarrow> server \<Rightarrow> (int \<times> server) option" where
  "send_file_list idx s =
     (let cmd = g_cmd s
      in if sint (gc_page cmd) > 0
         then do { d \<leftarrow> mem_read (rec_list_info s) 0 (unat (gc_play_fileId cmd)); Some (answered idx (enc_net_command cmd @ d) s) }
         else Some (answered idx (enc_net_command cmd) s))"

definition send_play_file_result :: "nat \<Rightarrow> server \<Rightarrow> int \<times> server" where
  "send_play_file_result idx s =
     (let cmd = g_cmd s; (ret, s1) = safe_socket_send_data idx (enc_net_command cmd) (s\<lparr>cur_client_idx := idx\<rparr>)
      in if ret \<le> 0 then (SOCKET_SEND_ERROR, s1)
         else let s2 = (if gc_page cmd = NET_FILE_OPEN_SUCCESS
                        then s1\<lparr>net_play_mode := NET_FILE_PLAYING, client_send_data := (client_send_data s1)[idx := 1]\<rparr> else s1)
              in (1, s2\<lparr>info_cmd_to_send := (info_cmd_to_send s2)[idx := 0]\<rparr>))"

definition send_dvr_mac_para :: "nat \<Rightarrow> server \<Rightarrow> (int \<times> server) option" where
  "send_dvr_mac_para idx s = do {
     d \<leftarrow> mem_read (dvr_mac_para s) 0 (unat (gc_play_fileId (g_cmd s)));
     Some (answered idx (enc_net_command (g_cmd s) @ d) s)
   }"

definition send_gui_msg :: "nat \<Rightarrow> server \<Rightarrow> (int \<times> server) option" where
  "send_gui_msg idx s = do {
     d \<leftarrow> mem_read (gui_msg s) 0 (unat (gc_play_fileId (g_cmd s)));
     Some (answered idx (enc_net_command (g_cmd s) @ d) s)
   }"

definition send_max_video_size :: "sender_host \<Rightarrow> nat \<Rightarrow> server \<Rightarrow> int \<times> server" where
  "send_max_video_size x idx s =
     answered idx (enc_net_command ((sh_cmd x)\<lparr>gc_command := OTHER_INFO, gc_length := SEND_MAX_VIDEO_SIZE, gc_page := sh_max_video x\<rparr>)) s"

definition send_one_info :: "sender_host \<Rightarrow> nat \<Rightarrow> server \<Rightarrow> server option" where
  "send_one_info x idx s =
     (let info = info_cmd_to_send s ! idx;
          s1 = (if info \<noteq> 0 then s\<lparr>socket_send_num := (socket_send_num s)[idx := socket_send_num s ! idx + 1]\<rparr> else s)
      in if info = MAC_DISK_INFO then map_option snd (send_disk_info x idx s1)
         else if info = LED_INFO then Some (snd (send_led_info x idx s1))
         else if info = DISK_FILE_LIST then map_option snd (send_file_list idx s1)
         else if info = PLAY_FILE_RESULT then Some (snd (send_play_file_result idx s1))
         else if info = SEND_MAC_PARA then map_option snd (send_dvr_mac_para idx s1)
         else if info = SEND_GUI_MSG then map_option snd (send_gui_msg idx s1)
         else if info = SEND_MAX_VIDEO_SIZE then Some (snd (send_max_video_size x idx s1))
         else Some s1)"

primrec send_infos :: "sender_host \<Rightarrow> nat list \<Rightarrow> server \<Rightarrow> server option" where
  "send_infos x [] s = Some s"
| "send_infos x (i # is) s = send_one_info x i s \<bind> send_infos x is"

definition send_other_info_data :: "sender_host \<Rightarrow> server \<Rightarrow> server option" where
  "send_other_info_data x s = send_infos x [0..<MAXCLIENT] s"

section \<open>Frames\<close>

text \<open>The static information keeps what earlier frames left in the entries of other channels.\<close>

definition get_net_buf_info :: "byte list \<Rightarrow> sender \<Rightarrow> (bool \<times> sender) option" where
  "get_net_buf_info hdr0 d = do {
     (ret, hdr, data', net') \<leftarrow> get_net_buf (sd_net d) hdr0 (sd_data d);
     let d1 = d\<lparr>sd_net := net', sd_data := data'\<rparr>;
     if ret \<le> 0 then Some (False, d1)
     else do { bi \<leftarrow> fill_bufinfo (dec_frame_header hdr) (sd_info d1); Some (True, d1\<lparr>sd_info := bi\<rparr>) }
   }"

text \<open>The first of \<open>n\<close> channels from \<open>i\<close> on whose bit is set, or the channel behind them.\<close>

primrec first_channel :: "u32 \<Rightarrow> nat \<Rightarrow> nat \<Rightarrow> nat option" where
  "first_channel m i 0 = Some i"
| "first_channel m i (Suc n) = do { b \<leftarrow> get_bit m i; if b \<noteq> 0 then Some i else first_channel m (i + 1) n }"

text \<open>\<open>FRAMEHEADERINFO\<close> over the uninitialised bytes \<open>u\<close>: \<open>ulFrameDataOffset\<close> and the padding are not set.\<close>

definition img_header :: "byte list \<Rightarrow> u32 \<Rightarrow> u32 \<Rightarrow> u32 \<Rightarrow> u32 \<Rightarrow> byte \<Rightarrow> u32 \<Rightarrow> byte \<Rightarrow> byte \<Rightarrow> u32 \<Rightarrow> byte list" where
  "img_header u len ft sec usec ty chan standard image_size num =
     words_bytes [len, ft, sec, usec] @ take 4 (drop 16 u) @ [ty] @ take 3 (drop 21 u) @ u32_bytes chan @ [standard, image_size] @
     take 2 (drop 30 u) @ u32_bytes num"

text \<open>The command, the header and the frame behind what stands in \<open>data1\<close>, and all of it up to there.\<close>

definition put_message :: "byte list \<Rightarrow> nat \<Rightarrow> byte list \<Rightarrow> byte list \<Rightarrow> byte list \<Rightarrow> (byte list \<times> byte list) option" where
  "put_message data1 pos cmd hdr frame = do {
     a \<leftarrow> mem_write data1 pos cmd;
     b \<leftarrow> mem_write a (pos + 20) hdr;
     c \<leftarrow> mem_write b (pos + 56) frame;
     buf \<leftarrow> mem_read c 0 (pos + 56 + length frame);
     Some (c, buf)
   }"

text \<open>
  A viewer gets what stands in \<open>data1\<close> up to \<open>buf_pos\<close>, which is set to 0 before the loop and not for each viewer. The
  two branches of the source for merged frames are the same here.
\<close>

primrec send_viewers :: "sender_host \<Rightarrow> byte list \<Rightarrow> byte list \<Rightarrow> nat \<Rightarrow> nat list \<Rightarrow> byte list \<Rightarrow> server \<Rightarrow> (int \<times> byte list \<times> server) option" where
  "send_viewers x hdr frame pos [] data1 s = Some (1, data1, s)"
| "send_viewers x hdr frame pos (i # is) data1 s =
     (if client_send_data s ! i = 0 then send_viewers x hdr frame pos is data1 s
      else do {
        let s1 = s\<lparr>socket_send_num := (socket_send_num s)[i := socket_send_num s ! i + 1], cur_client_idx := i\<rparr>;
        (c, buf) \<leftarrow> put_message data1 pos (enc_net_command ((sh_cmd x)\<lparr>gc_command := COMMAND_GET_FRAME\<rparr>)) hdr frame;
        let (ret, s2) = safe_socket_send_data i buf s1;
        if ret \<le> 0 then Some (SOCKET_SEND_ERROR, c, clear_client (sh_host x) i s2)
        else send_viewers x hdr frame (pos + 56 + length frame) is c s2
      })"

definition send_img_data :: "sender_host \<Rightarrow> byte list \<Rightarrow> sender \<Rightarrow> (int \<times> sender) option" where
  "send_img_data x hdr0 d = do {
     (got, d1) \<leftarrow> get_net_buf_info hdr0 d;
     if \<not> got then Some (0, d1)
     else do {
       let bi = sd_info d1;
       index \<leftarrow> first_channel (bi_iChannelMask bi) 0 (sh_chans x);
       len \<leftarrow> arr_get (bi_iBufLen bi) index;
       ft \<leftarrow> arr_get (bi_iFrameType bi) index;
       num \<leftarrow> arr_get (bi_iFrameCountNumber bi) index;
       let size = (if fst (play_status (ho_play_status (sh_host x))) = 0
                   then if g_net_mode (sd_server d1) = TD_DRV_VIDEO_SIZE_D1 then TD_DRV_VIDEO_SIZE_D1 else TD_DRV_VIDEO_SIZE_CIF
                   else sh_size x);
       let hdr = img_header (sh_header x) len ft (bi_tv_sec bi) (bi_tv_usec bi) (if bi_iBufDataType bi = VIDEO_FRAME then 86 else 65)
                  (of_nat index) (ucast (sh_standard x)) (ucast size) num;
       frame \<leftarrow> mem_read (sd_data d1) 0 (unat len);
       (ret, data1, s) \<leftarrow> send_viewers x hdr frame 0 [0..<MAXCLIENT] (sd_data1 d1) (sd_server d1);
       Some (ret, d1\<lparr>sd_data1 := data1, sd_server := s\<rparr>)
     }
   }"

section \<open>The end of a file\<close>

text \<open>The loop over the viewers; the static count is given up with the first one, and a viewer that fails ends the loop.\<close>

primrec stop_viewers :: "sender_host \<Rightarrow> nat list \<Rightarrow> int \<times> server \<Rightarrow> int \<times> int \<times> server" where
  "stop_viewers x [] p = (1, p)"
| "stop_viewers x (i # is) p = (case p of (count, s) \<Rightarrow>
     if client_send_data s ! i = 0 then stop_viewers x is (count, s)
     else let s1 = start_stop_net_file_view 0 (s\<lparr>net_play_mode := 0, client_send_data := (client_send_data s)[i := 0]\<rparr>);
              (ret, s2) = safe_socket_send_data i (enc_net_command ((sh_cmd x)\<lparr>gc_command := PLAY_STOP\<rparr>)) s1
          in if ret \<le> 0 then (SOCKET_SEND_ERROR, 0, clear_client (sh_host x) i s2) else stop_viewers x is (0, s2))"

definition check_play_status :: "sender_host \<Rightarrow> sender \<Rightarrow> int \<times> sender" where
  "check_play_status x d =
     (if sh_change_pos x = 1 then (1, d)
      else let s = sd_server d in
        if net_play_mode s = NET_FILE_PLAYING then
          let (st1, rest) = play_status (ho_play_status (sh_host x)) in
          if st1 = 1 \<or> sd_play_count d > 0 then
            if fst (play_status rest) = 0 then
              let (ret, count, s2) = stop_viewers x [0..<MAXCLIENT] (1, do_call (FTC_AudioPlayCam (- 1)) (do_call FTC_StopPlay s))
              in (ret, d\<lparr>sd_play_count := count, sd_server := s2\<rparr>)
            else (1, d\<lparr>sd_play_count := 1\<rparr>)
          else (1, d\<lparr>sd_play_count := 0\<rparr>)
        else (1, d\<lparr>sd_play_count := 0\<rparr>))"

section \<open>The thread\<close>

text \<open>One round of \<open>net_send_thread\<close>; the answers may differ between its three parts.\<close>

definition net_send_round :: "sender_host \<Rightarrow> sender_host \<Rightarrow> sender_host \<Rightarrow> byte list \<Rightarrow> sender \<Rightarrow> sender option" where
  "net_send_round x y z hdr0 d =
     (if is_have_client (sd_server d) \<noteq> 1 then Some d
      else do {
        s1 \<leftarrow> send_other_info_data x (sd_server d);
        (ret, d2) \<leftarrow> send_img_data y hdr0 (d\<lparr>sd_server := s1\<rparr>);
        Some (snd (check_play_status z d2))
      })"

end
