(* ===== verification/Net_Server.thy ===== *)
theory Net_Server
  imports Net_Login Net_Viewers
begin

text \<open>
  Runs of the view server, \<open>src/FileSystem/avicodelib/netserver.c\<close>: the rounds of \<open>net_server_process\<close> as sequences of
  steps, the invariant of the slots, and what the commands may do for whom.
\<close>

section \<open>Commands that leave the sessions alone\<close>

text \<open>The members that make up the sessions; no other update changes them.\<close>

definition sessions where
  "sessions s = (clientfd s, client_flag s, close_socket_flag s, client_num s, super_user_id s, open_fds s, have_check_passwd s,
     is_super_user s, user_name s, user_password s, cipher s, length (client_send_data s))"

lemma sessions_update [simp]:
  fixes s :: server
  shows "sessions (s\<lparr>calls := v1\<rparr>) = sessions s" "sessions (s\<lparr>conn_in := v2\<rparr>) = sessions s" "sessions (s\<lparr>conn_out := v3\<rparr>) = sessions s"
    "sessions (s\<lparr>files := v4\<rparr>) = sessions s" "sessions (s\<lparr>g_cmd := v5\<rparr>) = sessions s" "sessions (s\<lparr>info_cmd_to_send := v6\<rparr>) = sessions s"
    "sessions (s\<lparr>rec_list_info := v7\<rparr>) = sessions s" "sessions (s\<lparr>play_rec_record_info := v7\<rparr>) = sessions s" "sessions (s\<lparr>gui_msg := v7\<rparr>) = sessions s"
    "sessions (s\<lparr>dvr_mac_para := v7\<rparr>) = sessions s" "sessions (s\<lparr>g_search_time := v8\<rparr>) = sessions s" "sessions (s\<lparr>net_play_mode := v8\<rparr>) = sessions s"
    "sessions (s\<lparr>net_trans_mode := v8\<rparr>) = sessions s" "sessions (s\<lparr>bit_stream := v8\<rparr>) = sessions s" "sessions (s\<lparr>frame_rate := v8\<rparr>) = sessions s"
    "sessions (s\<lparr>play_cam := v8\<rparr>) = sessions s" "sessions (s\<lparr>client_use_cam := v9\<rparr>) = sessions s" "sessions (s\<lparr>g_net_mode := v8\<rparr>) = sessions s"
    "sessions (s\<lparr>net_listen_audio_chan := v8\<rparr>) = sessions s" "sessions (s\<lparr>net_speak_audio_chan := v8\<rparr>) = sessions s"
    "sessions (s\<lparr>g_net_audio_open := v8\<rparr>) = sessions s" "sessions (s\<lparr>g_enable_net_local_view_flag := v8\<rparr>) = sessions s"
    "sessions (s\<lparr>g_enable_net_file_view_flag := v8\<rparr>) = sessions s" "sessions (s\<lparr>net_local_cam := v8\<rparr>) = sessions s"
    "sessions (s\<lparr>net_key_board := v10\<rparr>) = sessions s" "sessions (s\<lparr>socket_recv_num := v11\<rparr>) = sessions s" "sessions (s\<lparr>cur_client_idx := v12\<rparr>) = sessions s"
    "sessions (s\<lparr>maxfd := v13\<rparr>) = sessions s" "sessions (s\<lparr>g_othreinfolist := v14\<rparr>) = sessions s" "sessions (s\<lparr>net_addr := v15\<rparr>) = sessions s"
    "sessions (s\<lparr>send_flag := v11\<rparr>) = sessions s" "sessions (s\<lparr>close_all_socket := v13\<rparr>) = sessions s"
  by (simp_all add: sessions_def)

lemma sessions_send_data [simp]:
  fixes s :: server
  shows "length xs = length (client_send_data s) \<Longrightarrow> sessions (s\<lparr>client_send_data := xs\<rparr>) = sessions s"
  by (simp add: sessions_def)

lemma sessions_slots: "sessions s' = sessions s \<Longrightarrow> slots_ok s \<Longrightarrow> slots_ok s'"
  by (simp add: sessions_def slots_ok_def)

lemma sessions_users: "sessions s' = sessions s \<Longrightarrow> has_users s us \<Longrightarrow> has_users s' us"
  by (simp add: sessions_def has_users_def)

lemma sessions_calls [simp]:
  "sessions (do_call c s) = sessions s" "sessions (open_net_audio f s) = sessions s" "sessions (start_stop_net_view f s) = sessions s"
  "sessions (start_stop_net_file_view f s) = sessions s" "sessions (op_other_info cmd idx s) = sessions s"
  "client_send_data (do_call c s) = client_send_data s" "client_send_data (start_stop_net_file_view f s) = client_send_data s"
  by (simp_all add: do_call_def open_net_audio_def start_stop_net_view_def start_stop_net_file_view_def op_other_info_def Let_def)

lemma sessions_read: "socket_read_data fd buf n s = Some (r, b, s') \<Longrightarrow> sessions s' = sessions s \<and> client_send_data s' = client_send_data s"
  using socket_read_result(1) [of fd buf n s r b s'] by auto

lemma sessions_send: "safe_socket_send_data idx d s = (r, s') \<Longrightarrow> sessions s' = sessions s \<and> client_send_data s' = client_send_data s"
  by (auto simp: safe_socket_send_data_def socket_send_data_def Let_def split: prod.splits if_splits)

lemma sessions_sound: "play_sound cam num n s = Some s' \<Longrightarrow> sessions s' = sessions s"
  by (induction n arbitrary: num) (auto simp: bind_eq_Some_conv split: if_splits)

lemma sessions_pieces: "play_pieces b i n s = Some s' \<Longrightarrow> sessions s' = sessions s"
  by (induction n arbitrary: i s) (auto simp: bind_eq_Some_conv)

lemma sessions_view:
  "local_view cmd idx s = (r, s') \<Longrightarrow> sessions s' = sessions s"
  "sessions (stop_local_view idx s) = sessions s"
  "set_net_parameter_cmd h cmd s = (r, s') \<Longrightarrow> sessions s' = sessions s"
  by (auto simp: local_view_def stop_local_view_def set_net_parameter_cmd_def Let_def split: if_splits)

lemma sessions_info:
  "get_filelist h cmd idx s = (r, s') \<Longrightarrow> sessions s' = sessions s"
  "send_mac_para h cmd idx s = (r, s') \<Longrightarrow> sessions s' = sessions s"
  "send_gui_message h cmd idx s = Some (r, s') \<Longrightarrow> sessions s' = sessions s"
  by (auto simp: get_filelist_def send_mac_para_def send_gui_message_def Let_def bind_eq_Some_conv split: if_splits option.splits)

lemma sessions_keys [simp]:
  "sessions (stop_net_play_file h idx s) = sessions s" "sessions (net_press_dvr_key cmd s) = sessions s"
  "sessions (net_audio_set_fuc cmd s) = sessions s" "sessions (op_keyboard_led_info cmd s) = sessions s"
  by (simp_all add: stop_net_play_file_def net_press_dvr_key_def net_audio_set_fuc_def op_keyboard_led_info_def Let_def)

lemma sessions_open_play:
  assumes "open_net_play_file h cmd idx s = Some (r, s')"
  shows "sessions s' = sessions s"
proof -
  obtain r1 info s1 where rd: "socket_read_data (clientfd s ! idx) (play_rec_record_info s) (sint (gc_length cmd)) s = Some (r1, info, s1)"
    using assms by (auto simp: open_net_play_file_def bind_eq_Some_conv)
  note k = sessions_read [OF rd]
  show ?thesis
  proof (cases "r1 < 0")
    case True
    then show ?thesis using assms rd k by (auto simp: open_net_play_file_def)
  next
    case False
    let ?X = "(if fst (play_status (ho_play_status h)) = 1
        then (cmd\<lparr>gc_command := NET_FILE_OPEN_ERROR, gc_length := 0x11\<rparr>, s1\<lparr>play_rec_record_info := info\<rparr>)
          else let p = do_call (FTC_ReclistPlay info) (s1\<lparr>play_rec_record_info := info\<rparr>)
               in if ho_reclist_play h < 0 then (cmd\<lparr>gc_command := NET_FILE_OPEN_ERROR, gc_length := 0\<rparr>, p)
                  else (cmd\<lparr>gc_command := NET_FILE_OPEN_SUCCESS\<rparr>, if gc_searchDate cmd = 0xff then do_call (FTC_AudioPlayCam 1) p else p))"
    obtain c s3 where x: "?X = (c, s3)" by (cases ?X)
    then have k3: "sessions s3 = sessions s1" by (auto simp: Let_def split: if_splits)
    obtain ret s4 where v: "safe_socket_send_data idx (enc_net_command c) s3 = (ret, s4)" by force
    have "s' = s4 \<or> s' = start_stop_net_file_view 1 (s4\<lparr>net_play_mode := NET_FILE_PLAYING, client_send_data := (client_send_data s4)[idx := 1]\<rparr>)"
      using assms rd False x v by (simp add: open_net_play_file_def Let_def split: if_splits)
    then show ?thesis using sessions_send [OF v] k3 k by auto
  qed
qed

lemma sessions_time_play: "net_play_file h l cmd idx s = Some (r, s') \<Longrightarrow> sessions s' = sessions s"
  by (auto simp: net_play_file_def Let_def bind_eq_Some_conv split: if_splits dest!: sessions_sound)

lemma sessions_files:
  "execute_shell_file cmd idx s = Some (r, s') \<Longrightarrow> sessions s' = sessions s"
  "net_set_dvr_mac_para cmd idx s = Some (r, s') \<Longrightarrow> sessions s' = sessions s"
  "net_set_gui_msg h cmd idx s = Some (r, s') \<Longrightarrow> sessions s' = sessions s"
  by (auto simp: execute_shell_file_def net_set_dvr_mac_para_def net_set_gui_msg_def bind_eq_Some_conv Let_def split: if_splits dest!: sessions_read)

lemma sessions_audio:
  assumes "net_send_audio_data h cmd idx s = Some (r, s')"
  shows "sessions s' = sessions s"
proof (cases "sint (gc_length cmd) \<ge> 2048")
  case True
  then show ?thesis using assms by (simp add: net_send_audio_data_def)
next
  case False
  then obtain r1 b s1 where rd: "socket_read_data (clientfd s ! idx) (ho_audio_buf h) (sint (gc_length cmd)) s = Some (r1, b, s1)"
    using assms by (auto simp: net_send_audio_data_def bind_eq_Some_conv)
  then have "sessions s' = sessions s1"
    using assms False by (auto simp: net_send_audio_data_def bind_eq_Some_conv split: if_splits dest: sessions_pieces)
  then show ?thesis using sessions_read [OF rd] by simp
qed

lemma sessions_soft:
  assumes "get_update_soft h cmd idx s = Some (r, s')"
  shows "sessions s' = sessions s"
proof -
  obtain r1 name s1 where 1: "socket_read_data (clientfd s ! idx) (replicate 256 0) (sint (gc_length cmd)) s = Some (r1, name, s1)"
    using assms by (auto simp: get_update_soft_def bind_eq_Some_conv)
  note k1 = sessions_read [OF 1]
  show ?thesis
  proof (cases "r1 < 0")
    case True
    then show ?thesis using assms 1 k1 by (simp add: get_update_soft_def)
  next
    case f1: False
    then obtain r2 cb s2 where 2: "socket_read_data (clientfd s1 ! idx) (enc_net_command cmd) 20 s1 = Some (r2, cb, s2)"
      using assms 1 by (auto simp: get_update_soft_def bind_eq_Some_conv)
    note k2 = sessions_read [OF 2]
    define len where "len = sint (gc_length (dec_net_command cb))"
    show ?thesis
    proof (cases "r2 < 0 \<or> len > 5 * 1024 * 1024 \<or> len \<le> 0 \<or> ho_malloc h (nat len) = None")
      case True
      then show ?thesis using assms 1 2 f1 k1 k2 by (auto simp: get_update_soft_def len_def Let_def split: if_splits option.splits)
    next
      case f2: False
      then obtain fb where fb: "ho_malloc h (nat len) = Some fb" by auto
      obtain r3 content s3 where 3: "socket_read_data (clientfd s2 ! idx) fb len s2 = Some (r3, content, s3)"
        using assms 1 2 f1 f2 fb by (auto simp: get_update_soft_def len_def Let_def bind_eq_Some_conv)
      note k3 = sessions_read [OF 3]
      have "s' = s3 \<or> (\<exists>f. s' = s3\<lparr>files := f\<rparr>)"
        using assms 1 2 3 f1 f2 fb by (auto simp: get_update_soft_def len_def bind_eq_Some_conv Let_def split: if_splits)
      then show ?thesis using k1 k2 k3 by auto
    qed
  qed
qed

definition session_commands :: "server_command set" where
  "session_commands = {STOP_NET_CONNECT, SEND_USER_NAME_PASS, COMMAND_SET_AUDIO_SOCKET}"

lemmas session_lemmas = sessions_send sessions_view(1,3) sessions_info sessions_open_play sessions_time_play sessions_files sessions_audio sessions_soft

lemma run_command_sessions:
  assumes "run_command h l cmd idx s = Some (r, s')" "server_command (gc_command cmd) \<notin> session_commands"
  shows "sessions s' = sessions s"
  using assms by (cases "server_command (gc_command cmd)")
    (auto simp: run_command_def if_failed_def session_commands_def sessions_view(2) split: prod.splits dest: session_lemmas)

section \<open>Slots that are taken and given up\<close>

lemma slots_lengths:
  "slots_ok s \<Longrightarrow> length (clientfd s) = MAXCLIENT" "slots_ok s \<Longrightarrow> length (client_flag s) = MAXCLIENT"
  "slots_ok s \<Longrightarrow> length (client_send_data s) = MAXCLIENT" "slots_ok s \<Longrightarrow> length (close_socket_flag s) = MAXCLIENT"
  "slots_ok s \<Longrightarrow> length (have_check_passwd s) = MAXCLIENT" "slots_ok s \<Longrightarrow> length (is_super_user s) = MAXCLIENT"
  unfolding slots_ok_def by blast+

lemma slots_flag:
  "slots_ok s \<Longrightarrow> i < MAXCLIENT \<Longrightarrow>
    client_flag s ! i = 1 \<and> 0 < clientfd s ! i \<and> clientfd s ! i \<in> open_fds s \<or> client_flag s ! i = 0 \<and> clientfd s ! i = - 1"
  unfolding slots_ok_def by blast

lemma slots_differ:
  "slots_ok s \<Longrightarrow> i < MAXCLIENT \<Longrightarrow> j < MAXCLIENT \<Longrightarrow> 0 < clientfd s ! i \<Longrightarrow> clientfd s ! i = clientfd s ! j \<Longrightarrow> i = j"
  unfolding slots_ok_def by blast

lemma slots_counts:
  "slots_ok s \<Longrightarrow> client_num s = int (card {i. i < MAXCLIENT \<and> 0 < clientfd s ! i})" "slots_ok s \<Longrightarrow> super_user_id s = - 1"
  "slots_ok s \<Longrightarrow> i < MAXCLIENT \<Longrightarrow> close_socket_flag s ! i = 0"
  unfolding slots_ok_def by blast+

lemma slots_okI:
  assumes "length (clientfd s) = MAXCLIENT" "length (client_flag s) = MAXCLIENT" "length (client_send_data s) = MAXCLIENT"
    "length (close_socket_flag s) = MAXCLIENT" "length (have_check_passwd s) = MAXCLIENT" "length (is_super_user s) = MAXCLIENT"
    "\<And>i. i < MAXCLIENT \<Longrightarrow>
      client_flag s ! i = 1 \<and> 0 < clientfd s ! i \<and> clientfd s ! i \<in> open_fds s \<or> client_flag s ! i = 0 \<and> clientfd s ! i = - 1"
    "\<And>i j. i < MAXCLIENT \<Longrightarrow> j < MAXCLIENT \<Longrightarrow> 0 < clientfd s ! i \<Longrightarrow> clientfd s ! i = clientfd s ! j \<Longrightarrow> i = j"
    "\<And>i. i < MAXCLIENT \<Longrightarrow> close_socket_flag s ! i = 0" "client_num s = int (card {i. i < MAXCLIENT \<and> 0 < clientfd s ! i})" "super_user_id s = - 1"
  shows "slots_ok s"
  unfolding slots_ok_def using assms by blast

lemma length_takeWhile_all: "length (takeWhile P xs) = length xs \<longleftrightarrow> (\<forall>x \<in> set xs. P x)"
  by (induction xs) auto

lemma free_slot_le: "length (client_flag s) = MAXCLIENT \<Longrightarrow> free_slot s \<le> MAXCLIENT"
  using length_takeWhile_le [of "\<lambda>f. f \<noteq> 0" "client_flag s"] by (simp add: free_slot_def)

lemma free_slot_free:
  assumes "slots_ok s" "free_slot s < MAXCLIENT"
  shows "client_flag s ! free_slot s = 0" "clientfd s ! free_slot s = - 1"
proof -
  show "client_flag s ! free_slot s = 0"
    using nth_length_takeWhile [of "\<lambda>f. f \<noteq> 0" "client_flag s"] assms(2) slots_lengths(2) [OF assms(1)] by (simp add: free_slot_def)
  then show "clientfd s ! free_slot s = - 1" using slots_flag [OF assms] by auto
qed

lemma free_slot_full:
  assumes "slots_ok s"
  shows "free_slot s = MAXCLIENT \<longleftrightarrow> client_num s = int MAXCLIENT"
proof -
  let ?U = "{i. i < MAXCLIENT \<and> 0 < clientfd s ! i}"
  have "free_slot s = MAXCLIENT \<longleftrightarrow> (\<forall>i < MAXCLIENT. client_flag s ! i \<noteq> 0)"
    using slots_lengths(2) [OF assms] length_takeWhile_all [of "\<lambda>f. f \<noteq> 0" "client_flag s"]
    by (auto simp: free_slot_def all_set_conv_all_nth)
  also have "\<dots> \<longleftrightarrow> (\<forall>i < MAXCLIENT. 0 < clientfd s ! i)"
  proof -
    have "client_flag s ! i \<noteq> 0 \<longleftrightarrow> 0 < clientfd s ! i" if "i < MAXCLIENT" for i using slots_flag [OF assms that] by auto
    then show ?thesis by simp
  qed
  also have "\<dots> \<longleftrightarrow> ?U = {..<MAXCLIENT}" by auto
  also have "\<dots> \<longleftrightarrow> card ?U = card {..<MAXCLIENT}"
  proof
    assume "card ?U = card {..<MAXCLIENT}"
    moreover have "?U \<subseteq> {..<MAXCLIENT}" by auto
    ultimately show "?U = {..<MAXCLIENT}" by (simp only: card_subset_eq [OF finite_lessThan])
  qed (simp only:)
  finally show ?thesis using slots_counts(1) [OF assms] by simp
qed

lemma slots_ok_taken:
  assumes s: "slots_ok s" and k: "k < MAXCLIENT" "client_flag s ! k = 0" and fd: "0 < fd" "fd \<notin> set (clientfd s)"
    and t: "clientfd t = (clientfd s)[k := fd]" "client_flag t = (client_flag s)[k := 1]" "client_send_data t = client_send_data s"
      "close_socket_flag t = close_socket_flag s" "have_check_passwd t = have_check_passwd s" "is_super_user t = is_super_user s"
      "open_fds t = insert fd (open_fds s)" "super_user_id t = - 1"
      "client_num t = (if client_num s + 1 > int MAXCLIENT then int MAXCLIENT else client_num s + 1)"
  shows "slots_ok t"
proof -
  let ?U = "{i. i < MAXCLIENT \<and> 0 < clientfd s ! i}"
  note len = slots_lengths [OF s]
  have free: "clientfd s ! k = - 1" using slots_flag [OF s k(1)] k(2) by auto
  have others: "clientfd s ! i \<noteq> fd" if "i < MAXCLIENT" for i using fd(2) that len(1) by (metis nth_mem)
  have "{i. i < MAXCLIENT \<and> 0 < clientfd t ! i} = insert k ?U" using k fd len(1) by (auto simp: t(1) nth_list_update)
  moreover have "k \<notin> ?U" using free by simp
  moreover have "card (insert k ?U) \<le> MAXCLIENT" using card_mono [of "{..<MAXCLIENT}" "insert k ?U"] k by auto
  ultimately have num: "client_num t = int (card {i. i < MAXCLIENT \<and> 0 < clientfd t ! i})" using slots_counts(1) [OF s] by (simp add: t(9))
  have flag: "client_flag t ! i = 1 \<and> 0 < clientfd t ! i \<and> clientfd t ! i \<in> open_fds t \<or> client_flag t ! i = 0 \<and> clientfd t ! i = - 1"
    if "i < MAXCLIENT" for i using slots_flag [OF s that] fd len k by (cases "i = k") (auto simp: t)
  have "i = j" if "i < MAXCLIENT" "j < MAXCLIENT" "0 < clientfd t ! i" "clientfd t ! i = clientfd t ! j" for i j
    using slots_differ [OF s that(1,2)] that k others [OF that(1)] others [OF that(2)] len(1) by (cases "i = k"; cases "j = k") (simp_all add: t(1))
  then show ?thesis using num flag slots_counts(3) [OF s] by (intro slots_okI) (simp_all add: t len)
qed

lemma slots_ok_released:
  assumes s: "slots_ok s" and k: "k < MAXCLIENT" "0 < clientfd s ! k"
    and t: "clientfd t = (clientfd s)[k := - 1]" "client_flag t = (client_flag s)[k := 0]" "length (client_send_data t) = MAXCLIENT"
      "close_socket_flag t = (close_socket_flag s)[k := 0]" "length (have_check_passwd t) = MAXCLIENT" "length (is_super_user t) = MAXCLIENT"
      "open_fds s - {clientfd s ! k} \<subseteq> open_fds t" "super_user_id t = - 1" "client_num t = client_num s - 1"
  shows "slots_ok t"
proof -
  let ?U = "{i. i < MAXCLIENT \<and> 0 < clientfd s ! i}"
  note len = slots_lengths [OF s]
  have "{i. i < MAXCLIENT \<and> 0 < clientfd t ! i} = ?U - {k}" using k len(1) by (auto simp: t(1) nth_list_update)
  moreover have "card ?U = Suc (card (?U - {k}))" using k by (intro card.remove) auto
  ultimately have num: "client_num t = int (card {i. i < MAXCLIENT \<and> 0 < clientfd t ! i})" using slots_counts(1) [OF s] by (simp add: t(9))
  have flag: "client_flag t ! i = 1 \<and> 0 < clientfd t ! i \<and> clientfd t ! i \<in> open_fds t \<or> client_flag t ! i = 0 \<and> clientfd t ! i = - 1"
    if i: "i < MAXCLIENT" for i
    using slots_flag [OF s i] slots_differ [OF s i k(1)] subsetD [OF t(7), of "clientfd s ! i"] len i k by (cases "i = k") (auto simp: t)
  have "i = j" if "i < MAXCLIENT" "j < MAXCLIENT" "0 < clientfd t ! i" "clientfd t ! i = clientfd t ! j" for i j
    using slots_differ [OF s that(1,2)] that k len(1) by (auto simp: t(1) nth_list_update split: if_splits)
  moreover have "close_socket_flag t ! i = 0" if "i < MAXCLIENT" for i
    using slots_counts(3) [OF s that] len that by (cases "i = k") (simp_all add: t)
  ultimately show ?thesis using num flag t by (intro slots_okI) (simp_all add: len)
qed

section \<open>The operations keep the slots\<close>

text \<open>Who may be logged in: a connection of \<open>K\<close>, or whoever has a slot of \<open>A\<close>.\<close>

definition logins_ok :: "int set \<Rightarrow> nat set \<Rightarrow> server \<Rightarrow> bool" where
  "logins_ok K A s \<longleftrightarrow> (\<forall>i < MAXCLIENT. have_check_passwd s ! i \<noteq> 0 \<longrightarrow> i \<in> A \<or> 0 < clientfd s ! i \<and> clientfd s ! i \<in> K)"

definition server_inv :: "(byte list \<times> byte list) list \<Rightarrow> int set \<Rightarrow> nat set \<Rightarrow> server \<Rightarrow> bool" where
  "server_inv us K A s \<longleftrightarrow> slots_ok s \<and> has_users s us \<and> aes_ok (cipher s) \<and> logins_ok K A s"

lemma server_invD:
  "server_inv us K A s \<Longrightarrow> slots_ok s" "server_inv us K A s \<Longrightarrow> has_users s us" "server_inv us K A s \<Longrightarrow> aes_ok (cipher s)"
  "server_inv us K A s \<Longrightarrow> logins_ok K A s"
  by (simp_all add: server_inv_def)

lemma sessions_inv: "sessions s' = sessions s \<Longrightarrow> server_inv us K A s \<Longrightarrow> server_inv us K A s'"
  using sessions_slots [of s' s] sessions_users [of s' s us] by (simp add: server_inv_def logins_ok_def sessions_def)

lemma inv_mono: "server_inv us K A s \<Longrightarrow> K \<subseteq> K' \<Longrightarrow> A \<subseteq> A' \<Longrightarrow> server_inv us K' A' s"
  by (auto simp: server_inv_def logins_ok_def)

lemma inv_taken:
  assumes inv: "server_inv us K A s" and k: "k < MAXCLIENT" "client_flag s ! k = 0" and fd: "0 < fd" "fd \<notin> set (clientfd s)"
    and t: "clientfd t = (clientfd s)[k := fd]" "client_flag t = (client_flag s)[k := 1]" "client_send_data t = client_send_data s"
      "close_socket_flag t = close_socket_flag s" "have_check_passwd t = have_check_passwd s" "is_super_user t = is_super_user s"
      "open_fds t = insert fd (open_fds s)" "super_user_id t = - 1"
      "client_num t = (if client_num s + 1 > int MAXCLIENT then int MAXCLIENT else client_num s + 1)"
      "user_name t = user_name s" "user_password t = user_password s" "cipher t = cipher s"
  shows "server_inv us (K - {fd}) A t"
proof -
  note s = server_invD [OF inv] and len = slots_lengths [OF server_invD(1) [OF inv]]
  have "clientfd s ! k = - 1" using slots_flag [OF s(1) k(1)] k(2) by auto
  moreover have "clientfd s ! i \<noteq> fd" if "i < MAXCLIENT" for i using fd(2) that len(1) by (metis nth_mem)
  ultimately have "logins_ok (K - {fd}) A t"
    using s(4) len k(1) by (auto simp: logins_ok_def t(1,5) nth_list_update)
  moreover have "has_users t us" using s(2) by (simp add: has_users_def t(10,11))
  ultimately show ?thesis using s(3) slots_ok_taken [OF s(1) k fd t(1-9)] by (simp add: server_inv_def t(12))
qed

lemma take_slot_inv:
  assumes inv: "server_inv us K A s" and k: "free_slot s < MAXCLIENT" and fd: "0 < fd" "fd \<notin> set (clientfd s)"
  shows "server_inv us (K - {fd}) A (accept_client fd addr s)"
    "fd \<in> open_fds s \<Longrightarrow> server_inv us (K - {fd}) A (snd (net_server_get_client_socket fd addr s))"
  using slots_counts(2) [OF server_invD(1) [OF inv]] k
  by (intro inv_taken [OF inv k free_slot_free(1) [OF server_invD(1) [OF inv] k] fd];
      simp add: accept_client_def net_server_get_client_socket_def take_slot_def MAX_CONNECT_NUM_def Let_def insert_absorb)+

lemma accept_fails_same: "slots_ok s \<Longrightarrow> free_slot s < MAXCLIENT \<Longrightarrow> accept_fails s = s"
  using free_slot_free(2) [of s] list_update_id [of "clientfd s" "free_slot s"]
  by (simp add: accept_fails_def Let_def MAX_CONNECT_NUM_def)

lemma sessions_clear_parts [simp]:
  "sessions (clear_view idx s) = sessions s" "sessions (clear_play h idx s) = sessions s"
  by (simp_all add: clear_view_def clear_play_def Let_def)

text \<open>What \<open>clear_client\<close> does to a slot that is used.\<close>

lemma clear_client_used:
  assumes "slots_ok s" "idx < MAXCLIENT" "0 < clientfd s ! idx" "t = clear_client h idx s"
  shows "clientfd t = (clientfd s)[idx := - 1]" "client_flag t = (client_flag s)[idx := 0]"
    "length (client_send_data t) = MAXCLIENT" "close_socket_flag t = (close_socket_flag s)[idx := 0]"
    "have_check_passwd t = (have_check_passwd s)[idx := 0]" "is_super_user t = (is_super_user s)[idx := 0]"
    "open_fds t = open_fds s - {clientfd s ! idx}" "super_user_id t = - 1" "client_num t = client_num s - 1"
    "user_name t = user_name s" "user_password t = user_password s" "cipher t = cipher s"
proof -
  let ?s1 = "clear_play h idx (clear_view idx s)"
  have e: "sessions ?s1 = sessions s" by simp
  then have f: "clientfd ?s1 = clientfd s" "client_flag ?s1 = client_flag s" "close_socket_flag ?s1 = close_socket_flag s"
      "have_check_passwd ?s1 = have_check_passwd s" "is_super_user ?s1 = is_super_user s" "open_fds ?s1 = open_fds s" "super_user_id ?s1 = super_user_id s"
      "client_num ?s1 = client_num s" "user_name ?s1 = user_name s" "user_password ?s1 = user_password s" "cipher ?s1 = cipher s"
      "length (client_send_data ?s1) = length (client_send_data s)"
    by (simp_all add: sessions_def)
  note c = slots_counts [OF assms(1)] slots_lengths [OF assms(1)]
  have "{i. i < MAXCLIENT \<and> 0 < clientfd s ! i} \<noteq> {}" using assms(2,3) by auto
  then have "0 < client_num s" unfolding c(1) by (simp add: card_gt_0_iff)
  then show "clientfd t = (clientfd s)[idx := - 1]" "client_flag t = (client_flag s)[idx := 0]"
    "length (client_send_data t) = MAXCLIENT" "close_socket_flag t = (close_socket_flag s)[idx := 0]"
    "have_check_passwd t = (have_check_passwd s)[idx := 0]" "is_super_user t = (is_super_user s)[idx := 0]"
    "open_fds t = open_fds s - {clientfd s ! idx}" "super_user_id t = - 1" "client_num t = client_num s - 1"
    "user_name t = user_name s" "user_password t = user_password s" "cipher t = cipher s"
    using assms(3) c(2,6) by (auto simp: assms(4) clear_client_def clear_slot_def Let_def f)
qed

lemma inv_released:
  assumes inv: "server_inv us K A s" and k: "k < MAXCLIENT" "0 < clientfd s ! k" and A: "A \<subseteq> A'" "k \<in> A' \<or> have_check_passwd t ! k = 0"
    and t: "clientfd t = (clientfd s)[k := - 1]" "client_flag t = (client_flag s)[k := 0]" "length (client_send_data t) = MAXCLIENT"
      "close_socket_flag t = (close_socket_flag s)[k := 0]" "length (have_check_passwd t) = MAXCLIENT" "length (is_super_user t) = MAXCLIENT"
      "open_fds s - {clientfd s ! k} \<subseteq> open_fds t" "super_user_id t = - 1" "client_num t = client_num s - 1"
    and hp: "\<And>i. i \<noteq> k \<Longrightarrow> have_check_passwd t ! i = have_check_passwd s ! i"
    and u: "user_name t = user_name s" "user_password t = user_password s" "cipher t = cipher s"
  shows "server_inv us K A' t"
proof -
  note s = server_invD [OF inv] and len = slots_lengths [OF server_invD(1) [OF inv]]
  have "i \<in> A' \<or> 0 < clientfd t ! i \<and> clientfd t ! i \<in> K" if "i < MAXCLIENT" "have_check_passwd t ! i \<noteq> 0" for i
  proof (cases "i = k")
    case True
    then show ?thesis using A(2) that(2) by simp
  next
    case False
    then show ?thesis using s(4) that hp A(1) by (auto simp: logins_ok_def t(1))
  qed
  moreover have "has_users t us" using s(2) by (simp add: has_users_def u)
  ultimately show ?thesis using s(3) slots_ok_released [OF s(1) k t] by (simp add: server_inv_def logins_ok_def u(3))
qed

lemma slot_used_or_free: "server_inv us K A s \<Longrightarrow> i < MAXCLIENT \<Longrightarrow> clientfd s ! i = - 1 \<or> 0 < clientfd s ! i"
  using slots_flag [OF server_invD(1)] by blast

lemma clear_client_inv:
  assumes "server_inv us K A s" "idx < MAXCLIENT"
  shows "server_inv us K A (clear_client h idx s)"
proof (cases "clientfd s ! idx = - 1")
  case True
  then show ?thesis using assms(1) by (simp add: clear_client_def)
next
  case False
  then have p: "0 < clientfd s ! idx" using slot_used_or_free [OF assms] by simp
  note c = clear_client_used [OF server_invD(1) [OF assms(1)] assms(2) p refl, of h] and len = slots_lengths [OF server_invD(1) [OF assms(1)]]
  show ?thesis
    by (rule inv_released [OF assms(1,2) p subset_refl _ c(1-4) _ _ _ c(8,9) _ c(10-12)]) (simp_all add: c(5-7) len assms(2))
qed

lemma set_audio_inv:
  assumes "server_inv us K A s" "idx < MAXCLIENT" "0 < clientfd s ! idx"
  shows "server_inv us K (insert idx A) (set_audio_socket_mode idx s)"
proof -
  note c = slots_counts [OF server_invD(1) [OF assms(1)]] and len = slots_lengths [OF server_invD(1) [OF assms(1)]]
  show ?thesis
    by (rule inv_released [OF assms subset_insertI]) (use assms(2,3) c(2) len in
      \<open>auto simp: set_audio_socket_mode_def audio_socket_inarray_def clear_slot_def Let_def\<close>)
qed

text \<open>Whether the message that waits at slot \<open>i\<close> is a login that names a user with a fitting password.\<close>

definition waiting :: "server \<Rightarrow> nat \<Rightarrow> net_command" where
  "waiting s i = dec_net_command (take 20 (st_bytes (conn_in s (clientfd s ! i))))"

definition presents :: "(byte list \<times> byte list) list \<Rightarrow> host \<Rightarrow> server \<Rightarrow> nat \<Rightarrow> bool" where
  "presents us h s i \<longleftrightarrow> server_command (gc_command (waiting s i)) = SEND_USER_NAME_PASS \<and>
     the_user us (login_text h (waiting s i) (drop 20 (st_bytes (conn_in s (clientfd s ! i))))) < 4"

definition gives_up :: "server \<Rightarrow> nat \<Rightarrow> bool" where
  "gives_up s i \<longleftrightarrow> server_command (gc_command (waiting s i)) = COMMAND_SET_AUDIO_SOCKET"

lemma answer_login_inv:
  assumes inv: "server_inv us K A s" and idx: "idx < MAXCLIENT" "0 < clientfd s ! idx" and k: "k \<le> 4"
    and ans: "answer_login h cmd idx k s = (r, s')"
  shows "server_inv us (if k < 4 then insert (clientfd s ! idx) K else K) A s'"
proof -
  let ?K = "if k < 4 then insert (clientfd s ! idx) K else K"
  note s = server_invD [OF inv]
  obtain c s1 where ad: "admit k idx cmd s = (c, s1)" by force
  note g = admit_grants(3) [OF slots_counts(2) [OF s(1)] k ad]
  have len: "length (have_check_passwd s) = MAXCLIENT" "length (is_super_user s) = MAXCLIENT" using slots_lengths [OF s(1)] by simp_all
  have "slots_ok s1" using s(1) len by (simp add: g slots_ok_def)
  moreover have "has_users s1 us" "aes_ok (cipher s1)" using s(2,3) by (simp_all add: g has_users_def)
  moreover have "i \<in> A \<or> 0 < clientfd s1 ! i \<and> clientfd s1 ! i \<in> ?K" if "i < MAXCLIENT" "have_check_passwd s1 ! i \<noteq> 0" for i
  proof (cases "i = idx")
    case True
    then show ?thesis using that idx len s(4) k by (auto simp: g logins_ok_def granted_def split: if_splits)
  next
    case False
    then show ?thesis using that s(4) by (auto simp: g logins_ok_def split: if_splits)
  qed
  ultimately have 1: "server_inv us ?K A s1" by (simp add: server_inv_def logins_ok_def)
  obtain ret s2 where sd: "safe_socket_send_data idx (enc_net_command (c\<lparr>gc_play_fileId := H264_CODE, gc_searchDate := ho_max_chan h + MAC_MODEL\<rparr>))
      (s1\<lparr>cur_client_idx := idx\<rparr>) = (ret, s2)" by force
  have "sessions s2 = sessions s1" using sessions_send [OF sd] by simp
  then have 2: "server_inv us ?K A s2" using 1 by (rule sessions_inv)
  have "s' = s2 \<or> s' = clear_client h idx s2" using ans ad sd by (auto simp: answer_login_def split: if_splits)
  then show ?thesis using 2 clear_client_inv [OF 2 idx(1)] by metis
qed

lemma command_read:
  assumes "process_command h l idx s = Some (r, s')" "0 < clientfd s ! idx"
  shows "sessions s' = sessions s \<or>
    (\<exists>s2. sessions s2 = sessions s \<and> st_bytes (conn_in s2 (clientfd s ! idx)) = drop 20 (st_bytes (conn_in s (clientfd s ! idx))) \<and>
      run_command h l (waiting s idx) idx s2 = Some (r, s'))"
proof -
  obtain r1 cb s1 where rd: "socket_read_data (clientfd s ! idx) (replicate 20 0) 20 s = Some (r1, cb, s1)"
    using assms by (auto simp: process_command_def bind_eq_Some_conv)
  show ?thesis
  proof (cases "r1 < 0")
    case True
    then show ?thesis using assms rd sessions_read [OF rd] by (simp add: process_command_def)
  next
    case False
    then have "0 \<le> r1" by simp
    from socket_read_took [OF rd this] obtain w where
      w: "cb = take 20 (st_bytes (conn_in s (clientfd s ! idx)))" "s1 = s\<lparr>conn_in := (conn_in s)(clientfd s ! idx := w)\<rparr>"
        "st_bytes w = drop 20 (st_bytes (conn_in s (clientfd s ! idx)))" by auto
    let ?s2 = "s1\<lparr>socket_recv_num := (socket_recv_num s1)[idx := socket_recv_num s1 ! idx + 1]\<rparr>"
    have "run_command h l (waiting s idx) idx ?s2 = Some (r, s')"
      using assms rd False by (simp add: process_command_def waiting_def w(1))
    moreover have "sessions ?s2 = sessions s" "st_bytes (conn_in ?s2 (clientfd s ! idx)) = drop 20 (st_bytes (conn_in s (clientfd s ! idx)))"
      by (simp_all add: w(2,3))
    ultimately show ?thesis by blast
  qed
qed

lemma login_inv:
  assumes inv: "server_inv us K A s" and idx: "idx < MAXCLIENT" "0 < clientfd s ! idx" and h: "length (ho_tempbuf h) = 30"
    and op: "op_user_info h cmd idx s = Some (r, s')"
  shows "server_inv us (if the_user us (login_text h cmd (st_bytes (conn_in s (clientfd s ! idx)))) < 4 then insert (clientfd s ! idx) K else K) A s'"
proof -
  note s = server_invD [OF inv]
  let ?k = "the_user us (login_text h cmd (st_bytes (conn_in s (clientfd s ! idx))))"
  from op_user_info_read [OF op h s(2,3) refl] show ?thesis
  proof (elim disjE exE conjE)
    fix f assume "s' = s\<lparr>conn_in := f\<rparr>"
    then have "server_inv us K A s'" using inv by (intro sessions_inv [of s' s]) simp_all
    then show ?thesis by (rule inv_mono) auto
  next
    fix w a assume a: "aes_ok a" and ans: "(r, s') = answer_login h cmd idx ?k (s\<lparr>conn_in := (conn_in s)(clientfd s ! idx := w), cipher := a\<rparr>)"
    have "server_inv us K A (s\<lparr>conn_in := (conn_in s)(clientfd s ! idx := w), cipher := a\<rparr>)"
      using inv a by (simp add: server_inv_def slots_ok_def has_users_def logins_ok_def)
    from answer_login_inv [OF this idx(1) _ the_user_bound [OF s(2)] ans [symmetric]] idx(2) show ?thesis by (auto split: if_split_asm)
  qed
qed

lemma process_command_inv:
  assumes inv: "server_inv us K A s" and idx: "idx < MAXCLIENT" "0 < clientfd s ! idx" and h: "length (ho_tempbuf h) = 30"
    and run: "process_command h l idx s = Some (r, s')"
  shows "server_inv us (if presents us h s idx then insert (clientfd s ! idx) K else K) (if gives_up s idx then insert idx A else A) s'"
    (is "server_inv us ?K ?A s'")
proof -
  have up: "server_inv us ?K ?A t" if "server_inv us K A t" for t by (rule inv_mono [OF that]) auto
  from command_read [OF run idx(2)] show ?thesis
  proof (elim disjE exE conjE)
    assume "sessions s' = sessions s"
    then show ?thesis using inv up sessions_inv by blast
  next
    fix s2 assume s2: "sessions s2 = sessions s" "st_bytes (conn_in s2 (clientfd s ! idx)) = drop 20 (st_bytes (conn_in s (clientfd s ! idx)))"
      and c: "run_command h l (waiting s idx) idx s2 = Some (r, s')"
    have inv2: "server_inv us K A s2" using sessions_inv [OF s2(1) inv] .
    have fd: "clientfd s2 ! idx = clientfd s ! idx" using s2(1) by (simp add: sessions_def)
    then have used: "0 < clientfd s2 ! idx" using idx(2) by simp
    consider "server_command (gc_command (waiting s idx)) \<notin> session_commands" | "server_command (gc_command (waiting s idx)) = STOP_NET_CONNECT"
      | "server_command (gc_command (waiting s idx)) = SEND_USER_NAME_PASS" | "server_command (gc_command (waiting s idx)) = COMMAND_SET_AUDIO_SOCKET"
      by (auto simp: session_commands_def)
    then show ?thesis
    proof cases
      case 1
      then show ?thesis using run_command_sessions [OF c 1] sessions_inv [OF _ inv2] up by blast
    next
      case 2
      then have "sessions s' = sessions (clear_client h idx s2)" using c by (auto simp: run_command_def)
      then show ?thesis using up sessions_inv clear_client_inv [OF inv2 idx(1)] by blast
    next
      case 3
      then obtain r' where "op_user_info h (waiting s idx) idx s2 = Some (r', s')" using c by (auto simp: run_command_def if_failed_def)
      from login_inv [OF inv2 idx(1) used h this, unfolded fd s2(2)]
      have "server_inv us ?K A s'" using 3 by (simp add: presents_def)
      then show ?thesis by (rule inv_mono) auto
    next
      case 4
      then have "s' = set_audio_socket_mode idx s2" using c by (simp add: run_command_def)
      moreover have "server_inv us ?K ?A (set_audio_socket_mode idx s2)"
        by (rule inv_mono [OF set_audio_inv [OF inv2 idx(1) used]]) (use 4 in \<open>auto simp: gives_up_def\<close>)
      ultimately show ?thesis by simp
    qed
  qed
qed

lemma serve_slot_inv:
  assumes "server_inv us K A s" "idx < MAXCLIENT" "0 < clientfd s ! idx" "length (ho_tempbuf h) = 30" "serve_slot h l idx s = Some s'"
  shows "server_inv us (if presents us h s idx then insert (clientfd s ! idx) K else K) (if gives_up s idx then insert idx A else A) s'"
proof -
  obtain r s1 where p: "process_command h l idx s = Some (r, s1)" "s' = s1 \<or> s' = clear_client h idx s1"
    using assms(5) by (auto simp: serve_slot_def bind_eq_Some_conv split: if_splits)
  note i = process_command_inv [OF assms(1-4) p(1)]
  from p(2) show ?thesis using i clear_client_inv [OF i assms(2)] by metis
qed

lemma clear_all_inv: "server_inv us K A s \<Longrightarrow> server_inv us K A (clear_all h s)"
  unfolding clear_all_def by (rule fold_invariant [where Q = "\<lambda>i. i < MAXCLIENT"]) (auto intro: clear_client_inv)

lemma kick_inv:
  assumes "server_inv us K A s"
  shows "server_inv us K A (kick_normal_client h s)" "server_inv us K A (kick_all_client h s)"
proof -
  have "server_inv us K A ((start_stop_net_file_view 0 s)\<lparr>net_play_mode := 0\<rparr>)"
    by (rule sessions_inv [OF _ assms]) simp
  then show "server_inv us K A (kick_normal_client h s)" unfolding kick_normal_client_def
    by (rule fold_invariant [where Q = "\<lambda>i. i < MAXCLIENT", rotated]) (auto intro: clear_client_inv)
  have "server_inv us K A ((start_stop_net_view 0 (start_stop_net_file_view 0 s))\<lparr>net_play_mode := 0\<rparr>)"
    by (rule sessions_inv [OF _ assms]) simp
  then have "server_inv us K A (fold (\<lambda>i s. if 0 < clientfd s ! i then clear_client h i s else s) [0..<MAXCLIENT]
      ((start_stop_net_view 0 (start_stop_net_file_view 0 s))\<lparr>net_play_mode := 0\<rparr>))"
    by (rule fold_invariant [where Q = "\<lambda>i. i < MAXCLIENT", rotated]) (auto intro: clear_client_inv)
  then show "server_inv us K A (kick_all_client h s)"
    using slots_counts(2) [OF server_invD(1) [OF assms]] by (simp add: kick_all_client_def)
qed

section \<open>The sender thread keeps the slots\<close>

lemma sessions_answered: "answered idx b s = (r, s') \<Longrightarrow> sessions s' = sessions s"
  by (auto simp: answered_def Let_def split: prod.splits if_splits dest!: sessions_send)

lemma answered_inv: "server_inv us K A s \<Longrightarrow> answered idx b s = (r, s') \<Longrightarrow> server_inv us K A s'"
  using sessions_answered sessions_inv by blast

lemma answered_or_cleared_inv:
  assumes "server_inv us K A s" "idx < MAXCLIENT" "answered_or_cleared h idx b s = (r, s')"
  shows "server_inv us K A s'"
proof -
  obtain ret s1 where a: "answered idx b s = (ret, s1)" by force
  note i = answered_inv [OF assms(1) a]
  show ?thesis using assms(3) a i clear_client_inv [OF i assms(2)] by (auto simp: answered_or_cleared_def split: if_splits)
qed

lemma play_result_sessions: "send_play_file_result idx s = (r, s') \<Longrightarrow> sessions s' = sessions s"
  by (auto simp: send_play_file_result_def Let_def split: prod.splits if_splits dest!: sessions_send)

lemma send_one_info_inv:
  assumes inv: "server_inv us K A s" and idx: "idx < MAXCLIENT" and s': "send_one_info x idx s = Some s'"
  shows "server_inv us K A s'"
proof -
  define s1 where "s1 = (if info_cmd_to_send s ! idx \<noteq> 0 then s\<lparr>socket_send_num := (socket_send_num s)[idx := socket_send_num s ! idx + 1]\<rparr> else s)"
  have "sessions s1 = sessions s" by (simp add: s1_def sessions_def)
  then have i1: "server_inv us K A s1" using inv by (rule sessions_inv)
  have "s' = s1 \<or> (\<exists>b r. answered_or_cleared (sh_host x) idx b s1 = (r, s')) \<or> (\<exists>b r. answered idx b s1 = (r, s')) \<or>
      (\<exists>r. send_play_file_result idx s1 = (r, s'))"
    using s' unfolding send_one_info_def s1_def [symmetric] Let_def
    by (auto simp: send_disk_info_def send_led_info_def send_file_list_def send_dvr_mac_para_def send_gui_msg_def send_max_video_size_def
        Let_def bind_eq_Some_conv split: if_splits prod.splits) (metis prod.collapse)+
  then show ?thesis
    using i1 answered_or_cleared_inv [OF i1 idx] answered_inv [OF i1] sessions_inv [OF play_result_sessions i1] by blast
qed

lemma send_infos_inv:
  "server_inv us K A s \<Longrightarrow> \<forall>i \<in> set is. i < MAXCLIENT \<Longrightarrow> send_infos x is s = Some s' \<Longrightarrow> server_inv us K A s'"
  by (induction "is" arbitrary: s) (auto simp: bind_eq_Some_conv dest: send_one_info_inv)

lemma send_viewers_inv:
  "server_inv us K A s \<Longrightarrow> \<forall>i \<in> set is. i < MAXCLIENT \<Longrightarrow> send_viewers x hdr frame pos is b s = Some (r, b', s') \<Longrightarrow> server_inv us K A s'"
proof (induction "is" arbitrary: pos b s)
  case (Cons i "is")
  show ?case
  proof (cases "client_send_data s ! i = 0")
    case True
    then show ?thesis using Cons by simp
  next
    case False
    let ?s1 = "s\<lparr>socket_send_num := (socket_send_num s)[i := socket_send_num s ! i + 1], cur_client_idx := i\<rparr>"
    let ?pos = "pos + 56 + length frame"
    from Cons.prems(3) False obtain buf c where eq: "(let (ret, s2) = safe_socket_send_data i buf ?s1
        in if ret \<le> 0 then Some (SOCKET_SEND_ERROR, c, clear_client (sh_host x) i s2) else send_viewers x hdr frame ?pos is c s2) = Some (r, b', s')"
      by (auto simp: bind_eq_Some_conv Let_def)
    obtain ret s2 where sd: "safe_socket_send_data i buf ?s1 = (ret, s2)" by force
    have rest: "s' = clear_client (sh_host x) i s2 \<or> send_viewers x hdr frame ?pos is c s2 = Some (r, b', s')"
      using eq sd by (auto split: if_splits)
    have "sessions s2 = sessions s" using sessions_send [OF sd] by (simp add: sessions_def)
    then have i2: "server_inv us K A s2" using Cons.prems(1) by (rule sessions_inv)
    then show ?thesis using rest clear_client_inv [OF i2] Cons.IH [OF i2] Cons.prems(2) by auto
  qed
qed simp

lemma stop_viewers_inv:
  "server_inv us K A (snd p) \<Longrightarrow> \<forall>i \<in> set is. i < MAXCLIENT \<Longrightarrow> stop_viewers x is p = (r, n, s') \<Longrightarrow> server_inv us K A s'"
proof (induction "is" arbitrary: p)
  case (Cons i "is")
  obtain n0 s where p: "p = (n0, s)" by (cases p)
  show ?case
  proof (cases "client_send_data s ! i = 0")
    case True
    then show ?thesis using Cons.prems Cons.IH [of "(n0, s)"] p by simp
  next
    case False
    let ?s1 = "start_stop_net_file_view 0 (s\<lparr>net_play_mode := 0, client_send_data := (client_send_data s)[i := 0]\<rparr>)"
    obtain ret s2 where sd: "safe_socket_send_data i (enc_net_command ((sh_cmd x)\<lparr>gc_command := PLAY_STOP\<rparr>)) ?s1 = (ret, s2)" by force
    have "sessions s2 = sessions s" using sessions_send [OF sd] by (simp add: sessions_def start_stop_net_file_view_def)
    then have i2: "server_inv us K A s2" using sessions_inv Cons.prems(1) p by simp
    have "s' = clear_client (sh_host x) i s2 \<or> stop_viewers x is (0, s2) = (r, n, s')"
      using Cons.prems(3) False sd p by (auto simp: Let_def split: if_splits)
    then show ?thesis using clear_client_inv [OF i2] Cons.IH [of "(0, s2)"] i2 Cons.prems(2) by auto
  qed
qed simp

lemma net_send_round_inv:
  assumes inv: "server_inv us K A (sd_server d)" and r: "net_send_round x y z hdr0 d = Some d'"
  shows "server_inv us K A (sd_server d')"
proof (cases "is_have_client (sd_server d) = 1")
  case False
  then show ?thesis using assms by (simp add: net_send_round_def)
next
  case True
  then obtain s1 ret d2 where s1: "send_other_info_data x (sd_server d) = Some s1"
      and d2: "send_img_data y hdr0 (d\<lparr>sd_server := s1\<rparr>) = Some (ret, d2)" and d': "d' = snd (check_play_status z d2)"
    using r by (auto simp: net_send_round_def bind_eq_Some_conv)
  have i1: "server_inv us K A s1" using send_infos_inv [OF inv _ s1 [unfolded send_other_info_data_def]] by simp
  obtain got d1 where g: "get_net_buf_info hdr0 (d\<lparr>sd_server := s1\<rparr>) = Some (got, d1)"
    using d2 by (auto simp: send_img_data_def bind_eq_Some_conv)
  have d1: "sd_server d1 = s1" using g by (auto simp: get_net_buf_info_def bind_eq_Some_conv Let_def split: if_splits)
  have i2: "server_inv us K A (sd_server d2)"
  proof (cases got)
    case False
    then show ?thesis using d2 g i1 d1 by (simp add: send_img_data_def)
  next
    case True
    then obtain hdr frame r2 data1 s where "send_viewers y hdr frame 0 [0..<MAXCLIENT] (sd_data1 d1) (sd_server d1) = Some (r2, data1, s)" "sd_server d2 = s"
      using d2 g by (auto simp: send_img_data_def bind_eq_Some_conv Let_def)
    moreover from send_viewers_inv [OF _ _ this(1)] i1 d1 have "server_inv us K A s" by simp
    ultimately show ?thesis by simp
  qed
  have i3: "server_inv us K A (do_call (FTC_AudioPlayCam (- 1)) (do_call FTC_StopPlay (sd_server d2)))"
    by (rule sessions_inv [OF _ i2]) simp
  show ?thesis
    using i2 stop_viewers_inv [of us K A "(1, do_call (FTC_AudioPlayCam (- 1)) (do_call FTC_StopPlay (sd_server d2)))" "[0..<MAXCLIENT]" z] i3
    by (auto simp: d' check_play_status_def Let_def split: prod.splits)
qed

section \<open>Runs\<close>

text \<open>How \<open>net_server_process\<close> begins, with the listening socket, and how it ends.\<close>

definition server_begin :: "int \<Rightarrow> server \<Rightarrow> server" where
  "server_begin fd s = s\<lparr>listenfd := fd, super_user_id := - 1, clientfd := replicate MAXCLIENT (- 1), client_flag := replicate MAXCLIENT 0,
     client_send_data := replicate MAXCLIENT 0, info_cmd_to_send := replicate MAXCLIENT 0, send_flag := replicate MAXCLIENT 0,
     close_socket_flag := replicate MAXCLIENT 0, maxfd := fd\<rparr>"

definition server_end :: "host \<Rightarrow> server \<Rightarrow> server" where
  "server_end h s =
     (let s1 = clear_all h s
      in s1\<lparr>open_fds := (if listenfd s1 > 0 then open_fds s1 - {listenfd s1} else open_fds s1), listenfd := - 1\<rparr>)"

text \<open>Before the first start: what the static \<open>socket_ctrl\<close> and \<open>create_net_server_thread\<close> give.\<close>

definition before_server :: "(byte list \<times> byte list) list \<Rightarrow> server \<Rightarrow> bool" where
  "before_server us s \<longleftrightarrow> client_num s = 0 \<and> have_check_passwd s = replicate MAXCLIENT 0 \<and> is_super_user s = replicate MAXCLIENT 0 \<and>
     has_users s us \<and> aes_ok (cipher s)"

text \<open>
  The states a server with room for its connections can reach. \<open>K\<close> collects the connections that presented a name with its
  password since they were accepted, \<open>A\<close> the slots whose socket was given up to the sound.
\<close>

inductive server_run :: "(byte list \<times> byte list) list \<Rightarrow> server \<Rightarrow> server \<Rightarrow> int set \<Rightarrow> nat set \<Rightarrow> bool" for us s0 where
  run_begin: "server_run us s0 (server_begin fd s0) {} {}"
| run_accept: "server_run us s0 s K A \<Longrightarrow> 0 < fd \<Longrightarrow> fd \<notin> open_fds s \<Longrightarrow> free_slot s < MAXCLIENT \<Longrightarrow>
    server_run us s0 (accept_client fd addr s) (K - {fd}) A"
| run_accept_fails: "server_run us s0 s K A \<Longrightarrow> free_slot s < MAXCLIENT \<Longrightarrow> server_run us s0 (accept_fails s) K A"
| run_handed: "server_run us s0 s K A \<Longrightarrow> 0 < fd \<Longrightarrow> fd \<in> open_fds s \<Longrightarrow> fd \<notin> set (clientfd s) \<Longrightarrow> free_slot s < MAXCLIENT \<Longrightarrow>
    server_run us s0 (snd (net_server_get_client_socket fd addr s)) (K - {fd}) A"
| run_serve: "server_run us s0 s K A \<Longrightarrow> i < MAXCLIENT \<Longrightarrow> clientfd s ! i \<noteq> - 1 \<Longrightarrow> length (ho_tempbuf h) = 30 \<Longrightarrow>
    serve_slot h l i s = Some s' \<Longrightarrow>
    server_run us s0 s' (if presents us h s i then insert (clientfd s ! i) K else K) (if gives_up s i then insert i A else A)"
| run_clear_all: "server_run us s0 s K A \<Longrightarrow> server_run us s0 ((clear_all h s)\<lparr>close_all_socket := 0\<rparr>) K A"
| run_kick_all: "server_run us s0 s K A \<Longrightarrow> server_run us s0 (kick_all_client h s) K A"
| run_kick_normal: "server_run us s0 s K A \<Longrightarrow> server_run us s0 (kick_normal_client h s) K A"
| run_send: "server_run us s0 (sd_server d) K A \<Longrightarrow> net_send_round x y z hdr0 d = Some d' \<Longrightarrow> server_run us s0 (sd_server d') K A"

lemma begin_inv: "before_server us s \<Longrightarrow> server_inv us {} {} (server_begin fd s)"
  by (auto simp: before_server_def server_begin_def server_inv_def has_users_def logins_ok_def intro!: slots_okI)

lemma fresh_fd:
  assumes "slots_ok s" "0 < fd" "fd \<notin> open_fds s"
  shows "fd \<notin> set (clientfd s)"
proof
  assume "fd \<in> set (clientfd s)"
  then obtain i where "i < MAXCLIENT" "clientfd s ! i = fd" using slots_lengths(1) [OF assms(1)] by (auto simp: in_set_conv_nth)
  then show False using slots_flag [OF assms(1), of i] assms(2,3) by auto
qed

lemma run_inv:
  assumes "before_server us s0"
  shows "server_run us s0 s K A \<Longrightarrow> server_inv us K A s"
proof (induction rule: server_run.induct)
  case (run_begin fd)
  show ?case using assms by (rule begin_inv)
next
  case (run_accept s K A fd addr)
  then show ?case using take_slot_inv(1) fresh_fd server_invD(1) by blast
next
  case (run_accept_fails s K A)
  then show ?case using accept_fails_same server_invD(1) by metis
next
  case (run_handed s K A fd addr)
  then show ?case using take_slot_inv(2) by blast
next
  case (run_serve s K A i h l s')
  then have "0 < clientfd s ! i" using slot_used_or_free by blast
  then show ?case using run_serve serve_slot_inv by blast
next
  case (run_clear_all s K A h)
  show ?case using sessions_inv [OF _ clear_all_inv [OF run_clear_all.IH]] by simp
next
  case (run_send d K A x y z hdr0 d')
  then show ?case using net_send_round_inv by blast
qed (simp_all add: kick_inv)

lemma serve_slots_run:
  assumes "before_server us s0" "\<forall>i. length (ho_tempbuf (fst (env i))) = 30"
  shows "server_run us s0 s K A \<Longrightarrow> serve_slots env ready is s = Some s' \<Longrightarrow> \<exists>K' A'. server_run us s0 s' K' A'"
proof (induction "is" arbitrary: s K A)
  case (Cons i "is")
  show ?case
  proof (cases "i < MAXCLIENT \<and> clientfd s ! i \<noteq> - 1 \<and> clientfd s ! i \<in> ready")
    case True
    then obtain s1 where s1: "serve_slot (fst (env i)) (snd (env i)) i s = Some s1" "serve_slots env ready is s1 = Some s'"
      using Cons.prems(2) by (auto simp: bind_eq_Some_conv)
    obtain K' A' where "server_run us s0 s1 K' A'" using run_serve [OF Cons.prems(1) _ _ _ s1(1)] True assms(2) by blast
    then show ?thesis using Cons.IH s1(2) by blast
  next
    case False
    then have "serve_slots env ready is s = Some s'" using Cons.prems(2) by (auto split: if_splits)
    then show ?thesis using Cons.IH [OF Cons.prems(1)] by blast
  qed
qed auto

lemma free_slot_first:
  assumes "length (client_flag s) = MAXCLIENT" "i < MAXCLIENT" "client_flag s ! i = 0" "\<forall>j < i. client_flag s ! j \<noteq> 0"
  shows "free_slot s = i"
proof -
  have "takeWhile (\<lambda>f. f \<noteq> 0) (client_flag s) = take i (client_flag s)" using assms by (intro takeWhile_eq_take_P_nth) simp_all
  then show ?thesis using assms(1,2) by (simp add: free_slot_def)
qed

text \<open>A round of the server loop is a sequence of these steps, whatever \<open>select\<close> reports and the commands do: at most one
  connection is accepted, each slot that is ready is served once, in order, and all are closed at the end when that was asked for.\<close>

lemma round_is_a_run:
  assumes "before_server us s0" "server_run us s0 s K A" "\<forall>i. length (ho_tempbuf (fst (env i))) = 30"
    and "case incoming of None \<Rightarrow> True | Some (r, addr) \<Rightarrow> free_slot s < MAXCLIENT \<and> (case r of None \<Rightarrow> True | Some fd \<Rightarrow> 0 < fd \<and> fd \<notin> open_fds s)"
    and "server_round env incoming ready s = Some s'"
  shows "\<exists>K' A'. server_run us s0 s' K' A'"
proof -
  define s1 where "s1 = (case incoming of None \<Rightarrow> s | Some (None, _) \<Rightarrow> accept_fails s | Some (Some fd, addr) \<Rightarrow> accept_client fd addr s)"
  have "\<exists>K A. server_run us s0 s1 K A"
    using assms(2,4) run_accept [OF assms(2)] run_accept_fails [OF assms(2)] by (fastforce simp: s1_def split: option.splits prod.splits)
  moreover obtain s2 where s2: "serve_slots env ready [0..<MAX_CONNECT_NUM] s1 = Some s2"
      "s' = (if close_all_socket s2 = 9999 then (clear_all (fst (env 0)) s2)\<lparr>close_all_socket := 0\<rparr> else s2)"
    using assms(5) by (auto simp: server_round_def s1_def bind_eq_Some_conv Let_def)
  ultimately obtain K' A' where "server_run us s0 s2 K' A'" using serve_slots_run [OF assms(1,3)] by blast
  then show ?thesis using s2(2) run_clear_all [of us s0 s2 K' A'] by (cases "close_all_socket s2 = 9999") auto
qed

section \<open>Properties\<close>



text \<open>C35: Any peer runs commands on the camera. A connection that has not logged in sends \<open>EXECUTE_SHELL_FILE\<close> with a text of at most
  255 bytes, and the text is handed to the shell: the command is not refused for want of a password, and the session is as before.\<close>

theorem shell_without_login:
  assumes "clientfd s ! i = fd" "0 < fd" "list_all (\<lambda>a. 0 < a) (st_recvs (conn_in s fd))"
    and "st_bytes (conn_in s fd) = enc_net_command cmd @ name @ 0 # rest" "server_command (gc_command cmd) = EXECUTE_SHELL_FILE"
    and "0 \<notin> set name" "length name < 256" "sint (gc_length cmd) = int (length name) + 1" "have_check_passwd s ! i = 0"
  shows "\<exists>s'. serve_slot h l i s = Some s' \<and> calls s' = calls s @ [Command_drv name] \<and> st_bytes (conn_in s' fd) = rest \<and> sessions s' = sessions s"
proof -
  obtain w where w: "st_bytes w = name @ 0 # rest" "list_all (\<lambda>a. 0 < a) (st_recvs w)" and run: "process_command h l i s = run_command h l cmd i
      (s\<lparr>conn_in := (conn_in s)(fd := w), socket_recv_num := (socket_recv_num s)[i := socket_recv_num s ! i + 1]\<rparr>)"
    using command_runs [OF assms(1-4)] by blast
  let ?s = "s\<lparr>conn_in := (conn_in s)(fd := w), socket_recv_num := (socket_recv_num s)[i := socket_recv_num s ! i + 1]\<rparr>"
  let ?b = "(name @ [0]) @ drop (nat (sint (gc_length cmd))) (replicate 256 (0 :: byte))"
  have n: "nat (sint (gc_length cmd)) = Suc (length name)" unfolding assms(8) by (simp add: nat_add_distrib)
  obtain v where v: "socket_read_data fd (replicate 256 0) (sint (gc_length cmd)) ?s = Some (1, ?b, ?s\<lparr>conn_in := (conn_in ?s)(fd := v)\<rparr>)"
      "st_bytes v = rest"
    using socket_read_all [OF assms(2), of ?s "name @ [0]" rest "sint (gc_length cmd)" "replicate 256 0"] w assms(7) n by auto
  have "b_str ?b = Some name" using takeWhile_prefix [OF assms(6)] by (simp add: b_str_def)
  then have "execute_shell_file cmd i ?s = Some (1, do_call (Command_drv name) (?s\<lparr>conn_in := (conn_in ?s)(fd := v)\<rparr>))"
    using v(1) assms(1) by (simp add: execute_shell_file_def)
  then have "serve_slot h l i s = Some (do_call (Command_drv name) (?s\<lparr>conn_in := (conn_in ?s)(fd := v)\<rparr>))"
    using run assms(5) by (simp add: serve_slot_def run_command_def if_failed_def)
  then show ?thesis using v(2) by (simp add: do_call_def sessions_def)
qed

text \<open>C36: A login can be inherited. A logged-in connection that gives its socket up for sound with \<open>COMMAND_SET_AUDIO_SOCKET\<close> leaves
  its slot free but still marked; when the slots before it are used, the next connection that is accepted gets the slot, and is
  logged in with the same rights although it has sent nothing.\<close>

theorem audio_socket_keeps_login:
  assumes "slots_ok s" "i < MAXCLIENT" "clientfd s ! i = fd" "0 < fd" "list_all (\<lambda>a. 0 < a) (st_recvs (conn_in s fd))"
    and "st_bytes (conn_in s fd) = enc_net_command cmd @ rest" "server_command (gc_command cmd) = COMMAND_SET_AUDIO_SOCKET"
    and "\<forall>j < i. client_flag s ! j = 1"
  shows "\<exists>s1. serve_slot h l i s = Some s1 \<and> clientfd s1 ! i = - 1 \<and> client_num s1 = client_num s - 1 \<and>
    clientfd (accept_client new addr s1) ! i = new \<and> have_check_passwd (accept_client new addr s1) ! i = have_check_passwd s ! i \<and>
    is_super_user (accept_client new addr s1) ! i = is_super_user s ! i"
proof -
  obtain w where run: "process_command h l i s = run_command h l cmd i
      (s\<lparr>conn_in := (conn_in s)(fd := w), socket_recv_num := (socket_recv_num s)[i := socket_recv_num s ! i + 1]\<rparr>)"
    using command_runs [OF assms(3-6)] by blast
  let ?s = "s\<lparr>conn_in := (conn_in s)(fd := w), socket_recv_num := (socket_recv_num s)[i := socket_recv_num s ! i + 1]\<rparr>"
  define s1 where "s1 = set_audio_socket_mode i ?s"
  note len = slots_lengths [OF assms(1)]
  have s1: "clientfd s1 = (clientfd s)[i := - 1]" "client_flag s1 = (client_flag s)[i := 0]" "client_num s1 = client_num s - 1"
      "have_check_passwd s1 = have_check_passwd s" "is_super_user s1 = is_super_user s"
    using assms(3,4) by (simp_all add: s1_def set_audio_socket_mode_def audio_socket_inarray_def clear_slot_def Let_def)
  have f: "free_slot s1 = i" using assms(2,8) len by (intro free_slot_first) (simp_all add: s1)
  have "serve_slot h l i s = Some s1" using run assms(7) by (simp add: serve_slot_def run_command_def s1_def)
  moreover have "clientfd (accept_client new addr s1) = (clientfd s)[i := new]" "have_check_passwd (accept_client new addr s1) = have_check_passwd s"
      "is_super_user (accept_client new addr s1) = is_super_user s"
    using assms(2) f by (simp_all add: accept_client_def take_slot_def MAX_CONNECT_NUM_def Let_def s1)
  ultimately show ?thesis using assms(2) len s1 by simp
qed

text \<open>C37: The eighteenth connection. When all 17 slots are used a connection is not turned away, since \<open>MAX_CONNECT_NUM\<close> is 18: its
  descriptor is written behind \<open>clientfd\<close>, into \<open>client_flag[0]\<close>, its mark into \<open>client_send_data[0]\<close>, and its address over the play mode, the
  transfer mode and the rates. It has no slot, so it is never read, it is told nothing and stays open, and the count stays 17.\<close>

theorem eighteenth_connection:
  assumes "slots_ok s" "client_num s = int MAXCLIENT" "0 < fd" "fd \<notin> open_fds s" "t = accept_client fd addr s"
  shows "client_flag t = (client_flag s)[0 := fd] \<and> client_send_data t = (client_send_data s)[0 := 1] \<and>
    net_play_mode t = addr ! 0 \<and> net_trans_mode t = addr ! 1 \<and> bit_stream t = addr ! 2 \<and> frame_rate t = addr ! 3 \<and>
    fd \<notin> set (clientfd t) \<and> conn_out t = conn_out s \<and> fd \<in> open_fds t \<and> client_num t = int MAXCLIENT"
proof -
  have "free_slot s = MAXCLIENT" using free_slot_full [OF assms(1)] assms(2) by simp
  moreover have "fd \<notin> set (clientfd s)" by (rule fresh_fd [OF assms(1,3,4)])
  ultimately show ?thesis using assms(2) by (simp add: assms(5) accept_client_def take_slot_def MAX_CONNECT_NUM_def MAXCLIENT_def Let_def)
qed

section \<open>The server tried\<close>

lemma demo_before: "before_server demo_users (demo_server b)"
  by (simp add: before_server_def has_users_def demo_users_def demo_server_def field_def short_string_def aes_ok_start)

lemma demo_accepted:
  assumes "s = accept_client 5 [] (server_begin 3 (demo_server (\<lambda>_. b)))"
  shows "server_run demo_users (demo_server (\<lambda>_. b)) s {} {}" "clientfd s ! 0 = 5" "have_check_passwd s = replicate 17 0" "is_super_user s = replicate 17 0"
    "conn_in s 5 = \<lparr>st_bytes = b, st_sends = [], st_recvs = []\<rparr>" "conn_out s 5 = \<lparr>st_bytes = [], st_sends = [], st_recvs = []\<rparr>" "client_flag s ! 0 = 1"
    "calls s = []" "client_num s = 1" "has_users s demo_users"
proof -
  have f: "free_slot (server_begin 3 (demo_server (\<lambda>_. b))) = 0"
    by (rule free_slot_first) (simp_all add: server_begin_def MAXCLIENT_def)
  show r: "server_run demo_users (demo_server (\<lambda>_. b)) s {} {}"
    using run_accept [OF run_begin, of 5 3 "demo_server (\<lambda>_. b)" demo_users "[]"] f
    by (simp add: assms MAXCLIENT_def server_begin_def demo_server_def)
  show "clientfd s ! 0 = 5" "have_check_passwd s = replicate 17 0" "is_super_user s = replicate 17 0"
    "conn_in s 5 = \<lparr>st_bytes = b, st_sends = [], st_recvs = []\<rparr>" "conn_out s 5 = \<lparr>st_bytes = [], st_sends = [], st_recvs = []\<rparr>" "client_flag s ! 0 = 1"
    "calls s = []" "client_num s = 1"
    using f by (simp_all add: assms accept_client_def take_slot_def MAX_CONNECT_NUM_def MAXCLIENT_def Let_def server_begin_def demo_server_def)
  show "has_users s demo_users" by (rule server_invD(2) [OF run_inv [OF demo_before r]])
qed



definition demo_shell :: net_command where
  "demo_shell = \<lparr>gc_command = 21, gc_length = 3, gc_page = 0, gc_play_fileId = 0, gc_searchDate = 0\<rparr>"

theorem shell_without_login_witness:
  "\<exists>s'. serve_slot demo_host 0 0 (demo_session (enc_net_command demo_shell @ [108, 115] @ 0 # [])) = Some s' \<and> calls s' = [Command_drv [108, 115]]"
  using shell_without_login [of "demo_session (enc_net_command demo_shell @ [108, 115] @ 0 # [])" 0 5 demo_shell "[108, 115]" "[]" demo_host 0]
  by (auto simp: demo_session_def demo_server_def demo_shell_def server_command_def MAXCLIENT_def)

definition demo_audio :: net_command where
  "demo_audio = \<lparr>gc_command = 38, gc_length = 0, gc_page = 0, gc_play_fileId = 0, gc_searchDate = 0\<rparr>"

theorem audio_socket_keeps_login_witness:
  "\<exists>s1. serve_slot demo_host 0 0 ((demo_session (enc_net_command demo_audio @ []))\<lparr>have_check_passwd := replicate 17 1\<rparr>) = Some s1 \<and>
    clientfd (accept_client 6 [] s1) ! 0 = 6 \<and> have_check_passwd (accept_client 6 [] s1) ! 0 = 1"
proof -
  let ?s = "(demo_session (enc_net_command demo_audio @ []))\<lparr>have_check_passwd := replicate 17 1\<rparr>"
  have "slots_ok ?s" using demo_session_ok(1) by (simp add: slots_ok_def MAXCLIENT_def)
  from audio_socket_keeps_login [OF this, of 0 5 demo_audio "[]" demo_host 0 6 "[]"] show ?thesis
    by (auto simp: demo_session_def demo_server_def demo_audio_def server_command_def MAXCLIENT_def)
qed

text \<open>Seventeen connections.\<close>

definition full_server :: server where
  "full_server = (demo_server (\<lambda>_. []))\<lparr>clientfd := map int [1..<18], client_flag := replicate 17 1, client_num := 17, open_fds := {1..17}\<rparr>"

lemma full_server_ok: "slots_ok full_server"
proof -
  have "{i. i < 17 \<and> 0 < clientfd full_server ! i} = {..<17}" by (auto simp: full_server_def)
  then show ?thesis by (intro slots_okI) (auto simp: full_server_def demo_server_def MAXCLIENT_def simp del: upt_rec_numeral)
qed

theorem eighteenth_connection_witness:
  "client_flag (accept_client 18 [1, 2, 3, 4] full_server) ! 0 = 18 \<and> frame_rate (accept_client 18 [1, 2, 3, 4] full_server) = 4"
  using eighteenth_connection [OF full_server_ok _ _ _ refl, of 18 "[1, 2, 3, 4]"] by (auto simp: full_server_def MAXCLIENT_def)

end
