(* ===== verification/Net_Watch.thy ===== *)
theory Net_Watch
  imports Net_Server
begin

text \<open>
  What the viewers of \<open>src/FileSystem/avicodelib/netserver.c\<close> are sent: the frames of \<open>send_img_data\<close>, and the end of a
  played file.
\<close>

section \<open>One message after the other\<close>

lemma put_message_fits:
  assumes "take pos b = p" "length p = pos" "length cmd = 20" "length hdr = 36" "pos + 56 + length frame \<le> length b"
  shows "\<exists>c. put_message b pos cmd hdr frame = Some (c, p @ cmd @ hdr @ frame) \<and> length c = length b \<and>
    take (pos + 56 + length frame) c = p @ cmd @ hdr @ frame"
proof -
  let ?a = "p @ cmd @ drop (pos + 20) b"
  let ?b = "p @ cmd @ hdr @ drop (pos + 56) b"
  let ?c = "p @ cmd @ hdr @ frame @ drop (pos + 56 + length frame) b"
  have "mem_write b pos cmd = Some ?a" using assms by (simp add: mem_write_def)
  moreover have "mem_write ?a (pos + 20) hdr = Some ?b" using assms by (simp add: mem_write_def add.commute)
  moreover have "mem_write ?b (pos + 56) frame = Some ?c" using assms by (simp add: mem_write_def add.commute)
  moreover have "mem_read ?c 0 (pos + 56 + length frame) = Some (p @ cmd @ hdr @ frame)" using assms by (simp add: mem_read_def)
  ultimately show ?thesis using assms by (intro exI [of _ ?c]) (simp add: put_message_def)
qed

lemma put_message_overruns:
  assumes "length cmd = 20" "length hdr = 36" "length b < pos + 56 + length frame"
  shows "put_message b pos cmd hdr frame = None"
proof (rule ccontr)
  assume "put_message b pos cmd hdr frame \<noteq> None"
  then obtain a b1 c where w: "mem_write b pos cmd = Some a" "mem_write a (pos + 20) hdr = Some b1" "mem_write b1 (pos + 56) frame = Some c"
    by (auto simp: put_message_def bind_eq_Some_conv)
  have "pos + 56 + length frame \<le> length b1" using w(3) by (auto simp: mem_write_def split: if_splits)
  also have "length b1 = length b" using mem_write_length [OF w(1)] mem_write_length [OF w(2)] by simp
  finally show False using assms(3) by simp
qed

text \<open>Sockets that take all they are given, of slots that are not being closed.\<close>

definition sends_to :: "nat list \<Rightarrow> server \<Rightarrow> bool" where
  "sends_to V s \<longleftrightarrow> (\<forall>i \<in> set V. 0 < clientfd s ! i \<and> close_socket_flag s ! i = 0 \<and> list_all (\<lambda>a. 0 < a) (st_sends (conn_out s (clientfd s ! i)))) \<and>
     distinct (map (\<lambda>i. clientfd s ! i) V)"

definition viewers :: "nat list \<Rightarrow> server \<Rightarrow> nat list" where
  "viewers is s = filter (\<lambda>i. client_send_data s ! i \<noteq> 0) is"

definition copies :: "nat \<Rightarrow> byte list \<Rightarrow> byte list" where "copies n m = concat (replicate n m)"

lemma copies_simps: "copies 0 m = []" "copies (Suc n) m = copies n m @ m" "length (copies n m) = n * length m"
  by (simp_all add: copies_def replicate_append_same [symmetric] length_concat sum_list_replicate)

lemma send_viewers_copies:
  assumes "m = enc_net_command ((sh_cmd x)\<lparr>gc_command := COMMAND_GET_FRAME\<rparr>) @ hdr @ frame" "length hdr = 36"
  shows "take (n * length m) b = copies n m \<Longrightarrow> n * length m \<le> length b \<Longrightarrow> sends_to (viewers is s) s \<Longrightarrow>
    (if (n + length (viewers is s)) * length m \<le> length b
     then \<exists>c s'. send_viewers x hdr frame (n * length m) is b s = Some (1, c, s') \<and> length c = length b \<and>
        (\<forall>k < length (viewers is s). st_bytes (conn_out s' (clientfd s ! (viewers is s ! k))) =
           st_bytes (conn_out s (clientfd s ! (viewers is s ! k))) @ copies (n + Suc k) m) \<and>
        (\<forall>fd. fd \<notin> (\<lambda>i. clientfd s ! i) ` set (viewers is s) \<longrightarrow> conn_out s' fd = conn_out s fd)
     else send_viewers x hdr frame (n * length m) is b s = None)"
proof (induction "is" arbitrary: n b s)
  case Nil
  then show ?case by (auto simp: viewers_def)
next
  case (Cons i "is")
  have lm: "length m = 56 + length frame" using assms by simp
  show ?case
  proof (cases "client_send_data s ! i = 0")
    case True
    then have V: "viewers (i # is) s = viewers is s" by (simp add: viewers_def)
    have e: "send_viewers x hdr frame (n * length m) (i # is) b s = send_viewers x hdr frame (n * length m) is b s" using True by simp
    have "sends_to (viewers is s) s" using Cons.prems(3) V by simp
    from Cons.IH [OF Cons.prems(1,2) this] show ?thesis unfolding V e .
  next
    case False
    let ?fd = "clientfd s ! i" and ?V = "viewers is s"
    let ?s1 = "s\<lparr>socket_send_num := (socket_send_num s)[i := socket_send_num s ! i + 1], cur_client_idx := i\<rparr>"
    let ?cmd = "enc_net_command ((sh_cmd x)\<lparr>gc_command := COMMAND_GET_FRAME\<rparr>)"
    have V: "viewers (i # is) s = i # ?V" using False by (simp add: viewers_def)
    have st: "0 < ?fd" "close_socket_flag s ! i = 0" "list_all (\<lambda>a. 0 < a) (st_sends (conn_out s ?fd))" "?fd \<notin> (\<lambda>i. clientfd s ! i) ` set ?V"
      "sends_to ?V s"
      using Cons.prems(3) by (auto simp: V sends_to_def)
    show ?thesis
    proof (cases "(n + 1) * length m \<le> length b")
      case over: False
      then have "put_message b (n * length m) ?cmd hdr frame = None"
        using put_message_overruns [of ?cmd hdr b "n * length m" frame] assms(2) lm by simp
      then have "send_viewers x hdr frame (n * length m) (i # is) b s = None" using False by simp
      moreover have "\<not> (n + length (viewers (i # is) s)) * length m \<le> length b"
        using over order_trans [OF mult_le_mono1, of "n + 1" "n + length (viewers (i # is) s)" "length m" "length b"] V by auto
      ultimately show ?thesis by simp
    next
      case fit: True
      then have "n * length m + 56 + length frame \<le> length b" using lm by simp
      from put_message_fits [OF Cons.prems(1) copies_simps(3) _ assms(2) this, of ?cmd] obtain c where
        c: "put_message b (n * length m) ?cmd hdr frame = Some (c, copies (Suc n) m)" "length c = length b"
          "take (Suc n * length m) c = copies (Suc n) m"
        using lm by (auto simp: copies_simps(2) assms(1) algebra_simps)
      obtain w where w: "safe_socket_send_data i (copies (Suc n) m) ?s1 = (1, ?s1\<lparr>conn_out := (conn_out s)(?fd := w)\<rparr>)"
          "st_bytes w = st_bytes (conn_out s ?fd) @ copies (Suc n) m"
        using send_all [of ?fd ?s1 i "copies (Suc n) m"] st by auto
      let ?s2 = "?s1\<lparr>conn_out := (conn_out s)(?fd := w)\<rparr>"
      have step: "send_viewers x hdr frame (n * length m) (i # is) b s = send_viewers x hdr frame (Suc n * length m) is c ?s2"
        using False c(1) w(1) lm by (simp add: algebra_simps)
      have V2: "viewers is ?s2 = ?V" by (simp add: viewers_def)
      have "clientfd s ! j \<noteq> ?fd" if "j \<in> set ?V" for j using st(4) that by (metis image_eqI)
      then have s2: "sends_to ?V ?s2" using st(5) by (auto simp: sends_to_def)
      have "Suc n * length m \<le> length c" using fit c(2) by simp
      note IH = Cons.IH [OF c(3) this, of ?s2, unfolded V2, OF s2]
      show ?thesis
      proof (cases "(n + length (viewers (i # is) s)) * length m \<le> length b")
        case False
        then show ?thesis using IH step V c(2) by simp
      next
        case True
        then obtain c' s' where r: "send_viewers x hdr frame (Suc n * length m) is c ?s2 = Some (1, c', s')" "length c' = length b"
            "\<forall>k < length ?V. st_bytes (conn_out s' (clientfd s ! (?V ! k))) = st_bytes (conn_out ?s2 (clientfd s ! (?V ! k))) @ copies (Suc n + Suc k) m"
            "\<forall>fd. fd \<notin> (\<lambda>i. clientfd s ! i) ` set ?V \<longrightarrow> conn_out s' fd = conn_out ?s2 fd"
          using IH V c(2) by auto
        have "st_bytes (conn_out s' (clientfd s ! ((i # ?V) ! k))) = st_bytes (conn_out s (clientfd s ! ((i # ?V) ! k))) @ copies (n + Suc k) m"
          if k: "k < length (i # ?V)" for k
        proof (cases k)
          case 0
          then show ?thesis using r(4) st(4) w(2) by simp
        next
          case (Suc j)
          then have "clientfd s ! (?V ! j) \<noteq> ?fd" using st(4) k by (metis image_eqI length_Cons not_less_eq nth_mem)
          then show ?thesis using r(3) Suc k by simp
        qed
        moreover have "conn_out s' fd = conn_out s fd" if "fd \<notin> (\<lambda>i. clientfd s ! i) ` set (i # ?V)" for fd using r(4) that by simp
        ultimately show ?thesis using True r(1,2) step V by (auto intro!: exI [of _ c'] exI [of _ s'])
      qed
    qed
  qed
qed

section \<open>Frames\<close>

text \<open>The message that carries frame \<open>f\<close>.\<close>

definition img_size_of :: "sender_host \<Rightarrow> server \<Rightarrow> u32" where
  "img_size_of x s = (if fst (play_status (ho_play_status (sh_host x))) = 0
     then if g_net_mode s = TD_DRV_VIDEO_SIZE_D1 then TD_DRV_VIDEO_SIZE_D1 else TD_DRV_VIDEO_SIZE_CIF else sh_size x)"

definition img_message :: "sender_host \<Rightarrow> server \<Rightarrow> frame \<Rightarrow> byte list" where
  "img_message x s f = enc_net_command ((sh_cmd x)\<lparr>gc_command := COMMAND_GET_FRAME\<rparr>) @
     img_header (sh_header x) (fh_iLength (fst f)) (fh_iFrameType (fst f)) (fh_ulTimeSec (fst f)) (fh_ulTimeUsec (fst f))
       (if fh_type (fst f) = VIDEO_FRAME then 86 else 65) (fh_index (fst f)) (ucast (sh_standard x)) (ucast (img_size_of x s)) (fh_frame_num (fst f)) @
     snd f"

definition info_ok :: "drv_buf_info \<Rightarrow> bool" where
  "info_ok bi \<longleftrightarrow> length (bi_iBufLen bi) = 16 \<and> length (bi_iFrameType bi) = 16 \<and> length (bi_iFrameCountNumber bi) = 16"

lemma first_channel_bit:
  assumes "set_bit 0 k = Some m"
  shows "i \<le> k \<Longrightarrow> k < i + n \<Longrightarrow> first_channel m i n = Some k"
proof (induction n arbitrary: i)
  case (Suc n)
  have k: "k < 32" using assms by (auto simp: set_bit_def split: if_splits)
  then have "get_bit m i = Some (if i = k then 1 else 0)"
    using get_bit_set_bit [of k i 0] assms Suc.prems by auto
  then show ?case using Suc by (cases "i = k") auto
qed simp

text \<open>The frame at the head of the network ring, and the information about it.\<close>

lemma next_frame:
  assumes "net_rep S sn (sd_net d) (f # q)" "net_ready sn (f # q)" "length (sd_data d) = IMG_SIZE" "length hdr0 = 36" "info_ok (sd_info d)"
    and "unat (fh_index (fst f)) < 16"
  shows "\<exists>d1. get_net_buf_info hdr0 d = Some (True, d1) \<and> net_rep S sn (sd_net d1) q \<and> sd_server d1 = sd_server d \<and> sd_data1 d1 = sd_data1 d \<and>
    mem_read (sd_data d1) 0 (length (snd f)) = Some (snd f) \<and> set_bit 0 (unat (fh_index (fst f))) = Some (bi_iChannelMask (sd_info d1)) \<and>
    arr_get (bi_iBufLen (sd_info d1)) (unat (fh_index (fst f))) = Some (fh_iLength (fst f)) \<and>
    arr_get (bi_iFrameType (sd_info d1)) (unat (fh_index (fst f))) = Some (fh_iFrameType (fst f)) \<and>
    arr_get (bi_iFrameCountNumber (sd_info d1)) (unat (fh_index (fst f))) = Some (fh_frame_num (fst f)) \<and>
    bi_tv_sec (sd_info d1) = fh_ulTimeSec (fst f) \<and> bi_tv_usec (sd_info d1) = fh_ulTimeUsec (fst f) \<and> bi_iBufDataType (sd_info d1) = fh_type (fst f)"
proof -
  have rep: "frames_rep S sn (cycle_net_buf (sd_net d)) (f # q)" using assms(1) by (simp add: net_rep_def)
  have "is_enable_get_net_data (sd_net d) = 1"
    using frames_rep_num [OF rep] rep assms(2) by (simp add: is_enable_get_net_data_def fifo_enable_get_def frames_rep_def net_ready_def)
  moreover have "512 * 1024 \<le> length (sd_data d)" using assms(3) by (simp add: IMG_SIZE_def NET_BUF_MAX_SIZE_def)
  ultimately obtain b' buf' where g: "get_net_buf (sd_net d) hdr0 (sd_data d) = Some (1, enc_frame_header (fst f), buf', (sd_net d)\<lparr>cycle_net_buf := b'\<rparr>)"
      "take (length (snd f)) buf' = snd f" "frames_rep S sn b' q"
    using frames_rep_get [OF rep assms(4), of "sd_data d"] by (auto simp: get_net_buf_def)
  have l: "length (snd f) \<le> length buf'" using g(2) by (metis length_take min.cobounded1 min_def nat_le_linear)
  show ?thesis using g assms(5,6) l
    by (auto simp: get_net_buf_info_def fill_bufinfo_def arr_set_def arr_get_def set_bit_def info_ok_def net_rep_def mem_read_def codec_simps Let_def)
qed

section \<open>Properties\<close>

text \<open>C33: The \<open>k\<close>-th viewer gets \<open>k\<close> copies. \<open>send_img_data\<close> takes the next frame of the network ring and sends it to every slot that
  watches, but its position in \<open>data1\<close> is not reset between the viewers: when all sockets take what they are given, the first is sent
  the message once, the second twice, and so on; with more viewers than such messages fit into the block the copy leaves it.\<close>

theorem viewers_get_copies:
  assumes "slots_ok (sd_server d)" "net_rep S sn (sd_net d) (f # q)" "net_ready sn (f # q)" "unat (fh_index (fst f)) < sh_chans x" "sh_chans x \<le> 16"
    and "length (sd_data d) = IMG_SIZE" "length (sd_data1 d) = IMG_SIZE" "length hdr0 = 36" "length (sh_header x) = 36" "info_ok (sd_info d)"
    and "V = viewers [0..<MAXCLIENT] (sd_server d)"
    and "\<forall>i \<in> set V. 0 < clientfd (sd_server d) ! i \<and> list_all (\<lambda>a. 0 < a) (st_sends (conn_out (sd_server d) (clientfd (sd_server d) ! i)))"
    and "m = img_message x (sd_server d) f"
  shows "if length V * length m \<le> IMG_SIZE
    then \<exists>d'. send_img_data x hdr0 d = Some (1, d') \<and> net_rep S sn (sd_net d') q \<and>
      (\<forall>k < length V. st_bytes (conn_out (sd_server d') (clientfd (sd_server d) ! (V ! k))) =
        st_bytes (conn_out (sd_server d) (clientfd (sd_server d) ! (V ! k))) @ copies (Suc k) m)
    else send_img_data x hdr0 d = None"
proof -
  define s where "s = sd_server d"
  obtain d1 where d1: "get_net_buf_info hdr0 d = Some (True, d1)" "net_rep S sn (sd_net d1) q" "sd_server d1 = s" "sd_data1 d1 = sd_data1 d"
      "mem_read (sd_data d1) 0 (length (snd f)) = Some (snd f)" and mask: "set_bit 0 (unat (fh_index (fst f))) = Some (bi_iChannelMask (sd_info d1))"
    and info: "arr_get (bi_iBufLen (sd_info d1)) (unat (fh_index (fst f))) = Some (fh_iLength (fst f))"
      "arr_get (bi_iFrameType (sd_info d1)) (unat (fh_index (fst f))) = Some (fh_iFrameType (fst f))"
      "arr_get (bi_iFrameCountNumber (sd_info d1)) (unat (fh_index (fst f))) = Some (fh_frame_num (fst f))"
      "bi_tv_sec (sd_info d1) = fh_ulTimeSec (fst f)" "bi_tv_usec (sd_info d1) = fh_ulTimeUsec (fst f)" "bi_iBufDataType (sd_info d1) = fh_type (fst f)"
    using next_frame [OF assms(2,3,6,8,10)] assms(4,5) unfolding s_def by auto
  define hdr where "hdr = img_header (sh_header x) (fh_iLength (fst f)) (fh_iFrameType (fst f)) (fh_ulTimeSec (fst f)) (fh_ulTimeUsec (fst f))
       (if fh_type (fst f) = VIDEO_FRAME then 86 else 65) (fh_index (fst f)) (ucast (sh_standard x)) (ucast (img_size_of x s)) (fh_frame_num (fst f))"
  have h: "length hdr = 36" using assms(9) by (simp add: hdr_def img_header_def words_bytes_def codec_simps)
  have m: "m = enc_net_command ((sh_cmd x)\<lparr>gc_command := COMMAND_GET_FRAME\<rparr>) @ hdr @ snd f"
    by (simp add: assms(13) img_message_def hdr_def s_def)
  have "frame_ok f" using assms(2) by (simp add: net_rep_def frames_rep_def)
  then have len: "unat (fh_iLength (fst f)) = length (snd f)" by (rule frame_len_back)
  have run: "send_img_data x hdr0 d = do {
      (ret, data1, s') \<leftarrow> send_viewers x hdr (snd f) 0 [0..<MAXCLIENT] (sd_data1 d) s;
      Some (ret, d1\<lparr>sd_data1 := data1, sd_server := s'\<rparr>) }"
    using d1 first_channel_bit [OF mask, of 0 "sh_chans x"] assms(4) info len
    by (simp add: send_img_data_def img_size_of_def hdr_def Let_def)
  have dist: "distinct (map (\<lambda>i. clientfd s ! i) V)"
    using assms(12) slots_differ [OF assms(1)] unfolding distinct_map s_def assms(11) by (auto simp: viewers_def inj_on_def)
  have V: "V = viewers [0..<MAXCLIENT] s" by (simp add: assms(11) s_def)
  have "sends_to V s" using assms(12) slots_counts(3) [OF assms(1)] dist by (auto simp: sends_to_def s_def V viewers_def)
  from send_viewers_copies [OF m h, of 0 "sd_data1 d" "[0..<MAXCLIENT]" s, folded V, OF _ _ this]
  have "if length V * length m \<le> IMG_SIZE
    then \<exists>c s'. send_viewers x hdr (snd f) 0 [0..<MAXCLIENT] (sd_data1 d) s = Some (1, c, s') \<and>
      (\<forall>k < length V. st_bytes (conn_out s' (clientfd s ! (V ! k))) = st_bytes (conn_out s (clientfd s ! (V ! k))) @ copies (Suc k) m)
    else send_viewers x hdr (snd f) 0 [0..<MAXCLIENT] (sd_data1 d) s = None"
    using assms(7) by (auto simp: copies_simps(1) split: if_splits)
  then show ?thesis using d1(2) unfolding run s_def [symmetric] by (auto split: if_splits)
qed

text \<open>Three frames wait, slots 0 and 1 watch.\<close>

definition demo_sender_host :: sender_host where
  "demo_sender_host = \<lparr>sh_host = demo_host, sh_change_pos = 0, sh_standard = 0, sh_size = 0, sh_chans = 1, sh_max_video = 0, sh_disks = [],
     sh_cmd = demo_shell, sh_header = replicate 36 0\<rparr>"

definition demo_sender :: "net_state \<Rightarrow> sender" where
  "demo_sender n = \<lparr>sd_server = full_server\<lparr>client_send_data := 1 # 1 # replicate 15 0\<rparr>, sd_net = n,
     sd_info = \<lparr>bi_iBufDataType = 0, bi_iChannelMask = 0, bi_iBufLen = replicate 16 0, bi_iFrameType = replicate 16 0, bi_tv_sec = 0, bi_tv_usec = 0,
       bi_iFrameCountNumber = replicate 16 0\<rparr>,
     sd_data = replicate IMG_SIZE 0, sd_data1 = replicate IMG_SIZE 0, sd_play_count = 0\<rparr>"

theorem viewers_get_copies_witness:
  "\<exists>n d'. send_img_data demo_sender_host (replicate 36 0) (demo_sender n) = Some (1, d') \<and>
    st_bytes (conn_out (sd_server d') 2) = copies 2 (img_message demo_sender_host full_server (sample_header 1, [7]))"
proof -
  let ?f = "(sample_header 1, [7 :: byte])"
  have f: "net_ok (512 * 1024) q ?f" if "length q \<le> 2" "\<forall>x \<in> set q. x = ?f" for q
  proof -
    have "q = [] \<or> q = [?f] \<or> q = [?f, ?f]" using that by (cases q; cases "tl q") auto
    then show ?thesis by (auto simp: net_ok_def enc_ok_def frame_ok_def frame_bytes_def sample_header_def)
  qed
  have "net_rep (512 * 1024) 4 (fresh_net (512 * 1024)) []" by (rule net_rep_init [OF init_fresh]) (simp_all add: fresh_net_def)
  then obtain a where "net_rep (512 * 1024) 4 a [?f]" using net_put_ok [OF _ f, of 4 _ "[]"] by fastforce
  then obtain b where "net_rep (512 * 1024) 4 b [?f, ?f]" using net_put_ok [OF _ f, of 4 _ "[?f]"] by fastforce
  then obtain n where n: "net_rep (512 * 1024) 4 n [?f, ?f, ?f]" using net_put_ok [OF _ f, of 4 _ "[?f, ?f]"] by fastforce
  let ?d = "demo_sender n"
  have V: "viewers [0..<MAXCLIENT] (sd_server ?d) = [0, 1]"
    by (simp add: viewers_def demo_sender_def MAXCLIENT_def upt_rec nth_Cons_replicate)
  have s: "slots_ok (sd_server ?d)" using full_server_ok by (simp add: demo_sender_def slots_ok_def MAXCLIENT_def)
  have i: "img_message demo_sender_host (sd_server ?d) ?f = img_message demo_sender_host full_server ?f"
    by (simp add: img_message_def img_size_of_def demo_sender_def)
  have l: "length (img_message demo_sender_host full_server ?f) = 57"
    by (simp add: img_message_def img_header_def demo_sender_host_def words_bytes_def codec_simps)
  have c: "clientfd (sd_server ?d) ! 0 = 1" "clientfd (sd_server ?d) ! 1 = 2" "conn_out (sd_server ?d) = (\<lambda>fd. \<lparr>st_bytes = [], st_sends = [], st_recvs = []\<rparr>)"
    by (simp_all add: demo_sender_def full_server_def demo_server_def)
  have "2 * length (img_message demo_sender_host (sd_server ?d) ?f) \<le> IMG_SIZE" by (simp add: i l IMG_SIZE_def NET_BUF_MAX_SIZE_def)
  then obtain d' where "send_img_data demo_sender_host (replicate 36 0) ?d = Some (1, d')"
      "\<forall>k < 2. st_bytes (conn_out (sd_server d') (clientfd (sd_server ?d) ! ([0, 1] ! k))) =
        st_bytes (conn_out (sd_server ?d) (clientfd (sd_server ?d) ! ([0, 1] ! k))) @ copies (Suc k) (img_message demo_sender_host (sd_server ?d) ?f)"
    using viewers_get_copies [OF s _ _ _ _ _ _ _ _ _ refl _ refl, of "512 * 1024" 4 ?f "[?f, ?f]" demo_sender_host "replicate 36 0", unfolded V] n
    by (auto simp: net_ready_def demo_sender_host_def demo_sender_def info_ok_def sample_header_def c [unfolded demo_sender_def, simplified])
  then show ?thesis using c i by (intro exI [of _ n] exI [of _ d']) (auto simp: numeral_2_eq_2 dest: spec [of _ 1])
qed

end
