(* ===== verification/Sll.thy ===== *)
theory Sll
  imports Ipc_Base
begin

text \<open>
  The frame list of \<open>src/FileSystem/avicodelib/singly_linked_list.c\<close> over an explicit heap: the
  encoder threads append frames at the head, evict at the tail, and readers lock an item by
  its id while they send it. Addresses are naturals with 0 for NULL; a freed node or data
  block is gone from its map, so a dangling pointer faults. The addresses \<open>malloc\<close> answers
  are arguments. The two clients \<open>DC_InsertListData\<close> and \<open>DC_ClearListData\<close> of
  \<open>fic8120ctrl.c\<close> are here too.
\<close>

unbundle bit_operations_syntax

section \<open>State\<close>

text \<open>\<open>SINGLY_LINKED_LIST_ST\<close>. Ids count from 0 in \<open>long long\<close> and are taken as integers.\<close>

record sll_node =
  nd_id :: int
  nd_data :: nat
  nd_len :: int
  nd_user_num :: int
  nd_next :: nat

text \<open>\<open>SINGLY_LINKED_LIST_INFO_ST\<close> (the members these functions use) with its part of the heap.\<close>

record sll =
  sl_max_item_num :: u32
  sl_item_num :: u32
  sl_head_id :: int
  sl_tail_id :: int
  sl_seq_no :: int
  sl_max_item_size :: u32
  sl_all_data_size :: u32
  sl_list :: nat
  sl_pListHead :: nat
  sl_all_not_free_data_size :: u32
  hp_nodes :: "nat \<Rightarrow> sll_node option"
  hp_data :: "nat \<Rightarrow> byte list option"

text \<open>\<open>SINGLY_LINKED_GET_DATA_ST\<close>, the reader's handle.\<close>

record get_data =
  gd_id :: int
  gd_data :: nat
  gd_len :: int
  gd_list :: nat

definition SLL_ITEM_ENOUGH_ERR :: int where "SLL_ITEM_ENOUGH_ERR = - 100 - 1"
definition SLL_ITEM_EMPTY_ERR :: int where "SLL_ITEM_EMPTY_ERR = - 100 - 2"
definition SLL_ITEM_BUF_NOT_ENOUGH_ERR :: int where "SLL_ITEM_BUF_NOT_ENOUGH_ERR = - 100 - 3"

section \<open>The heap\<close>

definition free_node :: "nat \<Rightarrow> sll \<Rightarrow> sll option" where
  "free_node a s = (case hp_nodes s a of None \<Rightarrow> None | Some _ \<Rightarrow> Some (s\<lparr>hp_nodes := (hp_nodes s)(a := None)\<rparr>))"

text \<open>\<open>if(data) free(data);\<close>\<close>

definition free_data :: "nat \<Rightarrow> sll \<Rightarrow> sll option" where
  "free_data a s =
     (if a = 0 then Some s
      else case hp_data s a of None \<Rightarrow> None | Some _ \<Rightarrow> Some (s\<lparr>hp_data := (hp_data s)(a := None)\<rparr>))"

definition upd_node :: "nat \<Rightarrow> (sll_node \<Rightarrow> sll_node) \<Rightarrow> sll \<Rightarrow> sll option" where
  "upd_node a f s =
     (case hp_nodes s a of None \<Rightarrow> None | Some n \<Rightarrow> Some (s\<lparr>hp_nodes := (hp_nodes s)(a \<mapsto> f n)\<rparr>))"

text \<open>The walks \<open>while( cur->next != NULL )\<close>: to the last node, and to a node with an id.\<close>

partial_function (option) sll_last :: "(nat \<Rightarrow> sll_node option) \<Rightarrow> nat \<Rightarrow> nat option" where
  "sll_last nd cur = do {
     n \<leftarrow> nd cur;
     if nd_next n = 0 then Some cur else sll_last nd (nd_next n)
   }"

partial_function (option) sll_find :: "(nat \<Rightarrow> sll_node option) \<Rightarrow> int \<Rightarrow> nat \<Rightarrow> nat option option" where
  "sll_find nd item_id cur = do {
     n \<leftarrow> nd cur;
     if nd_id n = item_id then Some (Some cur)
     else if nd_next n = 0 then Some None
     else sll_find nd item_id (nd_next n)
   }"

section \<open>Operations\<close>

definition sll_init_list :: "(nat \<Rightarrow> sll_node option) \<Rightarrow> (nat \<Rightarrow> byte list option) \<Rightarrow> u32 \<Rightarrow> u32 \<Rightarrow> sll" where
  "sll_init_list nodes blocks max_item_num data_max_size =
     \<lparr>sl_max_item_num = max_item_num, sl_item_num = 0, sl_head_id = 0, sl_tail_id = 0,
      sl_seq_no = 0, sl_max_item_size = data_max_size, sl_all_data_size = 0, sl_list = 0,
      sl_pListHead = 0, sl_all_not_free_data_size = 0, hp_nodes = nodes, hp_data = blocks\<rparr>"

text \<open>Freeing a node frees its data block first.\<close>

definition free_item :: "nat \<Rightarrow> sll_node \<Rightarrow> sll \<Rightarrow> sll option" where
  "free_item a n s = do { s1 \<leftarrow> free_data (nd_data n) s; free_node a s1 }"

partial_function (option) sll_free_from :: "nat \<Rightarrow> sll \<Rightarrow> sll option" where
  "sll_free_from cur s = do {
     n \<leftarrow> hp_nodes s cur;
     s1 \<leftarrow> free_item cur n s;
     if nd_next n = 0 then Some s1 else sll_free_from (nd_next n) s1
   }"

definition sll_destroy_list :: "sll \<Rightarrow> (int \<times> sll) option" where
  "sll_destroy_list s = do {
     s1 \<leftarrow> (if sl_list s \<noteq> 0 then sll_free_from (sl_list s) s else Some s);
     Some (1, sll_init_list (hp_nodes s1) (hp_data s1) 0 0)
   }"

text \<open>
  The guard \<open>item_num - 1 < 0\<close> of this and the following functions compares an unsigned value
  with 0 and never holds; it is kept as written.
\<close>

definition sll_del_list_tail_item_no_lock :: "sll \<Rightarrow> (int \<times> sll) option" where
  "sll_del_list_tail_item_no_lock s =
     (if sl_item_num s - 1 < 0 then Some (1, s)
      else do {
        (s1, data_len, real_free) \<leftarrow>
          (if sl_list s = 0 then Some (s, 0, False)
           else do {
             n \<leftarrow> hp_nodes s (sl_list s);
             let s0 = s\<lparr>sl_list := nd_next n\<rparr>;
             if nd_user_num n \<le> 0
             then do { s1 \<leftarrow> free_item (sl_list s) n s0; Some (s1, word_of_int (nd_len n), True) }
             else Some (s0\<lparr>sl_all_not_free_data_size := sl_all_not_free_data_size s0 + word_of_int (nd_len n)\<rparr>,
                        word_of_int (nd_len n), False)
           });
        let s2 = s1\<lparr>sl_tail_id := sl_tail_id s1 + 1, sl_item_num := sl_item_num s1 - 1\<rparr>;
        Some (1, if real_free then s2\<lparr>sl_all_data_size := sl_all_data_size s2 - data_len\<rparr> else s2)
      })"

text \<open>The locked variant takes the mutex and otherwise runs the same body.\<close>

definition sll_del_list_tail_item :: "sll \<Rightarrow> (int \<times> sll) option" where
  "sll_del_list_tail_item s = sll_del_list_tail_item_no_lock s"

text \<open>Numbering a new node and hanging it behind the head, the common tail of both adders.\<close>

definition sll_link :: "nat \<Rightarrow> nat \<Rightarrow> int \<Rightarrow> sll \<Rightarrow> sll option" where
  "sll_link a d len s = do {
     let new = \<lparr>nd_id = sl_seq_no s, nd_data = d, nd_len = len, nd_user_num = 0, nd_next = 0\<rparr>;
     let s1 = s\<lparr>hp_nodes := (hp_nodes s)(a \<mapsto> new), sl_seq_no := sl_seq_no s + 1,
                sl_head_id := sl_seq_no s, sl_item_num := sl_item_num s + 1\<rparr>;
     s2 \<leftarrow> (if sl_list s1 = 0 then Some (s1\<lparr>sl_list := a\<rparr>)
            else if sl_pListHead s1 \<noteq> 0
            then do {
              s2 \<leftarrow> upd_node (sl_pListHead s1) (\<lambda>n. n\<lparr>nd_next := a\<rparr>) s1;
              Some (s2\<lparr>sl_pListHead := a\<rparr>)
            }
            else do {
              cur \<leftarrow> sll_last (hp_nodes s1) (sl_list s1);
              s2 \<leftarrow> upd_node cur (\<lambda>n. n\<lparr>nd_next := a\<rparr>) s1;
              Some (s2\<lparr>sl_pListHead := a\<rparr>)
            });
     Some (s2\<lparr>sl_all_data_size := sl_all_data_size s2 + word_of_int len\<rparr>)
   }"

text \<open>The eviction in front: whether there is room for one more item afterwards.\<close>

definition sll_make_room :: "sll \<Rightarrow> (bool \<times> sll) option" where
  "sll_make_room s =
     (if sl_item_num s + 1 > sl_max_item_num s
      then do {
        (_, s1) \<leftarrow> sll_del_list_tail_item_no_lock s;
        Some (\<not> sl_item_num s1 + 1 > sl_max_item_num s1, s1)
      }
      else Some (True, s))"

text \<open>
  \<open>a\<close> and \<open>d\<close> are the answers of the two \<open>malloc\<close> calls (0 for failure); a fresh block holds the
  bytes \<open>garbage\<close>. \<open>data\<close> is the object the source pointer designates.
\<close>

definition sll_add_list_item :: "nat \<Rightarrow> nat \<Rightarrow> (nat \<Rightarrow> byte list) \<Rightarrow> sll \<Rightarrow> byte list \<Rightarrow> nat \<Rightarrow> nat \<Rightarrow>
    (int \<times> sll) option" where
  "sll_add_list_item a d garbage s data len offset = do {
     (room, s1) \<leftarrow> sll_make_room s;
     if \<not> room then Some (SLL_ITEM_ENOUGH_ERR, s1)
     else if a = 0 then Some (- 1, s1)
     else if d = 0 then Some (- 1, s1)
     else if len < offset then None
     else do {
       src \<leftarrow> mem_read data 0 (len - offset);
       blk \<leftarrow> mem_write (garbage len) offset src;
       s2 \<leftarrow> sll_link a d (int len) (s1\<lparr>hp_data := (hp_data s1)(d \<mapsto> blk)\<rparr>);
       Some (1, s2)
     }
   }"

definition sll_add_list_item_no_malloc :: "nat \<Rightarrow> sll \<Rightarrow> nat \<Rightarrow> int \<Rightarrow> (int \<times> sll) option" where
  "sll_add_list_item_no_malloc a s data len = do {
     (room, s1) \<leftarrow> sll_make_room s;
     if \<not> room then do { s2 \<leftarrow> free_data data s1; Some (SLL_ITEM_ENOUGH_ERR, s2) }
     else if a = 0 then Some (- 1, s1)
     else if data = 0 then Some (- 1, s1)
     else do { s2 \<leftarrow> sll_link a data len s1; Some (1, s2) }
   }"

definition sll_get_list_item :: "sll \<Rightarrow> byte list \<Rightarrow> int \<Rightarrow> int \<Rightarrow> (int \<times> byte list) option" where
  "sll_get_list_item s dest_buf dest_max_len item_id =
     (if sl_item_num s - 1 < 0 then Some (SLL_ITEM_EMPTY_ERR, dest_buf)
      else if sl_list s = 0 then Some (SLL_ITEM_EMPTY_ERR, dest_buf)
      else do {
        found \<leftarrow> sll_find (hp_nodes s) item_id (sl_list s);
        case found of
          None \<Rightarrow> Some (SLL_ITEM_EMPTY_ERR, dest_buf)
        | Some cur \<Rightarrow> do {
            n \<leftarrow> hp_nodes s cur;
            if dest_max_len < nd_len n then Some (SLL_ITEM_BUF_NOT_ENOUGH_ERR, dest_buf)
            else if nd_len n < 0 then None
            else do {
              b \<leftarrow> hp_data s (nd_data n);
              d \<leftarrow> mem_read b 0 (nat (nd_len n));
              dest \<leftarrow> mem_write dest_buf 0 d;
              Some (nd_len n, dest)
            }
          }
      })"

text \<open>The start-code test at \<open>data + 36\<close>, left to right, reading no further than it must.\<close>

primrec bytes_match :: "byte list \<Rightarrow> nat \<Rightarrow> byte list \<Rightarrow> bool option" where
  "bytes_match b i [] = Some True"
| "bytes_match b i (v # vs) =
     (if i < length b then if b ! i = v then bytes_match b (i + 1) vs else Some False else None)"

definition is_key_frame :: "byte list \<Rightarrow> bool option" where
  "is_key_frame b = do {
     start \<leftarrow> bytes_match b 36 [0, 0, 0, 1];
     if \<not> start then Some False
     else if 40 < length b then Some (b ! 40 AND 0x0f = 0x67 AND 0x0f) else None
   }"

text \<open>The walk starts behind the tail item, whose own data is never looked at.\<close>

partial_function (option) sll_key_scan :: "sll \<Rightarrow> nat \<Rightarrow> int option \<Rightarrow> int option option" where
  "sll_key_scan s cur best = do {
     n \<leftarrow> hp_nodes s cur;
     if nd_next n = 0 then Some best
     else do {
       m \<leftarrow> hp_nodes s (nd_next n);
       best' \<leftarrow> (if nd_data m = 0 then Some best
                else do { b \<leftarrow> hp_data s (nd_data m); k \<leftarrow> is_key_frame b;
                          Some (if k then Some (nd_id m) else best) });
       sll_key_scan s (nd_next n) best'
     }
   }"

definition sll_get_last_key_frame_list_item_no :: "sll \<Rightarrow> int option" where
  "sll_get_last_key_frame_list_item_no s =
     (if sl_item_num s - 1 < 0 then Some SLL_ITEM_EMPTY_ERR
      else if sl_list s = 0 then Some SLL_ITEM_EMPTY_ERR
      else do {
        best \<leftarrow> sll_key_scan s (sl_list s) None;
        Some (case best of None \<Rightarrow> SLL_ITEM_EMPTY_ERR
              | Some i \<Rightarrow> sint (word_of_int i :: u32))
      })"

definition sll_get_list_item_lock :: "sll \<Rightarrow> get_data \<Rightarrow> int \<Rightarrow> (int \<times> get_data \<times> sll) option" where
  "sll_get_list_item_lock s g item_id =
     (if sl_item_num s - 1 < 0 then Some (SLL_ITEM_EMPTY_ERR, g, s)
      else if item_id < sl_tail_id s \<or> item_id > sl_head_id s then Some (SLL_ITEM_EMPTY_ERR, g, s)
      else if sl_list s = 0 then Some (SLL_ITEM_EMPTY_ERR, g, s)
      else do {
        cur0 \<leftarrow>
          (if gd_id g \<ge> sl_tail_id s \<and> gd_id g < sl_head_id s \<and> gd_id g + 1 = item_id \<and> gd_list g \<noteq> 0
           then do {
             p \<leftarrow> hp_nodes s (gd_list g);
             if nd_next p = 0 then Some (sl_list s)
             else do {
               t \<leftarrow> hp_nodes s (nd_next p);
               Some (if nd_id t = item_id then nd_next p else sl_list s)
             }
           }
           else Some (sl_list s));
        found \<leftarrow> sll_find (hp_nodes s) item_id cur0;
        case found of
          None \<Rightarrow> Some (SLL_ITEM_EMPTY_ERR, g, s)
        | Some cur \<Rightarrow> do {
            n \<leftarrow> hp_nodes s cur;
            s1 \<leftarrow> upd_node cur (\<lambda>n. n\<lparr>nd_user_num := nd_user_num n + 1\<rparr>) s;
            Some (nd_len n, \<lparr>gd_id = nd_id n, gd_data = nd_data n, gd_len = nd_len n, gd_list = cur\<rparr>, s1)
          }
      })"

definition sll_get_list_item_unlock :: "sll \<Rightarrow> get_data \<Rightarrow> (int \<times> get_data \<times> sll) option" where
  "sll_get_list_item_unlock s g =
     (if sl_item_num s - 1 < 0 then Some (SLL_ITEM_EMPTY_ERR, g, s)
      else if sl_list s = 0 then Some (SLL_ITEM_EMPTY_ERR, g, s)
      else do {
        found \<leftarrow>
          (if gd_id g \<ge> sl_tail_id s \<and> gd_id g \<le> sl_head_id s
           then do {
             cur0 \<leftarrow> (if gd_list g = 0 then Some (sl_list s)
                     else do {
                       t \<leftarrow> hp_nodes s (gd_list g);
                       Some (if nd_id t = gd_id g then gd_list g else sl_list s)
                     });
             sll_find (hp_nodes s) (gd_id g) cur0
           }
           else Some None);
        case found of
          Some cur \<Rightarrow> do {
            s1 \<leftarrow> upd_node cur (\<lambda>n. n\<lparr>nd_user_num := nd_user_num n - 1\<rparr>) s;
            Some (0, g, s1)
          }
        | None \<Rightarrow> do {
            s1 \<leftarrow> upd_node (gd_list g) (\<lambda>n. n\<lparr>nd_user_num := nd_user_num n - 1\<rparr>) s;
            n \<leftarrow> hp_nodes s1 (gd_list g);
            if nd_user_num n \<le> 0
            then do {
              s2 \<leftarrow> free_data (gd_data g) s1;
              s3 \<leftarrow> free_node (gd_list g) s2;
              Some (SLL_ITEM_EMPTY_ERR, g\<lparr>gd_list := 0\<rparr>,
                s3\<lparr>sl_all_data_size := sl_all_data_size s3 - word_of_int (gd_len g),
                   sl_all_not_free_data_size := sl_all_not_free_data_size s3 - word_of_int (gd_len g)\<rparr>)
            }
            else Some (SLL_ITEM_EMPTY_ERR, g, s1)
          }
      })"

text \<open>The tail's id, cut to \<open>unsigned int\<close>, behind the return value; \<open>old\<close> is the caller's variable.\<close>

definition sll_get_tail_list_item_no :: "sll \<Rightarrow> u32 \<Rightarrow> (int \<times> u32) option" where
  "sll_get_tail_list_item_no s old =
     (if sl_item_num s - 1 < 0 then Some (SLL_ITEM_EMPTY_ERR, old)
      else if sl_list s = 0 then Some (SLL_ITEM_EMPTY_ERR, old)
      else do { n \<leftarrow> hp_nodes s (sl_list s); Some (0, word_of_int (nd_id n)) })"

definition sll_list_item_num :: "sll \<Rightarrow> int" where
  "sll_list_item_num s = sint (sl_item_num s)"

definition sll_list_enable_add_item :: "sll \<Rightarrow> int" where
  "sll_list_enable_add_item s =
     (if sl_all_data_size s \<ge> sl_max_item_size s then 0
      else if sl_item_num s + 2 < sl_max_item_num s then 1 else 0)"

section \<open>The clients\<close>

partial_function (option) drain_until_enabled :: "sll \<Rightarrow> sll option" where
  "drain_until_enabled s =
     (if sll_list_enable_add_item s = 0
      then do { (_, s1) \<leftarrow> sll_del_list_tail_item s; drain_until_enabled s1 }
      else Some s)"

definition DC_InsertListData :: "nat \<Rightarrow> sll \<Rightarrow> nat \<Rightarrow> int \<Rightarrow> (int \<times> sll) option" where
  "DC_InsertListData a s frame_data_buf frame_len = do {
     s1 \<leftarrow> drain_until_enabled s;
     sll_add_list_item_no_malloc a s1 frame_data_buf frame_len
   }"

partial_function (option) clear_loop :: "sll \<Rightarrow> sll option" where
  "clear_loop s =
     (if sll_list_item_num s > 0
      then do { (_, s1) \<leftarrow> sll_del_list_tail_item s; clear_loop s1 }
      else Some s)"

definition DC_ClearListData :: "sll \<Rightarrow> (int \<times> sll) option" where
  "DC_ClearListData s = do { s1 \<leftarrow> clear_loop s; Some (1, s1) }"

section \<open>The list in the heap\<close>

type_synonym item = "nat \<times> sll_node"

primrec chain :: "(nat \<Rightarrow> sll_node option) \<Rightarrow> nat \<Rightarrow> item list \<Rightarrow> bool" where
  "chain nd a [] \<longleftrightarrow> a = 0"
| "chain nd a (x # r) \<longleftrightarrow> a = fst x \<and> a \<noteq> 0 \<and> nd a = Some (snd x) \<and> chain nd (nd_next (snd x)) r"

primrec ids_from :: "int \<Rightarrow> item list \<Rightarrow> bool" where
  "ids_from t [] \<longleftrightarrow> True"
| "ids_from t (x # r) \<longleftrightarrow> nd_id (snd x) = t \<and> ids_from (t + 1) r"

definition item_ok :: "(nat \<Rightarrow> byte list option) \<Rightarrow> item \<Rightarrow> bool" where
  "item_ok blocks x \<longleftrightarrow> nd_data (snd x) \<noteq> 0 \<and> 0 \<le> nd_len (snd x) \<and> 0 \<le> nd_user_num (snd x) \<and>
     (case blocks (nd_data (snd x)) of None \<Rightarrow> False | Some b \<Rightarrow> nd_len (snd x) \<le> int (length b))"

definition items_size :: "item list \<Rightarrow> int" where
  "items_size xs = sum_list (map (\<lambda>x. nd_len (snd x)) xs)"

text \<open>The list proper, whatever the cached head pointer says.\<close>

definition sll_holds :: "sll \<Rightarrow> item list \<Rightarrow> bool" where
  "sll_holds s xs \<longleftrightarrow>
     chain (hp_nodes s) (sl_list s) xs \<and> distinct (map fst xs) \<and> hp_nodes s 0 = None \<and>
     distinct (map (\<lambda>x. nd_data (snd x)) xs) \<and> list_all (item_ok (hp_data s)) xs \<and>
     ids_from (sl_tail_id s) xs \<and> sl_seq_no s = sl_tail_id s + int (length xs) \<and>
     (xs \<noteq> [] \<longrightarrow> sl_head_id s = sl_seq_no s - 1) \<and>
     length xs < 2 ^ 32 \<and> sl_item_num s = of_nat (length xs) \<and>
     sl_all_data_size s = word_of_int (items_size xs) + sl_all_not_free_data_size s"

text \<open>The cached head pointer: unset while at most one item was ever linked, else the last item.\<close>

definition head_ok :: "sll \<Rightarrow> item list \<Rightarrow> bool" where
  "head_ok s xs \<longleftrightarrow> (if sl_pListHead s = 0 then length xs \<le> 1 else xs \<noteq> [] \<and> sl_pListHead s = fst (last xs))"

definition sll_rep :: "sll \<Rightarrow> item list \<Rightarrow> bool" where
  "sll_rep s xs \<longleftrightarrow> sll_holds s xs \<and> head_ok s xs"

lemma chain_upd: "a \<notin> fst ` set xs \<Longrightarrow> chain (nd(a := v)) l xs = chain nd l xs"
  by (induction xs arbitrary: l) auto

lemma chain_empty: "chain nd l xs \<Longrightarrow> l = 0 \<longleftrightarrow> xs = []"
  by (cases xs) auto

lemma chain_nonzero: "chain nd l xs \<Longrightarrow> x \<in> set xs \<Longrightarrow> fst x \<noteq> 0 \<and> nd (fst x) = Some (snd x)"
  by (induction xs arbitrary: l) auto

lemma chain_last: "chain nd l xs \<Longrightarrow> xs \<noteq> [] \<Longrightarrow> sll_last nd l = Some (fst (last xs))"
proof (induction xs arbitrary: l)
  case (Cons x xs)
  then show ?case using chain_empty [of nd "nd_next (snd x)" xs]
    by (subst sll_last.simps) auto
qed simp

lemma chain_last_next: "chain nd l xs \<Longrightarrow> xs \<noteq> [] \<Longrightarrow> nd_next (snd (last xs)) = 0"
  by (induction xs arbitrary: l) auto

lemma chain_find:
  "chain nd l xs \<Longrightarrow> xs \<noteq> [] \<Longrightarrow>
    sll_find nd i l = Some (map_option fst (find (\<lambda>x. nd_id (snd x) = i) xs))"
proof (induction xs arbitrary: l)
  case (Cons x xs)
  then show ?case using chain_empty [of nd "nd_next (snd x)" xs]
    by (subst sll_find.simps) auto
qed simp

lemma find_by_id:
  "ids_from t xs \<Longrightarrow>
    find (\<lambda>x. nd_id (snd x) = i) xs = (if t \<le> i \<and> i < t + int (length xs) then Some (xs ! nat (i - t)) else None)"
proof (induction xs arbitrary: t)
  case (Cons x xs)
  have "nat (i - t) = Suc (nat (i - (t + 1)))" if "t < i" using that by simp
  with Cons show ?case by (auto simp: nth_Cons split: nat.split)
qed simp

text \<open>Hanging a fresh node behind the last one.\<close>

lemma chain_snoc:
  assumes "chain nd l (xs @ [(x, n)])" and "distinct (map fst (xs @ [(x, n)]))"
    and "y \<noteq> 0" and "y \<notin> fst ` set (xs @ [(x, n)])" and "nd_next m = 0"
  shows "chain (nd(y \<mapsto> m, x \<mapsto> n\<lparr>nd_next := y\<rparr>)) l (xs @ [(x, n\<lparr>nd_next := y\<rparr>), (y, m)])"
  using assms
proof (induction xs arbitrary: l)
  case Nil
  then show ?case by auto
next
  case (Cons z zs)
  then show ?case by (auto simp: image_iff)
qed

lemma ids_from_append: "ids_from t (xs @ ys) \<longleftrightarrow> ids_from t xs \<and> ids_from (t + int (length xs)) ys"
  by (induction xs arbitrary: t) (auto simp: add.assoc add.commute)

lemma items_size_simps [simp]:
  "items_size [] = 0" "items_size (x # xs) = nd_len (snd x) + items_size xs"
  "items_size (xs @ ys) = items_size xs + items_size ys"
  by (simp_all add: items_size_def)

lemma item_ok_upd:
  "d \<noteq> nd_data (snd x) \<Longrightarrow> item_ok (blocks(d := v)) x = item_ok blocks x"
  by (auto simp: item_ok_def)

lemma list_all_item_ok_upd:
  "d \<notin> (\<lambda>x. nd_data (snd x)) ` set xs \<Longrightarrow> list_all (item_ok (blocks(d := v))) xs = list_all (item_ok blocks) xs"
  by (induction xs) (auto simp: item_ok_upd)

lemma no_negative_word [simp]: "\<not> (w :: u32) < 0"
  by simp

section \<open>Deleting at the tail\<close>

text \<open>What a deletion changes besides the list: the block and node go when no reader holds them.\<close>

definition del_effect :: "item \<Rightarrow> sll \<Rightarrow> sll \<Rightarrow> bool" where
  "del_effect x s s' \<longleftrightarrow>
     sl_max_item_num s' = sl_max_item_num s \<and> sl_max_item_size s' = sl_max_item_size s \<and>
     sl_pListHead s' = sl_pListHead s \<and> sl_seq_no s' = sl_seq_no s \<and> sl_head_id s' = sl_head_id s \<and>
     sl_tail_id s' = sl_tail_id s + 1 \<and>
     (if nd_user_num (snd x) \<le> 0
      then hp_nodes s' = (hp_nodes s)(fst x := None) \<and> hp_data s' = (hp_data s)(nd_data (snd x) := None) \<and>
           sl_all_not_free_data_size s' = sl_all_not_free_data_size s
      else hp_nodes s' = hp_nodes s \<and> hp_data s' = hp_data s \<and>
           sl_all_not_free_data_size s' = sl_all_not_free_data_size s + word_of_int (nd_len (snd x)))"

lemma del_holds:
  assumes holds: "sll_holds s (x # xs)"
  shows "\<exists>s'. sll_del_list_tail_item s = Some (1, s') \<and> sll_holds s' xs \<and> del_effect x s s'"
proof -
  obtain a n where x: "x = (a, n)" by force
  from holds x have list: "sl_list s = a" "a \<noteq> 0" "hp_nodes s a = Some n" "chain (hp_nodes s) (nd_next n) xs"
    and ok: "item_ok (hp_data s) (a, n)" "list_all (item_ok (hp_data s)) xs"
    and dist: "a \<notin> fst ` set xs" "nd_data n \<notin> (\<lambda>x. nd_data (snd x)) ` set xs"
    by (auto simp: sll_holds_def)
  then obtain b where b: "hp_data s (nd_data n) = Some b" "nd_data n \<noteq> 0"
    by (auto simp: item_ok_def split: option.splits)
  show ?thesis
  proof (cases "nd_user_num n \<le> 0")
    case True
    define s' where "s' = s\<lparr>sl_list := nd_next n, hp_data := (hp_data s)(nd_data n := None),
        hp_nodes := (hp_nodes s)(a := None), sl_tail_id := sl_tail_id s + 1,
        sl_item_num := sl_item_num s - 1, sl_all_data_size := sl_all_data_size s - word_of_int (nd_len n)\<rparr>"
    have "sll_del_list_tail_item s = Some (1, s')"
      using list b True
      by (simp add: sll_del_list_tail_item_def sll_del_list_tail_item_no_lock_def free_item_def
          free_data_def free_node_def s'_def Let_def)
    moreover have "sll_holds s' xs"
      using holds x list(4) dist
      by (auto simp: sll_holds_def s'_def chain_upd list_all_item_ok_upd)
    moreover have "del_effect x s s'" using True x by (simp add: del_effect_def s'_def)
    ultimately show ?thesis by blast
  next
    case False
    define s' where "s' = s\<lparr>sl_list := nd_next n,
        sl_all_not_free_data_size := sl_all_not_free_data_size s + word_of_int (nd_len n),
        sl_tail_id := sl_tail_id s + 1, sl_item_num := sl_item_num s - 1\<rparr>"
    have "sll_del_list_tail_item s = Some (1, s')"
      using list b False
      by (simp add: sll_del_list_tail_item_def sll_del_list_tail_item_no_lock_def s'_def Let_def)
    moreover have "sll_holds s' xs"
      using holds x list(4) by (auto simp: sll_holds_def s'_def algebra_simps)
    moreover have "del_effect x s s'" using False x by (simp add: del_effect_def s'_def)
    ultimately show ?thesis by blast
  qed
qed

section \<open>Adding at the head\<close>

text \<open>Items up to their next pointers, which an append changes in the last one.\<close>

definition strip :: "item \<Rightarrow> item" where
  "strip x = (fst x, (snd x)\<lparr>nd_next := 0\<rparr>)"

definition new_node :: "int \<Rightarrow> nat \<Rightarrow> int \<Rightarrow> sll_node" where
  "new_node i d len = \<lparr>nd_id = i, nd_data = d, nd_len = len, nd_user_num = 0, nd_next = 0\<rparr>"

definition fresh_for :: "sll \<Rightarrow> item list \<Rightarrow> nat \<Rightarrow> nat \<Rightarrow> int \<Rightarrow> bool" where
  "fresh_for s xs a d len \<longleftrightarrow> a \<noteq> 0 \<and> hp_nodes s a = None \<and> d \<noteq> 0 \<and>
     d \<notin> (\<lambda>x. nd_data (snd x)) ` set xs \<and> 0 \<le> len \<and>
     (case hp_data s d of None \<Rightarrow> False | Some b \<Rightarrow> len \<le> int (length b))"

definition link_effect :: "nat \<Rightarrow> sll \<Rightarrow> sll \<Rightarrow> bool" where
  "link_effect a s s' \<longleftrightarrow>
     sl_max_item_num s' = sl_max_item_num s \<and> sl_max_item_size s' = sl_max_item_size s \<and>
     sl_tail_id s' = sl_tail_id s \<and> sl_seq_no s' = sl_seq_no s + 1 \<and> hp_data s' = hp_data s \<and>
     sl_all_not_free_data_size s' = sl_all_not_free_data_size s"

lemma link_rep:
  assumes rep: "sll_rep s xs" and fresh: "fresh_for s xs a d len" and room: "length xs + 1 < 2 ^ 32"
  shows "\<exists>s' ys. sll_link a d len s = Some s' \<and> sll_rep s' (ys @ [(a, new_node (sl_seq_no s) d len)]) \<and>
    map strip ys = map strip xs \<and> link_effect a s s'"
proof -
  let ?new = "new_node (sl_seq_no s) d len"
  from rep have holds: "sll_holds s xs" and head: "head_ok s xs" by (simp_all add: sll_rep_def)
  have a: "a \<noteq> 0" "hp_nodes s a = None" using fresh by (simp_all add: fresh_for_def)
  have newok: "item_ok (hp_data s) (a, ?new)"
    using fresh by (auto simp: fresh_for_def item_ok_def new_node_def split: option.splits)
  define s1 where "s1 = s\<lparr>hp_nodes := (hp_nodes s)(a \<mapsto> ?new), sl_seq_no := sl_seq_no s + 1,
      sl_head_id := sl_seq_no s, sl_item_num := sl_item_num s + 1\<rparr>"
  show ?thesis
  proof (cases xs rule: rev_cases)
    case Nil
    define s' where "s' = s1\<lparr>sl_list := a, sl_all_data_size := sl_all_data_size s + word_of_int len\<rparr>"
    have "sll_link a d len s = Some s'"
      using holds Nil by (simp add: sll_link_def s'_def s1_def sll_holds_def new_node_def Let_def)
    moreover have "sl_pListHead s = 0" using head Nil by (auto simp: head_ok_def split: if_splits)
    then have "sll_rep s' [(a, ?new)]"
      using holds Nil a newok
      by (simp add: sll_rep_def sll_holds_def head_ok_def s'_def s1_def)
        (simp add: new_node_def algebra_simps)
    moreover have "link_effect a s s'" by (simp add: link_effect_def s'_def s1_def)
    ultimately show ?thesis using Nil by (intro exI [of _ s'] exI [of _ "[]"]) simp
  next
    case (snoc zs z)
    obtain x n where z: "z = (x, n)" by force
    let ?n = "n\<lparr>nd_next := a\<rparr>"
    define s' where "s' = s1\<lparr>hp_nodes := (hp_nodes s)(a \<mapsto> ?new, x \<mapsto> ?n), sl_pListHead := a,
        sl_all_data_size := sl_all_data_size s + word_of_int len\<rparr>"
    have ch: "chain (hp_nodes s) (sl_list s) (zs @ [(x, n)])" using holds snoc z by (simp add: sll_holds_def)
    have xnode: "x \<noteq> 0" "hp_nodes s x = Some n" using chain_nonzero [OF ch, of "(x, n)"] by auto
    have notin: "a \<notin> fst ` set (zs @ [(x, n)])" using chain_nonzero [OF ch] a by force
    have xa: "x \<noteq> a" using notin by auto
    have nz: "sl_list s \<noteq> 0" using chain_empty [OF ch] by simp
    have ch1: "chain ((hp_nodes s)(a \<mapsto> ?new)) (sl_list s) (zs @ [(x, n)])"
      using ch chain_upd [OF notin] by simp
    have last: "sll_last ((hp_nodes s)(a \<mapsto> ?new)) (sl_list s) = Some x"
      using chain_last [OF ch1] by simp
    have new: "\<lparr>nd_id = sl_seq_no s, nd_data = d, nd_len = len, nd_user_num = 0, nd_next = 0\<rparr> = ?new"
      by (simp add: new_node_def)
    have upd: "upd_node x (\<lambda>n. n\<lparr>nd_next := a\<rparr>) s1 = Some (s1\<lparr>hp_nodes := (hp_nodes s)(a \<mapsto> ?new, x \<mapsto> ?n)\<rparr>)"
      using xnode(2) xa by (simp add: upd_node_def s1_def)
    have nodes1: "hp_nodes s1 = (hp_nodes s)(a \<mapsto> ?new)" "sl_list s1 = sl_list s"
      "sl_pListHead s1 = sl_pListHead s" "sl_all_data_size s1 = sl_all_data_size s" by (simp_all add: s1_def)
    have run: "sll_link a d len s = Some s'"
    proof (cases "sl_pListHead s = 0")
      case True
      then show ?thesis unfolding sll_link_def new Let_def s1_def [symmetric] nodes1 last
        by (simp add: upd nz nodes1 s'_def)
    next
      case False
      then have "sl_pListHead s = x" using head snoc z by (simp add: head_ok_def)
      then show ?thesis unfolding sll_link_def new Let_def s1_def [symmetric] nodes1
        using xnode(1) by (simp add: upd nz nodes1 s'_def)
    qed
    have ds: "distinct (map fst (zs @ [(x, n)]))" using holds snoc z by (simp add: sll_holds_def)
    let ?ys = "zs @ [(x, ?n), (a, ?new)]"
    have H: "distinct (map (\<lambda>x. nd_data (snd x)) (zs @ [(x, n)]))"
      "list_all (item_ok (hp_data s)) (zs @ [(x, n)])" "ids_from (sl_tail_id s) (zs @ [(x, n)])"
      "sl_seq_no s = sl_tail_id s + int (length (zs @ [(x, n)]))" "hp_nodes s 0 = None"
      "sl_item_num s = of_nat (length (zs @ [(x, n)]))"
      "sl_all_data_size s = word_of_int (items_size (zs @ [(x, n)])) + sl_all_not_free_data_size s"
      using holds unfolding sll_holds_def snoc z by blast+
    have c1: "chain (hp_nodes s') (sl_list s') ?ys"
      using chain_snoc [OF ch ds a(1) notin, of ?new] by (simp add: s'_def s1_def new_node_def)
    have c2: "distinct (map fst ?ys)" using ds notin by auto
    have c3: "hp_nodes s' 0 = None" using H(5) a(1) xnode(1) by (simp add: s'_def)
    have dnew: "d \<notin> (\<lambda>x. nd_data (snd x)) ` set (zs @ [(x, n)])"
      using fresh unfolding fresh_for_def snoc z by blast
    have c4: "distinct (map (\<lambda>x. nd_data (snd x)) ?ys)"
      using H(1) dnew by (auto simp: new_node_def)
    have "item_ok (hp_data s) (x, ?n) = item_ok (hp_data s) (x, n)"
      by (simp add: item_ok_def split: option.split)
    then have c5: "list_all (item_ok (hp_data s')) ?ys"
      using H(2) newok by (simp add: s'_def s1_def)
    have c6: "ids_from (sl_tail_id s') ?ys"
      using H(3,4) by (simp add: s'_def s1_def ids_from_append new_node_def add.assoc)
    have c7: "sl_seq_no s' = sl_tail_id s' + int (length ?ys)" "sl_head_id s' = sl_seq_no s' - 1"
      using H(4) by (simp_all add: s'_def s1_def)
    have c8: "length ?ys < 2 ^ 32" using room snoc by simp
    have c9: "sl_item_num s' = of_nat (length ?ys)" using H(6) by (simp add: s'_def s1_def)
    have c10: "sl_all_data_size s' = word_of_int (items_size ?ys) + sl_all_not_free_data_size s'"
      using H(7) by (simp add: s'_def s1_def new_node_def algebra_simps)
    have "sll_holds s' ?ys" unfolding sll_holds_def using c1 c2 c3 c4 c5 c6 c7 c8 c9 c10 by blast
    moreover have "head_ok s' ?ys" using a(1) by (simp add: head_ok_def s'_def)
    ultimately have "sll_rep s' ((zs @ [(x, ?n)]) @ [(a, ?new)])" by (simp add: sll_rep_def)
    moreover have "link_effect a s s'" by (simp add: link_effect_def s'_def s1_def)
    moreover have "map strip (zs @ [(x, ?n)]) = map strip xs" using snoc z by (simp add: strip_def)
    ultimately show ?thesis using run by blast
  qed
qed

section \<open>The operations on a represented list\<close>

lemma head_ok_tl: "head_ok s (x # xs) \<Longrightarrow> xs \<noteq> [] \<Longrightarrow> sl_pListHead s' = sl_pListHead s \<Longrightarrow> head_ok s' xs"
  by (auto simp: head_ok_def split: if_splits)

lemma del_rep:
  assumes rep: "sll_rep s (x # xs)" and ne: "xs \<noteq> [] \<or> sl_pListHead s = 0"
  shows "\<exists>s'. sll_del_list_tail_item s = Some (1, s') \<and> sll_rep s' xs \<and> del_effect x s s'"
proof -
  from rep have "sll_holds s (x # xs)" and head: "head_ok s (x # xs)" by (simp_all add: sll_rep_def)
  from del_holds [OF this(1)] obtain s' where s': "sll_del_list_tail_item s = Some (1, s')"
    "sll_holds s' xs" "del_effect x s s'" by blast
  have same: "sl_pListHead s' = sl_pListHead s" using s'(3) by (simp add: del_effect_def)
  have "head_ok s' xs"
  proof (cases "xs = []")
    case True
    then show ?thesis using same ne by (simp add: head_ok_def)
  next
    case False
    then show ?thesis using head_ok_tl [OF head False same] by simp
  qed
  with s' show ?thesis by (auto simp: sll_rep_def)
qed

lemma fresh_after_del:
  assumes "fresh_for s (x # xs) a d len" and "del_effect x s s'"
  shows "fresh_for s' xs a d len"
  using assms by (auto simp: fresh_for_def del_effect_def split: if_splits option.splits)

lemma item_num_unat: "sll_holds s xs \<Longrightarrow> unat (sl_item_num s) = length xs"
  by (simp add: sll_holds_def unat_of_nat)

lemma add_no_malloc_rep:
  assumes rep: "sll_rep s xs" and fresh: "fresh_for s xs a d len"
    and max: "2 \<le> unat (sl_max_item_num s)" "unat (sl_max_item_num s) < 2 ^ 31"
    and num: "length xs \<le> unat (sl_max_item_num s)"
  shows "\<exists>s' ys. sll_add_list_item_no_malloc a s d len = Some (1, s') \<and>
    sll_rep s' (ys @ [(a, new_node (sl_seq_no s) d len)]) \<and>
    map strip ys = map strip (drop (if length xs = unat (sl_max_item_num s) then 1 else 0) xs) \<and>
    length ys < unat (sl_max_item_num s) \<and> sl_max_item_num s' = sl_max_item_num s"
proof -
  have holds: "sll_holds s xs" using rep by (simp add: sll_rep_def)
  have nz: "a \<noteq> 0" "d \<noteq> 0" using fresh by (simp_all add: fresh_for_def)
  have u: "unat (sl_item_num s + 1) = length xs + 1"
    using item_num_unat [OF holds] num max(2) by (simp add: unat_word_ariths)
  show ?thesis
  proof (cases "length xs = unat (sl_max_item_num s)")
    case False
    then have "\<not> sl_item_num s + 1 > sl_max_item_num s" using u num by (simp add: word_less_nat_alt)
    then have mr: "sll_make_room s = Some (True, s)" by (simp add: sll_make_room_def)
    obtain s' ys where l: "sll_link a d len s = Some s'" "sll_rep s' (ys @ [(a, new_node (sl_seq_no s) d len)])"
      "map strip ys = map strip xs" "link_effect a s s'"
      using link_rep [OF rep fresh] num max(2) by auto
    moreover have "length ys = length xs" using l(3) by (metis length_map)
    ultimately show ?thesis
      using mr nz False num
      by (intro exI [of _ s'] exI [of _ ys]) (simp add: sll_add_list_item_no_malloc_def link_effect_def)
  next
    case True
    with max(1) obtain x zs where xs: "xs = x # zs" "zs \<noteq> []"
      by (cases xs; cases "tl xs") auto
    have full: "sl_item_num s + 1 > sl_max_item_num s" using u True by (simp add: word_less_nat_alt)
    obtain s1 where s1: "sll_del_list_tail_item_no_lock s = Some (1, s1)" "sll_rep s1 zs" "del_effect x s s1"
      using del_rep [of s x zs] rep xs by (auto simp: sll_del_list_tail_item_def)
    have h1: "sll_holds s1 zs" using s1(2) by (simp add: sll_rep_def)
    have mx: "sl_max_item_num s1 = sl_max_item_num s" "sl_seq_no s1 = sl_seq_no s"
      using s1(3) by (simp_all add: del_effect_def)
    have u1: "unat (sl_item_num s1 + 1) = length zs + 1"
      using item_num_unat [OF h1] True xs max(2) by (simp add: unat_word_ariths)
    have room: "\<not> sl_item_num s1 + 1 > sl_max_item_num s1"
      using u1 mx True xs by (simp add: word_less_nat_alt)
    have mr: "sll_make_room s = Some (True, s1)"
      using full s1(1) room mx by (simp add: sll_make_room_def)
    have fresh1: "fresh_for s1 zs a d len" using fresh_after_del [OF _ s1(3)] fresh xs(1) by blast
    obtain s' ys where l: "sll_link a d len s1 = Some s'" "sll_rep s' (ys @ [(a, new_node (sl_seq_no s) d len)])"
      "map strip ys = map strip zs" "link_effect a s1 s'"
      using link_rep [OF s1(2) fresh1] xs num max(2) mx(2) by auto
    moreover have "length ys = length zs" using l(3) by (metis length_map)
    ultimately show ?thesis
      using mr nz True xs mx(1)
      by (intro exI [of _ s'] exI [of _ ys]) (simp add: sll_add_list_item_no_malloc_def link_effect_def)
  qed
qed

text \<open>The bytes an item holds.\<close>

definition item_bytes :: "sll \<Rightarrow> item \<Rightarrow> byte list" where
  "item_bytes s x = take (nat (nd_len (snd x))) (the (hp_data s (nd_data (snd x))))"

lemma get_list_item_rep:
  assumes rep: "sll_holds s xs"
  shows "sll_get_list_item s dest (int (length dest)) i =
    (if sl_tail_id s \<le> i \<and> i < sl_tail_id s + int (length xs)
     then let x = xs ! nat (i - sl_tail_id s) in
       if int (length dest) < nd_len (snd x) then Some (SLL_ITEM_BUF_NOT_ENOUGH_ERR, dest)
       else Some (nd_len (snd x), item_bytes s x @ drop (nat (nd_len (snd x))) dest)
     else Some (SLL_ITEM_EMPTY_ERR, dest))"
proof (cases "xs = []")
  case True
  then show ?thesis using rep by (simp add: sll_get_list_item_def sll_holds_def)
next
  case False
  have ch: "chain (hp_nodes s) (sl_list s) xs" and ids: "ids_from (sl_tail_id s) xs"
    and ok: "list_all (item_ok (hp_data s)) xs" using rep by (simp_all add: sll_holds_def)
  have nz: "sl_list s \<noteq> 0" using chain_empty [OF ch] False by simp
  note f = chain_find [OF ch False, of i] find_by_id [OF ids, of i]
  show ?thesis
  proof (cases "sl_tail_id s \<le> i \<and> i < sl_tail_id s + int (length xs)")
    case out: False
    then have "sll_find (hp_nodes s) i (sl_list s) = Some None"
      using f by (simp only: if_False option.map)
    then show ?thesis using nz out by (simp only: sll_get_list_item_def no_negative_word if_False) simp
  next
    case True
    define x where "x = xs ! nat (i - sl_tail_id s)"
    have "nat (i - sl_tail_id s) < length xs" using True by linarith
    then have xin: "x \<in> set xs" by (simp add: x_def)
    have node: "hp_nodes s (fst x) = Some (snd x)" using chain_nonzero [OF ch xin] by simp
    have xok: "item_ok (hp_data s) x" using ok xin by (simp add: list_all_iff)
    then obtain b where b: "hp_data s (nd_data (snd x)) = Some b" "nd_len (snd x) \<le> int (length b)"
        "0 \<le> nd_len (snd x)"
      by (auto simp: item_ok_def split: option.splits)
    have found: "sll_find (hp_nodes s) i (sl_list s) = Some (Some (fst x))"
      using f True by (simp add: x_def)
    have cmp: "nat (nd_len (snd x)) \<le> length b"
      "int (length dest) < nd_len (snd x) \<longleftrightarrow> \<not> nat (nd_len (snd x)) \<le> length dest"
      using b by linarith+
    show ?thesis
      using True nz found node b(1,3) cmp
      by (simp add: sll_get_list_item_def x_def [symmetric] Let_def mem_read_def mem_write_def
          item_bytes_def min_absorb2)
  qed
qed

section \<open>Readers\<close>

lemma holds_lock:
  assumes rep: "sll_holds s (x # xs)"
  shows "\<exists>s1 y. sll_get_list_item_lock s g (sl_tail_id s) =
      Some (nd_len (snd x), \<lparr>gd_id = sl_tail_id s, gd_data = nd_data (snd x), gd_len = nd_len (snd x),
        gd_list = fst x\<rparr>, s1) \<and>
    y = (fst x, (snd x)\<lparr>nd_user_num := nd_user_num (snd x) + 1\<rparr>) \<and> sll_holds s1 (y # xs) \<and>
    hp_data s1 = hp_data s \<and> s1 = s\<lparr>hp_nodes := (hp_nodes s)(fst x \<mapsto> snd y)\<rparr>"
proof -
  let ?y = "(fst x, (snd x)\<lparr>nd_user_num := nd_user_num (snd x) + 1\<rparr>)"
  let ?s1 = "s\<lparr>hp_nodes := (hp_nodes s)(fst x \<mapsto> snd ?y)\<rparr>"
  have ch: "sl_list s = fst x" "fst x \<noteq> 0" "hp_nodes s (fst x) = Some (snd x)"
      "chain (hp_nodes s) (nd_next (snd x)) xs" "fst x \<notin> fst ` set xs"
    and id: "nd_id (snd x) = sl_tail_id s" and hd: "sl_tail_id s \<le> sl_head_id s"
    using rep by (auto simp: sll_holds_def)
  have find: "sll_find (hp_nodes s) (sl_tail_id s) (fst x) = Some (Some (fst x))"
    using ch(3) id by (subst sll_find.simps) simp
  have "sll_get_list_item_lock s g (sl_tail_id s) =
      Some (nd_len (snd x), \<lparr>gd_id = sl_tail_id s, gd_data = nd_data (snd x), gd_len = nd_len (snd x),
        gd_list = fst x\<rparr>, ?s1)"
    using ch hd id find by (auto simp: sll_get_list_item_lock_def upd_node_def)
  moreover have "sll_holds ?s1 (?y # xs)"
    using rep ch by (simp add: sll_holds_def chain_upd item_ok_def split: option.splits)
  ultimately show ?thesis by simp
qed

section \<open>Running the list dry\<close>

text \<open>What a deletion needs and keeps when the counters are left aside.\<close>

definition chain_ok :: "sll \<Rightarrow> item list \<Rightarrow> bool" where
  "chain_ok s xs \<longleftrightarrow> chain (hp_nodes s) (sl_list s) xs \<and> distinct (map fst xs) \<and>
     distinct (map (\<lambda>x. nd_data (snd x)) xs) \<and> list_all (item_ok (hp_data s)) xs"

lemma holds_chain: "sll_holds s xs \<Longrightarrow> chain_ok s xs"
  by (simp add: sll_holds_def chain_ok_def)

lemma del_chain:
  assumes "chain_ok s (x # xs)"
  shows "\<exists>s'. sll_del_list_tail_item s = Some (1, s') \<and> chain_ok s' xs \<and>
    sl_max_item_size s' = sl_max_item_size s \<and>
    sl_all_data_size s' = (if nd_user_num (snd x) \<le> 0
       then sl_all_data_size s - word_of_int (nd_len (snd x)) else sl_all_data_size s)"
proof -
  obtain a n where x: "x = (a, n)" by force
  from assms x have list: "sl_list s = a" "a \<noteq> 0" "hp_nodes s a = Some n" "chain (hp_nodes s) (nd_next n) xs"
    and ok: "item_ok (hp_data s) (a, n)" "list_all (item_ok (hp_data s)) xs"
    and dist: "a \<notin> fst ` set xs" "nd_data n \<notin> (\<lambda>x. nd_data (snd x)) ` set xs"
      "distinct (map fst xs)" "distinct (map (\<lambda>x. nd_data (snd x)) xs)"
    by (auto simp: chain_ok_def)
  then obtain b where b: "hp_data s (nd_data n) = Some b" "nd_data n \<noteq> 0"
    by (auto simp: item_ok_def split: option.splits)
  show ?thesis
    using list b ok(2) dist x
    by (cases "nd_user_num n \<le> 0")
      (simp_all add: sll_del_list_tail_item_def sll_del_list_tail_item_no_lock_def free_item_def
        free_data_def free_node_def Let_def chain_ok_def chain_upd list_all_item_ok_upd)
qed

lemma del_empty:
  assumes "sl_list s = 0"
  shows "sll_del_list_tail_item s =
    Some (1, s\<lparr>sl_tail_id := sl_tail_id s + 1, sl_item_num := sl_item_num s - 1\<rparr>)"
  using assms by (simp add: sll_del_list_tail_item_def sll_del_list_tail_item_no_lock_def Let_def)

text \<open>The bytes of the items no reader holds.\<close>

definition unlocked_size :: "item list \<Rightarrow> nat" where
  "unlocked_size xs = sum_list (map (\<lambda>x. if nd_user_num (snd x) \<le> 0 then nat (nd_len (snd x)) else 0) xs)"

definition held_back :: "sll \<Rightarrow> bool" where
  "held_back s \<longleftrightarrow> (\<exists>xs L. chain_ok s xs \<and> unat (sl_all_data_size s) = unlocked_size xs + L \<and>
     unat (sl_max_item_size s) \<le> L)"

lemma held_back_step:
  assumes "held_back s"
  shows "sll_list_enable_add_item s = 0 \<and> (\<exists>s'. sll_del_list_tail_item s = Some (1, s') \<and> held_back s')"
proof -
  from assms obtain xs L where ch: "chain_ok s xs" and sz: "unat (sl_all_data_size s) = unlocked_size xs + L"
    and L: "unat (sl_max_item_size s) \<le> L" by (auto simp: held_back_def)
  have off: "sll_list_enable_add_item s = 0"
    using sz L by (simp add: sll_list_enable_add_item_def word_le_nat_alt)
  show ?thesis
  proof (cases xs)
    case Nil
    then have "sl_list s = 0" using ch by (simp add: chain_ok_def)
    moreover have "held_back (s\<lparr>sl_tail_id := sl_tail_id s + 1, sl_item_num := sl_item_num s - 1\<rparr>)"
      unfolding held_back_def using ch sz L by (intro exI [of _ xs] exI [of _ L]) (simp add: chain_ok_def)
    ultimately show ?thesis using off del_empty by blast
  next
    case (Cons x zs)
    obtain s' where s': "sll_del_list_tail_item s = Some (1, s')" "chain_ok s' zs"
      "sl_max_item_size s' = sl_max_item_size s" "sl_all_data_size s' = (if nd_user_num (snd x) \<le> 0
       then sl_all_data_size s - word_of_int (nd_len (snd x)) else sl_all_data_size s)"
      using del_chain [of s x zs] ch Cons by blast
    have len: "0 \<le> nd_len (snd x)" using ch Cons by (simp add: chain_ok_def item_ok_def)
    have "unat (sl_all_data_size s') = unlocked_size zs + L"
    proof (cases "nd_user_num (snd x) \<le> 0")
      case True
      then have "unat (sl_all_data_size s) = nat (nd_len (snd x)) + unlocked_size zs + L"
        using sz Cons by (simp add: unlocked_size_def)
      moreover have "word_of_int (nd_len (snd x)) = (of_nat (nat (nd_len (snd x))) :: u32)"
        using len by simp
      moreover have "unat (sl_all_data_size s) < 2 ^ 32"
        using unsigned_less [of "sl_all_data_size s", where ?'a = nat] by simp
      moreover from calculation have "unat (of_nat (nat (nd_len (snd x))) :: u32) = nat (nd_len (snd x))"
        by (intro unat_of_nat_u32) linarith
      ultimately show ?thesis using True s'(4) by (simp add: unat_sub_if')
    next
      case False
      then show ?thesis using s'(4) sz Cons by (simp add: unlocked_size_def)
    qed
    then have "held_back s'" unfolding held_back_def using s'(2,3) L by auto
    then show ?thesis using off s'(1) by blast
  qed
qed

lemma drain_diverges: "held_back s \<Longrightarrow> drain_until_enabled s = None"
proof -
  have "drain_until_enabled s = Some t \<Longrightarrow> \<not> held_back s" for t
  proof (rule drain_until_enabled.raw_induct [where P = "\<lambda>s _. \<not> held_back s"], rule notI)
    fix f s t
    assume IH: "\<And>s t. f s = Some t \<Longrightarrow> \<not> held_back s"
      and body: "(if sll_list_enable_add_item s = 0
        then do { (_, s1) \<leftarrow> sll_del_list_tail_item s; f s1 } else Some s) = Some t"
      and h: "held_back s"
    from held_back_step [OF h] obtain s' where s': "sll_list_enable_add_item s = 0"
      "sll_del_list_tail_item s = Some (1, s')" "held_back s'" by blast
    with body have "f s' = Some t" by simp
    from IH [OF this] s'(3) show False by blast
  qed
  then show "held_back s \<Longrightarrow> drain_until_enabled s = None" by (cases "drain_until_enabled s") auto
qed

section \<open>The clients when no reader holds an item\<close>

definition no_readers :: "item list \<Rightarrow> bool" where
  "no_readers xs \<longleftrightarrow> list_all (\<lambda>x. nd_user_num (snd x) = 0) xs"

definition fits_limits :: "sll \<Rightarrow> item list \<Rightarrow> bool" where
  "fits_limits s xs \<longleftrightarrow> items_size xs < int (unat (sl_max_item_size s)) \<and>
     length xs + 2 < unat (sl_max_item_num s)"

lemma items_size_nonneg: "list_all (item_ok b) xs \<Longrightarrow> 0 \<le> items_size xs"
  by (induction xs) (auto simp: item_ok_def)

lemma enabled_iff:
  assumes holds: "sll_holds s xs" and nf: "sl_all_not_free_data_size s = 0"
    and sz: "items_size xs < 2 ^ 32" and len: "length xs < 2 ^ 31"
  shows "sll_list_enable_add_item s = (if fits_limits s xs then 1 else 0)"
proof -
  have nn: "0 \<le> items_size xs" using holds items_size_nonneg by (auto simp: sll_holds_def)
  have "sl_all_data_size s = of_nat (nat (items_size xs))"
    using holds nf nn by (simp add: sll_holds_def)
  moreover have "nat (items_size xs) < 2 ^ 32" using sz nn by (simp add: nat_less_iff)
  ultimately have u: "unat (sl_all_data_size s) = nat (items_size xs)" by simp
  have n: "unat (sl_item_num s + 2) = length xs + 2"
    using item_num_unat [OF holds] len by (simp add: unat_word_ariths)
  have "items_size xs < int (unat (sl_max_item_size s)) \<longleftrightarrow>
      \<not> unat (sl_max_item_size s) \<le> nat (items_size xs)" using nn by linarith
  then show ?thesis using u n
    unfolding sll_list_enable_add_item_def fits_limits_def word_le_nat_alt word_less_nat_alt
    by (simp split: if_splits)
qed

lemma drain_rep:
  "sll_rep s xs \<Longrightarrow> no_readers xs \<Longrightarrow> sl_all_not_free_data_size s = 0 \<Longrightarrow> items_size xs < 2 ^ 32 \<Longrightarrow>
   length xs < 2 ^ 31 \<Longrightarrow> xs \<noteq> [] \<Longrightarrow> fits_limits s [last xs] \<Longrightarrow> fresh_for s xs a d len \<Longrightarrow>
   \<exists>k s'. k < length xs \<and> drain_until_enabled s = Some s' \<and> sll_rep s' (drop k xs) \<and>
     fits_limits s (drop k xs) \<and> (\<forall>j<k. \<not> fits_limits s (drop j xs)) \<and>
     fresh_for s' (drop k xs) a d len \<and> sl_max_item_num s' = sl_max_item_num s \<and>
     sl_max_item_size s' = sl_max_item_size s \<and> sl_seq_no s' = sl_seq_no s"
proof (induction xs arbitrary: s)
  case Nil
  then show ?case by simp
next
  case (Cons x xs)
  have holds: "sll_holds s (x # xs)" using Cons.prems(1) by (simp add: sll_rep_def)
  note en = enabled_iff [OF holds Cons.prems(3,4,5)]
  show ?case
  proof (cases "fits_limits s (x # xs)")
    case True
    then have "drain_until_enabled s = Some s" using en by (simp add: drain_until_enabled.simps)
    with True Cons.prems show ?thesis by (intro exI [of _ 0] exI [of _ s]) simp
  next
    case False
    then have ne: "xs \<noteq> []" using Cons.prems(7) by auto
    obtain s1 where s1: "sll_del_list_tail_item s = Some (1, s1)" "sll_rep s1 xs" "del_effect x s s1"
      using del_rep [OF Cons.prems(1)] ne by blast
    have eff: "sl_max_item_num s1 = sl_max_item_num s" "sl_max_item_size s1 = sl_max_item_size s"
      "sl_seq_no s1 = sl_seq_no s" "sl_all_not_free_data_size s1 = 0"
      using s1(3) Cons.prems(2,3) by (simp_all add: del_effect_def no_readers_def)
    have fl: "fits_limits s1 ys = fits_limits s ys" for ys using eff by (simp add: fits_limits_def)
    have "0 \<le> nd_len (snd x)" using holds by (simp add: sll_holds_def item_ok_def)
    then have "items_size xs < 2 ^ 32" using Cons.prems(4) by simp
    then obtain k s' where k: "k < length xs" "drain_until_enabled s1 = Some s'" "sll_rep s' (drop k xs)"
     "fits_limits s (drop k xs)" "\<forall>j<k. \<not> fits_limits s (drop j xs)"
     "fresh_for s' (drop k xs) a d len" "sl_max_item_num s' = sl_max_item_num s"
     "sl_max_item_size s' = sl_max_item_size s" "sl_seq_no s' = sl_seq_no s"
      using Cons.IH [OF s1(2)] Cons.prems ne eff fl fresh_after_del [OF Cons.prems(8) s1(3)]
      by (auto simp: no_readers_def)
    have "drain_until_enabled s = Some s'"
      using en False s1(1) k(2) by (subst drain_until_enabled.simps) simp
    moreover have "\<forall>j<Suc k. \<not> fits_limits s (drop j (x # xs))"
      using k(5) False by (auto simp: less_Suc_eq_0_disj)
    ultimately show ?thesis using k by (intro exI [of _ "Suc k"] exI [of _ s']) simp
  qed
qed

lemma clear_ok:
  "sll_holds s xs \<Longrightarrow> no_readers xs \<Longrightarrow> length xs < 2 ^ 31 \<Longrightarrow>
   \<exists>s'. clear_loop s = Some s' \<and> sll_holds s' [] \<and> sl_pListHead s' = sl_pListHead s \<and>
     (\<forall>x \<in> set xs. hp_nodes s' (fst x) = None) \<and> (\<forall>a. hp_nodes s a = None \<longrightarrow> hp_nodes s' a = None) \<and>
     sl_max_item_num s' = sl_max_item_num s \<and> sl_max_item_size s' = sl_max_item_size s \<and>
     sl_all_not_free_data_size s' = sl_all_not_free_data_size s"
proof (induction xs arbitrary: s)
  case Nil
  then have "sl_item_num s = 0" by (simp add: sll_holds_def)
  then have "clear_loop s = Some s" by (simp add: clear_loop.simps sll_list_item_num_def)
  with Nil show ?case by simp
next
  case (Cons x xs)
  have "unat (sl_item_num s) = length (x # xs)" using item_num_unat [OF Cons.prems(1)] .
  then have pos: "sll_list_item_num s > 0"
    using sint_small [of "sl_item_num s"] Cons.prems(3) by (simp add: sll_list_item_num_def)
  obtain s1 where s1: "sll_del_list_tail_item s = Some (1, s1)" "sll_holds s1 xs" "del_effect x s s1"
    using del_holds [OF Cons.prems(1)] by blast
  have eff: "sl_max_item_num s1 = sl_max_item_num s" "sl_max_item_size s1 = sl_max_item_size s"
    "sl_pListHead s1 = sl_pListHead s" "hp_nodes s1 = (hp_nodes s)(fst x := None)"
    "sl_all_not_free_data_size s1 = sl_all_not_free_data_size s"
    using s1(3) Cons.prems(2) by (simp_all add: del_effect_def no_readers_def)
  obtain s' where s': "clear_loop s1 = Some s'" "sll_holds s' []" "sl_pListHead s' = sl_pListHead s1"
     "\<forall>x \<in> set xs. hp_nodes s' (fst x) = None" "\<forall>a. hp_nodes s1 a = None \<longrightarrow> hp_nodes s' a = None"
     "sl_max_item_num s' = sl_max_item_num s1" "sl_max_item_size s' = sl_max_item_size s1"
     "sl_all_not_free_data_size s' = sl_all_not_free_data_size s1"
    using Cons.IH [OF s1(2)] Cons.prems(2,3) by (auto simp: no_readers_def)
  have "clear_loop s = Some s'" using pos s1(1) s'(1) by (subst clear_loop.simps) simp
  with s' eff show ?case by (intro exI [of _ s']) auto
qed

section \<open>Sample lists\<close>

definition sample_node :: "int \<Rightarrow> nat \<Rightarrow> int \<Rightarrow> int \<Rightarrow> nat \<Rightarrow> sll_node" where
  "sample_node i d len users next = \<lparr>nd_id = i, nd_data = d, nd_len = len, nd_user_num = users, nd_next = next\<rparr>"

text \<open>Two frames of 2 and 3 bytes at addresses 10 and 20, each held by \<open>users\<close> readers; a third
  data block at 203 waits to be added.\<close>

definition sample_sll :: "int \<Rightarrow> u32 \<Rightarrow> sll" where
  "sample_sll users max_size = \<lparr>sl_max_item_num = 10, sl_item_num = 2, sl_head_id = 8, sl_tail_id = 7,
     sl_seq_no = 9, sl_max_item_size = max_size, sl_all_data_size = 5, sl_list = 10, sl_pListHead = 20,
     sl_all_not_free_data_size = 0,
     hp_nodes = [10 \<mapsto> sample_node 7 201 2 users 20, 20 \<mapsto> sample_node 8 202 3 users 0],
     hp_data = [201 \<mapsto> [1, 2], 202 \<mapsto> [3, 4, 5], 203 \<mapsto> [6]]\<rparr>"

definition sample_items :: "int \<Rightarrow> item list" where
  "sample_items users = [(10, sample_node 7 201 2 users 20), (20, sample_node 8 202 3 users 0)]"

lemma sample_sll_rep: "0 \<le> users \<Longrightarrow> sll_rep (sample_sll users m) (sample_items users)"
  by (simp add: sll_rep_def sll_holds_def head_ok_def sample_sll_def sample_items_def
      sample_node_def item_ok_def)

lemma sample_sll_fresh: "fresh_for (sample_sll users m) (sample_items users) 30 203 1"
  by (simp add: fresh_for_def sample_sll_def sample_items_def sample_node_def)

section \<open>Properties\<close>

text \<open>C23: an append keeps the list and its bound. On a well-formed list that is not over its
  item limit, \<open>sll_add_list_item_no_malloc\<close> with fresh blocks returns 1, hangs the new item
  with the next id behind all others, evicts the oldest item exactly when the list was at
  \<open>max_item_num\<close>, keeps every other item, and leaves a well-formed list within the limit.\<close>
theorem sll_add_appends_within_limit:
  assumes "sll_rep s xs" and "fresh_for s xs a d len"
    and "2 \<le> unat (sl_max_item_num s)" and "unat (sl_max_item_num s) < 2 ^ 31"
    and "length xs \<le> unat (sl_max_item_num s)"
  shows "\<exists>s' ys. sll_add_list_item_no_malloc a s d len = Some (1, s') \<and>
    sll_rep s' (ys @ [(a, new_node (sl_seq_no s) d len)]) \<and>
    map strip ys = map strip (drop (if length xs = unat (sl_max_item_num s) then 1 else 0) xs) \<and>
    length ys < unat (sl_max_item_num s)"
  using add_no_malloc_rep [OF assms] by blast

lemma sll_add_appends_within_limit_witness:
  "\<exists>s' ys. sll_add_list_item_no_malloc 30 (sample_sll 0 100) 203 1 = Some (1, s') \<and>
    sll_rep s' (ys @ [(30, new_node 9 203 1)]) \<and> map strip ys = map strip (sample_items 0)"
proof -
  have m: "unat (sl_max_item_num (sample_sll 0 100)) = 10" "sl_seq_no (sample_sll 0 100) = 9"
    "length (sample_items 0) = 2" by (simp_all add: sample_sll_def sample_items_def)
  show ?thesis
    using sll_add_appends_within_limit [OF sample_sll_rep sample_sll_fresh, of 0 100] m by auto
qed

text \<open>Lookup by id. \<open>sll_get_list_item\<close> finds exactly the ids from \<open>tail_id\<close> up to the number
  of items, copies that item's bytes to the start of the destination and returns its length;
  a destination that is too short is refused with \<open>SLL_ITEM_BUF_NOT_ENOUGH_ERR\<close> and an id
  outside the window with \<open>SLL_ITEM_EMPTY_ERR\<close>, the destination untouched.\<close>
theorem sll_lookup_by_id:
  assumes "sll_holds s xs"
  shows "sll_get_list_item s dest (int (length dest)) i =
    (if sl_tail_id s \<le> i \<and> i < sl_tail_id s + int (length xs)
     then let x = xs ! nat (i - sl_tail_id s) in
       if int (length dest) < nd_len (snd x) then Some (SLL_ITEM_BUF_NOT_ENOUGH_ERR, dest)
       else Some (nd_len (snd x), item_bytes s x @ drop (nat (nd_len (snd x))) dest)
     else Some (SLL_ITEM_EMPTY_ERR, dest))"
  using get_list_item_rep [OF assms] .

lemma sll_lookup_by_id_witness:
  "sll_get_list_item (sample_sll 0 100) [0, 0, 0, 0] 4 8 = Some (3, [3, 4, 5, 0])"
  using sll_lookup_by_id [of "sample_sll 0 100" "sample_items 0" "[0, 0, 0, 0]" 8] sample_sll_rep [of 0 100]
  by (simp add: sll_rep_def) (simp add: sample_sll_def sample_items_def sample_node_def item_bytes_def Let_def)



text \<open>An unlock on a drained list leaks. When the locked item was the only one, the eviction
  empties the list, and \<open>sll_get_list_item_unlock\<close> then returns at its empty-list test: the
  node and its data stay allocated and counted for ever.\<close>
theorem unlock_after_drain_leaks:
  assumes "sll_holds s [x]" and "nd_user_num (snd x) = 0"
  shows "\<exists>g' s1 s2. sll_get_list_item_lock s g (sl_tail_id s) = Some (nd_len (snd x), g', s1) \<and>
    sll_del_list_tail_item s1 = Some (1, s2) \<and>
    sll_get_list_item_unlock s2 g' = Some (SLL_ITEM_EMPTY_ERR, g', s2) \<and>
    hp_nodes s2 (fst x) \<noteq> None \<and> hp_data s2 (nd_data (snd x)) \<noteq> None \<and>
    sl_all_not_free_data_size s2 = sl_all_not_free_data_size s + word_of_int (nd_len (snd x))"
proof -
  let ?g = "\<lparr>gd_id = sl_tail_id s, gd_data = nd_data (snd x), gd_len = nd_len (snd x), gd_list = fst x\<rparr>"
  let ?y = "(fst x, (snd x)\<lparr>nd_user_num := nd_user_num (snd x) + 1\<rparr>)"
  obtain s1 where s1: "sll_get_list_item_lock s g (sl_tail_id s) = Some (nd_len (snd x), ?g, s1)"
    "sll_holds s1 [?y]" "hp_data s1 = hp_data s" "s1 = s\<lparr>hp_nodes := (hp_nodes s)(fst x \<mapsto> snd ?y)\<rparr>"
    using holds_lock [OF assms(1), of g] by blast
  obtain s2 where s2: "sll_del_list_tail_item s1 = Some (1, s2)" "sll_holds s2 []" "del_effect ?y s1 s2"
    using del_holds [OF s1(2)] by blast
  have "sl_list s2 = 0" using s2(2) by (simp add: sll_holds_def)
  then have "sll_get_list_item_unlock s2 ?g = Some (SLL_ITEM_EMPTY_ERR, ?g, s2)"
    by (simp add: sll_get_list_item_unlock_def)
  moreover have "hp_data s (nd_data (snd x)) \<noteq> None"
    using assms(1) by (auto simp: sll_holds_def item_ok_def split: option.splits)
  ultimately show ?thesis
    using s1 s2(1,3) assms(2) by (intro exI [of _ ?g] exI [of _ s1] exI [of _ s2]) (auto simp: del_effect_def)
qed

definition one_item_sll :: sll where
  "one_item_sll = (sample_sll 0 100)\<lparr>sl_item_num := 1, sl_tail_id := 8, sl_all_data_size := 3, sl_list := 20\<rparr>"

lemma unlock_after_drain_leaks_witness:
  "\<exists>g' s1 s2. sll_get_list_item_lock one_item_sll \<lparr>gd_id = 0, gd_data = 0, gd_len = 0, gd_list = 0\<rparr> 8 =
      Some (3, g', s1) \<and> sll_del_list_tail_item s1 = Some (1, s2) \<and>
    sll_get_list_item_unlock s2 g' = Some (SLL_ITEM_EMPTY_ERR, g', s2) \<and> hp_nodes s2 20 \<noteq> None"
proof -
  have "sll_holds one_item_sll [(20, sample_node 8 202 3 0 0)]"
    by (simp add: sll_holds_def one_item_sll_def sample_sll_def sample_node_def item_ok_def)
  from unlock_after_drain_leaks [OF this, of "\<lparr>gd_id = 0, gd_data = 0, gd_len = 0, gd_list = 0\<rparr>"]
  show ?thesis by (auto simp: one_item_sll_def sample_sll_def sample_node_def)
qed

text \<open>C30: \<open>DC_InsertListData\<close> returns and bounds the list. With no reader holding an item and
  the newest item alone within the limits, its eviction loop stops after the fewest
  evictions that bring the list under both limits, never empties the list, and the new item
  is appended behind the items that are left.\<close>
theorem DC_InsertListData_evicts_minimum:
  assumes "sll_rep s xs" and "no_readers xs" and "sl_all_not_free_data_size s = 0"
    and "items_size xs < 2 ^ 32" and "length xs < 2 ^ 31" and "xs \<noteq> []" and "fits_limits s [last xs]"
    and "fresh_for s xs a d len" and "unat (sl_max_item_num s) < 2 ^ 31"
  shows "\<exists>k ys s'. k < length xs \<and> (\<forall>j<k. \<not> fits_limits s (drop j xs)) \<and> fits_limits s (drop k xs) \<and>
    DC_InsertListData a s d len = Some (1, s') \<and>
    sll_rep s' (ys @ [(a, new_node (sl_seq_no s) d len)]) \<and> map strip ys = map strip (drop k xs)"
proof -
  obtain k s1 where k: "k < length xs" "drain_until_enabled s = Some s1" "sll_rep s1 (drop k xs)"
     "fits_limits s (drop k xs)" "\<forall>j<k. \<not> fits_limits s (drop j xs)" "fresh_for s1 (drop k xs) a d len"
     "sl_max_item_num s1 = sl_max_item_num s" "sl_seq_no s1 = sl_seq_no s"
    using drain_rep [OF assms(1-8)] by blast
  have lim: "length (drop k xs) + 2 < unat (sl_max_item_num s1)" using k(4,7) by (simp add: fits_limits_def)
  obtain s' ys where "sll_add_list_item_no_malloc a s1 d len = Some (1, s')"
    "sll_rep s' (ys @ [(a, new_node (sl_seq_no s1) d len)])" "map strip ys = map strip (drop k xs)"
    using add_no_malloc_rep [OF k(3,6)] lim assms(9) k(7) by auto
  then show ?thesis using k by (intro exI [of _ k] exI [of _ ys] exI [of _ s']) (simp add: DC_InsertListData_def)
qed

lemma DC_InsertListData_evicts_minimum_witness:
  "\<exists>ys s'. DC_InsertListData 30 (sample_sll 0 4) 203 1 = Some (1, s') \<and>
    sll_rep s' (ys @ [(30, new_node 9 203 1)]) \<and> map strip ys = map strip [(20, sample_node 8 202 3 0 0)]"
proof -
  have f: "fits_limits (sample_sll 0 4) ys \<longleftrightarrow> items_size ys < 4 \<and> length ys < 8" for ys
    by (auto simp: fits_limits_def sample_sll_def)
  have "no_readers (sample_items 0)" "items_size (sample_items 0) = 5" "length (sample_items 0) = 2"
    "last (sample_items 0) = (20, sample_node 8 202 3 0 0)"
    "sl_all_not_free_data_size (sample_sll 0 4) = 0" "unat (sl_max_item_num (sample_sll 0 4)) = 10"
    "sl_seq_no (sample_sll 0 4) = 9" "sample_items 0 \<noteq> []"
    by (simp_all add: no_readers_def sample_items_def sample_node_def sample_sll_def)
  from DC_InsertListData_evicts_minimum [OF sample_sll_rep this(1,5) _ _ this(8) _ sample_sll_fresh] this f
  obtain k ys s' where k: "k < 2" "\<forall>j<k. \<not> fits_limits (sample_sll 0 4) (drop j (sample_items 0))"
     "fits_limits (sample_sll 0 4) (drop k (sample_items 0))"
     "DC_InsertListData 30 (sample_sll 0 4) 203 1 = Some (1, s')"
     "sll_rep s' (ys @ [(30, new_node 9 203 1)])" "map strip ys = map strip (drop k (sample_items 0))"
    by (auto simp: sample_node_def)
  have "k \<noteq> 0" using k(3) f by (intro notI) (simp add: sample_items_def sample_node_def)
  then have "k = 1" using k(1) by simp
  with k show ?thesis by (auto simp: sample_items_def)
qed

text \<open>C40: \<open>DC_InsertListData\<close> hangs when readers hold too much. Once the bytes of the items that
  readers hold (in the list or already evicted) reach \<open>max_item_size\<close>, evictions no longer
  bring the byte counter under the limit, and the loop runs for ever.\<close>
theorem DC_InsertListData_hangs_on_locked_items:
  assumes "sll_holds s xs" and "unat (sl_all_data_size s) = unlocked_size xs + held"
    and "unat (sl_max_item_size s) \<le> held"
  shows "DC_InsertListData a s d len = None"
proof -
  have "held_back s" using holds_chain [OF assms(1)] assms(2,3) by (auto simp: held_back_def)
  then show ?thesis using drain_diverges by (simp add: DC_InsertListData_def)
qed

lemma DC_InsertListData_hangs_on_locked_items_witness:
  "DC_InsertListData 30 (sample_sll 1 4) 203 1 = None"
proof -
  have "sll_holds (sample_sll 1 4) (sample_items 1)" using sample_sll_rep [of 1 4] by (simp add: sll_rep_def)
  from DC_InsertListData_hangs_on_locked_items [OF this, of 5] show ?thesis
    by (simp add: unlocked_size_def sample_sll_def sample_items_def sample_node_def)
qed

text \<open>Clearing a list leaves its cached head dangling. \<open>DC_ClearListData\<close> frees every node but
  keeps \<open>pListHead\<close>; the first insertion afterwards starts a new list without looking at it,
  and the second one writes its link into the freed node.\<close>
theorem insert_after_clear_uses_freed_node:
  assumes "sll_rep s xs" and "no_readers xs" and "2 \<le> length xs" and "length xs < 2 ^ 31"
    and "sl_all_not_free_data_size s = 0" and "3 < unat (sl_max_item_num s)"
    and "unat (sl_max_item_num s) < 2 ^ 31" and "0 \<le> len1" and "len1 < int (unat (sl_max_item_size s))"
    and "hp_nodes s a1 = None" "hp_nodes s a2 = None" "a1 \<noteq> 0" "a2 \<noteq> 0" "a1 \<noteq> a2" "d1 \<noteq> 0" "d2 \<noteq> 0"
  shows "\<exists>s1 s2. DC_ClearListData s = Some (1, s1) \<and> DC_InsertListData a1 s1 d1 len1 = Some (1, s2) \<and>
    DC_InsertListData a2 s2 d2 len2 = None"
proof -
  have holds: "sll_holds s xs" using assms(1) by (simp add: sll_rep_def)
  define p where "p = sl_pListHead s"
  have "sl_pListHead s \<noteq> 0" "xs \<noteq> []" "p = fst (last xs)"
    using assms(1,3) by (auto simp: sll_rep_def head_ok_def p_def split: if_splits)
  then have p: "p \<noteq> 0" "last xs \<in> set xs" "p = fst (last xs)" by (auto simp: p_def)
  obtain s1 where s1: "clear_loop s = Some s1" "sll_holds s1 []" "sl_pListHead s1 = p"
    "hp_nodes s1 p = None" "hp_nodes s1 a1 = None" "hp_nodes s1 a2 = None"
    "sl_max_item_num s1 = sl_max_item_num s" "sl_max_item_size s1 = sl_max_item_size s"
    "sl_all_not_free_data_size s1 = 0"
    using clear_ok [OF holds assms(2,4)] assms(5,10,11) p by (auto simp: p_def)
  have "hp_nodes s p \<noteq> None"
    using holds p chain_nonzero [of "hp_nodes s" "sl_list s" xs "last xs"] by (simp add: sll_holds_def)
  then have ne: "a1 \<noteq> p" "a2 \<noteq> p" using assms(10,11) by auto
  have z: "sl_item_num s1 = 0" "sl_all_data_size s1 = 0" "sl_list s1 = 0" "hp_nodes s1 0 = None"
    using s1(2,9) by (simp_all add: sll_holds_def)
  define M where "M = unat (sl_max_item_num s)"
  have M: "3 < M" "M < 2 ^ 31" using assms(6,7) by (simp_all add: M_def)
  have le: "2 < sl_max_item_num s" "3 < sl_max_item_num s" "\<not> 1 > sl_max_item_num s" "\<not> 2 > sl_max_item_num s"
    using M by (simp_all add: word_less_nat_alt M_def [symmetric])
  have "sl_max_item_size s \<noteq> 0" using assms(8,9) by (intro notI) simp
  then have big: "0 < sl_max_item_size s" by (simp add: word_gt_0)
  have "sll_list_enable_add_item s1 = 1"
    using z s1(7,8) le big by (simp add: sll_list_enable_add_item_def not_le)
  then have "drain_until_enabled s1 = Some s1" by (simp add: drain_until_enabled.simps)
  moreover have "sll_make_room s1 = Some (True, s1)" using z s1(7) le by (simp add: sll_make_room_def)
  moreover define s2 where "s2 = s1\<lparr>hp_nodes := (hp_nodes s1)(a1 \<mapsto> new_node (sl_seq_no s1) d1 len1),
      sl_seq_no := sl_seq_no s1 + 1, sl_head_id := sl_seq_no s1, sl_item_num := 1, sl_list := a1,
      sl_all_data_size := word_of_int len1\<rparr>"
  moreover have "sll_link a1 d1 len1 s1 = Some s2"
    using z by (simp add: sll_link_def s2_def new_node_def Let_def)
  ultimately have i1: "DC_InsertListData a1 s1 d1 len1 = Some (1, s2)"
    using assms(12,15) by (simp add: DC_InsertListData_def sll_add_list_item_no_malloc_def)
  have "unat (word_of_int len1 :: u32) = nat len1"
  proof -
    have "int (unat (sl_max_item_size s)) < 2 ^ 32"
      using unsigned_less [of "sl_max_item_size s", where ?'a = int] by simp
    then have "nat len1 < 2 ^ 32" using assms(8,9) by (simp add: nat_less_iff)
    moreover have "word_of_int len1 = (of_nat (nat len1) :: u32)" using assms(8) by simp
    ultimately show ?thesis by simp
  qed
  moreover have "\<not> unat (sl_max_item_size s) \<le> nat len1" using assms(8,9) by linarith
  ultimately have "\<not> word_of_int len1 \<ge> sl_max_item_size s" by (simp add: word_le_nat_alt)
  then have "sll_list_enable_add_item s2 = 1"
    using s1(7,8) le by (simp add: sll_list_enable_add_item_def s2_def)
  then have "drain_until_enabled s2 = Some s2" by (simp add: drain_until_enabled.simps)
  moreover have "sll_make_room s2 = Some (True, s2)" using s1(7) le by (simp add: sll_make_room_def s2_def)
  moreover have "sll_link a2 d2 len2 s2 = None"
    using assms(12) p(1) s1(3,4) ne by (simp add: sll_link_def s2_def upd_node_def Let_def)
  ultimately have "DC_InsertListData a2 s2 d2 len2 = None"
    using assms(13,16) by (simp add: DC_InsertListData_def sll_add_list_item_no_malloc_def)
  with i1 s1(1) show ?thesis by (auto simp: DC_ClearListData_def)
qed

lemma insert_after_clear_uses_freed_node_witness:
  "\<exists>s1 s2. DC_ClearListData (sample_sll 0 100) = Some (1, s1) \<and>
    DC_InsertListData 30 s1 203 1 = Some (1, s2) \<and> DC_InsertListData 40 s2 204 1 = None"
  using insert_after_clear_uses_freed_node [OF sample_sll_rep, of 0 100 1 30 40 203 204 1]
  by (simp add: no_readers_def sample_items_def sample_sll_def sample_node_def)

text \<open>Evicting from an empty list corrupts it. The guard \<open>item_num - 1 < 0\<close> is an unsigned
  comparison and never holds: the deletion sets \<open>item_num\<close> to \<open>0xFFFFFFFF\<close> and moves
  \<open>tail_id\<close> past the next id, so the frame added next is in the list but no reader can
  lock it: every id is outside the window from \<open>tail_id\<close> to \<open>head_id\<close>.\<close>
theorem delete_on_empty_hides_next_item:
  assumes "sll_rep s []" and "a \<noteq> 0" and "d \<noteq> 0" and "0 < sl_max_item_num s"
  shows "\<exists>s1 s2. sll_del_list_tail_item s = Some (1, s1) \<and> sl_item_num s1 = - 1 \<and>
    sll_add_list_item_no_malloc a s1 d len = Some (1, s2) \<and> sl_list s2 = a \<and> sl_item_num s2 = 0 \<and>
    (\<forall>g i. sll_get_list_item_lock s2 g i = Some (SLL_ITEM_EMPTY_ERR, g, s2))"
proof -
  have z: "sl_list s = 0" "sl_item_num s = 0" "sl_seq_no s = sl_tail_id s" "hp_nodes s 0 = None"
    using assms(1) by (simp_all add: sll_rep_def sll_holds_def)
  define s1 where "s1 = s\<lparr>sl_tail_id := sl_tail_id s + 1, sl_item_num := - 1\<rparr>"
  have del: "sll_del_list_tail_item s = Some (1, s1)" using del_empty [OF z(1)] z(2) by (simp add: s1_def)
  define s2 where "s2 = s1\<lparr>hp_nodes := (hp_nodes s1)(a \<mapsto> new_node (sl_seq_no s) d len),
      sl_seq_no := sl_seq_no s + 1, sl_head_id := sl_seq_no s, sl_item_num := 0, sl_list := a,
      sl_all_data_size := sl_all_data_size s + word_of_int len\<rparr>"
  have "sll_make_room s1 = Some (True, s1)" by (simp add: sll_make_room_def s1_def)
  moreover have "sll_link a d len s1 = Some s2"
    using z by (simp add: sll_link_def s1_def s2_def new_node_def Let_def)
  ultimately have add: "sll_add_list_item_no_malloc a s1 d len = Some (1, s2)"
    using assms(2,3) by (simp add: sll_add_list_item_no_malloc_def)
  have "sll_get_list_item_lock s2 g i = Some (SLL_ITEM_EMPTY_ERR, g, s2)" for g i
    using z(3) by (simp add: sll_get_list_item_lock_def s2_def s1_def)
  with del add show ?thesis by (intro exI [of _ s1] exI [of _ s2]) (simp add: s1_def s2_def)
qed

lemma delete_on_empty_hides_next_item_witness:
  "\<exists>s1 s2. sll_del_list_tail_item (sll_init_list Map.empty Map.empty 60 1000) = Some (1, s1) \<and>
    sl_item_num s1 = - 1 \<and> sll_add_list_item_no_malloc 30 s1 203 1 = Some (1, s2) \<and> sl_item_num s2 = 0"
proof -
  have "sll_rep (sll_init_list Map.empty Map.empty 60 1000) []"
    by (simp add: sll_rep_def sll_holds_def head_ok_def sll_init_list_def)
  from delete_on_empty_hides_next_item [OF this, of 30 203 1] show ?thesis
    by (auto simp: sll_init_list_def)
qed

section \<open>Destroying the list\<close>

lemma free_from_ok:
  "chain (hp_nodes s) cur xs \<Longrightarrow> xs \<noteq> [] \<Longrightarrow> distinct (map fst xs) \<Longrightarrow>
   distinct (map (\<lambda>x. nd_data (snd x)) xs) \<Longrightarrow> list_all (item_ok (hp_data s)) xs \<Longrightarrow>
   \<exists>s'. sll_free_from cur s = Some s' \<and>
     hp_nodes s' = (\<lambda>a. if a \<in> fst ` set xs then None else hp_nodes s a) \<and>
     hp_data s' = (\<lambda>d. if d \<in> (\<lambda>x. nd_data (snd x)) ` set xs then None else hp_data s d)"
proof (induction xs arbitrary: cur s)
  case Nil
  then show ?case by simp
next
  case (Cons x xs)
  from Cons.prems have cur: "cur = fst x" "hp_nodes s cur = Some (snd x)" "cur \<noteq> 0"
    and ch: "chain (hp_nodes s) (nd_next (snd x)) xs" and notin: "fst x \<notin> fst ` set xs"
    and dnotin: "nd_data (snd x) \<notin> (\<lambda>x. nd_data (snd x)) ` set xs" by auto
  obtain b where b: "hp_data s (nd_data (snd x)) = Some b" "nd_data (snd x) \<noteq> 0"
    using Cons.prems(5) by (auto simp: item_ok_def split: option.splits)
  define s1 where "s1 = s\<lparr>hp_data := (hp_data s)(nd_data (snd x) := None), hp_nodes := (hp_nodes s)(cur := None)\<rparr>"
  have f: "free_item cur (snd x) s = Some s1"
    using b cur(2) by (simp add: free_item_def free_data_def free_node_def s1_def)
  show ?case
  proof (cases "xs = []")
    case True
    then have "sll_free_from cur s = Some s1" using ch cur(2) f by (simp add: sll_free_from.simps)
    then show ?thesis using True cur(1) by (auto simp: s1_def fun_eq_iff)
  next
    case False
    have ch1: "chain (hp_nodes s1) (nd_next (snd x)) xs" using ch notin cur(1) by (simp add: s1_def chain_upd)
    have ok1: "list_all (item_ok (hp_data s1)) xs"
      using Cons.prems(5) dnotin by (simp add: s1_def list_all_item_ok_upd)
    have nz: "nd_next (snd x) \<noteq> 0" using chain_empty [OF ch] False by simp
    obtain s' where s': "sll_free_from (nd_next (snd x)) s1 = Some s'"
      "hp_nodes s' = (\<lambda>a. if a \<in> fst ` set xs then None else hp_nodes s1 a)"
      "hp_data s' = (\<lambda>d. if d \<in> (\<lambda>x. nd_data (snd x)) ` set xs then None else hp_data s1 d)"
      using Cons.IH [OF ch1 False _ _ ok1] Cons.prems(3,4) by auto
    have "sll_free_from cur s = Some s'"
      using f cur(2) nz s'(1) by (subst sll_free_from.simps) simp
    then show ?thesis using s'(2,3) cur(1) by (auto simp: s1_def fun_eq_iff)
  qed
qed

text \<open>\<open>sll_destroy_list\<close> returns and frees exactly the list: every node and every data block
  of a well-formed list is freed once, no other block of the heap is touched, and the list
  is empty afterwards. Items that readers still hold are freed under them.\<close>
theorem sll_destroy_frees_exactly_the_list:
  assumes "sll_holds s xs"
  shows "\<exists>s'. sll_destroy_list s = Some (1, s') \<and> sll_rep s' [] \<and>
    hp_nodes s' = (\<lambda>a. if a \<in> fst ` set xs then None else hp_nodes s a) \<and>
    hp_data s' = (\<lambda>d. if d \<in> (\<lambda>x. nd_data (snd x)) ` set xs then None else hp_data s d)"
proof (cases "xs = []")
  case True
  then show ?thesis using assms
    by (simp add: sll_destroy_list_def sll_init_list_def sll_holds_def sll_rep_def head_ok_def)
next
  case False
  have ch: "chain (hp_nodes s) (sl_list s) xs" "distinct (map fst xs)"
    "distinct (map (\<lambda>x. nd_data (snd x)) xs)" "list_all (item_ok (hp_data s)) xs" "hp_nodes s 0 = None"
    using assms by (simp_all add: sll_holds_def)
  obtain s1 where s1: "sll_free_from (sl_list s) s = Some s1"
     "hp_nodes s1 = (\<lambda>a. if a \<in> fst ` set xs then None else hp_nodes s a)"
     "hp_data s1 = (\<lambda>d. if d \<in> (\<lambda>x. nd_data (snd x)) ` set xs then None else hp_data s d)"
    using free_from_ok [OF ch(1) False ch(2,3,4)] by blast
  have nz: "sl_list s \<noteq> 0" using chain_empty [OF ch(1)] False by simp
  then show ?thesis using s1 ch(5)
    by (simp add: sll_destroy_list_def sll_init_list_def sll_holds_def sll_rep_def head_ok_def)
qed

lemma sll_destroy_frees_exactly_the_list_witness:
  "\<exists>s'. sll_destroy_list (sample_sll 0 100) = Some (1, s') \<and> hp_nodes s' 20 = None \<and> hp_data s' 203 = Some [6]"
proof -
  have "sll_holds (sample_sll 0 100) (sample_items 0)" using sample_sll_rep [of 0 100] by (simp add: sll_rep_def)
  from sll_destroy_frees_exactly_the_list [OF this] show ?thesis
    by (auto simp: sample_items_def sample_node_def sample_sll_def)
qed

end
