(* ===== verification/G711.thy ===== *)
theory G711
  imports Ipc_Base
begin

text \<open>
  The G.711 audio codec of \<open>src/FileSystem/avicodelib/G711_lib.c\<close>: A-law and u-law encoding
  and decoding of 16-bit samples, the two transcoders and the buffer functions. All values
  are C \<open>int\<close>s or \<open>unsigned char\<close>s far from overflow and are taken as integers; a conversion to
  \<open>unsigned char\<close> is the remainder modulo 256.
\<close>

unbundle bit_operations_syntax

section \<open>Tables\<close>

definition seg_end :: "int list" where
  "seg_end = [0xFF, 0x1FF, 0x3FF, 0x7FF, 0xFFF, 0x1FFF, 0x3FFF, 0x7FFF]"

definition u2a :: "int list" where
  "u2a = [1, 1, 2, 2, 3, 3, 4, 4,
     5, 5, 6, 6, 7, 7, 8, 8,
     9, 10, 11, 12, 13, 14, 15, 16,
     17, 18, 19, 20, 21, 22, 23, 24,
     25, 27, 29, 31, 33, 34, 35, 36,
     37, 38, 39, 40, 41, 42, 43, 44,
     46, 48, 49, 50, 51, 52, 53, 54,
     55, 56, 57, 58, 59, 60, 61, 62,
     64, 65, 66, 67, 68, 69, 70, 71,
     72, 73, 74, 75, 76, 77, 78, 79,
     81, 82, 83, 84, 85, 86, 87, 88,
     89, 90, 91, 92, 93, 94, 95, 96,
     97, 98, 99, 100, 101, 102, 103, 104,
     105, 106, 107, 108, 109, 110, 111, 112,
     113, 114, 115, 116, 117, 118, 119, 120,
     121, 122, 123, 124, 125, 126, 127, 128]"

definition a2u :: "int list" where
  "a2u = [1, 3, 5, 7, 9, 11, 13, 15,
     16, 17, 18, 19, 20, 21, 22, 23,
     24, 25, 26, 27, 28, 29, 30, 31,
     32, 32, 33, 33, 34, 34, 35, 35,
     36, 37, 38, 39, 40, 41, 42, 43,
     44, 45, 46, 47, 48, 48, 49, 49,
     50, 51, 52, 53, 54, 55, 56, 57,
     58, 59, 60, 61, 62, 63, 64, 64,
     65, 66, 67, 68, 69, 70, 71, 72,
     73, 74, 75, 76, 77, 78, 79, 79,
     80, 81, 82, 83, 84, 85, 86, 87,
     88, 89, 90, 91, 92, 93, 94, 95,
     96, 97, 98, 99, 100, 101, 102, 103,
     104, 105, 106, 107, 108, 109, 110, 111,
     112, 113, 114, 115, 116, 117, 118, 119,
     120, 121, 122, 123, 124, 125, 126, 127]"

section \<open>Sample codecs\<close>

primrec search_loop :: "int \<Rightarrow> int list \<Rightarrow> nat \<Rightarrow> nat" where
  "search_loop val [] i = i"
| "search_loop val (t # ts) i = (if val \<le> t then i else search_loop val ts (i + 1))"

definition search :: "int \<Rightarrow> int list \<Rightarrow> nat \<Rightarrow> nat" where
  "search val table n = search_loop val (take n table) 0"

text \<open>The part of \<open>linear2alaw\<close> behind the sign: magnitude and mask to code.\<close>

definition alaw_code :: "int \<Rightarrow> int \<Rightarrow> int" where
  "alaw_code mk pcm =
     (let seg = search pcm seg_end 8
      in if seg \<ge> 8 then 0x7F XOR mk
      else if seg < 2 then (push_bit 4 (int seg) OR (drop_bit 4 pcm AND 0xf)) XOR mk
      else (push_bit 4 (int seg) OR (drop_bit (seg + 3) pcm AND 0xf)) XOR mk)"

definition linear2alaw :: "int \<Rightarrow> int" where
  "linear2alaw pcm_val =
     (if pcm_val \<ge> 0 then alaw_code 0xD5 pcm_val else alaw_code 0x55 (- pcm_val - 8)) mod 256"

definition alaw2linear :: "int \<Rightarrow> int" where
  "alaw2linear a0 =
     (let a_val = a0 XOR 0x55;
          t = push_bit 4 (a_val AND 0xf);
          seg = nat (drop_bit 4 (a_val AND 0x70));
          t' = (if seg = 0 then t + 8
                else if seg = 1 then t + 0x108
                else push_bit (seg - 1) (t + 0x108))
      in if a_val AND 0x80 \<noteq> 0 then t' else - t')"

definition BIAS :: int where "BIAS = 0x84"

definition linear2ulaw :: "int \<Rightarrow> int" where
  "linear2ulaw pcm_val =
     (let (pcm, mk) = (if pcm_val < 0 then (BIAS - pcm_val, 0x7F) else (pcm_val + BIAS, 0xFF));
          seg = search pcm seg_end 8
      in (if seg \<ge> 8 then 0x7F XOR mk
          else (push_bit 4 (int seg) OR (drop_bit (seg + 3) pcm AND 0xF)) XOR mk) mod 256)"

definition ulaw2linear :: "int \<Rightarrow> int" where
  "ulaw2linear u0 =
     (let u_val = (NOT u0) mod 256;
          t = push_bit (nat (drop_bit 4 (u_val AND 0x70))) (push_bit 3 (u_val AND 0xf) + BIAS)
      in if u_val AND 0x80 \<noteq> 0 then BIAS - t else t - BIAS)"

text \<open>A table read outside the 128 entries is undefined.\<close>

definition table_get :: "int list \<Rightarrow> int \<Rightarrow> int option" where
  "table_get t i = (if 0 \<le> i \<and> i < int (length t) then Some (t ! nat i) else None)"

definition alaw2ulaw :: "int \<Rightarrow> int option" where
  "alaw2ulaw aval =
     (if aval AND 0x80 \<noteq> 0
      then do { v \<leftarrow> table_get u2a (aval XOR 0xD5); Some ((0xFF XOR v) mod 256) }
      else do { v \<leftarrow> table_get u2a (aval XOR 0x55); Some ((0x7F XOR v) mod 256) })"

definition ulaw2alaw :: "int \<Rightarrow> int option" where
  "ulaw2alaw uval =
     (if uval AND 0x80 \<noteq> 0
      then do { v \<leftarrow> table_get u2a (0xFF XOR uval); Some ((0xD5 XOR (v - 1)) mod 256) }
      else do { v \<leftarrow> table_get u2a (0x7F XOR uval); Some ((0x55 XOR (v - 1)) mod 256) })"

section \<open>Buffers\<close>

definition G711_ULAW :: int where "G711_ULAW = 0"

text \<open>The samples of a block: little-endian signed 16-bit words.\<close>

fun samples :: "byte list \<Rightarrow> int list" where
  "samples (a # b # r) = sint (le_decode [a, b] :: 16 word) # samples r"
| "samples _ = []"

definition sample_bytes :: "int list \<Rightarrow> byte list" where
  "sample_bytes xs = concat (map (\<lambda>x. le_encode 2 (word_of_int x :: 16 word)) xs)"

text \<open>Both functions walk their source with one output per input; \<open>n\<close> is the size in bytes.\<close>

definition G711_EnCode :: "byte list \<Rightarrow> byte list \<Rightarrow> nat \<Rightarrow> int \<Rightarrow> (nat \<times> byte list) option" where
  "G711_EnCode pCodecBits pBuffer n g711_type = do {
     src \<leftarrow> mem_read pBuffer 0 (2 * (n div 2));
     let f = (if g711_type = G711_ULAW then linear2ulaw else linear2alaw);
     out \<leftarrow> mem_write pCodecBits 0 (map (\<lambda>x. word_of_int (f x)) (samples src));
     Some (n div 2, out)
   }"

definition G711_Decode :: "byte list \<Rightarrow> byte list \<Rightarrow> nat \<Rightarrow> int \<Rightarrow> (nat \<times> byte list) option" where
  "G711_Decode pRawData pBuffer n g711_type = do {
     src \<leftarrow> mem_read pBuffer 0 n;
     let f = (if g711_type = G711_ULAW then ulaw2linear else alaw2linear);
     out \<leftarrow> mem_write pRawData 0 (sample_bytes (map (\<lambda>b. f (uint b)) src));
     Some (n * 2, out)
   }"

section \<open>Code tables by evaluation\<close>

lemma alaw_codes: "list_all (\<lambda>c. linear2alaw (alaw2linear c) = c) [0..255]"
  by code_simp

lemma ulaw_codes: "list_all (\<lambda>c. linear2ulaw (ulaw2linear c) = (if c = 127 then 255 else c)) [0..255]"
  by code_simp

text \<open>The value a code of segment \<open>seg\<close> and step \<open>q\<close> stands for.\<close>

definition alaw_value :: "nat \<Rightarrow> int \<Rightarrow> int" where
  "alaw_value seg q = (if seg = 0 then 16 * q + 8 else (2 * q + 33) * 2 ^ (seg + 2))"

definition ulaw_value :: "nat \<Rightarrow> int \<Rightarrow> int" where
  "ulaw_value seg q = (2 * q + 33) * 2 ^ (seg + 2) - 132"

lemma alaw_values:
  "list_all (\<lambda>seg. list_all (\<lambda>q.
      alaw2linear (((push_bit 4 (int seg) OR q) XOR 0xD5) mod 256) = alaw_value seg q \<and>
      alaw2linear (((push_bit 4 (int seg) OR q) XOR 0x55) mod 256) = - alaw_value seg q) [0..15]) [0..<8]"
  by code_simp

lemma ulaw_values:
  "list_all (\<lambda>seg. list_all (\<lambda>q.
      ulaw2linear (((push_bit 4 (int seg) OR q) XOR 0xFF) mod 256) = ulaw_value seg q \<and>
      ulaw2linear (((push_bit 4 (int seg) OR q) XOR 0x7F) mod 256) = - ulaw_value seg q) [0..15]) [0..<8]"
  by code_simp

lemma list_all_at: "list_all P xs \<Longrightarrow> x \<in> set xs \<Longrightarrow> P x"
  by (simp add: list_all_iff)

lemma alaw_value_at:
  assumes "seg < 8" "0 \<le> q" "q < 16"
  shows "alaw2linear (((push_bit 4 (int seg) OR q) XOR 0xD5) mod 256) = alaw_value seg q"
    and "alaw2linear (((push_bit 4 (int seg) OR q) XOR 0x55) mod 256) = - alaw_value seg q"
  using list_all_at [OF list_all_at [OF alaw_values, of seg], of q] assms by auto

lemma ulaw_value_at:
  assumes "seg < 8" "0 \<le> q" "q < 16"
  shows "ulaw2linear (((push_bit 4 (int seg) OR q) XOR 0xFF) mod 256) = ulaw_value seg q"
    and "ulaw2linear (((push_bit 4 (int seg) OR q) XOR 0x7F) mod 256) = - ulaw_value seg q"
  using list_all_at [OF list_all_at [OF ulaw_values, of seg], of q] assms by auto

section \<open>Segments\<close>

lemma search_seg:
  "search m seg_end 8 =
    (if m \<le> 0xFF then 0 else if m \<le> 0x1FF then 1 else if m \<le> 0x3FF then 2 else if m \<le> 0x7FF then 3
     else if m \<le> 0xFFF then 4 else if m \<le> 0x1FFF then 5 else if m \<le> 0x3FFF then 6
     else if m \<le> 0x7FFF then 7 else 8)"
  by (simp add: search_def seg_end_def)

text \<open>The segment of a magnitude and the interval it stands for.\<close>

lemma search_interval:
  assumes "256 \<le> m" "m \<le> 0x7FFF"
  shows "\<exists>seg. search m seg_end 8 = seg \<and> 1 \<le> seg \<and> seg < 8 \<and> 2 ^ (seg + 7) \<le> m \<and> m < 2 ^ (seg + 8)"
  using assms unfolding search_seg by (auto simp: not_le)

lemma quant_bits: "drop_bit k (m :: int) AND 15 = m div 2 ^ k mod 16"
proof -
  have "drop_bit k m AND mask 4 = take_bit 4 (drop_bit k m)" by (rule take_bit_eq_mask [symmetric])
  then show ?thesis by (simp add: mask_eq_exp_minus_1 take_bit_eq_mod drop_bit_eq_div)
qed

lemma quant_error:
  assumes "2 ^ (seg + 7) \<le> m" "m < 2 ^ (seg + 8)" and q: "q = m div 2 ^ (seg + 3) mod (16 :: int)"
  shows "\<bar>(2 * q + 33) * 2 ^ (seg + 2) - m\<bar> \<le> 2 ^ (seg + 2) \<and> 32 * 2 ^ (seg + 2) \<le> m"
proof -
  define h :: int where "h = 2 ^ (seg + 2)"
  have h: "0 < h" and p: "(2::int) ^ (seg + 3) = 2 * h" "(2::int) ^ (seg + 7) = 32 * h" "(2::int) ^ (seg + 8) = 64 * h"
    by (simp_all add: h_def power_add)
  define d where "d = m div (2 * h)"
  have d: "2 * h * d \<le> m" "m < 2 * h * d + 2 * h"
  proof -
    have e: "d * (2 * h) + m mod (2 * h) = m" unfolding d_def by (rule div_mult_mod_eq)
    have c: "2 * h * d = d * (2 * h)" by simp
    have "0 \<le> m mod (2 * h)" "m mod (2 * h) < 2 * h" using h by simp_all
    with e show "2 * h * d \<le> m" "m < 2 * h * d + 2 * h" unfolding c by linarith+
  qed
  have "16 = (32 * h) div (2 * h)" using h by simp
  also have "\<dots> \<le> d" unfolding d_def using assms(1) h p by (intro zdiv_mono1) auto
  finally have d1: "16 \<le> d" .
  have d2: "d < 32"
  proof (rule ccontr)
    assume "\<not> d < 32"
    then have "2 * h * 32 \<le> 2 * h * d" using h by (intro mult_left_mono) auto
    with d(1) assms(2) p(3) show False by linarith
  qed
  have "q = d mod 16" using q p(1) by (simp add: d_def)
  also have "\<dots> = d - 16" using d1 d2 by (simp add: mod_pos_pos_trivial minus_mod_self2 [of d 16, symmetric] del: minus_mod_self2)
  finally have q16: "q = d - 16" .
  have "(2 * q + 33) * h = 2 * h * d + h" unfolding q16 by (simp add: algebra_simps)
  then show ?thesis using d assms(1) p h unfolding h_def [symmetric] by linarith
qed

lemma step_error: "a \<le> h \<and> 32 * h \<le> m \<Longrightarrow> 32 * a \<le> (m :: int)"
  by auto

lemma alaw_code_value:
  assumes "0 \<le> m" "m \<le> 0x7FFF"
  shows "\<exists>v. alaw2linear (alaw_code 0xD5 m mod 256) = v \<and> alaw2linear (alaw_code 0x55 m mod 256) = - v \<and>
    32 * \<bar>v - m\<bar> \<le> max 256 m"
proof (cases "m < 256")
  case True
  let ?q = "m div 16"
  have q: "0 \<le> ?q" "?q < 16" using assms(1) True by auto
  have "drop_bit 4 m AND 15 = ?q" using q quant_bits [of 4 m] by simp
  then have "alaw_code k m = (push_bit 4 (int 0) OR ?q) XOR k" for k
    using True by (simp add: alaw_code_def search_seg)
  then show ?thesis
    using alaw_value_at [OF _ q, of 0] True assms(1) by (auto simp: alaw_value_def)
next
  case False
  obtain seg where seg: "search m seg_end 8 = seg" "1 \<le> seg" "seg < 8" "2 ^ (seg + 7) \<le> m" "m < 2 ^ (seg + 8)"
    using search_interval [of m] False assms(2) by auto
  define q where "q = m div 2 ^ (seg + 3) mod 16"
  have q: "0 \<le> q" "q < 16" by (simp_all add: q_def)
  have "drop_bit (seg + 3) m AND 15 = q" using quant_bits [of "seg + 3" m] by (simp add: q_def)
  moreover have "drop_bit 4 m AND 15 = drop_bit (seg + 3) m AND 15" if "seg < 2"
    using that seg(2) by (cases "seg = 1") auto
  ultimately have "alaw_code k m = (push_bit 4 (int seg) OR q) XOR k" for k
    using seg(1,3) by (simp add: alaw_code_def)
  moreover have "alaw_value seg q = (2 * q + 33) * 2 ^ (seg + 2)" using seg(2) by (simp add: alaw_value_def)
  moreover have "32 * \<bar>(2 * q + 33) * 2 ^ (seg + 2) - m\<bar> \<le> max 256 m"
    using step_error [OF quant_error [OF seg(4,5) q_def]] by (simp add: max_def)
  ultimately show ?thesis using alaw_value_at [OF seg(3) q] by auto
qed

lemma ulaw_code_value:
  assumes "132 \<le> m" "m \<le> 0x7FFF"
  shows "\<exists>v. ulaw2linear (((push_bit 4 (int (search m seg_end 8)) OR (drop_bit (search m seg_end 8 + 3) m AND 15)) XOR 0xFF) mod 256) = v \<and>
    ulaw2linear (((push_bit 4 (int (search m seg_end 8)) OR (drop_bit (search m seg_end 8 + 3) m AND 15)) XOR 0x7F) mod 256) = - v \<and>
    32 * \<bar>v + 132 - m\<bar> \<le> m \<and> search m seg_end 8 < 8"
proof -
  have seg: "\<exists>seg. search m seg_end 8 = seg \<and> seg < 8 \<and> 2 ^ (seg + 7) \<le> m \<and> m < 2 ^ (seg + 8)"
    using assms unfolding search_seg by (auto simp: not_le)
  then obtain seg where seg: "search m seg_end 8 = seg" "seg < 8" "2 ^ (seg + 7) \<le> m" "m < 2 ^ (seg + 8)"
    by blast
  define q where "q = m div 2 ^ (seg + 3) mod 16"
  have q: "0 \<le> q" "q < 16" by (simp_all add: q_def)
  have "drop_bit (seg + 3) m AND 15 = q" using quant_bits [of "seg + 3" m] by (simp add: q_def)
  moreover have "32 * \<bar>ulaw_value seg q + 132 - m\<bar> \<le> m"
    using step_error [OF quant_error [OF seg(3,4) q_def]] by (simp add: ulaw_value_def)
  ultimately show ?thesis using ulaw_value_at [OF seg(2) q] seg(1,2) by auto
qed

section \<open>Properties\<close>

text \<open>A-law decoding loses nothing. Encoding the sample that any of the 256 A-law codes
  decodes to gives that code back.\<close>
theorem alaw_codes_roundtrip:
  assumes "0 \<le> c" and "c < 256"
  shows "linear2alaw (alaw2linear c) = c"
  using list_all_at [OF alaw_codes, of c] assms by simp

lemma alaw_codes_roundtrip_witness: "linear2alaw (alaw2linear 0x2A) = 0x2A"
  using alaw_codes_roundtrip [of "0x2A"] by simp

text \<open>U-law decoding loses only the sign of zero. Encoding the sample that a u-law code
  decodes to gives the code back for every code but \<open>0x7F\<close>, the negative zero, which becomes
  \<open>0xFF\<close>.\<close>
theorem ulaw_codes_roundtrip:
  assumes "0 \<le> c" and "c < 256"
  shows "linear2ulaw (ulaw2linear c) = (if c = 0x7F then 0xFF else c)"
  using list_all_at [OF ulaw_codes, of c] assms by simp

lemma ulaw_codes_roundtrip_witness: "linear2ulaw (ulaw2linear 0x7F) = 0xFF"
  using ulaw_codes_roundtrip [of "0x7F"] by simp

text \<open>The A-law quantisation error. For every non-negative 16-bit sample the decoded value is
  within 8 below 256 and within a 32nd of the sample above.\<close>
theorem alaw_quantisation:
  assumes "0 \<le> pcm" and "pcm \<le> 32767"
  shows "32 * \<bar>alaw2linear (linear2alaw pcm) - pcm\<bar> \<le> max 256 pcm"
  using alaw_code_value [of pcm] assms by (auto simp: linear2alaw_def)

lemma alaw_quantisation_witness: "32 * \<bar>alaw2linear (linear2alaw 1000) - 1000\<bar> \<le> 1000"
  using alaw_quantisation [of 1000] by simp

text \<open>The u-law quantisation error. For every sample of magnitude up to 32635, positive or
  negative, the decoded value is within a 32nd of the biased magnitude.\<close>
theorem ulaw_quantisation:
  assumes "\<bar>pcm\<bar> \<le> 32635"
  shows "32 * \<bar>ulaw2linear (linear2ulaw pcm) - pcm\<bar> \<le> \<bar>pcm\<bar> + 132"
proof -
  define m where "m = (if pcm < 0 then BIAS - pcm else pcm + BIAS)"
  have m: "132 \<le> m" "m \<le> 0x7FFF" using assms by (auto simp: m_def BIAS_def)
  define code where "code = push_bit 4 (int (search m seg_end 8)) OR (drop_bit (search m seg_end 8 + 3) m AND 15)"
  obtain v where v: "ulaw2linear ((code XOR 0xFF) mod 256) = v" "ulaw2linear ((code XOR 0x7F) mod 256) = - v"
    "32 * \<bar>v + 132 - m\<bar> \<le> m" "search m seg_end 8 < 8"
    using ulaw_code_value [OF m] unfolding code_def by blast
  have "linear2ulaw pcm = (code XOR (if pcm < 0 then 0x7F else 0xFF)) mod 256"
    using v(4) by (cases "pcm < 0") (simp_all add: linear2ulaw_def m_def code_def Let_def)
  then have "ulaw2linear (linear2ulaw pcm) = (if pcm < 0 then - v else v)" using v(1,2) by simp
  then show ?thesis using v(3) by (cases "pcm < 0") (simp_all add: m_def BIAS_def abs_if split: if_splits)
qed

lemma ulaw_quantisation_witness: "32 * \<bar>ulaw2linear (linear2ulaw (- 1000)) - (- 1000)\<bar> \<le> 1132"
  using ulaw_quantisation [of "- 1000"] by simp

text \<open>Quiet negative samples are encoded as loud ones. For -7 to -1 \<open>linear2alaw\<close> shifts the
  negative remainder \<open>-pcm - 8\<close>, so the code it returns decodes to -248.\<close>
theorem alaw_small_negative:
  assumes "- 8 < pcm" and "pcm < 0"
  shows "alaw2linear (linear2alaw pcm) = - 248"
proof -
  have "pcm \<in> {- 7, - 6, - 5, - 4, - 3, - 2, - 1}" using assms by auto
  moreover have "list_all (\<lambda>p. alaw2linear (linear2alaw p) = - 248) [- 7, - 6, - 5, - 4, - 3, - 2, - 1]"
    by code_simp
  ultimately show ?thesis by auto
qed

lemma alaw_small_negative_witness: "alaw2linear (linear2alaw (- 1)) = - 248"
  using alaw_small_negative [of "- 1"] by simp

text \<open>\<open>alaw2ulaw\<close> looks its result up in the wrong table. It reads \<open>_u2a\<close> where the A-to-u
  table \<open>_a2u\<close> is meant: the A-law code of the loudest positive sample becomes the u-law
  code of silence, where the right table gives the loudest u-law code.\<close>
theorem alaw2ulaw_wrong_table:
  "alaw2linear 0xAA = 32256 \<and> alaw2ulaw 0xAA = Some 0x7F \<and> ulaw2linear 0x7F = 0 \<and>
   table_get a2u (0xAA XOR 0xD5) = Some 127 \<and> ulaw2linear (0xFF XOR 127) = 32124"
  by code_simp

lemma alaw_range: "list_all (\<lambda>c. - 32768 \<le> alaw2linear c \<and> alaw2linear c \<le> 32767) [0..255]"
  by code_simp

lemma samples_sample_bytes:
  "list_all (\<lambda>x. - 32768 \<le> x \<and> x \<le> 32767) xs \<Longrightarrow> samples (sample_bytes xs) = xs"
proof (induction xs)
  case Nil
  then show ?case by (simp add: sample_bytes_def)
next
  case (Cons x xs)
  let ?w = "word_of_int x :: 16 word"
  obtain a b where ab: "le_encode 2 ?w = [a, b]" by (simp add: numeral_2_eq_2)
  have "le_decode [a, b] = ?w" using le_decode_encode_full [of 2 ?w] ab by simp
  moreover have "sint ?w = x"
  proof -
    have "signed_take_bit 15 x = x" using Cons.prems by (intro signed_take_bit_int_eq_self) auto
    then show ?thesis by transfer simp
  qed
  ultimately show ?case using Cons ab by (simp add: sample_bytes_def)
qed

lemma length_sample_bytes [simp]: "length (sample_bytes xs) = 2 * length xs"
  by (induction xs) (simp_all add: sample_bytes_def)

text \<open>The A-law buffer functions are inverse. Decoding \<open>n\<close> codes into a block of \<open>2 n\<close>
  bytes or more and encoding those \<open>2 n\<close> bytes again returns the lengths \<open>2 n\<close> and \<open>n\<close> and
  reproduces the codes byte for byte.\<close>
theorem g711_alaw_buffer_roundtrip:
  assumes "n \<le> length codes" and "2 * n \<le> length raw" and "n \<le> length out" and "g \<noteq> G711_ULAW"
  shows "\<exists>raw' out'. G711_Decode raw codes n g = Some (n * 2, raw') \<and>
    G711_EnCode out raw' (n * 2) g = Some (n, out') \<and> take n out' = take n codes"
proof -
  define xs where "xs = map (\<lambda>b. alaw2linear (uint b)) (take n codes)"
  have len: "length xs = n" using assms(1) by (simp add: xs_def)
  have u: "uint b \<in> set [0..255]" for b :: byte using uint_lt2p [of b] by simp
  have "list_all (\<lambda>x. - 32768 \<le> x \<and> x \<le> 32767) xs"
    using list_all_at [OF alaw_range u] by (auto simp: xs_def list_all_iff)
  note smp = samples_sample_bytes [OF this]
  define raw' where "raw' = sample_bytes xs @ drop (2 * n) raw"
  have dec: "G711_Decode raw codes n g = Some (n * 2, raw')"
    using assms len by (simp add: G711_Decode_def mem_read_def mem_write_def xs_def [symmetric] raw'_def min_absorb1)
  have read: "mem_read raw' 0 (2 * n) = Some (sample_bytes xs)" using len by (simp add: mem_read_def raw'_def)
  have enc1: "word_of_int (linear2alaw (alaw2linear (uint b))) = b" for b :: byte
    using list_all_at [OF alaw_codes u] by simp
  have codes: "map (\<lambda>x. word_of_int (linear2alaw x)) xs = take n codes"
    by (simp add: xs_def enc1 comp_def)
  have "G711_EnCode out raw' (n * 2) g = Some (n, take n codes @ drop n out)"
    using assms read smp codes len by (simp add: G711_EnCode_def mem_write_def mult.commute min_absorb1)
  with dec show ?thesis using assms(1) by simp
qed

lemma g711_alaw_buffer_roundtrip_witness:
  "\<exists>raw' out'. G711_Decode [0, 0, 0, 0] [0x2A, 0xD5] 2 1 = Some (4, raw') \<and>
    G711_EnCode [0, 0] raw' 4 1 = Some (2, out') \<and> take 2 out' = [0x2A, 0xD5]"
  using g711_alaw_buffer_roundtrip [of 2 "[0x2A, 0xD5]" "[0, 0, 0, 0]" "[0, 0]" 1]
  by (simp add: G711_ULAW_def)

end
