(* ===== verification/String_Ops.thy ===== *)
theory String_Ops
  imports Ipc_Base "HOL-Library.Sublist"
begin

text \<open>
  The string and configuration-file helpers of \<open>src/FileSystem/avicodelib/string_op_func.c\<close>.
  A C string or buffer is the object from the pointer to its end, as a character list; NULL
  is \<open>None\<close>. The files are a map from names to contents, which reads and writes in full:
  the answers of \<open>fopen\<close> for writing and of \<open>malloc\<close> are arguments. \<open>slack\<close> is what can be
  read behind the end of the \<open>malloc\<close>ed file buffer, which has no terminating NUL of its own.
\<close>

section \<open>C strings\<close>

abbreviation NUL :: char where "NUL \<equiv> CHR 0x00"
abbreviation LF :: char where "LF \<equiv> CHR 0x0A"
abbreviation CR :: char where "CR \<equiv> CHR 0x0D"

text \<open>\<open>strlen\<close> and the string at the start of a block.\<close>

definition c_strlen :: "string \<Rightarrow> nat option" where
  "c_strlen b = (if NUL \<in> set b then Some (length (takeWhile (\<lambda>c. c \<noteq> NUL) b)) else None)"

definition c_str :: "string \<Rightarrow> string option" where
  "c_str b = (if NUL \<in> set b then Some (takeWhile (\<lambda>c. c \<noteq> NUL) b) else None)"

text \<open>\<open>sprintf\<close> into a local array of \<open>n\<close> characters.\<close>

definition sprintf_buf :: "nat \<Rightarrow> string \<Rightarrow> string option" where
  "sprintf_buf n s = (if length s + 1 \<le> n then Some (s @ replicate (n - length s) NUL) else None)"

section \<open>Searching\<close>

text \<open>The inner comparison loop, on the two remaining blocks.\<close>

fun match_loop :: "string \<Rightarrow> string \<Rightarrow> bool option" where
  "match_loop (t # ts) (f # fs) =
     (if t = f then (case fs of [] \<Rightarrow> None | f' # _ \<Rightarrow> if f' = NUL then Some True else match_loop ts fs)
      else Some (f = NUL))"
| "match_loop _ _ = None"

text \<open>The outer loop: \<open>n\<close> rounds are left, \<open>i\<close> is the index and \<open>t\<close> the block behind it.\<close>

primrec find_loop :: "string \<Rightarrow> nat \<Rightarrow> nat \<Rightarrow> string \<Rightarrow> nat option option" where
  "find_loop cfind 0 i t = Some None"
| "find_loop cfind (Suc n) i t =
     (case t of [] \<Rightarrow> None
      | c # ts \<Rightarrow>
         (case cfind of [] \<Rightarrow> None
          | f # _ \<Rightarrow>
             if c \<noteq> f then find_loop cfind n (i + 1) ts
             else do {
               m \<leftarrow> match_loop t cfind;
               if m then Some (Some i) else find_loop cfind n (i + 1) ts
             }))"

definition SOF_FindSTR :: "string option \<Rightarrow> string option \<Rightarrow> int \<Rightarrow> int option" where
  "SOF_FindSTR byhtml cfind nStartPos =
     (case (byhtml, cfind) of
        (Some b, Some p) \<Rightarrow>
          if nStartPos < 0 then Some (- 1)
          else if nat nStartPos > length b then None
          else do {
            n \<leftarrow> c_strlen (drop (nat nStartPos) b);
            r \<leftarrow> find_loop p n 0 (drop (nat nStartPos) b);
            Some (case r of None \<Rightarrow> - 1 | Some i \<Rightarrow> nStartPos + int i)
          }
      | _ \<Rightarrow> Some (- 1))"

text \<open>The characters strictly between the two positions; \<open>temp\<close> is the destination block.\<close>

definition SOF_GetBetweenWords :: "string option \<Rightarrow> string option \<Rightarrow> int \<Rightarrow> int \<Rightarrow> int \<Rightarrow>
    (int \<times> string option) option" where
  "SOF_GetBetweenWords byhtml temp start end_pos max_num =
     (case (byhtml, temp) of
        (Some b, Some t) \<Rightarrow>
          if end_pos - start > max_num then do { t' \<leftarrow> mem_write t 0 [NUL]; Some (- 1, Some t') }
          else if start + 1 \<ge> end_pos then do { t' \<leftarrow> mem_write t 0 [NUL]; Some (1, Some t') }
          else if start + 1 < 0 then None
          else do {
            d \<leftarrow> mem_read b (nat (start + 1)) (nat (end_pos - start - 1));
            t' \<leftarrow> mem_write t 0 (d @ [NUL]);
            Some (1, Some t')
          }
      | _ \<Rightarrow> Some (- 1, temp))"

definition is_digit :: "char \<Rightarrow> bool" where
  "is_digit c = (c \<in> set ''0123456789'')"

definition is_hex_letter :: "char \<Rightarrow> bool" where
  "is_hex_letter c = (c \<in> set ''abcdefABCDEF'')"

text \<open>
  The copying loop of \<open>SOF_GetNumWord\<close>: \<open>acc\<close> are the characters copied so far. The result is
  the copied characters and whether the number is complete (\<open>get_ok\<close>) or hit the limit.
\<close>

fun num_loop :: "string \<Rightarrow> bool \<Rightarrow> string \<Rightarrow> int \<Rightarrow> (string \<times> bool) option" where
  "num_loop (c # d # r) is16 acc max_num =
     (let acc' = acc @ [c] in
      if d = NUL then Some (acc', True)
      else if \<not> is_digit d \<and> \<not> (d = CHR ''x'' \<and> c = CHR ''0'') \<and> \<not> (is_hex_letter d \<and> is16)
      then Some (acc', True)
      else if int (length acc') \<ge> max_num then Some (acc', False)
      else num_loop (d # r) (is16 \<or> (\<not> is_digit d \<and> d = CHR ''x'')) acc' max_num)"
| "num_loop _ _ _ _ = None"

text \<open>The search for the first digit, or minus sign before a digit, in all but the last character.\<close>

fun num_start :: "nat \<Rightarrow> nat \<Rightarrow> string \<Rightarrow> nat option option" where
  "num_start 0 i s = Some None"
| "num_start (Suc n) i (c # d # r) =
     (if is_digit c \<or> (c = CHR ''-'' \<and> is_digit d) then Some (Some i) else num_start n (i + 1) (d # r))"
| "num_start (Suc n) i _ = None"

definition SOF_GetNumWord :: "string option \<Rightarrow> string option \<Rightarrow> int \<Rightarrow> int \<Rightarrow> (int \<times> string option) option" where
  "SOF_GetNumWord source_buf num_buf start max_num =
     (case (source_buf, num_buf) of
        (Some b, Some nb) \<Rightarrow>
          if start < 0 \<or> nat start > length b then None
          else do {
            n \<leftarrow> c_strlen (drop (nat start) b);
            found \<leftarrow> num_start (n - 1) 0 (drop (nat start) b);
            case found of
              None \<Rightarrow> Some (- 1, num_buf)
            | Some i \<Rightarrow> do {
                (w, complete) \<leftarrow> num_loop (drop (nat start + i) b) False [] max_num;
                if complete then do { nb' \<leftarrow> mem_write nb 0 (w @ [NUL]); Some (start + int i, Some nb') }
                else do { nb' \<leftarrow> mem_write nb 0 w; Some (- 2, Some nb') }
              }
          }
      | _ \<Rightarrow> Some (- 1, num_buf))"

section \<open>Files\<close>

type_synonym files = "string \<Rightarrow> string option"

text \<open>\<open>SOF_GetFileToBuf\<close>: the buffer with its length, or NULL; files of up to one byte are refused.\<close>

definition SOF_GetFileToBuf :: "bool \<Rightarrow> files \<Rightarrow> string \<Rightarrow> (string \<times> nat) option" where
  "SOF_GetFileToBuf mem fs name =
     (case fs name of
        None \<Rightarrow> None
      | Some c \<Rightarrow> if length c > 1 \<and> mem then Some (c @ [NUL], length c) else None)"

text \<open>The module's static variables; \<open>fp_config\<close> is closed again before every return.\<close>

record config =
  cf_buf :: "string option"
  cf_size :: int

definition SOF_cf_open_file :: "bool \<Rightarrow> bool \<Rightarrow> files \<Rightarrow> config \<Rightarrow> string \<Rightarrow> int \<times> files \<times> config" where
  "SOF_cf_open_file creat mem fs st name =
     (if fs name = None \<and> \<not> creat then (- 1, fs, st\<lparr>cf_size := 0\<rparr>)
      else let c = (case fs name of None \<Rightarrow> [] | Some c \<Rightarrow> c);
               fs1 = fs(name \<mapsto> c)
           in if c = [] then (0, fs1, \<lparr>cf_buf = None, cf_size = 0\<rparr>)
           else if \<not> mem then (- 1, fs1, \<lparr>cf_buf = None, cf_size = 0\<rparr>)
           else (0, fs1, \<lparr>cf_buf = Some c, cf_size = int (length c)\<rparr>))"

definition SOF_cf_close_file :: "config \<Rightarrow> int \<times> config" where
  "SOF_cf_close_file st = (1, st\<lparr>cf_buf := None\<rparr>)"

text \<open>What the functions can read of the file buffer.\<close>

definition cf_text :: "string \<Rightarrow> config \<Rightarrow> string option" where
  "cf_text slack st = map_option (\<lambda>b. b @ slack) (cf_buf st)"

text \<open>
  The body of a read: the key is searched, then the next newline, and the characters between
  go to a local array. \<open>(- 1, None)\<close> is not found, \<open>(1, None)\<close> a value over 100 characters.
\<close>

definition lookup_value :: "string \<Rightarrow> config \<Rightarrow> string \<Rightarrow> (int \<times> string option) option" where
  "lookup_value slack st desc = do {
     find_buf \<leftarrow> sprintf_buf 100 (desc @ ''='');
     find1 \<leftarrow> SOF_FindSTR (cf_text slack st) (Some find_buf) 0;
     if find1 < 0 then Some (- 1, None)
     else do {
       find2 \<leftarrow> SOF_FindSTR (cf_text slack st) (Some [LF, NUL]) (find1 + 1);
       if find2 < 0 then Some (- 1, None)
       else do {
         (ret, tmp) \<leftarrow> SOF_GetBetweenWords (cf_text slack st) (Some (replicate 150 NUL))
                        (find1 + int (length desc + 1) - 1) find2 100;
         if ret > 0 then do { t \<leftarrow> tmp; s \<leftarrow> c_str t; Some (1, Some s) } else Some (1, None)
       }
     }
   }"

definition SOF_cf_read_value :: "bool \<Rightarrow> bool \<Rightarrow> string \<Rightarrow> files \<Rightarrow> config \<Rightarrow> string \<Rightarrow> string \<Rightarrow> string \<Rightarrow>
    (int \<times> string \<times> files \<times> config) option" where
  "SOF_cf_read_value creat mem slack fs st name desc value =
     (let (ret, fs1, st1) = SOF_cf_open_file creat mem fs st name
      in if ret < 0 then Some (ret, value, fs1, snd (SOF_cf_close_file st1))
      else do {
        (r, v) \<leftarrow> lookup_value slack st1 desc;
        value' \<leftarrow> (case v of None \<Rightarrow> Some value | Some s \<Rightarrow> mem_write value 0 (s @ [NUL]));
        Some (r, value', fs1, snd (SOF_cf_close_file st1))
      })"

text \<open>The two searches of a write: the key, and the newline behind it (0 when there is no key).\<close>

definition find_line :: "string \<Rightarrow> config \<Rightarrow> string \<Rightarrow> (int \<times> int) option" where
  "find_line slack st desc = do {
     find_buf \<leftarrow> sprintf_buf 100 (desc @ ''='');
     find1 \<leftarrow> SOF_FindSTR (cf_text slack st) (Some find_buf) 0;
     find2 \<leftarrow> (if find1 \<ge> 0 then SOF_FindSTR (cf_text slack st) (Some [LF, NUL]) (find1 + 1) else Some 0);
     Some (find1, find2)
   }"

text \<open>
  The new content of the file. A line whose key is found is replaced up to its newline,
  otherwise the new line is appended. \<open>eol\<close> is the line end the module writes.
\<close>

definition rewrite_content :: "string \<Rightarrow> config \<Rightarrow> int \<Rightarrow> int \<Rightarrow> string \<Rightarrow> string \<Rightarrow> string \<Rightarrow> string option" where
  "rewrite_content slack st find1 find2 desc value eol =
     (if find1 \<ge> 0 \<and> find2 \<ge> 0
      then do {
        b \<leftarrow> cf_text slack st;
        pre \<leftarrow> mem_read b 0 (nat find1);
        line \<leftarrow> sprintf_buf 100 (desc @ ''='' @ value @ eol);
        line_str \<leftarrow> c_str line;
        post \<leftarrow> (if cf_size st - (find2 + 1) > 0
                 then mem_read b (nat (find2 + 1)) (nat (cf_size st - (find2 + 1))) else Some []);
        Some (pre @ line_str @ post)
      }
      else do {
        old \<leftarrow> (if cf_size st > 0
                then do { b \<leftarrow> cf_text slack st; mem_read b 0 (nat (cf_size st)) } else Some []);
        line \<leftarrow> sprintf_buf 100 (desc @ ''='' @ value @ eol);
        line_str \<leftarrow> c_str line;
        Some (old @ line_str)
      })"

definition SOF_cf_write_value :: "bool \<Rightarrow> bool \<Rightarrow> bool \<Rightarrow> string \<Rightarrow> files \<Rightarrow> config \<Rightarrow> string \<Rightarrow> string \<Rightarrow> string \<Rightarrow>
    (int \<times> files \<times> config) option" where
  "SOF_cf_write_value creat creat2 mem slack fs st name desc value =
     (let (ret, fs1, st1) = SOF_cf_open_file creat mem fs st name
      in if ret < 0 then Some (- 1, fs1, snd (SOF_cf_close_file st1))
      else do {
        (find1, find2) \<leftarrow> find_line slack st1 desc;
        if \<not> creat2 then Some (- 1, fs1, snd (SOF_cf_close_file st1))
        else do {
          content \<leftarrow> rewrite_content slack st1 find1 find2 desc value [CR, LF];
          Some (1, fs1(name \<mapsto> content), snd (SOF_cf_close_file st1))
        }
      })"

definition SOF_Is_file_exist :: "files \<Rightarrow> string \<Rightarrow> int" where
  "SOF_Is_file_exist fs name = (if fs name = None then - 1 else 1)"

section \<open>First occurrences\<close>

text \<open>The specification of the search: the first position at which \<open>p\<close> starts in \<open>u\<close>.\<close>

primrec first_at :: "string \<Rightarrow> string \<Rightarrow> nat option" where
  "first_at p [] = None"
| "first_at p (c # u) = (if prefix p (c # u) then Some 0 else map_option Suc (first_at p u))"

lemma prefix_take: "prefix p w \<longleftrightarrow> take (length p) w = p"
  by (metis append_eq_conv_conj append_take_drop_id prefix_def)

lemma first_at_Some:
  assumes "p \<noteq> []"
  shows "first_at p u = Some i \<longleftrightarrow> prefix p (drop i u) \<and> (\<forall>j<i. \<not> prefix p (drop j u))"
proof (induction u arbitrary: i)
  case Nil
  then show ?case using assms by auto
next
  case (Cons c u)
  show ?case
  proof (cases "prefix p (c # u)")
    case True
    then show ?thesis by (cases i) auto
  next
    case False
    then show ?thesis using Cons by (cases i) (auto simp: All_less_Suc2 less_Suc_eq_0_disj)
  qed
qed

lemma first_at_None:
  assumes "p \<noteq> []"
  shows "first_at p u = None \<longleftrightarrow> (\<forall>j. \<not> prefix p (drop j u))"
proof (induction u)
  case Nil
  then show ?case using assms by simp
next
  case (Cons c u)
  show ?case
  proof
    assume "first_at p (c # u) = None"
    then have "\<not> prefix p (c # u)" "\<forall>j. \<not> prefix p (drop j u)"
      using Cons by (auto split: if_splits)
    then show "\<forall>j. \<not> prefix p (drop j (c # u))" by (metis drop_Cons' drop0)
  next
    assume n: "\<forall>j. \<not> prefix p (drop j (c # u))"
    have "\<not> prefix p (drop j u)" for j using n [rule_format, of "Suc j"] by simp
    then show "first_at p (c # u) = None" using Cons n [rule_format, of 0] by simp
  qed
qed

lemma match_loop_spec:
  "p \<noteq> [] \<Longrightarrow> NUL \<notin> set p \<Longrightarrow> NUL \<notin> set u \<Longrightarrow>
    match_loop (u @ NUL # r1) (p @ NUL # r2) = Some (prefix p u)"
proof (induction p arbitrary: u)
  case (Cons f p)
  show ?case
  proof (cases u)
    case Nil
    then show ?thesis using Cons.prems by auto
  next
    case u: (Cons t ts)
    show ?thesis
    proof (cases p)
      case Nil
      then show ?thesis using u Cons.prems by auto
    next
      case p: (Cons f' fs)
      then show ?thesis using u Cons.prems Cons.IH [of ts] by auto
    qed
  qed
qed simp

lemma find_loop_spec:
  "p \<noteq> [] \<Longrightarrow> NUL \<notin> set p \<Longrightarrow> NUL \<notin> set u \<Longrightarrow>
    find_loop (p @ NUL # r2) (length u) i (u @ NUL # r1) = Some (map_option (\<lambda>k. i + k) (first_at p u))"
proof (induction u arbitrary: i)
  case Nil
  then show ?case by simp
next
  case (Cons c u)
  obtain f fs where p: "p = f # fs" using Cons.prems(1) by (cases p) auto
  have IH: "find_loop (p @ NUL # r2) (length u) (i + 1) (u @ NUL # r1) =
      Some (map_option (\<lambda>k. i + 1 + k) (first_at p u))"
    using Cons.IH [of "i + 1"] Cons.prems by (cases "first_at p u") auto
  have m: "match_loop ((c # u) @ NUL # r1) (p @ NUL # r2) = Some (prefix p (c # u))"
    using match_loop_spec [of p "c # u" r1 r2] Cons.prems by simp
  show ?case
  proof (cases "prefix p (c # u)")
    case True
    then have "c = f" using p by simp
    then show ?thesis using True m p by simp
  next
    case False
    then show ?thesis using IH m p by (cases "c = f") (simp_all add: option.map_comp comp_def)
  qed
qed

lemma take_while_nul: "NUL \<notin> set u \<Longrightarrow> takeWhile (\<lambda>c. c \<noteq> NUL) (u @ NUL # r) = u"
  by (induction u) auto

lemma c_strlen_spec: "NUL \<notin> set u \<Longrightarrow> c_strlen (u @ NUL # r) = Some (length u)"
  by (simp add: c_strlen_def take_while_nul)

lemma c_str_spec: "NUL \<notin> set u \<Longrightarrow> c_str (u @ NUL # r) = Some u"
  by (simp add: c_str_def take_while_nul)

lemma FindSTR_spec:
  assumes "p \<noteq> []" "NUL \<notin> set p" "NUL \<notin> set u" "n \<le> length u"
  shows "SOF_FindSTR (Some (u @ NUL # r1)) (Some (p @ NUL # r2)) (int n) =
    Some (case first_at p (drop n u) of None \<Rightarrow> - 1 | Some i \<Rightarrow> int n + int i)"
proof -
  have d: "drop n (u @ NUL # r1) = drop n u @ NUL # r1" using assms(4) by simp
  have s: "NUL \<notin> set (drop n u)" using assms(3) in_set_dropD by fastforce
  show ?thesis
    using find_loop_spec [OF assms(1,2) s, of r2 0 r1] c_strlen_spec [OF s, of r1] assms(4)
    by (simp add: SOF_FindSTR_def d split: option.split)
qed

section \<open>Lines of a configuration file\<close>

definition key_of :: "string \<Rightarrow> string" where
  "key_of desc = desc @ ''=''"

lemma key_of_simps [simp]:
  "key_of d \<noteq> []" "length (key_of d) = length d + 1"
  "c \<in> set (key_of d) \<longleftrightarrow> c \<in> set d \<or> c = CHR ''=''"
  by (auto simp: key_of_def)

lemma sprintf_buf_spec:
  "length s + 1 \<le> n \<Longrightarrow> \<exists>r. sprintf_buf n s = Some (s @ NUL # r)"
proof -
  assume "length s + 1 \<le> n"
  then obtain k where "n - length s = Suc k" by (cases "n - length s") auto
  with \<open>length s + 1 \<le> n\<close> show ?thesis by (simp add: sprintf_buf_def)
qed

lemma first_at_char: "x \<notin> set w \<Longrightarrow> first_at [x] (w @ x # r) = Some (length w)"
  by (induction w) auto

text \<open>An occurrence is decided by the characters up to its end.\<close>

lemma first_at_agree:
  assumes "first_at k (pre @ k @ r) = Some (length pre)" and "k \<noteq> []"
  shows "first_at k (pre @ k @ r') = Some (length pre)"
proof -
  have same: "prefix k (drop j (pre @ k @ r')) \<longleftrightarrow> prefix k (drop j (pre @ k @ r))" if "j < length pre" for j
  proof -
    have l: "length k \<le> length (drop j (pre @ k))" using that by simp
    have "take (length k) (drop j (pre @ k @ x)) = take (length k) (drop j (pre @ k))" for x
    proof -
      have "drop j ((pre @ k) @ x) = drop j (pre @ k) @ x" using that by (subst drop_append) simp
      then have "take (length k) (drop j ((pre @ k) @ x)) = take (length k) (drop j (pre @ k) @ x)" by (rule arg_cong)
      also have "\<dots> = take (length k) (drop j (pre @ k))" using l by (simp only: take_append diff_is_0_eq' take_0 append_Nil2)
      finally show ?thesis by (simp only: append_assoc)
    qed
    then show ?thesis by (simp only: prefix_take)
  qed
  show ?thesis using assms same by (simp add: first_at_Some)
qed

lemma first_at_append_line:
  assumes none: "first_at k c = None" and "k \<noteq> []" and lf: "LF \<notin> set k" and c: "c = [] \<or> last c = LF"
  shows "first_at k (c @ k @ r) = Some (length c)"
proof -
  have "\<not> prefix k (drop j (c @ k @ r))" if j: "j < length c" for j
  proof
    assume p: "prefix k (drop j (c @ k @ r))"
    then have eq: "take (length k) (drop j (c @ k @ r)) = k" by (simp add: prefix_take)
    show False
    proof (cases "j + length k \<le> length c")
      case True
      then have "take (length k) (drop j c) = k" using eq by simp
      then show False using none assms(2) first_at_None prefix_take by blast
    next
      case False
      define m where "m = length c - 1 - j"
      have m: "m < length k" "j + m = length c - 1" using False j by (auto simp: m_def)
      have "k ! m = take (length k) (drop j (c @ k @ r)) ! m" using eq by simp
      also have "\<dots> = (c @ k @ r) ! (j + m)"
        using m(1) j by (subst nth_take) (simp, subst nth_drop, simp_all)
      also have "\<dots> = c ! (length c - 1)" unfolding m(2) using j by (subst nth_append) auto
      also have "\<dots> = last c" using j by (subst last_conv_nth) auto
      finally have "k ! m = LF" using c j by auto
      then show False using lf m(1) nth_mem by metis
    qed
  qed
  then show ?thesis using assms(2) by (simp add: first_at_Some)
qed

text \<open>The two searches on a buffer that is followed by a NUL.\<close>

lemma find_key:
  assumes "cf_buf st = Some c" and "NUL \<notin> set c" and "NUL \<notin> set d" and "length d + 2 \<le> 100"
  shows "\<exists>fb. sprintf_buf 100 (d @ ''='') = Some fb \<and> SOF_FindSTR (cf_text (NUL # sl) st) (Some fb) 0 =
    Some (case first_at (key_of d) c of None \<Rightarrow> - 1 | Some i \<Rightarrow> int i)"
proof -
  obtain r where "sprintf_buf 100 (d @ ''='') = Some (key_of d @ NUL # r)"
    using sprintf_buf_spec [of "d @ ''=''" 100] assms(4) by (auto simp: key_of_def)
  then show ?thesis
    using FindSTR_spec [of "key_of d" c 0 sl r] assms by (simp add: cf_text_def split: option.split)
qed

lemma find_newline:
  assumes "cf_buf st = Some c" and "NUL \<notin> set c" and "i + 1 \<le> length c"
  shows "SOF_FindSTR (cf_text (NUL # sl) st) (Some [LF, NUL]) (int i + 1) =
    Some (case first_at [LF] (drop (i + 1) c) of None \<Rightarrow> - 1 | Some j \<Rightarrow> int (i + 1 + j))"
proof -
  have eq: "int i + 1 = int (i + 1)" by simp
  have F: "SOF_FindSTR (Some (c @ NUL # sl)) (Some [LF, NUL]) (int (i + 1)) =
      Some (case first_at [LF] (drop (i + 1) c) of None \<Rightarrow> - 1 | Some j \<Rightarrow> int (i + 1) + int j)"
    using FindSTR_spec [of "[LF]" c "i + 1" sl "[]"] assms(2,3) by simp
  show ?thesis unfolding eq cf_text_def assms(1) option.map F by (simp split: option.split)
qed

text \<open>Reading a line whose key is the first occurrence in the file.\<close>

lemma lookup_line:
  assumes buf: "cf_buf st = Some c" and c: "c = pre @ key_of d @ v @ LF # post"
    and first: "first_at (key_of d) c = Some (length pre)"
    and nul: "NUL \<notin> set c" and lf: "LF \<notin> set d" "LF \<notin> set v" and len: "length d + 2 \<le> 100"
  shows "lookup_value (NUL # sl) st d = Some (1, if length v < 100 then Some v else None)"
proof -
  have nd: "NUL \<notin> set d" using nul c by (auto simp: key_of_def)
  obtain fb where fb: "sprintf_buf 100 (d @ ''='') = Some fb"
     "SOF_FindSTR (cf_text (NUL # sl) st) (Some fb) 0 = Some (int (length pre))"
    using find_key [OF buf nul nd len, of sl] first by auto
  have "drop (length pre + 1) c = tl (key_of d) @ v @ LF # post"
    unfolding c by (cases "key_of d") auto
  moreover have "LF \<notin> set (tl (key_of d) @ v)" using lf by (cases d) (auto simp: key_of_def)
  ultimately have "first_at [LF] (drop (length pre + 1) c) = Some (length d + length v)"
    using first_at_char [of LF "tl (key_of d) @ v" post] by (simp add: key_of_def)
  then have nl: "SOF_FindSTR (cf_text (NUL # sl) st) (Some [LF, NUL]) (int (length pre) + 1) =
      Some (int (length pre + 1 + (length d + length v)))"
    using find_newline [OF buf nul, of "length pre" sl] c by simp
  have b: "cf_text (NUL # sl) st = Some (pre @ key_of d @ v @ LF # post @ NUL # sl)"
    using buf c by (simp add: cf_text_def)
  let ?s = "int (length pre) + int (length d + 1) - 1" and ?e = "int (length pre + 1 + (length d + length v))"
  have btw: "SOF_GetBetweenWords (cf_text (NUL # sl) st) (Some (replicate 150 NUL)) ?s ?e 100 =
      (if length v < 100 then Some (1, Some (v @ NUL # replicate (149 - length v) NUL))
       else Some (- 1, Some (replicate 150 NUL)))"
  proof (cases "length v < 100")
    case True
    have n: "nat (?s + 1) = length (pre @ key_of d)" "nat (?e - ?s - 1) = length v" by (simp_all add: nat_add_distrib)
    have rd: "mem_read (pre @ key_of d @ v @ LF # post @ NUL # sl) (nat (?s + 1)) (nat (?e - ?s - 1)) = Some v"
      unfolding n by (simp add: mem_read_def)
    have "replicate 150 NUL = replicate (length v + 1) NUL @ replicate (149 - length v) NUL"
    proof -
      have "length v + 1 + (149 - length v) = 150" using True by simp
      then show ?thesis using replicate_add [of "length v + 1" "149 - length v" NUL] by simp
    qed
    then have wr0: "mem_write (replicate 150 NUL) 0 (v @ [NUL]) = Some (v @ NUL # replicate (149 - length v) NUL)"
      using True by (simp add: mem_write_def)
    have c1: "\<not> ?e - ?s > 100" using True by simp
    show ?thesis
    proof (cases "v = []")
      case e: True
      then show ?thesis using wr0 by (simp add: SOF_GetBetweenWords_def b)
    next
      case False
      then have "\<not> ?s + 1 \<ge> ?e" "\<not> ?s + 1 < 0" by auto
      then show ?thesis using True c1 rd wr0 unfolding SOF_GetBetweenWords_def b by simp
    qed
  next
    case False
    then have "?e - ?s > 100" by simp
    moreover have "mem_write (replicate 150 NUL) 0 [NUL] = Some (replicate 150 NUL)"
    proof -
      have "replicate 150 NUL = NUL # replicate 149 NUL" by (subst replicate_Suc [symmetric]) simp
      then show ?thesis by (simp add: mem_write_def)
    qed
    ultimately show ?thesis using False unfolding SOF_GetBetweenWords_def b by simp
  qed
  have nv: "NUL \<notin> set v" using nul c by auto
  show ?thesis
    using fb nl btw c_str_spec [OF nv, of "replicate (149 - length v) NUL"]
    by (cases "length v < 100") (simp_all add: lookup_value_def)
qed

section \<open>Writing a line\<close>

text \<open>The state after opening a file of content \<open>c\<close>.\<close>

definition loaded :: "string \<Rightarrow> config" where
  "loaded c = \<lparr>cf_buf = if c = [] then None else Some c, cf_size = int (length c)\<rparr>"

definition new_content :: "string \<Rightarrow> string \<Rightarrow> string \<Rightarrow> string" where
  "new_content c d line =
     (case first_at (key_of d) c of
        None \<Rightarrow> c @ line
      | Some i \<Rightarrow>
          (case first_at [LF] (drop (i + 1) c) of
             None \<Rightarrow> c @ line
           | Some j \<Rightarrow> take i c @ line @ drop (i + j + 2) c))"

lemma first_at_bound: "first_at p u = Some i \<Longrightarrow> p \<noteq> [] \<Longrightarrow> i + length p \<le> length u"
proof -
  assume "first_at p u = Some i" "p \<noteq> []"
  then have "prefix p (drop i u)" by (simp add: first_at_Some)
  then have "length p \<le> length (drop i u)" by (rule prefix_length_le)
  then show ?thesis using \<open>p \<noteq> []\<close> by (cases p) auto
qed

lemma write_content:
  assumes nul: "NUL \<notin> set c" "NUL \<notin> set d" "NUL \<notin> set line"
    and line: "line = d @ ''='' @ v @ eol" and len: "length line + 1 \<le> 100"
  shows "\<exists>f1 f2. find_line (NUL # sl) (loaded c) d = Some (f1, f2) \<and>
    rewrite_content (NUL # sl) (loaded c) f1 f2 d v eol = Some (new_content c d line)"
proof -
  have ld: "length d + 2 \<le> 100" using len line by simp
  obtain r where sp: "sprintf_buf 100 (d @ ''='' @ v @ eol) = Some (line @ NUL # r)"
    using sprintf_buf_spec [of line 100] len line by auto
  have ls: "c_str (line @ NUL # r) = Some line" using c_str_spec [OF nul(3)] .
  show ?thesis
  proof (cases "c = []")
    case True
    obtain r0 where "sprintf_buf 100 (d @ ''='') = Some (key_of d @ NUL # r0)"
      using sprintf_buf_spec [of "d @ ''=''" 100] ld by (auto simp: key_of_def)
    then have "find_line (NUL # sl) (loaded c) d = Some (- 1, 0)"
      using True by (simp add: find_line_def loaded_def cf_text_def SOF_FindSTR_def)
    moreover have "rewrite_content (NUL # sl) (loaded c) (- 1) 0 d v eol = Some (new_content c d line)"
      using True sp ls by (simp add: rewrite_content_def loaded_def new_content_def)
    ultimately show ?thesis by blast
  next
    case False
    have buf: "cf_buf (loaded c) = Some c" and size: "cf_size (loaded c) = int (length c)"
      using False by (simp_all add: loaded_def)
    have txt_eq: "cf_text (NUL # sl) (loaded c) = Some (c @ NUL # sl)" using buf by (simp add: cf_text_def)
    have whole: "mem_read (c @ NUL # sl) 0 (length c) = Some c" by (simp add: mem_read_def)
    have app: "rewrite_content (NUL # sl) (loaded c) f1 f2 d v eol = Some (c @ line)" if "f1 < 0 \<or> f2 < 0" for f1 f2
      using that sp ls whole txt_eq size False by (auto simp: rewrite_content_def)
    obtain fb where fb: "sprintf_buf 100 (d @ ''='') = Some fb" "SOF_FindSTR (cf_text (NUL # sl) (loaded c)) (Some fb) 0 =
      Some (case first_at (key_of d) c of None \<Rightarrow> - 1 | Some i \<Rightarrow> int i)"
      using find_key [OF buf nul(1,2) ld, of sl] by blast
    show ?thesis
    proof (cases "first_at (key_of d) c")
      case None
      then have "find_line (NUL # sl) (loaded c) d = Some (- 1, 0)" using fb by (simp add: find_line_def)
      then show ?thesis using app [of "- 1" 0] None by (simp add: new_content_def)
    next
      case (Some i)
      have ib: "i + 1 \<le> length c" using first_at_bound [OF Some] by simp
      note nl = find_newline [OF buf nul(1) ib, of sl]
      show ?thesis
      proof (cases "first_at [LF] (drop (i + 1) c)")
        case n: None
        then have "find_line (NUL # sl) (loaded c) d = Some (int i, - 1)"
          using fb nl Some by (simp add: find_line_def)
        then show ?thesis using app [of "int i" "- 1"] Some n by (simp add: new_content_def)
      next
        case (Some j)
        let ?f2 = "int (i + 1 + j)"
        have fl: "find_line (NUL # sl) (loaded c) d = Some (int i, ?f2)"
          using fb nl \<open>first_at (key_of d) c = Some i\<close> Some by (simp add: find_line_def)
        have jb: "i + j + 2 \<le> length c" using first_at_bound [OF Some] by simp
        have pre: "mem_read (c @ NUL # sl) 0 (nat (int i)) = Some (take i c)" using ib by (simp add: mem_read_def)
        have post: "(if cf_size (loaded c) - (?f2 + 1) > 0
            then mem_read (c @ NUL # sl) (nat (?f2 + 1)) (nat (cf_size (loaded c) - (?f2 + 1))) else Some [])
            = Some (drop (i + j + 2) c)"
        proof (cases "i + j + 2 = length c")
          case True
          then show ?thesis by (simp add: size)
        next
          case False
          have n: "nat (?f2 + 1) = i + j + 2" "nat (cf_size (loaded c) - (?f2 + 1)) = length c - (i + j + 2)"
            using jb by (simp_all add: size)
          have "cf_size (loaded c) - (?f2 + 1) > 0" using False jb by (simp add: size)
          then show ?thesis unfolding n using jb by (simp add: mem_read_def)
        qed
        have "rewrite_content (NUL # sl) (loaded c) (int i) ?f2 d v eol = Some (take i c @ line @ drop (i + j + 2) c)"
          unfolding rewrite_content_def txt_eq using pre sp ls post by simp
        then show ?thesis using fl Some \<open>first_at (key_of d) c = Some i\<close> by (simp add: new_content_def)
      qed
    qed
  qed
qed

text \<open>The written line is the first one with its key, if the file's lines are complete.\<close>

definition lines_complete :: "string \<Rightarrow> string \<Rightarrow> bool" where
  "lines_complete c d =
     (case first_at (key_of d) c of
        None \<Rightarrow> c = [] \<or> last c = LF
      | Some i \<Rightarrow> first_at [LF] (drop (i + 1) c) \<noteq> None)"

lemma new_content_line:
  assumes comp: "lines_complete c d" and lf: "LF \<notin> set d"
  shows "\<exists>pre post. new_content c d (key_of d @ w) = pre @ key_of d @ w @ post \<and>
    first_at (key_of d) (pre @ key_of d @ w @ post) = Some (length pre) \<and> set pre \<subseteq> set c \<and> set post \<subseteq> set c"
proof (cases "first_at (key_of d) c")
  case None
  then have "c = [] \<or> last c = LF" using comp by (simp add: lines_complete_def)
  then have "first_at (key_of d) (c @ key_of d @ w @ []) = Some (length c)"
    using first_at_append_line [OF None] lf by simp
  then show ?thesis using None by (intro exI [of _ c] exI [of _ "[]"]) (simp add: new_content_def)
next
  case (Some i)
  then obtain j where j: "first_at [LF] (drop (i + 1) c) = Some j" using comp by (auto simp: lines_complete_def)
  have "prefix (key_of d) (drop i c)" using Some first_at_Some [of "key_of d"] by simp
  then obtain r where "drop i c = key_of d @ r" by (auto simp: prefix_def)
  then have "c = take i c @ key_of d @ r" by (metis append_take_drop_id)
  moreover have "length (take i c) = i" using first_at_bound [OF Some] by simp
  ultimately have "first_at (key_of d) (take i c @ key_of d @ w @ drop (i + j + 2) c) = Some (length (take i c))"
    using first_at_agree [of "key_of d" "take i c" r] Some by simp
  then show ?thesis
    using Some j by (intro exI [of _ "take i c"] exI [of _ "drop (i + j + 2) c"])
      (auto simp: new_content_def dest: in_set_takeD in_set_dropD)
qed

section \<open>Properties\<close>

definition file_content :: "files \<Rightarrow> string \<Rightarrow> string" where
  "file_content fs name = (case fs name of None \<Rightarrow> [] | Some c \<Rightarrow> c)"

lemma open_loaded:
  "SOF_cf_open_file True True fs st name =
    (0, fs(name \<mapsto> file_content fs name), loaded (file_content fs name))"
  by (simp add: SOF_cf_open_file_def file_content_def loaded_def Let_def)

text \<open>\<open>SOF_FindSTR\<close> finds the first occurrence. On NUL-terminated strings with a non-empty
  pattern it returns the least position from the start position on at which the pattern
  occurs, and -1 exactly when there is none; the restart after a partial match misses
  nothing, and it reads inside the two blocks.\<close>
theorem SOF_FindSTR_first_occurrence:
  assumes "p \<noteq> []" and "NUL \<notin> set p" and "NUL \<notin> set u" and "n \<le> length u"
  shows "\<exists>r. SOF_FindSTR (Some (u @ NUL # r1)) (Some (p @ NUL # r2)) (int n) = Some r \<and>
    (if \<exists>j\<ge>n. prefix p (drop j u)
     then int n \<le> r \<and> prefix p (drop (nat r) u) \<and> (\<forall>j. n \<le> j \<and> j < nat r \<longrightarrow> \<not> prefix p (drop j u))
     else r = - 1)"
proof (cases "first_at p (drop n u)")
  case None
  then have no: "\<not> prefix p (drop j (drop n u))" for j using first_at_None [OF assms(1)] by blast
  have "\<not> prefix p (drop j u)" if "n \<le> j" for j using no [of "j - n"] that by simp
  then show ?thesis using FindSTR_spec [OF assms, of r1 r2] None by auto
next
  case (Some i)
  then have at: "prefix p (drop (n + i) u)" and before: "\<forall>j<i. \<not> prefix p (drop j (drop n u))"
    using first_at_Some [OF assms(1)] by (auto simp: add.commute)
  have "\<not> prefix p (drop j u)" if "n \<le> j" "j < n + i" for j
    using before [rule_format, of "j - n"] that by simp
  then show ?thesis using FindSTR_spec [OF assms, of r1 r2] Some at
    by (auto simp: nat_add_distrib intro: exI [of _ "n + i"])
qed

lemma SOF_FindSTR_first_occurrence_witness:
  "SOF_FindSTR (Some (''aabaac'' @ [NUL])) (Some (''aac'' @ [NUL])) 0 = Some 3"
proof -
  have u: "drop 0 ''aabaac'' = ''aabaac''" "drop 1 ''aabaac'' = ''abaac''" "drop 2 ''aabaac'' = ''baac''"
    "drop 3 ''aabaac'' = ''aac''" by (simp_all add: numeral_eq_Suc)
  have ex: "\<exists>j\<ge>0. prefix ''aac'' (drop j ''aabaac'')" by (intro exI [of _ 3]) (simp add: u)
  obtain r where r: "SOF_FindSTR (Some (''aabaac'' @ [NUL])) (Some (''aac'' @ [NUL])) 0 = Some r"
    "0 \<le> r" "prefix ''aac'' (drop (nat r) ''aabaac'')" "\<forall>j. j < nat r \<longrightarrow> \<not> prefix ''aac'' (drop j ''aabaac'')"
    using SOF_FindSTR_first_occurrence [of "''aac''" "''aabaac''" 0 "[]" "[]"] ex by auto
  have "\<not> 3 < nat r" using r(4) u(4) by auto
  moreover have "nat r \<noteq> 0" "nat r \<noteq> 1" "nat r \<noteq> 2" using r(3) u by (auto simp del: drop0)
  ultimately have "nat r = 3" by linarith
  then show ?thesis using r(1,2) by simp
qed

text \<open>Writing and reading a setting through \<open>SOF_cf_*\<close> adds a carriage return. On a file whose
  lines are complete, a write of a short setting succeeds, and reading the key back returns 1
  and the value with a trailing \<open>CR\<close>: the line is written with \<open>CR LF\<close> and read up to the
  \<open>LF\<close>. (The buffer is assumed to be followed by a NUL byte.)\<close>
theorem SOF_cf_write_then_read:
  assumes "c = file_content fs name" and "lines_complete c d"
    and "NUL \<notin> set c" and "NUL \<notin> set d" and "NUL \<notin> set v" and "LF \<notin> set d" and "LF \<notin> set v"
    and "length d + length v + 4 \<le> 100" and "length v + 2 \<le> length dest"
  shows "\<exists>fs' st' fs'' st''. SOF_cf_write_value True True True (NUL # sl) fs st name d v = Some (1, fs', st') \<and>
    SOF_cf_read_value True True (NUL # sl2) fs' st' name d dest =
      Some (1, v @ CR # NUL # drop (length v + 2) dest, fs'', st'')"
proof -
  let ?line = "d @ ''='' @ v @ [CR, LF]"
  have len: "length ?line + 1 \<le> 100" and nl: "NUL \<notin> set ?line" using assms by auto
  have line: "?line = key_of d @ (v @ [CR]) @ [LF]" by (simp add: key_of_def)
  obtain f1 f2 where w: "find_line (NUL # sl) (loaded c) d = Some (f1, f2)"
    "rewrite_content (NUL # sl) (loaded c) f1 f2 d v [CR, LF] = Some (new_content c d ?line)"
    using write_content [OF assms(3,4) nl refl len, of sl] by auto
  obtain pre post where n: "new_content c d (key_of d @ ((v @ [CR]) @ [LF])) = pre @ key_of d @ ((v @ [CR]) @ [LF]) @ post"
    "first_at (key_of d) (pre @ key_of d @ ((v @ [CR]) @ [LF]) @ post) = Some (length pre)"
    "set pre \<subseteq> set c" "set post \<subseteq> set c"
    using new_content_line [OF assms(2,6)] by blast
  define c' where "c' = pre @ key_of d @ (v @ [CR]) @ LF # post"
  have nc: "new_content c d ?line = c'" using n(1) by (simp add: c'_def key_of_def)
  have nul': "NUL \<notin> set c'" using n(3,4) assms(3-5) by (auto simp: c'_def)
  define fs' where "fs' = fs(name \<mapsto> c')"
  obtain st' where st': "SOF_cf_write_value True True True (NUL # sl) fs st name d v = Some (1, fs', st')"
    using w nc by (simp add: SOF_cf_write_value_def open_loaded assms(1) [symmetric] fs'_def)
  have "cf_buf (loaded c') = Some c'" by (simp add: loaded_def c'_def)
  then have "lookup_value (NUL # sl2) (loaded c') d = Some (1, Some (v @ [CR]))"
    using lookup_line [of "loaded c'" c' pre d "v @ [CR]" post sl2] n(2) nul' assms(6-8)
    by (simp add: c'_def)
  moreover have "file_content fs' name = c'" by (simp add: fs'_def file_content_def)
  moreover have "mem_write dest 0 ((v @ [CR]) @ [NUL]) = Some (v @ CR # NUL # drop (length v + 2) dest)"
    using assms(9) by (simp add: mem_write_def)
  ultimately show ?thesis using st' by (simp add: SOF_cf_read_value_def open_loaded)
qed

lemma SOF_cf_write_then_read_witness:
  "\<exists>fs' st' fs'' st''.
    SOF_cf_write_value True True True [NUL] [''f'' \<mapsto> ''a=1'' @ [LF]] \<lparr>cf_buf = None, cf_size = 0\<rparr> ''f'' ''b'' ''7'' = Some (1, fs', st') \<and>
    SOF_cf_read_value True True [NUL] fs' st' ''f'' ''b'' ''xxxx'' = Some (1, [CHR ''7'', CR, NUL, CHR ''x''], fs'', st'')"
  using SOF_cf_write_then_read [of "''a=1'' @ [LF]" "[''f'' \<mapsto> ''a=1'' @ [LF]]" "''f''" "''b''" "''7''" "''xxxx''"
      "[]" "\<lparr>cf_buf = None, cf_size = 0\<rparr>" "[]"]
  by (simp add: file_content_def lines_complete_def key_of_def)

text \<open>The file buffer has no terminator. \<open>SOF_cf_open_file\<close> allocates exactly the file size, so
  when nothing may be read behind the block every lookup in a non-empty file without a NUL
  byte runs \<open>strlen\<close> past the end of the block.\<close>
theorem SOF_cf_read_overruns_buffer:
  assumes "fs name = Some c" and "c \<noteq> []" and "NUL \<notin> set c" and "length d + 2 \<le> 100"
  shows "SOF_cf_read_value creat True [] fs st name d dest = None"
proof -
  obtain r where "sprintf_buf 100 (d @ ''='') = Some ((d @ ''='') @ NUL # r)"
    using sprintf_buf_spec [of "d @ ''=''" 100] assms(4) by auto
  then show ?thesis
    using assms by (simp add: SOF_cf_read_value_def SOF_cf_open_file_def lookup_value_def cf_text_def
        SOF_FindSTR_def c_strlen_def)
qed

lemma SOF_cf_read_overruns_buffer_witness:
  "SOF_cf_read_value True True [] [''f'' \<mapsto> ''a=1''] \<lparr>cf_buf = None, cf_size = 0\<rparr> ''f'' ''a'' ''xxxx'' = None"
  using SOF_cf_read_overruns_buffer [of "[''f'' \<mapsto> ''a=1'']" "''f''" "''a=1''" "''a''"] by simp

text \<open>Keys are matched inside longer keys. When the first occurrence of \<open>d=\<close> in the file ends a
  longer key \<open>x d\<close>, reading \<open>d\<close> returns the value of that other key.\<close>
theorem SOF_cf_read_matches_key_suffix:
  assumes "fs name = Some (x @ key_of d @ v @ LF # post)"
    and "first_at (key_of d) (x @ key_of d @ v @ LF # post) = Some (length x)"
    and "NUL \<notin> set (x @ key_of d @ v @ LF # post)" and "LF \<notin> set d" and "LF \<notin> set v"
    and "length d + 2 \<le> 100" and "length v < 100" and "length v < length dest"
  shows "\<exists>fs' st'. SOF_cf_read_value True True (NUL # sl) fs st name d dest =
    Some (1, v @ NUL # drop (length v + 1) dest, fs', st')"
proof -
  define c where "c = x @ key_of d @ v @ LF # post"
  have fc: "file_content fs name = c" using assms(1) by (simp add: file_content_def c_def)
  have "cf_buf (loaded c) = Some c" by (simp add: loaded_def c_def)
  then have "lookup_value (NUL # sl) (loaded c) d = Some (1, Some v)"
    using lookup_line [of "loaded c" c x d v post sl] assms by (simp add: c_def)
  moreover have "mem_write dest 0 (v @ [NUL]) = Some (v @ NUL # drop (length v + 1) dest)"
    using assms(8) by (simp add: mem_write_def)
  ultimately show ?thesis by (simp add: SOF_cf_read_value_def open_loaded fc)
qed

lemma SOF_cf_read_matches_key_suffix_witness:
  "\<exists>fs' st'. SOF_cf_read_value True True [NUL] [''f'' \<mapsto> ''userid=5'' @ LF # ''id=9'' @ [LF]]
     \<lparr>cf_buf = None, cf_size = 0\<rparr> ''f'' ''id'' ''xxx'' = Some (1, [CHR ''5'', NUL, CHR ''x''], fs', st')"
  using SOF_cf_read_matches_key_suffix [of "[''f'' \<mapsto> ''userid=5'' @ LF # ''id=9'' @ [LF]]" "''f''" "''user''" "''id''" "''5''"
      "''id=9'' @ [LF]" "''xxx''" "[]" "\<lparr>cf_buf = None, cf_size = 0\<rparr>"]
  by (simp add: key_of_def)

text \<open>A value of 100 characters or more is reported as read but not delivered: the lookup returns
  1 and the caller's buffer keeps its old content.\<close>
theorem SOF_cf_read_drops_long_value:
  assumes "fs name = Some (pre @ key_of d @ v @ LF # post)"
    and "first_at (key_of d) (pre @ key_of d @ v @ LF # post) = Some (length pre)"
    and "NUL \<notin> set (pre @ key_of d @ v @ LF # post)" and "LF \<notin> set d" and "LF \<notin> set v"
    and "length d + 2 \<le> 100" and "100 \<le> length v"
  shows "\<exists>fs' st'. SOF_cf_read_value True True (NUL # sl) fs st name d dest = Some (1, dest, fs', st')"
proof -
  define c where "c = pre @ key_of d @ v @ LF # post"
  have fc: "file_content fs name = c" using assms(1) by (simp add: file_content_def c_def)
  have "cf_buf (loaded c) = Some c" by (simp add: loaded_def c_def)
  then have "lookup_value (NUL # sl) (loaded c) d = Some (1, None)"
    using lookup_line [of "loaded c" c pre d v post sl] assms by (simp add: c_def)
  then show ?thesis by (simp add: SOF_cf_read_value_def open_loaded fc)
qed

lemma SOF_cf_read_drops_long_value_witness:
  "\<exists>fs' st'. SOF_cf_read_value True True [NUL] [''f'' \<mapsto> ''a='' @ replicate 120 (CHR ''z'') @ [LF]]
     \<lparr>cf_buf = None, cf_size = 0\<rparr> ''f'' ''a'' ''xxx'' = Some (1, ''xxx'', fs', st')"
  using SOF_cf_read_drops_long_value [of "[''f'' \<mapsto> ''a='' @ replicate 120 (CHR ''z'') @ [LF]]" "''f''" "[]" "''a''"
      "replicate 120 (CHR ''z'')" "[]" "[]" "\<lparr>cf_buf = None, cf_size = 0\<rparr>" "''xxx''"]
  by (simp add: key_of_def)

lemma num_loop_digits:
  "ds \<noteq> [] \<Longrightarrow> list_all is_digit ds \<Longrightarrow> \<not> is_digit c \<Longrightarrow> c \<noteq> CHR ''x'' \<Longrightarrow>
    int (length acc + length ds) \<le> max_num \<Longrightarrow>
    num_loop (ds @ c # r) False acc max_num = Some (acc @ ds, True)"
proof (induction ds arbitrary: acc)
  case Nil
  then show ?case by simp
next
  case (Cons d ds)
  show ?case
  proof (cases ds)
    case Nil
    then show ?thesis using Cons.prems by (simp add: Let_def)
  next
    case (Cons e es)
    have dig: "is_digit e" using Cons.prems(2) Cons by simp
    then have e: "e \<noteq> NUL" by (auto simp: is_digit_def)
    have "num_loop (ds @ c # r) False (acc @ [d]) max_num = Some ((acc @ [d]) @ ds, True)"
      using Cons.IH [of "acc @ [d]"] Cons.prems Cons by simp
    then show ?thesis using Cons.prems Cons dig e by (simp add: Let_def)
  qed
qed

text \<open>\<open>SOF_GetNumWord\<close> writes one byte too many. For a number of exactly \<open>max_num\<close> digits it
  stores the digits and a terminating NUL: a destination of \<open>max_num\<close> bytes is overrun, and
  one byte more is needed.\<close>
theorem SOF_GetNumWord_off_by_one:
  assumes "list_all is_digit ds" and "ds \<noteq> []" and "\<not> is_digit c" and "c \<noteq> CHR ''x''" and "c \<noteq> NUL"
    and "NUL \<notin> set u"
  shows "SOF_GetNumWord (Some (ds @ c # u @ NUL # r)) (Some nb) 0 (int (length ds)) =
    (if length ds < length nb then Some (0, Some (ds @ NUL # drop (length ds + 1) nb)) else None)"
proof -
  obtain d es where ds: "ds = d # es" using assms(2) by (cases ds) auto
  have dig: "is_digit d" using assms(1) ds by simp
  have "\<not> is_digit NUL" by (simp add: is_digit_def)
  then have "NUL \<notin> set ds" using assms(1) unfolding list_all_iff by blast
  then have "NUL \<notin> set (ds @ c # u)" using assms(5,6) by simp
  from c_strlen_spec [OF this, of r]
  have n: "c_strlen (ds @ c # u @ NUL # r) = Some (length ds + 1 + length u)" by simp
  have "length ds + 1 + length u - 1 = Suc (length es + length u)" using ds by simp
  moreover obtain e t where et: "es @ c # u @ NUL # r = e # t" by (cases es) auto
  ultimately have st: "num_start (length ds + 1 + length u - 1) 0 (ds @ c # u @ NUL # r) = Some (Some 0)"
    using ds dig by simp
  have nl: "num_loop (ds @ c # u @ NUL # r) False [] (int (length ds)) = Some (ds, True)"
    using num_loop_digits [OF assms(2,1,3,4), of "[]"] by simp
  have b: "SOF_GetNumWord (Some (ds @ c # u @ NUL # r)) (Some nb) 0 (int (length ds)) =
      do { nb' \<leftarrow> mem_write nb 0 (ds @ [NUL]); Some (0, Some nb') }"
    using n st nl by (simp add: SOF_GetNumWord_def)
  show ?thesis unfolding b by (simp add: mem_write_def)
qed

lemma SOF_GetNumWord_off_by_one_witness:
  "SOF_GetNumWord (Some (''12 apples'' @ [NUL])) (Some ''..'') 0 2 = None \<and>
   SOF_GetNumWord (Some (''12 apples'' @ [NUL])) (Some ''...'') 0 2 = Some (0, Some (''12'' @ [NUL]))"
  using SOF_GetNumWord_off_by_one [of "''12''" "CHR '' ''" "''apples''" "[]" "''..''"]
    SOF_GetNumWord_off_by_one [of "''12''" "CHR '' ''" "''apples''" "[]" "''...''"]
  by (simp add: is_digit_def)

end
