(* ===== verification/Config_File.thy ===== *)
theory Config_File
  imports String_Ops
begin

text \<open>
  The configuration file of \<open>src/FileSystem/avicodelib/config_file.c\<close>: the same search and
  rewrite as \<open>string_op_func.c\<close> (the static functions are textual copies) with \<open>LF\<close> line
  ends, values cut at a carriage return, and the file buffer kept until the next open. The
  mutex makes every call one step.
\<close>

section \<open>Operations\<close>

definition FindSTR :: "string option \<Rightarrow> string option \<Rightarrow> int \<Rightarrow> int option" where
  "FindSTR = SOF_FindSTR"

definition GetTmpLink :: "string option \<Rightarrow> string option \<Rightarrow> int \<Rightarrow> int \<Rightarrow> int \<Rightarrow> (int \<times> string option) option" where
  "GetTmpLink = SOF_GetBetweenWords"

definition cf_open_file :: "bool \<Rightarrow> bool \<Rightarrow> files \<Rightarrow> config \<Rightarrow> string \<Rightarrow> int \<times> files \<times> config" where
  "cf_open_file = SOF_cf_open_file"

definition cf_close_file :: "config \<Rightarrow> config" where
  "cf_close_file st = st\<lparr>cf_buf := None\<rparr>"

text \<open>The loop behind the copy: every \<open>CR\<close> or \<open>LF\<close> of the value becomes a NUL.\<close>

definition cut_line_end :: "string \<Rightarrow> string option" where
  "cut_line_end value = do {
     len \<leftarrow> c_strlen value;
     Some (map (\<lambda>c. if c = CR \<or> c = LF then NUL else c) (take len value) @ drop len value)
   }"

definition cf_read_value :: "bool \<Rightarrow> bool \<Rightarrow> string \<Rightarrow> files \<Rightarrow> config \<Rightarrow> string \<Rightarrow> string \<Rightarrow> string \<Rightarrow>
    (int \<times> string \<times> files \<times> config) option" where
  "cf_read_value creat mem slack fs st name desc value =
     (let (ret, fs1, st1) = cf_open_file creat mem fs st name
      in if ret < 0 then Some (ret, value, fs1, st1)
      else do {
        (r, v) \<leftarrow> lookup_value slack st1 desc;
        if r < 0 then Some (- 1, value, fs1, st1)
        else do {
          value1 \<leftarrow> (case v of None \<Rightarrow> Some value | Some s \<Rightarrow> mem_write value 0 (s @ [NUL]));
          value2 \<leftarrow> cut_line_end value1;
          Some (1, value2, fs1, st1)
        }
      })"

definition cf_write_value :: "bool \<Rightarrow> bool \<Rightarrow> bool \<Rightarrow> string \<Rightarrow> files \<Rightarrow> config \<Rightarrow> string \<Rightarrow> string \<Rightarrow> string \<Rightarrow>
    (int \<times> files \<times> config) option" where
  "cf_write_value creat creat2 mem slack fs st name desc value =
     (let (ret, fs1, st1) = cf_open_file creat mem fs st name
      in if ret < 0 then Some (- 1, fs1, st1)
      else do {
        (find1, find2) \<leftarrow> find_line slack st1 desc;
        if \<not> creat2 then Some (- 1, fs1, st1)
        else do {
          content \<leftarrow> rewrite_content slack st1 find1 find2 desc value [LF];
          Some (1, fs1(name \<mapsto> content), st1)
        }
      })"

section \<open>Reading and writing lines\<close>

lemma cf_open_loaded:
  "cf_open_file True True fs st name = (0, fs(name \<mapsto> file_content fs name), loaded (file_content fs name))"
  by (simp add: cf_open_file_def open_loaded)

lemma cut_clean:
  assumes "NUL \<notin> set v" "CR \<notin> set v" "LF \<notin> set v"
  shows "cut_line_end (v @ NUL # r) = Some (v @ NUL # r)"
proof -
  have "map (\<lambda>c. if c = CR \<or> c = LF then NUL else c) v = v"
    using assms(2,3) by (intro map_idI) auto
  then show ?thesis using c_strlen_spec [OF assms(1), of r] by (simp add: cut_line_end_def)
qed

lemma cf_read_line:
  assumes fc: "file_content fs name = pre @ key_of d @ v @ LF # post"
    and first: "first_at (key_of d) (pre @ key_of d @ v @ LF # post) = Some (length pre)"
    and nul: "NUL \<notin> set (pre @ key_of d @ v @ LF # post)"
    and lf: "LF \<notin> set d" "LF \<notin> set v" "CR \<notin> set v" and len: "length d + 2 \<le> 100" "length v < 100"
    and dest: "length v < length dest"
  shows "\<exists>fs' st'. cf_read_value True True (NUL # sl) fs st name d dest =
    Some (1, v @ NUL # drop (length v + 1) dest, fs', st')"
proof -
  define c where "c = pre @ key_of d @ v @ LF # post"
  have "cf_buf (loaded c) = Some c" by (simp add: loaded_def c_def)
  then have l: "lookup_value (NUL # sl) (loaded c) d = Some (1, Some v)"
    using lookup_line [of "loaded c" c pre d v post sl] assms by (simp add: c_def)
  have w: "mem_write dest 0 (v @ [NUL]) = Some (v @ NUL # drop (length v + 1) dest)"
    using dest by (simp add: mem_write_def)
  have nv: "NUL \<notin> set v" using nul by simp
  have "file_content fs name = c" using fc by (simp add: c_def)
  then show ?thesis
    using l w cut_clean [OF nv lf(3,2), of "drop (length v + 1) dest"]
    by (simp add: cf_read_value_def cf_open_loaded)
qed

lemma cf_write_content:
  assumes "NUL \<notin> set (file_content fs name)" "NUL \<notin> set d" "NUL \<notin> set v" "length d + length v + 3 \<le> 100"
  shows "\<exists>st'. cf_write_value True True True (NUL # sl) fs st name d v =
    Some (1, fs(name \<mapsto> new_content (file_content fs name) d (key_of d @ v @ [LF])), st')"
proof -
  let ?line = "d @ ''='' @ v @ [LF]"
  have "length ?line + 1 \<le> 100" "NUL \<notin> set ?line" using assms by auto
  from write_content [OF assms(1,2) this(2) refl this(1), of sl] show ?thesis
    by (auto simp: cf_write_value_def cf_open_loaded key_of_def)
qed

section \<open>Properties\<close>



text \<open>A replaced line leaves the rest of the file as it is. When the key is found and its line
  ends, the new file is the old one with exactly the characters from the key to the newline
  replaced by the new line.\<close>
theorem cf_write_replaces_one_line:
  assumes "file_content fs name = pre @ key_of d @ old @ LF # post"
    and "first_at (key_of d) (pre @ key_of d @ old @ LF # post) = Some (length pre)"
    and "NUL \<notin> set (pre @ key_of d @ old @ LF # post)" and "NUL \<notin> set v" and "LF \<notin> set d" and "LF \<notin> set old"
    and "length d + length v + 3 \<le> 100"
  shows "\<exists>st'. cf_write_value True True True (NUL # sl) fs st name d v =
    Some (1, fs(name \<mapsto> pre @ key_of d @ v @ LF # post), st')"
proof -
  define c where "c = pre @ key_of d @ old @ LF # post"
  have "drop (length pre + 1) c = tl (key_of d) @ old @ LF # post"
    unfolding c_def by (cases "key_of d") auto
  moreover have "LF \<notin> set (tl (key_of d) @ old)" using assms(5,6) by (cases d) (auto simp: key_of_def)
  ultimately have nl: "first_at [LF] (drop (length pre + 1) c) = Some (length d + length old)"
    using first_at_char [of LF "tl (key_of d) @ old" post] by (simp add: key_of_def)
  have "drop (length pre + (length d + length old) + 2) c = post"
    by (simp add: c_def key_of_def)
  then have "new_content c d (key_of d @ v @ [LF]) = pre @ key_of d @ v @ LF # post"
    using assms(2) nl by (simp add: new_content_def c_def)
  moreover have "NUL \<notin> set d" using assms(3) by simp
  ultimately show ?thesis
    using cf_write_content [of fs name d v sl st] assms by (simp add: c_def)
qed

lemma cf_write_replaces_one_line_witness:
  "\<exists>st'. cf_write_value True True True [NUL] [''f'' \<mapsto> ''a=1'' @ LF # ''b=2'' @ LF # ''c=3'' @ [LF]]
      \<lparr>cf_buf = None, cf_size = 0\<rparr> ''f'' ''b'' ''77'' =
    Some (1, [''f'' \<mapsto> ''a=1'' @ LF # ''b=77'' @ LF # ''c=3'' @ [LF]], st')"
  using cf_write_replaces_one_line [of "[''f'' \<mapsto> ''a=1'' @ LF # ''b=2'' @ LF # ''c=3'' @ [LF]]" "''f''" "''a=1'' @ [LF]" "''b''" "''2''"
      "''c=3'' @ [LF]" "''77''" "[]" "\<lparr>cf_buf = None, cf_size = 0\<rparr>"]
  by (simp add: file_content_def key_of_def)

text \<open>Appending to an unterminated file corrupts its last setting. When the file is one line
  without a newline and a second key is written, the new line is glued to it: reading the
  first key then returns its value followed by the whole new setting.\<close>
theorem cf_write_joins_unterminated_line:
  assumes "file_content fs name = key_of k @ v" and "first_at (key_of d) (key_of k @ v) = None"
    and "NUL \<notin> set (k @ v @ d @ w)" and "LF \<notin> set (k @ v @ d @ w)" and "CR \<notin> set (v @ d @ w)"
    and "length d + length w + 3 \<le> 100" and "length k + 2 \<le> 100"
    and "length (v @ key_of d @ w) < 100" and "length (v @ key_of d @ w) < length dest"
  shows "\<exists>fs' st' fs'' st''. cf_write_value True True True (NUL # sl) fs st name d w = Some (1, fs', st') \<and>
    cf_read_value True True (NUL # sl2) fs' st' name k dest =
      Some (1, (v @ key_of d @ w) @ NUL # drop (length (v @ key_of d @ w) + 1) dest, fs'', st'')"
proof -
  let ?v = "v @ key_of d @ w"
  have new: "new_content (key_of k @ v) d (key_of d @ w @ [LF]) = [] @ key_of k @ ?v @ LF # []"
    using assms(2) by (simp add: new_content_def)
  define fs' where "fs' = fs(name \<mapsto> [] @ key_of k @ ?v @ LF # [])"
  obtain st' where w: "cf_write_value True True True (NUL # sl) fs st name d w = Some (1, fs', st')"
    using cf_write_content [of fs name d w sl st] assms(1,3,6) new by (auto simp: fs'_def)
  have fc: "file_content fs' name = [] @ key_of k @ ?v @ LF # []" by (simp add: fs'_def file_content_def)
  have "prefix (key_of k) (key_of k @ ?v @ LF # [])" by (simp add: prefix_def)
  then have first: "first_at (key_of k) ([] @ key_of k @ ?v @ LF # []) = Some (length [])"
    by (simp add: first_at_Some)
  have nul: "NUL \<notin> set ([] @ key_of k @ ?v @ LF # [])" and lf: "LF \<notin> set k" "LF \<notin> set ?v" "CR \<notin> set ?v"
    using assms(3-5) by auto
  show ?thesis using w cf_read_line [OF fc first nul lf assms(7,8,9), of sl2 st'] by blast
qed

lemma cf_write_joins_unterminated_line_witness:
  "\<exists>fs' st' fs'' st''.
    cf_write_value True True True [NUL] [''f'' \<mapsto> ''a=1''] \<lparr>cf_buf = None, cf_size = 0\<rparr> ''f'' ''b'' ''2'' = Some (1, fs', st') \<and>
    cf_read_value True True [NUL] fs' st' ''f'' ''a'' ''xxxxxx'' = Some (1, ''1b=2'' @ [NUL, CHR ''x''], fs'', st'')"
  using cf_write_joins_unterminated_line [of "[''f'' \<mapsto> ''a=1'']" "''f''" "''a''" "''1''" "''b''" "''2''" "''xxxxxx''" "[]"
      "\<lparr>cf_buf = None, cf_size = 0\<rparr>" "[]"]
  by (simp add: file_content_def key_of_def)

end
