(* ===== verification/Io_File.thy ===== *)
theory Io_File
  imports Ipc_Base "HOL-Library.Signed_Division" "HOL-Library.Product_Lexorder"
begin

text \<open>
  The file store of \<open>src/FileSystem/filesystem/IOFile.c\<close>: a disk partition used without a
  file system. Behind a flag block and a table of 144-byte entries the partition is cut into
  pairs of files, a 3 MiB header file \<open>video_i.avh\<close> and a 125 MiB data file \<open>video_i.avd\<close>.

  The partition is a block device: its bytes, its size, the position of the open descriptor
  and the answers of the kernel to the coming \<open>read\<close> and \<open>write\<close> calls, which may be short
  or refused; with no answer left a call moves all it can. A C string is the list of the bytes
  before its NUL, \<open>long long\<close> and \<open>off_t\<close> values are \<open>int\<close> (the library is built with 64-bit
  offsets, no sum comes near the bound), and \<open>size_t\<close> products are 32-bit words.
\<close>

section \<open>The device\<close>

text \<open>\<open>Moves k\<close>: at most \<open>k\<close> bytes go through. \<open>Refuses b\<close>: -1, with \<open>EAGAIN\<close> when \<open>b\<close>.\<close>

datatype answer = Moves nat | Refuses bool

record blkdev =
  dev_bytes :: "nat \<Rightarrow> byte"
  dev_size :: nat
  dev_pos :: nat
  dev_again :: bool
  dev_answers :: "answer list"

definition segment :: "(nat \<Rightarrow> byte) \<Rightarrow> nat \<Rightarrow> nat \<Rightarrow> byte list" where
  "segment f off n = map f [off..<off + n]"

definition overlay :: "(nat \<Rightarrow> byte) \<Rightarrow> nat \<Rightarrow> byte list \<Rightarrow> nat \<Rightarrow> byte" where
  "overlay f off bs = (\<lambda>i. if off \<le> i \<and> i < off + length bs then bs ! (i - off) else f i)"

definition answer_for :: "nat \<Rightarrow> blkdev \<Rightarrow> nat option \<times> blkdev" where
  "answer_for n d =
     (case dev_answers d of
        [] \<Rightarrow> (Some (min n (dev_size d - dev_pos d)), d)
      | Moves k # as \<Rightarrow> (Some (min k (min n (dev_size d - dev_pos d))), d\<lparr>dev_answers := as\<rparr>)
      | Refuses e # as \<Rightarrow> (None, d\<lparr>dev_answers := as, dev_again := e\<rparr>))"

definition sys_read :: "nat \<Rightarrow> blkdev \<Rightarrow> int \<times> byte list \<times> blkdev" where
  "sys_read n d =
     (case answer_for n d of
        (None, d1) \<Rightarrow> (- 1, [], d1)
      | (Some k, d1) \<Rightarrow> (int k, segment (dev_bytes d1) (dev_pos d1) k, d1\<lparr>dev_pos := dev_pos d1 + k\<rparr>))"

definition sys_write :: "byte list \<Rightarrow> blkdev \<Rightarrow> int \<times> blkdev" where
  "sys_write bs d =
     (case answer_for (length bs) d of
        (None, d1) \<Rightarrow> (- 1, d1)
      | (Some k, d1) \<Rightarrow> (int k, d1\<lparr>dev_bytes := overlay (dev_bytes d1) (dev_pos d1) (take k bs),
                                 dev_pos := dev_pos d1 + k\<rparr>))"

section \<open>The descriptor operations\<close>

text \<open>
  \<open>pagesize\<close> is the static variable, \<open>sys_pagesize\<close> the answer of \<open>getpagesize\<close>, \<open>opened\<close>
  the answer of \<open>open\<close>.
\<close>

definition IO_PAGESIZE :: int where "IO_PAGESIZE = 4096"

definition IO_Open :: "int \<Rightarrow> int \<Rightarrow> int \<Rightarrow> string \<Rightarrow> int \<times> int" where
  "IO_Open sys_pagesize opened pagesize mode =
     (if pagesize = 0 \<and> sys_pagesize \<noteq> IO_PAGESIZE then (- 1, pagesize)
      else let pagesize1 = (if pagesize = 0 then IO_PAGESIZE else pagesize)
      in if CHR ''+'' \<notin> set mode \<and> CHR ''w'' \<notin> set mode \<and> CHR ''r'' \<notin> set mode
      then (- 1, pagesize1)
      else (opened, pagesize1))"

text \<open>A descriptor that has just been opened stands at position 0.\<close>

definition fresh :: "blkdev \<Rightarrow> blkdev" where
  "fresh d = d\<lparr>dev_pos := 0\<rparr>"

definition IO_Lseek :: "blkdev \<Rightarrow> int \<Rightarrow> int \<times> blkdev" where
  "IO_Lseek d offset =
     (if 0 \<le> offset \<and> offset \<le> int (dev_size d) then (offset, d\<lparr>dev_pos := nat offset\<rparr>)
      else (- 1, d))"

lemma sys_read_moves: "sys_read n d = (r, bs, d1) \<Longrightarrow> 0 < r \<Longrightarrow> length bs \<ge> Suc 0"
  by (auto simp: sys_read_def segment_def Suc_le_eq split: prod.splits option.splits)

text \<open>The loop of \<open>IO_Read\<close>: the bytes read so far and the number of \<open>EAGAIN\<close> answers.\<close>

function io_read_loop :: "nat \<Rightarrow> byte list \<Rightarrow> nat \<Rightarrow> blkdev \<Rightarrow> int \<times> byte list \<times> blkdev" where
  "io_read_loop size_n got eagain_num d =
     (if length got < size_n then
        (case sys_read (size_n - length got) d of (r, bs, d1) \<Rightarrow>
           if r \<le> 0 then
             (if r < 0 \<and> dev_again d1 \<and> eagain_num + 1 < 2
              then io_read_loop size_n got (eagain_num + 1) d1 else (- 1, got, d1))
           else io_read_loop size_n (got @ bs) eagain_num d1)
      else (int size_n, got, d))"
  by auto
termination
  by (relation "measure (\<lambda>(size_n, got, e, d). (size_n - length got) + (2 - e))")
    (auto dest!: sys_read_moves [OF sym])

definition IO_Read :: "nat \<Rightarrow> blkdev \<Rightarrow> int \<times> byte list \<times> blkdev" where
  "IO_Read size_n d = io_read_loop size_n [] 0 d"

text \<open>
  The loop of \<open>IO_Write\<close>, \<open>size\<close> being the length of the data. Here \<open>errno\<close> is also looked
  at after an answer 0, which leaves it at its previous value.
\<close>

function io_write_loop :: "byte list \<Rightarrow> nat \<Rightarrow> nat \<Rightarrow> blkdev \<Rightarrow> int \<times> blkdev" where
  "io_write_loop buf sent eagain_num d =
     (if sent < length buf then
        (case sys_write (drop sent buf) d of (r, d1) \<Rightarrow>
           if r \<le> 0 then
             (if dev_again d1 \<and> eagain_num + 1 < 2
              then io_write_loop buf sent (eagain_num + 1) d1 else (- 1, d1))
           else io_write_loop buf (sent + nat r) eagain_num d1)
      else (int (length buf), d))"
  by auto
termination
  by (relation "measure (\<lambda>(buf, sent, e, d). (length buf - sent) + (2 - e))") auto

definition IO_Write :: "byte list \<Rightarrow> blkdev \<Rightarrow> int \<times> blkdev" where
  "IO_Write buf d = io_write_loop buf 0 0 d"

declare io_read_loop.simps [simp del] io_write_loop.simps [simp del]

subsection \<open>What the loops do\<close>

lemma length_segment [simp]: "length (segment f off n) = n"
  by (simp add: segment_def)

lemma segment_nth: "i < n \<Longrightarrow> segment f off n ! i = f (off + i)"
  by (simp add: segment_def)

lemma segment_append: "segment f off m @ segment f (off + m) n = segment f off (m + n)"
  by (rule nth_equalityI) (auto simp: nth_append segment_nth)

lemma segment_cong: "(\<And>i. off \<le> i \<Longrightarrow> i < off + n \<Longrightarrow> f i = g i) \<Longrightarrow> segment f off n = segment g off n"
  by (simp add: segment_def)

lemma segment_overlay_same: "segment (overlay f off bs) off (length bs) = bs"
  by (rule nth_equalityI) (simp_all add: segment_nth overlay_def)

lemma segment_overlay_disjoint:
  "p + n \<le> off \<or> off + length bs \<le> p \<Longrightarrow> segment (overlay f off bs) p n = segment f p n"
  by (rule segment_cong) (auto simp: overlay_def)

lemma overlay_append: "overlay (overlay f off a) (off + length a) b = overlay f off (a @ b)"
  by (rule ext) (auto simp: overlay_def nth_append)

lemma overlay_Nil [simp]: "overlay f off [] = f"
  by (rule ext) (auto simp: overlay_def)

lemma answer_for_kept:
  "answer_for n d = (a, d1) \<Longrightarrow> dev_bytes d1 = dev_bytes d \<and> dev_size d1 = dev_size d \<and>
     dev_pos d1 = dev_pos d \<and> (\<forall>k. a = Some k \<longrightarrow> k \<le> n \<and> k \<le> dev_size d - dev_pos d)"
  by (auto simp: answer_for_def split: list.splits answer.splits)

lemma io_read_loop_result:
  assumes "io_read_loop n got e d = (r, out, d')" and "length got \<le> n"
  shows "\<exists>k. out = got @ segment (dev_bytes d) (dev_pos d) k \<and> dev_bytes d' = dev_bytes d \<and>
    dev_size d' = dev_size d \<and> dev_pos d' = dev_pos d + k \<and>
    (r = int n \<and> length got + k = n \<or> r = - 1 \<and> length got + k < n) \<and>
    (dev_pos d \<le> dev_size d \<longrightarrow> dev_pos d' \<le> dev_size d)"
  using assms
proof (induction n got e d rule: io_read_loop.induct)
  case (1 n got e d)
  show ?case
  proof (cases "length got < n")
    case False
    then show ?thesis using 1(3,4)
      by (auto simp: io_read_loop.simps [of n got] segment_def intro!: exI [of _ 0])
  next
    case True
    obtain q bs d1 where s: "sys_read (n - length got) d = (q, bs, d1)"
      by (metis prod_cases3)
    have k: "dev_bytes d1 = dev_bytes d" "dev_size d1 = dev_size d"
      "dev_pos d1 = dev_pos d + length bs" "bs = segment (dev_bytes d) (dev_pos d) (length bs)"
      "length bs \<le> n - length got" "dev_pos d \<le> dev_size d \<Longrightarrow> dev_pos d1 \<le> dev_size d"
      "q \<le> 0 \<Longrightarrow> bs = []"
      using s by (auto simp: sys_read_def dest!: answer_for_kept split: prod.splits option.splits)
        (auto simp: segment_def)
    show ?thesis
    proof (cases "q \<le> 0")
      case F: True
      show ?thesis
      proof (cases "q < 0 \<and> dev_again d1 \<and> e + 1 < 2")
        case R: True
        have "io_read_loop n got (e + 1) d1 = (r, out, d')"
          using 1(3) True s F R by (simp add: io_read_loop.simps [of n got e])
        from 1(1) [OF True s [symmetric] refl F R this 1(4)] show ?thesis
          using k F by auto
      next
        case R: False
        then show ?thesis using 1(3) True s F k
          by (auto simp: io_read_loop.simps [of n got e] segment_def intro!: exI [of _ 0])
      qed
    next
      case F: False
      have "io_read_loop n (got @ bs) e d1 = (r, out, d')"
        using 1(3) True s F by (simp add: io_read_loop.simps [of n got e])
      moreover have "length (got @ bs) \<le> n" using k(5) True by simp
      ultimately obtain m where m: "out = (got @ bs) @ segment (dev_bytes d1) (dev_pos d1) m"
        "dev_bytes d' = dev_bytes d1" "dev_size d' = dev_size d1" "dev_pos d' = dev_pos d1 + m"
        "r = int n \<and> length (got @ bs) + m = n \<or> r = - 1 \<and> length (got @ bs) + m < n"
        "dev_pos d1 \<le> dev_size d1 \<longrightarrow> dev_pos d' \<le> dev_size d1"
        using 1(2) [OF True s [symmetric] refl F] by blast
      have "out = got @ segment (dev_bytes d) (dev_pos d) (length bs + m)"
        using m(1) k(1,3) segment_append [of "dev_bytes d" "dev_pos d" "length bs" m] k(4) by simp
      then show ?thesis using m k by (intro exI [of _ "length bs + m"]) auto
    qed
  qed
qed

lemma io_write_loop_result:
  assumes "io_write_loop buf sent e d = (r, d')" and "sent \<le> length buf"
  shows "\<exists>k. dev_bytes d' = overlay (dev_bytes d) (dev_pos d) (take k (drop sent buf)) \<and>
    dev_size d' = dev_size d \<and> dev_pos d' = dev_pos d + k \<and>
    (r = int (length buf) \<and> sent + k = length buf \<or> r = - 1 \<and> sent + k < length buf) \<and>
    (dev_pos d \<le> dev_size d \<longrightarrow> dev_pos d' \<le> dev_size d)"
  using assms
proof (induction buf sent e d rule: io_write_loop.induct)
  case (1 buf sent e d)
  show ?case
  proof (cases "sent < length buf")
    case False
    have "(int (length buf), d) = (r, d')"
      using 1(3) False by (subst (asm) io_write_loop.simps) simp
    then show ?thesis using False 1(4) by (auto intro!: exI [of _ 0])
  next
    case True
    obtain q d1 where s: "sys_write (drop sent buf) d = (q, d1)"
      by (metis surj_pair)
    have k: "dev_bytes d1 = overlay (dev_bytes d) (dev_pos d) (take (nat q) (drop sent buf))"
      "dev_size d1 = dev_size d" "dev_pos d1 = dev_pos d + nat q"
      "nat q \<le> length buf - sent" "dev_pos d \<le> dev_size d \<Longrightarrow> dev_pos d1 \<le> dev_size d"
      using s by (auto simp: sys_write_def dest!: answer_for_kept split: prod.splits option.splits)
    show ?thesis
    proof (cases "q \<le> 0")
      case F: True
      show ?thesis
      proof (cases "dev_again d1 \<and> e + 1 < 2")
        case R: True
        have "io_write_loop buf sent (e + 1) d1 = (r, d')"
          using 1(3) True s F R by (simp add: io_write_loop.simps [of buf sent e])
        from 1(1) [OF True s [symmetric] F R this 1(4)] show ?thesis
          using k F by auto
      next
        case R: False
        then show ?thesis using 1(3) True s F k
          by (auto simp: io_write_loop.simps [of buf sent e] intro!: exI [of _ 0])
      qed
    next
      case F: False
      have "io_write_loop buf (sent + nat q) e d1 = (r, d')"
        using 1(3) True s F by (simp add: io_write_loop.simps [of buf sent e])
      moreover have "sent + nat q \<le> length buf" using k(4) True by simp
      ultimately obtain m where m:
        "dev_bytes d' = overlay (dev_bytes d1) (dev_pos d1) (take m (drop (sent + nat q) buf))"
        "dev_size d' = dev_size d1" "dev_pos d' = dev_pos d1 + m"
        "r = int (length buf) \<and> sent + nat q + m = length buf \<or> r = - 1 \<and> sent + nat q + m < length buf"
        "dev_pos d1 \<le> dev_size d1 \<longrightarrow> dev_pos d' \<le> dev_size d1"
        using 1(2) [OF True s [symmetric] F] by blast
      have "take (nat q + m) (drop sent buf) =
          take (nat q) (drop sent buf) @ take m (drop (sent + nat q) buf)"
        unfolding take_add drop_drop by (simp add: add.commute)
      then have "dev_bytes d' = overlay (dev_bytes d) (dev_pos d) (take (nat q + m) (drop sent buf))"
        using m(1) k(1,3,4) overlay_append [of "dev_bytes d" "dev_pos d" "take (nat q) (drop sent buf)"]
        by simp
      then show ?thesis using m k by (intro exI [of _ "nat q + m"]) auto
    qed
  qed
qed

text \<open>With no refusal and room on the device the loops take one round.\<close>

lemma IO_Read_ready:
  assumes "dev_answers d = []" and "dev_pos d + n \<le> dev_size d"
  shows "IO_Read n d = (int n, segment (dev_bytes d) (dev_pos d) n, d\<lparr>dev_pos := dev_pos d + n\<rparr>)"
  using assms by (auto simp: IO_Read_def io_read_loop.simps sys_read_def answer_for_def segment_def)

lemma IO_Write_ready:
  assumes "dev_answers d = []" and "dev_pos d + length bs \<le> dev_size d"
  shows "IO_Write bs d = (int (length bs),
    d\<lparr>dev_bytes := overlay (dev_bytes d) (dev_pos d) bs, dev_pos := dev_pos d + length bs\<rparr>)"
  using assms by (auto simp: IO_Write_def io_write_loop.simps sys_write_def answer_for_def)

text \<open>The two results a caller sees.\<close>

lemma IO_Read_cases:
  assumes "IO_Read n d = (r, out, d')"
  obtains (full) "r = int n" "out = segment (dev_bytes d) (dev_pos d) n"
      "dev_pos d' = dev_pos d + n" "dev_bytes d' = dev_bytes d" "dev_size d' = dev_size d"
    | (failed) "r = - 1" "dev_bytes d' = dev_bytes d" "dev_size d' = dev_size d" "length out < n"
  using io_read_loop_result [OF assms [unfolded IO_Read_def]] by fastforce

lemma IO_Write_cases:
  assumes "IO_Write bs d = (r, d')"
  obtains (full) "r = int (length bs)" "dev_bytes d' = overlay (dev_bytes d) (dev_pos d) bs"
      "dev_pos d' = dev_pos d + length bs" "dev_size d' = dev_size d"
    | (failed) k where "r = - 1" "k < length bs" "dev_size d' = dev_size d"
      "dev_bytes d' = overlay (dev_bytes d) (dev_pos d) (take k bs)" "dev_pos d' = dev_pos d + k"
  using io_write_loop_result [OF assms [unfolded IO_Write_def]] by fastforce

lemma IO_Write_full:
  assumes "IO_Write bs d = (r, d')" and "r = int (length bs)"
  shows "dev_bytes d' = overlay (dev_bytes d) (dev_pos d) bs"
    and "dev_pos d' = dev_pos d + length bs" and "dev_size d' = dev_size d"
  by (rule IO_Write_cases [OF assms(1)]; use assms(2) in simp)+

lemma IO_Read_full:
  assumes "IO_Read n d = (r, out, d')" and "r = int n"
  shows "out = segment (dev_bytes d) (dev_pos d) n" and "dev_bytes d' = dev_bytes d"
    and "dev_pos d' = dev_pos d + n" and "dev_size d' = dev_size d"
  by (rule IO_Read_cases [OF assms(1)]; use assms(2) in simp)+

section \<open>The structures on the disk\<close>

definition IO_DISK_FLAG_OFFSET :: int where "IO_DISK_FLAG_OFFSET = 1 * 1024 * 1024 - 2 * 512"
definition IO_DISK_START_OFFSET :: int where "IO_DISK_START_OFFSET = 1 * 1024 * 1024"
definition IO_DISK_FILE_INFO_OFFSET :: int where "IO_DISK_FILE_INFO_OFFSET = 2 * 1024 * 1024"
definition IO_DISK_FILE_START_OFFSET :: int where "IO_DISK_FILE_START_OFFSET = 100 * 1024 * 1024"

text \<open>The bytes of a C string literal.\<close>

definition bytes_of :: "string \<Rightarrow> byte list" where
  "bytes_of s = map (\<lambda>c. word_of_nat (of_char c)) s"

definition IO_DISK_VER :: "byte list" where "IO_DISK_VER = bytes_of ''IOFILE v1.01''"
definition IO_DISK_INVALID :: "byte list" where "IO_DISK_INVALID = bytes_of ''INVALID DISK v1.02''"

text \<open>The string in a character array, up to its NUL; \<open>strcpy\<close> into an array.\<close>

definition str_in :: "byte list \<Rightarrow> byte list" where
  "str_in a = takeWhile (\<lambda>b. b \<noteq> 0) a"

definition str_put :: "byte list \<Rightarrow> byte list \<Rightarrow> byte list" where
  "str_put a s = s @ 0 # drop (length s + 1) a"

record total_info =
  file_num :: int
  file_total_size :: int

record file_info =
  disk_offset :: int
  file_max_size :: int
  file_size :: int
  file_create_time :: int
  file_edit_time :: int
  file_pos :: int
  file_name :: "byte list"

abbreviation ll_bytes :: "int \<Rightarrow> byte list" where
  "ll_bytes x \<equiv> le_encode 8 (word_of_int x :: 64 word)"

abbreviation bytes_ll :: "byte list \<Rightarrow> int" where
  "bytes_ll bs \<equiv> sint (le_decode bs :: 64 word)"

definition total_bytes :: "total_info \<Rightarrow> byte list" where
  "total_bytes ti = ll_bytes (file_num ti) @ ll_bytes (file_total_size ti)"

definition bytes_total :: "byte list \<Rightarrow> total_info" where
  "bytes_total bs = \<lparr>file_num = bytes_ll (take 8 bs), file_total_size = bytes_ll (take 8 (drop 8 bs))\<rparr>"

definition info_bytes :: "file_info \<Rightarrow> byte list" where
  "info_bytes fi = ll_bytes (disk_offset fi) @ ll_bytes (file_max_size fi) @ ll_bytes (file_size fi) @
     ll_bytes (file_create_time fi) @ ll_bytes (file_edit_time fi) @
     le_encode 4 (word_of_int (file_pos fi) :: u32) @ file_name fi"

definition bytes_info :: "byte list \<Rightarrow> file_info" where
  "bytes_info bs =
     \<lparr>disk_offset = bytes_ll (take 8 bs), file_max_size = bytes_ll (take 8 (drop 8 bs)),
      file_size = bytes_ll (take 8 (drop 16 bs)), file_create_time = bytes_ll (take 8 (drop 24 bs)),
      file_edit_time = bytes_ll (take 8 (drop 32 bs)),
      file_pos = sint (le_decode (take 4 (drop 40 bs)) :: u32), file_name = take 100 (drop 44 bs)\<rparr>"

text \<open>The values a \<open>long long\<close> and an \<open>int\<close> hold.\<close>

definition fits_ll :: "int \<Rightarrow> bool" where
  "fits_ll x \<longleftrightarrow> - (2 ^ 63) \<le> x \<and> x < 2 ^ 63"

definition fits_int :: "int \<Rightarrow> bool" where
  "fits_int x \<longleftrightarrow> - (2 ^ 31) \<le> x \<and> x < 2 ^ 31"

definition info_fits :: "file_info \<Rightarrow> bool" where
  "info_fits fi \<longleftrightarrow> fits_ll (disk_offset fi) \<and> fits_ll (file_max_size fi) \<and> fits_ll (file_size fi) \<and>
     fits_ll (file_create_time fi) \<and> fits_ll (file_edit_time fi) \<and> fits_int (file_pos fi) \<and>
     length (file_name fi) = 100"

text \<open>\<open>struct tm\<close> as \<open>gmtime_r\<close> fills it, and the decimal time stamp made of it.\<close>

record tm =
  tm_year :: int
  tm_mon :: int
  tm_mday :: int
  tm_hour :: int
  tm_min :: int
  tm_sec :: int

definition get_64time :: "int \<Rightarrow> int \<Rightarrow> int \<Rightarrow> int \<Rightarrow> int \<Rightarrow> int \<Rightarrow> 64 word" where
  "get_64time year month day hour minute sec =
     word_of_int sec + word_of_int minute * 100 + word_of_int hour * 10000 + word_of_int day * 1000000
     + word_of_int month * 100000000 + word_of_int year * 10000000000"

definition time_of :: "tm \<Rightarrow> int" where
  "time_of t = sint (get_64time (tm_year t) (tm_mon t) (tm_mday t) (tm_hour t) (tm_min t) (tm_sec t))"

text \<open>An open file: \<open>DISK_IO_FILE\<close>. \<open>fdno\<close> is the descriptor number, \<open>io_size\<close> its own
  \<open>file_size\<close> field.\<close>

record io_file =
  fileoffset :: int
  io_size :: int
  diskoffset :: int
  file_total_info :: total_info
  io_info :: file_info
  fdno :: int
  status :: int
  diskname :: "byte list"
  filename :: "byte list"

definition FILE_CLOSE :: int where "FILE_CLOSE = 0"
definition FILE_OPEN :: int where "FILE_OPEN = 1"

definition zero_info :: file_info where
  "zero_info = \<lparr>disk_offset = 0, file_max_size = 0, file_size = 0, file_create_time = 0,
     file_edit_time = 0, file_pos = 0, file_name = replicate 100 0\<rparr>"

definition zero_file :: io_file where
  "zero_file = \<lparr>fileoffset = 0, io_size = 0, diskoffset = 0,
     file_total_info = \<lparr>file_num = 0, file_total_size = 0\<rparr>, io_info = zero_info, fdno = 0,
     status = FILE_CLOSE, diskname = [], filename = []\<rparr>"

section \<open>The table of files\<close>

text \<open>
  The offset is an unsigned 32-bit sum; the answer of \<open>IO_Lseek\<close> goes through an \<open>int\<close>. The
  result of \<open>fsync\<close> is only printed.
\<close>

definition info_offset :: "int \<Rightarrow> int" where
  "info_offset pos = uint (word_of_int IO_DISK_FILE_INFO_OFFSET + word_of_int pos * 144 :: u32)"

definition disk_save_file_info :: "io_file \<Rightarrow> blkdev \<Rightarrow> int \<times> blkdev" where
  "disk_save_file_info pfile d =
     (let (o1, d1) = IO_Lseek d (info_offset (file_pos (io_info pfile)));
          ret = sint (word_of_int o1 :: u32)
      in if ret = - 1 then (- 1, d1)
      else let (ret, d2) = IO_Write (info_bytes (io_info pfile)) d1
      in if ret \<noteq> 144 then (- 1, d2) else (1, d2))"

text \<open>\<open>sprintf\<close> of a non-negative \<open>%d\<close> and the file names made with it.\<close>

fun dec :: "nat \<Rightarrow> byte list" where
  "dec n = (if n < 10 then [word_of_nat (48 + n)] else dec (n div 10) @ [word_of_nat (48 + n mod 10)])"

declare dec.simps [simp del]

definition video_name :: "nat \<Rightarrow> string \<Rightarrow> byte list" where
  "video_name i ext = bytes_of ''video_'' @ dec i @ bytes_of ext"

text \<open>
  The loop that writes the table: \<open>n\<close> pairs are left, \<open>fi\<close> is the local \<open>file_info\<close>, which
  starts uninitialised, and \<open>now i\<close> is the time of round \<open>i\<close>.
\<close>

definition avh_info :: "tm \<Rightarrow> nat \<Rightarrow> int \<Rightarrow> int \<Rightarrow> file_info \<Rightarrow> file_info" where
  "avh_info t i pos offset fi =
     fi\<lparr>file_name := str_put (file_name fi) (video_name i ''.avh''), file_max_size := 3 * 1024 * 1024,
       file_pos := pos, disk_offset := offset, file_size := 0,
       file_create_time := time_of t, file_edit_time := time_of t\<rparr>"

definition avd_info :: "nat \<Rightarrow> int \<Rightarrow> int \<Rightarrow> file_info \<Rightarrow> file_info" where
  "avd_info i pos offset fi =
     fi\<lparr>file_name := str_put (file_name fi) (video_name i ''.avd''), file_max_size := 125 * 1024 * 1024,
       file_pos := pos, disk_offset := offset\<rparr>"

primrec format_loop :: "nat \<Rightarrow> (nat \<Rightarrow> tm) \<Rightarrow> nat \<Rightarrow> int \<Rightarrow> int \<Rightarrow> file_info \<Rightarrow> blkdev \<Rightarrow> int \<times> int \<times> blkdev" where
  "format_loop 0 now i pos offset fi d = (1, offset, d)"
| "format_loop (Suc n) now i pos offset fi d =
     (let fi1 = avh_info (now i) i pos offset fi; (ret, d1) = IO_Write (info_bytes fi1) d
      in if ret \<noteq> 144 then (- 1, offset, d1)
      else let offset1 = offset + file_max_size fi1; fi2 = avd_info i (pos + 1) offset1 fi1;
               (ret, d2) = IO_Write (info_bytes fi2) d1
      in if ret \<noteq> 144 then (- 1, offset1, d2)
      else format_loop n now (i + 1) (pos + 2) (offset1 + file_max_size fi2) fi2 d2)"

text \<open>The test before the loop compares unsigned.\<close>

definition table_too_large :: "int \<Rightarrow> bool" where
  "table_too_large total_file_num \<longleftrightarrow>
     uint (word_of_int total_file_num * 144 + word_of_int IO_DISK_FILE_INFO_OFFSET :: u32) >
       IO_DISK_FILE_START_OFFSET"

text \<open>
  \<open>fd\<close> is the answer of \<open>IO_Open\<close>, \<open>ret0\<close> the value of the uninitialised \<open>ret\<close> at its first
  test. The later tests of \<open>ret\<close> behind a seek see the length of the last write, so the
  results of the seeks are not looked at.
\<close>

definition format_disk_to_io_sys ::
    "int \<Rightarrow> int \<Rightarrow> file_info \<Rightarrow> (nat \<Rightarrow> tm) \<Rightarrow> int \<Rightarrow> blkdev \<Rightarrow> int \<times> blkdev" where
  "format_disk_to_io_sys fd ret0 fi0 now disk_size d =
     (if fd \<le> 0 then (- 1, d)
      else let d1 = snd (IO_Lseek (fresh d) IO_DISK_FLAG_OFFSET)
      in if ret0 = - 1 then (- 1, d1)
      else let (ret, d2) = IO_Write (str_put (replicate 512 0) IO_DISK_VER) d1
      in if ret \<noteq> 512 then (- 1, d2)
      else let d3 = snd (IO_Lseek d2 IO_DISK_START_OFFSET);
               (ret, d4) = IO_Write (total_bytes \<lparr>file_num = 0, file_total_size = 0\<rparr>) d3
      in if ret \<noteq> 16 then (- 1, d4)
      else let d5 = snd (IO_Lseek d4 IO_DISK_FILE_INFO_OFFSET);
               total_file_num = disk_size sdiv 128
      in if table_too_large total_file_num then (- 1, d5)
      else let (ret, offset, d6) =
                 format_loop (nat total_file_num) now 0 0 IO_DISK_FILE_START_OFFSET fi0 d5
      in if ret < 0 then (- 1, d6)
      else let d7 = snd (IO_Lseek d6 IO_DISK_START_OFFSET);
               (ret, d8) = IO_Write (total_bytes \<lparr>file_num = total_file_num * 2, file_total_size = offset\<rparr>) d7
      in if ret \<noteq> 16 then (- 1, d8) else (1, d8))"

text \<open>The flag block: which file system the disk has.\<close>

definition check_io_file_version :: "int \<Rightarrow> int \<Rightarrow> blkdev \<Rightarrow> int \<times> blkdev" where
  "check_io_file_version fd ret0 d =
     (if fd \<le> 0 then (- 1, d)
      else let d1 = snd (IO_Lseek (fresh d) IO_DISK_FLAG_OFFSET)
      in if ret0 = - 1 then (- 1, d1)
      else let (ret, tmp_buf, d2) = IO_Read 512 d1
      in if ret \<noteq> 512 then (- 1, d2)
      else if str_in tmp_buf = IO_DISK_INVALID then (2, d2)
      else if str_in tmp_buf \<noteq> IO_DISK_VER then (- 1, d2)
      else (1, d2))"

definition set_disk_is_invalid :: "int \<Rightarrow> int \<Rightarrow> blkdev \<Rightarrow> int \<times> blkdev" where
  "set_disk_is_invalid fd ret0 d =
     (if fd \<le> 0 then (- 1, d)
      else let d1 = snd (IO_Lseek (fresh d) IO_DISK_FLAG_OFFSET)
      in if ret0 = - 1 then (- 1, d1)
      else let (ret, d2) = IO_Write (str_put (replicate 512 0) IO_DISK_INVALID) d1
      in if ret \<noteq> 512 then (- 1, d2) else (1, d2))"

section \<open>Files\<close>

text \<open>\<open>sscanf(name, "video_%d.av", &pos)\<close>: \<open>pos\<close> keeps its value when no number is found.\<close>

definition is_digit :: "byte \<Rightarrow> bool" where
  "is_digit b \<longleftrightarrow> 48 \<le> unat b \<and> unat b \<le> 57"

definition digits_value :: "byte list \<Rightarrow> int" where
  "digits_value ds = foldl (\<lambda>a b. a * 10 + (int (unat b) - 48)) 0 ds"

definition scan_number :: "byte list \<Rightarrow> int option" where
  "scan_number s =
     (let s1 = dropWhile (\<lambda>b. b = 32 \<or> 9 \<le> unat b \<and> unat b \<le> 13) s;
          neg = (s1 \<noteq> [] \<and> hd s1 = 45);
          s2 = (if s1 \<noteq> [] \<and> (hd s1 = 45 \<or> hd s1 = 43) then tl s1 else s1);
          ds = takeWhile is_digit s2
      in if ds = [] then None else Some (if neg then - digits_value ds else digits_value ds))"

definition scan_video_pos :: "byte list \<Rightarrow> int \<Rightarrow> int" where
  "scan_video_pos s pos =
     (let k = bytes_of ''video_'' in
      if take (length k) s \<noteq> k then pos
      else case scan_number (drop (length k) s) of None \<Rightarrow> pos | Some v \<Rightarrow> v)"

text \<open>A structure that a failed read has filled only in part.\<close>

definition part_filled :: "byte list \<Rightarrow> byte list \<Rightarrow> byte list" where
  "part_filled old bs = bs @ drop (length bs) old"

text \<open>The search loop over \<open>n\<close> entries: 1 found, 0 not found, -1 read error.\<close>

primrec search_info :: "nat \<Rightarrow> byte list \<Rightarrow> file_info \<Rightarrow> blkdev \<Rightarrow> int \<times> file_info \<times> blkdev" where
  "search_info 0 name fi d = (0, fi, d)"
| "search_info (Suc n) name fi d =
     (let (ret, bs, d1) = IO_Read 144 d
      in if ret \<noteq> 144 then (- 1, bytes_info (part_filled (info_bytes fi) bs), d1)
      else let fi1 = bytes_info bs
      in if str_in (file_name fi1) = name then (1, fi1, d1) else search_info n name fi1 d1)"

text \<open>
  \<open>fd\<close> and \<open>ret0\<close> are as for formatting, \<open>t\<close> is the time. The names must fit the local
  arrays of 100 characters. On an error the fields set so far stay and a descriptor that was
  open is closed.
\<close>

definition open_failed :: "io_file \<Rightarrow> io_file" where
  "open_failed pfile = pfile\<lparr>fdno := 0\<rparr>"

definition stamp_info :: "string \<Rightarrow> tm \<Rightarrow> file_info \<Rightarrow> file_info" where
  "stamp_info mode t fi =
     (let fi1 = (if CHR ''w'' \<in> set mode
                 then fi\<lparr>file_edit_time := time_of t, file_create_time := time_of t, file_size := 0\<rparr> else fi)
      in if CHR ''+'' \<in> set mode then fi1\<lparr>file_edit_time := time_of t\<rparr> else fi1)"

definition file_io_open :: "int \<Rightarrow> int \<Rightarrow> tm \<Rightarrow> byte list \<Rightarrow> byte list \<Rightarrow> string \<Rightarrow> int \<Rightarrow> blkdev \<Rightarrow>
    (int \<times> io_file \<times> blkdev) option" where
  "file_io_open fd ret0 t dev name mode pos d =
     (if 100 \<le> length dev \<or> 100 \<le> length name then None
      else if dev = [] \<or> name = [] then Some (- 1, zero_file, d)
      else let f0 = zero_file\<lparr>diskname := dev, filename := name, fdno := fd\<rparr>
      in if fd \<le> 0 then Some (- 1, f0, d)
      else let d1 = snd (IO_Lseek (fresh d) IO_DISK_START_OFFSET)
      in if ret0 = - 1 then Some (- 1, open_failed f0, d1)
      else let (ret, bs, d2) = IO_Read 16 d1
      in if ret \<noteq> 16
      then Some (- 1, open_failed (f0\<lparr>file_total_info :=
                        bytes_total (part_filled (total_bytes (file_total_info f0)) bs)\<rparr>), d2)
      else let f1 = f0\<lparr>file_total_info := bytes_total bs\<rparr>;
               pos1 = sint (word_of_int (scan_video_pos name pos * 2) :: u32);
               d3 = snd (IO_Lseek (snd (IO_Lseek d2 IO_DISK_FILE_INFO_OFFSET)) (info_offset pos1));
               (r, fi, d4) = search_info (nat (file_num (file_total_info f1) - pos1)) name zero_info d3;
               f2 = f1\<lparr>io_info := fi\<rparr>
      in if r \<noteq> 1 then Some (- 1, open_failed f2, d4)
      else let f3 = f2\<lparr>io_info := stamp_info mode t fi\<rparr>;
               (ret, d5) = disk_save_file_info f3 d4
      in if ret < 0 then Some (- 1, open_failed f3, d5)
      else let f4 = f3\<lparr>diskoffset := disk_offset (io_info f3), fileoffset := 0,
                       io_size := file_size (io_info f3), status := FILE_OPEN\<rparr>
      in Some (1, f4, snd (IO_Lseek d5 (diskoffset f4))))"

text \<open>Reading is bounded by the size in the table entry, writing by the maximal size.\<close>

definition file_io_read :: "nat \<Rightarrow> io_file \<Rightarrow> blkdev \<Rightarrow> int \<times> byte list \<times> io_file \<times> blkdev" where
  "file_io_read n pfile d =
     (if fileoffset pfile + int n > file_size (io_info pfile) then (0, [], pfile, d)
      else let (ret, bs, d1) = IO_Read n d
      in if ret > 0 then (ret, bs, pfile\<lparr>fileoffset := fileoffset pfile + int n\<rparr>, d1)
      else (ret, bs, pfile, d1))"

text \<open>The argument \<open>whence\<close> is not used.\<close>

definition file_io_lseek :: "int \<Rightarrow> int \<Rightarrow> io_file \<Rightarrow> blkdev \<Rightarrow> int \<times> io_file \<times> blkdev" where
  "file_io_lseek offset whence pfile d =
     (let pos = diskoffset pfile + offset
      in if pos < disk_offset (io_info pfile) \<or> pos > disk_offset (io_info pfile) + io_size pfile
      then (- 1, pfile, d)
      else if pos > disk_offset (io_info pfile) + file_max_size (io_info pfile) then (- 1, pfile, d)
      else let (ret, d1) = IO_Lseek d pos
      in if ret \<noteq> - 1 then (ret, pfile\<lparr>fileoffset := offset\<rparr>, d1) else (ret, pfile, d1))"

definition file_io_write :: "byte list \<Rightarrow> io_file \<Rightarrow> blkdev \<Rightarrow> int \<times> io_file \<times> blkdev" where
  "file_io_write buf pfile d =
     (if fileoffset pfile + int (length buf) > file_max_size (io_info pfile) then (0, pfile, d)
      else let (ret, d1) = IO_Write buf d
      in if ret > 0
      then let f1 = pfile\<lparr>fileoffset := fileoffset pfile + int (length buf)\<rparr>
           in (ret, (if fileoffset f1 > io_size f1 then f1\<lparr>io_size := fileoffset f1\<rparr> else f1), d1)
      else (ret, pfile, d1))"

definition file_io_sync :: "io_file \<Rightarrow> blkdev \<Rightarrow> int \<times> io_file \<times> blkdev" where
  "file_io_sync pfile d =
     (if io_size pfile > file_size (io_info pfile)
      then let f1 = pfile\<lparr>io_info := (io_info pfile)\<lparr>file_size := io_size pfile\<rparr>\<rparr>;
               (ret, d1) = disk_save_file_info f1 d
           in if ret < 0 then (- 1, f1, d1) else (1, f1, d1)
      else (1, pfile, d))"

definition file_io_close :: "io_file \<Rightarrow> blkdev \<Rightarrow> int \<times> io_file \<times> blkdev" where
  "file_io_close pfile d =
     (if fdno pfile > 0
      then (case file_io_sync pfile d of (_, _, d1) \<Rightarrow> (1, zero_file, d1))
      else (1, pfile, d))"

definition file_io_file_get_length :: "io_file \<Rightarrow> int" where
  "file_io_file_get_length pfile =
     (if fdno pfile > 0 then sint (word_of_int (io_size pfile) :: u32) else - 1)"

definition file_io_file_get_pos :: "io_file \<Rightarrow> int" where
  "file_io_file_get_pos pfile =
     (if fdno pfile > 0 then sint (word_of_int (fileoffset pfile) :: u32) else - 1)"

section \<open>Structures round trip\<close>

lemma signed_64_fits: "fits_ll x \<Longrightarrow> signed_take_bit 63 x = x"
  by (simp add: fits_ll_def signed_take_bit_int_eq_self)

lemma bytes_ll_of: "fits_ll x \<Longrightarrow> bytes_ll (ll_bytes x) = x"
  by (simp add: le_decode_encode_full sint_sbintrunc' signed_64_fits)

lemma length_info_bytes: "length (file_name fi) = 100 \<Longrightarrow> length (info_bytes fi) = 144"
  by (simp add: info_bytes_def)

lemma bytes_info_of: "info_fits fi \<Longrightarrow> bytes_info (info_bytes fi) = fi"
  by (simp add: bytes_info_def info_bytes_def info_fits_def le_decode_encode_full
      fits_int_def sint_sbintrunc' signed_take_bit_int_eq_self signed_64_fits)

lemma length_total_bytes [simp]: "length (total_bytes ti) = 16"
  by (simp add: total_bytes_def)

lemma bytes_total_of:
  "fits_ll (file_num ti) \<Longrightarrow> fits_ll (file_total_size ti) \<Longrightarrow> bytes_total (total_bytes ti) = ti"
  by (simp add: bytes_total_def total_bytes_def bytes_ll_of)

lemma fits_time_of: "fits_ll (time_of t)"
  using sint_lt [of "get_64time (tm_year t) (tm_mon t) (tm_mday t) (tm_hour t) (tm_min t) (tm_sec t)"]
    sint_ge [of "get_64time (tm_year t) (tm_mon t) (tm_mday t) (tm_hour t) (tm_min t) (tm_sec t)"]
  by (simp add: fits_ll_def time_of_def)

lemma str_in_put: "0 \<notin> set s \<Longrightarrow> str_in (str_put a s) = s"
  by (auto simp: str_in_def str_put_def takeWhile_eq_all_conv takeWhile_append)

lemma length_str_put: "length s < length a \<Longrightarrow> length (str_put a s) = length a"
  by (simp add: str_put_def)

subsection \<open>File names\<close>

lemma digit_byte: "n < 10 \<Longrightarrow> unat (word_of_nat (48 + n) :: byte) = 48 + n"
  by (simp add: unat_of_nat del: of_nat_add)

lemma dec_digits: "b \<in> set (dec n) \<Longrightarrow> is_digit b"
proof (induction n rule: dec.induct)
  case (1 n)
  show ?case
  proof (cases "n < 10")
    case True
    then show ?thesis using 1(2) digit_byte [of n]
      by (auto simp: dec.simps [of n] is_digit_def simp del: of_nat_add)
  next
    case False
    then show ?thesis using 1 digit_byte [of "n mod 10"]
      by (auto simp: dec.simps [of n] is_digit_def simp del: of_nat_add)
  qed
qed

lemma digits_value_snoc: "digits_value (ds @ [b]) = digits_value ds * 10 + (int (unat b) - 48)"
  by (simp add: digits_value_def)

lemma digits_value_dec: "digits_value (dec n) = int n"
proof (induction n rule: dec.induct)
  case (1 n)
  show ?case
  proof (cases "n < 10")
    case True
    then show ?thesis using digit_byte [of n]
      by (simp add: dec.simps [of n] digits_value_def del: of_nat_add of_nat_unat)
  next
    case False
    have u: "unat (word_of_nat (48 + n mod 10) :: byte) = 48 + n mod 10"
      by (rule digit_byte) simp
    have "digits_value (dec n) = int (n div 10) * 10 + (int (48 + n mod 10) - 48)"
      using 1 False u by (simp add: dec.simps [of n] digits_value_snoc del: of_nat_add)
    also have "\<dots> = int n"
      by simp (metis add.commute div_mod_decomp_int of_nat_mod of_nat_div of_nat_numeral)
    finally show ?thesis .
  qed
qed

lemma dec_nonempty: "dec n \<noteq> []"
  by (simp add: dec.simps [of n])

lemma length_dec: "n < 10 ^ k \<Longrightarrow> 0 < k \<Longrightarrow> length (dec n) \<le> k"
proof (induction k arbitrary: n)
  case (Suc k)
  show ?case
  proof (cases "n < 10")
    case False
    then have "0 < k" "n div 10 < 10 ^ k" using Suc.prems by (cases k; simp; linarith)+
    then show ?thesis using Suc.IH [of "n div 10"] False by (simp add: dec.simps [of n])
  qed (simp add: dec.simps [of n])
qed simp

lemma video_name_facts:
  assumes "n < 2 ^ 31" and "ext = ''.avh'' \<or> ext = ''.avd''"
  shows "0 \<notin> set (video_name n ext)" and "length (video_name n ext) \<le> 20"
    and "scan_video_pos (video_name n ext) p = int n"
proof -
  have d: "0 \<notin> set (dec n)" using dec_digits [of 0 n] by (auto simp: is_digit_def)
  show "0 \<notin> set (video_name n ext)"
    using assms(2) d by (auto simp: video_name_def bytes_of_def)
  have "length (dec n) \<le> 10" using assms(1) by (intro length_dec) auto
  then show "length (video_name n ext) \<le> 20"
    using assms(2) by (auto simp: video_name_def bytes_of_def)
  obtain c cs where c: "dec n = c # cs" using dec_nonempty by (cases "dec n") auto
  then have cd: "is_digit c" using dec_digits [of c n] by simp
  have tw: "takeWhile is_digit (dec n @ bytes_of ext) = dec n"
    using assms(2) dec_digits [of _ n]
    by (auto simp: takeWhile_append takeWhile_eq_all_conv bytes_of_def is_digit_def)
  have nc: "c \<noteq> 32" "\<not> (9 \<le> unat c \<and> unat c \<le> 13)" "c \<noteq> 45" "c \<noteq> 43"
    using cd by (auto simp: is_digit_def)
  have dw: "dropWhile (\<lambda>b. b = 32 \<or> 9 \<le> unat b \<and> unat b \<le> 13) (dec n @ bytes_of ext) =
      dec n @ bytes_of ext"
    unfolding c append_Cons dropWhile.simps by (rule if_not_P) (use nc(1,2) in blast)
  have "scan_number (dec n @ bytes_of ext) = Some (int n)"
    unfolding scan_number_def Let_def dw using nc c tw [unfolded c] digits_value_dec [of n] by simp
  then show "scan_video_pos (video_name n ext) p = int n"
    by (simp add: scan_video_pos_def video_name_def)
qed

lemma video_name_ext: "video_name n ''.avh'' \<noteq> video_name n ''.avd''"
  by (simp add: video_name_def bytes_of_def)

section \<open>Formatting\<close>

text \<open>The layout the table promises: what entry \<open>j\<close> says.\<close>

definition video_start :: "nat \<Rightarrow> int" where
  "video_start j = IO_DISK_FILE_START_OFFSET + int (j div 2) * (128 * 1024 * 1024) +
     (if odd j then 3 * 1024 * 1024 else 0)"

definition video_max :: "nat \<Rightarrow> int" where
  "video_max j = (if even j then 3 * 1024 * 1024 else 125 * 1024 * 1024)"

definition video_label :: "nat \<Rightarrow> byte list" where
  "video_label j = video_name (j div 2) (if even j then ''.avh'' else ''.avd'')"

definition names_entry :: "nat \<Rightarrow> file_info \<Rightarrow> bool" where
  "names_entry j fi \<longleftrightarrow> info_fits fi \<and> file_pos fi = int j \<and> disk_offset fi = video_start j \<and>
     file_max_size fi = video_max j \<and> str_in (file_name fi) = video_label j"

definition is_entry :: "nat \<Rightarrow> file_info \<Rightarrow> bool" where
  "is_entry j fi \<longleftrightarrow> names_entry j fi \<and> file_size fi = 0"

text \<open>The extents follow each other without a gap.\<close>

lemma video_start_Suc: "video_start (Suc j) = video_start j + video_max j"
  by (cases "even j") (auto simp: video_start_def video_max_def elim!: evenE oddE)

lemma video_start_0: "video_start 0 = IO_DISK_FILE_START_OFFSET"
  by (simp add: video_start_def)

lemma video_start_mono: "j < k \<Longrightarrow> video_start j + video_max j \<le> video_start k"
proof (induction k)
  case (Suc k)
  have "0 \<le> video_max k" by (simp add: video_max_def)
  then show ?case using Suc by (cases "j = k") (auto simp: video_start_Suc)
qed simp

subsection \<open>The loop\<close>

lemma segment_overlay_inside:
  "a + n \<le> length bs \<Longrightarrow> segment (overlay f off bs) (off + a) n = take n (drop a bs)"
  by (rule nth_equalityI) (auto simp: segment_nth overlay_def)

lemma length_concat_uniform:
  "(\<And>x. x \<in> set xs \<Longrightarrow> length (g x) = m) \<Longrightarrow> length (concat (map g xs)) = m * length xs"
  by (induction xs) auto

lemma take_drop_concat:
  "(\<And>x. x \<in> set xs \<Longrightarrow> length (g x) = m) \<Longrightarrow> k < length xs \<Longrightarrow>
     take m (drop (m * k) (concat (map g xs))) = g (xs ! k)"
proof (induction xs arbitrary: k)
  case (Cons x xs)
  then show ?case by (cases k) auto
qed simp

lemma is_entry_avh:
  assumes "length (file_name fi) = 100" and "i < 2 ^ 30"
  shows "is_entry (2 * i) (avh_info t i (2 * int i) (video_start (2 * i)) fi)"
    and "length (file_name (avh_info t i p off fi)) = 100"
proof -
  have v: "0 \<notin> set (video_name i ''.avh'')" "length (video_name i ''.avh'') \<le> 20"
    using video_name_facts(1,2) [of i "''.avh''"] assms(2) by auto
  then show l: "length (file_name (avh_info t i p off fi)) = 100" for p off
    using assms(1) by (simp add: avh_info_def length_str_put)
  have "fits_ll (video_start (2 * i))" and "fits_int (2 * int i)"
    using assms(2) by (simp_all add: fits_ll_def fits_int_def video_start_def IO_DISK_FILE_START_OFFSET_def)
  then show "is_entry (2 * i) (avh_info t i (2 * int i) (video_start (2 * i)) fi)"
    using l [of "2 * int i" "video_start (2 * i)"] v(1) fits_time_of [of t]
    by (auto simp: is_entry_def names_entry_def info_fits_def avh_info_def video_max_def video_label_def str_in_put fits_ll_def)
qed

lemma is_entry_avd:
  assumes "is_entry (2 * i) fi" and "i < 2 ^ 30"
  shows "is_entry (2 * i + 1) (avd_info i (2 * int i + 1) (video_start (2 * i + 1)) fi)"
    and "length (file_name (avd_info i p off fi)) = 100"
proof -
  have v: "0 \<notin> set (video_name i ''.avd'')" "length (video_name i ''.avd'') \<le> 20"
    using video_name_facts(1,2) [of i "''.avd''"] assms(2) by auto
  have a: "length (file_name fi) = 100" using assms(1) by (simp add: is_entry_def names_entry_def info_fits_def)
  show l: "length (file_name (avd_info i p off fi)) = 100" for p off
    using v a by (simp add: avd_info_def length_str_put)
  have "fits_ll (video_start (2 * i + 1))" and "fits_int (2 * int i + 1)"
    using assms(2) by (simp_all add: fits_ll_def fits_int_def video_start_def IO_DISK_FILE_START_OFFSET_def)
  then show "is_entry (2 * i + 1) (avd_info i (2 * int i + 1) (video_start (2 * i + 1)) fi)"
    using l [of "2 * int i + 1" "video_start (2 * i + 1)"] v(1) assms(1)
    by (auto simp: is_entry_def names_entry_def info_fits_def avd_info_def video_max_def video_label_def str_in_put fits_ll_def)
qed

lemma is_entry_length: "is_entry j fi \<Longrightarrow> length (info_bytes fi) = 144"
  by (simp add: is_entry_def names_entry_def info_fits_def length_info_bytes)

lemma format_loop_layout:
  assumes "format_loop n now i (2 * int i) (video_start (2 * i)) fi d = (1, off, d')"
    and "length (file_name fi) = 100" and "i + n < 2 ^ 30"
  shows "off = video_start (2 * (i + n)) \<and> dev_size d' = dev_size d \<and>
    (\<exists>es. length es = 2 * n \<and> dev_bytes d' = overlay (dev_bytes d) (dev_pos d) (concat (map info_bytes es)) \<and>
      (\<forall>k < 2 * n. is_entry (2 * i + k) (es ! k)))"
  using assms
proof (induction n arbitrary: i fi d)
  case 0
  then show ?case by (auto intro!: exI [of _ "[]"])
next
  case (Suc n)
  define fi1 where "fi1 = avh_info (now i) i (2 * int i) (video_start (2 * i)) fi"
  define fi2 where "fi2 = avd_info i (2 * int i + 1) (video_start (2 * i + 1)) fi1"
  have i: "i < 2 ^ 30" using Suc.prems(3) by simp
  have e1: "is_entry (2 * i) fi1" unfolding fi1_def by (rule is_entry_avh) (use Suc.prems(2) i in auto)
  have e2: "is_entry (2 * i + 1) fi2" "length (file_name fi2) = 100"
    unfolding fi2_def by (rule is_entry_avd [OF e1 i])+
  obtain r1 d1 where w1: "IO_Write (info_bytes fi1) d = (r1, d1)" by fastforce
  obtain r2 d2 where w2: "IO_Write (info_bytes fi2) d1 = (r2, d2)" by fastforce
  have m: "video_start (2 * i) + file_max_size fi1 = video_start (2 * i + 1)"
    "video_start (2 * i + 1) + file_max_size fi2 = video_start (2 * (i + 1))"
    using e1 e2(1) video_start_Suc [of "2 * i"] video_start_Suc [of "2 * i + 1"]
    by (simp_all add: is_entry_def names_entry_def)
  have ok: "r1 = 144" "r2 = 144"
    and rest0: "format_loop n now (i + 1) (2 * int i + 2) (video_start (2 * (i + 1))) fi2 d2 = (1, off, d')"
    using Suc.prems(1) w1 w2 m unfolding fi1_def fi2_def
    by (auto simp: Let_def split: if_splits)
  have "2 * int i + 2 = 2 * int (i + 1)" by simp
  note rest = rest0 [unfolded this]
  from Suc.IH [OF rest e2(2)] Suc.prems(3) obtain es where es:
    "off = video_start (2 * (i + 1 + n))" "dev_size d' = dev_size d2" "length es = 2 * n"
    "dev_bytes d' = overlay (dev_bytes d2) (dev_pos d2) (concat (map info_bytes es))"
    "\<And>k. k < 2 * n \<Longrightarrow> is_entry (2 * (i + 1) + k) (es ! k)"
    by auto
  have l: "length (info_bytes fi1) = 144" "length (info_bytes fi2) = 144"
    by (rule is_entry_length [OF e1], rule is_entry_length [OF e2(1)])
  have b1: "dev_bytes d1 = overlay (dev_bytes d) (dev_pos d) (info_bytes fi1)"
    "dev_pos d1 = dev_pos d + 144" "dev_size d1 = dev_size d"
    using IO_Write_full [OF w1] ok(1) l(1) by simp_all
  have b2: "dev_bytes d2 = overlay (dev_bytes d1) (dev_pos d1) (info_bytes fi2)"
    "dev_pos d2 = dev_pos d1 + 144" "dev_size d2 = dev_size d1"
    using IO_Write_full [OF w2] ok(2) l(2) by simp_all
  have "dev_bytes d' = overlay (dev_bytes d) (dev_pos d) (concat (map info_bytes (fi1 # fi2 # es)))"
    using es(4) b1 b2 l overlay_append [of "dev_bytes d" "dev_pos d" "info_bytes fi1" "info_bytes fi2"]
      overlay_append [of "dev_bytes d" "dev_pos d" "info_bytes fi1 @ info_bytes fi2"]
    by (simp add: add.assoc)
  moreover have "is_entry (2 * i + k) ((fi1 # fi2 # es) ! k)" if k: "k < 2 * Suc n" for k
  proof (cases k)
    case 0
    then show ?thesis using e1 by simp
  next
    case (Suc k')
    then show ?thesis using e2(1) k es(5) [of "k' - 1"] by (cases k') auto
  qed
  ultimately show ?case using es(1-3) b1(3) b2(3)
    by (intro conjI exI [of _ "fi1 # fi2 # es"]) auto
qed

subsection \<open>The whole format\<close>

text \<open>What is stored on a device: the flag, the total and entry \<open>j\<close> of the table.\<close>

definition stored_flag :: "blkdev \<Rightarrow> byte list" where
  "stored_flag d = str_in (segment (dev_bytes d) (nat IO_DISK_FLAG_OFFSET) 512)"

definition stored_total :: "blkdev \<Rightarrow> total_info" where
  "stored_total d = bytes_total (segment (dev_bytes d) (nat IO_DISK_START_OFFSET) 16)"

definition stored_info :: "blkdev \<Rightarrow> nat \<Rightarrow> file_info" where
  "stored_info d j = bytes_info (segment (dev_bytes d) (nat IO_DISK_FILE_INFO_OFFSET + 144 * j) 144)"

definition pairs_of :: "int \<Rightarrow> nat" where
  "pairs_of disk_size = nat (disk_size div 128)"

lemmas offset_defs = IO_DISK_FLAG_OFFSET_def IO_DISK_START_OFFSET_def
  IO_DISK_FILE_INFO_OFFSET_def IO_DISK_FILE_START_OFFSET_def

lemma IO_Lseek_ok:
  "0 \<le> off \<Longrightarrow> off \<le> int (dev_size d) \<Longrightarrow> IO_Lseek d off = (off, d\<lparr>dev_pos := nat off\<rparr>)"
  by (simp add: IO_Lseek_def)

lemma IO_Lseek_kept [simp]:
  "dev_bytes (snd (IO_Lseek d off)) = dev_bytes d" "dev_size (snd (IO_Lseek d off)) = dev_size d"
  "dev_answers (snd (IO_Lseek d off)) = dev_answers d"
  by (simp_all add: IO_Lseek_def)

lemma fresh_kept [simp]:
  "dev_bytes (fresh d) = dev_bytes d" "dev_size (fresh d) = dev_size d" "dev_answers (fresh d) = dev_answers d"
  by (simp_all add: fresh_def)

lemma flag_block:
  "length (str_put (replicate 512 0) IO_DISK_VER) = 512" "str_in (str_put (replicate 512 0) IO_DISK_VER) = IO_DISK_VER"
  "length (str_put (replicate 512 0) IO_DISK_INVALID) = 512"
  "str_in (str_put (replicate 512 0) IO_DISK_INVALID) = IO_DISK_INVALID"
proof -
  have "length IO_DISK_VER = 12" "length IO_DISK_INVALID = 18" "0 \<notin> set IO_DISK_VER" "0 \<notin> set IO_DISK_INVALID"
    by (simp_all add: IO_DISK_VER_def IO_DISK_INVALID_def bytes_of_def)
  then show "length (str_put (replicate 512 0) IO_DISK_VER) = 512"
    "str_in (str_put (replicate 512 0) IO_DISK_VER) = IO_DISK_VER"
    "length (str_put (replicate 512 0) IO_DISK_INVALID) = 512"
    "str_in (str_put (replicate 512 0) IO_DISK_INVALID) = IO_DISK_INVALID"
    by (simp_all add: length_str_put str_in_put)
qed

text \<open>The steps of a successful format.\<close>

lemma format_steps:
  assumes "format_disk_to_io_sys fd ret0 fi0 now disk_size d = (1, d')" and "0 \<le> disk_size"
    and "2 * 1024 * 1024 \<le> int (dev_size d)"
  shows "\<exists>d5 d6 off. format_loop (pairs_of disk_size) now 0 0 IO_DISK_FILE_START_OFFSET fi0 d5 = (1, off, d6) \<and>
    dev_pos d5 = 2097152 \<and> dev_size d5 = dev_size d \<and>
    dev_bytes d5 = overlay (overlay (dev_bytes d) 1047552 (str_put (replicate 512 0) IO_DISK_VER)) 1048576
      (total_bytes \<lparr>file_num = 0, file_total_size = 0\<rparr>) \<and>
    (dev_size d6 = dev_size d \<longrightarrow>
     dev_bytes d' = overlay (dev_bytes d6) 1048576
      (total_bytes \<lparr>file_num = int (pairs_of disk_size) * 2, file_total_size = off\<rparr>)) \<and>
    dev_size d' = dev_size d6"
proof -
  have sd: "disk_size sdiv 128 = int (pairs_of disk_size)"
    using assms(2) by (cases "disk_size = 0") (simp_all add: signed_divide_int_def pairs_of_def)
  define d1 where "d1 = snd (IO_Lseek (fresh d) IO_DISK_FLAG_OFFSET)"
  obtain r2 d2 where w2: "IO_Write (str_put (replicate 512 0) IO_DISK_VER) d1 = (r2, d2)" by fastforce
  define d3 where "d3 = snd (IO_Lseek d2 IO_DISK_START_OFFSET)"
  obtain r4 d4 where w4: "IO_Write (total_bytes \<lparr>file_num = 0, file_total_size = 0\<rparr>) d3 = (r4, d4)" by fastforce
  define d5 where "d5 = snd (IO_Lseek d4 IO_DISK_FILE_INFO_OFFSET)"
  obtain r6 off d6 where w6: "format_loop (pairs_of disk_size) now 0 0 IO_DISK_FILE_START_OFFSET fi0 d5 = (r6, off, d6)"
    by (metis prod_cases3)
  define d7 where "d7 = snd (IO_Lseek d6 IO_DISK_START_OFFSET)"
  obtain r8 d8 where w8: "IO_Write (total_bytes \<lparr>file_num = int (pairs_of disk_size) * 2, file_total_size = off\<rparr>) d7 = (r8, d8)"
    by fastforce
  have r: "r2 = 512" "r4 = 16" "0 \<le> r6" "r8 = 16" "d8 = d'"
    using assms(1) w2 w4 w6 w8 unfolding format_disk_to_io_sys_def sd
    by (auto simp: Let_def d1_def [symmetric] d3_def [symmetric] d5_def [symmetric] d7_def [symmetric]
        split: if_splits)
  have r6: "r6 = 1"
  proof -
    have "r = 1 \<or> r = - 1" if "format_loop n now i p o1 fi e = (r, off, d6)" for n i p o1 fi e r
      using that by (induction n arbitrary: i p o1 fi e) (auto simp: Let_def split: prod.splits if_splits)
    from this [OF w6] r(3) show ?thesis by auto
  qed
  have p1: "dev_pos d1 = 1047552" using assms(3) by (simp add: d1_def IO_Lseek_ok offset_defs)
  note b2 = IO_Write_full [OF w2, unfolded flag_block, simplified r(1), simplified]
  have p3: "dev_pos d3 = 1048576" using assms(3) b2(3) by (simp add: d3_def d1_def IO_Lseek_ok offset_defs)
  note b4 = IO_Write_full [OF w4, simplified r(2), simplified]
  have p5: "dev_pos d5 = 2097152" "dev_size d5 = dev_size d"
    using assms(3) b2(3) b4(3) by (simp_all add: d5_def d3_def d1_def IO_Lseek_ok offset_defs)
  note b8 = IO_Write_full [OF w8, simplified r(4), simplified]
  have "dev_bytes d5 = overlay (overlay (dev_bytes d) 1047552 (str_put (replicate 512 0) IO_DISK_VER)) 1048576
      (total_bytes \<lparr>file_num = 0, file_total_size = 0\<rparr>)"
    using b2(1) b4(1) p1 p3 by (simp add: d5_def d3_def d1_def)
  moreover have "dev_bytes d' = overlay (dev_bytes d6) 1048576
      (total_bytes \<lparr>file_num = int (pairs_of disk_size) * 2, file_total_size = off\<rparr>)" if "dev_size d6 = dev_size d"
  proof -
    have "dev_pos d7 = 1048576" using assms(3) that by (simp add: d7_def IO_Lseek_ok offset_defs)
    then show ?thesis using b8(1) r(5) by (simp add: d7_def)
  qed
  moreover have "dev_size d' = dev_size d6" using b8(3) r(5) by (simp add: d7_def)
  ultimately show ?thesis using w6 r6 p5 by (intro exI [of _ d5] exI [of _ d6] exI [of _ off]) simp
qed

lemma format_layout_aux:
  assumes "format_disk_to_io_sys fd ret0 fi0 now disk_size d = (1, d')"
    and "length (file_name fi0) = 100" and "0 \<le> disk_size" and "disk_size < 2 ^ 31"
    and "2 * 1024 * 1024 \<le> int (dev_size d)"
  shows "stored_flag d' = IO_DISK_VER"
    and "stored_total d' = \<lparr>file_num = 2 * int (pairs_of disk_size),
      file_total_size = video_start (2 * pairs_of disk_size)\<rparr>"
    and "j < 2 * pairs_of disk_size \<Longrightarrow> is_entry j (stored_info d' j)"
    and "dev_size d' = dev_size d"
    and "j < 2 * pairs_of disk_size \<Longrightarrow> length (file_name (stored_info d' j)) = 100"
proof -
  let ?n = "pairs_of disk_size"
  have n: "0 + ?n < 2 ^ 30" using assms(3,4) by (simp add: pairs_of_def nat_less_iff)
  obtain d5 d6 off where s: "format_loop ?n now 0 (2 * int 0) (video_start (2 * 0)) fi0 d5 = (1, off, d6)"
    "dev_pos d5 = 2097152" "dev_size d5 = dev_size d"
    "dev_bytes d5 = overlay (overlay (dev_bytes d) 1047552 (str_put (replicate 512 0) IO_DISK_VER)) 1048576
      (total_bytes \<lparr>file_num = 0, file_total_size = 0\<rparr>)"
    "dev_size d6 = dev_size d \<longrightarrow> dev_bytes d' = overlay (dev_bytes d6) 1048576
      (total_bytes \<lparr>file_num = int ?n * 2, file_total_size = off\<rparr>)" "dev_size d' = dev_size d6"
    using format_steps [OF assms(1,3,5)] by (auto simp: video_start_0)
  obtain es where es: "off = video_start (2 * ?n)" "dev_size d6 = dev_size d5" "length es = 2 * ?n"
    "dev_bytes d6 = overlay (dev_bytes d5) (dev_pos d5) (concat (map info_bytes es))"
    "\<And>k. k < 2 * ?n \<Longrightarrow> is_entry k (es ! k)"
    using format_loop_layout [OF s(1) assms(2) n] by auto
  have b: "dev_bytes d' = overlay (dev_bytes d6) 1048576 (total_bytes \<lparr>file_num = int ?n * 2, file_total_size = off\<rparr>)"
    using s(3,5) es(2) by simp
  have uni: "length (info_bytes x) = 144" if "x \<in> set es" for x
    using that es(3,5) by (metis in_set_conv_nth is_entry_length)
  show "stored_flag d' = IO_DISK_VER"
    using segment_overlay_same [of "dev_bytes d" 1047552 "str_put (replicate 512 0) IO_DISK_VER"]
    unfolding stored_flag_def b es(4) s(2,4) flag_block
    by (simp add: IO_DISK_FLAG_OFFSET_def segment_overlay_disjoint flag_block)
  have fit: "fits_ll (int ?n * 2)" "fits_ll off"
    using n es(1) by (simp_all add: fits_ll_def video_start_def IO_DISK_FILE_START_OFFSET_def)
  show "stored_total d' = \<lparr>file_num = 2 * int ?n, file_total_size = video_start (2 * ?n)\<rparr>"
    using segment_overlay_same [of "dev_bytes d6" 1048576 "total_bytes \<lparr>file_num = int ?n * 2, file_total_size = off\<rparr>"]
      fit es(1) unfolding stored_total_def b
    by (simp add: IO_DISK_START_OFFSET_def bytes_total_of mult.commute)
  have entry: "stored_info d' j = es ! j" if j: "j < 2 * ?n"
  proof -
    have l: "144 * j + 144 \<le> length (concat (map info_bytes es))"
      using length_concat_uniform [of es info_bytes 144] uni es(3) j by simp
    have "segment (dev_bytes d') (2097152 + 144 * j) 144 = take 144 (drop (144 * j) (concat (map info_bytes es)))"
      unfolding b by (simp add: segment_overlay_disjoint es(4) s(2) segment_overlay_inside [OF l])
    also have "\<dots> = info_bytes (es ! j)"
      using take_drop_concat [of es info_bytes 144 j] uni es(3) j by simp
    finally show ?thesis using es(5) [OF j]
      by (simp add: stored_info_def IO_DISK_FILE_INFO_OFFSET_def bytes_info_of is_entry_def names_entry_def)
  qed
  show "is_entry j (stored_info d' j)" if "j < 2 * ?n" using entry [OF that] es(5) [OF that] by simp
  then show "length (file_name (stored_info d' j)) = 100" if "j < 2 * ?n"
    using that by (simp add: is_entry_def names_entry_def info_fits_def)
  show "dev_size d' = dev_size d" using s(3,6) es(2) by simp
qed

text \<open>On a device that answers in full and holds the table formatting succeeds.\<close>

lemma format_loop_ready:
  assumes "dev_answers d = []" and "dev_pos d + 288 * n \<le> dev_size d"
    and "length (file_name fi) = 100" and "i + n < 2 ^ 30"
  shows "\<exists>off d'. format_loop n now i (2 * int i) (video_start (2 * i)) fi d = (1, off, d') \<and>
    dev_answers d' = [] \<and> dev_size d' = dev_size d"
  using assms
proof (induction n arbitrary: i fi d)
  case (Suc n)
  define fi1 where "fi1 = avh_info (now i) i (2 * int i) (video_start (2 * i)) fi"
  define fi2 where "fi2 = avd_info i (2 * int i + 1) (video_start (2 * i + 1)) fi1"
  have i: "i < 2 ^ 30" using Suc.prems(4) by simp
  have e1: "is_entry (2 * i) fi1" unfolding fi1_def by (rule is_entry_avh) (use Suc.prems(3) i in auto)
  have e2: "is_entry (2 * i + 1) fi2" "length (file_name fi2) = 100"
    unfolding fi2_def by (rule is_entry_avd [OF e1 i])+
  have l: "length (info_bytes fi1) = 144" "length (info_bytes fi2) = 144"
    by (rule is_entry_length [OF e1], rule is_entry_length [OF e2(1)])
  define d1 where "d1 = d\<lparr>dev_bytes := overlay (dev_bytes d) (dev_pos d) (info_bytes fi1), dev_pos := dev_pos d + 144\<rparr>"
  define d2 where "d2 = d1\<lparr>dev_bytes := overlay (dev_bytes d1) (dev_pos d1) (info_bytes fi2), dev_pos := dev_pos d1 + 144\<rparr>"
  have w: "IO_Write (info_bytes fi1) d = (144, d1)" "IO_Write (info_bytes fi2) d1 = (144, d2)"
    using IO_Write_ready [of d "info_bytes fi1"] IO_Write_ready [of d1 "info_bytes fi2"] l Suc.prems(1,2)
    by (simp_all add: d1_def d2_def)
  have m: "video_start (2 * i) + file_max_size fi1 = video_start (2 * i + 1)"
    "video_start (2 * i + 1) + file_max_size fi2 = video_start (2 * (i + 1))"
    using e1 e2(1) video_start_Suc [of "2 * i"] video_start_Suc [of "2 * i + 1"]
    by (simp_all add: is_entry_def names_entry_def)
  have step: "format_loop (Suc n) now i (2 * int i) (video_start (2 * i)) fi d =
      format_loop n now (i + 1) (2 * int i + 2) (video_start (2 * (i + 1))) fi2 d2"
    using w m unfolding fi1_def fi2_def by (simp add: Let_def add.commute)
  have "2 * int i + 2 = 2 * int (i + 1)" by simp
  note step = step [unfolded this]
  have "dev_answers d2 = []" "dev_pos d2 + 288 * n \<le> dev_size d2" "dev_size d2 = dev_size d"
    using Suc.prems(1,2) by (simp_all add: d2_def d1_def)
  then show ?case using Suc.IH [of d2 fi2 "i + 1"] e2(2) Suc.prems(4) unfolding step by simp
qed simp

lemma format_ready:
  assumes "dev_answers d = []" and "length (file_name fi0) = 100"
    and "0 \<le> disk_size" and "disk_size < 2 ^ 31" and "\<not> table_too_large (disk_size div 128)"
    and "2097152 + 288 * pairs_of disk_size \<le> dev_size d" and "0 < fd" and "ret0 \<noteq> - 1"
  shows "\<exists>d'. format_disk_to_io_sys fd ret0 fi0 now disk_size d = (1, d') \<and> dev_answers d' = []"
proof -
  have sd: "disk_size sdiv 128 = disk_size div 128"
    using assms(3) by (cases "disk_size = 0") (simp_all add: signed_divide_int_def)
  define d1 where "d1 = (fresh d)\<lparr>dev_pos := 1047552\<rparr>"
  define d2 where "d2 = d1\<lparr>dev_bytes := overlay (dev_bytes d1) 1047552 (str_put (replicate 512 0) IO_DISK_VER), dev_pos := 1048064\<rparr>"
  define d3 where "d3 = d2\<lparr>dev_pos := 1048576\<rparr>"
  define d4 where "d4 = d3\<lparr>dev_bytes := overlay (dev_bytes d3) 1048576 (total_bytes \<lparr>file_num = 0, file_total_size = 0\<rparr>), dev_pos := 1048592\<rparr>"
  define d5 where "d5 = d4\<lparr>dev_pos := 2097152\<rparr>"
  have d5: "dev_answers d5 = []" "dev_size d5 = dev_size d" "dev_pos d5 = 2097152"
    using assms(1) by (simp_all add: d5_def d4_def d3_def d2_def d1_def)
  obtain off d6 where d6: "format_loop (pairs_of disk_size) now 0 0 IO_DISK_FILE_START_OFFSET fi0 d5 = (1, off, d6)"
    "dev_answers d6 = []" "dev_size d6 = dev_size d"
  proof -
    have n: "0 + pairs_of disk_size < 2 ^ 30" using assms(3,4) by (simp add: pairs_of_def nat_less_iff)
    show ?thesis
      using format_loop_ready [OF d5(1) _ assms(2) n, of now] assms(6) d5 that by (auto simp: video_start_0)
  qed
  define ti where "ti = \<lparr>file_num = disk_size div 128 * 2, file_total_size = off\<rparr>"
  define d8 where "d8 = d6\<lparr>dev_bytes := overlay (dev_bytes d6) 1048576 (total_bytes ti), dev_pos := 1048592\<rparr>"
  have s1: "snd (IO_Lseek (fresh d) IO_DISK_FLAG_OFFSET) = d1"
    using assms(6) by (simp add: d1_def IO_Lseek_ok offset_defs)
  have s2: "IO_Write (str_put (replicate 512 0) IO_DISK_VER) d1 = (512, d2)"
    using IO_Write_ready [of d1 "str_put (replicate 512 0) IO_DISK_VER"] assms(1,6)
    by (simp add: d1_def d2_def flag_block)
  have s3: "snd (IO_Lseek d2 IO_DISK_START_OFFSET) = d3"
    using assms(6) by (simp add: d3_def d2_def d1_def IO_Lseek_ok offset_defs)
  have s4: "IO_Write (total_bytes \<lparr>file_num = 0, file_total_size = 0\<rparr>) d3 = (16, d4)"
    using IO_Write_ready [of d3 "total_bytes \<lparr>file_num = 0, file_total_size = 0\<rparr>"] assms(1,6)
    by (simp add: d4_def d3_def d2_def d1_def)
  have s5: "snd (IO_Lseek d4 IO_DISK_FILE_INFO_OFFSET) = d5"
    using assms(6) by (simp add: d5_def d4_def d3_def d2_def d1_def IO_Lseek_ok offset_defs)
  have s7: "snd (IO_Lseek d6 IO_DISK_START_OFFSET) = d6\<lparr>dev_pos := 1048576\<rparr>"
    using assms(6) d6(3) by (simp add: IO_Lseek_ok offset_defs)
  have s8: "IO_Write (total_bytes ti) (d6\<lparr>dev_pos := 1048576\<rparr>) = (16, d8)"
    using IO_Write_ready [of "d6\<lparr>dev_pos := 1048576\<rparr>" "total_bytes ti"] d6(2,3) assms(6)
    by (simp add: d8_def)
  have "format_disk_to_io_sys fd ret0 fi0 now disk_size d = (1, d8)"
    unfolding format_disk_to_io_sys_def Let_def s1
    using assms(5,7,8) s2 s3 s4 s5 d6(1) s7 s8 [unfolded ti_def]
    by (simp add: sd pairs_of_def)
  then show ?thesis using d6(2) by (simp add: d8_def)
qed

section \<open>Opening a file\<close>

text \<open>A formatted device of \<open>n\<close> pairs, whatever the files hold.\<close>

definition table_ok :: "nat \<Rightarrow> blkdev \<Rightarrow> bool" where
  "table_ok n d \<longleftrightarrow> n < 2 ^ 20 \<and> 2097152 + 288 * n \<le> dev_size d \<and>
     file_num (stored_total d) = 2 * int n \<and> (\<forall>j < 2 * n. names_entry j (stored_info d j))"

lemma info_offset_small: "j < 2 ^ 21 \<Longrightarrow> info_offset (int j) = 2097152 + 144 * int j"
proof -
  assume j: "j < 2 ^ 21"
  then have "(2097152 + 144 * int j) mod 2 ^ 32 = 2097152 + 144 * int j" by simp
  moreover have "word_of_int 2097152 + word_of_int (int j) * 144 = (word_of_int (2097152 + 144 * int j) :: u32)"
    by simp
  ultimately show ?thesis
    by (simp add: info_offset_def IO_DISK_FILE_INFO_OFFSET_def unsigned_of_int take_bit_eq_mod
        del: of_int_add of_int_mult)
qed

lemma IO_Read_entry:
  assumes "dev_answers d = []" and "dev_pos d = 2097152 + 144 * p" and "2097152 + 144 * p + 144 \<le> dev_size d"
  shows "IO_Read 144 d = (144, segment (dev_bytes d) (2097152 + 144 * p) 144, d\<lparr>dev_pos := 2097152 + 144 * Suc p\<rparr>)"
  using IO_Read_ready [of d 144] assms by (simp add: add.commute)

lemma search_step:
  assumes "dev_answers d = []" and "dev_pos d = 2097152 + 144 * p" and "2097152 + 144 * p + 144 \<le> dev_size d"
  shows "search_info (Suc m) name fi d =
    (if str_in (file_name (stored_info d p)) = name
     then (1, stored_info d p, d\<lparr>dev_pos := 2097152 + 144 * Suc p\<rparr>)
     else search_info m name (stored_info d p) (d\<lparr>dev_pos := 2097152 + 144 * Suc p\<rparr>))"
  using IO_Read_entry [OF assms] by (simp add: stored_info_def IO_DISK_FILE_INFO_OFFSET_def)

lemma stored_info_pos [simp]: "stored_info (d\<lparr>dev_pos := x\<rparr>) j = stored_info d j"
  by (simp add: stored_info_def)

lemma search_finds:
  assumes "table_ok n d" and "dev_answers d = []" and "j < 2 * n"
    and "dev_pos d = 2097152 + 144 * (2 * (j div 2))"
  shows "search_info (nat (2 * int n - 2 * int (j div 2))) (video_label j) fi d =
    (1, stored_info d j, d\<lparr>dev_pos := 2097152 + 144 * Suc j\<rparr>)"
proof -
  have lab: "str_in (file_name (stored_info d p)) = video_label p" if "p < 2 * n" for p
    using assms(1) that by (simp add: table_ok_def names_entry_def)
  have room: "2097152 + 144 * p + 144 \<le> dev_size d" if "p < 2 * n" for p
    using assms(1) that by (simp add: table_ok_def)
  have "j div 2 < n" using assms(3) by (simp add: less_mult_imp_div_less mult.commute)
  then have "nat (2 * int n - 2 * int (j div 2)) = Suc (Suc (2 * n - 2 * (j div 2) - 2))" by linarith
  then obtain m where m: "nat (2 * int n - 2 * int (j div 2)) = Suc (Suc m)" by blast
  show ?thesis
  proof (cases "even j")
    case True
    then have "2 * (j div 2) = j" by simp
    then show ?thesis unfolding m
      using search_step [of d j "Suc m" "video_label j" fi] assms room [of j] lab [of j] by simp
  next
    case False
    then have j: "2 * (j div 2) = j - 1" "0 < j" by (auto elim: oddE)
    let ?d1 = "d\<lparr>dev_pos := 2097152 + 144 * j\<rparr>"
    have ne: "video_label (j - 1) \<noteq> video_label j"
      using False j video_name_ext [of "j div 2"] by (auto simp: video_label_def elim!: oddE)
    have "search_info (Suc (Suc m)) (video_label j) fi d = search_info (Suc m) (video_label j) (stored_info d (j - 1)) ?d1"
      using search_step [of d "j - 1" "Suc m" "video_label j" fi] assms room [of "j - 1"] lab [of "j - 1"] j ne
      by simp
    then show ?thesis unfolding m
      using search_step [of ?d1 j m "video_label j" "stored_info d (j - 1)"] assms(2,3) room [of j] lab [of j]
      by simp
  qed
qed

subsection \<open>Saving an entry\<close>

lemma save_seek:
  assumes "file_pos (io_info f) = int j" and "j < 2 ^ 21" and "2097152 + 144 * j \<le> dev_size d"
  shows "IO_Lseek d (info_offset (file_pos (io_info f))) =
      (2097152 + 144 * int j, d\<lparr>dev_pos := 2097152 + 144 * j\<rparr>)"
    and "sint (word_of_int (2097152 + 144 * int j) :: u32) \<noteq> - 1"
proof -
  have "nat (2097152 + 144 * int j) = 2097152 + 144 * j" by linarith
  then show "IO_Lseek d (info_offset (file_pos (io_info f))) =
      (2097152 + 144 * int j, d\<lparr>dev_pos := 2097152 + 144 * j\<rparr>)"
    using assms info_offset_small [OF assms(2)] IO_Lseek_ok [of "2097152 + 144 * int j" d] by simp
  have "sint (word_of_int (2097152 + 144 * int j) :: u32) = 2097152 + 144 * int j"
    unfolding sint_sbintrunc' by (rule signed_take_bit_int_eq_self) (use assms(2) in auto)
  then show "sint (word_of_int (2097152 + 144 * int j) :: u32) \<noteq> - 1" by linarith
qed

lemma save_result:
  assumes "disk_save_file_info f d = (r, d')" and "file_pos (io_info f) = int j" and "j < 2 ^ 21"
    and "2097152 + 144 * j \<le> dev_size d" and "length (file_name (io_info f)) = 100"
  shows "dev_size d' = dev_size d \<and>
    (r = 1 \<and> dev_bytes d' = overlay (dev_bytes d) (2097152 + 144 * j) (info_bytes (io_info f)) \<and>
       dev_pos d' = 2097152 + 144 * Suc j \<or>
     r = - 1 \<and> (\<exists>k<144. dev_bytes d' =
       overlay (dev_bytes d) (2097152 + 144 * j) (take k (info_bytes (io_info f)))))"
proof -
  have l: "length (info_bytes (io_info f)) = 144" using assms(5) by (rule length_info_bytes)
  obtain q d2 where w: "IO_Write (info_bytes (io_info f)) (d\<lparr>dev_pos := 2097152 + 144 * j\<rparr>) = (q, d2)"
    by fastforce
  have r: "(r, d') = (if q \<noteq> 144 then (- 1, d2) else (1, d2))"
    using assms(1) save_seek [OF assms(2-4)] w unfolding disk_save_file_info_def Let_def by simp
  from w show ?thesis
  proof (cases rule: IO_Write_cases)
    case full
    then show ?thesis using r l by simp
  next
    case (failed k)
    then show ?thesis using r l by auto
  qed
qed

lemma save_ready:
  assumes "dev_answers d = []" and "file_pos (io_info f) = int j" and "j < 2 ^ 21"
    and "2097152 + 144 * Suc j \<le> dev_size d" and "length (file_name (io_info f)) = 100"
  shows "disk_save_file_info f d = (1, d\<lparr>dev_bytes := overlay (dev_bytes d) (2097152 + 144 * j) (info_bytes (io_info f)),
    dev_pos := 2097152 + 144 * Suc j\<rparr>)"
proof -
  have l: "length (info_bytes (io_info f)) = 144" using assms(5) by (rule length_info_bytes)
  have le: "2097152 + 144 * j \<le> dev_size d" using assms(4) by simp
  have "IO_Write (info_bytes (io_info f)) (d\<lparr>dev_pos := 2097152 + 144 * j\<rparr>) = (144,
      d\<lparr>dev_bytes := overlay (dev_bytes d) (2097152 + 144 * j) (info_bytes (io_info f)), dev_pos := 2097152 + 144 * Suc j\<rparr>)"
    using IO_Write_ready [of "d\<lparr>dev_pos := 2097152 + 144 * j\<rparr>" "info_bytes (io_info f)"] l assms(1,4)
    by (simp add: add.commute)
  then show ?thesis
    using save_seek [OF assms(2,3) le] unfolding disk_save_file_info_def Let_def by simp
qed

text \<open>A saved entry changes itself only.\<close>

lemma stored_info_overlay:
  assumes "dev_bytes d' = overlay (dev_bytes d) (2097152 + 144 * j) (info_bytes fi)" and "info_fits fi"
  shows "stored_info d' p = (if p = j then fi else stored_info d p)"
    and "stored_total d' = stored_total d"
proof -
  have l: "length (info_bytes fi) = 144" using assms(2) by (simp add: info_fits_def length_info_bytes)
  have "2097152 + 144 * p + 144 \<le> 2097152 + 144 * j \<or> 2097152 + 144 * j + 144 \<le> 2097152 + 144 * p" if "p \<noteq> j"
    using that by (cases "p < j") auto
  then show "stored_info d' p = (if p = j then fi else stored_info d p)"
    using segment_overlay_same [of "dev_bytes d" "2097152 + 144 * j" "info_bytes fi"] assms l
    by (simp add: stored_info_def IO_DISK_FILE_INFO_OFFSET_def segment_overlay_disjoint bytes_info_of)
  show "stored_total d' = stored_total d"
    using assms(1) l by (simp add: stored_total_def IO_DISK_START_OFFSET_def segment_overlay_disjoint)
qed

lemma table_ok_save:
  assumes "table_ok n d" and "names_entry j fi" and "dev_size d' = dev_size d"
    and "dev_bytes d' = overlay (dev_bytes d) (2097152 + 144 * j) (info_bytes fi)"
  shows "table_ok n d'"
  using assms stored_info_overlay [OF assms(4)] by (auto simp: table_ok_def names_entry_def)

lemma names_entry_stamp:
  assumes "names_entry j fi"
  shows "names_entry j (stamp_info mode t fi)"
  using assms fits_time_of [of t]
  by (auto simp: names_entry_def stamp_info_def info_fits_def fits_ll_def Let_def)

subsection \<open>Opening\<close>

lemma video_label_facts:
  assumes "j div 2 < 2 ^ 31"
  shows "length (video_label j) \<le> 20" and "video_label j \<noteq> []"
    and "scan_video_pos (video_label j) p = int (j div 2)"
proof -
  have ext: "(if even j then ''.avh'' else ''.avd'') = ''.avh'' \<or> (if even j then ''.avh'' else ''.avd'') = ''.avd''"
    by simp
  show "length (video_label j) \<le> 20" "scan_video_pos (video_label j) p = int (j div 2)"
    unfolding video_label_def using video_name_facts(2,3) [OF assms ext] by blast+
  show "video_label j \<noteq> []" using dec_nonempty by (simp add: video_label_def video_name_def)
qed

text \<open>An open file: the handle agrees with its entry and the extent lies on the device.\<close>

definition opened :: "nat \<Rightarrow> io_file \<Rightarrow> blkdev \<Rightarrow> bool" where
  "opened j f d \<longleftrightarrow> 0 < fdno f \<and> names_entry j (io_info f) \<and> diskoffset f = video_start j \<and>
     0 \<le> fileoffset f \<and> 0 \<le> file_size (io_info f) \<and> file_size (io_info f) \<le> io_size f \<and>
     io_size f \<le> video_max j \<and> video_start j + video_max j \<le> int (dev_size d)"

definition placed :: "io_file \<Rightarrow> blkdev \<Rightarrow> bool" where
  "placed f d \<longleftrightarrow> int (dev_pos d) = diskoffset f + fileoffset f \<and> 0 \<le> fileoffset f \<and> fileoffset f \<le> io_size f"

lemma open_ready:
  assumes tab: "table_ok n d" and ans: "dev_answers d = []" and j: "j < 2 * n"
    and size: "0 \<le> file_size (stored_info d j)" "file_size (stored_info d j) \<le> video_max j"
      "video_start j + video_max j \<le> int (dev_size d)"
    and arg: "0 < fd" "ret0 \<noteq> - 1" "dev \<noteq> []" "length dev < 100"
  shows "\<exists>f d'. file_io_open fd ret0 t dev (video_label j) mode pos d = Some (1, f, d') \<and>
    opened j f d' \<and> placed f d' \<and> fileoffset f = 0 \<and> io_info f = stamp_info mode t (stored_info d j) \<and>
    io_size f = file_size (io_info f) \<and> table_ok n d' \<and> stored_info d' j = io_info f \<and> dev_answers d' = [] \<and>
    dev_size d' = dev_size d \<and> dev_bytes d' = overlay (dev_bytes d) (2097152 + 144 * j) (info_bytes (io_info f))"
proof -
  have jn: "j div 2 < 2 ^ 31" "j < 2 ^ 21" using tab j by (auto simp: table_ok_def)
  have lab: "length (video_label j) < 100" "video_label j \<noteq> []" "scan_video_pos (video_label j) pos = int (j div 2)"
    using video_label_facts [OF jn(1)] by simp_all
  define d1 where "d1 = (fresh d)\<lparr>dev_pos := 1048576\<rparr>"
  have room: "2097152 + 288 * n \<le> dev_size d" using tab by (simp add: table_ok_def)
  have s1: "snd (IO_Lseek (fresh d) IO_DISK_START_OFFSET) = d1"
    using room by (simp add: d1_def IO_Lseek_ok offset_defs)
  have s2: "IO_Read 16 d1 = (16, segment (dev_bytes d) 1048576 16, d1\<lparr>dev_pos := 1048592\<rparr>)"
    using IO_Read_ready [of d1 16] ans room by (simp add: d1_def)
  have tot: "file_num (bytes_total (segment (dev_bytes d) 1048576 16)) = 2 * int n"
    using tab by (simp add: table_ok_def stored_total_def IO_DISK_START_OFFSET_def)
  have pos1: "sint (word_of_int (int (j div 2) * 2) :: u32) = 2 * int (j div 2)"
    unfolding sint_sbintrunc' by (subst signed_take_bit_int_eq_self) (use jn in auto)
  define d3 where "d3 = d1\<lparr>dev_pos := 2097152 + 144 * (2 * (j div 2))\<rparr>"
  have io: "info_offset (2 * int (j div 2)) = 2097152 + 144 * int (2 * (j div 2))"
    using info_offset_small [of "2 * (j div 2)"] jn(2) by simp
  have "nat (2097152 + 144 * int (2 * (j div 2))) = 2097152 + 144 * (2 * (j div 2))" by linarith
  then have s3: "snd (IO_Lseek (snd (IO_Lseek (d1\<lparr>dev_pos := 1048592\<rparr>) IO_DISK_FILE_INFO_OFFSET)) (info_offset (2 * int (j div 2)))) = d3"
    using room j unfolding io by (simp add: d3_def d1_def IO_Lseek_ok offset_defs)
  have t3: "table_ok n d3" "dev_answers d3 = []" "stored_info d3 j = stored_info d j" "dev_size d3 = dev_size d"
    using tab ans by (auto simp: d3_def d1_def table_ok_def stored_total_def stored_info_def)
  define fi where "fi = stored_info d j"
  define d4 where "d4 = d3\<lparr>dev_pos := 2097152 + 144 * Suc j\<rparr>"
  have s4: "search_info (nat (2 * int n - 2 * int (j div 2))) (video_label j) zero_info d3 = (1, fi, d4)"
    using search_finds [OF t3(1,2) j] t3(3) by (simp add: d3_def fi_def d4_def)
  have nm: "names_entry j (stamp_info mode t fi)"
    using tab j by (intro names_entry_stamp) (simp add: table_ok_def fi_def)
  define f3 where "f3 = zero_file\<lparr>diskname := dev, filename := video_label j, fdno := fd,
    file_total_info := bytes_total (segment (dev_bytes d) 1048576 16), io_info := stamp_info mode t fi\<rparr>"
  define d5 where "d5 = d4\<lparr>dev_bytes := overlay (dev_bytes d4) (2097152 + 144 * j) (info_bytes (io_info f3))\<rparr>"
  have t4: "dev_size d4 = dev_size d" "dev_answers d4 = []" "table_ok n d4"
    using t3 by (auto simp: d4_def table_ok_def stored_total_def stored_info_def)
  have s5: "disk_save_file_info f3 d4 = (1, d5)"
    using save_ready [of d4 f3 j] t4 nm jn(2) room j
    by (simp add: f3_def names_entry_def info_fits_def d5_def d4_def)
  have t5: "table_ok n d5" "stored_info d5 j = stamp_info mode t fi"
    using table_ok_save [OF t4(3) nm, of d5] stored_info_overlay(1) [of d5 d4 j "stamp_info mode t fi" j] nm
    by (simp_all add: d5_def f3_def names_entry_def)
  define f4 where "f4 = f3\<lparr>diskoffset := video_start j, fileoffset := 0, io_size := file_size (io_info f3), status := FILE_OPEN\<rparr>"
  define d6 where "d6 = d5\<lparr>dev_pos := nat (video_start j)\<rparr>"
  have v: "0 \<le> video_start j" "0 \<le> video_max j" "disk_offset (stamp_info mode t fi) = video_start j"
    using nm by (simp_all add: names_entry_def video_start_def video_max_def IO_DISK_FILE_START_OFFSET_def)
  have s6: "snd (IO_Lseek d5 (video_start j)) = d6"
    using v size(3) t4(1) by (simp add: IO_Lseek_ok d6_def d5_def)
  have "file_io_open fd ret0 t dev (video_label j) mode pos d = Some (1, f4, d6)"
    unfolding file_io_open_def Let_def
    using arg lab s1 s2 tot pos1 s3 s4 s5 s6 v(3)
    by (simp add: f3_def f4_def mult.commute)
  moreover have "opened j f4 d6"
    using arg nm size v t4(1) by (auto simp: opened_def f4_def f3_def d6_def d5_def stamp_info_def fi_def Let_def)
  moreover have "placed f4 d6" using v size by (auto simp: placed_def f4_def f3_def d6_def stamp_info_def fi_def Let_def)
  moreover have "table_ok n d6" "stored_info d6 j = stamp_info mode t fi" "dev_answers d6 = []"
    using t5 t4(2) by (auto simp: d6_def table_ok_def stored_total_def stored_info_def d5_def)
  moreover have "dev_size d6 = dev_size d" "dev_bytes d6 = overlay (dev_bytes d) (2097152 + 144 * j) (info_bytes (io_info f4))"
    using t4(1) by (simp_all add: d6_def d5_def d4_def d3_def d1_def f4_def f3_def)
  ultimately show ?thesis by (intro exI [of _ f4] exI [of _ d6]) (simp add: f4_def f3_def fi_def)
qed

section \<open>Operations on an open file\<close>

lemma video_bounds: "0 \<le> video_start j" "0 < video_max j" "104857600 \<le> video_start j"
  by (simp_all add: video_start_def video_max_def IO_DISK_FILE_START_OFFSET_def)

lemma file_io_lseek_cases:
  assumes "file_io_lseek off w f d = (r, f', d')" and "opened j f d"
  obtains (ok) "r \<noteq> - 1" "f' = f\<lparr>fileoffset := off\<rparr>" "opened j f' d'" "placed f' d'"
      "0 \<le> off" "off \<le> io_size f" "d' = d\<lparr>dev_pos := nat (video_start j + off)\<rparr>"
    | (no) "r = - 1" "f' = f" "d' = d"
proof -
  have o: "diskoffset f = video_start j" "disk_offset (io_info f) = video_start j" "io_size f \<le> video_max j"
    "video_start j + video_max j \<le> int (dev_size d)" "0 \<le> video_start j"
    using assms(2) video_bounds(1) by (auto simp: opened_def names_entry_def)
  show ?thesis
  proof (cases "0 \<le> off \<and> off \<le> io_size f \<and> off \<le> file_max_size (io_info f)")
    case True
    then have "IO_Lseek d (video_start j + off) = (video_start j + off, d\<lparr>dev_pos := nat (video_start j + off)\<rparr>)"
      using o by (intro IO_Lseek_ok) auto
    then have "r = video_start j + off" "f' = f\<lparr>fileoffset := off\<rparr>" "d' = d\<lparr>dev_pos := nat (video_start j + off)\<rparr>"
      using assms(1) True o by (auto simp: file_io_lseek_def Let_def split: if_splits)
    then show ?thesis using True o assms(2) by (intro ok) (auto simp: opened_def placed_def)
  next
    case False
    then have "(- 1, f, d) = (r, f', d')" using assms(1) o by (auto simp: file_io_lseek_def Let_def split: if_splits)
    then show ?thesis by (intro no) auto
  qed
qed

text \<open>A write behind a seek stays inside the extent of its file.\<close>

lemma file_io_write_result:
  assumes "file_io_write bs f d = (r, f', d')" and "opened j f d" and "placed f d"
  shows "opened j f' d' \<and> io_info f' = io_info f \<and> dev_size d' = dev_size d \<and>
    (\<exists>k. k \<le> length bs \<and> fileoffset f + int k \<le> video_max j \<and> int (dev_pos d) = video_start j + fileoffset f \<and>
      dev_bytes d' = overlay (dev_bytes d) (dev_pos d) (take k bs)) \<and>
    (0 < r \<longrightarrow> r = int (length bs) \<and> dev_bytes d' = overlay (dev_bytes d) (dev_pos d) bs \<and>
      io_size f' = max (io_size f) (fileoffset f + int (length bs)) \<and>
      fileoffset f' = fileoffset f + int (length bs) \<and> placed f' d')"
proof -
  have o: "diskoffset f = video_start j" "file_max_size (io_info f) = video_max j" "io_size f \<le> video_max j"
    using assms(2) by (auto simp: opened_def names_entry_def)
  have pos: "int (dev_pos d) = video_start j + fileoffset f" "fileoffset f \<le> video_max j"
    using assms(3) o by (auto simp: placed_def)
  show ?thesis
  proof (cases "fileoffset f + int (length bs) > video_max j")
    case True
    then show ?thesis using assms(1,2) o pos
      by (auto simp: file_io_write_def intro!: exI [of _ 0])
  next
    case False
    obtain q d1 where w: "IO_Write bs d = (q, d1)" by fastforce
    from w show ?thesis
    proof (cases rule: IO_Write_cases)
      case full
      then show ?thesis using assms w False o pos
        by (auto simp: file_io_write_def opened_def placed_def Let_def max_def intro!: exI [of _ "length bs"] split: if_splits)
    next
      case (failed k)
      then show ?thesis using assms w False o pos
        by (auto simp: file_io_write_def opened_def placed_def Let_def intro!: exI [of _ k] split: if_splits)
    qed
  qed
qed

lemma file_io_read_result:
  assumes "file_io_read n f d = (r, out, f', d')" and "opened j f d" and "placed f d"
  shows "opened j f' d' \<and> io_info f' = io_info f \<and> dev_size d' = dev_size d \<and> dev_bytes d' = dev_bytes d \<and>
    (0 < r \<longrightarrow> r = int n \<and> out = segment (dev_bytes d) (dev_pos d) n)"
proof (cases "fileoffset f + int n > file_size (io_info f)")
  case True
  then show ?thesis using assms by (auto simp: file_io_read_def)
next
  case False
  obtain q bs d1 where w: "IO_Read n d = (q, bs, d1)" by (metis prod_cases3)
  from w show ?thesis
  proof (cases rule: IO_Read_cases)
    case full
    then show ?thesis using assms w False by (auto simp: file_io_read_def opened_def split: if_splits)
  next
    case failed
    then show ?thesis using assms w False by (auto simp: file_io_read_def opened_def split: if_splits)
  qed
qed

lemma entry_before_start: "2097152 + 144 * int j \<le> video_start j"
proof -
  have "int j \<le> 2 * int (j div 2) + 1" by linarith
  then show ?thesis by (simp add: video_start_def IO_DISK_FILE_START_OFFSET_def)
qed

lemma file_io_sync_result:
  assumes "file_io_sync f d = (r, f', d')" and "opened j f d" and "j < 2 ^ 21"
  shows "opened j f' d' \<and> dev_size d' = dev_size d \<and> io_size f' = io_size f \<and> fileoffset f' = fileoffset f \<and>
    (\<exists>k \<le> 144. \<exists>bs. length bs = 144 \<and> dev_bytes d' = overlay (dev_bytes d) (2097152 + 144 * j) (take k bs)) \<and>
    (r = 1 \<longrightarrow> file_size (io_info f') = io_size f)"
proof (cases "io_size f > file_size (io_info f)")
  case False
  have "length (info_bytes (io_info f)) = 144"
    using assms(2) by (simp add: opened_def names_entry_def info_fits_def length_info_bytes)
  then show ?thesis using False assms
    by (auto simp: file_io_sync_def opened_def intro!: exI [of _ 0])
next
  case True
  define f1 where "f1 = f\<lparr>io_info := (io_info f)\<lparr>file_size := io_size f\<rparr>\<rparr>"
  have m: "video_max j < 2 ^ 63" by (simp add: video_max_def)
  have n1: "names_entry j (io_info f1)" "opened j f1 d"
    using assms(2) True m by (auto simp: f1_def opened_def names_entry_def info_fits_def fits_ll_def)
  have l: "length (info_bytes (io_info f1)) = 144" "length (file_name (io_info f1)) = 100" "file_pos (io_info f1) = int j"
    using n1(1) by (auto simp: names_entry_def info_fits_def length_info_bytes)
  have room: "2097152 + 144 * j \<le> dev_size d" 
    using assms(2) entry_before_start [of j] by (auto simp: opened_def)
  obtain q d1 where s: "disk_save_file_info f1 d = (q, d1)" by fastforce
  have r: "f' = f1" "d' = d1" using assms(1) True s by (auto simp: file_io_sync_def f1_def Let_def split: if_splits)
  have "q = 1 \<and> r = 1 \<or> q = - 1 \<and> r = - 1"
    using assms(1) True s save_result [OF s l(3) assms(3) room l(2)]
    by (auto simp: file_io_sync_def f1_def Let_def split: if_splits)
  moreover have "dev_size d1 = dev_size d"
    "\<exists>k \<le> 144. dev_bytes d1 = overlay (dev_bytes d) (2097152 + 144 * j) (take k (info_bytes (io_info f1)))"
    using save_result [OF s l(3) assms(3) room l(2)] l(1)
    by (auto intro: exI [of _ 144] less_imp_le)
  ultimately show ?thesis using r n1(2) l(1) by (auto simp: opened_def f1_def)
qed

subsection \<open>Sequences of calls\<close>

text \<open>
  The recorder and the players seek before each transfer (\<open>FS_write_buf_write_to_file\<close>), and
  give up when the seek fails.
\<close>

datatype io_call = Put int "byte list" | Fetch int nat | Sync

fun io_step :: "io_call \<Rightarrow> io_file \<times> blkdev \<Rightarrow> io_file \<times> blkdev" where
  "io_step (Put off bs) (f, d) =
     (case file_io_lseek off 0 f d of (r, f1, d1) \<Rightarrow>
        if r = - 1 then (f1, d1) else snd (file_io_write bs f1 d1))"
| "io_step (Fetch off n) (f, d) =
     (case file_io_lseek off 0 f d of (r, f1, d1) \<Rightarrow>
        if r = - 1 then (f1, d1) else (case file_io_read n f1 d1 of (_, _, f2, d2) \<Rightarrow> (f2, d2)))"
| "io_step Sync (f, d) = snd (file_io_sync f d)"

text \<open>What a call may change: the bytes of its extent and of its table entry.\<close>

definition changes_only :: "nat \<Rightarrow> blkdev \<Rightarrow> blkdev \<Rightarrow> bool" where
  "changes_only j d d' \<longleftrightarrow> (\<forall>i. \<not> (2097152 + 144 * j \<le> i \<and> i < 2097152 + 144 * Suc j) \<and>
     \<not> (video_start j \<le> int i \<and> int i < video_start j + video_max j) \<longrightarrow> dev_bytes d' i = dev_bytes d i)"

lemma changes_only_refl: "dev_bytes d' = dev_bytes d \<Longrightarrow> changes_only j d d'"
  by (simp add: changes_only_def)

lemma changes_only_trans: "changes_only j d d1 \<Longrightarrow> changes_only j d1 d2 \<Longrightarrow> changes_only j d d2"
  by (simp add: changes_only_def)

lemma changes_only_extent:
  assumes "dev_bytes d' = overlay (dev_bytes d) p bs" and "video_start j \<le> int p"
    and "int p + int (length bs) \<le> video_start j + video_max j"
  shows "changes_only j d d'"
proof -
  have "video_start j \<le> int i \<and> int i < video_start j + video_max j" if "p \<le> i \<and> i < p + length bs" for i
    using that assms(2,3) by linarith
  then show ?thesis using assms(1) by (auto simp: changes_only_def overlay_def)
qed

lemma changes_only_entry:
  assumes "dev_bytes d' = overlay (dev_bytes d) (2097152 + 144 * j) bs" and "length bs \<le> 144"
  shows "changes_only j d d'"
  using assms by (auto simp: changes_only_def overlay_def)

lemma io_step_keeps:
  assumes "opened j f d" and "j < 2 ^ 21" and "io_step c (f, d) = (f', d')"
  shows "opened j f' d' \<and> changes_only j d d'"
proof (cases c)
  case (Put off bs)
  obtain r f1 d1 where s: "file_io_lseek off 0 f d = (r, f1, d1)" by (metis prod_cases3)
  from s assms(1) show ?thesis
  proof (cases rule: file_io_lseek_cases)
    case ok
    obtain q f2 d2 where w: "file_io_write bs f1 d1 = (q, f2, d2)" by (metis prod_cases3)
    have e: "f' = f2" "d' = d2" using assms(3) Put s ok(1) w by auto
    from file_io_write_result [OF w ok(3,4)] obtain k where k: "k \<le> length bs"
      "fileoffset f1 + int k \<le> video_max j" "int (dev_pos d1) = video_start j + fileoffset f1" "0 \<le> fileoffset f1"
      "dev_bytes d2 = overlay (dev_bytes d1) (dev_pos d1) (take k bs)" "opened j f2 d2"
      using ok(2,5) by auto
    have b: "dev_bytes d' = overlay (dev_bytes d) (dev_pos d1) (take k bs)" using k(5) e ok(7) by simp
    have "changes_only j d d'" by (rule changes_only_extent [OF b]) (use k(1-4) in auto)
    then show ?thesis using k(6) e by simp
  next
    case no
    then show ?thesis using assms Put s by (simp add: changes_only_refl)
  qed
next
  case (Fetch off n)
  obtain r f1 d1 where s: "file_io_lseek off 0 f d = (r, f1, d1)" by (metis prod_cases3)
  from s assms(1) show ?thesis
  proof (cases rule: file_io_lseek_cases)
    case ok
    obtain q out f2 d2 where w: "file_io_read n f1 d1 = (q, out, f2, d2)" by (metis prod_cases4)
    have e: "f' = f2" "d' = d2" using assms(3) Fetch s ok(1) w by auto
    from file_io_read_result [OF w ok(3,4)] show ?thesis using e ok(7) by (simp add: changes_only_refl)
  next
    case no
    then show ?thesis using assms Fetch s by (simp add: changes_only_refl)
  qed
next
  case Sync
  obtain r where s: "file_io_sync f d = (r, f', d')" using assms(3) Sync by (cases "file_io_sync f d") auto
  from file_io_sync_result [OF s assms(1,2)] show ?thesis
    by (auto intro: changes_only_entry)
qed

lemma io_run_keeps:
  assumes "opened j f d" and "j < 2 ^ 21" and "fold io_step cs (f, d) = (f', d')"
  shows "opened j f' d' \<and> changes_only j d d'"
  using assms
proof (induction cs arbitrary: f d)
  case Nil
  then show ?case by (simp add: changes_only_refl)
next
  case (Cons c cs)
  obtain f1 d1 where s: "io_step c (f, d) = (f1, d1)" by fastforce
  from io_step_keeps [OF Cons.prems(1,2) s] have k: "opened j f1 d1" "changes_only j d d1" by auto
  have "fold io_step cs (f1, d1) = (f', d')" using Cons.prems(3) s by simp
  from Cons.IH [OF k(1) Cons.prems(2) this] k(2) show ?case by (blast intro: changes_only_trans)
qed

text \<open>The bytes of an extent.\<close>

definition extent :: "blkdev \<Rightarrow> nat \<Rightarrow> byte list" where
  "extent d j = segment (dev_bytes d) (nat (video_start j)) (nat (video_max j))"

lemma changes_only_others:
  assumes "changes_only j d d'" and "p \<noteq> j"
  shows "2097152 + 144 * Suc p \<le> 104857600 \<Longrightarrow> stored_info d' p = stored_info d p"
    and "2097152 + 144 * Suc j \<le> 104857600 \<Longrightarrow> extent d' p = extent d p"
proof -
  assume a: "2097152 + 144 * Suc p \<le> 104857600"
  have "segment (dev_bytes d') (2097152 + 144 * p) 144 = segment (dev_bytes d) (2097152 + 144 * p) 144"
  proof (rule segment_cong)
    fix i assume i: "2097152 + 144 * p \<le> i" "i < 2097152 + 144 * p + 144"
    have "\<not> (2097152 + 144 * j \<le> i \<and> i < 2097152 + 144 * Suc j)"
      using assms(2) i by (cases "p < j") auto
    moreover have "\<not> (video_start j \<le> int i \<and> int i < video_start j + video_max j)"
      using i a video_bounds(3) [of j] by auto
    ultimately show "dev_bytes d' i = dev_bytes d i" using assms(1) by (simp add: changes_only_def)
  qed
  then show "stored_info d' p = stored_info d p" by (simp add: stored_info_def IO_DISK_FILE_INFO_OFFSET_def)
next
  assume a: "2097152 + 144 * Suc j \<le> 104857600"
  show "extent d' p = extent d p" unfolding extent_def
  proof (rule segment_cong)
    fix i assume i: "nat (video_start p) \<le> i" "i < nat (video_start p) + nat (video_max p)"
    have v: "video_start p \<le> int i" "int i < video_start p + video_max p"
      using i video_bounds(1,2) [of p] by linarith+
    have "\<not> (2097152 + 144 * j \<le> i \<and> i < 2097152 + 144 * Suc j)"
      using a v(1) video_bounds(3) [of p] by linarith
    moreover have "\<not> (video_start j \<le> int i \<and> int i < video_start j + video_max j)"
      using v assms(2) video_start_mono [of p j] video_start_mono [of j p] by (cases "p < j") auto
    ultimately show "dev_bytes d' i = dev_bytes d i" using assms(1) by (simp add: changes_only_def)
  qed
qed

section \<open>Properties\<close>

text \<open>A device of 400 MiB of zeros that answers in full, a blank entry and a clock.\<close>

definition demo_dev :: blkdev where
  "demo_dev = \<lparr>dev_bytes = (\<lambda>_. 0), dev_size = 419430400, dev_pos = 0, dev_again = False, dev_answers = []\<rparr>"

definition demo_now :: "nat \<Rightarrow> tm" where
  "demo_now i = \<lparr>tm_year = 124, tm_mon = 5, tm_mday = 7, tm_hour = 8, tm_min = 9, tm_sec = int i\<rparr>"

lemma demo_format:
  "\<exists>d'. format_disk_to_io_sys 3 0 zero_info demo_now 256 demo_dev = (1, d') \<and> dev_answers d' = []"
  by (rule format_ready) (simp_all add: demo_dev_def zero_info_def table_too_large_def pairs_of_def offset_defs)

text \<open>A transfer is complete or reported. Whatever the kernel answers, \<open>IO_Write\<close> returns and
  either stores all its data at the position and answers the length, or answers -1 with only a
  proper prefix stored; \<open>IO_Read\<close> returns all the bytes asked for or answers -1.\<close>

theorem io_transfer_all_or_error:
  "(case IO_Write bs d of (r, d') \<Rightarrow>
     (\<exists>k. dev_bytes d' = overlay (dev_bytes d) (dev_pos d) (take k bs) \<and> dev_pos d' = dev_pos d + k \<and>
        (r = int (length bs) \<and> k = length bs \<or> r = - 1 \<and> k < length bs))) \<and>
   (case IO_Read n d of (r, out, d') \<Rightarrow> dev_bytes d' = dev_bytes d \<and>
     (\<exists>k. out = segment (dev_bytes d) (dev_pos d) k \<and> dev_pos d' = dev_pos d + k \<and>
        (r = int n \<and> k = n \<or> r = - 1 \<and> k < n)))"
proof (rule conjI)
  obtain r d' where w: "IO_Write bs d = (r, d')" by fastforce
  from io_write_loop_result [OF w [unfolded IO_Write_def]]
  show "case IO_Write bs d of (r, d') \<Rightarrow>
     (\<exists>k. dev_bytes d' = overlay (dev_bytes d) (dev_pos d) (take k bs) \<and> dev_pos d' = dev_pos d + k \<and>
        (r = int (length bs) \<and> k = length bs \<or> r = - 1 \<and> k < length bs))"
    using w by auto
next
  obtain q out d2 where s: "IO_Read n d = (q, out, d2)" by (metis prod_cases3)
  from io_read_loop_result [OF s [unfolded IO_Read_def]]
  show "case IO_Read n d of (r, out, d') \<Rightarrow> dev_bytes d' = dev_bytes d \<and>
     (\<exists>k. out = segment (dev_bytes d) (dev_pos d) k \<and> dev_pos d' = dev_pos d + k \<and>
        (r = int n \<and> k = n \<or> r = - 1 \<and> k < n))"
    using s by auto
qed

text \<open>Time stamps order like dates. For fields in two decimal digits (a year below a million)
  the packed time of one date is below that of another exactly when the date is earlier.\<close>

theorem get_64time_orders_dates:
  assumes "\<And>t. t \<in> {a, b} \<Longrightarrow> 0 \<le> tm_sec t \<and> tm_sec t < 100 \<and> 0 \<le> tm_min t \<and> tm_min t < 100 \<and>
      0 \<le> tm_hour t \<and> tm_hour t < 100 \<and> 0 \<le> tm_mday t \<and> tm_mday t < 100 \<and>
      0 \<le> tm_mon t \<and> tm_mon t < 100 \<and> 0 \<le> tm_year t \<and> tm_year t < 1000000"
  shows "time_of a < time_of b \<longleftrightarrow>
    (tm_year a, tm_mon a, tm_mday a, tm_hour a, tm_min a, tm_sec a) <
    (tm_year b, tm_mon b, tm_mday b, tm_hour b, tm_min b, tm_sec b)"
proof -
  have 64: "time_of t = tm_sec t + 100 * (tm_min t + 100 * (tm_hour t + 100 * (tm_mday t + 100 * (tm_mon t + 100 * tm_year t))))"
    (is "_ = ?v") if "t \<in> {a, b}" for t
  proof -
    have "get_64time (tm_year t) (tm_mon t) (tm_mday t) (tm_hour t) (tm_min t) (tm_sec t) = word_of_int ?v"
      by (simp add: get_64time_def algebra_simps)
    moreover have "sint (word_of_int ?v :: 64 word) = ?v"
      unfolding sint_sbintrunc' by (rule signed_take_bit_int_eq_self) (use assms [OF that] in auto)
    ultimately show ?thesis by (simp only: time_of_def)
  qed
  have lex: "x + 100 * p < y + 100 * q \<longleftrightarrow> p < q \<or> p = q \<and> x < y"
    if "0 \<le> x" "x < 100" "0 \<le> y" "y < 100" for x y p q :: int
    using that by linarith
  show ?thesis
    using 64 [of a] 64 [of b] assms [of a] assms [of b] by (auto simp: lex less_prod_simp)
qed

lemma get_64time_orders_dates_witness:
  "time_of \<lparr>tm_year = 124, tm_mon = 0, tm_mday = 31, tm_hour = 23, tm_min = 59, tm_sec = 59\<rparr> <
   time_of \<lparr>tm_year = 124, tm_mon = 1, tm_mday = 1, tm_hour = 0, tm_min = 0, tm_sec = 0\<rparr>"
  by (subst get_64time_orders_dates) auto

text \<open>What formatting leaves on the disk. When \<open>format_disk_to_io_sys\<close> returns 1 - after any
  sequence of short answers - the flag block names the file system, the total counts two files
  per 128 MiB, and entry \<open>j\<close> of the table names an empty file \<open>video_i.avh\<close> of 3 MiB or
  \<open>video_i.avd\<close> of 125 MiB whose extent begins where the one before ends.\<close>

theorem format_layout:
  assumes "format_disk_to_io_sys fd ret0 fi0 now disk_size d = (1, d')"
    and "length (file_name fi0) = 100" and "0 \<le> disk_size" and "disk_size < 2 ^ 31"
    and "2 * 1024 * 1024 \<le> int (dev_size d)"
  shows "stored_flag d' = IO_DISK_VER \<and>
    stored_total d' = \<lparr>file_num = 2 * (disk_size div 128), file_total_size = video_start (2 * pairs_of disk_size)\<rparr> \<and>
    (\<forall>j \<in> {..< 2 * pairs_of disk_size}. is_entry j (stored_info d' j)) \<and>
    video_start 0 = IO_DISK_FILE_START_OFFSET \<and> (\<forall>j. video_start (Suc j) = video_start j + video_max j)"
  using format_layout_aux [OF assms] assms(3) video_start_0 video_start_Suc by (auto simp: pairs_of_def)

lemma format_layout_witness:
  "\<exists>d'. format_disk_to_io_sys 3 0 zero_info demo_now 256 demo_dev = (1, d') \<and>
    is_entry 3 (stored_info d' 3) \<and> file_max_size (stored_info d' 3) = 131072000"
proof -
  obtain d' where f: "format_disk_to_io_sys 3 0 zero_info demo_now 256 demo_dev = (1, d')"
    using demo_format by auto
  have "\<forall>j \<in> {..< 2 * pairs_of 256}. is_entry j (stored_info d' j)"
    using format_layout [OF f] by (auto simp: zero_info_def demo_dev_def)
  then have "is_entry 3 (stored_info d' 3)" by (simp add: pairs_of_def)
  then show ?thesis using f by (auto simp: is_entry_def names_entry_def video_max_def)
qed

text \<open>C20: every file of a freshly formatted disk opens. On a disk that holds all extents and
  answers in full, \<open>file_io_open\<close> finds the table entry of each \<open>video_i.avh\<close> and \<open>video_i.avd\<close>
  by its name, returns 1 and leaves an empty file positioned at the start of its extent, the
  table still naming every file.\<close>

theorem format_then_open:
  assumes "format_disk_to_io_sys fd ret0 fi0 now disk_size d = (1, d1)" and "length (file_name fi0) = 100"
    and "0 \<le> disk_size" and "pairs_of disk_size < 2 ^ 20" and "2 * 1024 * 1024 \<le> int (dev_size d)"
    and "video_start (2 * pairs_of disk_size) \<le> int (dev_size d)" and "dev_answers d1 = []"
    and "j < 2 * pairs_of disk_size"
    and "0 < fd2" and "ret2 \<noteq> - 1" and "dev \<noteq> []" and "length dev < 100"
  shows "\<exists>f d2. file_io_open fd2 ret2 t dev (video_label j) mode pos d1 = Some (1, f, d2) \<and>
    opened j f d2 \<and> placed f d2 \<and> fileoffset f = 0 \<and> io_size f = 0 \<and>
    table_ok (pairs_of disk_size) d2 \<and> stored_info d2 j = io_info f"
proof -
  let ?n = "pairs_of disk_size"
  have s: "disk_size < 2 ^ 31" using assms(3,4) by (auto simp: pairs_of_def nat_less_iff)
  note lay = format_layout_aux [OF assms(1-3) s assms(5)]
  have "2097152 + 288 * int ?n \<le> video_start (2 * ?n)"
    by (simp add: video_start_def IO_DISK_FILE_START_OFFSET_def)
  then have room: "2097152 + 288 * ?n \<le> dev_size d" using assms(6) by linarith
  have tab: "table_ok ?n d1"
    using lay(2,3) room assms(4) lay(4) by (auto simp: table_ok_def is_entry_def)
  have e: "is_entry j (stored_info d1 j)" using lay(3) assms(8) by simp
  have "video_start j + video_max j \<le> int (dev_size d1)"
    using video_start_mono [of j "2 * ?n"] assms(6,8) lay(4) by simp
  moreover have "0 \<le> file_size (stored_info d1 j)" "file_size (stored_info d1 j) \<le> video_max j"
    using e video_bounds(2) [of j] by (auto simp: is_entry_def)
  ultimately obtain f d2 where "file_io_open fd2 ret2 t dev (video_label j) mode pos d1 = Some (1, f, d2)"
    "opened j f d2" "placed f d2" "fileoffset f = 0" "io_info f = stamp_info mode t (stored_info d1 j)"
    "io_size f = file_size (io_info f)" "table_ok ?n d2" "stored_info d2 j = io_info f"
    using open_ready [OF tab assms(7,8) _ _ _ assms(9-12)] by blast
  then show ?thesis using e
    by (intro exI [of _ f] exI [of _ d2]) (auto simp: stamp_info_def is_entry_def Let_def)
qed

lemma format_then_open_witness:
  "\<exists>d1 f d2. format_disk_to_io_sys 3 0 zero_info demo_now 256 demo_dev = (1, d1) \<and>
    file_io_open 4 0 (demo_now 7) (bytes_of ''/dev/sda6'') (bytes_of ''video_1.avd'') ''r+'' 0 d1 = Some (1, f, d2) \<and>
    dev_pos d2 = 242221056 \<and> io_size f = 0"
proof -
  obtain d1 where f: "format_disk_to_io_sys 3 0 zero_info demo_now 256 demo_dev = (1, d1)" "dev_answers d1 = []"
    using demo_format by auto
  have l: "video_label 3 = bytes_of ''video_1.avd''"
    by (simp add: video_label_def video_name_def bytes_of_def dec.simps)
  have p: "pairs_of 256 = 2" by (simp add: pairs_of_def)
  obtain g d2 where "file_io_open 4 0 (demo_now 7) (bytes_of ''/dev/sda6'') (video_label 3) ''r+'' 0 d1 = Some (1, g, d2)"
    "placed g d2" "fileoffset g = 0" "io_size g = 0" "opened 3 g d2"
    using format_then_open [OF f(1) _ _ _ _ _ f(2), of 3 4 0 "bytes_of ''/dev/sda6''" "demo_now 7" "''r+''" 0]
    by (auto simp: p zero_info_def demo_dev_def video_start_def IO_DISK_FILE_START_OFFSET_def bytes_of_def)
  then show ?thesis using f(1) l
    by (intro exI [of _ d1] exI [of _ g] exI [of _ d2])
      (auto simp: opened_def placed_def video_start_def IO_DISK_FILE_START_OFFSET_def)
qed

text \<open>A demonstration file: the second file of the disk, opened on the zero device.\<close>

definition demo_file :: io_file where
  "demo_file = zero_file\<lparr>fdno := 4, diskoffset := 108003328, status := FILE_OPEN,
     io_info := \<lparr>disk_offset = 108003328, file_max_size = 131072000, file_size = 0, file_create_time = 0,
       file_edit_time = 0, file_pos = 1, file_name = str_put (replicate 100 0) (video_label 1)\<rparr>\<rparr>"

lemma demo_opened: "opened 1 demo_file demo_dev"
proof -
  have "0 \<notin> set (video_label 1)" "length (video_label 1) = 11"
    by (simp_all add: video_label_def video_name_def bytes_of_def dec.simps)
  then show ?thesis
    by (simp add: opened_def demo_file_def names_entry_def info_fits_def fits_ll_def fits_int_def str_in_put
        length_str_put video_start_def video_max_def IO_DISK_FILE_START_OFFSET_def demo_dev_def zero_file_def)
qed

text \<open>C8: files do not disturb each other. Any sequence of seek-and-write, seek-and-read and sync
  calls on an open file, with any answers of the kernel, leaves the table entry and the extent
  of every other file as they were, and the handle in order, as long as the table ends before
  the first file.\<close>

theorem io_runs_isolate_files:
  assumes "opened j f d" and "j < 2 * n" and "2097152 + 288 * n \<le> 104857600"
    and "fold io_step cs (f, d) = (f', d')" and "p < 2 * n" and "p \<noteq> j"
  shows "opened j f' d' \<and> stored_info d' p = stored_info d p \<and> extent d' p = extent d p"
proof -
  have "2097152 + 144 * Suc j \<le> 104857600" "2097152 + 144 * Suc p \<le> 104857600" "j < 2 ^ 21"
    using assms(2,3,5) by simp_all
  with io_run_keeps [OF assms(1) _ assms(4)] changes_only_others [OF _ assms(6)] show ?thesis by blast
qed

lemma io_runs_isolate_files_witness:
  "extent (snd (fold io_step [Put 0 [1, 2, 3], Sync, Fetch 1 2] (demo_file, demo_dev))) 0 = extent demo_dev 0"
proof -
  obtain f' d' where s: "fold io_step [Put 0 [1, 2, 3], Sync, Fetch 1 2] (demo_file, demo_dev) = (f', d')"
    by fastforce
  show ?thesis using io_runs_isolate_files [OF demo_opened _ _ s, of 2 0] unfolding s by simp
qed

text \<open>C9: what is written, synced and read back is the data. After a seek, a write that is
  answered with its length, and a sync that is answered with 1, the same seek succeeds and a
  read that is answered with the length delivers the bytes written; on a device that answers in
  full the read is answered so.\<close>

theorem io_write_sync_read:
  assumes "opened j f d" and "2097152 + 144 * Suc j \<le> 104857600" and "bs \<noteq> []"
    and "file_io_lseek off w f d = (r1, f1, d1)" and "r1 \<noteq> - 1"
    and "file_io_write bs f1 d1 = (int (length bs), f2, d2)"
    and "file_io_sync f2 d2 = (1, f3, d3)"
  shows "\<exists>r4 f4 d4 r5 out f5 d5. file_io_lseek off w f3 d3 = (r4, f4, d4) \<and> r4 \<noteq> - 1 \<and>
    file_io_read (length bs) f4 d4 = (r5, out, f5, d5) \<and>
    (r5 = int (length bs) \<longrightarrow> out = bs) \<and> (dev_answers d3 = [] \<longrightarrow> r5 = int (length bs))"
proof -
  from assms(4,1) obtain "opened j f1 d1" "placed f1 d1" "0 \<le> off" "off \<le> io_size f"
    and e1: "f1 = f\<lparr>fileoffset := off\<rparr>" "d1 = d\<lparr>dev_pos := nat (video_start j + off)\<rparr>"
    by (cases rule: file_io_lseek_cases) (use assms(5) in auto)
  note s1 = this
  have w: "opened j f2 d2" "dev_bytes d2 = overlay (dev_bytes d) (nat (video_start j + off)) bs"
    "io_size f2 \<ge> off + int (length bs)" "dev_size d2 = dev_size d" "off + int (length bs) \<le> video_max j"
    using file_io_write_result [OF assms(6) s1(1,2)] e1 assms(3)
    by (auto simp: opened_def)
  have j: "j < 2 ^ 21" using assms(2) by simp
  obtain k ebs where y: "opened j f3 d3" "dev_size d3 = dev_size d2" "k \<le> 144" "length ebs = 144"
    "dev_bytes d3 = overlay (dev_bytes d2) (2097152 + 144 * j) (take k ebs)"
    "io_size f3 = io_size f2" "file_size (io_info f3) = io_size f2"
    using file_io_sync_result [OF assms(7) w(1) j] by auto
  obtain r4 f4 d4 where s4: "file_io_lseek off w f3 d3 = (r4, f4, d4)" by (metis prod_cases3)
  have o3: "off \<le> io_size f3" using w(3) y(6) by simp
  from s4 y(1) have g: "r4 \<noteq> - 1 \<and> f4 = f3\<lparr>fileoffset := off\<rparr> \<and>
      d4 = d3\<lparr>dev_pos := nat (video_start j + off)\<rparr> \<and> opened j f4 d4 \<and> placed f4 d4"
  proof (cases rule: file_io_lseek_cases)
    case no
    have "disk_offset (io_info f3) = video_start j" "diskoffset f3 = video_start j" "io_size f3 \<le> video_max j"
      "file_max_size (io_info f3) = video_max j" "video_start j + video_max j \<le> int (dev_size d3)" "0 \<le> video_start j"
      using y(1) video_bounds(1) by (auto simp: opened_def names_entry_def)
    then show ?thesis using no(1) s4 s1(3) o3
      by (auto simp: file_io_lseek_def IO_Lseek_def Let_def split: if_splits)
  qed auto
  obtain r5 out f5 d5 where s5: "file_io_read (length bs) f4 d4 = (r5, out, f5, d5)" by (metis prod_cases4)
  have guard: "\<not> fileoffset f4 + int (length bs) > file_size (io_info f4)" using g w(3) y(7) by simp
  let ?p = "nat (video_start j + off)"
  have p: "2097152 + 144 * j + 144 \<le> ?p"
    using assms(2) video_bounds(3) [of j] s1(3) by (auto simp: le_nat_iff)
  have "segment (dev_bytes d4) ?p (length bs) = bs"
    using g y(3-5) p w(2) segment_overlay_same by (simp add: segment_overlay_disjoint)
  moreover have "r5 = int (length bs) \<longrightarrow> out = segment (dev_bytes d4) ?p (length bs)"
    using file_io_read_result [OF s5] g assms(3) by auto
  moreover have "r5 = int (length bs)" if "dev_answers d3 = []"
  proof -
    have "int ?p + int (length bs) \<le> int (dev_size d3)"
      using w(4,5) y(1,2) s1(3) video_bounds(1) [of j] by (auto simp: opened_def)
    then show ?thesis
      using s5 guard IO_Read_ready [of d4 "length bs"] that g assms(3)
      by (auto simp: file_io_read_def split: if_splits)
  qed
  ultimately show ?thesis using s4 s5 g by metis
qed

lemma demo_write:
  "file_io_lseek 0 0 demo_file demo_dev = (108003328, demo_file, demo_dev\<lparr>dev_pos := 108003328\<rparr>)"
  "length bs < 1000 \<Longrightarrow> bs \<noteq> [] \<Longrightarrow>
   file_io_write bs demo_file (demo_dev\<lparr>dev_pos := 108003328\<rparr>) =
     (int (length bs), demo_file\<lparr>fileoffset := int (length bs), io_size := int (length bs)\<rparr>,
      demo_dev\<lparr>dev_bytes := overlay (\<lambda>_. 0) 108003328 bs, dev_pos := 108003328 + length bs\<rparr>)"
  using IO_Write_ready [of "demo_dev\<lparr>dev_pos := 108003328\<rparr>" bs]
  by (simp_all add: file_io_lseek_def IO_Lseek_def demo_file_def zero_file_def demo_dev_def file_io_write_def Let_def)

lemma file_io_sync_ready:
  assumes "opened j f d" and "dev_answers d = []" and "file_size (io_info f) < io_size f"
    and "2097152 + 144 * Suc j \<le> 104857600"
  shows "file_io_sync f d = (1, f\<lparr>io_info := (io_info f)\<lparr>file_size := io_size f\<rparr>\<rparr>,
    d\<lparr>dev_bytes := overlay (dev_bytes d) (2097152 + 144 * j) (info_bytes ((io_info f)\<lparr>file_size := io_size f\<rparr>)),
      dev_pos := 2097152 + 144 * Suc j\<rparr>)"
proof -
  define f1 where "f1 = f\<lparr>io_info := (io_info f)\<lparr>file_size := io_size f\<rparr>\<rparr>"
  have "104857600 \<le> int (dev_size d)"
    using assms(1) video_bounds(2,3) [of j] by (auto simp: opened_def)
  then have room: "2097152 + 144 * Suc j \<le> dev_size d" using assms(4) by linarith
  have "disk_save_file_info f1 d = (1, d\<lparr>dev_bytes := overlay (dev_bytes d) (2097152 + 144 * j) (info_bytes (io_info f1)),
    dev_pos := 2097152 + 144 * Suc j\<rparr>)"
    by (rule save_ready) (use assms room in \<open>auto simp: f1_def opened_def names_entry_def info_fits_def\<close>)
  then show ?thesis using assms(3) by (simp add: file_io_sync_def f1_def Let_def)
qed

lemma io_write_sync_read_witness:
  "\<exists>f2 d2 f3 d3 r4 f4 d4 f5 d5.
    file_io_write [7, 8, 9] demo_file (demo_dev\<lparr>dev_pos := 108003328\<rparr>) = (3, f2, d2) \<and>
    file_io_sync f2 d2 = (1, f3, d3) \<and> file_io_lseek 0 0 f3 d3 = (r4, f4, d4) \<and>
    file_io_read 3 f4 d4 = (3, [7, 8, 9], f5, d5)"
proof -
  let ?d = "demo_dev\<lparr>dev_pos := 108003328\<rparr>"
  define f2 where "f2 = demo_file\<lparr>fileoffset := 3, io_size := 3\<rparr>"
  define d2 where "d2 = demo_dev\<lparr>dev_bytes := overlay (\<lambda>_. 0) 108003328 [7, 8, 9], dev_pos := 108003331\<rparr>"
  have w: "file_io_write [7, 8, 9] demo_file ?d = (3, f2, d2)"
    using demo_write(2) [of "[7, 8, 9]"] by (simp add: f2_def d2_def)
  have o: "opened 1 f2 d2" "dev_answers d2 = []" "file_size (io_info f2) < io_size f2"
    using demo_opened by (auto simp: opened_def f2_def d2_def demo_file_def demo_dev_def video_max_def)
  obtain f3 d3 where y: "file_io_sync f2 d2 = (1, f3, d3)" "dev_answers d3 = []"
    using file_io_sync_ready [OF o] o(2) by auto
  have "w \<noteq> []" "length w = 3" if "w = [7, 8, 9 :: byte]" for w using that by auto
  then have "\<exists>r4 f4 d4 r5 out f5 d5. file_io_lseek 0 0 f3 d3 = (r4, f4, d4) \<and> r4 \<noteq> - 1 \<and>
    file_io_read (length [7, 8, 9 :: byte]) f4 d4 = (r5, out, f5, d5) \<and>
    (r5 = int (length [7, 8, 9 :: byte]) \<longrightarrow> out = [7, 8, 9]) \<and>
    (dev_answers d3 = [] \<longrightarrow> r5 = int (length [7, 8, 9 :: byte]))"
    by (intro io_write_sync_read [OF demo_opened _ _ demo_write(1) _ _ y(1)]) (use w in simp_all)
  then show ?thesis using w y by (auto simp: numeral_3_eq_3)
qed

text \<open>A sync leaves the descriptor in the table of files. After a sync that saved a grown file
  the handle still shows its old offset, but the next write without a seek is answered with
  its length and lands in the table, over the entry of the following file.\<close>

theorem io_sync_moves_position:
  assumes "opened j f d" and "dev_answers d = []" and "file_size (io_info f) < io_size f"
    and "2097152 + 144 * Suc j \<le> 104857600" and "fileoffset f + int (length bs) \<le> video_max j" and "bs \<noteq> []"
    and "length bs \<le> 144"
  shows "\<exists>f1 d1 f2 d2. file_io_sync f d = (1, f1, d1) \<and> fileoffset f1 = fileoffset f \<and>
    file_io_write bs f1 d1 = (int (length bs), f2, d2) \<and>
    segment (dev_bytes d2) (nat IO_DISK_FILE_INFO_OFFSET + 144 * Suc j) (length bs) = bs"
proof -
  define f1 where "f1 = f\<lparr>io_info := (io_info f)\<lparr>file_size := io_size f\<rparr>\<rparr>"
  define d1 where "d1 = d\<lparr>dev_bytes := overlay (dev_bytes d) (2097152 + 144 * j) (info_bytes (io_info f1)),
      dev_pos := 2097152 + 144 * Suc j\<rparr>"
  have s: "file_io_sync f d = (1, f1, d1)"
    using file_io_sync_ready [OF assms(1-4)] by (simp add: f1_def d1_def)
  have "video_start j + video_max j \<le> int (dev_size d)" using assms(1) by (simp add: opened_def)
  moreover have "2621440 \<le> video_max j" by (simp add: video_max_def)
  ultimately have room: "dev_pos d1 + length bs \<le> dev_size d1"
    using assms(4,7) video_bounds(3) [of j] by (simp add: d1_def)
  have mx: "file_max_size (io_info f1) = video_max j"
    using assms(1) by (simp add: f1_def opened_def names_entry_def)
  have w: "IO_Write bs d1 = (int (length bs), d1\<lparr>dev_bytes := overlay (dev_bytes d1) (dev_pos d1) bs, dev_pos := dev_pos d1 + length bs\<rparr>)"
    by (rule IO_Write_ready) (use assms(2) room in \<open>simp_all add: d1_def\<close>)
  obtain f2 where "file_io_write bs f1 d1 = (int (length bs), f2, d1\<lparr>dev_bytes := overlay (dev_bytes d1) (dev_pos d1) bs, dev_pos := dev_pos d1 + length bs\<rparr>)"
    using w mx assms(5,6) by (auto simp: file_io_write_def f1_def Let_def)
  then show ?thesis using s segment_overlay_same
    by (intro exI [of _ f1] exI [of _ d1] exI [of _ f2] exI) (auto simp: f1_def d1_def IO_DISK_FILE_INFO_OFFSET_def)
qed

lemma io_sync_moves_position_witness:
  "\<exists>f1 d1 f2 d2. file_io_sync (demo_file\<lparr>io_size := 3\<rparr>) demo_dev = (1, f1, d1) \<and>
    file_io_write [7, 8, 9] f1 d1 = (3, f2, d2) \<and> segment (dev_bytes d2) 2097440 3 = [7, 8, 9]"
proof -
  have "opened 1 (demo_file\<lparr>io_size := 3\<rparr>) demo_dev"
    using demo_opened by (simp add: opened_def demo_file_def video_max_def)
  from io_sync_moves_position [OF this, of "[7, 8, 9]"] show ?thesis
    by (auto simp: demo_dev_def demo_file_def zero_file_def video_max_def IO_DISK_FILE_INFO_OFFSET_def numeral_3_eq_3)
qed

text \<open>The size test of the table counts half of it. For 356808 to 713614 file pairs
  formatting succeeds on any device that answers in full and holds the table, but the last
  entry it writes ends behind the start of the first file.\<close>

theorem format_accepts_overlapping_table:
  assumes "356808 \<le> n" and "n \<le> 713614" and "dev_answers d = []"
    and "2097152 + 288 * n \<le> dev_size d" and "0 < fd" and "ret0 \<noteq> - 1" and "length (file_name fi0) = 100"
  shows "\<exists>d'. format_disk_to_io_sys fd ret0 fi0 now (128 * int n) d = (1, d') \<and>
    is_entry (2 * n - 1) (stored_info d' (2 * n - 1)) \<and>
    nat IO_DISK_FILE_INFO_OFFSET + 144 * (2 * n - 1) + 144 > nat (video_start 0)"
proof -
  have p: "pairs_of (128 * int n) = n" "128 * int n div 128 = int n" by (simp_all add: pairs_of_def)
  have "(int n * 144 + 2097152) mod 4294967296 = int n * 144 + 2097152" using assms(2) by simp
  moreover have "word_of_int (int n) * 144 + word_of_int IO_DISK_FILE_INFO_OFFSET = (word_of_int (int n * 144 + 2097152) :: u32)"
    by (simp add: IO_DISK_FILE_INFO_OFFSET_def)
  ultimately have "\<not> table_too_large (int n)"
    using assms(2) by (simp add: table_too_large_def unsigned_of_int take_bit_eq_mod IO_DISK_FILE_START_OFFSET_def
        del: of_int_add of_int_mult of_int_of_nat_eq)
  then obtain d' where f: "format_disk_to_io_sys fd ret0 fi0 now (128 * int n) d = (1, d')"
    using format_ready [of d fi0 "128 * int n" fd ret0 now] assms p by auto
  have "2 * 1024 * 1024 \<le> int (dev_size d)" using assms(4) by linarith
  then have "is_entry (2 * n - 1) (stored_info d' (2 * n - 1))"
    using format_layout_aux(3) [OF f assms(7), of "2 * n - 1"] assms(1,2) p by simp
  then show ?thesis using f assms(1) by (auto simp: video_start_0 offset_defs)
qed

lemma format_accepts_overlapping_table_witness:
  "\<exists>d'. format_disk_to_io_sys 3 0 zero_info demo_now 45671424 demo_dev = (1, d') \<and>
    file_pos (stored_info d' 713615) = 713615 \<and> nat IO_DISK_FILE_INFO_OFFSET + 144 * 713615 + 144 > 104857600"
  using format_accepts_overlapping_table [of 356808 demo_dev 3 0 zero_info demo_now]
  by (auto simp: demo_dev_def zero_info_def is_entry_def names_entry_def offset_defs)

text \<open>The flag block tells the state of the disk. On a disk that answers in full,
  \<open>check_io_file_version\<close> answers 1 after a successful format and 2 after a successful
  \<open>set_disk_is_invalid\<close>.\<close>

theorem disk_flag_reports_state:
  assumes "dev_answers d' = []" and "2 * 1024 * 1024 \<le> int (dev_size d)" and "0 < fd2" and "ret2 \<noteq> - 1"
    and "(\<exists>fi0 now. length (file_name fi0) = 100 \<and> r = 1 \<and> 0 \<le> disk_size \<and> disk_size < 2 ^ 31 \<and>
        format_disk_to_io_sys fd ret0 fi0 now disk_size d = (1, d')) \<or>
      r = 2 \<and> set_disk_is_invalid fd ret0 d = (1, d')"
  shows "fst (check_io_file_version fd2 ret2 d') = r"
proof -
  have flag: "stored_flag d' = (if r = 2 then IO_DISK_INVALID else IO_DISK_VER) \<and> dev_size d' = dev_size d \<and> r \<in> {1, 2}"
    using assms(5)
  proof (elim disjE exE conjE)
    assume r: "r = 2" and "set_disk_is_invalid fd ret0 d = (1, d')"
    then obtain q where w: "IO_Write (str_put (replicate 512 0) IO_DISK_INVALID) (snd (IO_Lseek (fresh d) IO_DISK_FLAG_OFFSET)) = (q, d')"
      "q = 512"
      by (auto simp: set_disk_is_invalid_def Let_def split: if_splits prod.splits)
    have "dev_pos (snd (IO_Lseek (fresh d) IO_DISK_FLAG_OFFSET)) = 1047552"
      using assms(2) by (simp add: IO_Lseek_ok offset_defs)
    with IO_Write_full [OF w(1)] w(2)
    have "dev_bytes d' = overlay (dev_bytes d) 1047552 (str_put (replicate 512 0) IO_DISK_INVALID)" "dev_size d' = dev_size d"
      by (simp_all add: flag_block)
    then show ?thesis
      using r segment_overlay_same [of "dev_bytes d" 1047552 "str_put (replicate 512 0) IO_DISK_INVALID"]
      by (simp add: stored_flag_def IO_DISK_FLAG_OFFSET_def flag_block)
  next
    fix fi0 now
    assume "length (file_name fi0) = 100" "r = 1" "0 \<le> disk_size" "disk_size < 2 ^ 31"
      "format_disk_to_io_sys fd ret0 fi0 now disk_size d = (1, d')"
    then show ?thesis using format_layout_aux(1,4) [OF _ _ _ _ assms(2)] by auto
  qed
  have "IO_DISK_INVALID \<noteq> IO_DISK_VER" by (simp add: IO_DISK_VER_def IO_DISK_INVALID_def bytes_of_def)
  moreover have "IO_Read 512 ((fresh d')\<lparr>dev_pos := 1047552\<rparr>) =
      (512, segment (dev_bytes d') 1047552 512, (fresh d')\<lparr>dev_pos := 1048064\<rparr>)"
    using IO_Read_ready [of "(fresh d')\<lparr>dev_pos := 1047552\<rparr>" 512] assms(1,2) flag by (simp add: fresh_def)
  moreover have "snd (IO_Lseek (fresh d') IO_DISK_FLAG_OFFSET) = (fresh d')\<lparr>dev_pos := 1047552\<rparr>"
    using assms(2) flag by (simp add: IO_Lseek_ok offset_defs)
  ultimately show ?thesis
    using flag assms(3,4) by (auto simp: check_io_file_version_def Let_def stored_flag_def IO_DISK_FLAG_OFFSET_def)
qed

lemma disk_flag_reports_state_witness:
  "\<exists>d'. format_disk_to_io_sys 3 0 zero_info demo_now 256 demo_dev = (1, d') \<and>
    fst (check_io_file_version 5 0 d') = 1"
proof -
  obtain d' where f: "format_disk_to_io_sys 3 0 zero_info demo_now 256 demo_dev = (1, d')" "dev_answers d' = []"
    using demo_format by auto
  have "fst (check_io_file_version 5 0 d') = 1"
    by (rule disk_flag_reports_state [OF f(2), of demo_dev 5 0 1 256 3 0])
      (use f(1) in \<open>auto simp: demo_dev_def zero_info_def intro!: exI [of _ zero_info] exI [of _ demo_now]\<close>)
  then show ?thesis using f(1) by blast
qed

end
