(* ===== verification/Message_Log.thy ===== *)
theory Message_Log
  imports Ipc_Base
begin

text \<open>
  What the log modules \<open>FSrecordop.c\<close>, \<open>FSalarmop.c\<close> and \<open>FSEventInfo.c\<close> of
  \<open>src/FileSystem/filesystem\<close> share. A log is a file per disk and partition: a
  \<open>MESSAGEUSEINFO\<close> (the index of the next entry and the number of entries) and a table of
  entries that is used as a ring. A module keeps the log of one partition in a buffer and writes
  single entries through to the file.

  The type of the entries is a parameter. Files and buffer are seen as the structures they hold;
  the files are kept by disk and partition number (\<open>DISK_GetDiskInfo\<close> gives every disk a name
  of its own). \<open>fopen\<close>, \<open>fread\<close> and \<open>fwrite\<close> take their outcome from a list of answers; with
  no answer left they succeed.
\<close>

definition EFFECT :: int where "EFFECT = 1"
definition NOEFFECT :: int where "NOEFFECT = 0"
definition MAXMESSAGENUMBER :: nat where "MAXMESSAGENUMBER = 1000"

section \<open>State\<close>

record 'm mlog =
  use_id :: int
  use_total :: int
  messages :: "'m list"

text \<open>
  \<open>Refused\<close>: the call transfers nothing. \<open>Torn d\<close>: the transfer stops part way, and the place
  written to then holds what \<open>d\<close> has there.
\<close>

datatype 'm stdio_answer = Complete | Refused | Torn "'m mlog"

text \<open>
  The global \<open>p...LogPoint\<close> with its buffer (\<open>None\<close> is NULL), the static \<open>iFirst\<close>, the flag
  \<open>g_CurrentFormat...Reload\<close>, and the files. \<open>pUseinfo\<close> is whether the pointer has been set; it
  points to the start of the buffer. \<open>pFilePos\<close> is the index of the entry pointed to.
\<close>

record 'm log_point =
  iDiskId :: int
  iPatitionId :: int
  lp_id :: int
  pUseinfo :: bool
  pFilePos :: int
  fileBuf :: "'m mlog option"
  iFirst :: bool
  need_reload :: bool
  log_files :: "int \<times> int \<Rightarrow> 'm mlog option"
  answers :: "'m stdio_answer list"

definition next_answer :: "'m log_point \<Rightarrow> 'm stdio_answer \<times> 'm log_point" where
  "next_answer lp =
     (case answers lp of [] \<Rightarrow> (Complete, lp) | a # as \<Rightarrow> (a, lp\<lparr>answers := as\<rparr>))"

text \<open>\<open>b\<close> with its first part overwritten by \<open>d\<close>.\<close>

definition overwritten :: "'m mlog \<Rightarrow> 'm mlog \<Rightarrow> 'm mlog" where
  "overwritten d b = d\<lparr>messages := take (length (messages b)) (messages d @ drop (length (messages d)) (messages b))\<rparr>"

text \<open>The C objects behind the pointers.\<close>

definition use_info :: "'m log_point \<Rightarrow> 'm mlog option" where
  "use_info lp = (if pUseinfo lp then fileBuf lp else None)"

definition cur_msg :: "'m log_point \<Rightarrow> 'm option" where
  "cur_msg lp = (case fileBuf lp of None \<Rightarrow> None
     | Some b \<Rightarrow> if 0 \<le> pFilePos lp \<and> nat (pFilePos lp) < length (messages b)
                 then Some (messages b ! nat (pFilePos lp)) else None)"

definition set_msg :: "'m \<Rightarrow> 'm log_point \<Rightarrow> 'm log_point option" where
  "set_msg m lp = (case fileBuf lp of None \<Rightarrow> None
     | Some b \<Rightarrow> if 0 \<le> pFilePos lp \<and> nat (pFilePos lp) < length (messages b)
                 then Some (lp\<lparr>fileBuf := Some (b\<lparr>messages := (messages b)[nat (pFilePos lp) := m]\<rparr>)\<rparr>)
                 else None)"

definition set_use_id :: "int \<Rightarrow> 'm log_point \<Rightarrow> 'm log_point option" where
  "set_use_id i lp = map_option (\<lambda>b. lp\<lparr>fileBuf := Some (b\<lparr>use_id := i\<rparr>)\<rparr>) (use_info lp)"

section \<open>Buffer\<close>

text \<open>\<open>garbage\<close> is what \<open>malloc\<close> returns, \<open>None\<close> when it fails.\<close>

definition log_init :: "'m mlog option \<Rightarrow> 'm log_point \<Rightarrow> int \<times> 'm log_point" where
  "log_init garbage lp =
     (if \<not> iFirst lp then (ERROR, lp)
      else case garbage of
        None \<Rightarrow> (NOENOUGHMEMORY, lp\<lparr>fileBuf := None\<rparr>)
      | Some b \<Rightarrow> (ALLRIGHT, lp\<lparr>fileBuf := Some b, iFirst := False\<rparr>))"

definition log_release :: "'m log_point \<Rightarrow> int \<times> 'm log_point" where
  "log_release lp = (ALLRIGHT, lp\<lparr>fileBuf := None\<rparr>)"

text \<open>\<open>FS_Get...LogPoint\<close>: whether the pointer is not NULL.\<close>

definition log_point_valid :: "'m log_point \<Rightarrow> bool" where
  "log_point_valid lp \<longleftrightarrow> fileBuf lp \<noteq> None"

section \<open>Files\<close>

definition log_fopen :: "int \<times> int \<Rightarrow> 'm log_point \<Rightarrow> 'm mlog option \<times> 'm log_point" where
  "log_fopen key lp =
     (let (a, lp1) = next_answer lp in
      (case a of Complete \<Rightarrow> log_files lp1 key | _ \<Rightarrow> None, lp1))"

definition log_load :: "nat \<Rightarrow> int \<Rightarrow> int \<Rightarrow> 'm log_point \<Rightarrow> int \<times> 'm log_point" where
  "log_load maxnum disk part lp =
     (case fileBuf lp of
        None \<Rightarrow> (NOENOUGHMEMORY, lp)
      | Some b \<Rightarrow>
          (case log_fopen (disk, part) lp of
             (None, lp1) \<Rightarrow> (FILEERROR, lp1)
           | (Some f, lp1) \<Rightarrow>
               (case next_answer lp1 of
                  (Refused, lp2) \<Rightarrow> (FILEERROR, lp2)
                | (Torn d, lp2) \<Rightarrow> (FILEERROR, lp2\<lparr>fileBuf := Some (overwritten d b)\<rparr>)
                | (Complete, lp2) \<Rightarrow>
                    if length (messages f) < maxnum
                    then (FILEERROR, lp2\<lparr>fileBuf := Some (overwritten f b)\<rparr>)
                    else (ALLRIGHT, lp2\<lparr>fileBuf := Some (f\<lparr>messages := take maxnum (messages f)\<rparr>),
                            pUseinfo := True, lp_id := use_id f, pFilePos := use_id f,
                            iDiskId := disk, iPatitionId := part\<rparr>))))"

definition log_get_pos :: "nat \<Rightarrow> int \<Rightarrow> int \<Rightarrow> int \<Rightarrow> 'm log_point \<Rightarrow> (bool \<times> 'm log_point) option" where
  "log_get_pos maxnum disk part pos lp =
     (if fileBuf lp = None \<or> disk < 0 \<or> part < 5 then Some (False, lp)
      else let again = disk \<noteq> iDiskId lp \<or> part \<noteq> iPatitionId lp \<or> need_reload lp;
               (rel, lp1) = (if again then log_load maxnum disk part lp else (ALLRIGHT, lp))
           in if rel \<noteq> ALLRIGHT then Some (False, lp1)
              else let lp2 = (if again then lp1\<lparr>need_reload := False\<rparr> else lp1)
                   in do {
                     b \<leftarrow> use_info lp2;
                     if pos \<ge> use_total b \<or> pos < 0 then Some (False, lp2)
                     else Some (True, lp2\<lparr>pFilePos := pos, lp_id := pos\<rparr>)
                   })"

text \<open>
  Writing to an opened file. Past the end the file grows; \<open>z\<close> is the entry made of zero bytes
  that fills a gap.
\<close>

definition put_entry :: "'m \<Rightarrow> int \<Rightarrow> 'm \<Rightarrow> 'm mlog \<Rightarrow> 'm mlog" where
  "put_entry z i m f =
     f\<lparr>messages := (messages f @ replicate (Suc (nat i) - length (messages f)) z)[nat i := m]\<rparr>"

definition log_write_use :: "'m log_point \<Rightarrow> (int \<times> 'm log_point) option" where
  "log_write_use lp =
     (case log_fopen (iDiskId lp, iPatitionId lp) lp of
        (None, lp1) \<Rightarrow> Some (FILEERROR, lp1)
      | (Some f, lp1) \<Rightarrow> do {
          b \<leftarrow> use_info lp1;
          let put = (\<lambda>d lp. lp\<lparr>log_files := (log_files lp)
            ((iDiskId lp, iPatitionId lp) \<mapsto> f\<lparr>use_id := use_id d, use_total := use_total d\<rparr>)\<rparr>);
          Some (case next_answer lp1 of
              (Complete, lp2) \<Rightarrow> (ALLRIGHT, put b lp2)
            | (Refused, lp2) \<Rightarrow> (ERROR, lp2)
            | (Torn d, lp2) \<Rightarrow> (ERROR, put d lp2))
        })"

definition log_write_msg :: "'m \<Rightarrow> 'm log_point \<Rightarrow> (int \<times> 'm log_point) option" where
  "log_write_msg z lp =
     (case log_fopen (iDiskId lp, iPatitionId lp) lp of
        (None, lp1) \<Rightarrow> Some (FILEERROR, lp1)
      | (Some f, lp1) \<Rightarrow> do {
          m \<leftarrow> cur_msg lp1;
          let put = (\<lambda>m lp. lp\<lparr>log_files := (log_files lp)
            ((iDiskId lp, iPatitionId lp) \<mapsto> put_entry z (lp_id lp) m f)\<rparr>);
          Some (case next_answer lp1 of
              (Complete, lp2) \<Rightarrow> (ALLRIGHT, put m lp2)
            | (Refused, lp2) \<Rightarrow> (ERROR, lp2)
            | (Torn d, lp2) \<Rightarrow> (ERROR, case messages d of [] \<Rightarrow> lp2 | e # _ \<Rightarrow> put e lp2))
        })"

text \<open>The step of the ring.\<close>

definition next_id :: "'m mlog \<Rightarrow> int" where
  "next_id b = (if use_id b + 1 < use_total b then use_id b + 1 else 0)"

text \<open>
  \<open>FS_Create...Log\<close>: a new file of \<open>entries\<close>, written one by one. Every write error returns the
  number of the disk.
\<close>

fun create_entries :: "int \<times> int \<Rightarrow> int \<Rightarrow> 'm list \<Rightarrow> 'm log_point \<Rightarrow> int \<times> 'm log_point" where
  "create_entries key disk [] lp = (ALLRIGHT, lp)"
| "create_entries key disk (e # es) lp =
     (let add = (\<lambda>e lp. lp\<lparr>log_files := (log_files lp)
            (key := map_option (\<lambda>f. f\<lparr>messages := messages f @ [e]\<rparr>) (log_files lp key))\<rparr>)
      in case next_answer lp of
           (Complete, lp1) \<Rightarrow> create_entries key disk es (add e lp1)
         | (Refused, lp1) \<Rightarrow> (disk, lp1)
         | (Torn d, lp1) \<Rightarrow> (disk, lp1))"

definition log_create :: "int \<Rightarrow> int \<Rightarrow> 'm list \<Rightarrow> 'm log_point \<Rightarrow> int \<times> 'm log_point" where
  "log_create disk part entries lp =
     (case next_answer lp of
        (Complete, lp1) \<Rightarrow>
          let new = (\<lambda>f lp. lp\<lparr>log_files := (log_files lp)((disk, part) := f)\<rparr>)
          in (case next_answer lp1 of
                (Complete, lp2) \<Rightarrow> create_entries (disk, part) disk entries
                  (new (Some \<lparr>use_id = 0, use_total = int (length entries), messages = []\<rparr>) lp2)
              | (Refused, lp2) \<Rightarrow> (disk, new (Some \<lparr>use_id = 0, use_total = 0, messages = []\<rparr>) lp2)
              | (Torn d, lp2) \<Rightarrow> (disk, new (Some (d\<lparr>messages := []\<rparr>)) lp2))
      | (_, lp1) \<Rightarrow> (FILEERROR, lp1))"


text \<open>
  \<open>FS_Del...LosMessage\<close>: resets the entries that \<open>hit\<close> selects, from the last to the first, in
  one partition and then in a list of partitions; \<open>whole\<close> also sets the next index to 0.
  \<open>store\<close> and \<open>store_id\<close> put an entry at the current position, or the next index, into buffer
  and file.
\<close>

definition store_msg :: "'m \<Rightarrow> 'm \<Rightarrow> 'm log_point \<Rightarrow> (int \<times> 'm log_point) option" where
  "store_msg z m lp = do { lp' \<leftarrow> set_msg m lp; log_write_msg z lp' }"

definition store_id :: "int \<Rightarrow> 'm log_point \<Rightarrow> (int \<times> 'm log_point) option" where
  "store_id i lp = do { lp' \<leftarrow> set_use_id i lp; log_write_use lp' }"

fun clear_entries :: "nat \<Rightarrow> ('m \<Rightarrow> 'm log_point \<Rightarrow> (int \<times> 'm log_point) option) \<Rightarrow> int \<Rightarrow> int \<Rightarrow>
    ('m \<Rightarrow> bool) \<Rightarrow> ('m \<Rightarrow> 'm) \<Rightarrow> nat \<Rightarrow> 'm log_point \<Rightarrow> (int \<times> 'm log_point) option" where
  "clear_entries maxnum st d p hit reset 0 lp = Some (ALLRIGHT, lp)"
| "clear_entries maxnum st d p hit reset (Suc k) lp = do {
     (ok, lp1) \<leftarrow> log_get_pos maxnum d p (int k) lp;
     if \<not> ok then Some (ERROR, lp1)
     else do {
       m \<leftarrow> cur_msg lp1;
       if \<not> hit m then clear_entries maxnum st d p hit reset k lp1
       else do {
         (rel, lp2) \<leftarrow> st (reset m) lp1;
         if rel < 0 then Some (rel, lp2) else clear_entries maxnum st d p hit reset k lp2
       }
     }
   }"

definition clear_partition :: "nat \<Rightarrow> ('m \<Rightarrow> 'm log_point \<Rightarrow> (int \<times> 'm log_point) option) \<Rightarrow>
    (int \<Rightarrow> 'm log_point \<Rightarrow> (int \<times> 'm log_point) option) \<Rightarrow> int \<Rightarrow> int \<Rightarrow> bool \<Rightarrow> ('m \<Rightarrow> bool) \<Rightarrow> ('m \<Rightarrow> 'm) \<Rightarrow>
    'm log_point \<Rightarrow> (int \<times> 'm log_point) option" where
  "clear_partition maxnum st st_id d p whole hit reset lp = do {
     (ok, lp1) \<leftarrow> log_get_pos maxnum d p 0 lp;
     if \<not> ok then Some (ERROR, lp1)
     else do {
       (rel, lp2) \<leftarrow> (if whole then st_id 0 lp1 else Some (ALLRIGHT, lp1));
       if rel < 0 then Some (rel, lp2)
       else do {
         b \<leftarrow> use_info lp2;
         clear_entries maxnum st d p hit reset (nat (use_total b)) lp2
       }
     }
   }"

fun clear_partitions :: "nat \<Rightarrow> ('m \<Rightarrow> 'm log_point \<Rightarrow> (int \<times> 'm log_point) option) \<Rightarrow>
    (int \<Rightarrow> 'm log_point \<Rightarrow> (int \<times> 'm log_point) option) \<Rightarrow> (int \<Rightarrow> bool) \<Rightarrow> (int \<Rightarrow> 'm \<Rightarrow> bool) \<Rightarrow> ('m \<Rightarrow> 'm) \<Rightarrow>
    (int \<times> int) list \<Rightarrow> 'm log_point \<Rightarrow> (int \<times> 'm log_point) option" where
  "clear_partitions maxnum st st_id whole hit reset [] lp = Some (ALLRIGHT, lp)"
| "clear_partitions maxnum st st_id whole hit reset ((d, p) # ds) lp = do {
     (rel, lp1) \<leftarrow> clear_partition maxnum st st_id d p (whole d) (hit d) reset lp;
     if rel < 0 then Some (rel, lp1) else clear_partitions maxnum st st_id whole hit reset ds lp1
   }"

text \<open>
  The partitions visited: disks and partitions from the last to the first, the first entry of
  \<open>partitionID\<close> (the extended partition) left out. \<open>disk = -1\<close> stands for all disks.
\<close>

definition visited :: "int list list \<Rightarrow> (int \<Rightarrow> bool) \<Rightarrow> int \<Rightarrow> (int \<times> int) list" where
  "visited partitions format_ok disk =
     concat (map (\<lambda>i. if disk \<noteq> - 1 \<and> disk \<noteq> int i \<or> \<not> format_ok (int i) then []
                     else map (\<lambda>p. (int i, p)) (rev (drop 1 (partitions ! i))))
       (rev [0..<length partitions]))"

definition log_clear :: "nat \<Rightarrow> ('m \<Rightarrow> 'm log_point \<Rightarrow> (int \<times> 'm log_point) option) \<Rightarrow>
    (int \<Rightarrow> 'm log_point \<Rightarrow> (int \<times> 'm log_point) option) \<Rightarrow> int list list \<Rightarrow> (int \<Rightarrow> bool) \<Rightarrow> int \<Rightarrow>
    (int \<Rightarrow> 'm \<Rightarrow> bool) \<Rightarrow> ('m \<Rightarrow> 'm) \<Rightarrow> 'm log_point \<Rightarrow> (int \<times> 'm log_point) option" where
  "log_clear maxnum st st_id partitions format_ok disk hit reset lp =
     (if disk \<ge> int (length partitions) \<or> disk < - 1 then Some (ERROR, lp)
      else clear_partitions maxnum st st_id (\<lambda>i. disk = i) hit reset (visited partitions format_ok disk) lp)"

section \<open>The ring\<close>

text \<open>A log whose counters fit its table, and its entries from the oldest to the newest.\<close>

definition log_ok :: "nat \<Rightarrow> 'm mlog \<Rightarrow> bool" where
  "log_ok maxnum b \<longleftrightarrow> 0 \<le> use_id b \<and> use_id b < use_total b \<and> use_total b \<le> int maxnum \<and>
     length (messages b) = maxnum"

definition recent :: "'m mlog \<Rightarrow> 'm list" where
  "recent b = rotate (nat (use_id b)) (take (nat (use_total b)) (messages b))"

definition ring_put :: "'m \<Rightarrow> 'm mlog \<Rightarrow> 'm mlog" where
  "ring_put m b = b\<lparr>messages := (messages b)[nat (use_id b) := m], use_id := next_id b\<rparr>"

text \<open>What every log module promises its callers, for the entries that \<open>fits\<close> it.\<close>

locale ring_log =
  fixes good :: "'d \<Rightarrow> bool" and view :: "'d \<Rightarrow> 'm list" and put :: "'m \<Rightarrow> 'd \<Rightarrow> 'd" and fits :: "'m \<Rightarrow> bool"
  assumes good_put: "good d \<Longrightarrow> good (put m d)"
    and view_put: "good d \<Longrightarrow> fits m \<Longrightarrow> view (put m d) = tl (view d) @ [m]"
    and view_nonempty: "good d \<Longrightarrow> view d \<noteq> []"
begin

lemma good_puts: "good d \<Longrightarrow> good (fold put ms d)"
  by (induction ms arbitrary: d) (simp_all add: good_put)

lemma length_view_put: "good d \<Longrightarrow> fits m \<Longrightarrow> length (view (put m d)) = length (view d)"
  using view_nonempty [of d] by (simp add: view_put)

text \<open>After any number of entries the log shows the newest ones, oldest first.\<close>

lemma view_puts: "good d \<Longrightarrow> list_all fits ms \<Longrightarrow> view (fold put ms d) = drop (length ms) (view d @ ms)"
proof (induction ms arbitrary: d)
  case (Cons m ms)
  then have "view (fold put (m # ms) d) = drop (length ms) (view (put m d) @ ms)"
    by (simp add: good_put)
  also have "\<dots> = drop (Suc (length ms)) (view d @ m # ms)"
    using view_put [OF Cons.prems(1), of m] Cons.prems(2) view_nonempty [OF Cons.prems(1)]
    by (cases "view d") simp_all
  finally show ?case by simp
qed simp

lemma last_view: "good d \<Longrightarrow> fits m \<Longrightarrow> last (view (put m d)) = m"
  by (simp add: view_put)

end

lemma log_ok_ring_put: "log_ok maxnum b \<Longrightarrow> log_ok maxnum (ring_put m b)"
  by (auto simp: log_ok_def ring_put_def next_id_def)

lemma recent_ring_put:
  assumes "log_ok maxnum b"
  shows "recent (ring_put m b) = tl (recent b) @ [m]"
proof -
  define i where "i = nat (use_id b)"
  define n where "n = nat (use_total b)"
  define L where "L = take n (messages b)"
  have i: "i < n" and n: "n \<le> length (messages b)" and lL: "length L = n"
    using assms by (auto simp: log_ok_def i_def n_def L_def)
  have "take n ((messages b)[i := m]) = L[i := m]" by (simp add: L_def take_update_swap)
  moreover have "rotate (nat (next_id b)) (L[i := m]) = rotate1 (rotate i (L[i := m]))"
  proof (cases "Suc i < n")
    case True
    then have "nat (next_id b) = Suc i" using assms by (auto simp: next_id_def log_ok_def i_def n_def)
    then show ?thesis by simp
  next
    case False
    then have "nat (next_id b) = 0" "Suc i = length (L[i := m])"
      using assms i lL by (auto simp: next_id_def log_ok_def i_def n_def)
    then show ?thesis by (metis rotate_Suc rotate0 rotate_conv_mod mod_self id_apply)
  qed
  moreover have "rotate i (L[i := m]) = m # drop (Suc i) L @ take i L"
    using i lL by (simp add: rotate_drop_take upd_conv_take_nth_drop nth_append)
  moreover have "tl (rotate i L) = drop (Suc i) L @ take i L"
    using i lL by (simp add: rotate_drop_take drop_Suc tl_drop Cons_nth_drop_Suc [symmetric])
  ultimately show ?thesis
    by (simp add: recent_def ring_put_def i_def [symmetric] n_def [symmetric] L_def [symmetric])
qed

lemma recent_nonempty: "log_ok maxnum b \<Longrightarrow> recent b \<noteq> []"
  by (auto simp: recent_def log_ok_def)

interpretation mlog: ring_log "log_ok maxnum" recent ring_put "\<lambda>m. True"
  by unfold_locales (simp_all add: log_ok_ring_put recent_ring_put recent_nonempty)


text \<open>The current entry, the next to be overwritten.\<close>

definition current :: "'m mlog \<Rightarrow> 'm" where
  "current b = messages b ! nat (use_id b)"

lemma recent_hd: "log_ok maxnum b \<Longrightarrow> hd (recent b) = current b"
  by (auto simp: recent_def current_def log_ok_def rotate_drop_take hd_append hd_drop_conv_nth)

text \<open>The newest entry.\<close>

definition prev_id :: "'m mlog \<Rightarrow> int" where
  "prev_id b = (if use_id b > 0 then use_id b - 1 else use_total b - 1)"

lemma recent_last:
  assumes "log_ok maxnum b"
  shows "last (recent b) = messages b ! nat (prev_id b)"
    and "recent (b\<lparr>messages := (messages b)[nat (prev_id b) := m]\<rparr>) = butlast (recent b) @ [m]"
proof -
  define i where "i = nat (prev_id b)"
  define n where "n = nat (use_total b)"
  define L where "L = take n (messages b)"
  have n: "0 < n" "n \<le> length (messages b)" "length L = n" and u: "nat (use_id b) < n"
    using assms by (auto simp: log_ok_def L_def n_def)
  have i: "i < n" using assms by (auto simp: log_ok_def i_def n_def prev_id_def)
  have mod: "nat (use_id b) = Suc i mod n"
  proof (cases "use_id b > 0")
    case True
    then have "Suc i = nat (use_id b)" by (simp add: i_def prev_id_def)
    then show ?thesis using u by simp
  next
    case False
    then have "Suc i = n" "nat (use_id b) = 0" using assms by (auto simp: i_def n_def prev_id_def log_ok_def)
    then show ?thesis by simp
  qed
  have L: "take n ((messages b)[i := m]) = L[i := m]" for m by (simp add: L_def take_update_swap)
  have r: "rotate (nat (use_id b)) (L[i := m]) = drop (Suc i) L @ take i L @ [m]" for m
  proof -
    have "rotate (Suc i) (L[i := m]) = drop (Suc i) L @ take i L @ [m]"
    proof (cases "Suc i = n")
      case True
      then have "rotate (Suc i) (L[i := m]) = L[i := m]" using n by (metis length_list_update rotate_id mod_self)
      then show ?thesis using True n by (simp add: upd_conv_take_nth_drop)
    next
      case False
      then show ?thesis using i n by (simp add: rotate_drop_take take_Suc_conv_app_nth del: rotate_Suc)
    qed
    then show ?thesis using mod n by (metis length_list_update rotate_conv_mod)
  qed
  have "recent b = drop (Suc i) L @ take i L @ [L ! i]"
    using r [of "L ! i"] by (simp add: recent_def L_def [symmetric] n_def [symmetric])
  moreover have "L ! i = messages b ! i" using i by (simp add: L_def)
  ultimately show "last (recent b) = messages b ! nat (prev_id b)"
    and "recent (b\<lparr>messages := (messages b)[nat (prev_id b) := m]\<rparr>) = butlast (recent b) @ [m]"
    using r [of m] by (simp_all add: i_def [symmetric] n_def [symmetric] recent_def L butlast_append)
qed

lemma prev_id_ring_put: "log_ok maxnum b \<Longrightarrow> prev_id (ring_put m b) = use_id b"
  by (auto simp: prev_id_def ring_put_def next_id_def log_ok_def)

section \<open>Buffer and file\<close>

text \<open>The file holds the log \<open>b\<close>.\<close>

definition file_holds :: "nat \<Rightarrow> 'm mlog \<Rightarrow> 'm mlog option \<Rightarrow> bool" where
  "file_holds maxnum b fo \<longleftrightarrow> (case fo of None \<Rightarrow> False
     | Some f \<Rightarrow> maxnum \<le> length (messages f) \<and> f\<lparr>messages := take maxnum (messages f)\<rparr> = b)"

text \<open>The buffer holds the log of partition \<open>(d, p)\<close>, and the file agrees with it.\<close>

definition holding :: "nat \<Rightarrow> int \<Rightarrow> int \<Rightarrow> 'm mlog \<Rightarrow> 'm log_point \<Rightarrow> bool" where
  "holding maxnum d p b lp \<longleftrightarrow> fileBuf lp = Some b \<and> pUseinfo lp \<and> iDiskId lp = d \<and> iPatitionId lp = p \<and>
     \<not> need_reload lp \<and> 0 \<le> d \<and> 5 \<le> p \<and> log_ok maxnum b \<and> file_holds maxnum b (log_files lp (d, p))"

text \<open>The log of \<open>(d, p)\<close> is \<open>b\<close>, in the buffer or only in its file.\<close>

definition log_at :: "nat \<Rightarrow> int \<Rightarrow> int \<Rightarrow> 'm mlog \<Rightarrow> 'm log_point \<Rightarrow> bool" where
  "log_at maxnum d p b lp \<longleftrightarrow> fileBuf lp \<noteq> None \<and> 0 \<le> d \<and> 5 \<le> p \<and> log_ok maxnum b \<and>
     file_holds maxnum b (log_files lp (d, p)) \<and>
     (iDiskId lp = d \<and> iPatitionId lp = p \<and> \<not> need_reload lp \<longrightarrow> holding maxnum d p b lp)"

lemma holding_log_at: "holding maxnum d p b lp \<Longrightarrow> log_at maxnum d p b lp"
  by (auto simp: holding_def log_at_def)

lemma next_answer_Nil [simp]: "answers lp = [] \<Longrightarrow> next_answer lp = (Complete, lp)"
  by (simp add: next_answer_def)

lemma log_fopen_Nil [simp]: "answers lp = [] \<Longrightarrow> log_fopen key lp = (log_files lp key, lp)"
  by (simp add: log_fopen_def)

text \<open>What a call may change besides the log it works on: nothing in the other files.\<close>

definition only_log :: "int \<Rightarrow> int \<Rightarrow> 'm log_point \<Rightarrow> 'm log_point \<Rightarrow> bool" where
  "only_log d p lp lp' \<longleftrightarrow> answers lp' = answers lp \<and> (\<forall>k. k \<noteq> (d, p) \<longrightarrow> log_files lp' k = log_files lp k)"

lemma only_log_refl [simp]: "only_log d p lp lp"
  by (simp add: only_log_def)

lemma only_log_trans [trans]: "only_log d p lp lp' \<Longrightarrow> only_log d p lp' lp'' \<Longrightarrow> only_log d p lp lp''"
  by (simp add: only_log_def)

lemma log_load_at:
  assumes "log_at maxnum d p b lp" and "answers lp = []"
  shows "log_load maxnum d p lp = (ALLRIGHT, lp\<lparr>fileBuf := Some b, pUseinfo := True, lp_id := use_id b,
    pFilePos := use_id b, iDiskId := d, iPatitionId := p\<rparr>)"
  using assms
  by (auto simp: log_load_def log_at_def file_holds_def split: option.splits)

lemma log_get_pos_at:
  assumes "log_at maxnum d p b lp" and "answers lp = []"
    and "0 \<le> i" and "i < use_total b"
  shows "\<exists>lp'. log_get_pos maxnum d p i lp = Some (True, lp') \<and> holding maxnum d p b lp' \<and>
    pFilePos lp' = i \<and> lp_id lp' = i \<and> only_log d p lp lp' \<and> iFirst lp' = iFirst lp"
proof (cases "iDiskId lp = d \<and> iPatitionId lp = p \<and> \<not> need_reload lp")
  case True
  then have h: "holding maxnum d p b lp" using assms(1) by (simp add: log_at_def)
  then have "log_get_pos maxnum d p i lp = Some (True, lp\<lparr>pFilePos := i, lp_id := i\<rparr>)"
    using True assms(3,4) by (simp add: log_get_pos_def holding_def use_info_def)
  then show ?thesis using h by (auto simp: holding_def only_log_def)
next
  case False
  have "log_get_pos maxnum d p i lp = Some (True, lp\<lparr>fileBuf := Some b, pUseinfo := True,
      iDiskId := d, iPatitionId := p, need_reload := False, pFilePos := i, lp_id := i\<rparr>)"
    using False assms log_load_at [OF assms(1,2)]
    by (auto simp: log_get_pos_def log_at_def use_info_def)
  then show ?thesis using assms(1) by (auto simp: holding_def log_at_def only_log_def)
qed

text \<open>A position outside the table, or a partition without a log.\<close>

lemma log_get_pos_outside:
  assumes "log_at maxnum d p b lp" and "answers lp = []" and "i < 0 \<or> use_total b \<le> i"
  shows "\<exists>lp'. log_get_pos maxnum d p i lp = Some (False, lp') \<and> holding maxnum d p b lp' \<and> only_log d p lp lp'"
proof (cases "iDiskId lp = d \<and> iPatitionId lp = p \<and> \<not> need_reload lp")
  case True
  then have h: "holding maxnum d p b lp" using assms(1) by (simp add: log_at_def)
  then have "log_get_pos maxnum d p i lp = Some (False, lp)"
    using True assms(3) by (auto simp: log_get_pos_def holding_def use_info_def)
  then show ?thesis using h by (auto simp: holding_def only_log_def)
next
  case False
  have "log_get_pos maxnum d p i lp = Some (False, lp\<lparr>fileBuf := Some b, pUseinfo := True,
      lp_id := use_id b, pFilePos := use_id b, iDiskId := d, iPatitionId := p, need_reload := False\<rparr>)"
    using False assms log_load_at [OF assms(1,2)]
    by (auto simp: log_get_pos_def log_at_def use_info_def)
  then show ?thesis using assms(1) by (auto simp: holding_def log_at_def only_log_def)
qed

lemma log_get_pos_no_file:
  assumes "answers lp = []" and "log_files lp (d, p) = None"
    and "d \<noteq> iDiskId lp \<or> p \<noteq> iPatitionId lp \<or> need_reload lp"
  shows "log_get_pos maxnum d p i lp = Some (False, lp)"
  using assms
  by (auto simp: log_get_pos_def log_load_def rel_codes split: option.splits)

text \<open>Storing an entry: the message is set in the buffer and written through.\<close>

lemma cur_msg_holding:
  assumes "holding maxnum d p b lp" and "0 \<le> pFilePos lp" and "pFilePos lp < use_total b"
  shows "cur_msg lp = Some (messages b ! nat (pFilePos lp))"
  using assms by (auto simp: cur_msg_def holding_def log_ok_def)

lemma put_entry_holds:
  assumes "file_holds maxnum b (Some f)" and "0 \<le> i" and "nat i < maxnum"
  shows "file_holds maxnum (b\<lparr>messages := (messages b)[nat i := m]\<rparr>) (Some (put_entry z i m f))"
proof -
  have "replicate (Suc (nat i) - length (messages f)) z = []" using assms by (auto simp: file_holds_def)
  then have "put_entry z i m f = f\<lparr>messages := (messages f)[nat i := m]\<rparr>"
    by (simp add: put_entry_def)
  then show ?thesis using assms by (auto simp: file_holds_def take_update_swap)
qed

lemma log_store_msg:
  assumes h: "holding maxnum d p b lp" and a: "answers lp = []"
    and i: "0 \<le> pFilePos lp" "pFilePos lp < use_total b" "lp_id lp = pFilePos lp"
  shows "\<exists>lp1 lp2. set_msg m lp = Some lp1 \<and> log_write_msg z lp1 = Some (ALLRIGHT, lp2) \<and>
    holding maxnum d p (b\<lparr>messages := (messages b)[nat (pFilePos lp) := m]\<rparr>) lp2 \<and>
    only_log d p lp lp2 \<and> pFilePos lp2 = pFilePos lp \<and> lp_id lp2 = lp_id lp"
proof -
  let ?b = "b\<lparr>messages := (messages b)[nat (pFilePos lp) := m]\<rparr>"
  have len: "nat (pFilePos lp) < maxnum" "length (messages b) = maxnum"
    using h i by (auto simp: holding_def log_ok_def)
  obtain f where f: "log_files lp (d, p) = Some f" "file_holds maxnum b (Some f)"
    using h by (auto simp: holding_def file_holds_def split: option.splits)
  have s: "set_msg m lp = Some (lp\<lparr>fileBuf := Some ?b\<rparr>)"
    using h i len by (simp add: set_msg_def holding_def)
  have w: "log_write_msg z (lp\<lparr>fileBuf := Some ?b\<rparr>) = Some (ALLRIGHT, lp\<lparr>fileBuf := Some ?b,
      log_files := (log_files lp)((d, p) \<mapsto> put_entry z (lp_id lp) m f)\<rparr>)"
    using h i len a f by (simp add: log_write_msg_def cur_msg_def holding_def Let_def)
  have "log_ok maxnum ?b" using h by (auto simp: holding_def log_ok_def)
  then have "holding maxnum d p ?b (lp\<lparr>fileBuf := Some ?b,
      log_files := (log_files lp)((d, p) \<mapsto> put_entry z (lp_id lp) m f)\<rparr>)"
    using h i len put_entry_holds [OF f(2) i(1) len(1)] by (simp add: holding_def)
  with s w show ?thesis by (auto simp: only_log_def)
qed

lemma log_store_use:
  assumes h: "holding maxnum d p b lp" and a: "answers lp = []" and i: "0 \<le> i" "i < use_total b"
  shows "\<exists>lp1 lp2. set_use_id i lp = Some lp1 \<and> log_write_use lp1 = Some (ALLRIGHT, lp2) \<and>
    holding maxnum d p (b\<lparr>use_id := i\<rparr>) lp2 \<and> only_log d p lp lp2 \<and>
    pFilePos lp2 = pFilePos lp \<and> lp_id lp2 = lp_id lp"
proof -
  let ?b = "b\<lparr>use_id := i\<rparr>"
  obtain f where f: "log_files lp (d, p) = Some f" "file_holds maxnum b (Some f)"
    using h by (auto simp: holding_def file_holds_def split: option.splits)
  have s: "set_use_id i lp = Some (lp\<lparr>fileBuf := Some ?b\<rparr>)"
    using h by (simp add: set_use_id_def use_info_def holding_def)
  have w: "log_write_use (lp\<lparr>fileBuf := Some ?b\<rparr>) = Some (ALLRIGHT, lp\<lparr>fileBuf := Some ?b,
      log_files := (log_files lp)((d, p) \<mapsto> f\<lparr>use_id := i, use_total := use_total b\<rparr>)\<rparr>)"
    using h a f by (simp add: log_write_use_def use_info_def holding_def Let_def)
  have "log_ok maxnum ?b" using h i by (auto simp: holding_def log_ok_def)
  moreover have "file_holds maxnum ?b (Some (f\<lparr>use_id := i, use_total := use_total b\<rparr>))"
    using f(2) by (auto simp: file_holds_def)
  ultimately show ?thesis using h s w by (auto simp: holding_def only_log_def)
qed

text \<open>The whole step: current entry replaced and written, counter moved on and written.\<close>

lemma next_id_ok: "log_ok maxnum b \<Longrightarrow> 0 \<le> next_id b \<and> next_id b < use_total b"
  by (auto simp: next_id_def log_ok_def)

lemma log_ok_ids: "log_ok maxnum b \<Longrightarrow> 0 \<le> use_id b \<and> use_id b < use_total b \<and> 0 < use_total b"
  by (auto simp: log_ok_def)

text \<open>
  Positioning on entry 0 and then on the current one, which all writers begin with, ends at the
  current entry of the log.
\<close>

lemma log_go_current:
  assumes "log_at maxnum d p b lp" and "answers lp = []"
  shows "\<exists>lp1 lp2. log_get_pos maxnum d p 0 lp = Some (True, lp1) \<and> use_info lp1 = Some b \<and>
    log_get_pos maxnum d p (use_id b) lp1 = Some (True, lp2) \<and> holding maxnum d p b lp2 \<and>
    pFilePos lp2 = use_id b \<and> lp_id lp2 = use_id b \<and> only_log d p lp lp2 \<and>
    cur_msg lp2 = Some (current b)"
proof -
  have ok: "log_ok maxnum b" using assms(1) by (simp add: log_at_def)
  obtain lp1 where 1: "log_get_pos maxnum d p 0 lp = Some (True, lp1)" "holding maxnum d p b lp1"
      "only_log d p lp lp1"
    using log_get_pos_at [OF assms] log_ok_ids [OF ok] by blast
  have a1: "answers lp1 = []" using 1(3) assms(2) by (simp add: only_log_def)
  obtain lp2 where 2: "log_get_pos maxnum d p (use_id b) lp1 = Some (True, lp2)" "holding maxnum d p b lp2"
      "pFilePos lp2 = use_id b" "lp_id lp2 = use_id b" "only_log d p lp1 lp2"
    using log_get_pos_at [OF holding_log_at [OF 1(2)] a1] log_ok_ids [OF ok] by blast
  have "use_info lp1 = Some b" using 1(2) by (simp add: use_info_def holding_def)
  moreover have "cur_msg lp2 = Some (current b)"
    using cur_msg_holding [OF 2(2)] 2(3) log_ok_ids [OF ok] by (simp add: current_def)
  ultimately show ?thesis using 1 2 only_log_trans [OF 1(3) 2(5)] by blast
qed

text \<open>Storing the current entry, and moving on.\<close>

lemma log_store_current:
  assumes "holding maxnum d p b lp" and "answers lp = []" and "pFilePos lp = use_id b" and "lp_id lp = use_id b"
  shows "\<exists>lp1 lp2. set_msg m lp = Some lp1 \<and> log_write_msg z lp1 = Some (ALLRIGHT, lp2) \<and>
    holding maxnum d p (b\<lparr>messages := (messages b)[nat (use_id b) := m]\<rparr>) lp2 \<and> only_log d p lp lp2 \<and>
    use_info lp2 = Some (b\<lparr>messages := (messages b)[nat (use_id b) := m]\<rparr>)"
proof -
  have "log_ok maxnum b" using assms(1) by (simp add: holding_def)
  then obtain lp1 lp2 where *: "set_msg m lp = Some lp1" "log_write_msg z lp1 = Some (ALLRIGHT, lp2)"
    "holding maxnum d p (b\<lparr>messages := (messages b)[nat (use_id b) := m]\<rparr>) lp2" "only_log d p lp lp2"
    using log_store_msg [OF assms(1,2), of m z] log_ok_ids assms(3,4) by fastforce
  then have "use_info lp2 = Some (b\<lparr>messages := (messages b)[nat (use_id b) := m]\<rparr>)"
    by (simp add: use_info_def holding_def)
  with * show ?thesis by blast
qed

lemma log_move_on:
  assumes "holding maxnum d p (b\<lparr>messages := (messages b)[nat (use_id b) := m]\<rparr>) lp" and "answers lp = []"
  shows "\<exists>lp1 lp2. set_use_id (next_id (b\<lparr>messages := (messages b)[nat (use_id b) := m]\<rparr>)) lp = Some lp1 \<and>
    log_write_use lp1 = Some (ALLRIGHT, lp2) \<and>
    holding maxnum d p (ring_put m b) lp2 \<and> only_log d p lp lp2"
proof -
  let ?b = "b\<lparr>messages := (messages b)[nat (use_id b) := m]\<rparr>"
  have "log_ok maxnum ?b" using assms(1) by (simp add: holding_def)
  then have n: "0 \<le> next_id ?b" "next_id ?b < use_total ?b" using next_id_ok by blast+
  have "?b\<lparr>use_id := next_id ?b\<rparr> = ring_put m b" by (simp add: ring_put_def next_id_def)
  then show ?thesis using log_store_use [OF assms n] by force
qed

lemma only_log_answers: "only_log d p lp lp' \<Longrightarrow> answers lp = [] \<Longrightarrow> answers lp' = []"
  by (simp add: only_log_def)

section \<open>Creation\<close>

lemma create_entries_Nil:
  assumes "answers lp = []" and "log_files lp k = Some f"
  shows "create_entries k disk es lp = (ALLRIGHT, lp\<lparr>log_files := (log_files lp)(k \<mapsto> f\<lparr>messages := messages f @ es\<rparr>)\<rparr>)"
  using assms
proof (induction es arbitrary: lp f)
  case Nil
  then have "(log_files lp)(k \<mapsto> f\<lparr>messages := messages f @ []\<rparr>) = log_files lp" by auto
  then show ?case by simp
next
  case (Cons e es)
  have "(log_files lp)(k \<mapsto> f', k \<mapsto> g) = (log_files lp)(k \<mapsto> g)" for f' g by simp
  then show ?case
    using Cons.IH [of "lp\<lparr>log_files := (log_files lp)(k \<mapsto> f\<lparr>messages := messages f @ [e]\<rparr>)\<rparr>"
        "f\<lparr>messages := messages f @ [e]\<rparr>"] Cons.prems
    by (simp add: Let_def fun_upd_same del: fun_upd_apply)
qed

lemma log_create_Nil:
  assumes "answers lp = []"
  shows "log_create disk part es lp = (ALLRIGHT, lp\<lparr>log_files := (log_files lp)
    ((disk, part) \<mapsto> \<lparr>use_id = 0, use_total = int (length es), messages = es\<rparr>)\<rparr>)"
  using assms create_entries_Nil [of "lp\<lparr>log_files := (log_files lp)
    ((disk, part) \<mapsto> \<lparr>use_id = 0, use_total = int (length es), messages = []\<rparr>)\<rparr>" "(disk, part)"
      "\<lparr>use_id = 0, use_total = int (length es), messages = []\<rparr>" disk es]
  by (simp add: log_create_def Let_def)

text \<open>A new log is found when it is not the one in the buffer, or the reload flag is set.\<close>

lemma log_create_at:
  assumes "answers lp = []" and "fileBuf lp \<noteq> None" and "0 \<le> disk" and "5 \<le> part" and "es \<noteq> []"
    and "iDiskId lp \<noteq> disk \<or> iPatitionId lp \<noteq> part \<or> need_reload lp"
  shows "\<exists>lp'. log_create disk part es lp = (ALLRIGHT, lp') \<and> answers lp' = [] \<and>
    log_at (length es) disk part \<lparr>use_id = 0, use_total = int (length es), messages = es\<rparr> lp'"
  using assms by (auto simp: log_create_Nil log_at_def log_ok_def file_holds_def)

text \<open>Whatever the writes answer: \<open>ALLRIGHT\<close> is only returned for a complete file.\<close>

lemma next_answer_files: "next_answer lp = (a, lp') \<Longrightarrow> log_files lp' = log_files lp"
  by (auto simp: next_answer_def split: list.splits)

lemma create_entries_complete:
  assumes "create_entries k disk es lp = (ALLRIGHT, lp')" and "disk \<noteq> ALLRIGHT" and "log_files lp k = Some f"
  shows "log_files lp' k = Some (f\<lparr>messages := messages f @ es\<rparr>)"
  using assms
proof (induction es arbitrary: lp f)
  case (Cons e es)
  obtain a lp1 where n: "next_answer lp = (a, lp1)" by fastforce
  let ?lp = "lp1\<lparr>log_files := (log_files lp1)(k := map_option (\<lambda>f. f\<lparr>messages := messages f @ [e]\<rparr>) (log_files lp1 k))\<rparr>"
  have "create_entries k disk es ?lp = (ALLRIGHT, lp')"
    using Cons.prems(1,2) n by (cases a) (auto simp: Let_def)
  then show ?case
    using Cons.IH [of ?lp "f\<lparr>messages := messages f @ [e]\<rparr>"] Cons.prems(2,3) next_answer_files [OF n] by simp
qed simp

lemma log_create_complete:
  assumes "log_create disk part es lp = (ALLRIGHT, lp')" and "disk \<noteq> ALLRIGHT"
  shows "log_files lp' (disk, part) = Some \<lparr>use_id = 0, use_total = int (length es), messages = es\<rparr>"
proof -
  obtain a lp1 where 1: "next_answer lp = (a, lp1)" by fastforce
  obtain a' lp2 where 2: "next_answer lp1 = (a', lp2)" by fastforce
  let ?f = "\<lparr>use_id = 0, use_total = int (length es), messages = []\<rparr>"
  have "create_entries (disk, part) disk es (lp2\<lparr>log_files := (log_files lp2)((disk, part) \<mapsto> ?f)\<rparr>) = (ALLRIGHT, lp')"
    using assms 1 2 by (cases a; cases a') (auto simp: log_create_def Let_def rel_codes)
  from create_entries_complete [OF this assms(2)] show ?thesis by simp
qed

section \<open>Any answers\<close>

text \<open>Whatever the calls answer, a step changes no other file than that of the log in the buffer.\<close>

definition same_files :: "int \<times> int \<Rightarrow> 'm log_point \<Rightarrow> 'm log_point \<Rightarrow> bool" where
  "same_files k lp lp' \<longleftrightarrow> (\<forall>k'. k' \<noteq> k \<longrightarrow> log_files lp' k' = log_files lp k')"

definition log_key :: "'m log_point \<Rightarrow> int \<times> int" where
  "log_key lp = (iDiskId lp, iPatitionId lp)"

lemma same_files_refl [simp]: "same_files k lp lp"
  by (simp add: same_files_def)

lemma same_files_trans [trans]: "same_files k lp lp' \<Longrightarrow> same_files k lp' lp'' \<Longrightarrow> same_files k lp lp''"
  by (simp add: same_files_def)

lemma next_answer_keeps: "next_answer lp = (a, lp') \<Longrightarrow>
    log_files lp' = log_files lp \<and> fileBuf lp' = fileBuf lp \<and> log_key lp' = log_key lp \<and>
    pUseinfo lp' = pUseinfo lp \<and> pFilePos lp' = pFilePos lp \<and> lp_id lp' = lp_id lp"
  by (auto simp: next_answer_def log_key_def split: list.splits)

lemma log_fopen_keeps: "log_fopen k lp = (f, lp') \<Longrightarrow>
    log_files lp' = log_files lp \<and> fileBuf lp' = fileBuf lp \<and> log_key lp' = log_key lp \<and>
    pUseinfo lp' = pUseinfo lp \<and> pFilePos lp' = pFilePos lp \<and> lp_id lp' = lp_id lp"
  by (auto simp: log_fopen_def split: prod.splits dest!: next_answer_keeps)

lemma log_load_files: "log_load maxnum d p lp = (r, lp') \<Longrightarrow>
    log_files lp' = log_files lp \<and> (r = ALLRIGHT \<longrightarrow> log_key lp' = (d, p))"
  by (auto simp: log_load_def log_key_def rel_codes split: option.splits prod.splits stdio_answer.splits if_splits
    dest!: next_answer_keeps log_fopen_keeps)

lemma log_get_pos_files:
  "log_get_pos maxnum d p i lp = Some (ok, lp') \<Longrightarrow>
    log_files lp' = log_files lp \<and> (ok \<longrightarrow> log_key lp' = (d, p))"
  by (auto simp: log_get_pos_def Let_def bind_eq_Some_conv log_key_def split: if_splits prod.splits
    dest!: log_load_files)

lemma set_msg_files: "set_msg m lp = Some lp' \<Longrightarrow> log_files lp' = log_files lp \<and> log_key lp' = log_key lp"
  by (auto simp: set_msg_def log_key_def split: option.splits if_splits)

lemma set_use_id_files: "set_use_id i lp = Some lp' \<Longrightarrow> log_files lp' = log_files lp \<and> log_key lp' = log_key lp"
  by (auto simp: set_use_id_def log_key_def)

lemma log_write_msg_files:
  assumes "log_write_msg z lp = Some (r, lp')"
  shows "same_files (log_key lp) lp lp' \<and> log_key lp' = log_key lp"
proof -
  obtain fo lp1 where o: "log_fopen (iDiskId lp, iPatitionId lp) lp = (fo, lp1)" by fastforce
  obtain a lp2 where n: "next_answer lp1 = (a, lp2)" by fastforce
  show ?thesis
    using assms log_fopen_keeps [OF o] next_answer_keeps [OF n]
    by (cases fo; cases a)
      (auto simp: log_write_msg_def o n bind_eq_Some_conv Let_def same_files_def log_key_def split: list.splits)
qed

lemma log_write_use_files:
  assumes "log_write_use lp = Some (r, lp')"
  shows "same_files (log_key lp) lp lp' \<and> log_key lp' = log_key lp"
proof -
  obtain fo lp1 where o: "log_fopen (iDiskId lp, iPatitionId lp) lp = (fo, lp1)" by fastforce
  obtain a lp2 where n: "next_answer lp1 = (a, lp2)" by fastforce
  show ?thesis
    using assms log_fopen_keeps [OF o] next_answer_keeps [OF n]
    by (cases fo; cases a)
      (auto simp: log_write_use_def o n bind_eq_Some_conv Let_def same_files_def log_key_def split: list.splits)
qed

section \<open>Clearing\<close>

text \<open>The log after clearing, counters included.\<close>

definition reset_first :: "nat \<Rightarrow> ('m \<Rightarrow> bool) \<Rightarrow> ('m \<Rightarrow> 'm) \<Rightarrow> 'm list \<Rightarrow> 'm list" where
  "reset_first k hit reset ms = map (\<lambda>m. if hit m then reset m else m) (take k ms) @ drop k ms"

definition cleared_log :: "bool \<Rightarrow> ('m \<Rightarrow> bool) \<Rightarrow> ('m \<Rightarrow> 'm) \<Rightarrow> 'm mlog \<Rightarrow> 'm mlog" where
  "cleared_log whole hit reset b =
     b\<lparr>use_id := (if whole then 0 else use_id b),
       messages := reset_first (nat (use_total b)) hit reset (messages b)\<rparr>"

lemma reset_first_Suc:
  assumes "k < length ms"
  shows "reset_first k hit reset (if hit (ms ! k) then ms[k := reset (ms ! k)] else ms) =
    reset_first (Suc k) hit reset ms"
  using assms by (simp add: reset_first_def take_Suc_conv_app_nth Cons_nth_drop_Suc [symmetric])

lemma length_reset_first [simp]: "length (reset_first k hit reset ms) = length ms"
  by (simp add: reset_first_def)

text \<open>What the clearing loops need of the functions that write.\<close>

locale log_writer =
  fixes maxnum :: nat and st :: "'m \<Rightarrow> 'm log_point \<Rightarrow> (int \<times> 'm log_point) option"
    and st_id :: "int \<Rightarrow> 'm log_point \<Rightarrow> (int \<times> 'm log_point) option"
  assumes stores: "holding maxnum d p b lp \<Longrightarrow> answers lp = [] \<Longrightarrow> 0 \<le> pFilePos lp \<Longrightarrow>
      pFilePos lp < use_total b \<Longrightarrow> lp_id lp = pFilePos lp \<Longrightarrow>
      \<exists>lp'. st m lp = Some (ALLRIGHT, lp') \<and>
        holding maxnum d p (b\<lparr>messages := (messages b)[nat (pFilePos lp) := m]\<rparr>) lp' \<and> only_log d p lp lp'"
    and stores_id: "holding maxnum d p b lp \<Longrightarrow> answers lp = [] \<Longrightarrow> 0 \<le> i \<Longrightarrow> i < use_total b \<Longrightarrow>
      0 \<le> pFilePos lp \<Longrightarrow> pFilePos lp < use_total b \<Longrightarrow>
      \<exists>lp'. st_id i lp = Some (ALLRIGHT, lp') \<and> holding maxnum d p (b\<lparr>use_id := i\<rparr>) lp' \<and> only_log d p lp lp'"
begin

lemma clear_entries_holding:
  assumes "holding maxnum d p b lp" and "answers lp = []" and "k \<le> nat (use_total b)"
  shows "\<exists>lp'. clear_entries maxnum st d p hit reset k lp = Some (ALLRIGHT, lp') \<and>
    holding maxnum d p (b\<lparr>messages := reset_first k hit reset (messages b)\<rparr>) lp' \<and> only_log d p lp lp'"
  using assms
proof (induction k arbitrary: b lp)
  case 0
  then show ?case by (simp add: reset_first_def)
next
  case (Suc k)
  have ok: "log_ok maxnum b" using Suc.prems(1) by (simp add: holding_def)
  have k: "int k < use_total b" "k < length (messages b)" using Suc.prems(3) ok by (auto simp: log_ok_def)
  obtain lp1 where 1: "log_get_pos maxnum d p (int k) lp = Some (True, lp1)" "holding maxnum d p b lp1"
      "pFilePos lp1 = int k" "lp_id lp1 = int k" "only_log d p lp lp1"
    using log_get_pos_at [OF holding_log_at [OF Suc.prems(1)] Suc.prems(2), of "int k"] k(1) by auto
  have a1: "answers lp1 = []" using 1(5) Suc.prems(2) by (rule only_log_answers)
  have m: "cur_msg lp1 = Some (messages b ! k)"
    using cur_msg_holding [OF 1(2)] 1(3) k(1) by simp
  show ?case
  proof (cases "hit (messages b ! k)")
    case False
    obtain lp' where "clear_entries maxnum st d p hit reset k lp1 = Some (ALLRIGHT, lp')"
        "holding maxnum d p (b\<lparr>messages := reset_first k hit reset (messages b)\<rparr>) lp'" "only_log d p lp1 lp'"
      using Suc.IH [OF 1(2) a1] Suc.prems(3) by auto
    then show ?thesis
      using 1 m False reset_first_Suc [OF k(2), of hit reset] only_log_trans [OF 1(5)]
      by (intro exI [of _ lp']) simp
  next
    case True
    let ?b = "b\<lparr>messages := (messages b)[k := reset (messages b ! k)]\<rparr>"
    obtain lp2 where 2: "st (reset (messages b ! k)) lp1 = Some (ALLRIGHT, lp2)"
        "holding maxnum d p ?b lp2" "only_log d p lp1 lp2"
      using stores [OF 1(2) a1, of "reset (messages b ! k)"] 1(3,4) k(1) by auto
    have a2: "answers lp2 = []" using 2(3) a1 by (rule only_log_answers)
    obtain lp' where 3: "clear_entries maxnum st d p hit reset k lp2 = Some (ALLRIGHT, lp')"
        "holding maxnum d p (?b\<lparr>messages := reset_first k hit reset (messages ?b)\<rparr>) lp'" "only_log d p lp2 lp'"
      using Suc.IH [OF 2(2) a2] Suc.prems(3) by auto
    have "only_log d p lp lp'"
      using 1(5) 2(3) 3(3) only_log_trans by blast
    then show ?thesis
      using 1 2 3 m True reset_first_Suc [OF k(2), of hit reset]
      by (intro exI [of _ lp']) (simp add: rel_codes)
  qed
qed

lemma clear_partition_at:
  assumes "log_at maxnum d p b lp" and "answers lp = []"
  shows "\<exists>lp'. clear_partition maxnum st st_id d p whole hit reset lp = Some (ALLRIGHT, lp') \<and>
    holding maxnum d p (cleared_log whole hit reset b) lp' \<and> only_log d p lp lp'"
proof -
  have ok: "log_ok maxnum b" using assms(1) by (simp add: log_at_def)
  obtain lp1 where 1: "log_get_pos maxnum d p 0 lp = Some (True, lp1)" "holding maxnum d p b lp1"
      "pFilePos lp1 = 0" "only_log d p lp lp1"
    using log_get_pos_at [OF assms] log_ok_ids [OF ok] by blast
  have a1: "answers lp1 = []" using 1(4) assms(2) by (rule only_log_answers)
  let ?b = "b\<lparr>use_id := (if whole then 0 else use_id b)\<rparr>"
  have "\<exists>lp2. (if whole then st_id 0 lp1 else Some (ALLRIGHT, lp1)) = Some (ALLRIGHT, lp2) \<and>
      holding maxnum d p ?b lp2 \<and> only_log d p lp1 lp2"
    using stores_id [OF 1(2) a1, of 0] log_ok_ids [OF ok] 1(2,3) by (cases whole) auto
  then obtain lp2 where 2: "(if whole then st_id 0 lp1 else Some (ALLRIGHT, lp1)) = Some (ALLRIGHT, lp2)"
      "holding maxnum d p ?b lp2" "only_log d p lp1 lp2" by blast
  have a2: "answers lp2 = []" using 2(3) a1 by (rule only_log_answers)
  have u: "use_info lp2 = Some ?b" using 2(2) by (simp add: use_info_def holding_def)
  obtain lp' where 3: "clear_entries maxnum st d p hit reset (nat (use_total b)) lp2 = Some (ALLRIGHT, lp')"
      "holding maxnum d p (cleared_log whole hit reset b) lp'" "only_log d p lp2 lp'"
    using clear_entries_holding [OF 2(2) a2, of "nat (use_total b)" hit reset] by (auto simp: cleared_log_def)
  have "only_log d p lp lp'" using 1(4) 2(3) 3(3) only_log_trans by blast
  then show ?thesis
    using 1 2(1) 3 u by (intro exI [of _ lp']) (simp add: clear_partition_def rel_codes)
qed

lemma holding_others:
  assumes "holding maxnum d p b lp'" and "log_at maxnum d' p' b' lp" and "only_log d p lp lp'"
    and "(d', p') \<noteq> (d, p)"
  shows "log_at maxnum d' p' b' lp'"
  using assms by (auto simp: holding_def log_at_def only_log_def)

text \<open>All partitions of the list are cleared, every other one keeps its log.\<close>

lemma clear_partitions_at:
  assumes "\<And>d p. (d, p) \<in> set ds \<Longrightarrow> log_at maxnum d p (B (d, p)) lp" and "answers lp = []" and "distinct ds"
  shows "\<exists>lp'. clear_partitions maxnum st st_id whole hit reset ds lp = Some (ALLRIGHT, lp') \<and> answers lp' = [] \<and>
    (\<forall>(d, p) \<in> set ds. log_at maxnum d p (cleared_log (whole d) (hit d) reset (B (d, p))) lp') \<and>
    (\<forall>d p b. (d, p) \<notin> set ds \<longrightarrow> log_at maxnum d p b lp \<longrightarrow> log_at maxnum d p b lp')"
  using assms
proof (induction ds arbitrary: lp)
  case Nil
  then show ?case by simp
next
  case (Cons k ds)
  obtain d p where k: "k = (d, p)" by fastforce
  obtain lp1 where 1: "clear_partition maxnum st st_id d p (whole d) (hit d) reset lp = Some (ALLRIGHT, lp1)"
      "holding maxnum d p (cleared_log (whole d) (hit d) reset (B (d, p))) lp1" "only_log d p lp lp1"
    using clear_partition_at [of d p "B (d, p)" lp "whole d" "hit d" reset] Cons.prems(1,2) k by auto
  have a1: "answers lp1 = []" using 1(3) Cons.prems(2) by (rule only_log_answers)
  have keep: "log_at maxnum d' p' b lp1" if "log_at maxnum d' p' b lp" "(d', p') \<noteq> (d, p)" for d' p' b
    using holding_others [OF 1(2) that(1) 1(3) that(2)] .
  have "log_at maxnum d' p' (B (d', p')) lp1" if "(d', p') \<in> set ds" for d' p'
    using keep Cons.prems(1) [of d' p'] that Cons.prems(3) k by auto
  from Cons.IH [OF this a1] Cons.prems(3) obtain lp' where
    3: "clear_partitions maxnum st st_id whole hit reset ds lp1 = Some (ALLRIGHT, lp')" "answers lp' = []"
      "\<And>d p. (d, p) \<in> set ds \<Longrightarrow> log_at maxnum d p (cleared_log (whole d) (hit d) reset (B (d, p))) lp'"
      "\<And>d p b. (d, p) \<notin> set ds \<Longrightarrow> log_at maxnum d p b lp1 \<Longrightarrow> log_at maxnum d p b lp'"
    by force
  have "(d, p) \<notin> set ds" using Cons.prems(3) k by simp
  then have "log_at maxnum d p (cleared_log (whole d) (hit d) reset (B (d, p))) lp'"
    using 3(4) holding_log_at [OF 1(2)] by blast
  then show ?case
    using 1 3 keep k by (intro exI [of _ lp']) (auto simp: rel_codes)
qed

end

lemma log_writer_store: "log_writer maxnum (store_msg z) store_id"
proof
  fix d p and b :: "'a mlog" and lp m
  assume h: "holding maxnum d p b lp" "answers lp = []" "0 \<le> pFilePos lp" "pFilePos lp < use_total b"
    "lp_id lp = pFilePos lp"
  show "\<exists>lp'. store_msg z m lp = Some (ALLRIGHT, lp') \<and>
      holding maxnum d p (b\<lparr>messages := (messages b)[nat (pFilePos lp) := m]\<rparr>) lp' \<and> only_log d p lp lp'"
    using log_store_msg [OF h, of m z] by (auto simp: store_msg_def)
next
  fix d p and b :: "'a mlog" and lp i
  assume h: "holding maxnum d p b lp" "answers lp = []" "0 \<le> i" "i < use_total b"
  show "\<exists>lp'. store_id i lp = Some (ALLRIGHT, lp') \<and> holding maxnum d p (b\<lparr>use_id := i\<rparr>) lp' \<and> only_log d p lp lp'"
    using log_store_use [OF h] by (auto simp: store_id_def)
qed

interpretation direct: log_writer maxnum "store_msg z" store_id
  by (rule log_writer_store)

lemma visited_distinct:
  assumes "\<And>ps. ps \<in> set partitions \<Longrightarrow> distinct ps"
  shows "distinct (visited partitions format_ok disk)"
proof -
  have *: "distinct (concat (map (\<lambda>i. if disk \<noteq> - 1 \<and> disk \<noteq> int i \<or> \<not> format_ok (int i) then []
      else map (\<lambda>p. (int i, p)) (rev (drop 1 (partitions ! i)))) is))"
    if "distinct is" "\<And>i. i \<in> set is \<Longrightarrow> i < length partitions" for "is" :: "nat list"
    using that
  proof (induction "is")
    case (Cons i js)
    have "distinct (partitions ! i)" using Cons.prems assms by simp
    then have "distinct (map (\<lambda>p. (int i, p)) (rev (drop 1 (partitions ! i))))"
      by (simp add: distinct_map inj_on_def distinct_drop)
    moreover have "(int i, p) \<notin> set (concat (map (\<lambda>i. if disk \<noteq> - 1 \<and> disk \<noteq> int i \<or> \<not> format_ok (int i) then []
      else map (\<lambda>p. (int i, p)) (rev (drop 1 (partitions ! i)))) js))" for p
      using Cons.prems(1) by (auto split: if_splits)
    ultimately show ?case using Cons by auto
  qed simp
  show ?thesis unfolding visited_def by (rule *) simp_all
qed

section \<open>A failed change of partition\<close>

text \<open>
  When the read of another partition's log stops part way, the buffer still counts as the old
  partition's, whose entries are then taken from what was read.
\<close>

lemma torn_load:
  assumes h: "holding maxnum d p b lp" and a: "answers lp = [Complete, Torn t]"
    and o: "0 \<le> d'" "5 \<le> p'" "(d', p') \<noteq> (d, p)" "log_files lp (d', p') \<noteq> None"
    and i: "0 \<le> i" "i < use_total t"
  shows "\<exists>lp1 lp2. log_get_pos maxnum d' p' j lp = Some (False, lp1) \<and>
    log_get_pos maxnum d p i lp1 = Some (True, lp2) \<and> fileBuf lp2 = Some (overwritten t b) \<and>
    log_files lp2 (d, p) = log_files lp (d, p)"
proof -
  let ?lp = "lp\<lparr>answers := [], fileBuf := Some (overwritten t b)\<rparr>"
  have "log_load maxnum d' p' lp = (FILEERROR, ?lp)"
    using h a o by (auto simp: log_load_def log_fopen_def next_answer_def holding_def)
  then have 1: "log_get_pos maxnum d' p' j lp = Some (False, ?lp)"
    using h o by (auto simp: log_get_pos_def holding_def Let_def rel_codes)
  have "log_get_pos maxnum d p i ?lp = Some (True, ?lp\<lparr>pFilePos := i, lp_id := i\<rparr>)"
    using h i by (simp add: log_get_pos_def holding_def Let_def use_info_def overwritten_def)
  with 1 show ?thesis by auto
qed

section \<open>A module at its start\<close>

text \<open>The buffer has been allocated, and partition 5 of disk 0 has a log of \<open>n\<close> equal entries.\<close>

definition full_log :: "nat \<Rightarrow> 'm \<Rightarrow> int \<Rightarrow> 'm mlog" where
  "full_log n z i = \<lparr>use_id = i, use_total = int n, messages = replicate n z\<rparr>"

definition fresh_point :: "nat \<Rightarrow> 'm \<Rightarrow> int \<Rightarrow> 'm log_point" where
  "fresh_point n z i = \<lparr>iDiskId = 0, iPatitionId = 0, lp_id = 0, pUseinfo = False, pFilePos = 0,
     fileBuf = Some (full_log n z 0), iFirst = False, need_reload = False,
     log_files = [(0, 5) \<mapsto> full_log n z i], answers = []\<rparr>"

lemma log_at_fresh: "0 \<le> i \<Longrightarrow> i < int n \<Longrightarrow> log_at n 0 5 (full_log n z i) (fresh_point n z i)"
  by (simp add: log_at_def fresh_point_def full_log_def log_ok_def file_holds_def)

lemma answers_fresh [simp]: "answers (fresh_point n z i) = []"
  by (simp add: fresh_point_def)

end
