(* ===== verification/Record_Log.thy ===== *)
theory Record_Log
  imports Message_Log
begin

text \<open>
  The recording logs of \<open>src/FileSystem/filesystem/FSrecordop.c\<close>: \<open>record.log\<close> (one entry per
  recording), \<open>recordadd.log\<close> (changes of the channels within a recording) and
  \<open>recordtime.log\<close> (time marks), with the functions of \<open>FSfileoperate.c\<close> that create and
  clear them. Times are \<open>int\<close>, a \<open>char\<close> is a byte, an \<open>unsigned long\<close> a 32-bit word.
\<close>

unbundle bit_operations_syntax

section \<open>Entries\<close>

definition MAXTIMESTICKMESSAGENUMBER :: nat where "MAXTIMESTICKMESSAGENUMBER = 10000"
definition MAXADDMESSAGENUMBER :: nat where "MAXADDMESSAGENUMBER = 10000"

record record_message =
  rm_id :: int
  rm_startTime :: int
  rm_endTime :: int
  rm_iDataEffect :: int
  rm_filePos :: int
  rm_iCam :: int
  rm_ulOffSet :: u32
  rm_videoStandard :: byte
  rm_imageSize :: byte
  rm_rec_mode :: byte
  rm_have_add_info :: byte
  rm_rec_size :: u32

record rec_add_message =
  ra_rec_log_id :: int
  ra_startTime :: int
  ra_iCam :: int
  ra_rec_size :: u32
  ra_filePos :: int
  ra_rec_log_time :: int

record time_stick_message =
  ts_startTime :: int
  ts_iCam :: int
  ts_videoStandard :: byte
  ts_imageSize :: byte

text \<open>The structures made of zero bytes.\<close>

definition record_zero :: record_message where
  "record_zero = \<lparr>rm_id = 0, rm_startTime = 0, rm_endTime = 0, rm_iDataEffect = 0, rm_filePos = 0, rm_iCam = 0,
     rm_ulOffSet = 0, rm_videoStandard = 0, rm_imageSize = 0, rm_rec_mode = 0, rm_have_add_info = 0, rm_rec_size = 0\<rparr>"

definition add_zero :: rec_add_message where
  "add_zero = \<lparr>ra_rec_log_id = 0, ra_startTime = 0, ra_iCam = 0, ra_rec_size = 0, ra_filePos = 0, ra_rec_log_time = 0\<rparr>"

definition stick_zero :: time_stick_message where
  "stick_zero = \<lparr>ts_startTime = 0, ts_iCam = 0, ts_videoStandard = 0, ts_imageSize = 0\<rparr>"

section \<open>State\<close>

text \<open>
  The three logs and the globals the functions use: \<open>g_stLogPos\<close>, \<open>g_stRecFilePos.iCurFilePos\<close>,
  \<open>g_RecMode\<close> and \<open>rec_file_size\<close>.
\<close>

record recorder =
  rec_lp :: "record_message log_point"
  add_lp :: "rec_add_message log_point"
  stick_lp :: "time_stick_message log_point"
  logpos_disk :: int
  logpos_part :: int
  rec_cur_file :: int
  pb_standard :: int
  pb_size :: int
  rec_file_size :: u32

text \<open>The caller's copy of the position in the time-mark log; its pointers point into itself.\<close>

record stick_point =
  sp_disk :: int
  sp_part :: int
  sp_id :: int
  sp_file_info :: time_stick_message
  sp_use_id :: int
  sp_use_total :: int

section \<open>Buffers, loading, positioning\<close>

definition FS_InitRecordLogBuf :: "record_message mlog option \<Rightarrow> record_message log_point \<Rightarrow> int \<times> record_message log_point" where
  "FS_InitRecordLogBuf = log_init"
definition FS_InitRecAddLogBuf :: "rec_add_message mlog option \<Rightarrow> rec_add_message log_point \<Rightarrow> int \<times> rec_add_message log_point" where
  "FS_InitRecAddLogBuf = log_init"
definition FS_InitRecTimeStickLogBuf :: "time_stick_message mlog option \<Rightarrow> time_stick_message log_point \<Rightarrow> int \<times> time_stick_message log_point" where
  "FS_InitRecTimeStickLogBuf = log_init"

definition FS_ReleaseRecordLogBuf :: "record_message log_point \<Rightarrow> int \<times> record_message log_point" where
  "FS_ReleaseRecordLogBuf = log_release"
definition FS_ReleaseRecAddLogBuf :: "rec_add_message log_point \<Rightarrow> int \<times> rec_add_message log_point" where
  "FS_ReleaseRecAddLogBuf = log_release"
definition FS_ReleaseRecTimeStickLogBuf :: "time_stick_message log_point \<Rightarrow> int \<times> time_stick_message log_point" where
  "FS_ReleaseRecTimeStickLogBuf = log_release"

definition FS_LoadRecordLog :: "int \<Rightarrow> int \<Rightarrow> record_message log_point \<Rightarrow> int \<times> record_message log_point" where
  "FS_LoadRecordLog = log_load MAXMESSAGENUMBER"
definition FS_LoadRecAddLog :: "int \<Rightarrow> int \<Rightarrow> rec_add_message log_point \<Rightarrow> int \<times> rec_add_message log_point" where
  "FS_LoadRecAddLog = log_load MAXADDMESSAGENUMBER"
definition FS_LoadRecTimeStickLog :: "int \<Rightarrow> int \<Rightarrow> time_stick_message log_point \<Rightarrow> int \<times> time_stick_message log_point" where
  "FS_LoadRecTimeStickLog = log_load MAXTIMESTICKMESSAGENUMBER"

definition FS_GetRecordLogPoint :: "record_message log_point \<Rightarrow> bool" where
  "FS_GetRecordLogPoint = log_point_valid"
definition FS_GetRecAddLogPoint :: "rec_add_message log_point \<Rightarrow> bool" where
  "FS_GetRecAddLogPoint = log_point_valid"
definition FS_GetRecTimeStickLogPoint :: "time_stick_message log_point \<Rightarrow> bool" where
  "FS_GetRecTimeStickLogPoint = log_point_valid"

definition FS_GetPosRecordMessage :: "int \<Rightarrow> int \<Rightarrow> int \<Rightarrow> record_message log_point \<Rightarrow> (bool \<times> record_message log_point) option" where
  "FS_GetPosRecordMessage = log_get_pos MAXMESSAGENUMBER"
definition FS_GetPosRecAddMessage :: "int \<Rightarrow> int \<Rightarrow> int \<Rightarrow> rec_add_message log_point \<Rightarrow> (bool \<times> rec_add_message log_point) option" where
  "FS_GetPosRecAddMessage = log_get_pos MAXADDMESSAGENUMBER"

definition point_here :: "time_stick_message log_point \<Rightarrow> stick_point option" where
  "point_here lp = do {
     m \<leftarrow> cur_msg lp;
     b \<leftarrow> use_info lp;
     Some \<lparr>sp_disk = iDiskId lp, sp_part = iPatitionId lp, sp_id = lp_id lp, sp_file_info = m,
       sp_use_id = use_id b, sp_use_total = use_total b\<rparr>
   }"

definition FS_GetPosRecTimeStickMessage :: "int \<Rightarrow> int \<Rightarrow> int \<Rightarrow> time_stick_message log_point \<Rightarrow>
    (stick_point option \<times> time_stick_message log_point) option" where
  "FS_GetPosRecTimeStickMessage disk part pos lp = do {
     (ok, lp1) \<leftarrow> log_get_pos MAXTIMESTICKMESSAGENUMBER disk part pos lp;
     if \<not> ok then Some (None, lp1) else do { pt \<leftarrow> point_here lp1; Some (Some pt, lp1) }
   }"

section \<open>Writing\<close>

definition RecordMessageUseInfoWriteToFile :: "record_message log_point \<Rightarrow> (int \<times> record_message log_point) option" where
  "RecordMessageUseInfoWriteToFile = log_write_use"
definition RecAddMessageUseInfoWriteToFile :: "rec_add_message log_point \<Rightarrow> (int \<times> rec_add_message log_point) option" where
  "RecAddMessageUseInfoWriteToFile = log_write_use"
definition RecordMessageWriteToFile :: "record_message log_point \<Rightarrow> (int \<times> record_message log_point) option" where
  "RecordMessageWriteToFile = log_write_msg record_zero"
definition RecAddMessageWriteToFile :: "rec_add_message log_point \<Rightarrow> (int \<times> rec_add_message log_point) option" where
  "RecAddMessageWriteToFile = log_write_msg add_zero"

text \<open>The time-mark log is written from the caller's copy, after loading its partition again.\<close>

definition stick_load :: "stick_point \<Rightarrow> time_stick_message log_point \<Rightarrow> int \<times> time_stick_message log_point" where
  "stick_load pt lp =
     (if sp_disk pt \<noteq> iDiskId lp \<or> sp_part pt \<noteq> iPatitionId lp
      then FS_LoadRecTimeStickLog (sp_disk pt) (sp_part pt) lp else (ALLRIGHT, lp))"

definition RecTimeStickMessageUseInfoWriteToFile :: "stick_point \<Rightarrow> time_stick_message log_point \<Rightarrow>
    (int \<times> time_stick_message log_point) option" where
  "RecTimeStickMessageUseInfoWriteToFile pt lp =
     (let (rel, lp1) = stick_load pt lp
      in if rel \<noteq> ALLRIGHT then Some (ERROR, lp1)
         else do {
           b \<leftarrow> use_info lp1;
           let lp2 = lp1\<lparr>fileBuf := Some (b\<lparr>use_id := sp_use_id pt, use_total := sp_use_total pt\<rparr>)\<rparr>;
           case log_fopen (sp_disk pt, sp_part pt) lp2 of
             (None, lp3) \<Rightarrow> Some (FILEERROR, lp3)
           | (Some f, lp3) \<Rightarrow>
               let put = (\<lambda>i n lp. lp\<lparr>log_files := (log_files lp)
                 ((sp_disk pt, sp_part pt) \<mapsto> f\<lparr>use_id := i, use_total := n\<rparr>)\<rparr>)
               in Some (case next_answer lp3 of
                   (Complete, lp4) \<Rightarrow> (ALLRIGHT, put (sp_use_id pt) (sp_use_total pt) lp4)
                 | (Refused, lp4) \<Rightarrow> (ERROR, lp4)
                 | (Torn d, lp4) \<Rightarrow> (ERROR, put (use_id d) (use_total d) lp4))
         })"

definition RecTimeStickMessageWriteToFile :: "stick_point \<Rightarrow> time_stick_message log_point \<Rightarrow>
    (int \<times> time_stick_message log_point) option" where
  "RecTimeStickMessageWriteToFile pt lp =
     (let (rel, lp1) = stick_load pt lp
      in if rel \<noteq> ALLRIGHT then Some (ERROR, lp1)
         else case log_fopen (sp_disk pt, sp_part pt) lp1 of
             (None, lp2) \<Rightarrow> Some (FILEERROR, lp2)
           | (Some f, lp2) \<Rightarrow> do {
               lp3 \<leftarrow> set_msg (sp_file_info pt) (lp2\<lparr>pFilePos := sp_id pt\<rparr>);
               let put = (\<lambda>m lp. lp\<lparr>log_files := (log_files lp)
                 ((sp_disk pt, sp_part pt) \<mapsto> put_entry stick_zero (sp_id pt) m f)\<rparr>);
               Some (case next_answer lp3 of
                   (Complete, lp4) \<Rightarrow> (ALLRIGHT, put (sp_file_info pt) lp4)
                 | (Refused, lp4) \<Rightarrow> (ERROR, lp4)
                 | (Torn d, lp4) \<Rightarrow> (ERROR, case messages d of [] \<Rightarrow> lp4 | e # _ \<Rightarrow> put e lp4))
             })"

section \<open>Recording\<close>

text \<open>The current entry: position 0 to have the log loaded, then the entry \<open>pUseinfo->id\<close>.\<close>

definition current_record :: "int \<Rightarrow> int \<Rightarrow> record_message log_point \<Rightarrow> (bool \<times> record_message log_point) option" where
  "current_record disk part lp = do {
     (ok, lp1) \<leftarrow> FS_GetPosRecordMessage disk part 0 lp;
     b \<leftarrow> (if ok then use_info lp1 else None);
     FS_GetPosRecordMessage disk part (use_id b) lp1
   }"

definition start_entry :: "int \<Rightarrow> int \<Rightarrow> int \<Rightarrow> u32 \<Rightarrow> int \<Rightarrow> int \<Rightarrow> record_message \<Rightarrow> record_message" where
  "start_entry start file cam off standard isize m =
     m\<lparr>rm_filePos := file, rm_iCam := cam, rm_startTime := start, rm_ulOffSet := off, rm_endTime := 0,
       rm_videoStandard := word_of_int standard, rm_imageSize := word_of_int isize,
       rm_iDataEffect := NOEFFECT, rm_rec_size := 0\<rparr>"

definition FS_WriteStartInfoToRecLog :: "int \<Rightarrow> int \<Rightarrow> int \<Rightarrow> int \<Rightarrow> int \<Rightarrow> u32 \<Rightarrow> recorder \<Rightarrow> (int \<times> recorder) option" where
  "FS_WriteStartInfoToRecLog disk part recStartTime iFilePos iCam ulOffSet w = do {
     (ok, lp1) \<leftarrow> current_record disk part (rec_lp w);
     if \<not> ok then Some (FILEERROR, w\<lparr>rec_lp := lp1\<rparr>)
     else do {
       m \<leftarrow> cur_msg lp1;
       lp2 \<leftarrow> set_msg (start_entry recStartTime iFilePos iCam ulOffSet (pb_standard w) (pb_size w) m) lp1;
       (rel, lp3) \<leftarrow> RecordMessageWriteToFile lp2;
       if rel < 0 then Some (rel, w\<lparr>rec_lp := lp3\<rparr>)
       else Some (ALLRIGHT, w\<lparr>rec_lp := lp3, rec_file_size := 0\<rparr>)
     }
   }"

definition end_entry :: "int \<Rightarrow> u32 \<Rightarrow> record_message \<Rightarrow> record_message" where
  "end_entry t sz m =
     (let m1 = m\<lparr>rm_endTime := t, rm_iDataEffect := (if t = 0 then NOEFFECT else EFFECT)\<rparr>
      in if sz \<noteq> 0 then m1\<lparr>rm_rec_size := sz\<rparr> else m1)"

definition FS_WriteEndInfotoRecLog :: "int \<Rightarrow> int \<Rightarrow> int \<Rightarrow> recorder \<Rightarrow> (int \<times> recorder) option" where
  "FS_WriteEndInfotoRecLog disk part recEndTime w = do {
     (ok, lp1) \<leftarrow> current_record disk part (rec_lp w);
     if \<not> ok then Some (FILEERROR, w\<lparr>rec_lp := lp1\<rparr>)
     else do {
       m \<leftarrow> cur_msg lp1;
       lp2 \<leftarrow> set_msg (end_entry recEndTime (rec_file_size w) m) lp1;
       (rel, lp3) \<leftarrow> RecordMessageWriteToFile lp2;
       if rel < 0 then Some (rel, w\<lparr>rec_lp := lp3\<rparr>)
       else do {
         b \<leftarrow> use_info lp3;
         lp4 \<leftarrow> set_use_id (next_id b) lp3;
         (rel, lp5) \<leftarrow> RecordMessageUseInfoWriteToFile lp4;
         if rel < 0 then Some (rel, w\<lparr>rec_lp := lp5\<rparr>) else Some (ALLRIGHT, w\<lparr>rec_lp := lp5\<rparr>)
       }
     }
   }"

definition FS_ERR_WriteEndInfotoRecLog :: "int \<Rightarrow> recorder \<Rightarrow> (int \<times> recorder) option" where
  "FS_ERR_WriteEndInfotoRecLog now w = do {
     (rel, w1) \<leftarrow> FS_WriteEndInfotoRecLog (logpos_disk w) (logpos_part w) now w;
     if rel < 0 then Some (rel, w1) else Some (ALLRIGHT, w1)
   }"

definition fs_write_rec_size_to_log :: "recorder \<Rightarrow> (int \<times> recorder) option" where
  "fs_write_rec_size_to_log w =
     (if rec_file_size w = 0 then Some (0, w)
      else do {
        (ok, lp1) \<leftarrow> current_record (logpos_disk w) (logpos_part w) (rec_lp w);
        if \<not> ok then Some (FILEERROR, w\<lparr>rec_lp := lp1\<rparr>)
        else do {
          m \<leftarrow> cur_msg lp1;
          lp2 \<leftarrow> set_msg (m\<lparr>rm_rec_size := rec_file_size w\<rparr>) lp1;
          (rel, lp3) \<leftarrow> RecordMessageWriteToFile lp2;
          if rel < 0 then Some (rel, w\<lparr>rec_lp := lp3\<rparr>) else Some (ALLRIGHT, w\<lparr>rec_lp := lp3\<rparr>)
        }
      })"

definition FS_GetRecMsgCurrentId :: "recorder \<Rightarrow> (int \<times> recorder) option" where
  "FS_GetRecMsgCurrentId w = do {
     (ok, lp1) \<leftarrow> FS_GetPosRecordMessage (logpos_disk w) (logpos_part w) 0 (rec_lp w);
     b \<leftarrow> (if ok then use_info lp1 else None);
     Some (use_id b, w\<lparr>rec_lp := lp1\<rparr>)
   }"

definition FS_GetRecAddMsgCurrentId :: "recorder \<Rightarrow> (int \<times> recorder) option" where
  "FS_GetRecAddMsgCurrentId w = do {
     (ok, lp1) \<leftarrow> FS_GetPosRecAddMessage (logpos_disk w) (logpos_part w) 0 (add_lp w);
     b \<leftarrow> (if ok then use_info lp1 else None);
     Some (use_id b, w\<lparr>add_lp := lp1\<rparr>)
   }"

definition FS_GetRecTimeStickMsgCurrentId :: "recorder \<Rightarrow> (int \<times> recorder) option" where
  "FS_GetRecTimeStickMsgCurrentId w = do {
     (pt, lp1) \<leftarrow> FS_GetPosRecTimeStickMessage (logpos_disk w) (logpos_part w) 0 (stick_lp w);
     pt \<leftarrow> pt;
     Some (sp_use_id pt, w\<lparr>stick_lp := lp1\<rparr>)
   }"

text \<open>The entry before the next one, with its disk and partition.\<close>

definition FS_GetRecCurrentPoint :: "recorder \<Rightarrow> (int \<times> (int \<times> int \<times> int) option \<times> recorder) option" where
  "FS_GetRecCurrentPoint w = do {
     (ok, lp1) \<leftarrow> FS_GetPosRecordMessage (logpos_disk w) (logpos_part w) 0 (rec_lp w);
     if \<not> ok then Some (ERROR, None, w\<lparr>rec_lp := lp1\<rparr>)
     else do {
       b \<leftarrow> use_info lp1;
       Some (ALLRIGHT, Some (logpos_disk w, logpos_part w,
           if use_id b > 0 then use_id b - 1 else use_total b - 1), w\<lparr>rec_lp := lp1\<rparr>)
     }
   }"


definition FS_WriteInfotoRecAddLog :: "int \<Rightarrow> int \<Rightarrow> recorder \<Rightarrow> (int \<times> recorder) option" where
  "FS_WriteInfotoRecAddLog recStartTime iCam w = (let disk = logpos_disk w; part = logpos_part w in do {
     (ok, lp1) \<leftarrow> FS_GetPosRecAddMessage disk part 0 (add_lp w);
     if \<not> ok then Some (FILEERROR, w\<lparr>add_lp := lp1\<rparr>)
     else do {
       b \<leftarrow> use_info lp1;
       (ok, lp2) \<leftarrow> FS_GetPosRecAddMessage disk part (use_id b) lp1;
       if \<not> ok then Some (FILEERROR, w\<lparr>add_lp := lp2\<rparr>)
       else do {
         m \<leftarrow> cur_msg lp2;
         (rid, w1) \<leftarrow> FS_GetRecMsgCurrentId w;
         (ok, rlp) \<leftarrow> FS_GetPosRecordMessage disk part rid (rec_lp w1);
         m1 \<leftarrow> (if ok then do { r \<leftarrow> cur_msg rlp; Some (m\<lparr>ra_rec_log_time := rm_startTime r\<rparr>) } else Some m);
         let m2 = m1\<lparr>ra_startTime := recStartTime, ra_iCam := iCam, ra_rec_log_id := rid,
                   ra_filePos := rec_cur_file w, ra_rec_size := (if rec_file_size w \<noteq> 0 then rec_file_size w else ra_rec_size m)\<rparr>;
         lp3 \<leftarrow> set_msg m2 lp2;
         (rel, lp4) \<leftarrow> RecAddMessageWriteToFile lp3;
         if rel < 0 then Some (rel, w\<lparr>add_lp := lp4, rec_lp := rlp\<rparr>)
         else do {
           b \<leftarrow> use_info lp4;
           lp5 \<leftarrow> set_use_id (next_id b) lp4;
           (rel, lp6) \<leftarrow> RecAddMessageUseInfoWriteToFile lp5;
           if rel < 0 then Some (rel, w\<lparr>add_lp := lp6, rec_lp := rlp\<rparr>)
           else do {
             (ok, rlp1) \<leftarrow> FS_GetPosRecordMessage disk part rid rlp;
             r \<leftarrow> (if ok then cur_msg rlp1 else None);
             rlp3 \<leftarrow> (if rm_have_add_info r \<noteq> 1
               then do { rlp2 \<leftarrow> set_msg (r\<lparr>rm_have_add_info := 1\<rparr>) rlp1;
                         (rel, rlp3) \<leftarrow> RecordMessageWriteToFile rlp2; Some rlp3 }
               else Some rlp1);
             Some (ALLRIGHT, w\<lparr>add_lp := lp6, rec_lp := rlp3\<rparr>)
           }
         }
       }
     }
   })"

text \<open>
  A mark at the time of the previous one is merged into it: first the channels, then the mode.
  The comparison promotes the \<open>char\<close> fields to \<open>int\<close> (\<open>char\<close> is unsigned on this machine).
\<close>

definition stick_mode_differs :: "recorder \<Rightarrow> time_stick_message \<Rightarrow> bool" where
  "stick_mode_differs w m \<longleftrightarrow>
     uint (ts_videoStandard m) \<noteq> pb_standard w \<or> uint (ts_imageSize m) \<noteq> pb_size w"

definition with_mode :: "recorder \<Rightarrow> time_stick_message \<Rightarrow> time_stick_message" where
  "with_mode w m = m\<lparr>ts_videoStandard := word_of_int (pb_standard w), ts_imageSize := word_of_int (pb_size w)\<rparr>"

definition merge_mark :: "int \<Rightarrow> stick_point \<Rightarrow> recorder \<Rightarrow> (int \<times> recorder) option" where
  "merge_mark iCam pt w = do {
     let m = sp_file_info pt;
     let cams = (if ts_iCam m \<noteq> iCam then iCam OR ts_iCam m else ts_iCam m);
     let pt1 = pt\<lparr>sp_file_info := m\<lparr>ts_iCam := cams\<rparr>\<rparr>;
     (rel, lp1) \<leftarrow> (if cams \<noteq> ts_iCam m then RecTimeStickMessageWriteToFile pt1 (stick_lp w)
                    else Some (ALLRIGHT, stick_lp w));
     if rel < 0 then Some (rel, w\<lparr>stick_lp := lp1\<rparr>)
     else if stick_mode_differs w (sp_file_info pt1)
     then do {
       (rel, lp2) \<leftarrow> RecTimeStickMessageWriteToFile (pt1\<lparr>sp_file_info := with_mode w (sp_file_info pt1)\<rparr>) lp1;
       if rel < 0 then Some (rel, w\<lparr>stick_lp := lp2\<rparr>) else Some (ALLRIGHT, w\<lparr>stick_lp := lp2\<rparr>)
     }
     else Some (ALLRIGHT, w\<lparr>stick_lp := lp1\<rparr>)
   }"

definition new_mark :: "int \<Rightarrow> int \<Rightarrow> int \<Rightarrow> recorder \<Rightarrow> (int \<times> recorder) option" where
  "new_mark recStartTime iCam cur w = do {
     (pt, lp1) \<leftarrow> FS_GetPosRecTimeStickMessage (logpos_disk w) (logpos_part w) cur (stick_lp w);
     case pt of
       None \<Rightarrow> Some (FILEERROR, w\<lparr>stick_lp := lp1\<rparr>)
     | Some pt \<Rightarrow> do {
         let pt1 = pt\<lparr>sp_file_info := with_mode w ((sp_file_info pt)\<lparr>ts_startTime := recStartTime, ts_iCam := iCam\<rparr>)\<rparr>;
         (rel, lp2) \<leftarrow> RecTimeStickMessageWriteToFile pt1 lp1;
         if rel < 0 then Some (rel, w\<lparr>stick_lp := lp2\<rparr>)
         else do {
           let pt2 = pt1\<lparr>sp_use_id := (if sp_use_id pt1 + 1 < sp_use_total pt1 then sp_use_id pt1 + 1 else 0)\<rparr>;
           (rel, lp3) \<leftarrow> RecTimeStickMessageUseInfoWriteToFile pt2 lp2;
           if rel < 0 then Some (rel, w\<lparr>stick_lp := lp3\<rparr>) else Some (ALLRIGHT, w\<lparr>stick_lp := lp3\<rparr>)
         }
       }
   }"

definition FS_WriteInfotoRecTimeStickLog :: "int \<Rightarrow> int \<Rightarrow> recorder \<Rightarrow> (int \<times> recorder) option" where
  "FS_WriteInfotoRecTimeStickLog recStartTime iCam w = do {
     (pt, lp1) \<leftarrow> FS_GetPosRecTimeStickMessage (logpos_disk w) (logpos_part w) 0 (stick_lp w);
     let w1 = w\<lparr>stick_lp := lp1\<rparr>;
     case pt of
       None \<Rightarrow> Some (FILEERROR, w1)
     | Some pt \<Rightarrow>
         let cur = sp_use_id pt
         in if cur - 1 \<ge> 0
            then do {
              (prev, lp2) \<leftarrow> FS_GetPosRecTimeStickMessage (logpos_disk w) (logpos_part w) (cur - 1) lp1;
              let w2 = w\<lparr>stick_lp := lp2\<rparr>;
              case prev of
                None \<Rightarrow> Some (FILEERROR, w2)
              | Some prev \<Rightarrow>
                  if ts_startTime (sp_file_info prev) = recStartTime then merge_mark iCam prev w2
                  else new_mark recStartTime iCam cur w2
            }
            else new_mark recStartTime iCam cur w1
   }"

section \<open>Creating and clearing\<close>

definition FS_CreateRecordLog :: "int \<Rightarrow> int \<Rightarrow> record_message log_point \<Rightarrow> int \<times> record_message log_point" where
  "FS_CreateRecordLog disk part = log_create disk part
     (map (\<lambda>i. \<lparr>rm_id = int i, rm_startTime = 0, rm_endTime = 0, rm_iDataEffect = NOEFFECT, rm_filePos = - 1,
        rm_iCam = 0, rm_ulOffSet = 0, rm_videoStandard = 0, rm_imageSize = 0, rm_rec_mode = - 1,
        rm_have_add_info = 0, rm_rec_size = 0\<rparr>) [0..<MAXMESSAGENUMBER])"

definition FS_CreateRecAddLog :: "int \<Rightarrow> int \<Rightarrow> rec_add_message log_point \<Rightarrow> int \<times> rec_add_message log_point" where
  "FS_CreateRecAddLog disk part = log_create disk part
     (map (\<lambda>i. \<lparr>ra_rec_log_id = - 1, ra_startTime = 0, ra_iCam = 0, ra_rec_size = 0, ra_filePos = - 1,
        ra_rec_log_time = 0\<rparr>) [0..<MAXADDMESSAGENUMBER])"

text \<open>The fields the code leaves unset have what the stack object \<open>junk\<close> has there.\<close>

definition FS_CreateRecTimeStickLog :: "time_stick_message \<Rightarrow> int \<Rightarrow> int \<Rightarrow> time_stick_message log_point \<Rightarrow>
    int \<times> time_stick_message log_point" where
  "FS_CreateRecTimeStickLog junk disk part = log_create disk part
     (map (\<lambda>i. junk\<lparr>ts_iCam := 0, ts_startTime := 0\<rparr>) [0..<MAXTIMESTICKMESSAGENUMBER])"

definition FTC_CompareTime :: "int \<Rightarrow> int \<Rightarrow> int \<Rightarrow> bool" where
  "FTC_CompareTime yourtime startTime endTime \<longleftrightarrow> yourtime \<ge> startTime \<and> yourtime \<le> endTime"

text \<open>An entry from \<open>s\<close> to \<open>e\<close> touches the time from \<open>startTime\<close> to \<open>endTime\<close>.\<close>

definition touches :: "int \<Rightarrow> int \<Rightarrow> int \<Rightarrow> int \<Rightarrow> bool" where
  "touches startTime endTime s e \<longleftrightarrow> FTC_CompareTime s startTime endTime \<or> FTC_CompareTime e startTime endTime \<or>
     FTC_CompareTime startTime s e \<or> FTC_CompareTime endTime s e"

definition cleared_record :: "record_message \<Rightarrow> record_message" where
  "cleared_record m = m\<lparr>rm_endTime := 0, rm_filePos := - 1, rm_iCam := 0, rm_iDataEffect := NOEFFECT,
     rm_startTime := 0, rm_ulOffSet := 0, rm_videoStandard := 0, rm_imageSize := 0, rm_have_add_info := 0,
     rm_rec_mode := 0\<rparr>"

definition FS_DelRecLosMessage :: "int list list \<Rightarrow> (int \<Rightarrow> bool) \<Rightarrow> int \<Rightarrow> int \<Rightarrow> int \<Rightarrow> record_message log_point \<Rightarrow>
    (int \<times> record_message log_point) option" where
  "FS_DelRecLosMessage partitions format_ok startTime endTime disk =
     log_clear MAXMESSAGENUMBER (store_msg record_zero) store_id partitions format_ok disk
       (\<lambda>i m. touches startTime endTime (rm_startTime m) (rm_endTime m) \<or> disk = i) cleared_record"

definition cleared_add :: "rec_add_message \<Rightarrow> rec_add_message" where
  "cleared_add m = m\<lparr>ra_rec_log_id := - 1, ra_iCam := 0, ra_rec_size := 0, ra_startTime := 0\<rparr>"

definition FS_DelRecAddLosMessage :: "int list list \<Rightarrow> (int \<Rightarrow> bool) \<Rightarrow> int \<Rightarrow> int \<Rightarrow> int \<Rightarrow> rec_add_message log_point \<Rightarrow>
    (int \<times> rec_add_message log_point) option" where
  "FS_DelRecAddLosMessage partitions format_ok startTime endTime disk =
     log_clear MAXADDMESSAGENUMBER (store_msg add_zero) store_id partitions format_ok disk
       (\<lambda>i m. FTC_CompareTime (ra_startTime m) startTime endTime \<or> disk = i) cleared_add"

text \<open>The time marks are changed in the caller's copy, which the writing functions take over.\<close>

definition FS_DelRecTimeStickMessage :: "int list list \<Rightarrow> (int \<Rightarrow> bool) \<Rightarrow> int \<Rightarrow> int \<Rightarrow> int \<Rightarrow> time_stick_message log_point \<Rightarrow>
    (int \<times> time_stick_message log_point) option" where
  "FS_DelRecTimeStickMessage partitions format_ok startTime endTime disk =
     log_clear MAXTIMESTICKMESSAGENUMBER
       (\<lambda>m lp. do { pt \<leftarrow> point_here lp; RecTimeStickMessageWriteToFile (pt\<lparr>sp_file_info := m\<rparr>) lp })
       (\<lambda>i lp. do { pt \<leftarrow> point_here lp; RecTimeStickMessageUseInfoWriteToFile (pt\<lparr>sp_use_id := i\<rparr>) lp })
       partitions format_ok disk
       (\<lambda>i m. (touches startTime endTime (ts_startTime m) (ts_startTime m + 300) \<or> disk = i) \<and> ts_startTime m > 0)
       (\<lambda>m. m\<lparr>ts_iCam := 0, ts_startTime := 0\<rparr>)"

lemmas record_log_defs = FS_GetPosRecordMessage_def FS_GetPosRecAddMessage_def RecordMessageWriteToFile_def
  RecordMessageUseInfoWriteToFile_def RecAddMessageWriteToFile_def RecAddMessageUseInfoWriteToFile_def

text \<open>The current record of a log that can be loaded.\<close>

lemma current_record_at:
  assumes "log_at MAXMESSAGENUMBER d p b lp" and "answers lp = []"
  shows "\<exists>lp'. current_record d p lp = Some (True, lp') \<and> holding MAXMESSAGENUMBER d p b lp' \<and>
    pFilePos lp' = use_id b \<and> lp_id lp' = use_id b \<and> only_log d p lp lp' \<and> cur_msg lp' = Some (current b)"
  using log_go_current [OF assms] by (auto simp: current_record_def record_log_defs)

lemma current_put: "log_ok maxnum b \<Longrightarrow> current (b\<lparr>messages := (messages b)[nat (use_id b) := m]\<rparr>) = m"
  by (auto simp: current_def log_ok_def)

lemma ring_put_twice: "ring_put m (b\<lparr>messages := (messages b)[nat (use_id b) := m']\<rparr>) = ring_put m b"
  by (simp add: ring_put_def next_id_def)

lemma FS_WriteStart_at:
  assumes "log_at MAXMESSAGENUMBER d p b (rec_lp w)" and "answers (rec_lp w) = []"
  shows "\<exists>lp'. FS_WriteStartInfoToRecLog d p start fpos cam off w =
      Some (ALLRIGHT, w\<lparr>rec_lp := lp', rec_file_size := 0\<rparr>) \<and> only_log d p (rec_lp w) lp' \<and>
    holding MAXMESSAGENUMBER d p (b\<lparr>messages := (messages b)[nat (use_id b) :=
      start_entry start fpos cam off (pb_standard w) (pb_size w) (current b)]\<rparr>) lp'"
proof -
  obtain lp1 where 1: "current_record d p (rec_lp w) = Some (True, lp1)" "holding MAXMESSAGENUMBER d p b lp1"
      "pFilePos lp1 = use_id b" "lp_id lp1 = use_id b" "only_log d p (rec_lp w) lp1" "cur_msg lp1 = Some (current b)"
    using current_record_at [OF assms] by blast
  then show ?thesis
    using log_store_current [OF 1(2) only_log_answers [OF 1(5) assms(2)] 1(3,4),
        of "start_entry start fpos cam off (pb_standard w) (pb_size w) (current b)" record_zero] only_log_trans [OF 1(5)]
    by (auto simp: FS_WriteStartInfoToRecLog_def record_log_defs rel_codes)
qed

lemma FS_WriteEnd_at:
  assumes "log_at MAXMESSAGENUMBER d p b (rec_lp w)" and "answers (rec_lp w) = []"
  shows "\<exists>lp'. FS_WriteEndInfotoRecLog d p t w = Some (ALLRIGHT, w\<lparr>rec_lp := lp'\<rparr>) \<and> only_log d p (rec_lp w) lp' \<and>
    holding MAXMESSAGENUMBER d p (ring_put (end_entry t (rec_file_size w) (current b)) b) lp'"
proof -
  let ?m = "end_entry t (rec_file_size w) (current b)"
  obtain lp1 where 1: "current_record d p (rec_lp w) = Some (True, lp1)" "holding MAXMESSAGENUMBER d p b lp1"
      "pFilePos lp1 = use_id b" "lp_id lp1 = use_id b" "only_log d p (rec_lp w) lp1" "cur_msg lp1 = Some (current b)"
    using current_record_at [OF assms] by blast
  have a1: "answers lp1 = []" using 1(5) assms(2) by (rule only_log_answers)
  obtain lp2 lp3 where 2: "set_msg ?m lp1 = Some lp2" "log_write_msg record_zero lp2 = Some (ALLRIGHT, lp3)"
      "holding MAXMESSAGENUMBER d p (b\<lparr>messages := (messages b)[nat (use_id b) := ?m]\<rparr>) lp3" "only_log d p lp1 lp3"
      "use_info lp3 = Some (b\<lparr>messages := (messages b)[nat (use_id b) := ?m]\<rparr>)"
    using log_store_current [OF 1(2) a1 1(3,4)] by blast
  obtain lp4 lp5 where 3: "set_use_id (next_id (b\<lparr>messages := (messages b)[nat (use_id b) := ?m]\<rparr>)) lp3 = Some lp4"
      "log_write_use lp4 = Some (ALLRIGHT, lp5)" "holding MAXMESSAGENUMBER d p (ring_put ?m b) lp5" "only_log d p lp3 lp5"
    using log_move_on [OF 2(3) only_log_answers [OF 2(4) a1]] by blast
  have "only_log d p (rec_lp w) lp5" using 1(5) 2(4) 3(4) only_log_trans by blast
  then show ?thesis
    using 1 2 3 by (intro exI [of _ lp5]) (simp add: FS_WriteEndInfotoRecLog_def record_log_defs rel_codes)
qed

section \<open>Recordings\<close>

text \<open>A recording: start, end, channels, file, offset and size.\<close>

type_synonym session = "int \<times> int \<times> int \<times> int \<times> u32 \<times> u32"

definition session_of :: "record_message \<Rightarrow> session" where
  "session_of m = (rm_startTime m, rm_endTime m, rm_iCam m, rm_filePos m, rm_ulOffSet m, rm_rec_size m)"

definition session_entry :: "int \<Rightarrow> int \<Rightarrow> session \<Rightarrow> record_message \<Rightarrow> record_message" where
  "session_entry standard isize s m = (case s of (start, stop, cam, fpos, off, sz) \<Rightarrow>
     end_entry stop sz (start_entry start fpos cam off standard isize m))"

definition put_session :: "int \<Rightarrow> int \<Rightarrow> session \<Rightarrow> record_message mlog \<Rightarrow> record_message mlog" where
  "put_session standard isize s b = ring_put (session_entry standard isize s (current b)) b"

text \<open>A recording starts, data is written (which counts \<open>rec_file_size\<close>), and it ends.\<close>

definition record_session :: "int \<Rightarrow> int \<Rightarrow> session \<Rightarrow> recorder \<Rightarrow> (int \<times> recorder) option" where
  "record_session d p s w = (case s of (start, stop, cam, fpos, off, sz) \<Rightarrow> do {
     (rel, w1) \<leftarrow> FS_WriteStartInfoToRecLog d p start fpos cam off w;
     if rel < 0 then Some (rel, w1) else FS_WriteEndInfotoRecLog d p stop (w1\<lparr>rec_file_size := sz\<rparr>)
   })"

fun record_sessions :: "int \<Rightarrow> int \<Rightarrow> session list \<Rightarrow> recorder \<Rightarrow> (int \<times> recorder) option" where
  "record_sessions d p [] w = Some (ALLRIGHT, w)"
| "record_sessions d p (s # ss) w = do {
     (rel, w1) \<leftarrow> record_session d p s w;
     if rel < 0 then Some (rel, w1) else record_sessions d p ss w1
   }"

lemma session_of_entry: "session_of (session_entry standard isize s m) = s"
  by (cases s) (auto simp: session_of_def session_entry_def end_entry_def start_entry_def Let_def)

interpretation sessions: ring_log "log_ok maxnum" "\<lambda>b. map session_of (recent b)" "put_session standard isize" "\<lambda>s. True"
  by unfold_locales
    (simp_all add: put_session_def log_ok_ring_put recent_ring_put map_tl session_of_entry recent_nonempty)

lemma record_session_at:
  assumes "log_at MAXMESSAGENUMBER d p b (rec_lp w)" and "answers (rec_lp w) = []"
  shows "\<exists>w'. record_session d p s w = Some (ALLRIGHT, w') \<and> answers (rec_lp w') = [] \<and>
    holding MAXMESSAGENUMBER d p (put_session (pb_standard w) (pb_size w) s b) (rec_lp w') \<and>
    pb_standard w' = pb_standard w \<and> pb_size w' = pb_size w \<and>
    logpos_disk w' = logpos_disk w \<and> logpos_part w' = logpos_part w"
proof -
  obtain start stop cam fpos off sz where s: "s = (start, stop, cam, fpos, off, sz)" by (cases s) auto
  let ?m = "start_entry start fpos cam off (pb_standard w) (pb_size w) (current b)"
  let ?b = "b\<lparr>messages := (messages b)[nat (use_id b) := ?m]\<rparr>"
  have ok: "log_ok MAXMESSAGENUMBER b" using assms(1) by (simp add: log_at_def)
  obtain lp1 where 1: "FS_WriteStartInfoToRecLog d p start fpos cam off w =
      Some (ALLRIGHT, w\<lparr>rec_lp := lp1, rec_file_size := 0\<rparr>)" "only_log d p (rec_lp w) lp1"
      "holding MAXMESSAGENUMBER d p ?b lp1"
    using FS_WriteStart_at [OF assms] by blast
  let ?w = "w\<lparr>rec_lp := lp1, rec_file_size := sz\<rparr>"
  have a1: "answers (rec_lp ?w) = []" using only_log_answers [OF 1(2) assms(2)] by simp
  obtain lp2 where 2: "FS_WriteEndInfotoRecLog d p stop ?w = Some (ALLRIGHT, ?w\<lparr>rec_lp := lp2\<rparr>)"
      "only_log d p (rec_lp ?w) lp2" "holding MAXMESSAGENUMBER d p (ring_put (end_entry stop sz (current ?b)) ?b) lp2"
    using FS_WriteEnd_at [of d p ?b ?w stop] a1 holding_log_at [OF 1(3)] by auto
  have "ring_put (end_entry stop sz (current ?b)) ?b = put_session (pb_standard w) (pb_size w) s b"
    by (simp add: put_session_def session_entry_def s current_put [OF ok] ring_put_twice)
  then show ?thesis
    using 1(1) 2 only_log_answers [OF 2(2) a1] by (simp add: record_session_def s rel_codes)
qed

lemma record_sessions_at:
  assumes "log_at MAXMESSAGENUMBER d p b (rec_lp w)" and "answers (rec_lp w) = []"
  shows "\<exists>w'. record_sessions d p ss w = Some (ALLRIGHT, w') \<and>
    log_at MAXMESSAGENUMBER d p (fold (put_session (pb_standard w) (pb_size w)) ss b) (rec_lp w')"
  using assms
proof (induction ss arbitrary: b w)
  case (Cons s ss)
  obtain w1 where 1: "record_session d p s w = Some (ALLRIGHT, w1)" "answers (rec_lp w1) = []"
      "holding MAXMESSAGENUMBER d p (put_session (pb_standard w) (pb_size w) s b) (rec_lp w1)"
      "pb_standard w1 = pb_standard w" "pb_size w1 = pb_size w"
    using record_session_at [OF Cons.prems] by blast
  then show ?case using Cons.IH [OF holding_log_at [OF 1(3)] 1(2)] by (simp add: rel_codes)
qed simp

definition recorder_start :: "int \<Rightarrow> recorder" where
  "recorder_start i = \<lparr>rec_lp = fresh_point MAXMESSAGENUMBER record_zero i,
     add_lp = fresh_point MAXADDMESSAGENUMBER add_zero 0,
     stick_lp = fresh_point MAXTIMESTICKMESSAGENUMBER stick_zero 1,
     logpos_disk = 0, logpos_part = 5, rec_cur_file = 0, pb_standard = 0, pb_size = 0, rec_file_size = 0\<rparr>"

lemma recorder_start_simps [simp]:
  "rec_lp (recorder_start i) = fresh_point MAXMESSAGENUMBER record_zero i"
  "add_lp (recorder_start i) = fresh_point MAXADDMESSAGENUMBER add_zero 0"
  "stick_lp (recorder_start i) = fresh_point MAXTIMESTICKMESSAGENUMBER stick_zero 1"
  "logpos_disk (recorder_start i) = 0" "logpos_part (recorder_start i) = 5"
  by (simp_all add: recorder_start_def)

text \<open>C7: Any number of recordings, each a start and an end entry, leaves the log (buffer and file,
  which agree) with the newest of the old and new entries, oldest first, every field of a recording
  as it was given.\<close>

theorem recordings_logged:
  assumes "log_at MAXMESSAGENUMBER d p b (rec_lp w)" and "answers (rec_lp w) = []"
  shows "\<exists>w' b'. record_sessions d p ss w = Some (ALLRIGHT, w') \<and> log_at MAXMESSAGENUMBER d p b' (rec_lp w') \<and>
    map session_of (recent b') = drop (length ss) (map session_of (recent b) @ ss)"
proof -
  have "log_ok MAXMESSAGENUMBER b" using assms(1) by (simp add: log_at_def)
  then show ?thesis
    using record_sessions_at [OF assms, of ss] sessions.view_puts [of MAXMESSAGENUMBER b ss] by (auto simp: list_all_iff)
qed

lemma recordings_logged_witness:
  "\<exists>w' b'. record_sessions 0 5 [(100, 200, 1, 7, 0, 5000), (300, 400, 3, 7, 9, 6000)] (recorder_start 999) =
      Some (ALLRIGHT, w') \<and> log_at MAXMESSAGENUMBER 0 5 b' (rec_lp w') \<and>
    map session_of (recent b') =
      drop (Suc (Suc 0)) (map session_of (recent (full_log MAXMESSAGENUMBER record_zero 999)) @
        [(100, 200, 1, 7, 0, 5000), (300, 400, 3, 7, 9, 6000)])"
  using recordings_logged [of 0 5 "full_log MAXMESSAGENUMBER record_zero 999" "recorder_start 999"
    "[(100, 200, 1, 7, 0, 5000), (300, 400, 3, 7, 9, 6000)]"]
  by (simp add: log_at_fresh MAXMESSAGENUMBER_def)

text \<open>After a recording \<open>FS_GetRecCurrentPoint\<close> gives the position of its entry, also across
  the end of the table.\<close>

theorem FS_GetRecCurrentPoint_after_recording:
  assumes "log_at MAXMESSAGENUMBER d p b (rec_lp w)" and "answers (rec_lp w) = []"
    and "logpos_disk w = d" and "logpos_part w = p"
  shows "\<exists>w1 w2 pos m. record_session d p s w = Some (ALLRIGHT, w1) \<and>
    FS_GetRecCurrentPoint w1 = Some (ALLRIGHT, Some (d, p, pos), w2) \<and>
    (\<exists>lp. FS_GetPosRecordMessage d p pos (rec_lp w2) = Some (True, lp) \<and> cur_msg lp = Some m \<and> session_of m = s)"
proof -
  let ?b = "put_session (pb_standard w) (pb_size w) s b"
  have ok: "log_ok MAXMESSAGENUMBER b" using assms(1) by (simp add: log_at_def)
  then have ok': "log_ok MAXMESSAGENUMBER ?b" by (rule sessions.good_put)
  obtain w1 where 1: "record_session d p s w = Some (ALLRIGHT, w1)" "answers (rec_lp w1) = []"
      "holding MAXMESSAGENUMBER d p ?b (rec_lp w1)" "logpos_disk w1 = d" "logpos_part w1 = p"
    using record_session_at [OF assms(1,2)] assms(3,4) by metis
  obtain lp2 where 2: "log_get_pos MAXMESSAGENUMBER d p 0 (rec_lp w1) = Some (True, lp2)"
      "holding MAXMESSAGENUMBER d p ?b lp2" "only_log d p (rec_lp w1) lp2"
    using log_get_pos_at [OF holding_log_at [OF 1(3)] 1(2)] log_ok_ids [OF ok'] by blast
  have pos: "(if use_id ?b > 0 then use_id ?b - 1 else use_total ?b - 1) = use_id b"
    using ok by (auto simp: put_session_def ring_put_def next_id_def log_ok_def)
  have u: "use_info lp2 = Some ?b" using 2(2) by (simp add: use_info_def holding_def)
  have c: "FS_GetRecCurrentPoint w1 = Some (ALLRIGHT, Some (d, p, use_id b), w1\<lparr>rec_lp := lp2\<rparr>)"
    using 1 2 u pos by (simp add: FS_GetRecCurrentPoint_def record_log_defs)
  have i: "0 \<le> use_id b" "use_id b < use_total ?b" "nat (use_id b) < length (messages b)"
    using ok by (auto simp: log_ok_def put_session_def ring_put_def)
  obtain lp3 where 3: "log_get_pos MAXMESSAGENUMBER d p (use_id b) lp2 = Some (True, lp3)"
      "holding MAXMESSAGENUMBER d p ?b lp3" "pFilePos lp3 = use_id b"
    using log_get_pos_at [OF holding_log_at [OF 2(2)] only_log_answers [OF 2(3) 1(2)] i(1,2)] by blast
  have "cur_msg lp3 = Some (session_entry (pb_standard w) (pb_size w) s (current b))"
    using cur_msg_holding [OF 3(2)] 3(3) i by (simp add: put_session_def ring_put_def)
  then show ?thesis
    using 1(1) c 3(1) session_of_entry by (fastforce simp: record_log_defs)
qed

lemma FS_GetRecCurrentPoint_after_recording_witness:
  "\<exists>w1 w2 pos m. record_session 0 5 (100, 200, 1, 7, 0, 5000) (recorder_start 999) = Some (ALLRIGHT, w1) \<and>
    FS_GetRecCurrentPoint w1 = Some (ALLRIGHT, Some (0, 5, pos), w2) \<and>
    (\<exists>lp. FS_GetPosRecordMessage 0 5 pos (rec_lp w2) = Some (True, lp) \<and> cur_msg lp = Some m \<and>
      session_of m = (100, 200, 1, 7, 0, 5000))"
  by (rule FS_GetRecCurrentPoint_after_recording [of 0 5 "full_log MAXMESSAGENUMBER record_zero 999"])
    (simp_all add: log_at_fresh MAXMESSAGENUMBER_def)

text \<open>When the log of the partition cannot be opened, the start and end entries and the query
  of the current id use the NULL pointer that the positioning function returned.\<close>

theorem record_log_missing_crashes:
  assumes "answers (rec_lp w) = []" and "log_files (rec_lp w) (d, p) = None"
    and "d \<noteq> iDiskId (rec_lp w) \<or> p \<noteq> iPatitionId (rec_lp w) \<or> need_reload (rec_lp w)"
    and "logpos_disk w = d" and "logpos_part w = p"
  shows "FS_WriteStartInfoToRecLog d p start fpos cam off w = None \<and> FS_WriteEndInfotoRecLog d p t w = None \<and>
    FS_ERR_WriteEndInfotoRecLog t w = None \<and> FS_GetRecMsgCurrentId w = None"
  using log_get_pos_no_file [OF assms(1-3)] assms(4,5)
  by (simp add: FS_WriteStartInfoToRecLog_def FS_WriteEndInfotoRecLog_def FS_ERR_WriteEndInfotoRecLog_def
    FS_GetRecMsgCurrentId_def current_record_def record_log_defs)

lemma record_log_missing_crashes_witness:
  "FS_WriteStartInfoToRecLog 0 6 100 7 1 0 ((recorder_start 0)\<lparr>logpos_part := 6\<rparr>) = None \<and>
   FS_WriteEndInfotoRecLog 0 6 200 ((recorder_start 0)\<lparr>logpos_part := 6\<rparr>) = None \<and>
   FS_ERR_WriteEndInfotoRecLog 200 ((recorder_start 0)\<lparr>logpos_part := 6\<rparr>) = None \<and>
   FS_GetRecMsgCurrentId ((recorder_start 0)\<lparr>logpos_part := 6\<rparr>) = None"
  by (rule record_log_missing_crashes) (simp_all add: fresh_point_def)

section \<open>Any answers\<close>

lemma current_record_files: "current_record d p lp = Some (ok, lp') \<Longrightarrow>
    log_files lp' = log_files lp \<and> (ok \<longrightarrow> log_key lp' = (d, p))"
  by (auto simp: current_record_def record_log_defs bind_eq_Some_conv split: if_splits dest!: log_get_pos_files)

lemma same_files_eq: "log_files lp' = log_files lp \<Longrightarrow> same_files k lp lp'"
  by (simp add: same_files_def)

lemma FS_WriteStart_files:
  assumes "FS_WriteStartInfoToRecLog d p start fpos cam off w = Some (r, w')"
  shows "same_files (d, p) (rec_lp w) (rec_lp w')"
proof -
  obtain ok lp1 where 1: "current_record d p (rec_lp w) = Some (ok, lp1)"
    using assms by (cases "current_record d p (rec_lp w)") (auto simp: FS_WriteStartInfoToRecLog_def)
  show ?thesis
  proof (cases ok)
    case False
    then show ?thesis using assms 1 current_record_files [OF 1]
      by (auto simp: FS_WriteStartInfoToRecLog_def same_files_eq)
  next
    case True
    then obtain m lp2 r' lp3 where 2: "set_msg m lp1 = Some lp2" "log_write_msg record_zero lp2 = Some (r', lp3)"
        "rec_lp w' = lp3"
      using assms 1 by (auto simp: FS_WriteStartInfoToRecLog_def record_log_defs bind_eq_Some_conv split: if_splits)
    then show ?thesis
      using current_record_files [OF 1] True set_msg_files [OF 2(1)] log_write_msg_files [OF 2(2)]
      by (auto simp: same_files_def)
  qed
qed

lemma FS_WriteEnd_files:
  assumes "FS_WriteEndInfotoRecLog d p t w = Some (r, w')"
  shows "same_files (d, p) (rec_lp w) (rec_lp w')"
proof -
  obtain ok lp1 where 1: "current_record d p (rec_lp w) = Some (ok, lp1)"
    using assms by (cases "current_record d p (rec_lp w)") (auto simp: FS_WriteEndInfotoRecLog_def)
  show ?thesis
  proof (cases ok)
    case False
    then show ?thesis using assms 1 current_record_files [OF 1]
      by (auto simp: FS_WriteEndInfotoRecLog_def same_files_eq)
  next
    case True
    then obtain m lp2 r' lp3 where 2: "set_msg m lp1 = Some lp2" "log_write_msg record_zero lp2 = Some (r', lp3)"
        "rec_lp w' = lp3 \<or> (\<exists>i lp4 r'' . set_use_id i lp3 = Some lp4 \<and> log_write_use lp4 = Some (r'', rec_lp w'))"
      using assms 1 by (fastforce simp: FS_WriteEndInfotoRecLog_def record_log_defs bind_eq_Some_conv split: if_splits)
    then show ?thesis
      using current_record_files [OF 1] True set_msg_files [OF 2(1)] log_write_msg_files [OF 2(2)]
      by (auto simp: same_files_def dest!: set_use_id_files log_write_use_files)
  qed
qed

text \<open>Whatever the file operations answer, refused opens and torn reads and writes included, the
  start and end entries of a recording never change the log file of another partition.\<close>

theorem recordings_keep_other_logs:
  assumes "record_sessions d p ss w = Some (r, w')" and "(d', p') \<noteq> (d, p)"
  shows "log_files (rec_lp w') (d', p') = log_files (rec_lp w) (d', p')"
proof -
  have "same_files (d, p) (rec_lp w) (rec_lp w')"
    using assms(1)
  proof (induction ss arbitrary: w)
    case (Cons s ss)
    have step: "same_files (d, p) (rec_lp w) (rec_lp w1)" if "record_session d p s w = Some (r1, w1)" for r1 w1
      using that by (fastforce simp: record_session_def bind_eq_Some_conv split: prod.splits if_splits
        dest!: FS_WriteStart_files FS_WriteEnd_files elim: same_files_trans)
    then show ?case
      using Cons by (fastforce simp: bind_eq_Some_conv split: if_splits elim: same_files_trans)
  qed simp
  then show ?thesis using assms(2) by (simp add: same_files_def)
qed

lemma recordings_keep_other_logs_witness:
  "\<exists>r w'. record_sessions 0 5 [(100, 200, 1, 7, 0, 5000)] (recorder_start 999) = Some (r, w') \<and>
    log_files (rec_lp w') (1, 5) = log_files (rec_lp (recorder_start 999)) (1, 5)"
proof -
  obtain w' where e: "record_sessions 0 5 [(100, 200, 1, 7, 0, 5000)] (recorder_start 999) = Some (ALLRIGHT, w')"
    using record_sessions_at [of 0 5 "full_log MAXMESSAGENUMBER record_zero 999" "recorder_start 999"
      "[(100, 200, 1, 7, 0, 5000)]"] by (auto simp: log_at_fresh MAXMESSAGENUMBER_def)
  have "(1, 5) \<noteq> (0 :: int, 5 :: int)" by simp
  from recordings_keep_other_logs [OF e this] e show ?thesis by blast
qed

section \<open>Creation and clearing\<close>

text \<open>Whatever the writes answer, \<open>FS_CreateRecordLog\<close> returns \<open>ALLRIGHT\<close> only when the file holds
  the counters and all 1000 empty entries.\<close>

theorem FS_CreateRecordLog_complete:
  assumes "FS_CreateRecordLog disk part lp = (ALLRIGHT, lp')" and "disk < 100"
  shows "\<exists>f. log_files lp' (disk, part) = Some f \<and> use_id f = 0 \<and> use_total f = 1000 \<and> length (messages f) = 1000 \<and>
    (\<forall>m \<in> set (messages f). rm_iDataEffect m = NOEFFECT \<and> rm_filePos m = - 1 \<and> rm_startTime m = 0)"
proof -
  have "disk \<noteq> ALLRIGHT" using assms(2) by (simp add: rel_codes)
  from log_create_complete [OF assms(1) [unfolded FS_CreateRecordLog_def] this] show ?thesis
    by (simp add: MAXMESSAGENUMBER_def)
qed

lemma FS_CreateRecordLog_complete_witness:
  "\<exists>lp' f. FS_CreateRecordLog 1 5 (fresh_point MAXMESSAGENUMBER record_zero 0) = (ALLRIGHT, lp') \<and>
    log_files lp' (1, 5) = Some f \<and> use_id f = 0 \<and> use_total f = 1000 \<and> length (messages f) = 1000 \<and>
    (\<forall>m \<in> set (messages f). rm_iDataEffect m = NOEFFECT \<and> rm_filePos m = - 1 \<and> rm_startTime m = 0)"
proof -
  obtain lp' where e: "FS_CreateRecordLog 1 5 (fresh_point MAXMESSAGENUMBER record_zero 0) = (ALLRIGHT, lp')"
    unfolding FS_CreateRecordLog_def log_create_Nil [OF answers_fresh] by blast
  show ?thesis using e FS_CreateRecordLog_complete [OF e] by simp
qed

text \<open>A record log that has been created is found by the recorder with its first entry as the
  current one: the next recording is logged in it.\<close>

theorem created_log_records:
  assumes "answers (rec_lp w) = []" and "fileBuf (rec_lp w) \<noteq> None" and "0 \<le> d" and "5 \<le> p"
    and "need_reload (rec_lp w)"
  shows "\<exists>lp w' b'. FS_CreateRecordLog d p (rec_lp w) = (ALLRIGHT, lp) \<and>
    record_session d p s (w\<lparr>rec_lp := lp\<rparr>) = Some (ALLRIGHT, w') \<and> log_at MAXMESSAGENUMBER d p b' (rec_lp w') \<and>
    use_id b' = 1 \<and> session_of (messages b' ! 0) = s"
proof -
  let ?es = "map (\<lambda>i. \<lparr>rm_id = int i, rm_startTime = 0, rm_endTime = 0, rm_iDataEffect = NOEFFECT, rm_filePos = - 1,
        rm_iCam = 0, rm_ulOffSet = 0, rm_videoStandard = 0, rm_imageSize = 0, rm_rec_mode = - 1,
        rm_have_add_info = 0, rm_rec_size = 0\<rparr>) [0..<MAXMESSAGENUMBER]"
  let ?b = "\<lparr>use_id = 0, use_total = int (length ?es), messages = ?es\<rparr>"
  have "?es \<noteq> []" by (simp add: MAXMESSAGENUMBER_def)
  from log_create_at [OF assms(1-4) this disjI2 [OF disjI2 [OF assms(5)]]] obtain lp where
    c: "FS_CreateRecordLog d p (rec_lp w) = (ALLRIGHT, lp)" "answers lp = []" "log_at MAXMESSAGENUMBER d p ?b lp"
    by (auto simp: FS_CreateRecordLog_def)
  let ?w = "w\<lparr>rec_lp := lp\<rparr>"
  obtain w' where 1: "record_session d p s ?w = Some (ALLRIGHT, w')"
      "holding MAXMESSAGENUMBER d p (put_session (pb_standard ?w) (pb_size ?w) s ?b) (rec_lp w')"
    using record_session_at [of d p ?b ?w s] c(2,3) by auto
  have "use_id (put_session (pb_standard ?w) (pb_size ?w) s ?b) = 1"
    "session_of (messages (put_session (pb_standard ?w) (pb_size ?w) s ?b) ! 0) = s"
    by (simp_all add: put_session_def ring_put_def next_id_def session_of_entry MAXMESSAGENUMBER_def)
  then show ?thesis using c(1) 1(1) holding_log_at [OF 1(2)] by blast
qed

lemma created_log_records_witness:
  "\<exists>lp w' b'. FS_CreateRecordLog 2 6 (rec_lp ((recorder_start 0)\<lparr>rec_lp := (fresh_point MAXMESSAGENUMBER record_zero 0)\<lparr>need_reload := True\<rparr>\<rparr>)) = (ALLRIGHT, lp) \<and>
    record_session 2 6 (100, 200, 1, 7, 0, 5000) ((recorder_start 0)\<lparr>rec_lp := (fresh_point MAXMESSAGENUMBER record_zero 0)\<lparr>need_reload := True\<rparr>, rec_lp := lp\<rparr>) = Some (ALLRIGHT, w') \<and>
    log_at MAXMESSAGENUMBER 2 6 b' (rec_lp w') \<and> use_id b' = 1 \<and> session_of (messages b' ! 0) = (100, 200, 1, 7, 0, 5000)"
  by (rule created_log_records) (simp_all add: fresh_point_def)

text \<open>\<open>FS_DelRecLosMessage\<close> resets, in the visited partitions, exactly the entries that touch
  the given time (all of them when a disk is named, whose next index becomes 0), keeps the others
  and the logs of all other partitions, and always returns.\<close>

theorem FS_DelRecLosMessage_clears:
  assumes "\<And>k. k \<in> set (visited partitions format_ok disk) \<Longrightarrow> log_at MAXMESSAGENUMBER (fst k) (snd k) (B k) lp"
    and "answers lp = []" and "\<And>ps. ps \<in> set partitions \<Longrightarrow> distinct ps"
    and "- 1 \<le> disk" and "disk < int (length partitions)"
  shows "\<exists>lp'. FS_DelRecLosMessage partitions format_ok t1 t2 disk lp = Some (ALLRIGHT, lp') \<and>
    (\<forall>k \<in> set (visited partitions format_ok disk). log_at MAXMESSAGENUMBER (fst k) (snd k)
      (cleared_log (disk = fst k)
        (\<lambda>m. touches t1 t2 (rm_startTime m) (rm_endTime m) \<or> disk = fst k) cleared_record (B k)) lp') \<and>
    (\<forall>d p b. (d, p) \<notin> set (visited partitions format_ok disk) \<longrightarrow> log_at MAXMESSAGENUMBER d p b lp \<longrightarrow>
      log_at MAXMESSAGENUMBER d p b lp')"
proof -
  have "\<exists>lp'. clear_partitions MAXMESSAGENUMBER (store_msg record_zero) store_id (\<lambda>i. disk = i)
      (\<lambda>i m. touches t1 t2 (rm_startTime m) (rm_endTime m) \<or> disk = i) cleared_record
      (visited partitions format_ok disk) lp = Some (ALLRIGHT, lp') \<and> answers lp' = [] \<and>
    (\<forall>(d, p) \<in> set (visited partitions format_ok disk). log_at MAXMESSAGENUMBER d p
      (cleared_log (disk = d) (\<lambda>m. touches t1 t2 (rm_startTime m) (rm_endTime m) \<or> disk = d) cleared_record (B (d, p))) lp') \<and>
    (\<forall>d p b. (d, p) \<notin> set (visited partitions format_ok disk) \<longrightarrow> log_at MAXMESSAGENUMBER d p b lp \<longrightarrow>
      log_at MAXMESSAGENUMBER d p b lp')"
    using assms(1) by (intro direct.clear_partitions_at assms(2) visited_distinct assms(3)) force+
  then show ?thesis
    using assms(4,5) by (auto simp: FS_DelRecLosMessage_def log_clear_def split_beta)
qed

lemma FS_DelRecLosMessage_clears_witness:
  "\<exists>lp'. FS_DelRecLosMessage [[1, 5]] (\<lambda>i. True) 100 200 0 (fresh_point MAXMESSAGENUMBER record_zero 3) = Some (ALLRIGHT, lp') \<and>
    (\<forall>k \<in> set (visited [[1, 5]] (\<lambda>i. True) 0). log_at MAXMESSAGENUMBER (fst k) (snd k)
      (cleared_log (0 = fst k)
        (\<lambda>m. touches 100 200 (rm_startTime m) (rm_endTime m) \<or> 0 = fst k) cleared_record (full_log MAXMESSAGENUMBER record_zero 3)) lp') \<and>
    (\<forall>d p b. (d, p) \<notin> set (visited [[1, 5]] (\<lambda>i. True) 0) \<longrightarrow>
      log_at MAXMESSAGENUMBER d p b (fresh_point MAXMESSAGENUMBER record_zero 3) \<longrightarrow> log_at MAXMESSAGENUMBER d p b lp')"
proof (rule FS_DelRecLosMessage_clears)
  fix k assume "k \<in> set (visited [[1, 5]] (\<lambda>i. True) 0)"
  then have "k = (0, 5)" by (simp add: visited_def)
  then show "log_at MAXMESSAGENUMBER (fst k) (snd k) (full_log MAXMESSAGENUMBER record_zero 3)
      (fresh_point MAXMESSAGENUMBER record_zero 3)"
    by (simp add: log_at_fresh MAXMESSAGENUMBER_def)
qed simp_all

text \<open>When the log of another partition is read only in part, the buffer keeps the old
  partition's name: the next access to the old partition succeeds and answers from what was read.\<close>

theorem failed_reload_mixes_logs:
  assumes "holding MAXMESSAGENUMBER d p b lp" and "answers lp = [Complete, Torn t]"
    and "0 \<le> d'" and "5 \<le> p'" and "(d', p') \<noteq> (d, p)" and "log_files lp (d', p') \<noteq> None"
    and "0 \<le> i" and "i < use_total t"
  shows "\<exists>lp1 lp2. FS_GetPosRecordMessage d' p' j lp = Some (False, lp1) \<and>
    FS_GetPosRecordMessage d p i lp1 = Some (True, lp2) \<and> fileBuf lp2 = Some (overwritten t b)"
  using torn_load [OF assms, of j] unfolding record_log_defs by blast

lemma failed_reload_mixes_logs_witness:
  "\<exists>lp lp1 lp2. holding MAXMESSAGENUMBER 0 5 (full_log MAXMESSAGENUMBER record_zero 3) lp \<and>
    FS_GetPosRecordMessage 0 6 0 lp = Some (False, lp1) \<and>
    FS_GetPosRecordMessage 0 5 2 lp1 = Some (True, lp2) \<and>
    fileBuf lp2 = Some (overwritten \<lparr>use_id = 9, use_total = 1000, messages = [record_zero\<lparr>rm_startTime := 77\<rparr>]\<rparr>
      (full_log MAXMESSAGENUMBER record_zero 3))"
proof -
  let ?t = "\<lparr>use_id = 9, use_total = 1000, messages = [record_zero\<lparr>rm_startTime := 77\<rparr>]\<rparr> :: record_message mlog"
  let ?b = "full_log MAXMESSAGENUMBER record_zero 3"
  let ?lp = "(fresh_point MAXMESSAGENUMBER record_zero 3)\<lparr>pUseinfo := True, iPatitionId := 5, fileBuf := Some ?b,
    log_files := [(0, 5) \<mapsto> ?b, (0, 6) \<mapsto> ?b], answers := [Complete, Torn ?t]\<rparr>"
  have h: "holding MAXMESSAGENUMBER 0 5 ?b ?lp"
    by (simp add: holding_def fresh_point_def full_log_def log_ok_def file_holds_def MAXMESSAGENUMBER_def)
  from failed_reload_mixes_logs [OF h, of ?t 0 6 2 0] h show ?thesis by fastforce
qed

end
