(* ===== verification/Frame_Store.thy ===== *)
theory Frame_Store
  imports Io_File Record_Log
begin

text \<open>
  How the recorder puts frames into a pair of files: the record-write buffer of
  \<open>src/FileSystem/filesystem/FSfileoperate.c\<close> (\<open>FS_WriteOneFrame\<close> and what it calls), over the
  files of \<open>Io_File\<close>. The player is in \<open>Frame_Play\<close>.

  A \<open>FRAMEHEADERINFO\<close> is its 36 bytes in memory, since the code copies it as bytes between
  buffers and disk; its fields are read from these bytes. \<open>int\<close> and \<open>unsigned long\<close> have 32
  bits; the file offsets are words. Every transfer here follows a seek of its own descriptor, so
  the position of the device serves all four descriptors.
\<close>

section \<open>Frame headers\<close>

type_synonym frame_header = "byte list"

definition hdr_word :: "nat \<Rightarrow> frame_header \<Rightarrow> u32" where
  "hdr_word p h = bytes_u32 (take 4 (drop p h))"

definition ulDataLen :: "frame_header \<Rightarrow> u32" where "ulDataLen = hdr_word 0"
definition ulFrameType :: "frame_header \<Rightarrow> u32" where "ulFrameType = hdr_word 4"
definition ulTimeSec :: "frame_header \<Rightarrow> u32" where "ulTimeSec = hdr_word 8"
definition ulFrameDataOffset :: "frame_header \<Rightarrow> u32" where "ulFrameDataOffset = hdr_word 16"
definition hdr_type :: "frame_header \<Rightarrow> byte" where "hdr_type h = h ! 20"
definition iChannel :: "frame_header \<Rightarrow> int" where "iChannel h = sint (hdr_word 24 h)"
definition hdr_videoStandard :: "frame_header \<Rightarrow> int" where "hdr_videoStandard h = sint (h ! 28)"
definition hdr_imageSize :: "frame_header \<Rightarrow> int" where "hdr_imageSize h = sint (h ! 29)"

definition set_data_offset :: "u32 \<Rightarrow> frame_header \<Rightarrow> frame_header" where
  "set_data_offset off h = take 16 h @ u32_bytes off @ drop 20 h"

text \<open>\<open>'V'\<close> and \<open>'A'\<close>.\<close>

definition VIDEO :: byte where "VIDEO = 86"
definition AUDIO :: byte where "AUDIO = 65"

definition FTC_GetBit :: "int \<Rightarrow> int \<Rightarrow> int" where
  "FTC_GetBit iCam iBitSite = and (drop_bit (nat iBitSite) iCam) 1"

text \<open>\<open>max_chan\<close> is what \<open>GST_DRA_get_dvr_max_chan\<close> returns.\<close>

definition CheckFrameHeader :: "int \<Rightarrow> frame_header \<Rightarrow> int" where
  "CheckFrameHeader max_chan h =
     (if hdr_type h \<noteq> VIDEO \<and> hdr_type h \<noteq> AUDIO then ERROR
      else if iChannel h \<ge> max_chan \<or> iChannel h < 0 then ERROR
      else if ulDataLen h > 524288 \<or> ulDataLen h \<le> 0 then ERROR
      else ALLRIGHT)"

section \<open>State\<close>

text \<open>The sizes of \<open>FSfileoperate.c\<close> and \<open>filesystem.h\<close>; \<open>sizeof(FILEINFO)\<close>, \<open>sizeof(FRAMEHEADERINFO)\<close>.\<close>

definition WRITE_BUF_SYS_MAX_NUM :: int where "WRITE_BUF_SYS_MAX_NUM = 10"
definition WRITE_BUF_SYS_MAX_SAVE_NUM :: int where "WRITE_BUF_SYS_MAX_SAVE_NUM = 256 * 1024"
definition WRITE_BUF_SYS_MAX_DATA_NUM :: int where
  "WRITE_BUF_SYS_MAX_DATA_NUM = WRITE_BUF_SYS_MAX_SAVE_NUM + 256 * 1024"
definition WRITE_BUF_SYS_MAX_HEAD_NUM :: int where "WRITE_BUF_SYS_MAX_HEAD_NUM = 50 * 1024"
definition WRITE_BUF_SYS_BUF_MUST_WRITE :: int where "WRITE_BUF_SYS_BUF_MUST_WRITE = 99999"
definition READ_BUF_SYS_MAX_DATA_NUM :: int where "READ_BUF_SYS_MAX_DATA_NUM = 512 * 1024"
definition READ_BUF_SYS_MAX_HEAD_NUM :: int where "READ_BUF_SYS_MAX_HEAD_NUM = 50 * 1024"
definition READ_BUF_SYS_MAX_READ_NUM :: nat where "READ_BUF_SYS_MAX_READ_NUM = 20"
definition MAXFRAMEHEADOFFSET :: u32 where "MAXFRAMEHEADOFFSET = 3000000"
definition MAXFRAMEDATAOFFSET :: u32 where "MAXFRAMEDATAOFFSET = 128246208"
definition FILEFULL :: int where "FILEFULL = - 13"
definition PLAYOVER :: int where "PLAYOVER = - 14"
definition READBADFRAME :: int where "READBADFRAME = - 24"
definition READNOTHING :: int where "READNOTHING = 3"

lemmas buf_sizes = WRITE_BUF_SYS_MAX_NUM_def WRITE_BUF_SYS_MAX_SAVE_NUM_def WRITE_BUF_SYS_MAX_DATA_NUM_def
  WRITE_BUF_SYS_MAX_HEAD_NUM_def WRITE_BUF_SYS_BUF_MUST_WRITE_def READ_BUF_SYS_MAX_DATA_NUM_def
  READ_BUF_SYS_MAX_HEAD_NUM_def READ_BUF_SYS_MAX_READ_NUM_def
lemmas play_codes = FILEFULL_def PLAYOVER_def READBADFRAME_def READNOTHING_def

text \<open>\<open>WRTIE_BUF\<close>: a buffer is \<open>None\<close> for NULL or the bytes of its block.\<close>

record write_buf =
  head_buf :: "(nat \<Rightarrow> byte) option"
  data_buf :: "(nat \<Rightarrow> byte) option"
  head_size :: int
  data_size :: int
  create_flag :: int
  conut :: int
  buf_offset :: int
  data_offset_start :: int
  head_offset_start :: int

text \<open>
  The globals of \<open>FSfileoperate.c\<close> the functions work on. \<open>flush_count\<close> is the static
  \<open>iCount\<close> of \<open>FS_write_buf_write_to_file\<close>; \<open>rec_file_size\<close> is in \<open>rec_logs\<close>.
\<close>

record frame_store =
  store_dev :: blkdev
  rec_header_filest :: io_file
  rec_data_filest :: io_file
  play_header_filest :: io_file
  play_data_filest :: io_file
  g_rec_write_buf :: write_buf
  g_play_read_buf :: write_buf
  g_ulFrameHeaderOffset :: u32
  g_ulFileDataOffset :: u32
  ulPlayFrameHeaderOffset :: u32
  ulPlayFrameHeaderEndOffset :: u32
  curtime :: u32
  lasttime :: u32
  flush_count :: int
  rec_logs :: recorder

text \<open>Access to a block of \<open>cap\<close> bytes.\<close>

definition block_write :: "int \<Rightarrow> (nat \<Rightarrow> byte) option \<Rightarrow> int \<Rightarrow> byte list \<Rightarrow> (nat \<Rightarrow> byte) option" where
  "block_write cap m off bs =
     (case m of None \<Rightarrow> None
      | Some f \<Rightarrow> if 0 \<le> off \<and> off + int (length bs) \<le> cap then Some (overlay f (nat off) bs) else None)"

definition block_read :: "int \<Rightarrow> (nat \<Rightarrow> byte) option \<Rightarrow> int \<Rightarrow> int \<Rightarrow> byte list option" where
  "block_read cap m off n =
     (case m of None \<Rightarrow> None
      | Some f \<Rightarrow> if 0 \<le> off \<and> 0 \<le> n \<and> off + n \<le> cap then Some (segment f (nat off) (nat n)) else None)"

text \<open>The value of a 32-bit \<open>int\<close>.\<close>

abbreviation to_int32 :: "int \<Rightarrow> int" where
  "to_int32 x \<equiv> sint (word_of_int x :: u32)"

section \<open>Recording\<close>

text \<open>\<open>head\<close> and \<open>data\<close> are the answers of \<open>malloc\<close>.\<close>

definition zero_buf :: write_buf where
  "zero_buf = \<lparr>head_buf = None, data_buf = None, head_size = 0, data_size = 0, create_flag = 0,
     conut = 0, buf_offset = 0, data_offset_start = 0, head_offset_start = 0\<rparr>"

definition buf_sys_init :: "(nat \<Rightarrow> byte) option \<Rightarrow> (nat \<Rightarrow> byte) option \<Rightarrow> int \<times> write_buf" where
  "buf_sys_init data head =
     (case (data, head) of
        (Some d, Some h) \<Rightarrow> (1, zero_buf\<lparr>data_buf := Some d, head_buf := Some h, create_flag := 1\<rparr>)
      | _ \<Rightarrow> (- 1, zero_buf))"

definition FS_write_buf_sys_init :: "(nat \<Rightarrow> byte) option \<Rightarrow> (nat \<Rightarrow> byte) option \<Rightarrow> frame_store \<Rightarrow> int \<times> frame_store" where
  "FS_write_buf_sys_init data head s =
     (let (r, b) = buf_sys_init data head in (r, s\<lparr>g_rec_write_buf := b\<rparr>))"

definition FS_write_buf_sys_destroy :: "frame_store \<Rightarrow> frame_store" where
  "FS_write_buf_sys_destroy s =
     s\<lparr>g_rec_write_buf := (g_rec_write_buf s)\<lparr>data_buf := None, head_buf := None, conut := 0,
        data_size := 0, head_size := 0, create_flag := 0\<rparr>\<rparr>"

text \<open>
  \<open>buf1\<close> is the header, \<open>buf2\<close> the memory at the frame data, of which \<open>size2\<close> bytes are
  copied.
\<close>

definition FS_write_buf_sys_data :: "byte list \<Rightarrow> byte list \<Rightarrow> int \<Rightarrow> write_buf \<Rightarrow> (int \<times> write_buf) option" where
  "FS_write_buf_sys_data buf1 buf2 size2 b =
     (if create_flag b \<noteq> 1 then Some (- 1, b)
      else if to_int32 (data_size b + size2) \<ge> WRITE_BUF_SYS_MAX_DATA_NUM
      then Some (WRITE_BUF_SYS_BUF_MUST_WRITE, b)
      else if size2 < 0 \<or> int (length buf2) < size2 then None
      else do {
        h \<leftarrow> block_write WRITE_BUF_SYS_MAX_HEAD_NUM (head_buf b) (head_size b) buf1;
        d \<leftarrow> block_write WRITE_BUF_SYS_MAX_DATA_NUM (data_buf b) (data_size b) (take (nat size2) buf2);
        let b1 = b\<lparr>head_buf := Some h, head_size := head_size b + int (length buf1),
                    data_buf := Some d, data_size := data_size b + size2, conut := conut b + 1\<rparr>;
        Some (if head_size b1 \<ge> WRITE_BUF_SYS_MAX_HEAD_NUM - 30 * 1024 then (WRITE_BUF_SYS_BUF_MUST_WRITE, b1)
              else if data_size b1 \<ge> WRITE_BUF_SYS_MAX_DATA_NUM - WRITE_BUF_SYS_MAX_SAVE_NUM
              then (WRITE_BUF_SYS_BUF_MUST_WRITE, b1)
              else (conut b1, b1))
      })"

text \<open>The loop that fills in the data offsets, from header \<open>k\<close> on.\<close>

fun fix_offsets :: "nat \<Rightarrow> u32 \<Rightarrow> nat \<Rightarrow> (nat \<Rightarrow> byte) \<Rightarrow> (nat \<Rightarrow> byte) option" where
  "fix_offsets 0 off k f = Some f"
| "fix_offsets (Suc n) off k f =
     (if WRITE_BUF_SYS_MAX_HEAD_NUM < int (36 * k + 36) then None
      else fix_offsets n (off + ulDataLen (segment f (36 * k) 36)) (Suc k) (overlay f (36 * k + 16) (u32_bytes off)))"

text \<open>The sync and the log entry after every 31 flushes.\<close>

definition flush_done :: "frame_store \<Rightarrow> (int \<times> frame_store) option" where
  "flush_done s =
     (let s1 = s\<lparr>flush_count := flush_count s + 1\<rparr> in
      if flush_count s1 \<le> 30 then Some (ALLRIGHT, s1)
      else
        let (_, df, d1) = file_io_sync (rec_data_filest s1) (store_dev s1);
            (_, hf, d2) = file_io_sync (rec_header_filest s1) d1;
            s2 = s1\<lparr>flush_count := 0, store_dev := d2, rec_data_filest := df, rec_header_filest := hf\<rparr>
        in do {
          (rel, w) \<leftarrow> fs_write_rec_size_to_log (rec_logs s2);
          Some (if rel < 0 then FILEERROR else ALLRIGHT, s2\<lparr>rec_logs := w\<rparr>)
        })"

definition FS_write_buf_write_to_file :: "frame_store \<Rightarrow> (int \<times> frame_store) option" where
  "FS_write_buf_write_to_file s =
     (let b = g_rec_write_buf s in
      if create_flag b \<noteq> 1 then Some (- 1, s)
      else if conut b = 0 then Some (0, s)
      else do {
        f \<leftarrow> head_buf b;
        h \<leftarrow> fix_offsets (nat (conut b)) (g_ulFileDataOffset s) 0 f;
        let b1 = b\<lparr>head_buf := Some h\<rparr>;
        let (r, hf, d1) = file_io_lseek (uint (g_ulFrameHeaderOffset s)) 0 (rec_header_filest s) (store_dev s);
        let s1 = s\<lparr>g_rec_write_buf := b1, rec_header_filest := hf, store_dev := d1\<rparr>;
        if r = - 1 then Some (FILEERROR, s1)
        else do {
          hbytes \<leftarrow> block_read WRITE_BUF_SYS_MAX_HEAD_NUM (head_buf b1) 0 (head_size b1);
          let (r, hf, d2) = file_io_write hbytes hf d1;
          let s2 = s1\<lparr>rec_header_filest := hf, store_dev := d2\<rparr>;
          if r \<noteq> head_size b1 then Some (FILEERROR, s2)
          else
            let s3 = s2\<lparr>g_ulFrameHeaderOffset := g_ulFrameHeaderOffset s2 + word_of_int (head_size b1)\<rparr>;
                (r, df, d3) = file_io_lseek (uint (g_ulFileDataOffset s3)) 0 (rec_data_filest s3) d2;
                s4 = s3\<lparr>rec_data_filest := df, store_dev := d3\<rparr>
            in if r = - 1 then Some (FILEERROR, s4)
            else do {
              dbytes \<leftarrow> block_read WRITE_BUF_SYS_MAX_DATA_NUM (data_buf b1) 0 (data_size b1);
              let (r, df, d4) = file_io_write dbytes df d3;
              let s5 = s4\<lparr>rec_data_filest := df, store_dev := d4\<rparr>;
              if r \<noteq> data_size b1
              then Some (FILEERROR, s5\<lparr>g_ulFrameHeaderOffset := g_ulFrameHeaderOffset s5 - word_of_int (head_size b1)\<rparr>)
              else flush_done (s5\<lparr>
                g_ulFileDataOffset := g_ulFileDataOffset s5 + word_of_int (data_size b1),
                rec_logs := (rec_logs s5)\<lparr>rec_file_size := rec_file_size (rec_logs s5)
                  + word_of_int (data_size b1) + word_of_int (head_size b1)\<rparr>,
                g_rec_write_buf := b1\<lparr>conut := 0, data_size := 0, head_size := 0\<rparr>\<rparr>)
            }
        }
      })"

definition FS_WriteOneFrame :: "frame_header \<Rightarrow> byte list \<Rightarrow> frame_store \<Rightarrow> (int \<times> frame_store) option" where
  "FS_WriteOneFrame h FrameData s = do {
     (rel, b) \<leftarrow> FS_write_buf_sys_data h FrameData (sint (ulDataLen h)) (g_rec_write_buf s);
     let s1 = s\<lparr>g_rec_write_buf := b\<rparr>;
     if rel < 0 then Some (0, s1)
     else if rel = WRITE_BUF_SYS_BUF_MUST_WRITE then FS_write_buf_write_to_file s1
     else if rel > WRITE_BUF_SYS_MAX_NUM then FS_write_buf_write_to_file s1
     else Some (1, s1)
   }"

definition FS_CheckRecFile :: "frame_store \<Rightarrow> int" where
  "FS_CheckRecFile s =
     (if g_ulFileDataOffset s > MAXFRAMEDATAOFFSET then FILEFULL
      else if g_ulFrameHeaderOffset s > MAXFRAMEHEADOFFSET then FILEFULL else ALLRIGHT)"

section \<open>Opening a pair of files\<close>

text \<open>
  What the world answers to an open: the descriptor, the value of the uninitialised \<open>ret\<close> and
  the time. \<open>path\<close> is \<open>/tddvr/sdXp/video_n\<close>: the disk is cut out of it, the name starts at
  character 12. When an open fails both handles are closed.
\<close>

type_synonym open_answer = "int \<times> int \<times> tm"

definition pair_dev :: "byte list \<Rightarrow> byte list" where
  "pair_dev path = bytes_of ''/dev'' @ take 4 (drop 6 path) @ bytes_of ''6''"

definition open_named :: "open_answer \<Rightarrow> byte list \<Rightarrow> string \<Rightarrow> string \<Rightarrow> blkdev \<Rightarrow> (int \<times> io_file \<times> blkdev) option" where
  "open_named a path ext mode d =
     (case a of (fd, ret0, t) \<Rightarrow>
        file_io_open fd ret0 t (pair_dev path) (drop 12 path @ bytes_of ext) mode 0 d)"

definition close_pair :: "io_file \<Rightarrow> io_file \<Rightarrow> blkdev \<Rightarrow> io_file \<times> io_file \<times> blkdev" where
  "close_pair hf df d =
     (let (_, hf1, d1) = file_io_close hf d; (_, df1, d2) = file_io_close df d1 in (hf1, df1, d2))"

definition open_pair :: "open_answer \<Rightarrow> open_answer \<Rightarrow> byte list \<Rightarrow> string \<Rightarrow> io_file \<Rightarrow> blkdev \<Rightarrow>
    (int \<times> io_file \<times> io_file \<times> blkdev) option" where
  "open_pair a1 a2 path mode df d = do {
     (r, hf, d1) \<leftarrow> open_named a1 path ''.avh'' mode d;
     if r < 0 then Some (FILEERROR, close_pair hf df d1)
     else do {
       (r, df, d2) \<leftarrow> open_named a2 path ''.avd'' mode d1;
       Some (if r < 0 then (FILEERROR, close_pair hf df d2) else (ALLRIGHT, hf, df, d2))
     }
   }"

definition fs_open_record_file :: "open_answer \<Rightarrow> open_answer \<Rightarrow> byte list \<Rightarrow> int \<Rightarrow> frame_store \<Rightarrow>
    (int \<times> frame_store) option" where
  "fs_open_record_file a1 a2 path reopen s = do {
     (r, hf, df, d) \<leftarrow> open_pair a1 a2 path (if reopen = 1 then ''w'' else ''+'') (rec_data_filest s) (store_dev s);
     Some (r, s\<lparr>rec_header_filest := hf, rec_data_filest := df, store_dev := d\<rparr>)
   }"

text \<open>
  The descriptor of a handle that was opened or written last stands where the handle says; the
  other handle has moved the device meanwhile.
\<close>

definition at_handle :: "io_file \<Rightarrow> blkdev \<Rightarrow> blkdev" where
  "at_handle f d = d\<lparr>dev_pos := nat (diskoffset f + fileoffset f)\<rparr>"

text \<open>
  What \<open>FS_OpenRecFile\<close> does with the two files: a new one gets its \<open>FILEINFO\<close> (56 bytes)
  at the front; in one that was closed before, recording goes on at \<open>ulOffSet\<close>, the data after
  that of the last frame. The first component of \<open>resume_file\<close> tells that the file is given up
  and another is taken.
\<close>

definition start_new_file :: "byte list \<Rightarrow> frame_store \<Rightarrow> int \<times> frame_store" where
  "start_new_file info s =
     (let (r, hf, d1) = file_io_write info (rec_header_filest s) (at_handle (rec_header_filest s) (store_dev s))
      in if r \<noteq> 56 then (FILEERROR, s\<lparr>rec_header_filest := hf, store_dev := d1\<rparr>)
      else let (_, hf, d2) = file_io_sync hf d1
      in (ALLRIGHT, s\<lparr>rec_header_filest := hf, store_dev := d2, g_ulFrameHeaderOffset := 56, g_ulFileDataOffset := 0\<rparr>))"

definition resume_file :: "u32 \<Rightarrow> frame_store \<Rightarrow> bool \<times> int \<times> frame_store" where
  "resume_file ulOffSet s =
     (let s1 = s\<lparr>g_ulFrameHeaderOffset := ulOffSet\<rparr>
      in if sint (ulOffSet - 2 * 36 - 56) < 0 then (True, FILEERROR, s1)
      else
        let closed = (\<lambda>hf d. case close_pair hf (rec_data_filest s) d of
              (hf, df, d) \<Rightarrow> s1\<lparr>rec_header_filest := hf, rec_data_filest := df, store_dev := d\<rparr>);
            (r, hf, d1) = file_io_lseek (uint (ulOffSet - 36)) 0 (rec_header_filest s) (store_dev s)
        in if r = - 1 then (False, FILEERROR, closed hf d1)
        else let (r, h, hf, d2) = file_io_read 36 hf d1
        in if r \<noteq> 36 then (False, FILEERROR, closed hf d2)
        else (False, ALLRIGHT, s1\<lparr>rec_header_filest := hf, store_dev := d2,
               g_ulFileDataOffset := ulFrameDataOffset h + ulDataLen h\<rparr>))"

section \<open>Frames in memory and on the disk\<close>

type_synonym frame = "frame_header \<times> byte list"

text \<open>A header that says how much data its frame has.\<close>

definition frame_ok :: "frame \<Rightarrow> bool" where
  "frame_ok fr \<longleftrightarrow> length (fst fr) = 36 \<and> uint (ulDataLen (fst fr)) = int (length (snd fr))"

definition data_bytes :: "frame list \<Rightarrow> byte list" where
  "data_bytes fs = concat (map snd fs)"

text \<open>The headers as they lie on the disk when the data of the first one is at offset \<open>o\<close>.\<close>

fun with_offsets :: "nat \<Rightarrow> frame list \<Rightarrow> frame_header list" where
  "with_offsets k [] = []"
| "with_offsets k (fr # fs) = set_data_offset (of_nat k) (fst fr) # with_offsets (k + length (snd fr)) fs"

lemma data_bytes_simps [simp]: "data_bytes [] = []" "data_bytes (fr # fs) = snd fr @ data_bytes fs"
  "data_bytes (fs @ gs) = data_bytes fs @ data_bytes gs"
  by (simp_all add: data_bytes_def)

lemma with_offsets_append:
  "with_offsets k (fs @ gs) = with_offsets k fs @ with_offsets (k + length (data_bytes fs)) gs"
  by (induction fs arbitrary: k) (simp_all add: add.assoc)

lemma length_with_offsets [simp]: "length (with_offsets k fs) = length fs"
  by (induction fs arbitrary: k) simp_all

lemma length_set_data_offset [simp]: "length h = 36 \<Longrightarrow> length (set_data_offset x h) = 36"
  by (simp add: set_data_offset_def)

lemma set_data_offset_twice [simp]: "length h = 36 \<Longrightarrow> set_data_offset x (set_data_offset y h) = set_data_offset x h"
  by (simp add: set_data_offset_def)

lemma ulFrameDataOffset_set [simp]: "length h = 36 \<Longrightarrow> ulFrameDataOffset (set_data_offset x h) = x"
  by (simp add: ulFrameDataOffset_def hdr_word_def set_data_offset_def codec_simps)

lemma hdr_word_set: "length h = 36 \<Longrightarrow> p + 4 \<le> 16 \<or> 20 \<le> p \<Longrightarrow> hdr_word p (set_data_offset x h) = hdr_word p h"
  by (erule disjE) (auto simp: hdr_word_def set_data_offset_def drop_take min_def)

lemma hdr_byte_set: "length h = 36 \<Longrightarrow> 20 \<le> p \<Longrightarrow> p < 36 \<Longrightarrow> set_data_offset x h ! p = h ! p"
  by (auto simp: set_data_offset_def nth_append)

lemma header_fields_set [simp]:
  assumes "length h = 36"
  shows "ulDataLen (set_data_offset x h) = ulDataLen h" "ulFrameType (set_data_offset x h) = ulFrameType h"
    "ulTimeSec (set_data_offset x h) = ulTimeSec h" "hdr_type (set_data_offset x h) = hdr_type h"
    "iChannel (set_data_offset x h) = iChannel h"
    "CheckFrameHeader m (set_data_offset x h) = CheckFrameHeader m h"
  using assms
  by (simp_all add: ulDataLen_def ulFrameType_def ulTimeSec_def hdr_type_def iChannel_def hdr_word_set hdr_byte_set
      CheckFrameHeader_def)

lemma length_concat_headers:
  "list_all frame_ok fs \<Longrightarrow> length (concat (with_offsets k fs)) = 36 * length fs"
  by (induction fs arbitrary: k) (simp_all add: frame_ok_def)

lemma ulDataLen_frame: "frame_ok fr \<Longrightarrow> ulDataLen (fst fr) = of_nat (length (snd fr))"
  by (simp add: frame_ok_def word_uint_eq_iff) (metis of_int_of_nat_eq word_of_int_uint)

text \<open>The \<open>k\<close>-th header in a block of memory.\<close>

definition header_at :: "(nat \<Rightarrow> byte) \<Rightarrow> nat \<Rightarrow> frame_header" where
  "header_at f k = segment f (36 * k) 36"

lemma overlay_offset:
  "header_at (overlay f (36 * k + 16) (u32_bytes x)) k = set_data_offset x (header_at f k)"
  by (rule nth_equalityI)
    (auto simp: header_at_def segment_nth overlay_def set_data_offset_def nth_append)

lemma header_at_overlay_other:
  "j \<noteq> k \<Longrightarrow> header_at (overlay f (36 * k + 16) (u32_bytes x)) j = header_at f j"
  unfolding header_at_def by (rule segment_overlay_disjoint) (simp, arith)

text \<open>The correcting loop puts the offsets into the headers, whatever offsets they had.\<close>

lemma fix_offsets_result:
  assumes "list_all frame_ok fs" and "\<And>i. i < length fs \<Longrightarrow> \<exists>x. header_at f (k + i) = set_data_offset x (fst (fs ! i))"
    and "36 * (k + length fs) \<le> 50 * 1024"
  shows "\<exists>f'. fix_offsets (length fs) (of_nat o1) k f = Some f' \<and> segment f' (36 * k) (36 * length fs) = concat (with_offsets o1 fs) \<and>
    (\<forall>i < 36 * k. f' i = f i)"
  using assms
proof (induction fs arbitrary: f k o1)
  case Nil
  then show ?case by (simp add: segment_def)
next
  case (Cons fr fs)
  obtain x where x: "header_at f k = set_data_offset x (fst fr)" using Cons.prems(2) [of 0] by auto
  have l: "length (fst fr) = 36" using Cons.prems(1) by (simp add: frame_ok_def)
  let ?f = "overlay f (36 * k + 16) (u32_bytes (of_nat o1))"
  have fk: "header_at ?f k = set_data_offset (of_nat o1) (fst fr)" using x l by (simp add: overlay_offset)
  have "ulDataLen (segment f (36 * k) 36) = of_nat (length (snd fr))"
    using x l Cons.prems(1) by (simp add: ulDataLen_frame flip: header_at_def)
  moreover have "\<exists>f'. fix_offsets (length fs) (of_nat (o1 + length (snd fr))) (Suc k) ?f = Some f' \<and>
      segment f' (36 * Suc k) (36 * length fs) = concat (with_offsets (o1 + length (snd fr)) fs) \<and> (\<forall>i < 36 * Suc k. f' i = ?f i)"
  proof (rule Cons.IH)
    show "list_all frame_ok fs" "36 * (Suc k + length fs) \<le> 50 * 1024" using Cons.prems by simp_all
    fix i assume "i < length fs"
    then show "\<exists>x. header_at ?f (Suc k + i) = set_data_offset x (fst (fs ! i))"
      using Cons.prems(2) [of "Suc i"] by (simp add: header_at_overlay_other)
  qed
  then obtain f' where f': "fix_offsets (length fs) (of_nat (o1 + length (snd fr))) (Suc k) ?f = Some f'"
      "segment f' (36 * Suc k) (36 * length fs) = concat (with_offsets (o1 + length (snd fr)) fs)" "\<forall>i < 36 * Suc k. f' i = ?f i"
    by blast
  moreover have "segment f' (36 * k) 36 = set_data_offset (of_nat o1) (fst fr)"
    using fk f'(3) unfolding header_at_def by (subst segment_cong [of _ _ f' ?f]) auto
  then have "segment f' (36 * k) (36 * length (fr # fs)) = concat (with_offsets o1 (fr # fs))"
    using f'(2) segment_append [of f' "36 * k" 36 "36 * length fs"] by (simp add: add.commute)
  moreover have "\<forall>i < 36 * k. f' i = f i" using f'(3) by (auto simp: overlay_def)
  ultimately show ?case using Cons.prems(3) by (simp add: buf_sizes)
qed

section \<open>What the recorder keeps\<close>

text \<open>The frames of a pair of files on the device: headers from byte 56 on, data from byte 0 on.\<close>

definition header_bytes :: "nat \<Rightarrow> nat \<Rightarrow> nat \<Rightarrow> blkdev \<Rightarrow> byte list" where
  "header_bytes i k n d = segment (dev_bytes d) (nat (video_start (2 * i)) + 56 + 36 * k) n"

definition frame_bytes :: "nat \<Rightarrow> nat \<Rightarrow> nat \<Rightarrow> blkdev \<Rightarrow> byte list" where
  "frame_bytes i k n d = segment (dev_bytes d) (nat (video_start (2 * i + 1)) + k) n"

definition stored_frames :: "nat \<Rightarrow> frame list \<Rightarrow> blkdev \<Rightarrow> bool" where
  "stored_frames i fs d \<longleftrightarrow> list_all frame_ok fs \<and>
     header_bytes i 0 (36 * length fs) d = concat (with_offsets 0 fs) \<and>
     frame_bytes i 0 (length (data_bytes fs)) d = data_bytes fs"

text \<open>The buffered frames; a failed flush has already put offsets into their headers.\<close>

definition buffered :: "frame list \<Rightarrow> write_buf \<Rightarrow> bool" where
  "buffered bs b \<longleftrightarrow> create_flag b = 1 \<and> list_all frame_ok bs \<and> conut b = int (length bs) \<and>
     head_size b = 36 * int (length bs) \<and> data_size b = int (length (data_bytes bs)) \<and>
     head_size b \<le> WRITE_BUF_SYS_MAX_HEAD_NUM \<and> data_size b \<le> WRITE_BUF_SYS_MAX_DATA_NUM \<and>
     (\<exists>hf df. head_buf b = Some hf \<and> data_buf b = Some df \<and>
        (\<forall>k < length bs. \<exists>x. header_at hf k = set_data_offset x (fst (bs ! k))) \<and>
        segment df 0 (length (data_bytes bs)) = data_bytes bs)"

text \<open>The files of pair \<open>i\<close> are open for recording and hold \<open>fs\<close>.\<close>

definition recording :: "nat \<Rightarrow> frame list \<Rightarrow> frame_store \<Rightarrow> bool" where
  "recording i fs s \<longleftrightarrow>
     opened (2 * i) (rec_header_filest s) (store_dev s) \<and> opened (2 * i + 1) (rec_data_filest s) (store_dev s) \<and>
     stored_frames i fs (store_dev s) \<and>
     g_ulFrameHeaderOffset s = of_nat (56 + 36 * length fs) \<and> g_ulFileDataOffset s = of_nat (length (data_bytes fs)) \<and>
     int (56 + 36 * length fs) \<le> io_size (rec_header_filest s) \<and>
     int (length (data_bytes fs)) \<le> io_size (rec_data_filest s)"

text \<open>The record log is in its buffer; what its file answers does not matter then.\<close>

definition log_loaded :: "recorder \<Rightarrow> bool" where
  "log_loaded w \<longleftrightarrow> (\<exists>b. fileBuf (rec_lp w) = Some b \<and> log_ok MAXMESSAGENUMBER b) \<and> pUseinfo (rec_lp w) \<and>
     log_key (rec_lp w) = (logpos_disk w, logpos_part w) \<and> \<not> need_reload (rec_lp w) \<and>
     0 \<le> logpos_disk w \<and> 5 \<le> logpos_part w"

lemma opened_dev: "opened j f d \<Longrightarrow> dev_size d' = dev_size d \<Longrightarrow> opened j f d'"
  by (simp add: opened_def)

lemma video_max_even [simp]: "video_max (2 * i) = 3145728" and video_max_odd [simp]: "video_max (Suc (2 * i)) = 131072000"
  by (simp_all add: video_max_def)

lemma opened_small: "opened j f d \<Longrightarrow> io_size f < 2 ^ 31"
  by (auto simp: opened_def video_max_def split: if_splits)

text \<open>A segment of an extent, when the extent is kept.\<close>

lemma segment_in_extent:
  assumes "int (a + n) \<le> video_max j"
  shows "segment (dev_bytes d) (nat (video_start j) + a) n = take n (drop a (extent d j))"
  using assms by (intro nth_equalityI) (auto simp: segment_nth extent_def nat_le_iff ac_simps)

lemma extent_kept:
  assumes "changes_only j d d'" and "p \<noteq> j" and "2097152 + 144 * Suc j \<le> 104857600" and "int (a + n) \<le> video_max p"
  shows "segment (dev_bytes d') (nat (video_start p) + a) n = segment (dev_bytes d) (nat (video_start p) + a) n"
  using changes_only_others(2) [OF assms(1-3)] assms(4) by (simp add: segment_in_extent)

text \<open>
  On a device that answers in full: the table of \<open>n\<close> pairs is in order and agrees with the two
  handles.
\<close>

definition low_kept :: "blkdev \<Rightarrow> blkdev \<Rightarrow> bool" where
  "low_kept d d' \<longleftrightarrow> dev_size d' = dev_size d \<and> (\<forall>x < 104857600. dev_bytes d' x = dev_bytes d x) \<and>
     (dev_answers d = [] \<longrightarrow> dev_answers d' = [])"

definition quiet :: "nat \<Rightarrow> nat \<Rightarrow> frame_store \<Rightarrow> bool" where
  "quiet n i s \<longleftrightarrow> dev_answers (store_dev s) = [] \<and> table_ok n (store_dev s) \<and> i < n \<and> 2097152 + 288 * n \<le> 104857600 \<and>
     stored_info (store_dev s) (2 * i) = io_info (rec_header_filest s) \<and>
     stored_info (store_dev s) (2 * i + 1) = io_info (rec_data_filest s)"

lemma low_kept_trans: "low_kept d d1 \<Longrightarrow> low_kept d1 d2 \<Longrightarrow> low_kept d d2"
  by (simp add: low_kept_def)

lemma low_kept_info:
  assumes "low_kept d d'" and "2097152 + 144 * Suc j \<le> 104857600"
  shows "stored_info d' j = stored_info d j" "stored_total d' = stored_total d"
  using assms unfolding stored_info_def stored_total_def IO_DISK_FILE_INFO_OFFSET_def IO_DISK_START_OFFSET_def low_kept_def
  by (auto intro!: arg_cong [where f = bytes_info] arg_cong [where f = bytes_total] segment_cong)

lemma quiet_low_kept:
  assumes "quiet n i s" and "low_kept (store_dev s) (store_dev s')"
    and "io_info (rec_header_filest s') = io_info (rec_header_filest s)" "io_info (rec_data_filest s') = io_info (rec_data_filest s)"
  shows "quiet n i s'"
proof -
  have n: "2097152 + 288 * n \<le> 104857600" "i < n" using assms(1) by (simp_all add: quiet_def)
  have "stored_info (store_dev s') j = stored_info (store_dev s) j" if "j < 2 * n" for j
    using low_kept_info(1) [OF assms(2)] n that by simp
  moreover have "stored_total (store_dev s') = stored_total (store_dev s)"
    by (rule low_kept_info(2) [OF assms(2), of 0]) simp
  ultimately show ?thesis using assms n by (auto simp: quiet_def table_ok_def low_kept_def)
qed

text \<open>Seek and write, whatever the kernel answers.\<close>

lemma seek_write:
  assumes "opened j f d" and "0 \<le> off" and "off \<le> io_size f" and "j < 2 ^ 21"
  obtains r f1 d1 q f2 d2 where "file_io_lseek off w f d = (r, f1, d1)" "r \<noteq> - 1"
    "file_io_write bs f1 d1 = (q, f2, d2)" "opened j f1 d1" "dev_bytes d1 = dev_bytes d" "io_size f1 = io_size f"
    "dev_size d1 = dev_size d" "opened j f2 d2" "dev_size d2 = dev_size d" "changes_only j d d2" "io_size f \<le> io_size f2"
    "low_kept d d2" "io_info f2 = io_info f"
    "\<exists>k. dev_bytes d2 = overlay (dev_bytes d) (nat (video_start j + off)) (take k bs)"
    "q = int (length bs) \<Longrightarrow> dev_bytes d2 = overlay (dev_bytes d) (nat (video_start j + off)) bs"
    "q = int (length bs) \<Longrightarrow> off + int (length bs) \<le> io_size f2"
    "q \<noteq> int (length bs) \<Longrightarrow> q \<le> 0"
proof -
  obtain r f1 d1 where s: "file_io_lseek off w f d = (r, f1, d1)" by (metis prod_cases3)
  have o: "diskoffset f = video_start j" "disk_offset (io_info f) = video_start j" "io_size f \<le> video_max j"
    "file_max_size (io_info f) = video_max j" "video_start j + video_max j \<le> int (dev_size d)"
    using assms(1) by (auto simp: opened_def names_entry_def)
  have r: "r \<noteq> - 1 \<and> f1 = f\<lparr>fileoffset := off\<rparr> \<and> d1 = d\<lparr>dev_pos := nat (video_start j + off)\<rparr> \<and> opened j f1 d1 \<and> placed f1 d1"
    using s assms(1)
  proof (cases rule: file_io_lseek_cases)
    case no
    have "IO_Lseek d (video_start j + off) = (video_start j + off, d\<lparr>dev_pos := nat (video_start j + off)\<rparr>)"
      using o assms(2,3) video_bounds(1) [of j] by (intro IO_Lseek_ok) auto
    then show ?thesis using s no(1) o assms(2,3) video_bounds(1) [of j]
      by (auto simp: file_io_lseek_def Let_def)
  qed auto
  obtain q f2 d2 where w: "file_io_write bs f1 d1 = (q, f2, d2)" by (metis prod_cases3)
  from r have oo: "opened j f1 d1" "placed f1 d1" by auto
  note res = file_io_write_result [OF w oo]
  have "io_step (Put off bs) (f, d) = (f2, d2)"
    using r w s by simp (use s in \<open>auto simp: file_io_lseek_def Let_def split: if_splits\<close>)
  then have "changes_only j d d2" using io_step_keeps [OF assms(1,4)] by blast
  moreover have "io_size f \<le> io_size f2"
    using w r by (auto simp: file_io_write_def Let_def split: if_splits prod.splits)
  moreover have "q = int (length bs) \<Longrightarrow> dev_bytes d2 = overlay (dev_bytes d) (nat (video_start j + off)) bs \<and> off + int (length bs) \<le> io_size f2"
  proof (cases "bs = []")
    case True
    then show ?thesis using w r assms(3)
      by (auto simp: file_io_write_def Let_def IO_Write_def io_write_loop.simps split: if_splits)
  next
    case False
    assume "q = int (length bs)"
    then show ?thesis using res r False by auto
  qed
  moreover have "q \<noteq> int (length bs) \<Longrightarrow> q \<le> 0" using res by (meson not_le)
  moreover have "low_kept d d2"
  proof -
    have "dev_answers d2 = []" if "dev_answers d = []"
    proof (cases "fileoffset f1 + int (length bs) > video_max j")
      case True
      then show ?thesis using w r o that by (auto simp: file_io_write_def)
    next
      case False
      then have "IO_Write bs d1 = (int (length bs), d1\<lparr>dev_bytes := overlay (dev_bytes d1) (dev_pos d1) bs, dev_pos := dev_pos d1 + length bs\<rparr>)"
        using r o that assms(2) video_bounds(1) [of j] by (intro IO_Write_ready) auto
      then show ?thesis using w r o that False by (auto simp: file_io_write_def Let_def split: if_splits)
    qed
    moreover obtain k where "dev_bytes d2 = overlay (dev_bytes d) (nat (video_start j + off)) (take k bs)" using res r by auto
    then have "dev_bytes d2 x = dev_bytes d x" if "x < 104857600" for x
      using that video_bounds(3) [of j] assms(2) by (auto simp: overlay_def le_nat_iff)
    ultimately show ?thesis using res r by (simp add: low_kept_def)
  qed
  moreover have "io_info f2 = io_info f" using res r by simp
  ultimately show thesis using that [OF s _ w] r res by (auto simp del: take_append)
qed

lemma log_write_msg_some: "cur_msg lp \<noteq> None \<Longrightarrow> log_write_msg z lp \<noteq> None"
  by (auto simp: log_write_msg_def bind_eq_None_conv cur_msg_def split: prod.splits option.splits
      dest!: log_fopen_keeps)

lemma log_write_msg_buffer:
  assumes "log_write_msg z lp = Some (r, lp')"
  shows "fileBuf lp' = fileBuf lp \<and> log_key lp' = log_key lp \<and> pUseinfo lp' = pUseinfo lp \<and>
    need_reload lp' = need_reload lp"
proof -
  obtain fo lp1 where o: "log_fopen (iDiskId lp, iPatitionId lp) lp = (fo, lp1)" by fastforce
  obtain a lp2 where n: "next_answer lp1 = (a, lp2)" by fastforce
  have k: "need_reload lp1 = need_reload lp" "need_reload lp2 = need_reload lp1"
    using o n by (auto simp: log_fopen_def next_answer_def split: list.splits)
  show ?thesis
    using assms log_fopen_keeps [OF o] next_answer_keeps [OF n] k
    by (cases fo; cases a)
      (auto simp: log_write_msg_def o n bind_eq_Some_conv Let_def log_key_def split: list.splits)
qed

lemma fs_write_rec_size_total:
  assumes "log_loaded w"
  shows "\<exists>rel w'. fs_write_rec_size_to_log w = Some (rel, w') \<and> log_loaded w' \<and>
    w'\<lparr>rec_lp := rec_lp w\<rparr> = w"
proof (cases "rec_file_size w = 0")
  case True
  then show ?thesis using assms by (simp add: fs_write_rec_size_to_log_def)
next
  case False
  obtain b where b: "fileBuf (rec_lp w) = Some b" "log_ok MAXMESSAGENUMBER b" and
    u: "pUseinfo (rec_lp w)" "log_key (rec_lp w) = (logpos_disk w, logpos_part w)" "\<not> need_reload (rec_lp w)"
      "0 \<le> logpos_disk w" "5 \<le> logpos_part w"
    using assms by (auto simp: log_loaded_def)
  let ?lp1 = "(rec_lp w)\<lparr>pFilePos := use_id b, lp_id := use_id b\<rparr>"
  have c: "current_record (logpos_disk w) (logpos_part w) (rec_lp w) = Some (True, ?lp1)"
    using b u log_ok_ids [OF b(2)]
    by (simp add: current_record_def FS_GetPosRecordMessage_def log_get_pos_def log_key_def use_info_def)
  have n: "0 \<le> use_id b" "nat (use_id b) < length (messages b)" using b(2) by (auto simp: log_ok_def)
  let ?m = "(messages b ! nat (use_id b))\<lparr>rm_rec_size := rec_file_size w\<rparr>"
  let ?b = "b\<lparr>messages := (messages b)[nat (use_id b) := ?m]\<rparr>"
  let ?lp2 = "?lp1\<lparr>fileBuf := Some ?b\<rparr>"
  have m: "cur_msg ?lp1 = Some (messages b ! nat (use_id b))" "set_msg ?m ?lp1 = Some ?lp2"
    using b n by (simp_all add: cur_msg_def set_msg_def)
  obtain rel lp3 where w: "RecordMessageWriteToFile ?lp2 = Some (rel, lp3)"
    using log_write_msg_some [of ?lp2 record_zero] n by (fastforce simp: RecordMessageWriteToFile_def cur_msg_def)
  have keep: "fileBuf lp3 = Some ?b" "pUseinfo lp3" "log_key lp3 = log_key (rec_lp w)" "need_reload lp3 = need_reload (rec_lp w)"
    using log_write_msg_buffer [OF w [unfolded RecordMessageWriteToFile_def]] u by (simp_all add: log_key_def)
  have "fs_write_rec_size_to_log w = Some (if rel < 0 then rel else ALLRIGHT, w\<lparr>rec_lp := lp3\<rparr>)"
    using False c m w by (simp add: fs_write_rec_size_to_log_def)
  moreover have "log_ok MAXMESSAGENUMBER ?b" using b(2) by (auto simp: log_ok_def)
  then have "log_loaded (w\<lparr>rec_lp := lp3\<rparr>)" using keep u by (simp add: log_loaded_def)
  ultimately show ?thesis by simp
qed

lemma buffered_header_at:
  assumes "segment hf 0 (36 * length bs) = concat (with_offsets k bs)" and "list_all frame_ok bs" and "i < length bs"
  shows "\<exists>x. header_at hf i = set_data_offset x (fst (bs ! i))"
  using assms
proof (induction bs arbitrary: k i hf)
  case (Cons fr bs)
  have l: "length (fst fr) = 36" using Cons.prems(2) by (simp add: frame_ok_def)
  have s: "segment hf 0 36 @ segment hf 36 (36 * length bs) =
      set_data_offset (of_nat k) (fst fr) @ concat (with_offsets (k + length (snd fr)) bs)"
    using Cons.prems(1) segment_append [of hf 0 36 "36 * length bs"] by simp
  then have h: "segment hf 0 36 = set_data_offset (of_nat k) (fst fr)"
    and t: "segment hf 36 (36 * length bs) = concat (with_offsets (k + length (snd fr)) bs)"
    using l by simp_all
  show ?case
  proof (cases i)
    case 0
    then show ?thesis using h by (auto simp: header_at_def)
  next
    case (Suc i')
    let ?g = "\<lambda>x. hf (36 + x)"
    have "segment ?g 0 (36 * length bs) = segment hf 36 (36 * length bs)"
      by (rule nth_equalityI) (simp_all add: segment_nth)
    then have "\<exists>x. header_at ?g i' = set_data_offset x (fst (bs ! i'))"
      using t Cons.prems(2,3) Suc by (intro Cons.IH) auto
    moreover have "header_at ?g i' = header_at hf i"
      by (rule nth_equalityI) (simp_all add: header_at_def segment_nth Suc add.assoc)
    ultimately show ?thesis using Suc by simp
  qed
qed simp

text \<open>A sync keeps the frames, the handle and every other extent.\<close>

lemma sync_keeps:
  assumes "opened j f d" and "2097152 + 144 * Suc j \<le> 104857600"
  obtains r f' d' where "file_io_sync f d = (r, f', d')" "opened j f' d'" "dev_size d' = dev_size d"
    "io_size f' = io_size f" "changes_only j d d'" "\<And>p a n. 0 \<le> a \<Longrightarrow> int (a + n) \<le> video_max p \<Longrightarrow>
       segment (dev_bytes d') (nat (video_start p) + a) n = segment (dev_bytes d) (nat (video_start p) + a) n"
proof -
  obtain r f' d' where s: "file_io_sync f d = (r, f', d')" by (metis prod_cases3)
  have j: "j < 2 ^ 21" using assms(2) by simp
  note res = file_io_sync_result [OF s assms(1) j]
  have "io_step Sync (f, d) = (f', d')" using s by simp
  then have c: "changes_only j d d'" using io_step_keeps [OF assms(1) j] by blast
  obtain k bs where k: "k \<le> 144" "length bs = 144" "dev_bytes d' = overlay (dev_bytes d) (2097152 + 144 * j) (take k bs)"
    using res by blast
  have "segment (dev_bytes d') (nat (video_start p) + a) n = segment (dev_bytes d) (nat (video_start p) + a) n" for p a n
    unfolding k(3) by (rule segment_overlay_disjoint) (use k(1,2) assms(2) video_bounds(3) [of p] in \<open>auto simp: le_nat_iff\<close>)
  then show thesis using that [OF s] res c by blast
qed

lemma sync_quiet:
  assumes o: "opened j f d" and a: "dev_answers d = []" and t: "table_ok n d" and j: "j < 2 * n" "2097152 + 288 * n \<le> 104857600"
    and e: "stored_info d j = io_info f" and s: "file_io_sync f d = (r, f', d')"
  shows "dev_answers d' = [] \<and> table_ok n d' \<and> stored_info d' j = io_info f' \<and>
    (\<forall>p. p \<noteq> j \<longrightarrow> stored_info d' p = stored_info d p) \<and> file_size (io_info f') = io_size f"
proof (cases "file_size (io_info f) < io_size f")
  case True
  let ?fi = "(io_info f)\<lparr>file_size := io_size f\<rparr>"
  have r: "f' = f\<lparr>io_info := ?fi\<rparr>" "dev_answers d' = []" "dev_size d' = dev_size d"
    "dev_bytes d' = overlay (dev_bytes d) (2097152 + 144 * j) (info_bytes ?fi)"
    using file_io_sync_ready [OF o a True] j s a by simp_all
  have m: "io_size f \<le> video_max j" "video_max j < 2 ^ 63" "0 \<le> io_size f" using o by (auto simp: opened_def video_max_def)
  then have n: "names_entry j ?fi" using o by (auto simp: opened_def names_entry_def info_fits_def fits_ll_def)
  then have "info_fits ?fi" by (simp add: names_entry_def)
  then show ?thesis using r stored_info_overlay(1) [OF r(4)] table_ok_save [OF t n r(3,4)] by simp
next
  case False
  then have "f' = f" "d' = d" "file_size (io_info f) = io_size f" using s o by (auto simp: file_io_sync_def opened_def)
  then show ?thesis using a t e by simp
qed

section \<open>A flush\<close>

text \<open>The entries of the pair end before the first file.\<close>

definition pair_ok :: "nat \<Rightarrow> bool" where
  "pair_ok i \<longleftrightarrow> 2097152 + 144 * (2 * i + 2) \<le> 104857600"

text \<open>What a call on pair \<open>i\<close> leaves as it was.\<close>

definition others_kept :: "nat \<Rightarrow> frame_store \<Rightarrow> frame_store \<Rightarrow> bool" where
  "others_kept i s s' \<longleftrightarrow> dev_size (store_dev s') = dev_size (store_dev s) \<and>
     (\<forall>p. p \<noteq> 2 * i \<and> p \<noteq> 2 * i + 1 \<longrightarrow> extent (store_dev s') p = extent (store_dev s) p) \<and>
     g_play_read_buf s' = g_play_read_buf s"

lemma others_kept_refl [simp]: "others_kept i s s"
  by (simp add: others_kept_def)

lemma others_kept_trans: "others_kept i s s' \<Longrightarrow> others_kept i s' s'' \<Longrightarrow> others_kept i s s''"
  by (simp add: others_kept_def)

lemma others_kept_step:
  assumes "changes_only j (store_dev s) (store_dev s')" and "j = 2 * i \<or> j = 2 * i + 1" and "pair_ok i"
    and "dev_size (store_dev s') = dev_size (store_dev s)" and "g_play_read_buf s' = g_play_read_buf s"
  shows "others_kept i s s'"
proof -
  have "2097152 + 144 * Suc j \<le> 104857600" using assms(2,3) by (auto simp: pair_ok_def)
  then show ?thesis using changes_only_others(2) [OF assms(1)] assms(2,4,5) by (auto simp: others_kept_def)
qed

lemma flush_done_result:
  assumes rec: "recording i fs s" and log: "log_loaded (rec_logs s)" and i: "pair_ok i"
  shows "\<exists>rel s'. flush_done s = Some (rel, s') \<and> (rel = ALLRIGHT \<or> rel = FILEERROR) \<and> recording i fs s' \<and>
    g_rec_write_buf s' = g_rec_write_buf s \<and> log_loaded (rec_logs s') \<and> others_kept i s s' \<and>
    (\<forall>n. quiet n i s \<longrightarrow> quiet n i s')"
proof (cases "flush_count s + 1 \<le> 30")
  case True
  then have "flush_done s = Some (ALLRIGHT, s\<lparr>flush_count := flush_count s + 1\<rparr>)"
    by (simp add: flush_done_def Let_def)
  then show ?thesis using rec log by (simp add: recording_def others_kept_def quiet_def)
next
  case False
  have j: "2097152 + 144 * Suc (2 * i) \<le> 104857600" "2097152 + 144 * Suc (2 * i + 1) \<le> 104857600"
    using i by (auto simp: pair_ok_def)
  have o: "opened (2 * i) (rec_header_filest s) (store_dev s)" "opened (2 * i + 1) (rec_data_filest s) (store_dev s)"
    using rec by (simp_all add: recording_def)
  obtain r1 df d1 where y1: "file_io_sync (rec_data_filest s) (store_dev s) = (r1, df, d1)" "opened (2 * i + 1) df d1"
    "dev_size d1 = dev_size (store_dev s)" "io_size df = io_size (rec_data_filest s)" "changes_only (2 * i + 1) (store_dev s) d1"
    and k1: "\<And>p a n. int (a + n) \<le> video_max p \<Longrightarrow>
       segment (dev_bytes d1) (nat (video_start p) + a) n = segment (dev_bytes (store_dev s)) (nat (video_start p) + a) n"
    using sync_keeps [OF o(2) j(2)] by (metis zero_le)
  obtain r2 hf d2 where y2: "file_io_sync (rec_header_filest s) d1 = (r2, hf, d2)" "opened (2 * i) hf d2"
    "dev_size d2 = dev_size d1" "io_size hf = io_size (rec_header_filest s)" "changes_only (2 * i) d1 d2"
    and k2: "\<And>p a n. int (a + n) \<le> video_max p \<Longrightarrow>
       segment (dev_bytes d2) (nat (video_start p) + a) n = segment (dev_bytes d1) (nat (video_start p) + a) n"
    using sync_keeps [OF opened_dev [OF o(1) y1(3)] j(1)] by (metis zero_le)
  obtain rel w where w: "fs_write_rec_size_to_log (rec_logs s) = Some (rel, w)" "log_loaded w"
    using fs_write_rec_size_total [OF log] by blast
  let ?s = "s\<lparr>flush_count := 0, store_dev := d2, rec_data_filest := df, rec_header_filest := hf, rec_logs := w\<rparr>"
  have f: "flush_done s = Some (if rel < 0 then FILEERROR else ALLRIGHT, ?s)"
    using False y1(1) y2(1) w(1) by (simp add: flush_done_def Let_def)
  have b: "int (56 + 36 * length fs) \<le> video_max (2 * i)" "int (length (data_bytes fs)) \<le> video_max (2 * i + 1)"
    using rec by (auto simp: recording_def opened_def)
  have "header_bytes i 0 (36 * length fs) d2 = header_bytes i 0 (36 * length fs) (store_dev s)"
    using k1 [of 56 "36 * length fs" "2 * i"] k2 [of 56 "36 * length fs" "2 * i"] b(1) by (simp add: header_bytes_def)
  moreover have "frame_bytes i 0 (length (data_bytes fs)) d2 = frame_bytes i 0 (length (data_bytes fs)) (store_dev s)"
    using k1 [of 0 "length (data_bytes fs)" "2 * i + 1"] k2 [of 0 "length (data_bytes fs)" "2 * i + 1"] b(2)
    by (simp add: frame_bytes_def)
  ultimately have "recording i fs ?s"
    using rec y1 y2 opened_dev [OF y1(2) y2(3)] by (simp add: recording_def stored_frames_def)
  moreover have "others_kept i s (s\<lparr>store_dev := d1\<rparr>)" "others_kept i (s\<lparr>store_dev := d1\<rparr>) ?s"
    using others_kept_step [of "2 * i + 1" s "s\<lparr>store_dev := d1\<rparr>" i] others_kept_step [of "2 * i" "s\<lparr>store_dev := d1\<rparr>" ?s i]
      y1 y2 i by simp_all
  then have "others_kept i s ?s" by (rule others_kept_trans)
  moreover have "quiet n i ?s" if q: "quiet n i s" for n
  proof -
    have 1: "dev_answers d1 = [] \<and> table_ok n d1 \<and> stored_info d1 (2 * i + 1) = io_info df \<and>
        (\<forall>p. p \<noteq> 2 * i + 1 \<longrightarrow> stored_info d1 p = stored_info (store_dev s) p)"
      using sync_quiet [OF o(2) _ _ _ _ _ y1(1), of n] q by (simp add: quiet_def)
    have "dev_answers d2 = [] \<and> table_ok n d2 \<and> stored_info d2 (2 * i) = io_info hf \<and>
        (\<forall>p. p \<noteq> 2 * i \<longrightarrow> stored_info d2 p = stored_info d1 p)"
      using sync_quiet [OF opened_dev [OF o(1) y1(3)] _ _ _ _ _ y2(1), of n] q 1 by (simp add: quiet_def)
    then show ?thesis using q 1 by (simp add: quiet_def)
  qed
  ultimately show ?thesis using f w(2) by simp
qed

lemma uint_of_nat32: "n < 2 ^ 32 \<Longrightarrow> uint (of_nat n :: u32) = int n"
  by (simp add: unsigned_of_nat take_bit_eq_mod)

lemma flush_result:
  assumes rec: "recording i fs s" and buf: "buffered bs (g_rec_write_buf s)" and ne: "bs \<noteq> []"
    and log: "log_loaded (rec_logs s)" and i: "pair_ok i"
  shows "\<exists>rel s' fs' bs'. FS_write_buf_write_to_file s = Some (rel, s') \<and> (rel = ALLRIGHT \<or> rel = FILEERROR) \<and>
    recording i fs' s' \<and> buffered bs' (g_rec_write_buf s') \<and> log_loaded (rec_logs s') \<and> others_kept i s s' \<and>
    (\<forall>n. quiet n i s \<longrightarrow> quiet n i s') \<and> (fs' = fs @ bs \<and> bs' = [] \<or> rel = FILEERROR \<and> fs' = fs \<and> bs' = bs)"
proof -
  define b where "b = g_rec_write_buf s"
  let ?H = "36 * length fs" and ?D = "length (data_bytes fs)"
  let ?h = "36 * length bs" and ?d = "length (data_bytes bs)"
  obtain hf df where hb: "head_buf b = Some hf" and db: "data_buf b = Some df"
    and hdr: "\<And>k. k < length bs \<Longrightarrow> \<exists>x. header_at hf k = set_data_offset x (fst (bs ! k))"
    and dat: "segment df 0 ?d = data_bytes bs"
    using buf by (auto simp: buffered_def b_def)
  have b: "create_flag b = 1" "list_all frame_ok bs" "conut b = int (length bs)" "head_size b = int ?h" "data_size b = int ?d"
    "int ?h \<le> 51200" "int ?d \<le> 524288"
    using buf by (auto simp: buffered_def b_def buf_sizes)
  have o: "opened (2 * i) (rec_header_filest s) (store_dev s)" "opened (2 * i + 1) (rec_data_filest s) (store_dev s)"
    "stored_frames i fs (store_dev s)" "g_ulFrameHeaderOffset s = of_nat (56 + ?H)" "g_ulFileDataOffset s = of_nat ?D"
    "int (56 + ?H) \<le> io_size (rec_header_filest s)" "int ?D \<le> io_size (rec_data_filest s)"
    using rec by (simp_all add: recording_def)
  have small: "56 + ?H < 2 ^ 31" "?D < 2 ^ 31" using opened_small [OF o(1)] opened_small [OF o(2)] o(6,7) by simp_all
  have u: "uint (g_ulFrameHeaderOffset s) = int (56 + ?H)" "uint (g_ulFileDataOffset s) = int ?D"
    unfolding o(4,5) using uint_of_nat32 [of "56 + ?H"] uint_of_nat32 [of ?D] small
    by (simp_all del: of_nat_add of_nat_mult)
  have j: "2 * i < 2 ^ 21" "2 * i + 1 < 2 ^ 21" using i by (auto simp: pair_ok_def)
  obtain hf' where fx: "fix_offsets (length bs) (g_ulFileDataOffset s) 0 hf = Some hf'"
    and hf': "segment hf' 0 ?h = concat (with_offsets ?D bs)"
    using fix_offsets_result [of bs hf 0 ?D] b hdr o(5) by auto
  let ?b1 = "b\<lparr>head_buf := Some hf'\<rparr>"
  have buf1: "buffered bs ?b1"
    using buf hf' b(2) buffered_header_at [OF hf' b(2)] by (auto simp: buffered_def b_def db)
  have rh: "block_read WRITE_BUF_SYS_MAX_HEAD_NUM (head_buf ?b1) 0 (head_size ?b1) = Some (concat (with_offsets ?D bs))"
    using b hf' by (simp add: block_read_def buf_sizes nat_mult_distrib)
  have rd: "block_read WRITE_BUF_SYS_MAX_DATA_NUM (data_buf ?b1) 0 (data_size ?b1) = Some (data_bytes bs)"
    using b dat db by (simp add: block_read_def buf_sizes)
  have lh: "int (length (concat (with_offsets ?D bs))) = head_size b" using length_concat_headers [OF b(2)] b(4) by simp
  have ld: "int (length (data_bytes bs)) = data_size b" using b(5) by simp
  obtain r f1 d1 q f2 d2 where h1: "file_io_lseek (uint (g_ulFrameHeaderOffset s)) 0 (rec_header_filest s) (store_dev s) = (r, f1, d1)"
      "r \<noteq> - 1" and h2: "file_io_write (concat (with_offsets ?D bs)) f1 d1 = (q, f2, d2)"
    and h: "opened (2 * i) f2 d2" "dev_size d2 = dev_size (store_dev s)" "changes_only (2 * i) (store_dev s) d2"
      "io_size (rec_header_filest s) \<le> io_size f2" "low_kept (store_dev s) d2" "io_info f2 = io_info (rec_header_filest s)"
      "\<exists>k. dev_bytes d2 = overlay (dev_bytes (store_dev s)) (nat (video_start (2 * i) + uint (g_ulFrameHeaderOffset s))) (take k (concat (with_offsets ?D bs)))"
      "q = head_size b \<Longrightarrow> dev_bytes d2 = overlay (dev_bytes (store_dev s)) (nat (video_start (2 * i) + uint (g_ulFrameHeaderOffset s))) (concat (with_offsets ?D bs))"
      "q = head_size b \<Longrightarrow> uint (g_ulFrameHeaderOffset s) + head_size b \<le> io_size f2"
    by (rule seek_write [OF o(1) uint_ge_0 _ j(1), of "g_ulFrameHeaderOffset s" 0 "concat (with_offsets ?D bs)"])
       (use u o(6) lh in simp_all)
  have hpos: "nat (video_start (2 * i) + uint (g_ulFrameHeaderOffset s)) = nat (video_start (2 * i)) + 56 + 36 * length fs"
    using u(1) video_bounds(1) [of "2 * i"] by linarith
  have keepH: "header_bytes i 0 ?H d2 = header_bytes i 0 ?H (store_dev s)"
    using h(7) unfolding header_bytes_def hpos by (auto intro!: segment_overlay_disjoint)
  have keepD: "frame_bytes i 0 ?D d2 = frame_bytes i 0 ?D (store_dev s)"
    using extent_kept [OF h(3), of "2 * i + 1" 0 ?D] o(2,7) i by (simp add: frame_bytes_def pair_ok_def opened_def)
  have st2: "stored_frames i fs d2" using o(3) keepH keepD by (simp add: stored_frames_def)
  define s2 where "s2 = s\<lparr>g_rec_write_buf := ?b1, rec_header_filest := f2, store_dev := d2\<rparr>"
  have rec2: "recording i fs s2"
    using o h(1,2,4) st2 opened_dev [OF o(2) h(2)] by (simp add: recording_def s2_def)
  have q2: "quiet n i s2" if "quiet n i s" for n
    using quiet_low_kept [OF that, of s2] h(5,6) by (simp add: s2_def)
  have kept2: "others_kept i s s2"
    using others_kept_step [of "2 * i" s s2 i] h(2,3) i by (simp add: s2_def)
  show ?thesis
  proof (cases "q = head_size b")
    case False
    have "FS_write_buf_write_to_file s = Some (FILEERROR, s2)"
      using b(1,3) ne hb fx h1 h2 rh False
      by (simp add: FS_write_buf_write_to_file_def b_def [symmetric] Let_def s2_def)
    then show ?thesis using rec2 buf1 log kept2 q2 by (auto simp: s2_def)
  next
    case True
    obtain r' g1 e1 q' g2 e2 where d1: "file_io_lseek (uint (g_ulFileDataOffset s)) 0 (rec_data_filest s) d2 = (r', g1, e1)"
        "r' \<noteq> - 1" and d2: "file_io_write (data_bytes bs) g1 e1 = (q', g2, e2)"
      and d: "opened (2 * i + 1) g2 e2" "dev_size e2 = dev_size d2" "changes_only (2 * i + 1) d2 e2"
        "io_size (rec_data_filest s) \<le> io_size g2" "low_kept d2 e2" "io_info g2 = io_info (rec_data_filest s)"
        "\<exists>k. dev_bytes e2 = overlay (dev_bytes d2) (nat (video_start (2 * i + 1) + uint (g_ulFileDataOffset s))) (take k (data_bytes bs))"
        "q' = data_size b \<Longrightarrow> dev_bytes e2 = overlay (dev_bytes d2) (nat (video_start (2 * i + 1) + uint (g_ulFileDataOffset s))) (data_bytes bs)"
        "q' = data_size b \<Longrightarrow> uint (g_ulFileDataOffset s) + data_size b \<le> io_size g2"
      by (rule seek_write [OF opened_dev [OF o(2) h(2)] uint_ge_0 _ j(2), of "g_ulFileDataOffset s" 0 "data_bytes bs"])
         (use u o(7) ld in simp_all)
    have dpos: "nat (video_start (2 * i + 1) + uint (g_ulFileDataOffset s)) = nat (video_start (2 * i + 1)) + ?D"
      using u(2) video_bounds(1) [of "2 * i + 1"] by linarith
    have keepD': "frame_bytes i 0 ?D e2 = frame_bytes i 0 ?D d2"
      using d(7) unfolding frame_bytes_def dpos by (auto intro!: segment_overlay_disjoint)
    have hmax: "int (56 + ?H + ?h) \<le> video_max (2 * i)" using h(1) h(9) [OF True] u(1) b(4) by (auto simp: opened_def)
    have keepH': "header_bytes i 0 (?H + ?h) e2 = header_bytes i 0 (?H + ?h) d2"
      using extent_kept [OF d(3), of "2 * i" 56 "?H + ?h"] i hmax by (simp add: header_bytes_def pair_ok_def)
    have newH: "header_bytes i 0 (?H + ?h) d2 = concat (with_offsets 0 (fs @ bs))"
    proof -
      have "segment (dev_bytes d2) (nat (video_start (2 * i)) + 56 + ?H) ?h = concat (with_offsets ?D bs)"
        using h(8) [OF True] segment_overlay_same [of "dev_bytes (store_dev s)" _ "concat (with_offsets ?D bs)"] length_concat_headers [OF b(2)]
        unfolding hpos by simp
      moreover have "header_bytes i 0 ?H d2 = concat (with_offsets 0 fs)" using st2 by (simp add: stored_frames_def)
      ultimately show ?thesis using segment_append [of "dev_bytes d2" "nat (video_start (2 * i)) + 56" ?H ?h]
        by (simp add: header_bytes_def with_offsets_append)
    qed
    have max1: "int (56 + ?H + ?h) \<le> io_size f2" using h(9) [OF True] u(1) b(4) by simp
    define s4 where "s4 = s2\<lparr>rec_data_filest := g2, store_dev := e2\<rparr>"
    have st4: "stored_frames i fs e2"
      using st2 keepD' extent_kept [OF d(3), of "2 * i" 56 ?H] i hmax
      by (simp add: stored_frames_def header_bytes_def pair_ok_def)
    have rec4: "recording i fs s4"
      using rec2 d(1,2,4) st4 opened_dev [OF h(1) d(2)] by (simp add: recording_def s4_def s2_def)
    have q4: "quiet n i s4" if "quiet n i s" for n
      using quiet_low_kept [OF q2 [OF that], of s4] d(5,6) by (simp add: s4_def s2_def)
    have kept4: "others_kept i s s4"
      using others_kept_trans [OF kept2 others_kept_step [of "2 * i + 1" s2 s4 i]] d(2,3) i by (simp add: s4_def s2_def)
    show ?thesis
    proof (cases "q' = data_size b")
      case False
      have "of_nat (56 + ?H) + word_of_int (head_size b) - word_of_int (head_size b) = (of_nat (56 + ?H) :: u32)" by simp
      then have "FS_write_buf_write_to_file s = Some (FILEERROR, s4)"
        using b(1,3) ne hb fx h1 h2 rh rd True False d1 d2 o(4)
        by (simp add: FS_write_buf_write_to_file_def b_def [symmetric] Let_def s2_def s4_def del: of_nat_add of_nat_mult)
      then show ?thesis using rec4 buf1 log kept4 q4 by (auto simp: s4_def s2_def)
    next
      case d_ok: True
      define s5 where "s5 = s2\<lparr>g_ulFrameHeaderOffset := g_ulFrameHeaderOffset s + word_of_int (head_size b),
        rec_data_filest := g2, store_dev := e2, g_ulFileDataOffset := g_ulFileDataOffset s + word_of_int (data_size b),
        rec_logs := (rec_logs s)\<lparr>rec_file_size := rec_file_size (rec_logs s) + word_of_int (data_size b) + word_of_int (head_size b)\<rparr>,
        g_rec_write_buf := ?b1\<lparr>conut := 0, data_size := 0, head_size := 0\<rparr>\<rparr>"
      have e: "FS_write_buf_write_to_file s = flush_done s5"
        using b(1,3) ne hb fx h1 h2 rh rd True d_ok d1 d2
        by (simp add: FS_write_buf_write_to_file_def b_def [symmetric] Let_def s2_def s4_def s5_def)
      have st5: "stored_frames i (fs @ bs) e2"
      proof -
        have "segment (dev_bytes e2) (nat (video_start (2 * i + 1)) + ?D) ?d = data_bytes bs"
          using d(8) [OF d_ok] segment_overlay_same unfolding dpos by simp
        moreover have "frame_bytes i 0 ?D e2 = data_bytes fs" using st4 by (simp add: stored_frames_def)
        ultimately have "frame_bytes i 0 (?D + ?d) e2 = data_bytes (fs @ bs)"
          using segment_append [of "dev_bytes e2" "nat (video_start (2 * i + 1))" ?D ?d] by (simp add: frame_bytes_def)
        then show ?thesis using keepH' newH o(3) b(2) by (simp add: stored_frames_def distrib_left)
      qed
      have max2: "int (?D + ?d) \<le> io_size g2" using d(9) [OF d_ok] u(2) b(5) by simp
      have rec5: "recording i (fs @ bs) s5"
        using rec4 st5 max1 max2 b(4,5) o(4,5)
        by (simp add: recording_def s5_def s4_def s2_def algebra_simps)
      have log5: "log_loaded (rec_logs s5)" using log by (simp add: s5_def log_loaded_def)
      have kept5: "others_kept i s s5" using kept4 by (simp add: others_kept_def s5_def s4_def s2_def)
      have buf5: "buffered [] (g_rec_write_buf s5)" using buf1 by (auto simp: buffered_def s5_def segment_def buf_sizes)
      have q5: "quiet n i s5" if "quiet n i s" for n
        using q4 [OF that] by (simp add: quiet_def s5_def s4_def s2_def)
      show ?thesis using flush_done_result [OF rec5 log5 i] e buf5 others_kept_trans [OF kept5] q5 by metis
    qed
  qed
qed

section \<open>Recording frames\<close>

text \<open>The recorder stops at the first error.\<close>

fun record_frames :: "frame list \<Rightarrow> frame_store \<Rightarrow> (int \<times> frame_store) option" where
  "record_frames [] s = Some (ALLRIGHT, s)"
| "record_frames (fr # fs) s = do {
     (rel, s1) \<leftarrow> FS_WriteOneFrame (fst fr) (snd fr) s;
     if rel < 0 then Some (rel, s1) else record_frames fs s1
   }"

text \<open>The buffer between two calls that went well.\<close>

definition resting :: "frame list \<Rightarrow> bool" where
  "resting bs \<longleftrightarrow> length bs \<le> 10 \<and> length (data_bytes bs) < 262144"

lemma sint_of_nat31: "x < 2 ^ 31 \<Longrightarrow> sint (of_nat x :: u32) = int x"
proof -
  assume "x < 2 ^ 31"
  then have "sint (word_of_int (int x) :: u32) = int x"
    unfolding sint_sbintrunc' by (intro signed_take_bit_int_eq_self) simp_all
  then show ?thesis by simp
qed

lemma set_own_offset: "length h = 36 \<Longrightarrow> set_data_offset (ulFrameDataOffset h) h = h"
proof -
  assume l: "length h = 36"
  have "take 4 (drop 16 h) @ drop 20 h = drop 16 h"
    using append_take_drop_id [of 4 "drop 16 h"] by simp
  then show ?thesis using l append_take_drop_id [of 16 h]
    by (simp add: set_data_offset_def ulFrameDataOffset_def hdr_word_def le_encode_decode)
qed

lemma header_at_overlay_append:
  "length h = 36 \<Longrightarrow> header_at (overlay hf (36 * n) h) n = h"
  "k < n \<Longrightarrow> header_at (overlay hf (36 * n) h) k = header_at hf k"
  using segment_overlay_same [of hf "36 * n" h] unfolding header_at_def
  by (simp_all add: segment_overlay_disjoint)

lemma push_frame:
  assumes buf: "buffered bs b" and ok: "frame_ok fr" and room: "length (data_bytes (bs @ [fr])) < 524288" and n: "length bs < 500"
  shows "\<exists>rel b'. FS_write_buf_sys_data (fst fr) (snd fr) (sint (ulDataLen (fst fr))) b = Some (rel, b') \<and>
    buffered (bs @ [fr]) b' \<and> (rel = WRITE_BUF_SYS_BUF_MUST_WRITE \<or>
      rel = int (length bs) + 1 \<and> length (data_bytes (bs @ [fr])) < 262144)"
proof -
  let ?d = "length (data_bytes bs)" and ?l = "length (snd fr)"
  have b: "create_flag b = 1" "list_all frame_ok bs" "conut b = int (length bs)" "head_size b = 36 * int (length bs)"
    "data_size b = int ?d" using buf by (auto simp: buffered_def)
  obtain hf df where m: "head_buf b = Some hf" "data_buf b = Some df"
    and hdr: "\<forall>k < length bs. \<exists>x. header_at hf k = set_data_offset x (fst (bs ! k))"
    and dat: "segment df 0 ?d = data_bytes bs" using buf by (auto simp: buffered_def)
  have l: "length (fst fr) = 36" "ulDataLen (fst fr) = of_nat ?l" using ok ulDataLen_frame by (auto simp: frame_ok_def)
  have r: "?d + ?l < 524288" using room by simp
  have size: "sint (ulDataLen (fst fr)) = int ?l" using l(2) r sint_of_nat31 [of ?l] by simp
  have sum: "to_int32 (data_size b + int ?l) = int (?d + ?l)"
    using b(5) sint_of_nat31 [of "?d + ?l"] r by (simp flip: of_nat_add)
  let ?h = "overlay hf (36 * length bs) (fst fr)" and ?D = "overlay df ?d (snd fr)"
  have w: "block_write WRITE_BUF_SYS_MAX_HEAD_NUM (head_buf b) (head_size b) (fst fr) = Some ?h"
    "block_write WRITE_BUF_SYS_MAX_DATA_NUM (data_buf b) (data_size b) (snd fr) = Some ?D"
    using m b l r n by (simp_all add: block_write_def buf_sizes nat_mult_distrib)
  define b' where "b' = b\<lparr>head_buf := Some ?h, head_size := head_size b + 36, data_buf := Some ?D,
    data_size := data_size b + int ?l, conut := conut b + 1\<rparr>"
  have hs: "\<exists>x. header_at ?h k = set_data_offset x (fst ((bs @ [fr]) ! k))" if k: "k < Suc (length bs)" for k
  proof (cases "k = length bs")
    case True
    have "header_at ?h k = set_data_offset (ulFrameDataOffset (fst fr)) (fst fr)"
      using True l(1) set_own_offset by (simp add: header_at_overlay_append)
    then show ?thesis using True by auto
  next
    case False
    then show ?thesis using k hdr by (simp add: nth_append header_at_overlay_append)
  qed
  have ds: "segment ?D 0 (?d + ?l) = data_bytes bs @ snd fr"
    using segment_append [of ?D 0 ?d ?l] segment_overlay_same [of df ?d "snd fr"] dat
    by (simp add: segment_overlay_disjoint)
  have "buffered (bs @ [fr]) b'"
    using b m hs ds ok l r n by (simp add: buffered_def b'_def buf_sizes)
  moreover have "FS_write_buf_sys_data (fst fr) (snd fr) (sint (ulDataLen (fst fr))) b =
      Some (if data_size b' \<ge> 262144 then (WRITE_BUF_SYS_BUF_MUST_WRITE, b') else (int (length bs) + 1, b'))"
    using b size sum w r n l by (simp add: FS_write_buf_sys_data_def b'_def Let_def buf_sizes)
  moreover have "data_size b' = int (length (data_bytes (bs @ [fr])))" using b by (simp add: b'_def)
  ultimately show ?thesis by (auto split: if_splits)
qed


text \<open>One frame of at most 256 KiB: it is kept, in the files or in the buffer.\<close>

lemma write_frame:
  assumes rec: "recording i fs s" and buf: "buffered bs (g_rec_write_buf s)" and rest: "resting bs"
    and log: "log_loaded (rec_logs s)" and i: "pair_ok i" and ok: "frame_ok fr" "length (snd fr) \<le> 262144"
  shows "\<exists>rel s' fs' bs'. FS_WriteOneFrame (fst fr) (snd fr) s = Some (rel, s') \<and> recording i fs' s' \<and>
    buffered bs' (g_rec_write_buf s') \<and> log_loaded (rec_logs s') \<and> others_kept i s s' \<and> (\<forall>n. quiet n i s \<longrightarrow> quiet n i s') \<and>
    fs' @ bs' = fs @ bs @ [fr] \<and> (rel < 0 \<or> resting bs')"
proof -
  have room: "length (data_bytes (bs @ [fr])) < 524288" "length bs < 500"
    using rest ok(2) by (auto simp: resting_def)
  obtain q b' where p: "FS_write_buf_sys_data (fst fr) (snd fr) (sint (ulDataLen (fst fr))) (g_rec_write_buf s) = Some (q, b')"
    "buffered (bs @ [fr]) b'"
    "q = WRITE_BUF_SYS_BUF_MUST_WRITE \<or> q = int (length bs) + 1 \<and> length (data_bytes (bs @ [fr])) < 262144"
    using push_frame [OF buf ok(1) room] by blast
  let ?s = "s\<lparr>g_rec_write_buf := b'\<rparr>"
  have rec1: "recording i fs ?s" "buffered (bs @ [fr]) (g_rec_write_buf ?s)" "log_loaded (rec_logs ?s)" "others_kept i s ?s"
    "\<forall>n. quiet n i s \<longrightarrow> quiet n i ?s"
    using rec p(2) log by (simp_all add: recording_def others_kept_def quiet_def)
  show ?thesis
  proof (cases "q = WRITE_BUF_SYS_BUF_MUST_WRITE \<or> q > WRITE_BUF_SYS_MAX_NUM")
    case True
    have "FS_WriteOneFrame (fst fr) (snd fr) s = FS_write_buf_write_to_file ?s"
      using p(1,3) True by (auto simp: FS_WriteOneFrame_def buf_sizes Let_def)
    moreover obtain rel s' fs' bs' where "FS_write_buf_write_to_file ?s = Some (rel, s')"
      "rel = ALLRIGHT \<or> rel = FILEERROR" "recording i fs' s'" "buffered bs' (g_rec_write_buf s')" "log_loaded (rec_logs s')" "others_kept i ?s s'"
      "\<forall>n. quiet n i ?s \<longrightarrow> quiet n i s'" "fs' = fs @ bs @ [fr] \<and> bs' = [] \<or> rel = FILEERROR \<and> fs' = fs \<and> bs' = bs @ [fr]"
      using flush_result [OF rec1(1,2) _ rec1(3) i] by auto
    ultimately show ?thesis
      using others_kept_trans [OF rec1(4)] rec1(5) by (intro exI [of _ rel] exI [of _ s'] exI [of _ fs'] exI [of _ bs'])
        (auto simp: resting_def rel_codes)
  next
    case False
    then have "FS_WriteOneFrame (fst fr) (snd fr) s = Some (1, ?s)" "resting (bs @ [fr])"
      using p by (auto simp: FS_WriteOneFrame_def buf_sizes Let_def resting_def)
    then show ?thesis using rec1 by (intro exI [of _ 1] exI [of _ ?s] exI [of _ fs] exI [of _ "bs @ [fr]"]) simp
  qed
qed

lemma record_frames_result:
  assumes "recording i fs s" and "buffered bs (g_rec_write_buf s)" and "resting bs"
    and "log_loaded (rec_logs s)" and "pair_ok i"
    and "list_all (\<lambda>fr. frame_ok fr \<and> length (snd fr) \<le> 262144) frames"
  shows "\<exists>rel s' n fs' bs'. record_frames frames s = Some (rel, s') \<and> recording i fs' s' \<and>
    buffered bs' (g_rec_write_buf s') \<and> log_loaded (rec_logs s') \<and> others_kept i s s' \<and> (\<forall>n. quiet n i s \<longrightarrow> quiet n i s') \<and>
    fs' @ bs' = fs @ bs @ take n frames \<and> (0 \<le> rel \<longrightarrow> take n frames = frames \<and> resting bs')"
  using assms
proof (induction frames arbitrary: fs bs s)
  case Nil
  then show ?case by (intro exI [of _ ALLRIGHT] exI [of _ s] exI [of _ 0] exI [of _ fs] exI [of _ bs]) simp
next
  case (Cons fr frames)
  obtain rel s1 fs1 bs1 where 1: "FS_WriteOneFrame (fst fr) (snd fr) s = Some (rel, s1)" "recording i fs1 s1"
    "buffered bs1 (g_rec_write_buf s1)" "log_loaded (rec_logs s1)" "others_kept i s s1" "\<forall>n. quiet n i s \<longrightarrow> quiet n i s1" "fs1 @ bs1 = fs @ bs @ [fr]"
    "rel < 0 \<or> resting bs1"
    using write_frame [OF Cons.prems(1-5), of fr] Cons.prems(6) by auto
  show ?case
  proof (cases "rel < 0")
    case True
    then show ?thesis using 1
      by (intro exI [of _ rel] exI [of _ s1] exI [of _ 1] exI [of _ fs1] exI [of _ bs1]) simp
  next
    case False
    then have rest: "resting bs1" using 1(8) by simp
    have good: "list_all (\<lambda>fr. frame_ok fr \<and> length (snd fr) \<le> 262144) frames" using Cons.prems(6) by simp
    obtain rel2 s2 n fs2 bs2 where 2: "record_frames frames s1 = Some (rel2, s2)" "recording i fs2 s2"
      "buffered bs2 (g_rec_write_buf s2)" "log_loaded (rec_logs s2)" "others_kept i s1 s2"
      "\<forall>n. quiet n i s1 \<longrightarrow> quiet n i s2" "fs2 @ bs2 = fs1 @ bs1 @ take n frames" "0 \<le> rel2 \<longrightarrow> take n frames = frames \<and> resting bs2"
      using Cons.IH [OF 1(2,3) rest 1(4) Cons.prems(5) good] by blast
    have "fs2 @ bs2 = fs @ bs @ take (Suc n) (fr # frames)" using 2(7) 1(7) by (simp flip: append_assoc)
    then show ?thesis using 1 2 False others_kept_trans [OF 1(5) 2(5)]
      by (intro exI [of _ rel2] exI [of _ s2] exI [of _ "Suc n"] exI [of _ fs2] exI [of _ bs2]) simp
  qed
qed

text \<open>The flush at the end of a recording.\<close>

lemma flush_all:
  assumes "recording i fs s" and "buffered bs (g_rec_write_buf s)" and "log_loaded (rec_logs s)" and "pair_ok i"
  shows "\<exists>rel s' fs' bs'. FS_write_buf_write_to_file s = Some (rel, s') \<and> recording i fs' s' \<and>
    buffered bs' (g_rec_write_buf s') \<and> log_loaded (rec_logs s') \<and> others_kept i s s' \<and>
    (\<forall>n. quiet n i s \<longrightarrow> quiet n i s') \<and> fs' @ bs' = fs @ bs \<and>
    (0 \<le> rel \<longrightarrow> bs' = [])"
proof (cases "bs = []")
  case True
  then have "FS_write_buf_write_to_file s = Some (0, s)"
    using assms(2) by (auto simp: FS_write_buf_write_to_file_def buffered_def)
  then show ?thesis using assms True by (intro exI [of _ 0] exI [of _ s]) auto
next
  case False
  from flush_result [OF assms(1,2) False assms(3,4)] show ?thesis
    by (auto simp: rel_codes) (metis append_Nil2 append.assoc)+
qed

end
