(* ===== verification/Frame_Play.thy ===== *)
theory Frame_Play
  imports Frame_Store
begin

text \<open>
  How the player takes frames out of a pair of files: the read buffer of
  \<open>src/FileSystem/filesystem/FSfileoperate.c\<close> (\<open>ReadOneFrame\<close> and what it calls), and what
  a recording plays back as.
\<close>

section \<open>Playing\<close>

definition FS_read_buf_sys_init :: "(nat \<Rightarrow> byte) option \<Rightarrow> (nat \<Rightarrow> byte) option \<Rightarrow> frame_store \<Rightarrow> int \<times> frame_store" where
  "FS_read_buf_sys_init data head s =
     (let (r, b) = buf_sys_init data head in (r, s\<lparr>g_play_read_buf := b\<rparr>))"

definition FS_read_buf_sys_destroy :: "frame_store \<Rightarrow> frame_store" where
  "FS_read_buf_sys_destroy s =
     s\<lparr>g_play_read_buf := (g_play_read_buf s)\<lparr>data_buf := None, head_buf := None, conut := 0,
        data_size := 0, head_size := 0, create_flag := 0, buf_offset := 0\<rparr>\<rparr>"

definition read_buf_clear :: "write_buf \<Rightarrow> write_buf" where
  "read_buf_clear b =
     (if create_flag b \<noteq> 1 then b else b\<lparr>conut := 0, data_size := 0, head_size := 0, buf_offset := 0\<rparr>)"

definition FS_read_buf_sys_clear :: "frame_store \<Rightarrow> frame_store" where
  "FS_read_buf_sys_clear s = s\<lparr>g_play_read_buf := read_buf_clear (g_play_read_buf s)\<rparr>"

text \<open>The buffer is given up when it has been read, or when the play position is not in it.\<close>

definition discard_used :: "u32 \<Rightarrow> write_buf \<Rightarrow> write_buf" where
  "discard_used pos b =
     (let b1 = (if conut b > 0 \<and> buf_offset b \<ge> head_size b then read_buf_clear b else b)
      in if conut b1 > 0 \<and> (pos \<ge> word_of_int (head_offset_start b1 + head_size b1) \<or>
             pos < word_of_int (head_offset_start b1))
         then read_buf_clear b1 else b1)"

text \<open>The loop that sums the data lengths: the number of headers whose data fits.\<close>

fun count_fitting :: "nat \<Rightarrow> nat \<Rightarrow> u32 \<Rightarrow> (nat \<Rightarrow> byte) \<Rightarrow> nat" where
  "count_fitting 0 k acc f = k"
| "count_fitting (Suc n) k acc f =
     (let acc1 = acc + ulDataLen (segment f (36 * k) 36)
      in if sint acc1 > READ_BUF_SYS_MAX_DATA_NUM - 10 * 4096 then k else count_fitting n (Suc k) acc1 f)"

text \<open>How many headers are read at once, and how much data the \<open>c\<close> headers that were taken announce.\<close>

definition headers_to_read :: "u32 \<Rightarrow> nat" where
  "headers_to_read left =
     (if left \<ge> of_nat (READ_BUF_SYS_MAX_READ_NUM * 36) then READ_BUF_SYS_MAX_READ_NUM else unat left div 36)"

definition announced :: "nat \<Rightarrow> (nat \<Rightarrow> byte) \<Rightarrow> int" where
  "announced c h =
     (let first = segment h 0 36; last = segment h (36 * c - 36) 36
      in sint (if c > 1 then ulFrameDataOffset last + ulDataLen last - ulFrameDataOffset first
               else ulDataLen first))"

text \<open>
  Filling the buffer from the play position. The first component is the error to return.
  Reporting a bad length goes through \<open>pheader_end\<close>, which is NULL when less than two headers
  are taken.
\<close>

definition fill_read_buf :: "frame_store \<Rightarrow> (int option \<times> frame_store) option" where
  "fill_read_buf s =
     (let pos = ulPlayFrameHeaderOffset s;
          (r, hf, d1) = file_io_lseek (uint pos) 0 (play_header_filest s) (store_dev s);
          s1 = s\<lparr>play_header_filest := hf, store_dev := d1\<rparr>;
          left = ulPlayFrameHeaderEndOffset s - pos
      in if r = - 1 then Some (Some FILEERROR, s1)
      else if left < 36 then Some (Some FILEERROR, s1)
      else
        let n = headers_to_read left;
            (r, out, hf, d2) = file_io_read (36 * n) hf d1;
            b = g_play_read_buf s1
        in do {
          h \<leftarrow> block_write READ_BUF_SYS_MAX_HEAD_NUM (head_buf b) 0 out;
          let s2 = s1\<lparr>play_header_filest := hf, store_dev := d2, g_play_read_buf := b\<lparr>head_buf := Some h\<rparr>\<rparr>;
          if r \<noteq> int (36 * n) then Some (Some FILEERROR, s2)
          else
            let c = count_fitting n 0 0 h;
                s3 = s2\<lparr>g_play_read_buf := (g_play_read_buf s2)\<lparr>head_size := int (36 * c)\<rparr>\<rparr>;
                first = segment h 0 36;
                size = announced c h
            in if size > READ_BUF_SYS_MAX_DATA_NUM \<or> size \<le> 0
            then (if c > 1 then Some (Some FILEERROR, s3) else None)
            else
              let (r, df, d3) = file_io_lseek (uint (ulFrameDataOffset first)) 0 (play_data_filest s3) d2;
                  s4 = s3\<lparr>play_data_filest := df, store_dev := d3\<rparr>
              in if r = - 1 then Some (Some FILEERROR, s4)
              else
                let (r, out, df, d4) = file_io_read (nat size) df d3;
                    b = g_play_read_buf s4
                in do {
                  m \<leftarrow> block_write READ_BUF_SYS_MAX_DATA_NUM (data_buf b) 0 out;
                  let s5 = s4\<lparr>play_data_filest := df, store_dev := d4, g_play_read_buf := b\<lparr>data_buf := Some m\<rparr>\<rparr>;
                  if r \<noteq> size then Some (Some FILEERROR, s5)
                  else Some (None, s5\<lparr>g_play_read_buf := (g_play_read_buf s5)\<lparr>data_size := size, conut := int c,
                    buf_offset := 0, data_offset_start := sint (ulFrameDataOffset first),
                    head_offset_start := sint pos\<rparr>\<rparr>)
                }
        })"

text \<open>
  Taking the next frame out of the buffer. \<open>vcap\<close> and \<open>acap\<close> are the sizes of the caller's
  buffers for video and audio. The results: the return value, the header delivered, and what is
  copied into one of the buffers.
\<close>

definition take_frame :: "int \<Rightarrow> nat \<Rightarrow> nat \<Rightarrow> int \<Rightarrow> frame_store \<Rightarrow>
    (int \<times> frame_header \<times> byte list \<times> frame_store) option" where
  "take_frame max_chan vcap acap playCam s =
     (let b = g_play_read_buf s in do {
        h \<leftarrow> block_read READ_BUF_SYS_MAX_HEAD_NUM (head_buf b) (buf_offset b) 36;
        let s1 = s\<lparr>ulPlayFrameHeaderOffset := ulPlayFrameHeaderOffset s + 36,
                    g_play_read_buf := b\<lparr>buf_offset := buf_offset b + 36\<rparr>\<rparr>;
        let off = sint (ulFrameDataOffset h - word_of_int (data_offset_start b));
        if CheckFrameHeader max_chan h = ERROR then Some (READBADFRAME, h, [], s1)
        else if FTC_GetBit playCam (iChannel h) \<noteq> 1 \<and> hdr_type h = VIDEO then Some (READNOTHING, h, [], s1)
        else if off > READ_BUF_SYS_MAX_DATA_NUM \<or> off < 0 then Some (FILEERROR, h, [], s1)
        else do {
          bs \<leftarrow> block_read READ_BUF_SYS_MAX_DATA_NUM (data_buf b) off (uint (ulDataLen h));
          if hdr_type h = VIDEO
          then (if length bs \<le> vcap then Some (ALLRIGHT, h, bs, s1\<lparr>curtime := ulTimeSec h\<rparr>) else None)
          else if hdr_type h = AUDIO
          then (if length bs \<le> acap then Some (ALLRIGHT, h, bs, s1) else None)
          else Some (FILEERROR, h, [], s1)
        }
      })"

definition FS_read_data_to_buf :: "int \<Rightarrow> nat \<Rightarrow> nat \<Rightarrow> int \<Rightarrow> frame_header \<Rightarrow> frame_store \<Rightarrow>
    (int \<times> frame_header \<times> byte list \<times> frame_store) option" where
  "FS_read_data_to_buf max_chan vcap acap playCam hdr s =
     (if create_flag (g_play_read_buf s) \<noteq> 1 then Some (- 1, hdr, [], s)
      else
        let s1 = s\<lparr>g_play_read_buf := discard_used (ulPlayFrameHeaderOffset s) (g_play_read_buf s)\<rparr> in do {
          (err, s2) \<leftarrow> (if conut (g_play_read_buf s1) = 0 then fill_read_buf s1 else Some (None, s1));
          (case err of
             Some rel \<Rightarrow> Some (rel, hdr, [], s2)
           | None \<Rightarrow> take_frame max_chan vcap acap playCam s2)
        })"

definition ReadOneFrame :: "int \<Rightarrow> nat \<Rightarrow> nat \<Rightarrow> int \<Rightarrow> frame_header \<Rightarrow> frame_store \<Rightarrow>
    (int \<times> frame_header \<times> byte list \<times> frame_store) option" where
  "ReadOneFrame max_chan vcap acap playCam hdr s = do {
     (rel, h, bs, s1) \<leftarrow> FS_read_data_to_buf max_chan vcap acap playCam hdr s;
     Some (rel, h, bs, if rel < 0 then FS_read_buf_sys_clear s1 else s1)
   }"

definition FS_GoBackOneFrame :: "frame_store \<Rightarrow> int \<times> frame_store" where
  "FS_GoBackOneFrame s =
     (ALLRIGHT, if ulPlayFrameHeaderOffset s > 56
                then s\<lparr>ulPlayFrameHeaderOffset := ulPlayFrameHeaderOffset s - 36\<rparr> else s)"

definition CheckPlayFile :: "frame_store \<Rightarrow> int \<times> frame_store" where
  "CheckPlayFile s =
     (if ulPlayFrameHeaderOffset s \<ge> ulPlayFrameHeaderEndOffset s then (PLAYOVER, s)
      else (ALLRIGHT, s\<lparr>lasttime := curtime s\<rparr>))"

definition FS_PlayMoveToEnd :: "frame_store \<Rightarrow> int \<times> frame_store" where
  "FS_PlayMoveToEnd s =
     (if fdno (play_header_filest s) \<le> 0 then (FILEERROR, s)
      else (ALLRIGHT, s\<lparr>ulPlayFrameHeaderOffset := ulPlayFrameHeaderEndOffset s\<rparr>))"

definition fs_open_play_file :: "open_answer \<Rightarrow> open_answer \<Rightarrow> byte list \<Rightarrow> frame_store \<Rightarrow>
    (int \<times> frame_store) option" where
  "fs_open_play_file a1 a2 path s = do {
     (r, hf, df, d) \<leftarrow> open_pair a1 a2 path ''r'' (play_data_filest s) (store_dev s);
     Some (r, s\<lparr>play_header_filest := hf, play_data_filest := df, store_dev := d\<rparr>)
   }"

section \<open>Playing frames\<close>

text \<open>Frames as the player gets them: the header with its data offset.\<close>

definition placed_header :: "frame list \<Rightarrow> nat \<Rightarrow> frame_header" where
  "placed_header fs k = set_data_offset (of_nat (length (data_bytes (take k fs)))) (fst (fs ! k))"

text \<open>\<open>m\<close> frames from \<open>k0\<close> on are in the blocks of the read buffer.\<close>

definition loaded :: "frame list \<Rightarrow> nat \<Rightarrow> nat \<Rightarrow> write_buf \<Rightarrow> bool" where
  "loaded fs k0 m b \<longleftrightarrow> k0 + m \<le> length fs \<and>
     length (data_bytes (take m (drop k0 fs))) \<le> 524288 \<and>
     data_offset_start b = int (length (data_bytes (take k0 fs))) \<and>
     (\<exists>hf df. head_buf b = Some hf \<and> data_buf b = Some df \<and>
        (\<forall>j < m. header_at hf j = placed_header fs (k0 + j)) \<and>
        segment df 0 (length (data_bytes (take m (drop k0 fs)))) = data_bytes (take m (drop k0 fs)))"

definition cached :: "frame list \<Rightarrow> nat \<Rightarrow> write_buf \<Rightarrow> bool" where
  "cached fs k b \<longleftrightarrow> create_flag b = 1 \<and> head_buf b \<noteq> None \<and> data_buf b \<noteq> None \<and>
     (conut b = 0 \<or> (\<exists>k0 m. loaded fs k0 m b \<and> conut b = int m \<and> head_size b = 36 * int m \<and>
        head_offset_start b = int (56 + 36 * k0) \<and> buf_offset b = 36 * int (k - k0) \<and> k0 \<le> k \<and> k \<le> k0 + m \<and> m \<le> 20))"

text \<open>The pair \<open>i\<close> is open for playing and holds \<open>fs\<close>; the player stands at frame \<open>k\<close>.\<close>

definition play_files :: "nat \<Rightarrow> frame list \<Rightarrow> frame_store \<Rightarrow> bool" where
  "play_files i fs s \<longleftrightarrow>
     opened (2 * i) (play_header_filest s) (store_dev s) \<and> opened (2 * i + 1) (play_data_filest s) (store_dev s) \<and>
     stored_frames i fs (store_dev s) \<and> dev_answers (store_dev s) = [] \<and>
     int (56 + 36 * length fs) \<le> file_size (io_info (play_header_filest s)) \<and>
     int (length (data_bytes fs)) \<le> file_size (io_info (play_data_filest s)) \<and>
     ulPlayFrameHeaderEndOffset s = of_nat (56 + 36 * length fs)"

definition playing :: "nat \<Rightarrow> frame list \<Rightarrow> nat \<Rightarrow> frame_store \<Rightarrow> bool" where
  "playing i fs k s \<longleftrightarrow> play_files i fs s \<and> k \<le> length fs \<and>
     ulPlayFrameHeaderOffset s = of_nat (56 + 36 * k) \<and> cached fs k (g_play_read_buf s)"

lemma with_offsets_nth:
  "k < length fs \<Longrightarrow> with_offsets o1 fs ! k = set_data_offset (of_nat (o1 + length (data_bytes (take k fs)))) (fst (fs ! k))"
proof (induction fs arbitrary: o1 k)
  case (Cons fr fs)
  then show ?case by (cases k) (simp_all add: add.assoc)
qed simp

lemma concat_headers_part:
  assumes "list_all frame_ok fs" and "k < length fs"
  shows "take 36 (drop (36 * k) (concat (with_offsets o1 fs))) = with_offsets o1 fs ! k"
  using assms
proof (induction fs arbitrary: o1 k)
  case (Cons fr fs)
  then show ?case by (cases k) (simp_all add: frame_ok_def)
qed simp

lemma stored_header:
  assumes "stored_frames i fs d" and "k + j < length fs"
  shows "header_at (overlay f 0 (header_bytes i k (36 * n) d)) j = (if j < n then placed_header fs (k + j) else header_at f j)"
proof (cases "j < n")
  case True
  have "placed_header fs (k + j) = take 36 (drop (36 * (k + j)) (header_bytes i 0 (36 * length fs) d))"
    using concat_headers_part [of fs "k + j" 0] with_offsets_nth [OF assms(2), of 0] assms
    by (simp add: stored_frames_def placed_header_def)
  also have "\<dots> = header_bytes i (k + j) 36 d"
    using assms(2) by (intro nth_equalityI) (simp_all add: header_bytes_def segment_nth algebra_simps)
  also have "\<dots> = header_at (overlay f 0 (header_bytes i k (36 * n) d)) j"
    using True by (intro nth_equalityI)
      (simp_all add: header_bytes_def header_at_def segment_nth overlay_def algebra_simps)
  finally show ?thesis using True by simp
next
  case False
  then show ?thesis unfolding header_at_def
    by (simp add: segment_overlay_disjoint header_bytes_def)
qed

lemma data_bytes_split: "data_bytes fs = data_bytes (take k fs) @ data_bytes (take m (drop k fs)) @ data_bytes (drop (k + m) fs)"
  by (metis append_take_drop_id data_bytes_simps(3) drop_drop add.commute)

lemma stored_data:
  assumes "stored_frames i fs d"
  shows "frame_bytes i (length (data_bytes (take k fs))) (length (data_bytes (take m (drop k fs)))) d = data_bytes (take m (drop k fs))"
proof -
  let ?a = "length (data_bytes (take k fs))" and ?n = "length (data_bytes (take m (drop k fs)))"
  have "frame_bytes i ?a ?n d = take ?n (drop ?a (frame_bytes i 0 (length (data_bytes fs)) d))"
    using data_bytes_split [of fs k m, THEN arg_cong [where f = length]]
    by (intro nth_equalityI) (simp_all add: frame_bytes_def segment_nth add.assoc)
  also have "\<dots> = take ?n (drop ?a (data_bytes fs))" using assms by (simp add: stored_frames_def)
  also have "\<dots> = data_bytes (take m (drop k fs))" by (subst data_bytes_split [of fs k m]) simp
  finally show ?thesis .
qed

text \<open>Seek and read, on a device that answers in full.\<close>

lemma seek_read:
  assumes "opened j f d" and "dev_answers d = []" and "0 \<le> off" and "off + int n \<le> file_size (io_info f)" and "0 < n"
  shows "\<exists>r f1 d1 f2 d2. file_io_lseek off w f d = (r, f1, d1) \<and> r \<noteq> - 1 \<and>
    file_io_read n f1 d1 = (int n, segment (dev_bytes d) (nat (video_start j) + nat off) n, f2, d2) \<and>
    opened j f2 d2 \<and> io_info f2 = io_info f \<and> dev_bytes d2 = dev_bytes d \<and> dev_size d2 = dev_size d \<and> dev_answers d2 = []"
proof -
  obtain r f1 d1 where s: "file_io_lseek off w f d = (r, f1, d1)" by (metis prod_cases3)
  have o: "diskoffset f = video_start j" "disk_offset (io_info f) = video_start j" "io_size f \<le> video_max j"
    "file_max_size (io_info f) = video_max j" "video_start j + video_max j \<le> int (dev_size d)" "file_size (io_info f) \<le> io_size f"
    using assms(1) by (auto simp: opened_def names_entry_def)
  have r: "r \<noteq> - 1 \<and> f1 = f\<lparr>fileoffset := off\<rparr> \<and> d1 = d\<lparr>dev_pos := nat (video_start j + off)\<rparr> \<and> opened j f1 d1 \<and> placed f1 d1"
    using s assms(1)
  proof (cases rule: file_io_lseek_cases)
    case no
    have "IO_Lseek d (video_start j + off) = (video_start j + off, d\<lparr>dev_pos := nat (video_start j + off)\<rparr>)"
      using o assms(3,4) video_bounds(1) [of j] by (intro IO_Lseek_ok) auto
    then show ?thesis using s no(1) o assms(3,4) video_bounds(1) [of j]
      by (auto simp: file_io_lseek_def Let_def)
  qed auto
  have pos: "nat (video_start j + off) = nat (video_start j) + nat off" "nat (video_start j + off) + n \<le> dev_size d"
    using o assms(3,4) video_bounds(1) [of j] by linarith+
  let ?f2 = "f1\<lparr>fileoffset := off + int n\<rparr>" and ?d2 = "d1\<lparr>dev_pos := dev_pos d1 + n\<rparr>"
  have "file_io_read n f1 d1 = (int n, segment (dev_bytes d) (nat (video_start j) + nat off) n, ?f2, ?d2)"
    using r pos assms(2,4,5) IO_Read_ready [of d1 n] by (simp add: file_io_read_def)
  then show ?thesis using s r assms(2,3) by (auto simp: opened_def)
qed

lemma count_fitting_result:
  assumes "\<And>x. x < n \<Longrightarrow> ulDataLen (header_at f (j + x)) = of_nat (length (snd (cs ! x)))" and "length cs = n"
    and "a + length (data_bytes cs) < 2 ^ 31" and "a \<le> 483328"
  shows "\<exists>c \<le> n. count_fitting n j (of_nat a) f = j + c \<and> a + length (data_bytes (take c cs)) \<le> 483328"
  using assms
proof (induction n arbitrary: j a cs)
  case 0
  then show ?case by simp
next
  case (Suc n)
  obtain fr cs' where cs: "cs = fr # cs'" using Suc.prems(2) by (cases cs) auto
  have l: "ulDataLen (segment f (36 * j) 36) = of_nat (length (snd fr))"
    using Suc.prems(1) [of 0] cs by (simp add: header_at_def)
  have sum: "sint (of_nat (a + length (snd fr)) :: u32) = int (a + length (snd fr))"
    using Suc.prems(3) cs by (intro sint_of_nat31) simp
  show ?case
  proof (cases "a + length (snd fr) > 483328")
    case True
    then have "count_fitting (Suc n) j (of_nat a) f = j"
      using l sum by (simp add: Let_def buf_sizes)
    then show ?thesis using Suc.prems(4) by (intro exI [of _ 0]) simp
  next
    case False
    have "\<exists>c \<le> n. count_fitting n (Suc j) (of_nat (a + length (snd fr))) f = Suc j + c \<and>
        a + length (snd fr) + length (data_bytes (take c cs')) \<le> 483328"
      using Suc.prems cs False Suc.prems(1) [of "Suc _"] by (intro Suc.IH) auto
    then obtain c where c: "c \<le> n" "count_fitting n (Suc j) (of_nat (a + length (snd fr))) f = Suc j + c"
      "a + length (snd fr) + length (data_bytes (take c cs')) \<le> 483328" by blast
    have "count_fitting (Suc n) j (of_nat a) f = count_fitting n (Suc j) (of_nat (a + length (snd fr))) f"
      using l sum False by (simp add: Let_def buf_sizes)
    then show ?thesis using c cs by (intro exI [of _ "Suc c"]) simp
  qed
qed

lemma unat_of_nat32: "n < 2 ^ 32 \<Longrightarrow> unat (of_nat n :: u32) = n"
  by (simp add: unsigned_of_nat take_bit_eq_mod)

lemma take_one: "k < length xs \<Longrightarrow> take (Suc 0) (drop k xs) = [xs ! k]"
  by (simp add: take_Suc_conv_app_nth)

lemma data_bytes_take_Suc:
  "k < length fs \<Longrightarrow> data_bytes (take (Suc k) fs) = data_bytes (take k fs) @ snd (fs ! k)"
  by (simp add: take_Suc_conv_app_nth)

lemma data_bytes_part: "length (data_bytes (take k fs)) + length (data_bytes (take m (drop k fs))) \<le> length (data_bytes fs)"
  using data_bytes_split [of fs k m, THEN arg_cong [where f = length]] by simp

lemma data_bytes_take_add: "data_bytes (take (k + m) fs) = data_bytes (take k fs) @ data_bytes (take m (drop k fs))"
  by (simp add: take_add)

text \<open>How much data the headers announce.\<close>

lemma announced_size:
  assumes "0 < m" and "k + m \<le> length fs" and "list_all frame_ok fs" and "length (data_bytes (take m (drop k fs))) \<le> 524288"
  shows "sint (ulFrameDataOffset (placed_header fs (k + (m - 1))) + ulDataLen (placed_header fs (k + (m - 1))) -
    ulFrameDataOffset (placed_header fs k)) = int (length (data_bytes (take m (drop k fs))))"
proof -
  let ?e = "k + (m - 1)"
  have e: "?e < length fs" "k < length fs" "Suc ?e = k + m" using assms(1,2) by auto
  have ok: "length (fst (fs ! ?e)) = 36" "length (fst (fs ! k)) = 36" "frame_ok (fs ! ?e)"
    using assms(3) e by (auto simp: list_all_length frame_ok_def)
  have "length (data_bytes (take ?e fs)) + length (snd (fs ! ?e)) = length (data_bytes (take k fs)) + length (data_bytes (take m (drop k fs)))"
    using data_bytes_take_Suc [OF e(1)] data_bytes_take_add [of k m fs] e(3) by (metis length_append)
  then have "(of_nat (length (data_bytes (take ?e fs))) + of_nat (length (snd (fs ! ?e))) - of_nat (length (data_bytes (take k fs))) :: u32) =
      of_nat (length (data_bytes (take m (drop k fs))))"
    by (metis add_diff_cancel_left' of_nat_add)
  then show ?thesis using ok assms(4) sint_of_nat31 [of "length (data_bytes (take m (drop k fs)))"]
    by (simp add: placed_header_def ulDataLen_frame)
qed

text \<open>Filling the buffer from frame \<open>k\<close> on.\<close>

lemma fill_result:
  assumes p: "play_files i fs s" "ulPlayFrameHeaderOffset s = of_nat (56 + 36 * k)" and k: "k < length fs"
    and buf: "create_flag (g_play_read_buf s) = 1" "head_buf (g_play_read_buf s) = Some hf" "data_buf (g_play_read_buf s) = Some df"
    and len: "list_all (\<lambda>fr. snd fr \<noteq> [] \<and> length (snd fr) \<le> 524288) fs"
  shows "\<exists>s' c. fill_read_buf s = Some (None, s') \<and> play_files i fs s' \<and> ulPlayFrameHeaderOffset s' = of_nat (56 + 36 * k) \<and>
    loaded fs k (max c 1) (g_play_read_buf s') \<and> conut (g_play_read_buf s') = int c \<and>
    head_size (g_play_read_buf s') = 36 * int c \<and> buf_offset (g_play_read_buf s') = 0 \<and> c \<le> 20 \<and>
    head_offset_start (g_play_read_buf s') = int (56 + 36 * k) \<and> create_flag (g_play_read_buf s') = 1"
proof -
  have o: "opened (2 * i) (play_header_filest s) (store_dev s)" "opened (2 * i + 1) (play_data_filest s) (store_dev s)"
    "stored_frames i fs (store_dev s)" "dev_answers (store_dev s) = []"
    "int (56 + 36 * length fs) \<le> file_size (io_info (play_header_filest s))"
    "int (length (data_bytes fs)) \<le> file_size (io_info (play_data_filest s))"
    "ulPlayFrameHeaderEndOffset s = of_nat (56 + 36 * length fs)"
    using p(1) by (simp_all add: play_files_def)
  have ok: "list_all frame_ok fs" using o(3) by (simp add: stored_frames_def)
  have max: "56 + 36 * length fs \<le> 3145728" "length (data_bytes fs) \<le> 131072000"
    using o(1,2,5,6) by (auto simp: opened_def)
  define n where "n = min 20 (length fs - k)"
  have n: "0 < n" "k + n \<le> length fs" "n \<le> 20" using k by (auto simp: n_def)
  have left: "ulPlayFrameHeaderEndOffset s - ulPlayFrameHeaderOffset s = of_nat (36 * (length fs - k))"
    using k by (simp add: o(7) p(2) of_nat_diff algebra_simps)
  have ul: "unat (of_nat (36 * (length fs - k)) :: u32) = 36 * (length fs - k)"
    by (rule unat_of_nat32) (use max(1) in simp)
  have lt: "\<not> (of_nat (36 * (length fs - k)) :: u32) < 36"
    using k ul by (simp add: word_less_nat_alt del: of_nat_mult)
  have nn: "headers_to_read (of_nat (36 * (length fs - k))) = n"
    using ul by (auto simp: headers_to_read_def word_le_nat_alt n_def buf_sizes simp del: of_nat_mult)
  have pos: "uint (ulPlayFrameHeaderOffset s) = int (56 + 36 * k)" "sint (ulPlayFrameHeaderOffset s) = int (56 + 36 * k)"
    unfolding p(2) using uint_of_nat32 [of "56 + 36 * k"] sint_of_nat31 [of "56 + 36 * k"] max(1) k
    by (simp_all del: of_nat_add of_nat_mult)
  obtain r f1 d1 f2 d2 where h1: "file_io_lseek (uint (ulPlayFrameHeaderOffset s)) 0 (play_header_filest s) (store_dev s) = (r, f1, d1)" "r \<noteq> - 1"
    and h2: "file_io_read (36 * n) f1 d1 = (int (36 * n),
      segment (dev_bytes (store_dev s)) (nat (video_start (2 * i)) + nat (uint (ulPlayFrameHeaderOffset s))) (36 * n), f2, d2)"
    and h: "opened (2 * i) f2 d2" "io_info f2 = io_info (play_header_filest s)" "dev_bytes d2 = dev_bytes (store_dev s)"
      "dev_size d2 = dev_size (store_dev s)" "dev_answers d2 = []"
    using seek_read [OF o(1,4), of "uint (ulPlayFrameHeaderOffset s)" "36 * n" 0] o(5) pos(1) n by auto
  have out: "segment (dev_bytes (store_dev s)) (nat (video_start (2 * i)) + nat (uint (ulPlayFrameHeaderOffset s))) (36 * n) =
      header_bytes i k (36 * n) (store_dev s)"
    unfolding pos(1) nat_int by (simp add: header_bytes_def add.assoc)
  let ?h = "overlay hf 0 (header_bytes i k (36 * n) (store_dev s))"
  have bw: "block_write READ_BUF_SYS_MAX_HEAD_NUM (Some hf) 0 (header_bytes i k (36 * n) (store_dev s)) = Some ?h"
    using n by (simp add: block_write_def buf_sizes header_bytes_def)
  have hdr: "header_at ?h j = placed_header fs (k + j)" if "j < n" for j
    using stored_header [OF o(3), of k j hf n] that n by simp
  have lens: "ulDataLen (header_at ?h (0 + x)) = of_nat (length (snd (take n (drop k fs) ! x)))" if "x < n" for x
    using hdr [OF that] that n ok by (auto simp: placed_header_def ulDataLen_frame list_all_length frame_ok_def)
  have tot: "length (data_bytes (take n (drop k fs))) < 2 ^ 31"
    using data_bytes_part [of k fs n] max(2) by simp
  have "\<exists>c \<le> n. count_fitting n 0 (of_nat 0) ?h = 0 + c \<and> 0 + length (data_bytes (take c (take n (drop k fs)))) \<le> 483328"
    by (rule count_fitting_result) (use lens tot n in auto)
  then obtain c where c: "c \<le> n" "count_fitting n 0 0 ?h = c" "length (data_bytes (take c (take n (drop k fs)))) \<le> 483328"
    by auto
  define m where "m = max c 1"
  have m: "0 < m" "m \<le> n" "k + m \<le> length fs" using c(1) n by (auto simp: m_def)
  have size: "length (data_bytes (take m (drop k fs))) \<le> 524288" "0 < length (data_bytes (take m (drop k fs)))"
  proof -
    have 1: "0 < length (snd (fs ! k))" "length (snd (fs ! k)) \<le> 524288" using len k by (auto simp: list_all_length)
    have 2: "m = c \<or> m = 1 \<and> c = 0" by (auto simp: m_def)
    then show "length (data_bytes (take m (drop k fs))) \<le> 524288"
      using c k 1 by (auto simp: take_one min_absorb1)
    have "data_bytes (take m (drop k fs)) = snd (fs ! k) @ data_bytes (take (m - 1) (drop (Suc k) fs))"
      using k m(1) by (cases m) (simp_all flip: Cons_nth_drop_Suc)
    then show "0 < length (data_bytes (take m (drop k fs)))" using 1(1) by simp
  qed
  let ?L = "length (data_bytes (take m (drop k fs)))"
  have first: "segment ?h 0 36 = placed_header fs k" using hdr [of 0] n by (simp add: header_at_def)
  have last: "segment ?h (36 * c - 36) 36 = placed_header fs (k + (c - 1))" if "0 < c"
    using hdr [of "c - 1"] that c(1) by (simp add: header_at_def right_diff_distrib')
  have fsz: "announced c ?h = int ?L"
  proof (cases "c > 1")
    case True
    then show ?thesis using announced_size [OF m(1,3) ok size(1)] first last by (simp add: m_def announced_def)
  next
    case False
    then have "m = 1" by (simp add: m_def)
    moreover have "ulDataLen (placed_header fs k) = of_nat (length (snd (fs ! k)))"
      using ok k by (simp add: placed_header_def ulDataLen_frame list_all_length frame_ok_def)
    ultimately show ?thesis using False first size(1) k sint_of_nat31 [of "length (snd (fs ! k))"] by (simp add: take_one announced_def)
  qed
  have foff: "ulFrameDataOffset (segment ?h 0 36) = of_nat (length (data_bytes (take k fs)))"
    using first ok k by (simp add: placed_header_def list_all_length frame_ok_def)
  have part: "length (data_bytes (take k fs)) + ?L \<le> length (data_bytes fs)" by (rule data_bytes_part)
  have doff: "uint (ulFrameDataOffset (segment ?h 0 36)) = int (length (data_bytes (take k fs)))"
    "sint (ulFrameDataOffset (segment ?h 0 36)) = int (length (data_bytes (take k fs)))"
    unfolding foff using uint_of_nat32 [of "length (data_bytes (take k fs))"] sint_of_nat31 [of "length (data_bytes (take k fs))"] part max(2)
    by simp_all
  obtain r' g1 e1 g2 e2 where d1: "file_io_lseek (uint (ulFrameDataOffset (segment ?h 0 36))) 0 (play_data_filest s) d2 = (r', g1, e1)" "r' \<noteq> - 1"
    and d2: "file_io_read ?L g1 e1 = (int ?L,
      segment (dev_bytes d2) (nat (video_start (2 * i + 1)) + nat (uint (ulFrameDataOffset (segment ?h 0 36)))) ?L, g2, e2)"
    and d: "opened (2 * i + 1) g2 e2" "io_info g2 = io_info (play_data_filest s)" "dev_bytes e2 = dev_bytes d2"
      "dev_size e2 = dev_size d2" "dev_answers e2 = []"
    using seek_read [OF opened_dev [OF o(2) h(4)] h(5), of "uint (ulFrameDataOffset (segment ?h 0 36))" ?L 0] o(6) doff(1) part size(2) by auto
  have dout: "segment (dev_bytes d2) (nat (video_start (2 * i + 1)) + nat (uint (ulFrameDataOffset (segment ?h 0 36)))) ?L =
      data_bytes (take m (drop k fs))"
    using stored_data [OF o(3), of k m] unfolding doff(1) nat_int h(3) by (simp add: frame_bytes_def)
  have dw: "block_write READ_BUF_SYS_MAX_DATA_NUM (Some df) 0 (data_bytes (take m (drop k fs))) =
      Some (overlay df 0 (data_bytes (take m (drop k fs))))"
    using size(1) by (simp add: block_write_def buf_sizes)
  have guard: "\<not> (int ?L > READ_BUF_SYS_MAX_DATA_NUM \<or> int ?L \<le> 0)" using size by (simp add: buf_sizes)
  let ?b = "(g_play_read_buf s)\<lparr>head_buf := Some ?h, head_size := int (36 * c), data_buf := Some (overlay df 0 (data_bytes (take m (drop k fs)))),
    data_size := int ?L, conut := int c, buf_offset := 0, data_offset_start := int (length (data_bytes (take k fs))),
    head_offset_start := int (56 + 36 * k)\<rparr>"
  have "\<exists>s'. fill_read_buf s = Some (None, s') \<and> play_header_filest s' = f2 \<and> play_data_filest s' = g2 \<and> store_dev s' = e2 \<and>
      g_play_read_buf s' = ?b \<and> ulPlayFrameHeaderOffset s' = ulPlayFrameHeaderOffset s \<and> ulPlayFrameHeaderEndOffset s' = ulPlayFrameHeaderEndOffset s"
    unfolding fill_read_buf_def Let_def left nn
    using h1 h2 bw buf lt out c(2) fsz doff(2) d1 d2 dout dw guard pos(2) by simp
  then obtain s' where s': "fill_read_buf s = Some (None, s')" "play_header_filest s' = f2" "play_data_filest s' = g2" "store_dev s' = e2"
      "g_play_read_buf s' = ?b" "ulPlayFrameHeaderOffset s' = ulPlayFrameHeaderOffset s" "ulPlayFrameHeaderEndOffset s' = ulPlayFrameHeaderEndOffset s"
    by blast
  have "play_files i fs s'"
    using o s' h d opened_dev [OF h(1) d(4)] by (simp add: play_files_def stored_frames_def header_bytes_def frame_bytes_def)
  moreover have "loaded fs k m ?b"
    using m size(1) hdr segment_overlay_same [of df 0 "data_bytes (take m (drop k fs))"] by (simp add: loaded_def)
  ultimately show ?thesis using s' p(2) buf(1) c(1) n(3)
    by (intro exI [of _ s'] exI [of _ c]) (simp add: m_def)
qed

text \<open>What the caller gets for a frame whose header is good.\<close>

definition shown :: "int \<Rightarrow> frame \<Rightarrow> bool" where
  "shown playCam fr \<longleftrightarrow> hdr_type (fst fr) = AUDIO \<or> FTC_GetBit playCam (iChannel (fst fr)) = 1"

definition playable :: "int \<Rightarrow> nat \<Rightarrow> nat \<Rightarrow> frame \<Rightarrow> bool" where
  "playable max_chan vcap acap fr \<longleftrightarrow> CheckFrameHeader max_chan (fst fr) = ALLRIGHT \<and>
     length (snd fr) \<le> (if hdr_type (fst fr) = VIDEO then vcap else acap)"

definition delivered :: "int \<Rightarrow> frame list \<Rightarrow> nat \<Rightarrow> int \<times> frame_header \<times> byte list" where
  "delivered playCam fs k =
     (if shown playCam (fs ! k) then (ALLRIGHT, placed_header fs k, snd (fs ! k))
      else (READNOTHING, placed_header fs k, []))"

lemma take_lookup:
  assumes fok: "list_all frame_ok fs"
    and l: "loaded fs k0 m (g_play_read_buf s)" and k: "k0 \<le> k" "k < k0 + m" "k - k0 < 1000"
    and off: "buf_offset (g_play_read_buf s) = 36 * int (k - k0)"
    and ok: "playable max_chan vcap acap (fs ! k)"
  shows "\<exists>c. take_frame max_chan vcap acap playCam s = (case delivered playCam fs k of (rel, h, bs) \<Rightarrow>
    Some (rel, h, bs, s\<lparr>ulPlayFrameHeaderOffset := ulPlayFrameHeaderOffset s + 36,
      g_play_read_buf := (g_play_read_buf s)\<lparr>buf_offset := 36 * int (Suc k - k0)\<rparr>, curtime := c\<rparr>))"
proof -
  define b where "b = g_play_read_buf s"
  let ?m = "take m (drop k0 fs)"
  obtain hf df where b: "head_buf b = Some hf" "data_buf b = Some df"
    and hdr: "\<And>j. j < m \<Longrightarrow> header_at hf j = placed_header fs (k0 + j)"
    and dat: "segment df 0 (length (data_bytes ?m)) = data_bytes ?m"
    and size: "length (data_bytes ?m) \<le> 524288" "k0 + m \<le> length fs"
    and start: "data_offset_start b = int (length (data_bytes (take k0 fs)))"
    using l by (auto simp: loaded_def b_def)
  have kf: "k < length fs" using k(2) size(2) by simp
  have fk: "length (fst (fs ! k)) = 36" "ulDataLen (fst (fs ! k)) = of_nat (length (snd (fs ! k)))" "frame_ok (fs ! k)"
    using fok kf ulDataLen_frame by (auto simp: list_all_length frame_ok_def)
  have h: "block_read READ_BUF_SYS_MAX_HEAD_NUM (head_buf b) (buf_offset b) 36 = Some (placed_header fs k)"
  proof -
    have "nat (buf_offset b) = 36 * (k - k0)" using off by (simp add: b_def)
    then show ?thesis using hdr [of "k - k0"] k off b by (simp add: block_read_def header_at_def buf_sizes b_def)
  qed
  have split: "data_bytes ?m = data_bytes (take (k - k0) (drop k0 fs)) @ snd (fs ! k) @ data_bytes (drop (Suc (k - k0)) ?m)"
  proof -
    have "?m = take (k - k0) ?m @ (fs ! k) # drop (Suc (k - k0)) ?m"
      using k size(2) id_take_nth_drop [of "k - k0" ?m] by simp
    then have "data_bytes ?m = data_bytes (take (k - k0) ?m) @ snd (fs ! k) @ data_bytes (drop (Suc (k - k0)) ?m)"
      by (metis data_bytes_simps(2,3))
    then show ?thesis using k by (simp add: min_def)
  qed
  let ?o = "length (data_bytes (take (k - k0) (drop k0 fs)))" and ?l = "length (snd (fs ! k))"
  have ol: "?o + ?l \<le> length (data_bytes ?m)" using split [THEN arg_cong [where f = length]] by simp
  have "take k fs = take k0 fs @ take (k - k0) (drop k0 fs)" using k(1) take_add [of k0 "k - k0" fs] by simp
  then have dk: "length (data_bytes (take k fs)) = length (data_bytes (take k0 fs)) + ?o" by (metis data_bytes_simps(3) length_append)
  have o: "sint (ulFrameDataOffset (placed_header fs k) - word_of_int (data_offset_start b)) = int ?o"
    using fk(1) start dk ol size(1) sint_of_nat31 [of ?o] by (simp add: placed_header_def)
  have len: "uint (ulDataLen (placed_header fs k)) = int ?l"
    using fk ol size(1) uint_of_nat32 [of ?l] by (simp add: placed_header_def)
  have part: "segment df ?o ?l = snd (fs ! k)"
  proof -
    have "segment df ?o ?l = take ?l (drop ?o (segment df 0 (length (data_bytes ?m))))"
      using ol by (intro nth_equalityI) (simp_all add: segment_nth)
    also have "\<dots> = snd (fs ! k)" unfolding dat by (subst split) simp
    finally show ?thesis .
  qed
  have r: "block_read READ_BUF_SYS_MAX_DATA_NUM (data_buf b) (int ?o) (int ?l) = Some (snd (fs ! k))"
    using b(2) ol size(1) part by (simp add: block_read_def buf_sizes)
  have guard: "\<not> (int ?o > READ_BUF_SYS_MAX_DATA_NUM \<or> int ?o < 0)" using ol size(1) by (simp add: buf_sizes)
  have good: "CheckFrameHeader max_chan (placed_header fs k) = ALLRIGHT" "hdr_type (placed_header fs k) = hdr_type (fst (fs ! k))"
    "iChannel (placed_header fs k) = iChannel (fst (fs ! k))" "ALLRIGHT \<noteq> ERROR"
    using ok fk(1) by (simp_all add: playable_def placed_header_def rel_codes)
  have ty: "hdr_type (fst (fs ! k)) = VIDEO \<or> hdr_type (fst (fs ! k)) = AUDIO" "VIDEO \<noteq> AUDIO"
    using ok by (auto simp: playable_def CheckFrameHeader_def rel_codes VIDEO_def AUDIO_def split: if_splits)
  let ?c = "if shown playCam (fs ! k) \<and> hdr_type (fst (fs ! k)) = VIDEO then ulTimeSec (placed_header fs k) else curtime s"
  have "buf_offset b + 36 = 36 * int (Suc k - k0)" using off k(1) by (simp add: b_def Suc_diff_le)
  then have "take_frame max_chan vcap acap playCam s = (case delivered playCam fs k of (rel, h, bs) \<Rightarrow>
    Some (rel, h, bs, s\<lparr>ulPlayFrameHeaderOffset := ulPlayFrameHeaderOffset s + 36,
      g_play_read_buf := b\<lparr>buf_offset := 36 * int (Suc k - k0)\<rparr>, curtime := ?c\<rparr>))"
    using h o len r guard good ty ok
    by (auto simp: take_frame_def Let_def b_def [symmetric] delivered_def shown_def playable_def)
  then show ?thesis unfolding b_def by (rule exI)
qed

lemma take_result:
  assumes p: "play_files i fs s" "ulPlayFrameHeaderOffset s = of_nat (56 + 36 * k)"
    and l: "loaded fs k0 m (g_play_read_buf s)" and k: "k0 \<le> k" "k < k0 + m" "k - k0 < 1000"
    and off: "buf_offset (g_play_read_buf s) = 36 * int (k - k0)"
    and ok: "playable max_chan vcap acap (fs ! k)"
  shows "\<exists>s'. take_frame max_chan vcap acap playCam s =
      (case delivered playCam fs k of (rel, h, bs) \<Rightarrow> Some (rel, h, bs, s')) \<and>
    play_files i fs s' \<and> ulPlayFrameHeaderOffset s' = of_nat (56 + 36 * Suc k) \<and>
    g_play_read_buf s' = (g_play_read_buf s)\<lparr>buf_offset := 36 * int (Suc k - k0)\<rparr>"
proof -
  have "list_all frame_ok fs" using p(1) by (simp add: play_files_def stored_frames_def)
  from take_lookup [OF this l k off ok] obtain c where "take_frame max_chan vcap acap playCam s = (case delivered playCam fs k of (rel, h, bs) \<Rightarrow>
    Some (rel, h, bs, s\<lparr>ulPlayFrameHeaderOffset := ulPlayFrameHeaderOffset s + 36,
      g_play_read_buf := (g_play_read_buf s)\<lparr>buf_offset := 36 * int (Suc k - k0)\<rparr>, curtime := c\<rparr>))" by blast
  then show ?thesis using p
    by (intro exI [of _ "s\<lparr>ulPlayFrameHeaderOffset := ulPlayFrameHeaderOffset s + 36,
      g_play_read_buf := (g_play_read_buf s)\<lparr>buf_offset := 36 * int (Suc k - k0)\<rparr>, curtime := c\<rparr>"])
      (simp add: play_files_def algebra_simps)
qed

lemma discard_used_result:
  assumes c: "cached fs k b" and k: "k \<le> length fs" and max: "56 + 36 * length fs < 2 ^ 31"
    and pos: "pos = of_nat (56 + 36 * k)"
  shows "create_flag (discard_used pos b) = 1 \<and> head_buf (discard_used pos b) \<noteq> None \<and> data_buf (discard_used pos b) \<noteq> None \<and>
    (conut (discard_used pos b) = 0 \<or> discard_used pos b = b \<and> (\<exists>k0 m. loaded fs k0 m b \<and> conut b = int m \<and>
      head_size b = 36 * int m \<and> head_offset_start b = int (56 + 36 * k0) \<and> buf_offset b = 36 * int (k - k0) \<and>
      k0 \<le> k \<and> k < k0 + m \<and> m \<le> 20))"
proof (cases "conut b = 0")
  case True
  then show ?thesis using c by (simp add: cached_def discard_used_def Let_def)
next
  case False
  then obtain k0 m where l: "loaded fs k0 m b" "conut b = int m" "head_size b = 36 * int m"
      "head_offset_start b = int (56 + 36 * k0)" "buf_offset b = 36 * int (k - k0)" "k0 \<le> k" "k \<le> k0 + m" "m \<le> 20"
    and b: "create_flag b = 1" "head_buf b \<noteq> None" "data_buf b \<noteq> None"
    using c by (auto simp: cached_def)
  show ?thesis
  proof (cases "k = k0 + m")
    case True
    then have "discard_used pos b = read_buf_clear b"
      using l False b by (auto simp: discard_used_def read_buf_clear_def Let_def)
    then show ?thesis using b by (simp add: read_buf_clear_def)
  next
    case False
    then have km: "k < k0 + m" using l(7) by simp
    have bound: "k0 + m \<le> length fs" using l(1) by (simp add: loaded_def)
    have u: "uint pos = int (56 + 36 * k)" unfolding pos using k max by (intro uint_of_nat32) simp
    have "uint (word_of_int (head_offset_start b + head_size b) :: u32) = int (56 + 36 * (k0 + m))"
      using uint_of_nat32 [of "56 + 36 * (k0 + m)"] bound max l(3,4) by (simp add: algebra_simps)
    moreover have "uint (word_of_int (head_offset_start b) :: u32) = int (56 + 36 * k0)"
      using uint_of_nat32 [of "56 + 36 * k0"] bound max l(4) by simp
    ultimately have "\<not> (pos \<ge> word_of_int (head_offset_start b + head_size b) \<or> pos < word_of_int (head_offset_start b))"
      using u km l(6) by (simp add: word_le_def word_less_def)
    moreover have "\<not> buf_offset b \<ge> head_size b" using l(3,5,6) km by simp
    ultimately have "discard_used pos b = b" by (simp add: discard_used_def Let_def)
    then show ?thesis using b l km by auto
  qed
qed

lemma read_one_frame:
  assumes p: "playing i fs k s" and k: "k < length fs"
    and ok: "list_all (\<lambda>fr. snd fr \<noteq> [] \<and> length (snd fr) \<le> 524288) fs" "list_all (playable max_chan vcap acap) fs"
  shows "\<exists>s'. ReadOneFrame max_chan vcap acap playCam hdr s =
      (case delivered playCam fs k of (rel, h, bs) \<Rightarrow> Some (rel, h, bs, s')) \<and> playing i fs (Suc k) s'"
proof -
  have f: "play_files i fs s" "ulPlayFrameHeaderOffset s = of_nat (56 + 36 * k)" "cached fs k (g_play_read_buf s)"
    using p by (simp_all add: playing_def)
  have max: "56 + 36 * length fs < 2 ^ 31" using f(1) by (auto simp: play_files_def opened_def)
  define b where "b = discard_used (ulPlayFrameHeaderOffset s) (g_play_read_buf s)"
  define s1 where "s1 = s\<lparr>g_play_read_buf := b\<rparr>"
  note du = discard_used_result [OF f(3) _ max f(2)] 
  have b: "create_flag b = 1" "head_buf b \<noteq> None" "data_buf b \<noteq> None" using du k by (auto simp: b_def)
  have pk: "playable max_chan vcap acap (fs ! k)" using ok(2) k by (auto simp: list_all_length)
  have f1: "play_files i fs s1" "ulPlayFrameHeaderOffset s1 = of_nat (56 + 36 * k)" "g_play_read_buf s1 = b"
    using f by (simp_all add: s1_def play_files_def)
  have start: "create_flag (g_play_read_buf s) = 1" using f(3) by (simp add: cached_def)
  have rel: "\<not> fst (delivered playCam fs k) < 0"
    by (simp add: delivered_def rel_codes play_codes)
  have "\<exists>s2 k0 m. (if conut b = 0 then fill_read_buf s1 else Some (None, s1)) = Some (None, s2) \<and>
      play_files i fs s2 \<and> ulPlayFrameHeaderOffset s2 = of_nat (56 + 36 * k) \<and> loaded fs k0 m (g_play_read_buf s2) \<and>
      k0 \<le> k \<and> k < k0 + m \<and> k - k0 < 1000 \<and> buf_offset (g_play_read_buf s2) = 36 * int (k - k0) \<and>
      create_flag (g_play_read_buf s2) = 1 \<and> (conut (g_play_read_buf s2) = 0 \<or> conut (g_play_read_buf s2) = int m \<and>
        head_size (g_play_read_buf s2) = 36 * int m \<and> head_offset_start (g_play_read_buf s2) = int (56 + 36 * k0) \<and> m \<le> 20)"
  proof (cases "conut b = 0")
    case True
    obtain hf df where hd: "head_buf b = Some hf" "data_buf b = Some df" using b by auto
    obtain s2 c where r: "fill_read_buf s1 = Some (None, s2)" "play_files i fs s2" "ulPlayFrameHeaderOffset s2 = of_nat (56 + 36 * k)"
      "loaded fs k (max c 1) (g_play_read_buf s2)" "conut (g_play_read_buf s2) = int c" "head_size (g_play_read_buf s2) = 36 * int c"
      "buf_offset (g_play_read_buf s2) = 0" "c \<le> 20" "head_offset_start (g_play_read_buf s2) = int (56 + 36 * k)"
      "create_flag (g_play_read_buf s2) = 1"
      using fill_result [OF f1(1,2) k _ _ _ ok(1), unfolded f1(3), OF b(1) hd] by blast
    show ?thesis using r True by (intro exI [of _ s2] exI [of _ k] exI [of _ "max c 1"]) auto
  next
    case False
    then obtain k0 m where l: "loaded fs k0 m (g_play_read_buf s)" "conut (g_play_read_buf s) = int m" "b = g_play_read_buf s"
      "head_size (g_play_read_buf s) = 36 * int m" "head_offset_start (g_play_read_buf s) = int (56 + 36 * k0)"
      "buf_offset (g_play_read_buf s) = 36 * int (k - k0)" "k0 \<le> k" "k < k0 + m" "m \<le> 20"
      using du k by (auto simp: b_def)
    show ?thesis using l False f1 b(1) by - (rule exI [of _ s1], rule exI [of _ k0], rule exI [of _ m], auto)
  qed
  then obtain s2 k0 m where s2: "(if conut b = 0 then fill_read_buf s1 else Some (None, s1)) = Some (None, s2)"
      "play_files i fs s2" "ulPlayFrameHeaderOffset s2 = of_nat (56 + 36 * k)" "loaded fs k0 m (g_play_read_buf s2)"
      "k0 \<le> k" "k < k0 + m" "k - k0 < 1000" "buf_offset (g_play_read_buf s2) = 36 * int (k - k0)" "create_flag (g_play_read_buf s2) = 1"
      "conut (g_play_read_buf s2) = 0 \<or> conut (g_play_read_buf s2) = int m \<and>
        head_size (g_play_read_buf s2) = 36 * int m \<and> head_offset_start (g_play_read_buf s2) = int (56 + 36 * k0) \<and> m \<le> 20"
    by blast
  obtain s3 where s3: "take_frame max_chan vcap acap playCam s2 = (case delivered playCam fs k of (rel, h, bs) \<Rightarrow> Some (rel, h, bs, s3))"
    "play_files i fs s3" "ulPlayFrameHeaderOffset s3 = of_nat (56 + 36 * Suc k)"
    "g_play_read_buf s3 = (g_play_read_buf s2)\<lparr>buf_offset := 36 * int (Suc k - k0)\<rparr>"
    using take_result [OF s2(2,3,4,5,6,7,8) pk] by blast
  have "FS_read_data_to_buf max_chan vcap acap playCam hdr s = (case delivered playCam fs k of (rel, h, bs) \<Rightarrow> Some (rel, h, bs, s3))"
    using start s2(1) s3(1) by (simp add: FS_read_data_to_buf_def Let_def b_def [symmetric] s1_def [symmetric] f1(3))
  then have "ReadOneFrame max_chan vcap acap playCam hdr s = (case delivered playCam fs k of (rel, h, bs) \<Rightarrow> Some (rel, h, bs, s3))"
    using rel by (cases "delivered playCam fs k") (simp add: ReadOneFrame_def)
  moreover have "cached fs (Suc k) (g_play_read_buf s3)"
  proof -
    have "loaded fs k0 m (g_play_read_buf s3)" "head_buf (g_play_read_buf s2) \<noteq> None" "data_buf (g_play_read_buf s2) \<noteq> None"
      using s2(4) s3(4) by (auto simp: loaded_def)
    then have "conut (g_play_read_buf s3) = 0 \<or> loaded fs k0 m (g_play_read_buf s3) \<and> conut (g_play_read_buf s3) = int m \<and>
        head_size (g_play_read_buf s3) = 36 * int m \<and> head_offset_start (g_play_read_buf s3) = int (56 + 36 * k0) \<and>
        buf_offset (g_play_read_buf s3) = 36 * int (Suc k - k0) \<and> k0 \<le> Suc k \<and> Suc k \<le> k0 + m \<and> m \<le> 20"
      "create_flag (g_play_read_buf s3) = 1" "head_buf (g_play_read_buf s3) \<noteq> None" "data_buf (g_play_read_buf s3) \<noteq> None"
      using s2(5,6,9,10) s3(4) by auto
    then show ?thesis unfolding cached_def by blast
  qed
  ultimately show ?thesis using s3(2,3) k by (auto simp: playing_def)
qed

text \<open>
  The play loop: it asks whether the file is over and reads the next frame; a bad frame is
  skipped, any other error ends it.
\<close>

fun play_frames :: "nat \<Rightarrow> int \<Rightarrow> nat \<Rightarrow> nat \<Rightarrow> int \<Rightarrow> frame_header \<Rightarrow> frame_store \<Rightarrow>
    ((int \<times> frame_header \<times> byte list) list \<times> int \<times> frame_store) option" where
  "play_frames 0 max_chan vcap acap playCam hdr s = None"
| "play_frames (Suc n) max_chan vcap acap playCam hdr s =
     (let (rel, s1) = CheckPlayFile s in
      if rel < 0 then Some ([], rel, s1)
      else do {
        (rel, h, bs, s2) \<leftarrow> ReadOneFrame max_chan vcap acap playCam hdr s1;
        if rel < 0 \<and> rel \<noteq> READBADFRAME then Some ([], rel, s2)
        else do {
          (outs, r, s3) \<leftarrow> play_frames n max_chan vcap acap playCam h s2;
          Some ((rel, h, bs) # outs, r, s3)
        }
      })"

lemma play_frames_result:
  assumes "playing i fs k s" and "length fs - k < n"
    and ok: "list_all (\<lambda>fr. snd fr \<noteq> [] \<and> length (snd fr) \<le> 524288) fs" "list_all (playable max_chan vcap acap) fs"
  shows "\<exists>s'. play_frames n max_chan vcap acap playCam hdr s =
    Some (map (delivered playCam fs) [k..<length fs], PLAYOVER, s') \<and> playing i fs (length fs) s'"
  using assms(1,2)
proof (induction n arbitrary: k s hdr)
  case 0
  then show ?case by simp
next
  case (Suc n)
  have f: "play_files i fs s" "ulPlayFrameHeaderOffset s = of_nat (56 + 36 * k)" "k \<le> length fs"
    "ulPlayFrameHeaderEndOffset s = of_nat (56 + 36 * length fs)"
    using Suc.prems(1) by (simp_all add: playing_def play_files_def)
  have max: "56 + 36 * length fs < 2 ^ 31" using f(1) by (auto simp: play_files_def opened_def)
  have over: "ulPlayFrameHeaderOffset s \<ge> ulPlayFrameHeaderEndOffset s \<longleftrightarrow> k = length fs"
    unfolding word_le_def f(2,4) using max f(3) uint_of_nat32 [of "56 + 36 * k"] uint_of_nat32 [of "56 + 36 * length fs"]
    by (auto simp del: of_nat_add of_nat_mult)
  show ?case
  proof (cases "k = length fs")
    case True
    then show ?thesis using over Suc.prems(1) by (simp add: CheckPlayFile_def play_codes)
  next
    case False
    then have k: "k < length fs" using f(3) by simp
    let ?s1 = "s\<lparr>lasttime := curtime s\<rparr>"
    have c: "CheckPlayFile s = (ALLRIGHT, ?s1)" using over False by (simp add: CheckPlayFile_def)
    have p1: "playing i fs k ?s1" using Suc.prems(1) by (simp add: playing_def play_files_def)
    obtain s2 where s2: "ReadOneFrame max_chan vcap acap playCam hdr ?s1 = (case delivered playCam fs k of (rel, h, bs) \<Rightarrow> Some (rel, h, bs, s2))"
      "playing i fs (Suc k) s2" using read_one_frame [OF p1 k ok] by blast
    obtain rel h bs where d: "delivered playCam fs k = (rel, h, bs)" by (metis prod_cases3)
    have rel: "0 \<le> rel" "0 \<le> ALLRIGHT" using d by (auto simp: delivered_def rel_codes play_codes split: if_splits)
    have "length fs - Suc k < n" using Suc.prems(2) k by simp
    then obtain s3 where "play_frames n max_chan vcap acap playCam h s2 =
        Some (map (delivered playCam fs) [Suc k..<length fs], PLAYOVER, s3)" "playing i fs (length fs) s3"
      using Suc.IH [OF s2(2)] by blast
    then show ?thesis using c s2(1) d rel k by (simp add: upt_conv_Cons)
  qed
qed

section \<open>From recording to playing\<close>

definition video_path :: "byte list \<Rightarrow> nat \<Rightarrow> byte list" where
  "video_path disk i = bytes_of ''/tddvr/'' @ disk @ bytes_of ''5/video_'' @ dec i"

lemma video_path_parts:
  assumes "length disk = 3"
  shows "drop 12 (video_path disk i) @ bytes_of ''.avh'' = video_label (2 * i)"
    and "drop 12 (video_path disk i) @ bytes_of ''.avd'' = video_label (2 * i + 1)"
    and "pair_dev (video_path disk i) \<noteq> []" "length (pair_dev (video_path disk i)) < 100"
  using assms by (auto simp: video_path_def bytes_of_def video_label_def video_name_def pair_dev_def)

text \<open>Opening writes in the table only.\<close>

lemma frames_low_kept:
  assumes "stored_frames i fs d" and "dev_bytes d' = overlay (dev_bytes d) p bs" and "p + length bs \<le> 104857600"
  shows "stored_frames i fs d'"
proof -
  have k: "segment (dev_bytes d') (nat (video_start j) + a) n = segment (dev_bytes d) (nat (video_start j) + a) n" for j a n
  proof -
    have "104857600 \<le> nat (video_start j)" using video_bounds(3) [of j] by linarith
    then show ?thesis unfolding assms(2) by (intro segment_overlay_disjoint) (use assms(3) in linarith)
  qed
  show ?thesis using assms(1) k [of "2 * i" 56] k [of "2 * i + 1" 0]
    by (simp add: stored_frames_def header_bytes_def frame_bytes_def)
qed

lemma open_named_ready:
  assumes t: "table_ok n d" and a: "dev_answers d = []" and j: "j < 2 * n" "2097152 + 288 * n \<le> 104857600"
    and size: "0 \<le> file_size (stored_info d j)" "file_size (stored_info d j) \<le> video_max j" "video_start j + video_max j \<le> int (dev_size d)"
    and nm: "drop 12 nam @ bytes_of ext = video_label j" "pair_dev nam \<noteq> []" "length (pair_dev nam) < 100"
    and fd: "0 < fd" "ret0 \<noteq> - 1" and fr: "stored_frames i fs d"
  shows "\<exists>f d'. open_named (fd, ret0, t1) nam ext mode d = Some (1, f, d') \<and> opened j f d' \<and>
    io_info f = stamp_info mode t1 (stored_info d j) \<and> table_ok n d' \<and> dev_answers d' = [] \<and> dev_size d' = dev_size d \<and>
    (\<forall>p. stored_info d' p = (if p = j then io_info f else stored_info d p)) \<and> stored_frames i fs d'"
proof -
  obtain f d' where o: "file_io_open fd ret0 t1 (pair_dev nam) (video_label j) mode 0 d = Some (1, f, d')" "opened j f d'"
    "io_info f = stamp_info mode t1 (stored_info d j)" "table_ok n d'" "dev_answers d' = []" "dev_size d' = dev_size d"
    "dev_bytes d' = overlay (dev_bytes d) (2097152 + 144 * j) (info_bytes (io_info f))"
    using open_ready [OF t a j(1) size fd nm(2,3)] by blast
  have i: "info_fits (io_info f)" using o(2) by (simp add: opened_def names_entry_def)
  then have "length (info_bytes (io_info f)) = 144" by (simp add: info_fits_def length_info_bytes)
  then have "stored_frames i fs d'" using frames_low_kept [OF fr o(7)] j by simp
  then show ?thesis using o stored_info_overlay(1) [OF o(7) i] nm(1) by (simp add: open_named_def)
qed

text \<open>Closing the two handles of the recorder.\<close>

lemma close_recording:
  assumes r: "recording i fs s" and q: "quiet n i s"
  shows "\<exists>d. close_pair (rec_header_filest s) (rec_data_filest s) (store_dev s) = (zero_file, zero_file, d) \<and>
    table_ok n d \<and> dev_answers d = [] \<and> dev_size d = dev_size (store_dev s) \<and> stored_frames i fs d \<and>
    file_size (stored_info d (2 * i)) = io_size (rec_header_filest s) \<and>
    file_size (stored_info d (2 * i + 1)) = io_size (rec_data_filest s)"
proof -
  have o: "opened (2 * i) (rec_header_filest s) (store_dev s)" "opened (2 * i + 1) (rec_data_filest s) (store_dev s)"
    "stored_frames i fs (store_dev s)" "0 < fdno (rec_header_filest s)" "0 < fdno (rec_data_filest s)"
    "int (56 + 36 * length fs) \<le> video_max (2 * i)" "int (length (data_bytes fs)) \<le> video_max (2 * i + 1)"
    using r by (auto simp: recording_def opened_def)
  have n: "table_ok n (store_dev s)" "dev_answers (store_dev s) = []" "2 * i < 2 * n" "2 * i + 1 < 2 * n" "2097152 + 288 * n \<le> 104857600"
    "stored_info (store_dev s) (2 * i) = io_info (rec_header_filest s)"
    "stored_info (store_dev s) (2 * i + 1) = io_info (rec_data_filest s)" using q by (auto simp: quiet_def)
  have j: "2097152 + 144 * Suc (2 * i) \<le> 104857600" "2097152 + 144 * Suc (2 * i + 1) \<le> 104857600" using n by auto
  obtain r1 hf d1 where y1: "file_io_sync (rec_header_filest s) (store_dev s) = (r1, hf, d1)" "dev_size d1 = dev_size (store_dev s)"
    and k1: "\<And>p a n. int (a + n) \<le> video_max p \<Longrightarrow>
       segment (dev_bytes d1) (nat (video_start p) + a) n = segment (dev_bytes (store_dev s)) (nat (video_start p) + a) n"
    using sync_keeps [OF o(1) j(1)] by (metis zero_le)
  note q1 = sync_quiet [OF o(1) n(2,1,3,5,6) y1(1)]
  obtain r2 df d2 where y2: "file_io_sync (rec_data_filest s) d1 = (r2, df, d2)" "dev_size d2 = dev_size d1"
    and k2: "\<And>p a n. int (a + n) \<le> video_max p \<Longrightarrow>
       segment (dev_bytes d2) (nat (video_start p) + a) n = segment (dev_bytes d1) (nat (video_start p) + a) n"
    using sync_keeps [OF opened_dev [OF o(2) y1(2)] j(2)] by (metis zero_le)
  have q2: "dev_answers d2 = [] \<and> table_ok n d2 \<and> stored_info d2 (2 * i + 1) = io_info df \<and>
    (\<forall>p. p \<noteq> 2 * i + 1 \<longrightarrow> stored_info d2 p = stored_info d1 p) \<and> file_size (io_info df) = io_size (rec_data_filest s)"
    using sync_quiet [OF opened_dev [OF o(2) y1(2)] _ _ n(4,5) _ y2(1)] q1 n(7) by simp
  have "close_pair (rec_header_filest s) (rec_data_filest s) (store_dev s) = (zero_file, zero_file, d2)"
    using y1(1) y2(1) o(4,5) by (simp add: close_pair_def file_io_close_def)
  moreover have "stored_frames i fs d2"
    using o(3,6,7) k1 [of 56 "36 * length fs" "2 * i"] k2 [of 56 "36 * length fs" "2 * i"]
      k1 [of 0 "length (data_bytes fs)" "2 * i + 1"] k2 [of 0 "length (data_bytes fs)" "2 * i + 1"]
    by (simp add: stored_frames_def header_bytes_def frame_bytes_def)
  ultimately show ?thesis using q1 q2 y1(2) y2(2) by simp
qed

text \<open>Opening the two files again, for playing or for more recording.\<close>

lemma stamp_info_size: "CHR ''w'' \<notin> set mode \<Longrightarrow> file_size (stamp_info mode t fi) = file_size fi"
  by (simp add: stamp_info_def)

lemma reopen_pair:
  assumes r: "recording i fs s" and q: "quiet n i s" and fd: "0 < fd1" "r1 \<noteq> - 1" "0 < fd2" "r2 \<noteq> - 1" and disk: "length disk = 3"
    and c: "close_pair (rec_header_filest s) (rec_data_filest s) (store_dev s) = (hf, df, d)" and mode: "CHR ''w'' \<notin> set mode"
  shows "\<exists>f1 f2 d2. (\<forall>x. open_pair (fd1, r1, t1) (fd2, r2, t2) (video_path disk i) mode x d = Some (ALLRIGHT, f1, f2, d2)) \<and>
    opened (2 * i) f1 d2 \<and> opened (2 * i + 1) f2 d2 \<and> stored_frames i fs d2 \<and> dev_answers d2 = [] \<and> table_ok n d2 \<and>
    stored_info d2 (2 * i) = io_info f1 \<and> stored_info d2 (2 * i + 1) = io_info f2 \<and>
    int (56 + 36 * length fs) \<le> file_size (io_info f1) \<and> int (length (data_bytes fs)) \<le> file_size (io_info f2)"
proof -
  have c': "table_ok n d" "dev_answers d = []" "dev_size d = dev_size (store_dev s)" "stored_frames i fs d"
    "file_size (stored_info d (2 * i)) = io_size (rec_header_filest s)"
    "file_size (stored_info d (2 * i + 1)) = io_size (rec_data_filest s)"
    using close_recording [OF r q] c by auto
  have b: "0 \<le> io_size (rec_header_filest s)" "io_size (rec_header_filest s) \<le> video_max (2 * i)"
    "0 \<le> io_size (rec_data_filest s)" "io_size (rec_data_filest s) \<le> video_max (2 * i + 1)"
    "video_start (2 * i) + video_max (2 * i) \<le> int (dev_size (store_dev s))"
    "video_start (2 * i + 1) + video_max (2 * i + 1) \<le> int (dev_size (store_dev s))"
    "int (56 + 36 * length fs) \<le> io_size (rec_header_filest s)" "int (length (data_bytes fs)) \<le> io_size (rec_data_filest s)"
    using r by (auto simp: recording_def opened_def)
  have n: "2 * i < 2 * n" "2 * i + 1 < 2 * n" "2097152 + 288 * n \<le> 104857600" using q by (auto simp: quiet_def)
  note path = video_path_parts [OF disk]
  obtain f1 d1 where o1: "open_named (fd1, r1, t1) (video_path disk i) ''.avh'' mode d = Some (1, f1, d1)" "opened (2 * i) f1 d1"
    "io_info f1 = stamp_info mode t1 (stored_info d (2 * i))" "table_ok n d1" "dev_answers d1 = []" "dev_size d1 = dev_size d"
    "\<forall>p. stored_info d1 p = (if p = 2 * i then io_info f1 else stored_info d p)" "stored_frames i fs d1"
    using open_named_ready [OF c'(1,2) n(1,3) _ _ _ path(1,3,4) fd(1,2) c'(4), of t1 mode] c'(3,5) b by auto
  obtain f2 d2 where o2: "open_named (fd2, r2, t2) (video_path disk i) ''.avd'' mode d1 = Some (1, f2, d2)" "opened (2 * i + 1) f2 d2"
    "io_info f2 = stamp_info mode t2 (stored_info d1 (2 * i + 1))" "table_ok n d2" "dev_answers d2 = []" "dev_size d2 = dev_size d1"
    "\<forall>p. stored_info d2 p = (if p = 2 * i + 1 then io_info f2 else stored_info d1 p)" "stored_frames i fs d2"
    using open_named_ready [OF o1(4,5) n(2,3) _ _ _ path(2,3,4) fd(3,4) o1(8), of t2 mode] o1(6,7) c'(3,6) b by auto
  have "open_pair (fd1, r1, t1) (fd2, r2, t2) (video_path disk i) mode x d = Some (ALLRIGHT, f1, f2, d2)" for x
    using o1(1) o2(1) by (simp add: open_pair_def)
  moreover have "stored_info d1 (2 * i + 1) = stored_info d (2 * i + 1)" "stored_info d2 (2 * i) = io_info f1"
    "stored_info d2 (2 * i + 1) = io_info f2" using o1(7) o2(7) by simp_all
  moreover have "file_size (io_info f1) = io_size (rec_header_filest s)" "file_size (io_info f2) = io_size (rec_data_filest s)"
    using o1(3) o2(3) c'(5,6) calculation(2) mode by (simp_all add: stamp_info_size)
  ultimately show ?thesis using o1 o2 opened_dev [OF o1(2) o2(6)] b(7,8)
    by (intro exI [of _ f1] exI [of _ f2] exI [of _ d2]) simp
qed

lemma play_recording:
  assumes r: "recording i fs s" and q: "quiet n i s" and fd: "0 < fd1" "r1 \<noteq> - 1" "0 < fd2" "r2 \<noteq> - 1" and disk: "length disk = 3"
    and c: "close_pair (rec_header_filest s) (rec_data_filest s) (store_dev s) = (hf, df, d)"
  shows "\<exists>s'. fs_open_play_file (fd1, r1, t1) (fd2, r2, t2) (video_path disk i) (s\<lparr>rec_header_filest := hf, rec_data_filest := df, store_dev := d\<rparr>) = Some (ALLRIGHT, s') \<and>
    (\<forall>e. e = of_nat (56 + 36 * length fs) \<longrightarrow> play_files i fs (s'\<lparr>ulPlayFrameHeaderEndOffset := e\<rparr>))"
proof -
  obtain f1 f2 d2 where o: "\<forall>x. open_pair (fd1, r1, t1) (fd2, r2, t2) (video_path disk i) ''r'' x d = Some (ALLRIGHT, f1, f2, d2)"
    "opened (2 * i) f1 d2" "opened (2 * i + 1) f2 d2" "stored_frames i fs d2" "dev_answers d2 = []"
    "int (56 + 36 * length fs) \<le> file_size (io_info f1)" "int (length (data_bytes fs)) \<le> file_size (io_info f2)"
    using reopen_pair [OF r q fd disk c, of "''r''" t1 t2] by auto
  have "fs_open_play_file (fd1, r1, t1) (fd2, r2, t2) (video_path disk i) (s\<lparr>rec_header_filest := hf, rec_data_filest := df, store_dev := d\<rparr>) =
      Some (ALLRIGHT, s\<lparr>rec_header_filest := hf, rec_data_filest := df, play_header_filest := f1, play_data_filest := f2, store_dev := d2\<rparr>)"
    using o(1) by (simp add: fs_open_play_file_def)
  then show ?thesis using o by (simp add: play_files_def)
qed

end
