(* ===== verification/Frame_Runs.thy ===== *)
theory Frame_Runs
  imports Frame_Play
begin

text \<open>
  Whole recordings and playbacks over \<open>Frame_Store\<close> and \<open>Frame_Play\<close>, and the properties of
  the two.
\<close>

section \<open>Starting a recording\<close>

text \<open>The table of \<open>n\<close> pairs is in order, the device answers in full and holds the two files.\<close>

definition disk_ready :: "nat \<Rightarrow> nat \<Rightarrow> blkdev \<Rightarrow> bool" where
  "disk_ready n i d \<longleftrightarrow> table_ok n d \<and> dev_answers d = [] \<and> i < n \<and> 2097152 + 288 * n \<le> 104857600 \<and>
     (\<forall>j \<in> {2 * i, 2 * i + 1}. 0 \<le> file_size (stored_info d j) \<and> file_size (stored_info d j) \<le> video_max j \<and>
        video_start j + video_max j \<le> int (dev_size d))"

lemma open_named_start:
  assumes d: "table_ok n d" "dev_answers d = []" and j: "j < 2 * n" "2097152 + 288 * n \<le> 104857600"
    and size: "0 \<le> file_size (stored_info d j)" "file_size (stored_info d j) \<le> video_max j" "video_start j + video_max j \<le> int (dev_size d)"
    and nm: "drop 12 nam @ bytes_of ext = video_label j" "pair_dev nam \<noteq> []" "length (pair_dev nam) < 100"
    and fd: "0 < fd" "ret0 \<noteq> - 1"
  shows "\<exists>f d'. open_named (fd, ret0, t1) nam ext mode d = Some (1, f, d') \<and> opened j f d' \<and> fileoffset f = 0 \<and>
    table_ok n d' \<and> dev_answers d' = [] \<and> dev_size d' = dev_size d \<and>
    (\<forall>p. stored_info d' p = (if p = j then io_info f else stored_info d p))"
proof -
  obtain f d' where o: "file_io_open fd ret0 t1 (pair_dev nam) (video_label j) mode 0 d = Some (1, f, d')" "opened j f d'"
    "fileoffset f = 0" "table_ok n d'" "dev_answers d' = []" "dev_size d' = dev_size d"
    "dev_bytes d' = overlay (dev_bytes d) (2097152 + 144 * j) (info_bytes (io_info f))"
    using open_ready [OF d j(1) size fd nm(2,3)] by blast
  have "info_fits (io_info f)" using o(2) by (simp add: opened_def names_entry_def)
  then show ?thesis using o stored_info_overlay(1) [OF o(7)] nm(1) by (simp add: open_named_def)
qed

lemma open_record_pair:
  assumes r: "disk_ready n i (store_dev s)" and fd: "0 < fd1" "r1 \<noteq> - 1" "0 < fd2" "r2 \<noteq> - 1" and disk: "length disk = 3"
  shows "\<exists>hf df d. fs_open_record_file (fd1, r1, t1) (fd2, r2, t2) (video_path disk i) reopen s =
      Some (ALLRIGHT, s\<lparr>rec_header_filest := hf, rec_data_filest := df, store_dev := d\<rparr>) \<and>
    opened (2 * i) hf d \<and> opened (2 * i + 1) df d \<and> fileoffset hf = 0 \<and> dev_size d = dev_size (store_dev s) \<and>
    dev_answers d = [] \<and> table_ok n d \<and> stored_info d (2 * i) = io_info hf \<and> stored_info d (2 * i + 1) = io_info df"
proof -
  let ?d = "store_dev s" and ?m = "if reopen = 1 then ''w'' else ''+''"
  have c: "table_ok n ?d" "dev_answers ?d = []" "2 * i < 2 * n" "2 * i + 1 < 2 * n" "2097152 + 288 * n \<le> 104857600"
    "0 \<le> file_size (stored_info ?d (2 * i))" "file_size (stored_info ?d (2 * i)) \<le> video_max (2 * i)"
    "video_start (2 * i) + video_max (2 * i) \<le> int (dev_size ?d)"
    "0 \<le> file_size (stored_info ?d (2 * i + 1))" "file_size (stored_info ?d (2 * i + 1)) \<le> video_max (2 * i + 1)"
    "video_start (2 * i + 1) + video_max (2 * i + 1) \<le> int (dev_size ?d)"
    using r by (auto simp: disk_ready_def)
  note path = video_path_parts [OF disk]
  obtain f1 d1 where o1: "open_named (fd1, r1, t1) (video_path disk i) ''.avh'' ?m ?d = Some (1, f1, d1)" "opened (2 * i) f1 d1"
    "fileoffset f1 = 0" "table_ok n d1" "dev_answers d1 = []" "dev_size d1 = dev_size ?d"
    "\<forall>p. stored_info d1 p = (if p = 2 * i then io_info f1 else stored_info ?d p)"
    using open_named_start [OF c(1,2,3,5,6-8) path(1,3,4) fd(1,2), of t1 ?m] by blast
  have s1: "stored_info d1 (2 * i + 1) = stored_info ?d (2 * i + 1)" "stored_info d1 (2 * i) = io_info f1" using o1(7) by auto
  obtain f2 d2 where o2: "open_named (fd2, r2, t2) (video_path disk i) ''.avd'' ?m d1 = Some (1, f2, d2)" "opened (2 * i + 1) f2 d2"
    "table_ok n d2" "dev_answers d2 = []" "dev_size d2 = dev_size d1"
    "\<forall>p. stored_info d2 p = (if p = 2 * i + 1 then io_info f2 else stored_info d1 p)"
    using open_named_start [OF o1(4,5) c(4,5) _ _ _ path(2,3,4) fd(3,4), of t2 ?m] s1(1) c(9-11) o1(6) by fastforce
  have "fs_open_record_file (fd1, r1, t1) (fd2, r2, t2) (video_path disk i) reopen s =
      Some (ALLRIGHT, s\<lparr>rec_header_filest := f1, rec_data_filest := f2, store_dev := d2\<rparr>)"
    using o1(1) o2(1) by (simp add: fs_open_record_file_def open_pair_def)
  moreover have "stored_info d2 (2 * i) = io_info f1" "stored_info d2 (2 * i + 1) = io_info f2" using o2(6) s1(2) by auto
  ultimately show ?thesis using o1 o2 opened_dev [OF o1(2) o2(5)] by (intro exI [of _ f1] exI [of _ f2] exI [of _ d2]) auto
qed

lemma stored_no_frames [simp]: "stored_frames i [] d"
  by (simp add: stored_frames_def header_bytes_def frame_bytes_def segment_def)

lemma start_new_file_ready:
  assumes o: "opened (2 * i) hf d" "opened (2 * i + 1) df d" "fileoffset hf = 0"
    and q: "dev_answers d = []" "table_ok n d" "stored_info d (2 * i) = io_info hf" "stored_info d (2 * i + 1) = io_info df"
      "i < n" "2097152 + 288 * n \<le> 104857600"
    and s: "rec_header_filest s = hf" "rec_data_filest s = df" "store_dev s = d" and l: "length info = 56"
  shows "\<exists>hf' d'. start_new_file info s = (ALLRIGHT, s\<lparr>rec_header_filest := hf', store_dev := d', g_ulFrameHeaderOffset := 56, g_ulFileDataOffset := 0\<rparr>) \<and>
    recording i [] (s\<lparr>rec_header_filest := hf', store_dev := d', g_ulFrameHeaderOffset := 56, g_ulFileDataOffset := 0\<rparr>) \<and>
    quiet n i (s\<lparr>rec_header_filest := hf', store_dev := d', g_ulFrameHeaderOffset := 56, g_ulFileDataOffset := 0\<rparr>)"
proof -
  let ?d = "at_handle hf d"
  have b: "diskoffset hf = video_start (2 * i)" "file_max_size (io_info hf) = 3145728" "video_start (2 * i) + 3145728 \<le> int (dev_size d)"
    using o(1) by (auto simp: opened_def names_entry_def)
  have p: "placed hf ?d" using o(1,3) b(1) video_bounds(1) [of "2 * i"] by (auto simp: placed_def at_handle_def opened_def)
  have o1: "opened (2 * i) hf ?d" using opened_dev [OF o(1), of ?d] by (simp add: at_handle_def)
  obtain q' h1 d1 where w: "file_io_write info hf ?d = (q', h1, d1)" by (metis prod_cases3)
  have "IO_Write info ?d = (int (length info), ?d\<lparr>dev_bytes := overlay (dev_bytes ?d) (dev_pos ?d) info, dev_pos := dev_pos ?d + length info\<rparr>)"
    using q(1) b o(3) l video_bounds(1) [of "2 * i"] by (intro IO_Write_ready) (auto simp: at_handle_def nat_le_iff)
  then have r: "q' = 56" "dev_answers d1 = []" "dev_pos ?d = nat (video_start (2 * i))"
    using w b o(3) l q(1) by (auto simp: file_io_write_def Let_def at_handle_def split: if_splits)
  have w1: "opened (2 * i) h1 d1" "io_info h1 = io_info hf" "dev_size d1 = dev_size d"
    "dev_bytes d1 = overlay (dev_bytes d) (nat (video_start (2 * i))) info" "56 \<le> io_size h1"
    using file_io_write_result [OF w o1 p] r l o(3) by (auto simp: at_handle_def)
  have low: "low_kept d d1" unfolding low_kept_def w1(4) using w1(3) r(2) video_bounds(3) [of "2 * i"] by (auto simp: overlay_def le_nat_iff)
  have "quiet n i (s\<lparr>store_dev := d1, rec_header_filest := h1\<rparr>)"
    using quiet_low_kept [of n i s "s\<lparr>store_dev := d1, rec_header_filest := h1\<rparr>"] low q s w1(2) by (simp add: quiet_def)
  then have q1: "dev_answers d1 = []" "table_ok n d1" "stored_info d1 (2 * i) = io_info h1" "stored_info d1 (2 * i + 1) = io_info df"
    using s by (simp_all add: quiet_def)
  have j: "2 * i < 2 * n" "2097152 + 144 * Suc (2 * i) \<le> 104857600" using q(5,6) by auto
  obtain r2 h2 d2 where y: "file_io_sync h1 d1 = (r2, h2, d2)" "opened (2 * i) h2 d2" "dev_size d2 = dev_size d1" "io_size h2 = io_size h1"
    using sync_keeps [OF w1(1) j(2)] by metis
  have q2: "dev_answers d2 = [] \<and> table_ok n d2 \<and> stored_info d2 (2 * i) = io_info h2 \<and> (\<forall>p. p \<noteq> 2 * i \<longrightarrow> stored_info d2 p = stored_info d1 p)"
    using sync_quiet [OF w1(1) q1(1,2) j(1) q(6) q1(3) y(1)] by blast
  have "start_new_file info s = (ALLRIGHT, s\<lparr>rec_header_filest := h2, store_dev := d2, g_ulFrameHeaderOffset := 56, g_ulFileDataOffset := 0\<rparr>)"
    using w y(1) r(1) s by (simp add: start_new_file_def)
  then show ?thesis using y w1 q2 q1 q s o opened_dev [OF o(2), of d2]
    by (intro exI [of _ h2] exI [of _ d2]) (auto simp: recording_def quiet_def opened_def)
qed

section \<open>Whole runs\<close>

text \<open>
  Recording into pair \<open>i\<close>: open the two files, write the \<open>FILEINFO\<close>, record the frames, flush
  and close. Playing: \<open>OpenPlayFile\<close> opens the files and puts the player behind the
  \<open>FILEINFO\<close>, then frames are read until the end.
\<close>

definition begin_play :: "u32 \<Rightarrow> frame_store \<Rightarrow> frame_store" where
  "begin_play ulOffSet s =
     s\<lparr>ulPlayFrameHeaderOffset := 56, ulPlayFrameHeaderEndOffset := ulOffSet, curtime := 0, lasttime := 0\<rparr>"

definition close_rec_files :: "frame_store \<Rightarrow> frame_store" where
  "close_rec_files s =
     (case close_pair (rec_header_filest s) (rec_data_filest s) (store_dev s) of
        (hf, df, d) \<Rightarrow> s\<lparr>rec_header_filest := hf, rec_data_filest := df, store_dev := d\<rparr>)"

definition record_run :: "open_answer \<Rightarrow> open_answer \<Rightarrow> byte list \<Rightarrow> byte list \<Rightarrow> frame list \<Rightarrow> frame_store \<Rightarrow>
    (int \<times> frame_store) option" where
  "record_run a1 a2 path info frames s = do {
     (r, s1) \<leftarrow> fs_open_record_file a1 a2 path 0 s;
     if r < 0 then Some (r, s1)
     else let (r, s2) = start_new_file info s1
     in if r < 0 then Some (r, s2)
     else do {
       (r, s3) \<leftarrow> record_frames frames s2;
       if r < 0 then Some (r, s3)
       else do {
         (r, s4) \<leftarrow> FS_write_buf_write_to_file s3;
         Some (r, close_rec_files s4)
       }
     }
   }"

definition play_run :: "nat \<Rightarrow> open_answer \<Rightarrow> open_answer \<Rightarrow> byte list \<Rightarrow> int \<Rightarrow> nat \<Rightarrow> nat \<Rightarrow> int \<Rightarrow> frame_header \<Rightarrow> frame_store \<Rightarrow>
    ((int \<times> frame_header \<times> byte list) list \<times> int) option" where
  "play_run fuel a1 a2 path max_chan vcap acap playCam hdr s = do {
     (r, s1) \<leftarrow> fs_open_play_file a1 a2 path s;
     if r < 0 then Some ([], r)
     else do {
       (outs, r, s2) \<leftarrow> play_frames fuel max_chan vcap acap playCam hdr (begin_play (g_ulFrameHeaderOffset s) s1);
       Some (outs, r)
     }
   }"

lemma buffered_fresh: "buffered [] (snd (buf_sys_init (Some a) (Some b)))"
  by (simp add: buffered_def buf_sys_init_def zero_buf_def buf_sizes segment_def)

lemma cached_fresh: "cached fs k (snd (buf_sys_init (Some a) (Some b)))"
  by (simp add: cached_def buf_sys_init_def zero_buf_def)

lemma ready_pair: "disk_ready n i d \<Longrightarrow> pair_ok i"
  by (auto simp: disk_ready_def pair_ok_def)

lemma record_run_result:
  assumes d: "disk_ready n i (store_dev s)" and a: "0 < fd1" "r1 \<noteq> - 1" "0 < fd2" "r2 \<noteq> - 1" and disk: "length disk = 3"
    and info: "length info = 56" and buf: "buffered [] (g_rec_write_buf s)" and log: "log_loaded (rec_logs s)"
    and ok: "list_all (\<lambda>fr. frame_ok fr \<and> length (snd fr) \<le> 262144) frames"
  shows "\<exists>rel s'. record_run (fd1, r1, t1) (fd2, r2, t2) (video_path disk i) info frames s = Some (rel, s') \<and>
    (0 \<le> rel \<longrightarrow> (\<exists>s4. recording i frames s4 \<and> quiet n i s4 \<and> s' = close_rec_files s4 \<and>
       g_play_read_buf s4 = g_play_read_buf s))"
proof -
  note i = ready_pair [OF d]
  obtain hf df d1 where o: "fs_open_record_file (fd1, r1, t1) (fd2, r2, t2) (video_path disk i) 0 s =
      Some (ALLRIGHT, s\<lparr>rec_header_filest := hf, rec_data_filest := df, store_dev := d1\<rparr>)"
    "opened (2 * i) hf d1" "opened (2 * i + 1) df d1" "fileoffset hf = 0" "dev_answers d1 = []" "table_ok n d1"
    "stored_info d1 (2 * i) = io_info hf" "stored_info d1 (2 * i + 1) = io_info df"
    using open_record_pair [OF d a disk] by blast
  let ?s1 = "s\<lparr>rec_header_filest := hf, rec_data_filest := df, store_dev := d1\<rparr>"
  have n: "i < n" "2097152 + 288 * n \<le> 104857600" using d by (auto simp: disk_ready_def)
  obtain s2 where s2: "start_new_file info ?s1 = (ALLRIGHT, s2)" "recording i [] s2" "quiet n i s2"
    "g_rec_write_buf s2 = g_rec_write_buf s" "rec_logs s2 = rec_logs s" "g_play_read_buf s2 = g_play_read_buf s"
    using start_new_file_ready [OF o(2-8) n, of ?s1 info] info by auto
  have s2': "buffered [] (g_rec_write_buf s2)" "log_loaded (rec_logs s2)" "resting []"
    using s2(4,5) buf log by (simp_all add: resting_def)
  obtain r3 s3 m fs3 bs3 where s3: "record_frames frames s2 = Some (r3, s3)" "recording i fs3 s3" "buffered bs3 (g_rec_write_buf s3)"
    "log_loaded (rec_logs s3)" "others_kept i s2 s3" "quiet n i s3" "fs3 @ bs3 = take m frames" "0 \<le> r3 \<longrightarrow> take m frames = frames"
    using record_frames_result [OF s2(2) s2'(1,3,2) i ok, unfolded append_Nil] s2(3) by blast
  show ?thesis
  proof (cases "r3 < 0")
    case True
    then show ?thesis using o(1) s2(1) s3(1) by (simp add: record_run_def rel_codes)
  next
    case False
    obtain r4 s4 fs4 bs4 where s4: "FS_write_buf_write_to_file s3 = Some (r4, s4)" "recording i fs4 s4"
      "others_kept i s3 s4" "quiet n i s4" "fs4 @ bs4 = fs3 @ bs3" "0 \<le> r4 \<longrightarrow> bs4 = []"
      using flush_all [OF s3(2,3,4) i] s3(6) by blast
    have "recording i frames s4" if "0 \<le> r4" using s4(2,5,6) s3(7,8) False that by auto
    moreover have "g_play_read_buf s4 = g_play_read_buf s" using s4(3) s3(5) s2(6) by (simp add: others_kept_def)
    moreover have "record_run (fd1, r1, t1) (fd2, r2, t2) (video_path disk i) info frames s = Some (r4, close_rec_files s4)"
      using o(1) s2(1) s3(1) s4(1) False by (simp add: record_run_def rel_codes)
    ultimately show ?thesis using s4(4) by blast
  qed
qed

lemma play_run_result:
  assumes r: "recording i frames s4" and q: "quiet n i s4" and fd: "0 < fd1" "r1 \<noteq> - 1" "0 < fd2" "r2 \<noteq> - 1" and disk: "length disk = 3"
    and buf: "g_play_read_buf s4 = snd (buf_sys_init (Some a) (Some b))"
    and ok: "list_all (\<lambda>fr. snd fr \<noteq> [] \<and> length (snd fr) \<le> 524288) frames" "list_all (playable max_chan vcap acap) frames"
  shows "play_run (Suc (length frames)) (fd1, r1, t1) (fd2, r2, t2) (video_path disk i) max_chan vcap acap playCam hdr (close_rec_files s4) =
    Some (map (delivered playCam frames) [0..<length frames], PLAYOVER)"
proof -
  obtain hf df d where c: "close_pair (rec_header_filest s4) (rec_data_filest s4) (store_dev s4) = (hf, df, d)" by (metis prod_cases3)
  let ?s = "s4\<lparr>rec_header_filest := hf, rec_data_filest := df, store_dev := d\<rparr>"
  obtain s' where o: "fs_open_play_file (fd1, r1, t1) (fd2, r2, t2) (video_path disk i) ?s = Some (ALLRIGHT, s')"
    "play_files i frames (s'\<lparr>ulPlayFrameHeaderEndOffset := of_nat (56 + 36 * length frames)\<rparr>)"
    using play_recording [OF r q fd disk c] by blast
  have keep: "g_play_read_buf s' = g_play_read_buf s4"
    using o(1) by (auto simp: fs_open_play_file_def bind_eq_Some_conv split: prod.splits)
  have g: "g_ulFrameHeaderOffset s4 = of_nat (56 + 36 * length frames)" using r by (simp add: recording_def)
  have "playing i frames 0 (begin_play (g_ulFrameHeaderOffset s4) s')"
    using o(2) keep buf cached_fresh [of frames 0 a b] g
    by (simp add: playing_def begin_play_def play_files_def)
  then obtain s2 where "play_frames (Suc (length frames)) max_chan vcap acap playCam hdr (begin_play (g_ulFrameHeaderOffset s4) s') =
      Some (map (delivered playCam frames) [0..<length frames], PLAYOVER, s2)"
    using play_frames_result [OF _ _ ok, of i 0 _ "Suc (length frames)"] by fastforce
  then show ?thesis using o(1) c by (simp add: play_run_def close_rec_files_def rel_codes)
qed

section \<open>Recording goes on in a file\<close>

lemma last_header:
  assumes "stored_frames i fs d" and "fs \<noteq> []"
  shows "header_bytes i (length fs - 1) 36 d = placed_header fs (length fs - 1)"
proof -
  have "header_at (overlay (\<lambda>_. 0) 0 (header_bytes i (length fs - 1) (36 * 1) d)) 0 = placed_header fs (length fs - 1)"
    using stored_header [OF assms(1), of "length fs - 1" 0 "\<lambda>_. 0" 1] assms(2) by simp
  then show ?thesis
    using segment_overlay_same [of "\<lambda>_. 0" 0 "header_bytes i (length fs - 1) 36 d"] by (simp add: header_at_def header_bytes_def)
qed

lemma data_bytes_last: "fs \<noteq> [] \<Longrightarrow> data_bytes fs = data_bytes (take (length fs - 1) fs) @ snd (fs ! (length fs - 1))"
  by (metis append_butlast_last_id butlast_conv_take data_bytes_simps(2,3) append_Nil2 last_conv_nth data_bytes_simps(1))

text \<open>A file that was closed with its \<open>fs\<close> frames, and its two handles after the reopening.\<close>

lemma resume_result:
  assumes o: "opened (2 * i) (rec_header_filest s) (store_dev s)" "opened (2 * i + 1) (rec_data_filest s) (store_dev s)"
    and fs: "stored_frames i fs (store_dev s)" "2 \<le> length fs" and a: "dev_answers (store_dev s) = []"
    and size: "int (56 + 36 * length fs) \<le> file_size (io_info (rec_header_filest s))" "int (length (data_bytes fs)) \<le> file_size (io_info (rec_data_filest s))"
  shows "\<exists>s'. resume_file (of_nat (56 + 36 * length fs)) s = (False, ALLRIGHT, s') \<and> recording i fs s' \<and>
    (\<forall>n. quiet n i s \<longrightarrow> quiet n i s') \<and> g_rec_write_buf s' = g_rec_write_buf s \<and> rec_logs s' = rec_logs s"
proof -
  let ?l = "length fs" and ?d = "length (data_bytes fs)"
  have io: "file_size (io_info (rec_header_filest s)) \<le> io_size (rec_header_filest s)" "io_size (rec_header_filest s) < 2 ^ 31"
    "file_size (io_info (rec_data_filest s)) \<le> io_size (rec_data_filest s)" "io_size (rec_data_filest s) < 2 ^ 31"
    using o opened_small by (auto simp: opened_def)
  have "int (56 + 36 * ?l) < 2 ^ 31" "int ?d < 2 ^ 31" using io size by (auto intro: le_less_trans)
  then have lt: "56 + 36 * ?l < 2 ^ 31" "?d < 2 ^ 31" by auto
  have fok: "list_all frame_ok fs" using fs(1) by (simp add: stored_frames_def)
  let ?k = "?l - 1"
  have k: "Suc ?k = ?l" "fs \<noteq> []" "?k < ?l" using fs(2) by auto
  have w1: "of_nat (56 + 36 * ?l) - 2 * 36 - 56 = (of_nat (36 * (?l - 2)) :: u32)"
    using fs(2) by (simp add: of_nat_diff algebra_simps)
  have s1: "sint (of_nat (56 + 36 * ?l) - 2 * 36 - 56 :: u32) \<ge> 0"
    unfolding w1 using lt by (subst sint_of_nat31) auto
  have w2: "of_nat (56 + 36 * ?l) - 36 = (of_nat (56 + 36 * ?k) :: u32)"
    using fs(2) by (simp add: of_nat_diff algebra_simps)
  have u2: "uint (of_nat (56 + 36 * ?l) - 36 :: u32) = int (56 + 36 * ?k)"
    unfolding w2 by (intro uint_of_nat32) (use lt in simp)
  obtain r f1 d1 f2 d2 where h: "file_io_lseek (int (56 + 36 * ?k)) 0 (rec_header_filest s) (store_dev s) = (r, f1, d1)" "r \<noteq> - 1"
    "file_io_read 36 f1 d1 = (int 36, segment (dev_bytes (store_dev s)) (nat (video_start (2 * i)) + nat (int (56 + 36 * ?k))) 36, f2, d2)"
    "opened (2 * i) f2 d2" "io_info f2 = io_info (rec_header_filest s)" "dev_bytes d2 = dev_bytes (store_dev s)"
    "dev_size d2 = dev_size (store_dev s)" "dev_answers d2 = []"
    using seek_read [OF o(1) a, of "int (56 + 36 * ?k)" 36 0] size(1) k(1) by auto
  have hd: "segment (dev_bytes (store_dev s)) (nat (video_start (2 * i)) + nat (int (56 + 36 * ?k))) 36 = placed_header fs ?k"
    using last_header [OF fs(1) k(2)] by (simp only: header_bytes_def nat_int add.assoc)
  have fk: "length (fst (fs ! ?k)) = 36" "ulDataLen (fst (fs ! ?k)) = of_nat (length (snd (fs ! ?k)))"
    using fok k(3) ulDataLen_frame by (auto simp: list_all_length frame_ok_def)
  have off: "ulFrameDataOffset (placed_header fs ?k) + ulDataLen (placed_header fs ?k) = of_nat ?d"
    using fk data_bytes_last [OF k(2)] by (simp add: placed_header_def)
  let ?s = "s\<lparr>g_ulFrameHeaderOffset := of_nat (56 + 36 * ?l), rec_header_filest := f2, store_dev := d2, g_ulFileDataOffset := of_nat ?d\<rparr>"
  have "resume_file (of_nat (56 + 36 * ?l)) s = (False, ALLRIGHT, ?s)"
    using s1 h(1-3) off unfolding resume_file_def Let_def u2 hd by (simp del: of_nat_add of_nat_mult)
  moreover have "io_size f2 \<ge> int (56 + 36 * ?l)" using h(4,5) size(1) by (auto simp: opened_def)
  then have "recording i fs ?s"
    using o(2) opened_dev [OF o(2) h(7)] h fs(1) size io(3)
    by (simp add: recording_def stored_frames_def header_bytes_def frame_bytes_def)
  moreover have "quiet n i ?s" if "quiet n i s" for n
    using quiet_low_kept [OF that, of ?s] h(5-8) by (simp add: low_kept_def)
  ultimately show ?thesis by (intro exI [of _ ?s]) (simp del: of_nat_add of_nat_mult)
qed

section \<open>A device, frames and a recorder to try\<close>

definition demo_header :: "byte \<Rightarrow> nat \<Rightarrow> frame_header" where
  "demo_header ty n = u32_bytes (of_nat n) @ u32_bytes 0 @ u32_bytes 1700000000 @ u32_bytes 0 @ u32_bytes 0 @
     [ty, 0, 0, 0] @ u32_bytes 0 @ [0, 0, 0, 0] @ u32_bytes 0"

definition demo_frames :: "frame list" where
  "demo_frames = [(demo_header VIDEO 3, [1, 2, 3]), (demo_header AUDIO 2, [4, 5])]"

definition demo_store :: "blkdev \<Rightarrow> frame_store" where
  "demo_store d = \<lparr>store_dev = d, rec_header_filest = zero_file, rec_data_filest = zero_file,
     play_header_filest = zero_file, play_data_filest = zero_file,
     g_rec_write_buf = snd (buf_sys_init (Some (\<lambda>_. 0)) (Some (\<lambda>_. 0))),
     g_play_read_buf = snd (buf_sys_init (Some (\<lambda>_. 0)) (Some (\<lambda>_. 0))),
     g_ulFrameHeaderOffset = 0, g_ulFileDataOffset = 0, ulPlayFrameHeaderOffset = 0, ulPlayFrameHeaderEndOffset = 0,
     curtime = 0, lasttime = 0, flush_count = 0,
     rec_logs = (recorder_start 0)\<lparr>rec_lp := (fresh_point MAXMESSAGENUMBER record_zero 0)\<lparr>iDiskId := 0, iPatitionId := 5,
       pUseinfo := True\<rparr>\<rparr>\<rparr>"

lemma demo_frames_ok: "list_all (\<lambda>fr. frame_ok fr \<and> length (snd fr) \<le> 262144) demo_frames"
  "list_all (\<lambda>fr. snd fr \<noteq> [] \<and> length (snd fr) \<le> 524288) demo_frames" "list_all (playable 1 10 10) demo_frames"
  by (simp_all add: demo_frames_def demo_header_def frame_ok_def ulDataLen_def hdr_word_def codec_simps playable_def
      CheckFrameHeader_def hdr_type_def iChannel_def VIDEO_def AUDIO_def rel_codes nth_append)

lemma demo_frames_length [simp]: "length demo_frames = 2"
  by (simp add: demo_frames_def)

lemma demo_store_simps [simp]:
  "store_dev (demo_store d) = d" "log_loaded (rec_logs (demo_store d))" "buffered [] (g_rec_write_buf (demo_store d))"
  "g_rec_write_buf (demo_store d) = snd (buf_sys_init (Some (\<lambda>_. 0)) (Some (\<lambda>_. 0)))"
  "g_play_read_buf (demo_store d) = snd (buf_sys_init (Some (\<lambda>_. 0)) (Some (\<lambda>_. 0)))"
  by (simp_all add: demo_store_def buffered_fresh log_loaded_def fresh_point_def full_log_def log_ok_def log_key_def
      recorder_start_def MAXMESSAGENUMBER_def)

lemma demo_disk_ready: "\<exists>d. format_disk_to_io_sys 3 0 zero_info demo_now 256 demo_dev = (1, d) \<and> disk_ready 2 0 d"
proof -
  obtain d where d: "format_disk_to_io_sys 3 0 zero_info demo_now 256 demo_dev = (1, d)" "dev_answers d = []"
    using demo_format by auto
  have p: "pairs_of 256 = 2" by (simp add: pairs_of_def)
  note lay = format_layout_aux [OF d(1)]
  have s: "dev_size d = 419430400" using lay(4) by (simp add: zero_info_def demo_dev_def)
  have e: "is_entry j (stored_info d j)" if "j < 4" for j
    using lay(3) [of j] that p by (simp add: zero_info_def demo_dev_def)
  have "table_ok 2 d"
    using lay(2) e p s by (auto simp: table_ok_def is_entry_def zero_info_def demo_dev_def)
  then have "disk_ready 2 0 d"
    using d(2) s e [of 0] e [of 1] by (auto simp: disk_ready_def is_entry_def names_entry_def video_start_def IO_DISK_FILE_START_OFFSET_def video_max_def)
  then show ?thesis using d(1) by blast
qed

lemma demo_recording: "\<exists>s. recording 0 [] s \<and> quiet 2 0 s \<and> buffered [] (g_rec_write_buf s) \<and> log_loaded (rec_logs s)"
proof -
  obtain d where d: "disk_ready 2 0 d" using demo_disk_ready by blast
  obtain hf df d1 where o: "opened (2 * 0) hf d1" "opened (2 * 0 + 1) df d1" "fileoffset hf = 0" "dev_answers d1 = []" "table_ok 2 d1"
    "stored_info d1 (2 * 0) = io_info hf" "stored_info d1 (2 * 0 + 1) = io_info df"
    using open_record_pair [of 2 0 "demo_store d" 3 0 4 0 "bytes_of ''sda''" "demo_now 1" "demo_now 2" 0] d
    by (auto simp: bytes_of_def)
  let ?s = "(demo_store d)\<lparr>rec_header_filest := hf, rec_data_filest := df, store_dev := d1\<rparr>"
  obtain hf' d' where s: "recording 0 [] (?s\<lparr>rec_header_filest := hf', store_dev := d', g_ulFrameHeaderOffset := 56, g_ulFileDataOffset := 0\<rparr>)"
      "quiet 2 0 (?s\<lparr>rec_header_filest := hf', store_dev := d', g_ulFrameHeaderOffset := 56, g_ulFileDataOffset := 0\<rparr>)"
    using start_new_file_ready [OF o, of ?s "replicate 56 0"] by auto
  then show ?thesis using demo_store_simps(2,3) [of d]
    by (intro exI [of _ "?s\<lparr>rec_header_filest := hf', store_dev := d', g_ulFrameHeaderOffset := 56, g_ulFileDataOffset := 0\<rparr>"]) simp
qed

section \<open>Properties\<close>

text \<open>C6: Whatever the kernel answers to its seeks, reads and writes, no frame of at most 256 KiB that was given to
  the recorder is lost: after any number of \<open>FS_WriteOneFrame\<close> calls (up to the first error) the
  frames in the files followed by those still in the buffer are the frames of before and the new
  ones, in order; the headers on the disk hold the true data offsets, and no other file changed.\<close>

theorem recorded_frames_kept:
  assumes "recording i fs s" and "buffered bs (g_rec_write_buf s)" and "resting bs"
    and "log_loaded (rec_logs s)" and "pair_ok i"
    and "list_all (\<lambda>fr. frame_ok fr \<and> length (snd fr) \<le> 262144) frames"
  shows "\<exists>rel s' n fs' bs'. record_frames frames s = Some (rel, s') \<and> recording i fs' s' \<and>
    buffered bs' (g_rec_write_buf s') \<and> others_kept i s s' \<and> fs' @ bs' = fs @ bs @ take n frames \<and>
    (0 \<le> rel \<longrightarrow> take n frames = frames)"
  using record_frames_result [OF assms] by (elim exE conjE) (intro exI conjI, assumption+, simp)

lemma recorded_frames_kept_witness:
  "\<exists>s rel s' n fs' bs'. recording 0 [] s \<and> record_frames demo_frames s = Some (rel, s') \<and> recording 0 fs' s' \<and>
    fs' @ bs' = take n demo_frames"
proof -
  obtain s where s: "recording 0 [] s" "quiet 2 0 s" "buffered [] (g_rec_write_buf s)" "log_loaded (rec_logs s)"
    using demo_recording by blast
  have "resting []" "pair_ok 0" by (simp_all add: resting_def pair_ok_def)
  from recorded_frames_kept [OF s(1,3) this(1) s(4) this(2) demo_frames_ok(1)]
  obtain rel s' n fs' bs' where "record_frames demo_frames s = Some (rel, s')" "recording 0 fs' s'" "fs' @ bs' = take n demo_frames"
    by (simp only: append_Nil) (elim exE conjE)
  then show ?thesis using s(1) by - (rule exI [of _ s], rule exI [of _ rel], rule exI [of _ s'], rule exI [of _ n], rule exI [of _ fs'], rule exI [of _ bs'], simp)
qed

text \<open>C5: What is recorded plays back. On a disk in order, opening a pair of files, writing frames of at most 256 KiB, flushing
  and closing either reports an error, or opening the pair for playing then delivers exactly these
  frames, in order and with the data of each, until \<open>PLAYOVER\<close>.\<close>

theorem recorded_frames_play_back:
  assumes "disk_ready n i (store_dev s)" and "0 < fd1" and "r1 \<noteq> - 1" and "0 < fd2" and "r2 \<noteq> - 1"
    and "0 < fd3" and "r3 \<noteq> - 1" and "0 < fd4" and "r4 \<noteq> - 1" and "length disk = 3" and "length info = 56"
    and "g_rec_write_buf s = snd (buf_sys_init (Some a) (Some b))" and "g_play_read_buf s = snd (buf_sys_init (Some c) (Some e))"
    and "log_loaded (rec_logs s)"
    and "list_all (\<lambda>fr. frame_ok fr \<and> snd fr \<noteq> [] \<and> length (snd fr) \<le> 262144) frames"
    and "list_all (playable max_chan vcap acap) frames"
  shows "\<exists>rel s'. record_run (fd1, r1, t1) (fd2, r2, t2) (video_path disk i) info frames s = Some (rel, s') \<and>
    (0 \<le> rel \<longrightarrow> play_run (Suc (length frames)) (fd3, r3, t3) (fd4, r4, t4) (video_path disk i) max_chan vcap acap playCam hdr s' =
       Some (map (delivered playCam frames) [0..<length frames], PLAYOVER))"
proof -
  have ok: "list_all (\<lambda>fr. frame_ok fr \<and> length (snd fr) \<le> 262144) frames"
    "list_all (\<lambda>fr. snd fr \<noteq> [] \<and> length (snd fr) \<le> 524288) frames"
    using assms(15) by (auto elim: list.pred_mono_strong)
  have "buffered [] (g_rec_write_buf s)" using assms(12) by (simp add: buffered_fresh)
  then obtain rel s' where r: "record_run (fd1, r1, t1) (fd2, r2, t2) (video_path disk i) info frames s = Some (rel, s')"
    "0 \<le> rel \<Longrightarrow> \<exists>s4. recording i frames s4 \<and> quiet n i s4 \<and> s' = close_rec_files s4 \<and> g_play_read_buf s4 = g_play_read_buf s"
    using record_run_result [OF assms(1-5,10,11) _ assms(14) ok(1), of t1 t2] by blast
  have "play_run (Suc (length frames)) (fd3, r3, t3) (fd4, r4, t4) (video_path disk i) max_chan vcap acap playCam hdr s' =
       Some (map (delivered playCam frames) [0..<length frames], PLAYOVER)" if "0 \<le> rel"
    using r(2) [OF that] play_run_result [OF _ _ assms(6-10) _ ok(2) assms(16), of i _ n c e] assms(13) by auto
  then show ?thesis using r(1) by blast
qed

lemma recorded_frames_play_back_witness:
  "\<exists>d rel s'. format_disk_to_io_sys 3 0 zero_info demo_now 256 demo_dev = (1, d) \<and>
    record_run (3, 0, demo_now 1) (4, 0, demo_now 2) (video_path (bytes_of ''sda'') 0) (replicate 56 0) demo_frames (demo_store d) = Some (rel, s') \<and>
    (0 \<le> rel \<longrightarrow> play_run 3 (5, 0, demo_now 3) (6, 0, demo_now 4) (video_path (bytes_of ''sda'') 0) 1 10 10 1 [] s' =
       Some ([(ALLRIGHT, demo_header VIDEO 3, [1, 2, 3]), (ALLRIGHT, set_data_offset 3 (demo_header AUDIO 2), [4, 5])], PLAYOVER))"
proof -
  obtain d where d: "format_disk_to_io_sys 3 0 zero_info demo_now 256 demo_dev = (1, d)" "disk_ready 2 0 d"
    using demo_disk_ready by blast
  have ok: "list_all (\<lambda>fr. frame_ok fr \<and> snd fr \<noteq> [] \<and> length (snd fr) \<le> 262144) demo_frames"
    using demo_frames_ok(1,2) by (auto simp: demo_frames_def)
  have "set_data_offset 0 (demo_header VIDEO 3) = demo_header VIDEO 3" "hdr_type (demo_header AUDIO 2) = AUDIO"
    "FTC_GetBit 1 (iChannel (demo_header VIDEO 3)) = 1"
    by (simp_all add: set_data_offset_def demo_header_def hdr_type_def nth_append FTC_GetBit_def iChannel_def hdr_word_def codec_simps)
  then have out: "map (delivered 1 demo_frames) [0..<length demo_frames] =
      [(ALLRIGHT, demo_header VIDEO 3, [1, 2, 3]), (ALLRIGHT, set_data_offset 3 (demo_header AUDIO 2), [4, 5])]"
    by (simp add: delivered_def demo_frames_def shown_def placed_header_def upt_rec)
  have s: "disk_ready 2 0 (store_dev (demo_store d))" "length (bytes_of ''sda'') = 3" "length (replicate 56 (0 :: byte)) = 56"
    using d(2) by (simp_all add: bytes_of_def)
  from recorded_frames_play_back [OF s(1) _ _ _ _ _ _ _ _ s(2,3) demo_store_simps(4,5) demo_store_simps(2) ok demo_frames_ok(3),
      of 3 0 4 0 5 0 6 0 "demo_now 1" "demo_now 2" "demo_now 3" "demo_now 4" 1 "[]"]
  show ?thesis using d(1) unfolding out by (auto simp: numeral_3_eq_3)
qed

text \<open>C24: A recording goes on in the file it stopped in. When the pair of files that holds at least two
  frames is closed and opened again without being emptied, \<open>FS_OpenRecFile\<close> finds the ends of headers
  and data from the last header, so that every invariant of recording holds with the same frames;
  a pair with one frame or none is given up.\<close>

theorem recording_resumes:
  assumes "recording i fs s" and "quiet n i s" and "0 < fd1" and "r1 \<noteq> - 1" and "0 < fd2" and "r2 \<noteq> - 1" and "length disk = 3"
    and "reopen \<noteq> 1"
  shows "\<exists>s1 again rel s2. fs_open_record_file (fd1, r1, t1) (fd2, r2, t2) (video_path disk i) reopen (close_rec_files s) = Some (ALLRIGHT, s1) \<and>
    resume_file (g_ulFrameHeaderOffset s) s1 = (again, rel, s2) \<and>
    (if 2 \<le> length fs then \<not> again \<and> rel = ALLRIGHT \<and> recording i fs s2 \<and> quiet n i s2 else again)"
proof -
  obtain hf df d where c: "close_pair (rec_header_filest s) (rec_data_filest s) (store_dev s) = (hf, df, d)" by (metis prod_cases3)
  obtain f1 f2 d2 where o: "\<forall>x. open_pair (fd1, r1, t1) (fd2, r2, t2) (video_path disk i) ''+'' x d = Some (ALLRIGHT, f1, f2, d2)"
    "opened (2 * i) f1 d2" "opened (2 * i + 1) f2 d2" "stored_frames i fs d2" "dev_answers d2 = []" "table_ok n d2"
    "stored_info d2 (2 * i) = io_info f1" "stored_info d2 (2 * i + 1) = io_info f2"
    "int (56 + 36 * length fs) \<le> file_size (io_info f1)" "int (length (data_bytes fs)) \<le> file_size (io_info f2)"
    using reopen_pair [OF assms(1-7) c, of "''+''" t1 t2] by auto
  let ?s1 = "s\<lparr>rec_header_filest := f1, rec_data_filest := f2, store_dev := d2\<rparr>"
  have open1: "fs_open_record_file (fd1, r1, t1) (fd2, r2, t2) (video_path disk i) reopen (close_rec_files s) = Some (ALLRIGHT, ?s1)"
    using o(1) c assms(8) by (simp add: fs_open_record_file_def close_rec_files_def)
  have g: "g_ulFrameHeaderOffset s = of_nat (56 + 36 * length fs)" using assms(1) by (simp add: recording_def)
  have q: "quiet n i ?s1" using assms(2) o by (simp add: quiet_def)
  show ?thesis
  proof (cases "2 \<le> length fs")
    case True
    obtain s2 where "resume_file (of_nat (56 + 36 * length fs)) ?s1 = (False, ALLRIGHT, s2)" "recording i fs s2" "quiet n i s2"
      using resume_result [of i ?s1 fs] o True q by auto
    then show ?thesis using open1 True unfolding g
      by (intro exI [of _ ?s1] exI [of _ False] exI [of _ ALLRIGHT] exI [of _ s2]) simp
  next
    case False
    then consider "length fs = 0" | "length fs = 1" by linarith
    then have "sint (of_nat (56 + 36 * length fs) - 2 * 36 - 56 :: u32) < 0"
      by cases simp_all
    then obtain rel s2 where "resume_file (of_nat (56 + 36 * length fs)) ?s1 = (True, rel, s2)"
      by (simp add: resume_file_def Let_def del: of_nat_add of_nat_mult)
    then show ?thesis using open1 False unfolding g
      by (intro exI [of _ ?s1] exI [of _ True] exI [of _ rel] exI [of _ s2]) simp
  qed
qed

lemma recording_resumes_witness:
  "\<exists>s s1 again rel s2. recording 0 [] s \<and>
    fs_open_record_file (3, 0, demo_now 0) (4, 0, demo_now 1) (video_path (bytes_of ''sda'') 0) 0 (close_rec_files s) = Some (ALLRIGHT, s1) \<and>
    resume_file (g_ulFrameHeaderOffset s) s1 = (again, rel, s2) \<and> again"
proof -
  obtain s where s: "recording 0 [] s" "quiet 2 0 s" using demo_recording by blast
  have "length (bytes_of ''sda'') = 3" by (simp add: bytes_of_def)
  from recording_resumes [OF s _ _ _ _ this, of 3 0 4 0 0 "demo_now 0" "demo_now 1"]
  have "\<exists>s1 again rel s2. fs_open_record_file (3, 0, demo_now 0) (4, 0, demo_now 1) (video_path (bytes_of ''sda'') 0) 0 (close_rec_files s) = Some (ALLRIGHT, s1) \<and>
      resume_file (g_ulFrameHeaderOffset s) s1 = (again, rel, s2) \<and> again" by simp
  then show ?thesis using s(1) by - (rule exI [of _ s], simp)
qed

text \<open>A frame that would fill the data block is lost without an error. When the buffered data and the
  frame come to 512 KiB or more, \<open>FS_WriteOneFrame\<close> only flushes what was there: the frame is in
  neither the files nor the buffer afterwards, and with an empty buffer the result is 0.\<close>

theorem large_frame_dropped:
  assumes "recording i fs s" and "buffered bs (g_rec_write_buf s)" and "log_loaded (rec_logs s)" and "pair_ok i"
    and "frame_ok fr" and "524288 \<le> length (data_bytes (bs @ [fr]))" and "length (data_bytes (bs @ [fr])) < 2 ^ 31"
  shows "\<exists>rel s' fs' bs'. FS_WriteOneFrame (fst fr) (snd fr) s = Some (rel, s') \<and> recording i fs' s' \<and>
    buffered bs' (g_rec_write_buf s') \<and> fs' @ bs' = fs @ bs \<and> (bs = [] \<longrightarrow> rel = 0 \<and> s' = s)"
proof -
  let ?d = "length (data_bytes bs)" and ?l = "length (snd fr)"
  have b: "create_flag (g_rec_write_buf s) = 1" "data_size (g_rec_write_buf s) = int ?d"
    using assms(2) by (auto simp: buffered_def)
  have size: "sint (ulDataLen (fst fr)) = int ?l"
    using ulDataLen_frame [OF assms(5)] assms(7) sint_of_nat31 [of ?l] by simp
  have "to_int32 (data_size (g_rec_write_buf s) + int ?l) = int (?d + ?l)"
    using b(2) sint_of_nat31 [of "?d + ?l"] assms(7) by (simp flip: of_nat_add)
  then have "FS_WriteOneFrame (fst fr) (snd fr) s = FS_write_buf_write_to_file s"
    using b(1) size assms(6) by (simp add: FS_WriteOneFrame_def FS_write_buf_sys_data_def buf_sizes Let_def)
  moreover obtain rel s' fs' bs' where "FS_write_buf_write_to_file s = Some (rel, s')" "recording i fs' s'"
    "buffered bs' (g_rec_write_buf s')" "fs' @ bs' = fs @ bs"
    using flush_all [OF assms(1-4)] by (elim exE conjE)
  moreover have "FS_write_buf_write_to_file s = Some (0, s)" if "bs = []"
    using assms(2) that by (auto simp: FS_write_buf_write_to_file_def buffered_def)
  ultimately show ?thesis by (intro exI [of _ rel] exI [of _ s'] exI [of _ fs'] exI [of _ bs']) auto
qed

lemma large_frame_dropped_witness:
  "\<exists>s. recording 0 [] s \<and> (\<exists>rel s' fs' bs'. FS_WriteOneFrame (demo_header VIDEO 600000) (replicate 600000 7) s = Some (rel, s') \<and>
    recording 0 fs' s' \<and> buffered bs' (g_rec_write_buf s') \<and> fs' @ bs' = [] \<and> rel = 0 \<and> s' = s)"
proof -
  obtain s where s: "recording 0 [] s" "buffered [] (g_rec_write_buf s)" "log_loaded (rec_logs s)" using demo_recording by blast
  have fr: "frame_ok (demo_header VIDEO 600000, replicate 600000 7)"
    by (simp add: frame_ok_def demo_header_def ulDataLen_def hdr_word_def codec_simps)
  have "pair_ok 0" by (simp add: pair_ok_def)
  from large_frame_dropped [OF s this fr] s(1) show ?thesis by auto
qed


text \<open>The read buffer is not tied to the file it was read from. While frames of a chunk are left in the
  buffer, a position that is within the chunk's range of header offsets - in another file that has
  been opened since, or moved to by a search - does not discard it: \<open>ReadOneFrame\<close> delivers the
  next frame of the old chunk, whatever the open files hold, and advances the new position.\<close>

theorem stale_read_buffer_delivered:
  assumes "loaded fs k0 m (g_play_read_buf s)" and "list_all frame_ok fs" and "create_flag (g_play_read_buf s) = 1"
    and "conut (g_play_read_buf s) = int m" and "head_size (g_play_read_buf s) = 36 * int m"
    and "head_offset_start (g_play_read_buf s) = int (56 + 36 * k0)" and "buf_offset (g_play_read_buf s) = 36 * int (k - k0)"
    and "k0 \<le> k" and "k < k0 + m" and "m \<le> 20" and "56 + 36 * (k0 + m) < 2 ^ 31"
    and "ulPlayFrameHeaderOffset s = of_nat (56 + 36 * p)" and "k0 \<le> p" and "p < k0 + m"
    and "playable max_chan vcap acap (fs ! k)"
  shows "\<exists>s'. ReadOneFrame max_chan vcap acap playCam hdr s = (case delivered playCam fs k of (rel, h, bs) \<Rightarrow> Some (rel, h, bs, s')) \<and>
    store_dev s' = store_dev s \<and> ulPlayFrameHeaderOffset s' = of_nat (56 + 36 * Suc p)"
proof -
  let ?b = "g_play_read_buf s"
  have near: "k - k0 < 1000" using assms(9,10) by linarith
  have u: "uint (ulPlayFrameHeaderOffset s) = int (56 + 36 * p)"
    unfolding assms(12) using assms(11,14) by (intro uint_of_nat32) simp
  have "uint (word_of_int (head_offset_start ?b + head_size ?b) :: u32) = int (56 + 36 * (k0 + m))"
    using uint_of_nat32 [of "56 + 36 * (k0 + m)"] assms(5,6,11) by (simp add: algebra_simps)
  moreover have "uint (word_of_int (head_offset_start ?b) :: u32) = int (56 + 36 * k0)"
    using uint_of_nat32 [of "56 + 36 * k0"] assms(6,11) by simp
  ultimately have "\<not> (ulPlayFrameHeaderOffset s \<ge> word_of_int (head_offset_start ?b + head_size ?b) \<or>
      ulPlayFrameHeaderOffset s < word_of_int (head_offset_start ?b))"
    using u assms(13,14) by (simp add: word_le_def word_less_def)
  moreover have "\<not> buf_offset ?b \<ge> head_size ?b" using assms(5,7,8,9) by simp
  ultimately have "discard_used (ulPlayFrameHeaderOffset s) ?b = ?b" by (simp add: discard_used_def Let_def)
  moreover obtain c where "take_frame max_chan vcap acap playCam s = (case delivered playCam fs k of (rel, h, bs) \<Rightarrow>
      Some (rel, h, bs, s\<lparr>ulPlayFrameHeaderOffset := ulPlayFrameHeaderOffset s + 36,
        g_play_read_buf := ?b\<lparr>buf_offset := 36 * int (Suc k - k0)\<rparr>, curtime := c\<rparr>))"
    using take_lookup [OF assms(2,1,8,9) near assms(7,15)] by blast
  moreover have "conut ?b \<noteq> 0" using assms(4,8,9) by simp
  moreover have "\<not> fst (delivered playCam fs k) < 0" by (simp add: delivered_def rel_codes play_codes)
  moreover have "of_nat (56 + 36 * p) + 36 = (of_nat (56 + 36 * Suc p) :: u32)" by simp
  ultimately show ?thesis using assms(3,12)
    by (cases "delivered playCam fs k") (simp add: ReadOneFrame_def FS_read_data_to_buf_def)
qed

text \<open>Two frames in the buffer, the first of them shown.\<close>

definition demo_read_buf :: write_buf where
  "demo_read_buf = \<lparr>head_buf = Some (overlay (\<lambda>_. 0) 0 (demo_header VIDEO 3 @ set_data_offset 3 (demo_header AUDIO 2))),
     data_buf = Some (overlay (\<lambda>_. 0) 0 [1, 2, 3, 4, 5]), head_size = 72, data_size = 5, create_flag = 1, conut = 2,
     buf_offset = 36, data_offset_start = 0, head_offset_start = 56\<rparr>"

lemma demo_loaded: "loaded demo_frames 0 2 demo_read_buf"
proof -
  have l: "length (demo_header VIDEO 3) = 36" "length (set_data_offset 3 (demo_header AUDIO 2)) = 36"
    by (simp_all add: demo_header_def set_data_offset_def)
  let ?h = "overlay (\<lambda>_. 0) 0 (demo_header VIDEO 3 @ set_data_offset 3 (demo_header AUDIO 2))"
  have "?h = overlay (overlay (\<lambda>_. 0) 0 (demo_header VIDEO 3)) 36 (set_data_offset 3 (demo_header AUDIO 2))"
    using overlay_append [of "\<lambda>_. 0" 0 "demo_header VIDEO 3"] l by simp
  then have "header_at ?h 0 = demo_header VIDEO 3" "header_at ?h 1 = set_data_offset 3 (demo_header AUDIO 2)"
    using l header_at_overlay_append(1) [where n = 0 and h = "demo_header VIDEO 3"]
      header_at_overlay_append(1) [where n = 1 and h = "set_data_offset 3 (demo_header AUDIO 2)"]
      header_at_overlay_append(2) [where n = 1 and h = "set_data_offset 3 (demo_header AUDIO 2)" and k = 0]
    by simp_all
  moreover have "set_data_offset 0 (demo_header VIDEO 3) = demo_header VIDEO 3"
    by (simp add: set_data_offset_def demo_header_def)
  moreover have "segment (overlay (\<lambda>_. 0) 0 [1, 2, 3, 4, 5]) 0 (Suc (Suc (Suc (Suc (Suc 0))))) = [1, 2, 3, 4, 5 :: byte]"
    by (simp add: segment_def overlay_def upt_rec)
  ultimately show ?thesis
    by (auto simp: loaded_def demo_read_buf_def placed_header_def demo_frames_def less_Suc_eq numeral_2_eq_2)
qed

lemma stale_read_buffer_delivered_witness:
  "\<exists>s'. ReadOneFrame 1 10 10 1 [] ((demo_store demo_dev)\<lparr>g_play_read_buf := demo_read_buf, ulPlayFrameHeaderOffset := 56\<rparr>) =
    Some (ALLRIGHT, set_data_offset 3 (demo_header AUDIO 2), [4, 5], s') \<and> ulPlayFrameHeaderOffset s' = 92"
proof -
  let ?s = "(demo_store demo_dev)\<lparr>g_play_read_buf := demo_read_buf, ulPlayFrameHeaderOffset := 56\<rparr>"
  have d: "delivered 1 demo_frames 1 = (ALLRIGHT, set_data_offset 3 (demo_header AUDIO 2), [4, 5])"
    by (simp add: delivered_def demo_frames_def shown_def placed_header_def hdr_type_def demo_header_def nth_append)
  have "list_all frame_ok demo_frames" "playable 1 10 10 (demo_frames ! 1)"
    using demo_frames_ok by (auto simp: demo_frames_def)
  then show ?thesis
    using stale_read_buffer_delivered [of demo_frames 0 2 ?s 1 0 1 10 10 1 "[]"] demo_loaded
    unfolding d by (auto simp: demo_read_buf_def)
qed


text \<open>An empty last frame crashes the player. When the file ends with a frame without data (a recorder that
  is given one stores it) and the player stands there with an empty read buffer, the complaint about
  the length reads through \<open>pheader_end\<close>, which is still NULL.\<close>

theorem empty_last_frame_crashes:
  assumes "play_files i fs s" and "fs \<noteq> []" and "snd (last fs) = []"
    and "ulPlayFrameHeaderOffset s = of_nat (56 + 36 * (length fs - 1))"
    and "g_play_read_buf s = snd (buf_sys_init (Some a) (Some b))"
  shows "ReadOneFrame max_chan vcap acap playCam hdr s = None"
proof -
  let ?k = "length fs - 1"
  have o: "opened (2 * i) (play_header_filest s) (store_dev s)" "stored_frames i fs (store_dev s)" "dev_answers (store_dev s) = []"
    "int (56 + 36 * length fs) \<le> file_size (io_info (play_header_filest s))"
    "ulPlayFrameHeaderEndOffset s = of_nat (56 + 36 * length fs)"
    using assms(1) by (simp_all add: play_files_def)
  have max: "56 + 36 * length fs \<le> 3145728" using o(1,4) by (auto simp: opened_def)
  have l: "0 < length fs" "int (length fs - 1) = int (length fs) - 1" using assms(2) by (cases fs; simp)+
  have left: "ulPlayFrameHeaderEndOffset s - ulPlayFrameHeaderOffset s = 36"
    using l by (simp add: o(5) assms(4) of_nat_diff algebra_simps)
  have pos: "uint (ulPlayFrameHeaderOffset s) = int (56 + 36 * ?k)"
    unfolding assms(4) by (intro uint_of_nat32) (use max in simp)
  obtain r f1 d1 f2 d2 where h: "file_io_lseek (uint (ulPlayFrameHeaderOffset s)) 0 (play_header_filest s) (store_dev s) = (r, f1, d1)" "r \<noteq> - 1"
    "file_io_read 36 f1 d1 = (int 36,
      segment (dev_bytes (store_dev s)) (nat (video_start (2 * i)) + nat (uint (ulPlayFrameHeaderOffset s))) 36, f2, d2)"
    using seek_read [OF o(1,3), of "uint (ulPlayFrameHeaderOffset s)" 36 0] o(4) pos l by auto
  have out: "segment (dev_bytes (store_dev s)) (nat (video_start (2 * i)) + nat (uint (ulPlayFrameHeaderOffset s))) 36 = placed_header fs ?k"
    using last_header [OF o(2) assms(2)] unfolding pos nat_int by (simp add: header_bytes_def add.assoc)
  have fk: "length (fst (fs ! ?k)) = 36" "ulDataLen (fst (fs ! ?k)) = 0"
    using o(2) assms(2,3) ulDataLen_frame [of "fs ! ?k"] by (auto simp: stored_frames_def list_all_length frame_ok_def last_conv_nth)
  let ?h = "overlay b 0 (placed_header fs ?k)"
  have "length (placed_header fs ?k) = 36" using fk(1) by (simp add: placed_header_def)
  then have w: "block_write READ_BUF_SYS_MAX_HEAD_NUM (Some b) 0 (placed_header fs ?k) = Some ?h"
    and first: "segment ?h 0 36 = placed_header fs ?k"
    using segment_overlay_same [of b 0 "placed_header fs ?k"] by (simp_all add: block_write_def buf_sizes)
  have zero: "ulDataLen (placed_header fs ?k) = 0" using fk by (simp add: placed_header_def)
  have "count_fitting 1 0 0 ?h = 1" using first zero by (simp add: buf_sizes)
  moreover have "announced 1 ?h = 0" using first zero by (simp add: announced_def)
  ultimately have "fill_read_buf s = None"
    using h out w left assms(5)
    by (simp add: fill_read_buf_def headers_to_read_def buf_sizes Let_def buf_sys_init_def)
  moreover have "discard_used (ulPlayFrameHeaderOffset s) (g_play_read_buf s) = g_play_read_buf s" "create_flag (g_play_read_buf s) = 1"
    "conut (g_play_read_buf s) = 0" by (simp_all add: assms(5) buf_sys_init_def zero_buf_def discard_used_def Let_def)
  ultimately show ?thesis by (simp add: ReadOneFrame_def FS_read_data_to_buf_def)
qed


definition demo_avh :: io_file where
  "demo_avh = zero_file\<lparr>fdno := 3, diskoffset := 104857600, io_size := 200, status := FILE_OPEN,
     io_info := \<lparr>disk_offset = 104857600, file_max_size = 3145728, file_size = 200, file_create_time = 0,
       file_edit_time = 0, file_pos = 0, file_name = str_put (replicate 100 0) (video_label 0)\<rparr>\<rparr>"

lemma demo_avh_opened: "dev_size d = dev_size demo_dev \<Longrightarrow> opened 0 demo_avh d"
proof -
  have "0 \<notin> set (video_label 0)" "length (video_label 0) = 11"
    by (simp_all add: video_label_def video_name_def bytes_of_def dec.simps)
  moreover assume "dev_size d = dev_size demo_dev"
  ultimately show ?thesis
    by (simp add: opened_def demo_avh_def names_entry_def info_fits_def fits_ll_def fits_int_def str_in_put
        length_str_put video_start_def video_max_def IO_DISK_FILE_START_OFFSET_def demo_dev_def zero_file_def)
qed

lemma empty_last_frame_crashes_witness:
  "ReadOneFrame 1 10 10 1 [] ((demo_store (demo_dev\<lparr>dev_bytes := overlay (\<lambda>_. 0) 104857656 (demo_header VIDEO 0)\<rparr>))
     \<lparr>play_header_filest := demo_avh, play_data_filest := demo_file, ulPlayFrameHeaderOffset := 56,
      ulPlayFrameHeaderEndOffset := 92\<rparr>) = None"
proof -
  let ?d = "demo_dev\<lparr>dev_bytes := overlay (\<lambda>_. 0) 104857656 (demo_header VIDEO 0)\<rparr>"
  let ?s = "(demo_store ?d)\<lparr>play_header_filest := demo_avh, play_data_filest := demo_file, ulPlayFrameHeaderOffset := 56,
      ulPlayFrameHeaderEndOffset := 92\<rparr>"
  let ?fs = "[(demo_header VIDEO 0, [])]"
  have h: "length (demo_header VIDEO 0) = 36" "set_data_offset 0 (demo_header VIDEO 0) = demo_header VIDEO 0" "frame_ok (demo_header VIDEO 0, [])"
    by (simp_all add: demo_header_def set_data_offset_def frame_ok_def ulDataLen_def hdr_word_def codec_simps)
  have "header_bytes 0 0 36 ?d = demo_header VIDEO 0"
    using segment_overlay_same [of "\<lambda>_. 0" 104857656 "demo_header VIDEO 0"] h(1)
    by (simp add: header_bytes_def video_start_def IO_DISK_FILE_START_OFFSET_def)
  then have "stored_frames 0 ?fs ?d" using h by (simp add: stored_frames_def frame_bytes_def segment_def)
  moreover have "opened 0 demo_avh ?d" "opened 1 demo_file ?d"
    using demo_avh_opened [of ?d] opened_dev [OF demo_opened, of ?d] by simp_all
  moreover have "56 + 36 \<le> file_size (io_info demo_avh)" "file_size (io_info demo_file) = 0"
    by (simp_all add: demo_avh_def demo_file_def)
  ultimately have "play_files 0 ?fs ?s" by (simp add: play_files_def demo_dev_def)
  from empty_last_frame_crashes [OF this] show ?thesis by simp
qed

end
