(* ===== verification/Time_Marks.thy ===== *)
theory Time_Marks
  imports Record_Log
begin

text \<open>
  The effect of the functions of \<open>FSrecordop.c\<close> that log time marks and changes of channels
  within a recording.
\<close>

unbundle bit_operations_syntax

section \<open>Time marks\<close>

lemma stick_write_eq:
  assumes "answers lp = []" and "sp_disk pt = iDiskId lp" and "sp_part pt = iPatitionId lp"
    and "sp_id pt = lp_id lp" and "pFilePos lp = lp_id lp"
    and "log_files lp (iDiskId lp, iPatitionId lp) \<noteq> None"
  shows "RecTimeStickMessageWriteToFile pt lp = store_msg stick_zero (sp_file_info pt) lp"
proof -
  have "lp\<lparr>pFilePos := lp_id lp\<rparr> = lp" using assms(5) by simp
  then show ?thesis
    using assms
    by (auto simp: RecTimeStickMessageWriteToFile_def stick_load_def store_msg_def log_write_msg_def
      set_msg_def cur_msg_def Let_def split: option.splits)
qed

lemma stick_use_eq:
  assumes "answers lp = []" and "sp_disk pt = iDiskId lp" and "sp_part pt = iPatitionId lp"
    and "use_info lp = Some b" and "sp_use_total pt = use_total b"
    and "log_files lp (iDiskId lp, iPatitionId lp) \<noteq> None"
  shows "RecTimeStickMessageUseInfoWriteToFile pt lp = store_id (sp_use_id pt) lp"
  using assms
  by (auto simp: RecTimeStickMessageUseInfoWriteToFile_def stick_load_def store_id_def log_write_use_def
    set_use_id_def use_info_def Let_def split: option.splits if_splits)

lemma holding_file: "holding maxnum d p b lp \<Longrightarrow> log_files lp (iDiskId lp, iPatitionId lp) \<noteq> None"
  by (auto simp: holding_def file_holds_def split: option.splits)

text \<open>The writing functions that go through a copy of the position are writers of the log too.\<close>

interpretation stick: log_writer MAXTIMESTICKMESSAGENUMBER
  "\<lambda>m lp. do { pt \<leftarrow> point_here lp; RecTimeStickMessageWriteToFile (pt\<lparr>sp_file_info := m\<rparr>) lp }"
  "\<lambda>i lp. do { pt \<leftarrow> point_here lp; RecTimeStickMessageUseInfoWriteToFile (pt\<lparr>sp_use_id := i\<rparr>) lp }"
proof
  fix d p :: int and b :: "time_stick_message mlog" and lp m
  assume h: "holding MAXTIMESTICKMESSAGENUMBER d p b lp" "answers lp = []" "0 \<le> pFilePos lp"
    "pFilePos lp < use_total b" "lp_id lp = pFilePos lp"
  have "do { pt \<leftarrow> point_here lp; RecTimeStickMessageWriteToFile (pt\<lparr>sp_file_info := m\<rparr>) lp } = store_msg stick_zero m lp"
    using cur_msg_holding [OF h(1,3,4)] h holding_file [OF h(1)]
    by (simp add: point_here_def use_info_def holding_def stick_write_eq)
  then show "\<exists>lp'. do { pt \<leftarrow> point_here lp; RecTimeStickMessageWriteToFile (pt\<lparr>sp_file_info := m\<rparr>) lp } = Some (ALLRIGHT, lp') \<and>
      holding MAXTIMESTICKMESSAGENUMBER d p (b\<lparr>messages := (messages b)[nat (pFilePos lp) := m]\<rparr>) lp' \<and> only_log d p lp lp'"
    using direct.stores [OF h, of stick_zero m] by simp
next
  fix d p i :: int and b :: "time_stick_message mlog" and lp
  assume h: "holding MAXTIMESTICKMESSAGENUMBER d p b lp" "answers lp = []" "0 \<le> i" "i < use_total b"
    "0 \<le> pFilePos lp" "pFilePos lp < use_total b"
  have "do { pt \<leftarrow> point_here lp; RecTimeStickMessageUseInfoWriteToFile (pt\<lparr>sp_use_id := i\<rparr>) lp } = store_id i lp"
    using cur_msg_holding [OF h(1,5,6)] h holding_file [OF h(1)]
    by (simp add: point_here_def use_info_def holding_def stick_use_eq)
  then show "\<exists>lp'. do { pt \<leftarrow> point_here lp; RecTimeStickMessageUseInfoWriteToFile (pt\<lparr>sp_use_id := i\<rparr>) lp } = Some (ALLRIGHT, lp') \<and>
      holding MAXTIMESTICKMESSAGENUMBER d p (b\<lparr>use_id := i\<rparr>) lp' \<and> only_log d p lp lp'"
    using direct.stores_id [OF h] by simp
qed

text \<open>The position given out for an entry of the log.\<close>

definition is_point :: "int \<Rightarrow> int \<Rightarrow> time_stick_message mlog \<Rightarrow> int \<Rightarrow> stick_point \<Rightarrow> bool" where
  "is_point d p b i pt \<longleftrightarrow> pt = \<lparr>sp_disk = d, sp_part = p, sp_id = i, sp_file_info = messages b ! nat i,
     sp_use_id = use_id b, sp_use_total = use_total b\<rparr>"

lemma stick_get_pos_at:
  assumes "log_at MAXTIMESTICKMESSAGENUMBER d p b lp" and "answers lp = []" and "0 \<le> i" and "i < use_total b"
  shows "\<exists>pt lp'. FS_GetPosRecTimeStickMessage d p i lp = Some (Some pt, lp') \<and> is_point d p b i pt \<and>
    holding MAXTIMESTICKMESSAGENUMBER d p b lp' \<and> pFilePos lp' = i \<and> lp_id lp' = i \<and> answers lp' = []"
proof -
  obtain lp' where 1: "log_get_pos MAXTIMESTICKMESSAGENUMBER d p i lp = Some (True, lp')"
      "holding MAXTIMESTICKMESSAGENUMBER d p b lp'" "pFilePos lp' = i" "lp_id lp' = i" "only_log d p lp lp'"
    using log_get_pos_at [OF assms] by blast
  then have "point_here lp' = Some \<lparr>sp_disk = d, sp_part = p, sp_id = i, sp_file_info = messages b ! nat i,
     sp_use_id = use_id b, sp_use_total = use_total b\<rparr>"
    using cur_msg_holding [OF 1(2)] assms(3,4) by (simp add: point_here_def use_info_def holding_def)
  then show ?thesis
    using 1 only_log_answers [OF 1(5) assms(2)]
    by (simp add: FS_GetPosRecTimeStickMessage_def is_point_def)
qed

lemma stick_store_at:
  assumes "holding MAXTIMESTICKMESSAGENUMBER d p b lp" and "answers lp = []" and "0 \<le> i" and "i < use_total b"
    and "pFilePos lp = i" and "lp_id lp = i" and "sp_disk pt = d" and "sp_part pt = p" and "sp_id pt = i"
  shows "\<exists>lp'. RecTimeStickMessageWriteToFile pt lp = Some (ALLRIGHT, lp') \<and>
    holding MAXTIMESTICKMESSAGENUMBER d p (b\<lparr>messages := (messages b)[nat i := sp_file_info pt]\<rparr>) lp' \<and>
    answers lp' = [] \<and> pFilePos lp' = i \<and> lp_id lp' = i"
proof -
  have "RecTimeStickMessageWriteToFile pt lp = store_msg stick_zero (sp_file_info pt) lp"
    using assms holding_file [OF assms(1)] by (intro stick_write_eq) (auto simp: holding_def)
  then show ?thesis
    using log_store_msg [OF assms(1,2), of "sp_file_info pt" stick_zero] assms(2-6)
    by (auto simp: store_msg_def only_log_def)
qed

section \<open>The mark written\<close>

text \<open>The log after a mark: the previous entry with the channels joined, or a new entry.\<close>

definition merged_mark :: "recorder \<Rightarrow> int \<Rightarrow> time_stick_message \<Rightarrow> time_stick_message" where
  "merged_mark w cam m = with_mode w (m\<lparr>ts_iCam := cam OR ts_iCam m\<rparr>)"

definition fresh_mark :: "recorder \<Rightarrow> int \<Rightarrow> int \<Rightarrow> time_stick_message \<Rightarrow> time_stick_message" where
  "fresh_mark w t cam m = with_mode w (m\<lparr>ts_startTime := t, ts_iCam := cam\<rparr>)"

definition mark_log :: "recorder \<Rightarrow> int \<Rightarrow> int \<Rightarrow> time_stick_message mlog \<Rightarrow> time_stick_message mlog" where
  "mark_log w t cam b =
     (if 0 < use_id b \<and> ts_startTime (messages b ! nat (use_id b - 1)) = t
      then b\<lparr>messages := (messages b)[nat (use_id b - 1) := merged_mark w cam (messages b ! nat (use_id b - 1))]\<rparr>
      else ring_put (fresh_mark w t cam (current b)) b)"

lemma with_mode_same: "\<not> stick_mode_differs w m \<Longrightarrow> with_mode w m = m"
proof -
  assume "\<not> stick_mode_differs w m"
  then have "pb_standard w = uint (ts_videoStandard m)" "pb_size w = uint (ts_imageSize m)"
    by (simp_all add: stick_mode_differs_def)
  then show ?thesis by (simp add: with_mode_def)
qed

lemma mode_lp [simp]: "with_mode (w\<lparr>stick_lp := lp\<rparr>) = with_mode w"
  "stick_mode_differs (w\<lparr>stick_lp := lp\<rparr>) = stick_mode_differs w"
  by (simp_all add: fun_eq_iff with_mode_def stick_mode_differs_def)

lemma merge_mark_at:
  assumes h: "holding MAXTIMESTICKMESSAGENUMBER d p b (stick_lp w)" and a: "answers (stick_lp w) = []"
    and i: "0 \<le> i" "i < use_total b" "pFilePos (stick_lp w) = i" "lp_id (stick_lp w) = i" and pt: "is_point d p b i pt"
  shows "\<exists>lp'. merge_mark cam pt w = Some (ALLRIGHT, w\<lparr>stick_lp := lp'\<rparr>) \<and> answers lp' = [] \<and>
    holding MAXTIMESTICKMESSAGENUMBER d p
      (b\<lparr>messages := (messages b)[nat i := merged_mark w cam (messages b ! nat i)]\<rparr>) lp'"
proof -
  let ?m = "messages b ! nat i"
  let ?cams = "cam OR ts_iCam ?m"
  have len: "nat i < length (messages b)" using h i by (auto simp: holding_def log_ok_def)
  have cams: "(if ts_iCam ?m \<noteq> cam then cam OR ts_iCam ?m else ts_iCam ?m) = ?cams" by simp
  let ?b1 = "b\<lparr>messages := (messages b)[nat i := ?m\<lparr>ts_iCam := ?cams\<rparr>]\<rparr>"
  let ?pt1 = "pt\<lparr>sp_file_info := ?m\<lparr>ts_iCam := ?cams\<rparr>\<rparr>"
  have "\<exists>lp1. (if ?cams \<noteq> ts_iCam ?m then RecTimeStickMessageWriteToFile ?pt1 (stick_lp w) else Some (ALLRIGHT, stick_lp w)) =
      Some (ALLRIGHT, lp1) \<and> holding MAXTIMESTICKMESSAGENUMBER d p ?b1 lp1 \<and> answers lp1 = [] \<and> pFilePos lp1 = i \<and> lp_id lp1 = i"
  proof (cases "?cams = ts_iCam ?m")
    case True
    then have "?m\<lparr>ts_iCam := ?cams\<rparr> = ?m" by simp
    then have "?b1 = b" by (simp add: len)
    with True show ?thesis using h a i by auto
  next
    case False
    then show ?thesis
      using stick_store_at [OF h a i(1,2,3,4), of ?pt1] pt by (simp add: is_point_def)
  qed
  then obtain lp1 where 1: "(if ?cams \<noteq> ts_iCam ?m then RecTimeStickMessageWriteToFile ?pt1 (stick_lp w)
      else Some (ALLRIGHT, stick_lp w)) = Some (ALLRIGHT, lp1)"
    "holding MAXTIMESTICKMESSAGENUMBER d p ?b1 lp1" "answers lp1 = []" "pFilePos lp1 = i" "lp_id lp1 = i" by blast
  have fi: "sp_file_info pt = ?m" using pt by (simp add: is_point_def)
  have eq: "merge_mark cam pt w = (if stick_mode_differs w (?m\<lparr>ts_iCam := ?cams\<rparr>)
      then do {
        (rel, lp2) \<leftarrow> RecTimeStickMessageWriteToFile (?pt1\<lparr>sp_file_info := with_mode w (?m\<lparr>ts_iCam := ?cams\<rparr>)\<rparr>) lp1;
        if rel < 0 then Some (rel, w\<lparr>stick_lp := lp2\<rparr>) else Some (ALLRIGHT, w\<lparr>stick_lp := lp2\<rparr>)
      } else Some (ALLRIGHT, w\<lparr>stick_lp := lp1\<rparr>))"
    unfolding merge_mark_def Let_def fi cams 1(1) by (simp add: rel_codes)
  show ?thesis
  proof (cases "stick_mode_differs w (?m\<lparr>ts_iCam := ?cams\<rparr>)")
    case False
    then have "merged_mark w cam ?m = ?m\<lparr>ts_iCam := ?cams\<rparr>" by (simp add: merged_mark_def with_mode_same)
    then show ?thesis
      using 1 False
      by (intro exI [of _ lp1]) (simp add: eq)
  next
    case True
    let ?pt2 = "?pt1\<lparr>sp_file_info := with_mode w (?m\<lparr>ts_iCam := ?cams\<rparr>)\<rparr>"
    obtain lp2 where "RecTimeStickMessageWriteToFile ?pt2 lp1 = Some (ALLRIGHT, lp2)"
        "holding MAXTIMESTICKMESSAGENUMBER d p (?b1\<lparr>messages := (messages ?b1)[nat i := sp_file_info ?pt2]\<rparr>) lp2"
        "answers lp2 = []"
      using stick_store_at [OF 1(2,3) i(1) _ 1(4,5), of ?pt2] i(2) pt by (auto simp: is_point_def)
    then show ?thesis
      using 1 True
      by (intro exI [of _ lp2]) (simp add: eq rel_codes merged_mark_def)
  qed
qed

lemma new_mark_at:
  assumes "log_at MAXTIMESTICKMESSAGENUMBER (logpos_disk w) (logpos_part w) b (stick_lp w)" and "answers (stick_lp w) = []"
  shows "\<exists>lp'. new_mark t cam (use_id b) w = Some (ALLRIGHT, w\<lparr>stick_lp := lp'\<rparr>) \<and> answers lp' = [] \<and>
    holding MAXTIMESTICKMESSAGENUMBER (logpos_disk w) (logpos_part w) (ring_put (fresh_mark w t cam (current b)) b) lp'"
proof -
  let ?d = "logpos_disk w" and ?p = "logpos_part w" and ?m = "fresh_mark w t cam (current b)"
  have ok: "log_ok MAXTIMESTICKMESSAGENUMBER b" using assms(1) by (simp add: log_at_def)
  have i: "0 \<le> use_id b" "use_id b < use_total b" using log_ok_ids [OF ok] by auto
  obtain pt lp1 where 1: "FS_GetPosRecTimeStickMessage ?d ?p (use_id b) (stick_lp w) = Some (Some pt, lp1)"
      "is_point ?d ?p b (use_id b) pt" "holding MAXTIMESTICKMESSAGENUMBER ?d ?p b lp1" "pFilePos lp1 = use_id b"
      "lp_id lp1 = use_id b" "answers lp1 = []"
    using stick_get_pos_at [OF assms i] by blast
  let ?pt1 = "pt\<lparr>sp_file_info := ?m\<rparr>"
  have pt1: "?pt1 = pt\<lparr>sp_file_info := with_mode w ((sp_file_info pt)\<lparr>ts_startTime := t, ts_iCam := cam\<rparr>)\<rparr>"
    using 1(2) by (simp add: is_point_def fresh_mark_def current_def)
  let ?b1 = "b\<lparr>messages := (messages b)[nat (use_id b) := ?m]\<rparr>"
  obtain lp2 where 2: "RecTimeStickMessageWriteToFile ?pt1 lp1 = Some (ALLRIGHT, lp2)"
      "holding MAXTIMESTICKMESSAGENUMBER ?d ?p ?b1 lp2" "answers lp2 = []"
    using stick_store_at [OF 1(3,6) i 1(4,5), of ?pt1] 1(2) by (auto simp: is_point_def)
  let ?pt2 = "?pt1\<lparr>sp_use_id := next_id ?b1\<rparr>"
  have pt2: "(if sp_use_id pt + 1 < sp_use_total pt then sp_use_id ?pt1 + 1 else 0) = next_id ?b1"
    using 1(2) by (simp add: is_point_def next_id_def)
  have "RecTimeStickMessageUseInfoWriteToFile ?pt2 lp2 = store_id (next_id ?b1) lp2"
    using stick_use_eq [of lp2 ?pt2 ?b1] 1(2) 2(2,3) holding_file [OF 2(2)]
    by (simp add: is_point_def holding_def use_info_def)
  moreover obtain lp3 where "store_id (next_id ?b1) lp2 = Some (ALLRIGHT, lp3)"
      "holding MAXTIMESTICKMESSAGENUMBER ?d ?p (ring_put ?m b) lp3" "answers lp3 = []"
    using log_move_on [OF 2(2,3)] 2(3) by (auto simp: store_id_def only_log_def)
  ultimately show ?thesis
    using 1(1) 2(1) unfolding new_mark_def
    by (intro exI [of _ lp3]) (simp add: Let_def pt1 [symmetric] pt2 rel_codes split del: if_split)
qed

lemma FS_WriteInfotoRecTimeStickLog_at:
  assumes "log_at MAXTIMESTICKMESSAGENUMBER (logpos_disk w) (logpos_part w) b (stick_lp w)" and "answers (stick_lp w) = []"
  shows "\<exists>lp'. FS_WriteInfotoRecTimeStickLog t cam w = Some (ALLRIGHT, w\<lparr>stick_lp := lp'\<rparr>) \<and> answers lp' = [] \<and>
    holding MAXTIMESTICKMESSAGENUMBER (logpos_disk w) (logpos_part w) (mark_log w t cam b) lp'"
proof -
  let ?d = "logpos_disk w" and ?p = "logpos_part w"
  have ok: "log_ok MAXTIMESTICKMESSAGENUMBER b" using assms(1) by (simp add: log_at_def)
  have i: "0 \<le> use_id b" "use_id b < use_total b" "0 < use_total b" using log_ok_ids [OF ok] by auto
  obtain pt lp1 where 1: "FS_GetPosRecTimeStickMessage ?d ?p 0 (stick_lp w) = Some (Some pt, lp1)"
      "is_point ?d ?p b 0 pt" "holding MAXTIMESTICKMESSAGENUMBER ?d ?p b lp1" "answers lp1 = []"
    using stick_get_pos_at [OF assms order_refl i(3)] by blast
  have cur: "sp_use_id pt = use_id b" using 1(2) by (simp add: is_point_def)
  show ?thesis
  proof (cases "use_id b - 1 \<ge> 0")
    case False
    then show ?thesis
      using 1(1) cur new_mark_at [of "w\<lparr>stick_lp := lp1\<rparr>" b t cam] holding_log_at [OF 1(3)] 1(4)
      by (simp add: FS_WriteInfotoRecTimeStickLog_def Let_def mark_log_def fresh_mark_def)
  next
    case True
    obtain prev lp2 where 2: "FS_GetPosRecTimeStickMessage ?d ?p (use_id b - 1) lp1 = Some (Some prev, lp2)"
        "is_point ?d ?p b (use_id b - 1) prev" "holding MAXTIMESTICKMESSAGENUMBER ?d ?p b lp2"
        "pFilePos lp2 = use_id b - 1" "lp_id lp2 = use_id b - 1" "answers lp2 = []"
      using stick_get_pos_at [OF holding_log_at [OF 1(3)] 1(4) True] i(2) by auto
    have prev: "sp_file_info prev = messages b ! nat (use_id b - 1)" using 2(2) by (simp add: is_point_def)
    show ?thesis
    proof (cases "ts_startTime (messages b ! nat (use_id b - 1)) = t")
      case True
      then show ?thesis
        using 1(1) cur 2 prev \<open>use_id b - 1 \<ge> 0\<close> i(2)
          merge_mark_at [of ?d ?p b "w\<lparr>stick_lp := lp2\<rparr>" "use_id b - 1" prev cam]
        by (simp add: FS_WriteInfotoRecTimeStickLog_def Let_def mark_log_def merged_mark_def)
    next
      case False
      then show ?thesis
        using 1(1) cur 2 prev \<open>use_id b - 1 \<ge> 0\<close>
          new_mark_at [of "w\<lparr>stick_lp := lp2\<rparr>" b t cam] holding_log_at [OF 2(3)]
        by (simp add: FS_WriteInfotoRecTimeStickLog_def Let_def mark_log_def fresh_mark_def)
    qed
  qed
qed

text \<open>A mark: time, channels, standard and size.\<close>

definition mark_of :: "time_stick_message \<Rightarrow> int \<times> int \<times> byte \<times> byte" where
  "mark_of m = (ts_startTime m, ts_iCam m, ts_videoStandard m, ts_imageSize m)"

text \<open>A time mark becomes the newest entry of the log; when the previous mark (unless the next
  place is the first of the table) has the same time it is merged into that entry, whose channels
  become the union and whose mode is the present one.\<close>

theorem time_mark_logged:
  assumes "log_at MAXTIMESTICKMESSAGENUMBER (logpos_disk w) (logpos_part w) b (stick_lp w)" and "answers (stick_lp w) = []"
  shows "\<exists>lp' b'. FS_WriteInfotoRecTimeStickLog t cam w = Some (ALLRIGHT, w\<lparr>stick_lp := lp'\<rparr>) \<and>
    log_at MAXTIMESTICKMESSAGENUMBER (logpos_disk w) (logpos_part w) b' lp' \<and>
    map mark_of (recent b') =
      (if 0 < use_id b \<and> ts_startTime (last (recent b)) = t
       then butlast (map mark_of (recent b)) @
         [(t, cam OR ts_iCam (last (recent b)), word_of_int (pb_standard w), word_of_int (pb_size w))]
       else tl (map mark_of (recent b)) @ [(t, cam, word_of_int (pb_standard w), word_of_int (pb_size w))])"
proof -
  have ok: "log_ok MAXTIMESTICKMESSAGENUMBER b" using assms(1) by (simp add: log_at_def)
  obtain lp' where 1: "FS_WriteInfotoRecTimeStickLog t cam w = Some (ALLRIGHT, w\<lparr>stick_lp := lp'\<rparr>)"
      "holding MAXTIMESTICKMESSAGENUMBER (logpos_disk w) (logpos_part w) (mark_log w t cam b) lp'"
    using FS_WriteInfotoRecTimeStickLog_at [OF assms] by blast
  have "map mark_of (recent (mark_log w t cam b)) =
      (if 0 < use_id b \<and> ts_startTime (last (recent b)) = t
       then butlast (map mark_of (recent b)) @
         [(t, cam OR ts_iCam (last (recent b)), word_of_int (pb_standard w), word_of_int (pb_size w))]
       else tl (map mark_of (recent b)) @ [(t, cam, word_of_int (pb_standard w), word_of_int (pb_size w))])"
    using recent_last [OF ok] recent_ring_put [OF ok] log_ok_ids [OF ok]
    by (auto simp: prev_id_def mark_log_def mark_of_def merged_mark_def fresh_mark_def with_mode_def map_tl map_butlast)
  with 1 holding_log_at [OF 1(2)] show ?thesis by blast
qed

lemma time_mark_logged_witness:
  "\<exists>lp' b'. FS_WriteInfotoRecTimeStickLog 0 4 (recorder_start 0) = Some (ALLRIGHT, (recorder_start 0)\<lparr>stick_lp := lp'\<rparr>) \<and>
    log_at MAXTIMESTICKMESSAGENUMBER 0 5 b' lp' \<and>
    map mark_of (recent b') =
      (if 0 < use_id (full_log MAXTIMESTICKMESSAGENUMBER stick_zero 1) \<and>
          ts_startTime (last (recent (full_log MAXTIMESTICKMESSAGENUMBER stick_zero 1))) = 0
       then butlast (map mark_of (recent (full_log MAXTIMESTICKMESSAGENUMBER stick_zero 1))) @
         [(0, 4 OR ts_iCam (last (recent (full_log MAXTIMESTICKMESSAGENUMBER stick_zero 1))),
           word_of_int (pb_standard (recorder_start 0)), word_of_int (pb_size (recorder_start 0)))]
       else tl (map mark_of (recent (full_log MAXTIMESTICKMESSAGENUMBER stick_zero 1))) @
         [(0, 4, word_of_int (pb_standard (recorder_start 0)), word_of_int (pb_size (recorder_start 0)))])"
  using time_mark_logged [of "recorder_start 0" "full_log MAXTIMESTICKMESSAGENUMBER stick_zero 1" 0 4]
  by (simp only: recorder_start_simps answers_fresh)
    (simp add: log_at_fresh MAXTIMESTICKMESSAGENUMBER_def)

section \<open>Channel changes\<close>

text \<open>The entry for a change of channels, linked to the record \<open>r\<close> at position \<open>i\<close>.\<close>

definition add_entry :: "recorder \<Rightarrow> int \<Rightarrow> int \<Rightarrow> int \<Rightarrow> record_message \<Rightarrow> rec_add_message \<Rightarrow> rec_add_message" where
  "add_entry w t cam i r m = m\<lparr>ra_rec_log_time := rm_startTime r, ra_startTime := t, ra_iCam := cam,
     ra_rec_log_id := i, ra_filePos := rec_cur_file w,
     ra_rec_size := (if rec_file_size w \<noteq> 0 then rec_file_size w else ra_rec_size m)\<rparr>"

text \<open>A change of channels is logged as the newest entry of the channel log, linked by position
  and start time to the recording in progress, which is marked as having additional entries; nothing
  else in the record log changes.\<close>

theorem channel_change_logged:
  assumes r: "log_at MAXMESSAGENUMBER (logpos_disk w) (logpos_part w) b (rec_lp w)" "answers (rec_lp w) = []"
    and l: "log_at MAXADDMESSAGENUMBER (logpos_disk w) (logpos_part w) c (add_lp w)" "answers (add_lp w) = []"
  shows "\<exists>rlp alp. FS_WriteInfotoRecAddLog t cam w = Some (ALLRIGHT, w\<lparr>add_lp := alp, rec_lp := rlp\<rparr>) \<and>
    log_at MAXADDMESSAGENUMBER (logpos_disk w) (logpos_part w)
      (ring_put (add_entry w t cam (use_id b) (current b) (current c)) c) alp \<and>
    log_at MAXMESSAGENUMBER (logpos_disk w) (logpos_part w)
      (b\<lparr>messages := (messages b)[nat (use_id b) := (current b)\<lparr>rm_have_add_info := 1\<rparr>]\<rparr>) rlp"
proof -
  let ?d = "logpos_disk w" and ?p = "logpos_part w" and ?m = "add_entry w t cam (use_id b) (current b) (current c)"
  have ok: "log_ok MAXMESSAGENUMBER b" using r(1) by (simp add: log_at_def)
  obtain l1 l2 where L: "log_get_pos MAXADDMESSAGENUMBER ?d ?p 0 (add_lp w) = Some (True, l1)" "use_info l1 = Some c"
      "log_get_pos MAXADDMESSAGENUMBER ?d ?p (use_id c) l1 = Some (True, l2)" "holding MAXADDMESSAGENUMBER ?d ?p c l2"
      "pFilePos l2 = use_id c" "lp_id l2 = use_id c" "only_log ?d ?p (add_lp w) l2" "cur_msg l2 = Some (current c)"
    using log_go_current [OF l] by blast
  have aL: "answers l2 = []" using L(7) l(2) by (rule only_log_answers)
  obtain r1 r2 where R: "log_get_pos MAXMESSAGENUMBER ?d ?p 0 (rec_lp w) = Some (True, r1)" "use_info r1 = Some b"
      "log_get_pos MAXMESSAGENUMBER ?d ?p (use_id b) r1 = Some (True, r2)" "holding MAXMESSAGENUMBER ?d ?p b r2"
      "only_log ?d ?p (rec_lp w) r2" "cur_msg r2 = Some (current b)"
    using log_go_current [OF r] by blast
  have aR: "answers r2 = []" using R(5) r(2) by (rule only_log_answers)
  obtain l3 l4 where S: "set_msg ?m l2 = Some l3" "log_write_msg add_zero l3 = Some (ALLRIGHT, l4)"
      "holding MAXADDMESSAGENUMBER ?d ?p (c\<lparr>messages := (messages c)[nat (use_id c) := ?m]\<rparr>) l4" "only_log ?d ?p l2 l4"
      "use_info l4 = Some (c\<lparr>messages := (messages c)[nat (use_id c) := ?m]\<rparr>)"
    using log_store_current [OF L(4) aL L(5,6)] by blast
  obtain l5 l6 where A: "set_use_id (next_id (c\<lparr>messages := (messages c)[nat (use_id c) := ?m]\<rparr>)) l4 = Some l5"
      "log_write_use l5 = Some (ALLRIGHT, l6)" "holding MAXADDMESSAGENUMBER ?d ?p (ring_put ?m c) l6"
    using log_move_on [OF S(3) only_log_answers [OF S(4) aL]] by blast
  obtain r3 where R3: "log_get_pos MAXMESSAGENUMBER ?d ?p (use_id b) r2 = Some (True, r3)" "holding MAXMESSAGENUMBER ?d ?p b r3"
      "pFilePos r3 = use_id b" "lp_id r3 = use_id b" "only_log ?d ?p r2 r3"
    using log_get_pos_at [OF holding_log_at [OF R(4)] aR] log_ok_ids [OF ok] by blast
  have cR: "cur_msg r3 = Some (current b)"
    using cur_msg_holding [OF R3(2)] R3(3) log_ok_ids [OF ok] by (simp add: current_def)
  let ?b = "b\<lparr>messages := (messages b)[nat (use_id b) := (current b)\<lparr>rm_have_add_info := 1\<rparr>]\<rparr>"
  have "\<exists>r4. (if rm_have_add_info (current b) \<noteq> 1
      then do { rlp2 \<leftarrow> set_msg ((current b)\<lparr>rm_have_add_info := 1\<rparr>) r3;
                (rel, rlp3) \<leftarrow> RecordMessageWriteToFile rlp2; Some rlp3 }
      else Some r3) = Some r4 \<and> holding MAXMESSAGENUMBER ?d ?p ?b r4"
  proof (cases "rm_have_add_info (current b) = 1")
    case True
    then have "(current b)\<lparr>rm_have_add_info := 1\<rparr> = current b" by simp
    then have "?b = b" using log_ok_ids [OF ok] ok by (simp add: current_def log_ok_def)
    with True R3(2) show ?thesis by simp
  next
    case False
    then show ?thesis
      using log_store_current [OF R3(2) only_log_answers [OF R3(5) aR] R3(3,4),
          of "(current b)\<lparr>rm_have_add_info := 1\<rparr>" record_zero]
      by (auto simp: record_log_defs)
  qed
  then obtain r4 where R4: "(if rm_have_add_info (current b) \<noteq> 1
      then do { rlp2 \<leftarrow> set_msg ((current b)\<lparr>rm_have_add_info := 1\<rparr>) r3;
                (rel, rlp3) \<leftarrow> RecordMessageWriteToFile rlp2; Some rlp3 }
      else Some r3) = Some r4" "holding MAXMESSAGENUMBER ?d ?p ?b r4" by blast
  have "FS_WriteInfotoRecAddLog t cam w = Some (ALLRIGHT, w\<lparr>add_lp := l6, rec_lp := r4\<rparr>)"
    using L(1-3,8) R(1-3,6) S(1,2,5) A(1,2) R3(1) cR R4(1)
    by (simp add: add_entry_def FS_WriteInfotoRecAddLog_def FS_GetRecMsgCurrentId_def record_log_defs Let_def rel_codes
      split del: if_split)
  then show ?thesis using holding_log_at [OF A(3)] holding_log_at [OF R4(2)] by blast
qed

lemma channel_change_logged_witness:
  "\<exists>rlp alp. FS_WriteInfotoRecAddLog 100 3 (recorder_start 7) =
      Some (ALLRIGHT, (recorder_start 7)\<lparr>add_lp := alp, rec_lp := rlp\<rparr>) \<and>
    log_at MAXADDMESSAGENUMBER (logpos_disk (recorder_start 7)) (logpos_part (recorder_start 7))
      (ring_put (add_entry (recorder_start 7) 100 3 (use_id (full_log MAXMESSAGENUMBER record_zero 7))
        (current (full_log MAXMESSAGENUMBER record_zero 7)) (current (full_log MAXADDMESSAGENUMBER add_zero 0)))
        (full_log MAXADDMESSAGENUMBER add_zero 0)) alp \<and>
    log_at MAXMESSAGENUMBER (logpos_disk (recorder_start 7)) (logpos_part (recorder_start 7))
      ((full_log MAXMESSAGENUMBER record_zero 7)\<lparr>messages := (messages (full_log MAXMESSAGENUMBER record_zero 7))
        [nat (use_id (full_log MAXMESSAGENUMBER record_zero 7)) :=
          (current (full_log MAXMESSAGENUMBER record_zero 7))\<lparr>rm_have_add_info := 1\<rparr>]\<rparr>) rlp"
  by (rule channel_change_logged)
    (simp_all add: log_at_fresh MAXMESSAGENUMBER_def MAXADDMESSAGENUMBER_def)

end
