(* ===== verification/Alarm_Log.thy ===== *)
theory Alarm_Log
  imports Time_Marks
begin

text \<open>
  The alarm log of \<open>src/FileSystem/filesystem/FSalarmop.c\<close> and the event log of
  \<open>FSEventInfo.c\<close>, with the functions of \<open>FSfileoperate.c\<close> that create and clear them.
\<close>

section \<open>Alarm log\<close>

definition NORECORD :: int where "NORECORD = 0"

text \<open>\<open>GST_RECORDEVENT\<close>: motion, loss, sensor.\<close>

type_synonym record_event = "byte \<times> byte \<times> byte"

record alarm_message =
  am_id :: int
  am_iCam :: int
  am_event :: record_event
  am_alarmStartTime :: int
  am_alarmEndTime :: int
  am_iPreviewTime :: int
  am_iLaterTime :: int
  am_states :: int
  am_iDataEffect :: int
  am_iRecMessageId :: int
  am_videoStandard :: byte
  am_imageSize :: byte

definition alarm_zero :: alarm_message where
  "alarm_zero = \<lparr>am_id = 0, am_iCam = 0, am_event = (0, 0, 0), am_alarmStartTime = 0, am_alarmEndTime = 0,
     am_iPreviewTime = 0, am_iLaterTime = 0, am_states = 0, am_iDataEffect = 0, am_iRecMessageId = 0,
     am_videoStandard = 0, am_imageSize = 0\<rparr>"

text \<open>The alarm log, \<open>g_AlarmMessageId\<close>, \<open>g_pstRecModeParam\<close>, and the recorder's globals.\<close>

record alarms =
  alarm_lp :: "alarm_message log_point"
  g_AlarmMessageId :: int
  par_standard :: int
  par_size :: int
  al_rec :: recorder

definition FS_InitAlarmLogBuf :: "alarm_message mlog option \<Rightarrow> alarm_message log_point \<Rightarrow> int \<times> alarm_message log_point" where
  "FS_InitAlarmLogBuf = log_init"
definition FS_ReleaseAlarmLogBuf :: "alarm_message log_point \<Rightarrow> int \<times> alarm_message log_point" where
  "FS_ReleaseAlarmLogBuf = log_release"
definition FS_LoadAlarmLog :: "int \<Rightarrow> int \<Rightarrow> alarm_message log_point \<Rightarrow> int \<times> alarm_message log_point" where
  "FS_LoadAlarmLog = log_load MAXMESSAGENUMBER"
definition FS_GetPosAlarmMessage :: "int \<Rightarrow> int \<Rightarrow> int \<Rightarrow> alarm_message log_point \<Rightarrow> (bool \<times> alarm_message log_point) option" where
  "FS_GetPosAlarmMessage = log_get_pos MAXMESSAGENUMBER"
definition FS_GetAlarmLogPoint :: "alarm_message log_point \<Rightarrow> bool" where
  "FS_GetAlarmLogPoint = log_point_valid"
definition AlarmMessageUseInfoWriteToFile :: "alarm_message log_point \<Rightarrow> (int \<times> alarm_message log_point) option" where
  "AlarmMessageUseInfoWriteToFile = log_write_use"
definition AlarmMessageWriteToFile :: "alarm_message log_point \<Rightarrow> (int \<times> alarm_message log_point) option" where
  "AlarmMessageWriteToFile = log_write_msg alarm_zero"

text \<open>The message \<open>iMessageId\<close> gets its end time; with -1 a new message is filled in.\<close>

definition alarm_entry :: "record_event \<Rightarrow> int \<Rightarrow> int \<Rightarrow> int \<Rightarrow> int \<Rightarrow> int \<Rightarrow> int \<Rightarrow> int \<Rightarrow> alarms \<Rightarrow>
    alarm_message \<Rightarrow> alarm_message" where
  "alarm_entry event eventEndTime iCam iPreviewTime iLaterTime states iMessageId now w m =
     (if iMessageId \<noteq> - 1 then m\<lparr>am_alarmEndTime := now\<rparr>
      else m\<lparr>am_event := event, am_alarmStartTime := now, am_iCam := iCam, am_alarmEndTime := eventEndTime,
        am_states := states, am_iPreviewTime := iPreviewTime, am_iLaterTime := iLaterTime,
        am_iDataEffect := EFFECT, am_imageSize := word_of_int (par_size w),
        am_videoStandard := word_of_int (par_standard w)\<rparr>)"

definition FS_WriteInfoToAlarmLog :: "record_event \<Rightarrow> int \<Rightarrow> int \<Rightarrow> int \<Rightarrow> int \<Rightarrow> int \<Rightarrow> int \<Rightarrow> int \<Rightarrow> int \<Rightarrow> alarms \<Rightarrow>
    (int \<times> alarms) option" where
  "FS_WriteInfoToAlarmLog event eventStartTime eventEndTime iCam iPreviewTime iLaterTime states iMessageId now w =
   (let disk = logpos_disk (al_rec w); part = logpos_part (al_rec w) in do {
     (ok, lp1) \<leftarrow> FS_GetPosAlarmMessage disk part 0 (alarm_lp w);
     if \<not> ok then Some (FILEERROR, w\<lparr>alarm_lp := lp1\<rparr>)
     else do {
       b \<leftarrow> use_info lp1;
       if iMessageId < - 1 \<or> iMessageId > use_total b then Some (ERROR, w\<lparr>alarm_lp := lp1\<rparr>)
       else do {
         let cur = (if iMessageId = - 1 then use_id b else iMessageId);
         (ok, lp2) \<leftarrow> FS_GetPosAlarmMessage disk part cur lp1;
         if \<not> ok then Some (FILEERROR, w\<lparr>alarm_lp := lp2\<rparr>)
         else do {
           m \<leftarrow> cur_msg lp2;
           let m1 = alarm_entry event eventEndTime iCam iPreviewTime iLaterTime states iMessageId now w m;
           (rid, rec1) \<leftarrow> (if am_states m1 = NORECORD then Some (- 1, al_rec w)
                         else FS_GetRecMsgCurrentId (al_rec w));
           lp3 \<leftarrow> set_msg (m1\<lparr>am_iRecMessageId := rid\<rparr>) lp2;
           (rel, lp4) \<leftarrow> AlarmMessageWriteToFile lp3;
           let w1 = w\<lparr>al_rec := rec1, alarm_lp := lp4\<rparr>;
           if rel < 0 then Some (rel, w1)
           else if iMessageId \<noteq> - 1 then Some (cur, w1)
           else do {
             b \<leftarrow> use_info lp4;
             lp5 \<leftarrow> set_use_id (next_id b) lp4;
             (rel, lp6) \<leftarrow> AlarmMessageUseInfoWriteToFile lp5;
             if rel < 0 then Some (rel, w1\<lparr>alarm_lp := lp6\<rparr>) else Some (cur, w1\<lparr>alarm_lp := lp6\<rparr>)
           }
         }
       }
     }
   })"

definition FS_WriteEndInfotoAlarmLog :: "int \<Rightarrow> int \<Rightarrow> alarms \<Rightarrow> (int \<times> alarms) option" where
  "FS_WriteEndInfotoAlarmLog iMessageId alarmEndTime w = do {
     (ok, lp1) \<leftarrow> FS_GetPosAlarmMessage (logpos_disk (al_rec w)) (logpos_part (al_rec w)) iMessageId (alarm_lp w);
     if \<not> ok then Some (FILEERROR, w\<lparr>alarm_lp := lp1\<rparr>)
     else do {
       m \<leftarrow> cur_msg lp1;
       lp2 \<leftarrow> set_msg (m\<lparr>am_alarmEndTime := alarmEndTime\<rparr>) lp1;
       (rel, lp3) \<leftarrow> AlarmMessageWriteToFile lp2;
       if rel < 0 then Some (rel, w\<lparr>alarm_lp := lp3\<rparr>)
       else Some (ALLRIGHT, w\<lparr>alarm_lp := lp3, g_AlarmMessageId := - 1\<rparr>)
     }
   }"

definition FS_GetAlarmCurrentPoint :: "alarms \<Rightarrow> (int \<times> (int \<times> int \<times> int) option \<times> alarms) option" where
  "FS_GetAlarmCurrentPoint w = (let disk = logpos_disk (al_rec w); part = logpos_part (al_rec w) in do {
     (ok, lp1) \<leftarrow> FS_GetPosAlarmMessage disk part 0 (alarm_lp w);
     if \<not> ok then Some (ERROR, None, w\<lparr>alarm_lp := lp1\<rparr>)
     else do {
       b \<leftarrow> use_info lp1;
       Some (ALLRIGHT, Some (disk, part, if use_id b > 0 then use_id b - 1 else use_total b - 1), w\<lparr>alarm_lp := lp1\<rparr>)
     }
   })"

definition FS_CreateAlarmLog :: "alarm_message \<Rightarrow> int \<Rightarrow> int \<Rightarrow> alarm_message log_point \<Rightarrow> int \<times> alarm_message log_point" where
  "FS_CreateAlarmLog junk disk part = log_create disk part
     (map (\<lambda>i. junk\<lparr>am_alarmEndTime := 0, am_iCam := 0, am_id := int i, am_iDataEffect := NOEFFECT,
        am_alarmStartTime := 0, am_event := (0, 0, 0), am_iRecMessageId := - 1, am_states := NORECORD,
        am_imageSize := 0, am_videoStandard := 0\<rparr>) [0..<MAXMESSAGENUMBER])"

definition cleared_alarm :: "alarm_message \<Rightarrow> alarm_message" where
  "cleared_alarm m = m\<lparr>am_alarmEndTime := 0, am_alarmStartTime := 0, am_event := (0, 0, 0), am_iCam := 0,
     am_iDataEffect := NOEFFECT, am_iLaterTime := 0, am_iPreviewTime := 0, am_states := NORECORD,
     am_iRecMessageId := - 1\<rparr>"

definition FS_DelAlarmLosMessage :: "int list list \<Rightarrow> (int \<Rightarrow> bool) \<Rightarrow> int \<Rightarrow> int \<Rightarrow> int \<Rightarrow> alarm_message log_point \<Rightarrow>
    (int \<times> alarm_message log_point) option" where
  "FS_DelAlarmLosMessage partitions format_ok startTime endTime disk =
     log_clear MAXMESSAGENUMBER (store_msg alarm_zero) store_id partitions format_ok disk
       (\<lambda>i m. touches startTime endTime (am_alarmStartTime m) (am_alarmEndTime m) \<or> disk = i) cleared_alarm"

section \<open>Event log\<close>

definition EVENTMAXMESSAGE :: nat where "EVENTMAXMESSAGE = 3000"

datatype event_state = POWER_ON | POWER_DOWN1 | POWER_DOWN2 | POWER_DOWN3 | POWER_DOWN4 | POWER_DOWN5 |
  POWER_DOWN6 | ALARM | REC_START_BYHAND | REC_STOP_BYHAND | REC_START_ALARM | REC_STOP_ALARM |
  REC_START_TIMESET | REC_STOP_TIMESET | NET_CONNECT | NET_DISCONNECT | UNEXPECTED_SHUTDONW |
  RESTORE_POWER_ON | NORMAL | REC_START_BYHAND_ERROR | REC_START_ALARM_ERROR | REC_START_TIMESET_ERROR

text \<open>\<open>EventInfo\<close> is the whole array of 30 bytes.\<close>

record event_message =
  em_id :: int
  em_iCam :: int
  em_event :: record_event
  em_EventStartTime :: int
  em_EvenEndTime :: int
  em_iPreviewTime :: int
  em_iLaterTime :: int
  em_CurrentEvent :: event_state
  em_iDataEffect :: int
  em_iRecMessageId :: int
  em_EventInfo :: "byte list"

definition event_zero :: event_message where
  "event_zero = \<lparr>em_id = 0, em_iCam = 0, em_event = (0, 0, 0), em_EventStartTime = 0, em_EvenEndTime = 0,
     em_iPreviewTime = 0, em_iLaterTime = 0, em_CurrentEvent = POWER_ON, em_iDataEffect = 0,
     em_iRecMessageId = 0, em_EventInfo = replicate 30 0\<rparr>"

definition FS_InitEventLogBuf :: "event_message mlog option \<Rightarrow> event_message log_point \<Rightarrow> int \<times> event_message log_point" where
  "FS_InitEventLogBuf = log_init"
definition FS_ReleaseEventLogBuf :: "event_message log_point \<Rightarrow> int \<times> event_message log_point" where
  "FS_ReleaseEventLogBuf = log_release"
definition FS_LoadEventLog :: "int \<Rightarrow> int \<Rightarrow> event_message log_point \<Rightarrow> int \<times> event_message log_point" where
  "FS_LoadEventLog = log_load EVENTMAXMESSAGE"
definition FS_GetPosEventMessage :: "int \<Rightarrow> int \<Rightarrow> int \<Rightarrow> event_message log_point \<Rightarrow> (bool \<times> event_message log_point) option" where
  "FS_GetPosEventMessage = log_get_pos EVENTMAXMESSAGE"
definition FS_GetEventLogPoint :: "event_message log_point \<Rightarrow> bool" where
  "FS_GetEventLogPoint = log_point_valid"
definition EventMessageUseInfoWriteToFile :: "event_message log_point \<Rightarrow> (int \<times> event_message log_point) option" where
  "EventMessageUseInfoWriteToFile = log_write_use"
definition EventMessageWriteToFile :: "event_message log_point \<Rightarrow> (int \<times> event_message log_point) option" where
  "EventMessageWriteToFile = log_write_msg event_zero"

text \<open>
  \<open>Reason\<close> is the text before its NUL; a text of 30 or more characters is dropped. Arguments that
  are NULL leave the field as the overwritten entry had it.
\<close>

definition event_entry :: "int option \<Rightarrow> int option \<Rightarrow> record_event option \<Rightarrow> event_state \<Rightarrow> byte list option \<Rightarrow> int \<Rightarrow>
    event_message \<Rightarrow> event_message" where
  "event_entry iCam eventStartTime pEvent EventStates Reason now m =
     m\<lparr>em_event := (case pEvent of Some e \<Rightarrow> e | None \<Rightarrow> em_event m),
       em_EventStartTime := (case eventStartTime of Some t \<Rightarrow> t | None \<Rightarrow> now),
       em_EventInfo := (case Reason of
          Some r \<Rightarrow> if length r < 30 then r @ [0] @ drop (length r + 1) (em_EventInfo m) else em_EventInfo m
        | None \<Rightarrow> em_EventInfo m),
       em_iCam := (case iCam of Some c \<Rightarrow> c | None \<Rightarrow> em_iCam m),
       em_CurrentEvent := EventStates, em_iDataEffect := EFFECT\<rparr>"

definition FS_WriteInfoToEventLog :: "int option \<Rightarrow> int option \<Rightarrow> record_event option \<Rightarrow> event_state \<Rightarrow> byte list option \<Rightarrow>
    int \<Rightarrow> event_message log_point \<Rightarrow> (int \<times> event_message log_point) option" where
  "FS_WriteInfoToEventLog iCam eventStartTime pEvent EventStates Reason now lp =
     (if pEvent \<noteq> None \<and> (eventStartTime = None \<or> iCam = None) then None
      else do {
        (ok, lp1) \<leftarrow> FS_GetPosEventMessage 0 5 0 lp;
        if \<not> ok then Some (FILEERROR, lp1)
        else do {
          b \<leftarrow> use_info lp1;
          (ok, lp2) \<leftarrow> FS_GetPosEventMessage 0 5 (use_id b) lp1;
          if \<not> ok then Some (FILEERROR, lp2)
          else do {
            m \<leftarrow> cur_msg lp2;
            lp3 \<leftarrow> set_msg (event_entry iCam eventStartTime pEvent EventStates Reason now m) lp2;
            (rel, lp4) \<leftarrow> EventMessageWriteToFile lp3;
            if rel < 0 then Some (rel, lp4)
            else do {
              b1 \<leftarrow> use_info lp4;
              lp5 \<leftarrow> set_use_id (next_id b1) lp4;
              (rel, lp6) \<leftarrow> EventMessageUseInfoWriteToFile lp5;
              if rel < 0 then Some (rel, lp6) else Some (use_id b, lp6)
            }
          }
        }
      })"

definition FS_GetEventCurrentPoint :: "event_message log_point \<Rightarrow> (int \<times> event_message log_point) option" where
  "FS_GetEventCurrentPoint lp = do {
     (ok, lp1) \<leftarrow> FS_GetPosEventMessage 0 5 0 lp;
     if \<not> ok then Some (ERROR, lp1)
     else do {
       b \<leftarrow> use_info lp1;
       Some (if use_id b > 0 then use_id b - 1 else use_total b - 1, lp1)
     }
   }"

definition FS_CreateEventLog :: "event_message \<Rightarrow> int \<Rightarrow> int \<Rightarrow> event_message log_point \<Rightarrow> int \<times> event_message log_point" where
  "FS_CreateEventLog junk disk part = log_create disk part
     (map (\<lambda>i. junk\<lparr>em_CurrentEvent := NORMAL, em_EvenEndTime := 0, em_event := (0, 0, 0),
        em_EventStartTime := 0, em_iCam := 0, em_id := int i, em_iDataEffect := NOEFFECT, em_iLaterTime := 0,
        em_iPreviewTime := 0, em_iRecMessageId := - 1\<rparr>) [0..<EVENTMAXMESSAGE])"


section \<open>Alarms\<close>

lemmas alarm_log_defs = FS_GetPosAlarmMessage_def AlarmMessageWriteToFile_def AlarmMessageUseInfoWriteToFile_def

text \<open>The recording an alarm refers to.\<close>

lemma FS_GetRecMsgCurrentId_at:
  assumes "log_at MAXMESSAGENUMBER (logpos_disk w) (logpos_part w) b (rec_lp w)" and "answers (rec_lp w) = []"
  shows "\<exists>lp'. FS_GetRecMsgCurrentId w = Some (use_id b, w\<lparr>rec_lp := lp'\<rparr>) \<and>
    holding MAXMESSAGENUMBER (logpos_disk w) (logpos_part w) b lp' \<and> answers lp' = []"
proof -
  have "log_ok MAXMESSAGENUMBER b" using assms(1) by (simp add: log_at_def)
  then obtain lp' where "log_get_pos MAXMESSAGENUMBER (logpos_disk w) (logpos_part w) 0 (rec_lp w) = Some (True, lp')"
      "holding MAXMESSAGENUMBER (logpos_disk w) (logpos_part w) b lp'" "answers lp' = []"
    using log_get_pos_at [OF assms] log_ok_ids only_log_answers [OF _ assms(2)] by blast
  then show ?thesis
    by (intro exI [of _ lp']) (simp add: FS_GetRecMsgCurrentId_def record_log_defs use_info_def holding_def)
qed

definition alarm_ready :: "record_message mlog \<Rightarrow> alarm_message mlog \<Rightarrow> alarms \<Rightarrow> bool" where
  "alarm_ready r b w \<longleftrightarrow>
     log_at MAXMESSAGENUMBER (logpos_disk (al_rec w)) (logpos_part (al_rec w)) r (rec_lp (al_rec w)) \<and>
     answers (rec_lp (al_rec w)) = [] \<and>
     log_at MAXMESSAGENUMBER (logpos_disk (al_rec w)) (logpos_part (al_rec w)) b (alarm_lp w) \<and>
     answers (alarm_lp w) = []"

definition new_alarm :: "record_event \<Rightarrow> int \<Rightarrow> int \<Rightarrow> int \<Rightarrow> int \<Rightarrow> int \<Rightarrow> int \<Rightarrow> int \<Rightarrow> alarms \<Rightarrow> alarm_message \<Rightarrow> alarm_message" where
  "new_alarm event stop cam pre later states now rid w m =
     (alarm_entry event stop cam pre later states (- 1) now w m)
       \<lparr>am_iRecMessageId := (if states = NORECORD then - 1 else rid)\<rparr>"

lemma FS_WriteInfoToAlarmLog_new_at:
  assumes "alarm_ready r b w"
  shows "\<exists>w'. FS_WriteInfoToAlarmLog event start stop cam pre later states (- 1) now w = Some (use_id b, w') \<and>
    alarm_ready r (ring_put (new_alarm event stop cam pre later states now (use_id r) w (current b)) b) w' \<and>
    par_standard w' = par_standard w \<and> par_size w' = par_size w \<and>
    logpos_disk (al_rec w') = logpos_disk (al_rec w) \<and> logpos_part (al_rec w') = logpos_part (al_rec w)"
proof -
  let ?d = "logpos_disk (al_rec w)" and ?p = "logpos_part (al_rec w)"
  let ?m = "new_alarm event stop cam pre later states now (use_id r) w (current b)"
  have r: "log_at MAXMESSAGENUMBER ?d ?p r (rec_lp (al_rec w))" "answers (rec_lp (al_rec w)) = []"
    and l: "log_at MAXMESSAGENUMBER ?d ?p b (alarm_lp w)" "answers (alarm_lp w) = []"
    using assms by (simp_all add: alarm_ready_def)
  have ok: "log_ok MAXMESSAGENUMBER b" using l(1) by (simp add: log_at_def)
  obtain l1 l2 where L: "log_get_pos MAXMESSAGENUMBER ?d ?p 0 (alarm_lp w) = Some (True, l1)" "use_info l1 = Some b"
      "log_get_pos MAXMESSAGENUMBER ?d ?p (use_id b) l1 = Some (True, l2)" "holding MAXMESSAGENUMBER ?d ?p b l2"
      "pFilePos l2 = use_id b" "lp_id l2 = use_id b" "only_log ?d ?p (alarm_lp w) l2" "cur_msg l2 = Some (current b)"
    using log_go_current [OF l] by blast
  have aL: "answers l2 = []" using L(7) l(2) by (rule only_log_answers)
  obtain l3 l4 where S: "set_msg ?m l2 = Some l3" "log_write_msg alarm_zero l3 = Some (ALLRIGHT, l4)"
      "holding MAXMESSAGENUMBER ?d ?p (b\<lparr>messages := (messages b)[nat (use_id b) := ?m]\<rparr>) l4" "only_log ?d ?p l2 l4"
      "use_info l4 = Some (b\<lparr>messages := (messages b)[nat (use_id b) := ?m]\<rparr>)"
    using log_store_current [OF L(4) aL L(5,6)] by blast
  have a4: "answers l4 = []" using S(4) aL by (rule only_log_answers)
  obtain l5 l6 where A: "set_use_id (next_id (b\<lparr>messages := (messages b)[nat (use_id b) := ?m]\<rparr>)) l4 = Some l5"
      "log_write_use l5 = Some (ALLRIGHT, l6)" "holding MAXMESSAGENUMBER ?d ?p (ring_put ?m b) l6" "only_log ?d ?p l4 l6"
    using log_move_on [OF S(3) a4] by blast
  let ?e = "alarm_entry event stop cam pre later states (- 1) now w (current b)"
  have "\<exists>rec1. (if am_states ?e = NORECORD then Some (- 1, al_rec w) else FS_GetRecMsgCurrentId (al_rec w)) =
      Some (if states = NORECORD then - 1 else use_id r, rec1) \<and>
      log_at MAXMESSAGENUMBER ?d ?p r (rec_lp rec1) \<and> answers (rec_lp rec1) = [] \<and>
      logpos_disk rec1 = ?d \<and> logpos_part rec1 = ?p"
    using FS_GetRecMsgCurrentId_at [OF r] r holding_log_at by (fastforce simp: alarm_entry_def)
  then obtain rec1 where R: "(if am_states ?e = NORECORD then Some (- 1, al_rec w) else FS_GetRecMsgCurrentId (al_rec w)) =
      Some (if states = NORECORD then - 1 else use_id r, rec1)"
      "log_at MAXMESSAGENUMBER ?d ?p r (rec_lp rec1)" "answers (rec_lp rec1) = []"
      "logpos_disk rec1 = ?d" "logpos_part rec1 = ?p" by blast
  have "FS_WriteInfoToAlarmLog event start stop cam pre later states (- 1) now w =
      Some (use_id b, w\<lparr>al_rec := rec1, alarm_lp := l6\<rparr>)"
    using L(1-3,8) S(1,2,5) A(1,2) R(1) log_ok_ids [OF ok]
    by (simp add: FS_WriteInfoToAlarmLog_def alarm_log_defs Let_def rel_codes new_alarm_def split del: if_split)
  then show ?thesis
    using A(3) holding_log_at [OF A(3)] only_log_answers [OF A(4) a4] R(2-5) by (simp add: alarm_ready_def)
qed

lemma FS_WriteEndInfotoAlarmLog_at:
  assumes "alarm_ready r b w" and "0 \<le> i" and "i < use_total b"
  shows "\<exists>w'. FS_WriteEndInfotoAlarmLog i t w = Some (ALLRIGHT, w') \<and>
    alarm_ready r (b\<lparr>messages := (messages b)[nat i := (messages b ! nat i)\<lparr>am_alarmEndTime := t\<rparr>]\<rparr>) w' \<and>
    logpos_disk (al_rec w') = logpos_disk (al_rec w) \<and> logpos_part (al_rec w') = logpos_part (al_rec w)"
proof -
  let ?d = "logpos_disk (al_rec w)" and ?p = "logpos_part (al_rec w)"
  have l: "log_at MAXMESSAGENUMBER ?d ?p b (alarm_lp w)" "answers (alarm_lp w) = []"
    using assms by (simp_all add: alarm_ready_def)
  obtain l1 where L: "log_get_pos MAXMESSAGENUMBER ?d ?p i (alarm_lp w) = Some (True, l1)"
      "holding MAXMESSAGENUMBER ?d ?p b l1" "pFilePos l1 = i" "lp_id l1 = i" "only_log ?d ?p (alarm_lp w) l1"
    using log_get_pos_at [OF l assms(2,3)] by blast
  have a1: "answers l1 = []" using L(5) l(2) by (rule only_log_answers)
  have c: "cur_msg l1 = Some (messages b ! nat i)"
    using cur_msg_holding [OF L(2)] L(3) assms(2,3) by simp
  obtain l2 l3 where "set_msg ((messages b ! nat i)\<lparr>am_alarmEndTime := t\<rparr>) l1 = Some l2"
      "log_write_msg alarm_zero l2 = Some (ALLRIGHT, l3)"
      "holding MAXMESSAGENUMBER ?d ?p (b\<lparr>messages := (messages b)[nat i := (messages b ! nat i)\<lparr>am_alarmEndTime := t\<rparr>]\<rparr>) l3"
      "only_log ?d ?p l1 l3"
    using log_store_msg [OF L(2) a1] L(3,4) assms(2,3) by metis
  then show ?thesis
    using L(1) c holding_log_at only_log_answers a1 assms(1)
    by (fastforce simp: FS_WriteEndInfotoAlarmLog_def alarm_log_defs rel_codes alarm_ready_def)
qed

text \<open>An alarm: its event, channels, preview and later time, state, start and end.\<close>

definition alarm_of :: "alarm_message \<Rightarrow> record_event \<times> int \<times> int \<times> int \<times> int \<times> int \<times> int \<times> int" where
  "alarm_of m = (am_event m, am_iCam m, am_iPreviewTime m, am_iLaterTime m, am_states m, am_alarmStartTime m,
     am_alarmEndTime m, am_iRecMessageId m)"

text \<open>An alarm that is logged and, under the id the logging returned, ended, becomes the newest
  entry of the alarm log with its start (the system time), its end and the recording in progress;
  the older entries move up by one and the oldest is dropped.\<close>

theorem alarm_logged_and_ended:
  assumes "alarm_ready r b w"
  shows "\<exists>i w1 w2 b'. FS_WriteInfoToAlarmLog event start stop cam pre later states (- 1) now w = Some (i, w1) \<and>
    FS_WriteEndInfotoAlarmLog i t w1 = Some (ALLRIGHT, w2) \<and> alarm_ready r b' w2 \<and>
    map alarm_of (recent b') = tl (map alarm_of (recent b)) @
      [(event, cam, pre, later, states, now, t, if states = NORECORD then - 1 else use_id r)]"
proof -
  have ok: "log_ok MAXMESSAGENUMBER b" using assms by (simp add: alarm_ready_def log_at_def)
  let ?m = "new_alarm event stop cam pre later states now (use_id r) w (current b)"
  let ?b = "ring_put ?m b"
  obtain w1 where 1: "FS_WriteInfoToAlarmLog event start stop cam pre later states (- 1) now w = Some (use_id b, w1)"
      "alarm_ready r ?b w1"
    using FS_WriteInfoToAlarmLog_new_at [OF assms] by blast
  have ok': "log_ok MAXMESSAGENUMBER ?b" using ok by (rule log_ok_ring_put)
  have i: "0 \<le> use_id b" "use_id b < use_total ?b" using log_ok_ids [OF ok] by (simp_all add: ring_put_def)
  have e: "messages ?b ! nat (use_id b) = ?m"
    using ok by (auto simp: ring_put_def log_ok_def)
  let ?b' = "?b\<lparr>messages := (messages ?b)[nat (use_id b) := ?m\<lparr>am_alarmEndTime := t\<rparr>]\<rparr>"
  obtain w2 where 2: "FS_WriteEndInfotoAlarmLog (use_id b) t w1 = Some (ALLRIGHT, w2)" "alarm_ready r ?b' w2"
    using FS_WriteEndInfotoAlarmLog_at [OF 1(2) i, of t] e by auto
  have "recent ?b' = butlast (recent ?b) @ [?m\<lparr>am_alarmEndTime := t\<rparr>]"
    using recent_last(2) [OF ok', of "?m\<lparr>am_alarmEndTime := t\<rparr>"] by (simp add: prev_id_ring_put [OF ok])
  then have "map alarm_of (recent ?b') = tl (map alarm_of (recent b)) @
      [(event, cam, pre, later, states, now, t, if states = NORECORD then - 1 else use_id r)]"
    by (simp add: recent_ring_put [OF ok] map_tl alarm_of_def new_alarm_def alarm_entry_def)
  with 1(1) 2 show ?thesis by blast
qed

definition alarms_start :: alarms where
  "alarms_start = \<lparr>alarm_lp = fresh_point MAXMESSAGENUMBER alarm_zero 999, g_AlarmMessageId = - 1,
     par_standard = 0, par_size = 0, al_rec = recorder_start 4\<rparr>"

lemma alarm_ready_start:
  "alarm_ready (full_log MAXMESSAGENUMBER record_zero 4) (full_log MAXMESSAGENUMBER alarm_zero 999) alarms_start"
  by (simp add: alarm_ready_def alarms_start_def log_at_fresh MAXMESSAGENUMBER_def)

lemma alarm_logged_and_ended_witness:
  "\<exists>i w1 w2 b'. FS_WriteInfoToAlarmLog (1, 0, 0) 0 0 2 10 20 1 (- 1) 500 alarms_start = Some (i, w1) \<and>
    FS_WriteEndInfotoAlarmLog i 600 w1 = Some (ALLRIGHT, w2) \<and>
    alarm_ready (full_log MAXMESSAGENUMBER record_zero 4) b' w2 \<and>
    map alarm_of (recent b') = tl (map alarm_of (recent (full_log MAXMESSAGENUMBER alarm_zero 999))) @
      [((1, 0, 0), 2, 10, 20, 1, 500, 600, if (1 :: int) = NORECORD then - 1
        else use_id (full_log MAXMESSAGENUMBER record_zero 4))]"
  by (rule alarm_logged_and_ended [OF alarm_ready_start])

section \<open>Events\<close>

lemmas event_log_defs = FS_GetPosEventMessage_def EventMessageWriteToFile_def EventMessageUseInfoWriteToFile_def

lemma FS_WriteInfoToEventLog_at:
  assumes "log_at EVENTMAXMESSAGE 0 5 b lp" and "answers lp = []"
    and "pEvent = None \<or> eventStartTime \<noteq> None \<and> iCam \<noteq> None"
  shows "\<exists>lp'. FS_WriteInfoToEventLog iCam eventStartTime pEvent st reason now lp = Some (use_id b, lp') \<and>
    answers lp' = [] \<and>
    holding EVENTMAXMESSAGE 0 5 (ring_put (event_entry iCam eventStartTime pEvent st reason now (current b)) b) lp'"
proof -
  let ?m = "event_entry iCam eventStartTime pEvent st reason now (current b)"
  have ok: "log_ok EVENTMAXMESSAGE b" using assms(1) by (simp add: log_at_def)
  obtain l1 l2 where L: "log_get_pos EVENTMAXMESSAGE 0 5 0 lp = Some (True, l1)" "use_info l1 = Some b"
      "log_get_pos EVENTMAXMESSAGE 0 5 (use_id b) l1 = Some (True, l2)" "holding EVENTMAXMESSAGE 0 5 b l2"
      "pFilePos l2 = use_id b" "lp_id l2 = use_id b" "only_log 0 5 lp l2" "cur_msg l2 = Some (current b)"
    using log_go_current [OF assms(1,2)] by blast
  have aL: "answers l2 = []" using L(7) assms(2) by (rule only_log_answers)
  obtain l3 l4 where S: "set_msg ?m l2 = Some l3" "log_write_msg event_zero l3 = Some (ALLRIGHT, l4)"
      "holding EVENTMAXMESSAGE 0 5 (b\<lparr>messages := (messages b)[nat (use_id b) := ?m]\<rparr>) l4" "only_log 0 5 l2 l4"
      "use_info l4 = Some (b\<lparr>messages := (messages b)[nat (use_id b) := ?m]\<rparr>)"
    using log_store_current [OF L(4) aL L(5,6)] by blast
  have a4: "answers l4 = []" using S(4) aL by (rule only_log_answers)
  obtain l5 l6 where A: "set_use_id (next_id (b\<lparr>messages := (messages b)[nat (use_id b) := ?m]\<rparr>)) l4 = Some l5"
      "log_write_use l5 = Some (ALLRIGHT, l6)" "holding EVENTMAXMESSAGE 0 5 (ring_put ?m b) l6" "only_log 0 5 l4 l6"
    using log_move_on [OF S(3) a4] by blast
  have "FS_WriteInfoToEventLog iCam eventStartTime pEvent st reason now lp = Some (use_id b, l6)"
    using L(1-3,8) S(1,2,5) A(1,2) assms(3)
    by (auto simp: FS_WriteInfoToEventLog_def event_log_defs rel_codes)
  then show ?thesis using A(3) only_log_answers [OF A(4) a4] by blast
qed

text \<open>An event: channels, time, cause, kind and text.\<close>

type_synonym event = "int \<times> int \<times> record_event \<times> event_state \<times> byte list"

definition event_of :: "event_message \<Rightarrow> event" where
  "event_of m = (em_iCam m, em_EventStartTime m, em_event m, em_CurrentEvent m, takeWhile (\<lambda>c. c \<noteq> 0) (em_EventInfo m))"

definition put_event :: "event \<Rightarrow> event_message mlog \<Rightarrow> event_message mlog" where
  "put_event e b = (case e of (cam, t, ev, st, info) \<Rightarrow>
     ring_put (event_entry (Some cam) (Some t) (Some ev) st (Some info) 0 (current b)) b)"

fun log_events :: "event list \<Rightarrow> int \<Rightarrow> event_message log_point \<Rightarrow> (int \<times> event_message log_point) option" where
  "log_events [] now lp = Some (ALLRIGHT, lp)"
| "log_events ((cam, t, ev, st, info) # es) now lp = do {
     (rel, lp1) \<leftarrow> FS_WriteInfoToEventLog (Some cam) (Some t) (Some ev) st (Some info) now lp;
     if rel < 0 then Some (rel, lp1) else log_events es now lp1
   }"

definition text_fits :: "event \<Rightarrow> bool" where
  "text_fits e \<longleftrightarrow> (case e of (cam, t, ev, st, info) \<Rightarrow> length info < 30 \<and> 0 \<notin> set info)"

lemma event_of_entry: "text_fits (cam, t, ev, st, info) \<Longrightarrow>
    event_of (event_entry (Some cam) (Some t) (Some ev) st (Some info) now m) = (cam, t, ev, st, info)"
  by (auto simp: text_fits_def event_of_def event_entry_def takeWhile_append)

lemma event_entry_now: "event_entry c (Some t) e st r now m = event_entry c (Some t) e st r now' m"
  by (simp add: event_entry_def)

lemma log_events_at:
  assumes "log_at EVENTMAXMESSAGE 0 5 b lp" and "answers lp = []"
  shows "\<exists>lp'. log_events es now lp = Some (ALLRIGHT, lp') \<and> log_at EVENTMAXMESSAGE 0 5 (fold put_event es b) lp'"
  using assms
proof (induction es arbitrary: b lp)
  case (Cons e es)
  obtain cam t ev st info where e: "e = (cam, t, ev, st, info)" by (cases e) auto
  obtain lp1 where 1: "FS_WriteInfoToEventLog (Some cam) (Some t) (Some ev) st (Some info) now lp = Some (use_id b, lp1)"
      "answers lp1 = []" "holding EVENTMAXMESSAGE 0 5 (put_event e b) lp1"
    using FS_WriteInfoToEventLog_at [OF Cons.prems, of "Some ev" "Some t" "Some cam"]
      event_entry_now [of "Some cam" t "Some ev" st "Some info" now "current b" 0]
    by (fastforce simp: put_event_def e)
  have "0 \<le> use_id b" using Cons.prems(1) by (auto simp: log_at_def log_ok_def)
  then show ?case using Cons.IH [OF holding_log_at [OF 1(3)] 1(2)] 1(1) by (simp add: e)
qed simp

interpretation events: ring_log "log_ok maxnum" "\<lambda>b. map event_of (recent b)" put_event text_fits
proof
  fix b :: "event_message mlog" and e
  assume ok: "log_ok maxnum b"
  then show "log_ok maxnum (put_event e b)" by (cases e) (simp add: put_event_def log_ok_ring_put)
  show "map event_of (recent b) \<noteq> []" using recent_nonempty [OF ok] by simp
  assume "text_fits e"
  then show "map event_of (recent (put_event e b)) = tl (map event_of (recent b)) @ [e]"
    using ok by (cases e) (simp add: put_event_def recent_ring_put map_tl event_of_entry)
qed



text \<open>An event logged without cause, channels or text (or with one of 30 or more characters)
  shows those of the entry it overwrites.\<close>

theorem event_keeps_stale_fields:
  assumes "log_at EVENTMAXMESSAGE 0 5 b lp" and "answers lp = []"
  shows "\<exists>lp' b'. FS_WriteInfoToEventLog None (Some t) None st (Some (replicate 30 c)) now lp = Some (use_id b, lp') \<and>
    log_at EVENTMAXMESSAGE 0 5 b' lp' \<and> em_event (last (recent b')) = em_event (hd (recent b)) \<and>
    em_iCam (last (recent b')) = em_iCam (hd (recent b)) \<and>
    em_EventInfo (last (recent b')) = em_EventInfo (hd (recent b))"
proof -
  let ?m = "event_entry None (Some t) None st (Some (replicate 30 c)) now (current b)"
  have ok: "log_ok EVENTMAXMESSAGE b" using assms(1) by (simp add: log_at_def)
  obtain lp' where 1: "FS_WriteInfoToEventLog None (Some t) None st (Some (replicate 30 c)) now lp = Some (use_id b, lp')"
      "holding EVENTMAXMESSAGE 0 5 (ring_put ?m b) lp'"
    using FS_WriteInfoToEventLog_at [OF assms] by blast
  have "hd (recent b) = current b" using ok by (rule recent_hd)
  moreover have "last (recent (ring_put ?m b)) = ?m" by (simp add: recent_ring_put [OF ok])
  ultimately show ?thesis
    using 1(1) holding_log_at [OF 1(2)]
    by (intro exI [of _ lp'] exI [of _ "ring_put ?m b"]) (simp add: event_entry_def)
qed

lemma event_keeps_stale_fields_witness:
  "\<exists>lp' b'. FS_WriteInfoToEventLog None (Some 7) None POWER_ON (Some (replicate 30 65)) 500
      (fresh_point EVENTMAXMESSAGE event_zero 5) = Some (use_id (full_log EVENTMAXMESSAGE event_zero 5), lp') \<and>
    log_at EVENTMAXMESSAGE 0 5 b' lp' \<and>
    em_event (last (recent b')) = em_event (hd (recent (full_log EVENTMAXMESSAGE event_zero 5))) \<and>
    em_iCam (last (recent b')) = em_iCam (hd (recent (full_log EVENTMAXMESSAGE event_zero 5))) \<and>
    em_EventInfo (last (recent b')) = em_EventInfo (hd (recent (full_log EVENTMAXMESSAGE event_zero 5)))"
  by (rule event_keeps_stale_fields) (simp_all add: log_at_fresh EVENTMAXMESSAGE_def)

end
