(* ===== verification/File_Table.thy ===== *)
theory File_Table
  imports Alarm_Log Io_File
begin

text \<open>
  The table of the pre-allocated files of a partition, \<open>fileinfo.log\<close>, and the state of a disk,
  \<open>diskinfo.log\<close>: \<open>FSfileinfoop.c\<close> and \<open>FSdiskinfoop.c\<close> of \<open>src/FileSystem/filesystem\<close>, with the
  functions of \<open>FSfileoperate.c\<close> that create and clear them. A file table is a \<open>mlog\<close> of
  \<open>FILEINFO\<close>s whose use header has \<open>iCurFilePos\<close> and \<open>iTotalFileNumber\<close>. The callers work on a
  copy of one entry and the use header (\<open>FILEINFOLOGPOINT\<close>), which the writing functions put
  into the buffer and the file.
\<close>

section \<open>Data\<close>

datatype file_state = WRITING | WRITEOVER | NOWRITE | NOCREATE | PLAYING | BADFILE

text \<open>\<open>FILEINFO\<close>; \<open>fileName\<close> up to its end.\<close>

record file_entry =
  fi_name :: "byte list"
  StartTime :: int
  EndTime :: int
  fi_states :: file_state
  fi_ulOffSet :: u32
  fi_iDataEffect :: int
  iEnableReWrite :: int
  isCover :: int
  fi_VideoSize :: int
  fi_mode :: int

definition file_zero :: file_entry where
  "file_zero = \<lparr>fi_name = [], StartTime = 0, EndTime = 0, fi_states = WRITING, fi_ulOffSet = 0, fi_iDataEffect = 0,
     iEnableReWrite = 0, isCover = 0, fi_VideoSize = 0, fi_mode = 0\<rparr>"

type_synonym file_table = "file_entry log_point"

text \<open>
  The caller's \<open>FILEINFOLOGPOINT\<close>; its pointers point into itself. \<open>fp_cur\<close> and \<open>fp_total\<close> are
  the \<open>FILEUSEINFO\<close>.
\<close>

record file_point =
  fp_disk :: int
  fp_part :: int
  fp_pos :: int
  fp_info :: file_entry
  fp_cur :: int
  fp_total :: int

definition YES :: int where "YES = 1"
definition NO :: int where "NO = 0"
definition ENABLE :: int where "ENABLE = 1"
definition FILESEARCHERROR :: int where "FILESEARCHERROR = - 8"
definition FILESTATEERROR :: int where "FILESTATEERROR = - 11"
definition ALLDISKUSEOVER :: int where "ALLDISKUSEOVER = - 12"
definition ALLDISKNOTENABLETOWRITE :: int where "ALLDISKNOTENABLETOWRITE = - 17"
definition FILE_SIZE_ZERO_ERROR :: int where "FILE_SIZE_ZERO_ERROR = - 29"
definition NODISKERROR :: int where "NODISKERROR = - 2"
definition LARGE_DISK_PATITION_SIZE :: nat where "LARGE_DISK_PATITION_SIZE = 200"
definition MAXFILESIZE :: int where "MAXFILESIZE = 128 * 1024"
definition FILESIZE :: int where "FILESIZE = 128"

lemmas file_codes = YES_def NO_def ENABLE_def FILESEARCHERROR_def FILESTATEERROR_def ALLDISKUSEOVER_def
  ALLDISKNOTENABLETOWRITE_def FILE_SIZE_ZERO_ERROR_def NODISKERROR_def

text \<open>The entries the buffer has room for.\<close>

definition table_room :: nat where
  "table_room = LARGE_DISK_PATITION_SIZE * 1024 div 128"

section \<open>Loading\<close>

definition FS_InitFileInfoLogBuf :: "file_entry mlog option \<Rightarrow> file_table \<Rightarrow> int \<times> file_table" where
  "FS_InitFileInfoLogBuf = log_init"

definition FS_ReleaseFileInfoLogBuf :: "file_table \<Rightarrow> int \<times> file_table" where
  "FS_ReleaseFileInfoLogBuf = log_release"

definition FS_GetFileUseInfo :: "int \<Rightarrow> int \<Rightarrow> file_table \<Rightarrow> int \<times> (int \<times> int) \<times> file_table" where
  "FS_GetFileUseInfo disk part lp =
     (case log_fopen (disk, part) lp of
        (None, lp1) \<Rightarrow> (FILEERROR, (0, 0), lp1)
      | (Some f, lp1) \<Rightarrow>
          (case next_answer lp1 of
             (Complete, lp2) \<Rightarrow> (ALLRIGHT, (use_id f, use_total f), lp2)
           | (_, lp2) \<Rightarrow> (FILEERROR, (0, 0), lp2)))"

text \<open>
  The size test is unsigned. A number of entries that passes it only because the product has
  wrapped is outside the model (\<open>None\<close>): the buffer then holds a piece of the file that the
  later index tests do not fit.
\<close>

definition table_too_long :: "int \<Rightarrow> bool" where
  "table_too_long num \<longleftrightarrow> uint (8 + word_of_int num * 56 :: u32) > int (table_room * 56)"

definition FS_LoadFileInfoLog :: "int \<Rightarrow> int \<Rightarrow> file_table \<Rightarrow> (int \<times> file_table) option" where
  "FS_LoadFileInfoLog disk part lp =
     (case fileBuf lp of
        None \<Rightarrow> Some (NOENOUGHMEMORY, lp)
      | Some b \<Rightarrow>
          (let (rel, (cur, num), lp1) = FS_GetFileUseInfo disk part lp
           in if rel < 0 then Some (FILEERROR, lp1)
           else case log_fopen (disk, part) lp1 of
             (None, lp2) \<Rightarrow> Some (FILEERROR, lp2)
           | (Some f, lp2) \<Rightarrow>
               if table_too_long num then Some (FILEERROR, lp2)
               else if num < 0 \<or> int table_room < num then None
               else case next_answer lp2 of
                 (Refused, lp3) \<Rightarrow> Some (FILEERROR, lp3)
               | (Torn d, lp3) \<Rightarrow> Some (FILEERROR, lp3\<lparr>fileBuf := Some (overwritten d b)\<rparr>)
               | (Complete, lp3) \<Rightarrow>
                   let es = take (nat num) (messages f)
                   in Some (if length es < nat num
                            then (FILEERROR, lp3\<lparr>fileBuf := Some (overwritten (f\<lparr>messages := es\<rparr>) b)\<rparr>)
                            else (ALLRIGHT, lp3\<lparr>fileBuf := Some (f\<lparr>messages := es @ drop (nat num) (messages b)\<rparr>),
                                    pUseinfo := True, lp_id := cur, pFilePos := cur,
                                    iDiskId := disk, iPatitionId := part\<rparr>))))"

section \<open>Looking up and writing\<close>

definition is_video :: "file_entry \<Rightarrow> bool" where
  "is_video e \<longleftrightarrow> (case fi_name e of [] \<Rightarrow> False | c # _ \<Rightarrow> c = 118)"

definition FS_GetPosFileInfo :: "int \<Rightarrow> int \<Rightarrow> int \<Rightarrow> file_table \<Rightarrow> (file_point option \<times> file_table) option" where
  "FS_GetPosFileInfo disk part pos lp =
     (if fileBuf lp = None \<or> disk < 0 \<or> part < 5 then Some (None, lp)
      else let again = disk \<noteq> iDiskId lp \<or> part \<noteq> iPatitionId lp \<or> need_reload lp in do {
        (rel, lp1) \<leftarrow> (if again then FS_LoadFileInfoLog disk part lp else Some (ALLRIGHT, lp));
        if rel \<noteq> ALLRIGHT then Some (None, lp1)
        else let lp2 = (if again then lp1\<lparr>need_reload := False\<rparr> else lp1) in do {
          b \<leftarrow> use_info lp2;
          if pos \<ge> use_total b \<or> pos < 0 then Some (None, lp2)
          else let lp3 = lp2\<lparr>pFilePos := pos, lp_id := pos\<rparr> in do {
            e \<leftarrow> cur_msg lp3;
            Some (if is_video e
                  then Some \<lparr>fp_disk = iDiskId lp3, fp_part = iPatitionId lp3, fp_pos = pos, fp_info = e,
                         fp_cur = use_id b, fp_total = use_total b\<rparr>
                  else None, lp3)
          }
        }
      })"

text \<open>The log of the point, in the buffer.\<close>

definition with_log_of :: "file_point \<Rightarrow> file_table \<Rightarrow> (int \<times> file_table) option" where
  "with_log_of pt lp =
     (if fp_disk pt \<noteq> iDiskId lp \<or> fp_part pt \<noteq> iPatitionId lp
      then FS_LoadFileInfoLog (fp_disk pt) (fp_part pt) lp else Some (ALLRIGHT, lp))"

definition put_use :: "int \<times> int \<Rightarrow> int \<Rightarrow> int \<Rightarrow> file_entry mlog \<Rightarrow> file_table \<Rightarrow> file_table" where
  "put_use key cur num f lp = lp\<lparr>log_files := (log_files lp)(key \<mapsto> f\<lparr>use_id := cur, use_total := num\<rparr>)\<rparr>"

definition UseInfoWriteToFile :: "file_point \<Rightarrow> file_table \<Rightarrow> (int \<times> file_table) option" where
  "UseInfoWriteToFile pt lp = do {
     (rel, lp1) \<leftarrow> with_log_of pt lp;
     if rel \<noteq> ALLRIGHT then Some (ERROR, lp1)
     else do {
       b \<leftarrow> use_info lp1;
       let lp2 = lp1\<lparr>fileBuf := Some (b\<lparr>use_id := fp_cur pt, use_total := fp_total pt\<rparr>)\<rparr>;
       Some (case log_fopen (fp_disk pt, fp_part pt) lp2 of
          (None, lp3) \<Rightarrow> (FILEERROR, lp3)
        | (Some f, lp3) \<Rightarrow>
            (case next_answer lp3 of
               (Complete, lp4) \<Rightarrow> (ALLRIGHT, put_use (fp_disk pt, fp_part pt) (fp_cur pt) (fp_total pt) f lp4)
             | (Refused, lp4) \<Rightarrow> (ERROR, lp4)
             | (Torn d, lp4) \<Rightarrow> (ERROR, put_use (fp_disk pt, fp_part pt) (use_id d) (use_total d) f lp4)))
     }
   }"

definition put_info :: "int \<times> int \<Rightarrow> int \<Rightarrow> file_entry \<Rightarrow> file_entry mlog \<Rightarrow> file_table \<Rightarrow> file_table" where
  "put_info key pos e f lp = lp\<lparr>log_files := (log_files lp)(key \<mapsto> put_entry file_zero pos e f)\<rparr>"

definition FS_FileInfoWriteToFile :: "file_point \<Rightarrow> file_table \<Rightarrow> (int \<times> file_table) option" where
  "FS_FileInfoWriteToFile pt lp = do {
     (rel, lp1) \<leftarrow> with_log_of pt lp;
     if rel \<noteq> ALLRIGHT then Some (ERROR, lp1)
     else do {
       lp2 \<leftarrow> set_msg (fp_info pt) (lp1\<lparr>pFilePos := fp_pos pt\<rparr>);
       Some (if \<not> is_video (fp_info pt) then (ERROR, lp2)
        else case log_fopen (fp_disk pt, fp_part pt) lp2 of
          (None, lp3) \<Rightarrow> (FILEERROR, lp3)
        | (Some f, lp3) \<Rightarrow>
            (case next_answer lp3 of
               (Complete, lp4) \<Rightarrow> (ALLRIGHT, put_info (fp_disk pt, fp_part pt) (fp_pos pt) (fp_info pt) f lp4)
             | (Refused, lp4) \<Rightarrow> (ERROR, lp4)
             | (Torn d, lp4) \<Rightarrow> (ERROR, case messages d of [] \<Rightarrow> lp4
                  | e # _ \<Rightarrow> put_info (fp_disk pt, fp_part pt) (fp_pos pt) e f lp4)))
     }
   }"

section \<open>Walks over a table\<close>

text \<open>
  The first entry that \<open>hit\<close> selects among \<open>n\<close> from \<open>k\<close> on, and the number of those entries.
  \<open>None\<close> inside is the error of a failed lookup. The loops test against the use header of the
  last copy, which nothing changes meanwhile.
\<close>

fun search_entries :: "(file_entry \<Rightarrow> bool) \<Rightarrow> int \<Rightarrow> int \<Rightarrow> nat \<Rightarrow> int \<Rightarrow> file_table \<Rightarrow> (bool option \<times> file_table) option" where
  "search_entries hit d p 0 k lp = Some (Some False, lp)"
| "search_entries hit d p (Suc n) k lp = do {
     (pt, lp1) \<leftarrow> FS_GetPosFileInfo d p k lp;
     (case pt of
        None \<Rightarrow> Some (None, lp1)
      | Some q \<Rightarrow> if hit (fp_info q) then Some (Some True, lp1) else search_entries hit d p n (k + 1) lp1)
   }"

fun count_entries :: "(file_entry \<Rightarrow> bool) \<Rightarrow> int \<Rightarrow> int \<Rightarrow> nat \<Rightarrow> int \<Rightarrow> int \<Rightarrow> file_table \<Rightarrow> (int option \<times> file_table) option" where
  "count_entries hit d p 0 k c lp = Some (Some c, lp)"
| "count_entries hit d p (Suc n) k c lp = do {
     (pt, lp1) \<leftarrow> FS_GetPosFileInfo d p k lp;
     (case pt of
        None \<Rightarrow> Some (None, lp1)
      | Some q \<Rightarrow> count_entries hit d p n (k + 1) (if hit (fp_info q) then c + 1 else c) lp1)
   }"

text \<open>\<open>partitionID\<close> of a disk; its first element is the extended partition, which the loops skip.\<close>

fun FS_HaveFileToRecover :: "int \<Rightarrow> int list \<Rightarrow> file_table \<Rightarrow> (int \<times> file_table) option" where
  "FS_HaveFileToRecover d [] lp = Some (ERROR, lp)"
| "FS_HaveFileToRecover d (p # ps) lp = do {
     (pt, lp1) \<leftarrow> FS_GetPosFileInfo d p 0 lp;
     (case pt of
        None \<Rightarrow> Some (ERROR, lp1)
      | Some q \<Rightarrow> do {
          (found, lp2) \<leftarrow> search_entries (\<lambda>e. fi_states e = WRITEOVER) d p (nat (fp_total q)) 0 lp1;
          (case found of
             None \<Rightarrow> Some (ERROR, lp2)
           | Some True \<Rightarrow> Some (ALLRIGHT, lp2)
           | Some False \<Rightarrow> FS_HaveFileToRecover d ps lp2)
        })
   }"

text \<open>The number of entries in the partitions \<open>ps\<close>, and of those that \<open>hit\<close> selects.\<close>

fun count_partitions :: "(file_entry \<Rightarrow> bool) \<Rightarrow> int \<Rightarrow> int list \<Rightarrow> int \<Rightarrow> int \<Rightarrow> file_table \<Rightarrow>
    ((int \<times> int) option \<times> file_table) option" where
  "count_partitions hit d [] used all lp = Some (Some (used, all), lp)"
| "count_partitions hit d (p # ps) used all lp = do {
     (pt, lp1) \<leftarrow> FS_GetPosFileInfo d p 0 lp;
     (case pt of
        None \<Rightarrow> Some (None, lp1)
      | Some q \<Rightarrow> do {
          (c, lp2) \<leftarrow> count_entries hit d p (nat (fp_total q)) 0 used lp1;
          (case c of
             None \<Rightarrow> Some (None, lp2)
           | Some used' \<Rightarrow> count_partitions hit d ps used' (all + int (nat (fp_total q))) lp2)
        })
   }"

section \<open>The state of a disk\<close>

record disk_state =
  iEnableCover :: int
  IsCover :: int
  iCapacity :: int
  iCoverCapacity :: int
  iUseCapacity :: int
  IsRecording :: int
  iPartitionId :: int
  iAllfileCreate :: int

text \<open>
  The \<open>diskinfo.log\<close> of each disk: the \<open>DISKCURRENTSTATE\<close> behind the \<open>GST_DISKINFO\<close>, or
  \<open>Some None\<close> for a file that ends before it. The answers to \<open>fopen\<close>, \<open>fread\<close> and \<open>fwrite\<close> are
  as for the logs; \<open>Part st\<close> is a transfer that stopped part way and left \<open>st\<close>.
\<close>

datatype state_answer = Done | Denied | Part disk_state

record disk_log =
  state_files :: "int \<Rightarrow> disk_state option option"
  state_answers :: "state_answer list"

definition next_state_answer :: "disk_log \<Rightarrow> state_answer \<times> disk_log" where
  "next_state_answer dl =
     (case state_answers dl of [] \<Rightarrow> (Done, dl) | a # as \<Rightarrow> (a, dl\<lparr>state_answers := as\<rparr>))"

definition state_fopen :: "int \<Rightarrow> disk_log \<Rightarrow> disk_state option option \<times> disk_log" where
  "state_fopen d dl = (let (a, dl1) = next_state_answer dl in (case a of Done \<Rightarrow> state_files dl1 d | _ \<Rightarrow> None, dl1))"

text \<open>
  \<open>st\<close> is the caller's variable. When the file cannot be opened both functions return the number
  of the disk and leave the variable as it is.
\<close>

definition FS_GetDiskCurrentState :: "int \<Rightarrow> disk_state \<Rightarrow> disk_log \<Rightarrow> int \<times> disk_state \<times> disk_log" where
  "FS_GetDiskCurrentState d st dl =
     (case state_fopen d dl of
        (None, dl1) \<Rightarrow> (d, st, dl1)
      | (Some f, dl1) \<Rightarrow>
          (case (next_state_answer dl1, f) of
             ((Done, dl2), Some st') \<Rightarrow> (ALLRIGHT, st', dl2)
           | ((Part st', dl2), _) \<Rightarrow> (FILEERROR, st', dl2)
           | ((_, dl2), _) \<Rightarrow> (FILEERROR, st, dl2)))"

definition FS_WriteDiskCurrentState :: "int \<Rightarrow> disk_state \<Rightarrow> disk_log \<Rightarrow> int \<times> disk_log" where
  "FS_WriteDiskCurrentState d st dl =
     (case state_fopen d dl of
        (None, dl1) \<Rightarrow> (d, dl1)
      | (Some f, dl1) \<Rightarrow>
          (case next_state_answer dl1 of
             (Done, dl2) \<Rightarrow> (ALLRIGHT, dl2\<lparr>state_files := (state_files dl2)(d \<mapsto> Some st)\<rparr>)
           | (Part st', dl2) \<Rightarrow> (FILEERROR, dl2\<lparr>state_files := (state_files dl2)(d \<mapsto> Some st')\<rparr>)
           | (Denied, dl2) \<Rightarrow> (FILEERROR, dl2)))"

text \<open>\<open>disks\<close> is the number of disks found, \<open>bytes\<close> the size of disk \<open>d\<close>.\<close>

definition new_disk_state :: "int \<Rightarrow> disk_state" where
  "new_disk_state bytes = \<lparr>iEnableCover = ENABLE, IsCover = NO, iCapacity = bytes div (1024 * 1024), iCoverCapacity = 0,
     iUseCapacity = 0, IsRecording = NO, iPartitionId = 5, iAllfileCreate = NO\<rparr>"

definition FS_CreateDiskInfoLog :: "int \<Rightarrow> int \<Rightarrow> int \<Rightarrow> disk_log \<Rightarrow> int \<times> disk_log" where
  "FS_CreateDiskInfoLog disks d bytes dl =
     (if disks = 0 then (NODISKERROR, dl)
      else case next_state_answer dl of
        (Done, dl1) \<Rightarrow>
          let dl2 = dl1\<lparr>state_files := (state_files dl1)(d \<mapsto> None)\<rparr>
          in (case next_state_answer dl2 of
                (Done, dl3) \<Rightarrow>
                  (case next_state_answer dl3 of
                     (Done, dl4) \<Rightarrow> (ALLRIGHT, dl4\<lparr>state_files := (state_files dl4)(d \<mapsto> Some (new_disk_state bytes))\<rparr>)
                   | (_, dl4) \<Rightarrow> (d, dl4))
              | (_, dl3) \<Rightarrow> (d, dl3))
      | (_, dl1) \<Rightarrow> (d, dl1))"

text \<open>
  The shares of a disk. \<open>ok\<close> is \<open>g_iDiskIsRightFormat\<close> of the disk, \<open>ps\<close> its \<open>partitionID\<close>,
  \<open>st0\<close> the uninitialised \<open>stDiskState\<close>. The quotient of \<open>div_safe\<close> is cut after a division of
  floats; for the numbers of files of a disk it is the integer quotient.
\<close>

definition div_safe :: "int \<Rightarrow> int \<Rightarrow> int" where
  "div_safe a b = (if b = 0 then - 1 else a div b)"

definition FS_get_disk_remain_rate :: "bool \<Rightarrow> int list \<Rightarrow> disk_state \<Rightarrow> int \<Rightarrow> disk_log \<Rightarrow> file_table \<Rightarrow>
    (int \<times> disk_log \<times> file_table) option" where
  "FS_get_disk_remain_rate ok ps st0 d dl lp =
     (if \<not> ok then Some (FILEERROR, dl, lp)
      else let (rel, st, dl1) = FS_GetDiskCurrentState d st0 dl
      in if rel < 0 then Some (rel, dl1, lp)
      else if iCapacity st \<le> 0 then Some (FILEERROR, dl1, lp)
      else if IsCover st = YES then Some (0, dl1, lp)
      else do {
        (r, lp1) \<leftarrow> count_partitions (\<lambda>e. fi_iDataEffect e = EFFECT \<and> fi_states e = WRITEOVER) d (drop 1 ps) 0 0 lp;
        Some (case r of
            None \<Rightarrow> (ERROR, dl1, lp1)
          | Some (used, all) \<Rightarrow> (div_safe ((all - used) * 100) all, dl1, lp1))
      })"

text \<open>The loop reads the header of the partition in use in every round.\<close>

fun cover_loop :: "int \<Rightarrow> int \<Rightarrow> int list \<Rightarrow> int \<Rightarrow> int \<Rightarrow> file_table \<Rightarrow> ((int \<times> int) option \<times> file_table) option" where
  "cover_loop d cur [] used all lp = Some (Some (used, all), lp)"
| "cover_loop d cur (p # ps) used all lp = do {
     (pt, lp1) \<leftarrow> FS_GetPosFileInfo d cur 0 lp;
     (case pt of
        None \<Rightarrow> Some (None, lp1)
      | Some q \<Rightarrow> cover_loop d cur ps
          (if p < cur then used + fp_total q else if p = cur then used + fp_cur q + 1 else used) (all + fp_total q) lp1)
   }"

text \<open>The division by \<open>iAllFile = 0\<close> ends the program; C divides towards zero.\<close>

definition FS_get_cover_rate :: "bool \<Rightarrow> int list \<Rightarrow> disk_state \<Rightarrow> int \<Rightarrow> disk_log \<Rightarrow> file_table \<Rightarrow>
    (int \<times> disk_log \<times> file_table) option" where
  "FS_get_cover_rate ok ps st0 d dl lp =
     (if \<not> ok then Some (FILEERROR, dl, lp)
      else let (rel, st, dl1) = FS_GetDiskCurrentState d st0 dl
      in if rel < 0 then Some (rel, dl1, lp)
      else if iCapacity st \<le> 0 then Some (FILEERROR, dl1, lp)
      else if IsCover st \<noteq> YES then Some (0, dl1, lp)
      else do {
        (r, lp1) \<leftarrow> cover_loop d (iPartitionId st) (drop 1 ps) 0 0 lp;
        (case r of
           None \<Rightarrow> Some (ERROR, dl1, lp1)
         | Some (used, all) \<Rightarrow>
             if all = 0 then None
             else let rate = sgn (used * 100) * sgn all * (\<bar>used * 100\<bar> div \<bar>all\<bar>)
                  in Some (if rate = 0 \<and> used \<noteq> 0 then 1 else rate, dl1, lp1))
      })"

definition FS_GetBadBlockSize :: "bool \<Rightarrow> int list \<Rightarrow> int \<Rightarrow> file_table \<Rightarrow> (int \<times> file_table) option" where
  "FS_GetBadBlockSize ok ps d lp =
     (if \<not> ok then Some (FILEERROR, lp)
      else do {
        (r, lp1) \<leftarrow> count_partitions (\<lambda>e. fi_states e = BADFILE) d (drop 1 ps) 0 0 lp;
        Some (case r of
            None \<Rightarrow> (ERROR, lp1)
          | Some (bad, all) \<Rightarrow>
              (if bad * FILESIZE \<ge> 1024 then bad * FILESIZE div 1024 + 1 else if bad * FILESIZE = 0 then 0 else 1, lp1))
      })"

section \<open>Creating and clearing a table\<close>

definition new_entry :: "nat \<Rightarrow> file_entry" where
  "new_entry k = file_zero\<lparr>fi_name := video_name k [], fi_states := NOWRITE, fi_iDataEffect := NOEFFECT,
     iEnableReWrite := YES\<rparr>"

text \<open>\<open>n\<close> entries are left; \<open>k\<close> is \<open>*iFileNumber\<close>.\<close>

fun create_files :: "nat \<Rightarrow> nat \<Rightarrow> int \<times> int \<Rightarrow> file_table \<Rightarrow> int \<times> nat \<times> file_table" where
  "create_files 0 k key lp = (ALLRIGHT, k, lp)"
| "create_files (Suc n) k key lp =
     (case next_answer lp of
        (Complete, lp1) \<Rightarrow> create_files n (Suc k) key (lp1\<lparr>log_files := (log_files lp1)
          (key := map_option (\<lambda>f. f\<lparr>messages := messages f @ [new_entry k]\<rparr>) (log_files lp1 key))\<rparr>)
      | (_, lp1) \<Rightarrow> (FILEERROR, k, lp1))"

text \<open>
  \<open>pid\<close> is \<open>id\<close>, the index of the partition in \<open>partitionID\<close>; only with \<open>id = 1\<close> the number of
  files is computed, from the size \<open>psize\<close> of the next partition \<open>nextp\<close> and from \<open>avail\<close>, the
  answer of \<open>disk_io_check_disk_size\<close>. \<open>dev\<close> are the partitions of the disk, \<open>inval\<close> and \<open>form\<close> the
  answers (descriptor and uninitialised \<open>ret\<close>) to the opens; \<open>fi0\<close> and \<open>now\<close> go to
  \<open>format_disk_to_io_sys\<close>. C divides \<open>long long\<close>s towards zero; partition sizes are not negative.
\<close>

definition file_group :: "int \<Rightarrow> int \<Rightarrow> int \<Rightarrow> int" where
  "file_group pid avail psize =
     (if pid = 1 \<and> \<not> (avail + 1) * 1024 * 1024 < psize then (psize - psize div 100) div MAXFILESIZE else 0) - 5"

definition FS_CreateFileInfoLog :: "int \<Rightarrow> int \<Rightarrow> int \<Rightarrow> int \<Rightarrow> int \<Rightarrow> int \<Rightarrow> int \<times> int \<Rightarrow> int \<times> int \<Rightarrow> file_info \<Rightarrow> (nat \<Rightarrow> tm) \<Rightarrow>
    nat \<Rightarrow> (int \<Rightarrow> blkdev) \<Rightarrow> file_table \<Rightarrow> int \<times> nat \<times> (int \<Rightarrow> blkdev) \<times> file_table" where
  "FS_CreateFileInfoLog d part pid nextp avail psize inval form fi0 now number dev lp =
     (let dev1 = (if pid = 1 \<and> (avail + 1) * 1024 * 1024 < psize
                  then dev(nextp := snd (set_disk_is_invalid (fst inval) (snd inval) (dev nextp))) else dev);
          n = file_group pid avail psize
      in case next_answer lp of
        (Complete, lp1) \<Rightarrow>
          let new = (\<lambda>f lp. lp\<lparr>log_files := (log_files lp)((d, part) := f)\<rparr>)
          in (case next_answer lp1 of
                (Complete, lp2) \<Rightarrow>
                  let (rel, number', lp3) = create_files (nat n) number (d, part)
                        (new (Some \<lparr>use_id = 0, use_total = n, messages = []\<rparr>) lp2)
                  in if rel \<noteq> ALLRIGHT then (rel, number', dev1, lp3)
                     else let (r, dev2) = format_disk_to_io_sys (fst form) (snd form) fi0 now (n * 128) (dev1 6)
                     in (if r < 0 then FILEERROR else ALLRIGHT, number', dev1(6 := dev2), lp3)
              | (Refused, lp2) \<Rightarrow> (FILEERROR, number, dev1, new (Some \<lparr>use_id = 0, use_total = 0, messages = []\<rparr>) lp2)
              | (Torn t, lp2) \<Rightarrow> (FILEERROR, number, dev1, new (Some (t\<lparr>messages := []\<rparr>)) lp2))
      | (_, lp1) \<Rightarrow> (FILEERROR, number, dev1, lp1))"

definition cleared_file :: "file_entry \<Rightarrow> file_entry" where
  "cleared_file e = e\<lparr>EndTime := 0, fi_iDataEffect := NOEFFECT, isCover := NO, StartTime := 0, fi_ulOffSet := 0,
     fi_states := (if fi_states e \<noteq> NOCREATE \<and> fi_states e \<noteq> BADFILE then NOWRITE else fi_states e)\<rparr>"

fun clear_files :: "int \<Rightarrow> int \<Rightarrow> nat \<Rightarrow> file_table \<Rightarrow> (int \<times> file_table) option" where
  "clear_files d p 0 lp = Some (ALLRIGHT, lp)"
| "clear_files d p (Suc k) lp = do {
     (pt, lp1) \<leftarrow> FS_GetPosFileInfo d p (int k) lp;
     (case pt of
        None \<Rightarrow> Some (ERROR, lp1)
      | Some q \<Rightarrow> do {
          (rel, lp2) \<leftarrow> FS_FileInfoWriteToFile (q\<lparr>fp_info := cleared_file (fp_info q)\<rparr>) lp1;
          if rel < 0 then Some (FILEERROR, lp2) else clear_files d p k lp2
        })
   }"

fun clear_tables :: "int \<Rightarrow> (int \<times> int) list \<Rightarrow> file_table \<Rightarrow> (int \<times> file_table) option" where
  "clear_tables disk [] lp = Some (ALLRIGHT, lp)"
| "clear_tables disk ((d, p) # ds) lp = do {
     (pt, lp1) \<leftarrow> FS_GetPosFileInfo d p 0 lp;
     (case pt of
        None \<Rightarrow> Some (ERROR, lp1)
      | Some q \<Rightarrow> do {
          (rel, lp2) \<leftarrow> (if disk = d then UseInfoWriteToFile (q\<lparr>fp_cur := 0\<rparr>) lp1 else Some (ALLRIGHT, lp1));
          if rel < 0 then Some (rel, lp2)
          else do {
            (rel, lp3) \<leftarrow> clear_files d p (nat (fp_total q)) lp2;
            if rel \<noteq> ALLRIGHT then Some (rel, lp3) else clear_tables disk ds lp3
          }
        })
   }"

definition FS_DelFileLosMessage :: "int list list \<Rightarrow> (int \<Rightarrow> bool) \<Rightarrow> int \<Rightarrow> file_table \<Rightarrow> (int \<times> file_table) option" where
  "FS_DelFileLosMessage partitions format_ok disk lp =
     (if disk \<ge> int (length partitions) \<or> disk < - 1 then Some (ERROR, lp)
      else clear_tables disk (visited partitions format_ok disk) lp)"

section \<open>The contract of a table\<close>

text \<open>
  \<open>at d p cur es s\<close>: in the state \<open>s\<close> the table of partition \<open>p\<close> of disk \<open>d\<close> has the entries \<open>es\<close> and
  its use header the position \<open>cur\<close>. Looking up, writing one entry and writing the position are
  total, do what they say to this table and nothing to another.
\<close>

definition entry_point :: "int \<Rightarrow> int \<Rightarrow> int \<Rightarrow> file_entry list \<Rightarrow> nat \<Rightarrow> file_point" where
  "entry_point d p cur es k = \<lparr>fp_disk = d, fp_part = p, fp_pos = int k, fp_info = es ! k, fp_cur = cur,
     fp_total = int (length es)\<rparr>"

lemma entry_point_simps [simp]:
  "fp_disk (entry_point d p cur es k) = d" "fp_part (entry_point d p cur es k) = p"
  "fp_pos (entry_point d p cur es k) = int k" "fp_info (entry_point d p cur es k) = es ! k"
  "fp_cur (entry_point d p cur es k) = cur" "fp_total (entry_point d p cur es k) = int (length es)"
  by (simp_all add: entry_point_def)

definition tables_kept :: "(int \<Rightarrow> int \<Rightarrow> int \<Rightarrow> file_entry list \<Rightarrow> 's \<Rightarrow> bool) \<Rightarrow> (int \<times> int) set \<Rightarrow> 's \<Rightarrow> 's \<Rightarrow> bool" where
  "tables_kept at K s s' \<longleftrightarrow> (\<forall>d p cur es. (d, p) \<notin> K \<longrightarrow> at d p cur es s \<longrightarrow> at d p cur es s')"

lemma tables_kept_refl [simp]: "tables_kept at K s s"
  by (simp add: tables_kept_def)

lemma tables_kept_trans [trans]: "tables_kept at K s s' \<Longrightarrow> tables_kept at K s' s'' \<Longrightarrow> tables_kept at K s s''"
  by (simp add: tables_kept_def)

lemma tables_keptD: "tables_kept at K s s' \<Longrightarrow> (d, p) \<notin> K \<Longrightarrow> at d p cur es s \<Longrightarrow> at d p cur es s'"
  by (simp add: tables_kept_def)

lemma tables_kept_mono: "tables_kept at K s s' \<Longrightarrow> K \<subseteq> L \<Longrightarrow> tables_kept at L s s'"
  by (auto simp: tables_kept_def)

locale entry_table =
  fixes at :: "int \<Rightarrow> int \<Rightarrow> int \<Rightarrow> file_entry list \<Rightarrow> 's \<Rightarrow> bool"
    and get :: "int \<Rightarrow> int \<Rightarrow> int \<Rightarrow> 's \<Rightarrow> (file_point option \<times> 's) option"
    and put :: "file_point \<Rightarrow> 's \<Rightarrow> (int \<times> 's) option"
    and put_pos :: "file_point \<Rightarrow> 's \<Rightarrow> (int \<times> 's) option"
  assumes get_at: "at d p cur es s \<Longrightarrow> k < length es \<Longrightarrow> is_video (es ! k) \<Longrightarrow>
      \<exists>s'. get d p (int k) s = Some (Some (entry_point d p cur es k), s') \<and> tables_kept at {} s s'"
    and put_at: "at d p cur es s \<Longrightarrow> fp_disk pt = d \<Longrightarrow> fp_part pt = p \<Longrightarrow> fp_pos pt = int k \<Longrightarrow> k < length es \<Longrightarrow>
      is_video (fp_info pt) \<Longrightarrow>
      \<exists>s'. put pt s = Some (ALLRIGHT, s') \<and> at d p cur (es[k := fp_info pt]) s' \<and>
        tables_kept at {(d, p)} s s'"
    and put_pos_at: "at d p cur es s \<Longrightarrow> fp_disk pt = d \<Longrightarrow> fp_part pt = p \<Longrightarrow> fp_total pt = int (length es) \<Longrightarrow>
      \<exists>s'. put_pos pt s = Some (ALLRIGHT, s') \<and> at d p (fp_cur pt) es s' \<and>
        tables_kept at {(d, p)} s s'"
begin

text \<open>What was written is read, from any entry of any table.\<close>

lemma read_write:
  assumes a: "at d p cur es s" "at e q c fs s" and k: "k < length es" "is_video en"
    and same: "(e, q) = (d, p) \<longrightarrow> c = cur \<and> fs = es" and j: "j < length fs" "is_video (fs ! j)"
  shows "\<exists>s1 s2. put ((entry_point d p cur es k)\<lparr>fp_info := en\<rparr>) s = Some (ALLRIGHT, s1) \<and>
    get e q (int j) s1 = Some (Some (entry_point e q c (if (e, q) = (d, p) then es[k := en] else fs) j), s2) \<and>
    at d p cur (es[k := en]) s2 \<and> tables_kept at {(d, p)} s s2"
proof -
  let ?fs = "if (e, q) = (d, p) then es[k := en] else fs"
  obtain s1 where 1: "put ((entry_point d p cur es k)\<lparr>fp_info := en\<rparr>) s = Some (ALLRIGHT, s1)"
      "at d p cur (es[k := en]) s1" "tables_kept at {(d, p)} s s1"
    using put_at [OF a(1), of "(entry_point d p cur es k)\<lparr>fp_info := en\<rparr>" k] k by auto
  have "at e q c ?fs s1" using 1 same tables_keptD [OF 1(3) _ a(2)] by auto
  moreover have "j < length ?fs" "is_video (?fs ! j)" using same j k by (auto simp: nth_list_update)
  ultimately obtain s2 where 2: "get e q (int j) s1 = Some (Some (entry_point e q c ?fs j), s2)" "tables_kept at {} s1 s2"
    using get_at by blast
  then show ?thesis using 1 tables_keptD [OF 2(2) _ 1(2)] tables_kept_trans [OF 1(3) tables_kept_mono [OF 2(2)]] by auto
qed

end

section \<open>The tables of the code\<close>

text \<open>
  A table in its file; the buffer, when it is for this table and need not be reloaded, agrees with
  the file. The files answer in full.
\<close>

definition table_at :: "int \<Rightarrow> int \<Rightarrow> int \<Rightarrow> file_entry list \<Rightarrow> file_table \<Rightarrow> bool" where
  "table_at d p cur es lp \<longleftrightarrow> 0 \<le> d \<and> 5 \<le> p \<and> length es < table_room \<and> answers lp = [] \<and>
     log_files lp (d, p) = Some \<lparr>use_id = cur, use_total = int (length es), messages = es\<rparr> \<and>
     (\<exists>b. fileBuf lp = Some b \<and> length (messages b) = table_room \<and>
       (iDiskId lp = d \<and> iPatitionId lp = p \<longrightarrow> pUseinfo lp \<and>
         (\<not> need_reload lp \<longrightarrow> use_id b = cur \<and> use_total b = int (length es) \<and> take (length es) (messages b) = es)))"

lemma table_room_value: "table_room = 1600"
  by (simp add: table_room_def LARGE_DISK_PATITION_SIZE_def)

lemma table_fits: "n < table_room \<Longrightarrow> \<not> table_too_long (int n)"
proof -
  assume n: "n < table_room"
  have small: "unat (word_of_nat m :: u32) = m" if "m < 2 ^ 32" for m
    using that by (simp add: unsigned_of_nat take_bit_nat_eq_self)
  have "(8 + word_of_int (int n) * 56 :: u32) = word_of_nat (8 + n * 56)" by simp
  then have "unat (8 + word_of_int (int n) * 56 :: u32) = 8 + n * 56"
    using small [of "8 + n * 56"] n by (simp only: table_room_value) simp
  then have "uint (8 + word_of_int (int n) * 56 :: u32) = int (8 + n * 56)"
    by (simp only: uint_nat)
  then show ?thesis using n by (simp add: table_too_long_def table_room_value)
qed

lemma load_table:
  assumes "table_at d p cur es lp"
  shows "\<exists>b. FS_LoadFileInfoLog d p lp = Some (ALLRIGHT, lp\<lparr>fileBuf := Some b, pUseinfo := True, lp_id := cur, pFilePos := cur,
      iDiskId := d, iPatitionId := p\<rparr>) \<and> length (messages b) = table_room \<and> use_id b = cur \<and> use_total b = int (length es) \<and>
    take (length es) (messages b) = es"
  using assms table_fits [of "length es"]
  by (auto simp: table_at_def FS_LoadFileInfoLog_def FS_GetFileUseInfo_def rel_codes Let_def)

lemma table_at_other:
  assumes "table_at e q c fs lp" "log_files lp' (e, q) = log_files lp (e, q)" "answers lp' = answers lp"
    and "fileBuf lp' = Some b" "length (messages b) = table_room" "(iDiskId lp', iPatitionId lp') \<noteq> (e, q)"
  shows "table_at e q c fs lp'"
  using assms by (auto simp: table_at_def)

text \<open>The buffer is brought up to date, then the point is filled from it.\<close>

definition table_loaded :: "int \<Rightarrow> int \<Rightarrow> int \<Rightarrow> file_entry list \<Rightarrow> file_entry mlog \<Rightarrow> file_table \<Rightarrow> bool" where
  "table_loaded d p cur es b lp \<longleftrightarrow> fileBuf lp = Some b \<and> pUseinfo lp \<and> iDiskId lp = d \<and> iPatitionId lp = p \<and>
     \<not> need_reload lp \<and> length (messages b) = table_room \<and> use_id b = cur \<and> use_total b = int (length es) \<and>
     take (length es) (messages b) = es"

lemma point_of_loaded:
  assumes l: "table_loaded d p cur es b lp" and k: "k < length es" "length es < table_room" "is_video (es ! k)"
  shows "(do {
          b \<leftarrow> use_info lp;
          if int k \<ge> use_total b \<or> int k < 0 then Some (None, lp)
          else let lp3 = lp\<lparr>pFilePos := int k, lp_id := int k\<rparr> in do {
            e \<leftarrow> cur_msg lp3;
            Some (if is_video e
                  then Some \<lparr>fp_disk = iDiskId lp3, fp_part = iPatitionId lp3, fp_pos = int k, fp_info = e,
                         fp_cur = use_id b, fp_total = use_total b\<rparr>
                  else None, lp3)
          }
        }) = Some (Some (entry_point d p cur es k), lp\<lparr>pFilePos := int k, lp_id := int k\<rparr>)"
proof -
  have "messages b ! k = es ! k" using l k(1) unfolding table_loaded_def by (metis nth_take)
  then show ?thesis using l k by (simp add: table_loaded_def use_info_def cur_msg_def entry_point_def)
qed

lemma get_table:
  assumes t: "table_at d p cur es lp" and k: "k < length es" "is_video (es ! k)"
  shows "\<exists>b lp'. FS_GetPosFileInfo d p (int k) lp = Some (Some (entry_point d p cur es k), lp') \<and>
    table_loaded d p cur es b lp' \<and> log_files lp' = log_files lp \<and> answers lp' = answers lp"
proof -
  have c: "fileBuf lp \<noteq> None" "0 \<le> d" "5 \<le> p" "length es < table_room" using t by (auto simp: table_at_def)
  show ?thesis
  proof (cases "d \<noteq> iDiskId lp \<or> p \<noteq> iPatitionId lp \<or> need_reload lp")
    case True
    obtain b where b: "FS_LoadFileInfoLog d p lp = Some (ALLRIGHT, lp\<lparr>fileBuf := Some b, pUseinfo := True, lp_id := cur, pFilePos := cur,
      iDiskId := d, iPatitionId := p\<rparr>)" "length (messages b) = table_room" "use_id b = cur" "use_total b = int (length es)"
      "take (length es) (messages b) = es" using load_table [OF t] by blast
    let ?lp = "lp\<lparr>fileBuf := Some b, pUseinfo := True, lp_id := cur, pFilePos := cur, iDiskId := d, iPatitionId := p, need_reload := False\<rparr>"
    have l: "table_loaded d p cur es b ?lp" using b by (simp add: table_loaded_def)
    then have "FS_GetPosFileInfo d p (int k) lp = Some (Some (entry_point d p cur es k), ?lp\<lparr>pFilePos := int k, lp_id := int k\<rparr>)"
      using c True point_of_loaded [OF l k(1) c(4) k(2)] by (simp add: FS_GetPosFileInfo_def b(1))
    then show ?thesis using b by (intro exI [of _ b]) (simp add: table_loaded_def)
  next
    case False
    then obtain b where l: "table_loaded d p cur es b lp" using t by (auto simp: table_at_def table_loaded_def)
    then have "FS_GetPosFileInfo d p (int k) lp = Some (Some (entry_point d p cur es k), lp\<lparr>pFilePos := int k, lp_id := int k\<rparr>)"
      using c False point_of_loaded [OF l k(1) c(4) k(2)] by (simp add: FS_GetPosFileInfo_def)
    then show ?thesis using l by (intro exI [of _ b]) (simp add: table_loaded_def)
  qed
qed

lemma table_loaded_at:
  "table_loaded d p cur es b lp \<Longrightarrow> log_files lp (d, p) = Some \<lparr>use_id = cur, use_total = int (length es), messages = es\<rparr> \<Longrightarrow>
   0 \<le> d \<Longrightarrow> 5 \<le> p \<Longrightarrow> length es < table_room \<Longrightarrow> answers lp = [] \<Longrightarrow> table_at d p cur es lp"
  by (simp add: table_loaded_def table_at_def)

text \<open>The writing functions leave the buffer on the table of the point.\<close>

lemma with_log_at:
  assumes t: "table_at d p cur es lp" and pt: "fp_disk pt = d" "fp_part pt = p"
  shows "\<exists>lp'. with_log_of pt lp = Some (ALLRIGHT, lp') \<and> table_at d p cur es lp' \<and> iDiskId lp' = d \<and> iPatitionId lp' = p \<and>
    log_files lp' = log_files lp"
proof (cases "d = iDiskId lp \<and> p = iPatitionId lp")
  case True
  then show ?thesis using t pt by (simp add: with_log_of_def)
next
  case False
  obtain b where b: "FS_LoadFileInfoLog d p lp = Some (ALLRIGHT, lp\<lparr>fileBuf := Some b, pUseinfo := True, lp_id := cur, pFilePos := cur,
      iDiskId := d, iPatitionId := p\<rparr>)" "length (messages b) = table_room" "use_id b = cur" "use_total b = int (length es)"
      "take (length es) (messages b) = es" using load_table [OF t] by blast
  then show ?thesis using t pt False by (auto simp: with_log_of_def table_at_def)
qed

lemma put_table:
  assumes t: "table_at d p cur es lp" and pt: "fp_disk pt = d" "fp_part pt = p" "fp_pos pt = int k"
    and k: "k < length es" "is_video (fp_info pt)"
  shows "\<exists>lp'. FS_FileInfoWriteToFile pt lp = Some (ALLRIGHT, lp') \<and> table_at d p cur (es[k := fp_info pt]) lp' \<and>
    iDiskId lp' = d \<and> iPatitionId lp' = p \<and> (\<forall>key. key \<noteq> (d, p) \<longrightarrow> log_files lp' key = log_files lp key)"
proof -
  obtain lp1 where 1: "with_log_of pt lp = Some (ALLRIGHT, lp1)" "table_at d p cur es lp1" "iDiskId lp1 = d"
      "iPatitionId lp1 = p" "log_files lp1 = log_files lp" using with_log_at [OF t pt(1,2)] by blast
  obtain b where b: "fileBuf lp1 = Some b" "length (messages b) = table_room" "answers lp1 = []" "length es < table_room"
      "log_files lp1 (d, p) = Some \<lparr>use_id = cur, use_total = int (length es), messages = es\<rparr>" "0 \<le> d" "5 \<le> p" "pUseinfo lp1"
      "\<not> need_reload lp1 \<longrightarrow> use_id b = cur \<and> use_total b = int (length es) \<and> take (length es) (messages b) = es"
    using 1(2-4) by (auto simp: table_at_def)
  let ?e = "fp_info pt" and ?b = "b\<lparr>messages := (messages b)[k := fp_info pt]\<rparr>"
  have k': "k < table_room" using k(1) b(4) by simp
  have "set_msg ?e (lp1\<lparr>pFilePos := int k\<rparr>) = Some (lp1\<lparr>pFilePos := int k, fileBuf := Some ?b\<rparr>)"
    using b(1,2) k' by (simp add: set_msg_def)
  then have "FS_FileInfoWriteToFile pt lp = Some (ALLRIGHT, put_info (d, p) (int k) ?e
      \<lparr>use_id = cur, use_total = int (length es), messages = es\<rparr> (lp1\<lparr>pFilePos := int k, fileBuf := Some ?b\<rparr>))"
    using 1(1) b(3,5) pt k(2) by (simp add: FS_FileInfoWriteToFile_def)
  then show ?thesis using b 1 k(1)
    by (auto simp: put_info_def put_entry_def table_at_def take_update_swap)
qed

lemma put_pos_table:
  assumes t: "table_at d p cur es lp" and pt: "fp_disk pt = d" "fp_part pt = p" "fp_total pt = int (length es)"
  shows "\<exists>lp'. UseInfoWriteToFile pt lp = Some (ALLRIGHT, lp') \<and> table_at d p (fp_cur pt) es lp' \<and>
    iDiskId lp' = d \<and> iPatitionId lp' = p \<and> (\<forall>key. key \<noteq> (d, p) \<longrightarrow> log_files lp' key = log_files lp key)"
proof -
  obtain lp1 where 1: "with_log_of pt lp = Some (ALLRIGHT, lp1)" "table_at d p cur es lp1" "iDiskId lp1 = d"
      "iPatitionId lp1 = p" "log_files lp1 = log_files lp" using with_log_at [OF t pt(1,2)] by blast
  obtain b where b: "fileBuf lp1 = Some b" "length (messages b) = table_room" "answers lp1 = []" "length es < table_room"
      "log_files lp1 (d, p) = Some \<lparr>use_id = cur, use_total = int (length es), messages = es\<rparr>" "0 \<le> d" "5 \<le> p" "pUseinfo lp1"
      "\<not> need_reload lp1 \<longrightarrow> use_id b = cur \<and> use_total b = int (length es) \<and> take (length es) (messages b) = es"
    using 1(2-4) by (auto simp: table_at_def)
  have "UseInfoWriteToFile pt lp = Some (ALLRIGHT, put_use (d, p) (fp_cur pt) (int (length es))
      \<lparr>use_id = cur, use_total = int (length es), messages = es\<rparr>
      (lp1\<lparr>fileBuf := Some (b\<lparr>use_id := fp_cur pt, use_total := int (length es)\<rparr>)\<rparr>))"
    using 1(1) b pt by (simp add: UseInfoWriteToFile_def use_info_def)
  then show ?thesis using b 1 by (auto simp: put_use_def table_at_def)
qed

lemma table_kept:
  assumes "table_at d p cur es lp'" "iDiskId lp' = d" "iPatitionId lp' = p"
    and "\<forall>key. key \<noteq> (d, p) \<longrightarrow> log_files lp' key = log_files lp key" "answers lp = []"
  shows "tables_kept table_at {(d, p)} lp lp'"
  using assms by (auto simp: table_at_def tables_kept_def)

lemma table_at_unique: "table_at d p cur es lp \<Longrightarrow> table_at d p c fs lp \<Longrightarrow> c = cur \<and> fs = es"
  by (simp add: table_at_def)

lemma tables_kept_all:
  assumes "table_at d p cur es lp" "table_at d p cur es lp'" "tables_kept table_at {(d, p)} lp lp'"
  shows "tables_kept table_at {} lp lp'"
  unfolding tables_kept_def
proof (intro allI impI)
  fix e q c fs assume "table_at e q c fs lp"
  then show "table_at e q c fs lp'"
  proof (cases "(e, q) = (d, p)")
    case True
    then have "c = cur" "fs = es" using table_at_unique [OF assms(1), of c fs] \<open>table_at e q c fs lp\<close> by simp_all
    then show ?thesis using assms(2) True by simp
  next
    case False
    then show ?thesis using tables_keptD [OF assms(3) _ \<open>table_at e q c fs lp\<close>] by simp
  qed
qed

interpretation tables: entry_table table_at FS_GetPosFileInfo FS_FileInfoWriteToFile UseInfoWriteToFile
proof (unfold_locales, goal_cases)
  case (1 d p cur es s k)
  then obtain b s' where s': "FS_GetPosFileInfo d p (int k) s = Some (Some (entry_point d p cur es k), s')"
      "table_loaded d p cur es b s'" "log_files s' = log_files s" "answers s' = answers s"
    using get_table by blast
  have a: "table_at d p cur es s'"
    using 1(1) s' by (intro table_loaded_at [OF s'(2)]) (auto simp: table_at_def)
  then show ?case using s' tables_kept_all [OF 1(1) a] table_kept [OF a, of s] 1(1)
    by (auto simp: table_loaded_def table_at_def)
next
  case (2 d p cur es s pt k)
  then obtain s' where "FS_FileInfoWriteToFile pt s = Some (ALLRIGHT, s')" "table_at d p cur (es[k := fp_info pt]) s'"
    "iDiskId s' = d" "iPatitionId s' = p" "\<forall>key. key \<noteq> (d, p) \<longrightarrow> log_files s' key = log_files s key"
    using put_table by blast
  moreover have "answers s = []" using 2(1) by (simp add: table_at_def)
  ultimately show ?case using table_kept [of d p cur "es[k := fp_info pt]" s' s] by blast
next
  case (3 d p cur es s pt)
  then obtain s' where "UseInfoWriteToFile pt s = Some (ALLRIGHT, s')" "table_at d p (fp_cur pt) es s'"
    "iDiskId s' = d" "iPatitionId s' = p" "\<forall>key. key \<noteq> (d, p) \<longrightarrow> log_files s' key = log_files s key"
    using put_pos_table by blast
  moreover have "answers s = []" using 3(1) by (simp add: table_at_def)
  ultimately show ?case using table_kept [of d p "fp_cur pt" es s' s] by blast
qed


section \<open>Walks\<close>

lemma list_all_update: "list_all P xs \<Longrightarrow> P x \<Longrightarrow> list_all P (xs[n := x])"
  unfolding list_all_iff using set_update_subset_insert by fastforce

lemma count_entries_at:
  assumes "table_at d p cur es lp" "list_all is_video es" "n + k = length es"
  shows "\<exists>lp'. count_entries hit d p n (int k) c lp = Some (Some (c + int (length (filter hit (drop k es)))), lp') \<and>
    tables_kept table_at {} lp lp'"
  using assms
proof (induction n arbitrary: k c lp)
  case (Suc n)
  then have k: "k < length es" "is_video (es ! k)" by (auto simp: list_all_length)
  obtain lp1 where 1: "FS_GetPosFileInfo d p (int k) lp = Some (Some (entry_point d p cur es k), lp1)"
      "tables_kept table_at {} lp lp1" using tables.get_at [OF Suc.prems(1) k] by blast
  let ?c = "if hit (es ! k) then c + 1 else c"
  obtain lp2 where 2: "count_entries hit d p n (int (Suc k)) ?c lp1 =
        Some (Some (?c + int (length (filter hit (drop (Suc k) es)))), lp2)" "tables_kept table_at {} lp1 lp2"
    using Suc.IH [of lp1 "Suc k" ?c] tables_keptD [OF 1(2) _ Suc.prems(1)] Suc.prems by auto
  have k1: "int k + 1 = int (Suc k)" by simp
  show ?case using 1 2 tables_kept_trans [OF 1(2) 2(2)] k(1)
    by (auto simp: k1 Cons_nth_drop_Suc [symmetric] simp del: of_nat_Suc)
qed simp

lemma search_entries_at:
  assumes "table_at d p cur es lp" "list_all is_video es" "n + k = length es"
  shows "\<exists>lp'. search_entries hit d p n (int k) lp = Some (Some (\<exists>e \<in> set (drop k es). hit e), lp') \<and>
    tables_kept table_at {} lp lp'"
  using assms
proof (induction n arbitrary: k lp)
  case (Suc n)
  then have k: "k < length es" "is_video (es ! k)" by (auto simp: list_all_length)
  obtain lp1 where 1: "FS_GetPosFileInfo d p (int k) lp = Some (Some (entry_point d p cur es k), lp1)"
      "tables_kept table_at {} lp lp1" using tables.get_at [OF Suc.prems(1) k] by blast
  obtain lp2 where 2: "search_entries hit d p n (int (Suc k)) lp1 = Some (Some (\<exists>e \<in> set (drop (Suc k) es). hit e), lp2)"
      "tables_kept table_at {} lp1 lp2"
    using Suc.IH [of lp1 "Suc k"] tables_keptD [OF 1(2) _ Suc.prems(1)] Suc.prems by auto
  have k1: "int k + 1 = int (Suc k)" by simp
  show ?case using 1 2 tables_kept_trans [OF 1(2) 2(2)] k(1)
    by (cases "hit (es ! k)") (auto simp: k1 Cons_nth_drop_Suc [symmetric] simp del: of_nat_Suc)
qed simp

text \<open>Tables of several partitions, a non-empty one each.\<close>

definition tables_at :: "int \<Rightarrow> int list \<Rightarrow> (int \<Rightarrow> int) \<Rightarrow> (int \<Rightarrow> file_entry list) \<Rightarrow> file_table \<Rightarrow> bool" where
  "tables_at d ps cur tab lp \<longleftrightarrow> (\<forall>p \<in> set ps. table_at d p (cur p) (tab p) lp \<and> tab p \<noteq> [] \<and> list_all is_video (tab p))"

lemma tables_at_kept: "tables_at d ps cur tab lp \<Longrightarrow> tables_kept table_at {} lp lp' \<Longrightarrow> tables_at d ps cur tab lp'"
  by (auto simp: tables_at_def dest: tables_keptD)

lemma count_partitions_at:
  assumes "tables_at d ps cur tab lp"
  shows "\<exists>lp'. count_partitions hit d ps used all lp = Some (Some (used + int (length (filter hit (concat (map tab ps)))),
      all + int (length (concat (map tab ps)))), lp') \<and> tables_kept table_at {} lp lp'"
  using assms
proof (induction ps arbitrary: used all lp)
  case (Cons p ps)
  then have t: "table_at d p (cur p) (tab p) lp" "tab p \<noteq> []" "list_all is_video (tab p)" by (auto simp: tables_at_def)
  then have k: "0 < length (tab p)" "is_video (tab p ! 0)" by (auto simp: list_all_length)
  obtain lp1 where 1: "FS_GetPosFileInfo d p (int 0) lp = Some (Some (entry_point d p (cur p) (tab p) 0), lp1)"
      "tables_kept table_at {} lp lp1" using tables.get_at [OF t(1) k] by blast
  let ?u = "used + int (length (filter hit (tab p)))"
  obtain lp2 where 2: "count_entries hit d p (length (tab p)) 0 used lp1 = Some (Some ?u, lp2)" "tables_kept table_at {} lp1 lp2"
    using count_entries_at [OF tables_keptD [OF 1(2) _ t(1)] t(3), of "length (tab p)" 0 hit used] by auto
  have 3: "tables_kept table_at {} lp lp2" using tables_kept_trans [OF 1(2) 2(2)] .
  then have "tables_at d ps cur tab lp2" using tables_at_kept [OF _ 3] Cons.prems by (auto simp: tables_at_def)
  from Cons.IH [OF this, of ?u "all + int (length (tab p))"] show ?case
    using 1 2 tables_kept_trans [OF 3] by (auto simp: add.assoc)
qed simp

lemma FS_HaveFileToRecover_at:
  assumes "tables_at d ps cur tab lp"
  shows "\<exists>lp'. FS_HaveFileToRecover d ps lp =
      Some (if \<exists>p \<in> set ps. \<exists>e \<in> set (tab p). fi_states e = WRITEOVER then ALLRIGHT else ERROR, lp') \<and>
    tables_kept table_at {} lp lp'"
  using assms
proof (induction ps arbitrary: lp)
  case (Cons p ps)
  then have t: "table_at d p (cur p) (tab p) lp" "tab p \<noteq> []" "list_all is_video (tab p)" by (auto simp: tables_at_def)
  then have k: "0 < length (tab p)" "is_video (tab p ! 0)" by (auto simp: list_all_length)
  obtain lp1 where 1: "FS_GetPosFileInfo d p (int 0) lp = Some (Some (entry_point d p (cur p) (tab p) 0), lp1)"
      "tables_kept table_at {} lp lp1" using tables.get_at [OF t(1) k] by blast
  let ?f = "\<exists>e \<in> set (tab p). fi_states e = WRITEOVER"
  obtain lp2 where 2: "search_entries (\<lambda>e. fi_states e = WRITEOVER) d p (length (tab p)) 0 lp1 = Some (Some ?f, lp2)"
      "tables_kept table_at {} lp1 lp2"
    using search_entries_at [OF tables_keptD [OF 1(2) _ t(1)] t(3), of "length (tab p)" 0 "\<lambda>e. fi_states e = WRITEOVER"] by auto
  have 3: "tables_kept table_at {} lp lp2" using tables_kept_trans [OF 1(2) 2(2)] .
  then have "tables_at d ps cur tab lp2" using tables_at_kept [OF _ 3] Cons.prems by (auto simp: tables_at_def)
  from Cons.IH [OF this] obtain lp3 where "FS_HaveFileToRecover d ps lp2 =
      Some (if \<exists>p \<in> set ps. \<exists>e \<in> set (tab p). fi_states e = WRITEOVER then ALLRIGHT else ERROR, lp3)"
    "tables_kept table_at {} lp2 lp3" by blast
  then show ?case using 1 2 3 tables_kept_trans [OF 3] by (cases ?f) auto
qed simp

lemma clear_files_at:
  assumes "table_at d p cur es lp" "list_all is_video es" "n \<le> length es"
  shows "\<exists>lp'. clear_files d p n lp = Some (ALLRIGHT, lp') \<and>
    table_at d p cur (map cleared_file (take n es) @ drop n es) lp' \<and> tables_kept table_at {(d, p)} lp lp'"
  using assms
proof (induction n arbitrary: es lp)
  case (Suc n)
  then have k: "n < length es" "is_video (es ! n)" by (auto simp: list_all_length)
  then have v: "is_video (cleared_file (es ! n))" by (simp add: cleared_file_def is_video_def)
  obtain lp1 where 1: "FS_GetPosFileInfo d p (int n) lp = Some (Some (entry_point d p cur es n), lp1)"
      "tables_kept table_at {} lp lp1" using tables.get_at [OF Suc.prems(1) k] by blast
  let ?es = "es[n := cleared_file (es ! n)]"
  obtain lp2 where 2: "FS_FileInfoWriteToFile ((entry_point d p cur es n)\<lparr>fp_info := cleared_file (es ! n)\<rparr>) lp1 = Some (ALLRIGHT, lp2)"
      "table_at d p cur ?es lp2" "tables_kept table_at {(d, p)} lp1 lp2"
    using tables.put_at [OF tables_keptD [OF 1(2) _ Suc.prems(1)], of "(entry_point d p cur es n)\<lparr>fp_info := cleared_file (es ! n)\<rparr>" n]
      k(1) v by auto
  have "list_all is_video ?es" using Suc.prems(2) v by (rule list_all_update)
  then obtain lp3 where 3: "clear_files d p n lp2 = Some (ALLRIGHT, lp3)"
      "table_at d p cur (map cleared_file (take n ?es) @ drop n ?es) lp3" "tables_kept table_at {(d, p)} lp2 lp3"
    using Suc.IH [OF 2(2)] k(1) by auto
  have "map cleared_file (take n ?es) @ drop n ?es = map cleared_file (take (Suc n) es) @ drop (Suc n) es"
  proof -
    have "drop n ?es = cleared_file (es ! n) # drop (Suc n) es"
      using k(1) by (metis Cons_nth_drop_Suc drop_update_cancel length_list_update lessI nth_list_update_eq)
    then show ?thesis using k(1) by (simp add: take_Suc_conv_app_nth)
  qed
  then show ?case
    using 1 2 3 tables_kept_trans [OF tables_kept_trans [OF tables_kept_mono [OF 1(2)] 2(3)] 3(3)] by (auto simp: rel_codes)
qed simp


text \<open>Clearing the tables \<open>ds\<close> for \<open>disk\<close>; the position is reset on that disk only.\<close>

lemma clear_tables_at:
  assumes "distinct ds" "\<And>d p. (d, p) \<in> set ds \<Longrightarrow> table_at d p (cur d p) (tab d p) lp \<and> tab d p \<noteq> [] \<and> list_all is_video (tab d p)"
  shows "\<exists>lp'. clear_tables disk ds lp = Some (ALLRIGHT, lp') \<and>
    (\<forall>(d, p) \<in> set ds. table_at d p (if disk = d then 0 else cur d p) (map cleared_file (tab d p)) lp') \<and>
    tables_kept table_at (set ds) lp lp'"
  using assms
proof (induction ds arbitrary: lp)
  case (Cons k ds)
  obtain d p where k: "k = (d, p)" by (cases k)
  let ?es = "tab d p" and ?c = "if disk = d then 0 else cur d p"
  have t: "table_at d p (cur d p) ?es lp" "?es \<noteq> []" "list_all is_video ?es" using Cons.prems(2) [of d p] k by auto
  then have z: "0 < length ?es" "is_video (?es ! 0)" by (auto simp: list_all_length)
  obtain lp1 where 1: "FS_GetPosFileInfo d p (int 0) lp = Some (Some (entry_point d p (cur d p) ?es 0), lp1)"
      "tables_kept table_at {} lp lp1" using tables.get_at [OF t(1) z] by blast
  have t1: "table_at d p (cur d p) ?es lp1" using tables_keptD [OF 1(2) _ t(1)] by simp
  obtain lp2 where 2: "(if disk = d then UseInfoWriteToFile ((entry_point d p (cur d p) ?es 0)\<lparr>fp_cur := 0\<rparr>) lp1
        else Some (ALLRIGHT, lp1)) = Some (ALLRIGHT, lp2)" "table_at d p ?c ?es lp2" "tables_kept table_at {(d, p)} lp1 lp2"
    using tables.put_pos_at [OF t1, of "(entry_point d p (cur d p) ?es 0)\<lparr>fp_cur := 0\<rparr>"] t1 by (cases "disk = d") auto
  obtain lp3 where 3: "clear_files d p (length ?es) lp2 = Some (ALLRIGHT, lp3)" "table_at d p ?c (map cleared_file ?es) lp3"
      "tables_kept table_at {(d, p)} lp2 lp3"
    using clear_files_at [OF 2(2) t(3) order_refl] by auto
  have kept: "tables_kept table_at {(d, p)} lp lp3"
    using tables_kept_trans [OF tables_kept_trans [OF tables_kept_mono [OF 1(2)] 2(3)] 3(3)] by simp
  have "table_at e q (cur e q) (tab e q) lp3 \<and> tab e q \<noteq> [] \<and> list_all is_video (tab e q)" if "(e, q) \<in> set ds" for e q
  proof -
    have "(e, q) \<noteq> (d, p)" using that Cons.prems(1) k by auto
    then show ?thesis using tables_keptD [OF kept] Cons.prems(2) [of e q] that by auto
  qed
  then obtain lp4 where 4: "clear_tables disk ds lp3 = Some (ALLRIGHT, lp4)"
      "\<forall>(d, p) \<in> set ds. table_at d p (if disk = d then 0 else cur d p) (map cleared_file (tab d p)) lp4"
      "tables_kept table_at (set ds) lp3 lp4"
    using Cons.IH [of lp3] Cons.prems(1) by auto
  have "clear_tables disk (k # ds) lp = Some (ALLRIGHT, lp4)"
    using 1(1) 2(1) 3(1) 4(1) k by (auto simp: rel_codes)
  moreover have "table_at d p ?c (map cleared_file ?es) lp4"
    using tables_keptD [OF 4(3) _ 3(2)] Cons.prems(1) k by auto
  moreover have "tables_kept table_at (set (k # ds)) lp lp4"
    using tables_kept_trans [OF tables_kept_mono [OF kept] tables_kept_mono [OF 4(3)], of "set (k # ds)"] k by auto
  ultimately show ?case using 4(2) k by auto
qed simp


section \<open>Properties\<close>

text \<open>A table of two unused files.\<close>

definition demo_entries :: "file_entry list" where
  "demo_entries = [new_entry 0, new_entry 1]"

definition demo_table :: "file_entry list \<Rightarrow> int \<Rightarrow> file_table" where
  "demo_table es cur = \<lparr>iDiskId = 0, iPatitionId = 0, lp_id = 0, pUseinfo = False, pFilePos = 0,
     fileBuf = Some \<lparr>use_id = 0, use_total = 0, messages = replicate table_room file_zero\<rparr>, iFirst = False, need_reload = False,
     log_files = [(0, 5) \<mapsto> \<lparr>use_id = cur, use_total = int (length es), messages = es\<rparr>], answers = []\<rparr>"

lemma demo_table_at: "length es < table_room \<Longrightarrow> table_at 0 5 cur es (demo_table es cur)"
  by (simp add: table_at_def demo_table_def)

lemma new_entry_video [simp]: "is_video (new_entry k)"
  by (simp add: new_entry_def is_video_def video_name_def bytes_of_def)

lemma is_video_updates [simp]:
  "is_video (e\<lparr>StartTime := t\<rparr>) = is_video e" "is_video (e\<lparr>EndTime := t\<rparr>) = is_video e"
  "is_video (e\<lparr>fi_states := st\<rparr>) = is_video e" "is_video (e\<lparr>fi_ulOffSet := off\<rparr>) = is_video e"
  "is_video (e\<lparr>fi_iDataEffect := t\<rparr>) = is_video e" "is_video (e\<lparr>isCover := t\<rparr>) = is_video e"
  "is_video (e\<lparr>fi_VideoSize := t\<rparr>) = is_video e" "is_video (e\<lparr>fi_mode := t\<rparr>) = is_video e"
  by (simp_all add: is_video_def)

lemma demo_entries_simps [simp]:
  "length demo_entries = 2" "demo_entries ! 0 = new_entry 0" "demo_entries ! Suc 0 = new_entry 1" "list_all is_video demo_entries"
  "demo_entries \<noteq> []"
  by (simp_all add: demo_entries_def)

lemma demo_entries_at: "table_at 0 5 cur demo_entries (demo_table demo_entries cur)"
  by (rule demo_table_at) (simp add: table_room_value)

text \<open>When the files answer, an entry written through \<open>FS_FileInfoWriteToFile\<close> is what
  \<open>FS_GetPosFileInfo\<close> reads next, and every other entry of this table and of the tables of other
  partitions and disks is read as before.\<close>

theorem file_entry_read_back:
  assumes "table_at d p cur es lp" "table_at e q c fs lp" "k < length es" "is_video en" "(e, q) = (d, p) \<longrightarrow> c = cur \<and> fs = es"
    and "j < length fs" "is_video (fs ! j)"
  shows "\<exists>lp1 lp2. FS_FileInfoWriteToFile ((entry_point d p cur es k)\<lparr>fp_info := en\<rparr>) lp = Some (ALLRIGHT, lp1) \<and>
    FS_GetPosFileInfo e q (int j) lp1 = Some (Some (entry_point e q c (if (e, q) = (d, p) then es[k := en] else fs) j), lp2) \<and>
    table_at d p cur (es[k := en]) lp2 \<and> tables_kept table_at {(d, p)} lp lp2"
  by (rule tables.read_write [OF assms])

lemma file_entry_read_back_witness:
  "\<exists>lp1 lp2. FS_FileInfoWriteToFile ((entry_point 0 5 0 demo_entries 1)\<lparr>fp_info := (new_entry 1)\<lparr>fi_states := WRITING\<rparr>\<rparr>)
      (demo_table demo_entries 0) = Some (ALLRIGHT, lp1) \<and>
    FS_GetPosFileInfo 0 5 1 lp1 = Some (Some (entry_point 0 5 0 (demo_entries[1 := (new_entry 1)\<lparr>fi_states := WRITING\<rparr>]) 1), lp2)"
proof -
  show ?thesis
    using file_entry_read_back [OF demo_entries_at [of 0] demo_entries_at [of 0], of 1 "(new_entry 1)\<lparr>fi_states := WRITING\<rparr>" 1]
    by auto
qed

text \<open>A write that the disk refuses leaves the new entry in memory and the old one in the
  file: until the table is loaded again, the program reads an entry that a restart does not find.\<close>

theorem refused_entry_stays_in_memory:
  assumes "table_at d p cur es (lp\<lparr>answers := []\<rparr>)" "iDiskId lp = d" "iPatitionId lp = p" "\<not> need_reload lp"
    and "answers lp = [Complete, Refused]" "k < length es" "is_video en"
  shows "\<exists>lp1 lp2. FS_FileInfoWriteToFile ((entry_point d p cur es k)\<lparr>fp_info := en\<rparr>) lp = Some (ERROR, lp1) \<and>
    log_files lp1 = log_files lp \<and>
    FS_GetPosFileInfo d p (int k) lp1 = Some (Some ((entry_point d p cur es k)\<lparr>fp_info := en\<rparr>), lp2)"
proof -
  obtain b where l: "table_loaded d p cur es b lp" "length es < table_room" "0 \<le> d" "5 \<le> p"
      "log_files lp (d, p) = Some \<lparr>use_id = cur, use_total = int (length es), messages = es\<rparr>"
    using assms(1-4) by (auto simp: table_at_def table_loaded_def)
  let ?pt = "(entry_point d p cur es k)\<lparr>fp_info := en\<rparr>" and ?b = "b\<lparr>messages := (messages b)[k := en]\<rparr>"
  let ?lp = "lp\<lparr>pFilePos := int k, fileBuf := Some ?b, answers := []\<rparr>"
  have k: "k < length (messages b)" using assms(6) l by (simp add: table_loaded_def)
  have 1: "FS_FileInfoWriteToFile ?pt lp = Some (ERROR, ?lp)"
    using l assms k by (simp add: FS_FileInfoWriteToFile_def with_log_of_def set_msg_def log_fopen_def next_answer_def table_loaded_def)
  have "table_loaded d p cur (es[k := en]) ?b ?lp" using l assms(6) by (auto simp: table_loaded_def take_update_swap)
  from point_of_loaded [OF this, of k] have "FS_GetPosFileInfo d p (int k) ?lp =
      Some (Some (entry_point d p cur (es[k := en]) k), ?lp\<lparr>pFilePos := int k, lp_id := int k\<rparr>)"
    using l assms k by (simp add: FS_GetPosFileInfo_def table_loaded_def)
  then show ?thesis using 1 assms(6) by (auto simp: entry_point_def)
qed

lemma refused_entry_stays_in_memory_witness:
  "\<exists>lp lp1 lp2. log_files lp (0, 5) = Some \<lparr>use_id = 0, use_total = 2, messages = demo_entries\<rparr> \<and>
    FS_FileInfoWriteToFile ((entry_point 0 5 0 demo_entries 1)\<lparr>fp_info := (new_entry 1)\<lparr>fi_states := WRITING\<rparr>\<rparr>) lp = Some (ERROR, lp1) \<and>
    log_files lp1 = log_files lp \<and>
    FS_GetPosFileInfo 0 5 1 lp1 = Some (Some ((entry_point 0 5 0 demo_entries 1)\<lparr>fp_info := (new_entry 1)\<lparr>fi_states := WRITING\<rparr>\<rparr>), lp2)"
proof -
  let ?lp = "(demo_table demo_entries 0)\<lparr>iDiskId := 0, iPatitionId := 5, pUseinfo := True,
    fileBuf := Some \<lparr>use_id = 0, use_total = 2, messages = demo_entries @ replicate 1598 file_zero\<rparr>, answers := [Complete, Refused]\<rparr>"
  have t: "table_at 0 5 0 demo_entries (?lp\<lparr>answers := []\<rparr>)" by (simp add: table_at_def demo_table_def table_room_value)
  have "\<exists>lp1 lp2. FS_FileInfoWriteToFile ((entry_point 0 5 0 demo_entries 1)\<lparr>fp_info := (new_entry 1)\<lparr>fi_states := WRITING\<rparr>\<rparr>) ?lp = Some (ERROR, lp1) \<and>
    log_files lp1 = log_files ?lp \<and>
    FS_GetPosFileInfo 0 5 (int 1) lp1 = Some (Some ((entry_point 0 5 0 demo_entries 1)\<lparr>fp_info := (new_entry 1)\<lparr>fi_states := WRITING\<rparr>\<rparr>), lp2)"
    by (intro refused_entry_stays_in_memory [OF t]) (simp_all add: demo_table_def)
  moreover have "log_files ?lp (0, 5) = Some \<lparr>use_id = 0, use_total = 2, messages = demo_entries\<rparr>" by (simp add: demo_table_def)
  ultimately show ?thesis by (metis of_nat_1)
qed

text \<open>When the files answer, \<open>FS_DelFileLosMessage\<close> clears every entry of every table of the
  disk: each file is free for recording again unless it is bad or was never created, no entry has
  a time or data, the position is the start, and the tables of other disks are as they were.\<close>

theorem FS_DelFileLosMessage_clears:
  assumes parts: "\<And>ps. ps \<in> set partitions \<Longrightarrow> distinct ps" and disk: "0 \<le> disk" "disk < int (length partitions)"
    and tab: "\<And>d p. (d, p) \<in> set (visited partitions format_ok disk) \<Longrightarrow>
      table_at d p (cur d p) (tab d p) lp \<and> tab d p \<noteq> [] \<and> list_all is_video (tab d p)"
  shows "\<exists>lp'. FS_DelFileLosMessage partitions format_ok disk lp = Some (ALLRIGHT, lp') \<and>
    (\<forall>(d, p) \<in> set (visited partitions format_ok disk). table_at d p 0 (map cleared_file (tab d p)) lp' \<and>
      (\<forall>e \<in> set (map cleared_file (tab d p)). (fi_states e = NOWRITE \<or> fi_states e = NOCREATE \<or> fi_states e = BADFILE) \<and>
         StartTime e = 0 \<and> EndTime e = 0 \<and> fi_ulOffSet e = 0 \<and> fi_iDataEffect e = NOEFFECT)) \<and>
    (\<forall>d p c es. d \<noteq> disk \<longrightarrow> table_at d p c es lp \<longrightarrow> table_at d p c es lp')"
proof -
  have on: "d = disk" if "(d, p) \<in> set (visited partitions format_ok disk)" for d p
    using that disk by (auto simp: visited_def)
  obtain lp' where "clear_tables disk (visited partitions format_ok disk) lp = Some (ALLRIGHT, lp')"
      "\<forall>(d, p) \<in> set (visited partitions format_ok disk). table_at d p (if disk = d then 0 else cur d p) (map cleared_file (tab d p)) lp'"
      "tables_kept table_at (set (visited partitions format_ok disk)) lp lp'"
    using clear_tables_at [where disk = disk, OF visited_distinct tab] parts by blast
  moreover from this(2) have "\<forall>(d, p) \<in> set (visited partitions format_ok disk). table_at d p 0 (map cleared_file (tab d p)) lp'"
  proof (intro ballI)
    fix x assume x: "x \<in> set (visited partitions format_ok disk)"
    obtain a b where ab: "x = (a, b)" by (cases x)
    then have "a = disk" using on x by blast
    then show "case x of (d, p) \<Rightarrow> table_at d p 0 (map cleared_file (tab d p)) lp'"
      using bspec [OF calculation(2) x] ab by simp
  qed
  moreover have "table_at d p c es lp'" if "d \<noteq> disk" "table_at d p c es lp" for d p c es
    using tables_keptD [OF calculation(3) _ that(2)] on [of d p] that(1) by blast
  ultimately show ?thesis using disk by (auto simp: FS_DelFileLosMessage_def cleared_file_def)
qed

lemma FS_DelFileLosMessage_clears_witness:
  "\<exists>lp'. FS_DelFileLosMessage [[1, 5]] (\<lambda>_. True) 0 (demo_table [(new_entry 0)\<lparr>fi_states := WRITEOVER, StartTime := 7\<rparr>] 0) = Some (ALLRIGHT, lp') \<and>
    table_at 0 5 0 [cleared_file ((new_entry 0)\<lparr>fi_states := WRITEOVER, StartTime := 7\<rparr>)] lp'"
proof -
  let ?e = "(new_entry 0)\<lparr>fi_states := WRITEOVER, StartTime := 7\<rparr>"
  have p: "visited [[1, 5]] (\<lambda>_. True) 0 = [(0, 5)]" by (simp add: visited_def)
  show ?thesis
    using FS_DelFileLosMessage_clears [of "[[1, 5]]" 0 "\<lambda>_. True" "\<lambda>_ _. 0" "\<lambda>_ _. [?e]" "demo_table [?e] 0"]
      demo_table_at [of "[?e]" 0] by (auto simp: p table_room_value)
qed

text \<open>When the files answer, the free share of a disk that is not yet going round is the
  percentage of its files that hold no finished recording; it lies between 0 and 100.\<close>

theorem FS_get_disk_remain_rate_counts:
  assumes tab: "tables_at d (drop 1 ps) cur tab lp" "drop 1 ps \<noteq> []"
    and st: "state_files dl d = Some (Some st)" "state_answers dl = []" "0 < iCapacity st" "IsCover st \<noteq> YES"
    and used: "used = length (filter (\<lambda>e. fi_iDataEffect e = EFFECT \<and> fi_states e = WRITEOVER) (concat (map tab (drop 1 ps))))"
    and all: "all = length (concat (map tab (drop 1 ps)))"
  shows "\<exists>lp'. FS_get_disk_remain_rate True ps st0 d dl lp = Some (int ((all - used) * 100 div all), dl, lp') \<and>
    (all - used) * 100 div all \<le> 100 \<and> tables_kept table_at {} lp lp'"
proof -
  let ?hit = "\<lambda>e. fi_iDataEffect e = EFFECT \<and> fi_states e = WRITEOVER"
  obtain lp' where c: "count_partitions ?hit d (drop 1 ps) 0 0 lp = Some (Some (int used, int all), lp')" "tables_kept table_at {} lp lp'"
    using count_partitions_at [OF tab(1), of ?hit 0 0] used all by auto
  have le: "used \<le> all" unfolding used all by (rule length_filter_le)
  obtain p qs where "drop 1 ps = p # qs" using tab(2) by (cases "drop 1 ps") auto
  then have pos: "0 < all" using tab(1) all by (auto simp: tables_at_def)
  have s: "FS_GetDiskCurrentState d st0 dl = (ALLRIGHT, st, dl)"
    using st by (simp add: FS_GetDiskCurrentState_def state_fopen_def next_state_answer_def)
  have "int all - int used = int (all - used)" using le by simp
  then have "div_safe ((int all - int used) * 100) (int all) = int ((all - used) * 100 div all)"
  proof -
    have "(int all - int used) * 100 = int ((all - used) * 100)" using le by simp
    then show ?thesis using pos by (simp only: div_safe_def zdiv_int [symmetric]) simp
  qed
  then have "FS_get_disk_remain_rate True ps st0 d dl lp = Some (int ((all - used) * 100 div all), dl, lp')"
    using c(1) s st(3,4) by (simp add: FS_get_disk_remain_rate_def rel_codes)
  moreover have "(all - used) * 100 div all \<le> all * 100 div all" by (intro div_le_mono) simp
  then have "(all - used) * 100 div all \<le> 100" using pos by simp
  ultimately show ?thesis using c(2) by blast
qed

lemma FS_get_disk_remain_rate_counts_witness:
  "\<exists>lp'. FS_get_disk_remain_rate True [1, 5] (new_disk_state 0) 0
      \<lparr>state_files = [0 \<mapsto> Some (new_disk_state (1024 * 1024))], state_answers = []\<rparr>
      (demo_table [(new_entry 0)\<lparr>fi_states := WRITEOVER, fi_iDataEffect := EFFECT\<rparr>, new_entry 1, new_entry 2] 1) = Some (66, \<lparr>state_files = [0 \<mapsto> Some (new_disk_state (1024 * 1024))], state_answers = []\<rparr>, lp')"
proof -
  let ?es = "[(new_entry 0)\<lparr>fi_states := WRITEOVER, fi_iDataEffect := EFFECT\<rparr>, new_entry 1, new_entry 2]"
  have n: "fi_states (new_entry k) = NOWRITE" for k by (simp add: new_entry_def)
  have t: "tables_at 0 (drop 1 [1, 5]) (\<lambda>_. 1) (\<lambda>_. ?es) (demo_table ?es 1)"
    using demo_table_at [of ?es 1] by (simp add: tables_at_def table_room_value)
  show ?thesis
    using FS_get_disk_remain_rate_counts [OF t, of "\<lparr>state_files = [0 \<mapsto> Some (new_disk_state (1024 * 1024))], state_answers = []\<rparr>"
        "new_disk_state (1024 * 1024)" 1 3 "new_disk_state 0"] n
    by (auto simp: new_disk_state_def file_codes)
qed

end
