(* ===== verification/Rec_Control.thy ===== *)
theory Rec_Control
  imports Frame_Runs File_Table
begin

text \<open>
  Which file the recorder writes to: the choice of the next file, opening and finishing it, opening
  and closing a file for playing, and the clearing of the logs of an overwritten file. From
  \<open>src/FileSystem/filesystem/FSfileoperate.c\<close>, over the frame store, the file
  tables and the logs.
\<close>

section \<open>State\<close>

text \<open>
  The disks as \<open>DISK_GetDiskInfo\<close> gives them: \<open>partitionID\<close>, \<open>partitionSize\<close>, \<open>devname\<close> from its sixth character on,
  and \<open>g_iDiskIsRightFormat\<close>.
\<close>

record disk_env =
  env_partitions :: "int list list"
  env_sizes :: "int list list"
  env_names :: "int \<Rightarrow> byte list"
  env_ok :: "int \<Rightarrow> bool"

text \<open>
  \<open>devices\<close> are the raw partitions, by disk and number; the store works on the sixth of one disk at
  a time.
  \<open>g_stRecFilePos.iCurFilePos\<close> and \<open>g_stLogPos\<close> are in the \<open>rec_logs\<close> of the store, \<open>g_RecMode\<close>
  too. \<open>clock k\<close> is what the \<open>k\<close>-th call of \<open>GST_DRA_get_sys_time\<close> gives, \<open>open_results k\<close> are the
  answers to the opens of the \<open>k\<close>-th pair of files.
\<close>

record rec_system =
  rs_store :: frame_store
  devices :: "int \<times> int \<Rightarrow> blkdev"
  rs_files :: file_table
  rs_disks :: disk_log
  rs_alarms :: "alarm_message log_point"
  rs_events :: "event_message log_point"
  rec_disk :: int
  rec_part :: int
  play_disk :: int
  play_part :: int
  play_cur :: int
  g_previous_headtime :: int
  g_preview_sys_flag :: int
  start_first_file_skip :: bool
  clock :: "nat \<Rightarrow> int"
  ticks :: nat
  open_results :: "nat \<Rightarrow> open_answer \<times> open_answer"
  opens :: nat

definition get_sys_time :: "rec_system \<Rightarrow> int \<times> rec_system" where
  "get_sys_time s = (clock s (ticks s), s\<lparr>ticks := Suc (ticks s)\<rparr>)"

definition next_opens :: "rec_system \<Rightarrow> (open_answer \<times> open_answer) \<times> rec_system" where
  "next_opens s = (open_results s (opens s), s\<lparr>opens := Suc (opens s)\<rparr>)"

definition take_dev :: "int \<Rightarrow> rec_system \<Rightarrow> frame_store" where
  "take_dev d s = (rs_store s)\<lparr>store_dev := devices s (d, 6)\<rparr>"

definition give_dev :: "int \<Rightarrow> frame_store \<Rightarrow> rec_system \<Rightarrow> rec_system" where
  "give_dev d fs s = s\<lparr>rs_store := fs, devices := (devices s)((d, 6) := store_dev fs)\<rparr>"

abbreviation sys_logs :: "rec_system \<Rightarrow> recorder" where
  "sys_logs s \<equiv> rec_logs (rs_store s)"

definition set_logs :: "recorder \<Rightarrow> rec_system \<Rightarrow> rec_system" where
  "set_logs w s = s\<lparr>rs_store := (rs_store s)\<lparr>rec_logs := w\<rparr>\<rparr>"

definition get_file :: "int \<Rightarrow> int \<Rightarrow> int \<Rightarrow> rec_system \<Rightarrow> (file_point option \<times> rec_system) option" where
  "get_file d p k s = do { (pt, lp) \<leftarrow> FS_GetPosFileInfo d p k (rs_files s); Some (pt, s\<lparr>rs_files := lp\<rparr>) }"

definition put_file :: "file_point \<Rightarrow> rec_system \<Rightarrow> (int \<times> rec_system) option" where
  "put_file pt s = do { (rel, lp) \<leftarrow> FS_FileInfoWriteToFile pt (rs_files s); Some (rel, s\<lparr>rs_files := lp\<rparr>) }"

definition put_cur :: "file_point \<Rightarrow> rec_system \<Rightarrow> (int \<times> rec_system) option" where
  "put_cur pt s = do { (rel, lp) \<leftarrow> UseInfoWriteToFile pt (rs_files s); Some (rel, s\<lparr>rs_files := lp\<rparr>) }"

definition get_state :: "int \<Rightarrow> disk_state \<Rightarrow> rec_system \<Rightarrow> int \<times> disk_state \<times> rec_system" where
  "get_state d st s = (let (rel, st', dl) = FS_GetDiskCurrentState d st (rs_disks s) in (rel, st', s\<lparr>rs_disks := dl\<rparr>))"

definition put_state :: "int \<Rightarrow> disk_state \<Rightarrow> rec_system \<Rightarrow> int \<times> rec_system" where
  "put_state d st s = (let (rel, dl) = FS_WriteDiskCurrentState d st (rs_disks s) in (rel, s\<lparr>rs_disks := dl\<rparr>))"

section \<open>Clearing the logs of an overwritten file\<close>

definition clear_rec :: "disk_env \<Rightarrow> int \<Rightarrow> int \<Rightarrow> int \<Rightarrow> rec_system \<Rightarrow> (int \<times> rec_system) option" where
  "clear_rec E startTime endTime disk s = do {
     (rel, lp) \<leftarrow> FS_DelRecLosMessage (env_partitions E) (env_ok E) startTime endTime disk (rec_lp (sys_logs s));
     Some (rel, set_logs ((sys_logs s)\<lparr>rec_lp := lp\<rparr>) s)
   }"

definition clear_stick :: "disk_env \<Rightarrow> int \<Rightarrow> int \<Rightarrow> int \<Rightarrow> rec_system \<Rightarrow> (int \<times> rec_system) option" where
  "clear_stick E startTime endTime disk s = do {
     (rel, lp) \<leftarrow> FS_DelRecTimeStickMessage (env_partitions E) (env_ok E) startTime endTime disk (stick_lp (sys_logs s));
     Some (rel, set_logs ((sys_logs s)\<lparr>stick_lp := lp\<rparr>) s)
   }"

definition clear_alarm :: "disk_env \<Rightarrow> int \<Rightarrow> int \<Rightarrow> int \<Rightarrow> rec_system \<Rightarrow> (int \<times> rec_system) option" where
  "clear_alarm E startTime endTime disk s = do {
     (rel, lp) \<leftarrow> FS_DelAlarmLosMessage (env_partitions E) (env_ok E) startTime endTime disk (rs_alarms s);
     Some (rel, s\<lparr>rs_alarms := lp\<rparr>)
   }"

text \<open>The three logs one after the other.\<close>

definition clear_logs :: "disk_env \<Rightarrow> int \<Rightarrow> int \<Rightarrow> int \<Rightarrow> rec_system \<Rightarrow> (int \<times> rec_system) option" where
  "clear_logs E startTime endTime disk s = do {
     (rel, s1) \<leftarrow> clear_rec E startTime endTime disk s;
     if rel < 0 then Some (rel, s1)
     else do {
       (rel, s2) \<leftarrow> clear_stick E startTime endTime disk s1;
       if rel < 0 then Some (rel, s2)
       else do {
         (rel, s3) \<leftarrow> clear_alarm E startTime endTime disk s2;
         Some (if rel < 0 then rel else ALLRIGHT, s3)
       }
     }
   }"

definition set_301 :: "int \<Rightarrow> int" where
  "set_301 t = (if t = 0 then 301 else t)"

definition clear_end :: "int \<Rightarrow> int \<Rightarrow> int" where
  "clear_end startTime endTime = (if endTime < startTime then startTime + 1 else endTime)"

function FS_CoverFileClearLog :: "disk_env \<Rightarrow> int \<Rightarrow> int \<Rightarrow> int \<Rightarrow> rec_system \<Rightarrow> (int \<times> rec_system) option" where
  "FS_CoverFileClearLog E startTime0 endTime0 disk s =
     (let startTime = set_301 startTime0; endTime = clear_end startTime (set_301 endTime0)
      in if \<bar>endTime - startTime\<bar> > 24 * 3600
      then do {
        (rel, s1) \<leftarrow> FS_CoverFileClearLog E startTime (startTime + 1800) disk s;
        if rel < 0 then Some (rel, s1)
        else do {
          (rel, s2) \<leftarrow> FS_CoverFileClearLog E endTime (endTime + 1800) disk s1;
          Some (if rel < 0 then rel else ALLRIGHT, s2)
        }
      }
      else clear_logs E startTime endTime disk s)"
  by pat_completeness auto

text \<open>The inner calls are over a short time.\<close>

termination
  by (relation "measure (\<lambda>(E, a, b, d, s). nat \<bar>clear_end (set_301 a) (set_301 b) - set_301 a\<bar>)")
    (auto simp: set_301_def clear_end_def split: if_splits)

declare FS_CoverFileClearLog.simps [simp del]

text \<open>\<open>FS_ClearDiskLogMessage\<close> empties the logs of a disk; \<open>st0\<close> is its uninitialised variable.\<close>

definition FS_ClearDiskLogMessage :: "disk_env \<Rightarrow> disk_state \<Rightarrow> int \<Rightarrow> rec_system \<Rightarrow> (int \<times> rec_system) option" where
  "FS_ClearDiskLogMessage E st0 disk s = do {
     (rel, s1) \<leftarrow> clear_rec E 0 0 disk s;
     if rel < 0 then Some (rel, s1)
     else do {
       (rel, s2) \<leftarrow> clear_stick E 0 0 disk s1;
       if rel < 0 then Some (rel, s2)
       else do {
         (rel, s3) \<leftarrow> clear_alarm E 0 0 disk s2;
         if rel < 0 then Some (rel, s3)
         else do {
           (rel, lp) \<leftarrow> FS_DelFileLosMessage (env_partitions E) (env_ok E) disk (rs_files s3);
           let s4 = s3\<lparr>rs_files := lp\<rparr>;
           Some (if rel < 0 then (rel, s4)
             else let (rel, st, s5) = get_state disk st0 s4
             in if rel < 0 then (rel, s5)
             else let (rel, s6) = put_state disk (st\<lparr>iCoverCapacity := 0, IsCover := NO, IsRecording := NO, iUseCapacity := 0,
                    iPartitionId := 5\<rparr>) s5
             in (if rel < 0 then rel else ALLRIGHT, s6))
         }
       }
     }
   }"

text \<open>\<open>FS_DelRecLogByFilePos\<close>: the entries of one file, from the last to the first.\<close>

fun clear_pos_entries :: "int \<Rightarrow> int \<Rightarrow> int \<Rightarrow> nat \<Rightarrow> record_message log_point \<Rightarrow> (int \<times> record_message log_point) option" where
  "clear_pos_entries d p pos 0 lp = Some (ALLRIGHT, lp)"
| "clear_pos_entries d p pos (Suc k) lp = do {
     (ok, lp1) \<leftarrow> FS_GetPosRecordMessage d p (int k) lp;
     if \<not> ok then Some (ERROR, lp1)
     else do {
       m \<leftarrow> cur_msg lp1;
       if rm_filePos m \<noteq> pos then clear_pos_entries d p pos k lp1
       else do {
         lp2 \<leftarrow> set_msg (m\<lparr>rm_endTime := 0, rm_filePos := - 1, rm_iCam := 0, rm_iDataEffect := NOEFFECT, rm_startTime := 0,
           rm_ulOffSet := 0, rm_videoStandard := 0, rm_imageSize := 0\<rparr>) lp1;
         (rel, lp3) \<leftarrow> RecordMessageWriteToFile lp2;
         if rel < 0 then Some (rel, lp3) else clear_pos_entries d p pos k lp3
       }
     }
   }"

fun clear_pos_partitions :: "int \<Rightarrow> (int \<times> int) list \<Rightarrow> record_message log_point \<Rightarrow> (int \<times> record_message log_point) option" where
  "clear_pos_partitions pos [] lp = Some (ALLRIGHT, lp)"
| "clear_pos_partitions pos ((d, p) # ds) lp = do {
     (ok, lp1) \<leftarrow> FS_GetPosRecordMessage d p 0 lp;
     if \<not> ok then Some (ERROR, lp1)
     else do {
       b \<leftarrow> use_info lp1;
       (rel, lp2) \<leftarrow> clear_pos_entries d p pos (nat (use_total b)) lp1;
       if rel \<noteq> ALLRIGHT then Some (rel, lp2) else clear_pos_partitions pos ds lp2
     }
   }"

definition FS_DelRecLogByFilePos :: "disk_env \<Rightarrow> int \<Rightarrow> int \<Rightarrow> int \<Rightarrow> rec_system \<Rightarrow> (int \<times> rec_system) option" where
  "FS_DelRecLogByFilePos E disk part pos s =
     (if disk \<ge> int (length (env_partitions E)) \<or> disk < - 1 then Some (ERROR, s)
      else do {
        (rel, lp) \<leftarrow> clear_pos_partitions pos
          (if disk = - 1 then [] else filter (\<lambda>(d, p). p = part) (visited (env_partitions E) (env_ok E) disk)) (rec_lp (sys_logs s));
        Some (rel, set_logs ((sys_logs s)\<lparr>rec_lp := lp\<rparr>) s)
      })"

section \<open>The next file to record to\<close>

text \<open>
  The end of the partition list of a disk (\<open>partitionID[partitionNum - 1]\<close>) and the path of a file.
\<close>

definition last_partition :: "disk_env \<Rightarrow> int \<Rightarrow> int option" where
  "last_partition E d =
     (if 0 \<le> d \<and> d < int (length (env_partitions E)) \<and> env_partitions E ! nat d \<noteq> []
      then Some (last (env_partitions E ! nat d)) else None)"

definition tddvr_path :: "disk_env \<Rightarrow> file_point \<Rightarrow> byte list" where
  "tddvr_path E q = bytes_of ''/tddvr/'' @ env_names E (fp_disk q) @ dec (nat (fp_part q)) @ bytes_of ''/'' @ fi_name (fp_info q)"

text \<open>What one disk gives: another disk is tried, the function returns, or a file is found.\<close>

datatype file_choice = Skip | Stop int | Found "byte list" bool

text \<open>
  The label \<open>FILESTATEWRONG\<close>: the file cannot be taken, the disk moves on to its next file,
  partition or to rest.
\<close>

definition pass_partition :: "disk_env \<Rightarrow> int \<Rightarrow> disk_state \<Rightarrow> rec_system \<Rightarrow> (file_choice \<times> rec_system) option" where
  "pass_partition E i st s =
     (let st1 = st\<lparr>iPartitionId := iPartitionId st + 1\<rparr>; (rel, s1) = put_state i st1 s
      in if rel < 0 then Some (Stop rel, s1)
      else do {
        lst \<leftarrow> last_partition E i;
        Some (if iPartitionId st1 > lst
          then let (rel, s2) = put_state i (st1\<lparr>iPartitionId := 5, IsRecording := NO\<rparr>) s1
            in (Stop (if rel < 0 then rel else FILESTATEERROR), s2)
          else (Stop FILESTATEERROR, s1))
      })"

definition next_file :: "disk_env \<Rightarrow> int \<Rightarrow> disk_state \<Rightarrow> file_point \<Rightarrow> rec_system \<Rightarrow> (file_choice \<times> rec_system) option" where
  "next_file E i st q s = do {
     let q1 = q\<lparr>fp_cur := fp_cur q + 1\<rparr>;
     (rel, s1) \<leftarrow> put_cur q1 s;
     if rel < 0 then Some (Stop rel, s1)
     else if fp_cur q1 < fp_total q1 then Some (Stop FILESTATEERROR, s1)
     else do {
       (rel, s2) \<leftarrow> put_cur (q1\<lparr>fp_cur := 0\<rparr>) s1;
       if rel < 0 then Some (Stop rel, s2) else pass_partition E i st s2
     }
   }"

definition state_wrong :: "disk_env \<Rightarrow> int \<Rightarrow> disk_state \<Rightarrow> file_point \<Rightarrow> rec_system \<Rightarrow> (file_choice \<times> rec_system) option" where
  "state_wrong E i st q s =
     (if IsCover st = YES \<and> fi_states (fp_info q) = PLAYING
      then do {
        let q1 = q\<lparr>fp_info := (fp_info q)\<lparr>fi_iDataEffect := NOEFFECT\<rparr>\<rparr>;
        (rel, s1) \<leftarrow> put_file q1 s;
        if rel < 0 then Some (Stop rel, s1)
        else do {
          (rel, s2) \<leftarrow> FS_CoverFileClearLog E (StartTime (fp_info q1)) (EndTime (fp_info q1)) (- 1) s1;
          if rel < 0 then Some (Stop rel, s2) else next_file E i st q1 s2
        }
      }
      else next_file E i st q s)"

text \<open>
  A finished file that is not taken: its \<open>isCover\<close> is taken back first. \<open>first\<close> tells that the
  branch may set \<open>start_first_file_skip\<close>.
\<close>

definition skip_file :: "disk_env \<Rightarrow> int \<Rightarrow> disk_state \<Rightarrow> bool \<Rightarrow> file_point \<Rightarrow> rec_system \<Rightarrow> (file_choice \<times> rec_system) option" where
  "skip_file E i st first q s = do {
     let back = (IsCover st = YES \<and> isCover (fp_info q) = YES);
     let q1 = (if back then q\<lparr>fp_info := (fp_info q)\<lparr>isCover := NO\<rparr>\<rparr> else q);
     (rel, s1) \<leftarrow> (if back then put_file q1 s else Some (ALLRIGHT, s));
     if rel < 0 then Some (Stop rel, s1)
     else state_wrong E i st q1 (if first then s1\<lparr>start_first_file_skip := True\<rparr> else s1)
   }"

definition take_file :: "disk_env \<Rightarrow> int \<Rightarrow> file_point \<Rightarrow> rec_system \<Rightarrow> file_choice \<times> rec_system" where
  "take_file E i q s =
     (Found (tddvr_path E q) (fi_states (fp_info q) = NOWRITE),
      set_logs ((sys_logs s)\<lparr>rec_cur_file := fp_cur q\<rparr>) (s\<lparr>rec_disk := i, rec_part := fp_part q\<rparr>))"

text \<open>The clock says that the file \<open>e\<close> is not from the last hour.\<close>

definition time_moved :: "int \<Rightarrow> file_entry \<Rightarrow> bool" where
  "time_moved now e \<longleftrightarrow> now < StartTime e \<or> now < EndTime e \<or> now - 3600 > EndTime e"

definition other_mode :: "rec_system \<Rightarrow> file_entry \<Rightarrow> bool" where
  "other_mode s e \<longleftrightarrow> pb_size (sys_logs s) \<noteq> fi_VideoSize e \<or> pb_standard (sys_logs s) \<noteq> fi_mode e"

definition choose_file :: "disk_env \<Rightarrow> int \<Rightarrow> disk_state \<Rightarrow> file_point \<Rightarrow> rec_system \<Rightarrow> (file_choice \<times> rec_system) option" where
  "choose_file E i st q s =
     (let e = fp_info q; over = IsCover st = YES \<and> fi_states e = WRITEOVER
      in if fi_states e \<noteq> NOWRITE \<and> fi_states e \<noteq> WRITEOVER then state_wrong E i st q s
      else if over \<and> iEnableCover st \<noteq> ENABLE then Some (Stop ALLDISKNOTENABLETOWRITE, s)
      else do {
        let renew = (over \<and> isCover e = NO);
        let q1 = (if renew then q\<lparr>fp_info := e\<lparr>fi_states := NOWRITE, isCover := YES\<rparr>\<rparr> else q);
        (rel, s1) \<leftarrow> (if renew then do {
            (_, s1) \<leftarrow> FS_CoverFileClearLog E (StartTime e) (EndTime e) (- 1) s;
            put_file q1 s1
          } else Some (ALLRIGHT, s));
        if rel < 0 then Some (Stop rel, s1)
        else if fi_states (fp_info q1) = WRITEOVER
        then let (now, s2) = get_sys_time s1
          in if time_moved now (fp_info q1) \<or> \<not> start_first_file_skip s2 then skip_file E i st True q1 s2
          else if other_mode s2 (fp_info q1) then skip_file E i st False q1 s2
          else Some (take_file E i q1 s2)
        else Some (take_file E i q1 s1)
      })"

text \<open>
  One disk. \<open>st\<close> is \<open>stDiskState\<close>: a disk whose state cannot be read is judged by what the
  variable holds.
\<close>

definition try_disk :: "disk_env \<Rightarrow> int \<Rightarrow> disk_state \<Rightarrow> rec_system \<Rightarrow> (file_choice \<times> disk_state \<times> rec_system) option" where
  "try_disk E i st s =
     (if \<not> env_ok E i then Some (Skip, st, s)
      else let (rel, st1, s1) = get_state i st s
      in if rel < 0 then Some (Stop rel, st1, s1)
      else let fresh = IsRecording st1 = NO \<and> iUseCapacity st1 = 0;
          st2 = (if fresh then st1\<lparr>IsRecording := YES, iUseCapacity := 1\<rparr> else st1);
          (rel, s2) = (if fresh then put_state i st2 s1 else (ALLRIGHT, s1))
      in if rel < 0 then Some (Stop rel, st2, s2)
      else if IsRecording st2 = NO then Some (Skip, st2, s2)
      else let (rel, (cur, _), lp) = FS_GetFileUseInfo i (iPartitionId st2) (rs_files s2);
          s3 = s2\<lparr>rs_files := lp\<rparr>
      in if rel < 0 then Some (Stop rel, st2, s3)
      else do {
        (pt, s4) \<leftarrow> get_file i (iPartitionId st2) cur s3;
        (case pt of
           None \<Rightarrow> Some (Stop ERROR, st2, s4)
         | Some q \<Rightarrow>
             if fp_cur q < fp_total q then do { (c, s5) \<leftarrow> choose_file E i st2 q s4; Some (c, st2, s5) }
             else Some (Skip, st2, s4))
      })"

fun try_disks :: "disk_env \<Rightarrow> int list \<Rightarrow> disk_state \<Rightarrow> rec_system \<Rightarrow> (file_choice \<times> disk_state \<times> rec_system) option" where
  "try_disks E [] st s = Some (Skip, st, s)"
| "try_disks E (i # ds) st s = do {
     (c, st1, s1) \<leftarrow> try_disk E i st s;
     if c = Skip then try_disks E ds st1 s1 else Some (c, st1, s1)
   }"

text \<open>No disk records: every disk that may and has a finished file goes round again. \<open>k\<close> counts them.\<close>

fun enable_cover :: "disk_env \<Rightarrow> int list \<Rightarrow> disk_state \<Rightarrow> nat \<Rightarrow> rec_system \<Rightarrow> (int \<times> rec_system) option" where
  "enable_cover E [] st k s = Some (if k = 0 then ALLDISKNOTENABLETOWRITE else ALLDISKUSEOVER, s)"
| "enable_cover E (j # ds) st k s =
     (let (rel, st1, s1) = get_state j st s
      in if rel < 0 then Some (rel, s1)
      else if iEnableCover st1 \<noteq> ENABLE then enable_cover E ds st1 k s1
      else do {
        (rel, lp) \<leftarrow> FS_HaveFileToRecover j (drop 1 (env_partitions E ! nat j)) (rs_files s1);
        let s2 = s1\<lparr>rs_files := lp\<rparr>;
        if rel \<noteq> ALLRIGHT then enable_cover E ds st1 k s2
        else let st2 = st1\<lparr>IsCover := YES, IsRecording := YES\<rparr>; (rel, s3) = put_state j st2 s2
        in if rel < 0 then Some (rel, s3) else enable_cover E ds st2 (Suc k) s3
      })"

definition disk_ids :: "disk_env \<Rightarrow> int list" where
  "disk_ids E = map int [0..<length (env_partitions E)]"

text \<open>
  \<open>st0\<close> is the uninitialised state; \<open>path\<close> and \<open>reopen\<close> are the caller's variables, which keep
  their values when no file is found.
\<close>

definition FS_GetRecondFileName :: "disk_env \<Rightarrow> disk_state \<Rightarrow> byte list \<Rightarrow> int \<Rightarrow> rec_system \<Rightarrow>
    (int \<times> byte list \<times> int \<times> rec_system) option" where
  "FS_GetRecondFileName E st0 path reopen s = do {
     (c, st, s1) \<leftarrow> try_disks E (disk_ids E) st0 s;
     (case c of
        Stop rel \<Rightarrow> Some (rel, path, reopen, s1)
      | Found p new \<Rightarrow> Some (ALLRIGHT, p, if new then 1 else reopen, s1)
      | Skip \<Rightarrow> do { (rel, s2) \<leftarrow> enable_cover E (disk_ids E) st 0 s1; Some (rel, path, reopen, s2) })
   }"

section \<open>Opening and finishing a file\<close>

text \<open>
  The 56 bytes of a \<open>FILEINFO\<close> at the front of a file: the name in 20 bytes and nine words. The
  code writes \<open>max_video\<close>, the answer of \<open>GST_DRA_Net_cam_get_support_max_video\<close>, for the size.
\<close>

definition state_code :: "file_state \<Rightarrow> int" where
  "state_code x = (case x of WRITING \<Rightarrow> 0 | WRITEOVER \<Rightarrow> 1 | NOWRITE \<Rightarrow> 2 | NOCREATE \<Rightarrow> 3 | PLAYING \<Rightarrow> 4 | BADFILE \<Rightarrow> 5)"

definition int_word :: "int \<Rightarrow> byte list" where
  "int_word x = u32_bytes (word_of_int x)"

definition fileinfo_bytes :: "int \<Rightarrow> file_entry \<Rightarrow> byte list" where
  "fileinfo_bytes max_video e = take 20 (fi_name e @ replicate 20 0) @ int_word (StartTime e) @ int_word (EndTime e) @
     int_word (state_code (fi_states e)) @ u32_bytes (fi_ulOffSet e) @ int_word (fi_iDataEffect e) @ int_word (iEnableReWrite e) @
     int_word (isCover e) @ int_word max_video @ int_word (fi_mode e)"

text \<open>An operation of the frame store on disk \<open>d\<close>.\<close>

definition on_disk :: "int \<Rightarrow> (frame_store \<Rightarrow> 'a \<times> frame_store) \<Rightarrow> rec_system \<Rightarrow> 'a \<times> rec_system" where
  "on_disk d f s = (let (r, fs) = f (take_dev d s) in (r, give_dev d fs s))"

definition on_disk_opt :: "int \<Rightarrow> (frame_store \<Rightarrow> ('a \<times> frame_store) option) \<Rightarrow> rec_system \<Rightarrow> ('a \<times> rec_system) option" where
  "on_disk_opt d f s = do { (r, fs) \<leftarrow> f (take_dev d s); Some (r, give_dev d fs s) }"

text \<open>
  The loop that asks again until a file is found. \<open>None\<close> is the loop that never ends. Without a
  disk to write to the code waits and ends the program (\<open>exit (0)\<close>): here that is the code
  \<open>ALLDISKNOTENABLETOWRITE\<close>.
\<close>

partial_function (option) ask_again :: "disk_env \<Rightarrow> disk_state \<Rightarrow> int \<Rightarrow> byte list \<Rightarrow> int \<Rightarrow> rec_system \<Rightarrow>
    (int \<times> byte list \<times> int \<times> rec_system) option" where
  "ask_again E st0 rel path reopen s = do {
     (rel1, path1, reopen1, s1) \<leftarrow> (if rel = ALLDISKUSEOVER then FS_GetRecondFileName E st0 path reopen s
                                   else Some (rel, path, reopen, s));
     if rel = ALLDISKUSEOVER \<and> rel1 > 0 then Some (rel1, path1, reopen1, s1)
     else if rel1 \<noteq> ALLDISKUSEOVER \<and> rel1 \<noteq> FILESTATEERROR then Some (rel1, path1, reopen1, s1)
     else do {
       (rel2, path2, reopen2, s2) \<leftarrow> FS_GetRecondFileName E st0 path1 reopen1 s1;
       if rel2 = ALLRIGHT then Some (rel2, path2, reopen2, s2) else ask_again E st0 rel2 path2 reopen2 s2
     }
   }"

definition find_file :: "disk_env \<Rightarrow> disk_state \<Rightarrow> int \<Rightarrow> rec_system \<Rightarrow> (int \<times> byte list \<times> int \<times> rec_system) option" where
  "find_file E st0 reopen s = do {
     (rel, path, reopen1, s1) \<leftarrow> FS_GetRecondFileName E st0 [] reopen s;
     if rel < 0 then ask_again E st0 rel path reopen1 s1 else Some (rel, path, reopen1, s1)
   }"

text \<open>An unused file: its entry and the front of its header file are written.\<close>

definition start_file :: "int \<Rightarrow> int \<Rightarrow> file_point \<Rightarrow> rec_system \<Rightarrow> (int \<times> rec_system) option" where
  "start_file max_video now q s = do {
     let e = (fp_info q)\<lparr>fi_iDataEffect := NO, fi_states := WRITING, fi_ulOffSet := 56,
           StartTime := (if g_previous_headtime s \<noteq> 0 then g_previous_headtime s else now), EndTime := 0,
           fi_VideoSize := pb_size (sys_logs s), fi_mode := pb_standard (sys_logs s)\<rparr>;
     (rel, s1) \<leftarrow> put_file (q\<lparr>fp_info := e\<rparr>) s;
     Some (if rel < 0 then (FILEERROR, s1) else on_disk (rec_disk s1) (start_new_file (fileinfo_bytes max_video e)) s1)
   }"

text \<open>
  A file that was finished: recording goes on in it. With fewer than two frames it is given up,
  which the first component tells.
\<close>

definition go_on_file :: "file_point \<Rightarrow> rec_system \<Rightarrow> (bool \<times> int \<times> rec_system) option" where
  "go_on_file q s = do {
     let e = (fp_info q)\<lparr>fi_states := WRITING\<rparr>;
     (rel, s1) \<leftarrow> put_file (q\<lparr>fp_info := e\<rparr>) s;
     if rel < 0 then Some (False, FILEERROR, s1)
     else let ((bad, rel), s2) = on_disk (rec_disk s1)
         (\<lambda>fs. let (bad, rel, fs') = resume_file (fi_ulOffSet e) fs in ((bad, rel), fs')) s1
     in if \<not> bad then Some (False, rel, s2)
     else do {
       (rel, s3) \<leftarrow> put_file (q\<lparr>fp_info := e\<lparr>fi_states := NOWRITE\<rparr>\<rparr>) s2;
       Some (if rel < 0 then (False, FILEERROR, s3) else (True, ALLRIGHT, s3))
     }
   }"

definition log_start :: "int \<Rightarrow> int \<Rightarrow> int \<Rightarrow> rec_system \<Rightarrow> (int \<times> rec_system) option" where
  "log_start iNoChangeLog iCam now s =
     (if iNoChangeLog \<noteq> 1 then Some (ALLRIGHT, s)
      else do {
        let t = (if g_previous_headtime s \<noteq> 0 then g_previous_headtime s else now);
        (rel, w) \<leftarrow> FS_WriteStartInfoToRecLog (rec_disk s) (rec_part s) t (rec_cur_file (sys_logs s)) iCam
            (g_ulFrameHeaderOffset (rs_store s)) (sys_logs s);
        Some (if rel < 0 then (rel, set_logs w s)
          else (ALLRIGHT, set_logs (w\<lparr>logpos_disk := rec_disk s, logpos_part := rec_part s\<rparr>) s))
      })"

text \<open>
  From the label \<open>RE_TRY\<close> on. The two tests of the state follow each other, but what the first
  branch leaves in it the second does not take.
\<close>

partial_function (option) open_rec_file :: "disk_env \<Rightarrow> disk_state \<Rightarrow> int \<Rightarrow> int \<Rightarrow> int \<Rightarrow> int \<Rightarrow> rec_system \<Rightarrow>
    (int \<times> rec_system) option" where
  "open_rec_file E st0 max_video iCam iNoChangeLog reopen s = do {
     (rel, path, reopen1, s1) \<leftarrow> find_file E st0 reopen s;
     if rel < 0 then Some (rel, s1)
     else let ((a1, a2), s2) = next_opens s1
     in do {
       (rel, s3) \<leftarrow> on_disk_opt (rec_disk s2) (fs_open_record_file a1 a2 path reopen1) s2;
       if rel < 0 then Some (rel, s3)
       else do {
         (pt, s4) \<leftarrow> get_file (rec_disk s3) (rec_part s3) (rec_cur_file (sys_logs s3)) s3;
         (case pt of
            None \<Rightarrow> Some (ERROR, s4)
          | Some q \<Rightarrow>
              let (now, s5) = get_sys_time s4
              in do {
                (again, rel, s6) \<leftarrow> (case fi_states (fp_info q) of
                    NOWRITE \<Rightarrow> do { (rel, s6) \<leftarrow> start_file max_video now q s5; Some (False, rel, s6) }
                  | WRITEOVER \<Rightarrow> go_on_file q s5
                  | _ \<Rightarrow> Some (False, ALLRIGHT, s5));
                if again then open_rec_file E st0 max_video iCam iNoChangeLog reopen1 s6
                else if rel < 0 then Some (rel, s6)
                else log_start iNoChangeLog iCam now s6
              })
       }
     }
   }"

definition FS_OpenRecFile :: "disk_env \<Rightarrow> disk_state \<Rightarrow> int \<Rightarrow> int \<Rightarrow> int \<Rightarrow> int \<Rightarrow> int \<Rightarrow> rec_system \<Rightarrow>
    (int \<times> rec_system) option" where
  "FS_OpenRecFile E st0 max_video iPbVideoStandard iPbImageSize iCam iNoChangeLog s =
     (let s1 = set_logs ((sys_logs s)\<lparr>pb_standard := iPbVideoStandard, pb_size := iPbImageSize\<rparr>) s
      in if iPbImageSize > 2 \<or> iPbImageSize < 0 then Some (ERROR, s1)
      else if iPbVideoStandard > 1 \<or> iPbVideoStandard < 0 then Some (ERROR, s1)
      else open_rec_file E st0 max_video iCam iNoChangeLog 0 s1)"

definition STOPRECORD :: int where "STOPRECORD = 0"
definition FILEWRITEOVER :: int where "FILEWRITEOVER = 1"
definition FILEWRITEERROR :: int where "FILEWRITEERROR = 2"
definition RECTIMEOVER :: int where "RECTIMEOVER = 3"

lemmas stop_reasons = STOPRECORD_def FILEWRITEOVER_def FILEWRITEERROR_def RECTIMEOVER_def

text \<open>\<open>RecWriteOver\<close>: the end time of the file, its entry and the two files, then the logs, then the position.\<close>

definition end_time :: "int \<Rightarrow> rec_system \<Rightarrow> int \<Rightarrow> int" where
  "end_time now s start =
     (let t = (if g_preview_sys_flag s = 1 then g_previous_headtime s else now)
      in if \<bar>t - start\<bar> > 60 * 2 * 60
      then if now - start > 0 then if now - 2 > t then now - 2 else now else start + 60
      else t)"

definition ended_entry :: "int \<Rightarrow> int \<Rightarrow> rec_system \<Rightarrow> file_entry \<Rightarrow> file_entry" where
  "ended_entry iReason now s e = e\<lparr>EndTime := end_time now s (StartTime e), fi_iDataEffect := EFFECT,
     fi_states := (if iReason = FILEWRITEERROR then BADFILE else WRITEOVER),
     fi_ulOffSet := g_ulFrameHeaderOffset (rs_store s),
     isCover := (if isCover e = YES \<and> iReason \<noteq> STOPRECORD then NO else isCover e)\<rparr>"

definition write_info :: "byte list \<Rightarrow> frame_store \<Rightarrow> int \<times> frame_store" where
  "write_info info fs =
     (let (r, hf, d1) = file_io_lseek 0 0 (rec_header_filest fs) (store_dev fs);
          moved = (\<lambda>hf d. fs\<lparr>rec_header_filest := hf, store_dev := d\<rparr>)
      in if r = - 1 then (FILEERROR, moved hf d1)
      else let (r, hf, d2) = file_io_write info hf d1
      in if r \<noteq> 56 then (FILEERROR, moved hf d2) else (ALLRIGHT, close_rec_files (moved hf d2)))"

definition log_end :: "int \<Rightarrow> int \<Rightarrow> rec_system \<Rightarrow> (int \<times> rec_system) option" where
  "log_end iReason now s =
     (if iReason = FILEWRITEOVER then Some (ALLRIGHT, s)
      else do {
        (rel, w) \<leftarrow> FS_WriteEndInfotoRecLog (logpos_disk (sys_logs s)) (logpos_part (sys_logs s))
            (if iReason = FILEWRITEERROR then 0 else now) (sys_logs s);
        Some (rel, set_logs w s)
      })"

definition move_on :: "disk_env \<Rightarrow> disk_state \<Rightarrow> file_point \<Rightarrow> rec_system \<Rightarrow> (int \<times> rec_system) option" where
  "move_on E st q s = do {
     let q1 = q\<lparr>fp_cur := fp_cur q + 1\<rparr>;
     if fp_cur q1 < fp_total q1
     then do { (rel, s1) \<leftarrow> put_cur q1 s; Some (if rel < 0 then rel else ALLRIGHT, s1) }
     else do {
       let q2 = q1\<lparr>fp_cur := 0\<rparr>;
       (rel, s1) \<leftarrow> put_cur q2 s;
       if rel < 0 then Some (rel, s1)
       else do {
         lst \<leftarrow> last_partition E (rec_disk s1);
         let st1 = st\<lparr>iPartitionId := iPartitionId st + 1\<rparr>;
         let (rel, s2) = put_state (rec_disk s1)
               (if iPartitionId st1 > lst then st1\<lparr>iPartitionId := 5, IsRecording := NO\<rparr> else st1) s1;
         if rel < 0 then Some (rel, s2)
         else do { (rel, s3) \<leftarrow> put_cur q2 s2; Some (if rel < 0 then rel else ALLRIGHT, s3) }
       }
     }
   }"

definition RecWriteOver :: "disk_env \<Rightarrow> disk_state \<Rightarrow> int \<Rightarrow> int \<Rightarrow> rec_system \<Rightarrow> (int \<times> rec_system) option" where
  "RecWriteOver E st0 max_video iReason s = do {
     (_, s1) \<leftarrow> on_disk_opt (rec_disk s) FS_write_buf_write_to_file s;
     if fdno (rec_header_filest (rs_store s1)) \<le> 0 then Some (FILEERROR, s1)
     else do {
       (pt, s2) \<leftarrow> get_file (rec_disk s1) (rec_part s1) (rec_cur_file (sys_logs s1)) s1;
       (case pt of
          None \<Rightarrow> Some (FILEERROR, s2)
        | Some q \<Rightarrow>
            let (now, s3) = get_sys_time s2; e = ended_entry iReason now s3 (fp_info q)
            in do {
              (rel, s4) \<leftarrow> put_file (q\<lparr>fp_info := e\<rparr>) s3;
              if rel < 0 then Some (rel, s4)
              else let (rel, s5) = on_disk (rec_disk s4) (write_info (fileinfo_bytes max_video e)) s4
              in if rel < 0 then Some (rel, s5)
              else do {
                (rel, s6) \<leftarrow> log_end iReason now s5;
                if rel < 0 then Some (rel, s6)
                else let (rel, st, s7) = get_state (rec_disk s6) st0 s6
                in if rel < 0 then Some (rel, s7)
                else if iReason = FILEWRITEOVER \<or> iReason = FILEWRITEERROR \<or> iReason = RECTIMEOVER
                then move_on E st (q\<lparr>fp_info := e\<rparr>) s7
                else Some (ALLRIGHT, s7)
              }
            })
     }
   }"

section \<open>Opening and closing a file for playing\<close>

definition OpenPlayFile :: "disk_env \<Rightarrow> int \<Rightarrow> int \<Rightarrow> int \<Rightarrow> rec_system \<Rightarrow> (int \<times> rec_system) option" where
  "OpenPlayFile E d p pos s = do {
     (pt, s1) \<leftarrow> get_file d p pos s;
     (case pt of
        None \<Rightarrow> Some (ERROR, s1)
      | Some q \<Rightarrow>
          let st = fi_states (fp_info q)
          in if st \<noteq> WRITEOVER \<and> st \<noteq> WRITING then Some (FILEERROR, s1)
          else let ((a1, a2), s2) = next_opens s1
          in do {
            (rel, s3) \<leftarrow> on_disk_opt (fp_disk q) (fs_open_play_file a1 a2 (tddvr_path E q)) s2;
            if rel < 0 then Some (rel, s3)
            else do {
              (rel, s4) \<leftarrow> (if st = WRITEOVER then put_file (q\<lparr>fp_info := (fp_info q)\<lparr>fi_states := PLAYING\<rparr>\<rparr>) s3
                            else Some (ALLRIGHT, s3));
              if rel < 0 then Some (rel, s4)
              else Some (ALLRIGHT, s4\<lparr>play_cur := pos, play_disk := d, play_part := p,
                rs_store := begin_play (if st = WRITING then g_ulFrameHeaderOffset (rs_store s4) else fi_ulOffSet (fp_info q))
                  (rs_store s4)\<rparr>)
            }
          })
   }"

definition close_play_files :: "frame_store \<Rightarrow> frame_store" where
  "close_play_files fs =
     (case close_pair (play_header_filest fs) (play_data_filest fs) (store_dev fs) of
        (hf, df, d) \<Rightarrow> fs\<lparr>play_header_filest := hf, play_data_filest := df, store_dev := d\<rparr>)"

definition ClosePlayFile :: "rec_system \<Rightarrow> (int \<times> rec_system) option" where
  "ClosePlayFile s = do {
     (pt, s1) \<leftarrow> get_file (play_disk s) (play_part s) (play_cur s) s;
     (case pt of
        None \<Rightarrow> Some (ERROR, s1)
      | Some q \<Rightarrow> do {
          (rel, s2) \<leftarrow> (if fi_states (fp_info q) = PLAYING
             then put_file (q\<lparr>fp_info := (fp_info q)\<lparr>fi_states := WRITEOVER\<rparr>\<rparr>) s1 else Some (ALLRIGHT, s1));
          Some (if rel < 0 then (rel, s2) else on_disk (play_disk s2) (\<lambda>fs. (ALLRIGHT, close_play_files fs)) s2)
        })
   }"

definition FS_RecFileChangePartiton :: "rec_system \<Rightarrow> (int \<times> rec_system) option" where
  "FS_RecFileChangePartiton s = do {
     (pt, s1) \<leftarrow> get_file (rec_disk s) (rec_part s) (rec_cur_file (sys_logs s)) s;
     Some (case pt of None \<Rightarrow> ERROR | Some q \<Rightarrow> if rec_cur_file (sys_logs s1) = fp_total q - 1 then YES else NO, s1)
   }"

section \<open>The tables behind the system\<close>

abbreviation sys_table :: "int \<Rightarrow> int \<Rightarrow> int \<Rightarrow> file_entry list \<Rightarrow> rec_system \<Rightarrow> bool" where
  "sys_table d p cur es s \<equiv> table_at d p cur es (rs_files s)"

interpretation sys: entry_table sys_table get_file put_file put_cur
proof (unfold_locales, goal_cases)
  case (1 d p cur es s k)
  then show ?case using tables.get_at [OF 1] by (fastforce simp: get_file_def tables_kept_def)
next
  case (2 d p cur es s pt k)
  then show ?case using tables.put_at [OF 2] by (fastforce simp: put_file_def tables_kept_def)
next
  case (3 d p cur es s pt)
  then show ?case using tables.put_pos_at [OF 3] by (fastforce simp: put_cur_def tables_kept_def)
qed

text \<open>The three calls change the tables only.\<close>

definition only_files :: "rec_system \<Rightarrow> rec_system \<Rightarrow> bool" where
  "only_files s s' \<longleftrightarrow> s' = s\<lparr>rs_files := rs_files s'\<rparr>"

lemma only_files_refl [simp]: "only_files s s" "only_files s (s\<lparr>rs_files := lp\<rparr>)"
  by (simp_all add: only_files_def)

lemma only_files_trans [trans]: "only_files s s' \<Longrightarrow> only_files s' s'' \<Longrightarrow> only_files s s''"
  by (metis (no_types, lifting) only_files_def rec_system.update_convs(3) rec_system.surjective)

lemma only_files_calls:
  "get_file d p k s = Some (pt, s') \<Longrightarrow> only_files s s'"
  "put_file q s = Some (rel, s') \<Longrightarrow> only_files s s'"
  "put_cur q s = Some (rel, s') \<Longrightarrow> only_files s s'"
  by (auto simp: get_file_def put_file_def put_cur_def bind_eq_Some_conv)

lemma only_files_simps:
  assumes "only_files s s'"
  shows "rs_store s' = rs_store s" "devices s' = devices s" "rs_disks s' = rs_disks s" "rs_alarms s' = rs_alarms s"
    "rs_events s' = rs_events s" "rec_disk s' = rec_disk s" "rec_part s' = rec_part s" "play_disk s' = play_disk s"
    "play_part s' = play_part s" "play_cur s' = play_cur s" "g_previous_headtime s' = g_previous_headtime s"
    "g_preview_sys_flag s' = g_preview_sys_flag s" "start_first_file_skip s' = start_first_file_skip s" "clock s' = clock s"
    "ticks s' = ticks s" "open_results s' = open_results s" "opens s' = opens s"
  by (subst assms [unfolded only_files_def], simp)+

section \<open>Finding a file\<close>

text \<open>It is the turn of disk \<open>d\<close>, whose state is \<open>st\<close>: the disks before it rest.\<close>

definition turn :: "disk_env \<Rightarrow> int \<Rightarrow> disk_state \<Rightarrow> rec_system \<Rightarrow> bool" where
  "turn E d st s \<longleftrightarrow> 0 \<le> d \<and> d < int (length (env_partitions E)) \<and> env_ok E d \<and> state_answers (rs_disks s) = [] \<and>
     state_files (rs_disks s) d = Some (Some st) \<and> IsRecording st = YES \<and>
     (\<forall>i. 0 \<le> i \<and> i < d \<and> env_ok E i \<longrightarrow>
        (\<exists>si. state_files (rs_disks s) i = Some (Some si) \<and> IsRecording si = NO \<and> iUseCapacity si \<noteq> 0))"

lemma get_state_ready:
  "state_answers (rs_disks s) = [] \<Longrightarrow> state_files (rs_disks s) d = Some (Some st') \<Longrightarrow> get_state d st s = (ALLRIGHT, st', s)"
  by (simp add: get_state_def FS_GetDiskCurrentState_def state_fopen_def next_state_answer_def)

lemma try_resting:
  assumes "state_answers (rs_disks s) = []"
    and "env_ok E i \<longrightarrow> (\<exists>si. state_files (rs_disks s) i = Some (Some si) \<and> IsRecording si = NO \<and> iUseCapacity si \<noteq> 0)"
  shows "\<exists>st'. try_disk E i st s = Some (Skip, st', s)"
proof (cases "env_ok E i")
  case True
  then obtain si where "state_files (rs_disks s) i = Some (Some si)" "IsRecording si = NO" "iUseCapacity si \<noteq> 0" using assms(2) by blast
  then show ?thesis using get_state_ready [OF assms(1), of i si st] True by (simp add: try_disk_def rel_codes)
qed (simp add: try_disk_def)

lemma try_disks_turn:
  assumes "turn E d st s" "\<And>st'. try_disk E d st' s = Some (c, st, s1)" "c \<noteq> Skip"
  shows "try_disks E (disk_ids E) st0 s = Some (c, st, s1)"
proof -
  have "try_disks E (map int [a..<length (env_partitions E)]) st0 s = Some (c, st, s1)" if "int a \<le> d" for a st0
    using that
  proof (induction "nat d - a" arbitrary: a st0)
    case 0
    then have a: "int a = d" "a < length (env_partitions E)" using assms(1) by (auto simp: turn_def)
    then show ?case using assms(2) [of st0] assms(3) by (simp add: upt_conv_Cons)
  next
    case (Suc n)
    then have a: "int a < d" "a < length (env_partitions E)" using assms(1) by (auto simp: turn_def)
    obtain st' where "try_disk E (int a) st0 s = Some (Skip, st', s)"
      using try_resting [of s E "int a" st0] assms(1) a by (auto simp: turn_def)
    then show ?case using Suc.hyps(1) [of "Suc a" st'] Suc.hyps(2) a by (simp add: upt_conv_Cons)
  qed
  from this [of 0] show ?thesis using assms(1) by (simp add: disk_ids_def turn_def)
qed

text \<open>At its turn a disk is asked for the file at its position.\<close>

lemma try_disk_turn:
  assumes t: "turn E d st s" and tab: "sys_table d (iPartitionId st) (int k) es s" "k < length es" "is_video (es ! k)"
  shows "\<exists>s1. only_files s s1 \<and> tables_kept sys_table {} s s1 \<and> (\<forall>st'. try_disk E d st' s =
    do { (c, s2) \<leftarrow> choose_file E d st (entry_point d (iPartitionId st) (int k) es k) s1; Some (c, st, s2) })"
proof -
  have u: "FS_GetFileUseInfo d (iPartitionId st) (rs_files s) = (ALLRIGHT, (int k, int (length es)), rs_files s)"
    using tab(1) by (simp add: FS_GetFileUseInfo_def table_at_def)
  have g: "get_state d st' s = (ALLRIGHT, st, s)" for st' using get_state_ready t by (simp add: turn_def)
  obtain s1 where s1: "get_file d (iPartitionId st) (int k) s = Some (Some (entry_point d (iPartitionId st) (int k) es k), s1)"
      "tables_kept sys_table {} s s1" using sys.get_at [OF tab] by blast
  have "YES \<noteq> NO" by (simp add: file_codes)
  then have "try_disk E d st' s =
      do { (c, s2) \<leftarrow> choose_file E d st (entry_point d (iPartitionId st) (int k) es k) s1; Some (c, st, s2) }" for st'
    using t u g s1(1) tab(2) by (simp add: try_disk_def turn_def rel_codes)
  then show ?thesis using s1 only_files_calls(1) by blast
qed

text \<open>Entries the recorder passes over.\<close>

definition unusable :: "disk_state \<Rightarrow> file_entry \<Rightarrow> bool" where
  "unusable st e \<longleftrightarrow> fi_states e \<noteq> NOWRITE \<and> fi_states e \<noteq> WRITEOVER \<and> \<not> (IsCover st = YES \<and> fi_states e = PLAYING)"

lemma pass_unusable:
  assumes t: "turn E d st s" and tab: "sys_table d (iPartitionId st) (int k) es s" "Suc k < length es" "is_video (es ! k)"
    and e: "unusable st (es ! k)"
  shows "\<exists>s1. FS_GetRecondFileName E st0 path reopen s = Some (FILESTATEERROR, path, reopen, s1) \<and> only_files s s1 \<and>
    sys_table d (iPartitionId st) (int (Suc k)) es s1 \<and> tables_kept sys_table {(d, iPartitionId st)} s s1"
proof -
  let ?p = "iPartitionId st" and ?q = "entry_point d (iPartitionId st) (int k) es k"
  obtain s1 where s1: "only_files s s1" "tables_kept sys_table {} s s1" "\<forall>st'. try_disk E d st' s =
      do { (c, s2) \<leftarrow> choose_file E d st ?q s1; Some (c, st, s2) }"
    using try_disk_turn [OF t tab(1) _ tab(3)] tab(2) by auto
  obtain s2 where s2: "put_cur (?q\<lparr>fp_cur := int k + 1\<rparr>) s1 = Some (ALLRIGHT, s2)" "sys_table d ?p (int k + 1) es s2"
      "tables_kept sys_table {(d, ?p)} s1 s2"
    using sys.put_pos_at [OF tables_keptD [OF s1(2) _ tab(1)], of "?q\<lparr>fp_cur := int k + 1\<rparr>"] by auto
  have "choose_file E d st ?q s1 = Some (Stop FILESTATEERROR, s2)"
    using e s2(1) tab(2) by (auto simp: choose_file_def state_wrong_def next_file_def unusable_def rel_codes)
  then have "try_disks E (disk_ids E) st0 s = Some (Stop FILESTATEERROR, st, s2)"
    using try_disks_turn [OF t, of "Stop FILESTATEERROR" s2] s1(3) by simp
  then have "FS_GetRecondFileName E st0 path reopen s = Some (FILESTATEERROR, path, reopen, s2)"
    by (simp add: FS_GetRecondFileName_def)
  then show ?thesis
    using s2 only_files_trans [OF s1(1) only_files_calls(3) [OF s2(1)]]
      tables_kept_trans [OF tables_kept_mono [OF s1(2)] s2(3)] by (auto simp: add.commute)
qed

definition file_chosen :: "int \<Rightarrow> int \<Rightarrow> int \<Rightarrow> rec_system \<Rightarrow> rec_system" where
  "file_chosen d p k s = set_logs ((sys_logs s)\<lparr>rec_cur_file := k\<rparr>) (s\<lparr>rec_disk := d, rec_part := p\<rparr>)"

lemma take_unused:
  assumes t: "turn E d st s" and tab: "sys_table d (iPartitionId st) (int k) es s" "k < length es" "is_video (es ! k)"
    and e: "fi_states (es ! k) = NOWRITE"
  shows "\<exists>s1. FS_GetRecondFileName E st0 path reopen s =
      Some (ALLRIGHT, tddvr_path E (entry_point d (iPartitionId st) (int k) es k), 1, file_chosen d (iPartitionId st) (int k) s1) \<and>
    only_files s s1 \<and> tables_kept sys_table {} s s1"
proof -
  let ?p = "iPartitionId st" and ?q = "entry_point d (iPartitionId st) (int k) es k"
  obtain s1 where s1: "only_files s s1" "tables_kept sys_table {} s s1" "\<forall>st'. try_disk E d st' s =
      do { (c, s2) \<leftarrow> choose_file E d st ?q s1; Some (c, st, s2) }"
    using try_disk_turn [OF t tab] by auto
  have "choose_file E d st ?q s1 = Some (Found (tddvr_path E ?q) True, file_chosen d ?p (int k) s1)"
    using e by (auto simp: choose_file_def take_file_def file_chosen_def rel_codes)
  then have "try_disks E (disk_ids E) st0 s = Some (Found (tddvr_path E ?q) True, st, file_chosen d ?p (int k) s1)"
    using try_disks_turn [OF t, of "Found (tddvr_path E ?q) True" "file_chosen d ?p (int k) s1"] s1(3) by simp
  then show ?thesis using s1(1,2) by (auto simp: FS_GetRecondFileName_def)
qed

lemma turn_only_files: "turn E d st s \<Longrightarrow> only_files s s' \<Longrightarrow> turn E d st s'"
  using only_files_simps(3) [of s s'] by (simp add: turn_def)

lemma ask_again_finds:
  assumes "turn E d st s" "sys_table d (iPartitionId st) (int k) es s" "list_all is_video es" "k \<le> m" "m < length es"
    and "\<And>j. k \<le> j \<Longrightarrow> j < m \<Longrightarrow> unusable st (es ! j)" "fi_states (es ! m) = NOWRITE"
  shows "\<exists>s1. ask_again E st0 FILESTATEERROR path reopen s =
      Some (ALLRIGHT, tddvr_path E (entry_point d (iPartitionId st) (int m) es m), 1, file_chosen d (iPartitionId st) (int m) s1) \<and>
    only_files s s1 \<and> sys_table d (iPartitionId st) (int m) es s1 \<and> tables_kept sys_table {(d, iPartitionId st)} s s1"
  using assms
proof (induction "m - k" arbitrary: k s)
  case 0
  then have k: "k = m" by simp
  have v: "is_video (es ! m)" using 0 by (auto simp: list_all_length)
  obtain s1 where s1: "FS_GetRecondFileName E st0 path reopen s =
      Some (ALLRIGHT, tddvr_path E (entry_point d (iPartitionId st) (int m) es m), 1, file_chosen d (iPartitionId st) (int m) s1)"
    "only_files s s1" "tables_kept sys_table {} s s1"
    using take_unused [of E d st s m es] 0 v k by blast
  have "ask_again E st0 FILESTATEERROR path reopen s =
      Some (ALLRIGHT, tddvr_path E (entry_point d (iPartitionId st) (int m) es m), 1, file_chosen d (iPartitionId st) (int m) s1)"
    by (subst ask_again.simps) (simp add: s1(1) file_codes rel_codes)
  then show ?case using s1(2) tables_keptD [OF s1(3)] 0(3) k tables_kept_mono [OF s1(3)] by auto
next
  case (Suc n)
  then have k: "k < m" "Suc k < length es" by auto
  have v: "is_video (es ! k)" using Suc.prems k by (auto simp: list_all_length)
  obtain s1 where s1: "FS_GetRecondFileName E st0 path reopen s = Some (FILESTATEERROR, path, reopen, s1)" "only_files s s1"
      "sys_table d (iPartitionId st) (int (Suc k)) es s1" "tables_kept sys_table {(d, iPartitionId st)} s s1"
    using pass_unusable [OF Suc.prems(1,2) k(2) v Suc.prems(6) [OF order_refl k(1)]] by blast
  have "ask_again E st0 FILESTATEERROR path reopen s = ask_again E st0 FILESTATEERROR path reopen s1"
    by (subst ask_again.simps) (simp add: s1(1) file_codes rel_codes)
  moreover have "n = m - Suc k" using Suc.hyps(2) by simp
  ultimately show ?case
    using Suc.hyps(1) [OF _ turn_only_files [OF Suc.prems(1) s1(2)] s1(3) Suc.prems(3) _ Suc.prems(5) _ Suc.prems(7)] k(1) Suc.prems(6)
      only_files_trans [OF s1(2)] tables_kept_trans [OF s1(4)] by auto
qed

end
