(* ===== verification/Rec_Runs.thy ===== *)
theory Rec_Runs
  imports Rec_Control
begin

text \<open>
  Runs of the recorder and the player over the whole store: the search for a free file, recording
  into it and finishing it, playing it. The proofs join the contract of the file tables
  (interpretation \<open>sys\<close>) with the invariants of the frame store.
\<close>

section \<open>Finding a free file\<close>

lemma find_file_finds:
  assumes "turn E d st s" "sys_table d (iPartitionId st) (int k) es s" "list_all is_video es" "k \<le> m" "m < length es"
    and "\<And>j. k \<le> j \<Longrightarrow> j < m \<Longrightarrow> unusable st (es ! j)" "fi_states (es ! m) = NOWRITE"
  shows "\<exists>s1. find_file E st0 reopen s =
      Some (ALLRIGHT, tddvr_path E (entry_point d (iPartitionId st) (int m) es m), 1, file_chosen d (iPartitionId st) (int m) s1) \<and>
    only_files s s1 \<and> sys_table d (iPartitionId st) (int m) es s1 \<and> tables_kept sys_table {(d, iPartitionId st)} s s1"
proof (cases "k = m")
  case True
  have v: "is_video (es ! m)" using assms(3,5) by (auto simp: list_all_length)
  obtain s1 where s1: "FS_GetRecondFileName E st0 [] reopen s =
      Some (ALLRIGHT, tddvr_path E (entry_point d (iPartitionId st) (int m) es m), 1, file_chosen d (iPartitionId st) (int m) s1)"
    "only_files s s1" "tables_kept sys_table {} s s1"
    using take_unused [of E d st s m es] assms v True by blast
  then show ?thesis using tables_keptD [OF s1(3)] assms(2) True tables_kept_mono [OF s1(3)]
    by (auto simp: find_file_def rel_codes)
next
  case False
  then have k: "k < m" "Suc k < length es" using assms(4,5) by auto
  have v: "is_video (es ! k)" using assms(3) k by (auto simp: list_all_length)
  obtain s1 where s1: "FS_GetRecondFileName E st0 [] reopen s = Some (FILESTATEERROR, [], reopen, s1)" "only_files s s1"
      "sys_table d (iPartitionId st) (int (Suc k)) es s1" "tables_kept sys_table {(d, iPartitionId st)} s s1"
    using pass_unusable [OF assms(1,2) k(2) v assms(6) [OF order_refl k(1)]] by blast
  have "find_file E st0 reopen s = ask_again E st0 FILESTATEERROR [] reopen s1"
    using s1(1) by (simp add: find_file_def file_codes)
  moreover obtain s2 where s2: "ask_again E st0 FILESTATEERROR [] reopen s1 =
      Some (ALLRIGHT, tddvr_path E (entry_point d (iPartitionId st) (int m) es m), 1, file_chosen d (iPartitionId st) (int m) s2)"
    "only_files s1 s2" "sys_table d (iPartitionId st) (int m) es s2" "tables_kept sys_table {(d, iPartitionId st)} s1 s2"
    using ask_again_finds [of E d st s1 "Suc k" es m st0 "[]" reopen]
      turn_only_files [OF assms(1) s1(2)] s1(3) assms(3,5,6,7) k(1) by auto
  ultimately show ?thesis
    using only_files_trans [OF s1(2) s2(2)] tables_kept_trans [OF s1(4) s2(4)] s2(1,3) by auto
qed

section \<open>Finishing a file\<close>

text \<open>The \<open>FILEINFO\<close> goes to the front of the header file, before the frames.\<close>

lemma write_info_ready:
  assumes r: "recording i fs s" and q: "quiet n i s" and l: "length info = 56"
  shows "\<exists>hf d. let s' = s\<lparr>rec_header_filest := hf, store_dev := d\<rparr> in
    write_info info s = (ALLRIGHT, close_rec_files s') \<and> recording i fs s' \<and> quiet n i s'"
proof -
  let ?f = "rec_header_filest s" and ?d = "store_dev s" and ?v = "nat (video_start (2 * i))"
  have o: "opened (2 * i) ?f ?d" "opened (2 * i + 1) (rec_data_filest s) ?d" "stored_frames i fs ?d"
    "int (56 + 36 * length fs) \<le> io_size ?f" using r by (auto simp: recording_def)
  have b: "diskoffset ?f = video_start (2 * i)" "disk_offset (io_info ?f) = video_start (2 * i)"
    "file_max_size (io_info ?f) = 3145728" "video_start (2 * i) + 3145728 \<le> int (dev_size ?d)" "io_size ?f \<le> 3145728"
    using o(1) by (auto simp: opened_def names_entry_def)
  have a: "dev_answers ?d = []" using q by (simp add: quiet_def)
  let ?f1 = "?f\<lparr>fileoffset := 0\<rparr>" and ?d1 = "?d\<lparr>dev_pos := ?v\<rparr>"
  have "IO_Lseek ?d (video_start (2 * i)) = (video_start (2 * i), ?d1)"
    using b video_bounds(1) [of "2 * i"] by (intro IO_Lseek_ok) auto
  then have s1: "file_io_lseek 0 0 ?f ?d = (video_start (2 * i), ?f1, ?d1)" "video_start (2 * i) \<noteq> - 1"
    using b o(1) video_bounds(1) [of "2 * i"] by (auto simp: file_io_lseek_def Let_def opened_def)
  have o1: "opened (2 * i) ?f1 ?d1" "placed ?f1 ?d1"
    using o(1) b video_bounds(1) [of "2 * i"] by (auto simp: opened_def placed_def)
  obtain q' h1 d1 where w: "file_io_write info ?f1 ?d1 = (q', h1, d1)" by (metis prod_cases3)
  have "IO_Write info ?d1 = (int (length info), ?d1\<lparr>dev_bytes := overlay (dev_bytes ?d1) (dev_pos ?d1) info, dev_pos := dev_pos ?d1 + length info\<rparr>)"
    using a b l video_bounds(1) [of "2 * i"] by (intro IO_Write_ready) (auto simp: nat_le_iff)
  then have q': "q' = 56" using w b l by (auto simp: file_io_write_def Let_def split: if_splits)
  have w1: "opened (2 * i) h1 d1" "io_info h1 = io_info ?f" "dev_size d1 = dev_size ?d"
    "dev_bytes d1 = overlay (dev_bytes ?d) ?v info" "io_size h1 = max (io_size ?f) 56" "dev_answers d1 = []"
    using file_io_write_result [OF w o1] q' l w \<open>IO_Write info ?d1 = _\<close> a b
    by (auto simp: file_io_write_def Let_def split: if_splits)
  have low: "low_kept ?d d1" unfolding low_kept_def w1(4) using w1(3,6) video_bounds(3) [of "2 * i"] by (auto simp: overlay_def le_nat_iff)
  have after: "?v + 56 \<le> nat (video_start (2 * i + 1))"
    using video_start_Suc [of "2 * i"] video_bounds(1) [of "2 * i"] by simp
  have "stored_frames i fs d1"
    using o(3) after l unfolding stored_frames_def header_bytes_def frame_bytes_def w1(4)
    by (simp add: segment_overlay_disjoint)
  moreover have "opened (2 * i + 1) (rec_data_filest s) d1" using opened_dev [OF o(2) w1(3)] .
  ultimately have "recording i fs (s\<lparr>rec_header_filest := h1, store_dev := d1\<rparr>)"
    using r w1 by (simp add: recording_def)
  moreover have "quiet n i (s\<lparr>rec_header_filest := h1, store_dev := d1\<rparr>)"
    using quiet_low_kept [OF q, of "s\<lparr>rec_header_filest := h1, store_dev := d1\<rparr>"] low w1(2) by simp
  moreover have "write_info info s = (ALLRIGHT, close_rec_files (s\<lparr>rec_header_filest := h1, store_dev := d1\<rparr>))"
    using s1 w q' by (simp add: write_info_def)
  ultimately show ?thesis unfolding Let_def by blast
qed

lemma length_fileinfo_bytes [simp]: "length (fileinfo_bytes max_video e) = 56"
  by (simp add: fileinfo_bytes_def int_word_def)


section \<open>Opening a free file\<close>

lemma give_dev_simps [simp]:
  "take_dev d (give_dev d fs s) = fs" "rs_store (give_dev d fs s) = fs" "rs_files (give_dev d fs s) = rs_files s"
  "rs_disks (give_dev d fs s) = rs_disks s" "rec_disk (give_dev d fs s) = rec_disk s" "rec_part (give_dev d fs s) = rec_part s"
  "open_results (give_dev d fs s) = open_results s" "opens (give_dev d fs s) = opens s"
  "g_previous_headtime (give_dev d fs s) = g_previous_headtime s" "g_preview_sys_flag (give_dev d fs s) = g_preview_sys_flag s"
  "clock (give_dev d fs s) = clock s" "ticks (give_dev d fs s) = ticks s"
  by (simp_all add: take_dev_def give_dev_def)

lemma take_dev_only_files: "only_files s s' \<Longrightarrow> take_dev d s' = take_dev d s"
  by (simp add: take_dev_def only_files_simps)

lemma tddvr_video_path:
  "fi_name (es ! m) = video_name m [] \<Longrightarrow> tddvr_path E (entry_point d 5 cur es m) = video_path (env_names E d) m"
  by (simp add: tddvr_path_def video_path_def video_name_def bytes_of_def dec.simps [of 5])

text \<open>The entry of a file that recording has started in.\<close>

definition started_entry :: "int \<Rightarrow> int \<Rightarrow> int \<Rightarrow> file_entry \<Rightarrow> file_entry" where
  "started_entry t std sz e = e\<lparr>fi_iDataEffect := NO, fi_states := WRITING, fi_ulOffSet := 56, StartTime := t, EndTime := 0,
     fi_VideoSize := sz, fi_mode := std\<rparr>"

definition start_time :: "rec_system \<Rightarrow> int" where
  "start_time s = (if g_previous_headtime s \<noteq> 0 then g_previous_headtime s else clock s (ticks s))"

lemma FS_OpenRecFile_free:
  assumes t: "turn E d st s" "iPartitionId st = 5" and tab: "sys_table d 5 (int k) es s" "list_all is_video es" "k \<le> m" "m < length es"
    and free: "\<And>j. k \<le> j \<Longrightarrow> j < m \<Longrightarrow> unusable st (es ! j)" "fi_states (es ! m) = NOWRITE"
    and nm: "fi_name (es ! m) = video_name m []" "length (env_names E d) = 3"
    and dev: "disk_ready n m (devices s (d, 6))"
    and op: "open_results s (opens s) = ((fd1, r1, t1), (fd2, r2, t2))" "0 < fd1" "r1 \<noteq> - 1" "0 < fd2" "r2 \<noteq> - 1"
    and mode: "0 \<le> std" "std \<le> 1" "0 \<le> sz" "sz \<le> 2" and log: "iNoChangeLog \<noteq> 1"
  shows "\<exists>s'. FS_OpenRecFile E st0 max_video std sz iCam iNoChangeLog s = Some (ALLRIGHT, s') \<and>
    recording m [] (take_dev d s') \<and> quiet n m (take_dev d s') \<and>
    sys_table d 5 (int m) (es[m := started_entry (start_time s) std sz (es ! m)]) s' \<and>
    rec_disk s' = d \<and> rec_part s' = 5 \<and> rs_disks s' = rs_disks s \<and> open_results s' = open_results s \<and> opens s' = Suc (opens s) \<and>
    sys_logs s' = (sys_logs s)\<lparr>pb_standard := std, pb_size := sz, rec_cur_file := int m\<rparr> \<and>
    g_rec_write_buf (rs_store s') = g_rec_write_buf (rs_store s) \<and> g_play_read_buf (rs_store s') = g_play_read_buf (rs_store s) \<and>
    tables_kept sys_table {(d, 5)} s s'"
proof -
  define s1 where "s1 = set_logs ((sys_logs s)\<lparr>pb_standard := std, pb_size := sz\<rparr>) s"
  have i1: "turn E d st s1" "sys_table d (iPartitionId st) (int k) es s1" using t tab by (simp_all add: s1_def turn_def set_logs_def)
  obtain s2 where s2: "find_file E st0 0 s1 = Some (ALLRIGHT, video_path (env_names E d) m, 1, file_chosen d 5 (int m) s2)"
      "only_files s1 s2" "sys_table d 5 (int m) es s2" "tables_kept sys_table {(d, 5)} s1 s2"
    using find_file_finds [OF i1 tab(2-4), of st0 0] free t(2) tddvr_video_path [OF nm(1), of E d "int m"] by auto
  define s4 where "s4 = (file_chosen d 5 (int m) s2)\<lparr>opens := Suc (opens s)\<rparr>"
  note same = only_files_simps [OF s2(2)]
  have f4: "rs_files s4 = rs_files s2" "rec_disk s4 = d" "rec_part s4 = 5" "rs_disks s4 = rs_disks s" "open_results s4 = open_results s"
    "opens s4 = Suc (opens s)" "devices s4 = devices s" "clock s4 = clock s" "ticks s4 = ticks s" "g_previous_headtime s4 = g_previous_headtime s"
    "rs_store s4 = (rs_store s)\<lparr>rec_logs := (sys_logs s)\<lparr>pb_standard := std, pb_size := sz, rec_cur_file := int m\<rparr>\<rparr>"
    using same by (simp_all add: s4_def file_chosen_def set_logs_def s1_def)
  have dev4: "disk_ready n m (store_dev (take_dev d s4))" using dev f4 by (simp add: take_dev_def)
  obtain hf df dv where o: "fs_open_record_file (fd1, r1, t1) (fd2, r2, t2) (video_path (env_names E d) m) 1 (take_dev d s4) =
      Some (ALLRIGHT, (take_dev d s4)\<lparr>rec_header_filest := hf, rec_data_filest := df, store_dev := dv\<rparr>)"
    "opened (2 * m) hf dv" "opened (2 * m + 1) df dv" "fileoffset hf = 0" "dev_answers dv = []" "table_ok n dv"
    "stored_info dv (2 * m) = io_info hf" "stored_info dv (2 * m + 1) = io_info df"
    using open_record_pair [OF dev4 op(2-5) nm(2), of t1 t2 1] by blast
  define fs5 where "fs5 = (take_dev d s4)\<lparr>rec_header_filest := hf, rec_data_filest := df, store_dev := dv\<rparr>"
  define s5 where "s5 = give_dev d fs5 s4"
  have t5: "sys_table d 5 (int m) es s5" using s2(3) f4(1) by (simp add: s5_def)
  have logs5: "rec_cur_file (sys_logs s5) = int m" using f4 by (simp add: s5_def fs5_def take_dev_def)
  have v: "is_video (es ! m)" using tab(2,4) by (auto simp: list_all_length)
  obtain s6 where s6: "get_file d 5 (int m) s5 = Some (Some (entry_point d 5 (int m) es m), s6)" "tables_kept sys_table {} s5 s6"
    using sys.get_at [OF t5 tab(4) v] by blast
  note same6 = only_files_simps [OF only_files_calls(1) [OF s6(1)]]
  define s7 where "s7 = s6\<lparr>ticks := Suc (ticks s6)\<rparr>"
  let ?e = "started_entry (start_time s) std sz (es ! m)" and ?q = "entry_point d 5 (int m) es m"
  have t7: "sys_table d 5 (int m) es s7" using tables_keptD [OF s6(2) _ t5] by (simp add: s7_def)
  have ve: "is_video ?e" using v by (simp add: started_entry_def)
  obtain s8 where s8: "put_file (?q\<lparr>fp_info := ?e\<rparr>) s7 = Some (ALLRIGHT, s8)" "sys_table d 5 (int m) (es[m := ?e]) s8"
      "tables_kept sys_table {(d, 5)} s7 s8"
    using sys.put_at [OF t7, of "?q\<lparr>fp_info := ?e\<rparr>" m] ve tab(4) by auto
  note same8 = only_files_simps [OF only_files_calls(2) [OF s8(1)]]
  have fs8: "take_dev d s8 = fs5"
    using same8 same6 by (simp add: take_dev_def s7_def s5_def give_dev_def)
  have n: "m < n" "2097152 + 288 * n \<le> 104857600" using dev by (auto simp: disk_ready_def)
  obtain hf' d' where st: "start_new_file (fileinfo_bytes max_video ?e) fs5 =
      (ALLRIGHT, fs5\<lparr>rec_header_filest := hf', store_dev := d', g_ulFrameHeaderOffset := 56, g_ulFileDataOffset := 0\<rparr>)"
    "recording m [] (fs5\<lparr>rec_header_filest := hf', store_dev := d', g_ulFrameHeaderOffset := 56, g_ulFileDataOffset := 0\<rparr>)"
    "quiet n m (fs5\<lparr>rec_header_filest := hf', store_dev := d', g_ulFrameHeaderOffset := 56, g_ulFileDataOffset := 0\<rparr>)"
    using start_new_file_ready [OF o(2-8) n, of fs5 "fileinfo_bytes max_video ?e"] by (auto simp: fs5_def)
  define fs9 where "fs9 = fs5\<lparr>rec_header_filest := hf', store_dev := d', g_ulFrameHeaderOffset := 56, g_ulFileDataOffset := 0\<rparr>"
  define s9 where "s9 = give_dev d fs9 s8"
  have eq: "(fp_info ?q)\<lparr>fi_iDataEffect := NO, fi_states := WRITING, fi_ulOffSet := 56,
      StartTime := (if g_previous_headtime s7 \<noteq> 0 then g_previous_headtime s7 else clock s6 (ticks s6)), EndTime := 0,
      fi_VideoSize := pb_size (sys_logs s7), fi_mode := pb_standard (sys_logs s7)\<rparr> = ?e"
    using same6 f4 by (simp add: started_entry_def start_time_def s7_def s5_def fs5_def take_dev_def)
  have start: "start_file max_video (clock s6 (ticks s6)) ?q s7 = Some (ALLRIGHT, s9)"
  proof -
    have "rec_disk s8 = d" using same8(6) same6(6) f4(2) by (simp add: s7_def s5_def)
    then show ?thesis unfolding start_file_def Let_def eq s8(1)
      using st(1) fs8 by (simp add: on_disk_def s9_def fs9_def rel_codes)
  qed
  have "FS_OpenRecFile E st0 max_video std sz iCam iNoChangeLog s = open_rec_file E st0 max_video iCam iNoChangeLog 0 s1"
    using mode by (simp add: FS_OpenRecFile_def s1_def)
  also have "\<dots> = Some (ALLRIGHT, s9)"
  proof -
    have opens: "next_opens (file_chosen d 5 (int m) s2) = (((fd1, r1, t1), (fd2, r2, t2)), s4)"
      using op(1) same by (simp add: next_opens_def s4_def file_chosen_def set_logs_def s1_def)
    have disk5: "on_disk_opt (rec_disk s4) (fs_open_record_file (fd1, r1, t1) (fd2, r2, t2) (video_path (env_names E d) m) 1) s4 =
        Some (ALLRIGHT, s5)"
      using o(1) f4(2) by (simp add: on_disk_opt_def s5_def fs5_def)
    have at5: "get_file (rec_disk s5) (rec_part s5) (rec_cur_file (sys_logs s5)) s5 = Some (Some ?q, s6)"
      using s6(1) f4(2,3) logs5 by (simp add: s5_def)
    have now: "get_sys_time s6 = (clock s6 (ticks s6), s7)" by (simp add: get_sys_time_def s7_def)
    show ?thesis
      unfolding open_rec_file.simps [of E st0 max_video iCam iNoChangeLog 0 s1] s2(1)
      using opens disk5 at5 now start free(2) log by (simp add: rel_codes log_start_def)
  qed
  finally have run: "FS_OpenRecFile E st0 max_video std sz iCam iNoChangeLog s = Some (ALLRIGHT, s9)" .
  have kept: "tables_kept sys_table {(d, 5)} s s9"
  proof -
    have "tables_kept sys_table {(d, 5)} s s2" using s2(4) by (simp add: s1_def set_logs_def tables_kept_def)
    also have "tables_kept sys_table {(d, 5)} s2 s5" using f4(1) by (simp add: s5_def tables_kept_def)
    also have "tables_kept sys_table {(d, 5)} s5 s7" using s6(2) by (auto simp: s7_def tables_kept_def)
    also have "tables_kept sys_table {(d, 5)} s7 s9" using s8(3) by (simp add: s9_def tables_kept_def)
    finally show ?thesis .
  qed
  have rest: "rec_disk s9 = d" "rec_part s9 = 5" "rs_disks s9 = rs_disks s" "open_results s9 = open_results s" "opens s9 = Suc (opens s)"
    using same8 same6 f4 by (simp_all add: s9_def s7_def s5_def)
  have store: "rec_logs fs9 = (sys_logs s)\<lparr>pb_standard := std, pb_size := sz, rec_cur_file := int m\<rparr>"
    "g_rec_write_buf fs9 = g_rec_write_buf (rs_store s)" "g_play_read_buf fs9 = g_play_read_buf (rs_store s)"
    using f4 by (simp_all add: fs9_def fs5_def take_dev_def)
  show ?thesis
    using run kept rest store s8(2) st(2,3) by (intro exI [of _ s9]) (simp add: s9_def fs9_def [symmetric])
qed


section \<open>Finishing a file\<close>

lemma flush_rec_cur_file:
  "FS_write_buf_write_to_file s = Some (r, s') \<Longrightarrow> rec_cur_file (rec_logs s') = rec_cur_file (rec_logs s)"
proof -
  have l: "fs_write_rec_size_to_log w = Some (r, w') \<Longrightarrow> rec_cur_file w' = rec_cur_file w" for w r w'
    by (auto simp: fs_write_rec_size_to_log_def bind_eq_Some_conv split: if_splits prod.splits)
  have d: "flush_done s = Some (r, s') \<Longrightarrow> rec_cur_file (rec_logs s') = rec_cur_file (rec_logs s)" for s r s'
    by (auto simp: flush_done_def Let_def bind_eq_Some_conv dest: l split: if_splits prod.splits)
  show "FS_write_buf_write_to_file s = Some (r, s') \<Longrightarrow> rec_cur_file (rec_logs s') = rec_cur_file (rec_logs s)"
    by (auto simp: FS_write_buf_write_to_file_def Let_def bind_eq_Some_conv case_prod_unfold dest!: d split: if_split_asm)
qed

lemma record_frames_rec_cur_file:
  "record_frames frames s = Some (r, s') \<Longrightarrow> rec_cur_file (rec_logs s') = rec_cur_file (rec_logs s)"
proof (induction frames arbitrary: s)
  case (Cons fr frames)
  obtain r1 s1 where 1: "FS_WriteOneFrame (fst fr) (snd fr) s = Some (r1, s1)"
      "if r1 < 0 then r = r1 \<and> s' = s1 else record_frames frames s1 = Some (r, s')"
    using Cons.prems by (auto simp: bind_eq_Some_conv split: if_splits)
  have "rec_cur_file (rec_logs s1) = rec_cur_file (rec_logs s)"
    using 1(1) by (auto simp: FS_WriteOneFrame_def Let_def bind_eq_Some_conv dest!: flush_rec_cur_file split: if_splits prod.splits)
  then show ?case using 1(2) Cons.IH [of s1] by (auto split: if_splits)
qed simp

text \<open>The entry of a finished file that holds \<open>fs\<close>.\<close>

definition finished_entry :: "nat \<Rightarrow> file_entry \<Rightarrow> file_entry \<Rightarrow> bool" where
  "finished_entry num e e' \<longleftrightarrow> fi_states e' = WRITEOVER \<and> fi_iDataEffect e' = EFFECT \<and> fi_ulOffSet e' = of_nat (56 + 36 * num) \<and>
     StartTime e' = StartTime e \<and> fi_name e' = fi_name e \<and> fi_VideoSize e' = fi_VideoSize e \<and> fi_mode e' = fi_mode e"

lemma move_on_last:
  assumes "\<not> fp_cur q + 1 < fp_total q" "put_cur (q\<lparr>fp_cur := 0\<rparr>) s = Some (ALLRIGHT, s1)" "last_partition E (rec_disk s1) = Some lst"
    and "put_state (rec_disk s1) (if iPartitionId st + 1 > lst then st\<lparr>iPartitionId := 5, IsRecording := NO\<rparr>
      else st\<lparr>iPartitionId := iPartitionId st + 1\<rparr>) s1 = (ALLRIGHT, s2)"
    and "put_cur (q\<lparr>fp_cur := 0\<rparr>) s2 = Some (ALLRIGHT, s3)"
  shows "move_on E st q s = Some (ALLRIGHT, s3)"
  using assms by (simp add: move_on_def rel_codes Let_def cong: if_cong)

lemma RecWriteOver_full:
  assumes r: "recording m fs (take_dev d s)" and q: "quiet n m (take_dev d s)" and buf: "buffered bs (g_rec_write_buf (rs_store s))"
    and log: "log_loaded (sys_logs s)" and i: "pair_ok m" and pos: "rec_disk s = d" "rec_part s = 5" "rec_cur_file (sys_logs s) = int m"
    and tab: "sys_table d 5 (int m) es s" "m < length es" "is_video (es ! m)"
    and st: "state_answers (rs_disks s) = []" "state_files (rs_disks s) d = Some (Some st)" "last_partition E d = Some lst"
  shows "\<exists>s' fs4 bs4 e'. RecWriteOver E st0 max_video FILEWRITEOVER s = Some (ALLRIGHT, s') \<and> fs4 @ bs4 = fs @ bs \<and>
    buffered bs4 (g_rec_write_buf (rs_store s')) \<and>
    (\<exists>s4. recording m fs4 s4 \<and> quiet n m s4 \<and> take_dev d s' = close_rec_files s4) \<and>
    finished_entry (length fs4) (es ! m) e' \<and>
    sys_table d 5 (if Suc m < length es then int (Suc m) else 0) (es[m := e']) s' \<and> tables_kept sys_table {(d, 5)} s s' \<and>
    (Suc m < length es \<longrightarrow> rs_disks s' = rs_disks s) \<and> g_play_read_buf (rs_store s') = g_play_read_buf (rs_store s) \<and>
    open_results s' = open_results s \<and> opens s' = opens s"
proof -
  have buf': "buffered bs (g_rec_write_buf (take_dev d s))" and log': "log_loaded (rec_logs (take_dev d s))"
    using buf log by (simp_all add: take_dev_def)
  obtain r1 fs1 fs4 bs4 where f: "FS_write_buf_write_to_file (take_dev d s) = Some (r1, fs1)" "recording m fs4 fs1"
      "buffered bs4 (g_rec_write_buf fs1)" "log_loaded (rec_logs fs1)" "others_kept m (take_dev d s) fs1" "quiet n m fs1"
      "fs4 @ bs4 = fs @ bs"
    using flush_all [OF r buf' log' i] q by blast
  define s1 where "s1 = give_dev d fs1 s"
  have "rec_cur_file (rec_logs fs1) = int m" using flush_rec_cur_file [OF f(1)] pos(3) by (simp add: take_dev_def)
  then have c1: "rec_cur_file (sys_logs s1) = int m" by (simp add: s1_def)
  have open1: "0 < fdno (rec_header_filest (rs_store s1))" using f(2) by (simp add: s1_def recording_def opened_def)
  have t1: "sys_table d 5 (int m) es s1" using tab(1) by (simp add: s1_def)
  obtain s2 where s2: "get_file d 5 (int m) s1 = Some (Some (entry_point d 5 (int m) es m), s2)" "tables_kept sys_table {} s1 s2"
    using sys.get_at [OF t1 tab(2,3)] by blast
  note same2 = only_files_simps [OF only_files_calls(1) [OF s2(1)]]
  define s3 where "s3 = s2\<lparr>ticks := Suc (ticks s2)\<rparr>"
  define now where "now = clock s2 (ticks s2)"
  let ?q = "entry_point d 5 (int m) es m"
  define e where "e = ended_entry FILEWRITEOVER now s3 (es ! m)"
  have g: "g_ulFrameHeaderOffset (rs_store s3) = of_nat (56 + 36 * length fs4)"
    using f(2) same2 by (simp add: s3_def s1_def recording_def)
  have fin: "finished_entry (length fs4) (es ! m) e"
    using g by (simp add: e_def ended_entry_def finished_entry_def stop_reasons)
  have ve: "is_video e" using tab(3) by (simp add: e_def ended_entry_def)
  have t3: "sys_table d 5 (int m) es s3" using tables_keptD [OF s2(2) _ t1] by (simp add: s3_def)
  obtain s4 where s4: "put_file (?q\<lparr>fp_info := e\<rparr>) s3 = Some (ALLRIGHT, s4)" "sys_table d 5 (int m) (es[m := e]) s4"
      "tables_kept sys_table {(d, 5)} s3 s4"
    using sys.put_at [OF t3, of "?q\<lparr>fp_info := e\<rparr>" m] ve tab(2) by auto
  note same4 = only_files_simps [OF only_files_calls(2) [OF s4(1)]]
  have d4: "take_dev d s4 = fs1" using same4 same2 by (simp add: take_dev_def s3_def s1_def give_dev_def)
  obtain hf dv where w: "write_info (fileinfo_bytes max_video e) fs1 = (ALLRIGHT, close_rec_files (fs1\<lparr>rec_header_filest := hf, store_dev := dv\<rparr>))"
      "recording m fs4 (fs1\<lparr>rec_header_filest := hf, store_dev := dv\<rparr>)" "quiet n m (fs1\<lparr>rec_header_filest := hf, store_dev := dv\<rparr>)"
    using write_info_ready [OF f(2,6), of "fileinfo_bytes max_video e"] unfolding Let_def by auto
  let ?fs = "fs1\<lparr>rec_header_filest := hf, store_dev := dv\<rparr>"
  define s5 where "s5 = give_dev d (close_rec_files ?fs) s4"
  have disk: "rec_disk s4 = d" "rs_disks s5 = rs_disks s" "rec_disk s5 = d"
    using same4 same2 pos(1) by (simp_all add: s3_def s1_def s5_def)
  have close: "g_rec_write_buf (close_rec_files ?fs) = g_rec_write_buf fs1" "g_play_read_buf (close_rec_files ?fs) = g_play_read_buf fs1"
    by (simp_all add: close_rec_files_def split: prod.splits)
  have t5: "sys_table d 5 (int m) (es[m := e]) s5" using s4(2) by (simp add: s5_def)
  have gs: "get_state (rec_disk s5) st0 s5 = (ALLRIGHT, st, s5)"
    using get_state_ready [of s5 d st st0] st disk(2,3) by simp
  have run: "RecWriteOver E st0 max_video FILEWRITEOVER s = move_on E st (?q\<lparr>fp_info := e\<rparr>) s5"
  proof -
    have "on_disk_opt (rec_disk s) FS_write_buf_write_to_file s = Some (r1, s1)"
      using f(1) pos(1) by (simp add: on_disk_opt_def s1_def)
    moreover have "get_file (rec_disk s1) (rec_part s1) (rec_cur_file (sys_logs s1)) s1 = Some (Some ?q, s2)"
      using s2(1) pos c1 by (simp add: s1_def)
    moreover have "get_sys_time s2 = (now, s3)" by (simp add: get_sys_time_def now_def s3_def)
    moreover have "on_disk (rec_disk s4) (write_info (fileinfo_bytes max_video e)) s4 = (ALLRIGHT, s5)"
      using w(1) d4 disk(1) by (simp add: on_disk_def s5_def)
    ultimately show ?thesis
      using open1 s4(1) gs by (simp add: RecWriteOver_def log_end_def e_def rel_codes stop_reasons)
  qed
  have kept5: "tables_kept sys_table {(d, 5)} s s5"
  proof -
    have "tables_kept sys_table {(d, 5)} s s3" using s2(2) by (auto simp: s3_def s1_def tables_kept_def)
    also have "tables_kept sys_table {(d, 5)} s3 s5" using s4(3) by (simp add: s5_def tables_kept_def)
    finally show ?thesis .
  qed
  let ?cur = "if Suc m < length es then int (Suc m) else 0"
  obtain s' where s': "move_on E st (?q\<lparr>fp_info := e\<rparr>) s5 = Some (ALLRIGHT, s')" "sys_table d 5 ?cur (es[m := e]) s'"
      "tables_kept sys_table {(d, 5)} s5 s'" "Suc m < length es \<longrightarrow> rs_disks s' = rs_disks s5" "rs_store s' = rs_store s5"
      "devices s' = devices s5" "open_results s' = open_results s5" "opens s' = opens s5"
  proof (cases "Suc m < length es")
    case True
    obtain s' where s': "put_cur (?q\<lparr>fp_info := e, fp_cur := int m + 1\<rparr>) s5 = Some (ALLRIGHT, s')" "sys_table d 5 (int m + 1) (es[m := e]) s'"
        "tables_kept sys_table {(d, 5)} s5 s'"
      using sys.put_pos_at [OF t5, of "?q\<lparr>fp_info := e, fp_cur := int m + 1\<rparr>"] by auto
    have "move_on E st (?q\<lparr>fp_info := e\<rparr>) s5 = Some (ALLRIGHT, s')"
      using s'(1) True by (simp add: move_on_def rel_codes)
    then show ?thesis
      using that s' only_files_simps [OF only_files_calls(3) [OF s'(1)]] True by (auto simp: add.commute)
  next
    case False
    then have len: "length es = Suc m" using tab(2) by simp
    let ?z = "?q\<lparr>fp_info := e, fp_cur := 0\<rparr>"
    obtain s6 where s6: "put_cur ?z s5 = Some (ALLRIGHT, s6)" "sys_table d 5 0 (es[m := e]) s6" "tables_kept sys_table {(d, 5)} s5 s6"
      using sys.put_pos_at [OF t5, of ?z] by auto
    note same6 = only_files_simps [OF only_files_calls(3) [OF s6(1)]]
    define st' where "st' = (if iPartitionId st + 1 > lst then st\<lparr>iPartitionId := 5, IsRecording := NO\<rparr>
      else st\<lparr>iPartitionId := iPartitionId st + 1\<rparr>)"
    define s7 where "s7 = s6\<lparr>rs_disks := (rs_disks s6)\<lparr>state_files := (state_files (rs_disks s6))(d \<mapsto> Some st')\<rparr>\<rparr>"
    have "state_answers (rs_disks s6) = []" "state_files (rs_disks s6) d = Some (Some st)" using same6 disk st by simp_all
    then have ps: "put_state d st' s6 = (ALLRIGHT, s7)"
      by (simp add: put_state_def FS_WriteDiskCurrentState_def state_fopen_def next_state_answer_def s7_def)
    have t7: "sys_table d 5 0 (es[m := e]) s7" using s6(2) by (simp add: s7_def)
    obtain s8 where s8: "put_cur ?z s7 = Some (ALLRIGHT, s8)" "sys_table d 5 0 (es[m := e]) s8" "tables_kept sys_table {(d, 5)} s7 s8"
      using sys.put_pos_at [OF t7, of ?z] by auto
    note same8 = only_files_simps [OF only_files_calls(3) [OF s8(1)]]
    have d6: "rec_disk s6 = d" using same6 disk by simp
    have "move_on E st (?q\<lparr>fp_info := e\<rparr>) s5 = Some (ALLRIGHT, s8)"
      using s6(1) s8(1) ps d6 st(3) len by (intro move_on_last [of _ _ s6 _ lst _ s7]) (simp_all add: st'_def)
    moreover have "tables_kept sys_table {(d, 5)} s5 s8"
      using tables_kept_trans [OF s6(3), of s8] s8(3) by (simp add: s7_def tables_kept_def)
    ultimately show ?thesis
      using that s8(2) same8 same6 len by (simp add: s7_def)
  qed
  have "take_dev d s' = close_rec_files ?fs" using s'(5,6) by (simp add: take_dev_def s5_def give_dev_def)
  moreover have "rs_store s' = close_rec_files ?fs" using s'(5) by (simp add: s5_def)
  moreover have "open_results s' = open_results s" "opens s' = opens s" using s'(7,8) same4 same2 by (simp_all add: s5_def s3_def s1_def)
  moreover have "g_play_read_buf fs1 = g_play_read_buf (rs_store s)" using f(5) by (simp add: others_kept_def take_dev_def)
  moreover have "Suc m < length es \<longrightarrow> rs_disks s' = rs_disks s" using s'(4) disk(2) by simp
  ultimately show ?thesis
    using run s'(1,2) f(3,7) fin w(2,3) close tables_kept_trans [OF kept5 s'(3)]
    by (intro exI [of _ s'] exI [of _ fs4] exI [of _ bs4] exI [of _ e]) (auto simp: simp del: of_nat_Suc)
qed


section \<open>Recording a file and playing it\<close>

text \<open>
  The calls of the recording thread for one file and of the player for one file. The player reads
  until the first code below zero.
\<close>

definition record_file :: "disk_env \<Rightarrow> disk_state \<Rightarrow> int \<Rightarrow> int \<Rightarrow> int \<Rightarrow> int \<Rightarrow> int \<Rightarrow> frame list \<Rightarrow> rec_system \<Rightarrow>
    (int \<times> rec_system) option" where
  "record_file E st0 max_video std sz iCam iNoChangeLog frames s = do {
     (rel, s1) \<leftarrow> FS_OpenRecFile E st0 max_video std sz iCam iNoChangeLog s;
     if rel < 0 then Some (rel, s1)
     else do {
       (rel, s2) \<leftarrow> on_disk_opt (rec_disk s1) (record_frames frames) s1;
       if rel < 0 then Some (rel, s2) else RecWriteOver E st0 max_video FILEWRITEOVER s2
     }
   }"

definition play_file :: "disk_env \<Rightarrow> nat \<Rightarrow> int \<Rightarrow> nat \<Rightarrow> nat \<Rightarrow> int \<Rightarrow> frame_header \<Rightarrow> int \<Rightarrow> int \<Rightarrow> int \<Rightarrow> rec_system \<Rightarrow>
    ((int \<times> frame_header \<times> byte list) list \<times> int \<times> rec_system) option" where
  "play_file E fuel max_chan vcap acap playCam hdr d p pos s = do {
     (rel, s1) \<leftarrow> OpenPlayFile E d p pos s;
     if rel < 0 then Some ([], rel, s1)
     else do {
       ((outs, rel), s2) \<leftarrow> on_disk_opt d (\<lambda>fs. do {
           (outs, rel, fs') \<leftarrow> play_frames fuel max_chan vcap acap playCam hdr fs;
           Some ((outs, rel), fs')
         }) s1;
       (_, s3) \<leftarrow> ClosePlayFile s2;
       Some (outs, rel, s3)
     }
   }"

lemma OpenPlayFile_finished:
  assumes tab: "sys_table d 5 cur es s" "m < length es" "is_video (es ! m)"
    and e: "fi_states (es ! m) = WRITEOVER" "fi_ulOffSet (es ! m) = of_nat (56 + 36 * length fs)"
    and nm: "fi_name (es ! m) = video_name m []" "length (env_names E d) = 3"
    and r: "recording m fs s4" "quiet n m s4" "take_dev d s = close_rec_files s4"
    and op: "open_results s (opens s) = ((fd1, r1, t1), (fd2, r2, t2))" "0 < fd1" "r1 \<noteq> - 1" "0 < fd2" "r2 \<noteq> - 1"
    and buf: "g_play_read_buf (rs_store s) = snd (buf_sys_init (Some a) (Some b))"
  shows "\<exists>s'. OpenPlayFile E d 5 (int m) s = Some (ALLRIGHT, s') \<and> playing m fs 0 (take_dev d s') \<and>
    play_disk s' = d \<and> play_part s' = 5 \<and> play_cur s' = int m \<and>
    sys_table d 5 cur (es[m := (es ! m)\<lparr>fi_states := PLAYING\<rparr>]) s' \<and> tables_kept sys_table {(d, 5)} s s'"
proof -
  let ?q = "entry_point d 5 cur es m" and ?e = "(es ! m)\<lparr>fi_states := PLAYING\<rparr>"
  obtain s1 where s1: "get_file d 5 (int m) s = Some (Some ?q, s1)" "tables_kept sys_table {} s s1"
    using sys.get_at [OF tab] by blast
  note same1 = only_files_simps [OF only_files_calls(1) [OF s1(1)]]
  define s2 where "s2 = s1\<lparr>opens := Suc (opens s1)\<rparr>"
  have o2: "next_opens s1 = (((fd1, r1, t1), (fd2, r2, t2)), s2)" using op(1) same1 by (simp add: next_opens_def s2_def)
  have d2: "take_dev d s2 = close_rec_files s4" using r(3) same1 by (simp add: take_dev_def s2_def)
  obtain hf df dv where c: "close_pair (rec_header_filest s4) (rec_data_filest s4) (store_dev s4) = (hf, df, dv)" by (metis prod_cases3)
  obtain fs3 where p: "fs_open_play_file (fd1, r1, t1) (fd2, r2, t2) (video_path (env_names E d) m) (close_rec_files s4) = Some (ALLRIGHT, fs3)"
      "play_files m fs (fs3\<lparr>ulPlayFrameHeaderEndOffset := of_nat (56 + 36 * length fs)\<rparr>)"
    using play_recording [OF r(1,2) op(2-5) nm(2) c, of t1 t2] c by (auto simp: close_rec_files_def)
  have keep: "g_play_read_buf fs3 = g_play_read_buf (close_rec_files s4)"
    using p(1) by (auto simp: fs_open_play_file_def bind_eq_Some_conv split: prod.splits)
  have "g_play_read_buf (close_rec_files s4) = g_play_read_buf (rs_store s)" using r(3) by (metis frame_store.select_convs(7) frame_store.update_convs(1) take_dev_def frame_store.surjective)
  then have cached: "cached fs 0 (g_play_read_buf fs3)" using keep buf cached_fresh [of fs 0 a b] by simp
  define s3 where "s3 = give_dev d fs3 s2"
  have t3: "sys_table d 5 cur es s3" using tables_keptD [OF s1(2) _ tab(1)] by (simp add: s3_def s2_def)
  obtain s5 where s5: "put_file (?q\<lparr>fp_info := ?e\<rparr>) s3 = Some (ALLRIGHT, s5)" "sys_table d 5 cur (es[m := ?e]) s5"
      "tables_kept sys_table {(d, 5)} s3 s5"
    using sys.put_at [OF t3, of "?q\<lparr>fp_info := ?e\<rparr>" m] tab(2,3) by auto
  note same5 = only_files_simps [OF only_files_calls(2) [OF s5(1)]]
  define s6 where "s6 = s5\<lparr>play_cur := int m, play_disk := d, play_part := 5, rs_store := begin_play (of_nat (56 + 36 * length fs)) (rs_store s5)\<rparr>"
  have "OpenPlayFile E d 5 (int m) s = Some (ALLRIGHT, s6)"
    using s1(1) o2 p(1) d2 e s5(1) tddvr_video_path [OF nm(1), of E d cur]
    by (simp add: OpenPlayFile_def on_disk_opt_def s3_def s6_def rel_codes)
  moreover have "take_dev d s6 = begin_play (of_nat (56 + 36 * length fs)) fs3"
    using same5 by (simp add: take_dev_def s6_def s3_def give_dev_def begin_play_def)
  then have "playing m fs 0 (take_dev d s6)" using p(2) cached by (simp add: playing_def begin_play_def play_files_def)
  moreover have "tables_kept sys_table {(d, 5)} s s6"
  proof -
    have "tables_kept sys_table {(d, 5)} s s3" using s1(2) by (auto simp: s3_def s2_def tables_kept_def)
    also have "tables_kept sys_table {(d, 5)} s3 s6" using s5(3) by (simp add: s6_def tables_kept_def)
    finally show ?thesis .
  qed
  ultimately show ?thesis using s5(2) by (intro exI [of _ s6]) (simp add: s6_def)
qed

lemma ClosePlayFile_playing:
  assumes tab: "sys_table d p cur es s" "m < length es" "is_video (es ! m)" "fi_states (es ! m) = PLAYING"
    and pos: "play_disk s = d" "play_part s = p" "play_cur s = int m"
  shows "\<exists>s'. ClosePlayFile s = Some (ALLRIGHT, s') \<and> sys_table d p cur (es[m := (es ! m)\<lparr>fi_states := WRITEOVER\<rparr>]) s' \<and>
    tables_kept sys_table {(d, p)} s s'"
proof -
  let ?q = "entry_point d p cur es m" and ?e = "(es ! m)\<lparr>fi_states := WRITEOVER\<rparr>"
  obtain s1 where s1: "get_file d p (int m) s = Some (Some ?q, s1)" "tables_kept sys_table {} s s1"
    using sys.get_at [OF tab(1-3)] by blast
  have t1: "sys_table d p cur es s1" using tables_keptD [OF s1(2) _ tab(1)] by simp
  obtain s2 where s2: "put_file (?q\<lparr>fp_info := ?e\<rparr>) s1 = Some (ALLRIGHT, s2)" "sys_table d p cur (es[m := ?e]) s2"
      "tables_kept sys_table {(d, p)} s1 s2"
    using sys.put_at [OF t1, of "?q\<lparr>fp_info := ?e\<rparr>" m] tab(2,3) by auto
  let ?s = "snd (on_disk (play_disk s2) (\<lambda>fs. (ALLRIGHT, close_play_files fs)) s2)"
  have "ClosePlayFile s = Some (ALLRIGHT, ?s)" using s1(1) s2(1) tab(4) pos by (simp add: ClosePlayFile_def on_disk_def rel_codes)
  moreover have "rs_files ?s = rs_files s2" by (simp add: on_disk_def)
  ultimately show ?thesis using s2(2) tables_kept_trans [OF tables_kept_mono [OF s1(2)] s2(3)]
    by (auto simp: tables_kept_def)
qed


section \<open>A system to try\<close>

definition demo_env :: disk_env where
  "demo_env = \<lparr>env_partitions = [[1, 5]], env_sizes = [[0, 0, 0]], env_names = \<lambda>_. bytes_of ''sda'', env_ok = \<lambda>_. True\<rparr>"

definition demo_state :: disk_state where
  "demo_state = (new_disk_state (2 ^ 30))\<lparr>IsRecording := YES, iUseCapacity := 1\<rparr>"

definition demo_system :: "blkdev \<Rightarrow> file_entry list \<Rightarrow> int \<Rightarrow> rec_system" where
  "demo_system dv es cur = \<lparr>rs_store = demo_store dv, devices = \<lambda>_. dv, rs_files = demo_table es cur,
     rs_disks = \<lparr>state_files = [0 \<mapsto> Some demo_state], state_answers = []\<rparr>,
     rs_alarms = fresh_point MAXMESSAGENUMBER alarm_zero 0, rs_events = fresh_point MAXMESSAGENUMBER event_zero 0,
     rec_disk = 0, rec_part = 5, play_disk = 0, play_part = 5, play_cur = 0, g_previous_headtime = 0, g_preview_sys_flag = 0,
     start_first_file_skip = False, clock = (\<lambda>k. 1700000000 + int k), ticks = 0,
     open_results = (\<lambda>k. ((3, 0, demo_now 1), (4, 0, demo_now 2))), opens = 0\<rparr>"

lemma demo_turn: "turn demo_env 0 demo_state (demo_system dv es cur)"
  by (simp add: turn_def demo_env_def demo_system_def demo_state_def)

lemma demo_state_part [simp]: "iPartitionId demo_state = 5" "IsCover demo_state = NO"
  by (simp_all add: demo_state_def new_disk_state_def)

lemma demo_system_simps [simp]:
  "rs_files (demo_system dv es cur) = demo_table es cur" "devices (demo_system dv es cur) = (\<lambda>_. dv)"
  "rs_store (demo_system dv es cur) = demo_store dv" "opens (demo_system dv es cur) = 0"
  "open_results (demo_system dv es cur) k = ((3, 0, demo_now 1), (4, 0, demo_now 2))"
  by (simp_all add: demo_system_def)

lemma demo_env_simps [simp]: "length (env_names demo_env d) = 3" "last_partition demo_env 0 = Some 5"
  by (simp_all add: demo_env_def bytes_of_def last_partition_def)

lemma new_entry_name: "fi_name (new_entry k) = video_name k []" "fi_states (new_entry k) = NOWRITE"
  by (simp_all add: new_entry_def)

section \<open>Properties\<close>

text \<open>C11: The search for a file to record to ends and finds the first free one. On the disk whose turn it is, at the
  position \<open>k\<close>, when the entries before \<open>m\<close> cannot be taken (bad, being written or being played) and
  entry \<open>m\<close> was never written, the retry loop of \<open>FS_OpenRecFile\<close> returns the path of file \<open>m\<close>, to be
  opened as a new file; the position in the table of this partition is then \<open>m\<close>, and nothing
  else in any table has changed.\<close>

theorem next_free_file_found:
  assumes "turn E d st s" "sys_table d (iPartitionId st) (int k) es s" "list_all is_video es" "k \<le> m" "m < length es"
    and "\<And>j. k \<le> j \<Longrightarrow> j < m \<Longrightarrow> unusable st (es ! j)" "fi_states (es ! m) = NOWRITE"
  shows "\<exists>s1. find_file E st0 0 s =
      Some (ALLRIGHT, tddvr_path E (entry_point d (iPartitionId st) (int m) es m), 1, file_chosen d (iPartitionId st) (int m) s1) \<and>
    sys_table d (iPartitionId st) (int m) es s1 \<and> tables_kept sys_table {(d, iPartitionId st)} s s1"
  using find_file_finds [OF assms] by blast

lemma next_free_file_found_witness:
  "\<exists>s1. find_file demo_env demo_state 0 (demo_system demo_dev [(new_entry 0)\<lparr>fi_states := BADFILE\<rparr>, (new_entry 1)\<lparr>fi_states := PLAYING\<rparr>, new_entry 2] 0) =
    Some (ALLRIGHT, bytes_of ''/tddvr/sda5/video_2'', 1, file_chosen 0 5 2 s1)"
proof -
  let ?es = "[(new_entry 0)\<lparr>fi_states := BADFILE\<rparr>, (new_entry 1)\<lparr>fi_states := PLAYING\<rparr>, new_entry 2]"
  have t: "table_at 0 (iPartitionId demo_state) (int 0) ?es (rs_files (demo_system demo_dev ?es 0))"
    using demo_table_at [of ?es 0] by (simp add: table_room_value)
  have u: "unusable demo_state (?es ! j)" if "j < 2" for j
    using that by (auto simp: unusable_def less_2_cases_iff file_codes)
  have p: "tddvr_path demo_env (entry_point 0 5 2 ?es 2) = bytes_of ''/tddvr/sda5/video_2''"
    by (simp add: tddvr_path_def demo_env_def new_entry_name video_name_def bytes_of_def dec.simps)
  from next_free_file_found [OF demo_turn t, of 2 demo_state] show ?thesis
    using u p new_entry_name by auto
qed

text \<open>The recording half: opening a free file, recording into it and finishing it.\<close>

lemma record_file_free:
  assumes t: "turn E d st s" "iPartitionId st = 5" and tab: "sys_table d 5 (int k) es s" "list_all is_video es" "k \<le> m" "m < length es"
    and free: "\<And>j. k \<le> j \<Longrightarrow> j < m \<Longrightarrow> unusable st (es ! j)" "fi_states (es ! m) = NOWRITE"
    and nm: "fi_name (es ! m) = video_name m []" "length (env_names E d) = 3" and lst: "last_partition E d = Some lst"
    and dev: "disk_ready n m (devices s (d, 6))"
    and op: "open_results s (opens s) = ((fd1, r1, t1), (fd2, r2, t2))" "0 < fd1" "r1 \<noteq> - 1" "0 < fd2" "r2 \<noteq> - 1"
    and mode: "0 \<le> std" "std \<le> 1" "0 \<le> sz" "sz \<le> 2" "iNoChangeLog \<noteq> 1"
    and buf: "buffered [] (g_rec_write_buf (rs_store s))" "log_loaded (sys_logs s)"
    and ok: "list_all (\<lambda>fr. frame_ok fr \<and> length (snd fr) \<le> 262144) frames"
  shows "\<exists>rel s1. record_file E st0 max_video std sz iCam iNoChangeLog frames s = Some (rel, s1) \<and>
    (0 \<le> rel \<longrightarrow> (\<exists>fs bs e s4. frames = fs @ bs \<and> buffered bs (g_rec_write_buf (rs_store s1)) \<and>
       finished_entry (length fs) (started_entry (start_time s) std sz (es ! m)) e \<and>
       sys_table d 5 (if Suc m < length es then int (Suc m) else 0) (es[m := e]) s1 \<and> tables_kept sys_table {(d, 5)} s s1 \<and>
       recording m fs s4 \<and> quiet n m s4 \<and> take_dev d s1 = close_rec_files s4 \<and>
       g_play_read_buf (rs_store s1) = g_play_read_buf (rs_store s) \<and> open_results s1 = open_results s \<and> opens s1 = Suc (opens s)))"
proof -
  let ?e1 = "started_entry (start_time s) std sz (es ! m)"
  let ?es = "es[m := ?e1]"
  obtain s1 where s1: "FS_OpenRecFile E st0 max_video std sz iCam iNoChangeLog s = Some (ALLRIGHT, s1)"
      "recording m [] (take_dev d s1)" "quiet n m (take_dev d s1)" "sys_table d 5 (int m) ?es s1"
      "rec_disk s1 = d" "rec_part s1 = 5" "rs_disks s1 = rs_disks s" "open_results s1 = open_results s" "opens s1 = Suc (opens s)"
      "sys_logs s1 = (sys_logs s)\<lparr>pb_standard := std, pb_size := sz, rec_cur_file := int m\<rparr>"
      "g_rec_write_buf (rs_store s1) = g_rec_write_buf (rs_store s)" "g_play_read_buf (rs_store s1) = g_play_read_buf (rs_store s)"
      "tables_kept sys_table {(d, 5)} s s1"
    using FS_OpenRecFile_free [OF t tab free nm dev op mode] by blast
  have i: "pair_ok m" using ready_pair [OF dev] .
  have st1: "buffered [] (g_rec_write_buf (take_dev d s1))" "log_loaded (rec_logs (take_dev d s1))" "resting []"
    using s1(10,11) buf by (simp_all add: take_dev_def log_loaded_def resting_def)
  obtain r2' fs2 j fs bs where f: "record_frames frames (take_dev d s1) = Some (r2', fs2)" "recording m fs fs2"
      "buffered bs (g_rec_write_buf fs2)" "log_loaded (rec_logs fs2)" "others_kept m (take_dev d s1) fs2" "quiet n m fs2"
      "fs @ bs = take j frames" "0 \<le> r2' \<longrightarrow> take j frames = frames"
    using record_frames_result [OF s1(2) st1(1,3,2) i ok, unfolded append_Nil] s1(3) by blast
  define s2 where "s2 = give_dev d fs2 s1"
  have run2: "on_disk_opt (rec_disk s1) (record_frames frames) s1 = Some (r2', s2)"
    using f(1) s1(5) by (simp add: on_disk_opt_def s2_def)
  have k2: "tables_kept sys_table {(d, 5)} s s2" using s1(13) by (simp add: s2_def tables_kept_def)
  have pb: "g_play_read_buf (rs_store s2) = g_play_read_buf (rs_store s)" "open_results s2 = open_results s" "opens s2 = Suc (opens s)"
    using f(5) s1(8,9,12) by (simp_all add: s2_def others_kept_def take_dev_def)
  show ?thesis
  proof (cases "r2' < 0")
    case True
    then show ?thesis using s1(1) run2 by (simp add: record_file_def rel_codes)
  next
    case False
    have c2: "rec_cur_file (sys_logs s2) = int m"
      using record_frames_rec_cur_file [OF f(1)] s1(10) by (simp add: s2_def take_dev_def)
    have t2: "sys_table d 5 (int m) ?es s2" "m < length ?es" "is_video (?es ! m)"
      using s1(4) tab(2,4) by (auto simp: s2_def started_entry_def list_all_length)
    have d2: "state_answers (rs_disks s2) = []" "state_files (rs_disks s2) d = Some (Some st)"
      using s1(7) t(1) by (simp_all add: s2_def turn_def)
    obtain s3 fs4 bs4 e where s3: "RecWriteOver E st0 max_video FILEWRITEOVER s2 = Some (ALLRIGHT, s3)" "fs4 @ bs4 = fs @ bs"
        "buffered bs4 (g_rec_write_buf (rs_store s3))"
        "\<exists>s4. recording m fs4 s4 \<and> quiet n m s4 \<and> take_dev d s3 = close_rec_files s4"
        "finished_entry (length fs4) (?es ! m) e"
        "sys_table d 5 (if Suc m < length ?es then int (Suc m) else 0) (?es[m := e]) s3" "tables_kept sys_table {(d, 5)} s2 s3"
        "g_play_read_buf (rs_store s3) = g_play_read_buf (rs_store s2)" "open_results s3 = open_results s2" "opens s3 = opens s2"
      using RecWriteOver_full [of m fs d s2 n bs, OF _ _ _ _ i _ _ c2 t2 d2 lst, of st0 max_video] f(2,3,4,6) s1(5,6)
      unfolding s2_def give_dev_simps by blast
    have "frames = fs4 @ bs4" using s3(2) f(7,8) False by simp
    moreover have "record_file E st0 max_video std sz iCam iNoChangeLog frames s = Some (ALLRIGHT, s3)"
      using s1(1) run2 s3(1) False by (simp add: record_file_def rel_codes)
    moreover have "finished_entry (length fs4) ?e1 e"
        "sys_table d 5 (if Suc m < length es then int (Suc m) else 0) (es[m := e]) s3"
      using s3(5,6) tab(4) by simp_all
    ultimately show ?thesis using s3(3,4,8-10) pb tables_kept_trans [OF k2 s3(7)]
      by - (rule exI [of _ ALLRIGHT], rule exI [of _ s3], metis)
  qed
qed

text \<open>The playing half: a finished file is played to its end and given back.\<close>

lemma play_file_finished:
  assumes tab: "sys_table d 5 cur es s" "m < length es" "is_video (es ! m)"
    and e: "fi_states (es ! m) = WRITEOVER" "fi_ulOffSet (es ! m) = of_nat (56 + 36 * length fs)"
    and nm: "fi_name (es ! m) = video_name m []" "length (env_names E d) = 3"
    and r: "recording m fs s4" "quiet n m s4" "take_dev d s = close_rec_files s4"
    and op: "open_results s (opens s) = ((fd1, r1, t1), (fd2, r2, t2))" "0 < fd1" "r1 \<noteq> - 1" "0 < fd2" "r2 \<noteq> - 1"
    and buf: "g_play_read_buf (rs_store s) = snd (buf_sys_init (Some a) (Some b))"
    and ok: "list_all (\<lambda>fr. snd fr \<noteq> [] \<and> length (snd fr) \<le> 524288) fs" "list_all (playable max_chan vcap acap) fs"
  shows "\<exists>s2. play_file E (Suc (length fs)) max_chan vcap acap playCam hdr d 5 (int m) s =
      Some (map (delivered playCam fs) [0..<length fs], PLAYOVER, s2) \<and> sys_table d 5 cur es s2 \<and> tables_kept sys_table {(d, 5)} s s2"
proof -
  let ?es = "es[m := (es ! m)\<lparr>fi_states := PLAYING\<rparr>]"
  obtain s5 where s5: "OpenPlayFile E d 5 (int m) s = Some (ALLRIGHT, s5)" "playing m fs 0 (take_dev d s5)"
      "play_disk s5 = d" "play_part s5 = 5" "play_cur s5 = int m" "sys_table d 5 cur ?es s5" "tables_kept sys_table {(d, 5)} s s5"
    using OpenPlayFile_finished [OF assms(1-16)] by blast
  obtain fs6 where p: "play_frames (Suc (length fs)) max_chan vcap acap playCam hdr (take_dev d s5) =
      Some (map (delivered playCam fs) [0..<length fs], PLAYOVER, fs6)"
    using play_frames_result [OF s5(2) _ ok] by fastforce
  define s6 where "s6 = give_dev d fs6 s5"
  have same: "(es ! m)\<lparr>fi_states := WRITEOVER\<rparr> = es ! m" using e(1) by (cases "es ! m") simp
  have t6: "sys_table d 5 cur ?es s6" using s5(6) by (simp add: s6_def)
  obtain s7 where s7: "ClosePlayFile s6 = Some (ALLRIGHT, s7)" "sys_table d 5 cur es s7" "tables_kept sys_table {(d, 5)} s6 s7"
    using ClosePlayFile_playing [OF t6, of m] s5(3-5) tab(2,3)
    by (auto simp: s6_def give_dev_def same)
  have "play_file E (Suc (length fs)) max_chan vcap acap playCam hdr d 5 (int m) s =
      Some (map (delivered playCam fs) [0..<length fs], PLAYOVER, s7)"
    using s5(1) p s7(1) by (simp add: play_file_def on_disk_opt_def s6_def rel_codes)
  moreover have "tables_kept sys_table {(d, 5)} s5 s7" using s7(3) by (simp add: s6_def tables_kept_def)
  ultimately show ?thesis using s7(2) tables_kept_trans [OF s5(7)] by blast
qed



text \<open>Playing leaves no trace in the table. \<open>OpenPlayFile\<close> marks a finished file as being played, which the
  recorder passes over while the disk is not yet going round, and puts the player between the
  \<open>FILEINFO\<close> and the end of the headers that the entry gives; \<open>ClosePlayFile\<close> makes every table what it was.\<close>

theorem play_open_close:
  assumes tab: "sys_table d 5 cur es s" "m < length es" "is_video (es ! m)"
    and e: "fi_states (es ! m) = WRITEOVER" "fi_ulOffSet (es ! m) = of_nat (56 + 36 * length fs)"
    and nm: "fi_name (es ! m) = video_name m []" "length (env_names E d) = 3"
    and r: "recording m fs s4" "quiet n m s4" "take_dev d s = close_rec_files s4"
    and op: "open_results s (opens s) = ((fd1, r1, t1), (fd2, r2, t2))" "0 < fd1" "r1 \<noteq> - 1" "0 < fd2" "r2 \<noteq> - 1"
    and buf: "g_play_read_buf (rs_store s) = snd (buf_sys_init (Some a) (Some b))"
  shows "\<exists>s1 s2. OpenPlayFile E d 5 (int m) s = Some (ALLRIGHT, s1) \<and> playing m fs 0 (take_dev d s1) \<and>
    sys_table d 5 cur (es[m := (es ! m)\<lparr>fi_states := PLAYING\<rparr>]) s1 \<and>
    unusable st ((es ! m)\<lparr>fi_states := PLAYING\<rparr>) = (IsCover st \<noteq> YES) \<and>
    ClosePlayFile s1 = Some (ALLRIGHT, s2) \<and> sys_table d 5 cur es s2 \<and> tables_kept sys_table {(d, 5)} s s2"
proof -
  let ?e = "(es ! m)\<lparr>fi_states := PLAYING\<rparr>"
  obtain s1 where s1: "OpenPlayFile E d 5 (int m) s = Some (ALLRIGHT, s1)" "playing m fs 0 (take_dev d s1)"
      "play_disk s1 = d" "play_part s1 = 5" "play_cur s1 = int m" "sys_table d 5 cur (es[m := ?e]) s1" "tables_kept sys_table {(d, 5)} s s1"
    using OpenPlayFile_finished [OF assms] by blast
  have "(es ! m)\<lparr>fi_states := WRITEOVER\<rparr> = es ! m" using e(1) by (cases "es ! m") simp
  then obtain s2 where "ClosePlayFile s1 = Some (ALLRIGHT, s2)" "sys_table d 5 cur es s2" "tables_kept sys_table {(d, 5)} s1 s2"
    using ClosePlayFile_playing [OF s1(6), of m] s1(3-5) tab(2,3) by auto
  then show ?thesis using s1 tables_kept_trans [OF s1(7)] by (auto simp: unusable_def)
qed

lemma play_open_close_witness:
  "\<exists>s s1 s2. OpenPlayFile demo_env 0 5 0 s = Some (ALLRIGHT, s1) \<and> ClosePlayFile s1 = Some (ALLRIGHT, s2) \<and>
    sys_table 0 5 0 [(new_entry 0)\<lparr>fi_ulOffSet := 56, fi_states := PLAYING\<rparr>] s1 \<and>
    sys_table 0 5 0 [(new_entry 0)\<lparr>fi_states := WRITEOVER, fi_ulOffSet := 56\<rparr>] s2"
proof -
  obtain s0 where s0: "recording 0 [] s0" "quiet 2 0 s0" using demo_recording by blast
  let ?buf = "snd (buf_sys_init (Some (\<lambda>_. 0)) (Some (\<lambda>_. 0)))" and ?es = "[(new_entry 0)\<lparr>fi_states := WRITEOVER, fi_ulOffSet := 56\<rparr>]"
  let ?s4 = "s0\<lparr>g_play_read_buf := ?buf\<rparr>"
  let ?s = "(demo_system (store_dev (close_rec_files ?s4)) ?es 0)\<lparr>rs_store := close_rec_files ?s4\<rparr>"
  have r: "recording 0 [] ?s4" "quiet 2 0 ?s4" using s0 by (simp_all add: recording_def quiet_def)
  have tab: "sys_table 0 5 0 ?es ?s" using demo_table_at [of ?es 0] by (simp add: table_room_value)
  have t: "take_dev 0 ?s = close_rec_files ?s4" by (simp add: take_dev_def)
  have b: "g_play_read_buf (rs_store ?s) = ?buf" by (simp add: close_rec_files_def split: prod.splits)
  have o: "open_results ?s (opens ?s) = ((3, 0, demo_now 1), (4, 0, demo_now 2))" by (simp add: demo_system_def)
  have "\<exists>s1 s2. OpenPlayFile demo_env 0 5 (int 0) ?s = Some (ALLRIGHT, s1) \<and> playing 0 [] 0 (take_dev 0 s1) \<and>
    sys_table 0 5 0 (?es[0 := (?es ! 0)\<lparr>fi_states := PLAYING\<rparr>]) s1 \<and>
    unusable demo_state ((?es ! 0)\<lparr>fi_states := PLAYING\<rparr>) = (IsCover demo_state \<noteq> YES) \<and>
    ClosePlayFile s1 = Some (ALLRIGHT, s2) \<and> sys_table 0 5 0 ?es s2 \<and> tables_kept sys_table {(0, 5)} ?s s2"
    by (rule play_open_close [OF tab _ _ _ _ _ demo_env_simps(1) r t o _ _ _ _ b]) (simp_all add: new_entry_name)
  then show ?thesis by auto
qed

section \<open>A new disk\<close>

lemma create_files_result:
  "answers lp = [] \<Longrightarrow> log_files lp key = Some f \<Longrightarrow>
   create_files n k key lp = (ALLRIGHT, k + n, lp\<lparr>log_files := (log_files lp)(key \<mapsto> f\<lparr>messages := messages f @ map new_entry [k..<k + n]\<rparr>)\<rparr>)"
proof (induction n arbitrary: k lp f)
  case 0
  then have "(log_files lp)(key \<mapsto> f) = log_files lp" by auto
  then show ?case by simp
next
  case (Suc n)
  let ?lp = "lp\<lparr>log_files := (log_files lp)(key \<mapsto> f\<lparr>messages := messages f @ [new_entry k]\<rparr>)\<rparr>"
  have "create_files n (Suc k) key ?lp = (ALLRIGHT, Suc k + n, ?lp\<lparr>log_files := (log_files ?lp)
      (key \<mapsto> (f\<lparr>messages := messages f @ [new_entry k]\<rparr>)\<lparr>messages := (messages f @ [new_entry k]) @ map new_entry [Suc k..<Suc k + n]\<rparr>)\<rparr>)"
    using Suc.IH [of ?lp "f\<lparr>messages := messages f @ [new_entry k]\<rparr>" "Suc k"] Suc.prems
    by (simp add: fun_upd_upd del: fun_upd_apply upt_Suc) (simp add: fun_upd_same)
  moreover have "[k..<k + Suc n] = k # [Suc k..<Suc k + n]" by (simp add: upt_conv_Cons)
  ultimately show ?case using Suc.prems by (simp add: fun_upd_upd del: fun_upd_apply upt_Suc)
qed

lemma video_start_pairs: "video_start (2 * k) = 104857600 + 134217728 * int k"
proof (induction k)
  case 0
  then show ?case by (simp add: video_start_0 IO_DISK_FILE_START_OFFSET_def)
next
  case (Suc k)
  have "video_start (2 * Suc k) = video_start (2 * k) + video_max (2 * k) + video_max (Suc (2 * k))"
    by (simp add: video_start_Suc)
  then show ?case using Suc by simp
qed

lemma formatted_ready:
  assumes f: "format_disk_to_io_sys fd ret0 fi0 now (int n * 128) d = (1, d')" "dev_answers d' = []" "length (file_name fi0) = 100"
    and n: "n < 2 ^ 10 * 300" "104857600 + 134217728 * int n \<le> int (dev_size d)" and k: "k < n"
  shows "disk_ready n k d'"
proof -
  have p: "pairs_of (int n * 128) = n" by (simp add: pairs_of_def)
  have size: "0 \<le> int n * 128" "int n * 128 < 2 ^ 31" "2 * 1024 * 1024 \<le> int (dev_size d)" using n by auto
  note lay = format_layout_aux [OF f(1,3) size, unfolded p]
  have e: "names_entry j (stored_info d' j)" "file_size (stored_info d' j) = 0" if "j < 2 * n" for j
    using lay(3) [of j] that by (simp_all add: is_entry_def)
  have fit: "video_start j + video_max j \<le> int (dev_size d')" if "j < 2 * n" for j
    using video_start_mono [OF that] n(2) lay(4) by (simp add: video_start_pairs)
  have "2097152 + 288 * int n \<le> int (dev_size d')" using n(2) lay(4) by simp
  then have "table_ok n d'" using lay(2) e n by (simp add: table_ok_def)
  then show ?thesis
    using f(2) k n e [of "2 * k"] e [of "2 * k + 1"] fit [of "2 * k"] fit [of "2 * k + 1"] video_bounds(2) [of "2 * k"]
      video_bounds(2) [of "2 * k + 1"]
    by (auto simp: disk_ready_def simp del: video_max_even video_max_odd)
qed

text \<open>C21: The table of a new partition matches the disk. When the files and the device answer,
  \<open>FS_CreateFileInfoLog\<close> writes one entry per pair of files that it has the device formatted with: entry \<open>k\<close> is unused and
  named \<open>video_k\<close>, the position is the first, and pair \<open>k\<close> of the device can be opened and lies inside
  the partition, because the number of files is computed from 99 hundredths of its size less five files.\<close>

theorem new_table_matches_disk:
  assumes lp: "answers lp = []" "fileBuf lp = Some b" "length (messages b) = table_room" "(iDiskId lp, iPatitionId lp) \<noteq> (d, p)"
    and key: "0 \<le> d" "5 \<le> p" and size: "0 \<le> psize" "psize \<le> (avail + 1) * 1024 * 1024"
    and n: "file_group 1 avail psize = int n" "n < table_room"
    and dev: "dev_answers (dev 6) = []" "psize * 1024 \<le> int (dev_size (dev 6))" "length (file_name fi0) = 100" "0 < fst form" "snd form \<noteq> - 1"
  shows "\<exists>dv lp'. FS_CreateFileInfoLog d p 1 nextp avail psize inval form fi0 now 0 dev lp = (ALLRIGHT, n, dev(6 := dv), lp') \<and>
    table_at d p 0 (map new_entry [0..<n]) lp' \<and> (\<forall>k < n. disk_ready n k dv) \<and>
    (\<forall>k < n. is_video (map new_entry [0..<n] ! k) \<and> fi_name (map new_entry [0..<n] ! k) = video_name k [] \<and>
       fi_states (map new_entry [0..<n] ! k) = NOWRITE)"
proof -
  have g: "int n = (psize - psize div 100) div MAXFILESIZE - 5" using n(1) size by (simp add: file_group_def)
  let ?x = "psize - psize div 100"
  have "131072 * (?x div 131072) \<le> ?x"
    using div_mult_mod_eq [of ?x 131072] pos_mod_sign [of 131072 ?x] by linarith
  then have "131072 * (int n + 5) \<le> ?x" using g by (simp add: MAXFILESIZE_def)
  moreover have "0 \<le> psize div 100" using size(1) by simp
  ultimately have "131072 * (int n + 5) \<le> psize" by (elim order_trans) simp
  then have "1024 * (131072 * int n + 655360) \<le> 1024 * psize" by (simp add: distrib_left)
  then have fit: "104857600 + 134217728 * int n \<le> int (dev_size (dev 6))" using dev(2) by (simp add: distrib_left mult.commute)
  have small: "n < 1600" using n(2) by (simp add: table_room_value)
  let ?d = "dev 6"
  have tl: "\<not> table_too_large (int n * 128 div 128)"
    using small by (simp add: table_too_large_def offset_defs uint_nat unsigned_of_nat take_bit_nat_eq_self unat_word_ariths)
  obtain dv where dv: "format_disk_to_io_sys (fst form) (snd form) fi0 now (int n * 128) ?d = (1, dv)" "dev_answers dv = []"
    using format_ready [OF dev(1,3) _ _ tl _ dev(4,5), of now] small fit by (auto simp: pairs_of_def)
  have ready: "disk_ready n k dv" if "k < n" for k
    using formatted_ready [OF dv dev(3) _ fit that] small by simp
  let ?es = "map new_entry [0..<n]" and ?f = "\<lparr>use_id = 0, use_total = int n, messages = []\<rparr>"
  let ?lp = "lp\<lparr>log_files := (log_files lp)((d, p) \<mapsto> ?f)\<rparr>"
  define lp' where "lp' = ?lp\<lparr>log_files := (log_files ?lp)((d, p) \<mapsto> ?f\<lparr>messages := messages ?f @ map new_entry [0..<0 + n]\<rparr>)\<rparr>"
  have "create_files n 0 (d, p) ?lp = (ALLRIGHT, 0 + n, lp')"
    unfolding lp'_def by (rule create_files_result) (simp_all add: lp(1))
  then have "FS_CreateFileInfoLog d p 1 nextp avail psize inval form fi0 now 0 dev lp = (ALLRIGHT, n, dev(6 := dv), lp')"
    using lp(1) size(2) n(1) dv(1) by (simp add: FS_CreateFileInfoLog_def)
  moreover have "table_at d p 0 ?es lp'" using lp key n(2) by (auto simp: lp'_def table_at_def)
  ultimately show ?thesis using ready by (intro exI [of _ dv] exI [of _ lp']) (simp add: new_entry_name)
qed

text \<open>A partition of 8 files.\<close>

lemma new_table_matches_disk_witness:
  "\<exists>dv lp'. FS_CreateFileInfoLog 0 5 1 6 2 (1073741824 div 1024) (3, 0) (3, 0) zero_info demo_now 0 (\<lambda>_. demo_dev\<lparr>dev_size := 1073741824\<rparr>)
      (demo_table [] 0) = (ALLRIGHT, 2, (\<lambda>_. demo_dev\<lparr>dev_size := 1073741824\<rparr>)(6 := dv), lp') \<and>
    table_at 0 5 0 [new_entry 0, new_entry 1] lp' \<and> disk_ready 2 1 dv"
proof -
  have g: "file_group 1 2 (1073741824 div 1024) = int 2" by (simp add: file_group_def MAXFILESIZE_def)
  show ?thesis
    using new_table_matches_disk [of "demo_table [] 0" _ 0 5 "1073741824 div 1024" 2 2 "\<lambda>_. demo_dev\<lparr>dev_size := 1073741824\<rparr>" zero_info "(3, 0)" 6 "(3, 0)" demo_now] g
    by (auto simp: demo_table_def table_room_value demo_dev_def zero_info_def numeral_2_eq_2)
qed

end
