(* ===== verification/Rec_Repair.thy ===== *)
theory Rec_Repair
  imports Rec_Runs
begin

text \<open>
  The repair of the files that a power failure left open, \<open>FS_FixFileInfo\<close> and \<open>FS_FixFile\<close> of
  \<open>src/FileSystem/filesystem/FSfileinfoop.c\<close>, and the making of all the logs of a disk,
  \<open>FS_BuildFileSystem\<close> of \<open>FSfileoperate.c\<close>.
\<close>

section \<open>Repairing a file\<close>

definition MAX_LOST_FRAME :: nat where "MAX_LOST_FRAME = 50"

text \<open>Every header read moves the file on, and reads end at its size.\<close>

lemma file_io_read_advances:
  "file_io_read 36 f d = (36, h, f1, d1) \<Longrightarrow> nat (file_size (io_info f1) - fileoffset f1) < nat (file_size (io_info f) - fileoffset f)"
  by (auto simp: file_io_read_def split: if_splits prod.splits)

text \<open>
  The walk over the frame headers: \<open>arr\<close> pairs \<open>last_time_array\<close> and \<open>last_offset_array\<close>. It ends
  at the end of the file, at a jump of more than three seconds from the last frame of the channel,
  or at a frame that lies behind the data.
\<close>

function scan_frames :: "int \<Rightarrow> u32 \<Rightarrow> u32 \<Rightarrow> u32 \<Rightarrow> (u32 \<times> u32) list \<Rightarrow> io_file \<Rightarrow> blkdev \<Rightarrow>
    (u32 \<times> u32) list \<times> io_file \<times> blkdev" where
  "scan_frames chan limit prev off arr f d =
     (let (r, h, f1, d1) = file_io_read 36 f d
      in if r \<noteq> 36 then (arr, f1, d1)
      else let v = sint (ulTimeSec h - prev)
      in if v > 3 \<or> v < - 3 \<or> ulFrameDataOffset h > limit then (arr, f1, d1)
      else if iChannel h = chan then scan_frames chan limit (ulTimeSec h) (off + 36) (tl arr @ [(ulTimeSec h, off)]) f1 d1
      else scan_frames chan limit prev (off + 36) arr f1 d1)"
  by pat_completeness auto

termination
proof (relation "measure (\<lambda>(chan, limit, prev, off, arr, f, d). nat (file_size (io_info f) - fileoffset f))",
    goal_cases)
  case 1
  then show ?case by simp
next
  case (2 chan limit prev off arr f d x r y h z f1 d1 v)
  then show ?case using file_io_read_advances [of f d h f1 d1] by auto
next
  case (3 chan limit prev off arr f d x r y h z f1 d1 v)
  then show ?case using file_io_read_advances [of f d h f1 d1] by auto
qed

declare scan_frames.simps [simp del]

definition info_offset_word :: "byte list \<Rightarrow> u32" where
  "info_offset_word info = le_decode (take 4 (drop 32 info))"

text \<open>\<open>stFileInfo\<close> with the end found.\<close>

definition ended_info :: "u32 \<Rightarrow> u32 \<Rightarrow> byte list \<Rightarrow> byte list" where
  "ended_info t off info = take 24 info @ u32_bytes t @ int_word (state_code WRITEOVER) @ u32_bytes off @ drop 36 info"

text \<open>
  The test of the first frame lets it pass when one of the three conditions holds. \<open>out\<close> are the
  variables behind \<open>time\<close> and \<open>ulOffset\<close>.
\<close>

definition fix_header :: "u32 \<Rightarrow> u32 \<times> u32 \<Rightarrow> io_file \<Rightarrow> blkdev \<Rightarrow> int \<times> (u32 \<times> u32) \<times> io_file \<times> blkdev" where
  "fix_header limit out f d =
     (let (r, f, d) = file_io_lseek 0 0 f d
      in if r = - 1 then (FILE_SIZE_ZERO_ERROR, out, f, d)
      else let (r, info, f, d) = file_io_read 56 f d
      in if r \<noteq> 56 then (FILE_SIZE_ZERO_ERROR, out, f, d)
      else let off = info_offset_word info; (r, f, d) = file_io_lseek (uint off) 0 f d
      in if r = - 1 then (FILEERROR, out, f, d)
      else let (r, h, f, d) = file_io_read 36 f d
      in if r \<noteq> 36 then (FILESEARCHERROR, out, f, d)
      else if hdr_type h \<noteq> VIDEO \<and> ulTimeSec h \<noteq> 0 \<and> ulFrameType h \<noteq> 1 then (FILESEARCHERROR, out, f, d)
      else let (arr, f, d) = scan_frames (iChannel h) limit (ulTimeSec h) (off + 36)
                 (replicate MAX_LOST_FRAME (ulTimeSec h, off + 36)) f d;
               (t, endoff) = hd arr;
               (r, f, d) = file_io_lseek 0 0 f d
      in if r = - 1 then (FILEERROR, (t, endoff), f, d)
      else let (r, f, d) = file_io_write (ended_info t endoff info) f d
      in (if r \<noteq> 56 then FILEERROR else ALLRIGHT, (t, endoff), f, d))"

definition raw_path :: "disk_env \<Rightarrow> int \<Rightarrow> int \<Rightarrow> byte list" where
  "raw_path E d p = bytes_of ''/dev/'' @ env_names E d @ dec (nat (p + 1))"

definition open_raw :: "disk_env \<Rightarrow> int \<Rightarrow> int \<Rightarrow> open_answer \<Rightarrow> byte list \<Rightarrow> blkdev \<Rightarrow> (int \<times> io_file \<times> blkdev) option" where
  "open_raw E d p a nam dv = (case a of (fd, ret0, t) \<Rightarrow> file_io_open fd ret0 t (raw_path E d p) nam ''+'' 0 dv)"

text \<open>
  Every way out closes both files; \<open>g0\<close> is the uninitialised \<open>filest2\<close>. Data of less than 2000
  bytes count as none.
\<close>

definition FS_FixFile :: "disk_env \<Rightarrow> io_file \<Rightarrow> int \<Rightarrow> int \<Rightarrow> int \<Rightarrow> u32 \<times> u32 \<Rightarrow> rec_system \<Rightarrow>
    (int \<times> (u32 \<times> u32) \<times> rec_system) option" where
  "FS_FixFile E g0 d p k out s = do {
     (pt, s1) \<leftarrow> get_file d p k s;
     (case pt of
        None \<Rightarrow> Some (ERROR, out, s1)
      | Some q \<Rightarrow>
          let nam = fi_name (fp_info q); ((a1, a2), s2) = next_opens s1;
              over = (\<lambda>rel out f g dv. case close_pair f g dv of
                (_, _, dv) \<Rightarrow> Some (rel, out, s2\<lparr>devices := (devices s2)((d, p + 1) := dv)\<rparr>))
          in do {
            (r, f, dv1) \<leftarrow> open_raw E d p a1 (nam @ bytes_of ''.avh'') (devices s2 (d, p + 1));
            if r < 0 then over FILE_SIZE_ZERO_ERROR out f g0 dv1
            else do {
              (r, g, dv2) \<leftarrow> open_raw E d p a2 (nam @ bytes_of ''.avd'') dv1;
              if r < 0 then over FILE_SIZE_ZERO_ERROR out f g dv2
              else let len = file_io_file_get_length g
              in if len < 2000 then over FILE_SIZE_ZERO_ERROR out f g dv2
              else let (rel, out', f', dv3) = fix_header (word_of_int len) out f dv2
              in over rel out' f' g dv3
            }
          })
   }"

section \<open>Repairing a table\<close>

text \<open>
  What an interrupted recording becomes. \<open>log_fixed\<close> writes its end to the recording log.
\<close>

definition log_fixed :: "int \<Rightarrow> int \<Rightarrow> int \<Rightarrow> rec_system \<Rightarrow> (int \<times> rec_system) option" where
  "log_fixed d p t s = do {
     (rel, w) \<leftarrow> FS_WriteEndInfotoRecLog d p t (sys_logs s);
     Some (if rel < 0 then rel else ALLRIGHT, set_logs w s)
   }"

definition fixed_entry :: "int \<Rightarrow> u32 \<times> u32 \<Rightarrow> file_entry \<Rightarrow> file_entry" where
  "fixed_entry rel out e =
     (if rel = ALLRIGHT then e\<lparr>fi_states := WRITEOVER, EndTime := sint (fst out), fi_ulOffSet := snd out, fi_iDataEffect := YES\<rparr>
      else if rel = FILESEARCHERROR then e\<lparr>fi_states := WRITEOVER, fi_iDataEffect := YES\<rparr>
      else if rel = FILE_SIZE_ZERO_ERROR then e\<lparr>fi_states := NOWRITE, fi_iDataEffect := NOEFFECT, StartTime := 0, EndTime := 0\<rparr>
      else e\<lparr>fi_states := BADFILE, EndTime := StartTime e + 5, fi_ulOffSet := snd out, fi_iDataEffect := NO\<rparr>)"

definition fix_writing :: "disk_env \<Rightarrow> io_file \<Rightarrow> int \<Rightarrow> int \<Rightarrow> int \<Rightarrow> u32 \<times> u32 \<Rightarrow> file_point \<Rightarrow> rec_system \<Rightarrow>
    (int \<times> (u32 \<times> u32) \<times> rec_system) option" where
  "fix_writing E g0 d p k out q s = do {
     (rel, out1, s1) \<leftarrow> FS_FixFile E g0 d p k out s;
     let e = fixed_entry rel out1 (fp_info q);
     (r, s2) \<leftarrow> put_file (q\<lparr>fp_info := e\<rparr>) s1;
     if r < 0 then Some (FILEERROR, out1, s2)
     else if rel = FILE_SIZE_ZERO_ERROR then Some (ALLRIGHT, out1, s2)
     else do {
       (r, s3) \<leftarrow> log_fixed d p (if rel = ALLRIGHT then sint (fst out1) else StartTime (fp_info q) + 5) s2;
       if r < 0 then Some (r, out1, s3)
       else if rel = ALLRIGHT \<or> rel = FILESEARCHERROR then Some (ALLRIGHT, out1, s3)
       else do {
         (_, s4) \<leftarrow> FS_CoverFileClearLog E (StartTime e) (EndTime e) (- 1) s3;
         (_, s5) \<leftarrow> FS_DelRecLogByFilePos E d p k s4;
         Some (ALLRIGHT, out1, s5)
       }
     }
   }"

text \<open>\<open>n\<close> entries are left from \<open>k\<close> on.\<close>

fun fix_entries :: "disk_env \<Rightarrow> io_file \<Rightarrow> int \<Rightarrow> int \<Rightarrow> nat \<Rightarrow> int \<Rightarrow> u32 \<times> u32 \<Rightarrow> rec_system \<Rightarrow> (int \<times> rec_system) option" where
  "fix_entries E g0 d p 0 k out s = Some (ALLRIGHT, s)"
| "fix_entries E g0 d p (Suc n) k out s = do {
     (pt, s1) \<leftarrow> get_file d p k s;
     (case pt of
        None \<Rightarrow> Some (ERROR, s1)
      | Some q \<Rightarrow> do {
          (rel, out1, s2) \<leftarrow> (case fi_states (fp_info q) of
              WRITING \<Rightarrow> fix_writing E g0 d p k out q s1
            | PLAYING \<Rightarrow> do {
                (r, s2) \<leftarrow> put_file (q\<lparr>fp_info := (fp_info q)\<lparr>fi_states := WRITEOVER\<rparr>\<rparr>) s1;
                Some (if r < 0 then FILEERROR else ALLRIGHT, out, s2)
              }
            | _ \<Rightarrow> Some (ALLRIGHT, out, s1));
          if rel < 0 then Some (rel, s2) else fix_entries E g0 d p n (k + 1) out1 s2
        })
   }"

definition FS_FixFileInfo :: "disk_env \<Rightarrow> io_file \<Rightarrow> u32 \<times> u32 \<Rightarrow> int \<Rightarrow> int \<Rightarrow> rec_system \<Rightarrow> (int \<times> rec_system) option" where
  "FS_FixFileInfo E g0 out0 d p s =
     (let (rel, (_, num), lp) = FS_GetFileUseInfo d p (rs_files s); s1 = s\<lparr>rs_files := lp\<rparr>
      in if rel < 0 then Some (ERROR, s1) else fix_entries E g0 d p (nat num) 0 out0 s1)"

section \<open>Making the logs of a disk\<close>

text \<open>
  The junk is in the local entries; \<open>ans j\<close> are the size found and the answers to the opens in the
  round of the \<open>j\<close>-th partition.
\<close>

record build_junk =
  junk_mark :: time_stick_message
  junk_alarm :: alarm_message
  junk_event :: event_message
  junk_info :: file_info

definition new_logs :: "build_junk \<Rightarrow> int \<Rightarrow> int \<Rightarrow> rec_system \<Rightarrow> int \<times> rec_system" where
  "new_logs J d p s =
     (let w = sys_logs s; (rel, lp) = FS_CreateRecordLog d p (rec_lp w); s = set_logs (w\<lparr>rec_lp := lp\<rparr>) s
      in if rel \<noteq> ALLRIGHT then (ERROR, s)
      else let w = sys_logs s; (rel, lp) = FS_CreateRecAddLog d p (add_lp w); s = set_logs (w\<lparr>add_lp := lp\<rparr>) s
      in if rel \<noteq> ALLRIGHT then (ERROR, s)
      else let w = sys_logs s; (rel, lp) = FS_CreateRecTimeStickLog (junk_mark J) d p (stick_lp w);
               s = set_logs (w\<lparr>stick_lp := lp\<rparr>) s
      in if rel \<noteq> ALLRIGHT then (ERROR, s)
      else let (rel, lp) = FS_CreateAlarmLog (junk_alarm J) d p (rs_alarms s); s = s\<lparr>rs_alarms := lp\<rparr>
      in if rel \<noteq> ALLRIGHT then (ERROR, s)
      else if p \<noteq> 5 then (ALLRIGHT, s)
      else let (rel, lp) = FS_CreateEventLog (junk_event J) d p (rs_events s); s = s\<lparr>rs_events := lp\<rparr>
      in (if rel \<noteq> ALLRIGHT then ERROR else ALLRIGHT, s))"

fun build_partitions :: "disk_env \<Rightarrow> build_junk \<Rightarrow> (nat \<Rightarrow> int \<times> (int \<times> int) \<times> (int \<times> int)) \<Rightarrow> (nat \<Rightarrow> tm) \<Rightarrow> int \<Rightarrow> nat list \<Rightarrow> nat \<Rightarrow>
    rec_system \<Rightarrow> int \<times> rec_system" where
  "build_partitions E J ans now d [] number s = (ALLRIGHT, s)"
| "build_partitions E J ans now d (j # js) number s =
     (let p = env_partitions E ! nat d ! j; (avail, inval, form) = ans j;
          (rel, number1, dev, lp) = FS_CreateFileInfoLog d p (int j) (env_partitions E ! nat d ! Suc j) avail
            (env_sizes E ! nat d ! Suc j) inval form (junk_info J) now number (\<lambda>p. devices s (d, p)) (rs_files s);
          s1 = s\<lparr>rs_files := lp, devices := (\<lambda>(e, p). if e = d then dev p else devices s (e, p))\<rparr>
      in if rel \<noteq> ALLRIGHT then (ERROR, s1)
      else let (rel, s2) = new_logs J d p s1
      in if rel \<noteq> ALLRIGHT then (rel, s2) else build_partitions E J ans now d js number1 s2)"

text \<open>
  \<open>mounted\<close> and \<open>unmounted\<close> are the answers of \<open>FS_MountAllPatition\<close> and \<open>FS_UMountAllPatition\<close>,
  \<open>bytes\<close> the size of the disk. \<open>partitionID\<close> and \<open>partitionSize\<close> are arrays, longer than
  \<open>partitionNum\<close>; an element that the lists do not have is not determined.
\<close>

definition FS_BuildFileSystem :: "disk_env \<Rightarrow> build_junk \<Rightarrow> (nat \<Rightarrow> int \<times> (int \<times> int) \<times> (int \<times> int)) \<Rightarrow> (nat \<Rightarrow> tm) \<Rightarrow> int \<Rightarrow> int \<Rightarrow>
    int \<Rightarrow> int \<Rightarrow> rec_system \<Rightarrow> int \<times> rec_system" where
  "FS_BuildFileSystem E J ans now mounted unmounted bytes d s =
     (if mounted \<noteq> ALLRIGHT then (d, s)
      else let (rel, s1) = build_partitions E J ans now d [1..<length (env_partitions E ! nat d)] 0 s
      in if rel \<noteq> ALLRIGHT then (ERROR, s1)
      else let (rel, dl) = FS_CreateDiskInfoLog (int (length (env_partitions E))) d bytes (rs_disks s1); s2 = s1\<lparr>rs_disks := dl\<rparr>
      in if rel \<noteq> ALLRIGHT then (ERROR, s2)
      else (if unmounted \<noteq> ALLRIGHT then ERROR else ALLRIGHT, s2))"


section \<open>What the repair leaves alone\<close>

lemma clear_parts_files:
  "clear_rec E a b d s = Some (r, s') \<Longrightarrow> rs_files s' = rs_files s"
  "clear_stick E a b d s = Some (r, s') \<Longrightarrow> rs_files s' = rs_files s"
  "clear_alarm E a b d s = Some (r, s') \<Longrightarrow> rs_files s' = rs_files s"
  by (auto simp: clear_rec_def clear_stick_def clear_alarm_def set_logs_def bind_eq_Some_conv)

lemma clear_logs_files:
  assumes "clear_logs E a b d s = Some (r, s')"
  shows "rs_files s' = rs_files s"
proof -
  obtain r1 s1 where 1: "clear_rec E a b d s = Some (r1, s1)" "\<not> r1 < 0 \<or> s' = s1"
    using assms by (auto simp: clear_logs_def bind_eq_Some_conv split: if_split_asm)
  show ?thesis
  proof (cases "r1 < 0")
    case True
    then show ?thesis using 1 clear_parts_files(1) by auto
  next
    case False
    obtain r2 s2 where 2: "clear_stick E a b d s1 = Some (r2, s2)" "\<not> r2 < 0 \<or> s' = s2"
      using assms 1(1) False by (auto simp: clear_logs_def bind_eq_Some_conv split: if_split_asm)
    show ?thesis
    proof (cases "r2 < 0")
      case True
      then show ?thesis using 1(1) 2 clear_parts_files(1,2) by metis
    next
      case r2: False
      obtain r3 where "clear_alarm E a b d s2 = Some (r3, s')"
        using assms 1(1) 2(1) False r2 by (auto simp: clear_logs_def bind_eq_Some_conv)
      then show ?thesis using 1(1) 2(1) clear_parts_files by metis
    qed
  qed
qed

lemma FS_CoverFileClearLog_files:
  "FS_CoverFileClearLog E a b d s = Some (r, s') \<Longrightarrow> rs_files s' = rs_files s"
proof (induction E a b d s arbitrary: r s' rule: FS_CoverFileClearLog.induct)
  case (1 E a b d s)
  let ?a = "set_301 a"
  let ?b = "clear_end ?a (set_301 b)"
  note eq = FS_CoverFileClearLog.simps [of E a b d s]
  show ?case
  proof (cases "\<bar>?b - ?a\<bar> > 24 * 3600")
    case True
    have run: "do {
        (rel, s1) \<leftarrow> FS_CoverFileClearLog E ?a (?a + 1800) d s;
        if rel < 0 then Some (rel, s1)
        else do {
          (rel, s2) \<leftarrow> FS_CoverFileClearLog E ?b (?b + 1800) d s1;
          Some (if rel < 0 then rel else ALLRIGHT, s2)
        }
      } = Some (r, s')"
      using "1.prems" unfolding eq Let_def by (simp only: True if_True)
    obtain r1 s1 where s1: "FS_CoverFileClearLog E ?a (?a + 1800) d s = Some (r1, s1)"
      using run by (cases "FS_CoverFileClearLog E ?a (?a + 1800) d s") auto
    have f1: "rs_files s1 = rs_files s" using "1.IH"(1) [OF refl refl True s1] .
    show ?thesis
    proof (cases "r1 < 0")
      case True
      then show ?thesis using run s1 f1 by simp
    next
      case False
      then obtain r2 where "FS_CoverFileClearLog E ?b (?b + 1800) d s1 = Some (r2, s')"
        using run s1 by (auto simp: bind_eq_Some_conv)
      then show ?thesis using "1.IH"(2) [OF refl refl True s1 refl False] f1 by auto
    qed
  next
    case False
    then have "clear_logs E ?a ?b d s = Some (r, s')" using "1.prems" unfolding eq Let_def by (simp only: if_False)
    then show ?thesis by (rule clear_logs_files)
  qed
qed

lemma FS_DelRecLogByFilePos_files: "FS_DelRecLogByFilePos E d p k s = Some (r, s') \<Longrightarrow> rs_files s' = rs_files s"
  by (auto simp: FS_DelRecLogByFilePos_def set_logs_def bind_eq_Some_conv split: if_splits)

lemma log_fixed_files: "log_fixed d p t s = Some (r, s') \<Longrightarrow> rs_files s' = rs_files s"
  by (auto simp: log_fixed_def set_logs_def bind_eq_Some_conv)

lemma FS_FixFile_tables:
  assumes tab: "sys_table d p cur es s" "k < length es" "is_video (es ! k)"
    and fix_: "FS_FixFile E g0 d p (int k) out s = Some (r, out', s')"
  shows "tables_kept sys_table {} s s'"
proof -
  obtain s1 where s1: "get_file d p (int k) s = Some (Some (entry_point d p cur es k), s1)" "tables_kept sys_table {} s s1"
    using sys.get_at [OF tab] by blast
  have "rs_files s' = rs_files s1"
    using fix_ s1(1) by (auto simp: FS_FixFile_def Let_def next_opens_def bind_eq_Some_conv case_prod_unfold split: if_split_asm)
  then show ?thesis using s1(2) by (simp add: tables_kept_def)
qed

text \<open>What becomes of an entry; \<open>e'\<close> is free, finished or bad.\<close>

definition repaired :: "file_entry \<Rightarrow> file_entry \<Rightarrow> bool" where
  "repaired e e' \<longleftrightarrow> (case fi_states e of
      WRITING \<Rightarrow> (\<exists>rel out. e' = fixed_entry rel out e)
    | PLAYING \<Rightarrow> e' = e\<lparr>fi_states := WRITEOVER\<rparr>
    | _ \<Rightarrow> e' = e)"

lemma fixed_entry_state: "fi_states (fixed_entry rel out e) \<in> {WRITEOVER, NOWRITE, BADFILE}"
  by (simp add: fixed_entry_def)

lemma fixed_entry_video [simp]: "is_video (fixed_entry rel out e) = is_video e"
  by (simp add: fixed_entry_def)

lemma repaired_state: "repaired e e' \<Longrightarrow> fi_states e' \<noteq> WRITING \<and> fi_states e' \<noteq> PLAYING"
  using fixed_entry_state by (cases "fi_states e") (auto simp: repaired_def fixed_entry_def split: if_splits)

lemma fix_writing_table:
  assumes tab: "sys_table d p cur es s" "k < length es" "is_video (es ! k)" "fi_states (es ! k) = WRITING"
    and fix_: "fix_writing E g0 d p (int k) out (entry_point d p cur es k) s = Some (r, out', s')" "\<not> r < 0"
  shows "\<exists>e'. sys_table d p cur (es[k := e']) s' \<and> repaired (es ! k) e' \<and> is_video e' \<and> tables_kept sys_table {(d, p)} s s'"
proof -
  let ?q = "entry_point d p cur es k"
  obtain rel out1 s1 where s1: "FS_FixFile E g0 d p (int k) out s = Some (rel, out1, s1)"
    using fix_(1) by (auto simp: fix_writing_def bind_eq_Some_conv)
  have k1: "tables_kept sys_table {} s s1" using FS_FixFile_tables [OF tab(1-3) s1] .
  have t1: "sys_table d p cur es s1" using tables_keptD [OF k1 _ tab(1)] by simp
  let ?e = "fixed_entry rel out1 (es ! k)"
  obtain s2 where s2: "put_file (?q\<lparr>fp_info := ?e\<rparr>) s1 = Some (ALLRIGHT, s2)" "sys_table d p cur (es[k := ?e]) s2"
      "tables_kept sys_table {(d, p)} s1 s2"
    using sys.put_at [OF t1, of "?q\<lparr>fp_info := ?e\<rparr>" k] tab(2,3) by auto
  have "rs_files s' = rs_files s2"
    using fix_ s1 s2(1)
    by (auto simp: fix_writing_def Let_def bind_eq_Some_conv rel_codes
        dest!: log_fixed_files FS_CoverFileClearLog_files FS_DelRecLogByFilePos_files split: if_split_asm)
  then have "sys_table d p cur (es[k := ?e]) s'" "tables_kept sys_table {(d, p)} s s'"
    using s2 tables_kept_trans [OF tables_kept_mono [OF k1] s2(3)] by (auto simp: tables_kept_def)
  moreover have "repaired (es ! k) ?e" unfolding repaired_def tab(4) file_state.case by blast
  ultimately show ?thesis using tab(3) by (intro exI [of _ ?e]) simp
qed

lemma fix_entries_table:
  assumes "sys_table d p cur es s" "list_all is_video es" "n + k = length es"
    and "fix_entries E g0 d p n (int k) out s = Some (ALLRIGHT, s')"
  shows "\<exists>es'. sys_table d p cur es' s' \<and> length es' = length es \<and> take k es' = take k es \<and>
    (\<forall>j < length es. k \<le> j \<longrightarrow> repaired (es ! j) (es' ! j)) \<and> tables_kept sys_table {(d, p)} s s'"
  using assms
proof (induction n arbitrary: k es out s)
  case 0
  then show ?case by (intro exI [of _ es]) auto
next
  case (Suc n)
  then have k: "k < length es" "is_video (es ! k)" by (auto simp: list_all_length)
  let ?q = "entry_point d p cur es k"
  obtain s1 where s1: "get_file d p (int k) s = Some (Some ?q, s1)" "tables_kept sys_table {} s s1"
    using sys.get_at [OF Suc.prems(1) k] by blast
  have t1: "sys_table d p cur es s1" using tables_keptD [OF s1(2) _ Suc.prems(1)] by simp
  have k1: "int k + 1 = int (Suc k)" by simp
  obtain out1 s2 e' where s2: "fix_entries E g0 d p n (int (Suc k)) out1 s2 = Some (ALLRIGHT, s')"
      "sys_table d p cur (es[k := e']) s2" "repaired (es ! k) e'" "is_video e'" "tables_kept sys_table {(d, p)} s1 s2"
  proof (cases "fi_states (es ! k)")
    case WRITING
    obtain r out1 s2 where w: "fix_writing E g0 d p (int k) out ?q s1 = Some (r, out1, s2)" "\<not> r < 0"
        "fix_entries E g0 d p n (int (Suc k)) out1 s2 = Some (ALLRIGHT, s')"
      using Suc.prems(4) s1(1) WRITING by (auto simp: bind_eq_Some_conv k1 rel_codes split: if_split_asm simp del: of_nat_Suc)
    then show ?thesis using that fix_writing_table [OF t1 k WRITING w(1,2)] by blast
  next
    case PLAYING
    let ?e = "(es ! k)\<lparr>fi_states := WRITEOVER\<rparr>"
    obtain s2 where w: "put_file (?q\<lparr>fp_info := ?e\<rparr>) s1 = Some (ALLRIGHT, s2)" "sys_table d p cur (es[k := ?e]) s2"
        "tables_kept sys_table {(d, p)} s1 s2"
      using sys.put_at [OF t1, of "?q\<lparr>fp_info := ?e\<rparr>" k] k by auto
    then have "fix_entries E g0 d p n (int (Suc k)) out s2 = Some (ALLRIGHT, s')"
      using Suc.prems(4) s1(1) PLAYING by (simp add: k1 rel_codes del: of_nat_Suc)
    then show ?thesis using that [of out s2 ?e] w(2,3) PLAYING k(2) by (simp add: repaired_def)
  qed (use Suc.prems(4) s1(1) that [of out s1 "es ! k"] t1 k in \<open>auto simp: k1 rel_codes repaired_def simp del: of_nat_Suc\<close>)
  have "list_all is_video (es[k := e'])" using Suc.prems(2) s2(4) by (rule list_all_update)
  then obtain es' where es': "sys_table d p cur es' s'" "length es' = length es" "take (Suc k) es' = take (Suc k) (es[k := e'])"
      "\<forall>j < length es. Suc k \<le> j \<longrightarrow> repaired (es[k := e'] ! j) (es' ! j)" "tables_kept sys_table {(d, p)} s2 s'"
    using Suc.IH [OF s2(2) _ _ s2(1)] Suc.prems(3) by auto
  have "es' ! k = e'" using arg_cong [OF es'(3), of "\<lambda>l. l ! k"] k(1) es'(2) by simp
  moreover have "take k es' = take k es" using arg_cong [OF es'(3), of "take k"] by (simp add: min_def)
  moreover have "repaired (es ! j) (es' ! j)" if "j < length es" "k \<le> j" for j
    using es'(4) s2(3) that \<open>es' ! k = e'\<close> by (cases "j = k") auto
  moreover have "tables_kept sys_table {(d, p)} s s'"
    using tables_kept_trans [OF tables_kept_trans [OF tables_kept_mono [OF s1(2)] s2(5)] es'(5)] by auto
  ultimately show ?case using es'(1,2) by blast
qed

section \<open>Properties\<close>

text \<open>C10: The repair after a power failure is complete. When \<open>FS_FixFileInfo\<close> reports success, whatever the raw
  partition, the recording log and the other logs answered, no entry of the table is being written or
  played any more: a file that was being played is finished as before, one that was being written is
  finished up to the end that \<open>FS_FixFile\<close> found, free again (no data), or bad; every other entry, the
  position and every other table are as they were.\<close>

theorem FS_FixFileInfo_completes:
  assumes "sys_table d p cur es s" "list_all is_video es"
    and "FS_FixFileInfo E g0 out0 d p s = Some (ALLRIGHT, s')"
  shows "\<exists>es'. sys_table d p cur es' s' \<and> list_all2 repaired es es' \<and>
    (\<forall>e \<in> set es'. fi_states e \<noteq> WRITING \<and> fi_states e \<noteq> PLAYING) \<and> tables_kept sys_table {(d, p)} s s'"
proof -
  have "FS_GetFileUseInfo d p (rs_files s) = (ALLRIGHT, (cur, int (length es)), rs_files s)"
    using assms(1) by (simp add: FS_GetFileUseInfo_def table_at_def)
  then have "fix_entries E g0 d p (length es) (int 0) out0 s = Some (ALLRIGHT, s')"
    using assms(3) by (simp add: FS_FixFileInfo_def rel_codes)
  with fix_entries_table [OF assms(1,2), of "length es" 0 E g0 out0 s']
  obtain es' where es': "sys_table d p cur es' s'" "length es' = length es"
      "\<forall>j < length es. 0 \<le> j \<longrightarrow> repaired (es ! j) (es' ! j)" "tables_kept sys_table {(d, p)} s s'"
    by auto
  then have "list_all2 repaired es es'" by (simp add: list_all2_conv_all_nth)
  moreover have "fi_states e \<noteq> WRITING \<and> fi_states e \<noteq> PLAYING" if "e \<in> set es'" for e
    using that es'(2,3) repaired_state by (auto simp: in_set_conv_nth)
  ultimately show ?thesis using es'(1,4) by blast
qed

lemma FS_FixFile_no_device:
  assumes "sys_table d p cur es s" "k < length es" "is_video (es ! k)"
    and "open_results s (opens s) = ((fd, r0, t), b)" "fd \<le> 0" "length (raw_path E d p) < 100" "length (fi_name (es ! k)) < 90"
    and "env_names E d \<noteq> []"
  shows "\<exists>s'. FS_FixFile E g0 d p (int k) out s = Some (FILE_SIZE_ZERO_ERROR, out, s') \<and> tables_kept sys_table {} s s'"
proof -
  obtain s1 where s1: "get_file d p (int k) s = Some (Some (entry_point d p cur es k), s1)" "tables_kept sys_table {} s s1"
    using sys.get_at [OF assms(1-3)] by blast
  note same = only_files_simps [OF only_files_calls(1) [OF s1(1)]]
  obtain fd2 r2 t2 where b: "b = (fd2, r2, t2)" by (cases b)
  have ne: "raw_path E d p \<noteq> []" "fi_name (es ! k) \<noteq> []" using assms(3) by (auto simp: raw_path_def bytes_of_def is_video_def)
  let ?f = "zero_file\<lparr>diskname := raw_path E d p, filename := fi_name (es ! k) @ bytes_of ''.avh'', fdno := fd\<rparr>"
  have o: "open_raw E d p (fd, r0, t) (fi_name (es ! k) @ bytes_of ''.avh'') dv = Some (- 1, ?f, dv)" for dv
    using assms(5,6,7) ne by (simp add: open_raw_def file_io_open_def bytes_of_def)
  have n: "next_opens s1 = (((fd, r0, t), b), s1\<lparr>opens := Suc (opens s1)\<rparr>)" using assms(4) same by (simp add: next_opens_def)
  obtain x y dv where c: "close_pair ?f g0 (devices s1 (d, p + 1)) = (x, y, dv)" by (metis prod_cases3)
  have "FS_FixFile E g0 d p (int k) out s = Some (FILE_SIZE_ZERO_ERROR, out,
      s1\<lparr>opens := Suc (opens s1), devices := (devices s1)((d, p + 1) := dv)\<rparr>)"
    using s1(1) n o b c by (simp add: FS_FixFile_def)
  then show ?thesis using s1(2) by (auto simp: tables_kept_def)
qed

text \<open>The raw partition cannot be opened: what was being written has no data.\<close>

lemma FS_FixFileInfo_no_device:
  assumes tab: "sys_table 0 5 cur [e0, e1] s" "is_video e0" "is_video e1" "fi_states e0 = PLAYING" "fi_states e1 = WRITING"
    and op: "\<And>j. open_results s j = ((- 1, 0, t), b)" and nm: "length (fi_name e1) < 90"
  shows "\<exists>s'. FS_FixFileInfo demo_env g0 out 0 5 s = Some (ALLRIGHT, s')"
proof -
  let ?e0 = "e0\<lparr>fi_states := WRITEOVER\<rparr>"
  obtain s1 where s1: "get_file 0 5 0 s = Some (Some (entry_point 0 5 cur [e0, e1] 0), s1)" "tables_kept sys_table {} s s1"
    using sys.get_at [OF tab(1), of 0] tab(2) by auto
  have t1: "sys_table 0 5 cur [e0, e1] s1" using tables_keptD [OF s1(2) _ tab(1)] by simp
  obtain s2 where s2: "put_file ((entry_point 0 5 cur [e0, e1] 0)\<lparr>fp_info := ?e0\<rparr>) s1 = Some (ALLRIGHT, s2)" "sys_table 0 5 cur [?e0, e1] s2"
    using sys.put_at [OF t1, of "(entry_point 0 5 cur [e0, e1] 0)\<lparr>fp_info := ?e0\<rparr>" 0] tab(2) by auto
  obtain s3 where s3: "get_file 0 5 1 s2 = Some (Some (entry_point 0 5 cur [?e0, e1] 1), s3)" "tables_kept sys_table {} s2 s3"
    using sys.get_at [OF s2(2), of 1] tab(3) by auto
  have t3: "sys_table 0 5 cur [?e0, e1] s3" using tables_keptD [OF s3(2) _ s2(2)] by simp
  have op3: "open_results s3 (opens s3) = ((- 1, 0, t), b)"
    using only_files_simps(16) [OF only_files_calls(1) [OF s3(1)]] only_files_simps(16) [OF only_files_calls(2) [OF s2(1)]]
      only_files_simps(16) [OF only_files_calls(1) [OF s1(1)]] op by simp
  obtain s4 where s4: "FS_FixFile demo_env g0 0 5 1 out s3 = Some (FILE_SIZE_ZERO_ERROR, out, s4)" "tables_kept sys_table {} s3 s4"
    using FS_FixFile_no_device [OF t3 _ _ op3, of 1 demo_env g0 out] nm tab(3)
    by (auto simp: raw_path_def demo_env_def bytes_of_def dec.simps)
  have t4: "sys_table 0 5 cur [?e0, e1] s4" using tables_keptD [OF s4(2) _ t3] by simp
  let ?e1 = "fixed_entry FILE_SIZE_ZERO_ERROR out e1"
  obtain s5 where s5: "put_file ((entry_point 0 5 cur [?e0, e1] 1)\<lparr>fp_info := ?e1\<rparr>) s4 = Some (ALLRIGHT, s5)"
    using sys.put_at [OF t4, of "(entry_point 0 5 cur [?e0, e1] 1)\<lparr>fp_info := ?e1\<rparr>" 1] tab(3) by auto
  have "fix_writing demo_env g0 0 5 1 out (entry_point 0 5 cur [?e0, e1] 1) s3 = Some (ALLRIGHT, out, s5)"
    using s4(1) s5 by (simp add: fix_writing_def rel_codes)
  then have "fix_entries demo_env g0 0 5 2 0 out s = Some (ALLRIGHT, s5)"
    using s1(1) s2(1) s3(1) tab(4,5) by (simp add: numeral_2_eq_2 rel_codes)
  moreover have "FS_GetFileUseInfo 0 5 (rs_files s) = (ALLRIGHT, (cur, 2), rs_files s)"
    using tab(1) by (simp add: FS_GetFileUseInfo_def table_at_def)
  ultimately show ?thesis by (simp add: FS_FixFileInfo_def rel_codes)
qed

lemma FS_FixFileInfo_completes_witness:
  "\<exists>s s'. FS_FixFileInfo demo_env zero_file (0, 0) 0 5 s = Some (ALLRIGHT, s') \<and>
    sys_table 0 5 1 [(new_entry 0)\<lparr>fi_states := PLAYING\<rparr>, (new_entry 1)\<lparr>fi_states := WRITING\<rparr>] s \<and>
    (\<exists>es'. sys_table 0 5 1 es' s' \<and> (\<forall>e \<in> set es'. fi_states e \<noteq> WRITING \<and> fi_states e \<noteq> PLAYING))"
proof -
  define es where "es = [(new_entry 0)\<lparr>fi_states := PLAYING\<rparr>, (new_entry 1)\<lparr>fi_states := WRITING\<rparr>]"
  define s where "s = (demo_system demo_dev es 1)\<lparr>open_results := (\<lambda>_. ((- 1, 0, demo_now 1), (- 1, 0, demo_now 1)))\<rparr>"
  have tab: "sys_table 0 5 1 es s" "list_all is_video es"
    using demo_table_at [of es 1] by (simp_all add: s_def es_def table_room_value)
  obtain s' where s': "FS_FixFileInfo demo_env zero_file (0, 0) 0 5 s = Some (ALLRIGHT, s')"
    using FS_FixFileInfo_no_device [OF tab(1) [unfolded es_def], of "demo_now 1" "(- 1, 0, demo_now 1)" zero_file "(0, 0)"]
    by (auto simp: s_def new_entry_name video_name_def bytes_of_def dec.simps)
  obtain es' where "sys_table 0 5 1 es' s'" "\<forall>e \<in> set es'. fi_states e \<noteq> WRITING \<and> fi_states e \<noteq> PLAYING"
    using FS_FixFileInfo_completes [OF tab s'] by blast
  then show ?thesis using s' tab(1) unfolding es_def by blast
qed

end
