(* ===== verification/Spec2Isabelle.thy ===== *)
theory Spec2Isabelle
  imports Net_Lifecycle Net_Watch Buf_List Sll G711 Config_File Io_File Aes_EnDe Rec_Repair
begin

text \<open>
  A model of the core of the IP-camera firmware under \<open>src/\<close>: the buffers its threads pass
  frames through, the disk store it records to, and the codecs and setting files beside them.

  \<^bold>\<open>The program.\<close> The encoder threads of \<open>avicodelib/fic8120ctrl.c\<close> take compressed frames from
  the driver and hand them on in three ways: through byte rings (\<open>avicodelib/buf_array.c\<close>) to
  the recorder and the network side, through slot rings (\<open>avicodelib/bufmanage.c\<close>) between
  driver and file system, and through a singly linked list
  (\<open>avicodelib/singly_linked_list.c\<close>) from which network readers lock items by number while
  they send them. \<open>avicodelib/NetModule.c\<close> gives every client a connection: a ring of commands that a
  sender thread drains, a receiver that calls the server back, and a thread that watches both and takes
  the connection down; on the port of the video recorders the commands pass through
  \<open>avicodelib/nvr_ipcam_protocol.c\<close>. Viewers connect to \<open>avicodelib/netserver.c\<close>: they log in, and their commands
  start and stop views, play files, change settings and run programs. Audio is compressed by \<open>avicodelib/G711_lib.c\<close>. Settings are kept in text
  files by \<open>avicodelib/string_op_func.c\<close> and \<open>avicodelib/config_file.c\<close>. The recorder writes
  into pre-allocated files on a raw partition, \<open>filesystem/IOFile.c\<close>. Beside these files it keeps
  small log files on an ordinary partition, rings of fixed-size entries behind a use header that
  the server and its clients read to find a recording, a time mark, an alarm or an event:
  \<open>filesystem/FSrecordop.c\<close>, \<open>FSalarmop.c\<close>, \<open>FSEventInfo.c\<close> and the functions of
  \<open>FSfileoperate.c\<close> that create and clear them. Which pair of files is written next, and which are
  finished, free or being played, is kept in a table of files per partition
  (\<open>filesystem/FSfileinfoop.c\<close>) and a state per disk (\<open>FSdiskinfoop.c\<close>); \<open>FSfileoperate.c\<close> goes
  through them to open and finish recordings and playbacks. Passwords are enciphered by
  \<open>avicodelib/AES_EnDe.c\<close>. The paths are relative to \<open>src/FileSystem\<close>.

  \<^bold>\<open>The theories.\<close>
  \<^item> \<open>Ipc_Base\<close>: the prelude. Bounds-checked block access (\<open>mem_read\<close>, \<open>mem_write\<close>), views of a
    ring (\<open>ring_view\<close>) with the two-piece write and read they share, and little-endian codecs.
  \<^item> \<open>Frame_Queue\<close>: \<open>BUF_FRAMEHEADER\<close> of \<open>MacBaseData.h\<close> and the locale \<open>frame_queue\<close>, the contract
    of a bounded queue: a representation relation that every accepted insert extends at one
    end and every accepted fetch shortens at the other, from which \<open>fifo_order\<close> follows for
    all interleavings.
  \<^item> \<open>Cycle_Buffer\<close>: \<open>CYCLE_BUFFER\<close> and its operations, function by function. The positions \<open>in\<close>
    and \<open>out\<close> run freely over 32 bits; \<open>cb_ok\<close> is the invariant and \<open>cb_contents\<close> the abstract
    content.
  \<^item> \<open>Frame_Fifo\<close>: \<open>insert_enc_buf\<close>, \<open>get_enc_buf\<close>, \<open>insert_net_buf\<close>, \<open>get_net_buf\<close>, their gates and the
    frame-rate counters of \<open>fic8120ctrl.c\<close>; interpretations \<open>enc\<close> and \<open>net\<close> of \<open>frame_queue\<close>.
  \<^item> \<open>Nvr_Protocol\<close>: the structures and conversions of \<open>nvr_ipcam_protocol.c\<close> and their round trips.
  \<^item> \<open>Net_Sender\<close>: the socket as a stream of bytes with the kernel's answers, \<open>NET_MODULE_ST\<close>,
    \<open>NM_net_send_data\<close>, \<open>NM_net_send_data_direct\<close>, \<open>NM_get_buf\<close> and the rounds of the sender thread;
    interpretation \<open>sender\<close>.
  \<^item> \<open>Net_Link\<close>: the receive side, \<open>NM_command_recv_data\<close> and its version on the heap. Locale
    \<open>command_link\<close> extends \<open>frame_queue\<close> by what comes behind the ring, the wire and the receiver, and
    shows that a connection delivers in order.
  \<^item> \<open>Net_Connection\<close>: interpretation \<open>link\<close> of it on the model of both sides, with the properties of a
    connection.
  \<^item> \<open>Net_Lifecycle\<close>: \<open>NM_ini_st\<close>, \<open>NM_reset\<close>, and the threads of a client as the step relation \<open>net_step\<close>:
    accepting or calling, creating the threads, their ends, the checker, \<open>NM_destroy_work_thread\<close> split
    at the places where others can come in. \<open>closing\<close> is the invariant of a connection with one checker,
    \<open>left\<close> the steps it still needs.
  \<^item> \<open>Net_Session\<close>: the view server's slots (\<open>NETSOCKET\<close>) and connections, \<open>clear_client\<close>, accepting, kicking, and
    the login \<open>op_user_info\<close>. \<open>Net_Command\<close>: \<open>process_command\<close> with every command, and the loop of
    \<open>net_server_process\<close>. \<open>Net_Login\<close>: the invariant \<open>slots_ok\<close>, which messages log in whom. \<open>Net_Server\<close>: the
    reachable states \<open>server_run\<close>, with the connections that presented a password as a ghost set, and what the
    commands do for whom. \<open>Net_Viewers\<close>: the rounds of the sender thread, \<open>send_other_info_data\<close>, \<open>send_img_data\<close>
    and \<open>check_play_status\<close>; they are steps of \<open>server_run\<close> too. \<open>Net_Watch\<close>: what the viewers are sent.
  \<^item> \<open>Buf_List\<close>: \<open>BUFLIST\<close> and all of \<open>bufmanage.c\<close>; interpretation \<open>slots\<close>.
  \<^item> \<open>Sll\<close>: the list over a heap of nodes and a heap of data blocks, with \<open>DC_InsertListData\<close> and
    \<open>DC_ClearListData\<close> of \<open>fic8120ctrl.c\<close>.
  \<^item> \<open>G711\<close>: tables, encoders, decoders, transcoders and buffer functions of \<open>G711_lib.c\<close>.
  \<^item> \<open>String_Ops\<close>, \<open>Config_File\<close>: searching and rewriting setting files.
  \<^item> \<open>Io_File\<close>: the disk format, \<open>file_io_open\<close> to \<open>file_io_close\<close>, the flag block, over a block
    device whose transfers may be short or refused.
  \<^item> \<open>Frame_Store\<close>, \<open>Frame_Play\<close>, \<open>Frame_Runs\<close>: the record-write buffer, the read buffer and the
    pair of files behind them (\<open>FS_WriteOneFrame\<close>, \<open>ReadOneFrame\<close> and what they call in
    \<open>FSfileoperate.c\<close>); whole recordings and playbacks with their properties. \<open>recording\<close> and
    \<open>playing\<close> are the invariants, a list of frames the abstract content of a pair of files.
  \<^item> \<open>Message_Log\<close>: what the log files share. A log in memory (\<open>mlog\<close>: the entries and the use
    header), its file, and the load, position, header and entry writes, create and clear that the
    source repeats per log, over the answers of stdio (a write completes, is refused, or is torn).
    Locale \<open>ring_log\<close> is the contract of a log that keeps its last \<open>n\<close> entries in order, and
    \<open>log_writer\<close> that of an operation that writes to a log; both are interpreted on the
    operations of the code.
  \<^item> \<open>Record_Log\<close>: the recording log of \<open>FSrecordop.c\<close> with its creation and clearing in
    \<open>FSfileoperate.c\<close>; interpretation \<open>sessions\<close>.
  \<^item> \<open>Time_Marks\<close>: the time-stick log, marks of one minute merged per channel mask;
    interpretation \<open>stick\<close>.
  \<^item> \<open>Alarm_Log\<close>: \<open>FSalarmop.c\<close> and \<open>FSEventInfo.c\<close>; interpretation \<open>events\<close>.
  \<^item> \<open>File_Table\<close>: \<open>FSfileinfoop.c\<close> and \<open>FSdiskinfoop.c\<close> with the functions that create and clear the
    two logs. Locale \<open>entry_table\<close> is the contract of a table of entries (what is read after a
    write, here and elsewhere); interpretation \<open>tables\<close>.
  \<^item> \<open>Rec_Control\<close>: choosing, opening and finishing the file to record to
    (\<open>FS_GetRecondFileName\<close>, \<open>FS_OpenRecFile\<close>, \<open>RecWriteOver\<close>), opening and closing a file for
    playing, and clearing the logs of an overwritten file. \<open>rec_system\<close> gathers the frame store,
    the tables, the disk states and the logs. \<open>Rec_Runs\<close> composes them: a whole recording
    followed by a playback, the search for a free file, a new disk.
  \<^item> \<open>Rec_Repair\<close>: the repair of interrupted recordings (\<open>FS_FixFileInfo\<close>, \<open>FS_FixFile\<close>) and
    \<open>FS_BuildFileSystem\<close>.
  \<^item> \<open>Aes_EnDe\<close>: the cipher of \<open>AES_EnDe.c\<close> over its static arrays, beside a FIPS-197 reference
    over the field of bytes.

  \<^bold>\<open>How C is read.\<close> A C function is a HOL function with the state it changes passed in and out.
  The result is an option where the code can leave its objects or not return: \<open>None\<close> is an
  access outside every live object, or a loop that does not end. The return codes (1, -1, the
  \<open>ERROR\<close> constants) stay the integers of the source. \<open>unsigned int\<close> and \<open>unsigned long\<close> are
  32-bit words where they can wrap (ring positions, sizes, counters, the comparisons that turn
  unsigned); an \<open>int\<close> that cannot overflow is an \<open>int\<close>. Answers of \<open>malloc\<close>, \<open>open\<close>, \<open>fopen\<close>, the
  sockets and the clock are arguments; an uninitialised local
  that the code tests or copies is an argument too. Operations that the source runs under one mutex are
  one atomic step, so an interleaving of threads is a sequence of such steps.

  \<^bold>\<open>What is shown.\<close>
  \<^item> Order: every accepted interleaving of producers and consumers on the recording ring, the
    network ring, the slot ring and the sender ring delivers the frames unchanged and in
    order. The proofs go from the two-piece copies of the byte ring through the invariant
    \<open>cb_ok\<close> to the contract \<open>frame_queue\<close>.
  \<^item> Connections: over every interleaving of the threads and every way the kernel splits the transfers
    the callback of the receiver is given the commands in the order they were sent; what the NVR protocol
    carries and what it changes; which lengths leave the receiver's arrays. A served connection comes down
    in at most twelve steps and frees its slot; the races in which the code loses a slot or a
    descriptor, or waits for itself.
  \<^item> The view server: its slots stay consistent as long as there is room; a slot is logged in only for a
    connection that presented a password of the table, unless the slot was given up for sound; the reply and the
    outcome of every login; and what the code gets wrong: the eighteenth connection, the length of the
    login message, commands that need no login, a login that is inherited, a frame sent to the \<open>k\<close>-th viewer \<open>k\<close> times.
  \<^item> Memory safety and bounds: no ring operation leaves its block; which gates suffice for the
    following insert and which do not (the network gate compares unsigned and never closes).
  \<^item> The list: the form of the list and its bound under insertion and eviction, lookup by
    number, survival of locked items, total release, and the ways the code breaks these (a
    stale head pointer after draining, an eviction loop that readers can keep alive).
  \<^item> The disk: formatting lays out contiguous extents under any short transfers; every file of
    a fresh disk opens; files do not disturb each other under any sequence of calls and kernel
    answers; bytes written and synced are read back.
  \<^item> Frames on the disk: no frame given to the recorder is lost, whatever the kernel answers,
    what was recorded plays back exactly, a recording goes on in the file it stopped in; and the
    frames the code does lose, repeats from another file or crashes on.
  \<^item> Recording control: when a file is free the recorder finds it, what is recorded through it is
    played back through it, and all other entries and tables are as before; playing restores the
    table; after the repair no entry is marked as in use; a new table has one entry per pair of
    files of the formatted disk, all inside the partition; entries are read back as written.
  \<^item> The logs: after any number of entries the file and the memory hold the last ones in order,
    also when the ring has wrapped; writing one disk's or one kind of log leaves the others as
    they are under every answer of stdio; clearing and deleting lost recordings; the merging of
    time marks; the start and end of alarms and recordings; and the ways a failed or missing file
    shows (a crash, entries of two disks mixed).
  \<^item> AES: with a 128-bit key the C functions are FIPS-197 AES-128, decryption inverts encryption,
    and the arrays keep their sizes; with the longer keys the key schedule is written past its
    array.
  \<^item> The codecs and setting files: round trips, quantisation bounds, the first occurrence of a
    key, and what a rewrite leaves alone.
  Where the code does not do what it means to, the theorem states what it does, and says so.

  \<^bold>\<open>Loops and bounds.\<close> Loops over counters are structural recursion on the number of rounds
  left. The walks over linked nodes and the eviction loops are \<open>partial_function (option)\<close>: not
  returning is the value \<open>None\<close>, the theorems show \<open>Some\<close> where the code returns, and for the
  loop of \<open>DC_InsertListData\<close> both
  outcomes are characterised. The transfer loops of \<open>IOFile.c\<close> terminate by a measure of the
  bytes left and the \<open>EAGAIN\<close> retries left, the scan of \<open>FS_FixFile\<close> by the bytes left in the
  header file; the loops over the socket by the bytes left. The retry loop of \<open>FS_OpenRecFile\<close> (\<open>ask_again\<close>, \<open>open_rec_file\<close>) is a
  \<open>partial_function\<close>, and \<open>next_free_file_found\<close> shows where it returns.

  \<^bold>\<open>Not modelled.\<close> Driver ioctls and SDK calls, sockets, thread creation, the clock, partitioning
  and shell commands; the vendor samples under \<open>goke\<close> and \<open>3516\<close>, the partition tools under
  \<open>fdiskdll\<close> and the rate control taken over from xvid, which are other people's code;
  \<open>destroy_cycle_buffer\<close> (it only frees), \<open>disk_io_check_disk_size\<close> (a destructive capacity
  probe). Of the recorder, the threads of \<open>FTC*.c\<close> that call it, the search for a play position by
  time, USB export and audio files are not modelled; nor is \<open>share_mem.c\<close>. Of \<open>NetModule.c\<close> the name
  lookup, the socket options and the set-up of the listening socket are left out: they only call the
  kernel. Of \<open>netserver.c\<close> the thread of the sound sockets, UPnP, DHCP and the
  helpers around the web server are left out, and the answers of the program to its commands are arguments (\<open>host\<close>).
\<close>

end
